(* ===== verification/Prelude.thy ===== *)
theory Prelude
  imports Main "HOL-Library.Word"
begin

unbundle bit_operations_syntax

text \<open>
  Shared vocabulary of the development: the machine integer types of the C sources, the byte
  addressed memory that the kernel code reads and writes through pointers, little endian loads
  and stores of multi-byte values, and the generic lemmas on words that the components use.

  The collections \<open>mem_simps\<close> (loads after stores) and \<open>addr_simps\<close> (page and entry addresses)
  carry the component proofs.
\<close>

section \<open>Machine types\<close>

type_synonym u8 = "8 word"
type_synonym u16 = "16 word"
type_synonym u32 = "32 word"
type_synonym u64 = "64 word"

text \<open>Arithmetic of type \<open>int\<close>: the exact result, taken back into 32 bits.\<close>

definition int32 :: "int \<Rightarrow> int" where
  "int32 x = sint (word_of_int x :: u32)"

lemma int32_id: "- (2 ^ 31) \<le> x \<Longrightarrow> x < 2 ^ 31 \<Longrightarrow> int32 x = x"
  by (simp add: int32_def sint_sbintrunc' signed_take_bit_int_eq_self)

lemma int32_range: "- (2 ^ 31) \<le> int32 x \<and> int32 x < 2 ^ 31"
  using sint_range_size [of "word_of_int x :: u32"] by (simp add: int32_def word_size)

text \<open>Memory, addressed by 64-bit pointers; \<open>NULL\<close> is address 0.\<close>

type_synonym mem = "u64 \<Rightarrow> u8"

named_theorems mem_simps
named_theorems addr_simps

abbreviation NULL :: u64 where "NULL \<equiv> 0"

lemma unat_less_2p64: "unat (a :: u64) < 2 ^ 64"
  using unsigned_less [of a] by simp

lemma unat_inc: "f < (n :: u64) \<Longrightarrow> unat (f + 1) = Suc (unat f)"
  using unat_less_2p64 [of n] by (simp add: word_less_nat_alt unat_word_ariths)

text \<open>Below a bound that \<open>d\<close> divides, a multiple of \<open>d\<close> leaves room for \<open>d\<close> more.\<close>

lemma dvd_less_add:
  assumes "d dvd x" "d dvd N" "i < (d :: nat)" "x < N"
  shows "x + i < N"
proof -
  have "d dvd N - x" "0 < N - x" using assms by simp_all
  then have "d \<le> N - x" by (rule dvd_imp_le)
  then show ?thesis using assms(3,4) by simp
qed

text \<open>A word is its upper part and its lowest three bits (byte index and bit index of a bitmap).\<close>

lemma word_split3: "f = g \<longleftrightarrow> drop_bit 3 f = drop_bit 3 g \<and> f AND 7 = g AND (7 :: u64)"
proof -
  have "x AND 7 = take_bit 3 x" for x :: u64
    by (simp add: take_bit_eq_mask mask_numeral)
  then show ?thesis by (metis bits_ident)
qed

section \<open>Undefined behaviour\<close>

text \<open>
  What C leaves undefined and the kernel can run into is a value of its own: an access outside
  an array, and a dereference of an address that holds no object of the expected type.
\<close>

datatype fault = OutOfBounds | BadPointer

section \<open>Little endian loads and stores\<close>

definition store_le :: "nat \<Rightarrow> mem \<Rightarrow> u64 \<Rightarrow> 'a::len word \<Rightarrow> mem" where
  "store_le n m a v =
     (\<lambda>x. if unat (x - a) < n then ucast (drop_bit (8 * unat (x - a)) v) else m x)"

fun load_le :: "nat \<Rightarrow> mem \<Rightarrow> u64 \<Rightarrow> 'a::len word" where
  "load_le 0 m a = 0"
| "load_le (Suc n) m a = ucast (m a) OR push_bit 8 (load_le n m (a + 1))"

definition load64 :: "mem \<Rightarrow> u64 \<Rightarrow> u64" where
  "load64 m a = load_le 8 m a"

definition store64 :: "mem \<Rightarrow> u64 \<Rightarrow> u64 \<Rightarrow> mem" where
  "store64 m a v = store_le 8 m a v"

lemma bit_load_le:
  "bit (load_le n m a :: 'a::len word) k \<longleftrightarrow>
     k < 8 * n \<and> k < LENGTH('a) \<and> bit (m (a + of_nat (k div 8))) (k mod 8)"
proof (induction n arbitrary: a k)
  case 0
  then show ?case by simp
next
  case (Suc n)
  show ?case
  proof (cases "k < 8")
    case True
    then show ?thesis
      by (auto simp: bit_or_iff bit_push_bit_iff bit_ucast_iff)
  next
    case False
    then have k: "(k - 8) mod 8 = k mod 8" "k div 8 = Suc ((k - 8) div 8)"
      by (simp_all add: le_mod_geq le_div_geq)
    have "\<not> bit (m a) k"
      using False bit_imp_le_length [of "m a" k] by auto
    with False Suc.IH [of "a + 1" "k - 8"] k show ?thesis
      by (auto simp: bit_or_iff bit_push_bit_iff bit_ucast_iff algebra_simps)
  qed
qed

lemma store_le_inside [simp]:
  "unat (x - a) < n \<Longrightarrow> store_le n m a v x = ucast (drop_bit (8 * unat (x - a)) v)"
  by (simp add: store_le_def)

lemma store_le_outside [simp]: "\<not> unat (x - a) < n \<Longrightarrow> store_le n m a v x = m x"
  by (simp add: store_le_def)

lemma load_store_le:
  assumes "n \<le> 8" "8 * n = LENGTH('a)"
  shows "load_le n (store_le n m a v) a = (v :: 'a::len word)"
proof (rule bit_word_eqI)
  fix k assume k: "k < LENGTH('a)"
  then have "k div 8 < n" using assms(2) by auto
  moreover have "unat (of_nat (k div 8) :: u64) = k div 8"
    using \<open>k div 8 < n\<close> assms(1) by (simp add: unat_of_nat)
  ultimately have i: "unat (a + of_nat (k div 8) - a) = k div 8" "k div 8 < n"
    by simp_all
  have "bit (store_le n m a v (a + of_nat (k div 8))) (k mod 8) = bit v (8 * (k div 8) + k mod 8)"
    by (subst store_le_inside) (use i in \<open>simp_all add: bit_ucast_iff bit_drop_bit_eq\<close>)
  then show "bit (load_le n (store_le n m a v) a :: 'a word) k = bit v k"
    using k assms(2) by (simp add: bit_load_le)
qed

lemma load_le_cong:
  "(\<And>i. i < n \<Longrightarrow> m (a + of_nat i) = m' (a + of_nat i)) \<Longrightarrow> load_le n m a = load_le n m' a"
  by (rule bit_word_eqI) (auto simp: bit_load_le)

lemma load_store_le_disjoint:
  assumes "\<And>i. i < n \<Longrightarrow> k \<le> unat (a + of_nat i - b)"
  shows "load_le n (store_le k m b v) a = load_le n m a"
proof (rule load_le_cong)
  fix i assume "i < n"
  then have "\<not> unat (a + of_nat i - b) < k"
    using assms by (simp add: linorder_not_less)
  then show "store_le k m b v (a + of_nat i) = m (a + of_nat i)"
    by (rule store_le_outside)
qed

lemma load_store64 [mem_simps]: "load64 (store64 m a v) a = v"
  by (simp add: load64_def store64_def load_store_le)

text \<open>Two different cells of eight bytes, both aligned, do not overlap.\<close>

definition aligned8 :: "u64 \<Rightarrow> bool" where
  "aligned8 a \<longleftrightarrow> 8 dvd unat a"

lemma unat_diff_aligned8:
  assumes "aligned8 a" "aligned8 b"
  shows "aligned8 (a - b)"
  using assms unfolding aligned8_def
  by (simp add: unat_sub_if')


lemma load64_store64_other [mem_simps]:
  assumes "aligned8 a" "aligned8 b" "a \<noteq> b"
  shows "load64 (store64 m b v) a = load64 m a"
  unfolding load64_def store64_def
proof (rule load_store_le_disjoint)
  fix i :: nat assume "i < 8"
  have al: "8 dvd unat (a - b)" using unat_diff_aligned8 [OF assms(1,2)] by (simp add: aligned8_def)
  moreover have "unat (a - b) \<noteq> 0" using assms(3) by (simp add: unat_eq_0)
  ultimately have "8 \<le> unat (a - b)" by (simp add: dvd_imp_le)
  moreover have "unat (a - b) + i < 2 ^ 64"
    using dvd_less_add [OF al _ \<open>i < 8\<close>, of "2 ^ 64"] unat_less_2p64 [of "a - b"] by simp
  moreover have "unat (of_nat i :: u64) = i" using \<open>i < 8\<close> by (simp add: unat_of_nat)
  ultimately have "8 \<le> unat ((a - b) + of_nat i)" by (subst unat_add_lem [THEN iffD1]) simp_all
  then show "8 \<le> unat (a + of_nat i - b)" by (simp add: algebra_simps)
qed

section \<open>Pages and page-sized tables of 64-bit entries\<close>

definition page_aligned :: "u64 \<Rightarrow> bool" where
  "page_aligned a \<longleftrightarrow> 4096 dvd unat a"

lemma unat_entry_addr:
  assumes "page_aligned t" "i < (512 :: u64)"
  shows "unat (t + 8 * i) = unat t + 8 * unat i"
proof -
  have i: "unat i < 512" using assms(2) by (simp add: word_less_nat_alt)
  have "unat t + 8 * unat i < 2 ^ 64"
    using dvd_less_add [of 4096 "unat t" "2 ^ 64" "8 * unat i"] assms(1) i unat_less_2p64 [of t]
    by (simp add: page_aligned_def)
  then show ?thesis using i by (simp add: unat_word_ariths)
qed

lemma entry_addr_aligned8:
  "page_aligned t \<Longrightarrow> i < (512 :: u64) \<Longrightarrow> aligned8 (t + 8 * i)"
  unfolding aligned8_def
  by (simp add: unat_entry_addr) (simp add: page_aligned_def dvd_trans [of 8 4096])

lemma entry_addr_inject:
  assumes "page_aligned t" "i < (512 :: u64)" "page_aligned t'" "i' < (512 :: u64)"
  shows "t + 8 * i = t' + 8 * i' \<longleftrightarrow> t = t' \<and> i = i'"
proof
  assume "t + 8 * i = t' + 8 * i'"
  then have "unat t + 8 * unat i = unat t' + 8 * unat i'"
    using assms by (metis unat_entry_addr)
  moreover have "unat i < 512" "unat i' < 512" using assms by (simp_all add: word_less_nat_alt)
  moreover obtain q q' where "unat t = 4096 * q" "unat t' = 4096 * q'"
    using assms(1,3) by (auto simp: page_aligned_def dvd_def)
  ultimately have "unat t = unat t' \<and> unat i = unat i'"
    by (cases q q' rule: linorder_cases) auto
  then show "t = t' \<and> i = i'" by (simp add: word_unat_eq_iff)
qed simp

text \<open>Entry \<open>i\<close> of the table of 512 quadwords at \<open>t\<close>.\<close>

definition tbl_get :: "mem \<Rightarrow> u64 \<Rightarrow> u64 \<Rightarrow> u64" where
  "tbl_get m t i = load64 m (t + 8 * i)"

definition tbl_set :: "mem \<Rightarrow> u64 \<Rightarrow> u64 \<Rightarrow> u64 \<Rightarrow> mem" where
  "tbl_set m t i v = store64 m (t + 8 * i) v"

lemma tbl_get_set_same [mem_simps]: "tbl_get (tbl_set m t i v) t i = v"
  by (simp add: tbl_get_def tbl_set_def mem_simps)

lemma tbl_get_set [mem_simps]:
  assumes "page_aligned t" "i < 512" "page_aligned t'" "i' < 512"
  shows "tbl_get (tbl_set m t' i' v) t i = (if t = t' \<and> i = i' then v else tbl_get m t i)"
  using assms
  by (auto simp: tbl_get_def tbl_set_def mem_simps entry_addr_inject entry_addr_aligned8)

text \<open>Clearing the low bits of an address rounds it down.\<close>

lemma unat_and_not_mask: "unat (x AND NOT (mask n) :: 'a::len word) = unat x - unat x mod 2 ^ n"
proof -
  have "x - (x AND mask n) = x AND NOT (x AND mask n)" by (rule disjunctive_diff) (simp add: bit_and_iff)
  also have "\<dots> = x AND NOT (mask n)"
    by (rule bit_word_eqI) (auto simp: bit_and_iff bit_not_iff bit_or_iff)
  finally have e: "x AND NOT (mask n) = x - (x AND mask n)" by simp
  have m: "unat (x AND mask n) = unat x mod 2 ^ n" 
    unfolding take_bit_eq_mask [symmetric] unsigned_take_bit_eq by (simp add: take_bit_eq_mod)
  have "x AND mask n \<le> x" by (rule word_and_le2)
  then show ?thesis unfolding e by (simp add: unat_sub m)
qed

end
