(* ===== verification/Pmm.thy ===== *)
theory Pmm
  imports Prelude
begin

text \<open>
  The physical memory manager, \<^verbatim>\<open>mm/pmm.c\<close>: a bitmap with one bit per 4 KiB frame (0 free,
  1 used), the number of frames it manages and the number of frames in use. The state is the
  record \<open>pmm\<close>, one definition per C function; the loops over frame numbers are recursive
  functions on 64-bit words. The bitmap of \<open>MAX_FRAMES / 8\<close> bytes is a function of the byte
  index; the accesses that can leave it (\<open>pmm_alloc_contiguous\<close>) are checked and give
  \<open>OutOfBounds\<close>.

  The interface other components rely on is the locale \<open>frame_allocator\<close>, interpreted here.
\<close>

section \<open>State and operations\<close>

definition PAGE_SIZE :: u64 where "PAGE_SIZE = 4096"
definition MAX_FRAMES :: u64 where "MAX_FRAMES = 1024 * 1024"
definition RESERVE_LOW :: u64 where "RESERVE_LOW = 2 * 1024 * 1024"

lemmas pmm_consts = PAGE_SIZE_def MAX_FRAMES_def RESERVE_LOW_def

record e820_entry =
  e_base :: u64
  e_len :: u64
  e_type :: u32
  e_acpi :: u32

record pmm =
  g_bitmap :: "u64 \<Rightarrow> u8"
  g_total_frames :: u64
  g_used_frames :: u64

definition bm_set :: "pmm \<Rightarrow> u64 \<Rightarrow> pmm" where
  "bm_set s f = s\<lparr>g_bitmap := (g_bitmap s)
     (drop_bit 3 f := g_bitmap s (drop_bit 3 f) OR push_bit (unat (f AND 7)) 1)\<rparr>"

definition bm_clear :: "pmm \<Rightarrow> u64 \<Rightarrow> pmm" where
  "bm_clear s f = s\<lparr>g_bitmap := (g_bitmap s)
     (drop_bit 3 f := g_bitmap s (drop_bit 3 f) AND NOT (push_bit (unat (f AND 7)) 1))\<rparr>"

definition bm_test :: "pmm \<Rightarrow> u64 \<Rightarrow> bool" where
  "bm_test s f \<longleftrightarrow> g_bitmap s (drop_bit 3 f) AND push_bit (unat (f AND 7)) 1 \<noteq> 0"

text \<open>\<open>pmm_init\<close>: its four loops, then the function.\<close>

function pmm_release_range :: "pmm \<Rightarrow> u64 \<Rightarrow> u64 \<Rightarrow> pmm" where
  "pmm_release_range s f stop =
     (if f < stop \<and> f < MAX_FRAMES then pmm_release_range (bm_clear s f) (f + 1) stop else s)"
  by pat_completeness auto
termination
  by (relation "measure (\<lambda>(s, f, stop). unat stop - unat f)")
    (auto simp: unat_inc word_less_nat_alt)

definition e820_start :: "e820_entry \<Rightarrow> u64" where
  "e820_start e = (e_base e + PAGE_SIZE - 1) div PAGE_SIZE"

definition e820_stop :: "e820_entry \<Rightarrow> u64" where
  "e820_stop e = (e_base e + e_len e) div PAGE_SIZE"

definition pmm_init_entry :: "pmm \<Rightarrow> e820_entry \<Rightarrow> pmm" where
  "pmm_init_entry s e =
     (if e_type e \<noteq> 1 then s
      else let s1 = pmm_release_range s (e820_start e) (e820_stop e)
           in if g_total_frames s1 < e820_stop e then s1\<lparr>g_total_frames := e820_stop e\<rparr> else s1)"

function pmm_reserve_range :: "pmm \<Rightarrow> u64 \<Rightarrow> u64 \<Rightarrow> pmm" where
  "pmm_reserve_range s f stop =
     (if f < stop then pmm_reserve_range (bm_set s f) (f + 1) stop else s)"
  by pat_completeness auto
termination
  by (relation "measure (\<lambda>(s, f, stop). unat stop - unat f)")
    (auto simp: unat_inc word_less_nat_alt)

function pmm_count_used :: "pmm \<Rightarrow> u64 \<Rightarrow> u64 \<Rightarrow> u64" where
  "pmm_count_used s f n =
     (if f < g_total_frames s then pmm_count_used s (f + 1) (if bm_test s f then n + 1 else n)
      else n)"
  by pat_completeness auto
termination
  by (relation "measure (\<lambda>(s, f, n). unat (g_total_frames s) - unat f)")
    (auto simp: unat_inc word_less_nat_alt)

definition pmm_init :: "e820_entry list \<Rightarrow> pmm" where
  "pmm_init e =
     (let s0 = \<lparr>g_bitmap = (\<lambda>_. 0xFF), g_total_frames = 0, g_used_frames = 0\<rparr>;
          s1 = foldl pmm_init_entry s0 e;
          s2 = (if MAX_FRAMES < g_total_frames s1 then s1\<lparr>g_total_frames := MAX_FRAMES\<rparr> else s1);
          s3 = pmm_reserve_range s2 0 (RESERVE_LOW div PAGE_SIZE)
      in s3\<lparr>g_used_frames := pmm_count_used s3 0 0\<rparr>)"

function pmm_alloc_scan :: "pmm \<Rightarrow> u64 \<Rightarrow> u64 option" where
  "pmm_alloc_scan s f =
     (if f < g_total_frames s
      then if \<not> bm_test s f then Some f else pmm_alloc_scan s (f + 1)
      else None)"
  by pat_completeness auto
termination
  by (relation "measure (\<lambda>(s, f). unat (g_total_frames s) - unat f)")
    (auto simp: unat_inc word_less_nat_alt)

definition pmm_take :: "pmm \<Rightarrow> u64 \<Rightarrow> pmm" where
  "pmm_take s f = (bm_set s f)\<lparr>g_used_frames := g_used_frames s + 1\<rparr>"

definition pmm_alloc :: "pmm \<Rightarrow> u64 \<times> pmm" where
  "pmm_alloc s =
     (case pmm_alloc_scan s 0 of
        Some f \<Rightarrow> (f * PAGE_SIZE, pmm_take s f)
      | None \<Rightarrow> (NULL, s))"

text \<open>
  \<open>pmm_alloc_contiguous\<close>: the inner loop tests frames \<open>f + i\<close>; nothing in the code keeps
  \<open>f + i\<close> inside the bitmap when \<open>g_total_frames - count\<close> wraps around.
\<close>

function pmm_window_free :: "pmm \<Rightarrow> u64 \<Rightarrow> u64 \<Rightarrow> u64 \<Rightarrow> fault + bool" where
  "pmm_window_free s f i count =
     (if i < count
      then if MAX_FRAMES \<le> f + i then Inl OutOfBounds
           else if bm_test s (f + i) then Inr False
           else pmm_window_free s f (i + 1) count
      else Inr True)"
  by pat_completeness auto
termination
  by (relation "measure (\<lambda>(s, f, i, count). unat count - unat i)")
    (auto simp: unat_inc word_less_nat_alt)

function pmm_contiguous_scan :: "pmm \<Rightarrow> u64 \<Rightarrow> u64 \<Rightarrow> fault + u64 option" where
  "pmm_contiguous_scan s f count =
     (if f < g_total_frames s - count
      then case pmm_window_free s f 0 count of
             Inl e \<Rightarrow> Inl e
           | Inr True \<Rightarrow> Inr (Some f)
           | Inr False \<Rightarrow> pmm_contiguous_scan s (f + 1) count
      else Inr None)"
  by pat_completeness auto
termination
  by (relation "measure (\<lambda>(s, f, count). unat (g_total_frames s - count) - unat f)")
    (auto simp: unat_inc word_less_nat_alt)

function bm_set_window :: "pmm \<Rightarrow> u64 \<Rightarrow> u64 \<Rightarrow> u64 \<Rightarrow> pmm" where
  "bm_set_window s f i count =
     (if i < count then bm_set_window (bm_set s (f + i)) f (i + 1) count else s)"
  by pat_completeness auto
termination
  by (relation "measure (\<lambda>(s, f, i, count). unat count - unat i)")
    (auto simp: unat_inc word_less_nat_alt)

definition pmm_alloc_contiguous :: "pmm \<Rightarrow> u64 \<Rightarrow> fault + u64 \<times> pmm" where
  "pmm_alloc_contiguous s count =
     (if count = 0 then Inr (NULL, s)
      else if count = 1 then Inr (pmm_alloc s)
      else case pmm_contiguous_scan s 0 count of
             Inl e \<Rightarrow> Inl e
           | Inr None \<Rightarrow> Inr (NULL, s)
           | Inr (Some f) \<Rightarrow>
               Inr (f * PAGE_SIZE,
                    (bm_set_window s f 0 count)\<lparr>g_used_frames := g_used_frames s + count\<rparr>))"

definition pmm_free :: "pmm \<Rightarrow> u64 \<Rightarrow> pmm" where
  "pmm_free s frame =
     (let f = frame div PAGE_SIZE
      in if f < g_total_frames s \<and> bm_test s f
         then (bm_clear s f)\<lparr>g_used_frames := g_used_frames s - 1\<rparr> else s)"

definition pmm_total_bytes :: "pmm \<Rightarrow> u64" where
  "pmm_total_bytes s = g_total_frames s * PAGE_SIZE"

definition pmm_free_bytes :: "pmm \<Rightarrow> u64" where
  "pmm_free_bytes s = (g_total_frames s - g_used_frames s) * PAGE_SIZE"

declare pmm_release_range.simps [simp del] pmm_reserve_range.simps [simp del]
  pmm_count_used.simps [simp del] pmm_alloc_scan.simps [simp del]
  pmm_window_free.simps [simp del] pmm_contiguous_scan.simps [simp del]
  bm_set_window.simps [simp del]

section \<open>The bitmap\<close>

lemma bm_test_bit: "bm_test s f \<longleftrightarrow> bit (g_bitmap s (drop_bit 3 f)) (unat (f AND 7))"
  by (simp add: bm_test_def and_exp_eq_0_iff_not_bit flip: push_bit_eq_mult)

lemma bit_index_less: "unat (f AND (7 :: u64)) < 8"
proof -
  have "f AND 7 \<le> 7" by (rule word_and_le1)
  then show ?thesis by (simp add: word_le_nat_alt)
qed

lemma bm_test_set [simp]: "bm_test (bm_set s f) g \<longleftrightarrow> g = f \<or> bm_test s g"
  using bit_index_less [of f] bit_index_less [of g]
  by (auto simp: bm_test_bit bm_set_def bit_or_iff bit_exp_iff word_split3 [of g f]
      simp flip: word_unat_eq_iff)

lemma bm_test_clear [simp]: "bm_test (bm_clear s f) g \<longleftrightarrow> g \<noteq> f \<and> bm_test s g"
  using bit_index_less [of f] bit_index_less [of g]
  by (auto simp: bm_test_bit bm_clear_def bit_and_iff bit_not_iff bit_exp_iff word_split3 [of g f]
      simp flip: word_unat_eq_iff)

lemma bm_fields [simp]:
  "g_total_frames (bm_set s f) = g_total_frames s" "g_used_frames (bm_set s f) = g_used_frames s"
  "g_total_frames (bm_clear s f) = g_total_frames s" "g_used_frames (bm_clear s f) = g_used_frames s"
  by (simp_all add: bm_set_def bm_clear_def)

lemma bm_test_update [simp]:
  "bm_test (s\<lparr>g_total_frames := n\<rparr>) = bm_test s" "bm_test (s\<lparr>g_used_frames := n\<rparr>) = bm_test s"
  by (simp_all add: bm_test_def fun_eq_iff)

section \<open>Loops over frames\<close>

lemma word_Suc_le: "f < (n :: u64) \<Longrightarrow> f + 1 \<le> g \<longleftrightarrow> f < g"
  by (simp add: word_less_nat_alt word_le_nat_alt unat_inc Suc_le_eq)

lemma word_le_split: "f < (n :: u64) \<Longrightarrow> f \<le> g \<longleftrightarrow> g = f \<or> f + 1 \<le> g"
  by (metis word_Suc_le order_le_less)

lemma word_range_insert:
  "f < (n :: u64) \<Longrightarrow> {g. f \<le> g \<and> g < n \<and> P g} =
     (if P f then {f} else {}) \<union> {g. f + 1 \<le> g \<and> g < n \<and> P g}"
  by (auto simp: word_le_split [of f n])

lemma pmm_release_range_test [simp]:
  "bm_test (pmm_release_range s f stop) g \<longleftrightarrow>
     bm_test s g \<and> \<not> (f \<le> g \<and> g < stop \<and> g < MAX_FRAMES)"
proof (induction s f stop rule: pmm_release_range.induct)
  case (1 s f stop)
  then show ?case
    by (subst pmm_release_range.simps) (auto simp: word_le_split [of f stop g])
qed

lemma pmm_release_range_fields [simp]:
  "g_total_frames (pmm_release_range s f stop) = g_total_frames s"
  by (induction s f stop rule: pmm_release_range.induct)
    (subst pmm_release_range.simps, simp)

lemma pmm_reserve_range_test [simp]:
  "bm_test (pmm_reserve_range s f stop) g \<longleftrightarrow> bm_test s g \<or> (f \<le> g \<and> g < stop)"
proof (induction s f stop rule: pmm_reserve_range.induct)
  case (1 s f stop)
  then show ?case
    by (subst pmm_reserve_range.simps) (auto simp: word_le_split [of f stop g])
qed

lemma pmm_reserve_range_fields [simp]:
  "g_total_frames (pmm_reserve_range s f stop) = g_total_frames s"
  by (induction s f stop rule: pmm_reserve_range.induct)
    (subst pmm_reserve_range.simps, simp)

definition used_set :: "pmm \<Rightarrow> u64 set" where
  "used_set s = {f. f < g_total_frames s \<and> bm_test s f}"

definition free_set :: "pmm \<Rightarrow> u64 set" where
  "free_set s = {f. f < g_total_frames s \<and> \<not> bm_test s f}"

lemma card_words_below: "card {g. g < (n :: u64)} = unat n"
proof -
  have "bij_betw unat {g. g < n} {..<unat n}"
    by (rule bij_betw_byWitness [where f' = of_nat])
      (auto simp: word_less_nat_alt unat_of_nat mod_less order_less_trans [OF _ unat_less_2p64 [simplified]])
  then show ?thesis by (simp add: bij_betw_same_card)
qed

lemma pmm_count_used_card:
  assumes "unat n + card {g. f \<le> g \<and> g < g_total_frames s \<and> bm_test s g} < 2 ^ 64"
  shows "unat (pmm_count_used s f n) =
    unat n + card {g. f \<le> g \<and> g < g_total_frames s \<and> bm_test s g}"
  using assms
proof (induction s f n rule: pmm_count_used.induct)
  case (1 s f n)
  let ?R = "\<lambda>f. {g. f \<le> g \<and> g < g_total_frames s \<and> bm_test s g}"
  show ?case
  proof (cases "f < g_total_frames s")
    case True
    have "f \<notin> ?R (f + 1)" using word_Suc_le [OF True, of f] by simp
    then have "card (insert f (?R (f + 1))) = Suc (card (?R (f + 1)))"
      by (rule card_insert_disjoint [rotated]) simp
    then have card: "card (?R f) = (if bm_test s f then Suc (card (?R (f + 1))) else card (?R (f + 1)))"
      using True by (simp add: word_range_insert)
    show ?thesis
    proof (cases "bm_test s f")
      case T: True
      then have "unat (n + 1) = Suc (unat n)" using "1.prems" card by (simp add: unat_word_ariths)
      then show ?thesis using "1.IH" [OF True] "1.prems" card T True
        by (subst pmm_count_used.simps) simp
    next
      case False
      then show ?thesis using "1.IH" [OF True] "1.prems" card True
        by (subst pmm_count_used.simps) simp
    qed
  next
    case False
    then have "?R f = {}" by (auto dest: order_le_less_trans)
    then show ?thesis using False by (subst pmm_count_used.simps) simp
  qed
qed

lemma pmm_alloc_scan_Some:
  "pmm_alloc_scan s f = Some g \<Longrightarrow>
     f \<le> g \<and> g \<in> free_set s \<and> (\<forall>h. f \<le> h \<and> h < g \<longrightarrow> bm_test s h)"
proof (induction s f rule: pmm_alloc_scan.induct)
  case (1 s f)
  have f: "f < g_total_frames s"
    using "1.prems" by (simp add: pmm_alloc_scan.simps [of s f] split: if_splits)
  show ?case
  proof (cases "bm_test s f")
    case True
    then have "f + 1 \<le> g \<and> g \<in> free_set s \<and> (\<forall>h. f + 1 \<le> h \<and> h < g \<longrightarrow> bm_test s h)"
      using "1.IH" "1.prems" f by (simp add: pmm_alloc_scan.simps [of s f])
    then show ?thesis using True by (auto simp: word_le_split [OF f])
  next
    case False
    then have "g = f" using "1.prems" f by (simp add: pmm_alloc_scan.simps [of s f])
    then show ?thesis using False f by (auto simp: free_set_def)
  qed
qed

lemma pmm_alloc_scan_None:
  "pmm_alloc_scan s f = None \<Longrightarrow> f \<le> g \<Longrightarrow> g \<notin> free_set s"
proof (induction s f rule: pmm_alloc_scan.induct)
  case (1 s f)
  then show ?case
    by (auto simp: pmm_alloc_scan.simps [of s f] free_set_def word_le_split [of f "g_total_frames s"]
        split: if_splits)
qed


section \<open>Invariant\<close>

text \<open>
  The number of frames fits the bitmap, the counter agrees with the bitmap, and the frames below
  2 MiB are never available (so that address 0 can mean failure).
\<close>

definition pmm_inv :: "pmm \<Rightarrow> bool" where
  "pmm_inv s \<longleftrightarrow> g_total_frames s \<le> MAX_FRAMES \<and> unat (g_used_frames s) = card (used_set s) \<and>
     (\<forall>f < RESERVE_LOW div PAGE_SIZE. bm_test s f)"

lemma pmm_fields [simp]:
  "g_total_frames (pmm_take s f) = g_total_frames s"
  "bm_test (pmm_take s f) g \<longleftrightarrow> g = f \<or> bm_test s g"
  by (simp_all add: pmm_take_def)

lemma free_set_bounds:
  assumes "pmm_inv s" "f \<in> free_set s"
  shows "512 \<le> f" "f < MAX_FRAMES"
  using assms by (auto simp: pmm_inv_def free_set_def pmm_consts not_less [symmetric])

lemma card_used_bound: "card (used_set s) \<le> unat (g_total_frames s)"
proof -
  have "card (used_set s) \<le> card {g. g < g_total_frames s}"
    by (rule card_mono) (auto simp: used_set_def)
  then show ?thesis by (simp add: card_words_below)
qed

lemma frame_addr:
  assumes "512 \<le> (f :: u64)" "f < MAX_FRAMES"
  shows "unat (f * PAGE_SIZE) = unat f * 4096" "f * PAGE_SIZE \<noteq> NULL"
    "RESERVE_LOW \<le> f * PAGE_SIZE" "f * PAGE_SIZE div PAGE_SIZE = f" "page_aligned (f * PAGE_SIZE)"
proof -
  have f: "512 \<le> unat f" "unat f < 1048576"
    using assms by (simp_all add: word_le_nat_alt word_less_nat_alt pmm_consts)
  then show u: "unat (f * PAGE_SIZE) = unat f * 4096"
    by (simp add: pmm_consts unat_word_ariths)
  from u f show "f * PAGE_SIZE \<noteq> NULL" by (metis mult_eq_0_iff not_numeral_le_zero unat_0 zero_neq_numeral)
  from u f show "RESERVE_LOW \<le> f * PAGE_SIZE"
    by (simp add: word_le_nat_alt) (simp add: pmm_consts)
  from u show "f * PAGE_SIZE div PAGE_SIZE = f"
    by (simp add: word_unat_eq_iff unat_div) (simp add: pmm_consts)
  from u show "page_aligned (f * PAGE_SIZE)" by (simp add: page_aligned_def)
qed

lemma free_set_take: "f \<in> free_set s \<Longrightarrow> free_set (pmm_take s f) = free_set s - {f}"
  by (auto simp: free_set_def)

lemma pmm_inv_take:
  assumes "pmm_inv s" "f \<in> free_set s"
  shows "pmm_inv (pmm_take s f)"
proof -
  have used: "used_set (pmm_take s f) = insert f (used_set s)" "f \<notin> used_set s"
    using assms(2) by (auto simp: used_set_def free_set_def)
  have "unat (g_used_frames s) \<le> 1048576"
    using assms(1) card_used_bound [of s] by (simp add: pmm_inv_def word_le_nat_alt pmm_consts)
  then have "unat (g_used_frames s + 1) = Suc (unat (g_used_frames s))"
    by (simp add: unat_word_ariths)
  then show ?thesis
    using assms(1) used by (simp add: pmm_inv_def) (simp add: pmm_take_def)
qed

lemma pmm_alloc_cases:
  assumes "pmm_inv s"
  obtains (oom) "free_set s = {}" "pmm_alloc s = (NULL, s)"
  | (ok) f where "f \<in> free_set s" "\<forall>g\<in>free_set s. f \<le> g" "pmm_alloc s = (f * PAGE_SIZE, pmm_take s f)"
proof (cases "pmm_alloc_scan s 0")
  case None
  then have "free_set s = {}" using pmm_alloc_scan_None [OF None] by auto
  with None show ?thesis using oom by (simp add: pmm_alloc_def)
next
  case (Some f)
  from pmm_alloc_scan_Some [OF this] have "f \<in> free_set s" "\<forall>g\<in>free_set s. f \<le> g"
    by (auto simp: free_set_def not_less [symmetric])
  with Some show ?thesis using ok by (simp add: pmm_alloc_def)
qed

lemma bm_clear_set:
  assumes "\<not> bm_test s f"
  shows "bm_clear (bm_set s f) f = s"
proof -
  have "(b OR 2 ^ k) AND NOT (2 ^ k) = b" if "\<not> bit b k" for b :: u8 and k
    using that by (auto simp: bit_and_iff bit_or_iff bit_not_iff bit_exp_iff intro!: bit_word_eqI)
  then show ?thesis using assms by (simp add: bm_test_bit bm_clear_def bm_set_def)
qed

lemma bm_clear_used [simp]:
  "bm_clear (s\<lparr>g_used_frames := n\<rparr>) f = (bm_clear s f)\<lparr>g_used_frames := n\<rparr>"
  by (simp add: bm_clear_def)

section \<open>The allocator's contract\<close>

text \<open>
  What the paging code, the heap, the scheduler and the program loader rely on: an allocation
  gives a page-aligned non-null frame that was available and is no longer, it fails only when
  nothing is available, and giving the frame back restores the state.
\<close>

locale frame_allocator =
  fixes alloc :: "'s \<Rightarrow> u64 \<times> 's"
    and release :: "'s \<Rightarrow> u64 \<Rightarrow> 's"
    and avail :: "'s \<Rightarrow> u64 set"
    and ok :: "'s \<Rightarrow> bool"
  assumes alloc_ok: "ok s \<Longrightarrow> alloc s = (p, s') \<Longrightarrow> ok s'"
    and alloc_some: "ok s \<Longrightarrow> alloc s = (p, s') \<Longrightarrow> p \<noteq> NULL \<Longrightarrow>
      p \<in> avail s \<and> avail s' = avail s - {p}"
    and alloc_null: "ok s \<Longrightarrow> alloc s = (NULL, s') \<Longrightarrow> s' = s \<and> avail s = {}"
    and avail_frame: "ok s \<Longrightarrow> p \<in> avail s \<Longrightarrow> p \<noteq> NULL \<and> page_aligned p \<and> p < 2 ^ 32"
    and release_alloc: "ok s \<Longrightarrow> alloc s = (p, s') \<Longrightarrow> p \<noteq> NULL \<Longrightarrow> release s' p = s"
begin

lemma alloc_never_owned: "ok s \<Longrightarrow> alloc s = (p, s') \<Longrightarrow> p \<notin> avail s'"
  by (metis Diff_iff alloc_some avail_frame insertI1 alloc_null)

lemma alloc_avail_mono: "ok s \<Longrightarrow> alloc s = (p, s') \<Longrightarrow> avail s' \<subseteq> avail s"
  by (cases "p = NULL") (auto dest: alloc_null alloc_some)

text \<open>Two frames handed out one after the other are different frames.\<close>

lemma alloc_twice_distinct:
  assumes "ok s" "alloc s = (p, s1)" "alloc s1 = (q, s2)" "q \<noteq> NULL"
  shows "p \<noteq> q"
proof -
  have "q \<in> avail s1" using alloc_some [OF alloc_ok [OF assms(1,2)] assms(3,4)] by simp
  then show ?thesis using alloc_never_owned [OF assms(1,2)] by auto
qed

text \<open>Any run of allocations gives distinct frames, all of them from the initial pool.\<close>

fun alloc_run :: "nat \<Rightarrow> 's \<Rightarrow> u64 list \<times> 's" where
  "alloc_run 0 s = ([], s)"
| "alloc_run (Suc n) s =
     (case alloc s of (p, s1) \<Rightarrow>
        if p = NULL then ([], s1) else (case alloc_run n s1 of (ps, s2) \<Rightarrow> (p # ps, s2)))"

lemma alloc_run_distinct:
  "ok s \<Longrightarrow> alloc_run n s = (ps, s') \<Longrightarrow>
     distinct ps \<and> set ps \<subseteq> avail s \<and> avail s' = avail s - set ps \<and> ok s'"
proof (induction n arbitrary: s ps)
  case 0
  then show ?case by simp
next
  case (Suc n)
  obtain p s1 where a: "alloc s = (p, s1)" by force
  show ?case
  proof (cases "p = NULL")
    case True
    then show ?thesis
      using Suc.prems a alloc_null [OF Suc.prems(1) a [unfolded True]] by simp
  next
    case False
    obtain qs s2 where r: "alloc_run n s1 = (qs, s2)" by force
    with Suc.prems a False have ps: "ps = p # qs" "s' = s2" by auto
    have "distinct qs \<and> set qs \<subseteq> avail s1 \<and> avail s2 = avail s1 - set qs \<and> ok s2"
      using Suc.IH [OF alloc_ok [OF Suc.prems(1) a]] r ps by simp
    with alloc_some [OF Suc.prems(1) a False] show ?thesis unfolding ps by auto
  qed
qed

end

definition pmm_avail :: "pmm \<Rightarrow> u64 set" where
  "pmm_avail s = (\<lambda>f. f * PAGE_SIZE) ` free_set s"

lemma frame_addr_inject:
  assumes "pmm_inv s" "f \<in> free_set s" "g \<in> free_set s"
  shows "f * PAGE_SIZE = g * PAGE_SIZE \<longleftrightarrow> f = g"
  using assms frame_addr(4) free_set_bounds by metis

interpretation pmm_frames: frame_allocator pmm_alloc pmm_free pmm_avail pmm_inv
proof
  fix s s' :: pmm and p :: u64
  assume inv: "pmm_inv s"
  { assume a: "pmm_alloc s = (p, s')"
    from inv show "pmm_inv s'"
      by (cases rule: pmm_alloc_cases) (use a inv in \<open>auto intro: pmm_inv_take\<close>)
    assume nz: "p \<noteq> NULL"
    from inv show "p \<in> pmm_avail s \<and> pmm_avail s' = pmm_avail s - {p}"
    proof (cases rule: pmm_alloc_cases)
      case oom
      then show ?thesis using a nz by simp
    next
      case (ok f)
      then show ?thesis using a inv
        by (auto simp: pmm_avail_def free_set_take frame_addr_inject)
    qed
    from inv show "pmm_free s' p = s"
    proof (cases rule: pmm_alloc_cases)
      case oom
      then show ?thesis using a nz by simp
    next
      case (ok f)
      then show ?thesis using a inv frame_addr(4) [OF free_set_bounds [OF inv ok(1)]]
        by (simp add: pmm_free_def free_set_def pmm_take_def bm_clear_set)
    qed }
  { assume a: "pmm_alloc s = (NULL, s')"
    from inv show "s' = s \<and> pmm_avail s = {}"
      by (cases rule: pmm_alloc_cases)
        (use a inv frame_addr(2) [OF free_set_bounds [OF inv]] in \<open>auto simp: pmm_avail_def\<close>) }
  { assume "p \<in> pmm_avail s"
    then obtain f where f: "f \<in> free_set s" "p = f * PAGE_SIZE" by (auto simp: pmm_avail_def)
    note fa = frame_addr [OF free_set_bounds [OF inv f(1)]]
    have "p < 2 ^ 32" using fa(1) f free_set_bounds [OF inv f(1)]
      by (simp add: word_less_nat_alt pmm_consts)
    then show "p \<noteq> NULL \<and> page_aligned p \<and> p < 2 ^ 32" using f fa(2,5) by simp }
qed


section \<open>Boot: the pool described by the memory map\<close>

lemma pmm_init_entry_test:
  "bm_test (pmm_init_entry s e) g \<longleftrightarrow> bm_test s g \<and>
     \<not> (e_type e = 1 \<and> e820_start e \<le> g \<and> g < e820_stop e \<and> g < MAX_FRAMES)"
  by (simp add: pmm_init_entry_def Let_def)

lemma pmm_init_entry_total:
  "g_total_frames (pmm_init_entry s e) =
     (if e_type e = 1 then max (g_total_frames s) (e820_stop e) else g_total_frames s)"
  by (auto simp: pmm_init_entry_def Let_def max_def)

definition usable_frame :: "e820_entry list \<Rightarrow> u64 \<Rightarrow> bool" where
  "usable_frame es f \<longleftrightarrow> (\<exists>e\<in>set es. e_type e = 1 \<and> e820_start e \<le> f \<and> f < e820_stop e)"

lemma pmm_init_entries:
  "bm_test (foldl pmm_init_entry s es) g \<longleftrightarrow>
     bm_test s g \<and> \<not> (g < MAX_FRAMES \<and> usable_frame es g)"
  by (induction es arbitrary: s) (auto simp: usable_frame_def pmm_init_entry_test)

lemma pmm_init_total_ge:
  "g_total_frames s \<le> g_total_frames (foldl pmm_init_entry s es) \<and>
   (usable_frame es f \<longrightarrow> f < g_total_frames (foldl pmm_init_entry s es))"
proof (induction es arbitrary: s)
  case Nil
  then show ?case by (simp add: usable_frame_def)
next
  case (Cons e es)
  from Cons.IH [of "pmm_init_entry s e"] show ?case
    by (auto simp: usable_frame_def pmm_init_entry_total max_def split: if_splits
        dest: order_less_le_trans intro: order_trans)
qed

lemma bit_bytes: "k < 8 \<Longrightarrow> bit (0xFF :: u8) k" "k < 8 \<Longrightarrow> bit (0xFE :: u8) k \<longleftrightarrow> k \<noteq> 0"
  by (auto simp: bit_numeral_word_iff numeral_eq_Suc less_Suc_eq)

lemma pmm_init_unfold:
  fixes es
  defines "s1 \<equiv> foldl pmm_init_entry \<lparr>g_bitmap = (\<lambda>_. 0xFF), g_total_frames = 0, g_used_frames = 0\<rparr> es"
  shows "g_total_frames (pmm_init es) = min MAX_FRAMES (g_total_frames s1)"
    "bm_test (pmm_init es) g \<longleftrightarrow>
       g < RESERVE_LOW div PAGE_SIZE \<or> \<not> (g < MAX_FRAMES \<and> usable_frame es g)"
    "unat (g_used_frames (pmm_init es)) = card (used_set (pmm_init es))"
proof -
  let ?s2 = "if MAX_FRAMES < g_total_frames s1 then s1\<lparr>g_total_frames := MAX_FRAMES\<rparr> else s1"
  let ?s3 = "pmm_reserve_range ?s2 0 (RESERVE_LOW div PAGE_SIZE)"
  have I: "pmm_init es = ?s3\<lparr>g_used_frames := pmm_count_used ?s3 0 0\<rparr>"
    by (simp only: pmm_init_def Let_def s1_def)
  show tot: "g_total_frames (pmm_init es) = min MAX_FRAMES (g_total_frames s1)"
    by (auto simp: I min_def)
  have "bm_test (\<lparr>g_bitmap = (\<lambda>_. 0xFF), g_total_frames = 0, g_used_frames = 0\<rparr>) g" for g
    unfolding bm_test_bit by (simp only: pmm.simps bit_bytes(1) bit_index_less)
  then show "bm_test (pmm_init es) g \<longleftrightarrow>
       g < RESERVE_LOW div PAGE_SIZE \<or> \<not> (g < MAX_FRAMES \<and> usable_frame es g)"
    by (auto simp: I s1_def pmm_init_entries)
  have "card (used_set (pmm_init es)) \<le> 1048576"
    using card_used_bound [of "pmm_init es"] unfolding tot
    by (simp add: min_def word_le_nat_alt pmm_consts split: if_splits)
  then show "unat (g_used_frames (pmm_init es)) = card (used_set (pmm_init es))"
    using pmm_count_used_card [of 0 0 ?s3] by (simp add: I used_set_def)
qed

lemma pmm_init_inv: "pmm_inv (pmm_init es)"
  by (simp add: pmm_inv_def pmm_init_unfold)


section \<open>Allocation and release\<close>

text \<open>
  C2: an allocation fails exactly when no frame is free, and then changes nothing; otherwise it
  returns the address of the lowest free frame, which is at least 2 MiB, and that frame alone
  stops being free. The invariant is kept.
\<close>

theorem pmm_alloc_lowest:
  assumes "pmm_inv s" "pmm_alloc s = (p, s')"
  shows "pmm_inv s' \<and>
    (if free_set s = {} then p = NULL \<and> s' = s
     else \<exists>f \<in> free_set s. (\<forall>g \<in> free_set s. f \<le> g) \<and> p = f * PAGE_SIZE \<and>
       RESERVE_LOW \<le> p \<and> free_set s' = free_set s - {f})"
  using assms(1)
proof (cases rule: pmm_alloc_cases)
  case oom
  then show ?thesis using assms by simp
next
  case (ok f)
  then show ?thesis
    using assms frame_addr(3) [OF free_set_bounds [OF assms(1) ok(1)]]
    by (auto simp: free_set_take pmm_inv_take)
qed

text \<open>A pool of 520 frames in which only frame 512 is free.\<close>

definition pool_demo :: pmm where
  "pool_demo = \<lparr>g_bitmap = (\<lambda>i. if i = 64 then 0xFE else 0xFF), g_total_frames = 520, g_used_frames = 519\<rparr>"

lemma pool_demo_test: "bm_test pool_demo f \<longleftrightarrow> f \<noteq> 512"
proof -
  have "bm_test pool_demo f \<longleftrightarrow> drop_bit 3 f \<noteq> 64 \<or> f AND 7 \<noteq> 0"
    unfolding bm_test_bit pool_demo_def
    by (simp only: pmm.simps bit_bytes bit_index_less unat_eq_0 split: if_splits) blast
  then show ?thesis using word_split3 [of f 512] by auto
qed

lemma pool_demo_sets:
  "free_set pool_demo = {512}" "used_set pool_demo = {g. g < 520} - {512}"
  by (auto simp: free_set_def used_set_def pool_demo_test) (auto simp: pool_demo_def)

lemma pool_demo_inv: "pmm_inv pool_demo"
proof -
  have "card ({g. g < (520::u64)} - {512}) = 519"
    using card_words_below [of 520] by simp
  then show ?thesis
    by (auto simp: pmm_inv_def pool_demo_sets pool_demo_test pmm_consts)
      (auto simp: pool_demo_def)
qed

lemma pool_demo_alloc: "pmm_alloc pool_demo = (0x200000, pmm_take pool_demo 512)"
  using pool_demo_inv
  by (cases rule: pmm_alloc_cases) (auto simp: pool_demo_sets pmm_consts)

theorem pmm_alloc_lowest_witness:
  "pmm_inv pool_demo \<and> fst (pmm_alloc pool_demo) = 0x200000 \<and>
   pmm_inv (snd (pmm_alloc pool_demo)) \<and> free_set (snd (pmm_alloc pool_demo)) = {}"
  using pmm_alloc_lowest [OF pool_demo_inv pool_demo_alloc]
  by (simp add: pool_demo_inv pool_demo_alloc pool_demo_sets)

text \<open>
  Giving an allocated frame back restores the whole state, bitmap and counter.
\<close>

theorem pmm_free_undoes_alloc:
  assumes "pmm_inv s" "pmm_alloc s = (p, s')" "p \<noteq> NULL"
  shows "pmm_free s' p = s"
  using assms by (rule pmm_frames.release_alloc)

theorem pmm_free_undoes_alloc_witness:
  "pmm_inv pool_demo \<and> pmm_free (snd (pmm_alloc pool_demo)) (fst (pmm_alloc pool_demo)) = pool_demo"
  using pmm_free_undoes_alloc [OF pool_demo_inv pool_demo_alloc] by (simp add: pool_demo_inv pool_demo_alloc)

lemma unat_used_pos: "pmm_inv s \<Longrightarrow> f \<in> used_set s \<Longrightarrow> 0 < unat (g_used_frames s)"
  by (auto simp: pmm_inv_def card_gt_0_iff)

lemma pmm_free_keeps:
  assumes "pmm_inv s" "RESERVE_LOW \<le> p"
  shows "pmm_inv (pmm_free s p) \<and>
    free_set (pmm_free s p) = free_set s \<union> {f. f = p div PAGE_SIZE \<and> f < g_total_frames s}"
proof (cases "p div PAGE_SIZE \<in> used_set s")
  case True
  let ?f = "p div PAGE_SIZE"
  have f: "?f < g_total_frames s" "bm_test s ?f" using True by (auto simp: used_set_def)
  have low: "RESERVE_LOW div PAGE_SIZE \<le> ?f"
    using assms(2) by (simp add: word_le_nat_alt unat_div div_le_mono)
  have eq: "pmm_free s p = (bm_clear s ?f)\<lparr>g_used_frames := g_used_frames s - 1\<rparr>"
    using f by (simp add: pmm_free_def Let_def)
  have used: "used_set (pmm_free s p) = used_set s - {?f}" by (auto simp: eq used_set_def)
  have "unat (g_used_frames s - 1) = unat (g_used_frames s) - 1"
    using unat_used_pos [OF assms(1) True] by (simp add: unat_sub_if')
  then have "pmm_inv (pmm_free s p)"
    using assms(1) True low used by (auto simp: pmm_inv_def eq)
  moreover have "free_set (pmm_free s p) = free_set s \<union> {f. f = ?f \<and> f < g_total_frames s}"
    using f by (auto simp: eq free_set_def)
  ultimately show ?thesis by blast
next
  case False
  then have "pmm_free s p = s" by (auto simp: pmm_free_def Let_def used_set_def)
  then show ?thesis using assms(1) False by (auto simp: used_set_def free_set_def)
qed

text \<open>
  Releasing an address at or above 2 MiB keeps the invariant and makes its frame, and no
  other, available (a frame that is already free or is not managed changes nothing).
\<close>

theorem pmm_free_inv:
  assumes "pmm_inv s" "RESERVE_LOW \<le> p"
  shows "pmm_inv (pmm_free s p) \<and>
    free_set (pmm_free s p) = free_set s \<union> {f. f = p div PAGE_SIZE \<and> f < g_total_frames s}"
  using assms by (rule pmm_free_keeps)

theorem pmm_free_inv_witness:
  "RESERVE_LOW \<le> 0x201000 \<and> free_set (pmm_free pool_demo 0x201000) = {512, 513}"
proof -
  have low: "RESERVE_LOW \<le> 0x201000" by (simp add: pmm_consts)
  have "(0x201000 :: u64) div PAGE_SIZE = 513" "g_total_frames pool_demo = 520"
    by (simp_all add: pmm_consts pool_demo_def)
  then have "{f. f = (0x201000 :: u64) div PAGE_SIZE \<and> f < g_total_frames pool_demo} = {513}" by auto
  with pmm_free_inv [OF pool_demo_inv low] low show ?thesis
    by (simp only: pool_demo_sets insert_is_Un [symmetric])
qed

text \<open>
  The reported number of free bytes is 4096 times the number of frames that are free.
\<close>

theorem pmm_free_bytes_count:
  assumes "pmm_inv s"
  shows "unat (pmm_free_bytes s) = 4096 * card (free_set s)"
proof -
  have split: "{g. g < g_total_frames s} = used_set s \<union> free_set s" "used_set s \<inter> free_set s = {}"
    by (auto simp: used_set_def free_set_def)
  have sum: "card (used_set s) + card (free_set s) = unat (g_total_frames s)"
    using split card_Un_disjoint [of "used_set s" "free_set s"] card_words_below [of "g_total_frames s"]
    by simp
  have "unat (g_total_frames s) \<le> 1048576"
    using assms by (simp add: pmm_inv_def word_le_nat_alt pmm_consts)
  moreover have "unat (g_total_frames s - g_used_frames s) = card (free_set s)"
    using assms sum by (simp add: pmm_inv_def unat_sub_if')
  ultimately show ?thesis
    using sum unfolding pmm_free_bytes_def unat_mult_lem [THEN iffD1]
    by (subst unat_word_ariths) (simp add: pmm_consts)
qed

theorem pmm_free_bytes_count_witness:
  "pmm_inv pool_demo \<and> unat (pmm_free_bytes pool_demo) = 4096"
  using pmm_free_bytes_count [OF pool_demo_inv] by (simp add: pool_demo_inv pool_demo_sets)

section \<open>Contiguous allocation\<close>

lemma pmm_window_free_iff:
  assumes "unat f + unat count \<le> 1048576"
  shows "pmm_window_free s f i count = Inr (\<forall>j. i \<le> j \<and> j < count \<longrightarrow> \<not> bm_test s (f + j))"
  using assms
proof (induction s f i count rule: pmm_window_free.induct)
  case (1 s f i count)
  show ?case
  proof (cases "i < count")
    case True
    have "unat i < unat count" using True by (simp add: word_less_nat_alt)
    then have "unat (f + i) = unat f + unat i"
      using "1.prems" by (simp add: unat_word_ariths)
    with \<open>unat i < unat count\<close> "1.prems" have r: "\<not> MAX_FRAMES \<le> f + i"
      by (simp add: word_le_nat_alt MAX_FRAMES_def)
    show ?thesis
      using True r "1.IH" [OF True r] "1.prems"
      by (auto simp: pmm_window_free.simps [of s f i count] word_le_split [OF True])
  next
    case False
    then show ?thesis by (subst pmm_window_free.simps) (auto dest: order_le_less_trans)
  qed
qed

lemma pmm_contiguous_scan_result:
  assumes "g_total_frames s \<le> MAX_FRAMES" "count \<le> g_total_frames s"
  shows "\<exists>r. pmm_contiguous_scan s f count = Inr r \<and>
    (case r of
       None \<Rightarrow> \<forall>g. f \<le> g \<and> g < g_total_frames s - count \<longrightarrow> (\<exists>j<count. bm_test s (g + j))
     | Some g \<Rightarrow> f \<le> g \<and> g < g_total_frames s - count \<and> (\<forall>j<count. \<not> bm_test s (g + j)))"
  using assms
proof (induction s f count rule: pmm_contiguous_scan.induct)
  case (1 s f count)
  show ?case
  proof (cases "f < g_total_frames s - count")
    case True
    have "unat f + unat count \<le> 1048576"
      using True "1.prems" by (simp add: word_less_nat_alt word_le_nat_alt MAX_FRAMES_def unat_sub_if')
    from pmm_window_free_iff [OF this, of s 0]
    have w: "pmm_window_free s f 0 count = Inr (\<forall>j<count. \<not> bm_test s (f + j))" by simp
    show ?thesis
    proof (cases "\<forall>j<count. \<not> bm_test s (f + j)")
      case T: True
      then show ?thesis using True w by (simp add: pmm_contiguous_scan.simps [of s f count])
    next
      case F: False
      with w have "pmm_window_free s f 0 count = Inr False" by simp
      with "1.IH" [OF True this] "1.prems" True obtain r where
        r: "pmm_contiguous_scan s f count = Inr r"
        and c: "case r of None \<Rightarrow> \<forall>g. f + 1 \<le> g \<and> g < g_total_frames s - count \<longrightarrow> (\<exists>j<count. bm_test s (g + j))
     | Some g \<Rightarrow> f + 1 \<le> g \<and> g < g_total_frames s - count \<and> (\<forall>j<count. \<not> bm_test s (g + j))"
        by (auto simp: pmm_contiguous_scan.simps [of s f count])
      from c F have "case r of None \<Rightarrow> \<forall>g. f \<le> g \<and> g < g_total_frames s - count \<longrightarrow> (\<exists>j<count. bm_test s (g + j))
     | Some g \<Rightarrow> f \<le> g \<and> g < g_total_frames s - count \<and> (\<forall>j<count. \<not> bm_test s (g + j))"
        by (auto simp: word_le_split [OF True] split: option.splits)
      with r show ?thesis by blast
    qed
  next
    case False
    then show ?thesis by (auto simp: pmm_contiguous_scan.simps [of s f count])
  qed
qed

lemma bm_set_window_test [simp]:
  "bm_test (bm_set_window s f i count) g \<longleftrightarrow> bm_test s g \<or> (\<exists>j. i \<le> j \<and> j < count \<and> g = f + j)"
proof (induction s f i count rule: bm_set_window.induct)
  case (1 s f i count)
  show ?case
  proof (cases "i < count")
    case True
    then show ?thesis using "1.IH" [OF True]
      by (auto simp: bm_set_window.simps [of s f i count] word_le_split [OF True])
  next
    case False
    then show ?thesis by (subst bm_set_window.simps) (auto dest: order_le_less_trans)
  qed
qed

lemma bm_set_window_fields [simp]:
  "g_total_frames (bm_set_window s f i count) = g_total_frames s"
  by (induction s f i count rule: bm_set_window.induct) (subst bm_set_window.simps, simp)

definition window :: "u64 \<Rightarrow> u64 \<Rightarrow> u64 set" where
  "window f count = {f + j | j. j < count}"

lemma card_window: "card (window f count) = unat count"
proof -
  have "window f count = (+) f ` {j. j < count}" by (auto simp: window_def)
  then show ?thesis by (simp add: card_image card_words_below)
qed

lemma pmm_take_window:
  assumes "pmm_inv s" "window f count \<subseteq> free_set s"
  defines "s' \<equiv> (bm_set_window s f 0 count)\<lparr>g_used_frames := g_used_frames s + count\<rparr>"
  shows "pmm_inv s'" "free_set s' = free_set s - window f count"
proof -
  show "free_set s' = free_set s - window f count"
    by (auto simp: s'_def free_set_def window_def)
  have used: "used_set s' = used_set s \<union> window f count" "used_set s \<inter> window f count = {}"
    using assms(2) by (auto simp: s'_def used_set_def free_set_def window_def)
  then have card: "card (used_set s') = card (used_set s) + unat count"
    by (simp add: card_Un_disjoint card_window)
  have "card (used_set s') \<le> 1048576"
    using card_used_bound [of s'] assms(1)
    by (simp add: s'_def pmm_inv_def word_le_nat_alt MAX_FRAMES_def)
  then have "unat (g_used_frames s + count) = card (used_set s')"
    using card assms(1) by (simp add: pmm_inv_def unat_word_ariths)
  then show "pmm_inv s'" using assms(1) by (simp add: pmm_inv_def) (simp add: s'_def)
qed


lemma window_free_iff:
  assumes "g_total_frames s \<le> MAX_FRAMES" "count \<le> g_total_frames s" "g < g_total_frames s - count"
  shows "window g count \<subseteq> free_set s \<longleftrightarrow> (\<forall>j<count. \<not> bm_test s (g + j))"
proof -
  have "g + j < g_total_frames s" if "j < count" for j
    using assms that
    by (simp add: word_less_nat_alt word_le_nat_alt MAX_FRAMES_def unat_sub_if' unat_word_ariths)
  then show ?thesis by (auto simp: window_def free_set_def)
qed

lemma pmm_alloc_contiguous_cases:
  assumes "pmm_inv s" "count \<le> g_total_frames s" "2 \<le> count"
  obtains (oom) "pmm_alloc_contiguous s count = Inr (NULL, s)"
      "\<forall>g < g_total_frames s - count. \<not> window g count \<subseteq> free_set s"
  | (ok) f where "f < g_total_frames s - count" "window f count \<subseteq> free_set s" "f \<in> free_set s"
      "pmm_alloc_contiguous s count = Inr (f * PAGE_SIZE,
         (bm_set_window s f 0 count)\<lparr>g_used_frames := g_used_frames s + count\<rparr>)"
proof -
  have tot: "g_total_frames s \<le> MAX_FRAMES" using assms(1) by (simp add: pmm_inv_def)
  have c: "count \<noteq> 0" "count \<noteq> 1" using assms(3) by (auto simp: word_le_nat_alt)
  obtain r where r: "pmm_contiguous_scan s 0 count = Inr r"
    and R: "case r of None \<Rightarrow> \<forall>g. 0 \<le> g \<and> g < g_total_frames s - count \<longrightarrow> (\<exists>j<count. bm_test s (g + j))
     | Some g \<Rightarrow> 0 \<le> g \<and> g < g_total_frames s - count \<and> (\<forall>j<count. \<not> bm_test s (g + j))"
    using pmm_contiguous_scan_result [OF tot assms(2)] by blast
  show ?thesis
  proof (cases r)
    case None
    then show ?thesis
      using oom r R c window_free_iff [OF tot assms(2)] by (simp add: pmm_alloc_contiguous_def)
  next
    case (Some f)
    then have "window f count \<subseteq> free_set s" using R window_free_iff [OF tot assms(2)] by simp
    moreover have "f \<in> window f count"
      using c unfolding window_def by (auto intro!: exI [of _ 0] simp: word_gt_0)
    ultimately show ?thesis
      using ok [of f] Some r R c by (auto simp: pmm_alloc_contiguous_def)
  qed
qed

text \<open>
  A request for \<open>count\<close> frames, at most the number managed, never leaves the bitmap and
  keeps the invariant; a non-null answer is the first of \<open>count\<close> consecutive frames that were
  all free, and exactly those stop being free; a null answer changes nothing.
\<close>

theorem pmm_alloc_contiguous_sound:
  assumes "pmm_inv s" "count \<le> g_total_frames s" "2 \<le> count"
  shows "\<exists>p s'. pmm_alloc_contiguous s count = Inr (p, s') \<and> pmm_inv s' \<and>
    (if p = NULL then s' = s
     else \<exists>f. p = f * PAGE_SIZE \<and> window f count \<subseteq> free_set s \<and>
       free_set s' = free_set s - window f count)"
  using assms
proof (cases rule: pmm_alloc_contiguous_cases)
  case oom
  then show ?thesis using assms(1) by simp
next
  case (ok f)
  then show ?thesis
    using pmm_take_window [OF assms(1) ok(2)] frame_addr(2) [OF free_set_bounds [OF assms(1) ok(3)]]
    by auto
qed

text \<open>
  Two pools made by booting: 4 MiB of usable memory at address 0, and 8 KiB just below 4 MiB.
\<close>

definition boot_low :: pmm where
  "boot_low = pmm_init [\<lparr>e_base = 0, e_len = 0x400000, e_type = 1, e_acpi = 0\<rparr>]"

definition boot_tail :: pmm where
  "boot_tail = pmm_init [\<lparr>e_base = 0x3FE000, e_len = 0x2000, e_type = 1, e_acpi = 0\<rparr>]"

lemma boot_pools:
  "pmm_inv boot_low" "g_total_frames boot_low = 1024" "pmm_inv boot_tail" "g_total_frames boot_tail = 1024"
  "bm_test boot_low f \<longleftrightarrow> f < 512 \<or> 1024 \<le> f" "bm_test boot_tail f \<longleftrightarrow> f < 1022 \<or> 1024 \<le> f"
  by (auto simp: boot_low_def boot_tail_def pmm_init_inv pmm_init_unfold pmm_init_entry_total
      e820_stop_def e820_start_def usable_frame_def pmm_consts not_less not_le)
    (simp_all add: word_less_nat_alt word_le_nat_alt)

theorem pmm_alloc_contiguous_sound_witness:
  "256 \<le> g_total_frames boot_low \<and> (\<exists>p s'. pmm_alloc_contiguous boot_low 256 = Inr (p, s') \<and> pmm_inv s')"
  using pmm_alloc_contiguous_sound [of boot_low 256] by (auto simp: boot_pools)

text \<open>
  Such a request fails exactly when no window of free frames starts at a frame \<open>f\<close> with
  \<open>f + count\<close> strictly below the number of managed frames: a free window that ends with the
  last managed frame is never found.
\<close>

theorem pmm_alloc_contiguous_complete:
  assumes "pmm_inv s" "count \<le> g_total_frames s" "2 \<le> count"
  shows "pmm_alloc_contiguous s count = Inr (NULL, s) \<longleftrightarrow>
    (\<forall>f < g_total_frames s - count. \<not> window f count \<subseteq> free_set s)"
  using assms
proof (cases rule: pmm_alloc_contiguous_cases)
  case oom
  then show ?thesis by simp
next
  case (ok f)
  then show ?thesis using frame_addr(2) [OF free_set_bounds [OF assms(1) ok(3)]] by auto
qed

theorem pmm_alloc_contiguous_complete_witness:
  "window 1022 2 \<subseteq> free_set boot_tail \<and> pmm_alloc_contiguous boot_tail 2 = Inr (NULL, boot_tail)"
proof
  show "window 1022 2 \<subseteq> free_set boot_tail"
  proof
    fix f assume "f \<in> window 1022 2"
    then obtain j where j: "f = 1022 + j" "j < 2" by (auto simp: window_def)
    then have "j = 0 \<or> j = 1" by (simp add: word_less_nat_alt word_unat_eq_iff) linarith
    then show "f \<in> free_set boot_tail" using j by (auto simp: free_set_def boot_pools)
  qed
  have "\<not> window f 2 \<subseteq> free_set boot_tail" if "f < 1022" for f
  proof -
    have "f \<in> window f 2" unfolding window_def by (auto intro!: exI [of _ 0])
    then show ?thesis using that by (auto simp: free_set_def boot_pools)
  qed
  then show "pmm_alloc_contiguous boot_tail 2 = Inr (NULL, boot_tail)"
    using pmm_alloc_contiguous_complete [of boot_tail 2] by (simp add: boot_pools)
qed

lemma pmm_contiguous_scan_overrun:
  assumes "\<forall>g < MAX_FRAMES. bm_test s g" "MAX_FRAMES < g_total_frames s - count" "0 < count"
  shows "f \<le> MAX_FRAMES \<Longrightarrow> pmm_contiguous_scan s f count = Inl OutOfBounds"
  using assms
proof (induction s f count rule: pmm_contiguous_scan.induct)
  case (1 s f count)
  have f: "f < g_total_frames s - count" using "1.prems" by simp
  show ?case
  proof (cases "f = MAX_FRAMES")
    case True
    have "pmm_window_free s f 0 count = Inl OutOfBounds"
      using "1.prems"(4) True by (subst pmm_window_free.simps) simp
    then show ?thesis using f by (subst pmm_contiguous_scan.simps) simp
  next
    case False
    then have F: "f < MAX_FRAMES" using "1.prems"(1) by simp
    then have w: "pmm_window_free s f 0 count = Inr False"
      using "1.prems" by (subst pmm_window_free.simps) (simp add: not_le)
    have "f + 1 \<le> MAX_FRAMES" using F by (rule inc_le)
    then have "pmm_contiguous_scan s (f + 1) count = Inl OutOfBounds"
      using "1.IH" [OF f w] "1.prems" by simp
    then show ?thesis using f w by (subst pmm_contiguous_scan.simps) simp
  qed
qed

text \<open>
  A request for more frames than are managed makes \<open>g_total_frames - count\<close> wrap around;
  with no free frame in the bitmap the search then runs past the end of the bitmap array.
\<close>

theorem pmm_alloc_contiguous_overrun:
  assumes "\<forall>g < MAX_FRAMES. bm_test s g" "g_total_frames s < count" "2 \<le> count" "count \<le> MAX_FRAMES"
  shows "pmm_alloc_contiguous s count = Inl OutOfBounds"
proof -
  have c: "count \<noteq> 0" "count \<noteq> 1" using assms(3) by (auto simp: word_le_nat_alt)
  have "MAX_FRAMES < g_total_frames s - count"
    using assms(2,4) by (simp add: word_less_nat_alt word_le_nat_alt unat_sub_if' MAX_FRAMES_def)
  then have "pmm_contiguous_scan s 0 count = Inl OutOfBounds"
    using pmm_contiguous_scan_overrun assms(1) c by (simp add: word_gt_0)
  then show ?thesis using c by (simp add: pmm_alloc_contiguous_def)
qed

theorem pmm_alloc_contiguous_overrun_witness:
  "g_total_frames (pmm_init []) = 0 \<and> pmm_alloc_contiguous (pmm_init []) 256 = Inl OutOfBounds"
  using pmm_alloc_contiguous_overrun [of "pmm_init []" 256]
  by (simp add: pmm_init_unfold usable_frame_def) (simp add: pmm_consts)

end
