(* ===== verification/Paging.thy ===== *)
theory Paging
  imports Pmm
begin

text \<open>
  The four level page tables of \<^verbatim>\<open>mm/paging.c\<close>. A table is a page of 512 quadwords in
  physical memory, which the kernel reads and writes through the identity mapping. The state
  \<open>machine\<close> holds physical memory, the frame allocator, the global \<open>g_pml4\<close> and the list of
  addresses passed to \<open>invlpg\<close>. A pointer to an entry is its address; every C function is one
  definition that returns the C result and the new state.
\<close>

section \<open>State and operations\<close>

definition PAGE_PRESENT :: u64 where "PAGE_PRESENT = 1"
definition PAGE_RW :: u64 where "PAGE_RW = 2"
definition PAGE_USER :: u64 where "PAGE_USER = 4"
definition PAGE_HUGE :: u64 where "PAGE_HUGE = 0x80"
definition PAGE_ADDR_MASK :: u64 where "PAGE_ADDR_MASK = 0x000FFFFFFFFFF000"

record machine =
  ram :: mem
  frames :: pmm
  g_pml4 :: u64
  invlpg_log :: "u64 list"

definition idx_pml4 :: "u64 \<Rightarrow> u64" where "idx_pml4 virt = drop_bit 39 virt AND 0x1FF"
definition idx_pdpt :: "u64 \<Rightarrow> u64" where "idx_pdpt virt = drop_bit 30 virt AND 0x1FF"
definition idx_pd :: "u64 \<Rightarrow> u64" where "idx_pd virt = drop_bit 21 virt AND 0x1FF"
definition idx_pt :: "u64 \<Rightarrow> u64" where "idx_pt virt = drop_bit 12 virt AND 0x1FF"

text \<open>The loops \<open>for (i = 0; i < 512; i++) table->entries[i] = \<dots>\<close>.\<close>

primrec tbl_fill :: "mem \<Rightarrow> u64 \<Rightarrow> (u64 \<Rightarrow> u64) \<Rightarrow> nat \<Rightarrow> mem" where
  "tbl_fill m t f 0 = m"
| "tbl_fill m t f (Suc n) = tbl_set (tbl_fill m t f n) t (of_nat n) (f (of_nat n))"

definition PAGE_TABLE_ENTRIES :: nat where "PAGE_TABLE_ENTRIES = 512"

definition paging_load_cr3 :: "u64 \<Rightarrow> machine \<Rightarrow> machine" where
  "paging_load_cr3 cr3 M = M\<lparr>g_pml4 := cr3 AND PAGE_ADDR_MASK\<rparr>"

definition paging_get_or_create_table :: "machine \<Rightarrow> u64 \<Rightarrow> u64 \<Rightarrow> u64 \<times> machine" where
  "paging_get_or_create_table M entry flags =
     (if load64 (ram M) entry AND PAGE_PRESENT \<noteq> 0
      then (load64 (ram M) entry AND PAGE_ADDR_MASK, M)
      else case pmm_alloc (frames M) of (table, fr) \<Rightarrow>
        if table = NULL then (NULL, M\<lparr>frames := fr\<rparr>)
        else let m1 = tbl_fill (ram M) table (\<lambda>_. 0) PAGE_TABLE_ENTRIES;
                 m2 = store64 m1 entry (table OR PAGE_PRESENT OR PAGE_RW OR (flags AND PAGE_USER))
             in (table, M\<lparr>ram := m2, frames := fr\<rparr>))"

definition entry_or :: "machine \<Rightarrow> u64 \<Rightarrow> u64 \<Rightarrow> machine" where
  "entry_or M entry flags = M\<lparr>ram := store64 (ram M) entry (load64 (ram M) entry OR flags)\<rparr>"

text \<open>\<open>if (flags & PAGE_USER) *entry |= PAGE_USER;\<close>\<close>

definition entry_user :: "machine \<Rightarrow> u64 \<Rightarrow> u64 \<Rightarrow> machine" where
  "entry_user M entry flags = (if flags AND PAGE_USER \<noteq> 0 then entry_or M entry PAGE_USER else M)"

text \<open>The block of \<open>paging_map_page_on\<close> that replaces a 2 MiB page by a table of 4 KiB pages.\<close>

definition paging_split_huge :: "machine \<Rightarrow> u64 \<Rightarrow> u64 \<Rightarrow> bool \<times> machine" where
  "paging_split_huge M pd_e table_flags =
     (if load64 (ram M) pd_e AND PAGE_HUGE = 0 then (True, M)
      else case pmm_alloc (frames M) of (pt_new, fr) \<Rightarrow>
        if pt_new = NULL then (False, M\<lparr>frames := fr\<rparr>)
        else let huge_phys = load64 (ram M) pd_e AND PAGE_ADDR_MASK;
                 m1 = tbl_fill (ram M) pt_new
                   (\<lambda>i. (huge_phys + i * PAGE_SIZE) OR PAGE_PRESENT OR PAGE_RW OR table_flags)
                   PAGE_TABLE_ENTRIES;
                 m2 = store64 m1 pd_e (pt_new OR PAGE_PRESENT OR PAGE_RW OR table_flags)
             in (True, M\<lparr>ram := m2, frames := fr\<rparr>))"

definition paging_map_page_on :: "machine \<Rightarrow> u64 \<Rightarrow> u64 \<Rightarrow> u64 \<Rightarrow> u64 \<Rightarrow> int \<times> machine" where
  "paging_map_page_on M pml4 virt phys flags =
     (let pte_flags = flags OR PAGE_PRESENT;
          table_flags = flags AND PAGE_USER;
          pml4_e = pml4 + 8 * idx_pml4 virt;
          (pdpt, M1) = paging_get_or_create_table M pml4_e table_flags
      in if pdpt = NULL then (-1, M1)
      else let M2 = entry_user M1 pml4_e flags;
          pdpt_e = pdpt + 8 * idx_pdpt virt;
          (pd, M3) = paging_get_or_create_table M2 pdpt_e table_flags
      in if pd = NULL then (-1, M3)
      else let M4 = entry_user M3 pdpt_e flags;
          pd_e = pd + 8 * idx_pd virt;
          (ok, M5) = paging_split_huge M4 pd_e table_flags
      in if \<not> ok then (-1, M5)
      else let M6 = entry_user M5 pd_e flags;
          (pt, M7) = paging_get_or_create_table M6 pd_e table_flags
      in if pt = NULL then (-1, M7)
      else (0, M7\<lparr>ram := store64 (ram M7) (pt + 8 * idx_pt virt)
                          ((phys AND PAGE_ADDR_MASK) OR pte_flags)\<rparr>))"

definition invlpg :: "machine \<Rightarrow> u64 \<Rightarrow> machine" where
  "invlpg M virt = M\<lparr>invlpg_log := virt # invlpg_log M\<rparr>"

definition paging_map_page :: "machine \<Rightarrow> u64 \<Rightarrow> u64 \<Rightarrow> u64 \<Rightarrow> int \<times> machine" where
  "paging_map_page M virt phys flags =
     (let (ret, M1) = paging_map_page_on M (g_pml4 M) virt phys flags
      in (ret, if ret = 0 then invlpg M1 virt else M1))"

definition paging_unmap_page :: "machine \<Rightarrow> u64 \<Rightarrow> int \<times> machine" where
  "paging_unmap_page M virt =
     (let pml4_e = load64 (ram M) (g_pml4 M + 8 * idx_pml4 virt)
      in if pml4_e AND PAGE_PRESENT = 0 then (-1, M)
      else let pdpt_e = load64 (ram M) ((pml4_e AND PAGE_ADDR_MASK) + 8 * idx_pdpt virt)
      in if pdpt_e AND PAGE_PRESENT = 0 then (-1, M)
      else let pd_e = load64 (ram M) ((pdpt_e AND PAGE_ADDR_MASK) + 8 * idx_pd virt)
      in if pd_e AND PAGE_PRESENT = 0 then (-1, M)
      else let pt_p = (pd_e AND PAGE_ADDR_MASK) + 8 * idx_pt virt; pt_e = load64 (ram M) pt_p
      in if pt_e AND PAGE_PRESENT = 0 then (-1, M)
      else let phys = pt_e AND PAGE_ADDR_MASK;
          M1 = (if phys \<noteq> 0 then M\<lparr>frames := pmm_free (frames M) phys\<rparr> else M);
          M2 = M1\<lparr>ram := store64 (ram M1) pt_p 0\<rparr>
      in (0, invlpg M2 virt))"

definition paging_get_phys_on :: "machine \<Rightarrow> u64 \<Rightarrow> u64 \<Rightarrow> u64" where
  "paging_get_phys_on M pml4 virt =
     (let pml4_e = load64 (ram M) (pml4 + 8 * idx_pml4 virt)
      in if pml4_e AND PAGE_PRESENT = 0 then 0
      else let pdpt_e = load64 (ram M) ((pml4_e AND PAGE_ADDR_MASK) + 8 * idx_pdpt virt)
      in if pdpt_e AND PAGE_PRESENT = 0 then 0
      else let pd_e = load64 (ram M) ((pdpt_e AND PAGE_ADDR_MASK) + 8 * idx_pd virt)
      in if pd_e AND PAGE_HUGE \<noteq> 0 then (pd_e AND PAGE_ADDR_MASK) OR (virt AND 0x1FFFFF)
      else if pd_e AND PAGE_PRESENT = 0 then 0
      else let pt_e = load64 (ram M) ((pd_e AND PAGE_ADDR_MASK) + 8 * idx_pt virt)
      in if pt_e AND PAGE_PRESENT = 0 then 0
      else (pt_e AND PAGE_ADDR_MASK) OR (virt AND 0xFFF))"

text \<open>\<open>paging_get_phys\<close> repeats the body of \<open>paging_get_phys_on\<close> on \<open>g_pml4\<close>.\<close>

definition paging_get_phys :: "machine \<Rightarrow> u64 \<Rightarrow> u64" where
  "paging_get_phys M virt = paging_get_phys_on M (g_pml4 M) virt"

definition paging_add_flags :: "machine \<Rightarrow> u64 \<Rightarrow> u64 \<Rightarrow> int \<times> machine" where
  "paging_add_flags M virt flags =
     (let pml4_p = g_pml4 M + 8 * idx_pml4 virt
      in if load64 (ram M) pml4_p AND PAGE_PRESENT = 0 then (-1, M)
      else let M1 = entry_or M pml4_p flags;
          pdpt_p = (load64 (ram M1) pml4_p AND PAGE_ADDR_MASK) + 8 * idx_pdpt virt
      in if load64 (ram M1) pdpt_p AND PAGE_PRESENT = 0 then (-1, M1)
      else let M2 = entry_or M1 pdpt_p flags
      in if load64 (ram M2) pdpt_p AND PAGE_HUGE \<noteq> 0 then (0, invlpg M2 virt)
      else let pd_p = (load64 (ram M2) pdpt_p AND PAGE_ADDR_MASK) + 8 * idx_pd virt
      in if load64 (ram M2) pd_p AND PAGE_PRESENT = 0 then (-1, M2)
      else if load64 (ram M2) pd_p AND PAGE_HUGE \<noteq> 0
           then (0, invlpg (entry_or M2 pd_p flags) virt)
      else let pt_p = (load64 (ram M2) pd_p AND PAGE_ADDR_MASK) + 8 * idx_pt virt
      in if load64 (ram M2) pt_p AND PAGE_PRESENT = 0 then (-1, M2)
      else (0, invlpg (entry_or M2 pt_p flags) virt))"

definition paging_clone_current :: "machine \<Rightarrow> u64 \<times> machine" where
  "paging_clone_current M =
     (case pmm_alloc (frames M) of (new_pml4, fr) \<Rightarrow>
        if new_pml4 = NULL then (0, M\<lparr>frames := fr\<rparr>)
        else (new_pml4, M\<lparr>ram := tbl_fill (ram M) new_pml4 (tbl_get (ram M) (g_pml4 M))
                                  PAGE_TABLE_ENTRIES, frames := fr\<rparr>))"

fun paging_map_range :: "machine \<Rightarrow> u64 \<Rightarrow> u64 \<Rightarrow> nat \<Rightarrow> u64 \<Rightarrow> int \<times> machine" where
  "paging_map_range M virt phys 0 flags = (0, M)"
| "paging_map_range M virt phys (Suc pages) flags =
     (case paging_map_page M virt phys flags of (ret, M1) \<Rightarrow>
        if ret < 0 then (-1, M1)
        else paging_map_range M1 (virt + PAGE_SIZE) (phys + PAGE_SIZE) pages flags)"


section \<open>Bits of entries and addresses\<close>

lemma addr_mask_eq: "PAGE_ADDR_MASK = push_bit 12 (mask 40)"
  by (simp add: PAGE_ADDR_MASK_def mask_numeral)

lemma bit_addr_mask: "bit PAGE_ADDR_MASK k \<longleftrightarrow> 12 \<le> k \<and> k < 52"
  by (auto simp: addr_mask_eq bit_push_bit_iff bit_mask_iff)

lemma flag_eqs: "PAGE_PRESENT = 2 ^ 0" "PAGE_RW = 2 ^ 1" "PAGE_USER = 2 ^ 2" "PAGE_HUGE = 2 ^ 7"
  by (simp_all add: PAGE_PRESENT_def PAGE_RW_def PAGE_USER_def PAGE_HUGE_def)

lemma bit_flags:
  "bit PAGE_PRESENT k \<longleftrightarrow> k = 0" "bit PAGE_RW k \<longleftrightarrow> k = 1"
  "bit PAGE_USER k \<longleftrightarrow> k = 2" "bit PAGE_HUGE k \<longleftrightarrow> k = 7"
  unfolding flag_eqs by (auto simp only: bit_exp_iff possible_bit_word) simp_all

lemma present_iff: "e AND PAGE_PRESENT = 0 \<longleftrightarrow> \<not> bit e 0"
  and huge_iff: "e AND PAGE_HUGE = 0 \<longleftrightarrow> \<not> bit e 7"
  and user_iff: "e AND PAGE_USER = 0 \<longleftrightarrow> \<not> bit e 2"
  by (simp_all only: flag_eqs and_exp_eq_0_iff_not_bit)

lemmas entry_bits = bit_addr_mask bit_flags bit_and_iff bit_or_iff

lemma page_aligned_bits: "page_aligned t \<longleftrightarrow> (\<forall>k<12. \<not> bit t k)"
proof -
  have "4096 = (2::nat) ^ 12" by simp
  then have "page_aligned t \<longleftrightarrow> t AND mask 12 = 0"
    by (simp only: page_aligned_def and_mask_dvd_nat)
  also have "\<dots> \<longleftrightarrow> (\<forall>k<64. \<not> (bit t k \<and> k < 12))"
    by (auto simp: bit_eq_iff bit_and_iff bit_mask_iff)
  also have "\<dots> \<longleftrightarrow> (\<forall>k<12. \<not> bit t k)"
  proof -
    have "k < 12 \<Longrightarrow> k < 64" for k :: nat by simp
    then show ?thesis by blast
  qed
  finally show ?thesis .
qed

lemma page_aligned_masked [simp]: "page_aligned (e AND PAGE_ADDR_MASK)"
  by (simp add: page_aligned_bits bit_and_iff bit_addr_mask)

lemma bit_less_power:
  assumes "unat t < 2 ^ n" "n \<le> k"
  shows "\<not> bit (t :: u64) k"
proof -
  have "unat t < 2 ^ k" using assms by (meson one_le_numeral order_less_le_trans power_increasing)
  then have "\<not> bit (unat t) k" by (simp add: bit_iff_odd)
  then show ?thesis by (simp add: bit_unsigned_iff)
qed

lemma frame_masked:
  assumes "page_aligned t" "t < 2 ^ 32"
  shows "t AND PAGE_ADDR_MASK = t"
proof (rule bit_word_eqI)
  fix k :: nat
  have t: "unat t < 2 ^ 32" using assms(2) by (simp add: word_less_nat_alt)
  consider "k < 12" | "12 \<le> k" "k < 52" | "32 \<le> k" by linarith
  then show "bit (t AND PAGE_ADDR_MASK) k = bit t k"
    using assms(1) bit_less_power [OF t]
    by cases (auto simp: bit_and_iff bit_addr_mask page_aligned_bits)
qed

lemma idx_less [simp]:
  "idx_pml4 v < 512" "idx_pdpt v < 512" "idx_pd v < 512" "idx_pt v < 512"
proof -
  have "x AND 0x1FF < (512 :: u64)" for x
    using word_and_le1 [of x "0x1FF"] by (simp add: word_less_nat_alt word_le_nat_alt)
  then show "idx_pml4 v < 512" "idx_pdpt v < 512" "idx_pd v < 512" "idx_pt v < 512"
    by (simp_all only: idx_pml4_def idx_pdpt_def idx_pd_def idx_pt_def)
qed

lemma tbl_get_fill:
  assumes "page_aligned t" "page_aligned t'" "i < 512" "n \<le> 512"
  shows "tbl_get (tbl_fill m t f n) t' i = (if t' = t \<and> unat i < n then f i else tbl_get m t' i)"
  using assms(4)
proof (induction n)
  case 0
  then show ?case by simp
next
  case (Suc n)
  then have n: "(of_nat n :: u64) < 512" "unat (of_nat n :: u64) = n"
    by (simp_all add: word_less_nat_alt unat_of_nat)
  then have "i = of_nat n \<longleftrightarrow> unat i = n" by (auto simp: word_unat_eq_iff)
  with Suc n assms show ?case by (auto simp: tbl_get_set less_Suc_eq)
qed

lemma tbl_get_fill_all [mem_simps]:
  assumes "page_aligned t" "page_aligned t'" "i < 512"
  shows "tbl_get (tbl_fill m t f PAGE_TABLE_ENTRIES) t' i = (if t' = t then f i else tbl_get m t' i)"
  using assms by (auto simp: tbl_get_fill PAGE_TABLE_ENTRIES_def word_less_nat_alt)

section \<open>Walks\<close>

text \<open>
  The level by level walk that \<open>paging_get_phys_on\<close> performs, from a table at level \<open>l + 1\<close>
  (PML4 is level 4, PT is level 1) down to the page.
\<close>

definition idx :: "nat \<Rightarrow> u64 \<Rightarrow> u64" where
  "idx l v = drop_bit (12 + 9 * l) v AND 0x1FF"

fun walk :: "mem \<Rightarrow> nat \<Rightarrow> u64 \<Rightarrow> u64 \<Rightarrow> u64" where
  "walk m 0 t v = 0"
| "walk m (Suc l) t v =
     (let e = tbl_get m t (idx l v)
      in if l = 1 \<and> bit e 7 then (e AND PAGE_ADDR_MASK) OR (v AND 0x1FFFFF)
         else if \<not> bit e 0 then 0
         else if l = 0 then (e AND PAGE_ADDR_MASK) OR (v AND 0xFFF)
         else walk m l (e AND PAGE_ADDR_MASK) v)"

lemma idx_eqs: "idx_pml4 = idx 3" "idx_pdpt = idx 2" "idx_pd = idx 1" "idx_pt = idx 0"
  by (simp_all add: fun_eq_iff idx_def idx_pml4_def idx_pdpt_def idx_pd_def idx_pt_def)

lemma idx_bound [simp]: "idx l v < 512"
  using word_and_le1 [of "drop_bit (12 + 9 * l) v" "0x1FF"]
  by (simp add: idx_def word_less_nat_alt word_le_nat_alt)

lemma get_phys_walk: "paging_get_phys_on M pml4 v = walk (ram M) 4 pml4 v"
  by (simp add: paging_get_phys_on_def Let_def numeral_eq_Suc present_iff huge_iff
      tbl_get_def idx_eqs [unfolded numeral_eq_Suc, simplified])


declare walk.simps(2) [simp del]

definition leaf :: "nat \<Rightarrow> u64 \<Rightarrow> bool" where
  "leaf l e \<longleftrightarrow> l = 0 \<or> (l = 1 \<and> bit e 7) \<or> \<not> bit e 0"

definition leaf_phys :: "nat \<Rightarrow> u64 \<Rightarrow> u64 \<Rightarrow> u64" where
  "leaf_phys l e v =
     (if l = 1 \<and> bit e 7 then (e AND PAGE_ADDR_MASK) OR (v AND 0x1FFFFF)
      else if \<not> bit e 0 then 0 else (e AND PAGE_ADDR_MASK) OR (v AND 0xFFF))"

lemma walk_leaf: "leaf l (tbl_get m t (idx l v)) \<Longrightarrow> walk m (Suc l) t v = leaf_phys l (tbl_get m t (idx l v)) v"
  by (auto simp: walk.simps(2) leaf_def leaf_phys_def Let_def)

lemma walk_descend:
  "\<not> leaf l (tbl_get m t (idx l v)) \<Longrightarrow>
     walk m (Suc l) t v = walk m l (tbl_get m t (idx l v) AND PAGE_ADDR_MASK) v"
  by (auto simp: walk.simps(2) leaf_def Let_def)

section \<open>Trees of tables\<close>

text \<open>
  The code relies on the tables reachable from a PML4 forming a tree. \<open>own\<close> records, for every
  table of the address space, the indices on the path to it: \<open>[]\<close> for the PML4, one index for a
  PDPT, two for a PD, three for a PT. That \<open>own\<close> is a function says that no table is
  reached in two ways. A 2 MiB page is an entry of a PD with \<open>PAGE_HUGE\<close>; the loader maps
  such pages 2 MiB aligned.
\<close>

type_synonym ownership = "u64 \<rightharpoonup> u64 list"

definition pt_wf :: "mem \<Rightarrow> u64 \<Rightarrow> ownership \<Rightarrow> bool" where
  "pt_wf m root own \<longleftrightarrow> own root = Some [] \<and>
     (\<forall>t p. own t = Some p \<longrightarrow> page_aligned t \<and> t \<noteq> NULL) \<and>
     (\<forall>t p i. own t = Some p \<and> length p < 3 \<and> i < 512 \<and> bit (tbl_get m t i) 0 \<and>
        \<not> (length p = 2 \<and> bit (tbl_get m t i) 7) \<longrightarrow>
        own (tbl_get m t i AND PAGE_ADDR_MASK) = Some (p @ [i])) \<and>
     (\<forall>t p i. own t = Some p \<and> length p = 2 \<and> i < 512 \<and> bit (tbl_get m t i) 7 \<longrightarrow>
        bit (tbl_get m t i) 0 \<and> (\<forall>k. 12 \<le> k \<and> k < 21 \<longrightarrow> \<not> bit (tbl_get m t i) k))"

lemma pt_wfD:
  assumes "pt_wf m root own" "own t = Some p"
  shows "page_aligned t" "t \<noteq> NULL"
    "length p < 3 \<Longrightarrow> i < 512 \<Longrightarrow> bit (tbl_get m t i) 0 \<Longrightarrow> \<not> (length p = 2 \<and> bit (tbl_get m t i) 7) \<Longrightarrow>
       own (tbl_get m t i AND PAGE_ADDR_MASK) = Some (p @ [i])"
    "length p = 2 \<Longrightarrow> i < 512 \<Longrightarrow> bit (tbl_get m t i) 7 \<Longrightarrow> bit (tbl_get m t i) 0"
    "length p = 2 \<Longrightarrow> i < 512 \<Longrightarrow> bit (tbl_get m t i) 7 \<Longrightarrow> 12 \<le> k \<Longrightarrow> k < 21 \<Longrightarrow> \<not> bit (tbl_get m t i) k"
  using assms unfolding pt_wf_def by blast+

text \<open>Entries that differ only in bits the walk does not look at.\<close>

definition entry_sim :: "u64 \<Rightarrow> u64 \<Rightarrow> bool" where
  "entry_sim e e' \<longleftrightarrow> e AND PAGE_ADDR_MASK = e' AND PAGE_ADDR_MASK \<and> bit e 0 = bit e' 0 \<and> bit e 7 = bit e' 7"

lemma entry_sim_refl [simp]: "entry_sim e e"
  by (simp add: entry_sim_def)

lemma entry_sim_addr_bit: "entry_sim e e' \<Longrightarrow> 12 \<le> k \<Longrightarrow> k < 52 \<Longrightarrow> bit e k = bit e' k"
proof -
  assume sim: "entry_sim e e'" and k: "12 \<le> k" "k < 52"
  have "bit (e AND PAGE_ADDR_MASK) k = bit (e' AND PAGE_ADDR_MASK) k"
    using sim by (simp add: entry_sim_def)
  then show "bit e k = bit e' k" using k unfolding bit_and_iff bit_addr_mask by simp
qed

definition tables_sim :: "mem \<Rightarrow> mem \<Rightarrow> ownership \<Rightarrow> bool" where
  "tables_sim m m' own \<longleftrightarrow>
     (\<forall>t i. t \<in> dom own \<and> i < 512 \<longrightarrow> entry_sim (tbl_get m t i) (tbl_get m' t i))"

lemma tables_simD:
  "tables_sim m m' own \<Longrightarrow> own t = Some p \<Longrightarrow> i < 512 \<Longrightarrow> entry_sim (tbl_get m t i) (tbl_get m' t i)"
  unfolding tables_sim_def by blast

lemma leaf_sim: "entry_sim e e' \<Longrightarrow> leaf l e' = leaf l e \<and> leaf_phys l e' v = leaf_phys l e v"
  by (simp add: entry_sim_def leaf_def leaf_phys_def)

lemma pt_wf_descend:
  assumes "pt_wf m root own" "own t = Some p" "length p + l = 3" "\<not> leaf l (tbl_get m t (idx l v))"
  shows "own (tbl_get m t (idx l v) AND PAGE_ADDR_MASK) = Some (p @ [idx l v])" "0 < l"
proof -
  have l: "0 < l" "bit (tbl_get m t (idx l v)) 0" "l = 1 \<longrightarrow> \<not> bit (tbl_get m t (idx l v)) 7"
    using assms(4) by (auto simp: leaf_def)
  then have "length p < 3" "length p = 2 \<longleftrightarrow> l = 1" using assms(3) by auto
  then show "own (tbl_get m t (idx l v) AND PAGE_ADDR_MASK) = Some (p @ [idx l v])"
    using pt_wfD(3) [OF assms(1,2)] l by simp
qed (use assms(4) in \<open>simp add: leaf_def\<close>)

lemma walk_sim:
  assumes "pt_wf m root own" "tables_sim m m' own" "own t = Some p" "length p + l = 3"
  shows "walk m' (Suc l) t v = walk m (Suc l) t v"
  using assms(3,4)
proof (induction l arbitrary: t p)
  case 0
  have sim: "entry_sim (tbl_get m t (idx 0 v)) (tbl_get m' t (idx 0 v))"
    using tables_simD [OF assms(2) 0(1)] by simp
  then show ?case by (simp add: walk_leaf leaf_def leaf_sim)
next
  case (Suc l)
  let ?e = "tbl_get m t (idx (Suc l) v)"
  have sim: "entry_sim ?e (tbl_get m' t (idx (Suc l) v))"
    using tables_simD [OF assms(2) Suc.prems(1)] by simp
  show ?case
  proof (cases "leaf (Suc l) ?e")
    case True
    then show ?thesis using leaf_sim [OF sim] by (simp add: walk_leaf)
  next
    case False
    then show ?thesis
      using leaf_sim [OF sim] sim Suc.IH [OF pt_wf_descend(1) [OF assms(1) Suc.prems False]] Suc.prems(2)
      by (simp add: walk_descend entry_sim_def)
  qed
qed

lemma pt_wf_cong:
  assumes wf: "pt_wf m root own"
    and sim: "\<And>t p i. own t = Some p \<Longrightarrow> length p < 3 \<Longrightarrow> i < 512 \<Longrightarrow> entry_sim (tbl_get m t i) (tbl_get m' t i)"
  shows "pt_wf m' root own"
  unfolding pt_wf_def
proof (intro conjI allI impI; (elim conjE)?)
  fix t i :: u64 and p :: "u64 list"
  assume t: "own t = Some p"
  show "page_aligned t" "t \<noteq> NULL" using pt_wfD(1,2) [OF wf t] by auto
  assume i: "i < 512"
  { assume "length p < 3" "bit (tbl_get m' t i) 0" "\<not> (length p = 2 \<and> bit (tbl_get m' t i) 7)"
    then show "own (tbl_get m' t i AND PAGE_ADDR_MASK) = Some (p @ [i])"
      using sim [OF t _ i] pt_wfD(3) [OF wf t _ i] by (auto simp: entry_sim_def) }
  { assume l: "length p = 2" and h: "bit (tbl_get m' t i) 7"
    then have s: "entry_sim (tbl_get m t i) (tbl_get m' t i)" using sim [OF t _ i] by simp
    show "bit (tbl_get m' t i) 0"
      using s h pt_wfD(4) [OF wf t l i] by (auto simp: entry_sim_def)
    fix k :: nat assume k: "12 \<le> k" "k < 21"
    then show "\<not> bit (tbl_get m' t i) k"
      using s h pt_wfD(5) [OF wf t l i] entry_sim_addr_bit [OF s, of k]
      by (auto simp: entry_sim_def) }
qed (use wf in \<open>simp add: pt_wf_def\<close>)

lemma pt_wf_sim: "pt_wf m root own \<Longrightarrow> tables_sim m m' own \<Longrightarrow> pt_wf m' root own"
  by (rule pt_wf_cong) (auto intro: tables_simD)

subsection \<open>Hanging a table below an entry\<close>

definition install :: "mem \<Rightarrow> u64 \<Rightarrow> u64 \<Rightarrow> u64 \<Rightarrow> (u64 \<Rightarrow> u64) \<Rightarrow> u64 \<Rightarrow> mem" where
  "install m t i n f e = tbl_set (tbl_fill m n f PAGE_TABLE_ENTRIES) t i e"

lemma tbl_get_install [mem_simps]:
  assumes "page_aligned t" "page_aligned n" "page_aligned t'" "i < 512" "j < 512"
  shows "tbl_get (install m t i n f e) t' j =
    (if t' = t \<and> j = i then e else if t' = n then f j else tbl_get m t' j)"
  using assms by (simp add: install_def mem_simps)

text \<open>
  Hanging a fresh table \<open>n\<close> with contents \<open>f\<close> below entry \<open>i\<close> of table \<open>t\<close> keeps the tree and,
  if the new table translates the addresses below that entry as the old entry did, keeps every
  translation.
\<close>

lemma install_wf:
  assumes wf: "pt_wf m root own" and t: "own t = Some p" "length p < 3" "i < 512"
    and n: "page_aligned n" "n \<noteq> NULL" "own n = None"
    and e: "e AND PAGE_ADDR_MASK = n" "\<not> bit e 7"
    and f: "length p < 2 \<Longrightarrow> \<forall>j. f j = 0"
  shows "pt_wf (install m t i n f e) root (own(n \<mapsto> p @ [i]))"
proof -
  let ?m = "install m t i n f e" and ?own = "own(n \<mapsto> p @ [i])"
  have nt: "n \<noteq> t" using n(3) t(1) by auto
  have root: "own root = Some []" "root \<noteq> n" using wf n(3) by (auto simp: pt_wf_def)
  have get: "tbl_get ?m t' j = (if t' = t \<and> j = i then e else tbl_get m t' j)"
    if "own t' = Some q" "j < 512" for t' q j
    using that n pt_wfD(1) [OF wf] t by (auto simp: mem_simps)
  have getn: "tbl_get ?m n j = f j" if "j < 512" for j
    using that n pt_wfD(1) [OF wf t(1)] t(3) nt by (auto simp: mem_simps)
  show ?thesis
    unfolding pt_wf_def
  proof (intro conjI allI impI; (elim conjE)?)
    show "?own root = Some []" using root by simp
    fix t' j :: u64 and q :: "u64 list"
    assume q: "?own t' = Some q"
    show "page_aligned t'" "t' \<noteq> NULL"
      using q n pt_wfD(1,2) [OF wf] by (auto split: if_splits)
    assume j: "j < 512"
    { assume lq: "length q < 3" and pr: "bit (tbl_get ?m t' j) 0"
        and hu: "\<not> (length q = 2 \<and> bit (tbl_get ?m t' j) 7)"
      show "?own (tbl_get ?m t' j AND PAGE_ADDR_MASK) = Some (q @ [j])"
      proof (cases "t' = n")
        case True
        then have "f j = 0" using q lq f by auto
        then show ?thesis using pr True getn [OF j] by simp
      next
        case False
        then have o: "own t' = Some q" using q by simp
        show ?thesis
        proof (cases "t' = t \<and> j = i")
          case True
          then show ?thesis using get [OF o j] e o t by simp
        next
          case F: False
          then have "own (tbl_get m t' j AND PAGE_ADDR_MASK) = Some (q @ [j])"
            using pt_wfD(3) [OF wf o lq j] pr hu get [OF o j] by auto
          then show ?thesis using F get [OF o j] n(3) by auto
        qed
      qed }
    { assume lq: "length q = 2" and h: "bit (tbl_get ?m t' j) 7"
      have o: "own t' = Some q" "\<not> (t' = t \<and> j = i)"
      proof -
        have "t' \<noteq> n" using q lq f h getn [OF j] by auto
        then show "own t' = Some q" using q by simp
        from get [OF this j] h e(2) show "\<not> (t' = t \<and> j = i)" by auto
      qed
      then have h': "bit (tbl_get m t' j) 7" "tbl_get ?m t' j = tbl_get m t' j"
        using h get [OF o(1) j] by auto
      then show "bit (tbl_get ?m t' j) 0" using pt_wfD(4) [OF wf o(1) lq j] by simp
      fix k :: nat assume "12 \<le> k" "k < 21"
      then show "\<not> bit (tbl_get ?m t' j) k" using pt_wfD(5) [OF wf o(1) lq j] h' by simp }
  qed
qed

lemma install_walk:
  assumes wf: "pt_wf m root own" and t: "own t = Some p" "length p + l0 = 3" "0 < l0" "i < 512"
    and n: "page_aligned n" "own n = None"
    and e: "e AND PAGE_ADDR_MASK = n" "\<not> bit e 7" "bit e 0"
    and H: "\<And>v. idx l0 v = i \<Longrightarrow> walk (install m t i n f e) l0 n v = walk m (Suc l0) t v"
  shows "own t' = Some q \<Longrightarrow> length q + l = 3 \<Longrightarrow>
    walk (install m t i n f e) (Suc l) t' v = walk m (Suc l) t' v"
proof (induction l arbitrary: t' q)
  case 0
  then have "t' \<noteq> t" "t' \<noteq> n" using t n by auto
  then have "tbl_get (install m t i n f e) t' (idx 0 v) = tbl_get m t' (idx 0 v)"
    using pt_wfD(1) [OF wf] 0 t n by (auto simp: mem_simps)
  then show ?case by (simp add: walk_leaf leaf_def)
next
  case (Suc l)
  let ?m = "install m t i n f e" and ?j = "idx (Suc l) v"
  have get: "tbl_get ?m t' ?j = (if t' = t \<and> ?j = i then e else tbl_get m t' ?j)"
    using pt_wfD(1) [OF wf] Suc.prems t n by (auto simp: mem_simps)
  show ?case
  proof (cases "t' = t \<and> ?j = i")
    case True
    then have "l0 = Suc l" using Suc.prems t by simp
    moreover have "walk ?m (Suc (Suc l)) t' v = walk ?m (Suc l) n v"
      using True get e by (simp add: walk_descend leaf_def)
    ultimately show ?thesis using H [of v] True by simp
  next
    case False
    then have get: "tbl_get ?m t' ?j = tbl_get m t' ?j" using get by auto
    show ?thesis
    proof (cases "leaf (Suc l) (tbl_get m t' ?j)")
      case True
      then show ?thesis using get by (simp add: walk_leaf)
    next
      case F: False
      then show ?thesis
        using get Suc.IH [OF pt_wf_descend(1) [OF wf Suc.prems F]] Suc.prems(2)
        by (simp add: walk_descend)
    qed
  qed
qed


section \<open>Steps that keep every translation\<close>

definition vm_ok :: "machine \<Rightarrow> u64 \<Rightarrow> ownership \<Rightarrow> bool" where
  "vm_ok M root own \<longleftrightarrow> pmm_inv (frames M) \<and> pt_wf (ram M) root own \<and>
     dom own \<inter> pmm_avail (frames M) = {}"

text \<open>Entry \<open>i\<close> of \<open>t\<close> leads to table \<open>n\<close>, a step down from level \<open>l + 1\<close>.\<close>

definition link :: "mem \<Rightarrow> nat \<Rightarrow> u64 \<Rightarrow> u64 \<Rightarrow> u64 \<Rightarrow> bool" where
  "link m l t i n \<longleftrightarrow> \<not> leaf l (tbl_get m t i) \<and> tbl_get m t i AND PAGE_ADDR_MASK = n"

lemma walk_link: "link m l t (idx l v) n \<Longrightarrow> walk m (Suc l) t v = walk m l n v"
  by (simp add: link_def walk_descend)

lemma link_sim: "entry_sim (tbl_get m t i) (tbl_get m' t i) \<Longrightarrow> link m l t i n \<Longrightarrow> link m' l t i n"
  by (auto simp: link_def leaf_sim) (auto simp: entry_sim_def)

definition vm_step :: "u64 \<Rightarrow> machine \<Rightarrow> ownership \<Rightarrow> machine \<Rightarrow> ownership \<Rightarrow> bool" where
  "vm_step root M own M' own' \<longleftrightarrow> vm_ok M' root own' \<and> own \<subseteq>\<^sub>m own' \<and>
     (\<forall>v. walk (ram M') 4 root v = walk (ram M) 4 root v) \<and>
     (\<forall>t i. page_aligned t \<and> t \<notin> dom own' \<and> i < 512 \<longrightarrow> tbl_get (ram M') t i = tbl_get (ram M) t i) \<and>
     (\<forall>t p l i n. own t = Some p \<and> length p + l = 3 \<and> i < 512 \<and> link (ram M) l t i n \<longrightarrow> link (ram M') l t i n) \<and>
     dom own' \<subseteq> dom own \<union> pmm_avail (frames M) \<and>
     g_pml4 M' = g_pml4 M \<and> invlpg_log M' = invlpg_log M \<and>
     pmm_avail (frames M') \<subseteq> pmm_avail (frames M)"

lemma map_le_Some: "f \<subseteq>\<^sub>m g \<Longrightarrow> f x = Some y \<Longrightarrow> g x = Some y"
  by (metis map_le_def domI)

lemma vm_stepD:
  assumes "vm_step root M own M' own'"
  shows "vm_ok M' root own'" "own t = Some p \<Longrightarrow> own' t = Some p"
    "walk (ram M') 4 root v = walk (ram M) 4 root v"
    "page_aligned t \<Longrightarrow> t \<notin> dom own' \<Longrightarrow> i < 512 \<Longrightarrow> tbl_get (ram M') t i = tbl_get (ram M) t i"
    "own t = Some p \<Longrightarrow> length p + l = 3 \<Longrightarrow> i < 512 \<Longrightarrow> link (ram M) l t i n \<Longrightarrow> link (ram M') l t i n"
    "g_pml4 M' = g_pml4 M" "invlpg_log M' = invlpg_log M"
  using assms map_le_Some [of own own'] unfolding vm_step_def by blast+

lemma vm_step_refl [simp]: "vm_ok M root own \<Longrightarrow> vm_step root M own M own"
  by (simp add: vm_step_def)

lemma vm_step_trans:
  assumes 1: "vm_step root M own M1 own1" and 2: "vm_step root M1 own1 M2 own2"
  shows "vm_step root M own M2 own2"
proof -
  have "own \<subseteq>\<^sub>m own1" "own1 \<subseteq>\<^sub>m own2" using 1 2 by (simp_all add: vm_step_def)
  then have "own \<subseteq>\<^sub>m own2" "dom own1 \<subseteq> dom own2"
    by (auto intro: map_le_trans dest: map_le_implies_dom_le)
  moreover have "pmm_avail (frames M2) \<subseteq> pmm_avail (frames M)" using 1 2 by (auto simp: vm_step_def)
  moreover have "dom own2 \<subseteq> dom own \<union> pmm_avail (frames M)" using 1 2 unfolding vm_step_def by blast
  moreover have "tbl_get (ram M2) t i = tbl_get (ram M) t i"
    if "page_aligned t" "t \<notin> dom own2" "i < 512" for t i
    using that vm_stepD(4) [OF 1, of t i] vm_stepD(4) [OF 2, of t i] \<open>dom own1 \<subseteq> dom own2\<close> by auto
  moreover have "link (ram M2) l t i n"
    if "own t = Some p" "length p + l = 3" "i < 512" "link (ram M) l t i n" for t p l i n
    using vm_stepD(5) [OF 2 vm_stepD(2) [OF 1 that(1)] that(2,3) vm_stepD(5) [OF 1 that]] .
  ultimately show ?thesis
    using vm_stepD [OF 1] vm_stepD [OF 2] unfolding vm_step_def by auto
qed

lemma vm_okD:
  assumes "vm_ok M root own"
  shows "pmm_inv (frames M)" "pt_wf (ram M) root own" "own root = Some []"
    "own t = Some p \<Longrightarrow> page_aligned t" "own t = Some p \<Longrightarrow> t \<noteq> NULL"
    "own t = Some p \<Longrightarrow> t \<notin> pmm_avail (frames M)"
  using assms by (auto simp: vm_ok_def pt_wf_def)

lemma vm_step_sim:
  assumes ok: "vm_ok M root own" and sim: "tables_sim (ram M) m' own"
    and fr: "\<And>t i. page_aligned t \<Longrightarrow> t \<notin> dom own \<Longrightarrow> i < 512 \<Longrightarrow> tbl_get m' t i = tbl_get (ram M) t i"
  shows "vm_step root M own (M\<lparr>ram := m'\<rparr>) own"
proof -
  note wf = vm_okD(2) [OF ok]
  have "walk m' 4 root v = walk (ram M) 4 root v" for v
    using walk_sim [OF wf sim vm_okD(3) [OF ok], of 3] by simp
  moreover have "link m' l t i n" if "own t = Some p" "i < 512" "link (ram M) l t i n" for t p l i n
    using link_sim [OF tables_simD [OF sim that(1,2)] that(3)] .
  ultimately show ?thesis
    using ok pt_wf_sim [OF wf sim] fr by (auto simp: vm_step_def vm_ok_def)
qed

lemma entry_or_step:
  assumes ok: "vm_ok M root own" and t: "own t = Some p" "i < 512"
    and fl: "fl AND PAGE_ADDR_MASK = 0" "\<not> bit fl 0" "\<not> bit fl 7"
  shows "vm_step root M own (entry_or M (t + 8 * i) fl) own"
    and "entry_sim (tbl_get (ram M) t i) (tbl_get (ram (entry_or M (t + 8 * i) fl)) t i)"
proof -
  have E: "entry_or M (t + 8 * i) fl = M\<lparr>ram := tbl_set (ram M) t i (tbl_get (ram M) t i OR fl)\<rparr>"
    by (simp add: entry_or_def tbl_set_def tbl_get_def)
  have sim: "entry_sim x (x OR fl)" for x
    using fl by (simp add: entry_sim_def bit_or_iff bit.conj_disj_distrib2)
  show "vm_step root M own (entry_or M (t + 8 * i) fl) own"
    unfolding E
  proof (rule vm_step_sim [OF ok])
    show "tables_sim (ram M) (tbl_set (ram M) t i (tbl_get (ram M) t i OR fl)) own"
      using sim t vm_okD(4) [OF ok] by (auto simp: tables_sim_def mem_simps)
  qed (use t vm_okD(4) [OF ok] in \<open>auto simp: mem_simps\<close>)
  show "entry_sim (tbl_get (ram M) t i) (tbl_get (ram (entry_or M (t + 8 * i) fl)) t i)"
    unfolding E by (simp add: mem_simps sim)
qed

lemma user_flag_neutral: "PAGE_USER AND PAGE_ADDR_MASK = 0" "\<not> bit PAGE_USER 0" "\<not> bit PAGE_USER 7"
  by (simp_all add: bit_flags) (simp add: PAGE_USER_def PAGE_ADDR_MASK_def)

lemma entry_user_step:
  assumes "vm_ok M root own" "own t = Some p" "i < 512"
  shows "vm_step root M own (entry_user M (t + 8 * i) flags) own"
    and "entry_sim (tbl_get (ram M) t i) (tbl_get (ram (entry_user M (t + 8 * i) flags)) t i)"
  using entry_or_step [OF assms user_flag_neutral] assms(1) by (simp_all add: entry_user_def)

text \<open>A new frame from the allocator is not a table of the address space.\<close>

lemma alloc_table:
  assumes ok: "vm_ok M root own" and a: "pmm_alloc (frames M) = (n, fr)" and n: "n \<noteq> NULL"
  shows "page_aligned n" "n AND PAGE_ADDR_MASK = n" "own n = None" "pmm_inv fr"
    "pmm_avail fr \<subseteq> pmm_avail (frames M)" "n \<notin> pmm_avail fr" "n \<in> pmm_avail (frames M)"
proof -
  note inv = vm_okD(1) [OF ok]
  show av: "n \<in> pmm_avail (frames M)" using pmm_frames.alloc_some [OF inv a n] by simp
  from pmm_frames.avail_frame [OF inv av] show "page_aligned n" "n AND PAGE_ADDR_MASK = n"
    by (auto intro: frame_masked)
  show "own n = None" using av ok by (auto simp: vm_ok_def)
  show "pmm_inv fr" using pmm_frames.alloc_ok [OF inv a] .
  show "pmm_avail fr \<subseteq> pmm_avail (frames M)" using pmm_frames.alloc_avail_mono [OF inv a] .
  show "n \<notin> pmm_avail fr" using pmm_frames.alloc_never_owned [OF inv a] .
qed

lemma alloc_fail_step:
  assumes "vm_ok M root own" "pmm_alloc (frames M) = (NULL, fr)"
  shows "vm_step root M own (M\<lparr>frames := fr\<rparr>) own"
  using assms pmm_frames.alloc_null [OF vm_okD(1) [OF assms(1)] assms(2)] by simp

lemma install_step:
  assumes ok: "vm_ok M root own" and a: "pmm_alloc (frames M) = (n, fr)" "n \<noteq> NULL"
    and t: "own t = Some p" "length p + l0 = 3" "0 < l0" "i < 512"
    and e: "e AND PAGE_ADDR_MASK = n" "\<not> bit e 7" "bit e 0"
    and f: "length p < 2 \<Longrightarrow> \<forall>j. f j = 0" and lf: "leaf l0 (tbl_get (ram M) t i)"
    and H: "\<And>v. idx l0 v = i \<Longrightarrow>
      walk (install (ram M) t i n f e) l0 n v = walk (ram M) (Suc l0) t v"
  shows "vm_step root M own (M\<lparr>ram := install (ram M) t i n f e, frames := fr\<rparr>) (own(n \<mapsto> p @ [i]))"
proof -
  note A = alloc_table [OF ok a] and wf = vm_okD(2) [OF ok]
  have "pt_wf (install (ram M) t i n f e) root (own(n \<mapsto> p @ [i]))"
    using install_wf [OF wf t(1) _ t(4) A(1) a(2) A(3) e(1,2) f] t(2,3) by simp
  moreover have "walk (install (ram M) t i n f e) 4 root v = walk (ram M) 4 root v" for v
    using install_walk [OF wf t A(1,3) e H vm_okD(3) [OF ok], of 3] by simp
  moreover have "tbl_get (install (ram M) t i n f e) t' j = tbl_get (ram M) t' j"
    if "page_aligned t'" "t' \<notin> dom (own(n \<mapsto> p @ [i]))" "j < 512" for t' j
    using that t A vm_okD(4) [OF ok] by (auto simp: mem_simps)
  moreover have "link (install (ram M) t i n f e) l t' j k"
    if "own t' = Some q" "length q + l = 3" "j < 512" "link (ram M) l t' j k" for t' q l j k
  proof -
    have "t' \<noteq> n" using that(1) A(3) by auto
    moreover have "\<not> (t' = t \<and> j = i)"
    proof
      assume "t' = t \<and> j = i"
      then have "l = l0" "leaf l0 (tbl_get (ram M) t' j)" using that(1,2) t(1,2) lf by auto
      then show False using that(4) by (simp add: link_def)
    qed
    ultimately show ?thesis
      using that t A vm_okD(4) [OF ok] by (auto simp: link_def mem_simps)
  qed
  moreover have "own \<subseteq>\<^sub>m own(n \<mapsto> p @ [i])" using A(3) by (auto simp: map_le_def)
  ultimately show ?thesis
    using ok A by (auto simp: vm_step_def vm_ok_def)
qed


lemma table_entry_bits:
  fixes n fl :: u64
  assumes "page_aligned n" "n AND PAGE_ADDR_MASK = n"
  defines "e \<equiv> n OR PAGE_PRESENT OR PAGE_RW OR (fl AND PAGE_USER)"
  shows "e AND PAGE_ADDR_MASK = n" "\<not> bit e 7" "bit e 0"
proof -
  have z: "(PAGE_PRESENT OR PAGE_RW OR (fl AND PAGE_USER)) AND PAGE_ADDR_MASK = 0"
    by (rule bit_word_eqI) (auto simp: entry_bits)
  have "e AND PAGE_ADDR_MASK = (n AND PAGE_ADDR_MASK) OR
      ((PAGE_PRESENT OR PAGE_RW OR (fl AND PAGE_USER)) AND PAGE_ADDR_MASK)"
    unfolding e_def by (simp only: bit.conj_disj_distrib2 or.assoc)
  then show "e AND PAGE_ADDR_MASK = n" by (simp add: z assms(2))
  show "\<not> bit e 7" "bit e 0"
    using assms(1) by (auto simp: e_def entry_bits page_aligned_bits)
qed

lemma walk_zero_table:
  "(\<And>j. j < 512 \<Longrightarrow> tbl_get m n j = 0) \<Longrightarrow> walk m l n v = 0"
  by (cases l) (simp_all add: walk_leaf leaf_def leaf_phys_def)

lemma get_or_create_step:
  assumes ok: "vm_ok M root own" and t: "own t = Some p" "length p < 3" "i < 512"
    and nh: "length p = 2 \<Longrightarrow> \<not> bit (tbl_get (ram M) t i) 7"
    and r: "paging_get_or_create_table M (t + 8 * i) fl = (n, M')"
  shows "\<exists>own'. vm_step root M own M' own' \<and>
    (if n = NULL then pmm_avail (frames M') = {}
     else own' n = Some (p @ [i]) \<and> link (ram M') (3 - length p) t i n)"
proof (cases "bit (tbl_get (ram M) t i) 0")
  case True
  then have "n = tbl_get (ram M) t i AND PAGE_ADDR_MASK" "M' = M"
    using r by (auto simp: paging_get_or_create_table_def present_iff tbl_get_def)
  moreover have "own (tbl_get (ram M) t i AND PAGE_ADDR_MASK) = Some (p @ [i])"
    using pt_wfD(3) [OF vm_okD(2) [OF ok] t True] nh by blast
  ultimately show ?thesis
    using ok True t nh vm_okD(5) [OF ok] by (intro exI [of _ own]) (auto simp: link_def leaf_def)
next
  case False
  obtain n' fr where a: "pmm_alloc (frames M) = (n', fr)" by force
  show ?thesis
  proof (cases "n' = NULL")
    case True
    then have "n = NULL" "M' = M\<lparr>frames := fr\<rparr>"
      using r a False by (simp_all add: paging_get_or_create_table_def present_iff tbl_get_def)
    then show ?thesis
      using alloc_fail_step [OF ok] pmm_frames.alloc_null [OF vm_okD(1) [OF ok]] a True by auto
  next
    case nz: False
    let ?e = "n' OR PAGE_PRESENT OR PAGE_RW OR (fl AND PAGE_USER)"
    let ?m = "install (ram M) t i n' (\<lambda>_. 0) ?e"
    have res: "n = n'" "M' = M\<lparr>ram := ?m, frames := fr\<rparr>"
      using r a False nz
      by (auto simp: paging_get_or_create_table_def present_iff tbl_get_def install_def tbl_set_def Let_def)
    note A = alloc_table [OF ok a nz]
    note e = table_entry_bits [OF A(1,2)]
    have pt: "page_aligned t" "t \<noteq> n'" using vm_okD(4) [OF ok] t A(3) by auto
    obtain l0 where l0: "length p + l0 = 3" "0 < l0"
      using t(2) by (metis add_diff_inverse_nat less_imp_le not_less zero_less_diff)
    have "vm_step root M own (M\<lparr>ram := ?m, frames := fr\<rparr>) (own(n' \<mapsto> p @ [i]))"
    proof (rule install_step [OF ok a nz t(1) l0 t(3) e])
      fix v assume "idx l0 v = i"
      then have "walk (ram M) (Suc l0) t v = 0"
        using False nh l0 by (auto simp: walk_leaf leaf_def leaf_phys_def)
      then show "walk ?m l0 n' v = walk (ram M) (Suc l0) t v"
        using walk_zero_table [of ?m n'] A pt t(3) by (auto simp: mem_simps)
    qed (use False in \<open>simp_all add: leaf_def\<close>)
    moreover have "tbl_get ?m t i = ?e" using pt A t by (simp add: mem_simps)
    ultimately show ?thesis using e res l0 t(2) nz
      by (intro exI [of _ "own(n' \<mapsto> p @ [i])"]) (auto simp: link_def leaf_def)
  qed
qed


subsection \<open>Splitting a 2 MiB page\<close>

lemma low_masks: "(0x1FF :: u64) = mask 9" "(0xFFF :: u64) = mask 12" "(0x1FFFFF :: u64) = mask 21"
  by (simp_all add: mask_numeral)

lemma bit_low_masks:
  "bit (0x1FF :: u64) k \<longleftrightarrow> k < 9" "bit (0xFFF :: u64) k \<longleftrightarrow> k < 12"
  "bit (0x1FFFFF :: u64) k \<longleftrightarrow> k < 21"
  unfolding low_masks by (auto simp: bit_mask_iff)

lemma bit_idx: "bit (idx l v) k \<longleftrightarrow> k < 9 \<and> bit v (12 + 9 * l + k)"
  unfolding idx_def bit_and_iff bit_low_masks bit_drop_bit_eq by auto

lemma bit_idx0_shift: "bit (idx 0 v * PAGE_SIZE) k \<longleftrightarrow> 12 \<le> k \<and> k < 21 \<and> bit v k"
proof -
  have "idx 0 v * PAGE_SIZE = push_bit 12 (idx 0 v)" by (simp add: push_bit_eq_mult PAGE_SIZE_def)
  then have "bit (idx 0 v * PAGE_SIZE) k \<longleftrightarrow> 12 \<le> k \<and> k < 64 \<and> bit (idx 0 v) (k - 12)"
    by (auto simp: bit_push_bit_iff)
  then show ?thesis by (auto simp: bit_idx)
qed

lemma huge_page_split:
  assumes al: "\<And>k. 12 \<le> k \<Longrightarrow> k < 21 \<Longrightarrow> \<not> bit e k"
  defines "h \<equiv> e AND PAGE_ADDR_MASK"
  shows "bit ((h + idx 0 v * PAGE_SIZE) OR PAGE_PRESENT OR PAGE_RW OR (fl AND PAGE_USER)) k \<longleftrightarrow>
    (12 \<le> k \<and> k < 52 \<and> bit e k) \<or> (12 \<le> k \<and> k < 21 \<and> bit v k) \<or> k = 0 \<or> k = 1 \<or>
    (k = 2 \<and> bit fl 2)"
proof -
  have "h + idx 0 v * PAGE_SIZE = h OR idx 0 v * PAGE_SIZE"
    using al by (intro disjunctive_add) (auto simp: h_def bit_and_iff bit_addr_mask bit_idx0_shift)
  then show ?thesis
    by (auto simp: h_def bit_or_iff bit_and_iff bit_idx0_shift entry_bits)
qed


lemma split_huge_step:
  assumes ok: "vm_ok M root own" and t: "own t = Some p" "length p = 2" "i < 512"
    and r: "paging_split_huge M (t + 8 * i) (flags AND PAGE_USER) = (b, M')"
  shows "\<exists>own'. vm_step root M own M' own' \<and> (if b then \<not> bit (tbl_get (ram M') t i) 7 else pmm_avail (frames M') = {})"
proof (cases "bit (tbl_get (ram M) t i) 7")
  case False
  then have "M' = M" "b" using r by (auto simp: paging_split_huge_def huge_iff tbl_get_def)
  then show ?thesis using False vm_step_refl [OF ok] by (intro exI [of _ own]) simp
next
  case huge: True
  let ?h = "tbl_get (ram M) t i"
  note wf = vm_okD(2) [OF ok]
  obtain n fr where a: "pmm_alloc (frames M) = (n, fr)" by force
  show ?thesis
  proof (cases "n = NULL")
    case True
    then have "\<not> b" "M' = M\<lparr>frames := fr\<rparr>"
      using r a huge by (simp_all add: paging_split_huge_def huge_iff tbl_get_def)
    then show ?thesis
      using alloc_fail_step [OF ok] pmm_frames.alloc_null [OF vm_okD(1) [OF ok]] a True by auto
  next
    case nz: False
    let ?e = "n OR PAGE_PRESENT OR PAGE_RW OR (flags AND PAGE_USER)"
    let ?f = "\<lambda>j. ((?h AND PAGE_ADDR_MASK) + j * PAGE_SIZE) OR PAGE_PRESENT OR PAGE_RW OR (flags AND PAGE_USER)"
    let ?m = "install (ram M) t i n ?f ?e"
    have res: "M' = M\<lparr>ram := ?m, frames := fr\<rparr>" "b"
      using r a huge nz
      by (auto simp: paging_split_huge_def huge_iff tbl_get_def install_def tbl_set_def Let_def)
    note A = alloc_table [OF ok a nz]
    note e = table_entry_bits [OF A(1,2)]
    have pt: "page_aligned t" "t \<noteq> n" using vm_okD(4) [OF ok] t A(3) by auto
    have "vm_step root M own (M\<lparr>ram := ?m, frames := fr\<rparr>) (own(n \<mapsto> p @ [i]))"
    proof (rule install_step [OF ok a nz t(1) _ _ t(3) e, of 1])
      fix v assume v: "idx 1 v = i"
      define x where "x = ?f (idx 0 v)"
      have f: "bit x k \<longleftrightarrow> (12 \<le> k \<and> k < 52 \<and> bit ?h k) \<or>
        (12 \<le> k \<and> k < 21 \<and> bit v k) \<or> k = 0 \<or> k = 1 \<or> (k = 2 \<and> bit flags 2)" for k
        unfolding x_def by (rule huge_page_split) (use pt_wfD(5) [OF wf t huge] in blast)
      have "tbl_get ?m n (idx 0 v) = x" using pt A t by (simp add: mem_simps x_def)
      then have "walk ?m 1 n v = (x AND PAGE_ADDR_MASK) OR (v AND 0xFFF)"
        using f [of 0] by (simp add: walk_leaf leaf_def leaf_phys_def)
      also have "\<dots> = (?h AND PAGE_ADDR_MASK) OR (v AND 0x1FFFFF)"
        by (rule bit_word_eqI)
          (auto simp only: bit_or_iff bit_and_iff f bit_addr_mask bit_low_masks)
      also have "\<dots> = walk (ram M) (Suc 1) t v"
        using huge v by (simp add: walk_leaf leaf_def leaf_phys_def)
      finally show "walk ?m 1 n v = walk (ram M) (Suc 1) t v" .
    qed (use t huge in \<open>simp_all add: leaf_def\<close>)
    moreover have "tbl_get ?m t i = ?e" using pt A t by (simp add: mem_simps)
    ultimately show ?thesis using e(2) res by auto
  qed
qed

section \<open>Mapping a page\<close>

definition same_page :: "u64 \<Rightarrow> u64 \<Rightarrow> bool" where
  "same_page v w \<longleftrightarrow> idx_pml4 v = idx_pml4 w \<and> idx_pdpt v = idx_pdpt w \<and>
     idx_pd v = idx_pd w \<and> idx_pt v = idx_pt w"

text \<open>Writing one entry of a PT changes the translation of the addresses of its page only.\<close>

lemma set_pte_wf:
  assumes wf: "pt_wf m root own" and t: "own t = Some p" "length p = 3" "i < 512"
  shows "pt_wf (tbl_set m t i e) root own"
  by (rule pt_wf_cong [OF wf]) (use pt_wfD(1) [OF wf] t in \<open>auto simp: mem_simps\<close>)

lemma set_pte_walk_other:
  assumes wf: "pt_wf m root own" and t: "own t = Some p" "length p = 3" "i < 512"
  shows "own t' = Some q \<Longrightarrow> length q + l = 3 \<Longrightarrow> q @ rev (map (\<lambda>k. idx k v) [0..<Suc l]) \<noteq> p @ [i] \<Longrightarrow>
    walk (tbl_set m t i e) (Suc l) t' v = walk m (Suc l) t' v"
proof (induction l arbitrary: t' q)
  case 0
  then have "\<not> (t' = t \<and> idx 0 v = i)" using t by auto
  then have "tbl_get (tbl_set m t i e) t' (idx 0 v) = tbl_get m t' (idx 0 v)"
    using pt_wfD(1) [OF wf] 0 t by (auto simp: mem_simps)
  then show ?case by (simp add: walk_leaf leaf_def)
next
  case (Suc l)
  have "t' \<noteq> t" using Suc.prems t by auto
  then have get: "tbl_get (tbl_set m t i e) t' (idx (Suc l) v) = tbl_get m t' (idx (Suc l) v)"
    using pt_wfD(1) [OF wf] Suc.prems t by (auto simp: mem_simps)
  show ?case
  proof (cases "leaf (Suc l) (tbl_get m t' (idx (Suc l) v))")
    case True
    then show ?thesis using get by (simp add: walk_leaf)
  next
    case False
    then show ?thesis
      using get Suc.IH [OF pt_wf_descend(1) [OF wf Suc.prems(1,2) False]] Suc.prems(2,3)
      by (simp add: walk_descend)
  qed
qed


lemma table_step:
  assumes S: "vm_step root M own M1 own1" and t: "own1 t = Some p" "length p < 3" "i < 512"
    and nh: "length p = 2 \<Longrightarrow> \<not> bit (tbl_get (ram M1) t i) 7"
    and r: "paging_get_or_create_table M1 (t + 8 * i) fl = (n, M2)"
  obtains own2 where "vm_step root M own M2 own2" "vm_step root M1 own1 M2 own2"
    "n = NULL \<Longrightarrow> pmm_avail (frames M2) = {}"
    "n \<noteq> NULL \<Longrightarrow> own2 n = Some (p @ [i]) \<and> link (ram M2) (3 - length p) t i n"
  using get_or_create_step [OF vm_stepD(1) [OF S] t nh r] vm_step_trans [OF S]
  by (auto split: if_splits)

lemma user_step:
  assumes S: "vm_step root M own M1 own1" and t: "own1 t = Some p" "i < 512"
  shows "vm_step root M own (entry_user M1 (t + 8 * i) fl) own1"
    "vm_step root M1 own1 (entry_user M1 (t + 8 * i) fl) own1"
  using entry_user_step(1) [OF vm_stepD(1) [OF S] t] vm_step_trans [OF S] by blast+

text \<open>
  The three upper levels of \<open>paging_map_page_on\<close>: either it gives up, and nothing is translated
  differently, or it reaches a PT that the walk of \<open>virt\<close> reaches too.
\<close>

lemma map_page_on_tables:
  assumes ok: "vm_ok M root own" and r: "paging_map_page_on M root virt phys flags = (ret, M')"
  shows "(\<exists>own'. ret = -1 \<and> vm_step root M own M' own' \<and> pmm_avail (frames M') = {}) \<or>
    (\<exists>own' M7 pdpt pd pt. ret = 0 \<and> vm_step root M own M7 own' \<and>
       own' pt = Some [idx 3 virt, idx 2 virt, idx 1 virt] \<and>
       own' pdpt = Some [idx 3 virt] \<and>
       link (ram M7) 3 root (idx 3 virt) pdpt \<and> link (ram M7) 2 pdpt (idx 2 virt) pd \<and>
       link (ram M7) 1 pd (idx 1 virt) pt \<and>
       M' = M7\<lparr>ram := tbl_set (ram M7) pt (idx 0 virt) ((phys AND PAGE_ADDR_MASK) OR (flags OR PAGE_PRESENT))\<rparr>)"
proof -
  let ?tf = "flags AND PAGE_USER"
  obtain pdpt M1 where 1: "paging_get_or_create_table M (root + 8 * idx 3 virt) ?tf = (pdpt, M1)" by force
  obtain own1 where S1: "vm_step root M own M1 own1" and E1: "pdpt = NULL \<Longrightarrow> pmm_avail (frames M1) = {}"
    and P1: "pdpt \<noteq> NULL \<Longrightarrow> own1 pdpt = Some [idx 3 virt] \<and> link (ram M1) 3 root (idx 3 virt) pdpt"
    by (rule table_step [OF vm_step_refl [OF ok] vm_okD(3) [OF ok] _ _ _ 1]) auto
  show ?thesis
  proof (cases "pdpt = NULL")
    case True
    then show ?thesis using r 1 S1 E1 by (auto simp: paging_map_page_on_def idx_eqs)
  next
    case n1: False
    define M2 where "M2 = entry_user M1 (root + 8 * idx 3 virt) flags"
    have root1: "own1 root = Some []" using vm_stepD(2) [OF S1 vm_okD(3) [OF ok]] .
    note U1 = user_step [OF S1 root1 idx_bound [of 3 virt], of flags, folded M2_def]
    have L1: "link (ram M2) 3 root (idx 3 virt) pdpt" "own1 pdpt = Some [idx 3 virt]"
      using vm_stepD(5) [OF U1(2) root1] P1 [OF n1] by auto
    obtain pd M3 where 2: "paging_get_or_create_table M2 (pdpt + 8 * idx 2 virt) ?tf = (pd, M3)" by force
    obtain own2 where S2: "vm_step root M own M3 own2" "vm_step root M2 own1 M3 own2"
      and E2: "pd = NULL \<Longrightarrow> pmm_avail (frames M3) = {}"
      and P2: "pd \<noteq> NULL \<Longrightarrow> own2 pd = Some [idx 3 virt, idx 2 virt] \<and> link (ram M3) 2 pdpt (idx 2 virt) pd"
      by (rule table_step [OF U1(1) L1(2) _ _ _ 2]) auto
    show ?thesis
    proof (cases "pd = NULL")
      case True
      then show ?thesis using r 1 2 n1 S2(1) E2 by (auto simp: paging_map_page_on_def idx_eqs M2_def)
    next
      case n2: False
      define M4 where "M4 = entry_user M3 (pdpt + 8 * idx 2 virt) flags"
      have pdpt2: "own2 pdpt = Some [idx 3 virt]" using vm_stepD(2) [OF S2(2) L1(2)] .
      note U2 = user_step [OF S2(1) pdpt2 idx_bound [of 2 virt], of flags, folded M4_def]
      have pd4: "own2 pd = Some [idx 3 virt, idx 2 virt]" using P2 [OF n2] by simp
      obtain b M5 where 3: "paging_split_huge M4 (pd + 8 * idx 1 virt) ?tf = (b, M5)" by force
      obtain own3 where S3: "vm_step root M4 own2 M5 own3" and P3: "b \<Longrightarrow> \<not> bit (tbl_get (ram M5) pd (idx 1 virt)) 7"
        and E3: "\<not> b \<Longrightarrow> pmm_avail (frames M5) = {}"
        using split_huge_step [OF vm_stepD(1) [OF U2(1)] pd4 _ _ 3] by (auto split: if_splits)
      have S3': "vm_step root M own M5 own3" using vm_step_trans [OF U2(1) S3] .
      show ?thesis
      proof (cases b)
        case False
        then show ?thesis using r 1 2 3 n1 n2 S3' E3
          by (auto simp: paging_map_page_on_def idx_eqs M2_def M4_def)
      next
        case True
        define M6 where "M6 = entry_user M5 (pd + 8 * idx 1 virt) flags"
        have pd5: "own3 pd = Some [idx 3 virt, idx 2 virt]" using vm_stepD(2) [OF S3 pd4] .
        note U3 = user_step [OF S3' pd5 idx_bound [of 1 virt], of flags, folded M6_def]
        have nh: "\<not> bit (tbl_get (ram M6) pd (idx 1 virt)) 7"
          using entry_user_step(2) [OF vm_stepD(1) [OF S3'] pd5, of "idx 1 virt" flags] P3 [OF True]
          by (simp add: M6_def entry_sim_def)
        obtain pt M7 where 4: "paging_get_or_create_table M6 (pd + 8 * idx 1 virt) ?tf = (pt, M7)" by force
        obtain own4 where S4: "vm_step root M own M7 own4" "vm_step root M6 own3 M7 own4"
          and E4: "pt = NULL \<Longrightarrow> pmm_avail (frames M7) = {}"
          and P4: "pt \<noteq> NULL \<Longrightarrow> own4 pt = Some [idx 3 virt, idx 2 virt, idx 1 virt] \<and> link (ram M7) 1 pd (idx 1 virt) pt"
          by (rule table_step [OF U3(1) pd5 _ _ _ 4]) (use nh in auto)
        have S26: "vm_step root M2 own1 M7 own4" "vm_step root M3 own2 M7 own4"
          using vm_step_trans [OF S2(2)] vm_step_trans [OF U2(2)] vm_step_trans [OF S3]
            vm_step_trans [OF U3(2) S4(2)] by blast+
        have "link (ram M7) 3 root (idx 3 virt) pdpt" "link (ram M7) 2 pdpt (idx 2 virt) pd"
          "own4 pdpt = Some [idx 3 virt]"
          using vm_stepD(5) [OF S26(1) root1] vm_stepD(5) [OF S26(2) pdpt2] L1 P2 [OF n2]
            vm_stepD(2) [OF S26(2) pdpt2] by auto
        then show ?thesis
          using r 1 2 3 4 n1 n2 True S4(1) P4 E4
          by (cases "pt = NULL")
            (fastforce simp: paging_map_page_on_def idx_eqs M2_def M4_def M6_def tbl_set_def)+
      qed
    qed
  qed
qed


lemma pte_bits:
  assumes "flags AND PAGE_ADDR_MASK = 0"
  shows "((phys AND PAGE_ADDR_MASK) OR (flags OR PAGE_PRESENT)) AND PAGE_ADDR_MASK = phys AND PAGE_ADDR_MASK"
    "bit ((phys AND PAGE_ADDR_MASK) OR (flags OR PAGE_PRESENT)) 0"
proof -
  have "PAGE_PRESENT AND PAGE_ADDR_MASK = 0" by (simp add: PAGE_PRESENT_def PAGE_ADDR_MASK_def)
  then show "((phys AND PAGE_ADDR_MASK) OR (flags OR PAGE_PRESENT)) AND PAGE_ADDR_MASK = phys AND PAGE_ADDR_MASK"
    using assms by (simp add: bit.conj_disj_distrib2 and.assoc)
qed (simp add: entry_bits)

lemma link_set_other: "t \<noteq> pt \<Longrightarrow> page_aligned t \<Longrightarrow> page_aligned pt \<Longrightarrow> i < 512 \<Longrightarrow> j < 512 \<Longrightarrow>
    link (tbl_set m pt i e) l t j n \<longleftrightarrow> link m l t j n"
  by (simp add: link_def mem_simps)

lemma link_own:
  assumes "pt_wf m root own" "own t = Some p" "length p + l = 3" "i < 512" "link m l t i n"
  shows "own n = Some (p @ [i])"
proof -
  have "length p < 3" "length p = 2 \<longleftrightarrow> l = 1" using assms(3,5) by (auto simp: link_def leaf_def)
  then show ?thesis
    using pt_wfD(3) [OF assms(1,2) _ assms(4)] assms(5) by (auto simp: link_def leaf_def)
qed

lemma walk_set_pte_leaf:
  assumes wf: "pt_wf m root own" and pt: "own pt = Some [idx 3 v, idx 2 v, idx 1 v]"
    and r0: "page_aligned r0" "r0 \<noteq> pt"
    and pdpt: "own pdpt = Some [idx 3 v]"
    and links: "link m 3 r0 (idx 3 v) pdpt" "link m 2 pdpt (idx 2 v) pd" "link m 1 pd (idx 1 v) pt"
  shows "walk (tbl_set m pt (idx 0 v) e) 4 r0 v = leaf_phys 0 e v"
proof -
  have pd: "own pd = Some [idx 3 v, idx 2 v]" using link_own [OF wf pdpt _ _ links(2)] by simp
  have ne: "pdpt \<noteq> pt" "pd \<noteq> pt" using pdpt pd pt by auto
  let ?m = "tbl_set m pt (idx 0 v) e"
  have L: "link ?m 3 r0 (idx 3 v) pdpt" "link ?m 2 pdpt (idx 2 v) pd" "link ?m 1 pd (idx 1 v) pt"
    using links ne r0 pt_wfD(1) [OF wf pdpt] pt_wfD(1) [OF wf pd] pt_wfD(1) [OF wf pt]
    by (simp_all add: link_set_other)
  have "walk ?m (Suc 3) r0 v = walk ?m (Suc 2) pdpt v" using walk_link [OF L(1)] by simp
  also have "\<dots> = walk ?m (Suc 1) pd v" using walk_link [OF L(2)] by (simp add: numeral_2_eq_2)
  also have "\<dots> = walk ?m (Suc 0) pt v" using walk_link [OF L(3)] by simp
  also have "\<dots> = leaf_phys 0 e v" by (simp add: walk_leaf leaf_def mem_simps)
  finally show ?thesis by simp
qed

lemma leaf_phys_pte: "bit e 0 \<Longrightarrow> leaf_phys 0 e v = (e AND PAGE_ADDR_MASK) OR (v AND 0xFFF)"
  by (simp add: leaf_phys_def)

lemma map_page_on_ok:
  assumes ok: "vm_ok M pml4 own" and fl: "flags AND PAGE_ADDR_MASK = 0"
    and r: "paging_map_page_on M pml4 virt phys flags = (ret, M')"
  shows "\<exists>own'. vm_ok M' pml4 own' \<and> own \<subseteq>\<^sub>m own' \<and> pmm_avail (frames M') \<subseteq> pmm_avail (frames M) \<and>
    (if ret = 0
     then \<forall>v. paging_get_phys_on M' pml4 v =
       (if same_page v virt then (phys AND PAGE_ADDR_MASK) OR (v AND 0xFFF) else paging_get_phys_on M pml4 v)
     else ret = -1 \<and> pmm_avail (frames M') = {} \<and>
       (\<forall>v. paging_get_phys_on M' pml4 v = paging_get_phys_on M pml4 v))"
  using map_page_on_tables [OF ok r]
proof (elim disjE exE conjE)
  fix own' assume "ret = -1" "vm_step pml4 M own M' own'" "pmm_avail (frames M') = {}"
  then show ?thesis by (auto simp: vm_step_def get_phys_walk intro!: exI [of _ own'])
next
  fix own' M7 pdpt pd pt
  assume ret: "ret = 0" and S: "vm_step pml4 M own M7 own'"
    and pt: "own' pt = Some [idx 3 virt, idx 2 virt, idx 1 virt]" and pdpt: "own' pdpt = Some [idx 3 virt]"
    and links: "link (ram M7) 3 pml4 (idx 3 virt) pdpt" "link (ram M7) 2 pdpt (idx 2 virt) pd"
      "link (ram M7) 1 pd (idx 1 virt) pt"
    and M': "M' = M7\<lparr>ram := tbl_set (ram M7) pt (idx 0 virt)
      ((phys AND PAGE_ADDR_MASK) OR (flags OR PAGE_PRESENT))\<rparr>" (is "_ = M7\<lparr>ram := tbl_set _ _ _ ?e\<rparr>")
  note ok7 = vm_stepD(1) [OF S] and wf7 = vm_okD(2) [OF vm_stepD(1) [OF S]]
  have "vm_ok M' pml4 own'"
    using ok7 set_pte_wf [OF wf7 pt] by (simp add: M' vm_ok_def)
  moreover have "walk (ram M') 4 pml4 v = (phys AND PAGE_ADDR_MASK) OR (v AND 0xFFF)" if "same_page v virt" for v
  proof -
    have idx: "idx 3 v = idx 3 virt" "idx 2 v = idx 2 virt" "idx 1 v = idx 1 virt" "idx 0 v = idx 0 virt"
      using that by (simp_all add: same_page_def idx_eqs)
    have "walk (tbl_set (ram M7) pt (idx 0 v) ?e) 4 pml4 v = leaf_phys 0 ?e v"
      by (rule walk_set_pte_leaf [OF wf7 _ vm_okD(4) [OF ok7 vm_okD(3) [OF ok7]]])
        (unfold idx, fact pt, use pt vm_okD(3) [OF ok7] in force, fact pdpt, fact links, fact links,
          fact links)
    moreover have "ram M' = tbl_set (ram M7) pt (idx 0 v) ?e" by (simp add: M' idx)
    ultimately show ?thesis by (simp only: leaf_phys_pte [OF pte_bits(2) [OF fl]] pte_bits(1) [OF fl])
  qed
  moreover have "walk (ram M') 4 pml4 v = walk (ram M) 4 pml4 v" if "\<not> same_page v virt" for v
  proof -
    have "[] @ rev (map (\<lambda>k. idx k v) [0..<Suc 3]) \<noteq> [idx 3 virt, idx 2 virt, idx 1 virt] @ [idx 0 virt]"
      using that by (auto simp: same_page_def idx_eqs numeral_3_eq_3 numeral_2_eq_2)
    from set_pte_walk_other [OF wf7 pt _ idx_bound vm_okD(3) [OF ok7] _ this, of ?e]
    show ?thesis using vm_stepD(3) [OF S] by (simp add: M')
  qed
  moreover have "pmm_avail (frames M') \<subseteq> pmm_avail (frames M)" using S by (simp add: vm_step_def M')
  ultimately show ?thesis
    using ret S by (auto simp: vm_step_def get_phys_walk intro!: exI [of _ own'])
qed

text \<open>
  C3: \<open>paging_map_page_on\<close> keeps the table tree well formed and owned by this address space. If it
  returns 0, the page of \<open>virt\<close> translates to \<open>phys\<close> and every other address translates as before
  (also when a 2 MiB page was split on the way); if it returns -1, no frame is left and no address
  translates differently.
\<close>

theorem paging_map_page_on_spec:
  assumes ok: "vm_ok M pml4 own" and fl: "flags AND PAGE_ADDR_MASK = 0"
    and r: "paging_map_page_on M pml4 virt phys flags = (ret, M')"
  shows "\<exists>own'. vm_ok M' pml4 own' \<and> own \<subseteq>\<^sub>m own' \<and>
    (if ret = 0
     then \<forall>v. paging_get_phys_on M' pml4 v =
       (if same_page v virt then (phys AND PAGE_ADDR_MASK) OR (v AND 0xFFF) else paging_get_phys_on M pml4 v)
     else ret = -1 \<and> pmm_avail (frames M') = {} \<and>
       (\<forall>v. paging_get_phys_on M' pml4 v = paging_get_phys_on M pml4 v))"
  using map_page_on_ok [OF ok fl r] by blast

text \<open>A machine with an empty PML4 at 0x1000, all memory zero, and the frames of \<open>boot_low\<close>.\<close>

definition vm_demo :: machine where
  "vm_demo = \<lparr>ram = (\<lambda>_. 0), frames = boot_low, g_pml4 = 0x1000, invlpg_log = []\<rparr>"

lemma load64_zero [simp]: "load64 (\<lambda>_. 0) a = 0"
  by (rule bit_word_eqI) (simp add: load64_def bit_load_le)

lemma tbl_get_zero [simp]: "tbl_get (\<lambda>_. 0) t i = 0"
  by (simp add: tbl_get_def)

lemma low_not_avail: "pmm_inv s \<Longrightarrow> p < RESERVE_LOW \<Longrightarrow> p \<notin> pmm_avail s"
  using frame_addr(3) free_set_bounds unfolding pmm_avail_def by (fastforce simp: not_less [symmetric])

lemma vm_demo_ok: "vm_ok vm_demo 0x1000 [0x1000 \<mapsto> []]"
proof -
  have "0x1000 \<notin> pmm_avail boot_low" by (rule low_not_avail) (simp_all add: boot_pools pmm_consts)
  then show ?thesis
    by (simp add: vm_ok_def vm_demo_def boot_pools pt_wf_def page_aligned_def)
qed

theorem paging_map_page_on_spec_witness:
  "\<exists>ret M'. paging_map_page_on vm_demo 0x1000 0x400000 0x300000 (PAGE_USER OR PAGE_RW) = (ret, M') \<and>
     (ret = 0 \<longrightarrow> paging_get_phys_on M' 0x1000 0x400123 = 0x300123 \<and>
                  paging_get_phys_on M' 0x1000 0x500000 = 0) \<and>
     (ret \<noteq> 0 \<longrightarrow> pmm_avail (frames M') = {})"
proof -
  obtain ret M' where r: "paging_map_page_on vm_demo 0x1000 0x400000 0x300000 (PAGE_USER OR PAGE_RW) = (ret, M')"
    by force
  have fl: "(PAGE_USER OR PAGE_RW) AND PAGE_ADDR_MASK = 0"
    by (simp add: PAGE_USER_def PAGE_RW_def PAGE_ADDR_MASK_def)
  have "same_page 0x400123 0x400000" "\<not> same_page 0x500000 0x400000"
    by (simp_all add: same_page_def idx_pml4_def idx_pdpt_def idx_pd_def idx_pt_def)
  moreover have "(0x300000 AND PAGE_ADDR_MASK) OR (0x400123 AND 0xFFF) = 0x300123"
    by (simp add: PAGE_ADDR_MASK_def)
  moreover have "paging_get_phys_on vm_demo 0x1000 v = 0" for v
    by (simp add: paging_get_phys_on_def vm_demo_def Let_def)
  ultimately show ?thesis
    using paging_map_page_on_spec [OF vm_demo_ok fl r] r by (auto split: if_splits)
qed

section \<open>Adding flags\<close>

lemma entry_or_link:
  assumes ok: "vm_ok M root own" and t: "own t = Some p" "length p + l = 3" "i < 512"
    and fl: "fl AND PAGE_ADDR_MASK = 0" "\<not> bit fl 0" "\<not> bit fl 7"
    and L: "\<not> leaf l (tbl_get (ram M) t i)"
  shows "own (load64 (ram (entry_or M (t + 8 * i) fl)) (t + 8 * i) AND PAGE_ADDR_MASK) = Some (p @ [i])"
proof -
  note st = entry_or_step [OF ok t(1,3) fl]
  have "link (ram M) l t i (tbl_get (ram M) t i AND PAGE_ADDR_MASK)" using L by (simp add: link_def)
  from link_own [OF vm_okD(2) [OF ok] t this] show ?thesis
    using st(2) by (simp add: entry_sim_def tbl_get_def)
qed

lemma invlpg_simps [simp]:
  "vm_ok (invlpg M virt) = vm_ok M" "ram (invlpg M virt) = ram M" "g_pml4 (invlpg M virt) = g_pml4 M"
  "frames (invlpg M virt) = frames M" "invlpg_log (invlpg M virt) = virt # invlpg_log M"
  by (simp_all add: invlpg_def vm_ok_def fun_eq_iff)

lemma add_flags_steps:
  assumes ok: "vm_ok M (g_pml4 M) own"
    and fl: "flags AND PAGE_ADDR_MASK = 0" "\<not> bit flags 0" "\<not> bit flags 7"
  shows "\<exists>M1. vm_step (g_pml4 M) M own M1 own \<and>
    (paging_add_flags M virt flags = (-1, M1) \<or> paging_add_flags M virt flags = (0, invlpg M1 virt))"
proof -
  let ?r = "g_pml4 M" and ?i = "\<lambda>l. idx l virt"
  note root = vm_okD(3) [OF ok]
  define M1 where "M1 = entry_or M (?r + 8 * ?i 3) flags"
  define pdpt where "pdpt = load64 (ram M1) (?r + 8 * ?i 3) AND PAGE_ADDR_MASK"
  define M2 where "M2 = entry_or M1 (pdpt + 8 * ?i 2) flags"
  define pd where "pd = load64 (ram M2) (pdpt + 8 * ?i 2) AND PAGE_ADDR_MASK"
  define pt where "pt = load64 (ram M2) (pd + 8 * ?i 1) AND PAGE_ADDR_MASK"
  note defs = M1_def pdpt_def M2_def pd_def pt_def idx_eqs present_iff huge_iff
  have S1: "vm_step ?r M own M1 own" using entry_or_step(1) [OF ok root _ fl] by (simp add: M1_def)
  show ?thesis
  proof (cases "bit (tbl_get (ram M) ?r (?i 3)) 0")
    case False
    then show ?thesis using vm_step_refl [OF ok]
      by (auto simp: paging_add_flags_def Let_def present_iff tbl_get_def idx_eqs)
  next
    case 1: True
    then have pdpt: "own pdpt = Some [?i 3]"
      using entry_or_link [OF ok root _ _ fl, of 3 "?i 3"] by (simp add: leaf_def pdpt_def M1_def)
    have S2: "vm_step ?r M own M2 own"
      using vm_step_trans [OF S1] entry_or_step(1) [OF vm_stepD(1) [OF S1] pdpt _ fl] by (simp add: M2_def)
    show ?thesis
    proof (cases "bit (tbl_get (ram M1) pdpt (?i 2)) 0")
      case False
      then have "paging_add_flags M virt flags = (-1, M1)"
        using 1 by (simp add: paging_add_flags_def Let_def tbl_get_def defs)
      then show ?thesis using S1 by blast
    next
      case 2: True
      then have pd: "own pd = Some [?i 3, ?i 2]"
        using entry_or_link [OF vm_stepD(1) [OF S1] pdpt _ _ fl, of 2 "?i 2"] by (simp add: leaf_def pd_def M2_def)
      show ?thesis
      proof (cases "bit (load64 (ram M2) (pdpt + 8 * ?i 2)) 7")
        case True
        then have "paging_add_flags M virt flags = (0, invlpg M2 virt)"
          using 1 2 by (simp add: paging_add_flags_def Let_def tbl_get_def defs)
        then show ?thesis using S2 by blast
      next
        case 3: False
        show ?thesis
        proof (cases "bit (tbl_get (ram M2) pd (?i 1)) 0")
          case False
          then have "paging_add_flags M virt flags = (-1, M2)"
            using 1 2 3 by (simp add: paging_add_flags_def Let_def tbl_get_def defs)
          then show ?thesis using S2 by blast
        next
          case 4: True
          show ?thesis
          proof (cases "bit (tbl_get (ram M2) pd (?i 1)) 7")
            case True
            then have "paging_add_flags M virt flags = (0, invlpg (entry_or M2 (pd + 8 * ?i 1) flags) virt)"
              using 1 2 3 4 by (simp add: paging_add_flags_def Let_def tbl_get_def defs)
            moreover have "vm_step ?r M own (entry_or M2 (pd + 8 * ?i 1) flags) own"
              using vm_step_trans [OF S2] entry_or_step(1) [OF vm_stepD(1) [OF S2] pd _ fl] by simp
            ultimately show ?thesis by blast
          next
            case 5: False
            have "link (ram M2) 1 pd (?i 1) pt" using 4 5 by (simp add: link_def leaf_def pt_def tbl_get_def)
            then have pt: "own pt = Some [?i 3, ?i 2, ?i 1]"
              using link_own [OF vm_okD(2) [OF vm_stepD(1) [OF S2]] pd] by simp
            have S3: "vm_step ?r M own (entry_or M2 (pt + 8 * ?i 0) flags) own"
              using vm_step_trans [OF S2] entry_or_step(1) [OF vm_stepD(1) [OF S2] pt _ fl] by simp
            have "paging_add_flags M virt flags = (-1, M2) \<or>
              paging_add_flags M virt flags = (0, invlpg (entry_or M2 (pt + 8 * ?i 0) flags) virt)"
              using 1 2 3 4 5 by (simp add: paging_add_flags_def Let_def tbl_get_def defs)
            then show ?thesis using S2 S3 by blast
          qed
        qed
      qed
    qed
  qed
qed

text \<open>
  Adding flags that do not touch the address, present and page-size bits changes no translation
  of the current address space, whatever \<open>paging_add_flags\<close> returns, and every success is
  followed by the invalidation of the address.
\<close>

theorem paging_add_flags_spec:
  assumes "vm_ok M (g_pml4 M) own" "flags AND PAGE_ADDR_MASK = 0" "\<not> bit flags 0" "\<not> bit flags 7"
    and "paging_add_flags M virt flags = (ret, M')"
  shows "vm_ok M' (g_pml4 M') own \<and> (\<forall>v. paging_get_phys M' v = paging_get_phys M v) \<and>
    invlpg_log M' = (if ret = 0 then virt # invlpg_log M else invlpg_log M)"
  using add_flags_steps [OF assms(1-4), of virt] assms(5)
  by (auto simp: vm_step_def paging_get_phys_def get_phys_walk)

theorem paging_add_flags_spec_witness:
  "fst (paging_add_flags vm_demo 0x400000 PAGE_USER) = -1 \<and>
   vm_ok (snd (paging_add_flags vm_demo 0x400000 PAGE_USER)) 0x1000 [0x1000 \<mapsto> []]"
proof -
  have "paging_add_flags vm_demo 0x400000 PAGE_USER = (-1, vm_demo)"
    by (simp add: paging_add_flags_def vm_demo_def Let_def)
  moreover have "vm_ok vm_demo (g_pml4 vm_demo) [0x1000 \<mapsto> []]"
    using vm_demo_ok by (simp add: vm_demo_def)
  ultimately show ?thesis
    using paging_add_flags_spec [where M = vm_demo and own = "[0x1000 \<mapsto> []]" and flags = PAGE_USER and
        virt = "0x400000" and ret = "-1" and M' = vm_demo] user_flag_neutral
    by (simp add: vm_demo_def)
qed


section \<open>Cloning an address space\<close>

lemma walk_top_eq:
  "(\<And>i. i < 512 \<Longrightarrow> tbl_get m t i = tbl_get m t' i) \<Longrightarrow> walk m (Suc l) t v = walk m (Suc l) t' v"
  by (simp add: walk.simps(2) Let_def)

lemma clone_step:
  assumes ok: "vm_ok M (g_pml4 M) own" and r: "paging_clone_current M = (new, M')" "new \<noteq> 0"
  shows "vm_ok M' (g_pml4 M) own"
    and "vm_ok M' new ((own(g_pml4 M := None))(new \<mapsto> []))"
    and "own new = None" "page_aligned new"
    and "i < 512 \<Longrightarrow> tbl_get (ram M') new i = tbl_get (ram M') (g_pml4 M) i"
    and "own t = Some p \<Longrightarrow> i < 512 \<Longrightarrow> tbl_get (ram M') t i = tbl_get (ram M) t i"
    and "walk (ram M') 4 (g_pml4 M) v = walk (ram M) 4 (g_pml4 M) v"
    and "walk (ram M') 4 new v = walk (ram M) 4 (g_pml4 M) v"
proof -
  let ?r = "g_pml4 M" and ?own = "(own(g_pml4 M := None))(new \<mapsto> [])"
  obtain n fr where a: "pmm_alloc (frames M) = (n, fr)" by force
  with r have n: "n = new" and M': "M' = M\<lparr>ram := tbl_fill (ram M) new (tbl_get (ram M) ?r) PAGE_TABLE_ENTRIES,
      frames := fr\<rparr>"
    by (auto simp: paging_clone_current_def split: if_splits)
  note A = alloc_table [OF ok a [unfolded n] r(2)]
  note root = vm_okD(3) [OF ok] and wf = vm_okD(2) [OF ok]
  show "own new = None" "page_aligned new" using A by simp_all
  have get: "tbl_get (ram M') t i = (if t = new then tbl_get (ram M) ?r i else tbl_get (ram M) t i)"
    if "page_aligned t" "i < 512" for t i
    using that A by (simp add: M' mem_simps)
  have sim: "tables_sim (ram M) (ram M') own"
    using A(3) vm_okD(4) [OF ok] by (auto simp: tables_sim_def get)
  show W: "walk (ram M') 4 ?r v = walk (ram M) 4 ?r v" for v
    using walk_sim [OF wf sim root, of 3] by simp
  have wf': "pt_wf (ram M') ?r own" using pt_wf_sim [OF wf sim] .
  show rn: "tbl_get (ram M') new i = tbl_get (ram M') ?r i" if "i < 512" for i
    using that A root vm_okD(4) [OF ok root] by (auto simp: get)
  show "tbl_get (ram M') t i = tbl_get (ram M) t i" if "own t = Some p" "i < 512" for t p i
    using that A vm_okD(4) [OF ok that(1)] by (auto simp: get)
  show "walk (ram M') 4 new v = walk (ram M) 4 ?r v"
    using rn walk_top_eq [of "ram M'" new ?r 3 v] W by simp
  have fr: "pmm_inv (frames M')" "dom own \<inter> pmm_avail (frames M') = {}" "new \<notin> pmm_avail (frames M')"
    using A ok by (auto simp: M' vm_ok_def)
  show "vm_ok M' ?r own" using wf' fr by (simp add: vm_ok_def)
  have "pt_wf (ram M') new ?own"
    unfolding pt_wf_def
  proof (intro conjI allI impI; (elim conjE)?)
    fix t i :: u64 and p :: "u64 list"
    assume t: "?own t = Some p"
    show "page_aligned t" "t \<noteq> NULL"
      using t A(1) r(2) vm_okD(4,5) [OF ok] by (auto split: if_splits)
    assume i: "i < 512"
    define t0 where "t0 = (if t = new then ?r else t)"
    have t0: "own t0 = Some p" "tbl_get (ram M') t i = tbl_get (ram M') t0 i"
      using t root rn [OF i] by (auto simp: t0_def split: if_splits)
    { assume "length p < 3" "bit (tbl_get (ram M') t i) 0" "\<not> (length p = 2 \<and> bit (tbl_get (ram M') t i) 7)"
      then have c: "own (tbl_get (ram M') t i AND PAGE_ADDR_MASK) = Some (p @ [i])"
        using pt_wfD(3) [OF wf' t0(1) _ i] t0(2) by auto
      then have "tbl_get (ram M') t i AND PAGE_ADDR_MASK \<noteq> ?r" "tbl_get (ram M') t i AND PAGE_ADDR_MASK \<noteq> new"
        using root A(3) by auto
      then show "?own (tbl_get (ram M') t i AND PAGE_ADDR_MASK) = Some (p @ [i])" using c by simp }
    { assume "length p = 2" "bit (tbl_get (ram M') t i) 7"
      then show "bit (tbl_get (ram M') t i) 0" using pt_wfD(4) [OF wf' t0(1) _ i] t0(2) by auto
      fix k :: nat assume "12 \<le> k" "k < 21"
      then show "\<not> bit (tbl_get (ram M') t i) k"
        using pt_wfD(5) [OF wf' t0(1) _ i] t0(2) \<open>length p = 2\<close> \<open>bit (tbl_get (ram M') t i) 7\<close> by auto }
  qed simp
  then show "vm_ok M' new ?own" using fr by (auto simp: vm_ok_def)
qed

text \<open>
  A cloned PML4 translates every address as the current one does, and the current address
  space is not changed by the cloning.
\<close>

theorem paging_clone_same_translation:
  assumes "vm_ok M (g_pml4 M) own" "paging_clone_current M = (new, M')" "new \<noteq> 0"
  shows "paging_get_phys_on M' new v = paging_get_phys M v \<and> paging_get_phys_on M' (g_pml4 M) v = paging_get_phys M v"
  using clone_step(7,8) [OF assms, of v] by (simp add: paging_get_phys_def get_phys_walk)

text \<open>
  The clone shares every table below the PML4. Where the current PML4 has a present entry for
  \<open>virt\<close>, a page mapped into the clone is mapped in the current address space as well.
\<close>

theorem paging_clone_shares_tables:
  assumes ok: "vm_ok M (g_pml4 M) own" and c: "paging_clone_current M = (new, M1)" "new \<noteq> 0"
    and pr: "bit (tbl_get (ram M) (g_pml4 M) (idx_pml4 virt)) 0"
    and fl: "flags AND PAGE_ADDR_MASK = 0"
    and r: "paging_map_page_on M1 new virt phys flags = (0, M2)"
  shows "paging_get_phys_on M2 (g_pml4 M) virt = (phys AND PAGE_ADDR_MASK) OR (virt AND 0xFFF)"
proof -
  let ?r = "g_pml4 M"
  note C = clone_step [OF ok c] and root = vm_okD(3) [OF ok]
  have rn: "?r \<noteq> new" using root C(3) by auto
  from map_page_on_tables [OF C(2) r] obtain own' M7 pdpt pd pt where
    S: "vm_step new M1 ((own(?r := None))(new \<mapsto> [])) M7 own'"
    and pt: "own' pt = Some [idx 3 virt, idx 2 virt, idx 1 virt]" and pdpt: "own' pdpt = Some [idx 3 virt]"
    and links: "link (ram M7) 3 new (idx 3 virt) pdpt" "link (ram M7) 2 pdpt (idx 2 virt) pd"
      "link (ram M7) 1 pd (idx 1 virt) pt"
    and M2: "M2 = M7\<lparr>ram := tbl_set (ram M7) pt (idx 0 virt)
      ((phys AND PAGE_ADDR_MASK) OR (flags OR PAGE_PRESENT))\<rparr>" by auto
  have nr: "?r \<notin> dom own'"
    using S rn vm_okD(6) [OF C(1) root] by (auto simp: vm_step_def)
  have ral: "page_aligned ?r" using vm_okD(4) [OF ok root] .
  have e: "tbl_get (ram M7) ?r (idx 3 virt) = tbl_get (ram M1) new (idx 3 virt)"
    using vm_stepD(4) [OF S ral nr] C(5) by simp
  have "\<not> leaf 3 (tbl_get (ram M1) new (idx 3 virt))"
    using pr C(5) [of "idx 3 virt"] C(6) [OF root, of "idx 3 virt"] by (simp add: leaf_def idx_eqs)
  then have "link (ram M1) 3 new (idx 3 virt) (tbl_get (ram M1) new (idx 3 virt) AND PAGE_ADDR_MASK)"
    by (simp add: link_def)
  from vm_stepD(5) [OF S _ _ _ this] links(1)
  have "tbl_get (ram M1) new (idx 3 virt) AND PAGE_ADDR_MASK = pdpt" by (simp add: link_def)
  then have L: "link (ram M7) 3 ?r (idx 3 virt) pdpt"
    using \<open>\<not> leaf 3 _\<close> e by (simp add: link_def)
  have "walk (ram M2) 4 ?r virt = leaf_phys 0 ((phys AND PAGE_ADDR_MASK) OR (flags OR PAGE_PRESENT)) virt"
    unfolding M2 machine.simps
    using walk_set_pte_leaf [OF vm_okD(2) [OF vm_stepD(1) [OF S]] pt ral _ pdpt L links(2,3)] nr pt
    by force
  then show ?thesis
    by (simp only: get_phys_walk leaf_phys_pte [OF pte_bits(2) [OF fl]] pte_bits(1) [OF fl])
qed


lemma get_or_create_link:
  "link (ram M) l t i n \<Longrightarrow> paging_get_or_create_table M (t + 8 * i) fl = (n, M)"
  by (auto simp: link_def leaf_def paging_get_or_create_table_def present_iff tbl_get_def)

lemma split_huge_link:
  "link (ram M) 1 t i n \<Longrightarrow> paging_split_huge M (t + 8 * i) fl = (True, M)"
  by (simp add: link_def leaf_def paging_split_huge_def huge_iff tbl_get_def)

text \<open>Where all tables exist already, mapping a page needs no memory and succeeds.\<close>

lemma map_page_on_linked:
  assumes ok: "vm_ok M root own"
    and L: "link (ram M) 3 root (idx 3 virt) pdpt" "link (ram M) 2 pdpt (idx 2 virt) pd"
      "link (ram M) 1 pd (idx 1 virt) pt"
  shows "\<exists>M'. paging_map_page_on M root virt phys flags = (0, M')"
proof -
  note root = vm_okD(3) [OF ok] and wf = vm_okD(2) [OF ok]
  have pdpt: "own pdpt = Some [idx 3 virt]" using link_own [OF wf root _ _ L(1)] by simp
  have pd: "own pd = Some [idx 3 virt, idx 2 virt]" using link_own [OF wf pdpt _ _ L(2)] by simp
  have pt: "own pt = Some [idx 3 virt, idx 2 virt, idx 1 virt]" using link_own [OF wf pd _ _ L(3)] by simp
  have nn: "pdpt \<noteq> NULL" "pd \<noteq> NULL" "pt \<noteq> NULL"
    using vm_okD(5) [OF ok] pdpt pd pt by auto
  define M2 where "M2 = entry_user M (root + 8 * idx 3 virt) flags"
  note S2 = user_step(1) [OF vm_step_refl [OF ok] root idx_bound [of 3 virt], of flags, folded M2_def]
  define M4 where "M4 = entry_user M2 (pdpt + 8 * idx 2 virt) flags"
  note S4 = user_step(1) [OF S2 pdpt idx_bound [of 2 virt], of flags, folded M4_def]
  define M6 where "M6 = entry_user M4 (pd + 8 * idx 1 virt) flags"
  note S6 = user_step(1) [OF S4 pd idx_bound [of 1 virt], of flags, folded M6_def]
  have "link (ram M2) 2 pdpt (idx 2 virt) pd" "link (ram M4) 1 pd (idx 1 virt) pt" "link (ram M6) 1 pd (idx 1 virt) pt"
    using vm_stepD(5) [OF S2 pdpt _ _ L(2)] vm_stepD(5) [OF S4 pd _ _ L(3)] vm_stepD(5) [OF S6 pd _ _ L(3)] by auto
  then show ?thesis
    using L(1) nn
    by (simp add: paging_map_page_on_def idx_eqs Let_def get_or_create_link split_huge_link
        M2_def [symmetric] M4_def [symmetric] M6_def [symmetric] del: One_nat_def)
qed

text \<open>A machine whose tables for the page 0x400000 are in place, the page itself not yet mapped.\<close>

definition linked_mem :: mem where
  "linked_mem = tbl_set (tbl_set (tbl_set (\<lambda>_. 0) 0x1000 0 0x2003) 0x2000 0 0x3003) 0x3000 2 0x4003"

definition vm_linked :: machine where
  "vm_linked = \<lparr>ram = linked_mem, frames = boot_low, g_pml4 = 0x1000, invlpg_log = []\<rparr>"

definition linked_own :: ownership where
  "linked_own = [0x1000 \<mapsto> [], 0x2000 \<mapsto> [0], 0x3000 \<mapsto> [0, 0], 0x4000 \<mapsto> [0, 0, 2]]"

lemma tbl_get_linked:
  "page_aligned t \<Longrightarrow> i < 512 \<Longrightarrow> tbl_get linked_mem t i =
     (if t = 0x3000 \<and> i = 2 then 0x4003 else if t = 0x2000 \<and> i = 0 then 0x3003
      else if t = 0x1000 \<and> i = 0 then 0x2003 else 0)"
  unfolding linked_mem_def by (simp add: tbl_get_set page_aligned_def)

lemma vm_linked_ok: "vm_ok vm_linked 0x1000 linked_own"
proof -
  have own: "linked_own t = Some p \<longleftrightarrow> t = 0x1000 \<and> p = [] \<or> t = 0x2000 \<and> p = [0] \<or>
      t = 0x3000 \<and> p = [0, 0] \<or> t = 0x4000 \<and> p = [0, 0, 2]" for t p
    by (auto simp: linked_own_def)
  have al: "page_aligned 0x1000" "page_aligned 0x2000" "page_aligned 0x3000" "page_aligned 0x4000"
    by (simp_all add: page_aligned_def)
  have "pt_wf linked_mem 0x1000 linked_own"
    unfolding pt_wf_def own by (auto simp: al tbl_get_linked PAGE_ADDR_MASK_def split: if_splits)
  moreover have "t \<notin> pmm_avail boot_low" if "linked_own t = Some p" for t p
    by (rule low_not_avail) (use that in \<open>auto simp: own boot_pools pmm_consts\<close>)
  ultimately show ?thesis by (auto simp: vm_ok_def vm_linked_def boot_pools)
qed

lemma boot_low_alloc: "pmm_alloc boot_low = (0x200000, pmm_take boot_low 512)"
proof -
  have "512 \<in> free_set boot_low" by (simp add: free_set_def boot_pools)
  with boot_pools(1) show ?thesis
  proof (cases rule: pmm_alloc_cases)
    case (ok f)
    then have "f \<le> 512" "512 \<le> f" using \<open>512 \<in> free_set boot_low\<close> free_set_bounds [OF boot_pools(1) ok(1)] by auto
    then show ?thesis using ok(3) by (simp add: pmm_consts)
  qed simp
qed

lemma linked_clone: "\<exists>M1. paging_clone_current vm_linked = (0x200000, M1)"
  by (simp add: paging_clone_current_def vm_linked_def boot_low_alloc)

theorem paging_clone_same_translation_witness:
  "\<exists>M1. paging_clone_current vm_linked = (0x200000, M1) \<and>
     paging_get_phys_on M1 0x200000 0x400000 = paging_get_phys vm_linked 0x400000"
proof -
  obtain M1 where c: "paging_clone_current vm_linked = (0x200000, M1)" using linked_clone by blast
  have "vm_ok vm_linked (g_pml4 vm_linked) linked_own" using vm_linked_ok by (simp add: vm_linked_def)
  from paging_clone_same_translation [OF this c] c show ?thesis by auto
qed

theorem paging_clone_shares_tables_witness:
  "\<exists>M1 M2. paging_clone_current vm_linked = (0x200000, M1) \<and>
     paging_map_page_on M1 0x200000 0x400000 0x300000 PAGE_USER = (0, M2) \<and>
     paging_get_phys vm_linked 0x400000 = 0 \<and> paging_get_phys_on M2 0x1000 0x400000 = 0x300000"
proof -
  obtain M1 where c: "paging_clone_current vm_linked = (0x200000, M1)" using linked_clone by blast
  have g: "g_pml4 vm_linked = 0x1000" by (simp add: vm_linked_def)
  have ok: "vm_ok vm_linked (g_pml4 vm_linked) linked_own" using vm_linked_ok by (simp add: g)
  note C = clone_step [OF ok c, unfolded g, simplified]
  have idx: "idx 3 0x400000 = 0" "idx 2 0x400000 = 0" "idx 1 0x400000 = 2" "idx 0 0x400000 = 0"
    by (simp_all add: idx_def)
  have own: "linked_own 0x1000 = Some []" "linked_own 0x2000 = Some [0]" "linked_own 0x3000 = Some [0, 0]"
    by (simp_all add: linked_own_def)
  have R: "ram vm_linked = linked_mem" by (simp add: vm_linked_def)
  have al: "page_aligned 0x1000" "page_aligned 0x2000" "page_aligned 0x3000" by (simp_all add: page_aligned_def)
  have e: "tbl_get (ram M1) 0x200000 0 = 0x2003" "tbl_get (ram M1) 0x2000 0 = 0x3003" "tbl_get (ram M1) 0x3000 2 = 0x4003"
    using C(5) [of 0] C(6) [OF own(1), of 0] C(6) [OF own(2), of 0] C(6) [OF own(3), of 2]
    by (simp_all add: R tbl_get_linked al)
  have L: "link (ram M1) 3 0x200000 (idx 3 0x400000) 0x2000" "link (ram M1) 2 0x2000 (idx 2 0x400000) 0x3000"
    "link (ram M1) 1 0x3000 (idx 1 0x400000) 0x4000"
    unfolding idx by (simp_all add: link_def leaf_def e PAGE_ADDR_MASK_def)
  obtain M2 where r: "paging_map_page_on M1 0x200000 0x400000 0x300000 PAGE_USER = (0, M2)"
    using map_page_on_linked [OF C(2) L] by blast
  have "bit (tbl_get (ram vm_linked) (g_pml4 vm_linked) (idx_pml4 0x400000)) 0"
    by (simp add: g R idx_eqs idx tbl_get_linked al)
  from paging_clone_shares_tables [OF ok c _ this user_flag_neutral(1) r]
  have "paging_get_phys_on M2 0x1000 0x400000 = 0x300000" by (simp add: g PAGE_ADDR_MASK_def)
  moreover have "walk linked_mem 4 0x1000 0x400000 = 0"
  proof -
    have L0: "link linked_mem 3 0x1000 (idx 3 0x400000) 0x2000" "link linked_mem 2 0x2000 (idx 2 0x400000) 0x3000"
      "link linked_mem 1 0x3000 (idx 1 0x400000) 0x4000"
      unfolding idx by (simp_all add: link_def leaf_def tbl_get_linked al PAGE_ADDR_MASK_def)
    have "tbl_get linked_mem 0x4000 (idx 0 0x400000) = 0" by (simp add: tbl_get_linked page_aligned_def)
    then have "walk linked_mem (Suc 0) 0x4000 0x400000 = 0" by (simp add: walk_leaf leaf_def leaf_phys_def)
    then show ?thesis using walk_link [OF L0(1)] walk_link [OF L0(2)] walk_link [OF L0(3)]
      by (simp add: eval_nat_numeral)
  qed
  ultimately show ?thesis using c r by (auto simp: paging_get_phys_def get_phys_walk g R)
qed


section \<open>Unmapping a page\<close>

text \<open>The entry of the PD that covers an address, 0 when there is no PD.\<close>

definition pd_entry :: "machine \<Rightarrow> u64 \<Rightarrow> u64" where
  "pd_entry M virt =
     (let e4 = tbl_get (ram M) (g_pml4 M) (idx_pml4 virt);
          e3 = tbl_get (ram M) (e4 AND PAGE_ADDR_MASK) (idx_pdpt virt)
      in if bit e4 0 \<and> bit e3 0 then tbl_get (ram M) (e3 AND PAGE_ADDR_MASK) (idx_pd virt) else 0)"

lemma pmm_avail_free:
  assumes "pmm_inv s" "RESERVE_LOW \<le> p" "page_aligned p"
  shows "pmm_avail (pmm_free s p) \<subseteq> pmm_avail s \<union> {p}"
proof -
  have "p div PAGE_SIZE * PAGE_SIZE = p"
    using assms(3) unat_less_2p64 [of p]
    by (simp add: page_aligned_def PAGE_SIZE_def word_unat_eq_iff unat_word_ariths unat_div)
  then show ?thesis
    using pmm_free_keeps [OF assms(1,2)] by (auto simp: pmm_avail_def)
qed

lemma unmap_linked:
  assumes ok: "vm_ok M (g_pml4 M) own"
    and L: "link (ram M) 3 (g_pml4 M) (idx 3 virt) pdpt" "link (ram M) 2 pdpt (idx 2 virt) pd"
      "link (ram M) 1 pd (idx 1 virt) pt"
    and F: "F = tbl_get (ram M) pt (idx 0 virt) AND PAGE_ADDR_MASK" "F \<noteq> 0 \<Longrightarrow> RESERVE_LOW \<le> F \<and> own F = None"
    and M': "M' = invlpg (M\<lparr>frames := (if F = 0 then frames M else pmm_free (frames M) F),
      ram := tbl_set (ram M) pt (idx 0 virt) 0\<rparr>) virt"
  shows "vm_ok M' (g_pml4 M) own"
    and "walk (ram M') 4 (g_pml4 M) v = (if same_page v virt then 0 else walk (ram M) 4 (g_pml4 M) v)"
proof -
  note root = vm_okD(3) [OF ok] and wf = vm_okD(2) [OF ok]
  have pdpt: "own pdpt = Some [idx 3 virt]" using link_own [OF wf root _ _ L(1)] by simp
  have pd: "own pd = Some [idx 3 virt, idx 2 virt]" using link_own [OF wf pdpt _ _ L(2)] by simp
  have pt: "own pt = Some [idx 3 virt, idx 2 virt, idx 1 virt]" using link_own [OF wf pd _ _ L(3)] by simp
  have "pmm_inv (frames M') \<and> dom own \<inter> pmm_avail (frames M') = {}"
  proof (cases "F = 0")
    case True
    then show ?thesis using ok by (simp add: M' vm_ok_def)
  next
    case False
    then have "pmm_avail (pmm_free (frames M) F) \<subseteq> pmm_avail (frames M) \<union> {F}"
      using pmm_avail_free [OF vm_okD(1) [OF ok]] F by simp
    moreover have "dom own \<inter> (pmm_avail (frames M) \<union> {F}) = {}"
      using ok F(2) [OF False] by (auto simp: vm_ok_def)
    moreover have "pmm_inv (pmm_free (frames M) F)"
      using pmm_free_keeps [OF vm_okD(1) [OF ok]] F(2) [OF False] by simp
    ultimately show ?thesis using False unfolding M' by (simp add: disjoint_iff subset_iff) blast
  qed
  then show "vm_ok M' (g_pml4 M) own" using set_pte_wf [OF wf pt] by (simp add: M' vm_ok_def)
  show "walk (ram M') 4 (g_pml4 M) v = (if same_page v virt then 0 else walk (ram M) 4 (g_pml4 M) v)"
  proof (cases "same_page v virt")
    case True
    then have idx: "idx 3 v = idx 3 virt" "idx 2 v = idx 2 virt" "idx 1 v = idx 1 virt" "idx 0 v = idx 0 virt"
      by (simp_all add: same_page_def idx_eqs)
    have "walk (tbl_set (ram M) pt (idx 0 v) 0) 4 (g_pml4 M) v = leaf_phys 0 0 v"
      by (rule walk_set_pte_leaf [OF wf _ vm_okD(4) [OF ok root]])
        (unfold idx, fact pt, use pt root in force, fact pdpt, fact L, fact L, fact L)
    then show ?thesis using True by (simp add: M' idx leaf_phys_def)
  next
    case False
    then have "[] @ rev (map (\<lambda>k. idx k v) [0..<Suc 3]) \<noteq> [idx 3 virt, idx 2 virt, idx 1 virt] @ [idx 0 virt]"
      by (auto simp: same_page_def idx_eqs numeral_3_eq_3 numeral_2_eq_2)
    from set_pte_walk_other [OF wf pt _ idx_bound root _ this, of 0] False
    show ?thesis by (simp add: M')
  qed
qed


lemma not_linked_cases:
  assumes "\<not> bit (pd_entry M virt) 7"
  obtains (unmapped) "paging_unmap_page M virt = (-1, M)" "paging_get_phys M virt = 0"
  | (linked) pdpt pd pt where
      "link (ram M) 3 (g_pml4 M) (idx 3 virt) pdpt" "link (ram M) 2 pdpt (idx 2 virt) pd"
      "link (ram M) 1 pd (idx 1 virt) pt" "bit (tbl_get (ram M) pt (idx 0 virt)) 0"
proof -
  let ?e4 = "tbl_get (ram M) (g_pml4 M) (idx 3 virt)"
  let ?e3 = "tbl_get (ram M) (?e4 AND PAGE_ADDR_MASK) (idx 2 virt)"
  let ?e2 = "tbl_get (ram M) (?e3 AND PAGE_ADDR_MASK) (idx 1 virt)"
  let ?e1 = "tbl_get (ram M) (?e2 AND PAGE_ADDR_MASK) (idx 0 virt)"
  show ?thesis
  proof (cases "bit ?e4 0 \<and> bit ?e3 0 \<and> bit ?e2 0 \<and> bit ?e1 0")
    case True
    then have "\<not> bit ?e2 7" using assms by (simp add: pd_entry_def idx_eqs)
    then show ?thesis
      using linked [of "?e4 AND PAGE_ADDR_MASK" "?e3 AND PAGE_ADDR_MASK" "?e2 AND PAGE_ADDR_MASK"] True
      by (simp add: link_def leaf_def)
  next
    case False
    then show ?thesis
      using assms
      by (intro unmapped)
        (auto simp: paging_unmap_page_def paging_get_phys_def paging_get_phys_on_def Let_def present_iff
          huge_iff idx_eqs tbl_get_def pd_entry_def split: if_splits)
  qed
qed

lemma unmap_linked_result:
  assumes L: "link (ram M) 3 (g_pml4 M) (idx 3 virt) pdpt" "link (ram M) 2 pdpt (idx 2 virt) pd"
      "link (ram M) 1 pd (idx 1 virt) pt" "bit (tbl_get (ram M) pt (idx 0 virt)) 0"
    and F: "F = tbl_get (ram M) pt (idx 0 virt) AND PAGE_ADDR_MASK"
  shows "paging_unmap_page M virt = (0, invlpg (M\<lparr>frames := (if F = 0 then frames M else pmm_free (frames M) F),
      ram := tbl_set (ram M) pt (idx 0 virt) 0\<rparr>) virt)"
    and "paging_get_phys M virt AND PAGE_ADDR_MASK = F"
proof -
  show "paging_unmap_page M virt = (0, invlpg (M\<lparr>frames := (if F = 0 then frames M else pmm_free (frames M) F),
      ram := tbl_set (ram M) pt (idx 0 virt) 0\<rparr>) virt)"
    using L by (auto simp: paging_unmap_page_def Let_def present_iff idx_eqs link_def leaf_def
        tbl_get_def tbl_set_def F)
  have "walk (ram M) (Suc 3) (g_pml4 M) virt = walk (ram M) (Suc 2) pdpt virt" using walk_link [OF L(1)] by simp
  also have "\<dots> = walk (ram M) (Suc 1) pd virt" using walk_link [OF L(2)] by (simp add: numeral_2_eq_2)
  also have "\<dots> = walk (ram M) (Suc 0) pt virt" using walk_link [OF L(3)] by simp
  also have "\<dots> = (tbl_get (ram M) pt (idx 0 virt) AND PAGE_ADDR_MASK) OR (virt AND 0xFFF)"
    using L(4) by (simp add: walk_leaf leaf_def leaf_phys_pte)
  finally have w: "paging_get_phys M virt = F OR (virt AND 0xFFF)"
    by (simp add: paging_get_phys_def get_phys_walk F)
  show "paging_get_phys M virt AND PAGE_ADDR_MASK = F"
    unfolding w F by (rule bit_word_eqI) (auto simp: bit_and_iff bit_or_iff bit_addr_mask bit_low_masks
        simp del: bit_numeral_word_iff)
qed



text \<open>The machine \<open>vm_linked\<close> with the page 0x400000 mapped to 0x300000 and the 2 MiB page 0x200000 mapped
  to 0x600000, whose first quadword is 0x5001.\<close>

definition mapped_mem :: mem where
  "mapped_mem = tbl_set (tbl_set (tbl_set linked_mem 0x4000 0 0x300007) 0x3000 1 0x600083) 0x600000 0 0x5001"

definition vm_mapped :: machine where
  "vm_mapped = vm_linked\<lparr>ram := mapped_mem\<rparr>"

lemma tbl_get_mapped:
  "page_aligned t \<Longrightarrow> i < 512 \<Longrightarrow> tbl_get mapped_mem t i =
     (if t = 0x600000 \<and> i = 0 then 0x5001 else if t = 0x3000 \<and> i = 1 then 0x600083
      else if t = 0x4000 \<and> i = 0 then 0x300007 else tbl_get linked_mem t i)"
  unfolding mapped_mem_def by (simp add: tbl_get_set page_aligned_def)

lemma bits_huge_demo:
  "bit (0x600083 :: u64) 0" "bit (0x600083 :: u64) 7" "\<not> bit (0x300007 :: u64) 7"
  "12 \<le> k \<Longrightarrow> k < 21 \<Longrightarrow> \<not> bit (0x600083 :: u64) k"
proof -
  show "bit (0x600083 :: u64) 0" "bit (0x600083 :: u64) 7" "\<not> bit (0x300007 :: u64) 7" by simp_all
  assume k: "12 \<le> k" "k < 21"
  have e: "(0x600083 :: u64) = (push_bit 21 3) OR 0x83" by simp
  have "\<not> bit (0x83 :: u64) k" by (rule bit_less_power [of _ 8]) (use k in simp_all)
  then show "\<not> bit (0x600083 :: u64) k" unfolding e bit_or_iff bit_push_bit_iff using k by simp
qed

lemma vm_mapped_ok: "vm_ok vm_mapped (g_pml4 vm_mapped) linked_own"
proof -
  have own: "linked_own t = Some p \<longleftrightarrow> t = 0x1000 \<and> p = [] \<or> t = 0x2000 \<and> p = [0] \<or>
      t = 0x3000 \<and> p = [0, 0] \<or> t = 0x4000 \<and> p = [0, 0, 2]" for t p
    by (auto simp: linked_own_def)
  have wf: "pt_wf linked_mem 0x1000 linked_own" using vm_linked_ok by (simp add: vm_ok_def vm_linked_def)
  have al: "linked_own t = Some p \<Longrightarrow> page_aligned t \<and> t \<noteq> NULL" for t p using wf by (simp add: pt_wf_def)
  have get: "tbl_get mapped_mem t i = (if t = 0x3000 \<and> i = 1 then 0x600083
      else if t = 0x4000 \<and> i = 0 then 0x300007 else tbl_get linked_mem t i)"
    if "linked_own t = Some p" "i < 512" for t p i
    using that al [OF that(1)] by (auto simp: tbl_get_mapped own)
  have "pt_wf mapped_mem 0x1000 linked_own"
    unfolding pt_wf_def
  proof (intro conjI allI impI)
    fix t p i assume a: "linked_own t = Some p \<and> length p < 3 \<and> i < 512 \<and> bit (tbl_get mapped_mem t i) 0 \<and>
        \<not> (length p = 2 \<and> bit (tbl_get mapped_mem t i) 7)"
    then have "t \<noteq> 0x4000 \<and> \<not> (t = 0x3000 \<and> i = 1)"
      using get [of t p i] bits_huge_demo(2) unfolding own by auto
    then show "linked_own (tbl_get mapped_mem t i AND PAGE_ADDR_MASK) = Some (p @ [i])"
      using a get [of t p i] wf unfolding pt_wf_def by auto
  next
    fix t p i assume a: "linked_own t = Some p \<and> length p = 2 \<and> i < 512 \<and> bit (tbl_get mapped_mem t i) 7"
    show "bit (tbl_get mapped_mem t i) 0"
      using a get [of t p i] wf bits_huge_demo(1,3) unfolding pt_wf_def by (auto split: if_splits)
    fix k :: nat assume "12 \<le> k \<and> k < 21"
    then show "\<not> bit (tbl_get mapped_mem t i) k"
      using a get [of t p i] wf bits_huge_demo(3,4) unfolding pt_wf_def by (auto split: if_splits simp del: bit_numeral_word_iff)
  qed (use wf in \<open>auto simp: pt_wf_def\<close>)
  then show ?thesis using vm_linked_ok by (auto simp: vm_ok_def vm_mapped_def vm_linked_def)
qed


lemma unmap_huge_result:
  assumes h: "h = pd_entry M virt" "bit h 0" "bit h 7"
    and q: "q = tbl_get (ram M) (h AND PAGE_ADDR_MASK) (idx 0 virt)" "bit q 0"
  shows "paging_unmap_page M virt =
     (0, invlpg (M\<lparr>frames := (if q AND PAGE_ADDR_MASK = 0 then frames M else pmm_free (frames M) (q AND PAGE_ADDR_MASK)),
        ram := tbl_set (ram M) (h AND PAGE_ADDR_MASK) (idx 0 virt) 0\<rparr>) virt)"
  using assms by (auto simp: paging_unmap_page_def Let_def present_iff idx_eqs pd_entry_def
      tbl_get_def tbl_set_def split: if_splits)

lemma pd_entry_frame:
  assumes ok: "vm_ok M (g_pml4 M) own" and t: "page_aligned t" "own t = None" and i: "i < 512"
    and R: "ram M' = tbl_set (ram M) t i x" "g_pml4 M' = g_pml4 M"
  shows "pd_entry M' virt = pd_entry M virt"
proof -
  note wf = vm_okD(2) [OF ok] and root = vm_okD(3) [OF ok]
  have get: "tbl_get (ram M') u j = tbl_get (ram M) u j" if "own u = Some p" "j < 512" for u p j
    using that t i pt_wfD(1) [OF wf that(1)] by (auto simp: R tbl_get_set)
  have 4: "tbl_get (ram M') (g_pml4 M) (idx 3 virt) = tbl_get (ram M) (g_pml4 M) (idx 3 virt)"
    using get [OF root] by simp
  show ?thesis
  proof (cases "bit (tbl_get (ram M) (g_pml4 M) (idx 3 virt)) 0")
    case True
    then have pdpt: "own (tbl_get (ram M) (g_pml4 M) (idx 3 virt) AND PAGE_ADDR_MASK) = Some [idx 3 virt]"
      using pt_wfD(3) [OF wf root, of "idx 3 virt"] by simp
    have 3: "tbl_get (ram M') (tbl_get (ram M) (g_pml4 M) (idx 3 virt) AND PAGE_ADDR_MASK) (idx 2 virt) =
        tbl_get (ram M) (tbl_get (ram M) (g_pml4 M) (idx 3 virt) AND PAGE_ADDR_MASK) (idx 2 virt)"
      using get [OF pdpt] by simp
    show ?thesis
    proof (cases "bit (tbl_get (ram M) (tbl_get (ram M) (g_pml4 M) (idx 3 virt) AND PAGE_ADDR_MASK) (idx 2 virt)) 0")
      case True
      from pt_wfD(3) [OF wf pdpt _ _ True] get
      show ?thesis by (simp add: pd_entry_def Let_def idx_eqs R(2) 4 3)
    qed (simp add: pd_entry_def Let_def idx_eqs R(2) 4 3)
  qed (simp add: pd_entry_def Let_def idx_eqs R(2) 4)
qed

lemma get_phys_huge:
  assumes "bit (pd_entry M virt) 7"
  shows "paging_get_phys M virt = (pd_entry M virt AND PAGE_ADDR_MASK) OR (virt AND 0x1FFFFF)"
  using assms by (auto simp: paging_get_phys_def paging_get_phys_on_def Let_def present_iff huge_iff
      idx_eqs tbl_get_def pd_entry_def split: if_splits)

text \<open>
  \<open>paging_unmap_page\<close> on an address inside a 2 MiB page takes the page's own memory for a page
  table. When the quadword it finds there has bit 0 set, the call reports success, overwrites that
  quadword of the mapped data with 0, releases the frame whose number happens to be stored in it, and
  leaves the address mapped.
\<close>

theorem paging_unmap_huge_corrupts:
  assumes ok: "vm_ok M (g_pml4 M) own"
    and h: "h = pd_entry M virt" "bit h 0" "bit h 7" "own (h AND PAGE_ADDR_MASK) = None"
    and q: "q = tbl_get (ram M) (h AND PAGE_ADDR_MASK) (idx_pt virt)" "bit q 0" "q AND PAGE_ADDR_MASK \<noteq> 0"
    and r: "paging_unmap_page M virt = (ret, M')"
  shows "ret = 0 \<and> tbl_get (ram M') (h AND PAGE_ADDR_MASK) (idx_pt virt) = 0 \<and>
    frames M' = pmm_free (frames M) (q AND PAGE_ADDR_MASK) \<and> paging_get_phys M' virt = paging_get_phys M virt"
proof -
  note U = unmap_huge_result [OF h(1-3) q(1) [unfolded idx_eqs] q(2)]
  have M': "ret = 0" "ram M' = tbl_set (ram M) (h AND PAGE_ADDR_MASK) (idx 0 virt) 0" "g_pml4 M' = g_pml4 M"
    "frames M' = pmm_free (frames M) (q AND PAGE_ADDR_MASK)"
    using U r q(3) by (auto simp: invlpg_def)
  have "pd_entry M' virt = h" using pd_entry_frame [OF ok _ h(4) _ M'(2,3)] h(1) by simp
  then have "paging_get_phys M' virt = paging_get_phys M virt" using get_phys_huge h by metis
  with M' show ?thesis by (simp add: idx_eqs tbl_get_set)
qed

lemma paging_unmap_huge_corrupts_witness:
  "\<exists>M'. paging_unmap_page vm_mapped 0x200000 = (0, M') \<and> tbl_get (ram M') 0x600000 0 = 0 \<and>
     frames M' = pmm_free boot_low 0x5000 \<and> paging_get_phys M' 0x200000 = paging_get_phys vm_mapped 0x200000"
proof -
  have g: "g_pml4 vm_mapped = 0x1000" "ram vm_mapped = mapped_mem" "frames vm_mapped = boot_low"
    by (simp_all add: vm_mapped_def vm_linked_def)
  have al: "page_aligned 0x1000" "page_aligned 0x2000" "page_aligned 0x3000" "page_aligned 0x600000"
    by (simp_all add: page_aligned_def)
  have i: "idx_pml4 0x200000 = 0" "idx_pdpt 0x200000 = 0" "idx_pd 0x200000 = 1" "idx_pt 0x200000 = 0"
    by (simp_all add: idx_pml4_def idx_pdpt_def idx_pd_def idx_pt_def)
  note get = tbl_get_mapped tbl_get_linked al PAGE_ADDR_MASK_def
  have h: "0x600083 = pd_entry vm_mapped 0x200000" by (simp add: pd_entry_def i g get)
  have own: "linked_own (0x600083 AND PAGE_ADDR_MASK) = None" by (simp add: linked_own_def PAGE_ADDR_MASK_def)
  have q: "0x5001 = tbl_get (ram vm_mapped) (0x600083 AND PAGE_ADDR_MASK) (idx_pt 0x200000)"
    by (simp add: i g get)
  obtain ret M' where u: "paging_unmap_page vm_mapped 0x200000 = (ret, M')" by fastforce
  from paging_unmap_huge_corrupts [OF vm_mapped_ok h bits_huge_demo(1,2) own q _ _ u]
  show ?thesis using u by (simp add: PAGE_ADDR_MASK_def i g)
qed

end
