(* ===== verification/Heap.thy ===== *)
theory Heap
  imports Paging
begin

text \<open>
  The kernel heap of \<^verbatim>\<open>mm/heap.c\<close>. The state holds the block headers as a store from virtual
  addresses to headers, the bytes of the data areas, the four globals, and the machine state that growing
  the heap changes. Every assignment through a header pointer is one update of the store. Clients are
  taken to write only inside the areas they were given, so the bytes of the data areas and the headers
  are kept apart; that the areas never overlap a header or each other is what is proved here.
\<close>

section \<open>State and operations\<close>

definition HEAP_START :: u64 where "HEAP_START = 0xFFFF880000000000"
definition HEAP_ALIGN :: u64 where "HEAP_ALIGN = 16"
definition HEADER_SIZE :: u64 where "HEADER_SIZE = 25"
definition MIN_BLOCK :: u64 where "MIN_BLOCK = 64"

record heap_header =
  hsize :: u64
  hfree :: bool
  hnext :: u64
  hprev :: u64

type_synonym headers = "u64 \<Rightarrow> heap_header"

record heap =
  hdr :: headers
  bytes :: mem
  g_heap_start :: u64
  g_heap_end :: u64
  g_heap_virt :: u64
  g_heap_virt_top :: u64
  mach :: machine

definition set_size :: "headers \<Rightarrow> u64 \<Rightarrow> u64 \<Rightarrow> headers" where
  "set_size H a v = H(a := (H a)\<lparr>hsize := v\<rparr>)"
definition set_free :: "headers \<Rightarrow> u64 \<Rightarrow> bool \<Rightarrow> headers" where
  "set_free H a v = H(a := (H a)\<lparr>hfree := v\<rparr>)"
definition set_next :: "headers \<Rightarrow> u64 \<Rightarrow> u64 \<Rightarrow> headers" where
  "set_next H a v = H(a := (H a)\<lparr>hnext := v\<rparr>)"
definition set_prev :: "headers \<Rightarrow> u64 \<Rightarrow> u64 \<Rightarrow> headers" where
  "set_prev H a v = H(a := (H a)\<lparr>hprev := v\<rparr>)"

definition heap_create_block :: "headers \<Rightarrow> u64 \<Rightarrow> u64 \<Rightarrow> headers" where
  "heap_create_block H virt sz = H(virt := \<lparr>hsize = sz, hfree = True, hnext = NULL, hprev = NULL\<rparr>)"

definition heap_coalesce :: "headers \<Rightarrow> u64 \<Rightarrow> headers" where
  "heap_coalesce H h =
     (if hnext (H h) \<noteq> NULL \<and> hfree (H (hnext (H h)))
      then let H1 = set_size H h (hsize (H h) + hsize (H (hnext (H h))));
               H2 = set_next H1 h (hnext (H1 (hnext (H1 h))))
           in if hnext (H2 h) \<noteq> NULL then set_prev H2 (hnext (H2 h)) h else H2
      else H)"

text \<open>\<open>heap_init\<close>; the contiguous allocation can leave the frame bitmap, which is a fault.\<close>

definition heap_init :: "heap \<Rightarrow> fault + heap" where
  "heap_init s =
     (case pmm_alloc_contiguous (frames (mach s)) 256 of
        Inl e \<Rightarrow> Inl e
      | Inr (phys, fr) \<Rightarrow>
          let (_, M) = paging_map_range ((mach s)\<lparr>frames := fr\<rparr>) (g_heap_virt s) phys 256 PAGE_RW
          in Inr (s\<lparr>mach := M,
                g_heap_virt_top := g_heap_virt s + 256 * PAGE_SIZE,
                hdr := heap_create_block (hdr s) (g_heap_virt s) (256 * PAGE_SIZE),
                g_heap_start := g_heap_virt s, g_heap_end := g_heap_virt s\<rparr>))"

text \<open>The rounding at the start of \<open>kmalloc\<close>.\<close>

definition heap_total :: "u64 \<Rightarrow> u64" where
  "heap_total sz =
     (let sz' = (if sz AND (HEAP_ALIGN - 1) \<noteq> 0 then (sz + HEAP_ALIGN - 1) AND NOT (HEAP_ALIGN - 1) else sz);
          tot = sz' + HEADER_SIZE
      in if tot < MIN_BLOCK then MIN_BLOCK else tot)"

text \<open>The first fit search; a list of headers that runs in a circle never ends, which is \<open>None\<close>.\<close>

partial_function (option) heap_find :: "headers \<Rightarrow> u64 \<Rightarrow> u64 \<Rightarrow> u64 option" where
  "heap_find H tot cur =
     (if cur = NULL then Some NULL
      else if hfree (H cur) \<and> hsize (H cur) \<ge> tot then Some cur
      else heap_find H tot (hnext (H cur)))"

text \<open>Taking a block that is large enough, splitting off the rest when it can hold a block.\<close>

definition heap_take :: "headers \<Rightarrow> u64 \<Rightarrow> u64 \<Rightarrow> headers" where
  "heap_take H cur tot =
     (let H' = (if hsize (H cur) \<ge> tot + MIN_BLOCK
        then let new_h = cur + tot;
                 H1 = set_size H new_h (hsize (H cur) - tot);
                 H2 = set_free H1 new_h True;
                 H3 = set_next H2 new_h (hnext (H2 cur));
                 H4 = set_prev H3 new_h cur;
                 H5 = (if hnext (H4 new_h) \<noteq> NULL then set_prev H4 (hnext (H4 new_h)) new_h else H4);
                 H6 = set_next H5 cur new_h
             in set_size H6 cur tot
        else H)
      in set_free H' cur False)"

text \<open>The loop that maps the pages of a new region; the result tells whether the frames sufficed. The
  result of \<open>paging_map_page\<close> is not looked at.\<close>

fun heap_grow_pages :: "machine \<Rightarrow> u64 \<Rightarrow> nat \<Rightarrow> bool \<times> machine" where
  "heap_grow_pages M virt 0 = (True, M)"
| "heap_grow_pages M virt (Suc n) =
     (case pmm_alloc (frames M) of (frame, fr) \<Rightarrow>
        if frame = NULL then (False, M\<lparr>frames := fr\<rparr>)
        else heap_grow_pages (snd (paging_map_page (M\<lparr>frames := fr\<rparr>) virt frame PAGE_RW)) (virt + PAGE_SIZE) n)"

text \<open>The split at the end of \<open>kmalloc\<close>: there is no block behind the new one to link back.\<close>

definition heap_take_new :: "headers \<Rightarrow> u64 \<Rightarrow> u64 \<Rightarrow> headers" where
  "heap_take_new H new_h tot =
     (let H' = (if hsize (H new_h) \<ge> tot + MIN_BLOCK
        then let split_h = new_h + tot;
                 H1 = set_size H split_h (hsize (H new_h) - tot);
                 H2 = set_free H1 split_h True;
                 H3 = set_next H2 split_h (hnext (H2 new_h));
                 H4 = set_prev H3 split_h new_h;
                 H5 = set_next H4 new_h split_h
             in set_size H5 new_h tot
        else H)
      in set_free H' new_h False)"

definition heap_grow :: "heap \<Rightarrow> u64 \<Rightarrow> u64 \<times> heap" where
  "heap_grow s tot =
     (let grow = (if tot > 0x10000 then tot else 0x10000);
          pages = (grow + PAGE_SIZE - 1) div PAGE_SIZE;
          virt = g_heap_virt_top s;
          (ok, M) = heap_grow_pages (mach s) virt (unat pages)
      in if \<not> ok then (NULL, s\<lparr>mach := M\<rparr>)
      else let H1 = heap_create_block (hdr s) virt (pages * PAGE_SIZE);
          H2 = set_prev H1 virt (g_heap_end s);
          H3 = set_next H2 (g_heap_end s) virt;
          s' = s\<lparr>mach := M, g_heap_virt_top := g_heap_virt_top s + pages * PAGE_SIZE, g_heap_end := virt\<rparr>
      in if hsize (H3 virt) \<ge> tot
         then (virt + HEADER_SIZE, s'\<lparr>hdr := heap_take_new H3 virt tot\<rparr>)
         else (NULL, s'\<lparr>hdr := H3\<rparr>))"

definition kmalloc :: "heap \<Rightarrow> u64 \<Rightarrow> (u64 \<times> heap) option" where
  "kmalloc s sz =
     (if sz = 0 then Some (NULL, s)
      else let tot = heap_total sz in
        case heap_find (hdr s) tot (g_heap_start s) of
          None \<Rightarrow> None
        | Some cur \<Rightarrow>
            if cur \<noteq> NULL then Some (cur + HEADER_SIZE, s\<lparr>hdr := heap_take (hdr s) cur tot\<rparr>)
            else Some (heap_grow s tot))"

definition kfree :: "heap \<Rightarrow> u64 \<Rightarrow> heap" where
  "kfree s ptr =
     (if ptr = NULL then s
      else let h = ptr - HEADER_SIZE;
               H1 = set_free (hdr s) h True
           in s\<lparr>hdr := (if hprev (H1 h) \<noteq> NULL \<and> hfree (H1 (hprev (H1 h)))
                       then heap_coalesce H1 (hprev (H1 h)) else heap_coalesce H1 h)\<rparr>)"

fun bytes_zero :: "mem \<Rightarrow> u64 \<Rightarrow> nat \<Rightarrow> mem" where
  "bytes_zero m p 0 = m"
| "bytes_zero m p (Suc n) = (bytes_zero m p n)(p + of_nat n := 0)"

fun bytes_copy :: "mem \<Rightarrow> u64 \<Rightarrow> u64 \<Rightarrow> nat \<Rightarrow> mem" where
  "bytes_copy m dst src 0 = m"
| "bytes_copy m dst src (Suc n) = (let m' = bytes_copy m dst src n in m'(dst + of_nat n := m' (src + of_nat n)))"

definition kcalloc :: "heap \<Rightarrow> u64 \<Rightarrow> u64 \<Rightarrow> (u64 \<times> heap) option" where
  "kcalloc s cnt sz =
     (let tot = cnt * sz in
      case kmalloc s tot of
        None \<Rightarrow> None
      | Some (ptr, s1) \<Rightarrow>
          Some (ptr, if ptr \<noteq> NULL then s1\<lparr>bytes := bytes_zero (bytes s1) ptr (unat tot)\<rparr> else s1))"

definition krealloc :: "heap \<Rightarrow> u64 \<Rightarrow> u64 \<Rightarrow> (u64 \<times> heap) option" where
  "krealloc s ptr new_size =
     (if ptr = NULL then kmalloc s new_size
      else if new_size = 0 then Some (NULL, kfree s ptr)
      else let d = hsize (hdr s (ptr - HEADER_SIZE)) - HEADER_SIZE;
               old_data = (if d > new_size then new_size else d) in
        case kmalloc s new_size of
          None \<Rightarrow> None
        | Some (new_ptr, s1) \<Rightarrow>
            Some (new_ptr, if new_ptr \<noteq> NULL
              then kfree (s1\<lparr>bytes := bytes_copy (bytes s1) new_ptr ptr (unat old_data)\<rparr>) ptr else s1))"

definition ksize :: "heap \<Rightarrow> u64 \<Rightarrow> u64" where
  "ksize s ptr = (if ptr = NULL then 0 else hsize (hdr s (ptr - HEADER_SIZE)) - HEADER_SIZE)"

lemmas hdr_sets = set_size_def set_free_def set_next_def set_prev_def

section \<open>The list of blocks\<close>

text \<open>
  \<open>seg H p as q e\<close>: the blocks \<open>as\<close> follow each other in memory and are doubly linked; the
  block before the first is \<open>p\<close>, the block after the last is \<open>q\<close>, and the last ends at \<open>e\<close>.
\<close>

fun seg :: "headers \<Rightarrow> u64 \<Rightarrow> u64 list \<Rightarrow> u64 \<Rightarrow> nat \<Rightarrow> bool" where
  "seg H p [] q e \<longleftrightarrow> True"
| "seg H p (a # as) q e \<longleftrightarrow> hprev (H a) = p \<and> hnext (H a) = hd (as @ [q]) \<and>
     unat a + unat (hsize (H a)) = hd (map unat as @ [e]) \<and> 64 \<le> unat (hsize (H a)) \<and> a \<noteq> NULL \<and>
     seg H a as q e"

lemma seg_append:
  "seg H p (as @ bs) q e \<longleftrightarrow> seg H p as (hd (bs @ [q])) (hd (map unat bs @ [e])) \<and> seg H (last (p # as)) bs q e"
proof (induction as arbitrary: p)
  case (Cons a as)
  have "hd ((as @ bs) @ [q]) = hd (as @ [hd (bs @ [q])])" "hd (map unat (as @ bs) @ [e]) = hd (map unat as @ [hd (map unat bs @ [e])])"
    by (cases as; simp)+
  with Cons show ?case by auto
qed simp

lemma seg_cong: "(\<And>a. a \<in> set as \<Longrightarrow> H a = H' a) \<Longrightarrow> seg H p as q e \<longleftrightarrow> seg H' p as q e"
  by (induction as arbitrary: p) auto

lemma seg_upd [simp]: "a \<notin> set as \<Longrightarrow> seg (H(a := h)) p as q e \<longleftrightarrow> seg H p as q e"
  by (rule seg_cong) auto

lemma seg_sorted: "seg H p as q e \<Longrightarrow> sorted_wrt (<) (map unat as @ [e])"
proof (induction as arbitrary: p)
  case (Cons a as)
  then have "sorted_wrt (<) (map unat as @ [e])" "unat a < hd (map unat as @ [e])" by auto
  moreover have "hd (map unat as @ [e]) \<le> x" if "x \<in> set (map unat as @ [e])" for x
    using that calculation(1) by (cases as) (auto intro: less_imp_le)
  ultimately have "\<forall>x\<in>set (map unat as @ [e]). unat a < x" using order_less_le_trans by blast
  with \<open>sorted_wrt (<) (map unat as @ [e])\<close> show ?case by simp
qed simp

lemma seg_distinct: "seg H p as q e \<Longrightarrow> distinct as"
  using seg_sorted [of H p as q e] by (auto simp: sorted_wrt_append strict_sorted_iff distinct_map)

lemma seg_mem:
  assumes "seg H p as q e" "a \<in> set as"
  shows "a \<noteq> NULL" "64 \<le> unat (hsize (H a))" "unat a + unat (hsize (H a)) \<le> e"
  using assms
proof (induction as arbitrary: p)
  case (Cons b as)
  case 3
  show ?case
  proof (cases "a = b \<and> as \<noteq> []")
    case True
    then obtain c cs where as: "as = c # cs" by (cases as) auto
    have "unat c < e" using 3 as seg_sorted [of H b as q e] by (auto simp: sorted_wrt_append)
    then show ?thesis using 3 as True by auto
  qed (use Cons(3) 3 in auto)
qed auto

text \<open>The regions of two blocks of a list do not overlap.\<close>

lemma seg_disjoint:
  assumes "seg H p as q e" "a \<in> set as" "b \<in> set as" "a \<noteq> b"
  shows "unat a + unat (hsize (H a)) \<le> unat b \<or> unat b + unat (hsize (H b)) \<le> unat a"
  using assms
proof (induction as arbitrary: p)
  case (Cons c as)
  have first: "unat c + unat (hsize (H c)) \<le> unat x" if "x \<in> set as" for x
  proof -
    have "sorted_wrt (<) (map unat as @ [e])" using seg_sorted Cons.prems(1) by auto
    then have "hd (map unat as @ [e]) \<le> unat x" using that by (cases as) (auto intro: less_imp_le)
    then show ?thesis using Cons.prems(1) by simp
  qed
  consider "a = c" "b \<in> set as" | "b = c" "a \<in> set as" | "a \<in> set as" "b \<in> set as"
    using Cons.prems by auto
  then show ?case by cases (use first Cons in auto)
qed simp

section \<open>Taking and merging blocks\<close>

lemma seg_split:
  assumes "seg H p (xs @ a # ys) q e"
  shows "seg H p xs a (unat a)" "seg H (last (p # xs)) (a # ys) q e" "seg H a ys q e"
  using assms by (auto simp: seg_append)

lemma seg_middle:
  assumes "seg H p (xs @ a # ys) q e" "x \<in> set (xs @ ys)"
  shows "x \<noteq> a" "\<not> (unat a < unat x \<and> unat x < unat a + unat (hsize (H a)))"
proof -
  have "distinct (xs @ a # ys)" using seg_distinct assms(1) by blast
  then show "x \<noteq> a" using assms(2) by auto
  then show "\<not> (unat a < unat x \<and> unat x < unat a + unat (hsize (H a)))"
    using seg_disjoint [OF assms(1), of x a] seg_mem(2) [OF assms(1), of x] assms(2) by auto
qed

definition live_block :: "headers \<Rightarrow> u64 list \<Rightarrow> (u64 \<times> u64) set" where
  "live_block H bs = {(a, hsize (H a)) | a. a \<in> set bs \<and> \<not> hfree (H a)}"

lemma live_block_simps [simp]:
  "live_block H [] = {}"
  "live_block H (a # as) = (if hfree (H a) then {} else {(a, hsize (H a))}) \<union> live_block H as"
  "live_block H (as @ bs) = live_block H as \<union> live_block H bs"
  by (auto simp: live_block_def)

lemma live_block_cong:
  "(\<And>a. a \<in> set as \<Longrightarrow> hsize (H a) = hsize (H' a) \<and> hfree (H a) = hfree (H' a)) \<Longrightarrow> live_block H as = live_block H' as"
  by (auto simp: live_block_def)

lemma live_block_upd [simp]: "a \<notin> set as \<Longrightarrow> live_block (H(a := h)) as = live_block H as"
  by (rule live_block_cong) auto

lemma heap_take_seg:
  assumes seg: "seg H p (xs @ a # ys) NULL e" and fit: "hfree (H a)" "tot \<le> hsize (H a)" "MIN_BLOCK \<le> tot"
    and e: "e < 2 ^ 64" and lo: "64 \<le> unat a"
  shows "\<exists>bs. seg (heap_take H a tot) p bs NULL e \<and> hd bs = hd (xs @ [a]) \<and> bs \<noteq> [] \<and>
     last bs \<in> insert (a + tot) (set (xs @ a # ys)) \<and>
     live_block (heap_take H a tot) bs = insert (a, hsize (heap_take H a tot a)) (live_block H (xs @ a # ys)) \<and>
     tot \<le> hsize (heap_take H a tot a) \<and> a \<in> set bs \<and> a \<noteq> NULL \<and>
     (\<forall>x\<in>set (xs @ ys). hsize (heap_take H a tot x) = hsize (H x))"
proof -
  have a: "unat a + unat (hsize (H a)) \<le> e" "a \<noteq> NULL" using seg_mem [OF seg] by simp_all
  note mid = seg_middle [OF seg] and S = seg_split [OF seg]
  have dis: "distinct (xs @ a # ys)" using seg_distinct seg by blast
  show ?thesis
  proof (cases "tot + MIN_BLOCK \<le> hsize (H a)")
    case False
    define H' where "H' = heap_take H a tot"
    have H': "H' = set_free H a False" using False by (simp add: H'_def heap_take_def)
    have "seg H' p (xs @ a # ys) NULL e"
    proof -
      have "seg H' p xs a (unat a)" "seg H' a ys NULL e"
        using S(1,3) dis by (auto simp: H' set_free_def)
      then show ?thesis using S(2) by (auto simp: seg_append H' set_free_def)
    qed
    moreover have "live_block H' (xs @ a # ys) = insert (a, hsize (H' a)) (live_block H (xs @ a # ys))"
      using dis fit(1) by (auto simp: H' set_free_def)
    ultimately show ?thesis using fit(2) a(2) unfolding H'_def [symmetric]
      by (intro exI [of _ "xs @ a # ys"]) (auto simp: H' set_free_def hd_append)
  next
    case True
    define n where "n = a + tot"
    define H' where "H' = heap_take H a tot"
    have lt: "unat (hsize (H a)) < 2 ^ 64" "unat tot < 2 ^ 64" "64 \<le> unat tot"
      using unat_less_2p64 fit(3) by (auto simp: MIN_BLOCK_def word_le_nat_alt)
    have "unat tot + 64 < 2 ^ 64" using fit(2) a(1) e lo by (simp add: word_le_nat_alt)
    then have sum: "unat tot + 64 \<le> unat (hsize (H a))"
      using True by (simp add: MIN_BLOCK_def word_le_nat_alt unat_word_ariths)
    have n: "unat n = unat a + unat tot" using a(1) e sum by (simp add: n_def unat_word_ariths)
    have nn: "n \<notin> set (xs @ a # ys)" "n \<noteq> NULL" "n \<noteq> a"
      using mid(2) [of n] n sum lt(3) by auto
    have sz: "unat (hsize (H a) - tot) = unat (hsize (H a)) - unat tot"
      using fit(2) by (simp add: unat_sub word_le_nat_alt)
    have nx: "hnext (H a) = hd (ys @ [NULL])" using S(2) by simp
    define Hn where "Hn = H(n := \<lparr>hsize = hsize (H a) - tot, hfree = True, hnext = hnext (H a), hprev = a\<rparr>)"
    have H': "H' = (if ys = [] then Hn else Hn(hd ys := (H (hd ys))\<lparr>hprev := n\<rparr>))
        (a := (H a)\<lparr>hsize := tot, hfree := False, hnext := n\<rparr>)"
    proof -
      have "hd ys \<in> set ys" "hd ys \<noteq> NULL" if "ys \<noteq> []" using that S(3) by (cases ys; simp)+
      then show ?thesis using True nn dis
        by (auto simp: H'_def heap_take_def n_def [symmetric] hdr_sets Let_def Hn_def nx fun_eq_iff hd_append)
    qed
    have ys: "seg H' n ys NULL e \<and> live_block H' ys = live_block H ys \<and> (\<forall>x\<in>set ys. hsize (H' x) = hsize (H x))"
      using nn dis S(3) by (cases ys) (auto simp: H' Hn_def)
    have "hd ys \<notin> set xs \<or> ys = []" using dis by (cases ys) auto
    then have "x \<noteq> a \<and> x \<noteq> n \<and> (ys = [] \<or> x \<noteq> hd ys)" if "x \<in> set xs" for x using that dis nn(1) by auto
    then have xeq: "\<forall>x\<in>set xs. H' x = H x" unfolding H' Hn_def by fastforce
    then have xs: "seg H' p xs a (unat a)" "live_block H' xs = live_block H xs"
      using S(1) seg_cong [of xs H' H] live_block_cong [of xs H' H] by auto
    have an: "H' a = (H a)\<lparr>hsize := tot, hfree := False, hnext := n\<rparr>"
        "H' n = \<lparr>hsize = hsize (H a) - tot, hfree = True, hnext = hnext (H a), hprev = a\<rparr>"
      using nn dis by (cases ys; simp add: H' Hn_def)+
    have "seg H' (last (p # xs)) (a # n # ys) NULL e"
      using ys S(2) n sz sum lt(3) a(2) nn(2) by (simp add: an)
    then have "seg H' p (xs @ a # n # ys) NULL e" using xs(1) by (simp add: seg_append)
    moreover have "live_block H' (xs @ a # n # ys) = insert (a, tot) (live_block H (xs @ a # ys))"
      using xs(2) ys fit(1) by (simp add: an)
    moreover have "\<forall>x\<in>set (xs @ ys). hsize (H' x) = hsize (H x)" using xeq ys by auto
    ultimately show ?thesis using a(2) unfolding H'_def [symmetric] n_def [symmetric]
      by (intro exI [of _ "xs @ a # n # ys"]) (simp add: an hd_append)
  qed
qed

lemma heap_find_seg:
  assumes "seg H p as NULL e"
  shows "\<exists>r. heap_find H tot (hd (as @ [NULL])) = Some r \<and>
    (r = NULL \<and> (\<forall>a\<in>set as. \<not> (hfree (H a) \<and> tot \<le> hsize (H a))) \<or>
     r \<noteq> NULL \<and> hfree (H r) \<and> tot \<le> hsize (H r) \<and>
       (\<exists>xs ys. as = xs @ r # ys \<and> (\<forall>a\<in>set xs. \<not> (hfree (H a) \<and> tot \<le> hsize (H a)))))"
  using assms
proof (induction as arbitrary: p)
  case Nil
  then show ?case by (simp add: heap_find.simps)
next
  case (Cons a as)
  show ?case
  proof (cases "hfree (H a) \<and> tot \<le> hsize (H a)")
    case True
    then show ?thesis using Cons.prems by (subst heap_find.simps) force
  next
    case False
    have "heap_find H tot a = heap_find H tot (hd (as @ [NULL]))"
      using Cons.prems False by (subst heap_find.simps) auto
    moreover from Cons.IH [of a] Cons.prems obtain r where
      r: "heap_find H tot (hd (as @ [NULL])) = Some r"
      "r = NULL \<and> (\<forall>a\<in>set as. \<not> (hfree (H a) \<and> tot \<le> hsize (H a))) \<or>
       r \<noteq> NULL \<and> hfree (H r) \<and> tot \<le> hsize (H r) \<and>
       (\<exists>xs ys. as = xs @ r # ys \<and> (\<forall>a\<in>set xs. \<not> (hfree (H a) \<and> tot \<le> hsize (H a))))" by auto
    moreover have "\<exists>xs' ys. a # as = xs' @ r # ys \<and> (\<forall>a\<in>set xs'. \<not> (hfree (H a) \<and> tot \<le> hsize (H a)))"
      if "as = xs @ r # ys" "\<forall>a\<in>set xs. \<not> (hfree (H a) \<and> tot \<le> hsize (H a))" for xs ys
      using that False by (intro exI [of _ "a # xs"] exI [of _ ys]) simp
    ultimately show ?thesis using False by auto
  qed
qed

lemma heap_coalesce_seg:
  assumes seg: "seg H p (xs @ h # ys) NULL e" and free: "hfree (H h)" and e: "e < 2 ^ 64"
  shows "\<exists>bs. seg (heap_coalesce H h) p bs NULL e \<and> hd bs = hd (xs @ [h]) \<and> bs \<noteq> [] \<and> set bs \<subseteq> set (xs @ h # ys) \<and>
     live_block (heap_coalesce H h) bs = live_block H (xs @ h # ys)"
proof (cases "ys \<noteq> [] \<and> hfree (H (hd ys))")
  case False
  then have "heap_coalesce H h = H"
    using seg by (cases ys) (auto simp: heap_coalesce_def seg_append)
  then show ?thesis using seg by (intro exI [of _ "xs @ h # ys"]) (auto simp: hd_append)
next
  case True
  then obtain n zs where ys: "ys = n # zs" "hfree (H n)" by (cases ys) auto
  have dis: "distinct (xs @ h # ys)" using seg seg_distinct by blast
  have S: "seg H p xs h (unat h)" "seg H (last (p # xs)) (h # n # zs) NULL e"
    using seg ys by (auto simp: seg_append)
  have "unat h + unat (hsize (H h)) = unat n" "unat n + unat (hsize (H n)) \<le> e"
    using S(2) seg_mem(3) [OF seg, of n] ys by auto
  then have sz: "unat (hsize (H h) + hsize (H n)) = unat (hsize (H h)) + unat (hsize (H n))"
    using e by (simp add: unat_word_ariths)
  let ?h = "(H h)\<lparr>hsize := hsize (H h) + hsize (H n), hnext := hd (zs @ [NULL])\<rparr>"
  define H' where "H' = heap_coalesce H h"
  have H': "H' = (if zs = [] then H(h := ?h) else H(h := ?h, hd zs := (H (hd zs))\<lparr>hprev := h\<rparr>))"
    using S(2) ys dis by (cases zs) (auto simp: H'_def heap_coalesce_def hdr_sets Let_def fun_eq_iff)
  have zs: "seg H' h zs NULL e \<and> live_block H' zs = live_block H zs"
    using S(2) dis ys(1) by (cases zs) (auto simp: H')
  have ne: "x \<noteq> h \<and> (zs = [] \<or> x \<noteq> hd zs)" if "x \<in> set xs" for x
    using that dis ys(1) by (cases zs) auto
  then have xeq: "\<forall>x\<in>set xs. H' x = H x" unfolding H' by fastforce
  then have xs: "seg H' p xs h (unat h)" "live_block H' xs = live_block H xs"
    using S(1) seg_cong [of xs H' H] live_block_cong [of xs H' H] by auto
  have h: "H' h = ?h" using dis ys(1) by (cases zs) (auto simp: H')
  have "seg H' (last (p # xs)) (h # zs) NULL e" using S(2) zs sz by (auto simp: h)
  then have "seg H' p (xs @ h # zs) NULL e" using xs(1) by (simp add: seg_append)
  moreover have "live_block H' (xs @ h # zs) = live_block H (xs @ h # ys)"
    using xs(2) zs free ys by (simp add: h)
  ultimately show ?thesis unfolding H'_def [symmetric] ys(1)
    by (intro exI [of _ "xs @ h # zs"]) (auto simp: hd_append)
qed

lemma heap_total_eq:
  "heap_total sz = (let sz' = (if sz AND 15 \<noteq> 0 then (sz + 15) AND NOT 15 else sz) in if sz' + 25 < 64 then 64 else sz' + 25)"
proof -
  have "sz + 16 - 1 = sz + 15" by (simp add: algebra_simps)
  then show ?thesis by (simp add: heap_total_def HEAP_ALIGN_def HEADER_SIZE_def MIN_BLOCK_def Let_def add.commute)
qed

lemma align_up_bounds:
  fixes sz :: u64
  assumes "unat sz < 2 ^ 64 - 64"
  shows "unat sz + 25 \<le> unat (heap_total sz)" "unat (heap_total sz) \<le> max 64 (unat sz + 40)" "MIN_BLOCK \<le> heap_total sz"
proof -
  have m15: "(15 :: u64) = mask 4" by (simp add: mask_numeral)
  have r: "unat (sz + 15 AND NOT 15) = unat sz + 15 - (unat sz + 15) mod 16"
    using assms unfolding m15 unat_and_not_mask by (simp add: unat_word_ariths mask_numeral)
  define sz' where "sz' = (if sz AND 15 \<noteq> 0 then (sz + 15) AND NOT 15 else sz)"
  have "heap_total sz = (if sz' + 25 < 64 then 64 else sz' + 25)" unfolding heap_total_eq Let_def sz'_def by simp
  moreover have "unat sz \<le> unat sz'" "unat sz' \<le> unat sz + 15"
    unfolding sz'_def using r mod_less_divisor [of 16 "unat sz + 15"] by (auto simp del: mod_less_divisor)
  ultimately have sz': "heap_total sz = (if sz' + 25 < 64 then 64 else sz' + 25)" "unat sz \<le> unat sz'" "unat sz' \<le> unat sz + 15"
    by blast+
  then have "unat (sz' + 25) = unat sz' + 25" using assms by (simp add: unat_word_ariths)
  with sz' show "unat sz + 25 \<le> unat (heap_total sz)" "unat (heap_total sz) \<le> max 64 (unat sz + 40)"
    by (auto simp: word_less_nat_alt)
  show "MIN_BLOCK \<le> heap_total sz" by (auto simp: heap_total_def Let_def)
qed


section \<open>Properties\<close>

text \<open>
  The heap is one unbroken run of blocks from \<open>g_heap_start\<close> to \<open>g_heap_virt_top\<close>. The live
  blocks, with their sizes, are what the heap promises to keep apart.
\<close>

definition heap_inv :: "heap \<Rightarrow> u64 list \<Rightarrow> bool" where
  "heap_inv s bs \<longleftrightarrow> bs \<noteq> [] \<and> hd bs = g_heap_start s \<and> HEAP_START \<le> g_heap_start s \<and>
     seg (hdr s) NULL bs NULL (unat (g_heap_virt_top s))"

abbreviation heap_live :: "heap \<Rightarrow> u64 list \<Rightarrow> (u64 \<times> u64) set" where
  "heap_live s bs \<equiv> live_block (hdr s) bs"

text \<open>The data area a block of \<open>n\<close> bytes at \<open>a\<close> gives to its owner.\<close>

definition data_area :: "u64 \<times> u64 \<Rightarrow> nat set" where
  "data_area = (\<lambda>(a, n). {unat a + 25 ..< unat a + unat n})"

lemma heap_invD:
  assumes "heap_inv s bs"
  shows "seg (hdr s) NULL bs NULL (unat (g_heap_virt_top s))" "g_heap_start s = hd (bs @ [NULL])"
    "unat (g_heap_virt_top s) < 2 ^ 64" "a \<in> set bs \<Longrightarrow> 64 \<le> unat a"
proof -
  show seg: "seg (hdr s) NULL bs NULL (unat (g_heap_virt_top s))" and hd: "g_heap_start s = hd (bs @ [NULL])"
    using assms by (auto simp: heap_inv_def)
  show "unat (g_heap_virt_top s) < 2 ^ 64" by (rule unat_less_2p64)
  assume "a \<in> set bs"
  moreover obtain b cs where bs: "bs = b # cs" using assms by (cases bs) (auto simp: heap_inv_def)
  ultimately have "unat b \<le> unat a" using seg_sorted [OF seg] by (auto intro: less_imp_le)
  moreover have "64 \<le> unat b" using assms bs by (simp add: heap_inv_def HEAP_START_def word_le_nat_alt)
  ultimately show "64 \<le> unat a" by simp
qed

lemma heap_live_disjoint:
  assumes "heap_inv s bs" "x \<in> heap_live s bs" "y \<in> heap_live s bs" "x \<noteq> y"
  shows "data_area x \<inter> data_area y = {}"
  using assms seg_disjoint [OF heap_invD(1) [OF assms(1)]]
  by (fastforce simp: live_block_def data_area_def)

lemma kmalloc_fit:
  assumes inv: "heap_inv s bs" and sz: "0 < sz" "unat sz < 2 ^ 64 - 64"
    and fit: "b \<in> set bs" "hfree (hdr s b)" "heap_total sz \<le> hsize (hdr s b)"
  shows "\<exists>a n s' bs'. kmalloc s sz = Some (a + HEADER_SIZE, s') \<and> heap_inv s' bs' \<and>
     heap_live s' bs' = insert (a, n) (heap_live s bs) \<and> a \<notin> fst ` heap_live s bs \<and>
     unat sz + 25 \<le> unat n \<and> bytes s' = bytes s \<and> mach s' = mach s"
proof -
  note S = heap_invD [OF inv]
  obtain a xs ys where f: "heap_find (hdr s) (heap_total sz) (g_heap_start s) = Some a" "a \<noteq> NULL"
    "hfree (hdr s a)" "heap_total sz \<le> hsize (hdr s a)" "bs = xs @ a # ys"
    using heap_find_seg [OF S(1), of "heap_total sz"] fit unfolding S(2) by blast
  let ?H = "heap_take (hdr s) a (heap_total sz)"
  let ?s = "s\<lparr>hdr := ?H\<rparr>"
  obtain bs' where bs': "seg ?H NULL bs' NULL (unat (g_heap_virt_top s))" "hd bs' = hd (xs @ [a])" "bs' \<noteq> []"
      "live_block ?H bs' = insert (a, hsize (?H a)) (heap_live s bs)" "heap_total sz \<le> hsize (?H a)"
    using heap_take_seg [OF S(1) [unfolded f(5)] f(3,4) align_up_bounds(3) [OF sz(2)] S(3)] S(4) f(5) by auto
  have "kmalloc s sz = Some (a + HEADER_SIZE, ?s)" using f sz by (auto simp: kmalloc_def)
  moreover have "heap_inv ?s bs'" using bs' inv f(5) by (auto simp: heap_inv_def hd_append split: if_splits)
  moreover have "a \<notin> fst ` heap_live s bs" using f(3) by (auto simp: live_block_def)
  moreover have "unat sz + 25 \<le> unat (hsize (?H a))"
    using align_up_bounds(1) [OF sz(2)] bs'(5) by (simp add: word_le_nat_alt)
  ultimately show ?thesis using bs'(4)
    by (intro exI [of _ a] exI [of _ "hsize (?H a)"] exI [of _ ?s] exI [of _ bs']) simp
qed

lemma set_free_seg:
  assumes "seg H p (xs @ a # ys) q e"
  shows "seg (set_free H a f) p (xs @ a # ys) q e"
proof -
  have "distinct (xs @ a # ys)" using assms seg_distinct by blast
  then show ?thesis using seg_split [OF assms] by (simp add: seg_append set_free_def)
qed

lemma kfree_live:
  assumes inv: "heap_inv s bs" and live: "(a, n) \<in> heap_live s bs"
  shows "\<exists>bs'. heap_inv (kfree s (a + HEADER_SIZE)) bs' \<and>
     heap_live (kfree s (a + HEADER_SIZE)) bs' = heap_live s bs - {(a, n)}"
proof -
  note S = heap_invD [OF inv]
  obtain xs ys where bs: "bs = xs @ a # ys" and a: "\<not> hfree (hdr s a)" "n = hsize (hdr s a)"
    using live by (auto simp: live_block_def dest: split_list)
  define H1 where "H1 = set_free (hdr s) a True"
  have dis: "distinct (xs @ a # ys)" using seg_distinct S(1) bs by blast
  have seg: "seg H1 NULL (xs @ a # ys) NULL (unat (g_heap_virt_top s))"
    unfolding H1_def by (rule set_free_seg) (use S(1) bs in simp)
  have live1: "live_block H1 (xs @ a # ys) = heap_live s bs - {(a, n)}"
    using dis a by (auto simp: bs H1_def set_free_def live_block_def)
  have free: "hfree (H1 a)" by (simp add: H1_def set_free_def)
  have ne: "a + HEADER_SIZE \<noteq> NULL"
  proof
    assume "a + HEADER_SIZE = NULL"
    then have "unat (a + 25) = 0" by (simp add: HEADER_SIZE_def)
    then have "2 ^ 64 \<le> unat a + 25" using S(4) [of a] bs unat_less_2p64 [of a] by (simp add: unat_word_ariths mod_if split: if_splits)
    then show False using seg_mem(2,3) [OF S(1), of a] S(3) bs by simp
  qed
  show ?thesis
  proof (cases "hprev (H1 a) \<noteq> NULL \<and> hfree (H1 (hprev (H1 a)))")
    case True
    have "hprev (H1 a) = last (NULL # xs)" using seg by (simp add: seg_append)
    with True obtain zs h where xs: "xs = zs @ [h]" "hprev (H1 a) = h" by (cases xs rule: rev_cases) auto
    have k: "kfree s (a + HEADER_SIZE) = s\<lparr>hdr := heap_coalesce H1 h\<rparr>"
      using True ne xs(2) by (simp add: kfree_def Let_def H1_def [symmetric])
    have eq: "zs @ h # a # ys = xs @ a # ys" using xs by simp
    have "hfree (H1 h)" using True xs(2) by simp
    from heap_coalesce_seg [OF seg [folded eq] this S(3)] obtain bs' where
      "seg (heap_coalesce H1 h) NULL bs' NULL (unat (g_heap_virt_top s))" "hd bs' = hd (zs @ [h])" "bs' \<noteq> []"
      "live_block (heap_coalesce H1 h) bs' = live_block H1 (xs @ a # ys)" unfolding eq by blast
    then show ?thesis using inv live1 bs xs(1) unfolding k
      by (intro exI [of _ bs']) (simp add: heap_inv_def hd_append split: if_splits)
  next
    case False
    have k: "kfree s (a + HEADER_SIZE) = s\<lparr>hdr := heap_coalesce H1 a\<rparr>"
      using False ne by (auto simp: kfree_def Let_def H1_def [symmetric])
    from heap_coalesce_seg [OF seg free S(3)] obtain bs' where
      "seg (heap_coalesce H1 a) NULL bs' NULL (unat (g_heap_virt_top s))" "hd bs' = hd (xs @ [a])" "bs' \<noteq> []"
      "live_block (heap_coalesce H1 a) bs' = live_block H1 (xs @ a # ys)" by auto
    then show ?thesis using inv live1 bs unfolding k
      by (intro exI [of _ bs']) (simp add: heap_inv_def hd_append split: if_splits)
  qed
qed

section \<open>The allocator interface\<close>

text \<open>
  What the clients of the heap rely on: a state with a set \<open>L\<close> of live blocks, blocks whose data areas
  do not meet, allocation that adds one block of the size asked for, release that removes one.
\<close>

locale block_allocator =
  fixes ok :: "'s \<Rightarrow> 'b set \<Rightarrow> bool" and area :: "'b \<Rightarrow> nat set"
    and fits :: "'s \<Rightarrow> nat \<Rightarrow> bool" and alloc :: "'s \<Rightarrow> nat \<Rightarrow> ('b \<times> 's) option" and release :: "'s \<Rightarrow> 'b \<Rightarrow> 's"
  assumes apart: "ok s L \<Longrightarrow> x \<in> L \<Longrightarrow> y \<in> L \<Longrightarrow> x \<noteq> y \<Longrightarrow> area x \<inter> area y = {}"
    and alloc: "ok s L \<Longrightarrow> fits s n \<Longrightarrow> \<exists>b s'. alloc s n = Some (b, s') \<and> ok s' (insert b L) \<and> b \<notin> L \<and> n \<le> card (area b)"
    and release: "ok s L \<Longrightarrow> b \<in> L \<Longrightarrow> ok (release s b) (L - {b})"
begin

lemma alloc_fresh:
  assumes "ok s L" "fits s n" "alloc s n = Some (b, s')"
  shows "ok s' (insert b L)" "n \<le> card (area b)" "\<forall>x\<in>L. area x \<inter> area b = {}"
proof -
  have b: "ok s' (insert b L)" "b \<notin> L" "n \<le> card (area b)" using alloc [OF assms(1,2)] assms(3) by auto
  then show "ok s' (insert b L)" "n \<le> card (area b)" by simp_all
  show "\<forall>x\<in>L. area x \<inter> area b = {}" using apart [OF b(1)] b(2) by blast
qed

lemma alloc_release:
  assumes "ok s L" "fits s n" "alloc s n = Some (b, s')"
  shows "ok (release s' b) L"
proof -
  have "ok s' (insert b L)" "b \<notin> L" using alloc [OF assms(1,2)] assms(3) by auto
  with release [of s' "insert b L" b] show ?thesis by simp
qed

end

definition heap_ok :: "heap \<Rightarrow> (u64 \<times> u64) set \<Rightarrow> bool" where
  "heap_ok s L \<longleftrightarrow> (\<exists>bs. heap_inv s bs \<and> heap_live s bs = L)"

definition heap_fits :: "heap \<Rightarrow> nat \<Rightarrow> bool" where
  "heap_fits s n \<longleftrightarrow> 0 < n \<and> n < 2 ^ 64 - 64 \<and>
     (\<exists>bs. heap_inv s bs \<and> (\<exists>b\<in>set bs. hfree (hdr s b) \<and> heap_total (of_nat n) \<le> hsize (hdr s b)))"

definition heap_alloc :: "heap \<Rightarrow> nat \<Rightarrow> ((u64 \<times> u64) \<times> heap) option" where
  "heap_alloc s n = map_option (\<lambda>(p, s'). ((p - HEADER_SIZE, hsize (hdr s' (p - HEADER_SIZE))), s')) (kmalloc s (of_nat n))"

lemma seg_unique:
  "seg H p as NULL e \<Longrightarrow> seg H p' as' NULL e' \<Longrightarrow> hd (as @ [NULL]) = hd (as' @ [NULL]) \<Longrightarrow> as = as'"
proof (induction as arbitrary: p p' as')
  case Nil
  then show ?case by (cases as') auto
next
  case (Cons a as)
  then obtain cs where cs: "as' = a # cs" by (cases as') auto
  then have "seg H a as NULL e" "seg H a cs NULL e'" "hd (as @ [NULL]) = hd (cs @ [NULL])"
    using Cons.prems by auto
  from Cons.IH [OF this] cs show ?case by simp
qed

lemma heap_inv_unique:
  assumes "heap_inv s bs" "heap_inv s bs'"
  shows "bs = bs'"
  by (rule seg_unique [OF heap_invD(1) heap_invD(1)])
    (use assms heap_invD(2) [OF assms(1)] heap_invD(2) [OF assms(2)] in simp_all)

interpretation kheap: block_allocator heap_ok data_area heap_fits heap_alloc "\<lambda>s (a, n). kfree s (a + HEADER_SIZE)"
proof (unfold_locales, goal_cases)
  case (1 s L x y)
  then show ?case unfolding heap_ok_def using heap_live_disjoint by metis
next
  case (2 s L n)
  from 2(1) obtain bs where bs: "heap_inv s bs" "heap_live s bs = L" unfolding heap_ok_def by blast
  from 2(2) obtain cs b where cs: "heap_inv s cs" "b \<in> set cs" "hfree (hdr s b)"
      "heap_total (of_nat n) \<le> hsize (hdr s b)" "0 < n" "n < 2 ^ 64 - 64"
    unfolding heap_fits_def by blast
  have b: "heap_inv s bs" "heap_live s bs = L" "b \<in> set bs" "hfree (hdr s b)"
      "heap_total (of_nat n) \<le> hsize (hdr s b)" "0 < n" "n < 2 ^ 64 - 64"
    using bs cs heap_inv_unique [OF bs(1) cs(1)] by simp_all
  have n: "unat (of_nat n :: u64) = n" using b(7) by (simp add: unat_of_nat)
  then have "(0 :: u64) < of_nat n" using b(6) by (simp add: word_less_nat_alt)
  from kmalloc_fit [OF b(1) this _ b(3-5)] obtain a k s' bs' where
    k: "kmalloc s (of_nat n) = Some (a + HEADER_SIZE, s')" "heap_inv s' bs'"
      "heap_live s' bs' = insert (a, k) L" "a \<notin> fst ` L" "n + 25 \<le> unat k"
    using b(2,7) unfolding n by blast
  have "k = hsize (hdr s' a)" using k(3) by (auto simp: live_block_def)
  then have "heap_alloc s n = Some ((a, k), s')" using k(1) by (simp add: heap_alloc_def)
  moreover have "heap_ok s' (insert (a, k) L)" using k(2,3) by (auto simp: heap_ok_def)
  moreover have "(a, k) \<notin> L" using k(4) by force
  moreover have "n \<le> card (data_area (a, k))" using k(5) by (simp add: data_area_def)
  ultimately show ?case by blast
next
  case (3 s L b)
  obtain a n where b: "b = (a, n)" by (cases b)
  from 3 obtain bs where "heap_inv s bs" "heap_live s bs = L" unfolding heap_ok_def by blast
  with kfree_live [of s bs a n] 3(2) show ?case unfolding heap_ok_def b by auto
qed

section \<open>Claims\<close>

text \<open>The heap as \<open>heap_init\<close> leaves it: one free block of 1 MiB.\<close>

definition heap_fresh :: "machine \<Rightarrow> heap" where
  "heap_fresh M = \<lparr>hdr = (\<lambda>_. \<lparr>hsize = 0x100000, hfree = True, hnext = NULL, hprev = NULL\<rparr>), bytes = (\<lambda>_. 0),
     g_heap_start = HEAP_START, g_heap_end = HEAP_START, g_heap_virt = HEAP_START,
     g_heap_virt_top = HEAP_START + 0x100000, mach = M\<rparr>"

lemma heap_fresh_inv: "heap_inv (heap_fresh M) [HEAP_START]"
  by (simp add: heap_inv_def heap_fresh_def HEAP_START_def)



text \<open>
  C7: \<open>kfree\<close> of the data area of a live block removes exactly that block from the live ones, merges
  it with a free neighbour, and leaves the blocks tiling the heap.
\<close>

theorem kfree_spec:
  assumes "heap_inv s bs" "(a, n) \<in> heap_live s bs"
  shows "\<exists>bs'. heap_inv (kfree s (a + HEADER_SIZE)) bs' \<and>
     heap_live (kfree s (a + HEADER_SIZE)) bs' = heap_live s bs - {(a, n)}"
  using assms by (rule kfree_live)

text \<open>A heap filled by two live blocks, of 64 bytes and of the rest.\<close>

definition heap_full :: heap where
  "heap_full = (heap_fresh vm_linked)\<lparr>hdr := (\<lambda>_. \<lparr>hsize = 0, hfree = False, hnext = NULL, hprev = NULL\<rparr>)
     (HEAP_START := \<lparr>hsize = 64, hfree = False, hnext = HEAP_START + 64, hprev = NULL\<rparr>,
      HEAP_START + 64 := \<lparr>hsize = 0xFFFC0, hfree = False, hnext = NULL, hprev = HEAP_START\<rparr>)\<rparr>"

lemma heap_full_inv: "heap_inv heap_full [HEAP_START, HEAP_START + 64]"
  by (simp add: heap_inv_def heap_full_def heap_fresh_def HEAP_START_def)

lemma kfree_spec_witness:
  "\<exists>bs'. heap_live (kfree heap_full (HEAP_START + HEADER_SIZE)) bs' = {(HEAP_START + 64, 0xFFFC0)}"
proof -
  have l: "heap_live heap_full [HEAP_START, HEAP_START + 64] = {(HEAP_START, 64), (HEAP_START + 64, 0xFFFC0)}"
    by (simp add: heap_full_def HEAP_START_def) auto
  then have "(HEAP_START, 64) \<in> heap_live heap_full [HEAP_START, HEAP_START + 64]" by simp
  from kfree_spec [OF heap_full_inv this] show ?thesis
    unfolding l by (auto simp: HEAP_START_def)
qed

text \<open>
  The rounding in \<open>kmalloc\<close> wraps around: a request of \<open>2\<^sup>64 - 15\<close> bytes or more
  is served like a request of 16 bytes.
\<close>

theorem kmalloc_wraps:
  assumes "2 ^ 64 - 15 \<le> unat sz"
  shows "kmalloc s sz = kmalloc s 16"
proof -
  have "unat sz < 2 ^ 64" by (rule unat_less_2p64)
  then have "sz \<noteq> 0" "unat sz mod 16 \<noteq> 0" using assms by (auto, presburger)
  have "unat (sz + 15) = unat sz + 15 - 2 ^ 64"
    using assms \<open>unat sz < 2 ^ 64\<close> by (simp add: unat_word_ariths mod_if)
  then have "unat ((sz + 15) AND NOT 15) = 0"
    using \<open>unat sz < 2 ^ 64\<close> unat_and_not_mask [of "sz + 15" 4] by (simp add: mask_numeral)
  then have z: "(sz + 15) AND NOT 15 = 0" by (simp add: unat_eq_0)
  have "unat (sz AND 15) = unat sz mod 16"
  proof -
    have "unat (take_bit 4 sz) = unat sz mod 16" unfolding unsigned_take_bit_eq by (simp add: take_bit_eq_mod)
    then show ?thesis by (simp add: take_bit_eq_mask mask_numeral)
  qed
  then have "sz AND 15 \<noteq> 0" using \<open>unat sz mod 16 \<noteq> 0\<close> by (metis unat_0)
  then have "heap_total sz = 64" unfolding heap_total_eq z by simp
  moreover have "heap_total 16 = 64" by (simp add: heap_total_def HEAP_ALIGN_def HEADER_SIZE_def MIN_BLOCK_def)
  ultimately show ?thesis using \<open>sz \<noteq> 0\<close> by (simp add: kmalloc_def)
qed

lemma kmalloc_wraps_witness: "kmalloc (heap_fresh vm_linked) 0xFFFFFFFFFFFFFFF8 = kmalloc (heap_fresh vm_linked) 16"
  by (rule kmalloc_wraps) simp

section \<open>Growing the heap\<close>

text \<open>\<open>g_heap_end\<close> is set when the heap is created or grown, and not when its block is split. The
  effect of a growth on the headers, for a request below 60 KiB.\<close>

lemma kmalloc_grow:
  assumes inv: "heap_inv s (e # y # ys)" and e: "g_heap_end s = e"
    and sz: "0 < sz" "unat sz \<le> 0xF000"
    and nofit: "\<forall>b\<in>set (e # y # ys). \<not> (hfree (hdr s b) \<and> heap_total sz \<le> hsize (hdr s b))"
    and pages: "fst (heap_grow_pages (mach s) (g_heap_virt_top s) 16)"
    and v: "v = g_heap_virt_top s" and n: "n = v + heap_total sz" and nv: "n \<noteq> v" "n \<noteq> e" "e \<noteq> v"
  shows "\<exists>s1. kmalloc s sz = Some (v + HEADER_SIZE, s1) \<and>
     hdr s1 = (hdr s)(e := (hdr s e)\<lparr>hnext := v\<rparr>,
       v := \<lparr>hsize = heap_total sz, hfree = False, hnext = n, hprev = e\<rparr>,
       n := \<lparr>hsize = 0x10000 - heap_total sz, hfree = True, hnext = NULL, hprev = v\<rparr>)"
proof -
  have sz': "unat sz < 2 ^ 64 - 64" using sz(2) by simp
  have t: "unat (heap_total sz) \<le> 0xF028" using align_up_bounds(2) [OF sz'] sz(2) by simp
  then have tot: "\<not> 0x10000 < heap_total sz" "heap_total sz \<le> 0x10000" "heap_total sz + MIN_BLOCK \<le> 0x10000"
    by (auto simp: word_less_nat_alt word_le_nat_alt unat_word_ariths MIN_BLOCK_def)
  obtain r where "heap_find (hdr s) (heap_total sz) (g_heap_start s) = Some r" "r = NULL"
    using heap_find_seg [OF heap_invD(1) [OF inv], of "heap_total sz"] nofit
    unfolding heap_invD(2) [OF inv] by (metis in_set_conv_decomp)
  then have k: "kmalloc s sz = Some (heap_grow s (heap_total sz))" using sz(1) by (auto simp: kmalloc_def)
  obtain M where M: "heap_grow_pages (mach s) v 16 = (True, M)" using pages v by (metis prod.collapse)
  have H: "heap_take_new (set_next (set_prev (heap_create_block (hdr s) v 0x10000) v e) e v) v (heap_total sz) =
     (hdr s)(e := (hdr s e)\<lparr>hnext := v\<rparr>,
       v := \<lparr>hsize = heap_total sz, hfree = False, hnext = n, hprev = e\<rparr>,
       n := \<lparr>hsize = 0x10000 - heap_total sz, hfree = True, hnext = NULL, hprev = v\<rparr>)"
    unfolding heap_take_new_def heap_create_block_def Let_def n [symmetric]
    using tot nv by (auto simp: hdr_sets fun_eq_iff)
  have sz3: "hsize ((set_next (set_prev (heap_create_block (hdr s) v 0x10000) v e) e v) v) = 0x10000"
    using nv by (simp add: heap_create_block_def hdr_sets)
  have "heap_grow s (heap_total sz) = (v + HEADER_SIZE, s\<lparr>mach := M, g_heap_virt_top := v + 0x10000,
      g_heap_end := v, hdr := heap_take_new (set_next (set_prev (heap_create_block (hdr s) v 0x10000) v e) e v) v (heap_total sz)\<rparr>)"
    using tot M sz3 by (simp add: heap_grow_def Let_def PAGE_SIZE_def v [symmetric] e)
  then show ?thesis using k H by simp
qed

text \<open>
  Growing the heap drops blocks: while \<open>g_heap_end\<close> still names the first block, a growth links
  the new region directly behind it, over the blocks that follow. When the new block and the first
  one are released, they are merged although they are not adjacent, and the free block that
  results reaches 64 KiB into the live block behind the first.
\<close>

theorem heap_grow_overlap:
  assumes inv: "heap_inv s (e # y # ys)" and e: "g_heap_end s = e" "\<not> hfree (hdr s e)"
    and sz: "0 < sz" "unat sz \<le> 0xF000"
    and nofit: "\<forall>b\<in>set (e # y # ys). \<not> (hfree (hdr s b) \<and> heap_total sz \<le> hsize (hdr s b))"
    and pages: "fst (heap_grow_pages (mach s) (g_heap_virt_top s) 16)"
    and top: "unat (g_heap_virt_top s) + 0x10000 < 2 ^ 64"
  shows "\<exists>p s1 s2. kmalloc s sz = Some (p, s1) \<and> s2 = kfree (kfree s1 p) (e + HEADER_SIZE) \<and>
     hdr s2 y = hdr s y \<and> hfree (hdr s2 e) \<and> unat e + unat (hsize (hdr s2 e)) = unat y + 0x10000"
proof -
  define v where "v = g_heap_virt_top s"
  define n where "n = v + heap_total sz"
  note S = heap_invD [OF inv]
  have sz': "unat sz < 2 ^ 64 - 64" using sz(2) by simp
  have tot: "unat (heap_total sz) \<le> 0xF028" "25 \<le> unat (heap_total sz)"
    using align_up_bounds(1,2) [OF sz'] sz(2) by simp_all
  have ev: "unat e + unat (hsize (hdr s e)) = unat y" "unat y + unat (hsize (hdr s y)) \<le> unat v"
    "64 \<le> unat (hsize (hdr s e))" "64 \<le> unat (hsize (hdr s y))" "hprev (hdr s e) = NULL" "64 \<le> unat e"
    using S(1) S(4) seg_mem [OF S(1), of y] by (auto simp: v_def)
  have un: "unat n = unat v + unat (heap_total sz)" "unat (v + 25) = unat v + 25" "unat (e + 25) = unat e + 25"
    using top tot ev by (simp_all add: n_def unat_word_ariths v_def)
  then have ne: "n \<noteq> v" "n \<noteq> e" "e \<noteq> v" "n \<noteq> y" "y \<noteq> v" "y \<noteq> e" "v \<noteq> NULL" "n \<noteq> NULL" "e \<noteq> NULL"
      "v + 25 \<noteq> NULL" "e + 25 \<noteq> NULL"
    using ev tot by auto
  obtain s1 where s1: "kmalloc s sz = Some (v + HEADER_SIZE, s1)" "hdr s1 = (hdr s)(e := (hdr s e)\<lparr>hnext := v\<rparr>,
       v := \<lparr>hsize = heap_total sz, hfree = False, hnext = n, hprev = e\<rparr>,
       n := \<lparr>hsize = 0x10000 - heap_total sz, hfree = True, hnext = NULL, hprev = v\<rparr>)"
    using kmalloc_grow [OF inv e(1) sz nofit pages v_def n_def ne(1-3)] by blast
  define t where "t = kfree s1 (v + HEADER_SIZE)"
  have f: "hdr t = (hdr s1)(v := \<lparr>hsize = 0x10000, hfree = True, hnext = NULL, hprev = e\<rparr>)"
    unfolding t_def kfree_def heap_coalesce_def HEADER_SIZE_def Let_def using ne e(2)
    by (auto simp: hdr_sets s1(2) fun_eq_iff)
  define s2 where "s2 = kfree t (e + HEADER_SIZE)"
  have h2: "hdr s2 = (hdr t)(e := (hdr s e)\<lparr>hsize := hsize (hdr s e) + 0x10000, hfree := True, hnext := NULL\<rparr>)"
    unfolding s2_def kfree_def heap_coalesce_def HEADER_SIZE_def Let_def using ne ev(5)
    by (auto simp: hdr_sets f s1(2) fun_eq_iff)
  have "unat (hsize (hdr s e) + 0x10000) = unat (hsize (hdr s e)) + 0x10000"
    using ev top by (simp add: unat_word_ariths v_def)
  then have "hdr s2 y = hdr s y" "hfree (hdr s2 e)" "unat e + unat (hsize (hdr s2 e)) = unat y + 0x10000"
    using ne ev(1) by (simp_all add: h2 f s1(2))
  with s1(1) show ?thesis unfolding s2_def t_def by blast
qed

text \<open>Frames consumed by mapping pages: every allocation takes at most one.\<close>

definition frames_left :: "nat \<Rightarrow> pmm \<Rightarrow> bool" where
  "frames_left k fr \<longleftrightarrow> pmm_inv fr \<and> k \<le> card (free_set fr)"

lemma pmm_alloc_left:
  assumes "frames_left (Suc k) fr"
  shows "fst (pmm_alloc fr) \<noteq> NULL" "frames_left k (snd (pmm_alloc fr))"
proof -
  have inv: "pmm_inv fr" and k: "Suc k \<le> card (free_set fr)" using assms by (auto simp: frames_left_def)
  have "fst (pmm_alloc fr) \<noteq> NULL \<and> frames_left k (snd (pmm_alloc fr))"
    using inv
  proof (cases rule: pmm_alloc_cases)
    case oom
    then show ?thesis using k by simp
  next
    case (ok f)
    have "finite (free_set fr)" using k by (metis card.infinite not_less_eq_eq zero_le)
    then have "k \<le> card (free_set (pmm_take fr f))" using k ok(1) by (simp add: free_set_take)
    moreover have "pmm_inv (pmm_take fr f)" using pmm_inv_take [OF inv ok(1)] by simp
    moreover have "f * PAGE_SIZE \<noteq> 0"
    proof
      assume "f * PAGE_SIZE = 0"
      moreover have "unat (f * PAGE_SIZE) = unat f * 4096" "512 \<le> f"
        using frame_addr free_set_bounds [OF inv ok(1)] by simp_all
      ultimately show False by (simp add: word_le_nat_alt)
    qed
    ultimately show ?thesis using ok(3) by (simp add: frames_left_def)
  qed
  then show "fst (pmm_alloc fr) \<noteq> NULL" "frames_left k (snd (pmm_alloc fr))" by simp_all
qed

lemma frames_leftD: "frames_left (Suc k) fr \<Longrightarrow> frames_left k fr"
  by (simp add: frames_left_def)

lemma get_or_create_left:
  assumes "frames_left (Suc k) (frames M)"
  shows "frames_left k (frames (snd (paging_get_or_create_table M en fl)))"
proof -
  have "frames (snd (paging_get_or_create_table M en fl)) \<in> {frames M, snd (pmm_alloc (frames M))}"
    by (simp add: paging_get_or_create_table_def Let_def split: prod.split)
  then show ?thesis using pmm_alloc_left [OF assms] frames_leftD [OF assms] by auto
qed

lemma split_huge_left:
  assumes "frames_left (Suc k) (frames M)"
  shows "frames_left k (frames (snd (paging_split_huge M en fl)))"
proof -
  have "frames (snd (paging_split_huge M en fl)) \<in> {frames M, snd (pmm_alloc (frames M))}"
    by (simp add: paging_split_huge_def Let_def split: prod.split)
  then show ?thesis using pmm_alloc_left [OF assms] frames_leftD [OF assms] by auto
qed

lemma frames_entry_user [simp]: "frames (entry_user M en fl) = frames M"
  by (simp add: entry_user_def entry_or_def)

lemma map_page_left:
  assumes "frames_left (Suc (Suc (Suc (Suc k)))) (frames M)"
  shows "frames_left k (frames (snd (paging_map_page M virt phys fl)))"
proof -
  have le: "j \<le> i \<Longrightarrow> frames_left i fr \<Longrightarrow> frames_left j fr" for i j fr by (simp add: frames_left_def)
  obtain p1 M1 where 1: "paging_get_or_create_table M (g_pml4 M + 8 * idx_pml4 virt) (fl AND PAGE_USER) = (p1, M1)" by fastforce
  let ?M2 = "entry_user M1 (g_pml4 M + 8 * idx_pml4 virt) fl"
  obtain p3 M3 where 3: "paging_get_or_create_table ?M2 (p1 + 8 * idx_pdpt virt) (fl AND PAGE_USER) = (p3, M3)" by fastforce
  let ?M4 = "entry_user M3 (p1 + 8 * idx_pdpt virt) fl" and ?e = "p3 + 8 * idx_pd virt"
  obtain ok M5 where 5: "paging_split_huge ?M4 ?e (fl AND PAGE_USER) = (ok, M5)" by fastforce
  obtain p7 M7 where 7: "paging_get_or_create_table (entry_user M5 ?e fl) ?e (fl AND PAGE_USER) = (p7, M7)" by fastforce
  have l1: "frames_left (Suc (Suc (Suc k))) (frames M1)" using get_or_create_left [OF assms] 1 by (metis snd_conv)
  have l3: "frames_left (Suc (Suc k)) (frames M3)" using get_or_create_left [of "Suc (Suc k)" ?M2] l1 3 by (metis frames_entry_user snd_conv)
  have l5: "frames_left (Suc k) (frames M5)" using split_huge_left [of "Suc k" ?M4] l3 5 by (metis frames_entry_user snd_conv)
  have l7: "frames_left k (frames M7)" using get_or_create_left [of k "entry_user M5 ?e fl"] l5 7 by (metis frames_entry_user snd_conv)
  have "frames (snd (paging_map_page_on M (g_pml4 M) virt phys fl)) \<in> {frames M1, frames M3, frames M5, frames M7}"
    by (simp add: paging_map_page_on_def Let_def 1 3 5 7)
  then have "frames_left k (frames (snd (paging_map_page_on M (g_pml4 M) virt phys fl)))"
    using l1 l3 l5 l7 by (auto simp: frames_left_def)
  then show ?thesis by (auto simp: paging_map_page_def Let_def invlpg_def split: prod.split)
qed

lemma grow_pages_left: "frames_left (5 * n) (frames M) \<Longrightarrow> fst (heap_grow_pages M virt n)"
proof (induction n arbitrary: M virt)
  case (Suc n)
  have "5 * Suc n = Suc (Suc (Suc (Suc (Suc (5 * n)))))" by simp
  with Suc.prems have l: "frames_left (Suc (Suc (Suc (Suc (Suc (5 * n)))))) (frames M)" by metis
  obtain f fr where a: "pmm_alloc (frames M) = (f, fr)" by fastforce
  have f: "f \<noteq> NULL" "frames_left (Suc (Suc (Suc (Suc (5 * n))))) fr"
    using pmm_alloc_left [OF l] a by simp_all
  then have "frames_left (5 * n) (frames (snd (paging_map_page (M\<lparr>frames := fr\<rparr>) virt f PAGE_RW)))"
    by (intro map_page_left) simp
  then show ?case using Suc.IH f(1) a by simp
qed simp

lemma boot_low_left: "frames_left 512 boot_low"
proof -
  have u: "unat (of_nat i :: u64) = i" if "i < 1024" for i using that by (simp add: unat_of_nat)
  have "free_set boot_low = of_nat ` {512..<1024}"
  proof (intro set_eqI iffI)
    fix f assume "f \<in> free_set boot_low"
    then have "unat f \<in> {512..<1024}" by (auto simp: free_set_def boot_pools word_less_nat_alt)
    moreover have "f = of_nat (unat f)" by simp
    ultimately show "f \<in> of_nat ` {512..<1024}" by blast
  next
    fix f :: u64 assume "f \<in> of_nat ` {512..<1024}"
    then show "f \<in> free_set boot_low" by (auto simp: free_set_def boot_pools word_less_nat_alt word_le_nat_alt u)
  qed
  moreover have "inj_on (of_nat :: nat \<Rightarrow> u64) {512..<1024}" by (rule inj_onI) (metis u atLeastLessThan_iff)
  ultimately show ?thesis by (simp add: frames_left_def card_image boot_pools)
qed

lemma heap_grow_overlap_witness:
  "\<exists>p s1 s2. kmalloc heap_full 16 = Some (p, s1) \<and> s2 = kfree (kfree s1 p) (HEAP_START + HEADER_SIZE) \<and>
     hfree (hdr s2 HEAP_START) \<and> unat (hsize (hdr s2 HEAP_START)) = 0x10040 \<and> \<not> hfree (hdr s2 (HEAP_START + 64))"
proof -
  have m: "mach heap_full = vm_linked" "frames vm_linked = boot_low" by (simp_all add: heap_full_def heap_fresh_def vm_linked_def)
  have "fst (heap_grow_pages (mach heap_full) (g_heap_virt_top heap_full) 16)"
    by (rule grow_pages_left) (use boot_low_left in \<open>simp add: m frames_left_def\<close>)
  from heap_grow_overlap [OF heap_full_inv _ _ _ _ _ this, of 16] show ?thesis
    by (simp add: heap_full_def heap_fresh_def HEAP_START_def) fastforce
qed

end
