(* ===== verification/CString.thy ===== *)
theory CString
  imports Prelude "HOL-Library.List_Lexorder"
begin

text \<open>
  The memory and string functions of \<^verbatim>\<open>lib/string.c\<close> on byte addressed memory. Loops with a
  count are recursive on it; loops that run to a terminating zero byte may run forever on memory without
  one, which is the value \<open>None\<close>. \<open>cstr m a s\<close> says that the zero terminated string \<open>s\<close> lies
  at \<open>a\<close>; the theorems state each function by what it does to such strings.
\<close>

section \<open>Operations\<close>

fun memset_loop :: "mem \<Rightarrow> u64 \<Rightarrow> u8 \<Rightarrow> u64 \<Rightarrow> nat \<Rightarrow> mem" where
  "memset_loop m dst c i 0 = m"
| "memset_loop m dst c i (Suc n) = memset_loop (m(dst + i := c)) dst c (i + 1) n"

definition memset :: "mem \<Rightarrow> u64 \<Rightarrow> int \<Rightarrow> u64 \<Rightarrow> mem" where
  "memset m dst c n = memset_loop m dst (of_int c) 0 (unat n)"

text \<open>Copying upwards, as \<open>memcpy\<close> does and \<open>memmove\<close> when the destination is below the source.\<close>

fun copy_up :: "mem \<Rightarrow> u64 \<Rightarrow> u64 \<Rightarrow> u64 \<Rightarrow> nat \<Rightarrow> mem" where
  "copy_up m dst src i 0 = m"
| "copy_up m dst src i (Suc n) = copy_up (m(dst + i := m (src + i))) dst src (i + 1) n"

fun copy_down :: "mem \<Rightarrow> u64 \<Rightarrow> u64 \<Rightarrow> nat \<Rightarrow> mem" where
  "copy_down m dst src 0 = m"
| "copy_down m dst src (Suc n) = copy_down (m(dst + of_nat n := m (src + of_nat n))) dst src n"

definition memcpy :: "mem \<Rightarrow> u64 \<Rightarrow> u64 \<Rightarrow> u64 \<Rightarrow> mem" where
  "memcpy m dst src n = copy_up m dst src 0 (unat n)"

definition memmove :: "mem \<Rightarrow> u64 \<Rightarrow> u64 \<Rightarrow> u64 \<Rightarrow> mem" where
  "memmove m dst src n =
     (if dst < src then copy_up m dst src 0 (unat n) else copy_down m dst src (unat n))"

fun memcmp_loop :: "mem \<Rightarrow> u64 \<Rightarrow> u64 \<Rightarrow> u64 \<Rightarrow> nat \<Rightarrow> int" where
  "memcmp_loop m a b i 0 = 0"
| "memcmp_loop m a b i (Suc n) =
     (if m (a + i) \<noteq> m (b + i) then uint (m (a + i)) - uint (m (b + i)) else memcmp_loop m a b (i + 1) n)"

definition memcmp :: "mem \<Rightarrow> u64 \<Rightarrow> u64 \<Rightarrow> u64 \<Rightarrow> int" where
  "memcmp m a b n = memcmp_loop m a b 0 (unat n)"

partial_function (option) strcmp :: "mem \<Rightarrow> u64 \<Rightarrow> u64 \<Rightarrow> int option" where
  "strcmp m a b =
     (if m a \<noteq> 0 \<and> m a = m b then strcmp m (a + 1) (b + 1) else Some (uint (m a) - uint (m b)))"

fun strncmp_loop :: "mem \<Rightarrow> u64 \<Rightarrow> u64 \<Rightarrow> u64 \<Rightarrow> nat \<Rightarrow> int" where
  "strncmp_loop m a b i 0 = 0"
| "strncmp_loop m a b i (Suc n) =
     (if m (a + i) \<noteq> m (b + i) then uint (m (a + i)) - uint (m (b + i))
      else if m (a + i) = 0 then 0 else strncmp_loop m a b (i + 1) n)"

definition strncmp :: "mem \<Rightarrow> u64 \<Rightarrow> u64 \<Rightarrow> u64 \<Rightarrow> int" where
  "strncmp m a b n = strncmp_loop m a b 0 (unat n)"

partial_function (option) strcpy :: "mem \<Rightarrow> u64 \<Rightarrow> u64 \<Rightarrow> mem option" where
  "strcpy m d s =
     (let m' = m(d := m s) in if m s \<noteq> 0 then strcpy m' (d + 1) (s + 1) else Some m')"

text \<open>The second loop of \<open>strncpy\<close> clears the rest.\<close>

fun strncpy_loop :: "mem \<Rightarrow> u64 \<Rightarrow> u64 \<Rightarrow> u64 \<Rightarrow> nat \<Rightarrow> mem" where
  "strncpy_loop m dst src i 0 = m"
| "strncpy_loop m dst src i (Suc n) =
     (if m (src + i) \<noteq> 0 then strncpy_loop (m(dst + i := m (src + i))) dst src (i + 1) n
      else memset_loop m dst 0 i (Suc n))"

definition strncpy :: "mem \<Rightarrow> u64 \<Rightarrow> u64 \<Rightarrow> u64 \<Rightarrow> mem" where
  "strncpy m dst src n = strncpy_loop m dst src 0 (unat n)"

partial_function (option) strlen_from :: "mem \<Rightarrow> u64 \<Rightarrow> u64 \<Rightarrow> u64 option" where
  "strlen_from m s n = (if m (s + n) \<noteq> 0 then strlen_from m s (n + 1) else Some n)"

definition strlen :: "mem \<Rightarrow> u64 \<Rightarrow> u64 option" where
  "strlen m s = strlen_from m s 0"

text \<open>\<open>for (d = delim; *d; d++) if (c == *d) { sep = 1; break; }\<close>\<close>

partial_function (option) is_delim :: "mem \<Rightarrow> u8 \<Rightarrow> u64 \<Rightarrow> bool option" where
  "is_delim m c d = (if m d = 0 then Some False else if c = m d then Some True else is_delim m c (d + 1))"

partial_function (option) strtok_skip :: "mem \<Rightarrow> u64 \<Rightarrow> u64 \<Rightarrow> u64 option" where
  "strtok_skip m delim p =
     (if m p = 0 then Some p
      else case is_delim m (m p) delim of
        None \<Rightarrow> None | Some sep \<Rightarrow> if sep then strtok_skip m delim (p + 1) else Some p)"

text \<open>The second loop: the end of the token, cut off by a zero byte; the result is the new \<open>g_saved\<close>.\<close>

partial_function (option) strtok_end :: "mem \<Rightarrow> u64 \<Rightarrow> u64 \<Rightarrow> (u64 \<times> mem) option" where
  "strtok_end m delim p =
     (if m p = 0 then Some (NULL, m)
      else case is_delim m (m p) delim of
        None \<Rightarrow> None | Some sep \<Rightarrow> if sep then Some (p + 1, m(p := 0)) else strtok_end m delim (p + 1))"

text \<open>\<open>strtok\<close> with its static variable \<open>g_saved\<close>: token pointer, new \<open>g_saved\<close>, new memory.\<close>

definition strtok :: "mem \<Rightarrow> u64 \<Rightarrow> u64 \<Rightarrow> u64 \<Rightarrow> (u64 \<times> u64 \<times> mem) option" where
  "strtok m g_saved str delim =
     (let p = (if str \<noteq> NULL then str else g_saved)
      in if p = NULL then Some (NULL, p, m)
      else case strtok_skip m delim p of
        None \<Rightarrow> None
      | Some q \<Rightarrow>
          if m q = 0 then Some (NULL, NULL, m)
          else case strtok_end m delim q of
            None \<Rightarrow> None
          | Some (saved, m') \<Rightarrow> Some (q, saved, m'))"

section \<open>Strings in memory\<close>

fun cstr :: "mem \<Rightarrow> u64 \<Rightarrow> u8 list \<Rightarrow> bool" where
  "cstr m a [] \<longleftrightarrow> m a = 0"
| "cstr m a (c # s) \<longleftrightarrow> m a = c \<and> c \<noteq> 0 \<and> cstr m (a + 1) s"

lemma cstr_not_zero: "cstr m a s \<Longrightarrow> 0 \<notin> set s"
  by (induction s arbitrary: a) auto

text \<open>The bytes of a string of length \<open>n\<close> at \<open>a\<close>, with its terminator, by their distance from \<open>a\<close>.\<close>

definition in_str :: "u64 \<Rightarrow> nat \<Rightarrow> u64 \<Rightarrow> bool" where
  "in_str a n x \<longleftrightarrow> unat (x - a) \<le> n"

lemma unat_diff_step:
  fixes x a :: u64
  assumes "x \<noteq> a"
  shows "unat (x - a) = Suc (unat (x - (a + 1)))"
proof -
  have "x - (a + 1) = (x - a) - 1" by simp
  moreover have "x - a \<noteq> 0" using assms by simp
  ultimately show ?thesis by (metis unat_minus_one Suc_pred' unat_gt_0)
qed

lemma in_str_simps:
  "in_str a 0 x \<longleftrightarrow> x = a" "in_str a (Suc n) x \<longleftrightarrow> x = a \<or> in_str (a + 1) n x"
proof -
  show "in_str a 0 x \<longleftrightarrow> x = a" by (auto simp: in_str_def unat_eq_0)
  show "in_str a (Suc n) x \<longleftrightarrow> x = a \<or> in_str (a + 1) n x"
    by (cases "x = a") (simp_all add: in_str_def unat_diff_step)
qed

lemma cstr_cong: "(\<And>x. in_str a (length s) x \<Longrightarrow> m x = m' x) \<Longrightarrow> cstr m a s \<longleftrightarrow> cstr m' a s"
  by (induction s arbitrary: a) (auto simp: in_str_simps)

lemma cstr_upd: "\<not> in_str a (length s) x \<Longrightarrow> cstr (m(x := v)) a s \<longleftrightarrow> cstr m a s"
  by (rule cstr_cong) auto

lemma strlen_from_cstr: "cstr m (s + n) t \<Longrightarrow> strlen_from m s n = Some (n + of_nat (length t))"
proof (induction t arbitrary: n)
  case Nil
  then show ?case by (subst strlen_from.simps) simp
next
  case (Cons c t)
  have "strlen_from m s n = strlen_from m s (n + 1)"
    using Cons.prems by (subst strlen_from.simps) auto
  with Cons.IH [of "n + 1"] Cons.prems show ?case by (simp add: add.assoc)
qed

lemma strlen_cstr: "cstr m a s \<Longrightarrow> strlen m a = Some (of_nat (length s))"
  using strlen_from_cstr [of m a 0 s] by (simp add: strlen_def)

lemma uint_pos: "c \<noteq> 0 \<Longrightarrow> 0 < uint (c :: u8)"
  using word_uint_eq_iff [of c 0] by (simp add: order_less_le)

lemma uint_byte_0 [simp]: "uint (c :: u8) = 0 \<longleftrightarrow> c = 0"
  using word_uint_eq_iff [of c 0] by simp

lemma strcmp_cstr:
  "cstr m a s \<Longrightarrow> cstr m b t \<Longrightarrow> \<exists>d. strcmp m a b = Some d \<and> (d = 0 \<longleftrightarrow> s = t) \<and> (d < 0 \<longleftrightarrow> s < t)"
proof (induction s arbitrary: a b t)
  case Nil
  then show ?case by (cases t; subst strcmp.simps) (auto simp: uint_pos)
next
  case (Cons c s)
  show ?case
  proof (cases "\<exists>t'. t = c # t'")
    case True
    then obtain t' where t: "t = c # t'" by blast
    have "strcmp m a b = strcmp m (a + 1) (b + 1)"
      using Cons.prems t by (subst strcmp.simps) simp
    then show ?thesis using Cons.IH [of "a + 1" "b + 1" t'] Cons.prems t by simp
  next
    case False
    then have ne: "m a \<noteq> m b" using Cons.prems by (cases t) auto
    then have "strcmp m a b = Some (uint (m a) - uint (m b))" by (subst strcmp.simps) simp
    moreover have "uint (m a) - uint (m b) < 0 \<longleftrightarrow> m a < m b" "uint (m a) - uint (m b) \<noteq> 0"
      using ne word_uint_eq_iff [of "m a" "m b"] by (auto simp: word_less_def)
    moreover have "c # s < t \<longleftrightarrow> m a < m b" "c # s \<noteq> t"
      using Cons.prems False by (cases t; auto)+
    ultimately show ?thesis by auto
  qed
qed

lemma strncmp_prefix:
  "cstr m b t \<Longrightarrow> cstr m a s \<Longrightarrow> strncmp_loop m (a - i) (b - i) i (length s) = 0 \<longleftrightarrow> take (length s) t = s"
proof (induction s arbitrary: a b t i)
  case (Cons c s)
  have i: "a + 1 - (i + 1) = a - i" "b + 1 - (i + 1) = b - i" by simp_all
  show ?case
  proof (cases t)
    case (Cons d t')
    then show ?thesis using Cons.prems Cons.IH [of "b + 1" t' "a + 1" "i + 1"] word_uint_eq_iff [of "m a" "m b"]
      unfolding i by auto
  qed (use Cons.prems in auto)
qed simp

lemma strcpy_cstr:
  assumes "cstr m a s" "\<And>x. in_str a (length s) x \<Longrightarrow> \<not> in_str d (length s) x"
  shows "\<exists>m'. strcpy m d a = Some m' \<and> cstr m' d s \<and> (\<forall>x. \<not> in_str d (length s) x \<longrightarrow> m' x = m x)"
  using assms
proof (induction s arbitrary: m a d)
  case Nil
  then show ?case by (subst strcpy.simps) (simp add: in_str_simps)
next
  case (Cons c s)
  define m1 where "m1 = m(d := m a)"
  have dis: "\<not> in_str (d + 1) (length s) x \<and> x \<noteq> d" if "in_str (a + 1) (length s) x" for x
    using Cons.prems(2) [of x] that by (auto simp: in_str_simps)
  then have "cstr m1 (a + 1) s" using Cons.prems(1) cstr_cong [of "a + 1" s m1 m] by (auto simp: m1_def)
  from Cons.IH [OF this, of "d + 1"] dis obtain m' where
    m': "strcpy m1 (d + 1) (a + 1) = Some m'" "cstr m' (d + 1) s" "\<forall>x. \<not> in_str (d + 1) (length s) x \<longrightarrow> m' x = m1 x" by blast
  have "strcpy m d a = Some m'" using m'(1) Cons.prems(1) by (subst strcpy.simps) (simp add: Let_def m1_def)
  moreover have "m' d = c"
  proof -
    have "in_str a (length (c # s)) a" by (simp add: in_str_def)
    then have "length (c # s) < unat (a - d)" using Cons.prems(2) by (auto simp: in_str_def not_le)
    then have "length s < 2 ^ 64 - 1" using unat_less_2p64 [of "a - d"] by simp
    moreover have "unat (d - (d + 1)) = 2 ^ 64 - 1" by (simp add: unsigned_minus_1_eq_mask mask_eq_exp_minus_1)
    ultimately have "\<not> in_str (d + 1) (length s) d" by (simp add: in_str_def)
    then show ?thesis using m'(3) Cons.prems(1) by (simp add: m1_def)
  qed
  moreover have "m' x = m x" if "\<not> in_str d (length (c # s)) x" for x
    using m'(3) that by (auto simp: in_str_simps m1_def)
  ultimately show ?case using m' Cons.prems(1) by (auto simp: in_str_simps)
qed

section \<open>Copying blocks\<close>

lemma copy_up_spec:
  assumes "dst < src \<or> n = 0" "unat src + (unat i + n) \<le> 2 ^ 64"
  shows "copy_up m dst src i n x = (if unat i \<le> unat (x - dst) \<and> unat (x - dst) < unat i + n then m (src + (x - dst)) else m x)"
  using assms
proof (induction n arbitrary: m i)
  case (Suc n)
  define m1 where "m1 = m(dst + i := m (src + i))"
  let ?o = "unat (x - dst)"
  have i1: "unat (i + 1) = Suc (unat i)" if "n \<noteq> 0" using Suc.prems(2) that by (simp add: unat_word_ariths)
  show ?case
  proof (cases "n = 0")
    case True
    then show ?thesis by (auto simp: word_unat_eq_iff [of "x - dst" i, symmetric] algebra_simps le_less_Suc_eq)
  next
    case False
    have "copy_up m dst src i (Suc n) x = (if Suc (unat i) \<le> ?o \<and> ?o < Suc (unat i) + n then m1 (src + (x - dst)) else m1 x)"
      unfolding copy_up.simps m1_def [symmetric] i1 [OF False, symmetric]
      by (rule Suc.IH) (use Suc.prems i1 [OF False] in simp_all)
    moreover have "src + (x - dst) \<noteq> dst + i" if "Suc (unat i) \<le> ?o" "?o < Suc (unat i) + n"
    proof
      assume "src + (x - dst) = dst + i"
      moreover have "unat (src + (x - dst)) = unat src + ?o" using Suc.prems(2) that by (simp add: unat_word_ariths)
      moreover have "unat (dst + i) = unat dst + unat i"
        using Suc.prems by (simp add: unat_word_ariths word_less_nat_alt)
      ultimately have "unat src + ?o = unat dst + unat i" by metis
      then show False using that Suc.prems(1) by (simp add: word_less_nat_alt)
    qed
    moreover have "x = dst + i \<longleftrightarrow> ?o = unat i" by (metis add.commute add_diff_cancel diff_add_cancel word_unat_eq_iff)
    ultimately show ?thesis by (auto simp: m1_def)
  qed
qed auto

lemma copy_down_spec:
  assumes "src \<le> dst" "unat dst + n \<le> 2 ^ 64"
  shows "copy_down m dst src n x = (if unat (x - dst) < n then m (src + (x - dst)) else m x)"
  using assms
proof (induction n arbitrary: m)
  case (Suc n)
  define m1 where "m1 = m(dst + of_nat n := m (src + of_nat n))"
  let ?o = "unat (x - dst)"
  have n: "unat (of_nat n :: u64) = n" using Suc.prems(2) by (simp add: unat_of_nat)
  have "copy_down m dst src (Suc n) x = (if ?o < n then m1 (src + (x - dst)) else m1 x)"
    unfolding copy_down.simps m1_def [symmetric] by (rule Suc.IH) (use Suc.prems in simp_all)
  moreover have "src + (x - dst) \<noteq> dst + of_nat n" if "?o < n"
  proof
    assume "src + (x - dst) = dst + of_nat n"
    moreover have "unat (src + (x - dst)) = unat src + ?o"
      using Suc.prems that by (simp add: unat_word_ariths word_le_nat_alt)
    moreover have "unat (dst + of_nat n) = unat dst + n" using Suc.prems n by (simp add: unat_word_ariths)
    ultimately have "unat src + ?o = unat dst + n" by metis
    then show False using that Suc.prems(1) by (simp add: word_le_nat_alt)
  qed
  moreover have "x = dst + of_nat n \<longleftrightarrow> ?o = n" by (metis add.commute add_diff_cancel diff_add_cancel word_unat_eq_iff n)
  ultimately show ?case by (auto simp: m1_def less_Suc_eq)
qed simp

text \<open>
  \<open>memmove\<close> copies correctly whether or not the two areas overlap: afterwards the destination
  holds what the source held before, and nothing else has changed.
\<close>

theorem memmove_spec:
  assumes "unat src + unat n \<le> 2 ^ 64" "unat dst + unat n \<le> 2 ^ 64"
  shows "memmove m dst src n x = (if x - dst < n then m (src + (x - dst)) else m x)"
proof (cases "dst < src")
  case True
  then show ?thesis using copy_up_spec [of dst src "unat n" 0 m x] assms(1)
    by (simp add: memmove_def word_less_nat_alt)
next
  case False
  then show ?thesis using copy_down_spec [of src dst "unat n" m x] assms(2)
    by (simp add: memmove_def word_less_nat_alt [of "x - dst"])
qed

lemma memmove_spec_witness: "memmove (\<lambda>a. ucast a) 0x1001 0x1000 3 0x1003 = 2"
  using memmove_spec [of "0x1000" 3 "0x1001" "\<lambda>a. ucast a" "0x1003"] by simp

section \<open>Tokens\<close>

lemma is_delim_cstr: "cstr m d ds \<Longrightarrow> c \<noteq> 0 \<Longrightarrow> is_delim m c d = Some (c \<in> set ds)"
proof (induction ds arbitrary: d)
  case Nil
  then show ?case by (subst is_delim.simps) simp
next
  case (Cons x ds)
  then show ?case by (subst is_delim.simps) auto
qed

lemma strtok_skip_cstr:
  "cstr m p s \<Longrightarrow> cstr m dl ds \<Longrightarrow>
     strtok_skip m dl p = Some (p + of_nat (length (takeWhile (\<lambda>c. c \<in> set ds) s))) \<and>
     cstr m (p + of_nat (length (takeWhile (\<lambda>c. c \<in> set ds) s))) (dropWhile (\<lambda>c. c \<in> set ds) s)"
proof (induction s arbitrary: p)
  case Nil
  then show ?case by (subst strtok_skip.simps) simp
next
  case (Cons c s)
  have "is_delim m (m p) dl = Some (c \<in> set ds)" using Cons.prems is_delim_cstr by auto
  then show ?case using Cons.prems Cons.IH [of "p + 1"] by (subst strtok_skip.simps) (auto simp: add.assoc)
qed

lemma strtok_end_cstr:
  assumes "cstr m p s" "cstr m dl ds" "\<And>x. in_str p (length s) x \<Longrightarrow> \<not> in_str dl (length ds) x" "unat p + length s < 2 ^ 64"
  defines "tok \<equiv> takeWhile (\<lambda>c. c \<notin> set ds) s" and "rest \<equiv> dropWhile (\<lambda>c. c \<notin> set ds) s"
  shows "\<exists>saved m'. strtok_end m dl p = Some (saved, m') \<and> cstr m' p tok \<and> cstr m' dl ds \<and>
     (\<forall>x. \<not> in_str p (length s) x \<longrightarrow> m' x = m x) \<and>
     (if rest = [] then saved = NULL \<and> m' = m else saved = p + of_nat (length tok) + 1 \<and> cstr m' saved (tl rest))"
  using assms(1-4) unfolding tok_def rest_def
proof (induction s arbitrary: p)
  case Nil
  then show ?case by (subst strtok_end.simps) simp
next
  case (Cons c s)
  have d: "is_delim m (m p) dl = Some (c \<in> set ds)" using Cons.prems is_delim_cstr by auto
  have len: "unat (p + 1) = unat p + 1" using Cons.prems(4) by (simp add: unat_word_ariths)
  have far: "\<not> in_str (p + 1) (length s) p"
  proof -
    have "p - (p + 1) = - 1" by simp
    then have "unat (p - (p + 1)) = 2 ^ 64 - 1" by (simp add: unsigned_minus_1_eq_mask mask_eq_exp_minus_1)
    then show ?thesis using Cons.prems(4) by (simp add: in_str_def)
  qed
  show ?case
  proof (cases "c \<in> set ds")
    case True
    let ?m = "m(p := 0)"
    have "strtok_end m dl p = Some (p + 1, ?m)" using d True Cons.prems(1) by (subst strtok_end.simps) auto
    moreover have "cstr ?m (p + 1) s" using Cons.prems(1) far by (simp add: cstr_upd)
    moreover have "cstr ?m dl ds" using Cons.prems(2) Cons.prems(3) [of p] by (simp add: cstr_upd in_str_simps)
    ultimately show ?thesis using True by (simp add: in_str_simps)
  next
    case False
    have "strtok_end m dl p = strtok_end m dl (p + 1)" using d False Cons.prems(1) by (subst strtok_end.simps) auto
    moreover obtain saved m' where *: "strtok_end m dl (p + 1) = Some (saved, m')"
      "cstr m' (p + 1) (takeWhile (\<lambda>c. c \<notin> set ds) s)" "cstr m' dl ds"
      "\<forall>x. \<not> in_str (p + 1) (length s) x \<longrightarrow> m' x = m x"
      "if dropWhile (\<lambda>c. c \<notin> set ds) s = [] then saved = NULL \<and> m' = m
       else saved = p + 1 + of_nat (length (takeWhile (\<lambda>c. c \<notin> set ds) s)) + 1 \<and> cstr m' saved (tl (dropWhile (\<lambda>c. c \<notin> set ds) s))"
      using Cons.IH [of "p + 1"] Cons.prems len by (auto simp: in_str_simps)
    moreover have "m' p = m p" using far *(4) by blast
    ultimately show ?thesis using False Cons.prems(1) by (auto simp: add_ac in_str_simps split: if_splits)
  qed
qed

text \<open>The next token of a string, and what follows the delimiter that ends it.\<close>

definition next_token :: "u8 list \<Rightarrow> u8 list \<Rightarrow> (u8 list \<times> u8 list option) option" where
  "next_token ds s =
     (let s' = dropWhile (\<lambda>c. c \<in> set ds) s;
          rest = dropWhile (\<lambda>c. c \<notin> set ds) s'
      in if s' = [] then None
         else Some (takeWhile (\<lambda>c. c \<notin> set ds) s', if rest = [] then None else Some (tl rest)))"

lemma in_str_sub:
  assumes "unat p + n < 2 ^ 64" "k + j \<le> n" "in_str (p + of_nat k) j x"
  shows "in_str p n x"
proof -
  have e: "x - p = (x - (p + of_nat k)) + of_nat k" by simp
  have "unat (a + b) \<le> unat a + unat b" for a b :: u64 by (simp add: unat_word_ariths)
  then have "unat (x - p) \<le> unat (x - (p + of_nat k)) + unat (of_nat k :: u64)" unfolding e by blast
  moreover have "unat (x - (p + of_nat k)) \<le> j" using assms(3) by (simp add: in_str_def)
  moreover have "unat (of_nat k :: u64) = k" using assms(1,2) by (simp add: unat_of_nat)
  ultimately have "unat (x - p) \<le> j + k" by linarith
  then show ?thesis using assms(2) by (simp add: in_str_def)
qed

text \<open>
  C9: \<open>strtok\<close> finds the next token: it returns \<open>NULL\<close> when only delimiters are left, and
  otherwise a pointer to the token, zero terminated in place, with \<open>g_saved\<close> at the rest of the
  string, or \<open>NULL\<close> when the string ended with the token.
\<close>

theorem strtok_spec:
  assumes s: "cstr m p s" "p \<noteq> NULL" "unat p + length s < 2 ^ 64" and ds: "cstr m dl ds"
    and dis: "\<And>x. in_str p (length s) x \<Longrightarrow> \<not> in_str dl (length ds) x"
  shows "\<exists>q saved m'. strtok m g_saved p dl = Some (q, saved, m') \<and> cstr m' dl ds \<and>
     (\<forall>x. \<not> in_str p (length s) x \<longrightarrow> m' x = m x) \<and>
     (case next_token ds s of
        None \<Rightarrow> q = NULL \<and> saved = NULL
      | Some (tok, rest) \<Rightarrow> q \<noteq> NULL \<and> cstr m' q tok \<and>
          (case rest of None \<Rightarrow> saved = NULL | Some r \<Rightarrow> saved \<noteq> NULL \<and> cstr m' saved r))"
proof -
  define k where "k = length (takeWhile (\<lambda>c. c \<in> set ds) s)"
  define s' where "s' = dropWhile (\<lambda>c. c \<in> set ds) s"
  define q where "q = p + of_nat k"
  have skip: "strtok_skip m dl p = Some q" "cstr m q s'"
    using strtok_skip_cstr [OF s(1) ds] by (simp_all add: q_def k_def s'_def)
  have len: "k + length s' = length s" unfolding k_def s'_def by (metis length_append takeWhile_dropWhile_id)
  have uq: "unat q = unat p + k" using len s(3) by (simp add: q_def unat_word_ariths unat_of_nat)
  have qn: "q \<noteq> NULL" using uq s(2) by (metis add_is_0 unat_0 word_unat_eq_iff)
  have sub: "in_str p (length s) x" if "in_str q (length s') x" for x
    using in_str_sub [OF s(3), of k "length s'" x] that len by (simp add: q_def)
  show ?thesis
  proof (cases s')
    case Nil
    then have "m q = 0" using skip(2) by simp
    then show ?thesis using skip s(2) ds Nil
      by (simp add: strtok_def Let_def next_token_def s'_def)
  next
    case (Cons c cs)
    then have "m q \<noteq> 0" using skip(2) by auto
    moreover have dis': "\<And>x. in_str q (length s') x \<Longrightarrow> \<not> in_str dl (length ds) x" and lim: "unat q + length s' < 2 ^ 64"
      using sub dis uq len s(3) by (blast, simp)
    obtain saved m' where e: "strtok_end m dl q = Some (saved, m')" "cstr m' q (takeWhile (\<lambda>c. c \<notin> set ds) s')" "cstr m' dl ds"
      "\<forall>x. \<not> in_str q (length s') x \<longrightarrow> m' x = m x"
      "if dropWhile (\<lambda>c. c \<notin> set ds) s' = [] then saved = NULL \<and> m' = m
       else saved = q + of_nat (length (takeWhile (\<lambda>c. c \<notin> set ds) s')) + 1 \<and> cstr m' saved (tl (dropWhile (\<lambda>c. c \<notin> set ds) s'))"
      using strtok_end_cstr [OF skip(2) ds dis' lim] by blast
    moreover have sn: "saved \<noteq> NULL" if ne: "dropWhile (\<lambda>c. c \<notin> set ds) s' \<noteq> []"
    proof -
      define t where "t = length (takeWhile (\<lambda>c. c \<notin> set ds) s')"
      have "t + length (dropWhile (\<lambda>c. c \<notin> set ds) s') = length s'" unfolding t_def by (metis length_append takeWhile_dropWhile_id)
      then have "t + 1 \<le> length s'" using ne by (cases "dropWhile (\<lambda>c. c \<notin> set ds) s'") auto
      then have "unat (q + of_nat t + 1) = unat q + t + 1" using lim by (simp add: unat_word_ariths unat_of_nat)
      then show ?thesis using e(5) ne unfolding t_def by (metis Suc_eq_plus1 nat.distinct(1) unat_0)
    qed
    ultimately have r: "strtok m g_saved p dl = Some (q, saved, m')"
      using skip(1) s(2) by (simp add: strtok_def Let_def)
    have fr: "\<forall>x. \<not> in_str p (length s) x \<longrightarrow> m' x = m x" using e(4) sub by blast
    have nt: "next_token ds s = Some (takeWhile (\<lambda>c. c \<notin> set ds) s',
        if dropWhile (\<lambda>c. c \<notin> set ds) s' = [] then None else Some (tl (dropWhile (\<lambda>c. c \<notin> set ds) s')))"
      using Cons by (simp add: next_token_def Let_def s'_def [symmetric])
    show ?thesis
      by (rule exI [of _ q], rule exI [of _ saved], rule exI [of _ m'])
        (use r fr e(2,3,5) sn qn nt in \<open>auto split: if_splits\<close>)
  qed
qed

text \<open>The string \<open>a/b\<close> at 0x1000 and the delimiter string \<open>/\<close> at 0x2000.\<close>

definition path_mem :: mem where
  "path_mem = (\<lambda>_. 0)(0x1000 := 0x61, 0x1001 := 0x2F, 0x1002 := 0x62, 0x2000 := 0x2F)"

lemma strtok_spec_witness:
  "\<exists>q saved m'. strtok path_mem NULL 0x1000 0x2000 = Some (q, saved, m') \<and> cstr m' q [0x61] \<and> cstr m' saved [0x62]"
proof -
  have s: "cstr path_mem 0x1000 [0x61, 0x2F, 0x62]" "cstr path_mem 0x2000 [0x2F]" by (simp_all add: path_mem_def)
  have d: "\<not> in_str 0x2000 (length [0x2F :: u8]) x" if "in_str 0x1000 (length [0x61, 0x2F, 0x62 :: u8]) x" for x
    using that by (auto simp: in_str_simps)
  from strtok_spec [OF s(1) _ _ s(2) d, of NULL] show ?thesis by (auto simp: next_token_def)
qed

end
