(* ===== verification/Vfs.thy ===== *)
theory Vfs
  imports Heap CString "HOL-Library.Monad_Syntax"
begin

text \<open>
  The virtual file system of \<^verbatim>\<open>fs/vfs.c\<close>. Nodes and open files are stores from addresses. A path is
  the list of its bytes; the string functions act on such lists the way \<open>CString\<close> shows them to act on
  zero terminated memory (\<open>strcmp\<close> is equality, \<open>strncmp\<close> a prefix test, \<open>strtok\<close> the tokens). The
  buffers of 256 bytes are taken to be large enough: every caller in the kernel cuts paths at 255 bytes. The
  function pointers of a mounted file system are the argument \<open>drv\<close>, a record of operations for every
  file system address; \<open>'d\<close> is the state of the drivers. Results are \<open>None\<close> when a loop over a list does not end.
\<close>

section \<open>State\<close>

definition VFS_FILE :: u8 where "VFS_FILE = 1"
definition VFS_DIR :: u8 where "VFS_DIR = 2"
definition VFS_MAX_MOUNTS :: nat where "VFS_MAX_MOUNTS = 16"
definition SLASH :: u8 where "SLASH = 0x2F"

type_synonym cstring = "u8 list"

record vfs_node =
  nname :: cstring
  nsize :: u32
  nflags :: u8
  nfs :: u64
  nfs_data :: u64
  nparent :: u64
  nchildren :: u64
  nnext :: u64

record file_t =
  fnode :: u64
  foffset :: u64

record 'd vfs =
  nodes :: "u64 \<Rightarrow> vfs_node"
  files :: "u64 \<Rightarrow> file_t"
  vheap :: heap
  fs_root :: "u64 \<Rightarrow> u64"
  g_mounts :: "(cstring \<times> u64) list"
  drive :: 'd

record 'd fs_ops =
  op_read :: "('d vfs \<Rightarrow> u64 \<Rightarrow> u64 \<Rightarrow> u64 \<Rightarrow> (int \<times> u8 list \<times> 'd vfs) option) option"
  op_write :: "('d vfs \<Rightarrow> u64 \<Rightarrow> u64 \<Rightarrow> u8 list \<Rightarrow> (int \<times> 'd vfs) option) option"
  op_readdir :: "('d vfs \<Rightarrow> u64 \<Rightarrow> (int \<times> 'd vfs) option) option"
  op_create :: "('d vfs \<Rightarrow> u64 \<Rightarrow> cstring \<Rightarrow> u8 \<Rightarrow> (u64 \<times> 'd vfs) option) option"
  op_unlink :: "('d vfs \<Rightarrow> u64 \<Rightarrow> cstring \<Rightarrow> (int \<times> 'd vfs) option) option"

type_synonym 'd drivers = "u64 \<Rightarrow> 'd fs_ops"

definition is_dir :: "vfs_node \<Rightarrow> bool" where "is_dir n \<longleftrightarrow> nflags n AND VFS_DIR \<noteq> 0"
definition is_file :: "vfs_node \<Rightarrow> bool" where "is_file n \<longleftrightarrow> nflags n AND VFS_FILE \<noteq> 0"

section \<open>Mounts and paths\<close>

definition vfs_init :: "'d vfs \<Rightarrow> 'd vfs" where
  "vfs_init s = s\<lparr>g_mounts := []\<rparr>"

definition vfs_mount :: "'d vfs \<Rightarrow> cstring \<Rightarrow> u64 \<Rightarrow> int \<times> 'd vfs" where
  "vfs_mount s path fs =
     (if \<exists>(p, f) \<in> set (g_mounts s). p = path then (-1, s)
      else if length (g_mounts s) \<ge> VFS_MAX_MOUNTS then (-1, s)
      else (0, s\<lparr>g_mounts := g_mounts s @ [(path, fs)]\<rparr>))"

text \<open>The loop that looks for the longest mount path that begins the full path: index and length of the best so far.\<close>

fun best_mount :: "(cstring \<times> u64) list \<Rightarrow> cstring \<Rightarrow> nat \<Rightarrow> (nat \<times> nat) option \<Rightarrow> (nat \<times> nat) option" where
  "best_mount [] full i best = best"
| "best_mount ((p, f) # ms) full i best =
     best_mount ms full (Suc i)
       (if take (length p) full = p \<and> length p > (case best of None \<Rightarrow> 0 | Some (_, l) \<Rightarrow> l)
        then Some (i, length p) else best)"

text \<open>Index of the mount and the rest of the path, or \<open>None\<close> for -1.\<close>

definition vfs_split_path :: "(cstring \<times> u64) list \<Rightarrow> cstring \<Rightarrow> (nat \<times> cstring) option" where
  "vfs_split_path ms full =
     (if full = [] \<or> hd full \<noteq> SLASH then None
      else case best_mount ms full 0 None of
        None \<Rightarrow> None
      | Some (best, best_len) \<Rightarrow>
          Some (best,
            if best_len < length full \<and> full ! best_len = SLASH then drop (best_len + 1) full
            else if best_len = length full then []
            else drop best_len full))"

text \<open>The loop of \<open>vfs_split_parent\<close> that looks for the last slash.\<close>

fun last_slash :: "cstring \<Rightarrow> nat \<Rightarrow> nat" where
  "last_slash path 0 = 0"
| "last_slash path (Suc i) = (if path ! i \<noteq> SLASH then last_slash path i else Suc i)"

definition vfs_split_parent :: "cstring \<Rightarrow> (cstring \<times> cstring) option" where
  "vfs_split_parent path =
     (let len = length path; slash = last_slash path len
      in if len = 0 then None
      else if slash = len then None
      else Some (if slash = 0 then [] else take (min (slash - 1) 255) path, drop slash path))"

lemma next_token_shorter:
  assumes "next_token ds s = Some (tok, Some rest)"
  shows "length rest < length s"
proof -
  define s' where "s' = dropWhile (\<lambda>c. c \<in> set ds) s"
  define r where "r = dropWhile (\<lambda>c. c \<notin> set ds) s'"
  have "s' \<noteq> []" "r \<noteq> []" "rest = tl r"
    using assms by (auto simp: next_token_def Let_def s'_def [symmetric] r_def [symmetric] split: if_splits)
  then have "length rest < length r" by simp
  also have "length r \<le> length s'" unfolding r_def by (rule length_dropWhile_le)
  also have "length s' \<le> length s" unfolding s'_def by (rule length_dropWhile_le)
  finally show ?thesis .
qed

text \<open>The parts of a path, as the calls of \<open>strtok(\<dots>, "/")\<close> give them.\<close>

function tokens :: "cstring \<Rightarrow> cstring \<Rightarrow> cstring list" where
  "tokens ds s =
     (case next_token ds s of
        None \<Rightarrow> []
      | Some (tok, None) \<Rightarrow> [tok]
      | Some (tok, Some rest) \<Rightarrow> tok # tokens ds rest)"
  by pat_completeness auto
termination
  by (relation "measure (\<lambda>(ds, s). length s)") (auto intro: next_token_shorter)

declare tokens.simps [simp del]

section \<open>Looking up nodes\<close>

partial_function (option) find_child :: "(u64 \<Rightarrow> vfs_node) \<Rightarrow> cstring \<Rightarrow> u64 \<Rightarrow> u64 option" where
  "find_child ns name child =
     (if child = NULL then Some NULL
      else if nname (ns child) = name then Some child
      else find_child ns name (nnext (ns child)))"

text \<open>\<open>if (!node->children && fs->readdir) fs->readdir(node, NULL, NULL);\<close>\<close>

definition load_children :: "'d drivers \<Rightarrow> 'd vfs \<Rightarrow> u64 \<Rightarrow> u64 \<Rightarrow> 'd vfs option" where
  "load_children drv s fs node =
     (if nchildren (nodes s node) = NULL
      then (case op_readdir (drv fs) of None \<Rightarrow> Some s | Some rd \<Rightarrow> map_option snd (rd s node))
      else Some s)"

fun resolve_parts :: "'d drivers \<Rightarrow> 'd vfs \<Rightarrow> u64 \<Rightarrow> u64 \<Rightarrow> cstring list \<Rightarrow> (u64 \<times> 'd vfs) option" where
  "resolve_parts drv s fs cur [] = Some (cur, s)"
| "resolve_parts drv s fs cur (part # parts) =
     (if cur = NULL \<or> \<not> is_dir (nodes s cur) then Some (NULL, s)
      else do {
        s1 \<leftarrow> load_children drv s fs cur;
        child \<leftarrow> find_child (nodes s1) part (nchildren (nodes s1 cur));
        if child = NULL then Some (NULL, s1) else resolve_parts drv s1 fs child parts
      })"

definition vfs_resolve :: "'d drivers \<Rightarrow> 'd vfs \<Rightarrow> u64 \<Rightarrow> cstring \<Rightarrow> (u64 \<times> 'd vfs) option" where
  "vfs_resolve drv s fs path =
     (if path = [] then Some (fs_root s fs, s)
      else resolve_parts drv s fs (fs_root s fs) (tokens [SLASH] path))"

section \<open>Operations\<close>

text \<open>\<open>f = kmalloc(sizeof(file_t)); if (!f) return NULL; f->node = node; f->offset = 0; return f;\<close>\<close>

definition new_file :: "'d vfs \<Rightarrow> u64 \<Rightarrow> (u64 \<times> 'd vfs) option" where
  "new_file s node = do {
     (f, h) \<leftarrow> kmalloc (vheap s) 16;
     let s1 = s\<lparr>vheap := h\<rparr>;
     if f = NULL then Some (NULL, s1)
     else Some (f, s1\<lparr>files := (files s1)(f := \<lparr>fnode = node, foffset = 0\<rparr>)\<rparr>)
   }"

definition vfs_open :: "'d drivers \<Rightarrow> 'd vfs \<Rightarrow> cstring \<Rightarrow> (u64 \<times> 'd vfs) option" where
  "vfs_open drv s path =
     (case vfs_split_path (g_mounts s) path of
        None \<Rightarrow> Some (NULL, s)
      | Some (mnt, rest) \<Rightarrow> do {
          let fs = snd (g_mounts s ! mnt);
          (node, s1) \<leftarrow> vfs_resolve drv s fs rest;
          if node = NULL \<or> \<not> is_file (nodes s1 node) then Some (NULL, s1) else new_file s1 node
        })"

text \<open>The part of \<open>vfs_create\<close>, \<open>vfs_mkdir\<close> that finds the parent directory and creates the entry in it.\<close>

definition create_in_parent :: "'d drivers \<Rightarrow> 'd vfs \<Rightarrow> u64 \<Rightarrow> cstring \<Rightarrow> u8 \<Rightarrow> (u64 \<times> 'd vfs) option" where
  "create_in_parent drv s fs rest flags =
     (case vfs_split_parent rest of
        None \<Rightarrow> Some (NULL, s)
      | Some (parent_path, name) \<Rightarrow> do {
          (parent, s1) \<leftarrow> vfs_resolve drv s fs parent_path;
          if parent = NULL \<or> \<not> is_dir (nodes s1 parent) then Some (NULL, s1)
          else do {
            s2 \<leftarrow> load_children drv s1 fs parent;
            (case op_create (drv fs) of None \<Rightarrow> Some (NULL, s2) | Some cr \<Rightarrow> cr s2 parent name flags)
          }
        })"

definition vfs_create :: "'d drivers \<Rightarrow> 'd vfs \<Rightarrow> cstring \<Rightarrow> (u64 \<times> 'd vfs) option" where
  "vfs_create drv s path =
     (case vfs_split_path (g_mounts s) path of
        None \<Rightarrow> Some (NULL, s)
      | Some (mnt, rest) \<Rightarrow>
          let fs = snd (g_mounts s ! mnt)
          in if op_create (drv fs) = None then Some (NULL, s)
          else do {
            (existing, s1) \<leftarrow> vfs_resolve drv s fs rest;
            if existing \<noteq> NULL \<and> is_file (nodes s1 existing)
            then new_file (s1\<lparr>nodes := (nodes s1)(existing := (nodes s1 existing)\<lparr>nsize := 0\<rparr>)\<rparr>) existing
            else do {
              (node, s2) \<leftarrow> create_in_parent drv s1 fs rest VFS_FILE;
              if node = NULL then Some (NULL, s2) else new_file s2 node
            }
          })"

definition vfs_mkdir :: "'d drivers \<Rightarrow> 'd vfs \<Rightarrow> cstring \<Rightarrow> (int \<times> 'd vfs) option" where
  "vfs_mkdir drv s path =
     (case vfs_split_path (g_mounts s) path of
        None \<Rightarrow> Some (-1, s)
      | Some (mnt, rest) \<Rightarrow>
          let fs = snd (g_mounts s ! mnt)
          in if op_create (drv fs) = None then Some (-1, s)
          else do {
            (node, s1) \<leftarrow> vfs_resolve drv s fs rest;
            if node \<noteq> NULL then Some (-1, s1)
            else do {
              (new, s2) \<leftarrow> create_in_parent drv s1 fs rest VFS_DIR;
              Some (if new \<noteq> NULL then 0 else -1, s2)
            }
          })"

text \<open>Reading and writing; the bytes are returned and passed as lists. A byte count is an \<open>int\<close> of 32 bits.\<close>

definition vfs_read :: "'d drivers \<Rightarrow> 'd vfs \<Rightarrow> u64 \<Rightarrow> u64 \<Rightarrow> (int \<times> u8 list \<times> 'd vfs) option" where
  "vfs_read drv s f sz =
     (if f = NULL then Some (-1, [], s)
      else let node = fnode (files s f) in
      if node = NULL \<or> nfs (nodes s node) = NULL then Some (-1, [], s)
      else case op_read (drv (nfs (nodes s node))) of
        None \<Rightarrow> Some (-1, [], s)
      | Some rd \<Rightarrow> do {
          let off = foffset (files s f);
          let remain = ucast (nsize (nodes s node)) - off;
          let sz' = (if sz > remain then remain else sz);
          (ret, out, s1) \<leftarrow> rd s node off sz';
          let ret' = (if ret > 0 \<and> uint sz' < ret then sint (ucast sz' :: u32) else ret);
          Some (ret', out,
            if ret > 0 then s1\<lparr>files := (files s1)(f := (files s1 f)\<lparr>foffset := foffset (files s1 f) + of_int ret'\<rparr>)\<rparr> else s1)
        })"

definition vfs_write :: "'d drivers \<Rightarrow> 'd vfs \<Rightarrow> u64 \<Rightarrow> u8 list \<Rightarrow> (int \<times> 'd vfs) option" where
  "vfs_write drv s f data =
     (if f = NULL then Some (-1, s)
      else let node = fnode (files s f) in
      if node = NULL \<or> nfs (nodes s node) = NULL then Some (-1, s)
      else case op_write (drv (nfs (nodes s node))) of
        None \<Rightarrow> Some (-1, s)
      | Some wr \<Rightarrow> do {
          (ret, s1) \<leftarrow> wr s node (foffset (files s f)) data;
          Some (ret,
            if ret > 0 then s1\<lparr>files := (files s1)(f := (files s1 f)\<lparr>foffset := foffset (files s1 f) + of_int ret\<rparr>)\<rparr> else s1)
        })"

text \<open>The search of \<open>vfs_unlink\<close>, which keeps the predecessor of the child.\<close>

partial_function (option) find_child_prev :: "(u64 \<Rightarrow> vfs_node) \<Rightarrow> cstring \<Rightarrow> u64 \<Rightarrow> u64 \<Rightarrow> (u64 \<times> u64) option" where
  "find_child_prev ns name prev child =
     (if child = NULL then Some (prev, NULL)
      else if nname (ns child) = name then Some (prev, child)
      else find_child_prev ns name child (nnext (ns child)))"

definition vfs_unlink :: "'d drivers \<Rightarrow> 'd vfs \<Rightarrow> cstring \<Rightarrow> (int \<times> 'd vfs) option" where
  "vfs_unlink drv s path =
     (case vfs_split_path (g_mounts s) path of
        None \<Rightarrow> Some (-1, s)
      | Some (mnt, rest) \<Rightarrow>
          let fs = snd (g_mounts s ! mnt)
          in case op_unlink (drv fs) of
            None \<Rightarrow> Some (-1, s)
          | Some unl \<Rightarrow>
              (case vfs_split_parent rest of
                 None \<Rightarrow> Some (-1, s)
               | Some (parent_path, name) \<Rightarrow> do {
                   (parent, s1) \<leftarrow> vfs_resolve drv s fs parent_path;
                   if parent = NULL \<or> \<not> is_dir (nodes s1 parent) then Some (-1, s1)
                   else do {
                     s2 \<leftarrow> load_children drv s1 fs parent;
                     (prev, child) \<leftarrow> find_child_prev (nodes s2) name NULL (nchildren (nodes s2 parent));
                     (ret, s3) \<leftarrow> unl s2 parent name;
                     if child = NULL \<or> ret < 0 then Some (ret, s3)
                     else Some (0, s3\<lparr>nodes := (if prev \<noteq> NULL
                            then (nodes s3)(prev := (nodes s3 prev)\<lparr>nnext := nnext (nodes s3 child)\<rparr>)
                            else (nodes s3)(parent := (nodes s3 parent)\<lparr>nchildren := nnext (nodes s3 child)\<rparr>))\<rparr>)
                   }
                 }))"

definition vfs_stat :: "'d drivers \<Rightarrow> 'd vfs \<Rightarrow> cstring \<Rightarrow> ((u32 \<times> u8) option \<times> 'd vfs) option" where
  "vfs_stat drv s path =
     (case vfs_split_path (g_mounts s) path of
        None \<Rightarrow> Some (None, s)
      | Some (mnt, rest) \<Rightarrow> do {
          (node, s1) \<leftarrow> vfs_resolve drv s (snd (g_mounts s ! mnt)) rest;
          Some (if node = NULL then None else Some (nsize (nodes s1 node), nflags (nodes s1 node)), s1)
        })"

text \<open>The entries the callback of \<open>vfs_readdir\<close> is called with, in order.\<close>

partial_function (option) list_children :: "(u64 \<Rightarrow> vfs_node) \<Rightarrow> u64 \<Rightarrow> (cstring \<times> u32 \<times> u8) list option" where
  "list_children ns child =
     (if child = NULL then Some []
      else do {
        rest \<leftarrow> list_children ns (nnext (ns child));
        Some ((nname (ns child), nsize (ns child), nflags (ns child)) # rest)
      })"

definition vfs_readdir :: "'d drivers \<Rightarrow> 'd vfs \<Rightarrow> cstring \<Rightarrow> ((cstring \<times> u32 \<times> u8) list option \<times> 'd vfs) option" where
  "vfs_readdir drv s path =
     (case vfs_split_path (g_mounts s) path of
        None \<Rightarrow> Some (None, s)
      | Some (mnt, rest) \<Rightarrow> do {
          let fs = snd (g_mounts s ! mnt);
          (node, s1) \<leftarrow> vfs_resolve drv s fs rest;
          if node = NULL \<or> \<not> is_dir (nodes s1 node) then Some (None, s1)
          else do {
            s2 \<leftarrow> load_children drv s1 fs node;
            entries \<leftarrow> list_children (nodes s2) (nchildren (nodes s2 node));
            Some (Some entries, s2)
          }
        })"

section \<open>Properties of paths\<close>

definition mount_prefix :: "(cstring \<times> u64) list \<Rightarrow> cstring \<Rightarrow> nat \<Rightarrow> bool" where
  "mount_prefix ms full i \<longleftrightarrow> i < length ms \<and> fst (ms ! i) \<noteq> [] \<and> take (length (fst (ms ! i))) full = fst (ms ! i)"

lemma best_mount_spec:
  assumes "best_mount ms full i best = r"
  defines "b \<equiv> (case best of None \<Rightarrow> 0 | Some (_, l) \<Rightarrow> l)"
  shows "(r = best \<and> (\<forall>j. mount_prefix ms full j \<longrightarrow> length (fst (ms ! j)) \<le> b)) \<or>
    (\<exists>j. r = Some (i + j, length (fst (ms ! j))) \<and> mount_prefix ms full j \<and> b < length (fst (ms ! j)) \<and>
       (\<forall>k. mount_prefix ms full k \<longrightarrow> length (fst (ms ! k)) \<le> length (fst (ms ! j))))"
  using assms(1) unfolding b_def
proof (induction ms arbitrary: i best)
  case Nil
  then show ?case by (simp add: mount_prefix_def)
next
  case (Cons m ms)
  obtain p f where m: "m = (p, f)" by fastforce
  let ?b = "case best of None \<Rightarrow> 0 | Some (_, l) \<Rightarrow> l"
  define best' where "best' = (if take (length p) full = p \<and> length p > ?b then Some (i, length p) else best)"
  let ?b' = "case best' of None \<Rightarrow> 0 | Some (_, l) \<Rightarrow> l"
  have r: "best_mount ms full (Suc i) best' = r" using Cons.prems by (simp add: m best'_def)
  have mp: "mount_prefix (m # ms) full k \<longleftrightarrow>
      (case k of 0 \<Rightarrow> p \<noteq> [] \<and> take (length p) full = p | Suc k' \<Rightarrow> mount_prefix ms full k')" for k
    by (auto simp: mount_prefix_def m split: nat.split)
  from Cons.IH [OF r] show ?case
  proof (elim disjE exE conjE, goal_cases)
    case 1
    show ?thesis
    proof (cases "take (length p) full = p \<and> length p > ?b")
      case True
      then have b': "best' = Some (i, length p)" by (simp add: best'_def)
      have "length (fst ((m # ms) ! k)) \<le> length p" if "mount_prefix (m # ms) full k" for k
        using that 1(2) unfolding mp by (cases k) (auto simp: m b')
      moreover have "mount_prefix (m # ms) full 0" unfolding mp using True by auto
      ultimately show ?thesis using 1(1) b' True by (intro disjI2 exI [of _ 0]) (auto simp: m)
    next
      case False
      then have b': "best' = best" unfolding best'_def by (rule if_not_P)
      have "length (fst ((m # ms) ! k)) \<le> ?b" if "mount_prefix (m # ms) full k" for k
        using that 1(2) False unfolding mp by (cases k) (auto simp: m b')
      then show ?thesis using 1(1) b' by blast
    qed
  next
    case (2 j)
    have bb: "?b \<le> ?b'" by (auto simp: best'_def)
    have "length (fst ((m # ms) ! k)) \<le> length (fst (ms ! j))" if "mount_prefix (m # ms) full k" for k
    proof (cases k)
      case 0
      then show ?thesis using that 2(3) bb unfolding mp by (auto simp: m best'_def split: if_splits)
    next
      case (Suc k')
      then show ?thesis using that 2(4) unfolding mp by simp
    qed
    moreover have "mount_prefix (m # ms) full (Suc j)" unfolding mp using 2(2) by simp
    ultimately show ?thesis using 2(1-3) bb by (intro disjI2 exI [of _ "Suc j"]) auto
  qed
qed

text \<open>
  For an absolute path, \<open>vfs_split_path\<close> chooses a mount whose path begins it, no other such
  mount is longer, and the rest is what follows, without the slash that separates them; it fails exactly
  when no mount path begins it.
\<close>

theorem vfs_split_path_spec:
  assumes abs: "full \<noteq> []" "hd full = SLASH"
  shows "case vfs_split_path ms full of
     None \<Rightarrow> (\<forall>j. \<not> mount_prefix ms full j)
   | Some (i, rest) \<Rightarrow> mount_prefix ms full i \<and>
       (\<forall>j. mount_prefix ms full j \<longrightarrow> length (fst (ms ! j)) \<le> length (fst (ms ! i))) \<and>
       (full = fst (ms ! i) @ SLASH # rest \<or>
        full = fst (ms ! i) @ rest \<and> (rest = [] \<or> hd rest \<noteq> SLASH))"
proof (cases "best_mount ms full 0 None")
  case None
  then have "\<forall>j. \<not> mount_prefix ms full j"
    using best_mount_spec [OF None] unfolding mount_prefix_def by auto
  then show ?thesis using None abs by (simp add: vfs_split_path_def)
next
  case (Some r)
  then obtain i where i: "r = (i, length (fst (ms ! i)))" "mount_prefix ms full i"
      "\<forall>k. mount_prefix ms full k \<longrightarrow> length (fst (ms ! k)) \<le> length (fst (ms ! i))"
    using best_mount_spec [OF Some] by auto
  define p where "p = fst (ms ! i)"
  have pre: "full = p @ drop (length p) full" using i(2) unfolding mount_prefix_def p_def by (metis append_take_drop_id)
  have split: "vfs_split_path ms full = Some (i,
      if length p < length full \<and> full ! length p = SLASH then drop (length p + 1) full
      else if length p = length full then [] else drop (length p) full)"
    using Some i(1) abs by (simp add: vfs_split_path_def p_def)
  have "case vfs_split_path ms full of None \<Rightarrow> False
     | Some (j, rest) \<Rightarrow> j = i \<and> (full = p @ SLASH # rest \<or> full = p @ rest \<and> (rest = [] \<or> hd rest \<noteq> SLASH))"
  proof (cases "drop (length p) full")
    case Nil
    then have "p = full" using pre by simp
    then show ?thesis unfolding split by simp
  next
    case (Cons c cs)
    then have "full = p @ c # cs" using pre by simp
    then show ?thesis unfolding split by simp
  qed
  then show ?thesis using i(2,3) unfolding p_def by (simp split: option.splits prod.splits)
qed

text \<open>The paths \<open>/mnt\<close> and \<open>/mntx\<close>.\<close>

definition mnt_path :: cstring where "mnt_path = [SLASH, 0x6D, 0x6E, 0x74]"

lemma vfs_split_path_spec_witness:
  "case vfs_split_path [([SLASH], 1), (mnt_path, 2)] (mnt_path @ [SLASH, 0x61]) of
     None \<Rightarrow> False | Some (i, rest) \<Rightarrow> mount_prefix [([SLASH], 1), (mnt_path, 2)] (mnt_path @ [SLASH, 0x61]) i \<and> rest = [0x61]"
  using vfs_split_path_spec [of "mnt_path @ [SLASH, 0x61]" "[([SLASH], 1), (mnt_path, 2)]"]
  by (simp add: vfs_split_path_def mnt_path_def SLASH_def)

text \<open>
  A mount path is matched without regard to the end of a path component: a path that goes on with
  any other byte after the mount path is still taken into that mount, with the remaining bytes as the
  path in it, so \<open>/mntx\<close> is looked up as \<open>x\<close> in the file system at \<open>/mnt\<close>.
\<close>

theorem vfs_split_path_no_boundary:
  assumes "p \<noteq> []" "hd p = SLASH" "c \<noteq> SLASH"
  shows "vfs_split_path [(p, fs)] (p @ c # cs) = Some (0, c # cs)"
proof -
  have "hd (p @ c # cs) = SLASH" using assms by simp
  then show ?thesis using assms by (simp add: vfs_split_path_def nth_append)
qed

lemma vfs_split_path_no_boundary_witness: "vfs_split_path [(mnt_path, 2)] (mnt_path @ [0x78]) = Some (0, [0x78])"
  using vfs_split_path_no_boundary [of mnt_path "0x78" 2 "[]"] by (simp add: mnt_path_def SLASH_def)

lemma last_slash_spec:
  "i \<le> length s \<Longrightarrow> last_slash s i \<le> i \<and> (\<forall>k. last_slash s i \<le> k \<and> k < i \<longrightarrow> s ! k \<noteq> SLASH) \<and>
     (last_slash s i \<noteq> 0 \<longrightarrow> s ! (last_slash s i - 1) = SLASH)"
proof (induction i)
  case (Suc i)
  show ?case
  proof (cases "s ! i = SLASH")
    case False
    have "s ! k \<noteq> SLASH" if "last_slash s i \<le> k" "k < Suc i" for k
      using that Suc False by (cases "k = i") auto
    then show ?thesis using Suc False by auto
  qed auto
qed simp

text \<open>
  \<open>vfs_split_parent\<close> splits a path of at most 256 bytes at its last slash: putting the two parts
  together gives the path back, and the name is a single non-empty component; it fails exactly
  on the empty path and on paths that end in a slash.
\<close>

theorem vfs_split_parent_spec:
  assumes "length pth \<le> 256"
  shows "case vfs_split_parent pth of
     None \<Rightarrow> pth = [] \<or> last pth = SLASH
   | Some (parent, name) \<Rightarrow> name \<noteq> [] \<and> SLASH \<notin> set name \<and>
       (pth = parent @ SLASH # name \<or> parent = [] \<and> pth = name)"
proof -
  define k where "k = last_slash pth (length pth)"
  have k: "k \<le> length pth" "\<forall>j. k \<le> j \<and> j < length pth \<longrightarrow> pth ! j \<noteq> SLASH" "k \<noteq> 0 \<longrightarrow> pth ! (k - 1) = SLASH"
    using last_slash_spec [of "length pth" pth] by (auto simp: k_def)
  have ns: "SLASH \<notin> set (drop k pth)" using k(1,2) by (auto simp: in_set_conv_nth)
  consider "pth = []" | "pth \<noteq> []" "k = length pth" | "k < length pth" "k = 0" | "k < length pth" "k \<noteq> 0"
    using k(1) by fastforce
  then show ?thesis
  proof cases
    case 2
    then show ?thesis using k(3) by (simp add: vfs_split_parent_def Let_def k_def [symmetric] last_conv_nth)
  next
    case 3
    then show ?thesis using ns by (simp add: vfs_split_parent_def Let_def k_def [symmetric])
  next
    case 4
    then have "pth = take (k - 1) pth @ pth ! (k - 1) # drop k pth"
      by (metis Suc_diff_1 id_take_nth_drop less_imp_diff_less not_gr_zero)
    moreover have "min (k - 1) 255 = k - 1" using assms 4 by simp
    ultimately show ?thesis using 4 k(3) ns by (auto simp: vfs_split_parent_def Let_def k_def [symmetric])
  qed (simp add: vfs_split_parent_def)
qed

lemma vfs_split_parent_spec_witness:
  "case vfs_split_parent [0x61, SLASH, 0x62] of None \<Rightarrow> False | Some (parent, name) \<Rightarrow> parent = [0x61] \<and> name = [0x62]"
  using vfs_split_parent_spec [of "[0x61, SLASH, 0x62]"]
  by (simp add: vfs_split_parent_def SLASH_def Let_def)

section \<open>The directory tree\<close>

text \<open>
  The tree a file system shows its clients: a file or a directory at an address, the entries of a directory
  in the order of its list of children. Looking a path up in it is the specification of \<open>vfs_resolve\<close>.
\<close>

datatype fstree = TFile u64 | TDir u64 "(cstring \<times> fstree) list"

fun tree_lookup :: "cstring list \<Rightarrow> fstree \<Rightarrow> u64" where
  "tree_lookup [] (TFile a) = a"
| "tree_lookup [] (TDir a ts) = a"
| "tree_lookup (part # parts) (TFile a) = NULL"
| "tree_lookup (part # parts) (TDir a ts) = (case map_of ts part of None \<Rightarrow> NULL | Some t \<Rightarrow> tree_lookup parts t)"

inductive tree_at :: "(u64 \<Rightarrow> vfs_node) \<Rightarrow> u64 \<Rightarrow> fstree \<Rightarrow> bool"
  and children_at :: "(u64 \<Rightarrow> vfs_node) \<Rightarrow> u64 \<Rightarrow> (cstring \<times> fstree) list \<Rightarrow> bool"
  for ns :: "u64 \<Rightarrow> vfs_node" where
  at_file: "a \<noteq> NULL \<Longrightarrow> \<not> is_dir (ns a) \<Longrightarrow> tree_at ns a (TFile a)"
| at_dir: "a \<noteq> NULL \<Longrightarrow> is_dir (ns a) \<Longrightarrow> children_at ns (nchildren (ns a)) ts \<Longrightarrow> tree_at ns a (TDir a ts)"
| at_none: "children_at ns NULL []"
| at_child: "c \<noteq> NULL \<Longrightarrow> tree_at ns c t \<Longrightarrow> children_at ns (nnext (ns c)) ts \<Longrightarrow>
    children_at ns c ((nname (ns c), t) # ts)"

inductive_simps tree_at_simps: "tree_at ns a (TFile b)" "tree_at ns a (TDir b ts)"
inductive_simps children_at_simps: "children_at ns a []" "children_at ns a (e # ts)"

lemma find_child_children:
  "children_at ns c ts \<Longrightarrow>
    (case map_of ts name of
       None \<Rightarrow> find_child ns name c = Some NULL
     | Some t \<Rightarrow> \<exists>d. find_child ns name c = Some d \<and> d \<noteq> NULL \<and> tree_at ns d t)"
proof (induction ts arbitrary: c)
  case Nil
  then show ?case by (simp add: children_at_simps find_child.simps)
next
  case (Cons e ts)
  then have c: "c \<noteq> NULL" "fst e = nname (ns c)" "tree_at ns c (snd e)" "children_at ns (nnext (ns c)) ts"
    by (auto simp: children_at_simps)
  have step: "find_child ns name c = (if fst e = name then Some c else find_child ns name (nnext (ns c)))"
    using c(1,2) by (subst find_child.simps) simp
  show ?case
  proof (cases "fst e = name")
    case True
    then show ?thesis using step c by (cases e) auto
  next
    case False
    then have "map_of (e # ts) name = map_of ts name" "find_child ns name c = find_child ns name (nnext (ns c))"
      using step by (cases e; simp)+
    then show ?thesis using Cons.IH [OF c(4)] by presburger
  qed
qed

lemma list_children_children:
  "children_at ns c ts \<Longrightarrow> \<exists>es. list_children ns c = Some es \<and> map fst es = map fst ts"
proof (induction ts arbitrary: c)
  case Nil
  then show ?case by (simp add: children_at_simps list_children.simps)
next
  case (Cons e ts)
  then have c: "c \<noteq> NULL" "fst e = nname (ns c)" "children_at ns (nnext (ns c)) ts" by (auto simp: children_at_simps)
  then show ?case using Cons.IH [OF c(3)] by (auto simp: list_children.simps [of ns c])
qed

text \<open>No directory is left to be read from the disk.\<close>

definition all_loaded :: "'d drivers \<Rightarrow> 'd vfs \<Rightarrow> u64 \<Rightarrow> bool" where
  "all_loaded drv s fs \<longleftrightarrow> (\<forall>n. is_dir (nodes s n) \<longrightarrow> load_children drv s fs n = Some s)"

lemma resolve_parts_tree:
  assumes "all_loaded drv s fs"
  shows "tree_at (nodes s) a t \<Longrightarrow> resolve_parts drv s fs a parts = Some (tree_lookup parts t, s)"
proof (induction parts arbitrary: a t)
  case Nil
  then show ?case by (cases t) (auto simp: tree_at_simps)
next
  case (Cons part parts)
  show ?case
  proof (cases t)
    case (TFile b)
    then show ?thesis using Cons.prems by (simp add: tree_at_simps)
  next
    case (TDir b ts)
    then have a: "a \<noteq> NULL" "is_dir (nodes s a)" "children_at (nodes s) (nchildren (nodes s a)) ts"
      using Cons.prems by (auto simp: tree_at_simps)
    have ld: "load_children drv s fs a = Some s" using assms a(2) by (simp add: all_loaded_def)
    show ?thesis
    proof (cases "map_of ts part")
      case None
      then show ?thesis using find_child_children [OF a(3), of part] a(1,2) ld TDir by simp
    next
      case (Some t')
      then obtain d where "find_child (nodes s) part (nchildren (nodes s a)) = Some d" "d \<noteq> NULL" "tree_at (nodes s) d t'"
        using find_child_children [OF a(3), of part] by auto
      then show ?thesis using Cons.IH Some a(1,2) ld TDir by simp
    qed
  qed
qed

lemma tokens_Nil [simp]: "tokens ds [] = []"
  by (simp add: tokens.simps [of ds "[]"] next_token_def)

text \<open>
  C10: in a file system whose directories are loaded, \<open>vfs_resolve\<close> returns exactly the node that looking
  up the components of the path in the directory tree gives, the null pointer where there is none, and
  changes nothing.
\<close>

theorem vfs_resolve_spec:
  assumes "tree_at (nodes s) (fs_root s fs) t" "all_loaded drv s fs"
  shows "vfs_resolve drv s fs pth = Some (tree_lookup (tokens [SLASH] pth) t, s)"
  using resolve_parts_tree [OF assms(2,1), of "tokens [SLASH] pth"] resolve_parts_tree [OF assms(2,1), of "[]"]
  by (simp add: vfs_resolve_def)

text \<open>A root directory at 1 with the directory \<open>a\<close> at 2, in which there is the file \<open>b\<close> at 3.\<close>

definition demo_nodes :: "u64 \<Rightarrow> vfs_node" where
  "demo_nodes a =
     \<lparr>nname = (if a = 2 then [0x61] else if a = 3 then [0x62] else []), nsize = 7,
      nflags = (if a = 3 then VFS_FILE else VFS_DIR), nfs = 1, nfs_data = 0, nparent = NULL,
      nchildren = (if a = 1 then 2 else if a = 2 then 3 else NULL), nnext = NULL\<rparr>"

definition demo_vfs :: "unit vfs" where
  "demo_vfs = \<lparr>nodes = demo_nodes, files = (\<lambda>_. \<lparr>fnode = 3, foffset = 9\<rparr>), vheap = heap_full,
     fs_root = (\<lambda>_. 1), g_mounts = [([SLASH], 1)], drive = ()\<rparr>"

definition no_ops :: "unit drivers" where
  "no_ops _ = \<lparr>op_read = Some (\<lambda>s n off sz. Some (0, [], s)), op_write = None, op_readdir = None, op_create = None, op_unlink = None\<rparr>"

lemmas demo_vfs_simps = demo_vfs_def demo_nodes_def no_ops_def is_dir_def is_file_def VFS_FILE_def VFS_DIR_def

lemma vfs_resolve_spec_witness:
  "vfs_resolve no_ops demo_vfs 1 [0x61, SLASH, 0x62] = Some (3, demo_vfs)"
proof -
  have "tree_at (nodes demo_vfs) (fs_root demo_vfs 1) (TDir 1 [([0x61], TDir 2 [([0x62], TFile 3)])])"
    by (simp add: tree_at_simps children_at_simps demo_vfs_simps)
  moreover have "all_loaded no_ops demo_vfs 1" by (simp add: all_loaded_def load_children_def no_ops_def)
  moreover have "tokens [SLASH] [0x61, SLASH, 0x62] = [[0x61], [0x62]]"
    by (simp add: tokens.simps next_token_def SLASH_def)
  ultimately show ?thesis by (simp add: vfs_resolve_spec)
qed

end
