(* ===== verification/Ports.thy ===== *)
theory Ports
  imports Prelude
begin

text \<open>
  Port input and output of \<^verbatim>\<open>include/io.h\<close>. The devices behind the ports are hardware: their state has
  the type \<open>'h\<close> and the six instructions are the record of functions \<open>ports\<close>, an argument of every
  driver. Reading a port may change the state of the device.
\<close>

record 'h ports =
  inb :: "'h \<Rightarrow> u16 \<Rightarrow> u8 \<times> 'h"
  outb :: "'h \<Rightarrow> u16 \<Rightarrow> u8 \<Rightarrow> 'h"
  inw :: "'h \<Rightarrow> u16 \<Rightarrow> u16 \<times> 'h"
  outw :: "'h \<Rightarrow> u16 \<Rightarrow> u16 \<Rightarrow> 'h"
  inl :: "'h \<Rightarrow> u16 \<Rightarrow> u32 \<times> 'h"
  outl :: "'h \<Rightarrow> u16 \<Rightarrow> u32 \<Rightarrow> 'h"

text \<open>A sequence of \<open>outb\<close> calls.\<close>

fun outbs :: "'h ports \<Rightarrow> 'h \<Rightarrow> (u16 \<times> u8) list \<Rightarrow> 'h" where
  "outbs io h [] = h"
| "outbs io h ((port, v) # rest) = outbs io (outb io h port v) rest"

text \<open>A 16-bit value as two bytes in memory, low byte first, and back.\<close>

definition lo8 :: "u16 \<Rightarrow> u8" where "lo8 w = ucast w"
definition hi8 :: "u16 \<Rightarrow> u8" where "hi8 w = ucast (drop_bit 8 w)"
definition word16 :: "u8 \<Rightarrow> u8 \<Rightarrow> u16" where "word16 l h = ucast l OR push_bit 8 (ucast h)"

lemma lo8_word16 [simp]: "lo8 (word16 l h) = l"
  by (rule bit_word_eqI) (simp add: lo8_def word16_def bit_ucast_iff bit_or_iff bit_push_bit_iff)

lemma hi8_word16 [simp]: "hi8 (word16 l h) = h"
proof (rule bit_word_eqI)
  fix n assume "n < LENGTH(8)"
  moreover have "\<not> bit l (8 + n)" using bit_imp_le_length [of l "8 + n"] by auto
  ultimately show "bit (hi8 (word16 l h)) n = bit h n"
    by (simp add: hi8_def word16_def bit_ucast_iff bit_or_iff bit_push_bit_iff bit_drop_bit_eq)
qed

lemma word16_lo8_hi8 [simp]: "word16 (lo8 w) (hi8 w) = w"
proof (rule bit_word_eqI)
  fix n assume "n < LENGTH(16)"
  then show "bit (word16 (lo8 w) (hi8 w)) n = bit w n"
    by (cases "n < 8") (auto simp: lo8_def hi8_def word16_def bit_ucast_iff bit_or_iff bit_push_bit_iff bit_drop_bit_eq)
qed

end
