(* ===== verification/Ata.thy ===== *)
theory Ata
  imports Ports
begin

text \<open>
  The disk driver of \<^verbatim>\<open>drivers/ata.c\<close>: programmed input and output with 28-bit sector addresses. A
  buffer is the list of its bytes; the read functions return the bytes they put at the front of the buffer,
  on failure those of the sectors read so far. The contract that the file system relies on is the locale
  \<open>block_device\<close>; it is interpreted on the driver running against \<open>drive\<close>, a drive with the behaviour
  the ATA standard prescribes for the commands the driver issues, which may stay busy for any number of polls
  below the limit of the driver.
\<close>

section \<open>The driver\<close>

definition ATA_PRIMARY_DATA :: u16 where "ATA_PRIMARY_DATA = 0x1F0"
definition ATA_CMD_READ :: u8 where "ATA_CMD_READ = 0x20"
definition ATA_CMD_WRITE :: u8 where "ATA_CMD_WRITE = 0x30"
definition ATA_CMD_IDENT :: u8 where "ATA_CMD_IDENT = 0xEC"
definition ATA_STATUS_ERR :: u8 where "ATA_STATUS_ERR = 0x01"
definition ATA_STATUS_DRQ :: u8 where "ATA_STATUS_DRQ = 0x08"
definition ATA_STATUS_BSY :: u8 where "ATA_STATUS_BSY = 0x80"
definition POLLS :: nat where "POLLS = 100000"

fun wait_busy :: "'h ports \<Rightarrow> u16 \<Rightarrow> nat \<Rightarrow> 'h \<Rightarrow> int \<times> 'h" where
  "wait_busy io cmd 0 h = (-1, h)"
| "wait_busy io cmd (Suc n) h =
     (let (st, h1) = inb io h cmd in if st AND ATA_STATUS_BSY = 0 then (0, h1) else wait_busy io cmd n h1)"

definition ata_wait_busy :: "'h ports \<Rightarrow> u16 \<Rightarrow> 'h \<Rightarrow> int \<times> 'h" where
  "ata_wait_busy io cmd h = wait_busy io cmd POLLS h"

fun wait_drq :: "'h ports \<Rightarrow> u16 \<Rightarrow> nat \<Rightarrow> 'h \<Rightarrow> int \<times> 'h" where
  "wait_drq io cmd 0 h = (-1, h)"
| "wait_drq io cmd (Suc n) h =
     (let (st, h1) = inb io h cmd
      in if st AND ATA_STATUS_ERR \<noteq> 0 then (-1, h1)
      else if st AND ATA_STATUS_DRQ \<noteq> 0 then (0, h1)
      else wait_drq io cmd n h1)"

definition ata_wait_drq :: "'h ports \<Rightarrow> u16 \<Rightarrow> 'h \<Rightarrow> int \<times> 'h" where
  "ata_wait_drq io cmd h = wait_drq io cmd POLLS h"

definition ata_base :: "int \<Rightarrow> u16" where "ata_base bus = (if bus = 0 then ATA_PRIMARY_DATA else 0x170)"

definition ata_drive_present :: "'h ports \<Rightarrow> int \<Rightarrow> 'h \<Rightarrow> bool \<times> 'h" where
  "ata_drive_present io bus h =
     (let cmd = (if bus = 0 then 0x1F7 else 0x170 + 7);
          h1 = outb io h cmd ATA_STATUS_BSY;
          (_, h2) = inb io h1 cmd;
          (_, h3) = inb io h2 cmd;
          (_, h4) = inb io h3 cmd;
          (_, h5) = inb io h4 cmd;
          (st, h6) = inb io h5 cmd
      in (st \<noteq> 0xFF, h6))"

text \<open>The loops over \<open>inw\<close> and \<open>outw\<close>.\<close>

fun read_words :: "'h ports \<Rightarrow> u16 \<Rightarrow> nat \<Rightarrow> 'h \<Rightarrow> u8 list \<times> 'h" where
  "read_words io base 0 h = ([], h)"
| "read_words io base (Suc n) h =
     (let (w, h1) = inw io h base; (ws, h2) = read_words io base n h1 in (lo8 w # hi8 w # ws, h2))"

fun write_words :: "'h ports \<Rightarrow> u16 \<Rightarrow> u8 list \<Rightarrow> 'h \<Rightarrow> 'h" where
  "write_words io base (l # r # bytes) h = write_words io base bytes (outw io h base (word16 l r))"
| "write_words io base _ h = h"

definition ata_identify :: "'h ports \<Rightarrow> int \<Rightarrow> bool \<Rightarrow> 'h \<Rightarrow> int \<times> u8 list \<times> 'h" where
  "ata_identify io bus master h =
     (let base = ata_base bus; cmd = base + 7;
          (r, h1) = ata_wait_busy io cmd h
      in if r < 0 then (-1, [], h1)
      else
        let h2 = outbs io h1 [(base + 6, if master then 0xA0 else 0xB0), (base + 2, 0), (base + 3, 0),
                   (base + 4, 0), (base + 5, 0), (cmd, ATA_CMD_IDENT)];
            (st, h3) = inb io h2 cmd
        in if st = 0 then (-1, [], h3)
        else
          let (r, h4) = ata_wait_busy io cmd h3
          in if r < 0 then (-1, [], h4)
          else
            let (st, h5) = inb io h4 cmd
            in if st AND ATA_STATUS_ERR \<noteq> 0 then (-1, [], snd (inb io h5 (base + 1)))
            else
              let (r, h6) = ata_wait_drq io cmd h5
              in if r < 0 then (-1, [], h6)
              else let (bytes, h7) = read_words io base 256 h6 in (0, bytes, h7))"

text \<open>The task file writes that start a command, in the order of the code.\<close>

definition ata_setup :: "int \<Rightarrow> bool \<Rightarrow> u32 \<Rightarrow> u8 \<Rightarrow> u8 \<Rightarrow> (u16 \<times> u8) list" where
  "ata_setup bus master lba count command =
     (let base = ata_base bus
      in [(base + 6, (if master then 0xE0 else 0xF0) OR ucast (drop_bit 24 lba AND 0x0F)),
          (base + 2, count), (base + 3, ucast lba), (base + 4, ucast (drop_bit 8 lba)),
          (base + 5, ucast (drop_bit 16 lba)), (base + 7, command)])"

text \<open>The waiting that precedes the transfer of every sector.\<close>

definition ata_sector_ready :: "'h ports \<Rightarrow> u16 \<Rightarrow> 'h \<Rightarrow> int \<times> 'h" where
  "ata_sector_ready io cmd h =
     (let (r, h1) = ata_wait_busy io cmd h
      in if r < 0 then (-1, h1)
      else
        let (st, h2) = inb io h1 cmd
        in if st AND ATA_STATUS_ERR \<noteq> 0 then (-1, h2) else ata_wait_drq io cmd h2)"

fun read_sectors :: "'h ports \<Rightarrow> u16 \<Rightarrow> nat \<Rightarrow> 'h \<Rightarrow> int \<times> u8 list \<times> 'h" where
  "read_sectors io base 0 h = (0, [], h)"
| "read_sectors io base (Suc n) h =
     (let (r, h1) = ata_sector_ready io (base + 7) h
      in if r < 0 then (-1, [], h1)
      else
        let (bytes, h2) = read_words io base 256 h1;
            (r, more, h3) = read_sectors io base n h2
        in (r, bytes @ more, h3))"

definition ata_read_sectors :: "'h ports \<Rightarrow> int \<Rightarrow> bool \<Rightarrow> u32 \<Rightarrow> u8 \<Rightarrow> 'h \<Rightarrow> int \<times> u8 list \<times> 'h" where
  "ata_read_sectors io bus master lba count h =
     (let base = ata_base bus;
          (r, h1) = ata_wait_busy io (base + 7) h
      in if r < 0 then (-1, [], h1)
      else read_sectors io base (unat count) (outbs io h1 (ata_setup bus master lba count ATA_CMD_READ)))"

fun write_sectors :: "'h ports \<Rightarrow> u16 \<Rightarrow> nat \<Rightarrow> u8 list \<Rightarrow> 'h \<Rightarrow> int \<times> 'h" where
  "write_sectors io base 0 bytes h = (0, h)"
| "write_sectors io base (Suc n) bytes h =
     (let (r, h1) = ata_sector_ready io (base + 7) h
      in if r < 0 then (-1, h1)
      else
        let h2 = write_words io base (take 512 bytes) h1;
            (_, h3) = inb io h2 (base + 7)
        in write_sectors io base n (drop 512 bytes) h3)"

definition ata_write_sectors :: "'h ports \<Rightarrow> int \<Rightarrow> bool \<Rightarrow> u32 \<Rightarrow> u8 \<Rightarrow> u8 list \<Rightarrow> 'h \<Rightarrow> int \<times> 'h" where
  "ata_write_sectors io bus master lba count bytes h =
     (let base = ata_base bus;
          (r, h1) = ata_wait_busy io (base + 7) h
      in if r < 0 then (-1, h1)
      else write_sectors io base (unat count) bytes (outbs io h1 (ata_setup bus master lba count ATA_CMD_WRITE)))"

section \<open>The contract of a block device\<close>

text \<open>
  What the file system relies on: on a ready device a read of one sector with a valid address gives its 512
  bytes and changes no sector, a write changes exactly that sector, and the device is ready again.
\<close>

locale block_device =
  fixes rd :: "u32 \<Rightarrow> 'h \<Rightarrow> int \<times> u8 list \<times> 'h"
    and wr :: "u32 \<Rightarrow> u8 list \<Rightarrow> 'h \<Rightarrow> int \<times> 'h"
    and ready :: "'h \<Rightarrow> bool"
    and sector :: "'h \<Rightarrow> u32 \<Rightarrow> u8 list"
  assumes sector_length: "ready h \<Longrightarrow> length (sector h l) = 512"
    and read_valid: "ready h \<Longrightarrow> l < 0x10000000 \<Longrightarrow>
      \<exists>h'. rd l h = (0, sector h l, h') \<and> ready h' \<and> sector h' = sector h"
    and write_valid: "ready h \<Longrightarrow> l < 0x10000000 \<Longrightarrow> length bytes = 512 \<Longrightarrow>
      \<exists>h'. wr l bytes h = (0, h') \<and> ready h' \<and> sector h' = (sector h)(l := bytes)"
begin

lemma read_cases:
  assumes "ready h" "l < 0x10000000"
  obtains h' where "rd l h = (0, sector h l, h')" "ready h'" "sector h' = sector h"
  using read_valid [OF assms] by blast

lemma write_cases:
  assumes "ready h" "l < 0x10000000" "length bytes = 512"
  obtains h' where "wr l bytes h = (0, h')" "ready h'" "sector h' = (sector h)(l := bytes)"
  using write_valid [OF assms] by blast

end

section \<open>A drive\<close>

datatype phase = Idle | Reading | Writing

text \<open>
  The drives of the primary channel: the sectors of master (\<open>False\<close>) and slave, the registers of the task
  file, the running command with the sectors left, the current address and the bytes of the current sector
  still to be read or already written, the number of status reads for which the drive is still busy, and
  how long it is busy before each sector.
\<close>

record drive =
  disk :: "bool \<Rightarrow> u32 \<Rightarrow> u8 list"
  rcount :: u8
  rlo :: u8
  rmi :: u8
  rhi :: u8
  rdev :: u8
  dphase :: phase
  dleft :: nat
  dcur :: u32
  dbytes :: "u8 list"
  dbusy :: nat
  latency :: nat

definition drive_lba :: "drive \<Rightarrow> u32" where
  "drive_lba d = ucast (rlo d) OR push_bit 8 (ucast (rmi d)) OR push_bit 16 (ucast (rhi d)) OR push_bit 24 (ucast (rdev d AND 0x0F))"

abbreviation drive_slave :: "drive \<Rightarrow> bool" where "drive_slave d \<equiv> bit (rdev d) 4"

definition drive_inb :: "drive \<Rightarrow> u16 \<Rightarrow> u8 \<times> drive" where
  "drive_inb d port =
     (if port = 0x1F7
      then if dbusy d > 0 then (ATA_STATUS_BSY, d\<lparr>dbusy := dbusy d - 1\<rparr>)
           else (if dphase d = Idle then 0x40 else 0x40 OR ATA_STATUS_DRQ, d)
      else (0, d))"

definition drive_start :: "drive \<Rightarrow> phase \<Rightarrow> drive" where
  "drive_start d ph =
     d\<lparr>dphase := ph, dleft := unat (rcount d), dcur := drive_lba d,
       dbytes := (if ph = Reading then disk d (drive_slave d) (drive_lba d) else []), dbusy := latency d\<rparr>"

definition drive_outb :: "drive \<Rightarrow> u16 \<Rightarrow> u8 \<Rightarrow> drive" where
  "drive_outb d port v =
     (if port = 0x1F2 then d\<lparr>rcount := v\<rparr>
      else if port = 0x1F3 then d\<lparr>rlo := v\<rparr>
      else if port = 0x1F4 then d\<lparr>rmi := v\<rparr>
      else if port = 0x1F5 then d\<lparr>rhi := v\<rparr>
      else if port = 0x1F6 then d\<lparr>rdev := v\<rparr>
      else if port = 0x1F7 \<and> v = ATA_CMD_READ then drive_start d Reading
      else if port = 0x1F7 \<and> v = ATA_CMD_WRITE then drive_start d Writing
      else d)"

text \<open>The end of a sector: the next one, or the end of the command.\<close>

definition drive_next :: "drive \<Rightarrow> drive" where
  "drive_next d =
     d\<lparr>dphase := (if dleft d \<le> 1 then Idle else dphase d), dleft := dleft d - 1, dcur := dcur d + 1,
       dbytes := (if dphase d = Reading then disk d (drive_slave d) (dcur d + 1) else []), dbusy := latency d\<rparr>"

definition drive_inw :: "drive \<Rightarrow> u16 \<Rightarrow> u16 \<times> drive" where
  "drive_inw d port =
     (if port = 0x1F0 \<and> dphase d = Reading \<and> dbusy d = 0
      then case dbytes d of
             l # r # rest \<Rightarrow> (word16 l r, if rest = [] then drive_next d else d\<lparr>dbytes := rest\<rparr>)
           | _ \<Rightarrow> (0xFFFF, d)
      else (0xFFFF, d))"

definition drive_outw :: "drive \<Rightarrow> u16 \<Rightarrow> u16 \<Rightarrow> drive" where
  "drive_outw d port w =
     (if port = 0x1F0 \<and> dphase d = Writing \<and> dbusy d = 0
      then let bytes = dbytes d @ [lo8 w, hi8 w]
           in if length bytes < 512 then d\<lparr>dbytes := bytes\<rparr>
              else drive_next (d\<lparr>disk := (disk d)(drive_slave d := (disk d (drive_slave d))(dcur d := bytes))\<rparr>)
      else d)"

definition drive_ports :: "drive ports" where
  "drive_ports = \<lparr>inb = drive_inb, outb = drive_outb, inw = drive_inw, outw = drive_outw,
     inl = (\<lambda>d _. (0, d)), outl = (\<lambda>d _ _. d)\<rparr>"

lemma drive_ports_simps [simp]:
  "inb drive_ports = drive_inb" "outb drive_ports = drive_outb" "inw drive_ports = drive_inw" "outw drive_ports = drive_outw"
  by (simp_all add: drive_ports_def)

definition drive_ready :: "drive \<Rightarrow> bool" where
  "drive_ready d \<longleftrightarrow> dphase d = Idle \<and> dbusy d < POLLS \<and> latency d < POLLS \<and> (\<forall>s l. length (disk d s l) = 512)"

lemma drive_wait_busy: "dbusy d < n \<Longrightarrow> wait_busy drive_ports 0x1F7 n d = (0, d\<lparr>dbusy := 0\<rparr>)"
proof (induction n arbitrary: d)
  case (Suc n)
  show ?case
  proof (cases "dbusy d = 0")
    case True
    then show ?thesis by (simp add: drive_inb_def ATA_STATUS_BSY_def ATA_STATUS_DRQ_def)
  next
    case False
    then show ?thesis using Suc by (simp add: drive_inb_def ATA_STATUS_BSY_def)
  qed
qed simp

lemma drive_sector_ready:
  assumes "dbusy d < POLLS" "dphase d \<noteq> Idle"
  shows "ata_sector_ready drive_ports 0x1F7 d = (0, d\<lparr>dbusy := 0\<rparr>)"
proof -
  have "POLLS \<noteq> 0" by (simp add: POLLS_def)
  then obtain N where N: "POLLS = Suc N" using not0_implies_Suc by blast
  have "wait_drq drive_ports 0x1F7 POLLS (d\<lparr>dbusy := 0\<rparr>) = (0, d\<lparr>dbusy := 0\<rparr>)"
    unfolding N wait_drq.simps using assms(2) by (simp add: drive_inb_def ATA_STATUS_ERR_def ATA_STATUS_DRQ_def)
  then show ?thesis
    using assms by (simp add: ata_sector_ready_def ata_wait_busy_def ata_wait_drq_def drive_wait_busy drive_inb_def
        ATA_STATUS_ERR_def ATA_STATUS_DRQ_def)
qed

lemma drive_read_words:
  assumes "dphase d = Reading" "dbusy d = 0" "length (dbytes d) = 2 * n" "n \<noteq> 0"
  shows "read_words drive_ports 0x1F0 n d = (dbytes d, drive_next d)"
  using assms
proof (induction n arbitrary: d)
  case (Suc n)
  then obtain l r rest where b: "dbytes d = l # r # rest" "length rest = 2 * n"
    by (auto simp: length_Suc_conv)
  show ?case
  proof (cases n)
    case 0
    then show ?thesis using Suc.prems b by (simp add: drive_inw_def)
  next
    case (Suc m)
    have ne: "rest \<noteq> []" using b(2) Suc by auto
    have nx: "drive_next (d\<lparr>dbytes := rest\<rparr>) = drive_next d" by (simp add: drive_next_def)
    have "read_words drive_ports 0x1F0 n (d\<lparr>dbytes := rest\<rparr>) = (rest, drive_next d)"
      using Suc.IH [of "d\<lparr>dbytes := rest\<rparr>"] Suc.prems b(2) Suc nx by simp
    then show ?thesis using Suc.prems b ne by (simp add: drive_inw_def)
  qed
qed simp

definition drive_commit :: "drive \<Rightarrow> u8 list \<Rightarrow> drive" where
  "drive_commit d bytes =
     drive_next (d\<lparr>disk := (disk d)(drive_slave d := (disk d (drive_slave d))(dcur d := bytes))\<rparr>)"

lemma drive_write_words:
  assumes "dphase d = Writing" "dbusy d = 0" "length (dbytes d) + length bytes = 512" "length bytes = 2 * n" "n \<noteq> 0"
  shows "write_words drive_ports 0x1F0 bytes d = drive_commit d (dbytes d @ bytes)"
  using assms
proof (induction n arbitrary: d bytes)
  case (Suc n)
  then obtain l r rest where b: "bytes = l # r # rest" "length rest = 2 * n"
    by (auto simp: length_Suc_conv)
  show ?case
  proof (cases n)
    case 0
    then have "rest = []" "length (dbytes d) = 510" using b Suc.prems by auto
    then show ?thesis using Suc.prems(1,2) b by (simp add: drive_outw_def drive_commit_def)
  next
    case (Suc m)
    let ?d = "d\<lparr>dbytes := dbytes d @ [l, r]\<rparr>"
    have step: "write_words drive_ports 0x1F0 bytes d = write_words drive_ports 0x1F0 rest ?d"
      using Suc.prems b Suc by (simp add: drive_outw_def)
    have nx: "drive_commit ?d bs = drive_commit d bs" for bs by (simp add: drive_commit_def drive_next_def)
    show ?thesis unfolding step
      using Suc.IH [of ?d rest] Suc.prems b Suc nx by simp
  qed
qed simp

lemma drive_lba_setup:
  fixes lba :: u32 and x :: u8
  assumes "x AND 0x0F = 0"
  shows "(ucast (ucast lba :: u8) :: u32) OR push_bit 8 (ucast (ucast (drop_bit 8 lba) :: u8)) OR
     push_bit 16 (ucast (ucast (drop_bit 16 lba) :: u8)) OR
     push_bit 24 (ucast ((x OR ucast (drop_bit 24 lba AND 0x0F)) AND 0x0F)) = lba AND 0x0FFFFFFF"
proof (rule bit_word_eqI)
  fix n assume "n < LENGTH(32)"
  have x: "\<not> bit x k" if "k < 4" for k
  proof -
    have "bit (x AND mask 4) k = False" using assms by (simp add: mask_eq_exp_minus_1)
    then show ?thesis using that by (simp add: bit_and_iff bit_mask_iff)
  qed
  have m: "(0x0F :: u8) = mask 4" "(0x0F :: u32) = mask 4" "(0x0FFFFFFF :: u32) = mask 28"
    by (simp_all add: mask_eq_exp_minus_1)
  consider "n < 8" | "8 \<le> n" "n < 16" | "16 \<le> n" "n < 24" | "24 \<le> n" "n < 28" | "28 \<le> n" by linarith
  then show "bit ((ucast (ucast lba :: u8) :: u32) OR push_bit 8 (ucast (ucast (drop_bit 8 lba) :: u8)) OR
     push_bit 16 (ucast (ucast (drop_bit 16 lba) :: u8)) OR
     push_bit 24 (ucast ((x OR ucast (drop_bit 24 lba AND 0x0F)) AND 0x0F))) n = bit (lba AND 0x0FFFFFFF) n"
    unfolding m using \<open>n < LENGTH(32)\<close>
    by cases (auto simp: bit_or_iff bit_and_iff bit_ucast_iff bit_push_bit_iff bit_drop_bit_eq bit_mask_iff x)
qed

text \<open>The sectors of the current command as the file system sees them.\<close>

abbreviation drive_sector :: "bool \<Rightarrow> drive \<Rightarrow> u32 \<Rightarrow> u8 list" where
  "drive_sector master d \<equiv> disk d (\<not> master)"

definition drive_run :: "drive \<Rightarrow> phase \<Rightarrow> nat \<Rightarrow> bool" where
  "drive_run d ph n \<longleftrightarrow> dphase d = (if n = 0 then Idle else ph) \<and> dleft d = n \<and> dbusy d < POLLS \<and> latency d < POLLS \<and>
     (\<forall>s l. length (disk d s l) = 512)"

lemma drive_run_ready: "drive_run d ph 0 \<Longrightarrow> drive_ready d"
  by (simp add: drive_run_def drive_ready_def)

lemma drive_run_next: "drive_run d ph (Suc n) \<Longrightarrow> drive_run (drive_next d) ph n"
  by (auto simp: drive_run_def drive_next_def)

lemma drive_next_same [simp]:
  "disk (drive_next d) = disk d" "rdev (drive_next d) = rdev d" "dcur (drive_next d) = dcur d + 1"
  "dphase d = Reading \<Longrightarrow> dbytes (drive_next d) = disk d (drive_slave d) (dcur d + 1)"
  "dphase d = Writing \<Longrightarrow> dbytes (drive_next d) = []"
  by (simp_all add: drive_next_def)

lemma drive_read_sectors:
  assumes "drive_run d Reading n" "dbytes d = disk d (drive_slave d) (dcur d)"
  shows "\<exists>d'. read_sectors drive_ports 0x1F0 n d =
      (0, concat (map (\<lambda>i. disk d (drive_slave d) (dcur d + of_nat i)) [0..<n]), d') \<and>
      drive_run d' Reading 0 \<and> disk d' = disk d"
  using assms
proof (induction n arbitrary: d)
  case (Suc n)
  define e where "e = d\<lparr>dbusy := 0\<rparr>"
  have run: "drive_run e Reading (Suc n)" using Suc.prems(1) by (auto simp: drive_run_def e_def POLLS_def)
  have d: "dphase d = Reading" "dbusy d < POLLS" using Suc.prems by (simp_all add: drive_run_def)
  have e: "dphase e = Reading" "dbusy e = 0" "length (dbytes e) = 2 * 256" "dbytes e = disk d (drive_slave d) (dcur d)"
    using Suc.prems by (auto simp: e_def drive_run_def)
  have rdy: "ata_sector_ready drive_ports 0x1F7 d = (0, e)" using drive_sector_ready d by (simp add: e_def)
  have rw: "read_words drive_ports 0x1F0 256 e = (dbytes e, drive_next e)" by (rule drive_read_words) (use e in simp_all)
  from Suc.IH [OF drive_run_next [OF run]] e(1)
  obtain d' where d': "read_sectors drive_ports 0x1F0 n (drive_next e) =
      (0, concat (map (\<lambda>i. disk e (drive_slave e) (dcur e + 1 + of_nat i)) [0..<n]), d')"
      "drive_run d' Reading 0" "disk d' = disk e" by auto
  have "map (\<lambda>i. disk d (drive_slave d) (dcur d + of_nat i)) [0..<Suc n] =
      dbytes e # map (\<lambda>i. disk e (drive_slave e) (dcur e + 1 + of_nat i)) [0..<n]"
    by (subst upt_conv_Cons, simp, subst map_Suc_upt [symmetric]) (simp add: e_def e(4) [unfolded e_def] algebra_simps)
  then show ?case using rdy rw d' by (simp add: e_def)
qed (simp add: drive_run_def)

text \<open>The sectors from \<open>l\<close> on replaced by the consecutive pieces of 512 bytes of a list.\<close>

fun put_sectors :: "bool \<Rightarrow> u32 \<Rightarrow> nat \<Rightarrow> u8 list \<Rightarrow> (bool \<Rightarrow> u32 \<Rightarrow> u8 list) \<Rightarrow> bool \<Rightarrow> u32 \<Rightarrow> u8 list" where
  "put_sectors sl l 0 bytes f = f"
| "put_sectors sl l (Suc n) bytes f = put_sectors sl (l + 1) n (drop 512 bytes) (f(sl := (f sl)(l := take 512 bytes)))"

lemma drive_write_sectors:
  assumes "drive_run d Writing n" "dbytes d = []" "length bytes = 512 * n"
  shows "\<exists>d'. write_sectors drive_ports 0x1F0 n bytes d = (0, d') \<and> drive_run d' Writing 0 \<and>
      disk d' = put_sectors (drive_slave d) (dcur d) n bytes (disk d)"
  using assms
proof (induction n arbitrary: d bytes)
  case (Suc n)
  define e where "e = d\<lparr>dbusy := 0\<rparr>"
  have d: "dphase d = Writing" "dbusy d < POLLS" using Suc.prems by (simp_all add: drive_run_def)
  have e: "dphase e = Writing" "dbusy e = 0" "dbytes e = []" using Suc.prems d by (simp_all add: e_def)
  have rdy: "ata_sector_ready drive_ports 0x1F7 d = (0, e)" using drive_sector_ready d by (simp add: e_def)
  let ?b = "take 512 bytes"
  have len: "length ?b = 512" using Suc.prems(3) by simp
  have ww: "write_words drive_ports 0x1F0 ?b e = drive_commit e ?b"
    using drive_write_words [of e ?b 256] e len by simp
  define f where "f = snd (drive_inb (drive_commit e ?b) 0x1F7)"
  have f: "disk f = (disk d)(drive_slave d := (disk d (drive_slave d))(dcur d := ?b))" "rdev f = rdev d" "dcur f = dcur d + 1"
      "dbytes f = []" "drive_run f Writing n"
    using Suc.prems len e by (auto simp: f_def drive_inb_def drive_commit_def e_def drive_run_def drive_next_def)
  have step: "write_sectors drive_ports 0x1F0 (Suc n) bytes d = write_sectors drive_ports 0x1F0 n (drop 512 bytes) f"
    using rdy ww by (simp add: f_def split_beta)
  have "length (drop 512 bytes) = 512 * n" using Suc.prems(3) by simp
  from Suc.IH [OF f(5,4) this] show ?case unfolding step put_sectors.simps f(1-3) .
qed (simp add: drive_run_def)

lemmas drive_cmd_simps = ata_setup_def ata_base_def ATA_PRIMARY_DATA_def drive_outb_def drive_start_def
  ATA_CMD_READ_def ATA_CMD_WRITE_def

definition phase_command :: "phase \<Rightarrow> u8" where
  "phase_command ph = (if ph = Reading then ATA_CMD_READ else ATA_CMD_WRITE)"

lemma drive_setup:
  fixes lba :: u32 and master :: bool
  assumes "drive_ready d" "0 < count" "ph \<noteq> Idle"
  defines "e \<equiv> outbs drive_ports (d\<lparr>dbusy := 0\<rparr>) (ata_setup 0 master lba count (phase_command ph))"
  shows "drive_run e ph (unat count)" "disk e = disk d" "drive_slave e = (\<not> master)" "dcur e = lba AND 0x0FFFFFFF"
    "dbytes e = (if ph = Reading then disk e (drive_slave e) (dcur e) else [])"
proof -
  have "unat count \<noteq> 0" using assms(2) by (simp add: unat_eq_0)
  then show "drive_run e ph (unat count)"
    using assms(1,3) by (cases ph) (auto simp: e_def phase_command_def drive_cmd_simps drive_run_def drive_ready_def)
  show "drive_slave e = (\<not> master)"
    using assms(3) by (cases ph) (auto simp: e_def phase_command_def drive_cmd_simps bit_or_iff bit_ucast_iff bit_and_iff)
  show "disk e = disk d" using assms(3) by (cases ph) (auto simp: e_def phase_command_def drive_cmd_simps)
  show "dbytes e = (if ph = Reading then disk e (drive_slave e) (dcur e) else [])"
    using assms(3) by (cases ph) (simp_all add: e_def phase_command_def drive_cmd_simps)
  show "dcur e = lba AND 0x0FFFFFFF"
    using assms(3) drive_lba_setup [of "0xE0" lba] drive_lba_setup [of "0xF0" lba]
    by (cases ph; cases master) (simp_all add: e_def phase_command_def drive_cmd_simps drive_lba_def)
qed

lemma drive_poll: "drive_ready d \<Longrightarrow> ata_wait_busy drive_ports 0x1F7 d = (0, d\<lparr>dbusy := 0\<rparr>)"
  by (simp add: ata_wait_busy_def drive_wait_busy drive_ready_def)

lemma ata_base_0: "ata_base 0 = 0x1F0" "ata_base 0 + 7 = 0x1F7" by (simp_all add: ata_base_def ATA_PRIMARY_DATA_def)

text \<open>
  On a drive that answers within the poll limit, \<open>ata_read_sectors\<close> succeeds and gives the bytes of
  the requested number of sectors from the low 28 bits of the address, leaves every sector as it was, and
  leaves the drive ready.
\<close>

lemma ata_read_sectors_spec:
  assumes "drive_ready d" "0 < count"
  shows "\<exists>d'. ata_read_sectors drive_ports 0 master lba count d =
      (0, concat (map (\<lambda>i. drive_sector master d ((lba AND 0x0FFFFFFF) + of_nat i)) [0..<unat count]), d') \<and>
      drive_ready d' \<and> disk d' = disk d"
proof -
  define e where "e = outbs drive_ports (d\<lparr>dbusy := 0\<rparr>) (ata_setup 0 master lba count ATA_CMD_READ)"
  note e = drive_setup [OF assms, of Reading master lba, unfolded phase_command_def, simplified, folded e_def]
  have "ata_read_sectors drive_ports 0 master lba count d = read_sectors drive_ports 0x1F0 (unat count) e"
    using drive_poll [OF assms(1)] by (simp add: ata_read_sectors_def ata_base_0 e_def Let_def)
  then show ?thesis using drive_read_sectors [OF e(1), folded e(5)] drive_run_ready e by auto
qed

text \<open>
  \<open>ata_write_sectors\<close> puts the bytes into the requested sectors and changes no other sector.
\<close>

lemma ata_write_sectors_spec:
  assumes "drive_ready d" "0 < count" "length bytes = 512 * unat count"
  shows "\<exists>d'. ata_write_sectors drive_ports 0 master lba count bytes d = (0, d') \<and> drive_ready d' \<and>
      disk d' = put_sectors (\<not> master) (lba AND 0x0FFFFFFF) (unat count) bytes (disk d)"
proof -
  define e where "e = outbs drive_ports (d\<lparr>dbusy := 0\<rparr>) (ata_setup 0 master lba count ATA_CMD_WRITE)"
  note e = drive_setup [OF assms(1,2), of Writing master lba, unfolded phase_command_def, simplified, folded e_def]
  have w: "ata_write_sectors drive_ports 0 master lba count bytes d = write_sectors drive_ports 0x1F0 (unat count) bytes e"
    using drive_poll [OF assms(1)] by (simp add: ata_write_sectors_def ata_base_0 e_def Let_def)
  show ?thesis unfolding w using drive_write_sectors [OF e(1,5) assms(3)] drive_run_ready unfolding e(2-4) by blast
qed

text \<open>A drive whose sectors are all zero, which is busy for three polls before each sector.\<close>

definition blank_drive :: drive where
  "blank_drive = \<lparr>disk = (\<lambda>_ _. replicate 512 0), rcount = 0, rlo = 0, rmi = 0, rhi = 0, rdev = 0, dphase = Idle,
     dleft = 0, dcur = 0, dbytes = [], dbusy = 0, latency = 3\<rparr>"

lemma blank_drive_ready: "drive_ready blank_drive"
  by (simp add: drive_ready_def blank_drive_def POLLS_def)

lemma and_lba28: "l < 0x10000000 \<Longrightarrow> l AND 0x0FFFFFFF = (l :: u32)"
proof -
  assume "l < 0x10000000"
  then have "unat l < 2 ^ 28" by (simp add: word_less_nat_alt)
  then have "take_bit 28 l = l" by (simp add: word_unat_eq_iff unsigned_take_bit_eq take_bit_nat_eq_self)
  then show ?thesis by (simp add: take_bit_eq_mask mask_eq_exp_minus_1)
qed

interpretation ata0: block_device "\<lambda>l. ata_read_sectors drive_ports 0 True l 1" "\<lambda>l. ata_write_sectors drive_ports 0 True l 1"
  drive_ready "drive_sector True"
proof (unfold_locales, goal_cases)
  case (1 h l)
  then show ?case by (simp add: drive_ready_def)
next
  case (2 h l)
  then have "l AND 0x0FFFFFFF = l" by (intro and_lba28)
  then show ?case using ata_read_sectors_spec [OF 2(1), of 1 True l] by auto
next
  case (3 h l bytes)
  then have "l AND 0x0FFFFFFF = l" by (intro and_lba28)
  then show ?case using ata_write_sectors_spec [OF 3(1), of 1 bytes True l] 3(3) by auto
qed

lemma put_sectors_outside:
  "(\<forall>i<n. l + of_nat i \<noteq> k) \<Longrightarrow> put_sectors sl l n bytes f sl k = f sl k"
proof (induction n arbitrary: l bytes f)
  case (Suc n)
  have "l + 1 + of_nat i \<noteq> k" if "i < n" for i using Suc.prems [rule_format, of "Suc i"] that by (simp add: algebra_simps)
  moreover have "l \<noteq> k" using Suc.prems [rule_format, of 0] by simp
  ultimately show ?case using Suc.IH by simp
qed simp

lemma put_sectors_inside:
  "i < n \<Longrightarrow> n \<le> 2 ^ 32 \<Longrightarrow> put_sectors sl l n bytes f sl (l + of_nat i) = take 512 (drop (512 * i) bytes)"
proof (induction n arbitrary: l bytes f i)
  case (Suc n)
  show ?case
  proof (cases i)
    case 0
    have "l + 1 + of_nat j \<noteq> l" if "j < n" for j
    proof
      assume "l + 1 + of_nat j = l"
      then have "(of_nat (Suc j) :: u32) = 0" by (simp add: algebra_simps)
      then have "2 ^ 32 dvd Suc j" by (simp only: word_of_nat_eq_0_iff len_of_numeral_defs) simp
      then show False using that Suc.prems(2) by (auto dest: dvd_imp_le)
    qed
    then show ?thesis using 0 by (simp add: put_sectors_outside)
  next
    case (Suc j)
    then show ?thesis using Suc.IH [of j "l + 1" "drop 512 bytes"] Suc.prems by (simp add: algebra_simps)
  qed
qed simp

lemma concat_pieces: "length bytes = 512 * n \<Longrightarrow> concat (map (\<lambda>i. take 512 (drop (512 * i) bytes)) [0..<n]) = bytes"
proof (induction n arbitrary: bytes)
  case (Suc n)
  have "concat (map (\<lambda>i. take 512 (drop (512 * i) bytes)) [0..<Suc n]) =
      take 512 bytes @ concat (map (\<lambda>i. take 512 (drop (512 * i) (drop 512 bytes))) [0..<n])"
    by (simp add: upt_conv_Cons map_Suc_upt [symmetric] comp_def add.commute del: upt_Suc)
  also have "\<dots> = bytes" using Suc.IH [of "drop 512 bytes"] Suc.prems by simp
  finally show ?case .
qed simp

text \<open>
  C11: on a drive that answers within the poll limit, reading back the sectors that \<open>ata_write_sectors\<close>
  wrote gives the bytes that were written, for every count and every 28-bit address, and both calls succeed.
\<close>

theorem ata_write_read:
  assumes "drive_ready d" "0 < count" "length bytes = 512 * unat count"
  shows "\<exists>d1 d2. ata_write_sectors drive_ports 0 master lba count bytes d = (0, d1) \<and>
      ata_read_sectors drive_ports 0 master lba count d1 = (0, bytes, d2) \<and> drive_ready d2"
proof -
  obtain d1 where d1: "ata_write_sectors drive_ports 0 master lba count bytes d = (0, d1)" "drive_ready d1"
      "disk d1 = put_sectors (\<not> master) (lba AND 0x0FFFFFFF) (unat count) bytes (disk d)"
    using ata_write_sectors_spec [OF assms] by blast
  have n: "unat count \<le> 2 ^ 32" using unsigned_less [of count, where 'a = nat] by simp
  have "map (\<lambda>i. drive_sector master d1 ((lba AND 0x0FFFFFFF) + of_nat i)) [0..<unat count] =
      map (\<lambda>i. take 512 (drop (512 * i) bytes)) [0..<unat count]"
    unfolding d1(3) by (rule map_cong [OF refl]) (rule put_sectors_inside, use n in auto)
  then have "concat (map (\<lambda>i. drive_sector master d1 ((lba AND 0x0FFFFFFF) + of_nat i)) [0..<unat count]) = bytes"
    by (simp only: concat_pieces [OF assms(3)])
  then show ?thesis using d1(1) ata_read_sectors_spec [OF d1(2) assms(2), of master lba] by metis
qed

lemma ata_write_read_witness:
  "\<exists>d1 d2. ata_write_sectors drive_ports 0 True 5 2 (replicate 1024 7) blank_drive = (0, d1) \<and>
      ata_read_sectors drive_ports 0 True 5 2 d1 = (0, replicate 1024 7, d2) \<and> drive_ready d2"
  using ata_write_read [OF blank_drive_ready, of 2 "replicate 1024 7" True 5] by simp

text \<open>A device that reports busy at every poll makes a read fail without a byte read.\<close>

lemma wait_busy_stuck:
  "(\<And>h. fst (inb io h cmd) AND ATA_STATUS_BSY \<noteq> 0) \<Longrightarrow> fst (wait_busy io cmd n h) = -1"
  by (induction n arbitrary: h) (simp_all add: split_beta)

lemma ata_read_sectors_timeout:
  assumes "\<And>h. fst (inb io h (ata_base bus + 7)) AND ATA_STATUS_BSY \<noteq> 0"
  shows "\<exists>h'. ata_read_sectors io bus master lba count h = (-1, [], h')"
  using wait_busy_stuck [OF assms, of POLLS h] by (simp add: ata_read_sectors_def ata_wait_busy_def split_beta)

end
