(* ===== verification/Bytes.thy ===== *)
theory Bytes
  imports Prelude
begin

text \<open>
  Little endian fields in buffers. A buffer that C code reads and writes through a cast pointer or a packed
  structure is the list of its bytes; \<open>get_le n buf off\<close> is the field of \<open>n\<close> bytes at an offset and
  \<open>put_le n buf off v\<close> the buffer after an assignment to it. \<open>overlay\<close> is a buffer into whose front
  bytes were copied.
\<close>

fun bytes_le :: "u8 list \<Rightarrow> 'a::len word" where
  "bytes_le [] = 0"
| "bytes_le (b # bs) = ucast b OR push_bit 8 (bytes_le bs)"

definition get_le :: "nat \<Rightarrow> u8 list \<Rightarrow> nat \<Rightarrow> 'a::len word" where
  "get_le n buf off = bytes_le (take n (drop off buf))"

definition le_bytes :: "nat \<Rightarrow> 'a::len word \<Rightarrow> u8 list" where
  "le_bytes n v = map (\<lambda>i. ucast (drop_bit (8 * i) v)) [0..<n]"

definition put_bytes :: "u8 list \<Rightarrow> nat \<Rightarrow> u8 list \<Rightarrow> u8 list" where
  "put_bytes buf off bs = take off buf @ bs @ drop (off + length bs) buf"

definition put_le :: "nat \<Rightarrow> u8 list \<Rightarrow> nat \<Rightarrow> 'a::len word \<Rightarrow> u8 list" where
  "put_le n buf off v = put_bytes buf off (le_bytes n v)"

definition overlay :: "u8 list \<Rightarrow> u8 list \<Rightarrow> u8 list" where
  "overlay buf bs = put_bytes buf 0 bs"

lemma length_le_bytes [simp]: "length (le_bytes n v) = n" by (simp add: le_bytes_def)

lemma length_put_bytes [simp]: "off + length bs \<le> length buf \<Longrightarrow> length (put_bytes buf off bs) = length buf"
  by (simp add: put_bytes_def)

lemma length_put_le [simp]: "off + n \<le> length buf \<Longrightarrow> length (put_le n buf off v) = length buf"
  by (simp add: put_le_def)

lemma put_bytes_same:
  "off + length bs \<le> length buf \<Longrightarrow> take (length bs) (drop off (put_bytes buf off bs)) = bs"
  by (simp add: put_bytes_def)

lemma put_bytes_other:
  assumes "off + length bs \<le> length buf" "o' + n \<le> off \<or> off + length bs \<le> o'"
  shows "take n (drop o' (put_bytes buf off bs)) = take n (drop o' buf)"
  using assms(2)
proof
  assume le: "o' + n \<le> off"
  have "take n (drop o' (put_bytes buf off bs)) = take n (drop o' (take off buf))"
    using le assms(1) by (simp add: put_bytes_def)
  also have "\<dots> = take n (drop o' buf)" using le by (simp add: drop_take min_def)
  finally show ?thesis .
next
  assume ge: "off + length bs \<le> o'"
  then have "drop o' (put_bytes buf off bs) = drop o' buf"
    using assms(1) by (simp add: put_bytes_def add.commute)
  then show ?thesis by simp
qed

lemma bit_bytes_le:
  "bit (bytes_le bs :: 'a::len word) k \<longleftrightarrow> k < LENGTH('a) \<and> k div 8 < length bs \<and> bit (bs ! (k div 8)) (k mod 8)"
proof (induction bs arbitrary: k)
  case (Cons b bs)
  show ?case
  proof (cases "k < 8")
    case True
    then show ?thesis by (auto simp: bit_or_iff bit_push_bit_iff bit_ucast_iff)
  next
    case False
    then have k: "(k - 8) mod 8 = k mod 8" "k div 8 = Suc ((k - 8) div 8)"
      by (simp_all add: le_mod_geq le_div_geq)
    have "\<not> bit b k" using False bit_imp_le_length [of b k] by auto
    with False Cons.IH [of "k - 8"] k show ?thesis
      by (auto simp: bit_or_iff bit_push_bit_iff bit_ucast_iff)
  qed
qed simp

lemma bytes_le_bytes: "8 * n = LENGTH('a) \<Longrightarrow> bytes_le (le_bytes n v) = (v :: 'a::len word)"
proof (rule bit_word_eqI)
  fix k assume "8 * n = LENGTH('a)" "k < LENGTH('a)"
  moreover from this have "k div 8 < n" by auto
  ultimately show "bit (bytes_le (le_bytes n v) :: 'a word) k = bit v k"
    by (simp add: bit_bytes_le le_bytes_def bit_ucast_iff bit_drop_bit_eq)
qed

lemma get_put_le [simp]:
  "off + n \<le> length buf \<Longrightarrow> 8 * n = LENGTH('a) \<Longrightarrow> get_le n (put_le n buf off v) off = (v :: 'a::len word)"
  using put_bytes_same [of off "le_bytes n v" buf] by (simp add: get_le_def put_le_def bytes_le_bytes)

lemma get_put_le_other:
  "off + n \<le> length buf \<Longrightarrow> o' + k \<le> off \<or> off + n \<le> o' \<Longrightarrow> get_le k (put_le n buf off v) o' = get_le k buf o'"
  unfolding get_le_def put_le_def by (subst put_bytes_other) simp_all

lemma overlay_full [simp]: "length bs = length buf \<Longrightarrow> overlay buf bs = bs"
  by (simp add: overlay_def put_bytes_def)

end
