(* ===== verification/Fat.thy ===== *)
theory Fat
  imports Vfs Ata Bytes
begin

text \<open>
  The FAT32 driver of \<^verbatim>\<open>fs/fat.c\<close> over the disk driver. The state of the driver inside the VFS state is the
  device, the \<open>fat_node_data_t\<close> objects by address, and the private data of every mounted file system by
  the address of the \<open>vfs_filesystem_t\<close>. Sectors are byte lists; structures on disk are read and written
  at their packed offsets. A result \<open>None\<close> is a loop that does not end (a cyclic cluster chain) or a
  division by zero. The driver is always called with a null callback, so \<open>cb\<close> is left out. Progress
  messages on the serial line are left out.
\<close>

section \<open>Structures\<close>

definition FAT_EOC :: u32 where "FAT_EOC = 0x0FFFFFF8"
definition FAT_ATTR_VOLUME :: u8 where "FAT_ATTR_VOLUME = 0x08"
definition FAT_ATTR_DIR :: u8 where "FAT_ATTR_DIR = 0x10"
definition FAT_ATTR_ARCHIVE :: u8 where "FAT_ATTR_ARCHIVE = 0x20"
definition FAT_ATTR_LFN :: u8 where "FAT_ATTR_LFN = 0x0F"

record fat_bpb =
  bytes_per_sector :: u16
  sectors_per_cluster :: u8
  reserved_sectors :: u16
  fat_count :: u8
  root_max_entries :: u16
  total_sectors_16 :: u16
  total_sectors_32 :: u32
  fat_size_32 :: u32
  bpb_root_cluster :: u32
  bpb_sig :: u8

definition read_bpb :: "u8 list \<Rightarrow> fat_bpb" where
  "read_bpb buf =
     \<lparr>bytes_per_sector = get_le 2 buf 11, sectors_per_cluster = get_le 1 buf 13, reserved_sectors = get_le 2 buf 14,
      fat_count = get_le 1 buf 16, root_max_entries = get_le 2 buf 17, total_sectors_16 = get_le 2 buf 19,
      total_sectors_32 = get_le 4 buf 32, fat_size_32 = get_le 4 buf 36, bpb_root_cluster = get_le 4 buf 44,
      bpb_sig = get_le 1 buf 66\<rparr>"

record fat_private =
  fbus :: int
  fmaster :: bool
  bpb :: fat_bpb
  fat_start :: u32
  data_start :: u32
  sectors_per_fat :: u32
  root_cluster :: u32
  bytes_per_cluster :: u32

record fat_node_data =
  dcluster :: u32
  dir_lba :: u32
  dir_off :: u32

record 'h fat_state =
  hw :: 'h
  ndata :: "u64 \<Rightarrow> fat_node_data"
  fprivate :: "u64 \<Rightarrow> fat_private"

type_synonym 'h fatfs = "'h fat_state vfs"

abbreviation read_sector :: "'h ports \<Rightarrow> fat_private \<Rightarrow> u32 \<Rightarrow> 'h \<Rightarrow> int \<times> u8 list \<times> 'h" where
  "read_sector io fp lba h \<equiv> ata_read_sectors io (fbus fp) (fmaster fp) lba 1 h"

abbreviation write_sector :: "'h ports \<Rightarrow> fat_private \<Rightarrow> u32 \<Rightarrow> u8 list \<Rightarrow> 'h \<Rightarrow> int \<times> 'h" where
  "write_sector io fp lba buf h \<equiv> ata_write_sectors io (fbus fp) (fmaster fp) lba 1 buf h"

definition set_hw :: "'h \<Rightarrow> 'h fatfs \<Rightarrow> 'h fatfs" where
  "set_hw h s = s\<lparr>drive := (drive s)\<lparr>hw := h\<rparr>\<rparr>"

definition fat_get_private :: "'h fatfs \<Rightarrow> u64 \<Rightarrow> fat_private" where
  "fat_get_private s node = fprivate (drive s) (nfs (nodes s node))"

definition fat_node_cluster :: "'h fatfs \<Rightarrow> u64 \<Rightarrow> u32" where
  "fat_node_cluster s node =
     (if nfs_data (nodes s node) = NULL then 0 else dcluster (ndata (drive s) (nfs_data (nodes s node))))"

section \<open>The file allocation table\<close>

definition fat_cluster_to_lba :: "fat_private \<Rightarrow> u32 \<Rightarrow> u32" where
  "fat_cluster_to_lba fp cluster = data_start fp + (cluster - 2) * ucast (sectors_per_cluster (bpb fp))"

definition fat_next_cluster :: "'h ports \<Rightarrow> fat_private \<Rightarrow> u32 \<Rightarrow> 'h \<Rightarrow> u32 \<times> 'h" where
  "fat_next_cluster io fp cluster h =
     (let fat_offset = cluster * 4;
          fat_sector = fat_start fp + fat_offset div ucast (bytes_per_sector (bpb fp));
          ent_offset = fat_offset mod ucast (bytes_per_sector (bpb fp));
          (r, buf, h1) = read_sector io fp fat_sector h
      in if r < 0 then (FAT_EOC, h1)
      else (get_le 4 buf (unat ent_offset) AND 0x0FFFFFFF, h1))"

text \<open>The loop that writes the changed sector to every copy of the table, from copy \<open>i\<close> on.\<close>

fun write_fats :: "'h ports \<Rightarrow> fat_private \<Rightarrow> u32 \<Rightarrow> u8 list \<Rightarrow> nat \<Rightarrow> nat \<Rightarrow> 'h \<Rightarrow> int \<times> 'h" where
  "write_fats io fp rel buf i 0 h = (0, h)"
| "write_fats io fp rel buf i (Suc n) h =
     (let (r, h1) = write_sector io fp (fat_start fp + of_nat i * sectors_per_fat fp + rel) buf h
      in if r < 0 then (-1, h1) else write_fats io fp rel buf (Suc i) n h1)"

definition fat_set_cluster :: "'h ports \<Rightarrow> fat_private \<Rightarrow> u32 \<Rightarrow> u32 \<Rightarrow> 'h \<Rightarrow> int \<times> 'h" where
  "fat_set_cluster io fp cluster val h =
     (let fat_offset = cluster * 4;
          rel = fat_offset div ucast (bytes_per_sector (bpb fp));
          ent_offset = unat (fat_offset mod ucast (bytes_per_sector (bpb fp)));
          (r, buf, h1) = read_sector io fp (fat_start fp + rel) h
      in if r < 0 then (-1, h1)
      else
        let ent = get_le 4 buf ent_offset :: u32;
            buf1 = put_le 4 buf ent_offset (ent AND 0xF0000000 OR val AND 0x0FFFFFFF)
        in write_fats io fp rel buf1 0 (unat (fat_count (bpb fp))) h1)"

definition fat_total_clusters :: "fat_private \<Rightarrow> u32 option" where
  "fat_total_clusters fp =
     (let t1 = total_sectors_32 (bpb fp);
          t2 = (if t1 = 0 then ucast (total_sectors_16 (bpb fp)) else t1);
          t3 = (if t2 = 0 then 8192 else t2);
          spc = sectors_per_cluster (bpb fp)
      in if spc = 0 then None else Some ((t3 - data_start fp) div ucast spc))"

lemma unat_inc32: "f < (n :: u32) \<Longrightarrow> unat (f + 1) = Suc (unat f)"
  using unsigned_less [of n, where 'a = nat] by (simp add: word_less_nat_alt unat_word_ariths)

function alloc_scan :: "'h ports \<Rightarrow> fat_private \<Rightarrow> u32 \<Rightarrow> u32 \<Rightarrow> u32 \<Rightarrow> u8 list \<Rightarrow> 'h \<Rightarrow> u32 \<times> 'h" where
  "alloc_scan io fp bound c loaded_sector buf h =
     (if c < bound
      then
        let fat_offset = c * 4;
            fat_sector = fat_start fp + fat_offset div 512;
            ent_off = unat (fat_offset mod 512);
            (r, buf1, h1) = (if fat_sector \<noteq> loaded_sector then read_sector io fp fat_sector h else (0, buf, h))
        in if r < 0 then (0, h1)
        else if (get_le 4 buf1 ent_off :: u32) AND 0x0FFFFFFF = 0 then (c, snd (fat_set_cluster io fp c FAT_EOC h1))
        else alloc_scan io fp bound (c + 1) fat_sector buf1 h1
      else (0, h))"
  by pat_completeness auto
termination
  by (relation "measure (\<lambda>(io, fp, bound, c, l, buf, h). unat bound - unat c)")
    (auto simp: unat_inc32 word_less_nat_alt)

declare alloc_scan.simps [simp del]

definition fat_alloc_cluster :: "'h ports \<Rightarrow> fat_private \<Rightarrow> 'h \<Rightarrow> (u32 \<times> 'h) option" where
  "fat_alloc_cluster io fp h = do {
     clusters \<leftarrow> fat_total_clusters fp;
     Some (alloc_scan io fp (clusters + 2) 2 0xFFFFFFFF [] h)
   }"

partial_function (option) fat_free_cluster_chain :: "'h ports \<Rightarrow> fat_private \<Rightarrow> u32 \<Rightarrow> 'h \<Rightarrow> 'h option" where
  "fat_free_cluster_chain io fp cluster h =
     (if 2 \<le> cluster \<and> cluster < FAT_EOC
      then
        let nxt = fst (fat_next_cluster io fp cluster h);
            h1 = snd (fat_next_cluster io fp cluster h);
            h2 = snd (fat_set_cluster io fp cluster 0 h1)
        in fat_free_cluster_chain io fp nxt h2
      else Some h)"

section \<open>Nodes and directory entries\<close>

definition fat_create_node ::
    "'h fatfs \<Rightarrow> cstring \<Rightarrow> u32 \<Rightarrow> u8 \<Rightarrow> u32 \<Rightarrow> u32 \<Rightarrow> u32 \<Rightarrow> u64 \<Rightarrow> u64 \<Rightarrow> (u64 \<times> 'h fatfs) option" where
  "fat_create_node s name sz flags cluster lba off fs parent = do {
     (node, k1) \<leftarrow> kmalloc (vheap s) 304;
     if node = NULL then Some (NULL, s\<lparr>vheap := k1\<rparr>)
     else do {
       (data, k2) \<leftarrow> kmalloc k1 12;
       if data = NULL then Some (NULL, s\<lparr>vheap := kfree k2 node\<rparr>)
       else Some (node, s\<lparr>vheap := k2,
         drive := (drive s)\<lparr>ndata := (ndata (drive s))(data := \<lparr>dcluster = cluster, dir_lba = lba, dir_off = off\<rparr>)\<rparr>,
         nodes := (nodes s)(node := \<lparr>nname = name, nsize = sz, nflags = flags, nfs = fs, nfs_data = data,
           nparent = parent, nchildren = NULL, nnext = NULL\<rparr>)\<rparr>)
     }
   }"

definition de_name :: "u8 list \<Rightarrow> nat \<Rightarrow> u8 list" where "de_name buf off = take 8 (drop off buf)"
definition de_ext :: "u8 list \<Rightarrow> nat \<Rightarrow> u8 list" where "de_ext buf off = take 3 (drop (off + 8) buf)"
definition de_attrs :: "u8 list \<Rightarrow> nat \<Rightarrow> u8" where "de_attrs buf off = get_le 1 buf (off + 11)"
definition de_cluster :: "u8 list \<Rightarrow> nat \<Rightarrow> u32" where
  "de_cluster buf off = push_bit 16 (ucast (get_le 2 buf (off + 20) :: u16)) OR ucast (get_le 2 buf (off + 26) :: u16)"
definition de_size :: "u8 list \<Rightarrow> nat \<Rightarrow> u32" where "de_size buf off = get_le 4 buf (off + 28)"

definition put_de_cluster :: "u8 list \<Rightarrow> nat \<Rightarrow> u32 \<Rightarrow> u8 list" where
  "put_de_cluster buf off c =
     put_le 2 (put_le 2 buf (off + 20) (ucast (drop_bit 16 c) :: u16)) (off + 26) (ucast (c AND 0xFFFF) :: u16)"

definition fat_update_dirent_size :: "'h ports \<Rightarrow> 'h fatfs \<Rightarrow> u64 \<Rightarrow> int \<times> 'h fatfs" where
  "fat_update_dirent_size io s node =
     (let fp = fat_get_private s node;
          data = nfs_data (nodes s node);
          nd = ndata (drive s) data
      in if data = NULL \<or> dir_lba nd = 0 then (0, s)
      else
        let (r, buf, h1) = read_sector io fp (dir_lba nd) (hw (drive s))
        in if r < 0 then (-1, set_hw h1 s)
        else
          let off = unat (dir_off nd);
              buf1 = put_de_cluster (put_le 4 buf (off + 28) (nsize (nodes s node))) off (dcluster nd);
              (r, h2) = write_sector io fp (dir_lba nd) buf1 h1
          in (r, set_hw h2 s))"

section \<open>Names\<close>

definition SPACE :: u8 where "SPACE = 0x20"
definition DOT :: u8 where "DOT = 0x2E"

definition lower8 :: "u8 \<Rightarrow> u8" where
  "lower8 c = (if 0x41 \<le> c \<and> c \<le> 0x5A then c - 0x41 + 0x61 else c)"

definition upper8 :: "u8 \<Rightarrow> u8" where
  "upper8 c = (if 0x61 \<le> c \<and> c \<le> 0x7A then c - 0x61 + 0x41 else c)"

definition fat_trim_name :: "u8 list \<Rightarrow> u8 list \<Rightarrow> cstring" where
  "fat_trim_name name ext =
     (let base = takeWhile (\<lambda>c. c \<noteq> 0 \<and> c \<noteq> SPACE) name;
          tail = (if ext ! 0 \<noteq> 0 \<and> ext ! 0 \<noteq> SPACE then DOT # takeWhile (\<lambda>c. c \<noteq> 0 \<and> c \<noteq> SPACE) ext else [])
      in map lower8 (base @ tail))"

definition char83 :: "u8 \<Rightarrow> bool" where
  "char83 c \<longleftrightarrow> 0x41 \<le> c \<and> c \<le> 0x5A \<or> 0x30 \<le> c \<and> c \<le> 0x39 \<or> c = 0x5F \<or> c = 0x2D"

text \<open>The loop of \<open>fat_name_to_83\<close>: the bytes put into name and extension so far, and whether the dot was seen.\<close>

fun name83_loop :: "cstring \<Rightarrow> u8 list \<Rightarrow> u8 list \<Rightarrow> bool \<Rightarrow> (u8 list \<times> u8 list) option" where
  "name83_loop [] ns es ext = Some (ns, es)"
| "name83_loop (c # cs) ns es ext =
     (if c = DOT then (if ext then None else name83_loop cs ns es True)
      else let c' = upper8 c in
        if \<not> char83 c' then None
        else if \<not> ext then (if length ns \<ge> 8 then None else name83_loop cs (ns @ [c']) es ext)
        else (if length es \<ge> 3 then None else name83_loop cs ns (es @ [c']) ext))"

definition fat_name_to_83 :: "cstring \<Rightarrow> (u8 list \<times> u8 list) option" where
  "fat_name_to_83 name =
     (case name83_loop name [] [] False of
        None \<Rightarrow> None
      | Some (ns, es) \<Rightarrow>
          if ns = [] then None
          else Some (ns @ replicate (8 - length ns) SPACE, es @ replicate (3 - length es) SPACE))"

section \<open>Reading\<close>

text \<open>The first loop: skip whole clusters; the cluster is \<open>None\<close> when the chain ended.\<close>

partial_function (option) read_skip :: "'h ports \<Rightarrow> fat_private \<Rightarrow> u32 \<Rightarrow> u64 \<Rightarrow> 'h \<Rightarrow> (u32 option \<times> u64 \<times> 'h) option" where
  "read_skip io fp cluster skip h =
     (if skip \<ge> ucast (bytes_per_cluster fp)
      then
        let nxt = fst (fat_next_cluster io fp cluster h); h1 = snd (fat_next_cluster io fp cluster h)
        in if nxt \<ge> FAT_EOC then Some (None, skip, h1)
           else read_skip io fp nxt (skip - ucast (bytes_per_cluster fp)) h1
      else Some (Some cluster, skip, h))"

text \<open>
  The loop over the sectors of a cluster: \<open>n\<close> sectors are left, the next one is \<open>lba\<close>, \<open>cdone\<close> bytes
  of \<open>to_read\<close> are done in this cluster and \<open>dn\<close> of \<open>sz\<close> in all. The result says whether the device
  failed, and has the bytes read, the new \<open>dn\<close> and the device.
\<close>

fun read_cluster :: "'h ports \<Rightarrow> fat_private \<Rightarrow> nat \<Rightarrow> u32 \<Rightarrow> u64 \<Rightarrow> u64 \<Rightarrow> u64 \<Rightarrow> u64 \<Rightarrow> u64 \<Rightarrow> 'h \<Rightarrow>
    bool \<times> u8 list \<times> u64 \<times> 'h" where
  "read_cluster io fp 0 lba byte_off to_read cdone dn sz h = (True, [], dn, h)"
| "read_cluster io fp (Suc n) lba byte_off to_read cdone dn sz h =
     (let (r, tmp, h1) = read_sector io fp lba h
      in if r < 0 then (False, [], dn, h1)
      else
        let c1 = 512 - byte_off;
            c2 = (if c1 > to_read - cdone then to_read - cdone else c1);
            cbytes = (if c2 > 512 then 512 else c2);
            bytes = take (unat cbytes) (drop (unat byte_off) tmp);
            dn1 = dn + cbytes
        in if dn1 \<ge> sz then (True, bytes, dn1, h1)
        else
          let (ok, more, dn2, h2) = read_cluster io fp n (lba + 1) 0 to_read (cdone + cbytes) dn1 sz h1
          in (ok, bytes @ more, dn2, h2))"

partial_function (option) read_loop :: "'h ports \<Rightarrow> fat_private \<Rightarrow> u32 \<Rightarrow> u64 \<Rightarrow> u64 \<Rightarrow> u64 \<Rightarrow> 'h \<Rightarrow>
    (int \<times> u8 list \<times> 'h) option" where
  "read_loop io fp cluster skip dn sz h =
     (if dn < sz
      then
        let lba = fat_cluster_to_lba fp cluster;
            t1 = ucast (bytes_per_cluster fp) - skip;
            to_read = (if t1 > sz - dn then sz - dn else t1);
            (ok, bytes, dn1, h1) = read_cluster io fp (unat ((to_read + 511) div 512)) (lba + ucast (skip div 512))
               (skip mod 512) to_read 0 dn sz h
        in if \<not> ok then Some (-1, bytes, h1)
        else if dn1 \<ge> sz then Some (sint (ucast dn1 :: u32), bytes, h1)
        else
          let nxt = fst (fat_next_cluster io fp cluster h1); h2 = snd (fat_next_cluster io fp cluster h1)
          in if nxt \<ge> FAT_EOC then Some (sint (ucast dn1 :: u32), bytes, h2)
          else do { (r, more, h3) \<leftarrow> read_loop io fp nxt 0 dn1 sz h2; Some (r, bytes @ more, h3) }
      else Some (sint (ucast dn :: u32), [], h))"

definition fat_read :: "'h ports \<Rightarrow> 'h fatfs \<Rightarrow> u64 \<Rightarrow> u64 \<Rightarrow> u64 \<Rightarrow> (int \<times> u8 list \<times> 'h fatfs) option" where
  "fat_read io s node offset sz = do {
     let fp = fat_get_private s node;
     (cluster, skip, h1) \<leftarrow> read_skip io fp (fat_node_cluster s node) offset (hw (drive s));
     case cluster of
       None \<Rightarrow> Some (-1, [], set_hw h1 s)
     | Some c \<Rightarrow> do { (r, bytes, h2) \<leftarrow> read_loop io fp c skip 0 sz h1; Some (r, bytes, set_hw h2 s) }
   }"

section \<open>Writing\<close>

text \<open>
  The first loop allocates clusters as it goes. The result has the cluster reached (\<open>None\<close> when the disk is
  full), the rest of the offset, the cluster that became the first one of the node, and the device.
\<close>

partial_function (option) write_skip :: "'h ports \<Rightarrow> fat_private \<Rightarrow> u32 \<Rightarrow> u64 \<Rightarrow> u32 option \<Rightarrow> 'h \<Rightarrow>
    (u32 option \<times> u64 \<times> u32 option \<times> 'h) option" where
  "write_skip io fp cluster skip first h =
     (if skip \<ge> ucast (bytes_per_cluster fp)
      then
        let nxt = fst (fat_next_cluster io fp cluster h); h1 = snd (fat_next_cluster io fp cluster h)
        in if nxt \<ge> FAT_EOC \<or> nxt = 0
           then do {
             (new, h2) \<leftarrow> fat_alloc_cluster io fp h1;
             if new = 0 then Some (None, skip, first, h2)
             else write_skip io fp new (skip - ucast (bytes_per_cluster fp))
               (if cluster \<noteq> 0 then first else Some new)
               (if cluster \<noteq> 0 then snd (fat_set_cluster io fp cluster new h2) else h2)
           }
           else write_skip io fp nxt (skip - ucast (bytes_per_cluster fp)) first h1
      else Some (Some cluster, skip, first, h))"

text \<open>The loop over the sectors of a cluster; \<open>input\<close> are the bytes from \<open>in + done\<close> on, \<open>sz - done\<close> many.\<close>

fun write_cluster :: "'h ports \<Rightarrow> fat_private \<Rightarrow> nat \<Rightarrow> u32 \<Rightarrow> nat \<Rightarrow> u8 list \<Rightarrow> u8 list \<Rightarrow> 'h \<Rightarrow> u8 list \<times> 'h" where
  "write_cluster io fp 0 lba byte_off tmp input h = (input, h)"
| "write_cluster io fp (Suc n) lba byte_off tmp input h =
     (let cbytes = min (512 - byte_off) (length input);
          (tmp1, h1) = (if byte_off > 0 \<or> cbytes < 512
             then let (_, bs, h') = read_sector io fp lba h in (overlay tmp bs, h') else (tmp, h));
          tmp2 = put_bytes tmp1 byte_off (take cbytes input);
          (_, h2) = write_sector io fp lba tmp2 h1;
          rest = drop cbytes input
      in if rest = [] then (rest, h2) else write_cluster io fp n (lba + 1) 0 tmp2 rest h2)"

text \<open>The main loop; the result has the bytes that are left, whether the function returns at once, and the device.\<close>

partial_function (option) write_loop :: "'h ports \<Rightarrow> u8 list \<Rightarrow> fat_private \<Rightarrow> u32 \<Rightarrow> u64 \<Rightarrow> u8 list \<Rightarrow> 'h \<Rightarrow>
    (u8 list \<times> bool \<times> 'h) option" where
  "write_loop io junk fp cluster skip input h =
     (if input = [] then Some (input, False, h)
      else
        let lba = fat_cluster_to_lba fp cluster;
            t1 = ucast (bytes_per_cluster fp) - skip;
            sz = of_nat (length input);
            to_write = (if t1 > sz then sz else t1);
            (rest, h1) = write_cluster io fp (unat ((to_write + 511) div 512)) (lba + ucast (skip div 512))
               (unat (skip mod 512)) junk input h
        in if rest = [] then Some (rest, False, h1)
        else
          let nxt = fst (fat_next_cluster io fp cluster h1); h2 = snd (fat_next_cluster io fp cluster h1)
          in if nxt \<ge> FAT_EOC \<or> nxt = 0
             then do {
               (new, h3) \<leftarrow> fat_alloc_cluster io fp h2;
               if new = 0 then Some (rest, True, h3)
               else write_loop io junk fp new 0 rest (snd (fat_set_cluster io fp cluster new h3))
             }
             else write_loop io junk fp nxt 0 rest h2)"

text \<open>\<open>junk\<close> is what the uninitialised buffer \<open>tmp\<close> holds.\<close>

definition fat_write :: "'h ports \<Rightarrow> u8 list \<Rightarrow> 'h fatfs \<Rightarrow> u64 \<Rightarrow> u64 \<Rightarrow> u8 list \<Rightarrow> (int \<times> 'h fatfs) option" where
  "fat_write io junk s node offset input =
     (if input = [] then Some (0, s)
      else do {
        let fp = fat_get_private s node;
        let data = nfs_data (nodes s node);
        (cluster, skip, first, h1) \<leftarrow> write_skip io fp (fat_node_cluster s node) offset None (hw (drive s));
        let s1 = set_hw h1 (case first of None \<Rightarrow> s
          | Some c \<Rightarrow> s\<lparr>drive := (drive s)\<lparr>ndata := (ndata (drive s))(data := (ndata (drive s) data)\<lparr>dcluster := c\<rparr>)\<rparr>\<rparr>);
        case cluster of
          None \<Rightarrow> Some (0, s1)
        | Some c \<Rightarrow> do {
            (rest, stop, h2) \<leftarrow> write_loop io junk fp c skip input h1;
            let s2 = set_hw h2 s1;
            let dn = (of_nat (length input - length rest) :: u64);
            if stop then Some (sint (ucast dn :: u32), s2)
            else do {
              let s3 = (if offset + dn > ucast (nsize (nodes s2 node))
                then s2\<lparr>nodes := (nodes s2)(node := (nodes s2 node)\<lparr>nsize := ucast (offset + dn)\<rparr>)\<rparr> else s2);
              Some (sint (ucast dn :: u32), snd (fat_update_dirent_size io s3 node))
            }
          }
      })"

section \<open>Directories\<close>

text \<open>Sector and offset of entry \<open>e\<close>, and the reading of its sector: again for every entry of sector 0, and at the start of a sector.\<close>

definition ent_sector :: "nat \<Rightarrow> nat" where "ent_sector e = e * 32 div 512"
definition ent_off :: "nat \<Rightarrow> nat" where "ent_off e = e * 32 mod 512"

definition dir_fetch :: "'h ports \<Rightarrow> fat_private \<Rightarrow> u32 \<Rightarrow> nat \<Rightarrow> u8 list \<Rightarrow> 'h \<Rightarrow> int \<times> u8 list \<times> 'h" where
  "dir_fetch io fp lba e buf h =
     (if ent_sector e = 0 \<or> ent_off e = 0 then read_sector io fp (lba + of_nat (ent_sector e)) h else (0, buf, h))"

definition entries_per_cluster :: "fat_private \<Rightarrow> nat" where
  "entries_per_cluster fp = unat (bytes_per_cluster fp div 32)"

text \<open>What a loop over the entries of a cluster does next.\<close>

datatype scan = Failed | Ended | Next

text \<open>The entries that \<open>fat_readdir\<close> and \<open>fat_unlink\<close> pass over.\<close>

definition de_skipped :: "u8 list \<Rightarrow> nat \<Rightarrow> bool" where
  "de_skipped buf off \<longleftrightarrow> de_name buf off ! 0 = 0xE5 \<or> de_attrs buf off = FAT_ATTR_LFN \<or> de_attrs buf off AND FAT_ATTR_VOLUME \<noteq> 0"

definition add_child :: "'h fatfs \<Rightarrow> u64 \<Rightarrow> u64 \<Rightarrow> 'h fatfs" where
  "add_child s parent child =
     (let s1 = s\<lparr>nodes := (nodes s)(child := (nodes s child)\<lparr>nnext := nchildren (nodes s parent)\<rparr>)\<rparr>
      in s1\<lparr>nodes := (nodes s1)(parent := (nodes s1 parent)\<lparr>nchildren := child\<rparr>)\<rparr>)"

text \<open>One entry of \<open>fat_readdir\<close> that is not passed over: the number of entries counted and the state.\<close>

definition readdir_entry :: "'h fatfs \<Rightarrow> u64 \<Rightarrow> u32 \<Rightarrow> u8 list \<Rightarrow> nat \<Rightarrow> (nat \<times> 'h fatfs) option" where
  "readdir_entry s node sector buf off = do {
     let name = fat_trim_name (de_name buf off) (de_ext buf off);
     let flags = (if de_attrs buf off AND FAT_ATTR_DIR \<noteq> 0 then VFS_DIR else VFS_FILE);
     existing \<leftarrow> find_child (nodes s) name (nchildren (nodes s node));
     if existing \<noteq> NULL then Some (1, s)
     else do {
       (child, s1) \<leftarrow> fat_create_node s name (de_size buf off) flags (de_cluster buf off) sector (of_nat off)
         (nfs (nodes s node)) node;
       if child = NULL then Some (0, s1) else Some (1, add_child s1 node child)
     }
   }"

text \<open>The loop over the entries of a cluster: \<open>n\<close> entries are left, \<open>cnt\<close> is \<open>entry_count\<close>.\<close>

fun readdir_cluster :: "'h ports \<Rightarrow> fat_private \<Rightarrow> u64 \<Rightarrow> u32 \<Rightarrow> nat \<Rightarrow> nat \<Rightarrow> u8 list \<Rightarrow> nat \<Rightarrow> 'h fatfs \<Rightarrow>
    (scan \<times> u8 list \<times> nat \<times> 'h fatfs) option" where
  "readdir_cluster io fp node lba e 0 buf cnt s = Some (Next, buf, cnt, s)"
| "readdir_cluster io fp node lba e (Suc n) buf cnt s =
     (let (r, buf1, h1) = dir_fetch io fp lba e buf (hw (drive s));
          s1 = set_hw h1 s;
          off = ent_off e
      in if r < 0 then Some (Failed, buf1, cnt, s1)
      else if de_name buf1 off ! 0 = 0 then Some (Ended, buf1, cnt, s1)
      else if de_skipped buf1 off then readdir_cluster io fp node lba (Suc e) n buf1 cnt s1
      else do {
        (k, s2) \<leftarrow> readdir_entry s1 node (lba + of_nat (ent_sector e)) buf1 off;
        readdir_cluster io fp node lba (Suc e) n buf1 (cnt + k) s2
      })"

partial_function (option) readdir_loop :: "'h ports \<Rightarrow> fat_private \<Rightarrow> u64 \<Rightarrow> u32 \<Rightarrow> u8 list \<Rightarrow> nat \<Rightarrow> 'h fatfs \<Rightarrow>
    (int \<times> 'h fatfs) option" where
  "readdir_loop io fp node cluster buf cnt s =
     (if cluster < FAT_EOC
      then do {
        (st, buf1, cnt1, s1) \<leftarrow> readdir_cluster io fp node (fat_cluster_to_lba fp cluster) 0 (entries_per_cluster fp) buf cnt s;
        (case st of
           Failed \<Rightarrow> Some (-1, s1)
         | Ended \<Rightarrow> Some (int cnt1, s1)
         | Next \<Rightarrow>
             let nxt = fst (fat_next_cluster io fp cluster (hw (drive s1)));
                 h = snd (fat_next_cluster io fp cluster (hw (drive s1)))
             in readdir_loop io fp node nxt buf1 cnt1 (set_hw h s1))
      }
      else Some (int cnt, s))"

definition fat_readdir :: "'h ports \<Rightarrow> 'h fatfs \<Rightarrow> u64 \<Rightarrow> (int \<times> 'h fatfs) option" where
  "fat_readdir io s node = readdir_loop io (fat_get_private s node) node (fat_node_cluster s node) [] 0 s"

text \<open>The directory entry of a new file, and the entries \<open>.\<close> and \<open>..\<close> of a new directory.\<close>

definition put_dirent :: "u8 list \<Rightarrow> nat \<Rightarrow> u8 list \<Rightarrow> u8 list \<Rightarrow> u8 \<Rightarrow> u32 \<Rightarrow> u8 list" where
  "put_dirent buf off name ext attrs cluster =
     put_bytes buf off (name @ ext @ [attrs, 0, 0] @ le_bytes 2 (0 :: u16) @ le_bytes 2 (0 :: u16) @ le_bytes 2 (0 :: u16) @
       le_bytes 2 (ucast (drop_bit 16 cluster) :: u16) @ le_bytes 2 (0 :: u16) @ le_bytes 2 (0 :: u16) @
       le_bytes 2 (ucast (cluster AND 0xFFFF) :: u16) @ le_bytes 4 (0 :: u32))"

definition dot_name :: "nat \<Rightarrow> u8 list" where "dot_name k = replicate k DOT @ replicate (8 - k) SPACE"

definition dot_sector :: "u32 \<Rightarrow> u32 \<Rightarrow> u8 list" where
  "dot_sector new_cluster dotdot_cluster =
     put_dirent (put_dirent (replicate 512 0) 0 (dot_name 1) (replicate 3 SPACE) FAT_ATTR_DIR new_cluster)
       32 (dot_name 2) (replicate 3 SPACE) FAT_ATTR_DIR dotdot_cluster"

fun zero_sectors :: "'h ports \<Rightarrow> fat_private \<Rightarrow> u32 \<Rightarrow> nat \<Rightarrow> 'h \<Rightarrow> 'h" where
  "zero_sectors io fp lba 0 h = h"
| "zero_sectors io fp lba (Suc n) h = zero_sectors io fp (lba + 1) n (snd (write_sector io fp lba (replicate 512 0) h))"

definition init_cluster :: "'h ports \<Rightarrow> fat_private \<Rightarrow> u8 \<Rightarrow> u32 \<Rightarrow> u32 \<Rightarrow> 'h \<Rightarrow> 'h" where
  "init_cluster io fp flags new_cluster dotdot_cluster h =
     (let new_lba = fat_cluster_to_lba fp new_cluster; n = unat (sectors_per_cluster (bpb fp))
      in if flags AND VFS_DIR \<noteq> 0
         then zero_sectors io fp (new_lba + 1) (n - 1)
           (snd (write_sector io fp new_lba (dot_sector new_cluster dotdot_cluster) h))
         else zero_sectors io fp new_lba n h)"

text \<open>The use of a free entry: allocate and initialise a cluster, write the entry, add the node.\<close>

definition create_entry :: "'h ports \<Rightarrow> fat_private \<Rightarrow> u64 \<Rightarrow> cstring \<Rightarrow> u8 list \<Rightarrow> u8 list \<Rightarrow> u8 \<Rightarrow> u32 \<Rightarrow> u32 \<Rightarrow> u8 list \<Rightarrow> nat \<Rightarrow>
    'h fatfs \<Rightarrow> (u64 \<times> 'h fatfs) option" where
  "create_entry io fp parent name fat_name fat_ext flags parent_dir_cluster sector buf off s = do {
     (new_cluster, h1) \<leftarrow> fat_alloc_cluster io fp (hw (drive s));
     if new_cluster = 0 then Some (NULL, set_hw h1 s)
     else do {
       let dotdot_cluster = (if parent = fs_root s (nfs (nodes s parent)) then 0 else parent_dir_cluster);
       let h2 = init_cluster io fp flags new_cluster dotdot_cluster h1;
       let buf1 = put_dirent buf off fat_name fat_ext (if flags AND VFS_DIR \<noteq> 0 then FAT_ATTR_DIR else FAT_ATTR_ARCHIVE) new_cluster;
       let (r, h3) = write_sector io fp sector buf1 h2;
       let s1 = set_hw h3 s;
       if r < 0 then Some (NULL, s1)
       else do {
         (child, s2) \<leftarrow> fat_create_node s1 name 0 flags new_cluster sector (of_nat off) (nfs (nodes s1 parent)) parent;
         if child = NULL then Some (NULL, s2) else Some (child, add_child s2 parent child)
       }
     }
   }"

text \<open>The loops of \<open>fat_create\<close>; a result \<open>Some\<close> inside is the return value.\<close>

fun create_cluster :: "'h ports \<Rightarrow> fat_private \<Rightarrow> u64 \<Rightarrow> cstring \<Rightarrow> u8 list \<Rightarrow> u8 list \<Rightarrow> u8 \<Rightarrow> u32 \<Rightarrow> u32 \<Rightarrow> nat \<Rightarrow> nat \<Rightarrow> u8 list \<Rightarrow>
    'h fatfs \<Rightarrow> (u64 option \<times> u8 list \<times> 'h fatfs) option" where
  "create_cluster io fp parent name fat_name fat_ext flags pdc lba e 0 buf s = Some (None, buf, s)"
| "create_cluster io fp parent name fat_name fat_ext flags pdc lba e (Suc n) buf s =
     (let (r, buf1, h1) = dir_fetch io fp lba e buf (hw (drive s));
          s1 = set_hw h1 s;
          off = ent_off e
      in if r < 0 then Some (Some NULL, buf1, s1)
      else if de_name buf1 off ! 0 \<noteq> 0 \<and> de_name buf1 off ! 0 \<noteq> 0xE5
      then create_cluster io fp parent name fat_name fat_ext flags pdc lba (Suc e) n buf1 s1
      else do {
        (child, s2) \<leftarrow> create_entry io fp parent name fat_name fat_ext flags pdc (lba + of_nat (ent_sector e)) buf1 off s1;
        Some (Some child, buf1, s2)
      })"

partial_function (option) create_loop :: "'h ports \<Rightarrow> fat_private \<Rightarrow> u64 \<Rightarrow> cstring \<Rightarrow> u8 list \<Rightarrow> u8 list \<Rightarrow> u8 \<Rightarrow> u32 \<Rightarrow> u32 \<Rightarrow> u8 list \<Rightarrow>
    'h fatfs \<Rightarrow> (u64 \<times> 'h fatfs) option" where
  "create_loop io fp parent name fat_name fat_ext flags pdc cluster buf s =
     (if cluster < FAT_EOC
      then do {
        (res, buf1, s1) \<leftarrow> create_cluster io fp parent name fat_name fat_ext flags pdc
          (fat_cluster_to_lba fp cluster) 0 (entries_per_cluster fp) buf s;
        (case res of
           Some child \<Rightarrow> Some (child, s1)
         | None \<Rightarrow>
             let nxt = fst (fat_next_cluster io fp cluster (hw (drive s1)));
                 h = snd (fat_next_cluster io fp cluster (hw (drive s1)))
             in create_loop io fp parent name fat_name fat_ext flags pdc nxt buf1 (set_hw h s1))
      }
      else Some (NULL, s))"

definition fat_create :: "'h ports \<Rightarrow> 'h fatfs \<Rightarrow> u64 \<Rightarrow> cstring \<Rightarrow> u8 \<Rightarrow> (u64 \<times> 'h fatfs) option" where
  "fat_create io s parent name flags =
     (if flags AND (VFS_FILE OR VFS_DIR) = 0 then Some (NULL, s)
      else let cluster = fat_node_cluster s parent in
        case fat_name_to_83 name of
          None \<Rightarrow> Some (NULL, s)
        | Some (fat_name, fat_ext) \<Rightarrow>
            create_loop io (fat_get_private s parent) parent name fat_name fat_ext flags cluster cluster [] s)"

text \<open>The loops of \<open>fat_unlink\<close>.\<close>

fun unlink_cluster :: "'h ports \<Rightarrow> fat_private \<Rightarrow> u8 list \<Rightarrow> u8 list \<Rightarrow> u32 \<Rightarrow> nat \<Rightarrow> nat \<Rightarrow> u8 list \<Rightarrow> 'h \<Rightarrow>
    (int option \<times> u8 list \<times> 'h) option" where
  "unlink_cluster io fp fat_name fat_ext lba e 0 buf h = Some (None, buf, h)"
| "unlink_cluster io fp fat_name fat_ext lba e (Suc n) buf h =
     (let (r, buf1, h1) = dir_fetch io fp lba e buf h;
          off = ent_off e;
          sector = lba + of_nat (ent_sector e)
      in if r < 0 then Some (Some (-1), buf1, h1)
      else if de_name buf1 off ! 0 = 0 then Some (Some (-1), buf1, snd (write_sector io fp sector buf1 h1))
      else if de_skipped buf1 off \<or> de_name buf1 off \<noteq> fat_name \<or> de_ext buf1 off \<noteq> fat_ext
      then unlink_cluster io fp fat_name fat_ext lba (Suc e) n buf1 h1
      else
        let file_cluster = de_cluster buf1 off;
            buf2 = buf1[off := 0xE5];
            (r, h2) = write_sector io fp sector buf2 h1
        in if r < 0 then Some (Some (-1), buf2, h2)
        else if 2 \<le> file_cluster \<and> file_cluster < FAT_EOC
        then map_option (\<lambda>h3. (Some 0, buf2, h3)) (fat_free_cluster_chain io fp file_cluster h2)
        else Some (Some 0, buf2, h2))"

partial_function (option) unlink_loop :: "'h ports \<Rightarrow> fat_private \<Rightarrow> u8 list \<Rightarrow> u8 list \<Rightarrow> u32 \<Rightarrow> u8 list \<Rightarrow> 'h \<Rightarrow> (int \<times> 'h) option" where
  "unlink_loop io fp fat_name fat_ext cluster buf h =
     (if cluster < FAT_EOC
      then do {
        (res, buf1, h1) \<leftarrow> unlink_cluster io fp fat_name fat_ext (fat_cluster_to_lba fp cluster) 0 (entries_per_cluster fp) buf h;
        (case res of
           Some r \<Rightarrow> Some (r, h1)
         | None \<Rightarrow> unlink_loop io fp fat_name fat_ext (fst (fat_next_cluster io fp cluster h1)) buf1
                     (snd (fat_next_cluster io fp cluster h1)))
      }
      else Some (-1, h))"

definition fat_unlink :: "'h ports \<Rightarrow> 'h fatfs \<Rightarrow> u64 \<Rightarrow> cstring \<Rightarrow> (int \<times> 'h fatfs) option" where
  "fat_unlink io s parent name =
     (case fat_name_to_83 name of
        None \<Rightarrow> Some (-1, s)
      | Some (fat_name, fat_ext) \<Rightarrow> do {
          (r, h) \<leftarrow> unlink_loop io (fat_get_private s parent) fat_name fat_ext (fat_node_cluster s parent) [] (hw (drive s));
          Some (r, set_hw h s)
        })"

section \<open>Mounting\<close>

definition fat_ops :: "'h ports \<Rightarrow> u8 list \<Rightarrow> 'h fat_state fs_ops" where
  "fat_ops io junk =
     \<lparr>op_read = Some (fat_read io), op_write = Some (fat_write io junk), op_readdir = Some (fat_readdir io),
      op_create = Some (fat_create io), op_unlink = Some (fat_unlink io)\<rparr>"

definition fat_layout :: "int \<Rightarrow> bool \<Rightarrow> fat_bpb \<Rightarrow> fat_private" where
  "fat_layout bus master b =
     (let root_sectors = (ucast (root_max_entries b) * 32 + ucast (bytes_per_sector b) - 1) div ucast (bytes_per_sector b) :: u32;
          start = ucast (reserved_sectors b)
      in \<lparr>fbus = bus, fmaster = master, bpb = b, fat_start = start,
          data_start = start + ucast (fat_count b) * fat_size_32 b + root_sectors,
          sectors_per_fat = fat_size_32 b, root_cluster = bpb_root_cluster b,
          bytes_per_cluster = ucast (bytes_per_sector b) * ucast (sectors_per_cluster b)\<rparr>)"

text \<open>The tests of the boot sector.\<close>

definition bpb_accepted :: "fat_bpb \<Rightarrow> bool" where
  "bpb_accepted b \<longleftrightarrow> bytes_per_sector b = 512 \<and> (bpb_sig b = 0x29 \<or> bpb_sig b = 0x28) \<and> fat_size_32 b \<noteq> 0"

definition fat_mount :: "'h ports \<Rightarrow> 'h fatfs \<Rightarrow> int \<Rightarrow> bool \<Rightarrow> (u64 \<times> 'h fatfs) option" where
  "fat_mount io s bus master = do {
     (fp, k1) \<leftarrow> kmalloc (vheap s) 120;
     if fp = NULL then Some (NULL, s\<lparr>vheap := k1\<rparr>)
     else do {
       let (r, buf, h1) = ata_read_sectors io bus master 0 1 (hw (drive s));
       let s1 = set_hw h1 s;
       let b = read_bpb buf;
       if r < 0 \<or> \<not> bpb_accepted b then Some (NULL, s1\<lparr>vheap := kfree k1 fp\<rparr>)
       else do {
         let priv = fat_layout bus master b;
         (fs, k2) \<leftarrow> kmalloc k1 88;
         if fs = NULL then Some (NULL, s1\<lparr>vheap := kfree k2 fp\<rparr>)
         else do {
           (root, s2) \<leftarrow> fat_create_node (s1\<lparr>vheap := k2\<rparr>) [SLASH] 0 VFS_DIR (root_cluster priv) 0 0 fs NULL;
           Some (fs, s2\<lparr>fs_root := (fs_root s2)(fs := root),
             drive := (drive s2)\<lparr>fprivate := (fprivate (drive s2))(fs := priv)\<rparr>\<rparr>)
         }
       }
     }
   }"

end
