(* ===== verification/FatTable.thy ===== *)
theory FatTable
  imports Fat
begin

text \<open>
  The file allocation table and the names of the FAT driver. \<open>fat_entry\<close> is the table as the driver
  sees it, a function from cluster numbers; the locale \<open>fat_volume\<close> states the contract of the device
  and the geometry of a volume, and in it the operations on the table are shown to be lookup and update of
  that function.
\<close>

section \<open>Volumes\<close>

definition fat_entry :: "fat_private \<Rightarrow> (u32 \<Rightarrow> u8 list) \<Rightarrow> u32 \<Rightarrow> u32" where
  "fat_entry fp sec c = get_le 4 (sec (fat_start fp + c * 4 div 512)) (unat (c * 4 mod 512)) AND 0x0FFFFFFF"

text \<open>The cluster has an entry in the table.\<close>

definition in_fat :: "fat_private \<Rightarrow> u32 \<Rightarrow> bool" where
  "in_fat fp c \<longleftrightarrow> unat c < 128 * unat (sectors_per_fat fp)"

text \<open>The sector belongs to a copy of the table.\<close>

definition fat_area :: "fat_private \<Rightarrow> u32 \<Rightarrow> bool" where
  "fat_area fp l \<longleftrightarrow> unat (fat_start fp) \<le> unat l \<and>
     unat l < unat (fat_start fp) + unat (fat_count (bpb fp)) * unat (sectors_per_fat fp)"

text \<open>512-byte sectors, at least one copy of the table, and the copies lie before the data, within 28-bit addresses.\<close>

definition fat_geometry :: "fat_private \<Rightarrow> bool" where
  "fat_geometry fp \<longleftrightarrow> bytes_per_sector (bpb fp) = 512 \<and> fat_count (bpb fp) \<noteq> 0 \<and>
     sectors_per_cluster (bpb fp) \<noteq> 0 \<and> bytes_per_cluster fp = 512 * ucast (sectors_per_cluster (bpb fp)) \<and>
     unat (fat_start fp) + unat (fat_count (bpb fp)) * unat (sectors_per_fat fp) \<le> unat (data_start fp) \<and>
     unat (data_start fp) < 2 ^ 28 \<and> unat (sectors_per_fat fp) \<le> 2 ^ 21"

text \<open>The first free entry from \<open>c\<close> on, and that there is none.\<close>

definition first_free :: "(u32 \<Rightarrow> u32) \<Rightarrow> u32 \<Rightarrow> u32 \<Rightarrow> u32 \<Rightarrow> bool" where
  "first_free E c bound c' \<longleftrightarrow> c \<le> c' \<and> c' < bound \<and> E c' = 0 \<and> (\<forall>k. c \<le> k \<and> k < c' \<longrightarrow> E k \<noteq> 0)"

definition none_free :: "(u32 \<Rightarrow> u32) \<Rightarrow> u32 \<Rightarrow> u32 \<Rightarrow> bool" where
  "none_free E c bound \<longleftrightarrow> (\<forall>k. c \<le> k \<and> k < bound \<longrightarrow> E k \<noteq> 0)"

lemma word_le_cases:
  assumes "c < (bound :: u32)"
  shows "c \<le> k \<longleftrightarrow> k = c \<or> c + 1 \<le> k"
  using unat_inc32 [OF assms] by (auto simp: word_le_nat_alt word_unat_eq_iff)

lemma first_free_step: "c < bound \<Longrightarrow> E c \<noteq> 0 \<Longrightarrow> first_free E (c + 1) bound c' \<Longrightarrow> first_free E c bound c'"
  unfolding first_free_def by (metis word_le_cases)

lemma none_free_step: "c < bound \<Longrightarrow> E c \<noteq> 0 \<Longrightarrow> none_free E (c + 1) bound \<Longrightarrow> none_free E c bound"
  unfolding none_free_def by (metis word_le_cases)

text \<open>The clusters of a chain that ends; the table is a function, so no cluster occurs twice.\<close>

inductive chain :: "fat_private \<Rightarrow> (u32 \<Rightarrow> u32) \<Rightarrow> u32 \<Rightarrow> u32 list \<Rightarrow> bool" for fp E where
  chain_end: "c < 2 \<or> FAT_EOC \<le> c \<Longrightarrow> chain fp E c []"
| chain_step: "2 \<le> c \<Longrightarrow> c < FAT_EOC \<Longrightarrow> in_fat fp c \<Longrightarrow> chain fp E (E c) cs \<Longrightarrow> chain fp E c (c # cs)"

inductive_cases chain_NilE: "chain fp E c []"
inductive_cases chain_ConsE: "chain fp E c (d # cs)"

lemma chain_unique: "chain fp E c cs \<Longrightarrow> chain fp E c cs' \<Longrightarrow> cs = cs'"
proof (induction arbitrary: cs' rule: chain.induct)
  case (chain_end c)
  show ?case using chain_end(2) by (rule chain.cases) (use chain_end(1) in auto)
next
  case (chain_step c cs)
  have "\<exists>ds. cs' = c # ds \<and> chain fp E (E c) ds"
    using chain_step.prems by (rule chain.cases) (use chain_step.hyps(1,2) in auto)
  then show ?case using chain_step.IH by blast
qed

lemma chain_suffix: "chain fp E c cs \<Longrightarrow> d \<in> set cs \<Longrightarrow> \<exists>k. chain fp E d (drop k cs)"
proof (induction rule: chain.induct)
  case (chain_step c cs)
  show ?case
  proof (cases "d = c")
    case True
    then show ?thesis using chain.chain_step [OF chain_step(1-4)] by (metis drop0)
  next
    case False
    then show ?thesis using chain_step by (metis drop_Suc_Cons set_ConsD)
  qed
qed simp

lemma chain_distinct: "chain fp E c cs \<Longrightarrow> distinct cs"
proof (induction rule: chain.induct)
  case (chain_step c cs)
  have "c \<notin> set cs"
  proof
    assume "c \<in> set cs"
    then obtain k where "chain fp E c (drop k cs)" using chain_suffix [OF chain_step(4)] by blast
    then have "c # cs = drop k cs" using chain_unique chain.chain_step [OF chain_step(1-4)] by blast
    then show False by (metis impossible_Cons length_drop diff_le_self)
  qed
  then show ?case using chain_step by simp
qed simp

lemma chain_in_fat: "chain fp E c cs \<Longrightarrow> d \<in> set cs \<Longrightarrow> in_fat fp d"
  by (induction rule: chain.induct) auto

lemma chain_cong: "chain fp E c cs \<Longrightarrow> (\<And>d. d \<in> set cs \<Longrightarrow> E' d = E d) \<Longrightarrow> chain fp E' c cs"
  by (induction rule: chain.induct) (auto intro: chain.intros)

locale fat_volume = block_device "read_sector io fp" "write_sector io fp" ready sector
  for io :: "'h ports" and fp :: fat_private and ready :: "'h \<Rightarrow> bool" and sector :: "'h \<Rightarrow> u32 \<Rightarrow> u8 list" +
  assumes geometry: "fat_geometry fp"
begin

lemma geometry_simps:
  "bytes_per_sector (bpb fp) = 512" "fat_count (bpb fp) \<noteq> 0" "sectors_per_cluster (bpb fp) \<noteq> 0"
  using geometry by (simp_all add: fat_geometry_def)

lemma unat_copy:
  assumes "unat rel < unat (sectors_per_fat fp)" "i < unat (fat_count (bpb fp))"
  shows "unat (fat_start fp + of_nat i * sectors_per_fat fp + rel) = unat (fat_start fp) + i * unat (sectors_per_fat fp) + unat rel"
    "fat_start fp + of_nat i * sectors_per_fat fp + rel < 0x10000000"
proof -
  have "i * unat (sectors_per_fat fp) + unat rel < Suc i * unat (sectors_per_fat fp)" using assms by simp
  also have "\<dots> \<le> unat (fat_count (bpb fp)) * unat (sectors_per_fat fp)" using assms(2) by (intro mult_right_mono) simp_all
  finally have b: "unat (fat_start fp) + i * unat (sectors_per_fat fp) + unat rel < 2 ^ 28"
    using geometry by (simp add: fat_geometry_def)
  have i: "unat (of_nat i :: u32) = i"
    using assms(2) unsigned_less [of "fat_count (bpb fp)", where 'a = nat] by (simp add: unat_of_nat)
  show u: "unat (fat_start fp + of_nat i * sectors_per_fat fp + rel) = unat (fat_start fp) + i * unat (sectors_per_fat fp) + unat rel"
    using b by (simp add: unat_word_ariths i)
  show "fat_start fp + of_nat i * sectors_per_fat fp + rel < 0x10000000" using b u by (simp add: word_less_nat_alt)
qed

lemma in_fat_sector:
  assumes "in_fat fp c"
  shows "unat (c * 4 div 512) = unat c div 128" "unat (c * 4 mod 512) = 4 * (unat c mod 128)"
    "unat (c * 4 div 512) < unat (sectors_per_fat fp)" "unat (c * 4 mod 512) + 4 \<le> 512"
proof -
  have c: "unat c < 2 ^ 28" using assms geometry by (simp add: in_fat_def fat_geometry_def)
  then have m: "unat (c * 4) = 4 * unat c" by (simp add: unat_word_ariths)
  show d: "unat (c * 4 div 512) = unat c div 128" by (simp add: unat_div m)
  show o: "unat (c * 4 mod 512) = 4 * (unat c mod 128)" using mult_mod_right [of 4 "unat c" 128] by (simp add: unat_mod m)
  show "unat (c * 4 div 512) < unat (sectors_per_fat fp)" using assms unfolding d in_fat_def by (simp add: less_mult_imp_div_less)
  show "unat (c * 4 mod 512) + 4 \<le> 512" unfolding o using mod_less_divisor [of 128 "unat c"] by linarith
qed

lemma fat_sector_valid:
  assumes "in_fat fp c"
  shows "fat_start fp + c * 4 div 512 < 0x10000000"
proof -
  have "0 < unat (fat_count (bpb fp))" using geometry_simps(2) by (simp add: unat_gt_0)
  then show ?thesis using unat_copy(2) [OF in_fat_sector(3) [OF assms], of 0] by simp
qed

lemma next_cluster:
  assumes "ready h" "in_fat fp c"
  shows "\<exists>h'. fat_next_cluster io fp c h = (fat_entry fp (sector h) c, h') \<and> ready h' \<and> sector h' = sector h"
  using read_valid [OF assms(1) fat_sector_valid [OF assms(2)]]
  by (auto simp: fat_next_cluster_def geometry_simps fat_entry_def Let_def)

lemma write_fats:
  assumes "unat rel < unat (sectors_per_fat fp)" "i + n \<le> unat (fat_count (bpb fp))" "ready h" "length buf = 512"
  shows "\<exists>h'. write_fats io fp rel buf i n h = (0, h') \<and> ready h' \<and>
      sector h' = (\<lambda>l. if \<exists>j. i \<le> j \<and> j < i + n \<and> l = fat_start fp + of_nat j * sectors_per_fat fp + rel then buf else sector h l)"
  using assms(2,3)
proof (induction n arbitrary: i h)
  case (Suc n)
  let ?l = "fat_start fp + of_nat i * sectors_per_fat fp + rel"
  have "?l < 0x10000000" using unat_copy(2) [OF assms(1)] Suc.prems(1) by simp
  then obtain h1 where h1: "write_sector io fp ?l buf h = (0, h1)" "ready h1" "sector h1 = (sector h)(?l := buf)"
    using write_cases [OF Suc.prems(2) _ assms(4)] by metis
  obtain h' where h': "write_fats io fp rel buf (Suc i) n h1 = (0, h')" "ready h'"
      "sector h' = (\<lambda>l. if \<exists>j. Suc i \<le> j \<and> j < Suc i + n \<and> l = fat_start fp + of_nat j * sectors_per_fat fp + rel then buf else sector h1 l)"
    using Suc.IH [of "Suc i" h1] Suc.prems(1) h1(2) by auto
  have ex: "(\<exists>j. i \<le> j \<and> j < i + Suc n \<and> l = fat_start fp + of_nat j * sectors_per_fat fp + rel) \<longleftrightarrow>
      l = ?l \<or> (\<exists>j. Suc i \<le> j \<and> j < Suc i + n \<and> l = fat_start fp + of_nat j * sectors_per_fat fp + rel)" for l
    by (metis Suc_le_eq add_Suc_right add_Suc le_eq_less_or_eq less_add_Suc1)
  have if2: "(if P then a else if Q then a else b) = (if Q \<or> P then a else b)" for P Q and a b :: "u8 list" by simp
  have "sector h' = (\<lambda>l. if \<exists>j. i \<le> j \<and> j < i + Suc n \<and> l = fat_start fp + of_nat j * sectors_per_fat fp + rel then buf else sector h l)"
    unfolding h'(3) h1(3) ex fun_upd_apply by (rule ext) (rule if2)
  then show ?case using h1(1) h'(1,2) by simp
qed (auto simp: fun_eq_iff)

text \<open>Two entries with the same sector and offset are the same entry.\<close>

lemma entry_inject:
  assumes "in_fat fp c" "in_fat fp c'" "c * 4 div 512 = c' * 4 div 512" "c \<noteq> c'"
  shows "unat (c' * 4 mod 512) + 4 \<le> unat (c * 4 mod 512) \<or> unat (c * 4 mod 512) + 4 \<le> unat (c' * 4 mod 512)"
proof -
  have "unat c div 128 = unat c' div 128"
    using arg_cong [OF assms(3), of unat] unfolding in_fat_sector(1) [OF assms(1)] in_fat_sector(1) [OF assms(2)] .
  then have "unat c mod 128 \<noteq> unat c' mod 128" using assms(4) by (metis div_mult_mod_eq word_unat_eq_iff)
  then show ?thesis unfolding in_fat_sector(2) [OF assms(1)] in_fat_sector(2) [OF assms(2)] by linarith
qed

lemma and_28_and_28: "(x AND 0xF0000000 OR v AND 0x0FFFFFFF) AND 0x0FFFFFFF = (v :: u32) AND 0x0FFFFFFF"
proof -
  have "(0xF0000000 :: u32) AND 0x0FFFFFFF = 0" by simp
  then have "x AND 0xF0000000 AND 0x0FFFFFFF = 0" by (metis and.assoc and_zero_eq)
  then show ?thesis by (simp add: and.assoc bit.conj_disj_distrib2)
qed

lemma set_cluster:
  assumes "ready h" "in_fat fp c"
  shows "\<exists>h'. fat_set_cluster io fp c v h = (0, h') \<and> ready h' \<and>
      (\<forall>c'. in_fat fp c' \<longrightarrow> fat_entry fp (sector h') c' = (if c' = c then v AND 0x0FFFFFFF else fat_entry fp (sector h) c')) \<and>
      (\<forall>l. \<not> fat_area fp l \<longrightarrow> sector h' l = sector h l)"
proof -
  define rel where "rel = c * 4 div 512"
  define off where "off = unat (c * 4 mod 512)"
  have rel: "unat rel < unat (sectors_per_fat fp)" unfolding rel_def by (rule in_fat_sector(3) [OF assms(2)])
  have off: "off + 4 \<le> 512" unfolding off_def by (rule in_fat_sector(4) [OF assms(2)])
  obtain h1 where h1: "read_sector io fp (fat_start fp + rel) h = (0, sector h (fat_start fp + rel), h1)" "ready h1" "sector h1 = sector h"
    using read_cases [OF assms(1) fat_sector_valid [OF assms(2)]] unfolding rel_def by metis
  define old where "old = sector h (fat_start fp + rel)"
  define buf where "buf = put_le 4 old off ((get_le 4 old off :: u32) AND 0xF0000000 OR v AND 0x0FFFFFFF)"
  have old: "length old = 512" unfolding old_def by (rule sector_length [OF assms(1)])
  have buf: "length buf = 512" using old off by (simp add: buf_def)
  obtain h' where h': "write_fats io fp rel buf 0 (unat (fat_count (bpb fp))) h1 = (0, h')" "ready h'"
      "sector h' = (\<lambda>l. if \<exists>j. 0 \<le> j \<and> j < 0 + unat (fat_count (bpb fp)) \<and> l = fat_start fp + of_nat j * sectors_per_fat fp + rel
         then buf else sector h1 l)"
    using write_fats [OF rel _ h1(2) buf, of 0 "unat (fat_count (bpb fp))"] by auto
  have run: "fat_set_cluster io fp c v h = (0, h')"
    using h1(1) h'(1) by (simp add: fat_set_cluster_def geometry_simps Let_def rel_def off_def buf_def old_def)
  have n: "0 < unat (fat_count (bpb fp))" using geometry_simps(2) by (simp add: unat_gt_0)
  have copy: "sector h' (fat_start fp + rel') = (if rel' = rel then buf else sector h (fat_start fp + rel'))"
    if r': "unat rel' < unat (sectors_per_fat fp)" for rel'
  proof (cases "rel' = rel")
    case True
    then show ?thesis unfolding h'(3) using n by (auto intro!: exI [of _ 0])
  next
    case False
    have "fat_start fp + rel' \<noteq> fat_start fp + of_nat j * sectors_per_fat fp + rel" if j: "j < unat (fat_count (bpb fp))" for j
    proof
      assume "fat_start fp + rel' = fat_start fp + of_nat j * sectors_per_fat fp + rel"
      from arg_cong [OF this, of unat] have "unat rel' = j * unat (sectors_per_fat fp) + unat rel"
        unfolding unat_copy(1) [OF rel j] using unat_copy(1) [OF r' n] by simp
      then show False using r' False by (cases j) (simp_all add: word_unat_eq_iff)
    qed
    then show ?thesis unfolding h'(3) using False h1(3) by auto
  qed
  have "fat_entry fp (sector h') c' = (if c' = c then v AND 0x0FFFFFFF else fat_entry fp (sector h) c')" if c': "in_fat fp c'" for c'
  proof (cases "c' * 4 div 512 = rel")
    case False
    then show ?thesis using copy [OF in_fat_sector(3) [OF c']] by (auto simp: fat_entry_def rel_def)
  next
    case True
    then have s: "sector h' (fat_start fp + c' * 4 div 512) = buf" using copy [OF in_fat_sector(3) [OF c']] by simp
    show ?thesis
    proof (cases "c' = c")
      case True
      have "get_le 4 buf off = (get_le 4 old off :: u32) AND 0xF0000000 OR v AND 0x0FFFFFFF"
        unfolding buf_def using off old by (intro get_put_le) simp_all
      then show ?thesis using True s and_28_and_28 by (simp add: fat_entry_def off_def [symmetric])
    next
      case False
      have "(get_le 4 buf (unat (c' * 4 mod 512)) :: u32) = get_le 4 old (unat (c' * 4 mod 512))"
        unfolding buf_def using off old entry_inject [OF assms(2) c' _ False [symmetric]] True
        by (intro get_put_le_other) (auto simp: off_def rel_def)
      then show ?thesis using False True s by (simp add: fat_entry_def old_def)
    qed
  qed
  moreover have "sector h' l = sector h l" if "\<not> fat_area fp l" for l
  proof -
    have "l \<noteq> fat_start fp + of_nat j * sectors_per_fat fp + rel" if j: "j < unat (fat_count (bpb fp))" for j
    proof
      assume l: "l = fat_start fp + of_nat j * sectors_per_fat fp + rel"
      have "j * unat (sectors_per_fat fp) + unat rel < Suc j * unat (sectors_per_fat fp)" using rel by simp
      also have "\<dots> \<le> unat (fat_count (bpb fp)) * unat (sectors_per_fat fp)" using j by (intro mult_right_mono) simp_all
      finally show False using \<open>\<not> fat_area fp l\<close> unat_copy(1) [OF rel j] unfolding l fat_area_def by simp
    qed
    then show ?thesis unfolding h'(3) h1(3) by auto
  qed
  ultimately show ?thesis using run h'(2) by blast
qed

text \<open>The scan for a free cluster, with the sector buffer it keeps.\<close>

lemma alloc_scan:
  assumes "ready h" "\<And>c'. c' < bound \<Longrightarrow> in_fat fp c'"
    and "loaded = 0xFFFFFFFF \<or> buf = sector h loaded"
  shows "(\<exists>c' h1. alloc_scan io fp bound c loaded buf h = (c', snd (fat_set_cluster io fp c' FAT_EOC h1)) \<and>
        ready h1 \<and> sector h1 = sector h \<and> first_free (fat_entry fp (sector h)) c bound c') \<or>
      (\<exists>h'. alloc_scan io fp bound c loaded buf h = (0, h') \<and> ready h' \<and> sector h' = sector h \<and>
        none_free (fat_entry fp (sector h)) c bound)"
  using assms(1,3)
proof (induction "unat bound - unat c" arbitrary: c loaded buf h rule: less_induct)
  case less
  show ?case
  proof (cases "c < bound")
    case False
    then show ?thesis using less.prems(1) by (auto simp: alloc_scan.simps [of io fp bound c] none_free_def)
  next
    case True
    define fs where "fs = fat_start fp + c * 4 div 512"
    have inf: "in_fat fp c" by (rule assms(2) [OF True])
    have fs: "fs < 0x10000000" unfolding fs_def by (rule fat_sector_valid [OF inf])
    obtain h1 where h1: "(if fs \<noteq> loaded then read_sector io fp fs h else (0, buf, h)) = (0, sector h fs, h1)" "ready h1" "sector h1 = sector h"
    proof (cases "fs = loaded")
      case True
      then have "buf = sector h fs" using less.prems(2) fs by auto
      then show ?thesis using that [of h] True less.prems(1) by simp
    next
      case False
      then show ?thesis using that read_cases [OF less.prems(1) fs] by metis
    qed
    have step: "alloc_scan io fp bound c loaded buf h =
        (if fat_entry fp (sector h) c = 0 then (c, snd (fat_set_cluster io fp c FAT_EOC h1))
         else alloc_scan io fp bound (c + 1) fs (sector h fs) h1)"
      unfolding alloc_scan.simps [of io fp bound c loaded] Let_def fs_def [symmetric] h1(1)
      using True by (simp add: fat_entry_def fs_def [symmetric])
    show ?thesis
    proof (cases "fat_entry fp (sector h) c = 0")
      case True
      then have "first_free (fat_entry fp (sector h)) c bound c" using \<open>c < bound\<close> by (auto simp: first_free_def)
      then show ?thesis using step h1(2,3) True by auto
    next
      case False
      have lt: "unat bound - unat (c + 1) < unat bound - unat c" using True by (simp add: unat_inc32 word_less_nat_alt)
      have "fs = 0xFFFFFFFF \<or> sector h fs = sector h1 fs" using h1(3) by simp
      from less.hyps [OF lt h1(2) this] show ?thesis
        unfolding step if_not_P [OF False] h1(3)
        using first_free_step [of c bound "fat_entry fp (sector h)", OF True False]
          none_free_step [of c bound "fat_entry fp (sector h)", OF True False] by blast
    qed
  qed
qed

lemma alloc_cluster:
  assumes "ready h" "fat_total_clusters fp = Some n" "\<And>c'. c' < n + 2 \<Longrightarrow> in_fat fp c'"
  shows "\<exists>c h'. fat_alloc_cluster io fp h = Some (c, h') \<and> ready h' \<and>
      (\<forall>l. \<not> fat_area fp l \<longrightarrow> sector h' l = sector h l) \<and>
      (if none_free (fat_entry fp (sector h)) 2 (n + 2) then c = 0 \<and> sector h' = sector h
       else first_free (fat_entry fp (sector h)) 2 (n + 2) c \<and>
         (\<forall>d. in_fat fp d \<longrightarrow> fat_entry fp (sector h') d = (if d = c then FAT_EOC else fat_entry fp (sector h) d)))"
proof -
  let ?E = "fat_entry fp (sector h)"
  have eoc: "FAT_EOC AND 0x0FFFFFFF = FAT_EOC" by (simp add: FAT_EOC_def)
  from alloc_scan [OF assms(1,3), of "n + 2" "0xFFFFFFFF" "[]" 2]
  consider c h1 where "alloc_scan io fp (n + 2) 2 0xFFFFFFFF [] h = (c, snd (fat_set_cluster io fp c FAT_EOC h1))"
        "ready h1" "sector h1 = sector h" "first_free ?E 2 (n + 2) c"
    | h' where "alloc_scan io fp (n + 2) 2 0xFFFFFFFF [] h = (0, h')" "ready h'" "sector h' = sector h" "none_free ?E 2 (n + 2)"
    by blast
  then show ?thesis
  proof cases
    case (1 c h1)
    then have ne: "\<not> none_free ?E 2 (n + 2)" by (auto simp: first_free_def none_free_def)
    have "in_fat fp c" using 1(4) assms(3) by (simp add: first_free_def)
    from set_cluster [OF 1(2) this, of FAT_EOC] obtain h' where "fat_set_cluster io fp c FAT_EOC h1 = (0, h')" "ready h'"
        "\<forall>d. in_fat fp d \<longrightarrow> fat_entry fp (sector h') d = (if d = c then FAT_EOC else ?E d)"
        "\<forall>l. \<not> fat_area fp l \<longrightarrow> sector h' l = sector h l"
      unfolding 1(3) eoc by blast
    then show ?thesis using 1(1,4) ne assms(2) by (auto simp: fat_alloc_cluster_def)
  next
    case (2 h')
    then show ?thesis using assms(2) by (auto simp: fat_alloc_cluster_def)
  qed
qed

lemma free_chain:
  assumes "ready h" "chain fp (fat_entry fp (sector h)) c cs"
  shows "\<exists>h'. fat_free_cluster_chain io fp c h = Some h' \<and> ready h' \<and>
      (\<forall>d. in_fat fp d \<longrightarrow> fat_entry fp (sector h') d = (if d \<in> set cs then 0 else fat_entry fp (sector h) d)) \<and>
      (\<forall>l. \<not> fat_area fp l \<longrightarrow> sector h' l = sector h l)"
  using assms
proof (induction cs arbitrary: c h)
  case Nil
  then have "\<not> (2 \<le> c \<and> c < FAT_EOC)" by (auto elim: chain_NilE)
  then show ?case using Nil(1) by (auto simp: fat_free_cluster_chain.simps [of io fp c])
next
  case (Cons d cs)
  let ?E = "fat_entry fp (sector h)"
  have c: "d = c" "2 \<le> c" "c < FAT_EOC" "in_fat fp c" "chain fp ?E (?E c) cs" using Cons.prems(2) by (auto elim: chain_ConsE)
  have cd: "c \<notin> set cs" using chain_distinct [OF Cons.prems(2)] c(1) by simp
  obtain h1 where h1: "fat_next_cluster io fp c h = (?E c, h1)" "ready h1" "sector h1 = sector h"
    using next_cluster [OF Cons.prems(1) c(4)] by blast
  obtain h2 where h2: "fat_set_cluster io fp c 0 h1 = (0, h2)" "ready h2"
      "\<forall>d. in_fat fp d \<longrightarrow> fat_entry fp (sector h2) d = (if d = c then 0 AND 0x0FFFFFFF else ?E d)"
      "\<forall>l. \<not> fat_area fp l \<longrightarrow> sector h2 l = sector h l"
    using set_cluster [OF h1(2) c(4), of 0] unfolding h1(3) by blast
  have "chain fp (fat_entry fp (sector h2)) (?E c) cs"
    using c(5) by (rule chain_cong) (use chain_in_fat [OF c(5)] h2(3) cd in auto)
  from Cons.IH [OF h2(2) this] obtain h' where h': "fat_free_cluster_chain io fp (?E c) h2 = Some h'" "ready h'"
      "\<forall>d. in_fat fp d \<longrightarrow> fat_entry fp (sector h') d = (if d \<in> set cs then 0 else fat_entry fp (sector h2) d)"
      "\<forall>l. \<not> fat_area fp l \<longrightarrow> sector h' l = sector h2 l" by blast
  have run: "fat_free_cluster_chain io fp c h = Some h'"
    using c(2,3) h1(1) h2(1) h'(1) by (simp add: fat_free_cluster_chain.simps [of io fp c h])
  show ?case using run h'(2-4) h2(3,4) c(1) by auto
qed

end

section \<open>The operations on the table\<close>

text \<open>On the first drive of the primary channel every volume of that geometry meets the contract.\<close>

lemma drive_volume:
  assumes "fbus fp = 0" "fmaster fp" "fat_geometry fp"
  shows "fat_volume drive_ports fp drive_ready (drive_sector True)"
proof -
  have e: "read_sector drive_ports fp = (\<lambda>l. ata_read_sectors drive_ports 0 True l 1)"
      "write_sector drive_ports fp = (\<lambda>l. ata_write_sectors drive_ports 0 True l 1)"
    using assms(1,2) by (simp_all add: fun_eq_iff)
  show ?thesis unfolding fat_volume_def fat_volume_axioms_def e using ata0.block_device_axioms assms(3) by blast
qed

text \<open>A volume as \<^verbatim>\<open>mkfs.fat -F 32\<close> lays it out: 32 reserved sectors, two tables, clusters of two sectors.\<close>

definition small_bpb :: fat_bpb where
  "small_bpb = \<lparr>bytes_per_sector = 512, sectors_per_cluster = 2, reserved_sectors = 32, fat_count = 2, root_max_entries = 0,
     total_sectors_16 = 0, total_sectors_32 = 8192, fat_size_32 = 32, bpb_root_cluster = 2, bpb_sig = 0x29\<rparr>"

definition small_volume :: fat_private where "small_volume = fat_layout 0 True small_bpb"

lemma small_volume_simps:
  "fbus small_volume = 0" "fmaster small_volume" "bpb small_volume = small_bpb" "fat_start small_volume = 32"
  "data_start small_volume = 96" "sectors_per_fat small_volume = 32" "bytes_per_cluster small_volume = 1024"
  by (simp_all add: small_volume_def fat_layout_def small_bpb_def Let_def)

interpretation small: fat_volume drive_ports small_volume drive_ready "drive_sector True"
  by (rule drive_volume) (simp_all add: small_volume_simps fat_geometry_def, simp_all add: small_bpb_def)

lemma small_in_fat: "in_fat small_volume c \<longleftrightarrow> c < 4096"
  by (simp add: in_fat_def small_volume_simps word_less_nat_alt)

text \<open>
  After \<open>fat_set_cluster\<close> of a cluster, \<open>fat_next_cluster\<close> gives the 28 bits of the stored value for
  that cluster and the same value as before for every other one; both succeed, all copies of the table are
  written and no sector outside of the tables changes.
\<close>

theorem fat_set_next_cluster:
  assumes "fat_volume io fp ready sector" "ready h" "in_fat fp c" "in_fat fp d"
  shows "\<exists>h1 h2. fat_set_cluster io fp c v h = (0, h1) \<and>
      fat_next_cluster io fp d h1 = (if d = c then v AND 0x0FFFFFFF else fst (fat_next_cluster io fp d h), h2) \<and>
      (\<forall>l. \<not> fat_area fp l \<longrightarrow> sector h2 l = sector h l)"
proof -
  note vol = assms(1)
  obtain h1 where h1: "fat_set_cluster io fp c v h = (0, h1)" "ready h1"
      "\<forall>d. in_fat fp d \<longrightarrow> fat_entry fp (sector h1) d = (if d = c then v AND 0x0FFFFFFF else fat_entry fp (sector h) d)"
      "\<forall>l. \<not> fat_area fp l \<longrightarrow> sector h1 l = sector h l"
    using fat_volume.set_cluster [OF vol assms(2,3)] by blast
  obtain h2 where h2: "fat_next_cluster io fp d h1 = (fat_entry fp (sector h1) d, h2)" "sector h2 = sector h1"
    using fat_volume.next_cluster [OF vol h1(2) assms(4)] by blast
  have "fst (fat_next_cluster io fp d h) = fat_entry fp (sector h) d"
    using fat_volume.next_cluster [OF vol assms(2,4)] by auto
  then show ?thesis using h1 h2 assms(4) by auto
qed

lemma fat_set_next_cluster_witness:
  "\<exists>h1 h2. fat_set_cluster drive_ports small_volume 7 9 blank_drive = (0, h1) \<and>
      fat_next_cluster drive_ports small_volume 7 h1 = (9, h2)"
  using fat_set_next_cluster [OF small.fat_volume_axioms blank_drive_ready, of 7 7 9]
  by (auto simp: small_in_fat)

text \<open>
  \<open>fat_alloc_cluster\<close> returns the free cluster with the lowest number and marks it as the end of a
  chain; no other entry and no sector outside of the tables changes. It returns 0, and changes nothing, exactly
  when no cluster is free.
\<close>

theorem fat_alloc_cluster_spec:
  assumes "fat_volume io fp ready sector" "ready h" "fat_total_clusters fp = Some n" "\<forall>c. c < n + 2 \<longrightarrow> in_fat fp c"
  shows "\<exists>c h'. fat_alloc_cluster io fp h = Some (c, h') \<and> ready h' \<and>
      (\<forall>l. \<not> fat_area fp l \<longrightarrow> sector h' l = sector h l) \<and>
      (if none_free (fat_entry fp (sector h)) 2 (n + 2) then c = 0 \<and> sector h' = sector h
       else first_free (fat_entry fp (sector h)) 2 (n + 2) c \<and>
         (\<forall>d. in_fat fp d \<longrightarrow> fat_entry fp (sector h') d = (if d = c then FAT_EOC else fat_entry fp (sector h) d)))"
  using fat_volume.alloc_cluster [OF assms(1-3)] assms(4) by blast

lemma small_total: "fat_total_clusters small_volume = Some 4048"
  by (simp add: fat_total_clusters_def small_volume_simps small_bpb_def)

lemma blank_entry: "fat_entry fp (disk blank_drive b) c = 0"
proof -
  have z: "bytes_le (replicate k 0) = (0 :: u32)" for k by (induction k) simp_all
  show ?thesis by (simp add: fat_entry_def get_le_def blank_drive_def z)
qed

lemma fat_alloc_cluster_spec_witness:
  "\<exists>h'. fat_alloc_cluster drive_ports small_volume blank_drive = Some (2, h') \<and>
      fat_entry small_volume (drive_sector True h') 2 = FAT_EOC"
proof -
  have "\<not> none_free (fat_entry small_volume (drive_sector True blank_drive)) 2 (4048 + 2)"
    by (auto simp: none_free_def blank_entry intro!: exI [of _ 2])
  moreover have "c = 2" if "first_free (fat_entry small_volume (drive_sector True blank_drive)) 2 (4048 + 2) c" for c
    using that by (auto simp: first_free_def blank_entry)
  moreover have "\<forall>c. c < 4048 + 2 \<longrightarrow> in_fat small_volume c" by (auto simp: small_in_fat word_less_nat_alt)
  ultimately show ?thesis
    using fat_alloc_cluster_spec [OF small.fat_volume_axioms blank_drive_ready small_total]
    by (auto simp: small_in_fat)
qed

text \<open>
  C13: for a cluster chain that ends, \<open>fat_free_cluster_chain\<close> returns, and then exactly the entries of
  the clusters of the chain are free that were not free before.
\<close>

theorem fat_free_cluster_chain_spec:
  assumes "fat_volume io fp ready sector" "ready h" "chain fp (fat_entry fp (sector h)) c cs"
  shows "\<exists>h'. fat_free_cluster_chain io fp c h = Some h' \<and> ready h' \<and>
      (\<forall>d. in_fat fp d \<longrightarrow> fat_entry fp (sector h') d = (if d \<in> set cs then 0 else fat_entry fp (sector h) d)) \<and>
      (\<forall>l. \<not> fat_area fp l \<longrightarrow> sector h' l = sector h l)"
  by (rule fat_volume.free_chain [OF assms])

lemma fat_free_cluster_chain_spec_witness:
  "\<exists>h'. fat_free_cluster_chain drive_ports small_volume 5 blank_drive = Some h' \<and>
      fat_entry small_volume (drive_sector True h') 5 = 0"
proof -
  have "chain small_volume (fat_entry small_volume (drive_sector True blank_drive)) 5 [5]"
    by (intro chain.intros) (simp_all add: FAT_EOC_def small_in_fat blank_entry)
  then show ?thesis
    using fat_free_cluster_chain_spec [OF small.fat_volume_axioms blank_drive_ready] by (fastforce simp: small_in_fat)
qed

section \<open>Names\<close>

lemma upper8_dot: "upper8 c = DOT \<longleftrightarrow> c = DOT"
  by (auto simp: upper8_def DOT_def word_le_nat_alt word_unat_eq_iff unat_word_ariths unat_sub_if')

lemma lower8_upper8: "lower8 (upper8 c) = lower8 c"
  by (auto simp: upper8_def lower8_def word_le_nat_alt word_unat_eq_iff unat_word_ariths unat_sub_if')

lemma char83_printable: "char83 c \<Longrightarrow> c \<noteq> 0 \<and> c \<noteq> SPACE"
  by (auto simp: char83_def SPACE_def)

lemma name83_ext:
  "name83_loop cs ns es True = Some (ns', es') \<Longrightarrow>
     DOT \<notin> set cs \<and> ns' = ns \<and> es' = es @ map upper8 cs \<and> (\<forall>c \<in> set cs. char83 (upper8 c)) \<and> (length es \<le> 3 \<longrightarrow> length es' \<le> 3)"
proof (induction cs arbitrary: es)
  case (Cons c cs)
  then have "c \<noteq> DOT" "char83 (upper8 c)" "length es < 3" "name83_loop cs ns (es @ [upper8 c]) True = Some (ns', es')"
    by (auto simp: Let_def split: if_splits)
  then show ?case using Cons.IH [of "es @ [upper8 c]"] by auto
qed simp

lemma name83_base:
  "name83_loop cs ns es False = Some (ns', es') \<Longrightarrow>
     (\<exists>a. ns' = ns @ map upper8 a \<and> (\<forall>c \<in> set a. char83 (upper8 c)) \<and> (length ns \<le> 8 \<longrightarrow> length ns' \<le> 8) \<and>
       (cs = a \<and> es' = es \<or>
        (\<exists>b. cs = a @ DOT # b \<and> es' = es @ map upper8 b \<and> (\<forall>c \<in> set b. char83 (upper8 c)) \<and> (length es \<le> 3 \<longrightarrow> length es' \<le> 3))))"
proof (induction cs arbitrary: ns)
  case (Cons c cs)
  show ?case
  proof (cases "c = DOT")
    case True
    then have e: "name83_loop cs ns es True = Some (ns', es')" using Cons.prems by simp
    show ?thesis using name83_ext [OF e] True by (intro exI [of _ "[]"]) auto
  next
    case False
    then have ok: "char83 (upper8 c)" "length ns < 8" "name83_loop cs (ns @ [upper8 c]) es False = Some (ns', es')"
      using Cons.prems by (auto simp: Let_def split: if_splits)
    from Cons.IH [OF ok(3)] obtain a where a: "ns' = ns @ map upper8 (c # a)" "\<forall>d \<in> set (c # a). char83 (upper8 d)" "length ns' \<le> 8"
        "c # cs = c # a \<and> es' = es \<or> (\<exists>b. c # cs = (c # a) @ DOT # b \<and> es' = es @ map upper8 b \<and>
           (\<forall>c \<in> set b. char83 (upper8 c)) \<and> (length es \<le> 3 \<longrightarrow> length es' \<le> 3))"
      using ok(1,2) by auto
    then show ?thesis by (intro exI [of _ "c # a"]) blast
  qed
qed simp

lemma takeWhile_padded:
  assumes "\<forall>c \<in> set xs. char83 (upper8 c)"
  shows "takeWhile (\<lambda>c. c \<noteq> 0 \<and> c \<noteq> SPACE) (map upper8 xs @ replicate k SPACE) = map upper8 xs"
proof -
  have "takeWhile (\<lambda>c. c \<noteq> 0 \<and> c \<noteq> SPACE) (map upper8 xs @ replicate k SPACE) =
      map upper8 xs @ takeWhile (\<lambda>c. c \<noteq> 0 \<and> c \<noteq> SPACE) (replicate k SPACE)"
    using assms char83_printable by (intro takeWhile_append2) auto
  then show ?thesis by (cases k) simp_all
qed

lemma map_lower8_upper8: "map lower8 (map upper8 xs) = map lower8 xs"
  by (simp add: lower8_upper8)

text \<open>
  When \<open>fat_name_to_83\<close> accepts a name, its result has the eight and three bytes of a directory
  entry, and \<open>fat_trim_name\<close> turns that entry back into the name in lower case (without a dot at its end).
\<close>

theorem fat_name_roundtrip:
  assumes "fat_name_to_83 name = Some (n, e)"
  shows "length n = 8 \<and> length e = 3 \<and>
    fat_trim_name n e = map lower8 (if last name = DOT then butlast name else name)"
proof -
  obtain ns es where l: "name83_loop name [] [] False = Some (ns, es)" "ns \<noteq> []"
      "n = ns @ replicate (8 - length ns) SPACE" "e = es @ replicate (3 - length es) SPACE"
    using assms by (auto simp: fat_name_to_83_def split: option.splits if_splits)
  from name83_base [OF l(1)] obtain a where a: "ns = map upper8 a" "\<forall>c \<in> set a. char83 (upper8 c)" "length ns \<le> 8"
      "name = a \<and> es = [] \<or> (\<exists>b. name = a @ DOT # b \<and> es = map upper8 b \<and> (\<forall>c \<in> set b. char83 (upper8 c)) \<and> length es \<le> 3)"
    by auto
  have base: "takeWhile (\<lambda>c. c \<noteq> 0 \<and> c \<noteq> SPACE) n = map upper8 a" unfolding l(3) a(1) by (rule takeWhile_padded [OF a(2)])
  have nodot: "last xs \<noteq> DOT" if "xs \<noteq> []" "\<forall>c \<in> set xs. char83 (upper8 c)" for xs
  proof -
    have "\<not> char83 (upper8 DOT)" by (simp add: char83_def DOT_def upper8_def)
    then show ?thesis using that(2) last_in_set [OF that(1)] by metis
  qed
  have ld: "lower8 DOT = DOT" by (simp add: lower8_def DOT_def)
  from a(4) show ?thesis
  proof (elim disjE exE conjE)
    assume "name = a" "es = []"
    moreover have "a \<noteq> []" using l(2) a(1) by simp
    ultimately show ?thesis using l(3,4) a(3) base nodot [OF _ a(2)]
      by (simp add: fat_trim_name_def map_lower8_upper8 lower8_upper8)
  next
    fix b assume b: "name = a @ DOT # b" "es = map upper8 b" "\<forall>c \<in> set b. char83 (upper8 c)" "length es \<le> 3"
    have ext: "takeWhile (\<lambda>c. c \<noteq> 0 \<and> c \<noteq> SPACE) e = map upper8 b" unfolding l(4) b(2) by (rule takeWhile_padded [OF b(3)])
    have e0: "e ! 0 \<noteq> 0 \<and> e ! 0 \<noteq> SPACE \<longleftrightarrow> b \<noteq> []"
      using b(2,3) char83_printable by (cases b) (auto simp: l(4))
    have "length n = 8 \<and> length e = 3" using a(3) b(4) by (simp add: l(3,4))
    then show ?thesis using b(1) base ext e0 nodot [OF _ b(3)] ld
      by (cases "b = []") (simp_all add: fat_trim_name_def lower8_upper8)
  qed
qed

lemma fat_name_roundtrip_witness:
  "fat_name_to_83 [0x61, 0x42, DOT, 0x63] = Some ([0x41, 0x42] @ replicate 6 SPACE, [0x43] @ replicate 2 SPACE) \<and>
   fat_trim_name ([0x41, 0x42] @ replicate 6 SPACE) ([0x43] @ replicate 2 SPACE) = [0x61, 0x62, DOT, 0x63]"
proof -
  have n: "fat_name_to_83 [0x61, 0x42, DOT, 0x63] = Some ([0x41, 0x42] @ replicate 6 SPACE, [0x43] @ replicate 2 SPACE)"
    by (simp add: fat_name_to_83_def upper8_def char83_def DOT_def)
  show ?thesis using n fat_name_roundtrip [OF n] by (simp add: lower8_def DOT_def)
qed

end
