(* ===== verification/FatFile.thy ===== *)
theory FatFile
  imports FatTable
begin

text \<open>
  Reading files through the FAT driver. The contents of a file are the sectors of the clusters of its
  chain; \<open>fat_read\<close> is shown to return the requested slice of them, for requests that do not need one more
  sector than the driver counts, and the requests that do are shown to be answered wrongly.
\<close>

section \<open>The contents of a chain\<close>

definition sectors_bytes :: "(u32 \<Rightarrow> u8 list) \<Rightarrow> u32 \<Rightarrow> nat \<Rightarrow> u8 list" where
  "sectors_bytes sec lba n = concat (map (\<lambda>i. sec (lba + of_nat i)) [0..<n])"

lemma sectors_bytes_0 [simp]: "sectors_bytes sec lba 0 = []" by (simp add: sectors_bytes_def)

lemma sectors_bytes_Suc: "sectors_bytes sec lba (Suc n) = sec lba @ sectors_bytes sec (lba + 1) n"
  by (simp add: sectors_bytes_def upt_conv_Cons map_Suc_upt [symmetric] comp_def algebra_simps del: upt_Suc)

lemma length_sectors_bytes: "(\<And>l. length (sec l) = 512) \<Longrightarrow> length (sectors_bytes sec lba n) = 512 * n"
  by (induction n arbitrary: lba) (simp_all add: sectors_bytes_Suc)

lemma sectors_bytes_add: "sectors_bytes sec lba (m + n) = sectors_bytes sec lba m @ sectors_bytes sec (lba + of_nat m) n"
  by (induction m arbitrary: lba) (simp_all add: sectors_bytes_Suc algebra_simps)

abbreviation spc :: "fat_private \<Rightarrow> nat" where "spc fp \<equiv> unat (sectors_per_cluster (bpb fp))"

definition cluster_bytes :: "fat_private \<Rightarrow> (u32 \<Rightarrow> u8 list) \<Rightarrow> u32 \<Rightarrow> u8 list" where
  "cluster_bytes fp sec c = sectors_bytes sec (fat_cluster_to_lba fp c) (spc fp)"

definition chain_bytes :: "fat_private \<Rightarrow> (u32 \<Rightarrow> u8 list) \<Rightarrow> u32 list \<Rightarrow> u8 list" where
  "chain_bytes fp sec cs = concat (map (cluster_bytes fp sec) cs)"

text \<open>All sectors of the cluster have 28-bit addresses.\<close>

definition on_disk :: "fat_private \<Rightarrow> u32 \<Rightarrow> bool" where
  "on_disk fp c \<longleftrightarrow> 2 \<le> unat c \<and> unat (data_start fp) + (unat c - 1) * spc fp \<le> 2 ^ 28"

lemma on_disk_lba:
  assumes "on_disk fp c" "i < spc fp"
  shows "fat_cluster_to_lba fp c + of_nat i < 0x10000000"
proof -
  obtain k where k: "unat c = k + 2" using assms(1) by (metis add.commute le_Suc_ex on_disk_def)
  have c: "unat (c - 2) = k" using k by (simp add: unat_sub word_le_nat_alt)
  have s: "spc fp < 256" using unsigned_less [of "sectors_per_cluster (bpb fp)", where 'a = nat] by simp
  then have u: "unat (ucast (sectors_per_cluster (bpb fp)) :: u32) = spc fp" by (simp add: unsigned_ucast_eq take_bit_nat_eq_self)
  have i: "unat (of_nat i :: u32) = i" using assms(2) s by (simp add: unat_of_nat)
  have b: "unat (data_start fp) + k * spc fp + i < 2 ^ 28"
    using assms k by (simp add: on_disk_def algebra_simps)
  then have "unat (fat_cluster_to_lba fp c + of_nat i) = unat (data_start fp) + k * spc fp + i"
    unfolding fat_cluster_to_lba_def by (simp add: unat_word_ariths c u i)
  then show ?thesis using b by (simp add: word_less_nat_alt)
qed

text \<open>The sectors the driver counts for a request of \<open>n\<close> bytes at offset \<open>off\<close> in a cluster hold all of it.\<close>

definition enough_sectors :: "nat \<Rightarrow> nat \<Rightarrow> bool" where
  "enough_sectors off n \<longleftrightarrow> off mod 512 + n \<le> 512 * ((n + 511) div 512)"

lemma sectors_counted: "512 * ((n + 511) div 512) < n + (512 :: nat)" "0 < n \<Longrightarrow> 0 < (n + 511) div (512 :: nat)"
  using div_times_less_eq_dividend [of "n + 511" 512] by (simp_all add: div_greater_zero_iff)

lemma enough_aligned: "off mod 512 = 0 \<Longrightarrow> enough_sectors off n"
  unfolding enough_sectors_def by simp

text \<open>A byte count below 2 GiB survives the conversion to \<open>int\<close>.\<close>

lemma sint_ucast_small: "unat (sz :: u64) < 2 ^ 31 \<Longrightarrow> sint (ucast sz :: u32) = int (unat sz)"
proof -
  assume "unat sz < 2 ^ 31"
  then have "int (unat sz) < int (2 ^ 31)" by (simp only: of_nat_less_iff)
  then have lt: "uint sz < 2 ^ 31" by simp
  then have "uint (ucast sz :: u32) = uint sz" by (simp add: unsigned_ucast_eq take_bit_int_eq_self)
  then have "sint (ucast sz :: u32) = signed_take_bit 31 (uint sz)" by (simp add: sint_uint)
  also have "\<dots> = uint sz" by (rule signed_take_bit_int_eq_self) (use lt order_trans [OF _ uint_ge_0 [of sz]] in auto)
  finally show ?thesis by simp
qed

context fat_volume
begin

lemma bytes_per_cluster_unat: "unat (bytes_per_cluster fp) = 512 * spc fp" "0 < spc fp" "spc fp < 256"
proof -
  show s: "spc fp < 256" using unsigned_less [of "sectors_per_cluster (bpb fp)", where 'a = nat] by simp
  show "0 < spc fp" using geometry by (simp add: fat_geometry_def unat_gt_0)
  have u: "unat (ucast (sectors_per_cluster (bpb fp)) :: u32) = spc fp"
    using s by (simp add: unsigned_ucast_eq take_bit_nat_eq_self)
  show "unat (bytes_per_cluster fp) = 512 * spc fp"
    using geometry s by (simp add: fat_geometry_def unat_word_ariths u)
qed

lemma unat_bpc: "unat (ucast (bytes_per_cluster fp) :: u64) = 512 * spc fp"
  using bytes_per_cluster_unat by (simp add: unsigned_ucast_eq take_bit_nat_eq_self)

lemma length_cluster_bytes: "ready h \<Longrightarrow> length (cluster_bytes fp (sector h) c) = 512 * spc fp"
  by (simp add: cluster_bytes_def length_sectors_bytes sector_length)

lemma length_chain_bytes: "ready h \<Longrightarrow> length (chain_bytes fp (sector h) cs) = length cs * (512 * spc fp)"
  by (induction cs) (simp_all add: chain_bytes_def length_cluster_bytes)

text \<open>The loop over sectors, for \<open>n\<close> sectors that are needed and enough for the \<open>rem\<close> bytes left of the request.\<close>

lemma read_cluster_slice:
  assumes "ready h" "\<And>i. i < n \<Longrightarrow> lba + of_nat i < 0x10000000"
    and "unat boff < 512" "cdone \<le> to_read" "unat to_read - unat cdone = m"
    and "unat boff + m \<le> 512 * n" "512 * n < unat boff + m + 512" "0 < n \<longrightarrow> 0 < m"
    and "unat dn + m \<le> unat sz"
  shows "\<exists>h'. read_cluster io fp n lba boff to_read cdone dn sz h =
      (True, take m (drop (unat boff) (sectors_bytes (sector h) lba n)), dn + of_nat m, h') \<and> ready h' \<and> sector h' = sector h"
  using assms
proof (induction n arbitrary: lba boff cdone dn m h)
  case 0
  then show ?case by simp
next
  case (Suc n)
  have "lba < 0x10000000" using Suc.prems(2) [of 0] by simp
  then obtain h1 where h1: "read_sector io fp lba h = (0, sector h lba, h1)" "ready h1" "sector h1 = sector h"
    using read_valid [OF Suc.prems(1)] by blast
  define k where "k = min (512 - unat boff) m"
  have len: "length (sector h lba) = 512" by (rule sector_length [OF Suc.prems(1)])
  have m64: "m < 2 ^ 64" using Suc.prems(5) unat_less_2p64 [of to_read] by linarith
  have rem: "unat (to_read - cdone) = m" using Suc.prems(4,5) by (simp add: unat_sub)
  have c1: "unat (512 - boff) = 512 - unat boff" using Suc.prems(3) by (simp add: unat_sub word_le_nat_alt)
  define cb where "cb = (let c1 = 512 - boff; c2 = (if c1 > to_read - cdone then to_read - cdone else c1) in if c2 > 512 then 512 else c2)"
  have cb: "unat cb = k"
    unfolding cb_def Let_def k_def using c1 rem by (auto simp: word_less_nat_alt)
  have cbw: "cb = of_nat k" by (simp add: cb [symmetric])
  have kpos: "0 < k" using Suc.prems(3,8) by (simp add: k_def)
  have km: "k \<le> m" by (simp add: k_def)
  have dn: "unat (dn + cb) = unat dn + k"
    using Suc.prems(9) km unat_less_2p64 [of sz] by (simp add: unat_word_ariths cb)
  have first: "take k (drop (unat boff) (sector h lba)) = take k (drop (unat boff) (sectors_bytes (sector h) lba (Suc n)))"
    using len by (simp add: sectors_bytes_Suc k_def)
  have step: "read_cluster io fp (Suc n) lba boff to_read cdone dn sz h =
      (if dn + cb \<ge> sz then (True, take k (drop (unat boff) (sector h lba)), dn + cb, h1)
       else let (ok, more, dn2, h2) = read_cluster io fp n (lba + 1) 0 to_read (cdone + cb) (dn + cb) sz h1
            in (ok, take k (drop (unat boff) (sector h lba)) @ more, dn2, h2))"
    using h1(1) unfolding cb [symmetric] cb_def by (simp add: Let_def)
  show ?case
  proof (cases "dn + cb \<ge> sz")
    case True
    then have "m = k" using Suc.prems(9) km dn by (simp add: word_le_nat_alt)
    then show ?thesis unfolding step using True first h1 cbw by simp
  next
    case False
    have valid: "lba + 1 + of_nat i < 0x10000000" if "i < n" for i
      using Suc.prems(2) [of "Suc i"] that by (simp add: algebra_simps)
    have cd: "unat (cdone + cb) = unat cdone + k" "cdone + cb \<le> to_read"
    proof -
      have le: "unat cdone + k \<le> unat to_read" using km Suc.prems(4,5) by (simp add: word_le_nat_alt)
      then show u: "unat (cdone + cb) = unat cdone + k"
        using unat_less_2p64 [of to_read] by (simp add: unat_word_ariths cb)
      show "cdone + cb \<le> to_read" using le u by (simp add: word_le_nat_alt)
    qed
    have k_eq: "n = 0 \<and> k = m \<or> k = 512 - unat boff"
      using Suc.prems(6,7) by (auto simp: k_def)
    have conds: "unat to_read - unat (cdone + cb) = m - k" "unat (0::u64) + (m - k) \<le> 512 * n"
        "512 * n < unat (0::u64) + (m - k) + 512" "0 < n \<longrightarrow> 0 < m - k" "unat (dn + cb) + (m - k) \<le> unat sz"
      using Suc.prems(5) cd(1) apply simp
      using Suc.prems(3,6,7) k_eq km apply auto [3]
      using Suc.prems(9) km dn by simp
    obtain h' where h': "read_cluster io fp n (lba + 1) 0 to_read (cdone + cb) (dn + cb) sz h1 =
        (True, take (m - k) (drop (unat (0::u64)) (sectors_bytes (sector h1) (lba + 1) n)), dn + cb + of_nat (m - k), h')"
        "ready h'" "sector h' = sector h1"
      using Suc.IH [OF h1(2) valid _ cd(2) conds] by auto
    have dm: "dn + cb + of_nat (m - k) = dn + of_nat m" using km by (simp add: cbw of_nat_diff)
    have "take k (drop (unat boff) (sector h lba)) @ take (m - k) (sectors_bytes (sector h) (lba + 1) n) =
        take m (drop (unat boff) (sectors_bytes (sector h) lba (Suc n)))"
      using k_eq len km Suc.prems(3) by (auto simp: sectors_bytes_Suc min_def)
    then show ?thesis unfolding step using False h'(1-3) h1(3) dm by simp
  qed
qed

text \<open>The sectors that hold a slice of a cluster.\<close>

lemma cluster_slice:
  assumes "ready h" "off + m \<le> 512 * spc fp" "enough_sectors off m"
  defines "n \<equiv> (m + 511) div 512"
  shows "take m (drop (off mod 512) (sectors_bytes (sector h) (fat_cluster_to_lba fp c + of_nat (off div 512)) n)) =
      take m (drop off (cluster_bytes fp (sector h) c))"
    "i < n \<Longrightarrow> off div 512 + i < spc fp"
proof -
  define q where "q = off div 512"
  define b where "b = off mod 512"
  have off: "off = 512 * q + b" by (simp add: q_def b_def)
  have n: "512 * n < m + 512" unfolding n_def by (rule sectors_counted(1))
  have "512 * q + m \<le> 512 * spc fp" using assms(2) unfolding off by simp
  then have "512 * (q + n) < 512 * Suc (spc fp)" using n by simp
  then have le: "q + n \<le> spc fp" by (simp only: mult_less_cancel1 less_Suc_eq_le)
  then obtain r where r: "spc fp = q + (n + r)" by (metis add.assoc le_Suc_ex)
  show "i < n \<Longrightarrow> off div 512 + i < spc fp" using le by (simp add: q_def)
  have len: "length (sectors_bytes (sector h) l k) = 512 * k" for l k
    by (rule length_sectors_bytes) (rule sector_length [OF assms(1)])
  have bm: "b + m \<le> 512 * n" using assms(3) unfolding enough_sectors_def n_def b_def .
  have "drop off (cluster_bytes fp (sector h) c) =
      drop b (sectors_bytes (sector h) (fat_cluster_to_lba fp c + of_nat q) n @ sectors_bytes (sector h) (fat_cluster_to_lba fp c + of_nat q + of_nat n) r)"
    unfolding cluster_bytes_def r sectors_bytes_add off by (simp add: len add.commute)
  also have "take m \<dots> = take m (drop b (sectors_bytes (sector h) (fat_cluster_to_lba fp c + of_nat q) n))"
    using bm by (simp add: len)
  finally show "take m (drop (off mod 512) (sectors_bytes (sector h) (fat_cluster_to_lba fp c + of_nat (off div 512)) n)) =
      take m (drop off (cluster_bytes fp (sector h) c))" by (simp add: q_def b_def)
qed

text \<open>One round of the main loop reads its part of one cluster.\<close>

lemma read_cluster_part:
  assumes "ready h" "on_disk fp c" "unat skip + m \<le> 512 * spc fp" "unat to_read = m" "0 < m"
    and "enough_sectors (unat skip) m" "unat dn + m \<le> unat sz"
  shows "\<exists>h'. read_cluster io fp (unat ((to_read + 511) div 512)) (fat_cluster_to_lba fp c + ucast (skip div 512)) (skip mod 512) to_read 0 dn sz h =
      (True, take m (drop (unat skip) (cluster_bytes fp (sector h) c)), dn + of_nat m, h') \<and> ready h' \<and> sector h' = sector h"
proof -
  define n where "n = (m + 511) div 512"
  have small: "m < 2 ^ 17" "unat skip < 2 ^ 17" using assms(3) bytes_per_cluster_unat(3) by simp_all
  have un: "unat ((to_read + 511) div 512) = n" using small(1) assms(4) by (simp add: unat_div unat_word_ariths n_def)
  have sk: "unat (skip mod 512) = unat skip mod 512" by (simp add: unat_mod)
  have q: "(ucast (skip div 512) :: u32) = of_nat (unat skip div 512)"
  proof -
    have "(of_nat (unat (skip div 512)) :: u32) = ucast (skip div 512)" by simp
    then show ?thesis by (simp add: unat_div)
  qed
  note sl = cluster_slice(1) [OF assms(1,3,6), where c = c, folded n_def] cluster_slice(2) [OF assms(1,3,6), folded n_def]
  have valid: "fat_cluster_to_lba fp c + ucast (skip div 512) + of_nat i < 0x10000000" if "i < n" for i
    using on_disk_lba [OF assms(2) sl(2) [OF that]] unfolding q by (simp add: add.assoc)
  have nn: "512 * n < m + 512" "0 < n" using assms(5) sectors_counted unfolding n_def by blast+
  have "\<exists>h'. read_cluster io fp n (fat_cluster_to_lba fp c + ucast (skip div 512)) (skip mod 512) to_read 0 dn sz h =
      (True, take m (drop (unat (skip mod 512)) (sectors_bytes (sector h) (fat_cluster_to_lba fp c + ucast (skip div 512)) n)), dn + of_nat m, h') \<and>
      ready h' \<and> sector h' = sector h"
    by (rule read_cluster_slice)
      (use assms valid nn in \<open>auto simp: sk enough_sectors_def n_def [symmetric] word_less_nat_alt\<close>)
  then show ?thesis unfolding un sk q sl(1) .
qed

lemma chain_bytes_Cons: "chain_bytes fp sec (c # cs) = cluster_bytes fp sec c @ chain_bytes fp sec cs"
  by (simp add: chain_bytes_def)

lemma read_loop_first:
  assumes "ready h" "on_disk fp c" "unat skip < 512 * spc fp" "unat dn + m = unat sz" "0 < m"
  defines "k \<equiv> min (512 * spc fp - unat skip) m"
  assumes "enough_sectors (unat skip) k"
  defines "bs \<equiv> take k (drop (unat skip) (cluster_bytes fp (sector h) c))"
  shows "\<exists>h1. ready h1 \<and> sector h1 = sector h \<and> read_loop io fp c skip dn sz h =
     (if k = m then Some (sint (ucast sz :: u32), bs, h1)
      else let nxt = fst (fat_next_cluster io fp c h1); h2 = snd (fat_next_cluster io fp c h1)
        in if nxt \<ge> FAT_EOC then Some (sint (ucast (dn + of_nat k) :: u32), bs, h2)
        else do { (r, more, h3) \<leftarrow> read_loop io fp nxt 0 (dn + of_nat k) sz h2; Some (r, bs @ more, h3) })"
proof -
  define t1 where "t1 = ucast (bytes_per_cluster fp) - skip"
  define to_read where "to_read = (if t1 > sz - dn then sz - dn else t1)"
  have lt: "dn < sz" using assms(4,5) by (simp add: word_less_nat_alt)
  have t1: "unat t1 = 512 * spc fp - unat skip"
    using assms(3) unat_bpc unfolding t1_def by (simp add: unat_sub word_le_nat_alt)
  have sd: "unat (sz - dn) = m" using assms(4) lt by (simp add: unat_sub)
  have tr: "unat to_read = k" unfolding to_read_def k_def using t1 sd by (auto simp: word_less_nat_alt)
  have k: "0 < k" "k \<le> m" using assms(3,5) by (simp_all add: k_def)
  have le: "unat skip + k \<le> 512 * spc fp" "unat dn + k \<le> unat sz" using assms(3,4) k(2) by (simp_all add: k_def)
  obtain h1 where h1: "read_cluster io fp (unat ((to_read + 511) div 512)) (fat_cluster_to_lba fp c + ucast (skip div 512)) (skip mod 512) to_read 0 dn sz h =
      (True, bs, dn + of_nat k, h1)" "ready h1" "sector h1 = sector h"
    using read_cluster_part [OF assms(1,2) le(1) tr k(1) assms(7) le(2)] unfolding bs_def by blast
  have dn1: "unat (dn + of_nat k) = unat dn + k"
    using assms(4) k(2) unat_less_2p64 [of sz] by (simp add: unat_word_ariths unat_of_nat)
  have fin: "dn + of_nat k \<ge> sz \<longleftrightarrow> k = m" "k = m \<Longrightarrow> dn + of_nat k = sz"
    using dn1 assms(4) k(2) by (auto simp: word_le_nat_alt word_unat_eq_iff)
  have "read_loop io fp c skip dn sz h =
     (if dn + of_nat k \<ge> sz then Some (sint (ucast (dn + of_nat k) :: u32), bs, h1)
      else let nxt = fst (fat_next_cluster io fp c h1); h2 = snd (fat_next_cluster io fp c h1)
        in if nxt \<ge> FAT_EOC then Some (sint (ucast (dn + of_nat k) :: u32), bs, h2)
        else do { (r, more, h3) \<leftarrow> read_loop io fp nxt 0 (dn + of_nat k) sz h2; Some (r, bs @ more, h3) })"
    unfolding read_loop.simps [of io fp c skip] Let_def t1_def [symmetric] to_read_def [symmetric] h1(1)
    using lt by simp
  then show ?thesis using h1(2,3) fin by auto
qed

lemma read_loop_slice:
  assumes "ready h" "chain fp (fat_entry fp (sector h)) c (c # cs)" "\<forall>d \<in> set (c # cs). on_disk fp d"
    and "unat skip < 512 * spc fp" "unat dn + m = unat sz"
    and "unat skip + m \<le> length (chain_bytes fp (sector h) (c # cs))"
    and "enough_sectors (unat skip) (min (512 * spc fp - unat skip) m)"
  shows "\<exists>h'. read_loop io fp c skip dn sz h =
      Some (sint (ucast sz :: u32), take m (drop (unat skip) (chain_bytes fp (sector h) (c # cs))), h') \<and> ready h' \<and> sector h' = sector h"
  using assms
proof (induction cs arbitrary: c skip dn m h)
  case (Nil c)
  show ?case
  proof (cases "m = 0")
    case True
    then have "dn = sz" using Nil(5) by (simp add: word_unat_eq_iff)
    then show ?thesis using True Nil(1) by (auto simp: read_loop.simps [of io fp c])
  next
    case False
    have "unat skip + m \<le> 512 * spc fp"
      using Nil(6) length_cluster_bytes [OF Nil(1)] by (simp add: chain_bytes_def)
    then have k: "min (512 * spc fp - unat skip) m = m" by simp
    have "on_disk fp c" "0 < m" using Nil(3) False by simp_all
    from read_loop_first [OF Nil(1) this(1) Nil(4,5) this(2), unfolded k] Nil(7) [unfolded k]
    show ?thesis by (auto simp: chain_bytes_def)
  qed
next
  case (Cons d ds)
  let ?E = "fat_entry fp (sector h)"
  define k where "k = min (512 * spc fp - unat skip) m"
  have ch: "chain fp ?E (?E c) (d # ds)" "in_fat fp c" using Cons.prems(2) by (auto elim: chain_ConsE)
  then have d: "?E c = d" "d < FAT_EOC" by (auto elim: chain_ConsE)
  have od: "on_disk fp c" "\<forall>e \<in> set (d # ds). on_disk fp e" using Cons.prems(3) by simp_all
  have lc: "length (cluster_bytes fp (sector h) c) = 512 * spc fp" by (rule length_cluster_bytes [OF Cons.prems(1)])
  show ?case
  proof (cases "m = 0")
    case True
    then have "dn = sz" using Cons.prems(5) by (simp add: word_unat_eq_iff)
    then show ?thesis using True Cons.prems(1) by (auto simp: read_loop.simps [of io fp c])
  next
    case False
    then have "0 < m" by simp
    from read_loop_first [OF Cons.prems(1) od(1) Cons.prems(4,5) this Cons.prems(7), folded k_def]
    obtain h1 where h1: "ready h1" "sector h1 = sector h" "read_loop io fp c skip dn sz h =
       (if k = m then Some (sint (ucast sz :: u32), take k (drop (unat skip) (cluster_bytes fp (sector h) c)), h1)
        else let nxt = fst (fat_next_cluster io fp c h1); h2 = snd (fat_next_cluster io fp c h1)
          in if nxt \<ge> FAT_EOC then Some (sint (ucast (dn + of_nat k) :: u32), take k (drop (unat skip) (cluster_bytes fp (sector h) c)), h2)
          else do { (r, more, h3) \<leftarrow> read_loop io fp nxt 0 (dn + of_nat k) sz h2;
                    Some (r, take k (drop (unat skip) (cluster_bytes fp (sector h) c)) @ more, h3) })"
      by blast
    show ?thesis
    proof (cases "k = m")
      case True
      then have "take m (drop (unat skip) (chain_bytes fp (sector h) (c # d # ds))) = take k (drop (unat skip) (cluster_bytes fp (sector h) c))"
        using lc by (simp add: chain_bytes_Cons k_def)
      then show ?thesis using h1 True by auto
    next
      case False
      then have k: "k = 512 * spc fp - unat skip" "k < m" unfolding k_def by auto
      obtain h2 where h2: "fat_next_cluster io fp c h1 = (d, h2)" "ready h2" "sector h2 = sector h"
        using next_cluster [OF h1(1) ch(2)] h1(2) d(1) by auto
      have dk: "unat (dn + of_nat k) + (m - k) = unat sz"
      proof -
        have "unat (dn + of_nat k) = unat dn + k"
          using Cons.prems(5) k(2) unat_less_2p64 [of sz] by (simp add: unat_word_ariths unat_of_nat)
        then show ?thesis using Cons.prems(5) k(2) by simp
      qed
      have le: "unat (0::u64) + (m - k) \<le> length (chain_bytes fp (sector h2) (d # ds))"
        using Cons.prems(4,6) k lc h2(3) by (simp add: chain_bytes_Cons)
      have pos: "unat (0::u64) < 512 * spc fp" using bytes_per_cluster_unat(2) by simp
      have en: "enough_sectors (unat (0::u64)) n" for n by (rule enough_aligned) simp
      obtain h' where h': "read_loop io fp d 0 (dn + of_nat k) sz h2 =
          Some (sint (ucast sz :: u32), take (m - k) (drop (unat (0::u64)) (chain_bytes fp (sector h2) (d # ds))), h')"
          "ready h'" "sector h' = sector h2"
        using Cons.IH [OF h2(2) _ od(2) pos dk le en] ch(1) h2(3) d(1) by auto
      have "take m (drop (unat skip) (chain_bytes fp (sector h) (c # d # ds))) =
          take k (drop (unat skip) (cluster_bytes fp (sector h) c)) @ take (m - k) (chain_bytes fp (sector h) (d # ds))"
        using lc k Cons.prems(4) by (simp add: chain_bytes_Cons [of _ c])
      moreover have "\<not> FAT_EOC \<le> d" using d(2) by simp
      ultimately show ?thesis using h1(3) False h2 h' by (simp add: Let_def)
    qed
  qed
qed

lemma read_skip_chain:
  assumes "ready h" "chain fp (fat_entry fp (sector h)) c (c # cs)" "unat off < length (c # cs) * (512 * spc fp)"
  shows "\<exists>h'. ready h' \<and> sector h' = sector h \<and> read_skip io fp c off h =
     Some (Some ((c # cs) ! (unat off div (512 * spc fp))), of_nat (unat off mod (512 * spc fp)), h')"
  using assms
proof (induction cs arbitrary: c off h)
  case (Nil c)
  then show ?case using unat_bpc by (auto simp: read_skip.simps [of io fp c] word_le_nat_alt)
next
  case (Cons d ds)
  let ?B = "512 * spc fp"
  show ?case
  proof (cases "unat off < ?B")
    case True
    then show ?thesis using Cons.prems(1) unat_bpc by (auto simp: read_skip.simps [of io fp c] word_le_nat_alt)
  next
    case False
    have ch: "chain fp (fat_entry fp (sector h)) (fat_entry fp (sector h) c) (d # ds)" "in_fat fp c"
      using Cons.prems(2) by (auto elim: chain_ConsE)
    then have d: "fat_entry fp (sector h) c = d" "\<not> FAT_EOC \<le> d" by (auto elim: chain_ConsE)
    obtain h1 where h1: "fat_next_cluster io fp c h = (d, h1)" "ready h1" "sector h1 = sector h"
      using next_cluster [OF Cons.prems(1) ch(2)] d(1) by auto
    let ?off = "off - ucast (bytes_per_cluster fp)"
    have off: "unat ?off = unat off - ?B" using False unat_bpc by (simp add: unat_sub word_le_nat_alt)
    have dm: "unat off div ?B = Suc (unat ?off div ?B)" "unat off mod ?B = unat ?off mod ?B"
      using False bytes_per_cluster_unat(2) unfolding off by (simp_all add: le_div_geq le_mod_geq)
    have "unat ?off < length (d # ds) * ?B" using Cons.prems(3) False unfolding off by simp
    moreover have "chain fp (fat_entry fp (sector h1)) d (d # ds)" using ch(1) h1(3) d(1) by simp
    ultimately obtain h' where "ready h'" "sector h' = sector h"
        "read_skip io fp d ?off h1 = Some (Some ((d # ds) ! (unat ?off div ?B)), of_nat (unat ?off mod ?B), h')"
      using Cons.IH [OF h1(2)] h1(3) by metis
    then show ?thesis
      using h1(1) False d(2) unat_bpc dm by (auto simp: read_skip.simps [of io fp c off] word_le_nat_alt)
  qed
qed

lemma chain_drop:
  assumes "chain fp E c cs" "i < length cs"
  shows "chain fp E (cs ! i) (cs ! i # drop (Suc i) cs)"
  using assms
proof (induction arbitrary: i rule: chain.induct)
  case (chain_step c cs)
  then show ?case by (cases i) (auto intro: chain.chain_step)
qed simp

lemma drop_chain_bytes:
  assumes "ready h" "i \<le> length cs"
  shows "drop (i * (512 * spc fp) + k) (chain_bytes fp (sector h) cs) = drop k (chain_bytes fp (sector h) (drop i cs))"
  using assms(2)
proof (induction i arbitrary: cs)
  case (Suc i)
  then obtain c cs' where cs: "cs = c # cs'" "i \<le> length cs'" by (cases cs) auto
  then show ?case using Suc.IH [OF cs(2)] length_cluster_bytes [OF assms(1), of c]
    by (simp add: chain_bytes_Cons add.assoc add.commute)
qed simp

lemma read_chain:
  assumes "ready h" "chain fp (fat_entry fp (sector h)) c cs" "\<forall>d \<in> set cs. on_disk fp d"
    and "unat off + unat sz \<le> length (chain_bytes fp (sector h) cs)" "unat off < length (chain_bytes fp (sector h) cs)"
    and "enough_sectors (unat off) (min (512 * spc fp - unat off mod (512 * spc fp)) (unat sz))"
  shows "\<exists>c1 skip h1 h2. read_skip io fp c off h = Some (Some c1, skip, h1) \<and>
      read_loop io fp c1 skip 0 sz h1 = Some (sint (ucast sz :: u32), take (unat sz) (drop (unat off) (chain_bytes fp (sector h) cs)), h2) \<and>
      ready h2 \<and> sector h2 = sector h"
proof -
  let ?B = "512 * spc fp"
  define i where "i = unat off div ?B"
  define k where "k = unat off mod ?B"
  have B: "0 < ?B" "?B < 2 ^ 64" using bytes_per_cluster_unat by simp_all
  have off: "unat off = i * ?B + k" "k < ?B" unfolding i_def k_def using B(1) by (simp_all only: div_mult_mod_eq mod_less_divisor)
  have len: "length (chain_bytes fp (sector h) cs) = length cs * ?B" by (rule length_chain_bytes [OF assms(1)])
  have i: "i < length cs" using assms(5) B(1) unfolding len i_def by (simp add: less_mult_imp_div_less)
  obtain cs' where cs: "cs = c # cs'" using assms(2) i by (cases cs) (auto elim: chain_ConsE)
  from read_skip_chain [OF assms(1), of c cs' off] obtain h1 where h1: "ready h1" "sector h1 = sector h"
      "read_skip io fp c off h = Some (Some (cs ! i), of_nat k, h1)"
    using assms(2,5) unfolding len cs [symmetric] i_def k_def by blast
  have uk: "unat (of_nat k :: u64) = k" using off(2) B(2) by (simp add: unat_of_nat)
  have en: "enough_sectors k (min (?B - k) (unat sz))"
  proof -
    have "k mod 512 = unat off mod 512" unfolding k_def by (simp add: mod_mod_cancel)
    then show ?thesis using assms(6) unfolding enough_sectors_def k_def [symmetric] by simp
  qed
  have bytes: "drop (unat off) (chain_bytes fp (sector h) cs) = drop k (chain_bytes fp (sector h) (cs ! i # drop (Suc i) cs))"
    unfolding off(1) using drop_chain_bytes [OF assms(1), of i cs k] i by (simp add: Cons_nth_drop_Suc)
  have "k + unat sz \<le> length (chain_bytes fp (sector h) (cs ! i # drop (Suc i) cs))"
    using arg_cong [OF bytes, of length] assms(4,5) off i unfolding length_drop length_chain_bytes [OF assms(1)] by simp
  then obtain h2 where "read_loop io fp (cs ! i) (of_nat k) 0 sz h1 =
      Some (sint (ucast sz :: u32), take (unat sz) (drop k (chain_bytes fp (sector h1) (cs ! i # drop (Suc i) cs))), h2)" "ready h2" "sector h2 = sector h1"
    using read_loop_slice [OF h1(1), of "cs ! i" "drop (Suc i) cs" "of_nat k" 0 "unat sz" sz]
      chain_drop [OF assms(2) i] assms(3) i off(2) en unfolding h1(2) uk by (auto dest: in_set_dropD)
  then show ?thesis using h1(2,3) bytes by auto
qed

text \<open>A request of 512 bytes that starts inside the first sector of a cluster.\<close>

lemma read_straddle:
  assumes "ready h" "chain fp (fat_entry fp (sector h)) c (c # d # cs)" "on_disk fp c" "on_disk fp d"
    and "2 \<le> spc fp" "0 < unat off" "unat off < 512"
  shows "\<exists>h'. read_loop io fp c off 0 512 h =
      Some (512, drop (unat off) (sector h (fat_cluster_to_lba fp c)) @ take (unat off) (sector h (fat_cluster_to_lba fp d)), h') \<and>
      ready h' \<and> sector h' = sector h"
proof -
  let ?lba = "fat_cluster_to_lba fp c"
  have ch: "chain fp (fat_entry fp (sector h)) (fat_entry fp (sector h) c) (d # cs)" "in_fat fp c"
    using assms(2) by (auto elim: chain_ConsE)
  then have d: "fat_entry fp (sector h) c = d" "\<not> FAT_EOC \<le> d" by (auto elim: chain_ConsE)
  have "?lba < 0x10000000" using on_disk_lba [OF assms(3), of 0] assms(5) by simp
  then obtain h1 where h1: "read_sector io fp ?lba h = (0, sector h ?lba, h1)" "ready h1" "sector h1 = sector h"
    using read_valid [OF assms(1)] by blast
  obtain h2 where h2: "fat_next_cluster io fp c h1 = (d, h2)" "ready h2" "sector h2 = sector h"
    using next_cluster [OF h1(2) ch(2)] h1(3) d(1) by auto
  have len: "length (sector h l) = 512" for l by (rule sector_length [OF assms(1)])
  have w: "unat (512 - off) = 512 - unat off" using assms(7) by (simp add: unat_sub word_le_nat_alt)
  have t1: "unat (ucast (bytes_per_cluster fp) - off) = 512 * spc fp - unat off"
    using assms(5,7) unat_bpc by (simp add: unat_sub word_le_nat_alt)
  have to_read: "(if ucast (bytes_per_cluster fp) - off > 512 - 0 then 512 - 0 else ucast (bytes_per_cluster fp) - off) = (512 :: u64)"
    using t1 assms(5,7) by (simp add: word_less_nat_alt word_unat_eq_iff)
  have off: "off div 512 = 0" "off mod 512 = off" using assms(7) by (simp_all add: word_unat_eq_iff unat_div unat_mod)
  have c: "\<not> 512 - off > 512 - 0" "\<not> 512 - off > 512" "\<not> 512 - off \<ge> 512"
    using w assms(6,7) by (auto simp: word_less_nat_alt word_le_nat_alt)
  have one: "unat ((512 + 511) div 512 :: u64) = Suc 0" by simp
  have rc: "read_cluster io fp (unat ((512 + 511) div 512 :: u64)) (?lba + ucast (off div 512)) (off mod 512) 512 0 0 512 h =
      (True, drop (unat off) (sector h ?lba), 512 - off, h1)"
    unfolding one off using h1(1) c w len by (simp add: Let_def)
  have k: "min (512 * spc fp - unat (0 :: u64)) (unat off) = unat off" using assms(5,7) by simp
  have sum: "unat (512 - off) + unat off = unat (512 :: u64)" using w assms(7) by simp
  have pos: "unat (0 :: u64) < 512 * spc fp" using assms(5) by simp
  have en: "enough_sectors (unat (0 :: u64)) n" for n by (rule enough_aligned) simp
  obtain r where r: "spc fp = Suc r" using assms(5) by (cases "spc fp") simp_all
  have fst_sector: "take (unat off) (cluster_bytes fp (sector h) e) = take (unat off) (sector h (fat_cluster_to_lba fp e))" for e
    unfolding cluster_bytes_def r sectors_bytes_Suc using len assms(7) by simp
  obtain h3 where h3: "ready h3" "sector h3 = sector h"
      "read_loop io fp d 0 (512 - off) 512 h2 = Some (512, take (unat off) (sector h (fat_cluster_to_lba fp d)), h3)"
    using read_loop_first [OF h2(2) assms(4) pos sum assms(6), unfolded k, OF en] by (auto simp: h2(3) fst_sector)
  have "read_loop io fp c off 0 512 h =
      (if 512 - off \<ge> 512 then Some (sint (ucast (512 - off) :: u32), drop (unat off) (sector h ?lba), h1)
      else let nxt = fst (fat_next_cluster io fp c h1); h2 = snd (fat_next_cluster io fp c h1)
        in if nxt \<ge> FAT_EOC then Some (sint (ucast (512 - off) :: u32), drop (unat off) (sector h ?lba), h2)
        else do { (r, more, h3) \<leftarrow> read_loop io fp nxt 0 (512 - off) 512 h2; Some (r, drop (unat off) (sector h ?lba) @ more, h3) })"
    unfolding read_loop.simps [of io fp c off] Let_def to_read rc by simp
  then show ?thesis using c(3) h2(1) d(2) h3 by (simp add: Let_def)
qed

end

section \<open>Reading\<close>

text \<open>
  C12: on a volume that meets the contract of the device, \<open>fat_read\<close> of a range within the cluster chain
  of a file returns its length and exactly the bytes of the clusters at that range, and changes neither the
  disk nor the nodes, provided the request in its first cluster ends in the sectors the driver
  counts for it.
\<close>

theorem fat_read_spec:
  assumes "fat_volume io (fat_get_private s node) ready sector" "ready (hw (drive s))"
    and "chain (fat_get_private s node) (fat_entry (fat_get_private s node) (sector (hw (drive s)))) (fat_node_cluster s node) cs"
    and "\<forall>d \<in> set cs. on_disk (fat_get_private s node) d"
    and "unat off + unat sz \<le> length (chain_bytes (fat_get_private s node) (sector (hw (drive s))) cs)"
    and "unat off < length (chain_bytes (fat_get_private s node) (sector (hw (drive s))) cs)"
    and "enough_sectors (unat off) (min (512 * spc (fat_get_private s node) - unat off mod (512 * spc (fat_get_private s node))) (unat sz))"
    and "unat sz < 2 ^ 31"
  shows "\<exists>h'. fat_read io s node off sz =
      Some (int (unat sz), take (unat sz) (drop (unat off) (chain_bytes (fat_get_private s node) (sector (hw (drive s))) cs)), set_hw h' s) \<and>
      ready h' \<and> sector h' = sector (hw (drive s))"
proof -
  have "sint (ucast sz :: u32) = int (unat sz)" using assms(8) by (rule sint_ucast_small)
  then show ?thesis
    using fat_volume.read_chain [OF assms(1-7)] by (auto simp: fat_read_def Let_def)
qed

lemma fat_read_unfold:
  "read_skip io (fat_get_private s node) (fat_node_cluster s node) off (hw (drive s)) = Some (Some c, skip, h1) \<Longrightarrow>
   read_loop io (fat_get_private s node) c skip 0 sz h1 = Some (r, bs, h2) \<Longrightarrow>
   fat_read io s node off sz = Some (r, bs, set_hw h2 s)"
  by (simp add: fat_read_def Let_def)

text \<open>
  A request of 512 bytes that starts inside a sector, on a volume with at least two sectors in a
  cluster, is answered with the end of that sector followed by the start of the next \<^emph>\<open>cluster\<close>, where
  the file has the start of the next sector; the return value is the full 512.
\<close>

theorem fat_read_skips_sectors:
  assumes "fat_volume io (fat_get_private s node) ready sector" "ready (hw (drive s))"
    and "chain (fat_get_private s node) (fat_entry (fat_get_private s node) (sector (hw (drive s)))) c (c # d # cs)"
    and "fat_node_cluster s node = c" "on_disk (fat_get_private s node) c" "on_disk (fat_get_private s node) d"
    and "2 \<le> spc (fat_get_private s node)" "0 < unat off" "unat off < 512"
  shows "\<exists>h'. fat_read io s node off 512 = Some (512,
        drop (unat off) (sector (hw (drive s)) (fat_cluster_to_lba (fat_get_private s node) c)) @
        take (unat off) (sector (hw (drive s)) (fat_cluster_to_lba (fat_get_private s node) d)), set_hw h' s) \<and>
      take 512 (drop (unat off) (chain_bytes (fat_get_private s node) (sector (hw (drive s))) (c # d # cs))) =
        drop (unat off) (sector (hw (drive s)) (fat_cluster_to_lba (fat_get_private s node) c)) @
        take (unat off) (sector (hw (drive s)) (fat_cluster_to_lba (fat_get_private s node) c + 1))"
proof -
  let ?fp = "fat_get_private s node" and ?h = "hw (drive s)"
  have "read_skip io ?fp c off ?h = Some (Some c, off, ?h)"
    using assms(7,9) fat_volume.unat_bpc [OF assms(1)] by (simp add: read_skip.simps [of io ?fp c] word_le_nat_alt)
  moreover obtain h' where "read_loop io ?fp c off 0 512 ?h =
      Some (512, drop (unat off) (sector ?h (fat_cluster_to_lba ?fp c)) @ take (unat off) (sector ?h (fat_cluster_to_lba ?fp d)), h')"
    using fat_volume.read_straddle [OF assms(1-3,5-9)] by blast
  ultimately have run: "fat_read io s node off 512 = Some (512,
        drop (unat off) (sector ?h (fat_cluster_to_lba ?fp c)) @ take (unat off) (sector ?h (fat_cluster_to_lba ?fp d)), set_hw h' s)"
    using fat_read_unfold [of io s node off c off ?h 512] assms(4) by blast
  obtain r where r: "spc ?fp = Suc (Suc r)" using assms(7) by (metis add_2_eq_Suc le_Suc_ex)
  have len: "length (sector ?h l) = 512" for l
    by (rule block_device.sector_length [OF fat_volume.axioms(1) [OF assms(1)] assms(2)])
  have "take 512 (drop (unat off) (chain_bytes ?fp (sector ?h) (c # d # cs))) =
        drop (unat off) (sector ?h (fat_cluster_to_lba ?fp c)) @ take (unat off) (sector ?h (fat_cluster_to_lba ?fp c + 1))"
    using assms(9) len unfolding chain_bytes_def cluster_bytes_def r sectors_bytes_Suc by simp
  with run show ?thesis by blast
qed

text \<open>A read at the end of a file whose size is a whole number of clusters is an error, not the end of the file.\<close>

lemma read_skip_end:
  assumes "fat_volume io fp ready sector" "ready h" "chain fp (fat_entry fp (sector h)) c (c # cs)"
    and "FAT_EOC \<le> fat_entry fp (sector h) (last (c # cs))" "unat off = length (c # cs) * (512 * spc fp)"
  shows "\<exists>k h'. read_skip io fp c off h = Some (None, k, h')"
  using assms(2-5)
proof (induction cs arbitrary: c off h)
  case (Nil c)
  have "in_fat fp c" using Nil.prems(2) by (auto elim: chain_ConsE)
  then obtain h1 where "fat_next_cluster io fp c h = (fat_entry fp (sector h) c, h1)"
    using fat_volume.next_cluster [OF assms(1) Nil.prems(1)] by blast
  then show ?case
    using Nil.prems(3,4) fat_volume.unat_bpc [OF assms(1)] by (simp add: read_skip.simps [of io fp c] word_le_nat_alt)
next
  case (Cons d ds)
  have ch: "chain fp (fat_entry fp (sector h)) (fat_entry fp (sector h) c) (d # ds)" "in_fat fp c"
    using Cons.prems(2) by (auto elim: chain_ConsE)
  then have d: "fat_entry fp (sector h) c = d" "\<not> FAT_EOC \<le> d" by (auto elim: chain_ConsE)
  obtain h1 where h1: "fat_next_cluster io fp c h = (d, h1)" "ready h1" "sector h1 = sector h"
    using fat_volume.next_cluster [OF assms(1) Cons.prems(1) ch(2)] d(1) by auto
  note bpc = fat_volume.unat_bpc [OF assms(1)]
  let ?off = "off - ucast (bytes_per_cluster fp)"
  have le: "ucast (bytes_per_cluster fp) \<le> off" using Cons.prems(4) bpc by (simp add: word_le_nat_alt)
  then have "unat ?off = length (d # ds) * (512 * spc fp)" using Cons.prems(4) bpc by (simp add: unat_sub)
  moreover have "chain fp (fat_entry fp (sector h1)) d (d # ds)" "FAT_EOC \<le> fat_entry fp (sector h1) (last (d # ds))"
    using ch(1) d(1) h1(3) Cons.prems(3) by simp_all
  ultimately obtain k h' where "read_skip io fp d ?off h1 = Some (None, k, h')" using Cons.IH [OF h1(2)] by blast
  then show ?case using h1(1) d(2) le by (simp add: read_skip.simps [of io fp c off])
qed

lemma fat_read_end_of_chain:
  assumes "fat_volume io (fat_get_private s node) ready sector" "ready (hw (drive s))"
    and "chain (fat_get_private s node) (fat_entry (fat_get_private s node) (sector (hw (drive s)))) c (c # cs)"
    and "fat_node_cluster s node = c"
    and "FAT_EOC \<le> fat_entry (fat_get_private s node) (sector (hw (drive s))) (last (c # cs))"
    and "unat off = length (c # cs) * (512 * spc (fat_get_private s node))"
  shows "\<exists>h'. fat_read io s node off sz = Some (-1, [], set_hw h' s)"
  using read_skip_end [OF assms(1-3,5,6)] assms(4) by (auto simp: fat_read_def Let_def)

section \<open>An example\<close>

text \<open>Data sectors are filled with their number; cluster 5 is followed by 6. The node at 3 is the file.\<close>

definition link_sector :: "u8 list" where "link_sector = put_le 4 (replicate 512 0) 20 (6 :: u32)"

definition striped_drive :: drive where
  "striped_drive = blank_drive\<lparr>disk := (\<lambda>_ l. if l = 32 then link_sector else replicate 512 (if l < 96 then 0 else ucast l))\<rparr>"

definition striped_fs :: "drive fatfs" where
  "striped_fs = \<lparr>nodes = (\<lambda>a. (demo_nodes a)\<lparr>nfs_data := 4\<rparr>), files = (\<lambda>_. \<lparr>fnode = 3, foffset = 0\<rparr>), vheap = heap_full,
     fs_root = (\<lambda>_. 1), g_mounts = [([SLASH], 1)],
     drive = \<lparr>hw = striped_drive, ndata = (\<lambda>_. \<lparr>dcluster = 5, dir_lba = 0, dir_off = 0\<rparr>), fprivate = (\<lambda>_. small_volume)\<rparr>\<rparr>"

lemma striped_simps [simp]:
  "fat_get_private striped_fs 3 = small_volume" "fat_node_cluster striped_fs 3 = 5" "hw (drive striped_fs) = striped_drive"
  "spc small_volume = 2"
  by (simp_all add: fat_get_private_def fat_node_cluster_def striped_fs_def small_volume_simps small_bpb_def)

lemma length_link: "length link_sector = 512" by (simp add: link_sector_def)

lemma striped_ready: "drive_ready striped_drive"
  using blank_drive_ready length_link by (simp add: drive_ready_def striped_drive_def)

lemma striped_chain: "chain small_volume (fat_entry small_volume (disk striped_drive False)) 5 [5, 6]"
proof -
  have z: "bytes_le (replicate k 0) = (0 :: u32)" for k by (induction k) simp_all
  have e5: "fat_entry small_volume (disk striped_drive False) 5 = 6"
    by (simp add: fat_entry_def small_volume_simps striped_drive_def link_sector_def)
  have "(get_le 4 link_sector 24 :: u32) = get_le 4 (replicate 512 0) 24"
    unfolding link_sector_def by (rule get_put_le_other) simp_all
  then have e6: "fat_entry small_volume (disk striped_drive False) 6 = 0"
    by (simp add: fat_entry_def small_volume_simps striped_drive_def get_le_def z)
  have "chain small_volume (fat_entry small_volume (disk striped_drive False)) 6 [6]"
    by (intro chain.intros) (simp_all add: e6 small_in_fat FAT_EOC_def)
  then show ?thesis by (intro chain_step) (simp_all add: e5 small_in_fat FAT_EOC_def)
qed

lemma striped_lba: "fat_cluster_to_lba small_volume 5 = 102" "fat_cluster_to_lba small_volume 6 = 104"
  by (simp_all add: fat_cluster_to_lba_def small_volume_simps small_bpb_def)

lemma striped_bytes: "chain_bytes small_volume (disk striped_drive False) [5, 6] =
    replicate 512 102 @ replicate 512 103 @ replicate 512 104 @ replicate 512 105"
proof -
  have two: "spc small_volume = Suc (Suc 0)" by simp
  show ?thesis unfolding chain_bytes_def cluster_bytes_def striped_lba two sectors_bytes_Suc
    by (simp add: cluster_bytes_def striped_lba two sectors_bytes_Suc) (simp add: striped_drive_def)
qed

lemma striped_on_disk: "on_disk small_volume 5" "on_disk small_volume 6"
  by (simp_all add: on_disk_def small_volume_simps small_bpb_def)

lemma fat_read_spec_witness:
  "\<exists>h'. fat_read drive_ports striped_fs 3 1024 100 = Some (100, replicate 100 104, set_hw h' striped_fs)"
  using fat_read_spec [of drive_ports striped_fs 3 drive_ready "drive_sector True" "[5, 6]" 1024 100]
    small.fat_volume_axioms striped_ready striped_chain striped_on_disk
  by (simp add: striped_bytes enough_sectors_def) blast

lemma fat_read_skips_sectors_witness:
  "\<exists>h'. fat_read drive_ports striped_fs 3 256 512 = Some (512, replicate 256 102 @ replicate 256 104, set_hw h' striped_fs)"
  using fat_read_skips_sectors [of drive_ports striped_fs 3 drive_ready "drive_sector True" 5 6 "[]" 256]
    small.fat_volume_axioms striped_ready striped_chain striped_on_disk
  by (simp add: striped_lba) (simp add: striped_drive_def)

end
