(* ===== verification/UserLib.thy ===== *)
theory UserLib
  imports CString "HOL-Library.Monad_Syntax"
begin

text \<open>
  The library of the user programs, \<^verbatim>\<open>user/stdlib.c\<close>: strings, number conversion, formatted output and the
  allocator. Functions whose names \<^verbatim>\<open>lib/string.c\<close> also has carry the suffix \<open>_u\<close>. The counters of type
  \<open>int\<close> that index a string are integers; the values that are converted are 32 bit words, and the sum in
  \<open>atoi\<close> wraps around. A loop that never ends, an argument that is not there and an access through the null
  pointer are the value \<open>None\<close>. The system calls the library makes are arguments or fields of its state.
\<close>

section \<open>Strings\<close>

partial_function (option) strlen_u_from :: "mem \<Rightarrow> u64 \<Rightarrow> int \<Rightarrow> int option" where
  "strlen_u_from m s n = (if m (s + of_int n) \<noteq> 0 then strlen_u_from m s (n + 1) else Some n)"

definition strlen_u :: "mem \<Rightarrow> u64 \<Rightarrow> int option" where "strlen_u m s = strlen_u_from m s 0"

partial_function (option) strcmp_u :: "mem \<Rightarrow> u64 \<Rightarrow> u64 \<Rightarrow> int option" where
  "strcmp_u m a b = (if m a \<noteq> 0 \<and> m a = m b then strcmp_u m (a + 1) (b + 1) else Some (uint (m a) - uint (m b)))"

text \<open>The loops \<open>for (i = 0; i < n; i++)\<close> with \<open>k\<close> rounds left.\<close>

fun strncmp_u_loop :: "mem \<Rightarrow> u64 \<Rightarrow> u64 \<Rightarrow> nat \<Rightarrow> int" where
  "strncmp_u_loop m a b 0 = 0"
| "strncmp_u_loop m a b (Suc k) =
     (if m a \<noteq> 0 \<and> m b \<noteq> 0
      then if m a \<noteq> m b then uint (m a) - uint (m b) else strncmp_u_loop m (a + 1) (b + 1) k
      else 0)"

definition strncmp_u :: "mem \<Rightarrow> u64 \<Rightarrow> u64 \<Rightarrow> int \<Rightarrow> int" where "strncmp_u m a b n = strncmp_u_loop m a b (nat n)"

partial_function (option) strcpy_u :: "mem \<Rightarrow> u64 \<Rightarrow> u64 \<Rightarrow> mem option" where
  "strcpy_u m d s = (let m' = m(d := m s) in if m s \<noteq> 0 then strcpy_u m' (d + 1) (s + 1) else Some m')"

fun zero_bytes :: "mem \<Rightarrow> u64 \<Rightarrow> nat \<Rightarrow> mem" where
  "zero_bytes m d 0 = m"
| "zero_bytes m d (Suc k) = zero_bytes (m(d := 0)) (d + 1) k"

fun strncpy_u_loop :: "mem \<Rightarrow> u64 \<Rightarrow> u64 \<Rightarrow> nat \<Rightarrow> mem" where
  "strncpy_u_loop m d s 0 = m"
| "strncpy_u_loop m d s (Suc k) =
     (if m s \<noteq> 0 then strncpy_u_loop (m(d := m s)) (d + 1) (s + 1) k else zero_bytes m d (Suc k))"

definition strncpy_u :: "mem \<Rightarrow> u64 \<Rightarrow> u64 \<Rightarrow> int \<Rightarrow> mem" where "strncpy_u m d s n = strncpy_u_loop m d s (nat n)"

partial_function (option) str_end :: "mem \<Rightarrow> u64 \<Rightarrow> u64 option" where
  "str_end m d = (if m d \<noteq> 0 then str_end m (d + 1) else Some d)"

definition strcat :: "mem \<Rightarrow> u64 \<Rightarrow> u64 \<Rightarrow> mem option" where
  "strcat m d s = do { e \<leftarrow> str_end m d; strcpy_u m e s }"

partial_function (option) strchr :: "mem \<Rightarrow> u64 \<Rightarrow> u32 \<Rightarrow> u64 option" where
  "strchr m s c =
     (if m s \<noteq> 0 then if m s = ucast c then Some s else strchr m (s + 1) c
      else Some (if c = 0 then s else NULL))"

partial_function (option) starts_with :: "mem \<Rightarrow> u64 \<Rightarrow> u64 \<Rightarrow> bool option" where
  "starts_with m s prefix =
     (if m prefix \<noteq> 0 then if m s \<noteq> m prefix then Some False else starts_with m (s + 1) (prefix + 1) else Some True)"

definition ends_with :: "mem \<Rightarrow> u64 \<Rightarrow> u64 \<Rightarrow> bool option" where
  "ends_with m s suffix = do {
     sl \<leftarrow> strlen_u m s;
     tl \<leftarrow> strlen_u m suffix;
     if tl > sl then Some False else do { d \<leftarrow> strcmp_u m (s + of_int sl - of_int tl) suffix; Some (d = 0) }
   }"

function reverse_loop :: "mem \<Rightarrow> u64 \<Rightarrow> int \<Rightarrow> int \<Rightarrow> mem" where
  "reverse_loop m s i j =
     (if i < j
      then let tmp = m (s + of_int i); m1 = m(s + of_int i := m (s + of_int j)); m2 = m1(s + of_int j := tmp)
        in reverse_loop m2 s (i + 1) (j - 1)
      else m)"
  by pat_completeness auto
termination by (relation "measure (\<lambda>(m, s, i, j). nat (j - i))") auto

declare reverse_loop.simps [simp del]

definition reverse_str :: "mem \<Rightarrow> u64 \<Rightarrow> mem option" where
  "reverse_str m s = do { n \<leftarrow> strlen_u m s; Some (reverse_loop m s 0 (n - 1)) }"

section \<open>Numbers\<close>

text \<open>\<open>while (uval) { buf[i++] = '0' + uval % 10; uval /= 10; }\<close>: the new memory and the new end of the buffer.\<close>

function put_dec :: "mem \<Rightarrow> u64 \<Rightarrow> u32 \<Rightarrow> u64 \<times> mem" where
  "put_dec m p v = (if v = 0 then (p, m) else put_dec (m(p := 0x30 + ucast (v mod 10))) (p + 1) (v div 10))"
  by pat_completeness auto
termination
  by (relation "measure (\<lambda>(m, p, v). unat v)") (auto simp: unat_div unat_gt_0)

definition hex_digit :: "u64 \<Rightarrow> u8" where
  "hex_digit d = (if d < 10 then 0x30 + ucast d else 0x61 + ucast (d - 10))"

function put_hex :: "mem \<Rightarrow> u64 \<Rightarrow> u64 \<Rightarrow> u64 \<times> mem" where
  "put_hex m p v = (if v = 0 then (p, m) else put_hex (m(p := hex_digit (v AND 0xF))) (p + 1) (drop_bit 4 v))"
  by pat_completeness auto
termination
  by (relation "measure (\<lambda>(m, p, v). unat v)") (auto simp: drop_bit_eq_div unat_div unat_gt_0)

declare put_dec.simps [simp del] put_hex.simps [simp del]

definition itoa :: "mem \<Rightarrow> u32 \<Rightarrow> u64 \<Rightarrow> mem option" where
  "itoa m val buffer =
     (let neg = sint val < 0;
          uval = (if neg then - (val + 1) + 1 else val);
          (p, m1) = (if uval = 0 then (buffer + 1, m(buffer := 0x30)) else put_dec m buffer uval);
          (p2, m2) = (if neg then (p + 1, m1(p := 0x2D)) else (p, m1))
      in reverse_str (m2(p2 := 0)) buffer)"

definition utoa :: "mem \<Rightarrow> u32 \<Rightarrow> u64 \<Rightarrow> mem option" where
  "utoa m val buffer =
     (let (p, m1) = (if val = 0 then (buffer + 1, m(buffer := 0x30)) else put_dec m buffer val)
      in reverse_str (m1(p := 0)) buffer)"

definition itox :: "mem \<Rightarrow> u32 \<Rightarrow> u64 \<Rightarrow> mem option" where
  "itox m val buffer =
     (let (p, m1) = (if val = 0 then (buffer + 1, m(buffer := 0x30)) else put_hex m buffer (ucast val))
      in reverse_str (m1(p := 0)) buffer)"

partial_function (option) skip_blanks :: "mem \<Rightarrow> u64 \<Rightarrow> u64 option" where
  "skip_blanks m s = (if m s = 0x20 then skip_blanks m (s + 1) else Some s)"

partial_function (option) take_digits :: "mem \<Rightarrow> u64 \<Rightarrow> u32 \<Rightarrow> u32 option" where
  "take_digits m s val =
     (if 0x30 \<le> m s \<and> m s \<le> 0x39 then take_digits m (s + 1) (val * 10 + ucast (m s - 0x30)) else Some val)"

definition atoi :: "mem \<Rightarrow> u64 \<Rightarrow> u32 option" where
  "atoi m s0 = do {
     s \<leftarrow> skip_blanks m s0;
     let neg = (m s = 0x2D);
     val \<leftarrow> take_digits m (if neg then s + 1 else if m s = 0x2B then s + 1 else s) 0;
     Some (if neg then - val else val)
   }"

section \<open>Output\<close>

text \<open>
  What the output functions work on: memory, the bytes written to the standard output, the pointer behind
  \<open>char **out\<close> (\<open>None\<close> is the null pointer, with which \<open>putchar\<close> is used), and the address of the local buffer
  of the conversion functions.
\<close>

record uio =
  umem :: mem
  ustdout :: "u8 list"
  uout :: "u64 option"
  ulocal :: u64

definition putchar :: "uio \<Rightarrow> u8 \<Rightarrow> uio" where "putchar s c = s\<lparr>ustdout := ustdout s @ [c]\<rparr>"

definition puts :: "uio \<Rightarrow> u64 \<Rightarrow> uio option" where
  "puts s p = do { n \<leftarrow> strlen_u (umem s) p; Some (s\<lparr>ustdout := ustdout s @ map (\<lambda>i. umem s (p + of_nat i)) [0..<nat n]\<rparr>) }"

text \<open>\<open>sys_read\<close> of one byte: the number of bytes read and the byte.\<close>

definition getchar :: "(int \<times> u8) \<Rightarrow> int" where
  "getchar rd = (if fst rd = 1 then sint (snd rd) else -1)"

definition put_char_to :: "uio \<Rightarrow> u8 \<Rightarrow> uio" where
  "put_char_to s c =
     (case uout s of Some p \<Rightarrow> s\<lparr>umem := (umem s)(p := c), uout := Some (p + 1)\<rparr> | None \<Rightarrow> putchar s c)"

partial_function (option) put_str_to :: "uio \<Rightarrow> u64 \<Rightarrow> uio option" where
  "put_str_to s p = (if umem s p \<noteq> 0 then put_str_to (put_char_to s (umem s p)) (p + 1) else Some s)"

definition put_int_to :: "uio \<Rightarrow> u32 \<Rightarrow> uio option" where
  "put_int_to s val = do { m \<leftarrow> itoa (umem s) val (ulocal s); put_str_to (s\<lparr>umem := m\<rparr>) (ulocal s) }"

definition put_uint_to :: "uio \<Rightarrow> u32 \<Rightarrow> uio option" where
  "put_uint_to s val = do { m \<leftarrow> utoa (umem s) val (ulocal s); put_str_to (s\<lparr>umem := m\<rparr>) (ulocal s) }"

definition put_hex_to :: "uio \<Rightarrow> u32 \<Rightarrow> uio option" where
  "put_hex_to s val = do { m \<leftarrow> itox (umem s) val (ulocal s); put_str_to (s\<lparr>umem := m\<rparr>) (ulocal s) }"

definition put_ptr_to :: "uio \<Rightarrow> u64 \<Rightarrow> uio option" where
  "put_ptr_to s val =
     (if val = 0 then Some (put_char_to (put_char_to (put_char_to s 0x30) 0x78) 0x30)
      else do {
        let s1 = put_char_to (put_char_to s 0x30) 0x78;
        let (p, m1) = put_hex (umem s1) (ulocal s1) val;
        m \<leftarrow> reverse_str (m1(p := 0)) (ulocal s1);
        put_str_to (s1\<lparr>umem := m\<rparr>) (ulocal s1)
      })"

text \<open>\<open>__builtin_va_arg\<close>: the next argument, one quadword each.\<close>

definition va_arg :: "u64 list \<Rightarrow> (u64 \<times> u64 list) option" where
  "va_arg ap = (case ap of [] \<Rightarrow> None | a # ap' \<Rightarrow> Some (a, ap'))"

definition format_one :: "uio \<Rightarrow> u8 \<Rightarrow> u64 list \<Rightarrow> (uio \<times> u64 list) option" where
  "format_one s c ap =
     (if c = 0x64 then do { (a, ap1) \<leftarrow> va_arg ap; s1 \<leftarrow> put_int_to s (ucast a); Some (s1, ap1) }
      else if c = 0x75 then do { (a, ap1) \<leftarrow> va_arg ap; s1 \<leftarrow> put_uint_to s (ucast a); Some (s1, ap1) }
      else if c = 0x78 \<or> c = 0x58 then do { (a, ap1) \<leftarrow> va_arg ap; s1 \<leftarrow> put_hex_to s (ucast a); Some (s1, ap1) }
      else if c = 0x73 then do { (a, ap1) \<leftarrow> va_arg ap; s1 \<leftarrow> put_str_to s a; Some (s1, ap1) }
      else if c = 0x63 then do { (a, ap1) \<leftarrow> va_arg ap; Some (put_char_to s (ucast a), ap1) }
      else if c = 0x70 then do { (a, ap1) \<leftarrow> va_arg ap; s1 \<leftarrow> put_ptr_to s a; Some (s1, ap1) }
      else if c = 0x25 then Some (put_char_to s 0x25, ap)
      else Some (put_char_to (put_char_to s 0x25) c, ap))"

partial_function (option) vprintf :: "uio \<Rightarrow> u64 \<Rightarrow> u64 list \<Rightarrow> uio option" where
  "vprintf s fmt ap =
     (let c = umem s fmt in
      if c = 0 then Some s
      else if c = 0x25
      then do { (s1, ap1) \<leftarrow> format_one s (umem s (fmt + 1)) ap; vprintf s1 (fmt + 2) ap1 }
      else vprintf (put_char_to s c) (fmt + 1) ap)"

definition printf :: "uio \<Rightarrow> u64 \<Rightarrow> u64 list \<Rightarrow> uio option" where
  "printf s fmt ap = vprintf (s\<lparr>uout := None\<rparr>) fmt ap"

definition sprintf :: "uio \<Rightarrow> u64 \<Rightarrow> u64 \<Rightarrow> u64 list \<Rightarrow> uio option" where
  "sprintf s buffer fmt ap = do {
     s1 \<leftarrow> vprintf (s\<lparr>uout := Some buffer\<rparr>) fmt ap;
     case uout s1 of Some p \<Rightarrow> Some (s1\<lparr>umem := (umem s1)(p := 0)\<rparr>) | None \<Rightarrow> None
   }"

section \<open>The allocator\<close>

text \<open>
  Blocks are linked headers of 16 bytes: the usable size, the free flag and the next header. The system call
  \<open>sys_brk\<close> is an argument that maps its own state and the address to the result and the new state.
\<close>

definition HEAP_SIZE :: u64 where "HEAP_SIZE = 0x10000"
definition BLOCK_SIZE :: u64 where "BLOCK_SIZE = 16"

record 'k uheap =
  hmem :: mem
  heap_base :: u64
  heap_end :: u64
  heap_inited :: bool
  kst :: 'k

type_synonym 'k brk = "'k \<Rightarrow> u64 \<Rightarrow> u64 \<times> 'k"

definition blk_size :: "mem \<Rightarrow> u64 \<Rightarrow> u32" where "blk_size m b = load_le 4 m b"
definition blk_free :: "mem \<Rightarrow> u64 \<Rightarrow> u32" where "blk_free m b = load_le 4 m (b + 4)"
definition blk_next :: "mem \<Rightarrow> u64 \<Rightarrow> u64" where "blk_next m b = load64 m (b + 8)"

definition put_size :: "u64 \<Rightarrow> u32 \<Rightarrow> mem \<Rightarrow> mem" where "put_size b v m = store_le 4 m b v"
definition put_free :: "u64 \<Rightarrow> u32 \<Rightarrow> mem \<Rightarrow> mem" where "put_free b v m = store_le 4 m (b + 4) v"
definition put_next :: "u64 \<Rightarrow> u64 \<Rightarrow> mem \<Rightarrow> mem" where "put_next b v m = store64 m (b + 8) v"

text \<open>The three stores that set up a block that is free; a store through the null pointer is a page fault.\<close>

definition new_block :: "u64 \<Rightarrow> u32 \<Rightarrow> u64 \<Rightarrow> mem \<Rightarrow> mem option" where
  "new_block b sz nxt m = (if b = NULL then None else Some (put_next b nxt (put_free b 1 (put_size b sz m))))"

definition heap_init_u :: "'k brk \<Rightarrow> 'k uheap \<Rightarrow> 'k uheap option" where
  "heap_init_u brk h =
     (if heap_inited h then Some h
      else do {
        let (cur_break, k1) = brk (kst h) 0;
        let new_break = cur_break + HEAP_SIZE;
        let (_, k2) = brk k1 new_break;
        m \<leftarrow> new_block cur_break (ucast (HEAP_SIZE - BLOCK_SIZE)) NULL (hmem h);
        Some (h\<lparr>hmem := m, heap_base := cur_break, heap_end := new_break, heap_inited := True, kst := k2\<rparr>)
      })"

partial_function (option) find_free :: "mem \<Rightarrow> u64 \<Rightarrow> u32 \<Rightarrow> u64 option" where
  "find_free m cur sz =
     (if cur = NULL then Some NULL
      else if blk_free m cur \<noteq> 0 \<and> blk_size m cur \<ge> sz then Some cur
      else find_free m (blk_next m cur) sz)"

definition split_block :: "mem \<Rightarrow> u64 \<Rightarrow> u32 \<Rightarrow> mem" where
  "split_block m blk sz =
     (if (ucast (blk_size m blk) :: u64) \<ge> ucast sz + BLOCK_SIZE + 16
      then
        let new_blk = blk + BLOCK_SIZE + ucast sz;
            m1 = put_size new_blk (blk_size m blk - sz - ucast BLOCK_SIZE) m;
            m2 = put_free new_blk 1 m1;
            m3 = put_next new_blk (blk_next m2 blk) m2;
            m4 = put_next blk new_blk m3
        in put_size blk sz m4
      else m)"

text \<open>\<open>while (last && last->next) last = last->next;\<close>\<close>

partial_function (option) last_block :: "mem \<Rightarrow> u64 \<Rightarrow> u64 option" where
  "last_block m b = (if b \<noteq> NULL \<and> blk_next m b \<noteq> NULL then last_block m (blk_next m b) else Some b)"

definition grow_u :: "'k brk \<Rightarrow> u32 \<Rightarrow> 'k uheap \<Rightarrow> (u64 \<times> 'k uheap) option" where
  "grow_u brk sz h = do {
     let (cur_break, k1) = brk (kst h) 0;
     let need = BLOCK_SIZE + ucast sz;
     let grow = (if need > HEAP_SIZE then need else HEAP_SIZE);
     let (_, k2) = brk k1 (cur_break + grow);
     let h1 = h\<lparr>heap_end := cur_break + grow, kst := k2\<rparr>;
     last \<leftarrow> last_block (hmem h1) (heap_base h1);
     if last \<noteq> NULL \<and> blk_free (hmem h1) last \<noteq> 0
     then Some (last, h1\<lparr>hmem := put_size last (blk_size (hmem h1) last + ucast grow) (hmem h1)\<rparr>)
     else do {
       m \<leftarrow> new_block cur_break (ucast (grow - BLOCK_SIZE)) NULL (hmem h1);
       Some (cur_break, if last \<noteq> NULL then h1\<lparr>hmem := put_next last cur_break m\<rparr> else h1\<lparr>hmem := m, heap_base := cur_break\<rparr>)
     }
   }"

definition malloc :: "'k brk \<Rightarrow> u32 \<Rightarrow> 'k uheap \<Rightarrow> (u64 \<times> 'k uheap) option" where
  "malloc brk sz h0 =
     (if sz = 0 then Some (NULL, h0)
      else do {
        h \<leftarrow> heap_init_u brk h0;
        b0 \<leftarrow> find_free (hmem h) (heap_base h) sz;
        (b, h1) \<leftarrow> (if b0 = NULL then grow_u brk sz h else Some (b0, h));
        let m = split_block (hmem h1) b sz;
        Some (b + BLOCK_SIZE, h1\<lparr>hmem := put_free b 0 m\<rparr>)
      })"

partial_function (option) coalesce_u :: "mem \<Rightarrow> u64 \<Rightarrow> mem option" where
  "coalesce_u m cur =
     (if cur \<noteq> NULL \<and> blk_next m cur \<noteq> NULL
      then
        let nxt = blk_next m cur in
        if blk_free m cur \<noteq> 0 \<and> blk_free m nxt \<noteq> 0
        then
          let m1 = put_size cur (blk_size m cur + (ucast BLOCK_SIZE + blk_size m nxt)) m
          in coalesce_u (put_next cur (blk_next m1 (blk_next m1 cur)) m1) cur
        else coalesce_u m nxt
      else Some m)"

definition free_u :: "u64 \<Rightarrow> 'k uheap \<Rightarrow> 'k uheap option" where
  "free_u ptr h =
     (if ptr = NULL then Some h
      else do {
        m \<leftarrow> coalesce_u (put_free (ptr - BLOCK_SIZE) 1 (hmem h)) (heap_base h);
        Some (h\<lparr>hmem := m\<rparr>)
      })"

definition calloc :: "'k brk \<Rightarrow> u32 \<Rightarrow> u32 \<Rightarrow> 'k uheap \<Rightarrow> (u64 \<times> 'k uheap) option" where
  "calloc brk cnt sz h = do {
     let total = cnt * sz;
     (p, h1) \<leftarrow> malloc brk total h;
     Some (p, if p \<noteq> NULL then h1\<lparr>hmem := zero_bytes (hmem h1) p (unat total)\<rparr> else h1)
   }"

end
