(* ===== verification/Elf.thy ===== *)
theory Elf
  imports Vfs Bytes
begin

text \<open>
  The program loader of \<^verbatim>\<open>kernel/elf.c\<close>. It reads the file through the VFS, clones the address space, maps
  and fills the segments and the stack. Physical memory and page tables are the machine inside the heap state
  of the VFS. Headers are read from the bytes the VFS returned, at their packed offsets. Messages on the
  serial line are left out, among them the dump of the first bytes of the code. A result \<open>None\<close> is a
  loop that does not end.
\<close>

definition ELF_MAGIC :: u32 where "ELF_MAGIC = 0x464C457F"
definition PT_LOAD :: u32 where "PT_LOAD = 1"
definition ELF_USER_STACK_SIZE :: u64 where "ELF_USER_STACK_SIZE = 0x5000"

record elf64_hdr =
  e_magic :: u32
  e_entry :: u64
  e_phoff :: u64
  e_phnum :: u16

definition read_hdr :: "u8 list \<Rightarrow> elf64_hdr" where
  "read_hdr b = \<lparr>e_magic = get_le 4 b 0, e_entry = get_le 8 b 24, e_phoff = get_le 8 b 32, e_phnum = get_le 2 b 56\<rparr>"

record elf64_phdr =
  p_type :: u32
  p_offset :: u64
  p_vaddr :: u64
  p_filesz :: u64
  p_memsz :: u64

definition read_phdr :: "u8 list \<Rightarrow> nat \<Rightarrow> elf64_phdr" where
  "read_phdr b i =
     \<lparr>p_type = get_le 4 b (56 * i), p_offset = get_le 8 b (56 * i + 8), p_vaddr = get_le 8 b (56 * i + 16),
      p_filesz = get_le 8 b (56 * i + 32), p_memsz = get_le 8 b (56 * i + 40)\<rparr>"

abbreviation vmach :: "'d vfs \<Rightarrow> machine" where "vmach s \<equiv> mach (vheap s)"

definition set_mach :: "machine \<Rightarrow> 'd vfs \<Rightarrow> 'd vfs" where
  "set_mach M s = s\<lparr>vheap := (vheap s)\<lparr>mach := M\<rparr>\<rparr>"

definition close_file :: "u64 \<Rightarrow> 'd vfs \<Rightarrow> 'd vfs" where
  "close_file f s = s\<lparr>vheap := (if f = NULL then vheap s else kfree (vheap s) f)\<rparr>"

definition set_offset :: "u64 \<Rightarrow> u64 \<Rightarrow> 'd vfs \<Rightarrow> 'd vfs" where
  "set_offset f off s = s\<lparr>files := (files s)(f := (files s f)\<lparr>foffset := off\<rparr>)\<rparr>"

text \<open>The path in the buffer of 64 bytes.\<close>

definition elf_path :: "cstring \<Rightarrow> cstring" where
  "elf_path pth = (if pth \<noteq> [] \<and> hd pth = SLASH then take 63 pth else SLASH # take 62 pth)"

text \<open>The loop that maps \<open>n\<close> fresh zeroed pages from \<open>page\<close> on; \<open>False\<close> when memory or a mapping fails.\<close>

fun map_pages :: "machine \<Rightarrow> u64 \<Rightarrow> u64 \<Rightarrow> nat \<Rightarrow> bool \<times> machine" where
  "map_pages M pml4 page 0 = (True, M)"
| "map_pages M pml4 page (Suc n) =
     (case pmm_alloc (frames M) of (phys, fr) \<Rightarrow>
        let M1 = M\<lparr>frames := fr\<rparr> in
        if phys = NULL then (False, M1)
        else
          let M2 = M1\<lparr>ram := bytes_zero (ram M1) phys 4096\<rparr>;
              (r, M3) = paging_map_page_on M2 pml4 page phys (PAGE_USER OR PAGE_RW)
          in if r < 0 then (False, M3) else map_pages M3 pml4 (page + PAGE_SIZE) n)"

text \<open>The number of rounds of \<open>for (page = start_page; page < end_page; page += PAGE_SIZE)\<close>; both ends are page aligned.\<close>

definition page_rounds :: "u64 \<Rightarrow> u64 \<Rightarrow> nat" where
  "page_rounds start_page end_page = (if start_page < end_page then unat ((end_page - start_page) div PAGE_SIZE) else 0)"

text \<open>The bytes \<open>bs\<close> stored from the physical address \<open>p\<close> on.\<close>

fun ram_store :: "mem \<Rightarrow> u64 \<Rightarrow> u8 list \<Rightarrow> mem" where
  "ram_store m p [] = m"
| "ram_store m p (b # bs) = ram_store (m(p := b)) (p + 1) bs"

text \<open>The loop that copies the file part of a segment in chunks of at most 512 bytes.\<close>

partial_function (option) load_chunks :: "'d drivers \<Rightarrow> u64 \<Rightarrow> u64 \<Rightarrow> u64 \<Rightarrow> u64 \<Rightarrow> 'd vfs \<Rightarrow> 'd vfs option" where
  "load_chunks drv pml4 f remaining write_addr s =
     (if remaining > 0
      then do {
        (nr, tmp, s1) \<leftarrow> vfs_read drv s f (if remaining > 512 then 512 else remaining);
        if nr \<le> 0 then Some s1
        else
          let M = vmach s1;
              phys = paging_get_phys_on M pml4 write_addr;
              s2 = (if phys \<noteq> 0 then set_mach (M\<lparr>ram := ram_store (ram M) phys (take (nat nr) tmp)\<rparr>) s1 else s1)
          in load_chunks drv pml4 f (remaining - of_int nr) (write_addr + of_int nr) s2
      }
      else Some s)"

text \<open>The loop that clears the rest of a segment byte by byte.\<close>

fun clear_bytes :: "machine \<Rightarrow> u64 \<Rightarrow> u64 \<Rightarrow> nat \<Rightarrow> machine" where
  "clear_bytes M pml4 v 0 = M"
| "clear_bytes M pml4 v (Suc n) =
     (let phys = paging_get_phys_on M pml4 v
      in clear_bytes (if phys \<noteq> 0 then M\<lparr>ram := (ram M)(phys := 0)\<rparr> else M) pml4 (v + 1) n)"

text \<open>One program header; \<open>False\<close> is an early return of -1.\<close>

definition load_segment :: "'d drivers \<Rightarrow> u64 \<Rightarrow> u64 \<Rightarrow> elf64_phdr \<Rightarrow> 'd vfs \<Rightarrow> (bool \<times> 'd vfs) option" where
  "load_segment drv pml4 f ph s =
     (if p_type ph \<noteq> PT_LOAD then Some (True, s)
      else
        let vaddr = p_vaddr ph;
            start_page = vaddr AND NOT 0xFFF;
            end_page = (vaddr + p_memsz ph + 0xFFF) AND NOT 0xFFF;
            (ok, M) = map_pages (vmach s) pml4 start_page (page_rounds start_page end_page);
            s1 = set_mach M s
        in if \<not> ok then Some (False, close_file f s1)
        else do {
          s2 \<leftarrow> (if p_filesz ph > 0 then load_chunks drv pml4 f (p_filesz ph) vaddr (set_offset f (p_offset ph) s1) else Some s1);
          Some (True, set_mach (clear_bytes (vmach s2) pml4 (vaddr + p_filesz ph)
            (if p_filesz ph < p_memsz ph then unat (p_memsz ph - p_filesz ph) else 0)) s2)
        })"

fun load_segments :: "'d drivers \<Rightarrow> u64 \<Rightarrow> u64 \<Rightarrow> elf64_phdr list \<Rightarrow> 'd vfs \<Rightarrow> (bool \<times> 'd vfs) option" where
  "load_segments drv pml4 f [] s = Some (True, s)"
| "load_segments drv pml4 f (ph # phs) s = do {
     (ok, s1) \<leftarrow> load_segment drv pml4 f ph s;
     if ok then load_segments drv pml4 f phs s1 else Some (False, s1)
   }"

text \<open>The stack, and the two words \<open>argc\<close> and \<open>argv\<close> at its top.\<close>

definition elf_args_addr :: "machine \<Rightarrow> u64 \<Rightarrow> u64" where
  "elf_args_addr M pml4 = paging_get_phys_on M pml4 (0x70000000 - 16) + ((0x70000000 - 16) AND 0xFFF)"

definition elf_stack :: "machine \<Rightarrow> u64 \<Rightarrow> bool \<times> machine" where
  "elf_stack M pml4 =
     (let (ok, M1) = map_pages M pml4 (0x70000000 - ELF_USER_STACK_SIZE) (page_rounds 0 ELF_USER_STACK_SIZE)
      in if \<not> ok then (False, M1)
      else
        let args = elf_args_addr M1 pml4
        in (True, M1\<lparr>ram := store64 (store64 (ram M1) args 0) (args + 8) 0\<rparr>))"

text \<open>Entry point, stack top and page table, or \<open>None\<close> for -1.\<close>

definition elf_load :: "'d drivers \<Rightarrow> 'd vfs \<Rightarrow> cstring \<Rightarrow> ((u64 \<times> u64 \<times> u64) option \<times> 'd vfs) option" where
  "elf_load drv s pth = do {
     (f, s1) \<leftarrow> vfs_open drv s (elf_path pth);
     if f = NULL then Some (None, s1)
     else do {
       (n, b, s2) \<leftarrow> vfs_read drv s1 f 64;
       let hdr = read_hdr b;
       if n < 64 \<or> e_magic hdr \<noteq> ELF_MAGIC \<or> e_phnum hdr > 16 then Some (None, close_file f s2)
       else do {
         let phnum = unat (e_phnum hdr);
         (n, b, s3) \<leftarrow> vfs_read drv (set_offset f (e_phoff hdr) s2) f (of_nat (phnum * 56));
         if n < int (phnum * 56) then Some (None, close_file f s3)
         else do {
           let (pml4, M) = paging_clone_current (vmach s3);
           let s4 = set_mach M s3;
           if pml4 = 0 then Some (None, s4)
           else do {
             (ok, s5) \<leftarrow> load_segments drv pml4 f (map (read_phdr b) [0..<phnum]) s4;
             if \<not> ok then Some (None, s5)
             else do {
               let s6 = close_file f s5;
               let (ok, M) = elf_stack (vmach s6) pml4;
               let s7 = set_mach M s6;
               Some (if ok then Some (e_entry hdr, 0x70000000 - 16, pml4) else None, s7)
             }
           }
         }
       }
     }
   }"

section \<open>Mapping segments\<close>

lemma bytes_zero_apply: "n \<le> 2 ^ 64 \<Longrightarrow> bytes_zero m p n a = (if unat (a - p) < n then 0 else m a)"
proof (induction n)
  case (Suc n)
  have "a = p + of_nat n \<longleftrightarrow> a - p = of_nat n" by (auto simp: algebra_simps)
  also have "\<dots> \<longleftrightarrow> unat (a - p) = n" using Suc.prems by (simp add: unat_of_nat word_unat_eq_iff [of "a - p"])
  finally have "a = p + of_nat n \<longleftrightarrow> unat (a - p) = n" .
  then show ?case using Suc by auto
qed simp

text \<open>Taking a frame and clearing it changes no translation.\<close>

lemma fresh_page_step:
  assumes ok: "vm_ok M pml4 own" and a: "pmm_alloc (frames M) = (phys, fr)" "phys \<noteq> NULL"
  defines "M2 \<equiv> M\<lparr>frames := fr, ram := bytes_zero (ram M) phys 4096\<rparr>"
  shows "vm_ok M2 pml4 own" "paging_get_phys_on M2 pml4 v = paging_get_phys_on M pml4 v"
proof -
  note A = alloc_table [OF ok a]
  have same: "tbl_get (bytes_zero (ram M) phys 4096) t i = tbl_get (ram M) t i" if t: "own t = Some p" "i < 512" for t p i
  proof -
    have al: "page_aligned t" "page_aligned phys" "t \<noteq> phys" using vm_okD(4) [OF ok t(1)] A t(1) by auto
    have "\<not> unat (t + 8 * i + of_nat k - phys) < 4096" if k: "k < 8" for k
    proof
      assume lt: "unat (t + 8 * i + of_nat k - phys) < 4096"
      define d where "d = t - phys"
      have dal: "4096 dvd unat d" "d \<noteq> 0"
        using al unfolding d_def page_aligned_def by (simp_all add: unat_sub_if')
      have ik: "unat (8 * i + of_nat k :: u64) = 8 * unat i + k" "8 * unat i + k < 4096"
        using t(2) k by (simp_all add: unat_word_ariths unat_of_nat word_less_nat_alt)
      have "unat d + (8 * unat i + k) < 2 ^ 64"
        using dvd_less_add [OF dal(1) _ ik(2), of "2 ^ 64"] unat_less_2p64 [of d] by simp
      then have "unat (d + (8 * i + of_nat k)) = unat d + (8 * unat i + k)" using ik(1) by (simp add: unat_word_ariths)
      moreover have "d + (8 * i + of_nat k) = t + 8 * i + of_nat k - phys" by (simp add: d_def)
      moreover have "4096 \<le> unat d" using dal by (simp add: dvd_imp_le unat_gt_0)
      ultimately show False using lt by simp
    qed
    then show ?thesis unfolding tbl_get_def load64_def by (intro load_le_cong) (simp add: bytes_zero_apply)
  qed
  have sim: "tables_sim (ram M) (bytes_zero (ram M) phys 4096) own" using same by (auto simp: tables_sim_def)
  have "pt_wf (bytes_zero (ram M) phys 4096) pml4 own" by (rule pt_wf_sim [OF vm_okD(2) [OF ok] sim])
  then show "vm_ok M2 pml4 own" using ok A by (auto simp: vm_ok_def M2_def)
  show "paging_get_phys_on M2 pml4 v = paging_get_phys_on M pml4 v"
    using walk_sim [OF vm_okD(2) [OF ok] sim vm_okD(3) [OF ok], of 3] by (simp add: get_phys_walk M2_def)
qed

lemma user_rw_flags: "(PAGE_USER OR PAGE_RW) AND PAGE_ADDR_MASK = 0"
  by (simp add: PAGE_USER_def PAGE_RW_def PAGE_ADDR_MASK_def)

text \<open>Page \<open>i\<close> of a range, and that two pages of a range are different pages.\<close>

abbreviation nth_page :: "u64 \<Rightarrow> nat \<Rightarrow> u64" where "nth_page page i \<equiv> page + of_nat i * PAGE_SIZE"

lemma page_aligned_step: "page_aligned a \<Longrightarrow> page_aligned (a + PAGE_SIZE)"
  unfolding page_aligned_def PAGE_SIZE_def by (simp add: unat_word_ariths dvd_mod_iff)

lemma same_page_bits: "same_page v w \<longleftrightarrow> (\<forall>k. 12 \<le> k \<and> k < 48 \<longrightarrow> bit v k = bit w k)"
proof -
  have eq: "idx l v = idx l w \<longleftrightarrow> (\<forall>k. 12 + 9 * l \<le> k \<and> k < 21 + 9 * l \<longrightarrow> bit v k = bit w k)" for l
  proof
    assume e: "idx l v = idx l w"
    show "\<forall>k. 12 + 9 * l \<le> k \<and> k < 21 + 9 * l \<longrightarrow> bit v k = bit w k"
    proof (intro allI impI, elim conjE)
      fix k assume "12 + 9 * l \<le> k" "k < 21 + 9 * l"
      then obtain j where "k = 12 + 9 * l + j" "j < 9" by (auto dest: le_Suc_ex)
      then show "bit v k = bit w k" using bit_idx [of l v j] bit_idx [of l w j] e by simp
    qed
  qed (auto intro!: bit_word_eqI simp: bit_idx)
  have "same_page v w \<longleftrightarrow> idx 3 v = idx 3 w \<and> idx 2 v = idx 2 w \<and> idx 1 v = idx 1 w \<and> idx 0 v = idx 0 w"
    by (simp add: same_page_def idx_eqs)
  moreover have "(\<forall>k. (12::nat) \<le> k \<and> k < 48 \<longrightarrow> P k) \<longleftrightarrow> (\<forall>k. 39 \<le> k \<and> k < 48 \<longrightarrow> P k) \<and> (\<forall>k. 30 \<le> k \<and> k < 39 \<longrightarrow> P k) \<and>
      (\<forall>k. 21 \<le> k \<and> k < 30 \<longrightarrow> P k) \<and> (\<forall>k. 12 \<le> k \<and> k < 21 \<longrightarrow> P k)" for P
  proof (intro iffI conjI allI impI)
    fix k assume P: "(\<forall>k. 39 \<le> k \<and> k < 48 \<longrightarrow> P k) \<and> (\<forall>k. 30 \<le> k \<and> k < 39 \<longrightarrow> P k) \<and>
      (\<forall>k. 21 \<le> k \<and> k < 30 \<longrightarrow> P k) \<and> (\<forall>k. 12 \<le> k \<and> k < 21 \<longrightarrow> P k)" and "12 \<le> k \<and> k < (48::nat)"
    then consider "12 \<le> k \<and> k < 21" | "21 \<le> k \<and> k < 30" | "30 \<le> k \<and> k < 39" | "39 \<le> k \<and> k < 48" by linarith
    then show "P k" using P by cases blast+
  qed auto
  ultimately show ?thesis unfolding eq by simp
qed

lemma pages_differ:
  assumes "page_aligned page" "i < 2 ^ 36" "j < 2 ^ 36" "same_page (nth_page page i) (nth_page page j)"
  shows "i = j"
proof -
  obtain P where P: "unat page = 4096 * P" using assms(1) by (auto simp: page_aligned_def dvd_def)
  have "page = of_nat (unat page)" by simp
  then have pg: "page = push_bit 12 (of_nat P)" unfolding P by (simp add: push_bit_eq_mult)
  have nth: "nth_page page k = push_bit 12 (of_nat (P + k))" for k
    by (simp add: pg push_bit_eq_mult PAGE_SIZE_def algebra_simps)
  have "bit (P + i) k = bit (P + j) k" if "k < 36" for k
  proof -
    have "bit (push_bit 12 (of_nat (P + i) :: u64)) (12 + k) = bit (push_bit 12 (of_nat (P + j) :: u64)) (12 + k)"
      using assms(4) that unfolding same_page_bits nth by simp
    then show ?thesis using that by (simp add: bit_push_bit_iff bit_of_nat_iff del: of_nat_add)
  qed
  then have "take_bit 36 (P + i) = take_bit 36 (P + j)"
    by (intro bit_eqI) (auto simp: bit_take_bit_iff)
  then have e: "(P + i) mod 2 ^ 36 = (P + j) mod 2 ^ 36" by (simp only: take_bit_eq_mod)
  have le: "a = b" if "(P + a) mod 2 ^ 36 = (P + b) mod 2 ^ 36" "b \<le> a" "a < 2 ^ 36" for a b
  proof -
    from that(1,2) obtain q where "P + a = P + b + 2 ^ 36 * q" by (auto elim: mod_eq_nat1E)
    then show ?thesis using that(3) by (cases q) auto
  qed
  show ?thesis using le [of i j] le [of j i] e assms(2,3) by (metis nat_le_linear)
qed

lemma map_pages_ok:
  assumes "vm_ok M pml4 own" "page_aligned page" "n \<le> 2 ^ 36" "map_pages M pml4 page n = (ok, M')"
  shows "\<exists>own'. vm_ok M' pml4 own' \<and> pmm_avail (frames M') \<subseteq> pmm_avail (frames M) \<and>
    (if ok
     then \<exists>F. inj_on F {..<n} \<and>
       (\<forall>i<n. F i \<in> pmm_avail (frames M) \<and> (\<forall>v. same_page v (nth_page page i) \<longrightarrow> paging_get_phys_on M' pml4 v = F i OR (v AND 0xFFF))) \<and>
       (\<forall>v. (\<forall>i<n. \<not> same_page v (nth_page page i)) \<longrightarrow> paging_get_phys_on M' pml4 v = paging_get_phys_on M pml4 v)
     else pmm_avail (frames M') = {})"
  using assms
proof (induction n arbitrary: M own page)
  case 0
  then show ?case by auto
next
  case (Suc n)
  obtain phys fr where a: "pmm_alloc (frames M) = (phys, fr)" by force
  show ?case
  proof (cases "phys = NULL")
    case True
    then have "vm_ok (M\<lparr>frames := fr\<rparr>) pml4 own" "fr = frames M" "pmm_avail fr = {}"
      using pmm_frames.alloc_null [OF vm_okD(1) [OF Suc.prems(1)]] a Suc.prems(1) by auto
    then show ?thesis using Suc.prems(4) a True by auto
  next
    case False
    define M2 where "M2 = M\<lparr>frames := fr, ram := bytes_zero (ram M) phys 4096\<rparr>"
    note A = alloc_table [OF Suc.prems(1) a False] and F2 = fresh_page_step [OF Suc.prems(1) a False, folded M2_def]
    obtain r M3 where r: "paging_map_page_on M2 pml4 page phys (PAGE_USER OR PAGE_RW) = (r, M3)" by force
    have run: "map_pages M pml4 page (Suc n) = (if r < 0 then (False, M3) else map_pages M3 pml4 (page + PAGE_SIZE) n)"
      using a False r by (simp add: M2_def)
    from map_page_on_ok [OF F2(1) user_rw_flags r] obtain own3 where 3: "vm_ok M3 pml4 own3"
        "pmm_avail (frames M3) \<subseteq> pmm_avail (frames M2)"
        "if r = 0 then \<forall>v. paging_get_phys_on M3 pml4 v =
             (if same_page v page then (phys AND PAGE_ADDR_MASK) OR (v AND 0xFFF) else paging_get_phys_on M2 pml4 v)
         else r = -1 \<and> pmm_avail (frames M3) = {} \<and> (\<forall>v. paging_get_phys_on M3 pml4 v = paging_get_phys_on M2 pml4 v)"
      by blast
    have av: "pmm_avail (frames M3) \<subseteq> pmm_avail (frames M)" "phys \<notin> pmm_avail (frames M3)" "phys \<in> pmm_avail (frames M)"
      using 3(2) A(5-7) by (auto simp: M2_def)
    show ?thesis
    proof (cases "r = 0")
      case False
      then have "ok = False" "M' = M3" "pmm_avail (frames M3) = {}" using Suc.prems(4) run 3(3) by auto
      then show ?thesis using 3(1) by auto
    next
      case True
      have al: "page_aligned (page + PAGE_SIZE)"
        by (rule page_aligned_step [OF Suc.prems(2)])
      have "map_pages M3 pml4 (page + PAGE_SIZE) n = (ok, M')" using Suc.prems(4) run True by simp
      from Suc.IH [OF 3(1) al _ this] Suc.prems(3) obtain own' where own': "vm_ok M' pml4 own'"
          "pmm_avail (frames M') \<subseteq> pmm_avail (frames M3)" and
        rest: "if ok
         then \<exists>F. inj_on F {..<n} \<and>
           (\<forall>i<n. F i \<in> pmm_avail (frames M3) \<and>
              (\<forall>v. same_page v (nth_page (page + PAGE_SIZE) i) \<longrightarrow> paging_get_phys_on M' pml4 v = F i OR (v AND 0xFFF))) \<and>
           (\<forall>v. (\<forall>i<n. \<not> same_page v (nth_page (page + PAGE_SIZE) i)) \<longrightarrow> paging_get_phys_on M' pml4 v = paging_get_phys_on M3 pml4 v)
         else pmm_avail (frames M') = {}" by auto
      show ?thesis
      proof (cases ok)
        case False
        then show ?thesis using own' rest av by (intro exI [of _ own']) auto
      next
        case ok: True
        from rest ok obtain F where F: "inj_on F {..<n}" "\<And>i. i < n \<Longrightarrow> F i \<in> pmm_avail (frames M3)"
            "\<And>i v. i < n \<Longrightarrow> same_page v (nth_page (page + PAGE_SIZE) i) \<Longrightarrow> paging_get_phys_on M' pml4 v = F i OR (v AND 0xFFF)"
            "\<And>v. (\<forall>i<n. \<not> same_page v (nth_page (page + PAGE_SIZE) i)) \<Longrightarrow> paging_get_phys_on M' pml4 v = paging_get_phys_on M3 pml4 v"
          by auto
        have nth: "nth_page (page + PAGE_SIZE) i = nth_page page (Suc i)" for i by (simp add: algebra_simps)
        define G where "G = case_nat phys F"
        have inj: "inj_on G {..<Suc n}"
          using F(1,2) av(2) by (auto simp: inj_on_def G_def split: nat.splits)
        have fresh: "G i \<in> pmm_avail (frames M)" if "i < Suc n" for i
          using that F(2) av by (auto simp: G_def split: nat.splits)
        have first: "paging_get_phys_on M' pml4 v = phys OR (v AND 0xFFF)" if "same_page v page" for v
        proof -
          have "\<not> same_page v (nth_page page (Suc i))" if "i < n" for i
            using pages_differ [OF Suc.prems(2), of 0 "Suc i"] \<open>same_page v page\<close> that Suc.prems(3)
            by (auto simp: same_page_bits)
          then show ?thesis using F(4) [of v] 3(3) True that A(2) by (simp add: nth)
        qed
        have hit: "paging_get_phys_on M' pml4 v = G i OR (v AND 0xFFF)" if "i < Suc n" "same_page v (nth_page page i)" for i v
          using that first F(3) by (cases i) (auto simp: G_def nth)
        have miss: "paging_get_phys_on M' pml4 v = paging_get_phys_on M pml4 v" if "\<forall>i<Suc n. \<not> same_page v (nth_page page i)" for v
          using F(4) [of v] 3(3) True that F2(2) by (fastforce simp: nth)
        show ?thesis using own' av ok inj fresh hit miss by (intro exI [of _ own']) auto
      qed
    qed
  qed
qed



section \<open>Filling segments\<close>

lemma ram_store_apply:
  "length bs \<le> 2 ^ 64 \<Longrightarrow> ram_store m p bs a = (if unat (a - p) < length bs then bs ! unat (a - p) else m a)"
proof (induction bs arbitrary: m p)
  case (Cons b bs)
  show ?case
  proof (cases "a = p")
    case True
    have "unat (p - (p + 1)) = 2 ^ 64 - 1" by (simp add: unsigned_minus_1_eq_mask mask_eq_exp_minus_1)
    then have "\<not> unat (p - (p + 1)) < length bs" using Cons.prems by simp
    then show ?thesis using True Cons by simp
  next
    case False
    then have "a - p \<noteq> 0" by simp
    then have "unat (a - p - 1) = unat (a - p) - 1" "0 < unat (a - p)" by (simp_all add: unat_minus_one unat_gt_0)
    then have "unat (a - p) = Suc (unat (a - (p + 1)))" by (simp add: algebra_simps)
    then show ?thesis using False Cons by simp
  qed
qed simp

text \<open>
  A chunk that the loader reads is stored to consecutive \<^emph>\<open>physical\<close> addresses from the
  translation of its first byte, and nothing else in memory changes. Where a chunk goes on in the next
  page, its end is stored in the frame after the first one, whatever frame that page is mapped to.
\<close>

theorem elf_load_chunk:
  assumes "vfs_read drv s f sz = Some (int (unat sz), tmp, s1)" "length tmp = unat sz" "0 < sz" "sz \<le> 512"
    and "paging_get_phys_on (vmach s1) pml4 v = p" "p \<noteq> 0"
  shows "\<exists>s2. load_chunks drv pml4 f sz v s = Some s2 \<and>
     (\<forall>i < unat sz. ram (vmach s2) (p + of_nat i) = tmp ! i) \<and>
     (\<forall>a. unat sz \<le> unat (a - p) \<longrightarrow> ram (vmach s2) a = ram (vmach s1) a)"
proof -
  define s2 where "s2 = set_mach ((vmach s1)\<lparr>ram := ram_store (ram (vmach s1)) p tmp\<rparr>) s1"
  have n: "0 < unat sz" "unat sz \<le> 512" using assms(3,4) by (simp_all add: word_less_nat_alt word_le_nat_alt)
  have c: "\<not> 512 < sz" "uint sz \<noteq> 0" using assms(3,4) by (auto simp: uint_0_iff)
  have "load_chunks drv pml4 f sz v s = load_chunks drv pml4 f 0 (v + sz) s2"
    using assms c by (subst load_chunks.simps) (simp add: Let_def s2_def)
  also have "\<dots> = Some s2" by (subst load_chunks.simps) simp
  finally have run: "load_chunks drv pml4 f sz v s = Some s2" .
  have m: "ram (vmach s2) a = (if unat (a - p) < unat sz then tmp ! unat (a - p) else ram (vmach s1) a)" for a
    using ram_store_apply [of tmp "ram (vmach s1)" p a] n(2) assms(2) by (simp add: s2_def set_mach_def)
  have "unat (p + of_nat i - p) = i" if "i < unat sz" for i using that n(2) by (simp add: unat_of_nat)
  then show ?thesis using run m by auto
qed

definition zero_ops :: "unit drivers" where
  "zero_ops _ = \<lparr>op_read = Some (\<lambda>s n off sz. Some (int (unat sz), replicate (unat sz) 0x90, s)), op_write = None,
     op_readdir = None, op_create = None, op_unlink = None\<rparr>"

text \<open>Memory in which every entry of every table is \<open>0x0101010101010101\<close>, and an open file of 700 bytes.\<close>

definition ones_machine :: machine where
  "ones_machine = \<lparr>ram = (\<lambda>_. 1), frames = boot_low, g_pml4 = 0x1000, invlpg_log = []\<rparr>"

definition ones_vfs :: "unit vfs" where
  "ones_vfs = demo_vfs\<lparr>vheap := heap_full\<lparr>mach := ones_machine\<rparr>, nodes := (\<lambda>a. (demo_nodes a)\<lparr>nsize := 700\<rparr>)\<rparr>"

lemma load64_ones: "load64 (\<lambda>_. 1) a = 0x0101010101010101"
  by (simp add: load64_def numeral_eq_Suc del: One_nat_def)

lemma ones_translate: "paging_get_phys_on ones_machine 0x1000 0x400FF0 = 0x1010101010FF0"
  by (simp add: paging_get_phys_on_def ones_machine_def load64_ones PAGE_PRESENT_def PAGE_HUGE_def PAGE_ADDR_MASK_def Let_def)

lemma elf_load_chunk_witness:
  "\<exists>s2. load_chunks zero_ops 0x1000 5 32 0x400FF0 ones_vfs = Some s2 \<and> ram (vmach s2) 0x101010101100F = 0x90"
proof -
  let ?s1 = "ones_vfs\<lparr>files := (files ones_vfs)(5 := \<lparr>fnode = 3, foffset = 41\<rparr>)\<rparr>"
  have r: "vfs_read zero_ops ones_vfs 5 32 = Some (int (unat (32::u64)), replicate 32 0x90, ?s1)"
    by (simp add: vfs_read_def zero_ops_def ones_vfs_def demo_vfs_def demo_nodes_def Let_def)
  have t: "paging_get_phys_on (vmach ?s1) 0x1000 0x400FF0 = 0x1010101010FF0"
    using ones_translate by (simp add: ones_vfs_def)
  obtain s2 where "load_chunks zero_ops 0x1000 5 32 0x400FF0 ones_vfs = Some s2"
      "\<forall>i < unat (32::u64). ram (vmach s2) (0x1010101010FF0 + of_nat i) = replicate 32 0x90 ! i"
    using elf_load_chunk [OF r _ _ _ t] by auto
  moreover from this(2) have "ram (vmach s2) (0x1010101010FF0 + of_nat 31) = 0x90"
    by (elim allE [of _ 31]) simp
  ultimately show ?thesis by auto
qed

section \<open>The initial stack\<close>

text \<open>
  The address at which the loader stores \<open>argc\<close> and \<open>argv\<close> lies outside the frame of the top stack page:
  the translation it starts from already has the offset in the page, which is added a second time.
\<close>

theorem elf_args_outside_frame:
  assumes "page_aligned F" "paging_get_phys_on M pml4 0x6FFFFFF0 = F OR 0xFF0"
  shows "elf_args_addr M pml4 = F + 0x1FE0 \<and> \<not> unat (elf_args_addr M pml4 - F) < 4096"
proof -
  have "F AND 0xFFF = 0"
    by (rule bit_word_eqI) (use assms(1) in \<open>auto simp: page_aligned_bits bit_and_iff low_masks bit_mask_iff\<close>)
  then have "F AND (0xFFF AND 0xFF0) = 0" by (simp only: and.assoc [symmetric] and_zero_eq zero_and_eq)
  then have "F AND 0xFF0 = 0" by simp
  then have "F OR 0xFF0 = F + 0xFF0" by (rule disjunctive_add_eq_or [symmetric])
  then show ?thesis using assms(2) by (simp add: elf_args_addr_def)
qed

lemma elf_args_outside_frame_witness: "elf_args_addr ones_machine 0x1000 = 0x1010101010000 + 0x1FE0"
proof -
  have "paging_get_phys_on ones_machine 0x1000 0x6FFFFFF0 = 0x1010101010000 OR 0xFF0"
    by (simp add: paging_get_phys_on_def ones_machine_def load64_ones PAGE_PRESENT_def PAGE_HUGE_def PAGE_ADDR_MASK_def Let_def)
  then show ?thesis using elf_args_outside_frame [of "0x1010101010000" ones_machine "0x1000"] by (simp add: page_aligned_def)
qed

end
