(* ===== verification/Sched.thy ===== *)
theory Sched
  imports Heap
begin

text \<open>
  The tasks of \<^verbatim>\<open>kernel/scheduler.c\<close>: task structures in frames of their own, kept in a
  circular list, per task descriptor tables and signals, and round robin switching. Task structures are a
  store from their address; \<open>NULL\<close> is address 0. The CPU state the code reads or writes (RSP and
  CR3, the halt with interrupts off) and the timer count are fields of the state. A loop over the circular
  list that does not end is the value \<open>None\<close>.
\<close>

section \<open>State\<close>

definition TASK_STACK_SIZE :: u64 where "TASK_STACK_SIZE = 16 * 1024"
definition TASK_MAX_FD :: nat where "TASK_MAX_FD = 32"
definition TASK_MAX_SIGNALS :: nat where "TASK_MAX_SIGNALS = 32"

datatype task_state = TASK_READY | TASK_RUNNING | TASK_BLOCKED | TASK_TERMINATED | TASK_SLEEPING

definition FD_TYPE_FILE :: int where "FD_TYPE_FILE = 1"
definition FD_TYPE_PIPE_R :: int where "FD_TYPE_PIPE_R = 2"
definition FD_TYPE_PIPE_W :: int where "FD_TYPE_PIPE_W = 3"

text \<open>What the \<open>void *\<close> of a descriptor can point to: nothing, a \<open>file_t\<close> on the heap, or one of the pipes.\<close>

datatype fobj = FNull | FFile u64 | FPipe nat

record fd_entry =
  fptr :: fobj
  ftype :: int
  fused :: bool

record task_signal =
  handler :: u64
  pending :: u32
  smask :: u32

record task_struct =
  pid :: u32
  ppid :: u32
  tstate :: task_state
  rsp :: u64
  cr3 :: u64
  entry :: u64
  wake_tick :: u64
  exit_code :: int
  fd :: "fd_entry list"
  signals :: "task_signal list"
  kernel_stack_base :: u64
  tnext :: u64
  children :: u64
  next_child :: u64

type_synonym tasks = "u64 \<Rightarrow> task_struct"

record sched =
  tasks :: tasks
  g_current :: u64
  g_next_pid :: u32
  g_kernel_cr3 :: u64
  kheap :: heap
  cpu_cr3 :: u64
  cpu_rsp :: u64
  ticks :: u64
  halted :: bool

definition fd_none :: fd_entry where "fd_none = \<lparr>fptr = FNull, ftype = 0, fused = False\<rparr>"
definition signal_none :: task_signal where "signal_none = \<lparr>handler = 0, pending = 0, smask = 0\<rparr>"

text \<open>A task structure after its bytes were cleared.\<close>

definition task_zero :: task_struct where
  "task_zero = \<lparr>pid = 0, ppid = 0, tstate = TASK_READY, rsp = 0, cr3 = 0, entry = 0, wake_tick = 0, exit_code = 0,
     fd = replicate TASK_MAX_FD fd_none, signals = replicate TASK_MAX_SIGNALS signal_none,
     kernel_stack_base = 0, tnext = NULL, children = NULL, next_child = NULL\<rparr>"

abbreviation upd_task :: "sched \<Rightarrow> u64 \<Rightarrow> (task_struct \<Rightarrow> task_struct) \<Rightarrow> sched" where
  "upd_task s a f \<equiv> s\<lparr>tasks := (tasks s)(a := f (tasks s a))\<rparr>"

abbreviation sched_frames :: "sched \<Rightarrow> pmm" where
  "sched_frames s \<equiv> frames (mach (kheap s))"

definition with_frames :: "sched \<Rightarrow> pmm \<Rightarrow> sched" where
  "with_frames s fr = s\<lparr>kheap := (kheap s)\<lparr>mach := (mach (kheap s))\<lparr>frames := fr\<rparr>\<rparr>\<rparr>"

definition with_ram :: "sched \<Rightarrow> mem \<Rightarrow> sched" where
  "with_ram s m = s\<lparr>kheap := (kheap s)\<lparr>mach := (mach (kheap s))\<lparr>ram := m\<rparr>\<rparr>\<rparr>"

section \<open>Descriptor tables\<close>

text \<open>The loop of \<open>task_fd_alloc\<close> over the descriptors from \<open>i\<close> on; \<open>n\<close> descriptors are left.\<close>

fun fd_scan :: "fd_entry list \<Rightarrow> nat \<Rightarrow> nat \<Rightarrow> nat option" where
  "fd_scan fds i 0 = None"
| "fd_scan fds i (Suc n) = (if \<not> fused (fds ! i) then Some i else fd_scan fds (Suc i) n)"

definition task_fd_alloc :: "task_struct \<Rightarrow> fobj \<Rightarrow> int \<Rightarrow> int \<times> task_struct" where
  "task_fd_alloc t ptr ty =
     (case fd_scan (fd t) 3 (TASK_MAX_FD - 3) of
        None \<Rightarrow> (-1, t)
      | Some i \<Rightarrow> (int i, t\<lparr>fd := (fd t)[i := \<lparr>fptr = ptr, ftype = ty, fused = True\<rparr>]\<rparr>))"

definition task_fd_free :: "task_struct \<Rightarrow> int \<Rightarrow> task_struct" where
  "task_fd_free t n =
     (if n < 0 \<or> n \<ge> int TASK_MAX_FD then t else t\<lparr>fd := (fd t)[nat n := fd_none]\<rparr>)"

definition task_fd_get :: "task_struct \<Rightarrow> int \<Rightarrow> fobj" where
  "task_fd_get t n =
     (if n < 0 \<or> n \<ge> int TASK_MAX_FD \<or> \<not> fused (fd t ! nat n) then FNull else fptr (fd t ! nat n))"

text \<open>\<open>vfs_close\<close> releases the \<open>file_t\<close>.\<close>

definition vfs_close :: "heap \<Rightarrow> fobj \<Rightarrow> heap" where
  "vfs_close h f = (case f of FFile a \<Rightarrow> kfree h a | _ \<Rightarrow> h)"

fun fd_close_from :: "heap \<Rightarrow> fd_entry list \<Rightarrow> nat \<Rightarrow> nat \<Rightarrow> heap \<times> fd_entry list" where
  "fd_close_from h fds i 0 = (h, fds)"
| "fd_close_from h fds i (Suc n) =
     (if \<not> fused (fds ! i) then fd_close_from h fds (Suc i) n
      else fd_close_from (if ftype (fds ! i) = FD_TYPE_FILE then vfs_close h (fptr (fds ! i)) else h)
             (fds[i := fd_none]) (Suc i) n)"

definition task_fd_close_all :: "heap \<Rightarrow> task_struct \<Rightarrow> heap \<times> task_struct" where
  "task_fd_close_all h t =
     (case fd_close_from h (fd t) 3 (TASK_MAX_FD - 3) of (h', fds) \<Rightarrow> (h', t\<lparr>fd := fds\<rparr>))"

section \<open>Creating and destroying tasks\<close>

text \<open>The initial stack frame: the entry point and six zero quadwords below it.\<close>

definition task_init_stack :: "mem \<Rightarrow> u64 \<Rightarrow> u64 \<Rightarrow> u64 \<times> mem" where
  "task_init_stack m stack ent =
     (let top = stack + TASK_STACK_SIZE - 8;
          m0 = store64 m top ent
      in fold (\<lambda>_ (p, m'). (p - 8, store64 m' (p - 8) 0)) [0..<6] (top, m0))"

definition task_create :: "sched \<Rightarrow> u64 \<Rightarrow> u32 \<times> sched" where
  "task_create s ent =
     (case pmm_alloc (sched_frames s) of (task, fr1) \<Rightarrow>
      case pmm_alloc fr1 of (stack, fr2) \<Rightarrow>
        let s1 = with_frames s fr2 in
        if task = NULL \<or> stack = NULL then (0, s1)
        else let (stack_top, m) = task_init_stack (ram (mach (kheap s1))) stack ent;
                 new_pid = g_next_pid s1;
                 t = task_zero\<lparr>pid := new_pid,
                       ppid := (if g_current s1 \<noteq> NULL then pid (tasks s1 (g_current s1)) else 0),
                       tstate := TASK_READY, rsp := stack_top, cr3 := 0, entry := ent, exit_code := 0,
                       kernel_stack_base := stack\<rparr>;
                 s2 = (with_ram s1 m)\<lparr>g_next_pid := new_pid + 1\<rparr>
             in if g_current s2 = NULL
                then (new_pid, s2\<lparr>tasks := (tasks s2)(task := t\<lparr>tnext := task\<rparr>), g_current := task\<rparr>)
                else (new_pid, s2\<lparr>tasks := (tasks s2)
                       (task := t\<lparr>tnext := tnext (tasks s2 (g_current s2))\<rparr>,
                        g_current s2 := (tasks s2 (g_current s2))\<lparr>tnext := task\<rparr>)\<rparr>))"

text \<open>\<open>while (prev && prev->next != task) prev = prev->next;\<close>\<close>

partial_function (option) ring_prev :: "tasks \<Rightarrow> u64 \<Rightarrow> u64 \<Rightarrow> u64 option" where
  "ring_prev T prev task =
     (if prev \<noteq> NULL \<and> tnext (T prev) \<noteq> task then ring_prev T (tnext (T prev)) task else Some prev)"

definition task_destroy :: "sched \<Rightarrow> u64 \<Rightarrow> sched option" where
  "task_destroy s task =
     (if task = NULL then Some s
      else case ring_prev (tasks s) (g_current s) task of
        None \<Rightarrow> None
      | Some prev \<Rightarrow>
          let s1 = (if prev \<noteq> NULL \<and> tnext (tasks s prev) = task
                then let s' = upd_task s prev (tnext_update (\<lambda>_. tnext (tasks s task)))
                     in if g_current s' = task then s'\<lparr>g_current := tnext (tasks s' task)\<rparr> else s'
                else s);
              s2 = (if kernel_stack_base (tasks s1 task) \<noteq> 0
                then with_frames s1 (pmm_free (sched_frames s1) (kernel_stack_base (tasks s1 task))) else s1)
          in Some (with_frames s2 (pmm_free (sched_frames s2) task)))"

definition task_current :: "sched \<Rightarrow> u64" where
  "task_current s = g_current s"

partial_function (option) task_find_from :: "tasks \<Rightarrow> u64 \<Rightarrow> u32 \<Rightarrow> u64 \<Rightarrow> u64 option" where
  "task_find_from T start p t =
     (if pid (T t) = p then Some t
      else if tnext (T t) = start then Some NULL else task_find_from T start p (tnext (T t)))"

definition task_find :: "sched \<Rightarrow> u32 \<Rightarrow> u64 option" where
  "task_find s p = (if g_current s = NULL then Some NULL else task_find_from (tasks s) (g_current s) p (g_current s))"

section \<open>Switching\<close>

definition skipped :: "task_struct \<Rightarrow> bool" where
  "skipped t \<longleftrightarrow> tstate t = TASK_TERMINATED \<or> tstate t = TASK_SLEEPING"

partial_function (option) sched_skip :: "tasks \<Rightarrow> u64 \<Rightarrow> u64 \<Rightarrow> u64 option" where
  "sched_skip T start nxt =
     (if nxt \<noteq> start \<and> skipped (T nxt) then sched_skip T start (tnext (T nxt)) else Some nxt)"

text \<open>Unlinking one terminated task and releasing its two frames.\<close>

definition sched_reap :: "sched \<Rightarrow> u64 \<Rightarrow> sched option" where
  "sched_reap s scan =
     (case task_fd_close_all (kheap s) (tasks s scan) of (h, t) \<Rightarrow>
        let s1 = (upd_task s scan (\<lambda>_. t))\<lparr>kheap := h\<rparr> in
        case ring_prev (tasks s1) (g_current s1) scan of
          None \<Rightarrow> None
        | Some prev \<Rightarrow>
            let s2 = (if prev \<noteq> NULL \<and> tnext (tasks s1 prev) = scan
                  then upd_task s1 prev (tnext_update (\<lambda>_. tnext (tasks s1 scan))) else s1);
                s3 = with_frames s2 (pmm_free (sched_frames s2) (kernel_stack_base (tasks s2 scan)))
            in Some (with_frames s3 (pmm_free (sched_frames s3) scan)))"

partial_function (option) sched_clean :: "sched \<Rightarrow> u64 \<Rightarrow> u64 \<Rightarrow> sched option" where
  "sched_clean s start scan =
     (if scan = start then Some s
      else if tstate (tasks s scan) = TASK_TERMINATED
           then (case sched_reap s scan of None \<Rightarrow> None | Some s' \<Rightarrow> sched_clean s' start (tnext (tasks s scan)))
           else sched_clean s start (tnext (tasks s scan)))"

text \<open>\<open>context_switch\<close> of \<^verbatim>\<open>kernel/switch.asm\<close> pushes six registers, saves RSP, loads the other
  RSP and pops six registers.\<close>

definition context_switch :: "sched \<Rightarrow> u64 \<Rightarrow> u64 \<Rightarrow> sched" where
  "context_switch s prev new_rsp =
     (upd_task s prev (rsp_update (\<lambda>_. cpu_rsp s - 6 * 8)))\<lparr>cpu_rsp := new_rsp + 6 * 8\<rparr>"

definition sched_switch :: "sched \<Rightarrow> u64 \<Rightarrow> sched" where
  "sched_switch s nxt =
     (let prev = g_current s;
          s1 = upd_task s prev (tstate_update (\<lambda>_. TASK_READY));
          s2 = (upd_task s1 nxt (tstate_update (\<lambda>_. TASK_RUNNING)))\<lparr>g_current := nxt\<rparr>;
          next_rsp = rsp (tasks s2 nxt);
          next_cr3 = (if cr3 (tasks s2 nxt) \<noteq> 0 then cr3 (tasks s2 nxt) else g_kernel_cr3 s2);
          cur_cr3 = cpu_cr3 s2;
          s3 = upd_task s2 prev (cr3_update (\<lambda>_. cur_cr3));
          s4 = (if next_cr3 \<noteq> cur_cr3 then s3\<lparr>cpu_cr3 := next_cr3\<rparr> else s3)
      in context_switch s4 prev next_rsp)"

definition schedule :: "sched \<Rightarrow> sched option" where
  "schedule s =
     (if g_current s = NULL then Some s
      else let start = g_current s in
        case sched_skip (tasks s) start (tnext (tasks s start)) of
          None \<Rightarrow> None
        | Some nxt \<Rightarrow>
            (case sched_clean s start nxt of
               None \<Rightarrow> None
             | Some s1 \<Rightarrow>
                 if nxt = start
                 then Some (if tstate (tasks s1 start) = TASK_TERMINATED then s1\<lparr>halted := True\<rparr> else s1)
                 else Some (sched_switch s1 nxt)))"

definition task_yield :: "sched \<Rightarrow> sched option" where
  "task_yield s = schedule s"

definition task_sleep :: "sched \<Rightarrow> u64 \<Rightarrow> sched option" where
  "task_sleep s ms =
     (if g_current s = NULL then Some s
      else let t = (if ms div 10 = 0 then 1 else ms div 10)
           in task_yield (upd_task s (g_current s)
                (\<lambda>c. c\<lparr>wake_tick := ticks s + t, tstate := TASK_SLEEPING\<rparr>)))"

section \<open>The timer tick\<close>

text \<open>The signal loop of \<open>scheduler_tick\<close> from signal \<open>i\<close>, with \<open>n\<close> signals left.\<close>

fun deliver_signals :: "task_struct \<Rightarrow> nat \<Rightarrow> nat \<Rightarrow> task_struct" where
  "deliver_signals t i 0 = t"
| "deliver_signals t i (Suc n) =
     (let sg = signals t ! i in
      if pending sg \<noteq> 0 \<and> smask sg = 0
      then let t1 = t\<lparr>signals := (signals t)[i := sg\<lparr>pending := 0\<rparr>]\<rparr> in
        if i = 9 then t1\<lparr>tstate := TASK_TERMINATED, exit_code := -9\<rparr>
        else if handler sg \<noteq> 0 \<and> (i = 2 \<or> i = 15) then t1\<lparr>tstate := TASK_TERMINATED, exit_code := - int i\<rparr>
        else deliver_signals t1 (Suc i) n
      else deliver_signals t (Suc i) n)"

definition tick_task :: "u64 \<Rightarrow> task_struct \<Rightarrow> task_struct" where
  "tick_task now t =
     (let t1 = (if tstate t = TASK_SLEEPING \<and> now \<ge> wake_tick t then t\<lparr>tstate := TASK_READY\<rparr> else t)
      in if tstate t1 \<noteq> TASK_TERMINATED then deliver_signals t1 0 TASK_MAX_SIGNALS else t1)"

partial_function (option) tick_from :: "tasks \<Rightarrow> u64 \<Rightarrow> u64 \<Rightarrow> u64 \<Rightarrow> tasks option" where
  "tick_from T now start t =
     (let T' = T(t := tick_task now (T t))
      in if tnext (T' t) = start then Some T' else tick_from T' now start (tnext (T' t)))"

definition scheduler_tick :: "sched \<Rightarrow> sched option" where
  "scheduler_tick s =
     (if g_current s = NULL then Some s
      else case tick_from (tasks s) (ticks s) (g_current s) (g_current s) of
        None \<Rightarrow> None
      | Some T \<Rightarrow> Some (s\<lparr>tasks := T\<rparr>))"

definition scheduler_init :: "sched \<Rightarrow> u64 \<Rightarrow> sched" where
  "scheduler_init s idle_task =
     (let (_, s1) = task_create (s\<lparr>g_kernel_cr3 := cpu_cr3 s\<rparr>) idle_task
      in upd_task s1 (g_current s1) (tstate_update (\<lambda>_. TASK_RUNNING)))"

definition pit_tick :: "sched \<Rightarrow> sched" where
  "pit_tick s = s\<lparr>ticks := ticks s + 1\<rparr>"

section \<open>The circular list\<close>

fun path :: "tasks \<Rightarrow> u64 list \<Rightarrow> u64 \<Rightarrow> bool" where
  "path T [] q \<longleftrightarrow> True"
| "path T (a # as) q \<longleftrightarrow> tnext (T a) = hd (as @ [q]) \<and> path T as q"

definition ring :: "tasks \<Rightarrow> u64 list \<Rightarrow> bool" where
  "ring T ts \<longleftrightarrow> ts \<noteq> [] \<and> distinct ts \<and> NULL \<notin> set ts \<and> path T ts (hd ts)"

lemma path_append: "path T (as @ bs) q \<longleftrightarrow> path T as (hd (bs @ [q])) \<and> path T bs q"
  by (induction as) (auto simp: hd_append)

lemma path_cong: "(\<And>a. a \<in> set as \<Longrightarrow> tnext (T a) = tnext (T' a)) \<Longrightarrow> path T as q \<longleftrightarrow> path T' as q"
  by (induction as) auto

lemma path_upd [simp]: "a \<notin> set as \<Longrightarrow> path (T(a := t)) as q \<longleftrightarrow> path T as q"
  by (rule path_cong) auto

lemma ring_cong: "(\<And>a. a \<in> set ts \<Longrightarrow> tnext (T a) = tnext (T' a)) \<Longrightarrow> ring T ts \<longleftrightarrow> ring T' ts"
  using path_cong [of ts T T'] by (auto simp: ring_def)

lemma ring_rotate: "ring T (as @ bs) \<Longrightarrow> ring T (bs @ as)"
  by (cases as; cases bs) (auto simp: ring_def path_append hd_append)

lemma ringD:
  assumes "ring T (c # as)"
  shows "c \<noteq> NULL" "c \<notin> set as" "distinct as" "path T as c" "tnext (T c) = hd (as @ [c])"
  using assms by (auto simp: ring_def)

lemma ring_prev_path:
  "path T as x \<Longrightarrow> as \<noteq> [] \<Longrightarrow> x \<notin> set (tl as) \<Longrightarrow> NULL \<notin> set as \<Longrightarrow> ring_prev T (hd as) x = Some (last as)"
proof (induction as)
  case (Cons a as)
  show ?case
  proof (cases as)
    case Nil
    then show ?thesis using Cons.prems by (subst ring_prev.simps) simp
  next
    case (Cons b bs)
    have "ring_prev T a x = ring_prev T b x"
      using Cons Cons.prems by (subst ring_prev.simps) auto
    then show ?thesis using Cons.IH Cons.prems Cons by auto
  qed
qed simp

lemma sched_skip_path:
  "path T as start \<Longrightarrow> start \<notin> set as \<Longrightarrow>
     sched_skip T start (hd (as @ [start])) = Some (hd (dropWhile (\<lambda>a. skipped (T a)) as @ [start]))"
proof (induction as)
  case Nil
  then show ?case by (subst sched_skip.simps) simp
next
  case (Cons a as)
  then show ?case by (subst sched_skip.simps) auto
qed

text \<open>Task structures that differ at most in their link.\<close>

definition same_task :: "task_struct \<Rightarrow> task_struct \<Rightarrow> bool" where
  "same_task t t' \<longleftrightarrow> t\<lparr>tnext := NULL\<rparr> = t'\<lparr>tnext := NULL\<rparr>"

lemma same_task_refl [simp]: "same_task t t"
  and same_task_next [simp]: "same_task (t\<lparr>tnext := a\<rparr>) t"
  and same_task_trans: "same_task t t' \<Longrightarrow> same_task t' t'' \<Longrightarrow> same_task t t''"
  by (auto simp: same_task_def)

lemma same_task_fields:
  assumes "same_task t t'"
  shows "tstate t = tstate t'" "pid t = pid t'" "rsp t = rsp t'" "cr3 t = cr3 t'" "fd t = fd t'"
  using assms by (cases t; cases t'; simp add: same_task_def)+

text \<open>What a clean up step keeps of the state beside the tasks, the heap and the frames.\<close>

definition same_cpu :: "sched \<Rightarrow> sched \<Rightarrow> bool" where
  "same_cpu s s' \<longleftrightarrow> g_current s = g_current s' \<and> g_next_pid s = g_next_pid s' \<and> g_kernel_cr3 s = g_kernel_cr3 s' \<and>
     cpu_cr3 s = cpu_cr3 s' \<and> cpu_rsp s = cpu_rsp s' \<and> ticks s = ticks s' \<and> halted s = halted s'"

lemma with_frames_simps [simp]:
  "tasks (with_frames s fr) = tasks s" "g_current (with_frames s fr) = g_current s"
  "same_cpu (with_frames s fr) s' = same_cpu s s'" "same_cpu s (with_frames s' fr) = same_cpu s s'"
  "same_cpu s s"
  by (simp_all add: with_frames_def same_cpu_def)

lemma sched_reap_ring:
  assumes ring: "ring (tasks s) (c # ps @ x # ys)" and c: "g_current s = c"
  shows "\<exists>s'. sched_reap s x = Some s' \<and> ring (tasks s') (c # ps @ ys) \<and> same_cpu s' s \<and>
     (\<forall>a. a \<noteq> x \<longrightarrow> same_task (tasks s' a) (tasks s a))"
proof -
  obtain h t where h: "task_fd_close_all (kheap s) (tasks s x) = (h, t)" by fastforce
  have tn: "tnext t = tnext (tasks s x)" using h by (auto simp: task_fd_close_all_def split: prod.splits)
  define s1 where "s1 = (upd_task s x (\<lambda>_. t))\<lparr>kheap := h\<rparr>"
  obtain us p where us: "c # ps = us @ [p]" by (metis list.distinct(1) rev_exhaust)
  then have ts: "c # ps @ x # ys = us @ p # x # ys" by (metis append.assoc append_Cons append_Nil)
  have dis: "distinct (us @ p # x # ys)" "NULL \<notin> set (us @ p # x # ys)" and hd: "hd (us @ [p]) = c"
    using ring us unfolding ts [symmetric] by (auto simp: ring_def simp flip: us)
  have P: "path (tasks s) us p" "tnext (tasks s p) = x" "tnext (tasks s x) = hd (ys @ [c])" "path (tasks s) ys c"
    using ring hd unfolding ts by (auto simp: ring_def path_append hd_append split: if_splits)
  have P1: "path (tasks s1) (us @ [p]) x" using P dis(1) by (simp add: s1_def path_append)
  have rp: "ring_prev (tasks s1) (g_current s1) x = Some p"
    using ring_prev_path [OF P1] dis c hd by (cases us) (auto simp: s1_def)
  have p: "p \<noteq> x" "p \<noteq> NULL" "tnext (tasks s1 p) = x" using dis P1 by (auto simp: path_append)
  define s2 where "s2 = upd_task s1 p (tnext_update (\<lambda>_. tnext (tasks s1 x)))"
  define s' where "s' = with_frames (with_frames s2 (pmm_free (sched_frames s2) (kernel_stack_base (tasks s2 x))))
     (pmm_free (sched_frames (with_frames s2 (pmm_free (sched_frames s2) (kernel_stack_base (tasks s2 x))))) x)"
  have "sched_reap s x = Some s'"
    unfolding sched_reap_def h prod.case s1_def [symmetric] Let_def rp option.case s2_def [symmetric] s'_def
    using p by simp
  moreover have "same_cpu s2 s" by (simp add: s2_def s1_def same_cpu_def)
  then have "same_cpu s' s" by (simp add: s'_def)
  moreover have T: "tasks s' = (tasks s)(x := t, p := (tasks s p)\<lparr>tnext := tnext t\<rparr>)"
    using p(1) by (simp add: s'_def s2_def s1_def)
  moreover have "ring (tasks s') (c # ps @ ys)"
  proof -
    have "path (tasks s') (us @ p # ys) c"
      using P dis(1) by (simp add: T path_append tn hd_append)
    moreover have "c # ps @ ys = us @ p # ys" using us by (metis append.assoc append_Cons append_Nil)
    moreover have "hd (us @ p # ys) = c" using hd by (simp add: hd_append split: if_splits)
    ultimately have "ring (tasks s') (us @ p # ys)" using dis by (auto simp: ring_def)
    then show ?thesis unfolding \<open>c # ps @ ys = us @ p # ys\<close> .
  qed
  ultimately show ?thesis by auto
qed

lemma sched_clean_ring:
  assumes "ring (tasks s) (c # ps @ xs)" "g_current s = c"
  shows "\<exists>s'. sched_clean s c (hd (xs @ [c])) = Some s' \<and> same_cpu s' s \<and>
     ring (tasks s') (c # ps @ filter (\<lambda>a. tstate (tasks s a) \<noteq> TASK_TERMINATED) xs) \<and>
     (\<forall>a. a \<notin> set xs \<or> tstate (tasks s a) \<noteq> TASK_TERMINATED \<longrightarrow> same_task (tasks s' a) (tasks s a))"
  using assms
proof (induction xs arbitrary: s ps)
  case Nil
  then show ?case by (subst sched_clean.simps) auto
next
  case (Cons x xs)
  have x: "x \<noteq> c" "tnext (tasks s x) = hd (xs @ [c])" "x \<notin> set xs"
    using Cons.prems(1) by (auto simp: ring_def path_append hd_append)
  show ?case
  proof (cases "tstate (tasks s x) = TASK_TERMINATED")
    case True
    from sched_reap_ring [OF Cons.prems] obtain s1 where
      s1: "sched_reap s x = Some s1" "ring (tasks s1) (c # ps @ xs)" "same_cpu s1 s"
      "\<forall>a. a \<noteq> x \<longrightarrow> same_task (tasks s1 a) (tasks s a)" by blast
    have "g_current s1 = c" using s1(3) Cons.prems(2) by (simp add: same_cpu_def)
    from Cons.IH [OF s1(2) this] obtain s' where
      s': "sched_clean s1 c (hd (xs @ [c])) = Some s'" "same_cpu s' s1"
      "ring (tasks s') (c # ps @ filter (\<lambda>a. tstate (tasks s1 a) \<noteq> TASK_TERMINATED) xs)"
      "\<forall>a. a \<notin> set xs \<or> tstate (tasks s1 a) \<noteq> TASK_TERMINATED \<longrightarrow> same_task (tasks s' a) (tasks s1 a)" by blast
    have st: "tstate (tasks s1 a) = tstate (tasks s a)" if "a \<noteq> x" for a
      using s1(4) that same_task_fields(1) by blast
    have "filter (\<lambda>a. tstate (tasks s1 a) \<noteq> TASK_TERMINATED) xs = filter (\<lambda>a. tstate (tasks s a) \<noteq> TASK_TERMINATED) xs"
      by (intro filter_cong refl) (metis st x(3))
    moreover have "sched_clean s c x = Some s'" using True x s1(1) s'(1) by (subst sched_clean.simps) simp
    moreover have "same_cpu s' s" using s'(2) s1(3) by (simp add: same_cpu_def)
    moreover have "same_task (tasks s' a) (tasks s a)" if "a \<notin> set (x # xs) \<or> tstate (tasks s a) \<noteq> TASK_TERMINATED" for a
    proof -
      have "a \<noteq> x" using that True by auto
      then show ?thesis using that s'(4) s1(4) st same_task_trans by (metis list.set_intros(2))
    qed
    ultimately show ?thesis using s'(3) True by auto
  next
    case False
    have "ring (tasks s) (c # (ps @ [x]) @ xs)" using Cons.prems(1) by simp
    from Cons.IH [OF this Cons.prems(2)] x False show ?thesis
      by (subst sched_clean.simps) auto
  qed
qed

section \<open>Properties of switching\<close>

lemma sched_switch_result:
  assumes "g_current s = c" "n \<noteq> c"
  shows "tasks (sched_switch s n) =
     (tasks s)(c := (tasks s c)\<lparr>tstate := TASK_READY, cr3 := cpu_cr3 s, rsp := cpu_rsp s - 48\<rparr>,
               n := (tasks s n)\<lparr>tstate := TASK_RUNNING\<rparr>)"
    "g_current (sched_switch s n) = n" "cpu_rsp (sched_switch s n) = rsp (tasks s n) + 48"
    "cpu_cr3 (sched_switch s n) = (if cr3 (tasks s n) \<noteq> 0 then cr3 (tasks s n) else g_kernel_cr3 s)"
    "halted (sched_switch s n) = halted s" "g_next_pid (sched_switch s n) = g_next_pid s"
  using assms by (auto simp: sched_switch_def context_switch_def Let_def fun_eq_iff)

lemma schedule_result:
  assumes ring: "ring (tasks s) (c # pre @ n # rest)" and c: "g_current s = c"
    and pre: "\<forall>a\<in>set pre. skipped (tasks s a)" and n: "\<not> skipped (tasks s n)"
  shows "\<exists>s'. schedule s = Some s' \<and> g_current s' = n \<and>
     ring (tasks s') (n # filter (\<lambda>a. tstate (tasks s a) \<noteq> TASK_TERMINATED) rest @ c # pre) \<and>
     tstate (tasks s' n) = TASK_RUNNING \<and> cpu_rsp s' = rsp (tasks s n) + 48 \<and>
     cpu_cr3 s' = (if cr3 (tasks s n) \<noteq> 0 then cr3 (tasks s n) else g_kernel_cr3 s) \<and>
     same_task (tasks s' c) ((tasks s c)\<lparr>tstate := TASK_READY, cr3 := cpu_cr3 s, rsp := cpu_rsp s - 48\<rparr>) \<and>
     (\<forall>a. a \<noteq> c \<and> a \<noteq> n \<and> (a \<notin> set rest \<or> tstate (tasks s a) \<noteq> TASK_TERMINATED) \<longrightarrow>
        same_task (tasks s' a) (tasks s a)) \<and> halted s' = halted s \<and> g_next_pid s' = g_next_pid s"
proof -
  note R = ringD [OF ring]
  have nc: "n \<noteq> c" "n \<noteq> NULL" using ring by (auto simp: ring_def)
  have "dropWhile (\<lambda>a. skipped (tasks s a)) (pre @ n # rest) = n # rest"
    using pre n by (simp add: dropWhile_append3)
  then have skip: "sched_skip (tasks s) c (tnext (tasks s c)) = Some n"
    using sched_skip_path [OF R(4,2)] R(5) by simp
  have keep: "filter (\<lambda>a. tstate (tasks s a) \<noteq> TASK_TERMINATED) (n # rest) =
      n # filter (\<lambda>a. tstate (tasks s a) \<noteq> TASK_TERMINATED) rest"
    using n by (simp add: skipped_def)
  let ?rest = "filter (\<lambda>a. tstate (tasks s a) \<noteq> TASK_TERMINATED) rest"
  from sched_clean_ring [OF ring c] obtain s1 where
    s1: "sched_clean s c n = Some s1" "same_cpu s1 s" "ring (tasks s1) (c # pre @ n # ?rest)"
      "\<forall>a. a \<notin> set (n # rest) \<or> tstate (tasks s a) \<noteq> TASK_TERMINATED \<longrightarrow> same_task (tasks s1 a) (tasks s a)"
    unfolding keep by auto
  have cur: "g_current s1 = c" "cpu_rsp s1 = cpu_rsp s" "cpu_cr3 s1 = cpu_cr3 s" "g_kernel_cr3 s1 = g_kernel_cr3 s"
    "halted s1 = halted s" "g_next_pid s1 = g_next_pid s"
    using s1(2) c by (auto simp: same_cpu_def)
  note W = sched_switch_result [OF cur(1) nc(1)]
  have sn: "same_task (tasks s1 n) (tasks s n)" using s1(4) n by (auto simp: skipped_def)
  have sc: "same_task (tasks s1 c) (tasks s c)" using s1(4) R(2) by auto
  have "schedule s = Some (sched_switch s1 n)"
    using R(1) c skip s1(1) nc(1) by (simp add: schedule_def Let_def)
  moreover have "ring (tasks (sched_switch s1 n)) (n # ?rest @ c # pre)"
  proof -
    have "ring (tasks s1) ((n # ?rest) @ (c # pre))" by (rule ring_rotate) (use s1(3) in simp)
    then show ?thesis by (subst ring_cong [of _ _ "tasks s1"]) (auto simp: W(1))
  qed
  moreover have "same_task (tasks (sched_switch s1 n) c)
      ((tasks s c)\<lparr>tstate := TASK_READY, cr3 := cpu_cr3 s, rsp := cpu_rsp s - 48\<rparr>)"
    using sc nc(1) by (cases "tasks s1 c"; cases "tasks s c") (simp add: W(1) cur same_task_def)
  moreover have "same_task (tasks (sched_switch s1 n) a) (tasks s a)"
    if "a \<noteq> c" "a \<noteq> n" "a \<notin> set rest \<or> tstate (tasks s a) \<noteq> TASK_TERMINATED" for a
    using s1(4) that by (auto simp: W(1))
  ultimately show ?thesis using nc(1) same_task_fields(3,4) [OF sn]
    by (intro exI [of _ "sched_switch s1 n"]) (simp add: W cur)
qed

lemma schedule_alone:
  assumes ring: "ring (tasks s) (c # rest)" and c: "g_current s = c" and all: "\<forall>a\<in>set rest. skipped (tasks s a)"
  shows "schedule s = Some (if tstate (tasks s c) = TASK_TERMINATED then s\<lparr>halted := True\<rparr> else s)"
proof -
  note R = ringD [OF ring]
  have "sched_skip (tasks s) c (tnext (tasks s c)) = Some c"
    using sched_skip_path [OF R(4,2)] R(5) all by (simp add: dropWhile_eq_Nil_conv [THEN iffD2])
  moreover have "sched_clean s c c = Some s" by (subst sched_clean.simps) simp
  ultimately show ?thesis using R(1) c by (simp add: schedule_def Let_def)
qed

section \<open>Claims about switching\<close>

text \<open>Three tasks: 0x1000 is running, 0x2000 is ready, 0x3000 has ended.\<close>

definition demo_tasks :: tasks where
  "demo_tasks = (\<lambda>_. task_zero)
     (0x1000 := task_zero\<lparr>pid := 1, tstate := TASK_RUNNING, tnext := 0x2000\<rparr>,
      0x2000 := task_zero\<lparr>pid := 2, tstate := TASK_READY, rsp := 0x5000, tnext := 0x3000\<rparr>,
      0x3000 := task_zero\<lparr>pid := 3, tstate := TASK_TERMINATED, kernel_stack_base := 0x300000, tnext := 0x1000\<rparr>)"

definition demo_sched :: sched where
  "demo_sched = \<lparr>tasks = demo_tasks, g_current = 0x1000, g_next_pid = 4, g_kernel_cr3 = 0x1000, kheap = heap_full,
     cpu_cr3 = 0x1000, cpu_rsp = 0x9000, ticks = 50, halted = False\<rparr>"

lemma demo_ring: "ring (tasks demo_sched) [0x1000, 0x2000, 0x3000]" "g_current demo_sched = 0x1000"
  by (simp_all add: ring_def demo_sched_def demo_tasks_def)

text \<open>
  C8: \<open>schedule\<close> returns and switches to the first task after the current one that is neither
  ended nor asleep: that task is running, its stack pointer and page tables are loaded, the stack pointer
  of the task that was left is saved, the ended tasks behind the chosen one are taken out of the circular
  list, and every other task is unchanged up to its link.
\<close>

theorem schedule_spec:
  assumes "ring (tasks s) (c # pre @ n # rest)" "g_current s = c"
    and "\<forall>a\<in>set pre. skipped (tasks s a)" "\<not> skipped (tasks s n)"
  shows "\<exists>s'. schedule s = Some s' \<and> g_current s' = n \<and>
     ring (tasks s') (n # filter (\<lambda>a. tstate (tasks s a) \<noteq> TASK_TERMINATED) rest @ c # pre) \<and>
     tstate (tasks s' n) = TASK_RUNNING \<and> cpu_rsp s' = rsp (tasks s n) + 48 \<and>
     cpu_cr3 s' = (if cr3 (tasks s n) \<noteq> 0 then cr3 (tasks s n) else g_kernel_cr3 s) \<and>
     same_task (tasks s' c) ((tasks s c)\<lparr>tstate := TASK_READY, cr3 := cpu_cr3 s, rsp := cpu_rsp s - 48\<rparr>) \<and>
     (\<forall>a. a \<noteq> c \<and> a \<noteq> n \<and> (a \<notin> set rest \<or> tstate (tasks s a) \<noteq> TASK_TERMINATED) \<longrightarrow>
        same_task (tasks s' a) (tasks s a))"
  using schedule_result [OF assms] by blast

lemma schedule_spec_witness:
  "\<exists>s'. schedule demo_sched = Some s' \<and> g_current s' = 0x2000 \<and> ring (tasks s') [0x2000, 0x1000] \<and> cpu_rsp s' = 0x5030"
proof -
  have d: "\<not> skipped (tasks demo_sched 0x2000)" "tstate (tasks demo_sched 0x3000) = TASK_TERMINATED"
    "rsp (tasks demo_sched 0x2000) = 0x5000"
    by (simp_all add: demo_sched_def demo_tasks_def skipped_def)
  have r: "ring (tasks demo_sched) (0x1000 # [] @ 0x2000 # [0x3000])" using demo_ring by simp
  from schedule_spec [OF r demo_ring(2) _ d(1)] d(2,3) show ?thesis by auto
qed

text \<open>
  \<open>task_sleep\<close> does not put the task to sleep when another task can run: \<open>schedule\<close>
  overwrites the state with ready, so the next call of \<open>schedule\<close> may pick it before its time.
\<close>

theorem task_sleep_lost:
  assumes ring: "ring (tasks s) (c # pre @ n # rest)" and c: "g_current s = c"
    and pre: "\<forall>a\<in>set pre. skipped (tasks s a)" and n: "\<not> skipped (tasks s n)"
  shows "\<exists>s'. task_sleep s ms = Some s' \<and> g_current s' = n \<and> tstate (tasks s' c) = TASK_READY"
proof -
  let ?t = "if ms div 10 = 0 then 1 else ms div 10"
  let ?s = "upd_task s c (\<lambda>t. t\<lparr>wake_tick := ticks s + ?t, tstate := TASK_SLEEPING\<rparr>)"
  have nc: "c \<notin> set (pre @ n # rest)" "c \<noteq> NULL" using ring by (auto simp: ring_def)
  have "ring (tasks ?s) (c # pre @ n # rest)" using ring by (subst ring_cong [of _ _ "tasks s"]) auto
  moreover have "\<forall>a\<in>set pre. skipped (tasks ?s a)" "\<not> skipped (tasks ?s n)" using pre n nc by auto
  ultimately obtain s' where s': "schedule ?s = Some s'" "g_current s' = n"
    "same_task (tasks s' c) ((tasks ?s c)\<lparr>tstate := TASK_READY, cr3 := cpu_cr3 ?s, rsp := cpu_rsp ?s - 48\<rparr>)"
    using schedule_result [of ?s c pre n rest] c by auto
  have "task_sleep s ms = Some s'" using s'(1) nc(2) c by (simp add: task_sleep_def task_yield_def Let_def)
  then show ?thesis using s'(2) same_task_fields(1) [OF s'(3)] by simp
qed

lemma task_sleep_lost_witness:
  "\<exists>s'. task_sleep demo_sched 1000 = Some s' \<and> g_current s' = 0x2000 \<and> tstate (tasks s' 0x1000) = TASK_READY"
proof -
  have d: "\<not> skipped (tasks demo_sched 0x2000)" by (simp add: demo_sched_def demo_tasks_def skipped_def)
  have r: "ring (tasks demo_sched) (0x1000 # [] @ 0x2000 # [0x3000])" using demo_ring by simp
  from task_sleep_lost [OF r demo_ring(2) _ d, of 1000] show ?thesis by simp
qed

section \<open>Finding and destroying tasks\<close>

lemma task_find_path:
  "path T ts start \<Longrightarrow> ts \<noteq> [] \<Longrightarrow> start \<notin> set (tl ts) \<Longrightarrow> NULL \<notin> set ts \<Longrightarrow>
     task_find_from T start p (hd ts) = Some (hd (dropWhile (\<lambda>a. pid (T a) \<noteq> p) ts @ [NULL]))"
proof (induction ts)
  case (Cons a ts)
  show ?case
  proof (cases "ts = [] \<or> pid (T a) = p")
    case True
    then show ?thesis using Cons.prems by (subst task_find_from.simps) auto
  next
    case False
    then obtain b bs where ts: "ts = b # bs" by (cases ts) auto
    have "task_find_from T start p a = task_find_from T start p b"
      using False ts Cons.prems by (subst task_find_from.simps) auto
    then show ?thesis using Cons.IH Cons.prems False ts by auto
  qed
qed simp

text \<open>
  \<open>task_find\<close> returns for every identifier: the first task with it in the circular list, from the
  current one on, or \<open>NULL\<close> when there is none.
\<close>

theorem task_find_spec:
  assumes "ring (tasks s) ts" "g_current s = hd ts"
  shows "\<exists>a. task_find s p = Some a \<and>
     (a = NULL \<and> (\<forall>t\<in>set ts. pid (tasks s t) \<noteq> p) \<or>
      a \<noteq> NULL \<and> pid (tasks s a) = p \<and> (\<exists>xs ys. ts = xs @ a # ys \<and> (\<forall>t\<in>set xs. pid (tasks s t) \<noteq> p)))"
proof -
  obtain c as where ts: "ts = c # as" using assms(1) by (cases ts) (auto simp: ring_def)
  note R = ringD [OF assms(1) [unfolded ts]]
  have f: "task_find s p = Some (hd (dropWhile (\<lambda>a. pid (tasks s a) \<noteq> p) ts @ [NULL]))"
    using task_find_path [of "tasks s" ts c p] assms R by (auto simp: task_find_def ts ring_def)
  show ?thesis
  proof (cases "dropWhile (\<lambda>a. pid (tasks s a) \<noteq> p) ts")
    case Nil
    then show ?thesis using f [unfolded Nil] by (auto simp: dropWhile_eq_Nil_conv)
  next
    case (Cons a ys)
    have "ts = takeWhile (\<lambda>a. pid (tasks s a) \<noteq> p) ts @ a # ys" "pid (tasks s a) = p"
      using dropWhile_eq_Cons_conv [THEN iffD1, OF Cons] by blast+
    moreover have "a \<noteq> NULL" using calculation(1) assms(1) unfolding ring_def by (metis in_set_conv_decomp)
    moreover have "\<forall>t\<in>set (takeWhile (\<lambda>a. pid (tasks s a) \<noteq> p) ts). pid (tasks s t) \<noteq> p" by (auto dest: set_takeWhileD)
    ultimately show ?thesis using f Cons by (intro exI [of _ a]) auto
  qed
qed

lemma task_find_spec_witness: "\<exists>a. task_find demo_sched 7 = Some a \<and> a = NULL"
proof -
  have "g_current demo_sched = hd [0x1000, 0x2000, 0x3000]" using demo_ring by simp
  from task_find_spec [OF demo_ring(1) this, of 7] show ?thesis
    by (auto simp: demo_sched_def demo_tasks_def append_eq_Cons_conv Cons_eq_append_conv)
qed

section \<open>Creating a task\<close>

lemma aligned8_add: "aligned8 a \<Longrightarrow> aligned8 b \<Longrightarrow> aligned8 (a + b)"
  by (simp add: aligned8_def unat_word_ariths dvd_mod)

lemma init_stack_result:
  assumes "page_aligned stack"
  shows "\<exists>m'. task_init_stack m stack ent = (stack + 0x3FC8, m') \<and> load64 m' (stack + 0x3FF8) = ent"
proof -
  have al: "aligned8 stack" using assms by (auto simp: page_aligned_def aligned8_def elim: dvd_trans [rotated])
  have k: "aligned8 (stack + 0x3FF8)" "aligned8 (stack + 0x3FF0)" "aligned8 (stack + 0x3FE8)" "aligned8 (stack + 0x3FE0)"
    "aligned8 (stack + 0x3FD8)" "aligned8 (stack + 0x3FD0)" "aligned8 (stack + 0x3FC8)"
    by (rule aligned8_add [OF al]; simp add: aligned8_def)+
  have six: "[0..<6] = [0, 1, 2, 3, 4, 5::nat]" by (simp add: upt_rec)
  have "stack + 0x4000 - 8 = stack + 0x3FF8" by (simp add: algebra_simps)
  moreover have "x - 8 = stack + (k - 8)" if "x = stack + k" for x k using that by (simp add: algebra_simps)
  ultimately have "task_init_stack m stack ent = (stack + 0x3FC8,
      fold (\<lambda>k m'. store64 m' (stack + k) 0) [0x3FF0, 0x3FE8, 0x3FE0, 0x3FD8, 0x3FD0, 0x3FC8] (store64 m (stack + 0x3FF8) ent))"
    unfolding task_init_stack_def TASK_STACK_SIZE_def Let_def six by (simp add: add.commute)
  moreover have "load64 (fold (\<lambda>k m'. store64 m' (stack + k) 0) [0x3FF0, 0x3FE8, 0x3FE0, 0x3FD8, 0x3FD0, 0x3FC8]
      (store64 m (stack + 0x3FF8) ent)) (stack + 0x3FF8) = ent"
    using k by (simp add: load64_store64_other load_store64)
  ultimately show ?thesis by blast
qed

lemma task_create_result:
  assumes ring: "ring (tasks s) (c # ts)" and c: "g_current s = c" and fr: "pmm_inv (sched_frames s)"
    and own: "set (c # ts) \<inter> pmm_avail (sched_frames s) = {}"
    and a: "pmm_alloc (sched_frames s) = (task, fr1)" "pmm_alloc fr1 = (stack, fr2)" "stack \<noteq> NULL"
  shows "\<exists>s'. task_create s ent = (g_next_pid s, s') \<and> ring (tasks s') (c # task # ts) \<and> g_current s' = c \<and>
     task \<notin> set (c # ts) \<and> g_next_pid s' = g_next_pid s + 1 \<and> sched_frames s' = fr2 \<and>
     tasks s' task = task_zero\<lparr>pid := g_next_pid s, ppid := pid (tasks s c), rsp := stack + 0x3FC8, entry := ent,
       kernel_stack_base := stack, tnext := tnext (tasks s c)\<rparr> \<and>
     (\<forall>b. b \<noteq> task \<longrightarrow> same_task (tasks s' b) (tasks s b)) \<and>
     load64 (ram (mach (kheap s'))) (stack + 0x3FF8) = ent"
proof -
  have inv1: "pmm_inv fr1" by (rule pmm_frames.alloc_ok [OF fr a(1)])
  have task: "task \<noteq> NULL"
  proof
    assume "task = NULL"
    then have "fr1 = sched_frames s" "pmm_avail (sched_frames s) = {}"
      using pmm_frames.alloc_null [OF fr, of fr1] a(1) by auto
    then show False using pmm_frames.alloc_some [OF inv1 a(2,3)] by simp
  qed
  then have "task \<in> pmm_avail (sched_frames s)" using pmm_frames.alloc_some [OF fr a(1)] by simp
  then have new: "task \<notin> set (c # ts)" using own by blast
  note R = ringD [OF ring]
  have "page_aligned stack" using pmm_frames.avail_frame [OF inv1] pmm_frames.alloc_some [OF inv1 a(2,3)] by blast
  then obtain m where m: "task_init_stack (ram (mach (kheap s))) stack ent = (stack + 0x3FC8, m)" "load64 m (stack + 0x3FF8) = ent"
    using init_stack_result by blast
  define s' where "s' = snd (task_create s ent)"
  let ?t = "task_zero\<lparr>pid := g_next_pid s, ppid := pid (tasks s c), rsp := stack + 0x3FC8, entry := ent,
       kernel_stack_base := stack, tnext := tnext (tasks s c)\<rparr>"
  have create: "task_create s ent = (g_next_pid s, s')"
    and T: "tasks s' = (tasks s)(task := ?t, c := (tasks s c)\<lparr>tnext := task\<rparr>)"
    and rest: "g_current s' = c" "g_next_pid s' = g_next_pid s + 1" "sched_frames s' = fr2" "ram (mach (kheap s')) = m"
    using a(3) task R(1) c m(1) unfolding s'_def task_create_def a(1) prod.case a(2)
    by (auto simp: Let_def with_frames_def with_ram_def task_zero_def)
  have "ring (tasks s') (c # task # ts)"
    using ring new R task by (auto simp: ring_def T hd_append)
  then show ?thesis using create T rest m(2) new by (intro exI [of _ s']) auto
qed

section \<open>The timer tick\<close>

lemma deliver_signals_next [simp]: "tnext (deliver_signals t i n) = tnext t" "pid (deliver_signals t i n) = pid t"
  by (induction n arbitrary: t i) (simp_all add: Let_def)

lemma tick_task_next [simp]: "tnext (tick_task now t) = tnext t" "pid (tick_task now t) = pid t"
  by (simp_all add: tick_task_def Let_def)

lemma tick_from_path:
  "path T ts start \<Longrightarrow> ts \<noteq> [] \<Longrightarrow> distinct ts \<Longrightarrow> start \<notin> set (tl ts) \<Longrightarrow>
     tick_from T now start (hd ts) = Some (\<lambda>a. if a \<in> set ts then tick_task now (T a) else T a)"
proof (induction ts arbitrary: T)
  case (Cons a ts)
  show ?case
  proof (cases ts)
    case Nil
    then show ?thesis using Cons.prems by (subst tick_from.simps) (auto simp: Let_def fun_eq_iff)
  next
    case (Cons b bs)
    let ?T = "T(a := tick_task now (T a))"
    have "tick_from T now start a = tick_from ?T now start b"
      using Cons Cons.prems by (subst tick_from.simps) (auto simp: Let_def)
    moreover have "tick_from ?T now start (hd ts) = Some (\<lambda>x. if x \<in> set ts then tick_task now (?T x) else ?T x)"
    proof (rule Cons.IH)
      have "a \<notin> set ts" using Cons.prems by simp
      then show "path ?T ts start" using Cons.prems(1) by (simp del: fun_upd_apply)
    qed (use Cons Cons.prems in auto)
    ultimately show ?thesis using Cons Cons.prems by (auto simp: fun_eq_iff)
  qed
qed simp

text \<open>
  \<open>scheduler_tick\<close> returns, handles every task of the circular list exactly once and changes
  nothing else: sleeping tasks whose time has come become ready, and signals are delivered.
\<close>

theorem scheduler_tick_spec:
  assumes "ring (tasks s) ts" "g_current s = hd ts"
  shows "scheduler_tick s = Some (s\<lparr>tasks := (\<lambda>a. if a \<in> set ts then tick_task (ticks s) (tasks s a) else tasks s a)\<rparr>)"
proof -
  obtain c as where ts: "ts = c # as" using assms(1) by (cases ts) (auto simp: ring_def)
  show ?thesis
    using tick_from_path [of "tasks s" ts c "ticks s"] assms by (auto simp: scheduler_tick_def ring_def ts)
qed

lemma scheduler_tick_spec_witness:
  "\<exists>s'. scheduler_tick demo_sched = Some s' \<and> tasks s' 0x3000 = tasks demo_sched 0x3000"
proof -
  have "g_current demo_sched = hd [0x1000, 0x2000, 0x3000]" using demo_ring by simp
  from scheduler_tick_spec [OF demo_ring(1) this] show ?thesis
    by (simp add: tick_task_def demo_sched_def demo_tasks_def)
qed

section \<open>Descriptor tables\<close>

locale descriptor_table =
  fixes ok :: "'t \<Rightarrow> bool" and alloc :: "'t \<Rightarrow> 'o \<Rightarrow> int \<Rightarrow> int \<times> 't" and free :: "'t \<Rightarrow> int \<Rightarrow> 't"
    and get :: "'t \<Rightarrow> int \<Rightarrow> 'o" and none :: 'o
  assumes alloc_ok: "ok t \<Longrightarrow> alloc t x ty = (n, t') \<Longrightarrow> ok t'"
    and alloc_get: "ok t \<Longrightarrow> alloc t x ty = (n, t') \<Longrightarrow> 0 \<le> n \<Longrightarrow> get t n = none \<and> get t' n = x \<and> (\<forall>k. k \<noteq> n \<longrightarrow> get t' k = get t k)"
    and alloc_fail: "ok t \<Longrightarrow> alloc t x ty = (n, t') \<Longrightarrow> n < 0 \<Longrightarrow> t' = t"
    and free_ok: "ok t \<Longrightarrow> ok (free t n)"
    and free_get: "ok t \<Longrightarrow> get (free t n) k = (if k = n then none else get t k)"
begin

lemma alloc_twice:
  assumes "ok t" "alloc t x ty = (n, t1)" "alloc t1 y ty' = (k, t2)" "0 \<le> n" "0 \<le> k" "x \<noteq> none"
  shows "n \<noteq> k" "get t2 n = x" "get t2 k = y"
proof -
  note 1 = alloc_get [OF assms(1,2,4)] and 2 = alloc_get [OF alloc_ok [OF assms(1,2)] assms(3,5)]
  show "n \<noteq> k" using 1 2 assms(6) by auto
  then show "get t2 n = x" "get t2 k = y" using 1 2 by auto
qed

lemma alloc_free: "ok t \<Longrightarrow> alloc t x ty = (n, t') \<Longrightarrow> 0 \<le> n \<Longrightarrow> get (free t' n) k = get t k"
  using alloc_get [of t x ty n t'] free_get [of t' n k] alloc_ok by auto

end

definition fd_ok :: "task_struct \<Rightarrow> bool" where
  "fd_ok t \<longleftrightarrow> length (fd t) = TASK_MAX_FD"

lemma fd_scan_Some: "fd_scan fds i n = Some k \<Longrightarrow> i \<le> k \<and> k < i + n \<and> \<not> fused (fds ! k) \<and> (\<forall>j. i \<le> j \<and> j < k \<longrightarrow> fused (fds ! j))"
proof (induction n arbitrary: i)
  case (Suc n)
  show ?case
  proof (cases "fused (fds ! i)")
    case True
    with Suc.prems have IH: "Suc i \<le> k \<and> k < Suc i + n \<and> \<not> fused (fds ! k) \<and> (\<forall>j. Suc i \<le> j \<and> j < k \<longrightarrow> fused (fds ! j))"
      by (intro Suc.IH) simp
    have "fused (fds ! j)" if "i \<le> j" "j < k" for j
    proof -
      have "j = i \<or> Suc i \<le> j" using that(1) by arith
      then show ?thesis using True IH that(2) by blast
    qed
    then show ?thesis using IH by simp
  qed (use Suc.prems in auto)
qed simp

lemma fd_scan_None: "fd_scan fds i n = None \<Longrightarrow> (\<forall>j. i \<le> j \<and> j < i + n \<longrightarrow> fused (fds ! j))"
proof (induction n arbitrary: i)
  case (Suc n)
  then have "fused (fds ! i)" "fd_scan fds (Suc i) n = None" by (auto split: if_splits)
  moreover have "j = i \<or> Suc i \<le> j" if "i \<le> j" for j using that by arith
  ultimately show ?case using Suc.IH [of "Suc i"] by (metis add_Suc add_Suc_right)
qed auto

interpretation task_fds: descriptor_table fd_ok task_fd_alloc task_fd_free task_fd_get FNull
proof (unfold_locales, goal_cases)
  case (1 t x ty n t')
  then show ?case by (auto simp: task_fd_alloc_def fd_ok_def split: option.splits)
next
  case (2 t x ty n t')
  then obtain i where i: "fd_scan (fd t) 3 (TASK_MAX_FD - 3) = Some i" "n = int i"
      "t' = t\<lparr>fd := (fd t)[i := \<lparr>fptr = x, ftype = ty, fused = True\<rparr>]\<rparr>"
    by (auto simp: task_fd_alloc_def split: option.splits)
  from fd_scan_Some [OF i(1)] have "i < 32" "\<not> fused (fd t ! i)" by (auto simp: TASK_MAX_FD_def)
  moreover have "nat k \<noteq> i" if "0 \<le> k" "k \<noteq> int i" for k using that by auto
  ultimately show ?case using 2(1) i(2,3) by (auto simp: task_fd_get_def fd_ok_def TASK_MAX_FD_def)
next
  case (3 t x ty n t')
  then show ?case by (auto simp: task_fd_alloc_def split: option.splits)
next
  case (4 t n)
  then show ?case by (simp add: task_fd_free_def fd_ok_def)
next
  case (5 t n k)
  then show ?case
    by (auto simp: task_fd_free_def task_fd_get_def fd_ok_def TASK_MAX_FD_def fd_none_def nth_list_update)
qed

lemma task_destroy_result:
  assumes ring: "ring (tasks s) (c # ps @ x # ys)" and c: "g_current s = c"
  shows "\<exists>s'. task_destroy s x = Some s' \<and> ring (tasks s') (c # ps @ ys) \<and> g_current s' = c \<and>
     (\<forall>a. a \<noteq> x \<longrightarrow> same_task (tasks s' a) (tasks s a)) \<and>
     sched_frames s' = pmm_free (if kernel_stack_base (tasks s x) \<noteq> 0
       then pmm_free (sched_frames s) (kernel_stack_base (tasks s x)) else sched_frames s) x"
proof -
  obtain us p where us: "c # ps = us @ [p]" by (metis list.distinct(1) rev_exhaust)
  then have ts: "c # ps @ x # ys = us @ p # x # ys" by (metis append.assoc append_Cons append_Nil)
  have dis: "distinct (us @ p # x # ys)" "NULL \<notin> set (us @ p # x # ys)" and hd: "hd (us @ [p]) = c"
    using ring us unfolding ts [symmetric] by (auto simp: ring_def simp flip: us)
  have P: "path (tasks s) us p" "tnext (tasks s p) = x" "tnext (tasks s x) = hd (ys @ [c])" "path (tasks s) ys c"
    using ring hd unfolding ts by (auto simp: ring_def path_append hd_append split: if_splits)
  have rp: "ring_prev (tasks s) (g_current s) x = Some p"
    using ring_prev_path [of "tasks s" "us @ [p]" x] P dis c hd by (cases us) (auto simp: path_append hd_append)
  have ne: "p \<noteq> x" "p \<noteq> NULL" "x \<noteq> NULL" "c \<noteq> x" using dis hd by (auto simp: hd_append split: if_splits)
  define s1 where "s1 = upd_task s p (tnext_update (\<lambda>_. tnext (tasks s x)))"
  define s2 where "s2 = (if kernel_stack_base (tasks s1 x) \<noteq> 0
     then with_frames s1 (pmm_free (sched_frames s1) (kernel_stack_base (tasks s1 x))) else s1)"
  have "task_destroy s x = Some (with_frames s2 (pmm_free (sched_frames s2) x))"
    unfolding task_destroy_def rp option.case Let_def using ne P(2) c
    by (simp add: s1_def [symmetric] s2_def [symmetric]) (simp add: s1_def s2_def)
  moreover have T: "tasks s2 = (tasks s)(p := (tasks s p)\<lparr>tnext := tnext (tasks s x)\<rparr>)"
    by (simp add: s2_def s1_def)
  moreover have "ring (tasks s2) (c # ps @ ys)"
  proof -
    have "path (tasks s2) (us @ p # ys) c" using P dis(1) by (simp add: T path_append hd_append)
    moreover have eq: "c # ps @ ys = us @ p # ys" using us by (metis append.assoc append_Cons append_Nil)
    moreover have "hd (us @ p # ys) = c" using hd by (simp add: hd_append split: if_splits)
    ultimately have "ring (tasks s2) (us @ p # ys)" using dis by (auto simp: ring_def)
    then show ?thesis unfolding eq .
  qed
  moreover have "g_current s2 = c" using c by (simp add: s2_def s1_def)
  moreover have "sched_frames s2 = (if kernel_stack_base (tasks s x) \<noteq> 0
       then pmm_free (sched_frames s) (kernel_stack_base (tasks s x)) else sched_frames s)"
    using ne(1) by (simp add: s2_def s1_def with_frames_def)
  ultimately show ?thesis by (simp add: with_frames_def)
qed

section \<open>Claims about tasks and descriptors\<close>

text \<open>
  With two free frames, \<open>task_create\<close> returns the next identifier and puts a fresh ready
  task, whose parent is the current one, directly behind it in the circular list; the
  structure lies in a frame no task of the list uses, and every other task is unchanged up to its link.
\<close>

theorem task_create_spec:
  assumes "ring (tasks s) (c # ts)" "g_current s = c" "pmm_inv (sched_frames s)"
    and "set (c # ts) \<inter> pmm_avail (sched_frames s) = {}"
    and "pmm_alloc (sched_frames s) = (task, fr1)" "pmm_alloc fr1 = (stack, fr2)" "stack \<noteq> NULL"
  shows "\<exists>s'. task_create s ent = (g_next_pid s, s') \<and> ring (tasks s') (c # task # ts) \<and> task \<notin> set (c # ts) \<and>
     pid (tasks s' task) = g_next_pid s \<and> ppid (tasks s' task) = pid (tasks s c) \<and>
     tstate (tasks s' task) = TASK_READY \<and> entry (tasks s' task) = ent \<and> fd_ok (tasks s' task) \<and>
     (\<forall>k. task_fd_get (tasks s' task) k = FNull) \<and> g_next_pid s' = g_next_pid s + 1 \<and> sched_frames s' = fr2 \<and>
     (\<forall>b. b \<noteq> task \<longrightarrow> same_task (tasks s' b) (tasks s b))"
proof -
  obtain s' where s': "task_create s ent = (g_next_pid s, s')" "ring (tasks s') (c # task # ts)" "task \<notin> set (c # ts)"
      "g_next_pid s' = g_next_pid s + 1" "sched_frames s' = fr2"
      "tasks s' task = task_zero\<lparr>pid := g_next_pid s, ppid := pid (tasks s c), rsp := stack + 0x3FC8, entry := ent,
       kernel_stack_base := stack, tnext := tnext (tasks s c)\<rparr>"
      "\<forall>b. b \<noteq> task \<longrightarrow> same_task (tasks s' b) (tasks s b)"
    using task_create_result [OF assms] by blast
  have "task_fd_get (tasks s' task) k = FNull" for k
    by (auto simp: s'(6) task_fd_get_def task_zero_def TASK_MAX_FD_def fd_none_def)
  then show ?thesis using s'(1-5,7) by (intro exI [of _ s']) (simp add: s'(6), simp add: task_zero_def fd_ok_def)
qed

text \<open>A kernel with one task, at 0x1000, and the frames of \<open>boot_low\<close>.\<close>

definition demo_one :: sched where
  "demo_one = demo_sched\<lparr>tasks := demo_tasks(0x1000 := task_zero\<lparr>pid := 1, tnext := 0x1000\<rparr>)\<rparr>"

lemma demo_one_facts:
  "ring (tasks demo_one) [0x1000]" "g_current demo_one = 0x1000" "sched_frames demo_one = boot_low"
  "set [0x1000] \<inter> pmm_avail (sched_frames demo_one) = {}" "g_next_pid demo_one = 4"
proof -
  show fr: "sched_frames demo_one = boot_low"
    by (simp add: demo_one_def demo_sched_def heap_full_def heap_fresh_def vm_linked_def)
  have "(0x1000 :: u64) \<notin> pmm_avail boot_low" by (rule low_not_avail) (simp_all add: boot_pools pmm_consts)
  then show "set [0x1000] \<inter> pmm_avail (sched_frames demo_one) = {}" by (simp add: fr)
qed (simp_all add: demo_one_def demo_sched_def ring_def)

lemma demo_two_frames: "\<exists>fr1 stack fr2. pmm_alloc boot_low = (0x200000, fr1) \<and> pmm_alloc fr1 = (stack, fr2) \<and> stack \<noteq> NULL"
proof -
  have "frames_left (Suc (Suc 510)) boot_low" using boot_low_left by simp
  from pmm_alloc_left [OF pmm_alloc_left(2) [OF this]] boot_low_alloc show ?thesis
    by (metis prod.collapse snd_conv)
qed

lemma task_create_spec_witness:
  "\<exists>s'. task_create demo_one 0x123 = (4, s') \<and> ring (tasks s') [0x1000, 0x200000] \<and> entry (tasks s' 0x200000) = 0x123"
proof -
  obtain fr1 stack fr2 where a: "pmm_alloc (sched_frames demo_one) = (0x200000, fr1)" "pmm_alloc fr1 = (stack, fr2)" "stack \<noteq> NULL"
    using demo_two_frames demo_one_facts(3) by auto
  have "pmm_inv (sched_frames demo_one)" by (simp add: demo_one_facts boot_pools)
  from task_create_spec [OF demo_one_facts(1,2) this demo_one_facts(4) a, of "0x123"] demo_one_facts(5)
  show ?thesis by auto
qed

text \<open>
  The stack of a new task lies outside the frame that was allocated for it: one frame of 4 KiB is
  taken, but the initial stack pointer is 0x3FC8 bytes above its start, and the entry point is stored in the
  fourth frame from there, which belongs to somebody else.
\<close>

theorem task_create_stack_overrun:
  assumes "ring (tasks s) (c # ts)" "g_current s = c" "pmm_inv (sched_frames s)"
    and "set (c # ts) \<inter> pmm_avail (sched_frames s) = {}"
    and "pmm_alloc (sched_frames s) = (task, fr1)" "pmm_alloc fr1 = (stack, fr2)" "stack \<noteq> NULL"
  shows "\<exists>s'. task_create s ent = (g_next_pid s, s') \<and> kernel_stack_base (tasks s' task) = stack \<and>
     rsp (tasks s' task) = stack + 0x3FC8 \<and> \<not> 0x3FC8 < PAGE_SIZE \<and>
     load64 (ram (mach (kheap s'))) (stack + 0x3FF8) = ent \<and> sched_frames s' = fr2"
  using task_create_result [OF assms, of ent] by (auto simp: PAGE_SIZE_def)

lemma task_create_stack_overrun_witness:
  "\<exists>stack s'. task_create demo_one 0x123 = (4, s') \<and> load64 (ram (mach (kheap s'))) (stack + 0x3FF8) = 0x123"
proof -
  obtain fr1 stack fr2 where a: "pmm_alloc (sched_frames demo_one) = (0x200000, fr1)" "pmm_alloc fr1 = (stack, fr2)" "stack \<noteq> NULL"
    using demo_two_frames demo_one_facts(3) by auto
  have "pmm_inv (sched_frames demo_one)" by (simp add: demo_one_facts boot_pools)
  from task_create_stack_overrun [OF demo_one_facts(1,2) this demo_one_facts(4) a, of "0x123"] demo_one_facts(5)
  show ?thesis by auto
qed

text \<open>
  \<open>task_destroy\<close> of a task of the circular list other than the current one returns, takes exactly
  that task out of the list and releases its stack and its structure.
\<close>

theorem task_destroy_spec:
  assumes "ring (tasks s) (c # ps @ x # ys)" "g_current s = c"
  shows "\<exists>s'. task_destroy s x = Some s' \<and> ring (tasks s') (c # ps @ ys) \<and> g_current s' = c \<and>
     (\<forall>a. a \<noteq> x \<longrightarrow> same_task (tasks s' a) (tasks s a)) \<and>
     sched_frames s' = pmm_free (if kernel_stack_base (tasks s x) \<noteq> 0
       then pmm_free (sched_frames s) (kernel_stack_base (tasks s x)) else sched_frames s) x"
  using assms by (rule task_destroy_result)

lemma task_destroy_spec_witness:
  "\<exists>s'. task_destroy demo_sched 0x3000 = Some s' \<and> ring (tasks s') [0x1000, 0x2000]"
proof -
  have "ring (tasks demo_sched) (0x1000 # [0x2000] @ 0x3000 # [])" using demo_ring by simp
  from task_destroy_spec [OF this demo_ring(2)] show ?thesis by auto
qed

text \<open>
  A descriptor from \<open>task_fd_alloc\<close> is the lowest unused one from 3 on; it then gives the object,
  and releasing it gives back the table as the descriptors show it; the call fails only when all 29 are used.
\<close>

theorem task_fd_alloc_spec:
  assumes "fd_ok t" "task_fd_alloc t x ty = (n, t')"
  shows "if n < 0 then t' = t \<and> (\<forall>j. 3 \<le> j \<and> j < 32 \<longrightarrow> fused (fd t ! j))
    else 3 \<le> n \<and> n < 32 \<and> \<not> fused (fd t ! nat n) \<and> (\<forall>j. 3 \<le> j \<and> j < nat n \<longrightarrow> fused (fd t ! j)) \<and>
      task_fd_get t' n = x \<and> ftype (fd t' ! nat n) = ty \<and>
      (\<forall>k. k \<noteq> n \<longrightarrow> task_fd_get t' k = task_fd_get t k) \<and> (\<forall>k. task_fd_get (task_fd_free t' n) k = task_fd_get t k)"
proof (cases "fd_scan (fd t) 3 (TASK_MAX_FD - 3)")
  case None
  then show ?thesis using assms fd_scan_None [OF None] by (auto simp: task_fd_alloc_def TASK_MAX_FD_def)
next
  case (Some i)
  have n: "n = int i" "t' = t\<lparr>fd := (fd t)[i := \<lparr>fptr = x, ftype = ty, fused = True\<rparr>]\<rparr>"
    using assms(2) Some by (auto simp: task_fd_alloc_def)
  then have nn: "0 \<le> n" by simp
  have i: "3 \<le> i" "i < 32" "\<not> fused (fd t ! i)" "\<forall>j. 3 \<le> j \<and> j < i \<longrightarrow> fused (fd t ! j)"
    using fd_scan_Some [OF Some] by (auto simp: TASK_MAX_FD_def)
  have "ftype (fd t' ! i) = ty" using n(2) i(2) assms(1) by (simp add: fd_ok_def TASK_MAX_FD_def)
  then show ?thesis
    using i task_fds.alloc_get [OF assms nn] task_fds.alloc_free [OF assms nn] unfolding n(1) by simp
qed

lemma task_fd_alloc_spec_witness:
  "\<exists>t'. task_fd_alloc task_zero (FPipe 0) FD_TYPE_PIPE_R = (3, t') \<and> task_fd_get t' 3 = FPipe 0"
proof -
  have ok: "fd_ok task_zero" by (simp add: fd_ok_def task_zero_def)
  have "fd_scan (fd task_zero) 3 (TASK_MAX_FD - 3) = Some 3"
    by (simp add: task_zero_def TASK_MAX_FD_def fd_none_def eval_nat_numeral)
  then obtain t' where a: "task_fd_alloc task_zero (FPipe 0) FD_TYPE_PIPE_R = (3, t')" by (simp add: task_fd_alloc_def)
  from task_fd_alloc_spec [OF ok a] a show ?thesis by simp
qed

end
