(* ===== verification/Pipe.thy ===== *)
theory Pipe
  imports Prelude
begin

text \<open>
  The pipes of \<^verbatim>\<open>kernel/syscall.c\<close>: sixteen ring buffers of 4096 bytes. The position of the
  oldest byte is not stored; it is computed from \<open>head\<close> and \<open>count\<close>, both 32 bit. A
  caller's buffer is an array, a function from its index to its bytes. The ring buffer refines a
  bounded first-in first-out queue, stated as the locale \<open>bounded_fifo\<close>.
\<close>

section \<open>State and operations\<close>

definition MAX_PIPES :: nat where "MAX_PIPES = 16"
definition PIPE_BUF_SIZE :: u32 where "PIPE_BUF_SIZE = 4096"

record pipe_t =
  buf :: "u8 list"
  head :: u32
  count :: u32
  readers :: int
  writers :: int
  used :: bool

definition pipe_reset :: "pipe_t \<Rightarrow> pipe_t" where
  "pipe_reset p = p\<lparr>used := True, head := 0, count := 0, readers := 1, writers := 1\<rparr>"

text \<open>The loop of \<open>pipe_alloc\<close> over the pipes from index \<open>i\<close>; the result is the index of the pipe
  whose address the C function returns, or \<open>None\<close> for \<open>NULL\<close>.\<close>

fun pipe_alloc_scan :: "nat \<Rightarrow> pipe_t list \<Rightarrow> nat option \<times> pipe_t list" where
  "pipe_alloc_scan i [] = (None, [])"
| "pipe_alloc_scan i (p # ps) =
     (if \<not> used p then (Some i, pipe_reset p # ps)
      else case pipe_alloc_scan (Suc i) ps of (r, ps') \<Rightarrow> (r, p # ps'))"

definition pipe_alloc :: "pipe_t list \<Rightarrow> nat option \<times> pipe_t list" where
  "pipe_alloc g_pipes = pipe_alloc_scan 0 g_pipes"

function pipe_read_loop :: "pipe_t \<Rightarrow> u64 \<Rightarrow> (u64 \<Rightarrow> u8) \<Rightarrow> u64 \<Rightarrow> u64 \<times> (u64 \<Rightarrow> u8) \<times> pipe_t" where
  "pipe_read_loop p cnt dst n =
     (if n < cnt \<and> count p > 0
      then let tail = (head p + PIPE_BUF_SIZE - count p) mod PIPE_BUF_SIZE
           in pipe_read_loop (p\<lparr>count := count p - 1\<rparr>) cnt (dst(n := buf p ! unat tail)) (n + 1)
      else (n, dst, p))"
  by pat_completeness auto
termination
  by (relation "measure (\<lambda>(p, cnt, dst, n). unat (count p))")
    (auto simp: word_less_nat_alt unat_minus_one unat_gt_0)

definition pipe_read :: "pipe_t \<Rightarrow> u64 \<Rightarrow> (u64 \<Rightarrow> u8) \<Rightarrow> int \<times> (u64 \<Rightarrow> u8) \<times> pipe_t" where
  "pipe_read p cnt dst =
     (case pipe_read_loop p cnt dst 0 of (n, dst', p') \<Rightarrow> (sint (ucast n :: u32), dst', p'))"

function pipe_write_loop :: "pipe_t \<Rightarrow> u64 \<Rightarrow> (u64 \<Rightarrow> u8) \<Rightarrow> u64 \<Rightarrow> u64 \<times> pipe_t" where
  "pipe_write_loop p cnt src n =
     (if n < cnt \<and> count p < PIPE_BUF_SIZE
      then pipe_write_loop
        (p\<lparr>buf := (buf p)[unat (head p) := src n],
           head := (head p + 1) mod PIPE_BUF_SIZE,
           count := count p + 1\<rparr>) cnt src (n + 1)
      else (n, p))"
  by pat_completeness auto
termination
proof (relation "measure (\<lambda>(p, cnt, src, n). 4096 - unat (count p))", goal_cases)
  case (2 p cnt src n)
  then have "unat (count p) < 4096" by (simp add: PIPE_BUF_SIZE_def word_less_nat_alt)
  moreover have "unat (count p + 1) = unat (count p) + 1"
    using calculation by (simp add: unat_word_ariths)
  ultimately show ?case by simp
qed simp

definition pipe_write :: "pipe_t \<Rightarrow> u64 \<Rightarrow> (u64 \<Rightarrow> u8) \<Rightarrow> int \<times> pipe_t" where
  "pipe_write p cnt src =
     (case pipe_write_loop p cnt src 0 of (n, p') \<Rightarrow> (sint (ucast n :: u32), p'))"

declare pipe_read_loop.simps [simp del] pipe_write_loop.simps [simp del]

section \<open>The queue of a pipe\<close>

definition pipe_inv :: "pipe_t \<Rightarrow> bool" where
  "pipe_inv p \<longleftrightarrow> length (buf p) = 4096 \<and> head p < PIPE_BUF_SIZE \<and> count p \<le> PIPE_BUF_SIZE"

text \<open>Position of the \<open>i\<close>-th oldest byte.\<close>

definition pipe_pos :: "pipe_t \<Rightarrow> nat \<Rightarrow> nat" where
  "pipe_pos p i = (unat (head p) + 4096 - unat (count p) + i) mod 4096"

definition pipe_queue :: "pipe_t \<Rightarrow> u8 list" where
  "pipe_queue p = map (\<lambda>i. buf p ! pipe_pos p i) [0..<unat (count p)]"

lemma length_pipe_queue [simp]: "length (pipe_queue p) = unat (count p)"
  by (simp add: pipe_queue_def)

lemma pipe_invD:
  assumes "pipe_inv p"
  shows "length (buf p) = 4096" "unat (head p) < 4096" "unat (count p) \<le> 4096"
  using assms by (auto simp: pipe_inv_def PIPE_BUF_SIZE_def word_less_nat_alt word_le_nat_alt)

lemma pipe_get_step:
  assumes "pipe_inv p" "count p > 0"
  defines "p' \<equiv> p\<lparr>count := count p - 1\<rparr>"
  shows "pipe_inv p'" "unat (count p) = Suc (unat (count p'))"
    "pipe_queue p = buf p ! unat ((head p + PIPE_BUF_SIZE - count p) mod PIPE_BUF_SIZE) # pipe_queue p'"
proof -
  note b = pipe_invD [OF assms(1)]
  have c: "0 < unat (count p)" using assms(2) by (simp add: word_less_nat_alt)
  then have c': "unat (count p - 1) = unat (count p) - 1"
    by (metis unat_minus_one unat_0 less_irrefl)
  then show n: "unat (count p) = Suc (unat (count p'))" using c by (simp add: p'_def)
  show "pipe_inv p'" using assms(1) b n
    by (simp add: pipe_inv_def p'_def PIPE_BUF_SIZE_def word_le_nat_alt word_less_nat_alt)
  have s: "unat (head p + 4096) = unat (head p) + 4096" using b by (simp add: unat_word_ariths)
  have "unat (head p + 4096 - count p) = unat (head p) + 4096 - unat (count p)"
    using b by (subst unat_sub) (simp_all add: s word_le_nat_alt)
  then have t: "unat ((head p + PIPE_BUF_SIZE - count p) mod PIPE_BUF_SIZE) = pipe_pos p 0"
    by (simp add: PIPE_BUF_SIZE_def pipe_pos_def unat_mod)
  have pos: "pipe_pos p (Suc i) = pipe_pos p' i" if "i < unat (count p')" for i
  proof -
    have "unat (head p) + 4096 - unat (count p) + Suc i = unat (head p) + 4096 - unat (count p') + i"
      using n b by linarith
    moreover have "head p' = head p" by (simp add: p'_def)
    ultimately show ?thesis unfolding pipe_pos_def by (simp only:)
  qed
  show "pipe_queue p = buf p ! unat ((head p + PIPE_BUF_SIZE - count p) mod PIPE_BUF_SIZE) # pipe_queue p'"
    unfolding t pipe_queue_def n
    by (simp add: upt_conv_Cons map_Suc_upt [symmetric] pos del: upt_Suc) (simp add: p'_def)
qed

lemma pipe_put_step:
  assumes "pipe_inv p" "count p < PIPE_BUF_SIZE"
    and p'_def: "p' = p\<lparr>buf := (buf p)[unat (head p) := x], head := (head p + 1) mod PIPE_BUF_SIZE, count := count p + 1\<rparr>"
  shows "pipe_inv p'" "unat (count p') = Suc (unat (count p))" "pipe_queue p' = pipe_queue p @ [x]"
proof -
  note b = pipe_invD [OF assms(1)]
  have c: "unat (count p) < 4096" using assms(2) by (simp add: PIPE_BUF_SIZE_def word_less_nat_alt)
  then show n: "unat (count p') = Suc (unat (count p))" by (simp add: p'_def unat_word_ariths)
  have h: "unat (head p') = Suc (unat (head p)) mod 4096"
    using b by (simp add: p'_def PIPE_BUF_SIZE_def unat_word_ariths unat_mod)
  show "pipe_inv p'" using assms(1) n c h b(1)
    by (simp add: pipe_inv_def PIPE_BUF_SIZE_def word_le_nat_alt word_less_nat_alt) (simp add: p'_def)
  have pos: "pipe_pos p' i = pipe_pos p i" if "i \<le> unat (count p)" for i
    using that c b by (auto simp: pipe_pos_def h n mod_if split: if_splits)
  have last: "pipe_pos p (unat (count p)) = unat (head p)" using b by (simp add: pipe_pos_def)
  have ne: "pipe_pos p i \<noteq> unat (head p)" if "i < unat (count p)" for i
    using that c b by (auto simp: pipe_pos_def mod_if)
  have buf': "buf p' = (buf p)[unat (head p) := x]" by (simp add: p'_def)
  show "pipe_queue p' = pipe_queue p @ [x]"
    unfolding pipe_queue_def n using b ne pos last by (auto simp: buf' nth_list_update_neq [OF not_sym])
qed

lemma pipe_read_loop_spec:
  assumes "pipe_inv p" "n \<le> cnt"
  defines "k \<equiv> min (unat cnt - unat n) (unat (count p))"
  shows "\<exists>p'. pipe_read_loop p cnt dst n =
       (n + of_nat k, (\<lambda>i. if n \<le> i \<and> unat i < unat n + k then pipe_queue p ! (unat i - unat n) else dst i), p') \<and>
     pipe_inv p' \<and> pipe_queue p' = drop k (pipe_queue p) \<and> p' = p\<lparr>count := count p'\<rparr>"
  using assms(1,2) unfolding k_def
proof (induction p cnt dst n rule: pipe_read_loop.induct)
  case (1 p cnt dst n)
  show ?case
  proof (cases "n < cnt \<and> count p > 0")
    case False
    then have "min (unat cnt - unat n) (unat (count p)) = 0"
      using 1(3) by (auto simp: word_less_nat_alt word_le_nat_alt)
    then show ?thesis using False 1(2) by (subst pipe_read_loop.simps) (auto simp: fun_eq_iff word_le_nat_alt)
  next
    case True
    let ?p = "p\<lparr>count := count p - 1\<rparr>"
    let ?x = "buf p ! unat ((head p + PIPE_BUF_SIZE - count p) mod PIPE_BUF_SIZE)"
    let ?k = "min (unat cnt - unat n) (unat (count p))" and ?k' = "min (unat cnt - unat (n + 1)) (unat (count ?p))"
    note st = pipe_get_step [OF 1(2), OF conjunct2 [OF True]]
    have n1: "unat (n + 1) = Suc (unat n)" using True unat_inc by blast
    have k: "?k = Suc ?k'" using st(2) True n1 by (simp add: word_less_nat_alt)
    have "n + 1 \<le> cnt" using True n1 by (simp add: word_less_nat_alt word_le_nat_alt)
    from 1(1) [OF True refl st(1) this, of]
    obtain p' where p': "pipe_read_loop ?p cnt (dst(n := ?x)) (n + 1) =
       (n + 1 + of_nat ?k', (\<lambda>i. if n + 1 \<le> i \<and> unat i < unat (n + 1) + ?k' then pipe_queue ?p ! (unat i - unat (n + 1))
           else (dst(n := ?x)) i), p')"
      "pipe_inv p'" "pipe_queue p' = drop ?k' (pipe_queue ?p)" "p' = ?p\<lparr>count := count p'\<rparr>" by blast
    have "pipe_read_loop p cnt dst n = pipe_read_loop ?p cnt (dst(n := ?x)) (n + 1)"
      using True by (subst pipe_read_loop.simps) (simp add: Let_def)
    moreover have "(if n + 1 \<le> i \<and> unat i < unat (n + 1) + ?k' then pipe_queue ?p ! (unat i - unat (n + 1))
           else (dst(n := ?x)) i) =
         (if n \<le> i \<and> unat i < unat n + ?k then pipe_queue p ! (unat i - unat n) else dst i)" for i
      unfolding k n1 st(3) by (auto simp: word_le_nat_alt n1 nth_Cons' word_unat_eq_iff)
    moreover have "drop ?k' (pipe_queue ?p) = drop ?k (pipe_queue p)" unfolding k st(3) by simp
    ultimately show ?thesis using p' unfolding k by (intro exI [of _ p']) (simp add: fun_eq_iff)
  qed
qed

lemma pipe_write_loop_spec:
  assumes "pipe_inv p" "n \<le> cnt"
  defines "k \<equiv> min (unat cnt - unat n) (4096 - unat (count p))"
  shows "\<exists>p'. pipe_write_loop p cnt src n = (n + of_nat k, p') \<and> pipe_inv p' \<and>
     pipe_queue p' = pipe_queue p @ map (\<lambda>i. src (n + of_nat i)) [0..<k] \<and>
     readers p' = readers p \<and> writers p' = writers p \<and> used p' = used p"
  using assms(1,2) unfolding k_def
proof (induction p cnt src n rule: pipe_write_loop.induct)
  case (1 p cnt src n)
  show ?case
  proof (cases "n < cnt \<and> count p < PIPE_BUF_SIZE")
    case False
    then have "min (unat cnt - unat n) (4096 - unat (count p)) = 0"
      using 1(3) by (auto simp: word_less_nat_alt word_le_nat_alt PIPE_BUF_SIZE_def)
    then show ?thesis using False 1(2) by (subst pipe_write_loop.simps) auto
  next
    case True
    let ?p = "p\<lparr>buf := (buf p)[unat (head p) := src n], head := (head p + 1) mod PIPE_BUF_SIZE, count := count p + 1\<rparr>"
    let ?k = "min (unat cnt - unat n) (4096 - unat (count p))" and ?k' = "min (unat cnt - unat (n + 1)) (4096 - unat (count ?p))"
    note st = pipe_put_step [OF 1(2), OF conjunct2 [OF True] refl, of "src n"]
    have n1: "unat (n + 1) = Suc (unat n)" using True unat_inc by blast
    have "unat (count p) < 4096" using True by (simp add: word_less_nat_alt PIPE_BUF_SIZE_def)
    then have k: "?k = Suc ?k'" using st(2) True n1 by (auto simp: word_less_nat_alt min_def)
    have "n + 1 \<le> cnt" using True n1 by (simp add: word_less_nat_alt word_le_nat_alt)
    from 1(1) [OF True st(1) this]
    obtain p' where p': "pipe_write_loop ?p cnt src (n + 1) = (n + 1 + of_nat ?k', p')"
      "pipe_inv p'" "pipe_queue p' = pipe_queue ?p @ map (\<lambda>i. src (n + 1 + of_nat i)) [0..<?k']"
      "readers p' = readers p" "writers p' = writers p" "used p' = used p" by auto
    have "pipe_write_loop p cnt src n = pipe_write_loop ?p cnt src (n + 1)"
      using True by (subst pipe_write_loop.simps) simp
    moreover have "map (\<lambda>i. src (n + of_nat i)) [0..<Suc ?k'] = src n # map (\<lambda>i. src (n + 1 + of_nat i)) [0..<?k']"
      by (simp add: upt_conv_Cons map_Suc_upt [symmetric] add.assoc comp_def del: upt_Suc)
    ultimately show ?thesis using p' unfolding k st(3) by (intro exI [of _ p']) simp
  qed
qed


lemma sint_small: "n \<le> 4096 \<Longrightarrow> sint (ucast (of_nat n :: u64) :: u32) = int n"
proof -
  assume n: "n \<le> 4096"
  have "(ucast (of_nat n :: u64) :: u32) = of_nat n"
    using n by (simp add: word_unat_eq_iff unsigned_ucast_eq unsigned_of_nat take_bit_nat_eq_self)
  then show ?thesis using n by (simp add: signed_of_nat signed_take_bit_int_eq_self)
qed

lemma pipe_read_result:
  assumes "pipe_inv p"
    and k_def: "k = min (unat cnt) (length (pipe_queue p))"
  shows "\<exists>dst' p'. pipe_read p cnt dst = (int k, dst', p') \<and> pipe_inv p' \<and>
     (\<forall>i. dst' i = (if unat i < k then pipe_queue p ! unat i else dst i)) \<and>
     pipe_queue p' = drop k (pipe_queue p) \<and> p' = p\<lparr>count := count p'\<rparr>"
proof -
  have "k \<le> 4096" using pipe_invD [OF assms(1)] by (simp add: k_def)
  with pipe_read_loop_spec [OF assms(1), of 0 cnt dst] show ?thesis
    by (auto simp: pipe_read_def k_def sint_small simp del: of_nat_min)
qed

lemma pipe_write_result:
  assumes "pipe_inv p"
    and k_def: "k = min (unat cnt) (4096 - length (pipe_queue p))"
  shows "\<exists>p'. pipe_write p cnt src = (int k, p') \<and> pipe_inv p' \<and>
     pipe_queue p' = pipe_queue p @ map (\<lambda>i. src (of_nat i)) [0..<k] \<and>
     readers p' = readers p \<and> writers p' = writers p \<and> used p' = used p"
proof -
  have "k \<le> 4096" by (simp add: k_def)
  with pipe_write_loop_spec [OF assms(1), of 0 cnt src] show ?thesis
    by (auto simp: pipe_write_def k_def sint_small simp del: of_nat_min)
qed

section \<open>The bounded queue a pipe promises\<close>

text \<open>One caller's script of reads and writes; a run records the bytes the queue accepted and the bytes it
  gave out.\<close>

datatype 'b fifo_op = Read u64 | Write u64 "u64 \<Rightarrow> 'b"

fun fifo_run ::
  "('s \<Rightarrow> u64 \<Rightarrow> (u64 \<Rightarrow> 'b) \<Rightarrow> int \<times> (u64 \<Rightarrow> 'b) \<times> 's) \<Rightarrow> ('s \<Rightarrow> u64 \<Rightarrow> (u64 \<Rightarrow> 'b) \<Rightarrow> int \<times> 's) \<Rightarrow>
    (u64 \<Rightarrow> 'b) \<Rightarrow> 's \<Rightarrow> 'b fifo_op list \<Rightarrow> 'b list \<times> 'b list \<times> 's" where
  "fifo_run rd wr dst s [] = ([], [], s)"
| "fifo_run rd wr dst s (Read n # ops) =
     (case rd s n dst of (k, dst', s') \<Rightarrow>
        case fifo_run rd wr dst s' ops of (ins, outs, s'') \<Rightarrow>
          (ins, map (\<lambda>i. dst' (of_nat i)) [0..<nat k] @ outs, s''))"
| "fifo_run rd wr dst s (Write n src # ops) =
     (case wr s n src of (k, s') \<Rightarrow>
        case fifo_run rd wr dst s' ops of (ins, outs, s'') \<Rightarrow>
          (map (\<lambda>i. src (of_nat i)) [0..<nat k] @ ins, outs, s''))"

locale bounded_fifo =
  fixes inv :: "'s \<Rightarrow> bool" and contents :: "'s \<Rightarrow> 'b list" and capacity :: nat
    and rd :: "'s \<Rightarrow> u64 \<Rightarrow> (u64 \<Rightarrow> 'b) \<Rightarrow> int \<times> (u64 \<Rightarrow> 'b) \<times> 's"
    and wr :: "'s \<Rightarrow> u64 \<Rightarrow> (u64 \<Rightarrow> 'b) \<Rightarrow> int \<times> 's"
  assumes bounded: "inv s \<Longrightarrow> length (contents s) \<le> capacity" "capacity < 2 ^ 64"
    and rd: "inv s \<Longrightarrow> \<exists>dst' s'. rd s n dst = (int (min (unat n) (length (contents s))), dst', s') \<and> inv s' \<and>
      (\<forall>i. unat i < min (unat n) (length (contents s)) \<longrightarrow> dst' i = contents s ! unat i) \<and>
      contents s' = drop (unat n) (contents s)"
    and wr: "inv s \<Longrightarrow> \<exists>s'. wr s n src = (int (min (unat n) (capacity - length (contents s))), s') \<and> inv s' \<and>
      contents s' = contents s @ map (\<lambda>i. src (of_nat i)) [0..<min (unat n) (capacity - length (contents s))]"
begin

lemma read_bytes:
  assumes "inv s" "rd s n dst = (k, dst', s')"
  shows "map (\<lambda>i. dst' (of_nat i)) [0..<nat k] = take (unat n) (contents s)"
    "contents s = take (unat n) (contents s) @ contents s'" "inv s'"
proof -
  have k: "nat k = min (unat n) (length (contents s))" and d: "unat i < nat k \<Longrightarrow> dst' i = contents s ! unat i"
    and s': "contents s' = drop (unat n) (contents s)" "inv s'" for i
    using rd [OF assms(1), of n dst] assms(2) by auto
  then show "inv s'" "contents s = take (unat n) (contents s) @ contents s'" by simp_all
  have "unat (of_nat i :: u64) = i" if "i < nat k" for i
    using that k bounded(1) [OF assms(1)] bounded(2) by (simp add: unat_of_nat)
  with d have "dst' (of_nat i) = contents s ! i" if "i < nat k" for i using that by metis
  then show "map (\<lambda>i. dst' (of_nat i)) [0..<nat k] = take (unat n) (contents s)"
    by (auto intro!: nth_equalityI simp: k)
qed

lemma run_fifo:
  "inv s \<Longrightarrow> fifo_run rd wr dst s ops = (ins, outs, s') \<Longrightarrow>
     inv s' \<and> contents s @ ins = outs @ contents s' \<and> length (contents s') \<le> capacity"
proof (induction ops arbitrary: s ins outs)
  case Nil
  then show ?case using bounded(1) by auto
next
  case (Cons op ops)
  show ?case
  proof (cases op)
    case (Read n)
    obtain k dst' t where r: "rd s n dst = (k, dst', t)" by (metis prod_cases3)
    obtain outs' where o: "fifo_run rd wr dst t ops = (ins, outs', s')"
      "outs = map (\<lambda>i. dst' (of_nat i)) [0..<nat k] @ outs'"
      using Cons.prems(2) r Read by (auto split: prod.splits)
    from read_bytes [OF Cons.prems(1) r] Cons.IH [OF _ o(1)] show ?thesis
      unfolding o(2) by (metis append.assoc)
  next
    case (Write n src)
    obtain k t where w: "wr s n src = (k, t)" by fastforce
    obtain ins' where o: "fifo_run rd wr dst t ops = (ins', outs, s')"
      "ins = map (\<lambda>i. src (of_nat i)) [0..<nat k] @ ins'"
      using Cons.prems(2) w Write by (auto split: prod.splits)
    have "inv t" "contents t = contents s @ map (\<lambda>i. src (of_nat i)) [0..<nat k]"
      using wr [OF Cons.prems(1), of n src] w by auto
    with Cons.IH [OF _ o(1)] show ?thesis unfolding o(2) by (metis append.assoc)
  qed
qed

end

interpretation pipe_fifo: bounded_fifo pipe_inv pipe_queue 4096 pipe_read pipe_write
proof (unfold_locales, goal_cases)
  case (1 s)
  then show ?case using pipe_invD by simp
next
  case (3 s n dst)
  then show ?case using pipe_read_result [OF 3 refl, of n dst]
    by (auto simp: min_def)
next
  case (4 s n src)
  then show ?case using pipe_write_result [OF 4 refl, of n src] by auto
qed simp

section \<open>Properties\<close>

text \<open>A pipe fresh from \<open>pipe_alloc\<close>, and a pipe whose next byte wraps around the buffer.\<close>

definition pipe_zero :: pipe_t where
  "pipe_zero = \<lparr>buf = replicate 4096 0, head = 0, count = 0, readers = 0, writers = 0, used = False\<rparr>"

definition pipe_wrap :: pipe_t where
  "pipe_wrap = \<lparr>buf = replicate 4096 7, head = 4095, count = 2, readers = 1, writers = 1, used = True\<rparr>"

lemma upt_two: "[0..<2] = [0, Suc 0]"
  by (simp add: upt_rec)

lemma pipe_demo_inv: "pipe_inv pipe_zero" "pipe_inv pipe_wrap" "pipe_queue pipe_zero = []" "pipe_queue pipe_wrap = [7, 7]"
  by (simp_all add: pipe_inv_def pipe_zero_def pipe_wrap_def PIPE_BUF_SIZE_def pipe_queue_def pipe_pos_def upt_two)

text \<open>
  \<open>pipe_read\<close> returns the number of bytes it moved, the smaller of the request and the bytes in
  the pipe; the caller's buffer holds exactly the oldest bytes in order and is untouched behind them; the
  pipe keeps the rest, and nothing but its \<open>count\<close> changes.
\<close>

theorem pipe_read_spec:
  assumes "pipe_inv p" "pipe_read p cnt dst = (n, dst', p')"
  shows "n = int (min (unat cnt) (length (pipe_queue p))) \<and> pipe_inv p' \<and>
     (\<forall>i. dst' i = (if unat i < nat n then pipe_queue p ! unat i else dst i)) \<and>
     pipe_queue p' = drop (nat n) (pipe_queue p) \<and> p' = p\<lparr>count := count p'\<rparr>"
  using pipe_read_result [OF assms(1) refl, of cnt dst] assms(2) by auto

lemma pipe_read_spec_witness:
  "\<exists>dst' p'. pipe_read pipe_wrap 1 (\<lambda>_. 0) = (1, dst', p') \<and> dst' 0 = 7 \<and> dst' 1 = 0 \<and> pipe_queue p' = [7]"
proof -
  obtain n dst' p' where r: "pipe_read pipe_wrap 1 (\<lambda>_. 0) = (n, dst', p')" by (metis prod_cases3)
  from pipe_read_spec [OF pipe_demo_inv(2) r] show ?thesis using r by (simp add: pipe_demo_inv)
qed

text \<open>
  \<open>pipe_write\<close> appends the first bytes of the caller's buffer to the pipe, as many as fit in 4096
  bytes, and returns their number; the reference counts do not change.
\<close>

theorem pipe_write_spec:
  assumes "pipe_inv p" "pipe_write p cnt src = (n, p')"
  shows "n = int (min (unat cnt) (4096 - length (pipe_queue p))) \<and> pipe_inv p' \<and>
     pipe_queue p' = pipe_queue p @ map (\<lambda>i. src (of_nat i)) [0..<nat n] \<and>
     readers p' = readers p \<and> writers p' = writers p \<and> used p' = used p"
  using pipe_write_result [OF assms(1) refl, of cnt src] assms(2) by auto

lemma pipe_write_spec_witness:
  "\<exists>p'. pipe_write pipe_wrap 2 (\<lambda>i. ucast i + 1) = (2, p') \<and> pipe_queue p' = [7, 7, 1, 2]"
proof -
  obtain n p' where r: "pipe_write pipe_wrap 2 (\<lambda>i. ucast i + 1) = (n, p')" by fastforce
  from pipe_write_spec [OF pipe_demo_inv(2) r] show ?thesis
    using r by (simp add: pipe_demo_inv upt_two)
qed

text \<open>
  C5: a pipe is a first-in first-out queue: after any sequence of reads and writes, the bytes that were
  in it followed by the bytes it accepted are the bytes it gave out followed by the bytes still in it, and
  it never holds more than 4096 bytes.
\<close>

theorem pipe_run_fifo:
  assumes "pipe_inv p" "fifo_run pipe_read pipe_write dst p ops = (ins, outs, p')"
  shows "pipe_inv p' \<and> pipe_queue p @ ins = outs @ pipe_queue p' \<and> length (pipe_queue p') \<le> 4096"
  using assms by (rule pipe_fifo.run_fifo)

lemma pipe_run_fifo_witness:
  "\<exists>ins outs p'. fifo_run pipe_read pipe_write (\<lambda>_. 0) pipe_wrap [Write 2 (\<lambda>i. ucast i), Read 3] = (ins, outs, p') \<and>
     [7, 7] @ ins = outs @ pipe_queue p'"
proof -
  obtain ins outs p' where
    r: "fifo_run pipe_read pipe_write (\<lambda>_. 0) pipe_wrap [Write 2 (\<lambda>i. ucast i), Read 3] = (ins, outs, p')"
    by (metis prod_cases3)
  from pipe_run_fifo [OF pipe_demo_inv(2) r] show ?thesis using r by (simp add: pipe_demo_inv)
qed

lemma pipe_alloc_scan_cases:
  "pipe_alloc_scan i ps = (r, ps') \<Longrightarrow> length ps' = length ps \<and>
     (case r of None \<Rightarrow> ps' = ps \<and> (\<forall>p\<in>set ps. used p)
      | Some j \<Rightarrow> i \<le> j \<and> j - i < length ps \<and> (\<forall>k < j - i. used (ps ! k)) \<and> \<not> used (ps ! (j - i)) \<and>
          ps' = ps[j - i := pipe_reset (ps ! (j - i))])"
proof (induction ps arbitrary: i r ps')
  case (Cons p ps)
  show ?case
  proof (cases "used p")
    case True
    then obtain qs where q: "pipe_alloc_scan (Suc i) ps = (r, qs)" "ps' = p # qs"
      using Cons.prems by (auto split: prod.splits)
    show ?thesis
    proof (cases r)
      case (Some j)
      with Cons.IH [OF q(1)] obtain m where "j = Suc (i + m)" by (auto simp: le_iff_add)
      then show ?thesis using Cons.IH [OF q(1)] True Some q(2)
        by (auto simp: less_Suc_eq_0_disj)
    qed (use Cons.IH [OF q(1)] True q(2) in auto)
  qed (use Cons.prems in auto)
qed simp

text \<open>
  \<open>pipe_alloc\<close> returns the first pipe that is not in use, empties it and gives it one reader and
  one writer, and leaves every other pipe alone; it fails, without a change, only when all are in use.
\<close>

theorem pipe_alloc_spec:
  "case pipe_alloc ps of
     (None, ps') \<Rightarrow> ps' = ps \<and> (\<forall>p\<in>set ps. used p)
   | (Some i, ps') \<Rightarrow> i < length ps \<and> \<not> used (ps ! i) \<and> (\<forall>k<i. used (ps ! k)) \<and>
       ps' = ps[i := pipe_reset (ps ! i)] \<and> pipe_queue (ps' ! i) = [] \<and> used (ps' ! i) \<and>
       readers (ps' ! i) = 1 \<and> writers (ps' ! i) = 1"
  using pipe_alloc_scan_cases [of 0 ps]
  by (auto simp: pipe_alloc_def pipe_reset_def pipe_queue_def split: prod.splits option.splits)

lemma pipe_alloc_spec_witness:
  "case pipe_alloc [pipe_wrap, pipe_zero] of
     (None, ps') \<Rightarrow> False
   | (Some i, ps') \<Rightarrow> i = 1 \<and> pipe_queue (ps' ! 1) = []"
  using pipe_alloc_spec [of "[pipe_wrap, pipe_zero]"]
  by (simp add: pipe_alloc_def pipe_wrap_def pipe_zero_def)

end
