(* ===== verification/Syscall.thy ===== *)
theory Syscall
  imports Elf Sched Pipe
begin

text \<open>
  The system calls of \<^verbatim>\<open>kernel/syscall.c\<close>. The kernel state joins the scheduler, the file systems and the
  pipes; the heap, and in it physical memory, is the one of the scheduler state and is handed to the
  file systems for each call. User memory is read and written through the page table in CR3; an access to an
  address that is not mapped is a page fault, which is the result \<open>None\<close>, as is a loop that never ends.
  What runs outside of the calling task is an argument: \<open>others\<close> is what the other tasks do to the kernel
  state until this task runs again, \<open>getc\<close> is \<open>keyboard_getc\<close>. Bytes written to the terminal and the
  serial line are appended to \<open>console\<close>; the messages of the kernel itself are left out.
\<close>

section \<open>State\<close>

datatype power = Running | ShutDown | Reset

record 'd kernel =
  ks :: sched
  kfs :: "'d vfs"
  g_pipes :: "pipe_t list"
  console :: "u8 list"
  g_elf_ret_rip :: u64
  power :: power

record regs =
  r_rax :: u64
  r_rdi :: u64
  r_rsi :: u64
  r_rdx :: u64
  r_rip :: u64
  r_rsp :: u64
  r_cs :: u64

record 'd env =
  others :: "'d kernel \<Rightarrow> 'd kernel"
  getc :: "'d kernel \<Rightarrow> int \<times> 'd kernel"
  drivers_of :: "'d drivers"

abbreviation kmach :: "'d kernel \<Rightarrow> machine" where "kmach k \<equiv> mach (kheap (ks k))"

abbreviation cur_task :: "'d kernel \<Rightarrow> task_struct" where "cur_task k \<equiv> tasks (ks k) (g_current (ks k))"

definition set_kheap :: "heap \<Rightarrow> 'd kernel \<Rightarrow> 'd kernel" where
  "set_kheap h k = k\<lparr>ks := (ks k)\<lparr>kheap := h\<rparr>\<rparr>"

definition set_kmach :: "machine \<Rightarrow> 'd kernel \<Rightarrow> 'd kernel" where
  "set_kmach M k = set_kheap ((kheap (ks k))\<lparr>mach := M\<rparr>) k"

definition upd_cur :: "(task_struct \<Rightarrow> task_struct) \<Rightarrow> 'd kernel \<Rightarrow> 'd kernel" where
  "upd_cur f k = k\<lparr>ks := upd_task (ks k) (g_current (ks k)) f\<rparr>"

text \<open>A call of the file system on the heap of the kernel.\<close>

definition fs_call :: "('d vfs \<Rightarrow> ('r \<times> 'd vfs) option) \<Rightarrow> 'd kernel \<Rightarrow> ('r \<times> 'd kernel) option" where
  "fs_call f k =
     map_option (\<lambda>(r, s). (r, set_kheap (vheap s) (k\<lparr>kfs := s\<rparr>))) (f ((kfs k)\<lparr>vheap := kheap (ks k)\<rparr>))"

section \<open>User memory\<close>

definition uload :: "'d kernel \<Rightarrow> u64 \<Rightarrow> u8 option" where
  "uload k v =
     (let p = paging_get_phys_on (kmach k) (cpu_cr3 (ks k) AND PAGE_ADDR_MASK) v
      in if p = 0 then None else Some (ram (kmach k) p))"

definition ustore :: "'d kernel \<Rightarrow> u64 \<Rightarrow> u8 \<Rightarrow> 'd kernel option" where
  "ustore k v b =
     (let M = kmach k; p = paging_get_phys_on M (cpu_cr3 (ks k) AND PAGE_ADDR_MASK) v
      in if p = 0 then None else Some (set_kmach (M\<lparr>ram := (ram M)(p := b)\<rparr>) k))"

fun uloads :: "'d kernel \<Rightarrow> u64 \<Rightarrow> nat \<Rightarrow> u8 list option" where
  "uloads k v 0 = Some []"
| "uloads k v (Suc n) = do { b \<leftarrow> uload k v; bs \<leftarrow> uloads k (v + 1) n; Some (b # bs) }"

fun ustores :: "'d kernel \<Rightarrow> u64 \<Rightarrow> u8 list \<Rightarrow> 'd kernel option" where
  "ustores k v [] = Some k"
| "ustores k v (b # bs) = do { k1 \<leftarrow> ustore k v b; ustores k1 (v + 1) bs }"

fun pages_mapped :: "machine \<Rightarrow> u64 \<Rightarrow> nat \<Rightarrow> bool" where
  "pages_mapped M page 0 = True"
| "pages_mapped M page (Suc n) = (paging_get_phys M page \<noteq> 0 \<and> pages_mapped M (page + 0x1000) n)"

definition validate_user_ptr :: "'d kernel \<Rightarrow> u64 \<Rightarrow> u64 \<Rightarrow> bool" where
  "validate_user_ptr k addr sz =
     (if addr < 0x1000 then False
      else if addr + sz < addr then False
      else if addr + sz > 0x7FFFFFFFFF then False
      else
        let first = addr AND NOT 0xFFF; end = (addr + sz + 0xFFF) AND NOT 0xFFF
        in pages_mapped (kmach k) first (page_rounds first end))"

text \<open>The loop of \<open>copy_from_user\<close>: at most \<open>n\<close> bytes, up to a zero.\<close>

fun copy_string :: "'d kernel \<Rightarrow> u64 \<Rightarrow> nat \<Rightarrow> cstring option" where
  "copy_string k v 0 = Some []"
| "copy_string k v (Suc n) = do {
     c \<leftarrow> uload k v;
     if c = 0 then Some [] else map_option (Cons c) (copy_string k (v + 1) n)
   }"

text \<open>The inner option is the error result -1.\<close>

definition copy_from_user :: "'d kernel \<Rightarrow> u64 \<Rightarrow> nat \<Rightarrow> cstring option option" where
  "copy_from_user k user_ptr mx =
     (if user_ptr = NULL \<or> mx = 0 then Some None
      else if \<not> validate_user_ptr k user_ptr 1 then Some None
      else map_option Some (copy_string k user_ptr (mx - 1)))"

definition copy_data_from_user :: "'d kernel \<Rightarrow> u64 \<Rightarrow> u64 \<Rightarrow> u8 list option option" where
  "copy_data_from_user k usrc sz =
     (if \<not> validate_user_ptr k usrc sz then Some None else map_option Some (uloads k usrc (unat sz)))"

definition copy_data_to_user :: "'d kernel \<Rightarrow> u64 \<Rightarrow> u8 list \<Rightarrow> (int \<times> 'd kernel) option" where
  "copy_data_to_user k udst ksrc =
     (if \<not> validate_user_ptr k udst (of_nat (length ksrc)) then Some (-1, k)
      else map_option (Pair 0) (ustores k udst ksrc))"

definition resolve_user_path :: "'d kernel \<Rightarrow> u64 \<Rightarrow> nat \<Rightarrow> cstring option option" where
  "resolve_user_path k user_path mx =
     (if user_path = NULL \<or> \<not> validate_user_ptr k user_path 1 then Some None
      else map_option (map_option (\<lambda>p.
        if p \<noteq> [] \<and> hd p = SLASH then take (mx - 1) p else SLASH # take (mx - 2) p)) (copy_from_user k user_path 256))"

section \<open>Directory listings\<close>

fun readdir_append :: "u64 \<Rightarrow> u8 list \<Rightarrow> u8 list \<Rightarrow> u8 list" where
  "readdir_append cap out [] = out"
| "readdir_append cap out (c # cs) =
     (if of_nat (length out) + 1 < cap then readdir_append cap (out @ [c]) cs else out)"

text \<open>The decimal digits in front of \<open>num\<close>; \<open>i\<close> is the space left.\<close>

fun dec_digits :: "nat \<Rightarrow> u32 \<Rightarrow> u8 list \<Rightarrow> u8 list" where
  "dec_digits 0 sz num = num"
| "dec_digits (Suc i) sz num = (if sz = 0 then num else dec_digits i (sz div 10) ((0x30 + ucast (sz mod 10)) # num))"

definition readdir_cb :: "u64 \<Rightarrow> u8 list \<Rightarrow> cstring \<times> u32 \<times> u8 \<Rightarrow> u8 list" where
  "readdir_cb cap out e =
     (case e of (name, sz, flags) \<Rightarrow>
        let o1 = readdir_append cap out name;
            o2 = (if flags AND VFS_DIR \<noteq> 0 then readdir_append cap o1 [SLASH]
              else readdir_append cap (readdir_append cap (readdir_append cap o1 [0x20, 0x20])
                (if sz = 0 then [0x30] else dec_digits 10 sz [])) [0x20, 0x62, 0x79, 0x74, 0x65, 0x73])
        in readdir_append cap o2 [0x0A])"

section \<open>The calls\<close>

type_synonym 'd result = "(regs \<times> 'd kernel) option"

definition ret :: "regs \<Rightarrow> int \<Rightarrow> 'd kernel \<Rightarrow> 'd result" where
  "ret r v k = Some (r\<lparr>r_rax := of_int v\<rparr>, k)"

abbreviation arg_int :: "u64 \<Rightarrow> int" where "arg_int w \<equiv> sint (ucast w :: u32)"

definition close_obj :: "fobj \<Rightarrow> 'd kernel \<Rightarrow> 'd kernel" where
  "close_obj f k = set_kheap (vfs_close (kheap (ks k)) f) k"

definition sys_exit :: "regs \<Rightarrow> 'd kernel \<Rightarrow> 'd result" where
  "sys_exit r k =
     (let k1 = (if task_current (ks k) = NULL then k
            else let (h, t) = task_fd_close_all (kheap (ks k)) (cur_task k)
              in upd_cur (\<lambda>_. t\<lparr>exit_code := arg_int (r_rdi r), tstate := TASK_TERMINATED\<rparr>) (set_kheap h k))
      in if g_elf_ret_rip k1 \<noteq> 0 then Some (r\<lparr>r_cs := 0x08\<rparr>, k1)
         else Some (r, k1\<lparr>ks := (ks k1)\<lparr>halted := True\<rparr>\<rparr>))"

text \<open>\<open>while (p->count == PIPE_BUF_SIZE && p->readers > 0) task_yield();\<close>\<close>

partial_function (option) wait_writable :: "'d env \<Rightarrow> 'd kernel \<Rightarrow> nat \<Rightarrow> 'd kernel option" where
  "wait_writable env k p =
     (if count (g_pipes k ! p) = PIPE_BUF_SIZE \<and> readers (g_pipes k ! p) > 0
      then do { s \<leftarrow> task_yield (ks k); wait_writable env (others env (k\<lparr>ks := s\<rparr>)) p }
      else Some k)"

partial_function (option) wait_readable :: "'d env \<Rightarrow> 'd kernel \<Rightarrow> nat \<Rightarrow> 'd kernel option" where
  "wait_readable env k p =
     (if count (g_pipes k ! p) = 0 \<and> writers (g_pipes k ! p) > 0
      then do { s \<leftarrow> task_yield (ks k); wait_readable env (others env (k\<lparr>ks := s\<rparr>)) p }
      else Some k)"

text \<open>\<open>pipe_write\<close> and \<open>pipe_read\<close> with a buffer in user memory.\<close>

definition pipe_write_user :: "regs \<Rightarrow> 'd kernel \<Rightarrow> nat \<Rightarrow> 'd result" where
  "pipe_write_user r k p = do {
     let src = (\<lambda>i. case uload k (r_rsi r + i) of Some b \<Rightarrow> b | None \<Rightarrow> 0);
     let (n, p1) = pipe_write (g_pipes k ! p) (r_rdx r) src;
     _ \<leftarrow> uloads k (r_rsi r) (nat n);
     ret r n (k\<lparr>g_pipes := (g_pipes k)[p := p1]\<rparr>)
   }"

definition pipe_read_user :: "regs \<Rightarrow> 'd kernel \<Rightarrow> nat \<Rightarrow> 'd result" where
  "pipe_read_user r k p = do {
     let (n, dst, p1) = pipe_read (g_pipes k ! p) (r_rdx r) (\<lambda>_. 0);
     k1 \<leftarrow> ustores (k\<lparr>g_pipes := (g_pipes k)[p := p1]\<rparr>) (r_rsi r) (map (\<lambda>i. dst (of_nat i)) [0..<nat n]);
     ret r n k1
   }"

definition sys_write :: "'d env \<Rightarrow> regs \<Rightarrow> 'd kernel \<Rightarrow> 'd result" where
  "sys_write env r k =
     (let n = arg_int (r_rdi r) in
      if n = 1 \<or> n = 2
      then
        if \<not> validate_user_ptr k (r_rsi r) (r_rdx r) then ret r (-1) k
        else do { bs \<leftarrow> uloads k (r_rsi r) (unat (r_rdx r)); Some (r\<lparr>r_rax := r_rdx r\<rparr>, k\<lparr>console := console k @ bs\<rparr>) }
      else if task_current (ks k) = NULL then ret r (-1) k
      else case task_fd_get (cur_task k) n of
        FNull \<Rightarrow> ret r (-1) k
      | FPipe p \<Rightarrow>
          if ftype (fd (cur_task k) ! nat n) = FD_TYPE_PIPE_W
          then
            if \<not> validate_user_ptr k (r_rsi r) (r_rdx r) then ret r (-1) k
            else do {
              k1 \<leftarrow> wait_writable env k p;
              if readers (g_pipes k1 ! p) = 0 then ret r (-1) k1 else pipe_write_user r k1 p
            }
          else ret r (-1) k
      | FFile f \<Rightarrow>
          if ftype (fd (cur_task k) ! nat n) = FD_TYPE_FILE
          then
            if \<not> validate_user_ptr k (r_rsi r) (r_rdx r) then ret r (-1) k
            else do {
              bs \<leftarrow> uloads k (r_rsi r) (unat (r_rdx r));
              (m, k1) \<leftarrow> fs_call (\<lambda>s. vfs_write (drivers_of env) s f bs) k;
              ret r (if m < 0 then -1 else m) k1
            }
          else ret r (-1) k)"

text \<open>The common part of \<open>open\<close> and \<open>create\<close>.\<close>

definition sys_open_with :: "('d drivers \<Rightarrow> 'd vfs \<Rightarrow> cstring \<Rightarrow> (u64 \<times> 'd vfs) option) \<Rightarrow> 'd env \<Rightarrow> regs \<Rightarrow> 'd kernel \<Rightarrow> 'd result" where
  "sys_open_with opn env r k = do {
     p \<leftarrow> resolve_user_path k (r_rdi r) 256;
     case p of
       None \<Rightarrow> ret r (-1) k
     | Some pth \<Rightarrow> do {
         (f, k1) \<leftarrow> fs_call (\<lambda>s. opn (drivers_of env) s pth) k;
         if f = NULL then ret r (-1) k1
         else if task_current (ks k1) = NULL then ret r (-1) (close_obj (FFile f) k1)
         else let (n, t) = task_fd_alloc (cur_task k1) (FFile f) FD_TYPE_FILE; k2 = upd_cur (\<lambda>_. t) k1
           in ret r n (if n < 0 then close_obj (FFile f) k2 else k2)
       }
   }"

definition sys_open :: "'d env \<Rightarrow> regs \<Rightarrow> 'd kernel \<Rightarrow> 'd result" where "sys_open = sys_open_with vfs_open"
definition sys_create :: "'d env \<Rightarrow> regs \<Rightarrow> 'd kernel \<Rightarrow> 'd result" where "sys_create = sys_open_with vfs_create"

text \<open>The loop that reads the keyboard; \<open>n\<close> bytes are read so far.\<close>

partial_function (option) read_stdin :: "'d env \<Rightarrow> regs \<Rightarrow> u64 \<Rightarrow> 'd kernel \<Rightarrow> 'd result" where
  "read_stdin env r n k =
     (if n < r_rdx r
      then
        let c = fst (getc env k); k1 = snd (getc env k)
        in if c = 0 \<or> c > 255 then read_stdin env r n k1
           else do {
             k2 \<leftarrow> ustore k1 (r_rsi r + n) (of_int c);
             if c = 10 then Some (r\<lparr>r_rax := n + 1\<rparr>, k2) else read_stdin env r (n + 1) k2
           }
      else Some (r\<lparr>r_rax := n\<rparr>, k))"

definition sys_read :: "'d env \<Rightarrow> regs \<Rightarrow> 'd kernel \<Rightarrow> 'd result" where
  "sys_read env r k =
     (let n = arg_int (r_rdi r) in
      if n = 0
      then if \<not> validate_user_ptr k (r_rsi r) (r_rdx r) then ret r (-1) k else read_stdin env r 0 k
      else if task_current (ks k) = NULL then ret r (-1) k
      else case task_fd_get (cur_task k) n of
        FNull \<Rightarrow> ret r (-1) k
      | FPipe p \<Rightarrow>
          if ftype (fd (cur_task k) ! nat n) = FD_TYPE_PIPE_R
          then
            if \<not> validate_user_ptr k (r_rsi r) (r_rdx r) then ret r (-1) k
            else do {
              k1 \<leftarrow> wait_readable env k p;
              if count (g_pipes k1 ! p) = 0 then ret r 0 k1 else pipe_read_user r k1 p
            }
          else ret r (-1) k
      | FFile f \<Rightarrow>
          if ftype (fd (cur_task k) ! nat n) = FD_TYPE_FILE
          then
            if \<not> validate_user_ptr k (r_rsi r) (r_rdx r) then ret r (-1) k
            else do {
              ((m, bs), k1) \<leftarrow> fs_call (\<lambda>s. map_option (\<lambda>(m, bs, s1). ((m, bs), s1)) (vfs_read (drivers_of env) s f (r_rdx r))) k;
              k2 \<leftarrow> ustores k1 (r_rsi r) bs;
              ret r (if m < 0 then -1 else m) k2
            }
          else ret r (-1) k)"

text \<open>Dropping one end of a pipe.\<close>

definition pipe_drop :: "int \<Rightarrow> pipe_t \<Rightarrow> pipe_t" where
  "pipe_drop ty p =
     (let p1 = (if ty = FD_TYPE_PIPE_R then p\<lparr>readers := readers p - 1\<rparr> else p\<lparr>writers := writers p - 1\<rparr>)
      in if readers p1 = 0 \<and> writers p1 = 0 then p1\<lparr>used := False\<rparr> else p1)"

definition sys_close :: "regs \<Rightarrow> 'd kernel \<Rightarrow> 'd result" where
  "sys_close r k =
     (let n = arg_int (r_rdi r) in
      if task_current (ks k) = NULL then ret r (-1) k
      else if n < 0 \<or> n \<ge> int TASK_MAX_FD \<or> \<not> fused (fd (cur_task k) ! nat n) then ret r (-1) k
      else
        let e = fd (cur_task k) ! nat n;
            k1 = (if ftype e = FD_TYPE_PIPE_R \<or> ftype e = FD_TYPE_PIPE_W
              then case fptr e of FPipe p \<Rightarrow> k\<lparr>g_pipes := (g_pipes k)[p := pipe_drop (ftype e) (g_pipes k ! p)]\<rparr> | _ \<Rightarrow> k
              else if ftype e = FD_TYPE_FILE then close_obj (fptr e) k else k)
        in ret r 0 (upd_cur (\<lambda>t. task_fd_free t n) k1))"

definition sys_readdir :: "'d env \<Rightarrow> regs \<Rightarrow> 'd kernel \<Rightarrow> 'd result" where
  "sys_readdir env r k = do {
     p \<leftarrow> resolve_user_path k (r_rdi r) 256;
     case p of
       None \<Rightarrow> ret r (-1) k
     | Some pth \<Rightarrow>
         if \<not> validate_user_ptr k (r_rsi r) (r_rdx r) then ret r (-1) k
         else do {
           let cap = r_rdx r;
           (entries, k1) \<leftarrow> fs_call (\<lambda>s. vfs_readdir (drivers_of env) s pth) k;
           case entries of
             None \<Rightarrow> do { k2 \<leftarrow> ustore k1 (r_rsi r) 0; ret r (-1) k2 }
           | Some es \<Rightarrow> do {
               let out = foldl (readdir_cb cap) [] es;
               let n = of_nat (length out);
               k2 \<leftarrow> ustores k1 (r_rsi r) out;
               k3 \<leftarrow> ustore k2 (r_rsi r + (if n < cap then n else cap - 1)) 0;
               Some (r\<lparr>r_rax := n\<rparr>, k3)
             }
         }
   }"

definition sys_exec :: "'d env \<Rightarrow> regs \<Rightarrow> 'd kernel \<Rightarrow> 'd result" where
  "sys_exec env r k = do {
     p \<leftarrow> resolve_user_path k (r_rdi r) 256;
     case p of
       None \<Rightarrow> ret r (-1) k
     | Some pth \<Rightarrow> do {
         (res, k1) \<leftarrow> fs_call (\<lambda>s. elf_load (drivers_of env) s pth) k;
         case res of
           None \<Rightarrow> ret r (-1) k1
         | Some (ent, stack_top, pml4) \<Rightarrow>
             let k2 = (if task_current (ks k1) = NULL then k1
                   else let (h, t) = task_fd_close_all (kheap (ks k1)) (cur_task k1) in upd_cur (\<lambda>_. t) (set_kheap h k1))
             in Some (r\<lparr>r_rip := ent, r_rsp := stack_top, r_rax := 0\<rparr>, k2\<lparr>ks := (ks k2)\<lparr>cpu_cr3 := pml4\<rparr>\<rparr>)
       }
   }"

definition sys_unlink :: "'d env \<Rightarrow> regs \<Rightarrow> 'd kernel \<Rightarrow> 'd result" where
  "sys_unlink env r k = do {
     p \<leftarrow> resolve_user_path k (r_rdi r) 256;
     case p of
       None \<Rightarrow> ret r (-1) k
     | Some pth \<Rightarrow> do {
         (m, k1) \<leftarrow> fs_call (\<lambda>s. vfs_unlink (drivers_of env) s pth) k;
         ret r (if m < 0 then -1 else 0) k1
       }
   }"

definition sys_stat :: "'d env \<Rightarrow> regs \<Rightarrow> 'd kernel \<Rightarrow> 'd result" where
  "sys_stat env r k = do {
     p \<leftarrow> resolve_user_path k (r_rdi r) 256;
     case p of
       None \<Rightarrow> ret r (-1) k
     | Some pth \<Rightarrow>
         if r_rsi r \<noteq> 0 \<and> \<not> validate_user_ptr k (r_rsi r) 4 then ret r (-1) k
         else if r_rdx r \<noteq> 0 \<and> \<not> validate_user_ptr k (r_rdx r) 1 then ret r (-1) k
         else do {
           (res, k1) \<leftarrow> fs_call (\<lambda>s. vfs_stat (drivers_of env) s pth) k;
           case res of
             None \<Rightarrow> ret r (-1) k1
           | Some (sz, flags) \<Rightarrow> do {
               k2 \<leftarrow> (if r_rsi r \<noteq> 0 then ustores k1 (r_rsi r) (le_bytes 4 sz) else Some k1);
               k3 \<leftarrow> (if r_rdx r \<noteq> 0 then ustore k2 (r_rdx r) flags else Some k2);
               Some (r\<lparr>r_rax := ucast sz\<rparr>, k3)
             }
         }
   }"

definition sys_pipe :: "regs \<Rightarrow> 'd kernel \<Rightarrow> 'd result" where
  "sys_pipe r k =
     (if \<not> validate_user_ptr k (r_rdi r) 8 then ret r (-1) k
      else case pipe_alloc (g_pipes k) of
        (None, ps) \<Rightarrow> ret r (-1) (k\<lparr>g_pipes := ps\<rparr>)
      | (Some p, ps) \<Rightarrow>
          if task_current (ks k) = NULL then ret r (-1) (k\<lparr>g_pipes := ps[p := (ps ! p)\<lparr>used := False\<rparr>]\<rparr>)
          else
            let (rfd, t1) = task_fd_alloc (cur_task k) (FPipe p) FD_TYPE_PIPE_R;
                (wfd, t2) = task_fd_alloc t1 (FPipe p) FD_TYPE_PIPE_W
            in if rfd < 0 \<or> wfd < 0
               then
                 let t3 = (if rfd \<ge> 0 then task_fd_free t2 rfd else t2); t4 = (if wfd \<ge> 0 then task_fd_free t3 wfd else t3)
                 in ret r (-1) (upd_cur (\<lambda>_. t4) (k\<lparr>g_pipes := ps[p := (ps ! p)\<lparr>used := False\<rparr>]\<rparr>))
               else do {
                 k1 \<leftarrow> ustores (upd_cur (\<lambda>_. t2) (k\<lparr>g_pipes := ps\<rparr>)) (r_rdi r) (le_bytes 4 (of_int rfd :: u32) @ le_bytes 4 (of_int wfd :: u32));
                 ret r 0 k1
               })"

text \<open>The loops of \<open>fork\<close>: copying the stack by quadwords, and giving the child its own \<open>file_t\<close> objects.\<close>

fun copy_stack :: "mem \<Rightarrow> u64 \<Rightarrow> u64 \<Rightarrow> nat \<Rightarrow> mem" where
  "copy_stack m dst src 0 = m"
| "copy_stack m dst src (Suc n) = copy_stack (store64 m dst (load64 m src)) (dst + 8) (src + 8) n"

fun fork_fds :: "fd_entry list \<Rightarrow> nat \<Rightarrow> nat \<Rightarrow> heap \<Rightarrow> (u64 \<Rightarrow> file_t) \<Rightarrow> fd_entry list \<Rightarrow> (heap \<times> (u64 \<Rightarrow> file_t) \<times> fd_entry list) option" where
  "fork_fds pfd i 0 h fl cfd = Some (h, fl, cfd)"
| "fork_fds pfd i (Suc n) h fl cfd =
     (case fptr (pfd ! i) of
        FFile f \<Rightarrow>
          if fused (pfd ! i) \<and> ftype (pfd ! i) = FD_TYPE_FILE
          then do {
            (new_f, h1) \<leftarrow> kmalloc h 16;
            if new_f \<noteq> NULL
            then fork_fds pfd (Suc i) n h1 (fl(new_f := fl f)) (cfd[i := (cfd ! i)\<lparr>fptr := FFile new_f\<rparr>])
            else fork_fds pfd (Suc i) n h1 fl (cfd[i := (cfd ! i)\<lparr>fused := False\<rparr>])
          }
          else fork_fds pfd (Suc i) n h fl cfd
      | _ \<Rightarrow> fork_fds pfd (Suc i) n h fl cfd)"

definition sys_fork :: "regs \<Rightarrow> 'd kernel \<Rightarrow> 'd result" where
  "sys_fork r k =
     (if task_current (ks k) = NULL then ret r (-1) k
      else
        let (child_pml4, M1) = paging_clone_current (kmach k); k1 = set_kmach M1 k
        in if child_pml4 = 0 then ret r (-1) k1
        else
          let (child, fr2) = pmm_alloc (frames M1); k2 = set_kmach (M1\<lparr>frames := fr2\<rparr>) k1
          in if child = NULL then ret r (-1) k2
          else
            let (child_stack, fr3) = pmm_alloc fr2
            in if child_stack = NULL then ret r (-1) (set_kmach (M1\<lparr>frames := pmm_free fr3 child\<rparr>) k2)
            else do {
              let c = cur_task k;
              let M3 = M1\<lparr>frames := fr3, ram := copy_stack (ram M1) child_stack (kernel_stack_base c) (unat (TASK_STACK_SIZE div 8))\<rparr>;
              let k3 = set_kmach M3 k2;
              (h, fl, cfd) \<leftarrow> fork_fds (fd c) 0 TASK_MAX_FD (kheap (ks k3)) (files (kfs k3)) (fd c);
              let ch = c\<lparr>rsp := child_stack + (rsp c - kernel_stack_base c), kernel_stack_base := child_stack,
                    cr3 := child_pml4, ppid := pid c, pid := 0, fd := cfd\<rparr>;
              let k4 = set_kheap h (k3\<lparr>kfs := (kfs k3)\<lparr>files := fl\<rparr>\<rparr>);
              let T = (tasks (ks k4))(child := ch\<lparr>tnext := tnext c\<rparr>);
              ret r 0 (k4\<lparr>ks := (ks k4)\<lparr>tasks := T(g_current (ks k4) := (T (g_current (ks k4)))\<lparr>tnext := child\<rparr>)\<rparr>\<rparr>)
            })"

text \<open>The search of \<open>wait\<close>: the address of a terminated child, or the current task.\<close>

partial_function (option) find_zombie :: "tasks \<Rightarrow> u64 \<Rightarrow> u64 \<Rightarrow> u64 option" where
  "find_zombie T cur scan =
     (if scan = cur then Some cur
      else if ppid (T scan) = pid (T cur) \<and> tstate (T scan) = TASK_TERMINATED then Some scan
      else find_zombie T cur (tnext (T scan)))"

definition sys_wait :: "regs \<Rightarrow> 'd kernel \<Rightarrow> 'd result" where
  "sys_wait r k =
     (if task_current (ks k) = NULL then ret r (-1) k
      else do {
        scan \<leftarrow> find_zombie (tasks (ks k)) (g_current (ks k)) (tnext (cur_task k));
        if scan = g_current (ks k) then ret r (-1) k
        else do {
          s \<leftarrow> task_destroy (ks k) scan;
          ret r (exit_code (tasks (ks k) scan)) (k\<lparr>ks := s\<rparr>)
        }
      })"

definition sys_getpid :: "regs \<Rightarrow> 'd kernel \<Rightarrow> 'd result" where
  "sys_getpid r k = Some (r\<lparr>r_rax := (if task_current (ks k) = NULL then 0 else ucast (pid (cur_task k)))\<rparr>, k)"

definition sys_getppid :: "regs \<Rightarrow> 'd kernel \<Rightarrow> 'd result" where
  "sys_getppid r k = Some (r\<lparr>r_rax := (if task_current (ks k) = NULL then 0 else ucast (ppid (cur_task k)))\<rparr>, k)"

definition sys_kill :: "regs \<Rightarrow> 'd kernel \<Rightarrow> 'd result" where
  "sys_kill r k = do {
     let sig = arg_int (r_rsi r);
     target \<leftarrow> task_find (ks k) (ucast (r_rdi r));
     if target = NULL then ret r (-1) k
     else ret r 0 (k\<lparr>ks :=
       (if sig = 9 then upd_task (ks k) target (\<lambda>t. t\<lparr>tstate := TASK_TERMINATED, exit_code := -9\<rparr>)
        else if 0 \<le> sig \<and> sig < int TASK_MAX_SIGNALS
        then upd_task (ks k) target (\<lambda>t. t\<lparr>signals := (signals t)[nat sig := (signals t ! nat sig)\<lparr>pending := 1\<rparr>]\<rparr>)
        else ks k)\<rparr>)
   }"

definition sys_signal :: "regs \<Rightarrow> 'd kernel \<Rightarrow> 'd result" where
  "sys_signal r k =
     (let sig = arg_int (r_rdi r)
      in if task_current (ks k) = NULL \<or> sig < 0 \<or> sig \<ge> int TASK_MAX_SIGNALS then ret r (-1) k
      else ret r 0 (upd_cur (\<lambda>t. t\<lparr>signals := (signals t)[nat sig := (signals t ! nat sig)\<lparr>handler := r_rsi r\<rparr>]\<rparr>) k))"

definition sys_brk :: "regs \<Rightarrow> 'd kernel \<Rightarrow> 'd result" where "sys_brk r k = ret r 0 k"

definition sys_dup2 :: "regs \<Rightarrow> 'd kernel \<Rightarrow> 'd result" where
  "sys_dup2 r k =
     (let oldfd = arg_int (r_rdi r); newfd = arg_int (r_rsi r) in
      if task_current (ks k) = NULL then ret r (-1) k
      else if oldfd < 0 \<or> oldfd \<ge> int TASK_MAX_FD \<or> \<not> fused (fd (cur_task k) ! nat oldfd) then ret r (-1) k
      else if newfd < 0 \<or> newfd \<ge> int TASK_MAX_FD then ret r (-1) k
      else
        let e = fd (cur_task k) ! nat newfd;
            k1 = (if fused e \<and> ftype e = FD_TYPE_FILE then close_obj (fptr e) k else k)
        in ret r newfd (upd_cur (\<lambda>t. t\<lparr>fd := (fd t)[nat newfd := fd t ! nat oldfd]\<rparr>) k1))"

definition sys_chdir :: "regs \<Rightarrow> 'd kernel \<Rightarrow> 'd result" where "sys_chdir r k = ret r 0 k"

definition sys_getcwd :: "regs \<Rightarrow> 'd kernel \<Rightarrow> 'd result" where
  "sys_getcwd r k =
     (if \<not> validate_user_ptr k (r_rdi r) (r_rsi r) then ret r 0 k
      else do {
        k1 \<leftarrow> ustore k (r_rdi r) SLASH;
        k2 \<leftarrow> (if r_rsi r > 1 then ustore k1 (r_rdi r + 1) 0 else Some k1);
        ret r 0 k2
      })"

definition sys_reboot :: "regs \<Rightarrow> 'd kernel \<Rightarrow> 'd result" where
  "sys_reboot r k =
     (if r_rdi r = 0x08 then Some (r, k\<lparr>power := ShutDown, ks := (ks k)\<lparr>halted := True\<rparr>\<rparr>)
      else if r_rdi r = 0x10 then Some (r, k\<lparr>power := Reset\<rparr>)
      else ret r 0 k)"

definition syscall_handler_c :: "'d env \<Rightarrow> regs \<Rightarrow> 'd kernel \<Rightarrow> 'd result" where
  "syscall_handler_c env r k =
     (let c = r_rax r in
      if c = 0 then sys_exit r k
      else if c = 1 then sys_write env r k
      else if c = 2 then sys_open env r k
      else if c = 3 then sys_read env r k
      else if c = 4 then sys_close r k
      else if c = 5 then sys_readdir env r k
      else if c = 6 then sys_exec env r k
      else if c = 7 then sys_create env r k
      else if c = 8 then sys_unlink env r k
      else if c = 9 then sys_stat env r k
      else if c = 10 then sys_pipe r k
      else if c = 11 then sys_fork r k
      else if c = 12 then sys_wait r k
      else if c = 13 then sys_getpid r k
      else if c = 14 then sys_getppid r k
      else if c = 15 then sys_kill r k
      else if c = 16 then sys_signal r k
      else if c = 17 then sys_brk r k
      else if c = 18 then sys_dup2 r k
      else if c = 19 then sys_chdir r k
      else if c = 20 then sys_getcwd r k
      else if c = 21 then sys_reboot r k
      else ret r (-1) k)"

end
