(* ===== verification/SyscallSpec.thy ===== *)
theory SyscallSpec
  imports Syscall
begin

text \<open>
  Properties of the system calls: what the check of user pointers guarantees and where it stops short, the
  descriptors and pipes over the calls that create, copy and close them, and the shape of the kernel state that
  every call keeps.
\<close>

section \<open>User pointers\<close>

lemma get_phys_in_page:
  assumes "same_page v w" "v AND 0xFFF = 0" "paging_get_phys_on M p v \<noteq> 0"
  shows "paging_get_phys_on M p w = paging_get_phys_on M p v OR (w AND 0xFFF)"
proof -
  have idx: "idx_pml4 w = idx_pml4 v" "idx_pdpt w = idx_pdpt v" "idx_pd w = idx_pd v" "idx_pt w = idx_pt v"
    using assms(1) by (simp_all add: same_page_def)
  have bits: "bit w k = bit v k" if "12 \<le> k" "k < 48" for k using assms(1) that by (simp add: same_page_bits)
  have low: "\<not> bit v k" if "k < 12" for k
  proof -
    have "bit (v AND mask 12) k = bit (0 :: u64) k" using assms(2) by (simp add: low_masks)
    then show ?thesis using that by (simp add: bit_and_iff bit_mask_iff)
  qed
  have h: "w AND 0x1FFFFF = (v AND 0x1FFFFF) OR (w AND 0xFFF)"
  proof (rule bit_word_eqI)
    fix n show "bit (w AND 0x1FFFFF) n = bit ((v AND 0x1FFFFF) OR (w AND 0xFFF)) n"
      unfolding low_masks using bits [of n] low [of n]
      by (cases "n < 12") (auto simp: bit_and_iff bit_or_iff bit_mask_iff)
  qed
  show ?thesis
    using assms(2,3) unfolding paging_get_phys_on_def idx Let_def h by (auto simp: or.assoc split: if_splits)
qed

lemma pages_mapped_nth:
  "pages_mapped M page n \<Longrightarrow> i < n \<Longrightarrow> paging_get_phys M (page + of_nat i * 0x1000) \<noteq> 0"
proof (induction n arbitrary: page i)
  case (Suc n)
  then show ?case by (cases i) (auto simp: algebra_simps dest: Suc.IH [of "page + 0x1000"])
qed simp

lemma page_of:
  fixes a :: u64
  shows "unat (a AND NOT 0xFFF) = 4096 * (unat a div 4096)" "(a AND NOT 0xFFF) AND 0xFFF = 0"
proof -
  show "unat (a AND NOT 0xFFF) = 4096 * (unat a div 4096)"
    using unat_and_not_mask [of a 12] minus_mod_eq_mult_div [of "unat a" 4096] unfolding low_masks by simp
  show "(a AND NOT 0xFFF) AND 0xFFF = 0"
    unfolding low_masks by (rule bit_word_eqI) (simp add: bit_and_iff bit_not_iff)
qed

lemma same_page_page_of: "same_page (a AND NOT 0xFFF) a"
  unfolding same_page_bits low_masks by (auto simp: bit_and_iff bit_not_iff bit_mask_iff)

text \<open>
  C16: when \<open>validate_user_ptr\<close> accepts a range, the range does not wrap around, lies between the null page
  and the end of the user range, and every byte of it is mapped in the page tables the kernel booted with.
\<close>

theorem validate_user_ptr_sound:
  assumes "validate_user_ptr k addr sz"
  shows "0x1000 \<le> addr \<and> unat addr + unat sz \<le> 0x7FFFFFFFFF \<and>
    (\<forall>i < unat sz. paging_get_phys (kmach k) (addr + of_nat i) \<noteq> 0)"
proof -
  let ?A = "unat addr" and ?S = "unat sz"
  define first where "first = addr AND NOT 0xFFF"
  define fin where "fin = (addr + sz + 0xFFF) AND NOT 0xFFF"
  have c: "\<not> addr < 0x1000" "\<not> addr + sz < addr" "\<not> addr + sz > 0x7FFFFFFFFF"
      "pages_mapped (kmach k) first (page_rounds first fin)"
    using assms by (auto simp: validate_user_ptr_def first_def fin_def Let_def split: if_splits)
  have sum: "unat (addr + sz) = ?A + ?S"
    using c(2) by (metis no_olen_add_nat linorder_not_less unat_plus_simple)
  have le: "?A + ?S \<le> 0x7FFFFFFFFF" using c(3) sum by (simp add: word_less_nat_alt)
  have first: "unat first = 4096 * (?A div 4096)" unfolding first_def by (rule page_of(1))
  have "unat (addr + sz + 0xFFF) = ?A + ?S + 4095" using sum le by (simp add: unat_word_ariths)
  then have fin: "unat fin = 4096 * ((?A + ?S + 4095) div 4096)" unfolding fin_def page_of(1) by simp
  have "paging_get_phys (kmach k) (addr + of_nat i) \<noteq> 0" if i: "i < ?S" for i
  proof -
    define v where "v = addr + of_nat i"
    have v: "unat v = ?A + i" using i le by (simp add: v_def unat_word_ariths unat_of_nat)
    define j where "j = unat v div 4096 - ?A div 4096"
    have q: "?A div 4096 \<le> unat v div 4096" using v by (simp add: div_le_mono)
    have "Suc (unat v div 4096) = (unat v + 4096) div 4096" by simp
    also have "\<dots> \<le> (?A + ?S + 4095) div 4096" using v i by (intro div_le_mono) simp
    finally have "unat v div 4096 < (?A + ?S + 4095) div 4096" by simp
    then have j: "j < (?A + ?S + 4095) div 4096 - ?A div 4096" unfolding j_def using q by (rule diff_less_mono)
    have "page_rounds first fin = (?A + ?S + 4095) div 4096 - ?A div 4096"
    proof -
      have lt: "first < fin" using j first fin by (simp add: word_less_nat_alt)
      then have "unat (fin - first) = 4096 * ((?A + ?S + 4095) div 4096 - ?A div 4096)"
        unfolding unat_sub [OF less_imp_le [OF lt]] first fin by (simp only: diff_mult_distrib2)
      then show ?thesis using lt by (simp add: page_rounds_def unat_div PAGE_SIZE_def)
    qed
    then have m: "paging_get_phys (kmach k) (first + of_nat j * 0x1000) \<noteq> 0"
      using pages_mapped_nth [OF c(4), of j] j by simp
    have sum: "4096 * (?A div 4096) + 4096 * j = 4096 * (unat v div 4096)" using q unfolding j_def by simp
    have "4096 * (unat v div 4096) \<le> unat v" by simp
    then have lt: "4096 * (?A div 4096) + 4096 * j < 2 ^ 64" unfolding sum using unat_less_2p64 [of v] by linarith
    then have "unat (first + of_nat j * 0x1000) = 4096 * (?A div 4096) + 4096 * j"
      using first by (simp add: unat_word_ariths unat_of_nat)
    then have "first + of_nat j * 0x1000 = v AND NOT 0xFFF" unfolding word_unat_eq_iff page_of(1) sum .
    then show ?thesis
      using m get_phys_in_page [OF same_page_page_of page_of(2), of "kmach k" "g_pml4 (kmach k)" v]
      unfolding paging_get_phys_def v_def [symmetric] by (simp add: or_eq_0_iff)
  qed
  then show ?thesis using c(1) le by (auto simp: not_less)
qed

lemma copy_string_faults:
  "(\<And>i. i < n \<Longrightarrow> \<exists>c. uload k (p + of_nat i) = Some c \<and> c \<noteq> 0) \<Longrightarrow> uload k (p + of_nat n) = None \<Longrightarrow> n < m \<Longrightarrow>
     copy_string k p m = None"
proof (induction n arbitrary: p m)
  case 0
  then show ?case by (cases m) simp_all
next
  case (Suc n)
  obtain m' where m: "m = Suc m'" using Suc.prems(3) by (cases m) auto
  obtain c where c: "uload k p = Some c" "c \<noteq> 0" using Suc.prems(1) [of 0] by auto
  have "copy_string k (p + 1) m' = None"
  proof (rule Suc.IH)
    show "\<exists>c. uload k (p + 1 + of_nat i) = Some c \<and> c \<noteq> 0" if "i < n" for i
      using Suc.prems(1) [of "Suc i"] that by (simp add: algebra_simps)
    show "uload k (p + 1 + of_nat n) = None" using Suc.prems(2) by (simp add: algebra_simps)
  qed (use Suc.prems(3) m in simp)
  then show ?case using c m by simp
qed

text \<open>
  \<open>copy_from_user\<close> checks only the first byte of a string: a string that runs from a mapped page into
  an unmapped one before it ends makes the kernel itself take a page fault, instead of failing with -1.
\<close>

theorem copy_from_user_faults:
  assumes "validate_user_ptr k p 1" "\<forall>i<n. \<exists>c. uload k (p + of_nat i) = Some c \<and> c \<noteq> 0"
    and "uload k (p + of_nat n) = None" "n + 1 < mx"
  shows "copy_from_user k p mx = None"
proof -
  have "p \<noteq> NULL" using assms(1) by (auto simp: validate_user_ptr_def)
  moreover have "copy_string k p (mx - 1) = None"
    using assms(2-4) by (intro copy_string_faults [of n]) auto
  ultimately show ?thesis using assms(1,4) by (simp add: copy_from_user_def)
qed

text \<open>A kernel in which every address is mapped, and one in which only the page 0x400000 is, ending in \<open>a\<close>.\<close>

definition ones_kernel :: "unit kernel" where
  "ones_kernel = \<lparr>ks = demo_sched\<lparr>kheap := heap_full\<lparr>mach := ones_machine\<rparr>\<rparr>, kfs = ones_vfs, g_pipes = replicate 16 pipe_zero,
     console = [], g_elf_ret_rip = 0, power = Running\<rparr>"

lemma validate_user_ptr_sound_witness:
  "validate_user_ptr ones_kernel 0x400000 100 \<and> paging_get_phys (kmach ones_kernel) (0x400000 + of_nat 99) \<noteq> 0"
proof -
  have one: "page_rounds 0x400000 0x401000 = Suc 0" by (simp add: page_rounds_def PAGE_SIZE_def)
  have "paging_get_phys ones_machine 0x400000 \<noteq> 0"
    by (simp add: paging_get_phys_def paging_get_phys_on_def ones_machine_def load64_ones PAGE_PRESENT_def PAGE_HUGE_def PAGE_ADDR_MASK_def Let_def)
  then have v: "validate_user_ptr ones_kernel 0x400000 100"
    by (simp add: validate_user_ptr_def ones_kernel_def one)
  have "99 < unat (100 :: u64)" by simp
  then show ?thesis using v validate_user_ptr_sound [OF v] by blast
qed

text \<open>Memory in which every entry of every table is \<open>0x0101010101010101\<close>, but the second one of the page table is 0.\<close>

definition hole_mem :: mem where "hole_mem a = (if a - 0x1010101010008 < 8 then 0 else 1)"

definition edge_kernel :: "unit kernel" where "edge_kernel = set_kmach (ones_machine\<lparr>ram := hole_mem\<rparr>) ones_kernel"

lemma load_le_8:
  "(load_le 8 m a :: u64) = ucast (m a) OR 0x100 * ucast (m (a + 1)) OR 0x10000 * ucast (m (a + 2)) OR
     0x1000000 * ucast (m (a + 3)) OR 0x100000000 * ucast (m (a + 4)) OR 0x10000000000 * ucast (m (a + 5)) OR
     0x1000000000000 * ucast (m (a + 6)) OR 0x100000000000000 * ucast (m (a + 7))"
  by (simp add: numeral_eq_Suc add.assoc del: One_nat_def)

lemma edge_loads:
  "load64 hole_mem 0x1010101010008 = 0" "load64 hole_mem 0x1010101010010 = 0x0101010101010101"
  "load64 hole_mem 0x1010101010000 = 0x0101010101010101" "load64 hole_mem 0x1000 = 0x0101010101010101"
  by (simp_all add: load64_def hole_mem_def load_le_8 Let_def)

lemma edge_translate:
  "paging_get_phys_on (ones_machine\<lparr>ram := hole_mem\<rparr>) 0x1000 0x400FFF = 0x1010101010FFF"
  "paging_get_phys_on (ones_machine\<lparr>ram := hole_mem\<rparr>) 0x1000 0x401000 = 0"
  "paging_get_phys_on (ones_machine\<lparr>ram := hole_mem\<rparr>) 0x1000 0x400000 = 0x1010101010000"
  by (simp_all add: paging_get_phys_on_def edge_loads idx_pml4_def idx_pdpt_def idx_pd_def idx_pt_def PAGE_PRESENT_def PAGE_HUGE_def PAGE_ADDR_MASK_def Let_def)

lemma edge_pml4: "g_pml4 ones_machine = 0x1000" "cpu_cr3 demo_sched = 0x1000"
  by (simp_all add: ones_machine_def demo_sched_def)

lemma copy_from_user_faults_witness: "validate_user_ptr edge_kernel 0x400FFF 1 \<and> copy_from_user edge_kernel 0x400FFF 256 = None"
proof -
  have one: "page_rounds 0x400000 0x401000 = Suc 0" by (simp add: page_rounds_def PAGE_SIZE_def)
  have v: "validate_user_ptr edge_kernel 0x400FFF 1"
    by (simp add: validate_user_ptr_def edge_kernel_def set_kmach_def set_kheap_def ones_kernel_def one paging_get_phys_def edge_translate edge_pml4)
  show ?thesis
    using v copy_from_user_faults [of edge_kernel "0x400FFF" 1 256]
    by (simp add: uload_def edge_kernel_def set_kmach_def set_kheap_def ones_kernel_def edge_pml4 PAGE_ADDR_MASK_def edge_translate hole_mem_def)
qed

section \<open>The shape of the kernel state\<close>

text \<open>The arrays of the C structures have the lengths they are declared with, and the counters of a pipe stay within its buffer.\<close>

definition task_shape :: "task_struct \<Rightarrow> bool" where
  "task_shape t \<longleftrightarrow> length (fd t) = TASK_MAX_FD \<and> length (signals t) = TASK_MAX_SIGNALS"

definition tasks_shape :: "tasks \<Rightarrow> bool" where
  "tasks_shape T \<longleftrightarrow> (\<forall>a. task_shape (T a))"

definition pipes_shape :: "pipe_t list \<Rightarrow> bool" where
  "pipes_shape ps \<longleftrightarrow> length ps = MAX_PIPES \<and> (\<forall>p \<in> set ps. pipe_inv p)"

definition kernel_shape :: "'d kernel \<Rightarrow> bool" where
  "kernel_shape k \<longleftrightarrow> tasks_shape (tasks (ks k)) \<and> pipes_shape (g_pipes k)"

named_theorems shape \<open>the operations keep the shape of the state\<close>

lemma tasks_shapeD [shape]: "tasks_shape T \<Longrightarrow> task_shape (T a)" by (simp add: tasks_shape_def)

lemma tasks_shape_upd [shape]: "tasks_shape T \<Longrightarrow> task_shape t \<Longrightarrow> tasks_shape (T(a := t))" by (simp add: tasks_shape_def)

lemma tasks_shape_link [shape]: "tasks_shape T \<Longrightarrow> tasks_shape (T(a := (T b)\<lparr>tnext := n\<rparr>))" by (simp add: tasks_shape_def task_shape_def)

lemma fd_close_from_length: "length (snd (fd_close_from h fds i n)) = length fds"
  by (induction n arbitrary: h fds i) auto

lemma close_all_shape [shape]: "task_shape t \<Longrightarrow> task_shape (snd (task_fd_close_all h t))"
  using fd_close_from_length [of h "fd t" 3 "TASK_MAX_FD - 3"]
  by (auto simp: task_fd_close_all_def task_shape_def split: prod.splits)

lemma fd_alloc_shape [shape]: "task_shape t \<Longrightarrow> task_shape (snd (task_fd_alloc t ptr ty))"
  by (auto simp: task_fd_alloc_def task_shape_def split: option.splits)

lemma fd_free_shape [shape]: "task_shape t \<Longrightarrow> task_shape (task_fd_free t n)"
  by (auto simp: task_fd_free_def task_shape_def)

lemma with_frames_tasks [simp]: "tasks (with_frames s fr) = tasks s" by (simp add: with_frames_def)

lemma reap_shape: "sched_reap s a = Some s' \<Longrightarrow> tasks_shape (tasks s) \<Longrightarrow> tasks_shape (tasks s')"
  using close_all_shape [of "tasks s a" "kheap s"]
  by (auto simp: sched_reap_def Let_def tasks_shape_def task_shape_def split: prod.splits option.splits)

lemma clean_shape: "sched_clean s start a = Some s' \<Longrightarrow> tasks_shape (tasks s) \<longrightarrow> tasks_shape (tasks s')"
proof (induction s start a s' rule: sched_clean.raw_induct [rotated, consumes 1])
  case (1 f s start a s')
  show ?case
  proof (cases "a \<noteq> start \<and> tstate (tasks s a) = TASK_TERMINATED")
    case True
    then obtain s1 where "sched_reap s a = Some s1" "f s1 start (tnext (tasks s a)) = Some s'"
      using 1(2) by (auto split: option.splits)
    then show ?thesis using 1(1) reap_shape by blast
  next
    case False
    then show ?thesis using 1(2) 1(1) [of s start "tnext (tasks s a)" s'] by (auto split: if_splits)
  qed
qed

lemma switch_shape: "tasks_shape (tasks s) \<Longrightarrow> tasks_shape (tasks (sched_switch s n))"
  by (auto simp: sched_switch_def context_switch_def Let_def tasks_shape_def task_shape_def)

lemma yield_shape [shape]: "task_yield s = Some s' \<Longrightarrow> tasks_shape (tasks s) \<Longrightarrow> tasks_shape (tasks s')"
  by (auto simp: task_yield_def schedule_def Let_def split: if_splits option.splits dest!: clean_shape intro: switch_shape)

lemma destroy_shape [shape]: "task_destroy s a = Some s' \<Longrightarrow> tasks_shape (tasks s) \<Longrightarrow> tasks_shape (tasks s')"
  by (auto simp: task_destroy_def Let_def tasks_shape_def task_shape_def split: if_splits option.splits)

lemma pipes_shape_upd [shape]: "pipes_shape ps \<Longrightarrow> (p < length ps \<Longrightarrow> pipe_inv q) \<Longrightarrow> pipes_shape (ps[p := q])"
  by (cases "p < length ps") (auto simp: pipes_shape_def list_update_beyond dest: set_update_subset_insert [THEN subsetD])

lemma pipes_shapeD: "pipes_shape ps \<Longrightarrow> p < length ps \<Longrightarrow> pipe_inv (ps ! p)"
  by (simp add: pipes_shape_def)

lemma pipe_alloc_scan_shape: "\<forall>p \<in> set ps. pipe_inv p \<Longrightarrow>
    length (snd (pipe_alloc_scan i ps)) = length ps \<and> (\<forall>p \<in> set (snd (pipe_alloc_scan i ps)). pipe_inv p)"
proof (induction ps arbitrary: i)
  case (Cons q ps)
  have "pipe_inv (pipe_reset q)" using Cons.prems by (simp add: pipe_reset_def pipe_inv_def PIPE_BUF_SIZE_def)
  then show ?case using Cons.prems Cons.IH [of "Suc i"] by (cases "pipe_alloc_scan (Suc i) ps") simp
qed simp

lemma pipe_alloc_shape [shape]: "pipe_alloc ps = (r, ps') \<Longrightarrow> pipes_shape ps \<Longrightarrow> pipes_shape ps'"
  using pipe_alloc_scan_shape [of ps 0] by (simp add: pipes_shape_def pipe_alloc_def)

lemma kernel_shapeI: "tasks_shape (tasks (ks k)) \<Longrightarrow> pipes_shape (g_pipes k) \<Longrightarrow> kernel_shape k"
  by (simp add: kernel_shape_def)

lemma set_kheap_simps [simp]:
  "tasks (ks (set_kheap h k)) = tasks (ks k)" "g_pipes (set_kheap h k) = g_pipes k" "kfs (set_kheap h k) = kfs k"
  "kheap (ks (set_kheap h k)) = h" "g_current (ks (set_kheap h k)) = g_current (ks k)" "cpu_cr3 (ks (set_kheap h k)) = cpu_cr3 (ks k)"
  "g_elf_ret_rip (set_kheap h k) = g_elf_ret_rip k"
  by (simp_all add: set_kheap_def)

lemma set_kmach_simps [simp]:
  "tasks (ks (set_kmach M k)) = tasks (ks k)" "g_pipes (set_kmach M k) = g_pipes k" "kfs (set_kmach M k) = kfs k"
  "kmach (set_kmach M k) = M" "g_current (ks (set_kmach M k)) = g_current (ks k)" "cpu_cr3 (ks (set_kmach M k)) = cpu_cr3 (ks k)"
  by (simp_all add: set_kmach_def)

lemma close_obj_simps [simp]:
  "tasks (ks (close_obj f k)) = tasks (ks k)" "g_pipes (close_obj f k) = g_pipes k" "g_current (ks (close_obj f k)) = g_current (ks k)"
  by (simp_all add: close_obj_def)

lemma upd_cur_simps [simp]:
  "tasks (ks (upd_cur f k)) = (tasks (ks k))(g_current (ks k) := f (cur_task k))" "g_pipes (upd_cur f k) = g_pipes k"
  "kheap (ks (upd_cur f k)) = kheap (ks k)" "g_current (ks (upd_cur f k)) = g_current (ks k)"
  by (simp_all add: upd_cur_def)

lemma shape_cong [shape]:
  "kernel_shape k \<Longrightarrow> tasks (ks k') = tasks (ks k) \<Longrightarrow> g_pipes k' = g_pipes k \<Longrightarrow> kernel_shape k'"
  by (simp add: kernel_shape_def)

lemma ustore_same: "ustore k v b = Some k' \<Longrightarrow> tasks (ks k') = tasks (ks k) \<and> g_pipes k' = g_pipes k"
  by (auto simp: ustore_def Let_def split: if_splits)

lemma ustores_same: "ustores k v bs = Some k' \<Longrightarrow> tasks (ks k') = tasks (ks k) \<and> g_pipes k' = g_pipes k"
  by (induction bs arbitrary: k v) (auto simp: bind_eq_Some_conv dest!: ustore_same)

lemma fs_call_same: "fs_call f k = Some (x, k') \<Longrightarrow> tasks (ks k') = tasks (ks k) \<and> g_pipes k' = g_pipes k"
  by (auto simp: fs_call_def)

lemma ustore_shape [shape]: "ustore k v b = Some k' \<Longrightarrow> kernel_shape k \<Longrightarrow> kernel_shape k'"
  by (auto simp: kernel_shape_def dest: ustore_same)

lemma ustores_shape [shape]: "ustores k v bs = Some k' \<Longrightarrow> kernel_shape k \<Longrightarrow> kernel_shape k'"
  by (auto simp: kernel_shape_def dest: ustores_same)

lemma fs_call_shape [shape]: "fs_call f k = Some (x, k') \<Longrightarrow> kernel_shape k \<Longrightarrow> kernel_shape k'"
  by (auto simp: kernel_shape_def dest: fs_call_same)

lemma upd_cur_shape [shape]: "kernel_shape k \<Longrightarrow> (task_shape (cur_task k) \<Longrightarrow> task_shape (f (cur_task k))) \<Longrightarrow> kernel_shape (upd_cur f k)"
  by (auto simp: kernel_shape_def intro: tasks_shape_upd tasks_shapeD)

lemma close_obj_shape [shape]: "kernel_shape k \<Longrightarrow> kernel_shape (close_obj f k)"
  by (simp add: kernel_shape_def)

lemma set_kheap_shape [shape]: "kernel_shape k \<Longrightarrow> kernel_shape (set_kheap f k)"
  by (simp add: kernel_shape_def)

lemma pipes_upd_shape [shape]:
  "kernel_shape k \<Longrightarrow> (pipe_inv (g_pipes k ! p) \<Longrightarrow> pipe_inv q) \<Longrightarrow> kernel_shape (k\<lparr>g_pipes := (g_pipes k)[p := q]\<rparr>)"
  by (auto simp: kernel_shape_def intro: pipes_shape_upd pipes_shapeD)

lemma ret_shape [shape]: "ret r v k = Some (r', k') \<Longrightarrow> kernel_shape k \<Longrightarrow> kernel_shape k'"
  by (simp add: ret_def)

lemma pipe_drop_inv [shape]: "pipe_inv p \<Longrightarrow> pipe_inv (pipe_drop ty p)"
  by (simp add: pipe_drop_def pipe_inv_def Let_def)

lemma task_shape_simps [simp]:
  "task_shape (t\<lparr>exit_code := e, tstate := st\<rparr>) = task_shape t" "task_shape (t\<lparr>tnext := a\<rparr>) = task_shape t"
  "task_shape (t\<lparr>tstate := st, exit_code := e\<rparr>) = task_shape t" "task_shape (t\<lparr>signals := (signals t)[i := sg]\<rparr>) = task_shape t"
  "task_shape (t\<lparr>fd := (fd t)[i := e1]\<rparr>) = task_shape t"
  by (simp_all add: task_shape_def)

text \<open>What holds of the result of a call, if it returns, and the rules that follow the code of a call.\<close>

definition post :: "('a \<Rightarrow> bool) \<Rightarrow> 'a option \<Rightarrow> bool" where "post P m \<longleftrightarrow> (\<forall>x. m = Some x \<longrightarrow> P x)"

lemma post_bind: "(\<And>x. m = Some x \<Longrightarrow> post P (f x)) \<Longrightarrow> post P (m \<bind> f)"
  by (auto simp: post_def bind_eq_Some_conv)

lemma post_if: "(c \<Longrightarrow> post P a) \<Longrightarrow> (\<not> c \<Longrightarrow> post P b) \<Longrightarrow> post P (if c then a else b)"
  by simp

lemma post_let: "(\<And>x. a = x \<Longrightarrow> post P (f x)) \<Longrightarrow> post P (let x = a in f x)"
  by simp

lemma post_prod: "(\<And>x y. p = (x, y) \<Longrightarrow> post P (f x y)) \<Longrightarrow> post P (case p of (x, y) \<Rightarrow> f x y)"
  by (cases p) simp

lemma post_option: "(m = None \<Longrightarrow> post P a) \<Longrightarrow> (\<And>x. m = Some x \<Longrightarrow> post P (f x)) \<Longrightarrow> post P (case m of None \<Rightarrow> a | Some x \<Rightarrow> f x)"
  by (cases m) simp_all

lemma post_fobj: "(m = FNull \<Longrightarrow> post P a) \<Longrightarrow> (\<And>x. m = FFile x \<Longrightarrow> post P (f x)) \<Longrightarrow> (\<And>x. m = FPipe x \<Longrightarrow> post P (g x)) \<Longrightarrow>
    post P (case m of FNull \<Rightarrow> a | FFile x \<Rightarrow> f x | FPipe x \<Rightarrow> g x)"
  by (cases m) simp_all

lemma post_Some: "P x \<Longrightarrow> post P (Some x)" by (simp add: post_def)

lemma post_ret: "(\<And>r. P (r, k)) \<Longrightarrow> post P (ret r v k)" by (simp add: post_def ret_def)

lemmas post_rules = post_bind post_if post_let post_prod post_option post_fobj post_Some post_ret

abbreviation keeps :: "'d result \<Rightarrow> bool" where "keeps m \<equiv> post (\<lambda>(r, k). kernel_shape k) m"

lemma alloc_shape: "task_fd_alloc t ptr ty = (n, t') \<Longrightarrow> task_shape t \<Longrightarrow> task_shape t'"
  using fd_alloc_shape [of t ptr ty] by simp

lemma close_shape: "task_fd_close_all h t = (n, t') \<Longrightarrow> task_shape t \<Longrightarrow> task_shape t'"
  using close_all_shape [of t h] by simp

lemma cur_shape [shape]: "kernel_shape k \<Longrightarrow> task_shape (cur_task k)"
  by (simp add: kernel_shape_def tasks_shapeD)

lemma kernel_shape_simps [simp]:
  "kernel_shape (k\<lparr>ks := (ks k)\<lparr>halted := b\<rparr>\<rparr>) = kernel_shape k" "kernel_shape (k\<lparr>ks := (ks k)\<lparr>cpu_cr3 := a\<rparr>\<rparr>) = kernel_shape k"
  "kernel_shape (k\<lparr>console := c\<rparr>) = kernel_shape k" "kernel_shape (k\<lparr>power := w\<rparr>) = kernel_shape k"
  "kernel_shape (k\<lparr>power := w, ks := (ks k)\<lparr>halted := b\<rparr>\<rparr>) = kernel_shape k" "kernel_shape (k\<lparr>kfs := v\<rparr>) = kernel_shape k"
  "kernel_shape (set_kmach M k) = kernel_shape k" "kernel_shape (set_kheap h k) = kernel_shape k" "kernel_shape (close_obj f k) = kernel_shape k"
  by (simp_all add: kernel_shape_def)

lemma sys_exit_shape: "kernel_shape k \<Longrightarrow> keeps (sys_exit r k)"
  unfolding sys_exit_def
  by (auto intro!: post_rules upd_cur_shape elim!: close_shape split: prod.splits if_splits)

lemma sys_open_shape: "kernel_shape k \<Longrightarrow> keeps (sys_open_with opn env r k)"
  unfolding sys_open_with_def
  by (auto intro!: post_rules upd_cur_shape dest: fs_call_shape alloc_shape)

lemma wait_writable_shape: "wait_writable env k p = Some k' \<Longrightarrow> (\<forall>k. kernel_shape k \<longrightarrow> kernel_shape (others env k)) \<longrightarrow> kernel_shape k \<longrightarrow> kernel_shape k'"
proof (induction env k p k' rule: wait_writable.raw_induct [rotated, consumes 1])
  case (1 f env k p k')
  then show ?case
    by (force simp: bind_eq_Some_conv kernel_shape_def split: if_splits dest: yield_shape)
qed

lemma wait_readable_shape: "wait_readable env k p = Some k' \<Longrightarrow> (\<forall>k. kernel_shape k \<longrightarrow> kernel_shape (others env k)) \<longrightarrow> kernel_shape k \<longrightarrow> kernel_shape k'"
proof (induction env k p k' rule: wait_readable.raw_induct [rotated, consumes 1])
  case (1 f env k p k')
  then show ?case
    by (force simp: bind_eq_Some_conv kernel_shape_def split: if_splits dest: yield_shape)
qed

lemma pipe_write_shape: "pipe_write q n src = (m, q') \<Longrightarrow> pipe_inv q \<Longrightarrow> pipe_inv q'"
  using pipe_write_result [where p = q and cnt = n and src = src] by auto

lemma pipe_read_shape: "pipe_read q n d = (m, d', q') \<Longrightarrow> pipe_inv q \<Longrightarrow> pipe_inv q'"
  using pipe_read_result [where p = q and cnt = n and dst = d] by auto

lemma pipe_write_user_shape: "kernel_shape k \<Longrightarrow> keeps (pipe_write_user r k p)"
  unfolding pipe_write_user_def
  by (auto intro!: post_rules pipes_upd_shape dest: pipe_write_shape)

lemma pipe_read_user_shape: "kernel_shape k \<Longrightarrow> keeps (pipe_read_user r k p)"
  unfolding pipe_read_user_def
  by (auto intro!: post_rules pipes_upd_shape dest: pipe_read_shape elim!: ustores_shape)

lemma read_stdin_shape: "read_stdin env r n k = Some y \<Longrightarrow> (\<forall>k. kernel_shape k \<longrightarrow> kernel_shape (snd (getc env k))) \<longrightarrow> kernel_shape k \<longrightarrow> kernel_shape (snd y)"
proof (induction env r n k y rule: read_stdin.raw_induct [rotated, consumes 1])
  case (1 f env r n k y)
  note IH = 1(1) and prem = 1(2)
  let ?c = "fst (getc env k)" and ?k1 = "snd (getc env k)"
  consider "\<not> n < r_rdx r" | "n < r_rdx r" "?c = 0 \<or> ?c > 255" | k2 where "n < r_rdx r" "\<not> (?c = 0 \<or> ?c > 255)" "ustore ?k1 (r_rsi r + n) (of_int ?c) = Some k2"
    using prem by (fastforce simp: Let_def bind_eq_Some_conv split: if_splits)
  then show ?case
  proof cases
    case 1
    then show ?thesis using prem by auto
  next
    case 2
    then have "f env r n ?k1 = Some y" using prem by (simp add: Let_def)
    then show ?thesis using IH by blast
  next
    case 3
    then have "f env r (n + 1) k2 = Some y \<or> snd y = k2" using prem by (auto simp: Let_def split: if_splits)
    then show ?thesis using IH ustore_shape [OF 3(3)] by blast
  qed
qed

text \<open>What the rest of the system does keeps the shape as well.\<close>

definition env_shape :: "'d env \<Rightarrow> bool" where
  "env_shape env \<longleftrightarrow> (\<forall>k. kernel_shape k \<longrightarrow> kernel_shape (others env k) \<and> kernel_shape (snd (getc env k)))"

lemma env_shapeD:
  assumes "env_shape env" "kernel_shape k"
  shows "wait_writable env k p = Some k' \<Longrightarrow> kernel_shape k'" "wait_readable env k p = Some k' \<Longrightarrow> kernel_shape k'"
    "keeps (read_stdin env r n k)"
  using assms wait_writable_shape [of env k p k'] wait_readable_shape [of env k p k'] read_stdin_shape [of env r n k]
  by (auto simp: env_shape_def post_def)

lemma sys_write_shape: "env_shape env \<Longrightarrow> kernel_shape k \<Longrightarrow> keeps (sys_write env r k)"
  unfolding sys_write_def
  by (auto intro!: post_rules pipe_write_user_shape dest: fs_call_shape env_shapeD)

lemma sys_read_shape: "env_shape env \<Longrightarrow> kernel_shape k \<Longrightarrow> keeps (sys_read env r k)"
  unfolding sys_read_def
  by (auto intro!: post_rules pipe_read_user_shape dest: fs_call_shape env_shapeD ustores_shape)

lemma sys_close_shape: "kernel_shape k \<Longrightarrow> keeps (sys_close r k)"
  unfolding sys_close_def
  by (auto intro!: post_rules upd_cur_shape pipes_upd_shape fd_free_shape pipe_drop_inv split: fobj.splits)

lemma optional_store_shape:
  "(if c then ustore k v b else Some k) = Some k' \<Longrightarrow> kernel_shape k \<Longrightarrow> kernel_shape k'"
  "(if c then ustores k v bs else Some k) = Some k' \<Longrightarrow> kernel_shape k \<Longrightarrow> kernel_shape k'"
  by (auto split: if_splits elim: ustore_shape ustores_shape)

lemma sys_dir_shapes:
  assumes "kernel_shape k"
  shows "keeps (sys_readdir env r k)" "keeps (sys_unlink env r k)" "keeps (sys_stat env r k)" "keeps (sys_getcwd r k)"
  unfolding sys_readdir_def sys_unlink_def sys_stat_def sys_getcwd_def using assms
  by (auto intro!: post_rules elim!: fs_call_shape ustore_shape ustores_shape optional_store_shape)

lemma sys_exec_shape: "kernel_shape k \<Longrightarrow> keeps (sys_exec env r k)"
  unfolding sys_exec_def
  by (auto intro!: post_rules upd_cur_shape elim!: close_shape fs_call_shape split: prod.splits if_splits)

lemma pipes_set_shape: "kernel_shape k \<Longrightarrow> pipes_shape ps \<Longrightarrow> kernel_shape (k\<lparr>g_pipes := ps\<rparr>)"
  by (simp add: kernel_shape_def)

lemma pipe_alloc_drop:
  assumes "pipe_alloc ps = (r, ps')" "pipes_shape ps"
  shows "pipes_shape (ps'[p := (ps' ! p)\<lparr>used := False\<rparr>])"
proof (rule pipes_shape_upd)
  show *: "pipes_shape ps'" using assms by (rule pipe_alloc_shape)
  show "p < length ps' \<Longrightarrow> pipe_inv ((ps' ! p)\<lparr>used := False\<rparr>)" using pipes_shapeD [OF *] by (simp add: pipe_inv_def)
qed

lemma sys_pipe_shape: "kernel_shape k \<Longrightarrow> keeps (sys_pipe r k)"
  unfolding sys_pipe_def
  by (auto intro!: post_rules upd_cur_shape pipes_set_shape fd_free_shape elim!: ustores_shape alloc_shape pipe_alloc_shape pipe_alloc_drop
    simp: kernel_shape_def [THEN iffD1])

lemma fork_fds_length: "fork_fds pfd i n h fl cfd = Some (h', fl', cfd') \<Longrightarrow> length cfd' = length cfd"
  by (induction pfd i n h fl cfd rule: fork_fds.induct) (auto simp: bind_eq_Some_conv split: fobj.splits if_splits)

lemma sys_fork_shape: "kernel_shape k \<Longrightarrow> keeps (sys_fork r k)"
  unfolding sys_fork_def
  by (auto intro!: post_rules dest!: fork_fds_length simp: kernel_shape_def tasks_shape_def task_shape_def)

lemma sys_wait_shape: "kernel_shape k \<Longrightarrow> keeps (sys_wait r k)"
  unfolding sys_wait_def
  by (auto intro!: post_rules dest: destroy_shape simp: kernel_shape_def)

lemma sys_task_shapes:
  assumes "kernel_shape k"
  shows "keeps (sys_kill r k)" "keeps (sys_signal r k)" "keeps (sys_dup2 r k)" "keeps (sys_reboot r k)"
proof -
  show "keeps (sys_kill r k)"
    unfolding sys_kill_def using assms by (auto intro!: post_rules tasks_shape_upd tasks_shapeD [of "tasks (ks k)"] simp: kernel_shape_def)
  show "keeps (sys_signal r k)" "keeps (sys_dup2 r k)" "keeps (sys_reboot r k)"
    unfolding sys_signal_def sys_dup2_def sys_reboot_def using assms by (auto intro!: post_rules upd_cur_shape)
qed


text \<open>A single task with an open file on descriptor 3 and nobody else at work.\<close>

definition idle_env :: "unit env" where
  "idle_env = \<lparr>others = (\<lambda>k. k), getc = (\<lambda>k. (0, k)), drivers_of = no_ops\<rparr>"

definition file_task :: task_struct where
  "file_task = task_zero\<lparr>pid := 1, fd := (replicate TASK_MAX_FD fd_none)[3 := \<lparr>fptr = FFile 0x5000, ftype = FD_TYPE_FILE, fused = True\<rparr>], tnext := 0x1000\<rparr>"

definition file_kernel :: "unit kernel" where
  "file_kernel = ones_kernel\<lparr>ks := (ks ones_kernel)\<lparr>tasks := (\<lambda>_. file_task)\<rparr>\<rparr>"

lemma file_kernel_shape: "kernel_shape file_kernel" "env_shape idle_env"
  by (simp_all add: kernel_shape_def file_kernel_def ones_kernel_def tasks_shape_def task_shape_def file_task_def task_zero_def
    pipes_shape_def MAX_PIPES_def pipe_demo_inv env_shape_def idle_env_def)

definition call_regs :: "u64 \<Rightarrow> u64 \<Rightarrow> u64 \<Rightarrow> u64 \<Rightarrow> regs" where
  "call_regs c a1 a2 a3 = \<lparr>r_rax = c, r_rdi = a1, r_rsi = a2, r_rdx = a3, r_rip = 0, r_rsp = 0, r_cs = 0x23\<rparr>"

lemma file_kernel_simps: "task_current (ks file_kernel) = 0x1000" "g_current (ks file_kernel) = 0x1000" "tasks (ks file_kernel) a = file_task"
  by (simp_all add: file_kernel_def ones_kernel_def demo_sched_def task_current_def)


section \<open>Descriptors\<close>

lemma sys_close_file:
  assumes "task_current (ks k) \<noteq> NULL" "arg_int (r_rdi r) = int a" "a < TASK_MAX_FD"
    and "fd (cur_task k) ! a = \<lparr>fptr = FFile f, ftype = FD_TYPE_FILE, fused = True\<rparr>"
  shows "sys_close r k = ret r 0 (upd_cur (\<lambda>t. task_fd_free t (int a)) (close_obj (FFile f) k))"
  using assms by (simp add: sys_close_def FD_TYPE_FILE_def FD_TYPE_PIPE_R_def FD_TYPE_PIPE_W_def Let_def)

text \<open>
  \<open>dup2\<close> lets two descriptors point to the same \<open>file_t\<close> without counting them, so that closing
  both releases it twice.
\<close>

theorem dup2_double_free:
  assumes "task_current (ks k) \<noteq> NULL" "length (fd (cur_task k)) = TASK_MAX_FD" "a < TASK_MAX_FD" "b < TASK_MAX_FD" "a \<noteq> b"
    and "fd (cur_task k) ! a = \<lparr>fptr = FFile f, ftype = FD_TYPE_FILE, fused = True\<rparr>" "\<not> fused (fd (cur_task k) ! b)"
    and "arg_int (r_rdi r0) = int a" "arg_int (r_rsi r0) = int b" "arg_int (r_rdi r1) = int a" "arg_int (r_rdi r2) = int b"
  shows "\<exists>k'. do { (_, k1) \<leftarrow> sys_dup2 r0 k; (_, k2) \<leftarrow> sys_close r1 k1; sys_close r2 k2 } = Some (r2\<lparr>r_rax := 0\<rparr>, k') \<and>
    kheap (ks k') = kfree (kfree (kheap (ks k)) f) f"
proof -
  define k1 where "k1 = upd_cur (\<lambda>t. t\<lparr>fd := (fd t)[b := fd t ! a]\<rparr>) k"
  define k2 where "k2 = upd_cur (\<lambda>t. task_fd_free t (int a)) (close_obj (FFile f) k1)"
  have 0: "sys_dup2 r0 k = ret r0 (int b) k1"
    using assms by (simp add: sys_dup2_def k1_def Let_def)
  have 1: "sys_close r1 k1 = ret r1 0 k2"
    unfolding k2_def using assms by (intro sys_close_file) (simp_all add: k1_def task_current_def)
  have 2: "sys_close r2 k2 = ret r2 0 (upd_cur (\<lambda>t. task_fd_free t (int b)) (close_obj (FFile f) k2))"
    using assms by (intro sys_close_file) (simp_all add: k2_def k1_def task_current_def task_fd_free_def)
  show ?thesis unfolding 0 ret_def by (simp add: 1 2 ret_def) (simp add: close_obj_def k2_def k1_def vfs_close_def)
qed

lemma dup2_double_free_witness:
  "\<exists>k'. do { (_, k1) \<leftarrow> sys_dup2 (call_regs 18 3 4 0) file_kernel; (_, k2) \<leftarrow> sys_close (call_regs 4 3 0 0) k1; sys_close (call_regs 4 4 0 0) k2 }
     = Some ((call_regs 4 4 0 0)\<lparr>r_rax := 0\<rparr>, k') \<and> kheap (ks k') = kfree (kfree (kheap (ks file_kernel)) 0x5000) 0x5000"
  by (rule dup2_double_free [of file_kernel 3 4]) (simp_all add: file_kernel_simps file_task_def TASK_MAX_FD_def fd_none_def call_regs_def)

section \<open>Waiting for a pipe\<close>

text \<open>One round of the waiting loop: the task yields and the other tasks run.\<close>

definition wait_round :: "'d env \<Rightarrow> 'd kernel \<Rightarrow> 'd kernel option" where
  "wait_round env k = do { s \<leftarrow> task_yield (ks k); Some (others env (k\<lparr>ks := s\<rparr>)) }"

fun wait_rounds :: "'d env \<Rightarrow> nat \<Rightarrow> 'd kernel \<Rightarrow> 'd kernel option" where
  "wait_rounds env 0 k = Some k"
| "wait_rounds env (Suc n) k = do { k1 \<leftarrow> wait_round env k; wait_rounds env n k1 }"

definition pipe_idle :: "'d kernel \<Rightarrow> nat \<Rightarrow> bool" where
  "pipe_idle k p \<longleftrightarrow> count (g_pipes k ! p) = 0 \<and> writers (g_pipes k ! p) > 0"

lemma wait_readable_step:
  "wait_readable env k p = (if pipe_idle k p then do { k1 \<leftarrow> wait_round env k; wait_readable env k1 p } else Some k)"
  by (subst wait_readable.simps) (simp add: pipe_idle_def wait_round_def bind_assoc)

lemma wait_readable_finds:
  "wait_readable env k p = Some k' \<Longrightarrow> \<exists>n. wait_rounds env n k = Some k' \<and> \<not> pipe_idle k' p \<and> (\<forall>m<n. \<exists>km. wait_rounds env m k = Some km \<and> pipe_idle km p)"
proof (induction env k p k' rule: wait_readable.raw_induct [rotated, consumes 1])
  case (1 f env k p k')
  show ?case
  proof (cases "pipe_idle k p")
    case True
    then obtain k1 where k1: "wait_round env k = Some k1" "f env k1 p = Some k'"
      using 1(2) by (auto simp: pipe_idle_def wait_round_def bind_eq_Some_conv)
    then obtain n where n: "wait_rounds env n k1 = Some k'" "\<not> pipe_idle k' p" "\<forall>m<n. \<exists>km. wait_rounds env m k1 = Some km \<and> pipe_idle km p"
      using 1(1) by blast
    have "\<exists>km. wait_rounds env m k = Some km \<and> pipe_idle km p" if "m < Suc n" for m
      using that True n(3) k1(1) by (cases m) auto
    then show ?thesis using n k1(1) by (intro exI [of _ "Suc n"]) simp
  next
    case False
    then have "k' = k" using 1(2) by (auto simp: pipe_idle_def split: if_splits)
    then show ?thesis using False by (intro exI [of _ 0]) simp
  qed
qed

lemma wait_readable_reaches:
  "wait_rounds env n k = Some k' \<Longrightarrow> \<not> pipe_idle k' p \<Longrightarrow> (\<forall>m<n. \<exists>km. wait_rounds env m k = Some km \<and> pipe_idle km p) \<Longrightarrow>
     wait_readable env k p = Some k'"
proof (induction n arbitrary: k)
  case 0
  then show ?case by (simp add: wait_readable_step)
next
  case (Suc n)
  obtain k1 where k1: "wait_round env k = Some k1" "wait_rounds env n k1 = Some k'" using Suc.prems(1) by (auto simp: bind_eq_Some_conv)
  have "pipe_idle k p" using Suc.prems(3) by (metis wait_rounds.simps(1) option.inject zero_less_Suc)
  moreover have "\<exists>km. wait_rounds env m k1 = Some km \<and> pipe_idle km p" if "m < n" for m
    using Suc.prems(3) [rule_format, of "Suc m"] that k1(1) by simp
  ultimately show ?case using Suc.IH [OF k1(2) Suc.prems(2)] k1(1) by (simp add: wait_readable_step [of env k])
qed


text \<open>An environment in which the other tasks fill every pipe in the first round.\<close>

definition wake_env :: "unit env" where "wake_env = idle_env\<lparr>others := (\<lambda>k. k\<lparr>g_pipes := replicate 16 pipe_wrap\<rparr>)\<rparr>"

definition idle_kernel :: "unit kernel" where
  "idle_kernel = file_kernel\<lparr>g_pipes := map pipe_reset (g_pipes file_kernel)\<rparr>"

lemma idle_kernel_simps:
  "pipe_idle idle_kernel 0" "task_yield (ks idle_kernel) = Some (ks idle_kernel)"
  by (simp_all add: idle_kernel_def file_kernel_def ones_kernel_def pipe_idle_def pipe_reset_def task_yield_def schedule_def demo_sched_def
    file_task_def task_zero_def sched_skip.simps sched_clean.simps)


lemma sys_exit_pipes: "sys_exit r k = Some (r', k') \<Longrightarrow> g_pipes k' = g_pipes k"
  by (auto simp: sys_exit_def Let_def split: prod.splits if_splits)

text \<open>
  A task that exits does not drop the ends of its pipes: when the writer of an empty pipe exits and the other tasks
  leave the pipes alone, a reader waits for ever instead of seeing the end of the data.
\<close>

theorem exit_leaves_reader_waiting:
  assumes "sys_exit r k = Some (r', k1)" "pipe_idle k p" "\<And>k. g_pipes (others env k) = g_pipes k"
    and "g_pipes k2 = g_pipes k1"
  shows "wait_readable env k2 p = None"
proof -
  have round: "g_pipes kn = g_pipes k0" if "wait_rounds env n k0 = Some kn" for n k0 kn
    using that by (induction n arbitrary: k0) (auto simp: bind_eq_Some_conv wait_round_def assms(3))
  have "pipe_idle kn p" if "wait_rounds env n k2 = Some kn" for n kn
    using round [OF that] assms(2,4) sys_exit_pipes [OF assms(1)] by (simp add: pipe_idle_def)
  then show ?thesis using wait_readable_finds [of env k2 p] by (cases "wait_readable env k2 p") blast+
qed

lemma exit_leaves_reader_waiting_witness:
  "\<exists>r' k1. sys_exit (call_regs 0 0 0 0) idle_kernel = Some (r', k1) \<and> wait_readable idle_env k1 0 = None"
proof -
  have "sys_exit (call_regs 0 0 0 0) idle_kernel \<noteq> None" by (simp add: sys_exit_def Let_def)
  then obtain r' k1 where e: "sys_exit (call_regs 0 0 0 0) idle_kernel = Some (r', k1)" by auto
  have "wait_readable idle_env k1 0 = None"
    by (rule exit_leaves_reader_waiting [OF e idle_kernel_simps(1)]) (simp_all add: idle_env_def)
  with e show ?thesis by blast
qed

end
