(* ===== verification/UserLibSpec.thy ===== *)
theory UserLibSpec
  imports UserLib SyscallSpec
begin

text \<open>
  Properties of the user library: numbers are printed and read back, \<open>printf\<close> writes what its format asks for,
  \<open>strncmp\<close> is compared with the one of the kernel, and the allocator is put together with the system call it uses.
\<close>

section \<open>Writing and reversing a buffer\<close>

lemma offset_inject:
  fixes s :: u64
  assumes "0 \<le> a" "a < 2 ^ 64" "0 \<le> b" "b < 2 ^ 64"
  shows "s + of_int a = s + of_int b \<longleftrightarrow> a = b"
proof -
  have "(of_int a :: u64) = of_int b \<longleftrightarrow> a mod 2 ^ 64 = b mod 2 ^ 64"
    by (simp add: word_of_int_eq_iff take_bit_eq_mod)
  then show ?thesis using assms by simp
qed

lemma reverse_loop_spec:
  "0 \<le> i \<Longrightarrow> j < 2 ^ 64 \<Longrightarrow> 0 \<le> k \<Longrightarrow> k < 2 ^ 64 \<Longrightarrow>
     reverse_loop m s i j (s + of_int k) = (if i \<le> k \<and> k \<le> j then m (s + of_int (i + j - k)) else m (s + of_int k))"
proof (induction m s i j rule: reverse_loop.induct)
  case (1 m s i j)
  show ?case
  proof (cases "i < j")
    case True
    define m2 where "m2 = m(s + of_int i := m (s + of_int j), s + of_int j := m (s + of_int i))"
    have m2: "m2 (s + of_int p) = (if p = j then m (s + of_int i) else if p = i then m (s + of_int j) else m (s + of_int p))"
      if "0 \<le> p" "p < 2 ^ 64" for p
      unfolding m2_def fun_upd_def using that 1(2,3) True by (simp add: offset_inject del: of_int_eq_iff add_left_cancel)
    have "reverse_loop m s i j (s + of_int k) = reverse_loop m2 s (i + 1) (j - 1) (s + of_int k)"
      using True by (subst reverse_loop.simps) (simp add: m2_def)
    also have "\<dots> = (if i + 1 \<le> k \<and> k \<le> j - 1 then m2 (s + of_int (i + 1 + (j - 1) - k)) else m2 (s + of_int k))"
      by (rule 1(1) [OF True refl refl refl, folded m2_def]) (use 1(2-5) True in simp_all)
    also have "\<dots> = (if i \<le> k \<and> k \<le> j then m (s + of_int (i + j - k)) else m (s + of_int k))"
      using m2 [of k] m2 [of "i + j - k"] 1(2-5) True by (auto simp del: of_int_add of_int_diff)
    finally show ?thesis .
  next
    case False
    then show ?thesis by (subst reverse_loop.simps) (auto dest: order_antisym)
  qed
qed

fun put_list :: "mem \<Rightarrow> u64 \<Rightarrow> u8 list \<Rightarrow> mem" where
  "put_list m p [] = m"
| "put_list m p (c # cs) = put_list (m(p := c)) (p + 1) cs"

lemma put_list_snoc: "put_list m p (cs @ [c]) = (put_list m p cs)(p + of_nat (length cs) := c)"
  by (induction cs arbitrary: m p) (simp_all add: add.assoc)

lemma cstr_iff:
  "cstr m a xs \<longleftrightarrow> (\<forall>i < length xs. m (a + of_nat i) = xs ! i) \<and> 0 \<notin> set xs \<and> m (a + of_nat (length xs)) = 0"
proof (induction xs arbitrary: a)
  case (Cons c xs)
  have "(\<forall>i < length (c # xs). m (a + of_nat i) = (c # xs) ! i) \<longleftrightarrow> m a = c \<and> (\<forall>i < length xs. m (a + 1 + of_nat i) = xs ! i)"
    by (auto simp: less_Suc_eq_0_disj add.assoc)
  then show ?case using Cons.IH [of "a + 1"] by (auto simp: add.assoc)
qed simp

lemma put_list_at:
  "length xs < 2 ^ 64 \<Longrightarrow> put_list m p xs x = (if unat (x - p) < length xs then xs ! unat (x - p) else m x)"
proof (induction xs rule: rev_induct)
  case (snoc c xs)
  have n: "unat (of_nat (length xs) :: u64) = length xs" using snoc.prems by (simp add: unat_of_nat)
  have "x = p + of_nat (length xs) \<longleftrightarrow> unat (x - p) = length xs"
    by (metis n add_diff_cancel_left' diff_add_cancel add.commute word_unat_eq_iff)
  then show ?case using snoc by (auto simp: put_list_snoc nth_append)
qed simp

lemma strlen_u_cstr: "cstr m a xs \<Longrightarrow> strlen_u m a = Some (int (length xs))"
proof -
  have "cstr m (a + of_int n) xs \<Longrightarrow> strlen_u_from m a n = Some (n + int (length xs))" for n
  proof (induction xs arbitrary: n)
    case Nil
    then show ?case by (subst strlen_u_from.simps) simp
  next
    case (Cons c xs)
    then show ?case using Cons.IH [of "n + 1"] by (subst strlen_u_from.simps) (auto simp: add.assoc)
  qed
  from this [of 0] show "cstr m a xs \<Longrightarrow> strlen_u m a = Some (int (length xs))" by (simp add: strlen_u_def)
qed

lemma reverse_str_cstr:
  assumes "cstr m a xs" "length xs < 2 ^ 63"
  shows "\<exists>m'. reverse_str m a = Some m' \<and> cstr m' a (rev xs) \<and> (\<forall>x. \<not> in_str a (length xs) x \<longrightarrow> m' x = m x)"
proof -
  let ?n = "length xs" and ?m' = "reverse_loop m a 0 (int (length xs) - 1)"
  have sp: "?m' (a + of_nat k) = (if k < ?n then m (a + of_nat (?n - 1 - k)) else m (a + of_nat k))" if "k < 2 ^ 64" for k
  proof -
    have e: "int ?n - 1 - int k = int (?n - 1 - k)" if "k < ?n" using that by simp
    have "?m' (a + of_int (int k)) = (if k < ?n then m (a + of_int (int (?n - 1 - k))) else m (a + of_int (int k)))"
      using reverse_loop_spec [of 0 "int ?n - 1" "int k" m a] assms(2) that e by (auto simp: diff_diff_eq simp del: of_int_of_nat_eq)
    then show ?thesis by (simp only: of_int_of_nat_eq)
  qed
  have "cstr ?m' a (rev xs)"
    unfolding cstr_iff
  proof (intro conjI allI impI)
    show "?m' (a + of_nat i) = rev xs ! i" if "i < length (rev xs)" for i
      using sp [of i] that assms by (simp add: cstr_iff rev_nth del: of_nat_diff)
    show "0 \<notin> set (rev xs)" using assms(1) by (simp add: cstr_iff)
    show "?m' (a + of_nat (length (rev xs))) = 0" using sp [of ?n] assms by (simp add: cstr_iff)
  qed
  moreover have "?m' x = m x" if "\<not> in_str a ?n x" for x
    using sp [of "unat (x - a)"] that unat_less_2p64 [of "x - a"] by (simp add: in_str_def)
  ultimately show ?thesis using strlen_u_cstr [OF assms(1)] by (simp add: reverse_str_def)
qed

text \<open>The conversions write the digits backwards, end the string and reverse it.\<close>

lemma conversion_cstr:
  assumes "0 \<notin> set xs" "length xs < 2 ^ 63"
  shows "\<exists>m'. reverse_str ((put_list m b xs)(b + of_nat (length xs) := 0)) b = Some m' \<and> cstr m' b (rev xs) \<and>
     (\<forall>x. \<not> in_str b (length xs) x \<longrightarrow> m' x = m x)"
proof -
  let ?m = "(put_list m b xs)(b + of_nat (length xs) := 0)"
  have n: "unat (of_nat i :: u64) = i" if "i \<le> length xs" for i using that assms(2) by (simp add: unat_of_nat)
  have ne: "b + of_nat i \<noteq> b + (of_nat (length xs) :: u64)" if "i < length xs" for i
    using that n [of i] n [of "length xs"] by (metis add_left_cancel less_irrefl less_imp_le order_refl)
  have "cstr ?m b xs" unfolding cstr_iff using ne n assms by (auto simp: put_list_at)
  from reverse_str_cstr [OF this assms(2)] obtain m' where
    m': "reverse_str ?m b = Some m'" "cstr m' b (rev xs)" "\<forall>x. \<not> in_str b (length xs) x \<longrightarrow> m' x = ?m x" by blast
  have "?m x = m x" if "\<not> in_str b (length xs) x" for x
    using that n [of "length xs"] assms(2) by (auto simp: in_str_def put_list_at)
  then show ?thesis using m' by auto
qed


section \<open>Printing and reading numbers\<close>

text \<open>The digits of a number, the lowest first, and the text of a number.\<close>

function dec_rev :: "u32 \<Rightarrow> u8 list" where
  "dec_rev v = (if v = 0 then [] else (0x30 + ucast (v mod 10)) # dec_rev (v div 10))"
  by pat_completeness auto
termination by (relation "measure unat") (auto simp: unat_div unat_gt_0)

function hex_rev :: "u64 \<Rightarrow> u8 list" where
  "hex_rev v = (if v = 0 then [] else hex_digit (v AND 0xF) # hex_rev (drop_bit 4 v))"
  by pat_completeness auto
termination by (relation "measure unat") (auto simp: drop_bit_eq_div unat_div unat_gt_0)

declare dec_rev.simps [simp del] hex_rev.simps [simp del]

definition uint_text :: "u32 \<Rightarrow> u8 list" where "uint_text v = (if v = 0 then [0x30] else rev (dec_rev v))"
definition hex_text :: "u64 \<Rightarrow> u8 list" where "hex_text v = (if v = 0 then [0x30] else rev (hex_rev v))"
definition int_text :: "u32 \<Rightarrow> u8 list" where "int_text v = (if sint v < 0 then 0x2D # uint_text (- v) else uint_text v)"

lemma put_dec_list: "put_dec m p v = (p + of_nat (length (dec_rev v)), put_list m p (dec_rev v))"
proof (induction m p v rule: put_dec.induct)
  case (1 m p v)
  then show ?case using put_dec.simps [of m p v] dec_rev.simps [of v] by (cases "v = 0") (simp_all add: add.assoc fun_upd_def)
qed

lemma put_hex_list: "put_hex m p v = (p + of_nat (length (hex_rev v)), put_list m p (hex_rev v))"
proof (induction m p v rule: put_hex.induct)
  case (1 m p v)
  then show ?case using put_hex.simps [of m p v] hex_rev.simps [of v] by (cases "v = 0") (simp_all add: add.assoc fun_upd_def)
qed

lemma dec_digit:
  fixes v :: u32
  shows "(0x30 + ucast (v mod 10) :: u8) - 0x30 = ucast (v mod 10)" "0x30 \<le> (0x30 + ucast (v mod 10) :: u8)" "(0x30 + ucast (v mod 10) :: u8) \<le> 0x39"
proof -
  have "unat (v mod 10) < 10" by (simp add: unat_mod)
  then have "unat (ucast (v mod 10) :: u8) < 10" by (simp add: unsigned_ucast_eq take_bit_eq_mod)
  then show "(0x30 + ucast (v mod 10) :: u8) - 0x30 = ucast (v mod 10)" "0x30 \<le> (0x30 + ucast (v mod 10) :: u8)"
    "(0x30 + ucast (v mod 10) :: u8) \<le> 0x39"
    by (simp_all add: word_le_nat_alt unat_word_ariths)
qed

lemma dec_rev_digits: "c \<in> set (dec_rev v) \<Longrightarrow> 0x30 \<le> c \<and> c \<le> 0x39"
proof (induction v rule: dec_rev.induct)
  case (1 v)
  then show ?case using dec_digit [of v] dec_rev.simps [of v] by (cases "v = 0") auto
qed

lemma dec_rev_length: "unat v < 10 ^ n \<Longrightarrow> length (dec_rev v) \<le> n"
proof (induction v arbitrary: n rule: dec_rev.induct)
  case (1 v)
  show ?case
  proof (cases "v = 0")
    case False
    then obtain n' where n: "n = Suc n'" using 1(2) unat_gt_0 [of v] by (cases n) auto
    have "unat (v div 10) < 10 ^ n'" using 1(2) n by (simp add: unat_div)
    then show ?thesis using 1(1) [OF False, of n'] n False by (subst dec_rev.simps) simp
  qed (simp add: dec_rev.simps [of 0])
qed

lemma dec_rev_10: "length (dec_rev v) \<le> 10"
  using dec_rev_length [of v 10] unsigned_less [of v, where ?'a = nat] by simp


lemma hex_digit_pos: "hex_digit (v AND 0xF) \<noteq> 0"
proof -
  have "v AND 0xF < 16" using word_and_le1 [of v "0xF"] by (simp add: word_less_nat_alt word_le_nat_alt)
  then have "unat (v AND 0xF) < 16" by (simp add: word_less_nat_alt)
  then have "unat (ucast (v AND 0xF) :: u8) < 16" "unat (ucast ((v AND 0xF) - 10) :: u8) < 6 \<or> v AND 0xF < 10"
    by (auto simp: unsigned_ucast_eq take_bit_eq_mod word_less_nat_alt unat_sub_if')
  then show ?thesis
    by (auto simp: hex_digit_def word_unat_eq_iff [where 'a = 8] unat_word_ariths)
qed

lemma hex_rev_facts: "0 \<notin> set (hex_rev v) \<and> (unat v < 16 ^ n \<longrightarrow> length (hex_rev v) \<le> n)"
proof (induction v arbitrary: n rule: hex_rev.induct)
  case (1 v)
  show ?case
  proof (cases "v = 0")
    case False
    have "length (hex_rev v) \<le> n" if lt: "unat v < 16 ^ n"
    proof -
      obtain n' where n: "n = Suc n'" using lt False unat_gt_0 [of v] by (cases n) auto
      have "unat (drop_bit 4 v) < 16 ^ n'" using lt n by (simp add: drop_bit_eq_div unat_div)
      then show ?thesis using 1 [OF False, of n'] n False hex_rev.simps [of v] by simp
    qed
    then show ?thesis using 1 [OF False] False hex_rev.simps [of v] hex_digit_pos [of v] by auto
  qed (simp add: hex_rev.simps [of 0])
qed

lemma hex_rev_16: "0 \<notin> set (hex_rev v)" "length (hex_rev v) \<le> 16"
  using hex_rev_facts [of v 16] unat_less_2p64 [of v] by simp_all

lemma dec_rev_no_0: "0 \<notin> set (dec_rev v)"
  using dec_rev_digits [of 0 v] by auto

text \<open>A conversion into the buffer at \<open>b\<close> leaves the text there and changes at most 20 bytes.\<close>

definition writes_text :: "mem \<Rightarrow> u64 \<Rightarrow> u8 list \<Rightarrow> mem option \<Rightarrow> bool" where
  "writes_text m b t r \<longleftrightarrow> (\<exists>m'. r = Some m' \<and> cstr m' b t \<and> (\<forall>x. \<not> in_str b 19 x \<longrightarrow> m' x = m x))"

lemma writes_textI:
  assumes "r = reverse_str ((put_list m b xs)(b + of_nat (length xs) := 0)) b" "0 \<notin> set xs" "length xs \<le> 19" "t = rev xs"
  shows "writes_text m b t r"
proof -
  obtain m' where m': "r = Some m'" "cstr m' b t" "\<forall>x. \<not> in_str b (length xs) x \<longrightarrow> m' x = m x"
    using conversion_cstr [OF assms(2), of m b] assms by auto
  have "in_str b 19 x" if "in_str b (length xs) x" for x using that assms(3) by (simp add: in_str_def)
  then show ?thesis using m' unfolding writes_text_def by blast
qed

lemma utoa_text: "writes_text m b (uint_text v) (utoa m v b)"
proof (rule writes_textI)
  let ?xs = "if v = 0 then [0x30] else dec_rev v"
  show "utoa m v b = reverse_str ((put_list m b ?xs)(b + of_nat (length ?xs) := 0)) b"
    by (simp add: utoa_def put_dec_list)
  show "0 \<notin> set ?xs" "length ?xs \<le> 19" "uint_text v = rev ?xs"
    using dec_rev_no_0 dec_rev_10 [of v] by (auto simp: uint_text_def)
qed

lemma itox_text: "writes_text m b (hex_text (ucast v)) (itox m v b)"
proof (rule writes_textI)
  let ?xs = "if v = 0 then [0x30] else hex_rev (ucast v)"
  show "itox m v b = reverse_str ((put_list m b ?xs)(b + of_nat (length ?xs) := 0)) b"
    by (simp add: itox_def put_hex_list)
  have "(ucast v :: u64) = 0 \<longleftrightarrow> v = 0" using bit_imp_le_length [of v] by (force simp: bit_eq_iff bit_ucast_iff)
  then show "0 \<notin> set ?xs" "length ?xs \<le> 19" "hex_text (ucast v) = rev ?xs"
    using hex_rev_16 [of "ucast v"] by (auto simp: hex_text_def)
qed

lemma itoa_text: "writes_text m b (int_text v) (itoa m v b)"
proof (rule writes_textI)
  let ?u = "if sint v < 0 then - v else v"
  let ?ds = "if ?u = 0 then [0x30] else dec_rev ?u"
  let ?xs = "if sint v < 0 then ?ds @ [0x2D] else ?ds"
  show "itoa m v b = reverse_str ((put_list m b ?xs)(b + of_nat (length ?xs) := 0)) b"
    by (simp add: itoa_def put_dec_list put_list_snoc Let_def add.assoc add.commute [of 1])
  show "0 \<notin> set ?xs" "length ?xs \<le> 19" "int_text v = rev ?xs"
    using dec_rev_no_0 dec_rev_10 [of ?u] by (auto simp: int_text_def uint_text_def)
qed

lemma take_digits_cstr:
  "cstr m s ds \<Longrightarrow> (\<And>c. c \<in> set ds \<Longrightarrow> 0x30 \<le> c \<and> c \<le> 0x39) \<Longrightarrow>
     take_digits m s v = Some (foldl (\<lambda>v d. v * 10 + ucast (d - 0x30)) v ds)"
proof (induction ds arbitrary: s v)
  case Nil
  then show ?case by (subst take_digits.simps) simp
next
  case (Cons c ds)
  then show ?case by (subst take_digits.simps) auto
qed

lemma dec_rev_value: "foldl (\<lambda>v d. v * 10 + ucast (d - 0x30)) 0 (rev (dec_rev v)) = v"
proof (induction v rule: dec_rev.induct)
  case (1 v)
  have "(ucast (ucast (v mod 10) :: u8) :: u32) = v mod 10"
  proof -
    have "unat (v mod 10) < 10" by (simp add: unat_mod)
    then show ?thesis by (simp add: word_unat_eq_iff unsigned_ucast_eq take_bit_eq_mod unat_mod)
  qed
  then show ?case using 1 dec_rev.simps [of v] dec_digit(1) [of v]
    by (cases "v = 0") (simp_all add: mult_div_mod_eq mult.commute)
qed

lemma uint_text_value:
  "c \<in> set (uint_text v) \<Longrightarrow> 0x30 \<le> c \<and> c \<le> 0x39" "foldl (\<lambda>v d. v * 10 + ucast (d - 0x30)) 0 (uint_text v) = v"
  using dec_rev_digits [of c v] dec_rev_value [of v] by (auto simp: uint_text_def split: if_splits)

text \<open>
  \<open>atoi\<close> reads back what \<open>itoa\<close> wrote, for every 32 bit value, the smallest one included.
\<close>

theorem itoa_atoi: "\<exists>m'. itoa m val b = Some m' \<and> atoi m' b = Some val"
proof -
  obtain m' where m': "itoa m val b = Some m'" "cstr m' b (int_text val)"
    using itoa_text [of m b val] unfolding writes_text_def by blast
  show ?thesis
  proof (cases "sint val < 0")
    case True
    then have c: "m' b = 0x2D" "cstr m' (b + 1) (uint_text (- val))" using m'(2) by (simp_all add: int_text_def)
    have "take_digits m' (b + 1) 0 = Some (- val)"
      using take_digits_cstr [OF c(2)] uint_text_value by metis
    then show ?thesis using m'(1) c(1) by (simp add: atoi_def skip_blanks.simps)
  next
    case False
    then have c: "cstr m' b (uint_text val)" using m'(2) by (simp add: int_text_def)
    obtain d ds where d: "uint_text val = d # ds" by (cases "uint_text val") (auto simp: uint_text_def dec_rev.simps [of val] split: if_splits)
    then have "0x30 \<le> m' b" "m' b \<le> 0x39" using c uint_text_value(1) [of d val] by auto
    then have h: "m' b \<noteq> 0x20" "m' b \<noteq> 0x2D" "m' b \<noteq> 0x2B" by auto
    have "take_digits m' b 0 = Some val"
      using take_digits_cstr [OF c] uint_text_value by metis
    then show ?thesis using m'(1) h by (simp add: atoi_def skip_blanks.simps)
  qed
qed


section \<open>Formatted output\<close>

text \<open>
  What a format asks for. The strings that \<open>%s\<close> refers to are given by \<open>strs\<close>; a format that ends in the middle
  of a conversion or lacks an argument asks for nothing.
\<close>

definition render_one :: "(u64 \<rightharpoonup> u8 list) \<Rightarrow> u8 \<Rightarrow> u64 list \<Rightarrow> (u8 list \<times> u64 list) option" where
  "render_one strs c ap =
     (if c = 0x64 then do { (a, ap1) \<leftarrow> va_arg ap; Some (int_text (ucast a), ap1) }
      else if c = 0x75 then do { (a, ap1) \<leftarrow> va_arg ap; Some (uint_text (ucast a), ap1) }
      else if c = 0x78 \<or> c = 0x58 then do { (a, ap1) \<leftarrow> va_arg ap; Some (hex_text (ucast (ucast a :: u32)), ap1) }
      else if c = 0x73 then do { (a, ap1) \<leftarrow> va_arg ap; t \<leftarrow> strs a; Some (t, ap1) }
      else if c = 0x63 then do { (a, ap1) \<leftarrow> va_arg ap; Some ([ucast a], ap1) }
      else if c = 0x70 then do { (a, ap1) \<leftarrow> va_arg ap; Some ([0x30, 0x78] @ hex_text a, ap1) }
      else if c = 0x25 then Some ([0x25], ap)
      else Some ([0x25, c], ap))"

fun render :: "(u64 \<rightharpoonup> u8 list) \<Rightarrow> u8 list \<Rightarrow> u64 list \<Rightarrow> u8 list option" where
  "render strs [] ap = Some []"
| "render strs [c] ap = (if c = 0x25 then None else Some [c])"
| "render strs (c # d # f) ap =
     (if c = 0x25 then do { (t, ap1) \<leftarrow> render_one strs d ap; ts \<leftarrow> render strs f ap1; Some (t @ ts) }
      else do { ts \<leftarrow> render strs (d # f) ap; Some (c # ts) })"

text \<open>A string that the local buffer of the conversions does not touch.\<close>

definition safe_str :: "uio \<Rightarrow> u64 \<Rightarrow> u8 list \<Rightarrow> bool" where
  "safe_str s p t \<longleftrightarrow> cstr (umem s) p t \<and> (\<forall>x. in_str p (length t) x \<longrightarrow> \<not> in_str (ulocal s) 19 x)"

text \<open>The new state has the text appended and differs otherwise only in the local buffer.\<close>

definition emits :: "uio \<Rightarrow> u8 list \<Rightarrow> uio \<Rightarrow> bool" where
  "emits s t s' \<longleftrightarrow> uout s' = None \<and> ulocal s' = ulocal s \<and> ustdout s' = ustdout s @ t \<and>
     (\<forall>x. \<not> in_str (ulocal s) 19 x \<longrightarrow> umem s' x = umem s x)"

lemma emits_trans: "emits s t s1 \<Longrightarrow> emits s1 u s2 \<Longrightarrow> emits s (t @ u) s2"
  by (simp add: emits_def)

lemma emits_char: "uout s = None \<Longrightarrow> emits s [c] (put_char_to s c)"
  by (simp add: emits_def put_char_to_def putchar_def)

lemma emits_two: "uout s = None \<Longrightarrow> emits s [a, b] (put_char_to (put_char_to s a) b)"
  by (simp add: emits_def put_char_to_def putchar_def)

lemma emits_safe: "emits s t s' \<Longrightarrow> safe_str s p u \<Longrightarrow> safe_str s' p u"
  using cstr_cong [of p u "umem s" "umem s'"] by (auto simp: emits_def safe_str_def)

lemma put_str_to_emits:
  "cstr (umem s) p t \<Longrightarrow> uout s = None \<Longrightarrow> put_str_to s p = Some (s\<lparr>ustdout := ustdout s @ t\<rparr>)"
proof (induction t arbitrary: s p)
  case Nil
  then show ?case by (subst put_str_to.simps) simp
next
  case (Cons c t)
  then show ?case
    using Cons.IH [of "put_char_to s c" "p + 1"]
    by (subst put_str_to.simps) (auto simp: put_char_to_def putchar_def)
qed

lemma conversion_emits:
  assumes "writes_text (umem s) (ulocal s) t r" "uout s = None"
  shows "\<exists>s'. do { m \<leftarrow> r; put_str_to (s\<lparr>umem := m\<rparr>) (ulocal s) } = Some s' \<and> emits s t s'"
proof -
  obtain m' where m': "r = Some m'" "cstr m' (ulocal s) t" "\<forall>x. \<not> in_str (ulocal s) 19 x \<longrightarrow> m' x = umem s x"
    using assms(1) by (auto simp: writes_text_def)
  then show ?thesis using put_str_to_emits [of "s\<lparr>umem := m'\<rparr>" "ulocal s" t] assms(2) by (simp add: emits_def)
qed

lemma put_ptr_emits:
  assumes "uout s = None"
  shows "\<exists>s'. put_ptr_to s v = Some s' \<and> emits s ([0x30, 0x78] @ hex_text v) s'"
proof -
  define s1 where "s1 = put_char_to (put_char_to s 0x30) 0x78"
  have s1: "emits s [0x30, 0x78] s1" unfolding s1_def using assms by (rule emits_two)
  then have o1: "uout s1 = None" by (simp add: emits_def)
  show ?thesis
  proof (cases "v = 0")
    case True
    then show ?thesis using emits_trans [OF s1 emits_char [OF o1]] by (simp add: put_ptr_to_def s1_def hex_text_def)
  next
    case False
    let ?r = "reverse_str ((put_list (umem s1) (ulocal s1) (hex_rev v))(ulocal s1 + of_nat (length (hex_rev v)) := 0)) (ulocal s1)"
    have "writes_text (umem s1) (ulocal s1) (hex_text v) ?r"
      using hex_rev_16 [of v] False by (intro writes_textI [OF refl]) (auto simp: hex_text_def)
    then obtain s' where "do { m \<leftarrow> ?r; put_str_to (s1\<lparr>umem := m\<rparr>) (ulocal s1) } = Some s'" "emits s1 (hex_text v) s'"
      using conversion_emits o1 by blast
    then show ?thesis using emits_trans [OF s1] False by (auto simp: put_ptr_to_def put_hex_list s1_def [symmetric] Let_def)
  qed
qed

lemma format_one_emits:
  assumes "render_one strs c ap = Some (t, ap')" "uout s = None" "\<And>p u. strs p = Some u \<Longrightarrow> safe_str s p u"
  shows "\<exists>s'. format_one s c ap = Some (s', ap') \<and> emits s t s'"
proof -
  have conv: "\<exists>s'. put_int_to s v = Some s' \<and> emits s (int_text v) s'" "\<exists>s'. put_uint_to s v = Some s' \<and> emits s (uint_text v) s'"
    "\<exists>s'. put_hex_to s v = Some s' \<and> emits s (hex_text (ucast v)) s'" for v
    using conversion_emits itoa_text utoa_text itox_text assms(2) unfolding put_int_to_def put_uint_to_def put_hex_to_def by blast+
  have str: "\<exists>s'. put_str_to s p = Some s' \<and> emits s u s'" if "strs p = Some u" for p u
    using put_str_to_emits [of s p u] assms(2) assms(3) [OF that] by (auto simp: safe_str_def emits_def)
  show ?thesis
    using assms(1) conv [of "ucast (hd ap)"] str [of "hd ap"] put_ptr_emits [OF assms(2), of "hd ap"] emits_char [OF assms(2)] emits_two [OF assms(2)]
    unfolding render_one_def format_one_def va_arg_def
    by (cases ap) (auto simp: bind_eq_Some_conv split: if_splits)
qed

lemma vprintf_emits:
  "cstr (umem s) fmt f \<Longrightarrow> (\<forall>x. in_str fmt (length f) x \<longrightarrow> \<not> in_str (ulocal s) 19 x) \<Longrightarrow> uout s = None \<Longrightarrow>
     (\<forall>p u. strs p = Some u \<longrightarrow> safe_str s p u) \<Longrightarrow> render strs f ap = Some t \<Longrightarrow>
     \<exists>s'. vprintf s fmt ap = Some s' \<and> emits s t s'"
proof (induction strs f ap arbitrary: s fmt t rule: render.induct)
  case (1 strs ap)
  then show ?case by (subst vprintf.simps) (simp add: emits_def)
next
  case (2 strs c ap)
  then have "vprintf s fmt ap = Some (put_char_to s c)"
    by (subst vprintf.simps, subst vprintf.simps) (auto simp: put_char_to_def putchar_def split: if_splits)
  then show ?case using 2 emits_char [of s c] by (auto split: if_splits)
next
  case (3 strs c d f ap)
  have keep: "cstr (umem s1) q g \<and> (\<forall>x. in_str q (length g) x \<longrightarrow> \<not> in_str (ulocal s1) 19 x) \<and> uout s1 = None \<and> (\<forall>p u. strs p = Some u \<longrightarrow> safe_str s1 p u)"
    if "emits s u s1" "safe_str s q g" for s1 u q g
    using that emits_safe [OF that(1)] 3(6) by (auto simp: safe_str_def emits_def)
  have tails: "safe_str s (fmt + 1) (d # f)" "safe_str s (fmt + 2) f"
    using 3(3,4) by (auto simp: safe_str_def in_str_simps add.assoc)
  show ?case
  proof (cases "c = 0x25")
    case True
    then obtain t1 ap1 ts where r: "render_one strs d ap = Some (t1, ap1)" "render strs f ap1 = Some ts" "t = t1 @ ts"
      using 3(7) by (auto simp: bind_eq_Some_conv)
    obtain s1 where s1: "format_one s d ap = Some (s1, ap1)" "emits s t1 s1"
      using format_one_emits [OF r(1) 3(5)] 3(6) by blast
    obtain s2 where s2: "vprintf s1 (fmt + 2) ap1 = Some s2" "emits s1 ts s2"
      using 3(1) [OF True r(1) refl] keep [OF s1(2) tails(2)] r(2) by blast
    have "vprintf s fmt ap = Some s2" using 3(3) True s1(1) s2(1) by (subst vprintf.simps) simp
    then show ?thesis using emits_trans [OF s1(2) s2(2)] r(3) by blast
  next
    case False
    then obtain ts where r: "render strs (d # f) ap = Some ts" "t = c # ts" using 3(7) by (auto simp: bind_eq_Some_conv)
    have s1: "emits s [c] (put_char_to s c)" using 3(5) by (rule emits_char)
    obtain s2 where s2: "vprintf (put_char_to s c) (fmt + 1) ap = Some s2" "emits (put_char_to s c) ts s2"
      using 3(2) [OF False] keep [OF s1 tails(1)] r(1) by blast
    have "vprintf s fmt ap = Some s2" using 3(3) False s2(1) by (subst vprintf.simps) simp
    then show ?thesis using emits_trans [OF s1 s2(2)] r(2) by auto
  qed
qed

text \<open>
  C18: \<open>printf\<close> returns and writes exactly the text its format and arguments ask for, when the format and the strings it
  refers to lie outside the buffer of the conversions; memory changes only in that buffer.
\<close>

theorem printf_spec:
  assumes "safe_str s fmt f" "\<And>p u. strs p = Some u \<Longrightarrow> safe_str s p u" "render strs f ap = Some t"
  shows "\<exists>s'. printf s fmt ap = Some s' \<and> ustdout s' = ustdout s @ t \<and> (\<forall>x. \<not> in_str (ulocal s) 19 x \<longrightarrow> umem s' x = umem s x)"
proof -
  let ?s = "s\<lparr>uout := None\<rparr>"
  obtain s' where "vprintf ?s fmt ap = Some s'" "emits ?s t s'"
    using vprintf_emits [of ?s fmt f strs ap t] assms by (auto simp: safe_str_def)
  then show ?thesis by (simp add: printf_def emits_def)
qed

text \<open>The format \<open>%u!\<close> at 0x1000.\<close>

definition demo_uio :: uio where
  "demo_uio = \<lparr>umem = put_list (\<lambda>_. 0) 0x1000 [0x25, 0x75, 0x21], ustdout = [], uout = None, ulocal = 0x8000\<rparr>"

lemma printf_spec_witness: "\<exists>s'. printf demo_uio 0x1000 [7] = Some s' \<and> ustdout s' = [0x37, 0x21]"
proof -
  have in3: "in_str 0x1000 (length [0x25, 0x75, 0x21 :: u8]) x \<longleftrightarrow> x = 0x1000 \<or> x = 0x1001 \<or> x = 0x1002 \<or> x = 0x1003" for x
    by (auto simp: in_str_simps)
  have s: "safe_str demo_uio 0x1000 [0x25, 0x75, 0x21]"
    unfolding safe_str_def in3 by (auto simp: demo_uio_def in_str_def)
  have "dec_rev 7 = [0x37]" by (simp add: dec_rev.simps [of 7] dec_rev.simps [of 0])
  then have "render Map.empty [0x25, 0x75, 0x21] [7] = Some [0x37, 0x21]"
    by (simp add: render_one_def va_arg_def uint_text_def)
  from printf_spec [OF s _ this] show ?thesis by (auto simp: demo_uio_def)
qed

section \<open>Comparing strings\<close>

text \<open>
  The \<open>strncmp\<close> of the user library takes two strings for equal when they agree up to the end of the shorter one
  within the first \<open>n\<close> bytes, so a string equals each of its prefixes.
\<close>

theorem strncmp_u_zero:
  assumes "cstr m a s" "cstr m b t" "0 \<le> n"
  defines "k \<equiv> min (nat n) (min (length s) (length t))"
  shows "strncmp_u m a b n = 0 \<longleftrightarrow> take k s = take k t"
proof -
  have "strncmp_u_loop m a b j = 0 \<longleftrightarrow> take (min j (min (length s) (length t))) s = take (min j (min (length s) (length t))) t" for j
    using assms(1,2)
  proof (induction j arbitrary: a b s t)
    case (Suc j)
    show ?case
    proof (cases "s = [] \<or> t = []")
      case False
      then obtain c s' d t' where st: "s = c # s'" "t = d # t'" by (meson neq_Nil_conv)
      then show ?thesis using Suc.prems Suc.IH [of "a + 1" s' "b + 1" t'] word_uint_eq_iff [of c d] by auto
    qed (use Suc.prems in auto)
  qed simp
  then show ?thesis by (simp add: strncmp_u_def k_def)
qed

lemma strncmp_u_zero_witness: "strncmp_u (put_list (\<lambda>_. 0) 0x1000 [0x61, 0, 0x61, 0x62]) 0x1000 0x1002 2 = 0"
  using strncmp_u_zero [of "put_list (\<lambda>_. 0) 0x1000 [0x61, 0, 0x61, 0x62]" "0x1000" "[0x61]" "0x1002" "[0x61, 0x62]" 2] by simp

section \<open>The allocator on this kernel\<close>

text \<open>The library's \<open>sys_brk\<close> as the kernel answers it.\<close>

definition kernel_brk :: "'d env \<Rightarrow> 'd kernel \<Rightarrow> u64 \<Rightarrow> u64 \<times> 'd kernel" where
  "kernel_brk env k a = (case syscall_handler_c env (call_regs 17 a 0 0) k of Some (r, k') \<Rightarrow> (r_rax r, k') | None \<Rightarrow> (0, k))"

text \<open>
  With the \<open>brk\<close> call of this kernel the first \<open>malloc\<close> of a program does not return: the heap is set up at
  the null pointer and its first store is a page fault.
\<close>

theorem malloc_faults:
  assumes "\<not> heap_inited h" "sz \<noteq> 0"
  shows "malloc (kernel_brk env) sz h = None"
proof -
  have "kernel_brk env k a = (0, k)" for k a
    by (simp add: kernel_brk_def syscall_handler_c_def sys_brk_def ret_def call_regs_def)
  then show ?thesis using assms by (simp add: malloc_def heap_init_u_def new_block_def)
qed

definition fresh_uheap :: "unit kernel uheap" where
  "fresh_uheap = \<lparr>hmem = (\<lambda>_. 0), heap_base = 0, heap_end = 0, heap_inited = False, kst = file_kernel\<rparr>"

lemma malloc_faults_witness: "malloc (kernel_brk idle_env) 64 fresh_uheap = None"
  by (rule malloc_faults) (simp_all add: fresh_uheap_def)

end
