(* ===== verification/Net.thy ===== *)
theory Net
  imports Bytes "HOL-Library.Monad_Syntax"
begin

text \<open>
  The network stack of \<^verbatim>\<open>net/net.c\<close>: checksums, IPv4, UDP, a TCP client for one HTTP request, DHCP, ARP,
  ICMP echo and DNS. The static variables are the record \<open>net\<close>. A received packet is the memory from its first byte
  on, a function of the offset, together with the length the driver reports: the code can read past that length.
  Frames given to \<open>rtl8139_send\<close> are appended to \<open>sent\<close>; messages on the serial line are left out. Packed
  structures are the list of their bytes, fields read and written little endian as the CPU does.
\<close>

section \<open>Constants and headers\<close>

definition bswap16 :: "u16 \<Rightarrow> u16" where "bswap16 v = push_bit 8 v OR drop_bit 8 v"

definition bswap32 :: "u32 \<Rightarrow> u32" where
  "bswap32 v = push_bit 24 (v AND 0xFF) OR push_bit 8 (v AND 0xFF00) OR drop_bit 8 (v AND 0xFF0000) OR drop_bit 24 (v AND 0xFF000000)"

definition NET_IP :: "u32 \<Rightarrow> u32 \<Rightarrow> u32 \<Rightarrow> u32 \<Rightarrow> u32" where
  "NET_IP a b c d = a OR push_bit 8 b OR push_bit 16 c OR push_bit 24 d"

definition ETH_P_ARP :: u16 where "ETH_P_ARP = 0x0806"
definition ETH_P_IP :: u16 where "ETH_P_IP = 0x0800"
definition IP_PROTO_ICMP :: u8 where "IP_PROTO_ICMP = 1"
definition IP_PROTO_TCP :: u8 where "IP_PROTO_TCP = 6"
definition IP_PROTO_UDP :: u8 where "IP_PROTO_UDP = 17"
definition DHCP_CLIENT_PORT :: u16 where "DHCP_CLIENT_PORT = 68"
definition DHCP_SERVER_PORT :: u16 where "DHCP_SERVER_PORT = 67"
definition DHCP_XID :: u32 where "DHCP_XID = 0xE900C0DE"
definition DHCP_MAGIC :: u32 where "DHCP_MAGIC = 0x63825363"
definition DHCP_DISCOVER :: int where "DHCP_DISCOVER = 1"
definition DHCP_OFFER :: int where "DHCP_OFFER = 2"
definition DHCP_REQUEST :: int where "DHCP_REQUEST = 3"
definition DHCP_ACK :: int where "DHCP_ACK = 5"
definition DNS_PORT :: u16 where "DNS_PORT = 53"
definition DNS_CLIENT_PORT :: u16 where "DNS_CLIENT_PORT = 49153"
definition DNS_XID :: u16 where "DNS_XID = 0xE901"
definition TCP_HTTP_PORT :: u16 where "TCP_HTTP_PORT = 80"
definition TCP_CLIENT_PORT :: u16 where "TCP_CLIENT_PORT = 49154"
definition TCP_FLAG_FIN :: u8 where "TCP_FLAG_FIN = 0x01"
definition TCP_FLAG_SYN :: u8 where "TCP_FLAG_SYN = 0x02"
definition TCP_FLAG_RST :: u8 where "TCP_FLAG_RST = 0x04"
definition TCP_FLAG_PSH :: u8 where "TCP_FLAG_PSH = 0x08"
definition TCP_FLAG_ACK :: u8 where "TCP_FLAG_ACK = 0x10"
definition TCP_RETRY_TICKS :: u32 where "TCP_RETRY_TICKS = 200000"
definition TCP_MAX_RETRIES :: int where "TCP_MAX_RETRIES = 3"
definition HTTP_BODY_BUF_SIZE :: nat where "HTTP_BODY_BUF_SIZE = 512"

text \<open>The bytes of the headers, in the order of their fields.\<close>

definition eth_hdr :: "u8 list \<Rightarrow> u8 list \<Rightarrow> u16 \<Rightarrow> u8 list" where
  "eth_hdr dst src ty = dst @ src @ le_bytes 2 (bswap16 ty)"

definition ipv4_hdr :: "u16 \<Rightarrow> u16 \<Rightarrow> u8 \<Rightarrow> u16 \<Rightarrow> u32 \<Rightarrow> u32 \<Rightarrow> u8 list" where
  "ipv4_hdr total_len ident proto cksum src dst =
     [0x45, 0] @ le_bytes 2 (bswap16 total_len) @ le_bytes 2 (bswap16 ident) @ le_bytes 2 (bswap16 0x4000) @ [64, proto] @
     le_bytes 2 cksum @ le_bytes 4 src @ le_bytes 4 dst"

definition udp_hdr :: "u16 \<Rightarrow> u16 \<Rightarrow> u16 \<Rightarrow> u8 list" where
  "udp_hdr src_port dst_port ulen = le_bytes 2 (bswap16 src_port) @ le_bytes 2 (bswap16 dst_port) @ le_bytes 2 (bswap16 ulen) @ le_bytes 2 (0 :: u16)"

definition tcp_hdr :: "u32 \<Rightarrow> u32 \<Rightarrow> u8 \<Rightarrow> u16 \<Rightarrow> u8 list" where
  "tcp_hdr seq ack flags cksum =
     le_bytes 2 (bswap16 TCP_CLIENT_PORT) @ le_bytes 2 (bswap16 TCP_HTTP_PORT) @ le_bytes 4 (bswap32 seq) @ le_bytes 4 (bswap32 ack) @
     [push_bit 4 5, flags] @ le_bytes 2 (bswap16 4096) @ le_bytes 2 cksum @ le_bytes 2 (0 :: u16)"

section \<open>State\<close>

record net =
  g_mac :: "u8 list"
  g_gateway_mac :: "u8 list"
  g_gateway_known :: bool
  g_dhcp_configured :: bool
  g_dhcp_requested :: bool
  g_dns_requested :: bool
  g_tcp_state :: int
  g_http_ok :: bool
  g_ip_id :: u16
  g_icmp_seq :: u16
  g_dns_host :: "u8 list"
  g_local_ip :: u32
  g_gateway_ip :: u32
  g_dns_ip :: u32
  g_dns_answer_ip :: u32
  g_dhcp_server_ip :: u32
  g_offered_ip :: u32
  g_tcp_remote_ip :: u32
  g_tcp_seq :: u32
  g_tcp_ack :: u32
  g_tcp_get_seq :: u32
  g_tcp_get_len :: u32
  g_tcp_wait_ticks :: u32
  g_tcp_retries :: int
  g_http_bytes :: u32
  g_http_chunks :: u32
  g_http_headers_done :: bool
  g_http_body_printed :: bool
  g_http_body :: "u8 list"
  g_http_body_len :: u32
  g_http_host :: "u8 list"
  g_ping_replied :: bool
  sent :: "u8 list list"
  after_literal :: u8

text \<open>
  \<open>g_http_body\<close> is the array of 512 bytes; the two host names are the bytes before the terminating zero.
  \<open>after_literal\<close> is the byte that follows a string literal of \<open>tcp_http_send_get\<close> in memory.
\<close>

definition rtl8139_send :: "u8 list \<Rightarrow> net \<Rightarrow> net" where
  "rtl8139_send pkt n = (if length pkt < 14 \<or> length pkt > 1792 then n else n\<lparr>sent := sent n @ [pkt]\<rparr>)"

section \<open>Checksums\<close>

fun sum16 :: "u32 \<Rightarrow> u8 list \<Rightarrow> u32" where
  "sum16 s (a # b # ds) = sum16 (s + (push_bit 8 (ucast a) OR ucast b)) ds"
| "sum16 s [a] = s + push_bit 8 (ucast a)"
| "sum16 s [] = s"

lemma fold16_less: "drop_bit 16 s \<noteq> 0 \<Longrightarrow> unat ((s AND 0xFFFF) + drop_bit 16 s :: u32) < unat s"
proof -
  assume "drop_bit 16 s \<noteq> 0"
  have d: "unat (drop_bit 16 s) = unat s div 65536" by (simp add: drop_bit_eq_div unat_div)
  then have pos: "0 < unat s div 65536" using \<open>drop_bit 16 s \<noteq> 0\<close> by (metis unat_gt_0)
  have "s AND 0xFFFF = take_bit 16 s" by (simp add: take_bit_eq_mask mask_numeral)
  then have m: "unat (s AND 0xFFFF) = unat s mod 65536" by (simp add: take_bit_eq_mod unat_mod)
  have "unat s < 4294967296" using unsigned_less [of s, where ?'a = nat] by simp
  then have "unat ((s AND 0xFFFF) + drop_bit 16 s) = unat s mod 65536 + unat s div 65536"
    using d m by (simp add: unat_word_ariths)
  moreover have "unat s = 65536 * (unat s div 65536) + unat s mod 65536" by simp
  ultimately show ?thesis using pos by linarith
qed

function fold16 :: "u32 \<Rightarrow> u32" where
  "fold16 s = (if drop_bit 16 s \<noteq> 0 then fold16 ((s AND 0xFFFF) + drop_bit 16 s) else s)"
  by pat_completeness auto
termination by (relation "measure unat") (use fold16_less in auto)

declare fold16.simps [simp del]

definition checksum16 :: "u8 list \<Rightarrow> u16" where
  "checksum16 ds = ucast (NOT (fold16 (sum16 0 ds)))"

definition mac_is_broadcast :: "u8 list \<Rightarrow> bool" where
  "mac_is_broadcast mac = list_all (\<lambda>b. b = 0xFF) mac"

section \<open>Sending\<close>

definition build_ipv4 :: "u32 \<Rightarrow> u32 \<Rightarrow> u8 \<Rightarrow> nat \<Rightarrow> net \<Rightarrow> u8 list \<times> net" where
  "build_ipv4 src dst proto payload_len n =
     (let total = of_nat (20 + payload_len);
          c = bswap16 (checksum16 (ipv4_hdr total (g_ip_id n) proto 0 src dst))
      in (ipv4_hdr total (g_ip_id n) proto c src dst, n\<lparr>g_ip_id := g_ip_id n + 1\<rparr>))"

definition send_udp :: "u8 list \<Rightarrow> u32 \<Rightarrow> u32 \<Rightarrow> u16 \<Rightarrow> u16 \<Rightarrow> u8 list \<Rightarrow> net \<Rightarrow> net" where
  "send_udp dst_mac src_ip dst_ip src_port dst_port payload n =
     (let (ip, n1) = build_ipv4 src_ip dst_ip IP_PROTO_UDP (8 + length payload) n
      in rtl8139_send (eth_hdr dst_mac (g_mac n) ETH_P_IP @ ip @ udp_hdr src_port dst_port (of_nat (8 + length payload)) @ payload) n1)"

definition tcp_checksum_segment :: "u32 \<Rightarrow> u32 \<Rightarrow> u8 list \<Rightarrow> u16" where
  "tcp_checksum_segment src dst seg =
     (if length seg < 20 \<or> length seg > 1500 then 0
      else checksum16 (le_bytes 4 src @ le_bytes 4 dst @ [0, IP_PROTO_TCP, of_nat (length seg div 256), of_nat (length seg)] @ seg))"

definition send_tcp_segment :: "u32 \<Rightarrow> u8 list \<Rightarrow> u32 \<Rightarrow> u32 \<Rightarrow> u8 \<Rightarrow> u8 list \<Rightarrow> net \<Rightarrow> net" where
  "send_tcp_segment dst_ip dst_mac seq ack flags payload n =
     (let (ip, n1) = build_ipv4 (g_local_ip n) dst_ip IP_PROTO_TCP (20 + length payload) n;
          c = bswap16 (tcp_checksum_segment (g_local_ip n) dst_ip (tcp_hdr seq ack flags 0 @ payload))
      in rtl8139_send (eth_hdr dst_mac (g_mac n) ETH_P_IP @ ip @ tcp_hdr seq ack flags c @ payload) n1)"

definition tcp_send :: "u32 \<Rightarrow> u32 \<Rightarrow> u8 \<Rightarrow> u8 list \<Rightarrow> net \<Rightarrow> net" where
  "tcp_send seq ack flags payload n = send_tcp_segment (g_tcp_remote_ip n) (g_gateway_mac n) seq ack flags payload n"

definition tcp_http_start :: "u32 \<Rightarrow> net \<Rightarrow> net" where
  "tcp_http_start dst_ip n =
     (if \<not> g_gateway_known n \<or> g_tcp_state n \<noteq> 0 then n
      else
        let n1 = n\<lparr>g_tcp_remote_ip := dst_ip, g_tcp_seq := 0xE0020000, g_tcp_ack := 0, g_tcp_get_seq := 0, g_tcp_get_len := 0,
              g_tcp_wait_ticks := 0, g_tcp_retries := 0, g_http_bytes := 0, g_http_chunks := 0, g_tcp_state := 1\<rparr>
        in send_tcp_segment dst_ip (g_gateway_mac n1) (g_tcp_seq n1) 0 TCP_FLAG_SYN [] n1)"

text \<open>
  The request: \<open>GET / HTTP/1.0\<close> with the host, at most 60 bytes of it, and the user agent. The last \<open>memcpy\<close>
  copies 27 bytes from a literal that has 26 with its terminating zero.
\<close>

definition http_get_prefix :: "u8 list" where
  "http_get_prefix = [0x47, 0x45, 0x54, 0x20, 0x2F, 0x20, 0x48, 0x54, 0x54, 0x50, 0x2F, 0x31, 0x2E, 0x30, 0x0D, 0x0A,
     0x48, 0x6F, 0x73, 0x74, 0x3A, 0x20]"

definition http_get_agent :: "u8 list" where
  "http_get_agent = [0x0D, 0x0A, 0x55, 0x73, 0x65, 0x72, 0x2D, 0x41, 0x67, 0x65, 0x6E, 0x74, 0x3A, 0x20,
     0x45, 0x70, 0x6F, 0x6E, 0x61, 0x4F, 0x53, 0x0D, 0x0A, 0x0D, 0x0A]"

definition http_request :: "net \<Rightarrow> u8 list" where
  "http_request n = http_get_prefix @ take 60 (g_http_host n) @ http_get_agent @ [0, after_literal n]"

definition tcp_http_send_get :: "net \<Rightarrow> net" where
  "tcp_http_send_get n =
     (let req = http_request n;
          n1 = n\<lparr>g_tcp_get_seq := g_tcp_seq n, g_tcp_get_len := of_nat (length req), g_tcp_wait_ticks := 0, g_tcp_retries := 0\<rparr>;
          n2 = tcp_send (g_tcp_seq n1) (g_tcp_ack n1) (TCP_FLAG_PSH OR TCP_FLAG_ACK) req n1
      in n2\<lparr>g_tcp_seq := g_tcp_seq n2 + of_nat (length req), g_tcp_state := 3\<rparr>)"

definition tcp_http_retry_get :: "net \<Rightarrow> net" where
  "tcp_http_retry_get n = tcp_send (g_tcp_get_seq n) (g_tcp_ack n) (TCP_FLAG_PSH OR TCP_FLAG_ACK) (http_request n) n"

definition http_store_body :: "u8 list \<Rightarrow> net \<Rightarrow> net" where
  "http_store_body ds n =
     (if ds = [] \<or> g_http_body_len n \<ge> of_nat (HTTP_BODY_BUF_SIZE - 1) then n
      else
        let space = HTTP_BODY_BUF_SIZE - 1 - unat (g_http_body_len n);
            cp = take space ds;
            b1 = put_bytes (g_http_body n) (unat (g_http_body_len n)) cp;
            l1 = g_http_body_len n + of_nat (length cp)
        in n\<lparr>g_http_body := b1[unat l1 := 0], g_http_body_len := l1\<rparr>)"

text \<open>The search for the empty line that ends the headers: what follows it.\<close>

fun after_headers :: "u8 list \<Rightarrow> u8 list option" where
  "after_headers (a # b # c # d # ds) =
     (if a = 0x0D \<and> b = 0x0A \<and> c = 0x0D \<and> d = 0x0A then Some ds else after_headers (b # c # d # ds))"
| "after_headers ds = None"

definition http_process_payload :: "u8 list \<Rightarrow> net \<Rightarrow> net" where
  "http_process_payload payload n =
     (if g_http_headers_done n then http_store_body payload n
      else case after_headers payload of
        None \<Rightarrow> n
      | Some ds \<Rightarrow> http_store_body ds (n\<lparr>g_http_headers_done := True\<rparr>))"

definition http_print_body_preview :: "net \<Rightarrow> net" where
  "http_print_body_preview n =
     (if g_http_body_printed n \<or> g_http_body_len n = 0 then n else n\<lparr>g_http_body_printed := True\<rparr>)"

definition tcp_poll_retransmit :: "net \<Rightarrow> net" where
  "tcp_poll_retransmit n =
     (if g_tcp_state n \<noteq> 1 \<and> g_tcp_state n \<noteq> 3 then n
      else
        let n1 = n\<lparr>g_tcp_wait_ticks := g_tcp_wait_ticks n + 1\<rparr> in
        if g_tcp_wait_ticks n1 < TCP_RETRY_TICKS then n1
        else
          let n2 = n1\<lparr>g_tcp_wait_ticks := 0\<rparr> in
          if g_tcp_retries n2 \<ge> TCP_MAX_RETRIES then n2\<lparr>g_tcp_state := 7\<rparr>
          else
            let n3 = n2\<lparr>g_tcp_retries := g_tcp_retries n2 + 1\<rparr>
            in if g_tcp_state n3 = 1 then tcp_send (g_tcp_seq n3) 0 TCP_FLAG_SYN [] n3
               else tcp_http_retry_get n3)"

section \<open>DHCP and ARP requests, ICMP echo\<close>

definition dhcp_add_option :: "u8 list \<Rightarrow> u8 \<Rightarrow> u8 list \<Rightarrow> u8 list" where
  "dhcp_add_option opt code ds = opt @ [code, of_nat (length ds)] @ ds"

definition dhcp_pkt :: "u8 list \<Rightarrow> u8 list" where
  "dhcp_pkt mac =
     [1, 1, 6, 0] @ le_bytes 4 (bswap32 DHCP_XID) @ [0, 0] @ le_bytes 2 (bswap16 0x8000) @ replicate 16 0 @
     mac @ replicate 10 0 @ replicate 64 0 @ replicate 128 0 @ le_bytes 4 (bswap32 DHCP_MAGIC)"

definition send_dhcp :: "int \<Rightarrow> u32 \<Rightarrow> u32 \<Rightarrow> net \<Rightarrow> net" where
  "send_dhcp msg_type requested_ip server_ip n =
     (let o1 = dhcp_add_option [] 53 [of_int msg_type];
          o2 = (if requested_ip \<noteq> 0 then dhcp_add_option o1 50 (le_bytes 4 requested_ip) else o1);
          o3 = (if server_ip \<noteq> 0 then dhcp_add_option o2 54 (le_bytes 4 server_ip) else o2);
          o4 = dhcp_add_option o3 55 [1, 3, 6, 15, 51, 54];
          o5 = dhcp_add_option o4 57 (le_bytes 2 (bswap16 576)) @ [255];
          payload = dhcp_pkt (g_mac n) @ o5;
          padded = payload @ replicate (300 - length payload) 0
      in send_udp (replicate 6 0xFF) 0 (NET_IP 255 255 255 255) DHCP_CLIENT_PORT DHCP_SERVER_PORT padded n)"

definition arp_pkt :: "u16 \<Rightarrow> u8 list \<Rightarrow> u32 \<Rightarrow> u8 list \<Rightarrow> u32 \<Rightarrow> u8 list" where
  "arp_pkt op sha spa tha tpa =
     le_bytes 2 (bswap16 1) @ le_bytes 2 (bswap16 ETH_P_IP) @ [6, 4] @ le_bytes 2 (bswap16 op) @ sha @ le_bytes 4 spa @ tha @ le_bytes 4 tpa"

definition send_arp_request :: "u32 \<Rightarrow> net \<Rightarrow> net" where
  "send_arp_request target_ip n =
     rtl8139_send (eth_hdr (replicate 6 0xFF) (g_mac n) ETH_P_ARP @ arp_pkt 1 (g_mac n) (g_local_ip n) (replicate 6 0) target_ip) n"

definition icmp_hdr :: "u8 \<Rightarrow> u16 \<Rightarrow> u16 \<Rightarrow> u8 list" where
  "icmp_hdr ty cksum seq = [ty, 0] @ le_bytes 2 cksum @ le_bytes 2 (bswap16 0xE001) @ le_bytes 2 (bswap16 seq)"

definition ping_text :: "u8 list" where
  "ping_text = [0x45, 0x70, 0x6F, 0x6E, 0x61, 0x4F, 0x53, 0x20, 0x70, 0x69, 0x6E, 0x67]"

definition send_icmp_echo :: "u32 \<Rightarrow> u8 list \<Rightarrow> net \<Rightarrow> net" where
  "send_icmp_echo dst_ip dst_mac n =
     (let (ip, n1) = build_ipv4 (g_local_ip n) dst_ip IP_PROTO_ICMP (8 + length ping_text) n;
          c = bswap16 (checksum16 (icmp_hdr 8 0 (g_icmp_seq n1) @ ping_text));
          n2 = n1\<lparr>g_icmp_seq := g_icmp_seq n1 + 1\<rparr>
      in rtl8139_send (eth_hdr dst_mac (g_mac n) ETH_P_IP @ ip @ icmp_hdr 8 c (g_icmp_seq n1) @ ping_text) n2)"


section \<open>DNS\<close>

text \<open>
  The loop of \<open>dns_write_name\<close> over the rest of the host name: the buffer of \<open>out_len\<close> bytes, the next position, the
  length of the label so far and the position of its length byte. \<open>None\<close> is the result -1.
\<close>

fun dns_name_loop :: "nat \<Rightarrow> u8 list \<Rightarrow> u8 list \<Rightarrow> nat \<Rightarrow> nat \<Rightarrow> nat \<Rightarrow> (nat \<times> u8 list) option" where
  "dns_name_loop out_len [] out pos label_len label_pos =
     (if label_len = 0 then None
      else
        let o1 = out[label_pos := of_nat label_len]
        in if pos \<ge> out_len then None else Some (pos + 1, o1[pos := 0]))"
| "dns_name_loop out_len (h # host) out pos label_len label_pos = do {
     (lp, pos1) \<leftarrow> (if label_len = 0 then if pos \<ge> out_len then None else Some (pos, pos + 1) else Some (label_pos, pos));
     if h = 0x2E
     then if label_len = 0 \<or> label_len > 63 then None else dns_name_loop out_len host (out[lp := of_nat label_len]) pos1 0 lp
     else if pos1 \<ge> out_len then None
     else if label_len + 1 > 63 then None
     else dns_name_loop out_len host (out[pos1 := h]) (pos1 + 1) (label_len + 1) lp
   }"

definition dns_write_name :: "u8 list \<Rightarrow> u8 list \<Rightarrow> (nat \<times> u8 list) option" where
  "dns_write_name out host = dns_name_loop (length out) host out 0 0 0"

function dns_skip_from :: "(nat \<Rightarrow> u8) \<Rightarrow> int \<Rightarrow> int \<Rightarrow> int \<Rightarrow> int" where
  "dns_skip_from msg len off jumps =
     (if off < len
      then
        let c = msg (nat off); o1 = off + 1 in
        if c = 0 then o1
        else if c AND 0xC0 = 0xC0 then if o1 \<ge> len then -1 else o1 + 1
        else if c AND 0xC0 \<noteq> 0 then -1
        else let o2 = o1 + uint c in if o2 > len \<or> jumps + 1 > 64 then -1 else dns_skip_from msg len o2 (jumps + 1)
      else -1)"
  by pat_completeness auto
termination
proof (relation "measure (\<lambda>(msg, len, off, jumps). nat (len - off))")
  fix off len jumps x xa xb :: int and msg :: "nat \<Rightarrow> u8" and c :: u8
  assume "off < len" "xa = off + 1" "xb = xa + uint c"
  then show "((msg, len, xb, jumps + 1), msg, len, off, jumps) \<in> measure (\<lambda>(msg, len, off, jumps). nat (len - off))"
    using order_less_le_trans [of "- 1" 0 "uint c"] by simp
qed simp

declare dns_skip_from.simps [simp del]

definition dns_skip_name :: "(nat \<Rightarrow> u8) \<Rightarrow> int \<Rightarrow> int \<Rightarrow> int" where
  "dns_skip_name msg len off = dns_skip_from msg len off 0"

definition dns_hdr :: "u8 list" where
  "dns_hdr = le_bytes 2 (bswap16 DNS_XID) @ le_bytes 2 (bswap16 0x0100) @ le_bytes 2 (bswap16 1) @ replicate 6 0"

definition dns_query :: "u8 list \<Rightarrow> net \<Rightarrow> net" where
  "dns_query host n =
     (if \<not> g_dhcp_configured n \<or> \<not> g_gateway_known n \<or> g_dns_ip n = 0 then n
      else case dns_write_name (replicate (256 - 12 - 4) 0) host of
        None \<Rightarrow> n
      | Some (name_len, out) \<Rightarrow>
          let n1 = n\<lparr>g_dns_requested := True, g_dns_host := take 63 host\<rparr>
          in send_udp (g_gateway_mac n1) (g_local_ip n1) (g_dns_ip n1) DNS_CLIENT_PORT DNS_PORT
               (dns_hdr @ take name_len out @ [0, 1, 0, 1]) n1)"

section \<open>Receiving\<close>

text \<open>A field of \<open>k\<close> bytes of the packet, and a field in network order.\<close>

definition fld :: "nat \<Rightarrow> (nat \<Rightarrow> u8) \<Rightarrow> nat \<Rightarrow> 'a::len word" where
  "fld k p off = bytes_le (map p [off..<off + k])"

definition be16 :: "(nat \<Rightarrow> u8) \<Rightarrow> nat \<Rightarrow> u16" where
  "be16 msg off = push_bit 8 (ucast (msg off)) OR ucast (msg (off + 1))"

text \<open>The two loops of \<open>handle_dns\<close>; \<open>None\<close> is an early return.\<close>

fun dns_questions :: "(nat \<Rightarrow> u8) \<Rightarrow> int \<Rightarrow> nat \<Rightarrow> int \<Rightarrow> int option" where
  "dns_questions msg len 0 off = Some off"
| "dns_questions msg len (Suc k) off =
     (let o1 = dns_skip_name msg len off
      in if o1 < 0 \<or> o1 + 4 > len then None else dns_questions msg len k (o1 + 4))"

fun dns_answers :: "(nat \<Rightarrow> u8) \<Rightarrow> int \<Rightarrow> nat \<Rightarrow> int \<Rightarrow> u32 option" where
  "dns_answers msg len 0 off = None"
| "dns_answers msg len (Suc k) off =
     (let o1 = dns_skip_name msg len off in
      if o1 < 0 \<or> o1 + 10 > len then None
      else
        let q = nat o1; ty = be16 msg q; klass = be16 msg (q + 2); rdlen = uint (be16 msg (q + 8)); o2 = o1 + 10 in
        if o2 + rdlen > len then None
        else if ty = 1 \<and> klass = 1 \<and> rdlen = 4 then Some (fld 4 msg (nat o2))
        else dns_answers msg len k (o2 + rdlen))"

definition handle_dns :: "(nat \<Rightarrow> u8) \<Rightarrow> int \<Rightarrow> net \<Rightarrow> net" where
  "handle_dns msg len n =
     (if len < 12 then n
      else if fld 2 msg 0 \<noteq> bswap16 DNS_XID then n
      else
        let qdcount = unat (bswap16 (fld 2 msg 4)); ancount = unat (bswap16 (fld 2 msg 6)) in
        case dns_questions msg len qdcount 12 of
          None \<Rightarrow> n
        | Some off \<Rightarrow>
            (case dns_answers msg len ancount off of
               None \<Rightarrow> n
             | Some ip \<Rightarrow> tcp_http_start ip (n\<lparr>g_dns_answer_ip := ip, g_http_host := take 63 (g_dns_host n)\<rparr>)))"

definition handle_tcp :: "(nat \<Rightarrow> u8) \<Rightarrow> nat \<Rightarrow> nat \<Rightarrow> net \<Rightarrow> net" where
  "handle_tcp ip ihl ip_total n =
     (if fld 4 ip 16 \<noteq> g_local_ip n \<or> fld 4 ip 12 \<noteq> g_tcp_remote_ip n then n
      else if ip_total < ihl + 20 then n
      else
        let tcp = (\<lambda>i. ip (ihl + i)); tcp_len = ip_total - ihl in
        if bswap16 (fld 2 tcp 0) \<noteq> TCP_HTTP_PORT \<or> bswap16 (fld 2 tcp 2) \<noteq> TCP_CLIENT_PORT then n
        else
          let tcp_hlen = unat (drop_bit 4 (tcp 12)) * 4 in
          if tcp_hlen < 20 \<or> ip_total < ihl + tcp_hlen then n
          else if tcp_checksum_segment (fld 4 ip 12) (fld 4 ip 16) (map tcp [0..<tcp_len]) \<noteq> 0 then n
          else
            let seq = bswap32 (fld 4 tcp 4); ack = bswap32 (fld 4 tcp 8); flags = tcp 13;
                payload = map tcp [tcp_hlen..<tcp_len]
            in if flags AND TCP_FLAG_RST \<noteq> 0 then n\<lparr>g_tcp_state := 5\<rparr>
            else if g_tcp_state n = 1 \<and> flags AND (TCP_FLAG_SYN OR TCP_FLAG_ACK) = TCP_FLAG_SYN OR TCP_FLAG_ACK \<and> ack = g_tcp_seq n + 1
            then
              let n1 = n\<lparr>g_tcp_seq := g_tcp_seq n + 1, g_tcp_ack := seq + 1, g_tcp_state := 2\<rparr>
              in tcp_http_send_get (tcp_send (g_tcp_seq n1) (g_tcp_ack n1) TCP_FLAG_ACK [] n1)
            else
              let data = 3 \<le> g_tcp_state n \<and> g_tcp_state n \<le> 4 \<and> payload \<noteq> [] in
              if data \<and> seq \<noteq> g_tcp_ack n then tcp_send (g_tcp_seq n) (g_tcp_ack n) TCP_FLAG_ACK [] n
              else
                let n1 = (if data
                      then
                        let a1 = http_process_payload payload
                              (n\<lparr>g_http_chunks := g_http_chunks n + 1, g_http_bytes := g_http_bytes n + of_nat (length payload)\<rparr>);
                            a2 = a1\<lparr>g_tcp_ack := seq + of_nat (length payload)\<rparr>;
                            a3 = tcp_send (g_tcp_seq a2) (g_tcp_ack a2) TCP_FLAG_ACK [] a2
                        in http_print_body_preview (a3\<lparr>g_http_ok := True, g_tcp_state := 4\<rparr>)
                      else n)
                in if flags AND TCP_FLAG_FIN \<noteq> 0
                   then
                     let b1 = n1\<lparr>g_tcp_ack := seq + of_nat (length payload) + 1\<rparr>;
                         b2 = tcp_send (g_tcp_seq b1) (g_tcp_ack b1) TCP_FLAG_ACK [] b1
                     in (http_print_body_preview b2)\<lparr>g_tcp_state := 6\<rparr>
                   else n1)"

text \<open>\<open>dns_query("example.com")\<close>\<close>

definition example_com :: "u8 list" where
  "example_com = [0x65, 0x78, 0x61, 0x6D, 0x70, 0x6C, 0x65, 0x2E, 0x63, 0x6F, 0x6D]"

definition handle_arp :: "(nat \<Rightarrow> u8) \<Rightarrow> int \<Rightarrow> net \<Rightarrow> net" where
  "handle_arp arp len n =
     (if len < 14 + 28 then n
      else if bswap16 (fld 2 arp 6) = 2 \<and> fld 4 arp 14 = g_gateway_ip n
      then
        let n1 = n\<lparr>g_gateway_mac := map arp [8..<14], g_gateway_known := True\<rparr>;
            n2 = send_icmp_echo (g_gateway_ip n1) (g_gateway_mac n1) n1
        in if \<not> g_dns_requested n2 then dns_query example_com n2 else n2
      else n)"

text \<open>The options of a DHCP message: type, server, router and DNS addresses found so far.\<close>

record dhcp_opts =
  o_type :: int
  o_server :: u32
  o_router :: u32
  o_dns :: u32

function parse_dhcp_options :: "(nat \<Rightarrow> u8) \<Rightarrow> nat \<Rightarrow> nat \<Rightarrow> dhcp_opts \<Rightarrow> dhcp_opts" where
  "parse_dhcp_options opt len i r =
     (if i < len
      then
        let code = opt i; i1 = i + 1 in
        if code = 255 then r
        else if code = 0 then parse_dhcp_options opt len i1 r
        else if i1 \<ge> len then r
        else
          let olen = unat (opt i1); i2 = i1 + 1 in
          if i2 + olen > len then r
          else
            let r1 = (if code = 53 \<and> olen \<ge> 1 then r\<lparr>o_type := uint (opt i2)\<rparr>
                  else if code = 54 \<and> olen \<ge> 4 then r\<lparr>o_server := fld 4 opt i2\<rparr>
                  else if code = 3 \<and> olen \<ge> 4 then r\<lparr>o_router := fld 4 opt i2\<rparr>
                  else if code = 6 \<and> olen \<ge> 4 then r\<lparr>o_dns := fld 4 opt i2\<rparr>
                  else r)
            in parse_dhcp_options opt len (i2 + olen) r1
      else r)"
  by pat_completeness auto
termination by (relation "measure (\<lambda>(opt, len, i, r). len - i)") auto

declare parse_dhcp_options.simps [simp del]

definition handle_dhcp :: "(nat \<Rightarrow> u8) \<Rightarrow> int \<Rightarrow> net \<Rightarrow> net" where
  "handle_dhcp dhcp len n =
     (if len < 240 then n
      else if dhcp 0 \<noteq> 2 \<or> fld 4 dhcp 4 \<noteq> bswap32 DHCP_XID \<or> fld 4 dhcp 236 \<noteq> bswap32 DHCP_MAGIC then n
      else
        let r = parse_dhcp_options (\<lambda>i. dhcp (240 + i)) (nat (len - 240)) 0 \<lparr>o_type = 0, o_server = 0, o_router = 0, o_dns = 0\<rparr> in
        if o_type r = DHCP_OFFER \<and> \<not> g_dhcp_requested n
        then
          let n1 = n\<lparr>g_offered_ip := fld 4 dhcp 16, g_dhcp_server_ip := o_server r, g_dhcp_requested := True\<rparr>
          in send_dhcp DHCP_REQUEST (g_offered_ip n1) (g_dhcp_server_ip n1) n1
        else if o_type r = DHCP_ACK \<and> \<not> g_dhcp_configured n
        then
          let n1 = n\<lparr>g_local_ip := fld 4 dhcp 16, g_gateway_ip := (if o_router r \<noteq> 0 then o_router r else NET_IP 10 0 2 2),
                g_dns_ip := o_dns r, g_dhcp_configured := True\<rparr>
          in send_arp_request (g_gateway_ip n1) n1
        else n)"

text \<open>The part of \<open>handle_ipv4\<close> for UDP, from the UDP header on.\<close>

definition handle_udp :: "(nat \<Rightarrow> u8) \<Rightarrow> net \<Rightarrow> net" where
  "handle_udp udp n =
     (let src_port = bswap16 (fld 2 udp 0); dst_port = bswap16 (fld 2 udp 2); udp_len = uint (bswap16 (fld 2 udp 4))
      in if udp_len < 8 then n
      else if src_port = DHCP_SERVER_PORT \<and> dst_port = DHCP_CLIENT_PORT then handle_dhcp (\<lambda>i. udp (8 + i)) (udp_len - 8) n
      else if src_port = DNS_PORT \<and> dst_port = DNS_CLIENT_PORT then handle_dns (\<lambda>i. udp (8 + i)) (udp_len - 8) n
      else n)"

definition handle_ipv4 :: "(nat \<Rightarrow> u8) \<Rightarrow> int \<Rightarrow> net \<Rightarrow> net" where
  "handle_ipv4 ip len n =
     (if len < 14 + 20 then n
      else if drop_bit 4 (ip 0) \<noteq> 4 then n
      else
        let ihl = unat (ip 0 AND 0x0F) * 4 in
        if ihl < 20 \<or> len < 14 + int ihl then n
        else
          let ip_total = unat (bswap16 (fld 2 ip 2)) in
          if ip_total < ihl then n
          else if ip 9 = IP_PROTO_UDP then if ip_total < ihl + 8 then n else handle_udp (\<lambda>i. ip (ihl + i)) n
          else if ip 9 = IP_PROTO_TCP then handle_tcp ip ihl ip_total n
          else if fld 4 ip 16 \<noteq> g_local_ip n \<or> ip 9 \<noteq> IP_PROTO_ICMP then n
          else if ip_total < ihl + 8 then n
          else if ip ihl = 0 then n\<lparr>g_ping_replied := True\<rparr> else n)"

definition net_handle_packet :: "(nat \<Rightarrow> u8) \<Rightarrow> int \<Rightarrow> net \<Rightarrow> net" where
  "net_handle_packet p len n =
     (if len < 14 then n
      else
        let ty = bswap16 (fld 2 p 12) in
        if ty = ETH_P_ARP then handle_arp (\<lambda>i. p (14 + i)) len n
        else if ty = ETH_P_IP
        then
          if \<not> mac_is_broadcast (map p [0..<6]) \<and> map p [0..<6] \<noteq> g_mac n then n
          else handle_ipv4 (\<lambda>i. p (14 + i)) len n
        else n)"

section \<open>The interface\<close>

definition net_reset :: "net \<Rightarrow> net" where
  "net_reset n = n\<lparr>g_gateway_known := False, g_dhcp_configured := False, g_dhcp_requested := False, g_dns_requested := False,
     g_tcp_state := 0, g_http_ok := False, g_dns_host := [], g_local_ip := 0, g_gateway_ip := 0, g_dns_ip := 0, g_dns_answer_ip := 0,
     g_dhcp_server_ip := 0, g_offered_ip := 0, g_tcp_remote_ip := 0, g_tcp_seq := 0xE0020000, g_tcp_ack := 0, g_tcp_get_seq := 0,
     g_tcp_get_len := 0, g_tcp_wait_ticks := 0, g_tcp_retries := 0, g_http_bytes := 0, g_http_chunks := 0, g_http_headers_done := False,
     g_http_body_printed := False, g_http_body_len := 0, g_http_body := (g_http_body n)[0 := 0], g_http_host := [], g_ping_replied := False\<rparr>"

text \<open>\<open>rtl8139_init\<close> finds no card, or one with a hardware address.\<close>

definition net_init :: "u8 list option \<Rightarrow> net \<Rightarrow> net" where
  "net_init nic n =
     (case nic of None \<Rightarrow> net_reset n | Some mac \<Rightarrow> send_dhcp DHCP_DISCOVER 0 0 ((net_reset n)\<lparr>g_mac := mac\<rparr>))"

text \<open>\<open>rtl8139_poll\<close> hands a packet to \<open>net_handle_packet\<close> when one has arrived.\<close>

definition net_poll :: "((nat \<Rightarrow> u8) \<times> int) option \<Rightarrow> net \<Rightarrow> net" where
  "net_poll rx n = tcp_poll_retransmit (case rx of None \<Rightarrow> n | Some (p, len) \<Rightarrow> net_handle_packet p len n)"

definition net_http_reset :: "net \<Rightarrow> net" where
  "net_http_reset n = n\<lparr>g_tcp_state := 0, g_http_ok := False, g_http_bytes := 0, g_http_chunks := 0, g_http_headers_done := False,
     g_http_body_printed := False, g_http_body_len := 0, g_http_body := (g_http_body n)[0 := 0], g_dns_answer_ip := 0, g_tcp_retries := 0,
     g_tcp_wait_ticks := 0, g_tcp_remote_ip := 0, g_tcp_seq := 0xE0020000, g_tcp_ack := 0, g_tcp_get_seq := 0, g_tcp_get_len := 0\<rparr>"

definition net_http_fetch :: "u8 list \<Rightarrow> net \<Rightarrow> int \<times> net" where
  "net_http_fetch host n =
     (if \<not> g_dhcp_configured n \<or> \<not> g_gateway_known n then (-1, n)
      else (0, dns_query host ((net_http_reset n)\<lparr>g_http_host := take 63 host\<rparr>)))"

definition net_tcp_busy :: "net \<Rightarrow> bool" where
  "net_tcp_busy n \<longleftrightarrow> g_tcp_state n = 1 \<or> g_tcp_state n = 2 \<or> g_tcp_state n = 3 \<or> g_tcp_state n = 4"

definition net_ping_send :: "u32 \<Rightarrow> net \<Rightarrow> net" where
  "net_ping_send dst_ip n =
     (if \<not> g_gateway_known n then n
      else let n1 = n\<lparr>g_ping_replied := False\<rparr> in send_icmp_echo dst_ip (g_gateway_mac n1) n1)"

text \<open>Polling with the packets that arrive, one possible packet per round.\<close>

fun net_poll_wait :: "((nat \<Rightarrow> u8) \<times> int) option list \<Rightarrow> net \<Rightarrow> net" where
  "net_poll_wait [] n = n"
| "net_poll_wait (rx # rxs) n = net_poll_wait rxs (net_poll rx n)"

definition net_is_configured :: "net \<Rightarrow> bool" where "net_is_configured n = g_dhcp_configured n"
definition net_http_ok :: "net \<Rightarrow> bool" where "net_http_ok n = g_http_ok n"
definition net_dns_answer_ip :: "net \<Rightarrow> u32" where "net_dns_answer_ip n = g_dns_answer_ip n"
definition net_local_ip :: "net \<Rightarrow> u32" where "net_local_ip n = g_local_ip n"
definition net_http_body_preview :: "net \<Rightarrow> u8 list" where "net_http_body_preview n = takeWhile (\<lambda>c. c \<noteq> 0) (g_http_body n)"
definition net_http_body_len :: "net \<Rightarrow> u32" where "net_http_body_len n = g_http_body_len n"
definition net_ping_replied :: "net \<Rightarrow> bool" where "net_ping_replied n = g_ping_replied n"

end
