(* ===== verification/NetSpec.thy ===== *)
theory NetSpec
  imports Net
begin

text \<open>
  Properties of the network stack: the checksums it sends verify, names are encoded so that they can be skipped again,
  the state stays well formed over any sequence of packets and polls, requests are given up after four time-outs, and
  when packets are read past their end.
\<close>

section \<open>Checksums\<close>

text \<open>The sum of the 16 bit words in network order, and its folding, as numbers.\<close>

fun wsum :: "u8 list \<Rightarrow> nat" where
  "wsum (a # b # ds) = 256 * unat a + unat b + wsum ds"
| "wsum [a] = 256 * unat a"
| "wsum [] = 0"

definition ones_fold :: "nat \<Rightarrow> nat" where "ones_fold s = (if s = 0 then 0 else (s - 1) mod 65535 + 1)"

lemma unat_byte: "unat (a :: u8) < 256" using unsigned_less [of a, where ?'a = nat] by simp

lemma unat_be_pair:
  fixes a b :: u8
  shows "unat (push_bit 8 (ucast a) OR ucast b :: u32) = 256 * unat a + unat b"
proof -
  have "push_bit 8 (ucast a) OR (ucast b :: u32) = push_bit 8 (ucast a) + ucast b"
    by (rule disjunctive_add_eq_or [symmetric], rule bit_word_eqI)
      (auto simp: bit_and_iff bit_push_bit_iff bit_ucast_iff dest: bit_imp_le_length)
  then show ?thesis using unat_byte [of a] unat_byte [of b]
    by (simp add: push_bit_eq_mult unat_word_ariths unsigned_ucast_eq take_bit_eq_mod)
qed

lemma unat_be_single: "unat (push_bit 8 (ucast (a :: u8)) :: u32) = 256 * unat a"
  using unat_be_pair [of a 0] by simp

lemma sum16_wsum: "unat s + wsum ds < 2 ^ 32 \<Longrightarrow> unat (sum16 s ds) = unat s + wsum ds"
proof (induction s ds rule: sum16.induct)
  case (1 s a b ds)
  then have "unat (s + (push_bit 8 (ucast a) OR ucast b)) = unat s + (256 * unat a + unat b)"
    by (simp add: unat_word_ariths unat_be_pair)
  then show ?case using 1 by simp
next
  case (2 s a)
  then show ?case by (simp add: unat_word_ariths unat_be_single)
qed simp

lemma wsum_bound: "wsum ds \<le> 65535 * length ds"
proof (induction ds rule: wsum.induct)
  case (1 a b ds)
  then show ?case using unat_byte [of a] unat_byte [of b] by simp
next
  case (2 a)
  then show ?case using unat_byte [of a] by simp
qed simp

lemma wsum_append: "even (length xs) \<Longrightarrow> wsum (xs @ ys) = wsum xs + wsum ys"
  by (induction xs rule: wsum.induct) auto

lemma fold16_ones: "unat (fold16 s) = ones_fold (unat s)"
proof (induction s rule: fold16.induct)
  case (1 s)
  let ?q = "unat s div 65536" and ?r = "unat s mod 65536"
  have d: "unat (drop_bit 16 s) = ?q" by (simp add: drop_bit_eq_div unat_div)
  show ?case
  proof (cases "drop_bit 16 s = 0")
    case True
    then have "unat s < 65536" using d by (simp add: unat_eq_0 [symmetric] div_eq_0_iff)
    then show ?thesis using True fold16.simps [of s] by (simp add: ones_fold_def)
  next
    case False
    have m: "unat (s AND 0xFFFF) = ?r"
    proof -
      have "s AND 0xFFFF = take_bit 16 s" by (simp add: take_bit_eq_mask mask_numeral)
      then show ?thesis by (simp add: take_bit_eq_mod unat_mod)
    qed
    have lt: "unat s < 4294967296" using unsigned_less [of s, where ?'a = nat] by simp
    then have t: "unat ((s AND 0xFFFF) + drop_bit 16 s) = ?q + ?r" using d m by (simp add: unat_word_ariths)
    have "0 < ?q" using False d by (metis unat_gt_0)
    moreover have "unat s = 65536 * ?q + ?r" by simp
    ultimately have e: "unat s - 1 = (?q + ?r - 1) + 65535 * ?q" and "0 < unat s" "?q + ?r \<noteq> 0" by linarith+
    moreover have "(unat s - 1) mod 65535 = (?q + ?r - 1) mod 65535" unfolding e by (rule mod_mult_self2)
    ultimately have "ones_fold (?q + ?r) = ones_fold (unat s)" by (simp only: ones_fold_def if_False) simp
    then show ?thesis using 1 [OF False] t False fold16.simps [of s] by simp
  qed
qed

lemma ones_fold_bound: "ones_fold s \<le> 65535"
  by (simp add: ones_fold_def Suc_le_eq)

lemma unat_checksum: "length ds \<le> 65536 \<Longrightarrow> unat (checksum16 ds) = 65535 - ones_fold (wsum ds)"
proof -
  assume "length ds \<le> 65536"
  then have "wsum ds < 2 ^ 32" using wsum_bound [of ds] by simp
  then have f: "unat (fold16 (sum16 0 ds)) = ones_fold (wsum ds)" by (simp add: fold16_ones sum16_wsum)
  let ?x = "fold16 (sum16 0 ds)"
  have "(ucast (NOT ?x) :: u16) = NOT (ucast ?x)" by (rule bit_word_eqI) (simp add: bit_ucast_iff bit_not_iff)
  also have "\<dots> = - 1 - ucast ?x" by (simp add: not_eq_complement)
  finally have e: "checksum16 ds = - 1 - ucast ?x" by (simp add: checksum16_def)
  have "unat (ucast ?x :: u16) = ones_fold (wsum ds)"
    using f ones_fold_bound [of "wsum ds"] by (simp add: unsigned_ucast_eq take_bit_eq_mod unat_mod)
  moreover have "unat (- 1 - v :: u16) = 65535 - unat v" for v :: u16
    using unsigned_less [of v, where ?'a = nat] by (subst unat_sub) (simp_all add: word_le_nat_alt unsigned_minus_1_eq_mask mask_eq_exp_minus_1)
  ultimately show ?thesis by (simp add: e)
qed


lemma le_bytes_2: "le_bytes 2 (v :: u16) = [ucast v, ucast (drop_bit 8 v)]"
  by (simp add: le_bytes_def upt_rec numeral_2_eq_2)

lemma wsum_be: "wsum (le_bytes 2 (bswap16 c)) = unat c"
proof -
  have "(ucast (bswap16 c) :: u8) = ucast (drop_bit 8 c)" "(ucast (drop_bit 8 (bswap16 c)) :: u8) = ucast c"
    by (rule bit_word_eqI; auto simp: bswap16_def bit_ucast_iff bit_or_iff bit_push_bit_iff bit_drop_bit_eq dest: bit_imp_le_length)+
  moreover have "unat (ucast c :: u8) = unat c mod 256" "unat (ucast (drop_bit 8 c) :: u8) = unat c div 256"
    using unsigned_less [of c, where ?'a = nat] by (simp_all add: unsigned_ucast_eq take_bit_eq_mod unat_mod drop_bit_eq_div unat_div)
  ultimately show ?thesis by (simp add: le_bytes_2)
qed

text \<open>A checksum computed over a zero field and stored there makes the whole verify.\<close>

lemma checksum_verifies:
  assumes "even (length xs)" "length xs + length ys \<le> 65534"
  shows "checksum16 (xs @ le_bytes 2 (bswap16 (checksum16 (xs @ le_bytes 2 (0 :: u16) @ ys))) @ ys) = 0"
proof -
  let ?S = "wsum xs + wsum ys" and ?c = "checksum16 (xs @ le_bytes 2 (0 :: u16) @ ys)"
  have sum: "wsum (xs @ le_bytes 2 (v :: u16) @ ys) = ?S + wsum (le_bytes 2 v)" for v
    using assms(1) by (simp add: wsum_append)
  have "wsum (le_bytes 2 (0 :: u16)) = 0" by (simp add: le_bytes_2)
  then have c: "unat ?c = 65535 - ones_fold ?S" using assms(2) by (subst unat_checksum) (simp_all add: sum)
  have "ones_fold (?S + (65535 - ones_fold ?S)) = 65535"
  proof (cases "?S = 0")
    case False
    define q where "q = (?S - 1) div 65535"
    define r where "r = (?S - 1) mod 65535"
    have "?S = 65535 * q + r + 1" using False unfolding q_def r_def by simp
    moreover have "r < 65535" by (simp add: r_def)
    moreover have "ones_fold ?S = r + 1" using False by (simp add: ones_fold_def r_def)
    ultimately have "?S + (65535 - ones_fold ?S) - 1 = 65534 + 65535 * q" "?S + (65535 - ones_fold ?S) \<noteq> 0" by linarith+
    then show ?thesis unfolding ones_fold_def [of "?S + _"] by simp
  qed (simp add: ones_fold_def)
  then have "unat (checksum16 (xs @ le_bytes 2 (bswap16 ?c) @ ys)) = 0"
    using assms(2) c by (subst unat_checksum) (simp_all add: sum wsum_be)
  then show ?thesis by (simp add: unat_eq_0)
qed

lemma ipv4_verifies: "checksum16 (fst (build_ipv4 src dst proto k n)) = 0"
proof -
  define xs where "xs = [0x45, 0] @ le_bytes 2 (bswap16 (of_nat (20 + k))) @ le_bytes 2 (bswap16 (g_ip_id n)) @ le_bytes 2 (bswap16 0x4000) @ [64, proto]"
  define ys where "ys = le_bytes 4 src @ le_bytes 4 dst"
  have h: "ipv4_hdr (of_nat (20 + k)) (g_ip_id n) proto c src dst = xs @ le_bytes 2 c @ ys" for c
    by (simp add: ipv4_hdr_def xs_def ys_def)
  have "even (length xs)" "length xs + length ys \<le> 65534" by (simp_all add: xs_def ys_def)
  then show ?thesis using checksum_verifies [of xs ys] by (simp add: build_ipv4_def Let_def h del: of_nat_add)
qed

lemma tcp_verifies:
  assumes "length payload \<le> 1480"
  shows "tcp_checksum_segment src dst (tcp_hdr seq ack flags (bswap16 (tcp_checksum_segment src dst (tcp_hdr seq ack flags 0 @ payload))) @ payload) = 0"
proof -
  define hd where "hd = le_bytes 2 (bswap16 TCP_CLIENT_PORT) @ le_bytes 2 (bswap16 TCP_HTTP_PORT) @ le_bytes 4 (bswap32 seq) @ le_bytes 4 (bswap32 ack) @
     [push_bit 4 5, flags] @ le_bytes 2 (bswap16 4096)"
  define xs where "xs = le_bytes 4 src @ le_bytes 4 dst @ [0, IP_PROTO_TCP, of_nat ((20 + length payload) div 256), of_nat (20 + length payload)] @ hd"
  define ys where "ys = le_bytes 2 (0 :: u16) @ payload"
  have h: "tcp_hdr seq ack flags c @ payload = hd @ le_bytes 2 c @ ys" for c by (simp add: tcp_hdr_def hd_def ys_def)
  have len: "length hd = 16" "length ys = 2 + length payload" by (simp_all add: hd_def ys_def)
  have seg: "tcp_checksum_segment src dst (tcp_hdr seq ack flags c @ payload) = checksum16 (xs @ le_bytes 2 c @ ys)" for c
    using assms by (simp add: tcp_checksum_segment_def h len xs_def add.commute)
  have "even (length xs)" "length xs + length ys \<le> 65534" using assms by (simp_all add: xs_def len)
  then show ?thesis using checksum_verifies [of xs ys] by (simp add: seg)
qed

text \<open>
  C20: every TCP segment that is sent carries an IP header and a TCP segment whose checksums verify, the latter with the
  very test the stack applies to received segments.
\<close>

theorem tcp_segment_verifies:
  assumes "length payload \<le> 500" "length dst_mac = 6" "length (g_mac n) = 6"
  shows "\<exists>ip seg. sent (send_tcp_segment dst dst_mac seq ack flags payload n) = sent n @ [eth_hdr dst_mac (g_mac n) ETH_P_IP @ ip @ seg] \<and>
     length ip = 20 \<and> checksum16 ip = 0 \<and> drop 20 seg = payload \<and> tcp_checksum_segment (g_local_ip n) dst seg = 0"
proof -
  define c where "c = bswap16 (tcp_checksum_segment (g_local_ip n) dst (tcp_hdr seq ack flags 0 @ payload))"
  define seg where "seg = tcp_hdr seq ack flags c @ payload"
  obtain ip n1 where b: "build_ipv4 (g_local_ip n) dst IP_PROTO_TCP (20 + length payload) n = (ip, n1)" by fastforce
  then have ip: "checksum16 ip = 0" "length ip = 20" "sent n1 = sent n"
    using ipv4_verifies [of "g_local_ip n" dst IP_PROTO_TCP "20 + length payload" n] by (auto simp: build_ipv4_def ipv4_hdr_def Let_def)
  have "tcp_checksum_segment (g_local_ip n) dst seg = 0"
    unfolding seg_def c_def using assms(1) by (intro tcp_verifies) simp
  moreover have "length (tcp_hdr seq ack flags c) = 20" by (simp add: tcp_hdr_def)
  moreover have "sent (send_tcp_segment dst dst_mac seq ack flags payload n) = sent n @ [eth_hdr dst_mac (g_mac n) ETH_P_IP @ ip @ seg]"
    using assms ip by (simp add: send_tcp_segment_def b rtl8139_send_def eth_hdr_def seg_def c_def tcp_hdr_def Let_def)
  ultimately show ?thesis using ip by (intro exI [of _ ip] exI [of _ seg]) (simp add: seg_def)
qed

definition demo_net :: net where
  "demo_net = \<lparr>g_mac = [2, 0, 0, 0, 0, 1], g_gateway_mac = [2, 0, 0, 0, 0, 2], g_gateway_known = True, g_dhcp_configured = True,
     g_dhcp_requested = True, g_dns_requested = False, g_tcp_state = 1, g_http_ok = False, g_ip_id = 1, g_icmp_seq = 1, g_dns_host = [],
     g_local_ip = 0x0F02000A, g_gateway_ip = 0x0202000A, g_dns_ip = 0x0302000A, g_dns_answer_ip = 0, g_dhcp_server_ip = 0, g_offered_ip = 0,
     g_tcp_remote_ip = 0x01010101, g_tcp_seq = 0xE0020000, g_tcp_ack = 0, g_tcp_get_seq = 0, g_tcp_get_len = 0, g_tcp_wait_ticks = 0,
     g_tcp_retries = 0, g_http_bytes = 0, g_http_chunks = 0, g_http_headers_done = False, g_http_body_printed = False,
     g_http_body = replicate 512 0, g_http_body_len = 0, g_http_host = [0x61], g_ping_replied = False, sent = [], after_literal = 0\<rparr>"

lemma tcp_segment_verifies_witness:
  "\<exists>ip seg. sent (send_tcp_segment 0x01010101 [2, 0, 0, 0, 0, 2] 7 8 TCP_FLAG_ACK [1, 2, 3] demo_net) =
     [eth_hdr [2, 0, 0, 0, 0, 2] [2, 0, 0, 0, 0, 1] ETH_P_IP @ ip @ seg] \<and> checksum16 ip = 0 \<and> drop 20 seg = [1, 2, 3]"
  using tcp_segment_verifies [of "[1, 2, 3]" "[2, 0, 0, 0, 0, 2]" demo_net "0x01010101" 7 8 TCP_FLAG_ACK] by (auto simp: demo_net_def)

section \<open>Names\<close>

text \<open>A host name is a sequence of labels joined by dots; its encoding puts the length in front of each label.\<close>

fun join :: "u8 list list \<Rightarrow> u8 list" where
  "join [] = []"
| "join [l] = l"
| "join (l # ls) = l @ 0x2E # join ls"

definition encode :: "u8 list list \<Rightarrow> u8 list" where
  "encode ls = concat (map (\<lambda>l. of_nat (length l) # l) ls) @ [0]"

definition label_ok :: "u8 list \<Rightarrow> bool" where
  "label_ok l \<longleftrightarrow> l \<noteq> [] \<and> length l \<le> 63 \<and> 0x2E \<notin> set l"

lemma encode_simps: "encode [] = [0]" "encode (l # ls) = (of_nat (length l) # l) @ encode ls"
  by (simp_all add: encode_def)

lemma length_encode: "ls \<noteq> [] \<Longrightarrow> length (encode ls) = length (join ls) + 2"
  by (induction ls rule: join.induct) (simp_all add: encode_simps)

lemma put_bytes_nth:
  "off + length bs \<le> length b \<Longrightarrow> i < length b \<Longrightarrow> put_bytes b off bs ! i = (if off \<le> i \<and> i < off + length bs then bs ! (i - off) else b ! i)"
  by (auto simp: put_bytes_def nth_append)

lemma put_bytes_cons: "off + length bs < length b \<Longrightarrow> (put_bytes b (Suc off) bs)[off := c] = put_bytes b off (c # bs)"
  by (rule nth_equalityI) (auto simp: nth_list_update put_bytes_nth nth_Cons' Suc_diff_le)

lemma put_bytes_append:
  "off + length xs + length ys \<le> length b \<Longrightarrow> put_bytes (put_bytes b off xs) (off + length xs) ys = put_bytes b off (xs @ ys)"
  by (rule nth_equalityI) (auto simp: put_bytes_nth nth_append)

lemma put_bytes_single: "i < length b \<Longrightarrow> b[i := v] = put_bytes b i [v]"
  by (rule nth_equalityI) (auto simp: put_bytes_nth nth_list_update)

lemma put_bytes_nil [simp]: "off \<le> length b \<Longrightarrow> put_bytes b off [] = b" by (simp add: put_bytes_def)

lemma name_loop_chars:
  "0x2E \<notin> set l \<Longrightarrow> ll \<noteq> 0 \<Longrightarrow> ll + length l \<le> 63 \<Longrightarrow> pos + length l \<le> length out \<Longrightarrow>
     dns_name_loop (length out) (l @ rest) out pos ll lp =
     dns_name_loop (length out) rest (put_bytes out pos l) (pos + length l) (ll + length l) lp"
proof (induction l arbitrary: out pos ll)
  case (Cons c l)
  have "(out[pos := c]) = put_bytes out pos [c]" using Cons.prems(4) by (simp add: put_bytes_single)
  then have "put_bytes (out[pos := c]) (Suc pos) l = put_bytes out pos (c # l)"
    using put_bytes_append [of pos "[c]" l out] Cons.prems(4) by simp
  then show ?case using Cons.IH [of "Suc ll" "Suc pos" "out[pos := c]"] Cons.prems by auto
qed simp

lemma name_loop_label:
  assumes "label_ok l" "pos + 1 + length l \<le> length out"
  shows "dns_name_loop (length out) (l @ rest) out pos 0 lp =
    dns_name_loop (length out) rest (put_bytes out (Suc pos) l) (Suc pos + length l) (length l) pos"
proof -
  obtain c l' where l: "l = c # l'" using assms(1) by (cases l) (auto simp: label_ok_def)
  have "out[Suc pos := c] = put_bytes out (Suc pos) [c]" using assms(2) l by (simp add: put_bytes_single)
  then have "put_bytes (out[Suc pos := c]) (Suc (Suc pos)) l' = put_bytes out (Suc pos) l"
    using put_bytes_append [of "Suc pos" "[c]" l' out] assms(2) l by simp
  then show ?thesis using assms l name_loop_chars [of l' 1 "Suc (Suc pos)" "out[Suc pos := c]" rest pos] by (auto simp: label_ok_def)
qed

lemma name_loop_encode:
  "ls \<noteq> [] \<Longrightarrow> list_all label_ok ls \<Longrightarrow> pos + length (encode ls) \<le> length out \<Longrightarrow>
     dns_name_loop (length out) (join ls) out pos 0 lp = Some (pos + length (encode ls), put_bytes out pos (encode ls))"
proof (induction ls arbitrary: out pos lp rule: join.induct)
  case (2 l)
  have room: "pos + 1 + length l < length out" using 2 by (simp add: encode_simps)
  have "(put_bytes out (Suc pos) l)[pos := of_nat (length l)] = put_bytes out pos (of_nat (length l) # l)"
    using room by (intro put_bytes_cons) simp
  moreover have "(put_bytes out pos (of_nat (length l) # l))[Suc pos + length l := 0] = put_bytes out pos (of_nat (length l) # l @ [0])"
    using room put_bytes_append [of pos "of_nat (length l) # l" "[0]" out] by (subst put_bytes_single) simp_all
  moreover have "l \<noteq> []" using 2 by (simp add: label_ok_def)
  ultimately show ?case using 2 room name_loop_label [of l pos out "[]" lp] by (simp add: encode_simps Let_def)
next
  case (3 l k ls)
  have room: "pos + 1 + length l < length out" using 3 by (simp add: encode_simps)
  let ?o = "put_bytes out pos (of_nat (length l) # l)"
  have o: "(put_bytes out (Suc pos) l)[pos := of_nat (length l)] = ?o" using room by (intro put_bytes_cons) simp
  have len: "length ?o = length out" using room by simp
  have lo: "label_ok l" "list_all label_ok (k # ls)" using 3(3) by simp_all
  then have "l \<noteq> []" "length l \<le> 63" by (simp_all add: label_ok_def)
  then have "dns_name_loop (length out) (join (l # k # ls)) out pos 0 lp = dns_name_loop (length out) (join (k # ls)) ?o (Suc pos + length l) 0 pos"
    using name_loop_label [of l pos out "0x2E # join (k # ls)" lp] lo(1) room o by simp
  also have "\<dots> = Some (Suc pos + length l + length (encode (k # ls)), put_bytes ?o (Suc pos + length l) (encode (k # ls)))"
    using 3(1) [of "Suc pos + length l" ?o pos] lo(2) 3(4) len by (simp add: encode_simps(2) [of l])
  also have "put_bytes ?o (Suc pos + length l) (encode (k # ls)) = put_bytes out pos (encode (l # k # ls))"
    using put_bytes_append [of pos "of_nat (length l) # l" "encode (k # ls)" out] 3(4) by (simp add: encode_simps(2) [of l])
  finally show ?case by (simp add: encode_simps(2) [of l])
qed simp

lemma small_label: "k < 64 \<Longrightarrow> (of_nat k :: u8) AND 0xC0 = 0"
proof -
  assume "k < 64"
  then have "unat (of_nat k :: u8) < 2 ^ 6" by (simp add: unat_of_nat)
  then have "take_bit 6 (of_nat k :: u8) = of_nat k" by (simp add: word_unat_eq_iff unsigned_take_bit_eq take_bit_nat_eq_self_iff)
  then have "(of_nat k :: u8) = of_nat k AND mask 6" by (simp add: take_bit_eq_mask)
  then have "(of_nat k :: u8) AND 0xC0 = of_nat k AND (mask 6 AND 0xC0)" by (metis and.assoc)
  also have "mask 6 AND (0xC0 :: u8) = 0" by (simp add: mask_numeral)
  finally show ?thesis by simp
qed

lemma skip_encode:
  "list_all label_ok ls \<Longrightarrow> (\<And>i. i < length (encode ls) \<Longrightarrow> msg (off + i) = encode ls ! i) \<Longrightarrow>
     int off + int (length (encode ls)) \<le> len \<Longrightarrow> j + int (length ls) \<le> 64 \<Longrightarrow>
     dns_skip_from msg len (int off) j = int off + int (length (encode ls))"
proof (induction ls arbitrary: off j)
  case Nil
  then have "msg off = 0" by (simp add: encode_simps)
  then show ?case using Nil by (subst dns_skip_from.simps) (simp add: encode_simps)
next
  case (Cons l ls)
  let ?c = "of_nat (length l) :: u8"
  have l: "l \<noteq> []" "length l < 64" using Cons.prems(1) by (auto simp: label_ok_def)
  have u: "uint ?c = int (length l)" "unat ?c = length l" using l by (simp_all add: unat_of_nat uint_nat)
  then have nz: "?c \<noteq> 0" using l(1) by (metis length_0_conv unat_0)
  have c: "msg off = ?c" using Cons.prems(2) [of 0] by (simp add: encode_simps)
  have tl: "msg (off + Suc (length l) + i) = encode ls ! i" if "i < length (encode ls)" for i
    using Cons.prems(2) [of "Suc (length l) + i"] that by (simp add: encode_simps nth_append add.assoc)
  have "(0 :: u8) \<noteq> 0xC0" by simp
  then have "dns_skip_from msg len (int off) j = dns_skip_from msg len (int (off + Suc (length l))) (j + 1)"
    using Cons.prems(3,4) c nz small_label [OF l(2)] u by (subst dns_skip_from.simps) (simp add: encode_simps Let_def ac_simps)
  also have "\<dots> = int (off + Suc (length l)) + int (length (encode ls))"
    using Cons.prems tl by (intro Cons.IH) (simp_all add: encode_simps ac_simps)
  finally show ?case by (simp add: encode_simps)
qed

text \<open>
  C21: a host name of up to 64 labels that fits the buffer is encoded completely, each label behind its length, and
  \<open>dns_skip_name\<close> moves exactly over what was written.
\<close>

theorem dns_name_roundtrip:
  assumes "ls \<noteq> []" "list_all label_ok ls" "length ls \<le> 64" "length (join ls) + 2 \<le> length out"
  shows "\<exists>out'. dns_write_name out (join ls) = Some (length (join ls) + 2, out') \<and> take (length (join ls) + 2) out' = encode ls \<and>
     dns_skip_name (\<lambda>i. out' ! i) (int (length out')) 0 = int (length (join ls) + 2)"
proof -
  define out' where "out' = put_bytes out 0 (encode ls)"
  have len: "length (encode ls) = length (join ls) + 2" using assms(1) by (rule length_encode)
  have w: "dns_write_name out (join ls) = Some (length (join ls) + 2, out')"
    using name_loop_encode [of ls 0 out 0] assms len by (simp add: dns_write_name_def out'_def)
  have t: "take (length (join ls) + 2) out' = encode ls" using len by (simp add: out'_def put_bytes_def)
  have lo: "length out' = length out" using len assms(4) by (simp add: out'_def)
  have "dns_skip_from (\<lambda>i. out' ! i) (int (length out')) (int 0) 0 = int 0 + int (length (encode ls))"
  proof (rule skip_encode [OF assms(2)])
    show "out' ! (0 + i) = encode ls ! i" if "i < length (encode ls)" for i
      using that len by (simp add: t [symmetric])
  qed (use assms len lo in simp_all)
  then show ?thesis using w t len by (simp add: dns_skip_name_def)
qed

lemma dns_name_roundtrip_witness:
  "\<exists>out'. dns_write_name (replicate 240 0) [0x61, 0x62, 0x2E, 0x63] = Some (6, out') \<and> take 6 out' = [2, 0x61, 0x62, 1, 0x63, 0]"
proof -
  have l: "length (join [[0x61, 0x62], [0x63]]) + 2 = 6" by simp
  have e: "encode [[0x61, 0x62], [0x63]] = [2, 0x61, 0x62, 1, 0x63, 0]" by (simp add: encode_def)
  show ?thesis using dns_name_roundtrip [of "[[0x61, 0x62], [0x63]]" "replicate 240 0", unfolded l e] by (auto simp: label_ok_def)
qed

section \<open>The state over time\<close>

text \<open>Everything that can happen to the stack.\<close>

inductive net_step :: "net \<Rightarrow> net \<Rightarrow> bool" where
  packet: "net_step n (net_handle_packet p len n)"
| timer: "net_step n (tcp_poll_retransmit n)"
| fetch: "net_step n (snd (net_http_fetch host n))"
| ping: "net_step n (net_ping_send ip n)"
| reset: "net_step n (net_http_reset n)"

definition net_inv :: "net \<Rightarrow> bool" where
  "net_inv n \<longleftrightarrow> length (g_mac n) = 6 \<and> length (g_gateway_mac n) = 6 \<and> 0 \<le> g_tcp_state n \<and> g_tcp_state n \<le> 7 \<and>
     0 \<le> g_tcp_retries n \<and> g_tcp_retries n \<le> TCP_MAX_RETRIES \<and> g_tcp_wait_ticks n < TCP_RETRY_TICKS \<and>
     length (g_http_body n) = HTTP_BODY_BUF_SIZE \<and> unat (g_http_body_len n) < HTTP_BODY_BUF_SIZE \<and> g_http_body n ! unat (g_http_body_len n) = 0 \<and>
     length (g_dns_host n) \<le> 63 \<and> length (g_http_host n) \<le> 63 \<and> list_all (\<lambda>f. 14 \<le> length f \<and> length f \<le> 640) (sent n)"

text \<open>Sending changes the list of frames and the counters in the headers only.\<close>

definition same_but_sent :: "net \<Rightarrow> net \<Rightarrow> bool" where
  "same_but_sent n n' \<longleftrightarrow> (\<exists>i q s. n' = n\<lparr>g_ip_id := i, g_icmp_seq := q, sent := s\<rparr> \<and>
     (list_all (\<lambda>f. 14 \<le> length f \<and> length f \<le> 640) (sent n) \<longrightarrow> list_all (\<lambda>f. 14 \<le> length f \<and> length f \<le> 640) s))"

lemma same_but_sent_inv: "same_but_sent n n' \<Longrightarrow> net_inv n \<Longrightarrow> net_inv n'"
  unfolding same_but_sent_def net_inv_def by (elim exE conjE) simp

lemma rtl8139_send_same:
  "14 \<le> length f \<Longrightarrow> length f \<le> 640 \<Longrightarrow> same_but_sent n (rtl8139_send f (n\<lparr>g_ip_id := i, g_icmp_seq := q\<rparr>))"
  unfolding same_but_sent_def rtl8139_send_def by (intro exI [of _ i] exI [of _ q] exI [of _ "sent n @ [f]"]) simp


lemma build_ipv4_eq: "\<exists>ip. build_ipv4 src dst proto k n = (ip, n\<lparr>g_ip_id := g_ip_id n + 1, g_icmp_seq := g_icmp_seq n\<rparr>) \<and> length ip = 20"
  by (simp add: build_ipv4_def ipv4_hdr_def Let_def)

lemma send_udp_same:
  assumes "length (g_mac n) = 6" "length dst_mac = 6" "length payload \<le> 500"
  shows "same_but_sent n (send_udp dst_mac s d sp dp payload n)"
proof -
  obtain ip where ip: "build_ipv4 s d IP_PROTO_UDP (8 + length payload) n = (ip, n\<lparr>g_ip_id := g_ip_id n + 1, g_icmp_seq := g_icmp_seq n\<rparr>)" "length ip = 20"
    using build_ipv4_eq by blast
  show ?thesis unfolding send_udp_def ip(1) Let_def case_prod_conv
    by (rule rtl8139_send_same) (use assms ip(2) in \<open>simp_all add: eth_hdr_def udp_hdr_def\<close>)
qed

lemma send_tcp_same:
  assumes "length (g_mac n) = 6" "length dst_mac = 6" "length payload \<le> 500"
  shows "same_but_sent n (send_tcp_segment d dst_mac seq ack flags payload n)"
proof -
  obtain ip where ip: "build_ipv4 (g_local_ip n) d IP_PROTO_TCP (20 + length payload) n = (ip, n\<lparr>g_ip_id := g_ip_id n + 1, g_icmp_seq := g_icmp_seq n\<rparr>)" "length ip = 20"
    using build_ipv4_eq by blast
  show ?thesis unfolding send_tcp_segment_def ip(1) Let_def case_prod_conv
    by (rule rtl8139_send_same) (use assms ip(2) in \<open>simp_all add: eth_hdr_def tcp_hdr_def\<close>)
qed

lemma send_icmp_same:
  assumes "length (g_mac n) = 6" "length dst_mac = 6"
  shows "same_but_sent n (send_icmp_echo d dst_mac n)"
proof -
  obtain ip where ip: "build_ipv4 (g_local_ip n) d IP_PROTO_ICMP (8 + length ping_text) n = (ip, n\<lparr>g_ip_id := g_ip_id n + 1, g_icmp_seq := g_icmp_seq n\<rparr>)" "length ip = 20"
    using build_ipv4_eq by blast
  have "same_but_sent n (rtl8139_send f (n\<lparr>g_ip_id := g_ip_id n + 1, g_icmp_seq := g_icmp_seq n + 1\<rparr>))"
    if "14 \<le> length f" "length f \<le> 640" for f using that by (rule rtl8139_send_same)
  then show ?thesis unfolding send_icmp_echo_def ip(1) Let_def case_prod_conv
    using assms ip(2) by (simp add: eth_hdr_def icmp_hdr_def ping_text_def)
qed

lemma send_arp_same: "length (g_mac n) = 6 \<Longrightarrow> same_but_sent n (send_arp_request ip n)"
  unfolding send_arp_request_def
  using rtl8139_send_same [of "eth_hdr (replicate 6 0xFF) (g_mac n) ETH_P_ARP @ arp_pkt 1 (g_mac n) (g_local_ip n) (replicate 6 0) ip" n "g_icmp_seq n" "g_ip_id n"]
  by (simp add: eth_hdr_def arp_pkt_def)

lemma send_dhcp_same: "length (g_mac n) = 6 \<Longrightarrow> same_but_sent n (send_dhcp ty rq sv n)"
  unfolding send_dhcp_def Let_def by (rule send_udp_same) (auto simp: dhcp_add_option_def dhcp_pkt_def)

lemma name_loop_length: "dns_name_loop L host out pos ll lp = Some (k, out') \<Longrightarrow> length out' = length out"
  by (induction L host out pos ll lp rule: dns_name_loop.induct) (auto simp: Let_def bind_eq_Some_conv split: if_splits)

lemma net_inv_macs: "net_inv n \<Longrightarrow> length (g_mac n) = 6" "net_inv n \<Longrightarrow> length (g_gateway_mac n) = 6"
  by (simp_all add: net_inv_def)

lemma dns_query_inv:
  assumes "net_inv n"
  shows "net_inv (dns_query host n)"
proof -
  let ?n = "n\<lparr>g_dns_requested := True, g_dns_host := take 63 host\<rparr>"
  have inv: "net_inv ?n" using assms by (simp add: net_inv_def)
  have "net_inv (send_udp (g_gateway_mac ?n) (g_local_ip ?n) (g_dns_ip ?n) DNS_CLIENT_PORT DNS_PORT (dns_hdr @ take k out @ [0, 1, 0, 1]) ?n)"
    if "dns_write_name (replicate (256 - 12 - 4) 0) host = Some (k, out)" for k out
  proof (rule same_but_sent_inv [OF send_udp_same inv])
    have "length out \<le> 240" using name_loop_length that by (fastforce simp: dns_write_name_def)
    then show "length (dns_hdr @ take k out @ [0, 1, 0, 1]) \<le> 500" by (simp add: dns_hdr_def min_def)
  qed (use net_inv_macs [OF assms] in simp_all)
  then show ?thesis using assms by (auto simp: dns_query_def Let_def split: option.splits)
qed

lemma tcp_send_inv: "net_inv n \<Longrightarrow> length payload \<le> 500 \<Longrightarrow> net_inv (tcp_send seq ack flags payload n)"
  unfolding tcp_send_def by (rule same_but_sent_inv [OF send_tcp_same]) (simp_all add: net_inv_macs)

lemma http_request_length: "length (http_request n) \<le> 109"
  by (simp add: http_request_def http_get_prefix_def http_get_agent_def)

lemma tcp_http_start_inv: "net_inv n \<Longrightarrow> net_inv (tcp_http_start ip n)"
  unfolding tcp_http_start_def Let_def
  by (auto intro!: same_but_sent_inv [OF send_tcp_same] simp: net_inv_macs) (simp add: net_inv_def TCP_MAX_RETRIES_def TCP_RETRY_TICKS_def)


lemma http_store_body_inv:
  assumes "net_inv n"
  shows "net_inv (http_store_body ds n)"
proof (cases "ds = [] \<or> g_http_body_len n \<ge> of_nat (HTTP_BODY_BUF_SIZE - 1)")
  case False
  let ?L = "unat (g_http_body_len n)"
  define cp where "cp = take (HTTP_BODY_BUF_SIZE - 1 - ?L) ds"
  define l1 where "l1 = g_http_body_len n + of_nat (length cp)"
  have L: "?L < 511" using False by (simp add: HTTP_BODY_BUF_SIZE_def word_le_nat_alt)
  have c: "?L + length cp \<le> 511" using L by (auto simp: cp_def HTTP_BODY_BUF_SIZE_def min_def)
  have l1: "unat l1 = ?L + length cp" using c by (simp add: l1_def unat_word_ariths unat_of_nat)
  have "length (put_bytes (g_http_body n) ?L cp) = 512" using assms c by (simp add: net_inv_def HTTP_BODY_BUF_SIZE_def)
  then have "net_inv (n\<lparr>g_http_body := (put_bytes (g_http_body n) ?L cp)[unat l1 := 0], g_http_body_len := l1\<rparr>)"
    using assms c l1 by (simp add: net_inv_def HTTP_BODY_BUF_SIZE_def)
  then show ?thesis using False by (simp add: http_store_body_def Let_def cp_def l1_def)
qed (use assms in \<open>auto simp: http_store_body_def\<close>)

lemma http_process_payload_inv: "net_inv n \<Longrightarrow> net_inv (http_process_payload ds n)"
  unfolding http_process_payload_def by (auto split: option.splits intro!: http_store_body_inv) (simp add: net_inv_def)

lemma preview_inv: "net_inv n \<Longrightarrow> net_inv (http_print_body_preview n)"
  by (simp add: http_print_body_preview_def net_inv_def)

lemma send_get_inv: "net_inv n \<Longrightarrow> net_inv (tcp_http_send_get n)"
proof -
  assume "net_inv n"
  let ?n = "n\<lparr>g_tcp_get_seq := g_tcp_seq n, g_tcp_get_len := of_nat (length (http_request n)), g_tcp_wait_ticks := 0, g_tcp_retries := 0\<rparr>"
  have "net_inv ?n" using \<open>net_inv n\<close> by (simp add: net_inv_def TCP_MAX_RETRIES_def TCP_RETRY_TICKS_def)
  then have "net_inv (tcp_send (g_tcp_seq ?n) (g_tcp_ack ?n) (TCP_FLAG_PSH OR TCP_FLAG_ACK) (http_request n) ?n)"
    using http_request_length [of n] by (intro tcp_send_inv) simp_all
  then show ?thesis unfolding tcp_http_send_get_def Let_def by (simp add: net_inv_def)
qed

lemma retransmit_inv: "net_inv n \<Longrightarrow> net_inv (tcp_poll_retransmit n)"
proof -
  assume inv: "net_inv n"
  have upd: "net_inv (n\<lparr>g_tcp_wait_ticks := t, g_tcp_retries := r\<rparr>)" if "t < TCP_RETRY_TICKS" "0 \<le> r" "r \<le> TCP_MAX_RETRIES" for t r
    using inv that by (simp add: net_inv_def)
  have "net_inv (n\<lparr>g_tcp_wait_ticks := g_tcp_wait_ticks n + 1\<rparr>)" if "g_tcp_wait_ticks n + 1 < TCP_RETRY_TICKS"
    using upd [OF that, of "g_tcp_retries n"] inv by (simp add: net_inv_def)
  moreover have "net_inv (n\<lparr>g_tcp_wait_ticks := 0, g_tcp_state := 7\<rparr>)"
    using inv by (simp add: net_inv_def TCP_RETRY_TICKS_def)
  moreover have "net_inv (n\<lparr>g_tcp_wait_ticks := 0, g_tcp_retries := g_tcp_retries n + 1\<rparr>)" if "\<not> g_tcp_retries n \<ge> TCP_MAX_RETRIES"
    using upd [of 0 "g_tcp_retries n + 1"] that inv by (simp add: net_inv_def TCP_RETRY_TICKS_def)
  ultimately show ?thesis unfolding tcp_poll_retransmit_def tcp_http_retry_get_def Let_def
    using inv http_request_length by (auto intro!: tcp_send_inv order_trans [OF http_request_length])
qed

lemma handle_dns_inv: "net_inv n \<Longrightarrow> net_inv (handle_dns msg len n)"
  unfolding handle_dns_def Let_def
  by (auto split: option.splits intro!: tcp_http_start_inv) (simp add: net_inv_def)

lemma handle_arp_inv: "net_inv n \<Longrightarrow> net_inv (handle_arp arp len n)"
proof -
  assume "net_inv n"
  let ?n = "n\<lparr>g_gateway_mac := map arp [8..<14], g_gateway_known := True\<rparr>"
  have "net_inv ?n" using \<open>net_inv n\<close> by (simp add: net_inv_def)
  then have "net_inv (send_icmp_echo (g_gateway_ip ?n) (g_gateway_mac ?n) ?n)"
    by (rule same_but_sent_inv [OF send_icmp_same, rotated -1]) (use \<open>net_inv n\<close> in \<open>simp_all add: net_inv_macs\<close>)
  then show ?thesis unfolding handle_arp_def Let_def using \<open>net_inv n\<close> dns_query_inv by auto
qed

lemma handle_dhcp_inv: "net_inv n \<Longrightarrow> net_inv (handle_dhcp p len n)"
  unfolding handle_dhcp_def Let_def
  by (auto intro!: same_but_sent_inv [OF send_dhcp_same] same_but_sent_inv [OF send_arp_same] simp: net_inv_macs) (simp_all add: net_inv_def)

lemma handle_tcp_inv:
  assumes "net_inv n"
  shows "net_inv (handle_tcp ip ihl tot n)"
proof -
  have st: "net_inv (m\<lparr>g_tcp_state := 5\<rparr>)" "net_inv (m\<lparr>g_tcp_state := 6\<rparr>)" "net_inv (m\<lparr>g_tcp_ack := a\<rparr>)" "net_inv (m\<lparr>g_http_ok := True, g_tcp_state := 4\<rparr>)"
    "net_inv (m\<lparr>g_http_chunks := c, g_http_bytes := b\<rparr>)" if "net_inv m" for m a b c
    using that by (simp_all add: net_inv_def)
  have syn: "net_inv (tcp_http_send_get (tcp_send s a TCP_FLAG_ACK [] (n\<lparr>g_tcp_seq := s, g_tcp_ack := a, g_tcp_state := 2\<rparr>)))" for s a
    using assms by (intro send_get_inv tcp_send_inv) (simp_all add: net_inv_def)
  show ?thesis unfolding handle_tcp_def Let_def
    using assms by (auto intro!: st syn tcp_send_inv preview_inv http_process_payload_inv)
qed


lemma handle_udp_inv: "net_inv n \<Longrightarrow> net_inv (handle_udp udp n)"
  by (simp add: handle_udp_def Let_def handle_dhcp_inv handle_dns_inv)

lemma handle_ipv4_inv: "net_inv n \<Longrightarrow> net_inv (handle_ipv4 ip len n)"
proof -
  assume inv: "net_inv n"
  then have "net_inv (n\<lparr>g_ping_replied := True\<rparr>)" by (simp add: net_inv_def)
  then show ?thesis using inv by (simp add: handle_ipv4_def Let_def handle_udp_inv handle_tcp_inv)
qed

lemma net_handle_packet_inv: "net_inv n \<Longrightarrow> net_inv (net_handle_packet p len n)"
  unfolding net_handle_packet_def Let_def by (auto intro!: handle_arp_inv handle_ipv4_inv)

lemma net_http_reset_inv: "net_inv n \<Longrightarrow> net_inv (net_http_reset n)"
  by (simp add: net_http_reset_def net_inv_def TCP_MAX_RETRIES_def TCP_RETRY_TICKS_def HTTP_BODY_BUF_SIZE_def)

lemma net_step_inv: "net_step n n' \<Longrightarrow> net_inv n \<Longrightarrow> net_inv n'"
proof (induction rule: net_step.induct)
  case (fetch n host)
  have "net_inv ((net_http_reset n)\<lparr>g_http_host := take 63 host\<rparr>)" using net_http_reset_inv [OF fetch] by (simp add: net_inv_def)
  then show ?case using fetch dns_query_inv by (simp add: net_http_fetch_def)
next
  case (ping n ip)
  have "net_inv (n\<lparr>g_ping_replied := False\<rparr>)" using ping by (simp add: net_inv_def)
  then show ?case using ping by (auto simp: net_ping_send_def Let_def net_inv_macs intro: same_but_sent_inv [OF send_icmp_same])
qed (simp_all add: net_handle_packet_inv retransmit_inv net_http_reset_inv)

lemma net_init_inv: "length mac = 6 \<Longrightarrow> length (g_gateway_mac n) = 6 \<Longrightarrow> length (g_http_body n) = 512 \<Longrightarrow> sent n = [] \<Longrightarrow> net_inv (net_init (Some mac) n)"
  by (auto simp: net_init_def net_reset_def intro!: same_but_sent_inv [OF send_dhcp_same])
    (simp add: net_inv_def TCP_MAX_RETRIES_def TCP_RETRY_TICKS_def HTTP_BODY_BUF_SIZE_def)

text \<open>
  C19: from initialisation on, whatever packets arrive in whatever order, between time-outs and requests, the page that is
  kept stays within its buffer of 512 bytes and ends with a zero, the addresses and names have their sizes, the state of the
  connection and its counters stay in range, and every frame handed to the card fits the buffer it is built in.
\<close>

theorem net_invariant:
  assumes "length mac = 6" "length (g_gateway_mac n) = 6" "length (g_http_body n) = 512" "sent n = []"
    and "net_step\<^sup>*\<^sup>* (net_init (Some mac) n) n'"
  shows "net_inv n'"
  using assms(5)
proof (induction rule: rtranclp_induct)
  case base
  show ?case using assms by (intro net_init_inv)
next
  case (step y z)
  then show ?case using net_step_inv by blast
qed

lemma net_invariant_witness: "net_inv (tcp_poll_retransmit (net_init (Some [2, 0, 0, 0, 0, 1]) demo_net))"
  by (rule net_invariant [of "[2, 0, 0, 0, 0, 1]" demo_net]) (auto simp: demo_net_def intro: net_step.timer)


section \<open>Time-outs\<close>

text \<open>The polls left until the request is given up.\<close>

definition polls_left :: "net \<Rightarrow> nat" where
  "polls_left n = nat (3 - g_tcp_retries n) * 200000 + (200000 - unat (g_tcp_wait_ticks n))"

lemma same_but_sent_fields:
  "same_but_sent n n' \<Longrightarrow> g_tcp_state n' = g_tcp_state n \<and> g_tcp_retries n' = g_tcp_retries n \<and> g_tcp_wait_ticks n' = g_tcp_wait_ticks n"
  unfolding same_but_sent_def by (elim exE conjE) simp

lemma tcp_send_fields:
  assumes "net_inv n" "length payload \<le> 500"
  shows "g_tcp_state (tcp_send seq ack flags payload n) = g_tcp_state n" "g_tcp_retries (tcp_send seq ack flags payload n) = g_tcp_retries n"
    "g_tcp_wait_ticks (tcp_send seq ack flags payload n) = g_tcp_wait_ticks n"
  using same_but_sent_fields [OF send_tcp_same, of n "g_gateway_mac n" payload] assms net_inv_macs unfolding tcp_send_def by auto

lemma retransmit_progress:
  assumes "net_inv n" "g_tcp_state n = 1 \<or> g_tcp_state n = 3"
  shows "g_tcp_state (tcp_poll_retransmit n) = 7 \<or>
    g_tcp_state (tcp_poll_retransmit n) = g_tcp_state n \<and> Suc (polls_left (tcp_poll_retransmit n)) = polls_left n"
proof -
  let ?w = "unat (g_tcp_wait_ticks n)" and ?n1 = "n\<lparr>g_tcp_wait_ticks := g_tcp_wait_ticks n + 1\<rparr>"
  have w: "?w < 200000" "0 \<le> g_tcp_retries n" "g_tcp_retries n \<le> 3"
    using assms(1) by (simp_all add: net_inv_def TCP_RETRY_TICKS_def word_less_nat_alt TCP_MAX_RETRIES_def)
  then have w1: "unat (g_tcp_wait_ticks n + 1) = Suc ?w" by (simp add: unat_word_ariths)
  show ?thesis
  proof (cases "Suc ?w < 200000")
    case True
    then have "tcp_poll_retransmit n = ?n1" using assms(2) w1 by (auto simp: tcp_poll_retransmit_def Let_def TCP_RETRY_TICKS_def word_less_nat_alt)
    then show ?thesis using True w1 by (auto simp: polls_left_def)
  next
    case False
    then have w': "?w = 199999" using w by simp
    then have nlt: "\<not> g_tcp_wait_ticks n + 1 < TCP_RETRY_TICKS" using w1 by (simp add: TCP_RETRY_TICKS_def word_less_nat_alt)
    show ?thesis
    proof (cases "g_tcp_retries n \<ge> 3")
      case True
      then show ?thesis using nlt assms(2) by (auto simp: tcp_poll_retransmit_def Let_def TCP_MAX_RETRIES_def)
    next
      case False
      let ?n3 = "n\<lparr>g_tcp_wait_ticks := 0, g_tcp_retries := g_tcp_retries n + 1\<rparr>"
      have inv3: "net_inv ?n3" using assms(1) False w by (simp add: net_inv_def TCP_MAX_RETRIES_def TCP_RETRY_TICKS_def)
      have r: "tcp_poll_retransmit n = (if g_tcp_state n = 1 then tcp_send (g_tcp_seq n) 0 TCP_FLAG_SYN [] ?n3
          else tcp_send (g_tcp_get_seq n) (g_tcp_ack n) (TCP_FLAG_PSH OR TCP_FLAG_ACK) (http_request ?n3) ?n3)"
        using nlt False assms(2) by (auto simp: tcp_poll_retransmit_def tcp_http_retry_get_def Let_def TCP_MAX_RETRIES_def)
      have "g_tcp_state (tcp_poll_retransmit n) = g_tcp_state n" "g_tcp_retries (tcp_poll_retransmit n) = g_tcp_retries n + 1"
          "g_tcp_wait_ticks (tcp_poll_retransmit n) = 0"
        using tcp_send_fields [OF inv3, of "[]"] tcp_send_fields [OF inv3 order_trans [OF http_request_length]] unfolding r by auto
      moreover have "nat (3 - g_tcp_retries n) = Suc (nat (3 - (g_tcp_retries n + 1)))" using False by simp
      ultimately show ?thesis using w' by (simp add: polls_left_def)
    qed
  qed
qed

lemma retransmit_done: "g_tcp_state n = 7 \<Longrightarrow> (tcp_poll_retransmit ^^ k) n = n"
  by (induction k) (simp_all add: tcp_poll_retransmit_def)

lemma retransmit_ends:
  "net_inv n \<Longrightarrow> g_tcp_state n = 1 \<or> g_tcp_state n = 3 \<Longrightarrow> polls_left n \<le> k \<Longrightarrow> g_tcp_state ((tcp_poll_retransmit ^^ k) n) = 7"
proof (induction k arbitrary: n)
  case 0
  then have "unat (g_tcp_wait_ticks n) < 200000" by (simp add: net_inv_def TCP_RETRY_TICKS_def word_less_nat_alt)
  then show ?case using 0 by (simp add: polls_left_def)
next
  case (Suc k)
  let ?n = "tcp_poll_retransmit n"
  have e: "(tcp_poll_retransmit ^^ Suc k) n = (tcp_poll_retransmit ^^ k) ?n" by (simp add: funpow_swap1)
  from retransmit_progress [OF Suc.prems(1,2)] show ?case
  proof
    assume "g_tcp_state ?n = 7"
    then show ?thesis unfolding e by (simp add: retransmit_done)
  next
    assume "g_tcp_state ?n = g_tcp_state n \<and> Suc (polls_left ?n) = polls_left n"
    then show ?thesis unfolding e using Suc.IH [of ?n] retransmit_inv [OF Suc.prems(1)] Suc.prems(2,3) by simp
  qed
qed

text \<open>
  C22: a request that nobody answers does not stay open: without packets, at most four times 200000 polls after it was made
  the connection is given up.
\<close>

theorem tcp_gives_up:
  assumes "net_inv n" "g_tcp_state n = 1 \<or> g_tcp_state n = 3"
  shows "g_tcp_state ((tcp_poll_retransmit ^^ (4 * 200000)) n) = 7"
proof (rule retransmit_ends [OF assms])
  have "nat (3 - g_tcp_retries n) \<le> 3" using assms(1) by (auto simp: net_inv_def)
  then show "polls_left n \<le> 4 * 200000" by (simp add: polls_left_def)
qed

lemma demo_net_inv: "net_inv demo_net"
  by (simp add: net_inv_def demo_net_def TCP_MAX_RETRIES_def TCP_RETRY_TICKS_def HTTP_BODY_BUF_SIZE_def)

lemma tcp_gives_up_witness: "g_tcp_state ((tcp_poll_retransmit ^^ (4 * 200000)) demo_net) = 7"
  by (rule tcp_gives_up [OF demo_net_inv]) (simp add: demo_net_def)


section \<open>What is read of a packet\<close>

lemma fld_cong: "(\<And>i. off \<le> i \<Longrightarrow> i < off + k \<Longrightarrow> p i = q i) \<Longrightarrow> fld k p off = fld k q off"
  by (auto simp: fld_def intro!: arg_cong [where f = bytes_le] map_cong)

lemma skip_cong: "(\<And>i. int i < len \<Longrightarrow> p i = q i) \<Longrightarrow> 0 \<le> off \<Longrightarrow> dns_skip_from p len off j = dns_skip_from q len off j"
proof (induction p len off j rule: dns_skip_from.induct)
  case (1 msg len off jumps)
  have eq: "msg (nat off) = q (nat off)" if "off < len" using 1(2,3) that by simp
  have "dns_skip_from msg len (off + 1 + uint (msg (nat off))) (jumps + 1) = dns_skip_from q len (off + 1 + uint (msg (nat off))) (jumps + 1)"
    if "off < len" "msg (nat off) \<noteq> 0" "msg (nat off) AND 0xC0 \<noteq> 0xC0" "msg (nat off) AND 0xC0 = 0"
      "\<not> (off + 1 + uint (msg (nat off)) > len \<or> jumps + 1 > 64)"
    using 1(1) [OF that(1) refl refl that(2,3) _ refl that(5)] 1(2,3) that(4) by simp
  then show ?case using eq by (subst (1 2) dns_skip_from.simps) (auto simp: Let_def)
qed

lemma questions_cong:
  "(\<And>i. int i < len \<Longrightarrow> p i = q i) \<Longrightarrow> 0 \<le> off \<Longrightarrow> dns_questions p len k off = dns_questions q len k off"
  by (induction k arbitrary: off) (simp_all add: dns_skip_name_def skip_cong [of len p q] Let_def)

lemma questions_nonneg: "dns_questions p len k off = Some o' \<Longrightarrow> 0 \<le> off \<Longrightarrow> 0 \<le> o'"
  by (induction k arbitrary: off) (auto simp: Let_def split: if_splits)

lemma answers_cong:
  "(\<And>i. int i < len \<Longrightarrow> p i = q i) \<Longrightarrow> 0 \<le> off \<Longrightarrow> dns_answers p len k off = dns_answers q len k off"
proof (induction k arbitrary: off)
  case (Suc k)
  define o1 where "o1 = dns_skip_name p len off"
  have o1q: "dns_skip_name q len off = o1" using skip_cong [of len p q off 0] Suc.prems by (simp add: o1_def dns_skip_name_def)
  show ?case
  proof (cases "o1 < 0 \<or> o1 + 10 > len")
    case False
    have b: "be16 p (nat o1 + i) = be16 q (nat o1 + i)" if "i \<le> 8" for i
      using Suc.prems(1) [of "nat o1 + i"] Suc.prems(1) [of "nat o1 + i + 1"] False that by (simp add: be16_def)
    have f: "fld 4 p (nat (o1 + 10)) = (fld 4 q (nat (o1 + 10)) :: u32)" if "\<not> o1 + 10 + uint (be16 p (nat o1 + 8)) > len" "uint (be16 p (nat o1 + 8)) = 4"
      using that False Suc.prems(1) by (intro fld_cong) auto
    have r: "dns_answers p len k (o1 + 10 + uint w) = dns_answers q len k (o1 + 10 + uint w)" for w :: u16
      using Suc.IH [of "o1 + 10 + uint w"] Suc.prems(1) False by simp
    show ?thesis using False b [of 0] b [of 2] b [of 8] f r
      unfolding dns_answers.simps o1q o1_def [symmetric] Let_def by auto
  qed (unfold dns_answers.simps o1q o1_def [symmetric] Let_def, simp)
qed simp

lemma handle_dns_cong: "(\<And>i. int i < len \<Longrightarrow> p i = q i) \<Longrightarrow> handle_dns p len n = handle_dns q len n"
proof (cases "len < 12")
  case False
  assume eq: "\<And>i. int i < len \<Longrightarrow> p i = q i"
  have f: "fld 2 p 0 = (fld 2 q 0 :: u16)" "fld 2 p 4 = (fld 2 q 4 :: u16)" "fld 2 p 6 = (fld 2 q 6 :: u16)"
    using eq False by (auto intro!: fld_cong)
  have a: "dns_answers p len k off = dns_answers q len k off" if "dns_questions q len k' 12 = Some off" for k k' off
    using answers_cong [of len p q, OF eq] questions_nonneg [OF that] by simp
  show ?thesis unfolding handle_dns_def f questions_cong [of len p q 12, OF eq, simplified] using a by (auto simp: Let_def split: option.splits)
qed (simp add: handle_dns_def)

lemma parse_dhcp_cong: "(\<And>i. i < len \<Longrightarrow> p i = q i) \<Longrightarrow> parse_dhcp_options p len i r = parse_dhcp_options q len i r"
proof (induction p len i r rule: parse_dhcp_options.induct)
  case (1 opt len i r)
  have f: "fld 4 opt (Suc (Suc i)) = (fld 4 q (Suc (Suc i)) :: u32)" if "\<not> len < Suc (Suc (i + unat (opt (Suc i))))" "4 \<le> unat (opt (Suc i))"
  proof (rule fld_cong)
    fix k assume "k < Suc (Suc i) + 4"
    then have "k < len" using that by linarith
    then show "opt k = q k" by (rule 1(3))
  qed
  show ?case
    using 1 f by (subst (1 2) parse_dhcp_options.simps) (auto simp: Let_def)
qed


lemma handle_dhcp_cong: "(\<And>i. int i < len \<Longrightarrow> p i = q i) \<Longrightarrow> handle_dhcp p len n = handle_dhcp q len n"
proof (cases "len < 240")
  case False
  assume eq: "\<And>i. int i < len \<Longrightarrow> p i = q i"
  have f: "p 0 = q 0" "fld 4 p 4 = (fld 4 q 4 :: u32)" "fld 4 p 236 = (fld 4 q 236 :: u32)" "fld 4 p 16 = (fld 4 q 16 :: u32)"
    using eq False by (auto intro!: fld_cong)
  have o: "parse_dhcp_options (\<lambda>i. p (240 + i)) (nat (len - 240)) 0 r = parse_dhcp_options (\<lambda>i. q (240 + i)) (nat (len - 240)) 0 r" for r
    using eq by (intro parse_dhcp_cong) auto
  show ?thesis unfolding handle_dhcp_def f o ..
qed (simp add: handle_dhcp_def)

lemma handle_tcp_cong:
  assumes eq: "\<And>i. i < tot \<Longrightarrow> p i = q i" and "20 \<le> ihl" "ihl \<le> tot"
  shows "handle_tcp p ihl tot n = handle_tcp q ihl tot n"
proof -
  have h: "fld 4 p 16 = (fld 4 q 16 :: u32)" "fld 4 p 12 = (fld 4 q 12 :: u32)" using assms by (auto intro!: fld_cong)
  show ?thesis
  proof (cases "tot < ihl + 20")
    case True
    then show ?thesis by (simp add: handle_tcp_def h)
  next
    case False
    let ?p = "\<lambda>i. p (ihl + i)" and ?q = "\<lambda>i. q (ihl + i)"
    have f: "fld 2 ?p 0 = (fld 2 ?q 0 :: u16)" "fld 2 ?p 2 = (fld 2 ?q 2 :: u16)" "fld 4 ?p 4 = (fld 4 ?q 4 :: u32)" "fld 4 ?p 8 = (fld 4 ?q 8 :: u32)"
      "p (ihl + 12) = q (ihl + 12)" "p (ihl + 13) = q (ihl + 13)"
      using eq False by (auto intro!: fld_cong)
    have m: "map ?p [a..<tot - ihl] = map ?q [a..<tot - ihl]" for a using eq False by auto
    show ?thesis unfolding handle_tcp_def h Let_def f m ..
  qed
qed

text \<open>The lengths in the headers of a packet do not claim more than was received.\<close>

definition lengths_ok :: "(nat \<Rightarrow> u8) \<Rightarrow> int \<Rightarrow> bool" where
  "lengths_ok p len \<longleftrightarrow>
     (let ip = (\<lambda>i. p (14 + i)); ihl = unat (ip 0 AND 0x0F) * 4; tot = unat (bswap16 (fld 2 ip 2))
      in 14 + int tot \<le> len \<and> (ip 9 = IP_PROTO_UDP \<longrightarrow> ihl + unat (bswap16 (fld 2 (\<lambda>i. ip (ihl + i)) 4)) \<le> tot))"

lemma handle_udp_cong:
  assumes eq: "\<And>i. i < k \<Longrightarrow> p i = q i" and "8 \<le> k" "unat (bswap16 (fld 2 p 4)) \<le> k"
  shows "handle_udp p n = handle_udp q n"
proof -
  have f: "fld 2 q 0 = (fld 2 p 0 :: u16)" "fld 2 q 2 = (fld 2 p 2 :: u16)" "fld 2 q 4 = (fld 2 p 4 :: u16)"
    using assms by (auto intro!: fld_cong)
  have "p (8 + i) = q (8 + i)" if "int i < uint (bswap16 (fld 2 p 4)) - 8" for i
    using that assms(3) uint_nat [of "bswap16 (fld 2 p 4)"] by (intro eq) linarith
  then have "handle_dhcp (\<lambda>i. p (8 + i)) (uint (bswap16 (fld 2 p 4)) - 8) n = handle_dhcp (\<lambda>i. q (8 + i)) (uint (bswap16 (fld 2 p 4)) - 8) n"
      "handle_dns (\<lambda>i. p (8 + i)) (uint (bswap16 (fld 2 p 4)) - 8) n = handle_dns (\<lambda>i. q (8 + i)) (uint (bswap16 (fld 2 p 4)) - 8) n"
    by (intro handle_dhcp_cong handle_dns_cong; assumption)+
  then show ?thesis unfolding handle_udp_def f by (simp only: Let_def)
qed

lemma handle_ipv4_cong:
  assumes eq: "\<And>i. int i < len - 14 \<Longrightarrow> p i = q i"
    and tot: "14 + int (unat (bswap16 (fld 2 p 2))) \<le> len"
    and udp: "p 9 = IP_PROTO_UDP \<Longrightarrow> unat (p 0 AND 0x0F) * 4 + unat (bswap16 (fld 2 (\<lambda>i. p (unat (p 0 AND 0x0F) * 4 + i)) 4)) \<le> unat (bswap16 (fld 2 p 2))"
  shows "handle_ipv4 p len n = handle_ipv4 q len n"
proof (cases "len < 34")
  case False
  define ihl where "ihl = unat (p 0 AND 0x0F) * 4"
  define T where "T = unat (bswap16 (fld 2 p 2))"
  have h: "p 0 = q 0" "p 9 = q 9" "fld 2 p 2 = (fld 2 q 2 :: u16)" "fld 4 p 16 = (fld 4 q 16 :: u32)"
    using eq False by (auto intro!: fld_cong)
  have T: "p i = q i" if "i < T" for i
  proof (rule eq)
    show "int i < len - 14" using that tot unfolding T_def by linarith
  qed
  have u: "handle_udp (\<lambda>i. p (ihl + i)) n = handle_udp (\<lambda>i. q (ihl + i)) n" if "p 9 = IP_PROTO_UDP" "\<not> T < ihl + 8"
  proof (rule handle_udp_cong)
    show "unat (bswap16 (fld 2 (\<lambda>i. p (ihl + i)) 4)) \<le> T - ihl" using udp [OF that(1)] unfolding ihl_def T_def by linarith
  qed (use T that in auto)
  have t: "handle_tcp p ihl T n = handle_tcp q ihl T n" if "\<not> ihl < 20" "\<not> T < ihl" using T that by (intro handle_tcp_cong) auto
  have b: "p ihl = q ihl" if "\<not> T < ihl + 8" using T that by auto
  show ?thesis
    unfolding handle_ipv4_def h [symmetric] ihl_def [symmetric] T_def [symmetric] Let_def
    using u t b by (cases "p 9 = IP_PROTO_UDP"; cases "p 9 = IP_PROTO_TCP"; cases "T < ihl + 8") (simp_all split del: if_split cong: if_cong, auto)
qed (simp add: handle_ipv4_def)




text \<open>The first 34 bytes of a packet to everybody that announces an ICMP message and ends before it.\<close>

definition cut_packet :: "net \<Rightarrow> u8 list" where
  "cut_packet n = replicate 6 0xFF @ replicate 6 0 @ [0x08, 0] @ [0x45, 0, 0, 28, 0, 0, 0, 0, 64, 1, 0, 0] @ le_bytes 4 (0 :: u32) @ le_bytes 4 (g_local_ip n)"

text \<open>
  The length in the IP header is not compared with the length received: for a packet that ends with its IP header the
  stack looks at the byte behind it, and takes it for an answer to a ping or not.
\<close>

theorem net_reads_past_end:
  assumes "\<not> g_ping_replied n"
  shows "\<exists>p q. (\<forall>i<34. p i = q i) \<and> g_ping_replied (net_handle_packet p 34 n) \<and> \<not> g_ping_replied (net_handle_packet q 34 n)"
proof -
  define p where "p x i = (if i < 34 then cut_packet n ! i else x)" for i and x :: u8
  have len: "length (cut_packet n) = 34" by (simp add: cut_packet_def)
  have at: "map (p x) [a..<b] = take (b - a) (drop a (cut_packet n))" if "b \<le> 34" for x a b
    using that len by (intro nth_equalityI) (auto simp: p_def)
  have ip: "map (\<lambda>i. p x (14 + i)) [off..<off + k] = take k (drop (14 + off) (cut_packet n))" if "off + k \<le> 20" for x k off
  proof -
    have "map (\<lambda>i. p x (14 + i)) [off..<off + k] = map (p x) [14 + off..<14 + off + k]" by (rule nth_equalityI) (simp_all add: add.assoc)
    then show ?thesis using at [of "14 + off + k" x "14 + off"] that by simp
  qed
  have b: "p x 14 = 0x45" "p x 23 = 1" "p x 34 = x" for x by (simp_all add: p_def cut_packet_def nth_append nth_Cons')
  have c: "drop_bit 4 (0x45 :: u8) = 4" "unat (0x45 AND 0x0F :: u8) * 4 = 20" by simp_all
  have fs: "fld 2 (\<lambda>i. p x (14 + i)) 2 = (0x1C00 :: u16)" "fld 4 (\<lambda>i. p x (14 + i)) 16 = g_local_ip n" "fld 2 (p x) 12 = (8 :: u16)" for x
  proof -
    have l: "take 2 (drop 16 (cut_packet n)) = [0, 28]" "take 2 (drop 12 (cut_packet n)) = [8, 0]" "take 4 (drop 30 (cut_packet n)) = le_bytes 4 (g_local_ip n)"
      by (simp_all add: cut_packet_def)
    have "map (\<lambda>i. p x (14 + i)) [2..<2 + 2] = [0, 28]" using ip [of 2 2 x] l(1) by simp
    then show "fld 2 (\<lambda>i. p x (14 + i)) 2 = (0x1C00 :: u16)" unfolding fld_def by (simp only:) simp
    have "map (\<lambda>i. p x (14 + i)) [16..<16 + 4] = le_bytes 4 (g_local_ip n)" using ip [of 16 4 x] l(3) by simp
    then show "fld 4 (\<lambda>i. p x (14 + i)) 16 = g_local_ip n" unfolding fld_def by (simp only: bytes_le_bytes) (simp add: bytes_le_bytes)
    have "map (p x) [12..<12 + 2] = [8, 0]" using at [of 14 x 12] l(2) by simp
    then show "fld 2 (p x) 12 = (8 :: u16)" unfolding fld_def by (simp only:) simp
  qed
  have ty: "bswap16 8 = ETH_P_IP" "ETH_P_IP \<noteq> ETH_P_ARP" "unat (bswap16 0x1C00) = 28"
    by (simp_all add: bswap16_def ETH_P_IP_def ETH_P_ARP_def)
  have bc: "mac_is_broadcast (map (p x) [0..<6])" for x by (simp add: at del: upt_Suc) (simp add: cut_packet_def mac_is_broadcast_def list_all_iff)
  have proto: "IP_PROTO_ICMP = 1" "(1 :: u8) \<noteq> IP_PROTO_UDP" "(1 :: u8) \<noteq> IP_PROTO_TCP"
    by (simp_all add: IP_PROTO_ICMP_def IP_PROTO_UDP_def IP_PROTO_TCP_def)
  have i4: "handle_ipv4 (\<lambda>i. p x (14 + i)) 34 n = (if x = 0 then n\<lparr>g_ping_replied := True\<rparr> else n)" for x
    unfolding handle_ipv4_def Let_def by (simp add: b c fs ty proto)
  have "net_handle_packet (p x) 34 n = (if x = 0 then n\<lparr>g_ping_replied := True\<rparr> else n)" for x
    unfolding net_handle_packet_def Let_def fs ty using bc [of x] i4 [of x] ty(2) by simp
  then have "(\<forall>i<34. p 0 i = p 8 i) \<and> g_ping_replied (net_handle_packet (p 0) 34 n) \<and> \<not> g_ping_replied (net_handle_packet (p 8) 34 n)"
    using assms by (simp add: p_def)
  then show ?thesis by blast
qed


lemma net_reads_past_end_witness:
  "\<exists>p q. (\<forall>i<34. p i = q i) \<and> g_ping_replied (net_handle_packet p 34 demo_net) \<and> \<not> g_ping_replied (net_handle_packet q 34 demo_net)"
  by (rule net_reads_past_end) (simp add: demo_net_def)

end
