(* ===== verification/Gpu.thy ===== *)
theory Gpu
  imports Paging Heap Ports "HOL-Library.Monad_Syntax"
begin

text \<open>
  The display driver \<^verbatim>\<open>drivers/gpu.c\<close>: pixels in a frame buffer or in the buffer of a window, and a text
  console on the VGA text memory or drawn with the font. All of the memory the driver touches, the text
  memory at 0xB8000, the frame buffer, its back buffer, the font and the buffers of windows, is the one byte memory
  \<open>vram\<close>; writes to the ports of the VGA controller are recorded in \<open>crtc\<close>, latest first. A loop
  \<open>for (i = a; i < b; i++)\<close> is a \<open>fold\<close> over \<open>[a..<b]\<close>; no counter of the driver can wrap around. Messages on
  the serial line are left out.
\<close>

section \<open>State\<close>

definition VGA_MEM :: u64 where "VGA_MEM = 0xB8000"
definition VGA_COLS :: nat where "VGA_COLS = 80"
definition VGA_ROWS :: nat where "VGA_ROWS = 25"
definition VBE_MODE_INFO :: u64 where "VBE_MODE_INFO = 0xF000"
definition VGA_FONT_8X16 :: u64 where "VGA_FONT_8X16 = 0xE000"
definition FONT_BASE_W :: nat where "FONT_BASE_W = 8"
definition FONT_BASE_H :: nat where "FONT_BASE_H = 16"
definition FONT_SCALE :: nat where "FONT_SCALE = 1"
definition FONT_W :: nat where "FONT_W = FONT_BASE_W * FONT_SCALE"
definition FONT_H :: nat where "FONT_H = FONT_BASE_H * FONT_SCALE"

lemmas font_defs = FONT_BASE_W_def FONT_BASE_H_def FONT_SCALE_def FONT_W_def FONT_H_def

text \<open>The fields of \<open>vbe_mode_info_t\<close> that the driver reads, at their offsets.\<close>

record vbe_mode_info =
  attributes :: u16
  pitch :: u16
  width :: u16
  height :: u16
  bpp :: u8
  framebuffer :: u32

definition vbe_info :: "mem \<Rightarrow> vbe_mode_info" where
  "vbe_info m = \<lparr>attributes = load_le 2 m VBE_MODE_INFO, pitch = load_le 2 m (VBE_MODE_INFO + 16),
     width = load_le 2 m (VBE_MODE_INFO + 18), height = load_le 2 m (VBE_MODE_INFO + 20),
     bpp = m (VBE_MODE_INFO + 25), framebuffer = load_le 4 m (VBE_MODE_INFO + 40)\<rparr>"

record gpu =
  vram :: mem
  crtc :: "(u16 \<times> u8) list"
  g_row :: u64
  g_col :: u64
  g_color :: u8
  g_fb_enabled :: bool
  g_fb :: u64
  g_fb_width :: u16
  g_fb_height :: u16
  g_fb_pitch :: u16
  g_fb_bpp :: u8
  g_fb_back :: u64
  g_target_back :: bool
  g_fb_cols :: u64
  g_fb_rows :: u64
  g_render_target :: u64
  g_render_pitch :: u16
  g_render_w :: u16
  g_render_h :: u16
  g_render_bpp :: u8
  g_vp_x :: u16
  g_vp_y :: u16
  g_vp_cols :: u16
  g_vp_rows :: u16

definition g_palette :: "u32 list" where
  "g_palette = [0x000000, 0x0000AA, 0x00AA00, 0x00AAAA, 0xAA0000, 0xAA00AA, 0xAA5500, 0xAAAAAA,
     0x555555, 0x5555FF, 0x55FF55, 0x55FFFF, 0xFF5555, 0xFF55FF, 0xFFFF55, 0xFFFFFF]"

section \<open>Pixels\<close>

definition fb_cell :: "u8 \<Rightarrow> u8 \<Rightarrow> u16" where "fb_cell c color = word16 c color"

definition rt_pitch :: "gpu \<Rightarrow> u16" where "rt_pitch g = (if g_render_target g \<noteq> NULL then g_render_pitch g else g_fb_pitch g)"
definition rt_width :: "gpu \<Rightarrow> u16" where "rt_width g = (if g_render_target g \<noteq> NULL then g_render_w g else g_fb_width g)"
definition rt_height :: "gpu \<Rightarrow> u16" where "rt_height g = (if g_render_target g \<noteq> NULL then g_render_h g else g_fb_height g)"
definition rt_bpp :: "gpu \<Rightarrow> u8" where "rt_bpp g = (if g_render_target g \<noteq> NULL then g_render_bpp g else g_fb_bpp g)"

definition fb_update_cursor :: "gpu \<Rightarrow> gpu" where
  "fb_update_cursor g =
     (if g_fb_enabled g then g
      else let pos = ucast (g_row g * of_nat VGA_COLS + g_col g) :: u16
           in g\<lparr>crtc := [(0x3D5, hi8 pos), (0x3D4, 0x0E), (0x3D5, lo8 pos), (0x3D4, 0x0F)] @ crtc g\<rparr>)"

definition rgb_for_color :: "u8 \<Rightarrow> u32" where "rgb_for_color color = g_palette ! unat (color AND 0x0F)"

definition fb_target :: "gpu \<Rightarrow> u64" where
  "fb_target g =
     (if g_render_target g \<noteq> NULL then g_render_target g
      else if g_target_back g \<and> g_fb_back g \<noteq> NULL then g_fb_back g else g_fb g)"

definition pixel_addr :: "gpu \<Rightarrow> u16 \<Rightarrow> u16 \<Rightarrow> u64" where
  "pixel_addr g x y =
     fb_target g + ucast (ucast y * ucast (rt_pitch g) :: u32) + ucast (ucast x * (ucast (rt_bpp g) div 8) :: u32)"

text \<open>A colour in the format of 16 bit pixels, and back.\<close>

definition pack565 :: "u32 \<Rightarrow> u16" where
  "pack565 rgb =
     (let r = ucast (drop_bit 19 rgb AND 0x1F); g = ucast (drop_bit 10 rgb AND 0x3F); b = ucast (drop_bit 3 rgb AND 0x1F)
      in push_bit 11 r OR push_bit 5 g OR b)"

definition unpack565 :: "u16 \<Rightarrow> u32" where
  "unpack565 v =
     (let r = push_bit 3 (ucast (drop_bit 11 v AND 0x1F)); g = push_bit 2 (ucast (drop_bit 5 v AND 0x3F));
          b = push_bit 3 (ucast (v AND 0x1F))
      in push_bit 16 r OR push_bit 8 g OR b)"

definition fb_put_pixel :: "gpu \<Rightarrow> u16 \<Rightarrow> u16 \<Rightarrow> u32 \<Rightarrow> gpu" where
  "fb_put_pixel g x y rgb =
     (if x \<ge> rt_width g \<or> y \<ge> rt_height g then g
      else let p = pixel_addr g x y;
               rgb3 = store_le 3 (vram g) p rgb
           in if rt_bpp g = 32 then g\<lparr>vram := rgb3(p + 3 := 0)\<rparr>
              else if rt_bpp g = 24 then g\<lparr>vram := rgb3\<rparr>
              else if rt_bpp g = 16 then g\<lparr>vram := store_le 2 (vram g) p (pack565 rgb)\<rparr>
              else g)"

definition fb_get_pixel :: "gpu \<Rightarrow> u16 \<Rightarrow> u16 \<Rightarrow> u32" where
  "fb_get_pixel g x y =
     (if x \<ge> rt_width g \<or> y \<ge> rt_height g then 0
      else let p = pixel_addr g x y
           in if rt_bpp g = 32 \<or> rt_bpp g = 24 then load_le 3 (vram g) p
              else if rt_bpp g = 16 then unpack565 (load_le 2 (vram g) p)
              else 0)"

definition fb_fill_rect :: "gpu \<Rightarrow> u16 \<Rightarrow> u16 \<Rightarrow> u16 \<Rightarrow> u16 \<Rightarrow> u32 \<Rightarrow> gpu" where
  "fb_fill_rect g x y w h rgb =
     fold (\<lambda>yy. fold (\<lambda>xx g. fb_put_pixel g (x + of_nat xx) (y + of_nat yy) rgb) [0..<unat w]) [0..<unat h] g"

text \<open>The two nested loops over the bits of a glyph; the scale is 1.\<close>

definition draw_glyph :: "gpu \<Rightarrow> u16 \<Rightarrow> u16 \<Rightarrow> u8 \<Rightarrow> u32 \<Rightarrow> u32 \<Rightarrow> gpu" where
  "draw_glyph g x y ch fg bg =
     fold (\<lambda>gy g.
         let bits = vram g (VGA_FONT_8X16 + ucast ch * of_nat FONT_BASE_H + of_nat gy)
         in fold (\<lambda>gx g. fb_put_pixel g (x + of_nat gx) (y + of_nat gy) (if bit bits (7 - gx) then fg else bg))
              [0..<FONT_BASE_W] g)
       [0..<FONT_BASE_H] g"

definition fb_draw_char :: "gpu \<Rightarrow> u64 \<Rightarrow> u64 \<Rightarrow> u8 \<Rightarrow> u8 \<Rightarrow> u8 \<Rightarrow> gpu" where
  "fb_draw_char g row col ch fg bg =
     draw_glyph g (ucast (ucast (g_vp_x g) + col * of_nat FONT_W)) (ucast (ucast (g_vp_y g) + row * of_nat FONT_H)) ch
       (rgb_for_color fg) (rgb_for_color bg)"

definition fb_draw_char_px :: "gpu \<Rightarrow> u16 \<Rightarrow> u16 \<Rightarrow> u8 \<Rightarrow> u32 \<Rightarrow> u32 \<Rightarrow> gpu" where
  "fb_draw_char_px g x y ch fg bg = draw_glyph g x y ch fg bg"

text \<open>Four bytes at a time, then the rest one by one.\<close>

definition fb_blit_row :: "mem \<Rightarrow> u64 \<Rightarrow> u64 \<Rightarrow> nat \<Rightarrow> mem" where
  "fb_blit_row m dst src n =
     (let words = n div 4;
          m = fold (\<lambda>i m. store_le 4 m (dst + 4 * of_nat i) (load_le 4 m (src + 4 * of_nat i) :: u32)) [0..<words] m
      in fold (\<lambda>i m. m(dst + of_nat i := m (src + of_nat i))) [words * 4..<n] m)"

definition fb_scroll :: "gpu \<Rightarrow> gpu" where
  "fb_scroll g =
     (let vp_w_px = g_vp_cols g * of_nat FONT_W; vp_h_px = g_vp_rows g * of_nat FONT_H;
          bpp_bytes = unat (rt_bpp g) div 8; row_bytes = unat vp_w_px * bpp_bytes; t = fb_target g;
          off = \<lambda>row. of_nat ((unat (g_vp_y g) + row) * unat (rt_pitch g) + unat (g_vp_x g) * bpp_bytes);
          g = g\<lparr>vram := fold (\<lambda>row m. fb_blit_row m (t + off row) (t + off (row + FONT_H)) row_bytes)
                [0..<unat vp_h_px - FONT_H] (vram g)\<rparr>;
          bg = rgb_for_color (drop_bit 4 (g_color g));
          g = fb_fill_rect g (g_vp_x g) (g_vp_y g + vp_h_px - of_nat FONT_H) vp_w_px (of_nat FONT_H) bg
      in g\<lparr>g_row := ucast (g_vp_rows g) - 1\<rparr>)"

section \<open>The screen and the console\<close>

definition gpu_set_color :: "gpu \<Rightarrow> u8 \<Rightarrow> u8 \<Rightarrow> gpu" where
  "gpu_set_color g fg bg = g\<lparr>g_color := fg OR push_bit 4 bg\<rparr>"

text \<open>A store into cell \<open>i\<close> of the text memory.\<close>

definition vga_set :: "mem \<Rightarrow> u64 \<Rightarrow> u16 \<Rightarrow> mem" where "vga_set m i cell = store_le 2 m (VGA_MEM + 2 * i) cell"
definition vga_get :: "mem \<Rightarrow> u64 \<Rightarrow> u16" where "vga_get m i = load_le 2 m (VGA_MEM + 2 * i)"

definition gpu_clear :: "gpu \<Rightarrow> u8 \<Rightarrow> u8 \<Rightarrow> gpu" where
  "gpu_clear g fg bg =
     (let g = g\<lparr>g_row := 0, g_col := 0, g_color := fg OR push_bit 4 bg\<rparr>
      in if g_fb_enabled g then fb_fill_rect g 0 0 (g_fb_width g) (g_fb_height g) (rgb_for_color bg)
         else fb_update_cursor (g\<lparr>vram := fold (\<lambda>i m. vga_set m (of_nat i) (fb_cell 32 (g_color g)))
                [0..<VGA_COLS * VGA_ROWS] (vram g)\<rparr>))"

definition gpu_init :: "gpu \<Rightarrow> gpu" where
  "gpu_init g = gpu_clear (g\<lparr>g_row := 0, g_col := 0, g_color := 0x0F\<rparr>) 0x0F 0x00"

definition fb_init_from_vbe :: "machine \<Rightarrow> gpu \<Rightarrow> machine \<times> gpu" where
  "fb_init_from_vbe M g =
     (let info = vbe_info (vram g) in
      if attributes info AND 0x80 = 0 \<or> framebuffer info = 0 then (M, g)
      else if unat (width info) < FONT_W \<or> unat (height info) < FONT_H then (M, g)
      else if bpp info \<noteq> 16 \<and> bpp info \<noteq> 24 \<and> bpp info \<noteq> 32 then (M, g)
      else
        let fb_phys = ucast (framebuffer info) :: u64;
            map_base = fb_phys AND NOT (PAGE_SIZE - 1);
            map_bytes = ucast (pitch info) * ucast (height info) + (fb_phys - map_base);
            pages = (map_bytes + PAGE_SIZE - 1) div PAGE_SIZE in
        case paging_map_range (M\<lparr>ram := vram g\<rparr>) map_base map_base (unat pages) PAGE_RW of (ret, M) \<Rightarrow>
          let g = g\<lparr>vram := ram M\<rparr> in
          if ret < 0 then (M, g)
          else let cols = ucast (width info) div of_nat FONT_W; rows = ucast (height info) div of_nat FONT_H in
            (M, g\<lparr>g_fb := fb_phys, g_fb_width := width info, g_fb_height := height info, g_fb_pitch := pitch info,
                  g_fb_bpp := bpp info, g_fb_cols := cols, g_fb_rows := rows, g_vp_x := 0, g_vp_y := 0,
                  g_vp_cols := ucast cols, g_vp_rows := ucast rows, g_fb_enabled := True\<rparr>))"

definition gpu_init_framebuffer :: "heap \<Rightarrow> gpu \<Rightarrow> (heap \<times> gpu) option" where
  "gpu_init_framebuffer hp g =
     (if g_fb_enabled g then Some (hp, g)
      else case fb_init_from_vbe (mach hp) g of (M, g) \<Rightarrow>
        let hp = hp\<lparr>mach := M\<rparr> in
        if \<not> g_fb_enabled g then Some (hp, g)
        else
          let g = gpu_clear g 0x0F 0x00; fb_size = unat (g_fb_pitch g) * unat (g_fb_height g) in
          do {
            (p, hp) \<leftarrow> kmalloc hp (ucast (of_nat fb_size :: u32));
            let g = g\<lparr>g_fb_back := p\<rparr>;
            Some (hp, if p = NULL then g
              else g\<lparr>vram := fold (\<lambda>i m. m(p + of_nat i := m (g_fb g + of_nat i))) [0..<fb_size] (vram g)\<rparr>)
          })"

definition gpu_put_at :: "gpu \<Rightarrow> u8 \<Rightarrow> u8 \<Rightarrow> u8 \<Rightarrow> u8 \<Rightarrow> u8 \<Rightarrow> gpu" where
  "gpu_put_at g row col c fg bg =
     (if g_fb_enabled g then
        if ucast row \<ge> g_fb_rows g \<or> ucast col \<ge> g_fb_cols g then g else fb_draw_char g (ucast row) (ucast col) c fg bg
      else if unat row \<ge> VGA_ROWS \<or> unat col \<ge> VGA_COLS then g
      else g\<lparr>vram := vga_set (vram g) (ucast row * of_nat VGA_COLS + ucast col) (fb_cell c (fg OR push_bit 4 bg))\<rparr>)"

text \<open>A text is the list of its bytes before the zero.\<close>

fun write_from :: "gpu \<Rightarrow> u8 \<Rightarrow> u8 \<Rightarrow> nat \<Rightarrow> u8 list \<Rightarrow> u8 \<Rightarrow> u8 \<Rightarrow> gpu" where
  "write_from g row col i [] fg bg = g"
| "write_from g row col i (c # s) fg bg =
     (if unat col + i < VGA_COLS then write_from (gpu_put_at g row (col + of_nat i) c fg bg) row col (Suc i) s fg bg else g)"

definition gpu_write_at :: "gpu \<Rightarrow> u8 \<Rightarrow> u8 \<Rightarrow> u8 list \<Rightarrow> u8 \<Rightarrow> u8 \<Rightarrow> gpu" where
  "gpu_write_at g row col s fg bg = write_from g row col 0 s fg bg"

definition console_scroll :: "gpu \<Rightarrow> gpu" where
  "console_scroll g =
     (if g_fb_enabled g then fb_scroll g
      else
        let m = fold (\<lambda>i m. vga_set m (of_nat i) (vga_get m (of_nat (i + VGA_COLS)))) [0..<(VGA_ROWS - 1) * VGA_COLS] (vram g);
            m = fold (\<lambda>i m. vga_set m (of_nat i) (fb_cell 32 (g_color g))) [(VGA_ROWS - 1) * VGA_COLS..<VGA_ROWS * VGA_COLS] m
        in g\<lparr>vram := m, g_row := of_nat (VGA_ROWS - 1)\<rparr>)"

definition con_cols :: "gpu \<Rightarrow> u64" where "con_cols g = (if g_fb_enabled g then ucast (g_vp_cols g) else of_nat VGA_COLS)"
definition con_rows :: "gpu \<Rightarrow> u64" where "con_rows g = (if g_fb_enabled g then ucast (g_vp_rows g) else of_nat VGA_ROWS)"

text \<open>One character cell, in the frame buffer or in text memory, in the current colours.\<close>

definition con_draw :: "gpu \<Rightarrow> u64 \<Rightarrow> u64 \<Rightarrow> u8 \<Rightarrow> gpu" where
  "con_draw g row col c =
     (if g_fb_enabled g then fb_draw_char g row col c (g_color g AND 0x0F) (drop_bit 4 (g_color g))
      else g\<lparr>vram := vga_set (vram g) (row * of_nat VGA_COLS + col) (fb_cell c (g_color g))\<rparr>)"

definition gpu_putc :: "gpu \<Rightarrow> u8 \<Rightarrow> gpu" where
  "gpu_putc g c =
     (if c = 12 then gpu_clear g 0x0F 0x00
      else
        let g' = (if c = 10 then g\<lparr>g_col := 0, g_row := g_row g + 1\<rparr>
                  else if c = 13 then g\<lparr>g_col := 0\<rparr>
                  else if c = 8 then if g_col g > 0 then g\<lparr>g_col := g_col g - 1\<rparr> else g
                  else let g = con_draw g (g_row g) (g_col g) c; g = g\<lparr>g_col := g_col g + 1\<rparr>
                       in if g_col g \<ge> con_cols g then g\<lparr>g_col := 0, g_row := g_row g + 1\<rparr> else g)
        in fb_update_cursor (if g_row g' \<ge> con_rows g' then console_scroll g' else g'))"

definition gpu_print :: "gpu \<Rightarrow> u8 list \<Rightarrow> gpu" where "gpu_print g s = foldl gpu_putc g s"

definition gpu_width :: "gpu \<Rightarrow> u16" where "gpu_width g = (if g_fb_enabled g then g_fb_width g else of_nat VGA_COLS)"
definition gpu_height :: "gpu \<Rightarrow> u16" where "gpu_height g = (if g_fb_enabled g then g_fb_height g else of_nat VGA_ROWS)"
definition gpu_bpp :: "gpu \<Rightarrow> u8" where "gpu_bpp g = (if g_fb_enabled g then g_fb_bpp g else 0)"

definition gpu_put_pixel :: "gpu \<Rightarrow> u16 \<Rightarrow> u16 \<Rightarrow> u32 \<Rightarrow> gpu" where
  "gpu_put_pixel g x y rgb = (if g_fb_enabled g then fb_put_pixel g x y rgb else g)"

definition gpu_get_pixel :: "gpu \<Rightarrow> u16 \<Rightarrow> u16 \<Rightarrow> u32" where
  "gpu_get_pixel g x y = (if g_fb_enabled g then fb_get_pixel g x y else 0)"

definition gpu_fill_rect :: "gpu \<Rightarrow> u16 \<Rightarrow> u16 \<Rightarrow> u16 \<Rightarrow> u16 \<Rightarrow> u32 \<Rightarrow> gpu" where
  "gpu_fill_rect g x y w h rgb = (if g_fb_enabled g then fb_fill_rect g x y w h rgb else g)"

definition gpu_draw_rect :: "gpu \<Rightarrow> u16 \<Rightarrow> u16 \<Rightarrow> u16 \<Rightarrow> u16 \<Rightarrow> u32 \<Rightarrow> gpu" where
  "gpu_draw_rect g x y w h rgb =
     (if \<not> g_fb_enabled g \<or> w = 0 \<or> h = 0 then g
      else
        let g = fold (\<lambda>xx g. fb_put_pixel (fb_put_pixel g (x + of_nat xx) y rgb) (x + of_nat xx) (y + h - 1) rgb) [0..<unat w] g
        in fold (\<lambda>yy g. fb_put_pixel (fb_put_pixel g x (y + of_nat yy) rgb) (x + w - 1) (y + of_nat yy) rgb) [0..<unat h] g)"

definition gpu_draw_char :: "gpu \<Rightarrow> u16 \<Rightarrow> u16 \<Rightarrow> u8 \<Rightarrow> u32 \<Rightarrow> u32 \<Rightarrow> gpu" where
  "gpu_draw_char g x y ch fg bg = (if g_fb_enabled g then fb_draw_char_px g x y ch fg bg else g)"

fun draw_text_from :: "gpu \<Rightarrow> u16 \<Rightarrow> u16 \<Rightarrow> u16 \<Rightarrow> u8 list \<Rightarrow> u32 \<Rightarrow> u32 \<Rightarrow> gpu" where
  "draw_text_from g x y i [] fg bg = g"
| "draw_text_from g x y i (c # s) fg bg =
     draw_text_from (fb_draw_char_px g (x + i * of_nat FONT_W) y c fg bg) x y (i + 1) s fg bg"

definition gpu_draw_text :: "gpu \<Rightarrow> u16 \<Rightarrow> u16 \<Rightarrow> u8 list \<Rightarrow> u32 \<Rightarrow> u32 \<Rightarrow> gpu" where
  "gpu_draw_text g x y s fg bg = (if g_fb_enabled g then draw_text_from g x y 0 s fg bg else g)"

section \<open>Buffers, windows and the cursor\<close>

definition gpu_flip :: "gpu \<Rightarrow> gpu" where
  "gpu_flip g =
     (if \<not> g_fb_enabled g \<or> g_fb_back g = NULL then g
      else g\<lparr>vram := fb_blit_row (vram g) (g_fb g) (g_fb_back g) (unat (g_fb_pitch g) * unat (g_fb_height g))\<rparr>)"

definition gpu_flip_rect :: "gpu \<Rightarrow> u16 \<Rightarrow> u16 \<Rightarrow> u16 \<Rightarrow> u16 \<Rightarrow> gpu" where
  "gpu_flip_rect g x y w h =
     (if \<not> g_fb_enabled g \<or> g_fb_back g = NULL then g
      else if x \<ge> g_fb_width g \<or> y \<ge> g_fb_height g then g
      else
        let w = (if unat x + unat w > unat (g_fb_width g) then g_fb_width g - x else w);
            h = (if unat y + unat h > unat (g_fb_height g) then g_fb_height g - y else h);
            bpp_bytes = unat (g_fb_bpp g) div 8; row_bytes = unat w * bpp_bytes;
            off = \<lambda>row. of_nat ((unat y + row) * unat (g_fb_pitch g) + unat x * bpp_bytes)
        in g\<lparr>vram := fold (\<lambda>row m. fb_blit_row m (g_fb g + off row) (g_fb_back g + off row) row_bytes) [0..<unat h] (vram g)\<rparr>)"

definition gpu_set_target_back :: "gpu \<Rightarrow> bool \<Rightarrow> gpu" where "gpu_set_target_back g enable = g\<lparr>g_target_back := enable\<rparr>"

text \<open>The rows \<open>yy < h\<close> of a region at \<open>y\<close>, up to the first one below the screen; the coordinates wrap around in 16 bits.\<close>

definition region_rows :: "gpu \<Rightarrow> u16 \<Rightarrow> u16 \<Rightarrow> nat list" where
  "region_rows g y h = takeWhile (\<lambda>yy. y + of_nat yy < g_fb_height g) [0..<unat h]"

text \<open>Arrays of 32 bit colours, indexed by row and column of the region.\<close>

definition gpu_save_region :: "gpu \<Rightarrow> (nat \<Rightarrow> u32) \<Rightarrow> u16 \<Rightarrow> u16 \<Rightarrow> u16 \<Rightarrow> u16 \<Rightarrow> (nat \<Rightarrow> u32)" where
  "gpu_save_region g dst x y w h =
     (if \<not> g_fb_enabled g then dst
      else fold (\<lambda>yy. fold (\<lambda>xx dst.
             let px = x + of_nat xx; py = y + of_nat yy
             in dst(yy * unat w + xx := if px < g_fb_width g then fb_get_pixel g px py else 0)) [0..<unat w])
           (region_rows g y h) dst)"

definition put_region :: "gpu \<Rightarrow> (nat \<Rightarrow> u32) \<Rightarrow> u16 \<Rightarrow> u16 \<Rightarrow> u16 \<Rightarrow> u16 \<Rightarrow> gpu" where
  "put_region g src x y w h =
     (if \<not> g_fb_enabled g then g
      else fold (\<lambda>yy. fold (\<lambda>xx g.
             let px = x + of_nat xx; py = y + of_nat yy
             in if px < g_fb_width g then fb_put_pixel g px py (src (yy * unat w + xx)) else g) [0..<unat w])
           (region_rows g y h) g)"

definition gpu_restore_region :: "gpu \<Rightarrow> (nat \<Rightarrow> u32) \<Rightarrow> u16 \<Rightarrow> u16 \<Rightarrow> u16 \<Rightarrow> u16 \<Rightarrow> gpu" where
  "gpu_restore_region g src x y w h = put_region g src x y w h"

definition gpu_begin_target :: "gpu \<Rightarrow> u64 \<Rightarrow> u16 \<Rightarrow> u16 \<Rightarrow> gpu" where
  "gpu_begin_target g tgt w h =
     g\<lparr>g_render_target := tgt, g_render_w := w, g_render_h := h, g_render_bpp := 32, g_render_pitch := w * 4\<rparr>"

definition gpu_end_target :: "gpu \<Rightarrow> gpu" where "gpu_end_target g = g\<lparr>g_render_target := NULL\<rparr>"

definition gpu_blit_buffer :: "gpu \<Rightarrow> (nat \<Rightarrow> u32) \<Rightarrow> u16 \<Rightarrow> u16 \<Rightarrow> u16 \<Rightarrow> u16 \<Rightarrow> gpu" where
  "gpu_blit_buffer g src bw bh dst_x dst_y = put_region g src dst_x dst_y bw bh"

definition gpu_set_console_viewport :: "gpu \<Rightarrow> u16 \<Rightarrow> u16 \<Rightarrow> u16 \<Rightarrow> u16 \<Rightarrow> gpu" where
  "gpu_set_console_viewport g x y cols rows = g\<lparr>g_vp_x := x, g_vp_y := y, g_vp_cols := cols, g_vp_rows := rows\<rparr>"

definition gpu_reset_console_viewport :: "gpu \<Rightarrow> gpu" where
  "gpu_reset_console_viewport g =
     g\<lparr>g_vp_x := 0, g_vp_y := 0, g_vp_cols := (if g_fb_enabled g then ucast (g_fb_cols g) else of_nat VGA_COLS),
       g_vp_rows := (if g_fb_enabled g then ucast (g_fb_rows g) else of_nat VGA_ROWS)\<rparr>"

definition gpu_console_cols :: "gpu \<Rightarrow> u16" where
  "gpu_console_cols g = (if g_fb_enabled g then g_vp_cols g else of_nat VGA_COLS)"

definition gpu_set_cursor :: "gpu \<Rightarrow> u16 \<Rightarrow> u16 \<Rightarrow> gpu" where
  "gpu_set_cursor g row col =
     (let row = (if ucast row \<ge> con_rows g then ucast (con_rows g - 1) else row);
          col = (if ucast col \<ge> con_cols g then ucast (con_cols g - 1) else col)
      in fb_update_cursor (g\<lparr>g_row := ucast row, g_col := ucast col\<rparr>))"

definition gpu_get_cursor :: "gpu \<Rightarrow> u16 \<times> u16" where "gpu_get_cursor g = (ucast (g_row g), ucast (g_col g))"

definition gpu_erase_display :: "gpu \<Rightarrow> int \<Rightarrow> gpu" where
  "gpu_erase_display g mode =
     (let r0 = (if mode = 0 then unat (g_row g) else 0);
          r1 = (if mode = 1 then unat (g_row g + 1) else unat (con_rows g))
      in fold (\<lambda>r g.
           let c0 = (if mode = 0 \<and> r = unat (g_row g) then unat (g_col g) else 0);
               c1 = (if mode = 1 \<and> r = unat (g_row g) then unat (g_col g + 1) else unat (con_cols g))
           in fold (\<lambda>c g. con_draw g (of_nat r) (of_nat c) 32) [c0..<c1] g)
         [r0..<r1] g)"

definition gpu_erase_line :: "gpu \<Rightarrow> int \<Rightarrow> gpu" where
  "gpu_erase_line g mode =
     (let c0 = (if mode = 0 then unat (g_col g) else 0);
          c1 = (if mode = 1 then unat (g_col g + 1) else unat (con_cols g))
      in fold (\<lambda>c g. con_draw g (g_row g) (of_nat c) 32) [c0..<c1] g)"

end
