(* ===== verification/GpuSpec.thy ===== *)
theory GpuSpec
  imports Gpu
begin

text \<open>
  What the display driver promises: a pixel written is the pixel read back and no other pixel changes,
  drawing stays within the buffer that is drawn to, and the text console is a screen of rows and
  columns with a cursor that scrolls at its end.
\<close>

section \<open>Pixels of a target\<close>

text \<open>
  The buffer drawn to: its first byte, its size, and that it holds pixels in one of the three formats, rows
  that fit into the pitch, and no address beyond the end of memory.
\<close>

definition pixel_bytes :: "gpu \<Rightarrow> nat" where "pixel_bytes g = unat (rt_bpp g) div 8"
definition target_size :: "gpu \<Rightarrow> nat" where "target_size g = unat (rt_pitch g) * unat (rt_height g)"

definition target_ok :: "gpu \<Rightarrow> bool" where
  "target_ok g \<longleftrightarrow> rt_bpp g \<in> {16, 24, 32} \<and> unat (rt_width g) * pixel_bytes g \<le> unat (rt_pitch g) \<and>
     unat (fb_target g) + target_size g \<le> 2 ^ 64"

definition pixel_off :: "gpu \<Rightarrow> u16 \<Rightarrow> u16 \<Rightarrow> nat" where
  "pixel_off g x y = unat y * unat (rt_pitch g) + unat x * pixel_bytes g"

lemma u16_less: "unat (x :: u16) < 65536"
  using unsigned_less [of x] by simp

lemma pixel_off_within:
  assumes "target_ok g" "x < rt_width g" "y < rt_height g"
  shows "pixel_off g x y + pixel_bytes g \<le> target_size g"
proof -
  have x: "Suc (unat x) \<le> unat (rt_width g)" and y: "Suc (unat y) \<le> unat (rt_height g)"
    using assms(2,3) by (auto simp: word_less_nat_alt)
  have "unat x * pixel_bytes g + pixel_bytes g = Suc (unat x) * pixel_bytes g" by simp
  also have "\<dots> \<le> unat (rt_width g) * pixel_bytes g" using x by (rule mult_le_mono1)
  also have "\<dots> \<le> unat (rt_pitch g)" using assms(1) by (simp add: target_ok_def)
  finally have "pixel_off g x y + pixel_bytes g \<le> Suc (unat y) * unat (rt_pitch g)" by (simp add: pixel_off_def)
  also have "\<dots> \<le> unat (rt_height g) * unat (rt_pitch g)" using y by (rule mult_le_mono1)
  finally show ?thesis by (simp add: target_size_def mult.commute)
qed

lemma unat_ucast_mult_u32:
  assumes "unat a * unat b < 2 ^ 32"
  shows "unat (ucast (ucast (a :: u16) * b :: u32) :: u64) = unat a * unat (b :: u32)"
  using assms u16_less [of a] by (simp add: unat_word_ariths unsigned_ucast_eq take_bit_eq_mod unat_mod)

lemma pixel_addr_eq: "pixel_addr g x y = fb_target g + of_nat (pixel_off g x y)"
proof -
  have p: "unat (rt_pitch g) < 65536" "unat y < 65536" "unat x < 65536" by (rule u16_less)+
  have "unat (rt_bpp g) < 256" using unsigned_less [of "rt_bpp g"] by simp
  then have b: "unat (ucast (rt_bpp g) div 8 :: u32) = pixel_bytes g" "pixel_bytes g < 65536"
    by (simp_all add: pixel_bytes_def unat_div unsigned_ucast_eq take_bit_eq_mod unat_mod)
  have "unat y * unat (rt_pitch g) < 65536 * 65536" "unat x * pixel_bytes g < 65536 * 65536"
    using p b(2) by (intro mult_strict_mono; simp)+
  then have u: "unat (ucast (ucast y * ucast (rt_pitch g) :: u32) :: u64) = unat y * unat (rt_pitch g)"
    "unat (ucast (ucast x * (ucast (rt_bpp g) div 8) :: u32) :: u64) = unat x * pixel_bytes g"
    using p by (subst unat_ucast_mult_u32; simp add: b(1) unsigned_ucast_eq take_bit_eq_mod unat_mod)+
  have "pixel_addr g x y = fb_target g + (of_nat (unat y * unat (rt_pitch g)) + of_nat (unat x * pixel_bytes g))"
    unfolding pixel_addr_def u [symmetric] by (simp add: add.assoc)
  then show ?thesis by (simp add: pixel_off_def)
qed

lemma pixel_off_apart:
  assumes "target_ok g" "x < rt_width g" "x' < rt_width g" "(x, y) \<noteq> (x', y')"
  shows "pixel_off g x y + pixel_bytes g \<le> pixel_off g x' y' \<or> pixel_off g x' y' + pixel_bytes g \<le> pixel_off g x y"
proof -
  have row: "unat x * pixel_bytes g + pixel_bytes g \<le> unat (rt_pitch g)" if "x < rt_width g" for x
  proof -
    have "Suc (unat x) * pixel_bytes g \<le> unat (rt_width g) * pixel_bytes g"
      using that by (intro mult_le_mono1) (simp add: word_less_nat_alt)
    then show ?thesis using assms(1) by (simp add: target_ok_def)
  qed
  have lt: "pixel_off g x y + pixel_bytes g \<le> pixel_off g x' y'"
    if "x < rt_width g" "unat y < unat y' \<or> y = y' \<and> unat x < unat x'" for x x' y y'
  proof (cases "y = y'")
    case True
    then have "Suc (unat x) * pixel_bytes g \<le> unat x' * pixel_bytes g" using that(2) by (intro mult_le_mono1) simp
    then show ?thesis using True by (simp add: pixel_off_def)
  next
    case False
    then have "Suc (unat y) * unat (rt_pitch g) \<le> unat y' * unat (rt_pitch g)" using that(2) by (intro mult_le_mono1) auto
    then show ?thesis using row [OF that(1)] by (simp add: pixel_off_def)
  qed
  have "unat y < unat y' \<or> unat y' < unat y \<or> y = y' \<and> (unat x < unat x' \<or> unat x' < unat x)"
    using assms(4) by (metis linorder_less_linear word_unat_eq_iff)
  then show ?thesis using lt [of x y y' x'] lt [of x' y' y x] assms(2,3) by auto
qed

lemma unat_diff_far:
  assumes "p + k \<le> q \<or> q < p" "p < 2 ^ 33" "q < 2 ^ 33" "k \<le> (8 :: nat)"
  shows "k \<le> unat (of_nat q - of_nat p :: u64)"
proof (cases "q < p")
  case True
  then have "unat (of_nat q - of_nat p :: u64) = 2 ^ 64 - (p - q)"
    using assms(2,3) by (simp add: unat_sub_if' unat_of_nat word_le_nat_alt)
  then show ?thesis using assms True by simp
next
  case False
  then show ?thesis using assms by (simp add: unat_sub_if' unat_of_nat word_le_nat_alt)
qed

lemma target_size_less: "target_size g < 2 ^ 32"
proof -
  have "unat (rt_pitch g) * unat (rt_height g) < 65536 * 65536" using u16_less by (intro mult_strict_mono) simp_all
  then show ?thesis by (simp add: target_size_def)
qed

lemma load_store_pixel_other:
  assumes "p + k \<le> q \<or> q + n \<le> p" "p + k \<le> 2 ^ 32" "q + n \<le> 2 ^ 32" "k \<le> 8"
  shows "load_le n (store_le k m (t + of_nat p) v) (t + of_nat q) = load_le n m (t + of_nat q)"
proof (rule load_store_le_disjoint)
  fix i assume "i < n"
  then have "k \<le> unat (of_nat (q + i) - of_nat p :: u64)" using assms by (intro unat_diff_far) auto
  then show "k \<le> unat (t + of_nat q + of_nat i - (t + of_nat p))" by (simp add: algebra_simps)
qed

lemma load_store_part:
  assumes "n \<le> 8" "n \<le> k" "8 * n \<le> LENGTH('a)"
  shows "load_le n (store_le k m a v) a = (take_bit (8 * n) v :: 'a::len word)"
proof (rule bit_word_eqI)
  fix j assume j: "j < LENGTH('a)"
  show "bit (load_le n (store_le k m a v) a :: 'a word) j = bit (take_bit (8 * n) v) j"
  proof (cases "j < 8 * n")
    case True
    have u: "unat (a + of_nat (j div 8) - a) = j div 8" using True assms(1) by (simp add: unat_of_nat)
    moreover have "j div 8 < k" using True assms(2) by auto
    ultimately have "bit (store_le k m a v (a + of_nat (j div 8))) (j mod 8) = bit v (8 * (j div 8) + j mod 8)"
      by (subst store_le_inside) (simp_all add: bit_ucast_iff bit_drop_bit_eq)
    then show ?thesis using True j by (simp add: bit_load_le bit_take_bit_iff)
  qed (simp add: bit_load_le bit_take_bit_iff)
qed

text \<open>What a colour becomes in the format of the target.\<close>

definition shown_rgb :: "gpu \<Rightarrow> u32 \<Rightarrow> u32" where
  "shown_rgb g rgb = rgb AND (if rt_bpp g = 16 then 0xF8FCF8 else 0xFFFFFF)"

lemma low_bits:
  "x AND 0x1F = take_bit 5 (x :: 'a::len word)" "x AND 0x3F = take_bit 6 (x :: 'a::len word)"
  by (simp_all add: take_bit_eq_mask mask_numeral)

lemma mask565: "(0xF8FCF8 :: u32) = push_bit 19 (mask 5) OR push_bit 10 (mask 6) OR push_bit 3 (mask 5)"
  by (simp add: mask_numeral)

lemma bit_pack565:
  "bit (pack565 rgb) n \<longleftrightarrow> (n < 5 \<and> bit rgb (n + 3)) \<or> (5 \<le> n \<and> n < 11 \<and> bit rgb (n + 5)) \<or> (11 \<le> n \<and> n < 16 \<and> bit rgb (n + 8))"
proof -
  have "bit (push_bit 11 (ucast (take_bit 5 (drop_bit 19 rgb))) :: u16) n \<longleftrightarrow> 11 \<le> n \<and> n < 16 \<and> bit rgb (n + 8)"
    by (auto simp: bit_push_bit_iff bit_ucast_iff bit_take_bit_iff bit_drop_bit_eq le_iff_add add.commute)
  moreover have "bit (push_bit 5 (ucast (take_bit 6 (drop_bit 10 rgb))) :: u16) n \<longleftrightarrow> 5 \<le> n \<and> n < 11 \<and> bit rgb (n + 5)"
    by (auto simp: bit_push_bit_iff bit_ucast_iff bit_take_bit_iff bit_drop_bit_eq le_iff_add add.commute)
  moreover have "bit (ucast (take_bit 5 (drop_bit 3 rgb)) :: u16) n \<longleftrightarrow> n < 5 \<and> bit rgb (n + 3)"
    by (auto simp: bit_ucast_iff bit_take_bit_iff bit_drop_bit_eq add.commute)
  ultimately show ?thesis unfolding pack565_def low_bits Let_def bit_or_iff by blast
qed

lemma bit_unpack565:
  "bit (unpack565 v) n \<longleftrightarrow> (3 \<le> n \<and> n < 8 \<and> bit v (n - 3)) \<or> (10 \<le> n \<and> n < 16 \<and> bit v (n - 5)) \<or> (19 \<le> n \<and> n < 24 \<and> bit v (n - 8))"
proof -
  have "bit (push_bit 16 (push_bit 3 (ucast (take_bit 5 (drop_bit 11 v)))) :: u32) n \<longleftrightarrow> 19 \<le> n \<and> n < 24 \<and> bit v (n - 8)"
    by (auto simp: bit_push_bit_iff bit_ucast_iff bit_take_bit_iff bit_drop_bit_eq le_iff_add)
  moreover have "bit (push_bit 8 (push_bit 2 (ucast (take_bit 6 (drop_bit 5 v)))) :: u32) n \<longleftrightarrow> 10 \<le> n \<and> n < 16 \<and> bit v (n - 5)"
    by (auto simp: bit_push_bit_iff bit_ucast_iff bit_take_bit_iff bit_drop_bit_eq le_iff_add)
  moreover have "bit (push_bit 3 (ucast (take_bit 5 v)) :: u32) n \<longleftrightarrow> 3 \<le> n \<and> n < 8 \<and> bit v (n - 3)"
    by (auto simp: bit_push_bit_iff bit_ucast_iff bit_take_bit_iff le_iff_add)
  ultimately show ?thesis unfolding unpack565_def low_bits Let_def bit_or_iff by blast
qed

lemma bit_mask565: "bit (0xF8FCF8 :: u32) n \<longleftrightarrow> (3 \<le> n \<and> n < 8) \<or> (10 \<le> n \<and> n < 16) \<or> (19 \<le> n \<and> n < 24)"
  unfolding mask565 by (auto simp: bit_or_iff bit_push_bit_iff bit_mask_iff)

lemma unpack_pack565: "unpack565 (pack565 rgb) = rgb AND 0xF8FCF8"
proof (rule bit_word_eqI)
  fix n
  have "bit (pack565 rgb) (n - 3) = bit rgb n" if "3 \<le> n \<and> n < 8" using that by (auto simp: le_iff_add bit_pack565)
  moreover have "bit (pack565 rgb) (n - 5) = bit rgb n" if "10 \<le> n \<and> n < 16" using that by (auto simp: le_iff_add bit_pack565)
  moreover have "bit (pack565 rgb) (n - 8) = bit rgb n" if "19 \<le> n \<and> n < 24" using that by (auto simp: le_iff_add bit_pack565)
  ultimately show "bit (unpack565 (pack565 rgb)) n = bit (rgb AND 0xF8FCF8) n"
    unfolding bit_unpack565 bit_and_iff bit_mask565 by blast
qed

lemma low24: "take_bit 24 x = x AND (0xFFFFFF :: u32)"
  by (simp add: take_bit_eq_mask mask_numeral)

text \<open>Drawing changes no part of the geometry, and no byte outside the target.\<close>

definition same_screen :: "gpu \<Rightarrow> gpu \<Rightarrow> bool" where
  "same_screen g g' \<longleftrightarrow> g' = g\<lparr>vram := vram g'\<rparr> \<and>
     (\<forall>a. target_size g \<le> unat (a - fb_target g) \<longrightarrow> vram g' a = vram g a)"

lemma same_screen_geometry:
  assumes "g' = g\<lparr>vram := m\<rparr>"
  shows "rt_pitch g' = rt_pitch g" "rt_width g' = rt_width g" "rt_height g' = rt_height g" "rt_bpp g' = rt_bpp g"
    "fb_target g' = fb_target g" "target_size g' = target_size g" "pixel_bytes g' = pixel_bytes g"
    "pixel_off g' x y = pixel_off g x y" "target_ok g' = target_ok g" "shown_rgb g' = shown_rgb g"
  by (simp_all add: assms rt_pitch_def rt_width_def rt_height_def rt_bpp_def fb_target_def target_size_def
      pixel_bytes_def pixel_off_def target_ok_def shown_rgb_def fun_eq_iff)

lemma same_screen_refl [simp]: "same_screen g g"
  by (simp add: same_screen_def)

lemma same_screen_trans:
  assumes "same_screen g g'" "same_screen g' g''"
  shows "same_screen g g''"
proof -
  have e: "g' = g\<lparr>vram := vram g'\<rparr>" using assms(1) by (simp add: same_screen_def)
  show ?thesis using assms same_screen_geometry(5,6) [OF e]
    unfolding same_screen_def by (metis gpu.surjective gpu.update_convs(1))
qed

text \<open>The bytes a pixel takes, by their offset from the start of the target.\<close>

lemma pixel_store_within:
  assumes "off + k \<le> target_size g" "target_size g \<le> unat (a - fb_target g)"
  shows "store_le k m (fb_target g + of_nat off) v a = m a"
proof (rule store_le_outside)
  have "unat (a - fb_target g - of_nat off) = unat (a - fb_target g) - off"
    using assms target_size_less [of g] by (subst unat_sub) (simp_all add: word_le_nat_alt unat_of_nat)
  then show "\<not> unat (a - (fb_target g + of_nat off)) < k" using assms by (simp add: diff_diff_eq [symmetric])
qed

lemma unat_eq_3: "unat (x :: u64) = 3 \<longleftrightarrow> x = 3"
  by (simp add: word_unat_eq_iff)

lemma store_rgb32: "(store_le 3 m p (rgb :: u32))(p + 3 := 0) = store_le 4 m p (take_bit 24 rgb)"
proof
  fix x
  have "unat (x - p) = 3 \<longleftrightarrow> x = p + 3" unfolding unat_eq_3 by (auto simp: algebra_simps)
  moreover have "(ucast (drop_bit 24 (take_bit 24 rgb)) :: u8) = 0"
    by (rule bit_word_eqI) (simp add: bit_ucast_iff bit_drop_bit_eq bit_take_bit_iff)
  moreover have "(ucast (drop_bit (8 * i) (take_bit 24 rgb)) :: u8) = ucast (drop_bit (8 * i) rgb)" if "i < 3" for i
    using that by (intro bit_word_eqI) (auto simp: bit_ucast_iff bit_drop_bit_eq bit_take_bit_iff)
  moreover have "unat (x - p) < 4 \<longleftrightarrow> unat (x - p) < 3 \<or> unat (x - p) = 3" by auto
  ultimately show "((store_le 3 m p rgb)(p + 3 := 0)) x = store_le 4 m p (take_bit 24 rgb) x"
    by (auto simp: store_le_def)
qed

text \<open>The three formats as one store.\<close>

definition pixel_value :: "gpu \<Rightarrow> u32 \<Rightarrow> u32" where
  "pixel_value g rgb = (if rt_bpp g = 16 then ucast (pack565 rgb) else take_bit 24 rgb)"

lemma store_le_ucast: "n \<le> 2 \<Longrightarrow> store_le n m p (ucast (v :: u16) :: u32) = store_le n m p v"
  by (rule ext, simp add: store_le_def, intro impI bit_word_eqI) (auto simp: bit_ucast_iff bit_drop_bit_eq)

lemma store_le_take: "store_le 3 m p (take_bit 24 v :: u32) = store_le 3 m p v"
proof -
  have "(ucast (drop_bit (8 * i) (take_bit 24 v)) :: u8) = ucast (drop_bit (8 * i) v)" if "i < 3" for i
    using that by (intro bit_word_eqI) (auto simp: bit_ucast_iff bit_drop_bit_eq bit_take_bit_iff)
  then show ?thesis by (auto simp: store_le_def fun_eq_iff)
qed

lemma pixel_bytes_cases:
  "target_ok g \<Longrightarrow> pixel_bytes g = (if rt_bpp g = 16 then 2 else if rt_bpp g = 24 then 3 else 4)"
  by (auto simp: target_ok_def pixel_bytes_def)

lemma fb_put_pixel_eq:
  assumes "target_ok g"
  shows "fb_put_pixel g x y rgb =
     (if x < rt_width g \<and> y < rt_height g
      then g\<lparr>vram := store_le (pixel_bytes g) (vram g) (fb_target g + of_nat (pixel_off g x y)) (pixel_value g rgb)\<rparr> else g)"
proof -
  have "rt_bpp g = 16 \<or> rt_bpp g = 24 \<or> rt_bpp g = 32" using assms by (simp add: target_ok_def)
  moreover have "x \<ge> rt_width g \<or> y \<ge> rt_height g \<longleftrightarrow> \<not> (x < rt_width g \<and> y < rt_height g)" by auto
  ultimately show ?thesis unfolding fb_put_pixel_def
    by (elim disjE) (simp_all add: pixel_addr_eq Let_def pixel_bytes_cases [OF assms] pixel_value_def
        store_rgb32 store_le_ucast store_le_take)
qed

lemma fb_put_pixel_screen:
  assumes "target_ok g"
  shows "same_screen g (fb_put_pixel g x y rgb)"
  using pixel_store_within [OF pixel_off_within [OF assms], of x y]
  by (auto simp: fb_put_pixel_eq [OF assms] same_screen_def)

lemma fb_get_pixel_eq:
  assumes "target_ok g"
  shows "fb_get_pixel g x y =
     (if x < rt_width g \<and> y < rt_height g
      then let p = fb_target g + of_nat (pixel_off g x y)
           in if rt_bpp g = 16 then unpack565 (load_le 2 (vram g) p) else load_le 3 (vram g) p else 0)"
proof -
  have "rt_bpp g = 16 \<or> rt_bpp g = 24 \<or> rt_bpp g = 32" using assms by (simp add: target_ok_def)
  moreover have "x \<ge> rt_width g \<or> y \<ge> rt_height g \<longleftrightarrow> \<not> (x < rt_width g \<and> y < rt_height g)" by auto
  ultimately show ?thesis unfolding fb_get_pixel_def by (elim disjE) (simp_all add: pixel_addr_eq Let_def)
qed

lemma fb_get_put_pixel:
  assumes "target_ok g"
  shows "fb_get_pixel (fb_put_pixel g x y rgb) x' y' =
     (if x' = x \<and> y' = y \<and> x < rt_width g \<and> y < rt_height g then shown_rgb g rgb else fb_get_pixel g x' y')"
proof (cases "x < rt_width g \<and> y < rt_height g \<and> x' < rt_width g \<and> y' < rt_height g")
  case False
  have "same_screen g (fb_put_pixel g x y rgb)" by (rule fb_put_pixel_screen [OF assms])
  then have e: "fb_put_pixel g x y rgb = g\<lparr>vram := vram (fb_put_pixel g x y rgb)\<rparr>" by (simp add: same_screen_def)
  show ?thesis
  proof (cases "x < rt_width g \<and> y < rt_height g")
    case True
    then show ?thesis using False same_screen_geometry(2,3) [OF e] by (auto simp: fb_get_pixel_def)
  qed (auto simp: fb_put_pixel_eq [OF assms])
next
  case True
  let ?t = "fb_target g" and ?o = "pixel_off g x y" and ?o' = "pixel_off g x' y'" and ?n = "pixel_bytes g"
  let ?m = "store_le ?n (vram g) (?t + of_nat ?o) (pixel_value g rgb)"
  have g': "fb_put_pixel g x y rgb = g\<lparr>vram := ?m\<rparr>" using True by (simp add: fb_put_pixel_eq [OF assms])
  note geo = same_screen_geometry [OF refl, where g = g and m = ?m]
  have n: "?n = 2 \<or> ?n = 3 \<or> ?n = 4" using pixel_bytes_cases [OF assms] by simp
  have within: "?o + ?n \<le> target_size g" "?o' + ?n \<le> target_size g" using True pixel_off_within [OF assms] by auto
  show ?thesis
  proof (cases "x' = x \<and> y' = y")
    case same: True
    have "load_le 3 ?m (?t + of_nat ?o) = take_bit 24 rgb" if "rt_bpp g \<noteq> 16"
      using that n pixel_bytes_cases [OF assms] load_store_part [of 3 ?n "vram g" "?t + of_nat ?o" "pixel_value g rgb"]
      by (simp add: pixel_value_def split: if_splits)
    moreover have "load_le 2 ?m (?t + of_nat ?o) = pack565 rgb" if "rt_bpp g = 16"
      using that pixel_bytes_cases [OF assms] load_store_le [of 2 "vram g" "?t + of_nat ?o" "pack565 rgb"]
      by (simp add: pixel_value_def store_le_ucast)
    ultimately show ?thesis using True same assms geo
      by (simp add: g' fb_get_pixel_eq Let_def unpack_pack565 shown_rgb_def low24)
  next
    case other: False
    then have "?o + ?n \<le> ?o' \<or> ?o' + ?n \<le> ?o" using pixel_off_apart [OF assms, of x x' y y'] True by auto
    then have "?o + ?n \<le> ?o' \<or> ?o' + k \<le> ?o" "?o + ?n \<le> 2 ^ 32" "?o' + k \<le> 2 ^ 32" "?n \<le> 8" if "k \<le> ?n" for k
      using that n within target_size_less [of g] by auto
    then have ld: "load_le k ?m (?t + of_nat ?o') = (load_le k (vram g) (?t + of_nat ?o') :: u16)"
      "load_le k ?m (?t + of_nat ?o') = (load_le k (vram g) (?t + of_nat ?o') :: u32)" if "k \<le> ?n" for k
      using that by (blast intro: load_store_pixel_other)+
    have "load_le 2 ?m (?t + of_nat ?o') = (load_le 2 (vram g) (?t + of_nat ?o') :: u16)"
      "rt_bpp g \<noteq> 16 \<Longrightarrow> load_le 3 ?m (?t + of_nat ?o') = (load_le 3 (vram g) (?t + of_nat ?o') :: u32)"
      using ld(1) [of 2] ld(2) [of 3] pixel_bytes_cases [OF assms] by (auto simp: n split: if_splits)
    then show ?thesis using True other assms geo n pixel_bytes_cases [OF assms]
      by (auto simp: g' fb_get_pixel_eq Let_def)
  qed
qed

section \<open>Sequences of pixels\<close>

lemma fold_nested: "fold (\<lambda>y. fold (f y) xs) ys s = fold (\<lambda>(y, x). f y x) (List.product ys xs) s"
  by (induction ys arbitrary: s) (simp_all add: fold_map comp_def)

definition put_pixels :: "('i \<Rightarrow> u16 \<times> u16) \<Rightarrow> ('i \<Rightarrow> u32) \<Rightarrow> 'i list \<Rightarrow> gpu \<Rightarrow> gpu" where
  "put_pixels pt col is g = fold (\<lambda>i g. fb_put_pixel g (fst (pt i)) (snd (pt i)) (col i)) is g"

lemma same_screenD:
  assumes "same_screen g g'"
  shows "g' = g\<lparr>vram := vram g'\<rparr>" "rt_pitch g' = rt_pitch g" "rt_width g' = rt_width g" "rt_height g' = rt_height g"
    "rt_bpp g' = rt_bpp g" "fb_target g' = fb_target g" "target_size g' = target_size g" "pixel_bytes g' = pixel_bytes g"
    "target_ok g' = target_ok g" "shown_rgb g' = shown_rgb g"
proof -
  show e: "g' = g\<lparr>vram := vram g'\<rparr>" using assms by (simp add: same_screen_def)
  show "rt_pitch g' = rt_pitch g" "rt_width g' = rt_width g" "rt_height g' = rt_height g"
    "rt_bpp g' = rt_bpp g" "fb_target g' = fb_target g" "target_size g' = target_size g" "pixel_bytes g' = pixel_bytes g"
    "target_ok g' = target_ok g" "shown_rgb g' = shown_rgb g" by (rule same_screen_geometry [OF e])+
qed

lemma same_screen_fields:
  assumes "same_screen g g'"
  shows "g_fb_enabled g' = g_fb_enabled g" "g_render_target g' = g_render_target g" "g_fb_height g' = g_fb_height g"
    "g_fb_width g' = g_fb_width g" "g_row g' = g_row g" "g_col g' = g_col g" "g_color g' = g_color g"
    "g_vp_x g' = g_vp_x g" "g_vp_y g' = g_vp_y g" "g_vp_cols g' = g_vp_cols g" "g_vp_rows g' = g_vp_rows g"
  by (metis gpu.select_convs gpu.surjective gpu.update_convs(1) same_screenD(1) [OF assms])+

lemma same_screen_ok: "same_screen g g' \<Longrightarrow> target_ok g \<Longrightarrow> target_ok g'"
  by (simp add: same_screenD(9))

lemma fold_rel:
  assumes "R g g" "\<And>a b c. R a b \<Longrightarrow> R b c \<Longrightarrow> R a c" "\<And>i g'. i \<in> set is \<Longrightarrow> R g g' \<Longrightarrow> R g' (f i g')"
  shows "R g (fold f is g)"
proof -
  have "set is' \<subseteq> set is \<Longrightarrow> R g g' \<Longrightarrow> R g (fold f is' g')" for is' g'
  proof (induction is' arbitrary: g')
    case (Cons i is')
    then have "R g (f i g')" using assms(2) [of g g' "f i g'"] assms(3) by simp
    then show ?case using Cons by simp
  qed simp
  then show ?thesis using assms(1) by simp
qed

lemma fold_screen:
  "(\<And>i g'. same_screen g g' \<Longrightarrow> same_screen g' (f i g')) \<Longrightarrow> same_screen g (fold f is g)"
  by (rule fold_rel [of same_screen]) (auto intro: same_screen_trans)

lemma put_pixels_screen: "target_ok g \<Longrightarrow> same_screen g (put_pixels pt col is g)"
  unfolding put_pixels_def by (blast intro: fold_screen fb_put_pixel_screen same_screen_ok)

lemma put_pixels_get:
  assumes "target_ok g" "x < rt_width g" "y < rt_height g"
    and "\<And>i. i \<in> set is \<Longrightarrow> pt i = (x, y) \<Longrightarrow> col i = rgb"
  shows "fb_get_pixel (put_pixels pt col is g) x y = (if (x, y) \<in> pt ` set is then shown_rgb g rgb else fb_get_pixel g x y)"
  using assms
proof (induction "is" arbitrary: g)
  case (Cons i "is")
  let ?g = "fb_put_pixel g (fst (pt i)) (snd (pt i)) (col i)"
  have s: "same_screen g ?g" by (rule fb_put_pixel_screen [OF Cons.prems(1)])
  note geo = same_screenD(3,4,10) [OF s]
  have "fb_get_pixel (put_pixels pt col is ?g) x y = (if (x, y) \<in> pt ` set is then shown_rgb g rgb else fb_get_pixel ?g x y)"
    using Cons.IH [OF same_screen_ok [OF s Cons.prems(1)]] Cons.prems geo by simp
  then show ?case using fb_get_put_pixel [OF Cons.prems(1), of "fst (pt i)" "snd (pt i)" "col i" x y] Cons.prems(2-4)
    by (auto simp: put_pixels_def prod_eq_iff image_iff)
qed (simp add: put_pixels_def)

text \<open>The points of a rectangle, in 16 bit coordinates that may wrap around.\<close>

lemma rect_point:
  "(\<exists>i<unat w. x' = x + of_nat i) \<longleftrightarrow> x' - x < (w :: u16)"
proof
  assume "x' - x < w"
  then show "\<exists>i<unat w. x' = x + of_nat i" by (intro exI [of _ "unat (x' - x)"]) (simp add: word_less_nat_alt)
next
  assume "\<exists>i<unat w. x' = x + of_nat i"
  then obtain i where i: "i < unat w" "x' = x + of_nat i" by blast
  then have "unat (x' - x) = i" using u16_less [of w] by (simp add: unat_of_nat)
  with i show "x' - x < w" by (simp add: word_less_nat_alt)
qed

abbreviation rect_pt :: "u16 \<Rightarrow> u16 \<Rightarrow> nat \<times> nat \<Rightarrow> u16 \<times> u16" where
  "rect_pt x y \<equiv> \<lambda>(yy, xx). (x + of_nat xx, y + of_nat yy)"

lemma fb_fill_rect_eq:
  "fb_fill_rect g x y w h rgb = put_pixels (rect_pt x y) (\<lambda>_. rgb) (List.product [0..<unat h] [0..<unat w]) g"
  by (simp add: fb_fill_rect_def fold_nested put_pixels_def case_prod_beta')

lemma fb_fill_rect_get:
  assumes "target_ok g"
  shows "fb_get_pixel (fb_fill_rect g x y w h rgb) x' y' =
     (if x' < rt_width g \<and> y' < rt_height g \<and> x' - x < w \<and> y' - y < h then shown_rgb g rgb else fb_get_pixel g x' y')"
proof (cases "x' < rt_width g \<and> y' < rt_height g")
  case True
  have "(x', y') \<in> rect_pt x y ` set (List.product [0..<unat h] [0..<unat w]) \<longleftrightarrow> x' - x < w \<and> y' - y < h"
    using rect_point [of w x' x] rect_point [of h y' y] by (auto simp: image_iff)
  then show ?thesis using put_pixels_get [OF assms, of x' y' _ "rect_pt x y" "\<lambda>_. rgb" rgb] True
    by (simp add: fb_fill_rect_eq)
next
  case False
  have "same_screen g (fb_fill_rect g x y w h rgb)" unfolding fb_fill_rect_eq by (rule put_pixels_screen [OF assms])
  from same_screenD(3,4) [OF this] show ?thesis using False by (auto simp: fb_get_pixel_def)
qed

section \<open>Regions\<close>

lemma fold_fun_upd:
  assumes "inj_on k (set is)" "i \<in> set is"
  shows "fold (\<lambda>i d. d(k i := v i)) is d (k i) = v i"
  using assms
proof (induction "is" arbitrary: d)
  case (Cons j "is")
  have skip: "fold (\<lambda>i d. d(k i := v i)) is d (k j) = d (k j)" if "k j \<notin> k ` set is" for d
    using that by (induction "is" arbitrary: d) auto
  show ?case
  proof (cases "i \<in> set is")
    case True
    then show ?thesis using Cons by simp
  next
    case False
    then have "i = j" "k j \<notin> k ` set is" using Cons.prems by (auto simp: inj_on_def)
    then show ?thesis using skip by (simp add: fun_upd_same del: fun_upd_apply)
  qed
qed simp

lemma index_inj:
  assumes "xx < w" "xx' < w" "yy * w + xx = yy' * w + (xx' :: nat)"
  shows "yy = yy' \<and> xx = xx'"
proof -
  have "(yy * w + xx) div w = yy" "(yy' * w + xx') div w = yy'" using assms(1,2) by simp_all
  then show ?thesis using assms(3) by auto
qed

lemma gpu_save_region_get:
  assumes "g_fb_enabled g" "yy \<in> set (region_rows g y h)" "xx < unat w"
  shows "gpu_save_region g dst x y w h (yy * unat w + xx) =
     (if x + of_nat xx < g_fb_width g then fb_get_pixel g (x + of_nat xx) (y + of_nat yy) else 0)"
proof -
  let ?is = "List.product (region_rows g y h) [0..<unat w]" and ?k = "\<lambda>(yy, xx). yy * unat w + xx"
  let ?v = "\<lambda>(yy, xx). if x + of_nat xx < g_fb_width g then fb_get_pixel g (x + of_nat xx) (y + of_nat yy) else 0"
  have "gpu_save_region g dst x y w h = fold (\<lambda>i d. d(?k i := ?v i)) ?is dst"
    using assms(1) by (simp add: gpu_save_region_def fold_nested Let_def case_prod_beta')
  moreover have "inj_on ?k (set ?is)" by (auto simp: inj_on_def dest: index_inj)
  ultimately show ?thesis using fold_fun_upd [of ?k ?is "(yy, xx)" ?v dst] assms(2,3) by simp
qed

lemma put_pixel_out: "rt_width g \<le> x \<Longrightarrow> fb_put_pixel g x y rgb = g"
  by (simp add: fb_put_pixel_def)

lemma fb_put_pixel_flags [simp]:
  "g_render_target (fb_put_pixel g x y rgb) = g_render_target g" "g_fb_enabled (fb_put_pixel g x y rgb) = g_fb_enabled g"
  "g_fb_width (fb_put_pixel g x y rgb) = g_fb_width g" "g_fb_height (fb_put_pixel g x y rgb) = g_fb_height g"
  by (simp_all add: fb_put_pixel_def Let_def)

lemma put_region_eq:
  assumes "g_fb_enabled g" "g_render_target g = NULL"
  shows "put_region g src x y w h =
     put_pixels (rect_pt x y) (\<lambda>(yy, xx). src (yy * unat w + xx)) (List.product (region_rows g y h) [0..<unat w]) g"
proof -
  have "fold (\<lambda>(yy, xx) g. let px = x + of_nat xx; py = y + of_nat yy
          in if px < g_fb_width g then fb_put_pixel g px py (src (yy * unat w + xx)) else g) is g =
        put_pixels (rect_pt x y) (\<lambda>(yy, xx). src (yy * unat w + xx)) is g" for "is"
    using assms(2)
  proof (induction "is" arbitrary: g)
    case (Cons i "is")
    then have "rt_width g = g_fb_width g" by (simp add: rt_width_def)
    then have "(let px = x + of_nat (snd i); py = y + of_nat (fst i)
          in if px < g_fb_width g then fb_put_pixel g px py (src (fst i * unat w + snd i)) else g) =
        fb_put_pixel g (x + of_nat (snd i)) (y + of_nat (fst i)) (src (fst i * unat w + snd i))"
      by (simp add: Let_def put_pixel_out)
    then show ?case using Cons by (simp add: put_pixels_def case_prod_beta')
  qed (simp add: put_pixels_def)
  then show ?thesis using assms(1) by (simp add: put_region_def fold_nested)
qed

lemma region_rows_mem:
  assumes "unat y + unat h \<le> 65536"
  shows "yy \<in> set (region_rows g y h) \<longleftrightarrow> yy < unat h \<and> y + of_nat yy < g_fb_height g"
proof
  assume "yy \<in> set (region_rows g y h)"
  then show "yy < unat h \<and> y + of_nat yy < g_fb_height g" by (auto simp: region_rows_def dest: set_takeWhileD)
next
  assume yy: "yy < unat h \<and> y + of_nat yy < g_fb_height g"
  have u: "unat (y + of_nat i) = unat y + i" if "i < unat h" for i
    using that assms u16_less [of h] by (simp add: unat_word_ariths unat_of_nat)
  have "takeWhile (\<lambda>yy. y + of_nat yy < g_fb_height g) [0..<Suc yy] = [0..<Suc yy]"
    using yy u by (auto simp: takeWhile_eq_all_conv word_less_nat_alt simp del: upt_Suc)
  moreover have "[0..<unat h] = [0..<Suc yy] @ [Suc yy..<unat h]" using yy upt_add_eq_append [of 0 "Suc yy" "unat h - Suc yy"] by simp
  ultimately have "region_rows g y h = [0..<Suc yy] @ takeWhile (\<lambda>yy. y + of_nat yy < g_fb_height g) [Suc yy..<unat h]"
    by (simp add: region_rows_def takeWhile_append del: upt_Suc)
  then show "yy \<in> set (region_rows g y h)" by simp
qed

lemma shown_shown: "target_ok g \<Longrightarrow> shown_rgb g (fb_get_pixel g x y) = fb_get_pixel g x y"
proof -
  assume ok: "target_ok g"
  have "unpack565 v AND 0xF8FCF8 = unpack565 v" for v
    by (rule bit_word_eqI) (unfold bit_and_iff bit_unpack565 bit_mask565, blast)
  moreover have "load_le 3 m a AND 0xFFFFFF = (load_le 3 m a :: u32)" for m a
    unfolding low24 [symmetric] by (rule bit_word_eqI) (auto simp: bit_take_bit_iff bit_load_le)
  ultimately show ?thesis by (simp add: fb_get_pixel_eq [OF ok] shown_rgb_def Let_def)
qed

section \<open>Properties\<close>

text \<open>A screen of 16 by 16 pixels with 32 bits each, at an address of its own.\<close>

definition screen16 :: gpu where
  "screen16 = \<lparr>vram = \<lambda>_. 0, crtc = [], g_row = 0, g_col = 0, g_color = 0x0F, g_fb_enabled = True, g_fb = 0x100000,
     g_fb_width = 16, g_fb_height = 16, g_fb_pitch = 64, g_fb_bpp = 32, g_fb_back = 0, g_target_back = False,
     g_fb_cols = 2, g_fb_rows = 1, g_render_target = 0, g_render_pitch = 0, g_render_w = 0, g_render_h = 0,
     g_render_bpp = 0, g_vp_x = 0, g_vp_y = 0, g_vp_cols = 2, g_vp_rows = 1\<rparr>"

lemma screen16_ok [simp]: "target_ok screen16"
  by (simp add: target_ok_def screen16_def rt_bpp_def rt_width_def rt_pitch_def rt_height_def pixel_bytes_def
      target_size_def fb_target_def)

text \<open>
  C25: filling a rectangle sets exactly the pixels of the target that lie in it, to the colour as far as the
  pixel format can show it; every other pixel keeps its value, and no byte outside the target changes.
\<close>

theorem gpu_fill_rect_pixels:
  fixes x y w h :: u16 and rgb :: u32
  assumes "g_fb_enabled g" "target_ok g"
  defines "g' \<equiv> gpu_fill_rect g x y w h rgb"
  shows "gpu_get_pixel g' x' y' =
       (if x' < rt_width g \<and> y' < rt_height g \<and> x' - x < w \<and> y' - y < h then shown_rgb g rgb else gpu_get_pixel g x' y') \<and>
     same_screen g g'"
proof -
  have g': "g' = fb_fill_rect g x y w h rgb" using assms(1) by (simp add: g'_def gpu_fill_rect_def)
  have s: "same_screen g g'" unfolding g' fb_fill_rect_eq by (rule put_pixels_screen [OF assms(2)])
  have "g_fb_enabled g'" using same_screen_fields(1) [OF s] assms(1) by simp
  then show ?thesis using fb_fill_rect_get [OF assms(2)] s assms(1) by (simp add: gpu_get_pixel_def g')
qed

lemma gpu_fill_rect_pixels_witness:
  "gpu_get_pixel (gpu_fill_rect screen16 2 3 4 5 0xFF1234) 5 7 = 0x00FF1234 \<and>
   gpu_get_pixel (gpu_fill_rect screen16 2 3 4 5 0xFF1234) 6 7 = gpu_get_pixel screen16 6 7"
  using gpu_fill_rect_pixels [OF _ screen16_ok, of 2 3 4 5 "0xFF1234" 5 7]
    gpu_fill_rect_pixels [OF _ screen16_ok, of 2 3 4 5 "0xFF1234" 6 7]
  by (simp add: screen16_def rt_width_def rt_height_def shown_rgb_def rt_bpp_def)

text \<open>
  What is drawn into a region of the screen, such as the mouse pointer, is undone: after the region
  saved before is put back, every pixel of the screen has its former value.
\<close>

theorem gpu_region_roundtrip:
  assumes "g_fb_enabled g" "g_render_target g = NULL" "target_ok g" "unat y + unat h \<le> 65536" "same_screen g g'"
    and "\<And>x' y'. \<not> (x' - x < w \<and> y' - y < h) \<Longrightarrow> gpu_get_pixel g' x' y' = gpu_get_pixel g x' y'"
  shows "gpu_get_pixel (gpu_restore_region g' (gpu_save_region g dst x y w h) x y w h) x' y' = gpu_get_pixel g x' y'"
proof -
  let ?src = "gpu_save_region g dst x y w h" and ?is = "List.product (region_rows g' y h) [0..<unat w]"
  note geo = same_screenD(2-10) [OF assms(5)]
  have g': "g_fb_enabled g'" "g_render_target g' = NULL" "g_fb_height g' = g_fb_height g"
    using same_screen_fields [OF assms(5)] assms(1,2) by simp_all
  have rows: "region_rows g' y h = region_rows g y h" by (simp add: region_rows_def g')
  have dim: "rt_width g = g_fb_width g" "rt_height g = g_fb_height g" using assms(2) by (simp_all add: rt_width_def rt_height_def)
  have r: "gpu_restore_region g' ?src x y w h = put_pixels (rect_pt x y) (\<lambda>(yy, xx). ?src (yy * unat w + xx)) ?is g'" (is "?r = _")
    using put_region_eq [OF g'(1,2)] by (simp add: gpu_restore_region_def)
  have s: "same_screen g' ?r" unfolding r by (rule put_pixels_screen) (simp add: geo assms(3))
  have en: "g_fb_enabled ?r" using same_screen_fields(1) [OF s] g'(1) by simp
  show ?thesis
  proof (cases "x' < rt_width g \<and> y' < rt_height g")
    case False
    then show ?thesis using same_screenD(3,4) [OF s] geo(2,3) by (auto simp: gpu_get_pixel_def fb_get_pixel_def)
  next
    case True
    have "?src (fst i * unat w + snd i) = fb_get_pixel g x' y'" if "i \<in> set ?is" "rect_pt x y i = (x', y')" for i
      using that gpu_save_region_get [OF assms(1), of "fst i" y h "snd i" w dst x] True rows dim by (auto simp: case_prod_beta')
    then have get: "fb_get_pixel ?r x' y' =
        (if (x', y') \<in> rect_pt x y ` set ?is then fb_get_pixel g x' y' else fb_get_pixel g' x' y')"
      unfolding r using put_pixels_get [of g' x' y' ?is "rect_pt x y" _ "fb_get_pixel g x' y'"] True geo assms(3) shown_shown
      by (auto simp: case_prod_beta')
    have "(x', y') \<in> rect_pt x y ` set ?is" if inside: "x' - x < w" "y' - y < h"
    proof -
      obtain i j where "i < unat w" "x' = x + of_nat i" "j < unat h" "y' = y + of_nat j"
        using inside rect_point [of w x' x] rect_point [of h y' y] by blast
      then show ?thesis using True dim region_rows_mem [OF assms(4), of j g] by (auto simp: rows image_iff)
    qed
    then show ?thesis using get assms(1,6) en g'(1) by (fastforce simp: gpu_get_pixel_def)
  qed
qed

lemma gpu_region_roundtrip_witness:
  "gpu_get_pixel (gpu_restore_region (gpu_put_pixel screen16 3 4 0xFFFFFF) (gpu_save_region screen16 (\<lambda>_. 9) 2 2 8 8) 2 2 8 8) 3 4 =
     gpu_get_pixel screen16 3 4"
proof (rule gpu_region_roundtrip)
  show e: "g_fb_enabled screen16" "g_render_target screen16 = NULL" by (simp_all add: screen16_def)
  then have p: "gpu_put_pixel screen16 3 4 0xFFFFFF = fb_put_pixel screen16 3 4 0xFFFFFF" by (simp add: gpu_put_pixel_def)
  show "same_screen screen16 (gpu_put_pixel screen16 3 4 0xFFFFFF)"
    unfolding p by (rule fb_put_pixel_screen [OF screen16_ok])
  show "gpu_get_pixel (gpu_put_pixel screen16 3 4 0xFFFFFF) x' y' = gpu_get_pixel screen16 x' y'"
    if "\<not> (x' - 2 < 8 \<and> y' - 2 < 8)" for x' y'
    using that e(1) unfolding p by (auto simp: gpu_get_pixel_def fb_get_put_pixel)
qed simp_all

end
