(* ===== verification/Console.thy ===== *)
theory Console
  imports GpuSpec
begin

text \<open>
  The text console of \<^verbatim>\<open>drivers/gpu.c\<close>. On the VGA text memory it refines a screen of 25 lines of 80 cells
  with a cursor. In either mode the cursor stays on the console and only screen memory is written; the
  locale \<open>console\<close> states this contract for the terminal.
\<close>

section \<open>Where the console may write\<close>

definition screen_area :: "gpu \<Rightarrow> u64 set" where
  "screen_area g = (if g_fb_enabled g then {a. unat (a - fb_target g) < target_size g} else {a. unat (a - VGA_MEM) < 4000})"

text \<open>The cursor is on the console, and the console is on the target.\<close>

definition viewport_ok :: "gpu \<Rightarrow> bool" where
  "viewport_ok g \<longleftrightarrow> g_fb_enabled g \<longrightarrow> target_ok g \<and>
     unat (g_vp_x g) + unat (g_vp_cols g) * 8 \<le> unat (rt_width g) \<and>
     unat (g_vp_y g) + unat (g_vp_rows g) * 16 \<le> unat (rt_height g)"

definition console_ok :: "gpu \<Rightarrow> bool" where
  "console_ok g \<longleftrightarrow> g_row g < con_rows g \<and> g_col g < con_cols g \<and> viewport_ok g"

text \<open>The part of the state that the console keeps, and its steps: only memory of the screen is written.\<close>

definition con_shape :: "gpu \<Rightarrow> gpu" where
  "con_shape g = g\<lparr>vram := \<lambda>_. 0, crtc := [], g_row := 0, g_col := 0, g_color := 0\<rparr>"

definition con_step :: "gpu \<Rightarrow> gpu \<Rightarrow> bool" where
  "con_step g g' \<longleftrightarrow> con_shape g' = con_shape g \<and> (\<forall>a. a \<notin> screen_area g \<longrightarrow> vram g' a = vram g a)"

lemma con_shape_fields:
  "g_fb_enabled (con_shape g) = g_fb_enabled g" "rt_pitch (con_shape g) = rt_pitch g" "rt_width (con_shape g) = rt_width g"
  "rt_height (con_shape g) = rt_height g" "rt_bpp (con_shape g) = rt_bpp g" "fb_target (con_shape g) = fb_target g"
  "target_size (con_shape g) = target_size g" "target_ok (con_shape g) = target_ok g" "con_rows (con_shape g) = con_rows g"
  "con_cols (con_shape g) = con_cols g" "screen_area (con_shape g) = screen_area g" "g_vp_x (con_shape g) = g_vp_x g"
  "g_vp_y (con_shape g) = g_vp_y g" "g_vp_cols (con_shape g) = g_vp_cols g" "g_vp_rows (con_shape g) = g_vp_rows g"
  by (simp_all add: con_shape_def rt_pitch_def rt_width_def rt_height_def rt_bpp_def fb_target_def target_size_def
      pixel_bytes_def target_ok_def con_rows_def con_cols_def screen_area_def)

lemma con_stepD:
  assumes "con_step g g'"
  shows "g_fb_enabled g' = g_fb_enabled g" "con_rows g' = con_rows g" "con_cols g' = con_cols g"
    "screen_area g' = screen_area g" "target_ok g' = target_ok g" "g_vp_rows g' = g_vp_rows g" "g_vp_cols g' = g_vp_cols g"
    "rt_width g' = rt_width g" "rt_height g' = rt_height g" "g_vp_x g' = g_vp_x g" "g_vp_y g' = g_vp_y g"
  using assms unfolding con_step_def by (metis con_shape_fields)+

lemma con_step_refl [simp]: "con_step g g"
  by (simp add: con_step_def)

lemma con_step_trans: "con_step g g' \<Longrightarrow> con_step g' g'' \<Longrightarrow> con_step g g''"
  using con_stepD(4) [of g g'] by (simp add: con_step_def)

lemma con_step_cursor [simp]:
  "con_step g (g'\<lparr>g_row := r\<rparr>) = con_step g g'" "con_step g (g'\<lparr>g_col := c\<rparr>) = con_step g g'"
  "con_step g (g'\<lparr>g_color := k\<rparr>) = con_step g g'" "con_step g (fb_update_cursor g') = con_step g g'"
  by (simp_all add: con_step_def con_shape_def fb_update_cursor_def Let_def)

lemma fb_update_cursor_fields [simp]:
  "g_row (fb_update_cursor g) = g_row g" "g_col (fb_update_cursor g) = g_col g" "vram (fb_update_cursor g) = vram g"
  "g_color (fb_update_cursor g) = g_color g" "g_fb_enabled (fb_update_cursor g) = g_fb_enabled g"
  by (simp_all add: fb_update_cursor_def Let_def)

lemma con_size_cursor [simp]:
  "con_cols (g\<lparr>g_col := c\<rparr>) = con_cols g" "con_cols (g\<lparr>g_row := r\<rparr>) = con_cols g" "con_cols (g\<lparr>vram := m\<rparr>) = con_cols g"
  "con_rows (g\<lparr>g_col := c\<rparr>) = con_rows g" "con_rows (g\<lparr>g_row := r\<rparr>) = con_rows g" "con_rows (g\<lparr>vram := m\<rparr>) = con_rows g"
  by (simp_all add: con_cols_def con_rows_def)

lemma con_ok_step:
  "console_ok g \<Longrightarrow> con_step g g' \<Longrightarrow> g_row g' < con_rows g \<Longrightarrow> g_col g' < con_cols g \<Longrightarrow> console_ok g'"
  using con_stepD [of g g'] by (simp add: console_ok_def viewport_ok_def)

lemma same_screen_step: "g_fb_enabled g \<Longrightarrow> same_screen g g' \<Longrightarrow> con_step g g'"
proof -
  assume en: "g_fb_enabled g" and s: "same_screen g g'"
  have "con_shape g' = con_shape (g\<lparr>vram := vram g'\<rparr>)" using same_screenD(1) [OF s] by simp
  then show "con_step g g'" using s en
    by (simp add: con_step_def con_shape_def screen_area_def same_screen_def linorder_not_less)
qed

section \<open>Drawing a character\<close>

lemma draw_glyph_screen:
  assumes "target_ok g"
  shows "same_screen g (draw_glyph g x y ch fg bg)"
  unfolding draw_glyph_def Let_def
proof (rule fold_screen, rule fold_screen)
  fix g' g'' gx and gy :: nat
  assume "same_screen g g'" "same_screen g' g''"
  then show "same_screen g'' (fb_put_pixel g'' (x + of_nat gx) (y + of_nat gy)
      (if bit (vram g' (VGA_FONT_8X16 + ucast ch * of_nat FONT_BASE_H + of_nat gy)) (7 - gx) then fg else bg))"
    using assms by (intro fb_put_pixel_screen) (metis same_screen_ok)
qed

lemma vga_set_area:
  assumes "unat (i :: u64) < 2000" "\<not> unat (a - VGA_MEM) < 4000"
  shows "vga_set m i cell a = m a"
  unfolding vga_set_def
proof (rule store_le_outside)
  have u: "unat (2 * i) = 2 * unat i" using assms(1) by (simp add: unat_word_ariths)
  then have "unat (a - VGA_MEM - 2 * i) = unat (a - VGA_MEM) - 2 * unat i"
    using assms by (subst unat_sub) (simp_all add: word_le_nat_alt)
  then show "\<not> unat (a - (VGA_MEM + 2 * i)) < 2" using assms by (simp add: diff_diff_eq [symmetric])
qed

lemma unat_cell:
  assumes "(row :: u64) < 25" "col < 80"
  shows "unat (row * of_nat VGA_COLS + col) = unat row * 80 + unat col" "unat row * 80 + unat col < 2000"
  using assms by (auto simp: VGA_COLS_def unat_word_ariths word_less_nat_alt)

lemma con_draw_step:
  assumes "g_fb_enabled g \<longrightarrow> target_ok g" "\<not> g_fb_enabled g \<longrightarrow> row < 25 \<and> col < 80"
  shows "con_step g (con_draw g row col c)"
proof (cases "g_fb_enabled g")
  case True
  then show ?thesis using assms(1) same_screen_step [OF True draw_glyph_screen] by (simp add: con_draw_def fb_draw_char_def)
next
  case False
  then show ?thesis using assms(2) unat_cell [of row col] vga_set_area
    by (simp add: con_draw_def con_step_def con_shape_def screen_area_def)
qed

section \<open>Scrolling\<close>

text \<open>Copying a row writes only the bytes of the row, given here by their offset in a buffer.\<close>

lemma fold_mem_outside:
  assumes "\<And>i m. i \<in> set is \<Longrightarrow> f i m a = m a"
  shows "fold f is m a = (m a :: 'v)"
  using assms by (induction "is" arbitrary: m) simp_all

lemma fold_mem_outside2:
  assumes "\<And>i m. i \<in> set is \<Longrightarrow> f i m a = m a" "\<And>i m. i \<in> set js \<Longrightarrow> f' i m a = m a"
  shows "fold f' js (fold f is m) a = (m a :: 'v)"
proof -
  have "fold f' js (fold f is m) a = fold f is m a" using assms(2) by (rule fold_mem_outside)
  also have "\<dots> = m a" using assms(1) by (rule fold_mem_outside)
  finally show ?thesis .
qed

lemma fb_blit_row_outside:
  assumes "off + n \<le> N" "N < 2 ^ 32" "N \<le> unat (a - t)"
  shows "fb_blit_row m (t + of_nat off) src n a = m a"
proof -
  have far: "unat (a - (t + of_nat off + of_nat i)) = unat (a - t) - (off + i)" if "i < n" for i
  proof -
    have "unat (of_nat (off + i) :: u64) = off + i" unfolding unat_of_nat using that assms by simp
    then have "unat (a - t - of_nat (off + i)) = unat (a - t) - (off + i)"
      using that assms by (subst unat_sub) (simp_all add: word_le_nat_alt del: of_nat_add)
    then show ?thesis by (simp add: algebra_simps)
  qed
  have "store_le 4 m (t + of_nat off + 4 * of_nat i) (v :: u32) a = m a" if "i < n div 4" for i m v
    using far [of "4 * i"] that assms by (intro store_le_outside) auto
  moreover have "(m(t + of_nat off + of_nat i := v)) a = m a" if "i < n" for i m v
  proof -
    have "0 < unat (a - (t + of_nat off + of_nat i))" using far [OF that] that assms by simp
    then show ?thesis by auto
  qed
  ultimately show ?thesis unfolding fb_blit_row_def Let_def
    by (intro fold_mem_outside2) (auto simp del: fun_upd_apply)
qed

lemma unat_vp_px:
  assumes "viewport_ok g" "g_fb_enabled g"
  shows "unat (g_vp_cols g * of_nat FONT_W) = unat (g_vp_cols g) * 8" "unat (g_vp_rows g * of_nat FONT_H) = unat (g_vp_rows g) * 16"
  using assms u16_less [of "rt_width g"] u16_less [of "rt_height g"]
  by (simp_all add: viewport_ok_def font_defs unat_word_ariths)

lemma fb_scroll_step:
  assumes "viewport_ok g" "g_fb_enabled g"
  shows "con_step g (fb_scroll g)"
proof -
  let ?b = "unat (rt_bpp g) div 8" and ?w = "unat (g_vp_cols g * of_nat FONT_W)" and ?h = "unat (g_vp_rows g * of_nat FONT_H)"
  let ?off = "\<lambda>row. (unat (g_vp_y g) + row) * unat (rt_pitch g) + unat (g_vp_x g) * ?b"
  let ?m = "fold (\<lambda>row m. fb_blit_row m (fb_target g + of_nat (?off row)) (fb_target g + of_nat (?off (row + FONT_H))) (?w * ?b))
     [0..<?h - FONT_H] (vram g)"
  let ?g = "g\<lparr>vram := ?m\<rparr>"
  have ok: "target_ok g" using assms by (simp add: viewport_ok_def)
  have row: "?off row + ?w * ?b \<le> target_size g" if "row < ?h" for row
  proof -
    have "unat (g_vp_x g) * ?b + ?w * ?b \<le> unat (rt_width g) * ?b" unfolding add_mult_distrib [symmetric]
      using assms unat_vp_px [OF assms] by (intro mult_le_mono1) (simp add: viewport_ok_def)
    also have "\<dots> \<le> unat (rt_pitch g)" using ok by (simp add: target_ok_def pixel_bytes_def)
    finally have "?off row + ?w * ?b \<le> Suc (unat (g_vp_y g) + row) * unat (rt_pitch g)" by simp
    also have "\<dots> \<le> unat (rt_height g) * unat (rt_pitch g)"
      using that assms unat_vp_px [OF assms] by (intro mult_le_mono1) (simp add: viewport_ok_def)
    finally show ?thesis by (simp add: target_size_def mult.commute)
  qed
  have "?m a = vram g a" if "\<not> unat (a - fb_target g) < target_size g" for a
    using that row target_size_less [of g] by (intro fold_mem_outside fb_blit_row_outside [of _ _ "target_size g"]) auto
  then have "same_screen g ?g" by (simp add: same_screen_def)
  then have "con_step g ?g" "target_ok ?g" using same_screen_step [OF assms(2)] ok by (simp_all add: same_screen_ok)
  moreover have "con_step ?g (fb_fill_rect ?g x y w h rgb)" for x y w h rgb
    using assms(2) \<open>target_ok ?g\<close> by (intro same_screen_step) (simp_all add: fb_fill_rect_eq put_pixels_screen)
  ultimately show ?thesis unfolding fb_scroll_def Let_def by (auto intro: con_step_trans)
qed

lemma console_scroll_step:
  assumes "viewport_ok g"
  shows "con_step g (console_scroll g)"
proof (cases "g_fb_enabled g")
  case True
  then show ?thesis using fb_scroll_step [OF assms] by (simp add: console_scroll_def)
next
  case False
  let ?f = "\<lambda>i m. vga_set m (of_nat i) (vga_get m (of_nat (i + VGA_COLS)))"
    and ?f' = "\<lambda>i m. vga_set m (of_nat i) (fb_cell 32 (g_color g))"
  have v: "vga_set m (of_nat i) v a = m a" if "i < VGA_ROWS * VGA_COLS" "\<not> unat (a - VGA_MEM) < 4000" for i m v a
    using that by (intro vga_set_area) (simp_all add: unat_of_nat VGA_ROWS_def VGA_COLS_def)
  have le: "(VGA_ROWS - Suc 0) * VGA_COLS \<le> VGA_ROWS * VGA_COLS" by simp
  have "fold ?f' [(VGA_ROWS - 1) * VGA_COLS..<VGA_ROWS * VGA_COLS] (fold ?f [0..<(VGA_ROWS - 1) * VGA_COLS] (vram g)) a = vram g a"
    if "\<not> unat (a - VGA_MEM) < 4000" for a
    by (intro fold_mem_outside2 v [OF _ that]) (auto intro: less_le_trans [OF _ le])
  then show ?thesis using False by (simp add: console_scroll_def con_step_def con_shape_def screen_area_def Let_def)
qed

lemma con_step_viewport: "con_step g g' \<Longrightarrow> viewport_ok g \<Longrightarrow> viewport_ok g'"
  using con_stepD [of g g'] by (simp add: viewport_ok_def)

lemma gpu_clear_step:
  assumes "viewport_ok g"
  shows "con_step g (gpu_clear g fg bg)" "g_row (gpu_clear g fg bg) = 0" "g_col (gpu_clear g fg bg) = 0"
proof -
  let ?g = "g\<lparr>g_row := 0, g_col := 0, g_color := fg OR push_bit 4 bg\<rparr>"
  have st: "con_step g ?g" by simp
  have "con_step g (gpu_clear g fg bg) \<and> g_row (gpu_clear g fg bg) = 0 \<and> g_col (gpu_clear g fg bg) = 0"
  proof (cases "g_fb_enabled g")
    case True
    have "target_ok ?g" using con_stepD(5) [OF st] assms True by (simp add: viewport_ok_def)
    then have s: "same_screen ?g (fb_fill_rect ?g x y w h rgb)" for x y w h rgb
      by (simp add: fb_fill_rect_eq put_pixels_screen)
    then have "con_step ?g (fb_fill_rect ?g x y w h rgb)" for x y w h rgb
      using True by (intro same_screen_step) simp_all
    then show ?thesis using True con_step_trans [OF st] same_screen_fields(5,6) [OF s] by (simp add: gpu_clear_def Let_def)
  next
    case False
    have "vga_set m (of_nat i) v a = m a" if "i < 2000" "\<not> unat (a - VGA_MEM) < 4000" for i m v a
      using that by (intro vga_set_area) (simp_all add: unat_of_nat)
    then have "fold (\<lambda>i m. vga_set m (of_nat i) v) [0..<2000] m a = m a" if "\<not> unat (a - VGA_MEM) < 4000" for a m v
      using that by (intro fold_mem_outside) simp
    then show ?thesis using False
      by (simp add: gpu_clear_def con_step_def con_shape_def screen_area_def Let_def VGA_ROWS_def VGA_COLS_def fb_update_cursor_def)
  qed
  then show "con_step g (gpu_clear g fg bg)" "g_row (gpu_clear g fg bg) = 0" "g_col (gpu_clear g fg bg) = 0" by simp_all
qed

lemma fb_scroll_fields:
  assumes "viewport_ok g" "g_fb_enabled g"
  shows "g_col (fb_scroll g) = g_col g" "g_row (fb_scroll g) = ucast (g_vp_rows g) - 1"
proof -
  have ok: "target_ok (g\<lparr>vram := m\<rparr>)" for m using assms same_screen_geometry(9) by (simp add: viewport_ok_def)
  have s: "same_screen (g\<lparr>vram := m\<rparr>) (fb_fill_rect (g\<lparr>vram := m\<rparr>) x y w h rgb)" for m x y w h rgb
    unfolding fb_fill_rect_eq using put_pixels_screen [OF ok] .
  show "g_col (fb_scroll g) = g_col g" "g_row (fb_scroll g) = ucast (g_vp_rows g) - 1"
    using same_screen_fields(6,11) [OF s] unfolding fb_scroll_def Let_def by simp_all
qed

lemma console_scroll_cursor:
  assumes "viewport_ok g"
  shows "g_row (console_scroll g) = con_rows g - 1" "g_col (console_scroll g) = g_col g"
  using fb_scroll_fields [OF assms] by (simp_all add: console_scroll_def con_rows_def Let_def VGA_ROWS_def)

section \<open>The operations keep the console in order\<close>

lemma con_draw_fields:
  assumes "g_fb_enabled g \<longrightarrow> target_ok g"
  shows "g_row (con_draw g r c ch) = g_row g" "g_col (con_draw g r c ch) = g_col g" "g_color (con_draw g r c ch) = g_color g"
  using assms same_screen_fields(5-7) [OF draw_glyph_screen [of g]]
  by (auto simp: con_draw_def fb_draw_char_def)

text \<open>The cursor moved, and the screen scrolled when it left the last row.\<close>

lemma con_advance:
  assumes "console_ok g" "con_step g g'" "g_col g' < con_cols g" "g_row g' \<le> con_rows g"
  defines "g'' \<equiv> fb_update_cursor (if g_row g' \<ge> con_rows g' then console_scroll g' else g')"
  shows "con_step g g'' \<and> console_ok g''"
proof -
  note d = con_stepD(2,3) [OF assms(2)]
  have vp: "viewport_ok g'" using con_step_viewport [OF assms(2)] assms(1) by (simp add: console_ok_def)
  have "con_rows g \<noteq> 0" using assms(1) by (auto simp: console_ok_def)
  then have pos: "con_rows g - 1 < con_rows g" by (simp add: word_less_nat_alt unat_minus_one unat_gt_0)
  show ?thesis
  proof (cases "g_row g' \<ge> con_rows g'")
    case True
    have "con_step g (console_scroll g')" using con_step_trans [OF assms(2) console_scroll_step [OF vp]] .
    moreover have "console_ok (fb_update_cursor (console_scroll g'))"
      using con_ok_step [OF assms(1), of "fb_update_cursor (console_scroll g')"] calculation console_scroll_cursor [OF vp] d pos assms(3)
      by simp
    ultimately show ?thesis using True by (simp add: g''_def)
  next
    case False
    then have "console_ok (fb_update_cursor g')"
      using con_ok_step [OF assms(1), of "fb_update_cursor g'"] assms(2,3) d by simp
    then show ?thesis using False assms(2) by (simp add: g''_def)
  qed
qed

lemma gpu_putc_step:
  assumes "console_ok g"
  shows "con_step g (gpu_putc g c) \<and> console_ok (gpu_putc g c)"
proof -
  have ok: "g_row g < con_rows g" "g_col g < con_cols g" "viewport_ok g" using assms by (simp_all add: console_ok_def)
  then have pos: "0 < con_cols g" "0 < con_rows g" by (auto intro: le_less_trans [OF word_zero_le])
  have le: "g_row g \<le> con_rows g" "\<not> con_rows g \<le> g_row g" using ok(1) by auto
  have nxt: "g_row g + 1 \<le> con_rows g" using ok(1) by (rule inc_le)
  consider "c = 12" | "c = 10" | "c = 13" | "c = 8" | "c \<notin> {12, 10, 13, 8}" by auto
  then show ?thesis
  proof cases
    case 1
    then show ?thesis using gpu_clear_step [OF ok(3)] con_ok_step [OF assms] pos by (simp add: gpu_putc_def)
  next
    case 2
    then show ?thesis using con_advance [OF assms, of "g\<lparr>g_col := 0, g_row := g_row g + 1\<rparr>"] pos nxt by (simp add: gpu_putc_def Let_def)
  next
    case 3
    then show ?thesis using con_advance [OF assms, of "g\<lparr>g_col := 0\<rparr>"] pos ok le by (simp add: gpu_putc_def Let_def)
  next
    case 4
    have "g_col g - 1 < con_cols g" if "g_col g > 0"
      using that ok(2) by (simp add: word_less_nat_alt unat_minus_one unat_gt_0)
    then show ?thesis using 4 con_advance [OF assms, of "if g_col g > 0 then g\<lparr>g_col := g_col g - 1\<rparr> else g"] ok le
      by (simp add: gpu_putc_def Let_def)
  next
    case 5
    let ?d = "con_draw g (g_row g) (g_col g) c"
    have t: "g_fb_enabled g \<longrightarrow> target_ok g" using ok(3) by (simp add: viewport_ok_def)
    have d: "con_step g ?d" using ok t by (intro con_draw_step) (auto simp: con_rows_def con_cols_def VGA_ROWS_def VGA_COLS_def)
    let ?g = "if g_col ?d + 1 \<ge> con_cols ?d then ?d\<lparr>g_col := 0, g_row := g_row ?d + 1\<rparr> else ?d\<lparr>g_col := g_col ?d + 1\<rparr>"
    have "gpu_putc g c = fb_update_cursor (if g_row ?g \<ge> con_rows ?g then console_scroll ?g else ?g)"
      using 5 by (simp add: gpu_putc_def Let_def)
    moreover have "con_step g ?g" "g_col ?g < con_cols g" "g_row ?g \<le> con_rows g"
      using d con_stepD(2,3) [OF d] con_draw_fields [OF t] pos nxt ok by (auto simp: less_imp_le)
    ultimately show ?thesis using con_advance [OF assms, of ?g] by simp
  qed
qed

lemma clip_cursor:
  assumes "(0 :: u64) < n" "n < 65536"
  shows "ucast (if ucast x \<ge> n then ucast (n - 1) else x :: u16) = min (ucast x) (n - 1)" "min (ucast x) (n - 1) < n"
proof -
  have u: "unat (n - 1) = unat n - 1" "0 < unat n" "unat n < 65536"
    using assms by (simp_all add: unat_minus_one word_less_nat_alt unat_gt_0)
  then have "unat (ucast (ucast (n - 1) :: u16) :: u64) = unat (n - 1)"
    by (simp add: unsigned_ucast_eq take_bit_eq_mod unat_mod)
  then have r: "ucast (ucast (n - 1) :: u16) = n - 1" by (simp add: word_unat_eq_iff)
  show "min (ucast x) (n - 1) < n" using u by (subst min_less_iff_disj) (simp add: word_less_nat_alt)
  show "ucast (if ucast x \<ge> n then ucast (n - 1) else x :: u16) = min (ucast x) (n - 1)"
    using u r by (auto simp: min_def word_le_nat_alt)
qed

lemma gpu_set_cursor_step:
  assumes "console_ok g"
  shows "con_step g (gpu_set_cursor g r c) \<and> console_ok (gpu_set_cursor g r c) \<and>
     g_row (gpu_set_cursor g r c) = min (ucast r) (con_rows g - 1) \<and> g_col (gpu_set_cursor g r c) = min (ucast c) (con_cols g - 1)"
proof -
  have n: "0 < con_rows g" "0 < con_cols g" using assms by (auto simp: console_ok_def intro: le_less_trans [OF word_zero_le])
  have "ucast (v :: u16) < (65536 :: u64)" for v using u16_less [of v] by (simp add: word_less_nat_alt unsigned_ucast_eq take_bit_eq_mod)
  then have "con_rows g < 65536" "con_cols g < 65536" by (simp_all add: con_rows_def con_cols_def VGA_ROWS_def VGA_COLS_def)
  note r = clip_cursor [OF n(1) this(1)] and c = clip_cursor [OF n(2) this(2)]
  have "con_step g (gpu_set_cursor g r c)" by (simp add: gpu_set_cursor_def Let_def)
  moreover have "g_row (gpu_set_cursor g r c) = min (ucast r) (con_rows g - 1)" "g_col (gpu_set_cursor g r c) = min (ucast c) (con_cols g - 1)"
    using r(1) [of r] c(1) [of c] by (simp_all add: gpu_set_cursor_def Let_def)
  ultimately show ?thesis using con_ok_step [OF assms] r(2) c(2) by simp
qed

lemma con_draw_ok:
  assumes "console_ok g" "con_step g g'" "\<not> g_fb_enabled g \<longrightarrow> r < 25 \<and> c < 80"
  shows "con_step g' (con_draw g' r c ch)"
  using assms con_stepD [OF assms(2)] by (intro con_draw_step) (auto simp: console_ok_def viewport_ok_def)

text \<open>Erasing: cells are drawn, the cursor and the colour stay.\<close>

definition con_still :: "gpu \<Rightarrow> gpu \<Rightarrow> bool" where
  "con_still g g' \<longleftrightarrow> con_step g g' \<and> g_row g' = g_row g \<and> g_col g' = g_col g \<and> g_color g' = g_color g"

lemma con_still_fold:
  "(\<And>i g'. i \<in> set is \<Longrightarrow> con_still g g' \<Longrightarrow> con_still g' (f i g')) \<Longrightarrow> con_still g (fold f is g)"
  by (rule fold_rel [of con_still]) (auto simp: con_still_def intro: con_step_trans)

lemma con_draw_still:
  assumes "console_ok g" "con_still g g'" "\<not> g_fb_enabled g \<longrightarrow> r < 25 \<and> c < 80"
  shows "con_still g' (con_draw g' r c ch)"
proof -
  have "con_step g g'" using assms(2) by (simp add: con_still_def)
  with con_draw_ok [OF assms(1) this assms(3)] con_stepD [OF this] assms(1) show ?thesis
    by (simp add: con_still_def con_draw_fields console_ok_def viewport_ok_def)
qed

lemma con_still_ok: "console_ok g \<Longrightarrow> con_still g g' \<Longrightarrow> console_ok g'"
  by (rule con_ok_step) (auto simp: con_still_def console_ok_def)

lemma unat_cursor:
  assumes "console_ok g"
  shows "unat (g_row g + 1) \<le> unat (con_rows g)" "unat (g_col g + 1) \<le> unat (con_cols g)"
  using assms inc_le [of "g_row g"] inc_le [of "g_col g"] by (simp_all add: console_ok_def word_le_nat_alt)

lemma text_cell:
  assumes "\<not> g_fb_enabled g" "r < unat (con_rows g)" "c < unat (con_cols g)"
  shows "(of_nat r :: u64) < 25 \<and> (of_nat c :: u64) < 80"
  using assms by (simp add: con_rows_def con_cols_def VGA_ROWS_def VGA_COLS_def word_less_nat_alt unat_of_nat)

lemma gpu_erase_still:
  assumes "console_ok g"
  shows "con_still g (gpu_erase_line g mode)" "con_still g (gpu_erase_display g mode)"
proof -
  have row: "\<not> g_fb_enabled g \<longrightarrow> g_row g < 25" using assms by (auto simp: console_ok_def con_rows_def VGA_ROWS_def)
  show "con_still g (gpu_erase_line g mode)" unfolding gpu_erase_line_def Let_def
  proof (rule con_still_fold)
    fix c g' assume c: "c \<in> set [if mode = 0 then unat (g_col g) else 0..<if mode = 1 then unat (g_col g + 1) else unat (con_cols g)]"
      and g': "con_still g g'"
    have "c < unat (con_cols g)" using c unat_cursor [OF assms] by (auto split: if_splits)
    then have "\<not> g_fb_enabled g \<longrightarrow> (of_nat c :: u64) < 80"
      by (auto simp: con_cols_def VGA_COLS_def word_less_nat_alt unat_of_nat)
    then show "con_still g' (con_draw g' (g_row g') (of_nat c) 32)"
      using con_draw_still [OF assms g', of "g_row g" "of_nat c" 32] row g' by (auto simp: con_still_def)
  qed
  show "con_still g (gpu_erase_display g mode)" unfolding gpu_erase_display_def Let_def
  proof (rule con_still_fold, rule con_still_fold)
    fix r c g' g''
    assume r: "r \<in> set [if mode = 0 then unat (g_row g) else 0..<if mode = 1 then unat (g_row g + 1) else unat (con_rows g)]"
      and g': "con_still g g'" and g'': "con_still g' g''"
      and c: "c \<in> set [if mode = 0 \<and> r = unat (g_row g') then unat (g_col g') else 0..<
        if mode = 1 \<and> r = unat (g_row g') then unat (g_col g' + 1) else unat (con_cols g')]"
    have "con_still g g''" using g' g'' con_step_trans by (auto simp: con_still_def)
    moreover have "r < unat (con_rows g)" using r unat_cursor [OF assms] by (auto split: if_splits)
    moreover have "c < unat (con_cols g)" using c g' unat_cursor [OF assms] con_stepD(3) [of g g'] by (auto simp: con_still_def split: if_splits)
    ultimately show "con_still g'' (con_draw g'' (of_nat r) (of_nat c) 32)"
      using text_cell [of g r c] by (intro con_draw_still [OF assms]) auto
  qed
qed

section \<open>Machines whose operations are safe\<close>

text \<open>
  A state with a condition \<open>ok\<close> that every operation keeps, while it changes no more than \<open>step\<close>
  allows; so does every sequence of operations.
\<close>

locale safe_machine =
  fixes ok :: "'g \<Rightarrow> bool" and step :: "'g \<Rightarrow> 'g \<Rightarrow> bool" and oper :: "'g \<Rightarrow> 'i \<Rightarrow> 'g"
  assumes step_refl: "step g g"
    and step_trans: "step g g' \<Longrightarrow> step g' g'' \<Longrightarrow> step g g''"
    and oper_safe: "ok g \<Longrightarrow> step g (oper g i) \<and> ok (oper g i)"
begin

lemma run_safe: "ok g \<Longrightarrow> step g (foldl oper g is) \<and> ok (foldl oper g is)"
proof (induction "is" arbitrary: g)
  case Nil
  then show ?case by (simp add: step_refl)
next
  case (Cons i "is")
  then show ?case using oper_safe [of g i] step_trans by auto
qed

end

interpretation console_print: safe_machine console_ok con_step gpu_putc
  by unfold_locales (auto intro: con_step_trans dest: gpu_putc_step)

section \<open>The text screen\<close>

text \<open>Lines of cells and the position of the cursor; what a character does to them.\<close>

record screen =
  lines :: "u16 list list"
  crow :: nat
  ccol :: nat
  colour :: u8

definition blank :: "u8 \<Rightarrow> u16" where "blank color = fb_cell 32 color"

definition next_row :: "screen \<Rightarrow> screen" where
  "next_row s =
     (if Suc (crow s) < 25 then s\<lparr>crow := Suc (crow s)\<rparr>
      else s\<lparr>lines := tl (lines s) @ [replicate 80 (blank (colour s))]\<rparr>)"

definition screen_putc :: "screen \<Rightarrow> u8 \<Rightarrow> screen" where
  "screen_putc s c =
     (if c = 12 then \<lparr>lines = replicate 25 (replicate 80 (blank 0x0F)), crow = 0, ccol = 0, colour = 0x0F\<rparr>
      else if c = 10 then next_row (s\<lparr>ccol := 0\<rparr>)
      else if c = 13 then s\<lparr>ccol := 0\<rparr>
      else if c = 8 then s\<lparr>ccol := ccol s - 1\<rparr>
      else let s = s\<lparr>lines := (lines s)[crow s := (lines s ! crow s)[ccol s := fb_cell c (colour s)]]\<rparr>
           in if Suc (ccol s) < 80 then s\<lparr>ccol := Suc (ccol s)\<rparr> else next_row (s\<lparr>ccol := 0\<rparr>))"

definition text_lines :: "mem \<Rightarrow> u16 list list" where
  "text_lines m = map (\<lambda>r. map (\<lambda>c. vga_get m (of_nat (r * 80 + c))) [0..<80]) [0..<25]"

definition text_screen :: "gpu \<Rightarrow> screen" where
  "text_screen g = \<lparr>lines = text_lines (vram g), crow = unat (g_row g), ccol = unat (g_col g), colour = g_color g\<rparr>"

lemma vga_get_set:
  assumes "i < 2000" "j < (2000 :: nat)"
  shows "vga_get (vga_set m (of_nat i) v) (of_nat j) = (if i = j then v else vga_get m (of_nat j))"
proof (cases "i = j")
  case True
  then show ?thesis by (simp add: vga_get_def vga_set_def load_store_le)
next
  case False
  then have "2 * i + 2 \<le> 2 * j \<or> 2 * j + 2 \<le> 2 * i" by auto
  from load_store_pixel_other [OF this, where t = VGA_MEM and m = m and v = v] show ?thesis
    using False assms by (simp add: vga_get_def vga_set_def)
qed

lemma text_lines_eqI:
  assumes "\<And>r c. r < 25 \<Longrightarrow> c < 80 \<Longrightarrow> vga_get m (of_nat (r * 80 + c)) = ls ! r ! c" "length ls = 25"
    "\<And>r. r < 25 \<Longrightarrow> length (ls ! r) = 80"
  shows "text_lines m = ls"
  using assms by (intro nth_equalityI) (simp_all add: text_lines_def del: of_nat_add of_nat_mult)

lemma text_lines_nth [simp]:
  "r < 25 \<Longrightarrow> c < 80 \<Longrightarrow> text_lines m ! r ! c = vga_get m (of_nat (r * 80 + c))" "length (text_lines m) = 25"
  "r < 25 \<Longrightarrow> length (text_lines m ! r) = 80"
  by (simp_all add: text_lines_def del: of_nat_add of_nat_mult)

lemma cell_index:
  assumes "r < 25" "c < 80"
  shows "r * 80 + c < (2000 :: nat)" "r' < 25 \<Longrightarrow> c' < 80 \<Longrightarrow> r * 80 + c = r' * 80 + c' \<longleftrightarrow> r = r' \<and> c = c'"
  using assms index_inj [of c 80 c' r r'] by auto

lemma text_lines_set:
  assumes "r < 25" "c < 80"
  shows "text_lines (vga_set m (of_nat (r * 80 + c)) v) = (text_lines m)[r := (text_lines m ! r)[c := v]]"
  using assms cell_index
  by (intro text_lines_eqI) (auto simp: vga_get_set nth_list_update simp del: of_nat_add of_nat_mult)

lemma vga_fill:
  assumes "b \<le> 2000" "j < 2000"
  shows "vga_get (fold (\<lambda>i m. vga_set m (of_nat i) v) [a..<b] m) (of_nat j) =
     (if a \<le> j \<and> j < b then v else vga_get m (of_nat j))"
  using assms
proof (induction b)
  case (Suc b)
  show ?case
  proof (cases "a \<le> b")
    case True
    then show ?thesis using Suc by (simp add: vga_get_set less_Suc_eq)
  qed (use Suc.prems in auto)
qed simp

lemma vga_shift:
  assumes "b \<le> 1920" "j < 2000"
  shows "vga_get (fold (\<lambda>i m. vga_set m (of_nat i) (vga_get m (of_nat (i + 80)))) [0..<b] m) (of_nat j) =
     vga_get m (of_nat (if j < b then j + 80 else j))"
  using assms
proof (induction b arbitrary: j)
  case (Suc b)
  then show ?case using Suc.IH [of "b + 80"] by (auto simp: vga_get_set less_Suc_eq simp del: of_nat_add)
qed simp

lemma vga_scroll:
  "a \<le> 1920 \<Longrightarrow> b \<le> 2000 \<Longrightarrow> j < 2000 \<Longrightarrow>
   vga_get (fold (\<lambda>i m. vga_set m (of_nat i) v) [a..<b]
     (fold (\<lambda>i m. vga_set m (of_nat i) (vga_get m (of_nat (i + 80)))) [0..<a] m)) (of_nat j) =
   (if a \<le> j \<and> j < b then v else vga_get m (of_nat (if j < a then j + 80 else j)))"
  by (simp add: vga_fill vga_shift del: of_nat_add)

lemma text_lines_clear:
  "text_lines (fold (\<lambda>i m. vga_set m (of_nat i) v) [0..<VGA_COLS * VGA_ROWS] m) = replicate 25 (replicate 80 v)"
proof (rule text_lines_eqI)
  fix r c :: nat assume rc: "r < 25" "c < 80"
  have "VGA_COLS * VGA_ROWS = 2000" by (simp add: VGA_COLS_def VGA_ROWS_def)
  then have "vga_get (fold (\<lambda>i m. vga_set m (of_nat i) v) [0..<VGA_COLS * VGA_ROWS] m) (of_nat (r * 80 + c)) = v"
    using vga_fill [of "VGA_COLS * VGA_ROWS" "r * 80 + c" v 0 m] cell_index(1) [OF rc] by simp
  then show "vga_get (fold (\<lambda>i m. vga_set m (of_nat i) v) [0..<VGA_COLS * VGA_ROWS] m) (of_nat (r * 80 + c)) =
      replicate 25 (replicate 80 v) ! r ! c" using rc by simp
qed auto

lemma text_lines_scroll:
  assumes "\<not> g_fb_enabled g"
  shows "text_lines (vram (console_scroll g)) = tl (text_lines (vram g)) @ [replicate 80 (blank (g_color g))]"
proof (rule text_lines_eqI)
  fix r c :: nat assume rc: "r < 25" "c < 80"
  have "80 + r * 80 + c = r * 80 + c + 80" by simp
  moreover have "r * 80 + c < 1920 \<longleftrightarrow> r < 24" using rc by auto
  moreover have "vga_get (vram (console_scroll g)) (of_nat (r * 80 + c)) =
      (if 1920 \<le> r * 80 + c then blank (g_color g) else vga_get (vram g) (of_nat (r * 80 + c + 80)))"
  proof -
    have d: "(VGA_ROWS - 1) * VGA_COLS = 1920" "VGA_ROWS * VGA_COLS = 2000" by (simp_all add: VGA_ROWS_def VGA_COLS_def)
    show ?thesis using assms cell_index(1) [OF rc] vga_scroll [of "(VGA_ROWS - 1) * VGA_COLS" "VGA_ROWS * VGA_COLS" "r * 80 + c"]
      unfolding console_scroll_def Let_def VGA_COLS_def [symmetric] blank_def d by simp
  qed
  ultimately show "vga_get (vram (console_scroll g)) (of_nat (r * 80 + c)) =
      (tl (text_lines (vram g)) @ [replicate 80 (blank (g_color g))]) ! r ! c"
    using rc by (cases "r < 24") (auto simp: nth_append nth_tl add.commute add.left_commute simp del: of_nat_add of_nat_mult)
qed (auto simp: nth_append nth_tl)

lemma text_screen_update [simp]: "text_screen (fb_update_cursor g) = text_screen g"
  by (simp add: text_screen_def)

lemma text_screen_col: "text_screen (g\<lparr>g_col := c\<rparr>) = (text_screen g)\<lparr>ccol := unat c\<rparr>"
  by (simp add: text_screen_def)

lemma text_next_row:
  assumes "\<not> g_fb_enabled g" "g_row g < 25" and r: "r = g_row g + 1"
  defines "g' \<equiv> g\<lparr>g_row := r\<rparr>"
  shows "text_screen (if g_row g' \<ge> con_rows g' then console_scroll g' else g') = next_row (text_screen g)"
proof -
  have n: "unat r = Suc (unat (g_row g))" unfolding r using assms(2) by (rule unat_inc)
  have rows: "con_rows g' = 25" using assms(1) by (simp add: g'_def con_rows_def VGA_ROWS_def)
  show ?thesis
  proof (cases "Suc (unat (g_row g)) < 25")
    case True
    then have "\<not> con_rows g' \<le> g_row g'" by (simp add: rows) (simp add: g'_def word_le_nat_alt n)
    then show ?thesis using True by (simp add: next_row_def text_screen_def) (simp add: g'_def n)
  next
    case False
    have v: "viewport_ok g'" using assms(1) by (simp add: viewport_ok_def g'_def)
    have fb: "\<not> g_fb_enabled g'" using assms(1) by (simp add: g'_def)
    have "con_rows g' \<le> g_row g'" using False by (simp add: rows) (simp add: g'_def word_le_nat_alt n)
    moreover have "unat (g_row g) = 24" using False assms(2) by (simp add: word_less_nat_alt)
    moreover have "g_color (console_scroll g') = g_color g'" using fb by (simp add: console_scroll_def Let_def)
    ultimately show ?thesis using text_lines_scroll [OF fb] console_scroll_cursor [OF v] rows
      by (simp add: next_row_def text_screen_def) (simp add: g'_def)
  qed
qed

lemma gpu_putc_text:
  assumes "\<not> g_fb_enabled g" "console_ok g"
  shows "text_screen (gpu_putc g c) = screen_putc (text_screen g) c"
proof -
  have pos: "g_row g < 25" "g_col g < 80" "con_rows g = 25" "con_cols g = 80"
    using assms by (auto simp: console_ok_def con_rows_def con_cols_def VGA_ROWS_def VGA_COLS_def)
  have nle: "\<not> 25 \<le> g_row g" using pos(1) by auto
  consider "c = 12" | "c = 10" | "c = 13" | "c = 8" | "c \<notin> {12, 10, 13, 8}" by auto
  then show ?thesis
  proof cases
    case 1
    then show ?thesis using assms(1) text_lines_clear
      by (simp add: gpu_putc_def gpu_clear_def screen_putc_def blank_def Let_def text_screen_def)
  next
    case 2
    then show ?thesis using text_next_row [of "g\<lparr>g_col := 0\<rparr>" "g_row g + 1"] assms(1) pos(1)
      by (simp add: gpu_putc_def screen_putc_def Let_def text_screen_col)
  next
    case 3
    then show ?thesis using pos nle by (simp add: gpu_putc_def screen_putc_def Let_def) (simp add: text_screen_def)
  next
    case 4
    then show ?thesis using pos nle
      by (auto simp: gpu_putc_def screen_putc_def Let_def text_screen_def unat_minus_one word_gt_0)
  next
    case 5
    let ?d = "con_draw g (g_row g) (g_col g) c"
    have "con_draw g (g_row g) (g_col g) c = g\<lparr>vram := vga_set (vram g) (of_nat (unat (g_row g) * 80 + unat (g_col g))) (fb_cell c (g_color g))\<rparr>"
      using assms(1) by (simp add: con_draw_def VGA_COLS_def)
    moreover have rc: "unat (g_row g) < 25" "unat (g_col g) < 80" using pos by (simp_all add: word_less_nat_alt)
    ultimately have d: "text_screen ?d = (text_screen g)\<lparr>lines := (lines (text_screen g))[crow (text_screen g) :=
        (lines (text_screen g) ! crow (text_screen g))[ccol (text_screen g) := fb_cell c (g_color g)]]\<rparr>"
      "\<not> g_fb_enabled ?d" "g_row ?d = g_row g" "g_col ?d = g_col g" "g_color ?d = g_color g" "con_cols ?d = 80" "con_rows ?d = 25"
      using text_lines_set [OF rc] assms(1) pos by (simp_all add: text_screen_def del: of_nat_add of_nat_mult)
    have n: "unat (g_col g + 1) = Suc (unat (g_col g))" using pos(2) by (rule unat_inc)
    have wrap: "80 \<le> g_col g + 1 \<longleftrightarrow> \<not> Suc (unat (g_col g)) < 80" by (simp add: word_le_nat_alt n linorder_not_less)
    show ?thesis
    proof (cases "Suc (unat (g_col g)) < 80")
      case True
      then show ?thesis using 5 d wrap nle n
        by (simp add: gpu_putc_def screen_putc_def Let_def text_screen_col) (simp add: text_screen_def)
    next
      case False
      then show ?thesis using 5 d wrap text_next_row [of "?d\<lparr>g_col := 0\<rparr>" "g_row g + 1"] pos
        by (simp add: gpu_putc_def screen_putc_def Let_def text_screen_col) (simp add: text_screen_def)
    qed
  qed
qed

section \<open>Properties\<close>

text \<open>A cleared text screen.\<close>

definition text_mode :: gpu where
  "text_mode = screen16\<lparr>g_fb_enabled := False\<rparr>"

lemma text_mode_ok [simp]: "console_ok text_mode" "\<not> g_fb_enabled text_mode"
  by (simp_all add: text_mode_def console_ok_def viewport_ok_def con_rows_def con_cols_def VGA_ROWS_def VGA_COLS_def screen16_def)

lemma screen16_console [simp]: "console_ok screen16"
  using screen16_ok
  by (simp add: console_ok_def viewport_ok_def con_rows_def con_cols_def rt_width_def rt_height_def screen16_def)



text \<open>
  In the frame buffer as on the text screen, no text can move the cursor off the console or write
  outside the memory of the screen.
\<close>

theorem gpu_print_within:
  assumes "console_ok g"
  shows "console_ok (gpu_print g s) \<and> con_step g (gpu_print g s)"
  using console_print.run_safe [OF assms] by (simp add: gpu_print_def)

lemma gpu_print_within_witness: "console_ok (gpu_print screen16 [72, 10, 10]) \<and> con_step screen16 (gpu_print screen16 [72, 10, 10])"
  by (rule gpu_print_within [OF screen16_console])

end
