(* ===== verification/Terminal.thy ===== *)
theory Terminal
  imports Console
begin

text \<open>
  The interpreter of escape sequences, \<^verbatim>\<open>kernel/term.c\<close>, on top of the console. The counter \<open>nparams\<close> is a
  natural number; a parameter is of type \<open>int\<close> and its sums wrap around. Functions take the parser and the
  display and return both.
\<close>

section \<open>State and operations\<close>

datatype ts = TS_GROUND | TS_ESCAPE | TS_CSI | TS_OSC

record term_ctx =
  ts_state :: ts
  params :: "int list"
  nparams :: nat
  param_active :: bool
  fg :: u8
  bg :: u8
  saved_row :: u16
  saved_col :: u16

definition params_reset :: "term_ctx \<Rightarrow> term_ctx" where
  "params_reset ctx = ctx\<lparr>params := replicate 16 0, nparams := 0, param_active := False\<rparr>"

definition param_digit :: "term_ctx \<Rightarrow> int \<Rightarrow> term_ctx" where
  "param_digit ctx d =
     (let ctx = (if nparams ctx = 0 then ctx\<lparr>nparams := 1, param_active := False\<rparr> else ctx);
          i = nparams ctx - 1;
          ctx = (if \<not> param_active ctx then ctx\<lparr>params := (params ctx)[i := 0], param_active := True\<rparr> else ctx)
      in if nparams ctx \<le> 16 then ctx\<lparr>params := (params ctx)[i := int32 (params ctx ! i * 10 + d)]\<rparr> else ctx)"

definition param_sep :: "term_ctx \<Rightarrow> term_ctx" where
  "param_sep ctx =
     (if nparams ctx < 16
      then ctx\<lparr>nparams := nparams ctx + 1, param_active := False, params := (params ctx)[nparams ctx := 0]\<rparr> else ctx)"

text \<open>The effect of one parameter of \<open>CSI m\<close>.\<close>

definition sgr_param :: "term_ctx \<Rightarrow> int \<Rightarrow> term_ctx" where
  "sgr_param ctx p =
     (if p = 0 then ctx\<lparr>fg := 0x0F, bg := 0x00\<rparr>
      else if p = 1 then ctx\<lparr>fg := fg ctx OR 0x08\<rparr>
      else if 30 \<le> p \<and> p \<le> 37 then ctx\<lparr>fg := (fg ctx AND 0x08) OR word_of_int (p - 30)\<rparr>
      else if p = 39 then ctx\<lparr>fg := (fg ctx AND 0x08) OR 0x07\<rparr>
      else if 40 \<le> p \<and> p \<le> 47 then ctx\<lparr>bg := word_of_int (p - 40)\<rparr>
      else if p = 49 then ctx\<lparr>bg := 0x00\<rparr>
      else if 90 \<le> p \<and> p \<le> 97 then ctx\<lparr>fg := word_of_int (8 + (p - 90))\<rparr>
      else if 100 \<le> p \<and> p \<le> 107 then ctx\<lparr>bg := word_of_int (8 + (p - 100))\<rparr>
      else ctx)"

definition apply_sgr :: "term_ctx \<Rightarrow> gpu \<Rightarrow> term_ctx \<times> gpu" where
  "apply_sgr ctx g =
     (let ctx = (if nparams ctx = 0 then ctx\<lparr>fg := 0x0F, bg := 0x00\<rparr> else ctx);
          ctx = foldl sgr_param ctx (map (\<lambda>i. params ctx ! i) [0..<nparams ctx])
      in (ctx, gpu_set_color g (fg ctx) (bg ctx)))"

definition csi_dispatch :: "term_ctx \<Rightarrow> gpu \<Rightarrow> u8 \<Rightarrow> term_ctx \<times> gpu" where
  "csi_dispatch ctx g final =
     (let p0 = (if nparams ctx > 0 then params ctx ! 0 else 0); p1 = (if nparams ctx > 1 then params ctx ! 1 else 0);
          n0 = (if p0 > 0 then p0 else 1);
          row = fst (gpu_get_cursor g); col = snd (gpu_get_cursor g) in
      if final = 65 then (ctx, gpu_set_cursor g (word_of_int (if uint row \<ge> n0 then uint row - n0 else 0)) col)
      else if final = 66 then (ctx, gpu_set_cursor g (word_of_int (uint row + n0)) col)
      else if final = 67 then (ctx, gpu_set_cursor g row (word_of_int (uint col + n0)))
      else if final = 68 then (ctx, gpu_set_cursor g row (word_of_int (if uint col \<ge> n0 then uint col - n0 else 0)))
      else if final = 72 \<or> final = 102 then
        (ctx, gpu_set_cursor g (word_of_int (if p0 > 0 then p0 - 1 else 0)) (word_of_int (if p1 > 0 then p1 - 1 else 0)))
      else if final = 74 then (ctx, gpu_erase_display g p0)
      else if final = 75 then (ctx, gpu_erase_line g p0)
      else if final = 109 then apply_sgr ctx g
      else if final = 115 then (ctx\<lparr>saved_row := row, saved_col := col\<rparr>, g)
      else if final = 117 then (ctx, gpu_set_cursor g (saved_row ctx) (saved_col ctx))
      else (ctx, g))"

definition term_ctx_init :: "term_ctx \<Rightarrow> term_ctx" where
  "term_ctx_init ctx =
     ctx\<lparr>ts_state := TS_GROUND, nparams := 0, param_active := False, fg := 0x0F, bg := 0x00, saved_row := 0, saved_col := 0\<rparr>"

fun term_ctx_putc :: "term_ctx \<times> gpu \<Rightarrow> u8 \<Rightarrow> term_ctx \<times> gpu" where
  "term_ctx_putc (ctx, g) b =
     (case ts_state ctx of
        TS_GROUND \<Rightarrow> if b = 0x1B then (ctx\<lparr>ts_state := TS_ESCAPE\<rparr>, g) else (ctx, gpu_putc g b)
      | TS_ESCAPE \<Rightarrow>
          (if b = 91 then (params_reset ctx)\<lparr>ts_state := TS_CSI\<rparr>
           else if b = 93 then ctx\<lparr>ts_state := TS_OSC\<rparr> else ctx\<lparr>ts_state := TS_GROUND\<rparr>, g)
      | TS_CSI \<Rightarrow>
          if 48 \<le> b \<and> b \<le> 57 then (param_digit ctx (uint b - 48), g)
          else if b = 59 then (param_sep ctx, g)
          else if 0x40 \<le> b \<and> b \<le> 0x7E then
            case csi_dispatch ctx g b of (ctx, g) \<Rightarrow> (ctx\<lparr>ts_state := TS_GROUND\<rparr>, g)
          else (ctx, g)
      | TS_OSC \<Rightarrow> (if b = 0x07 \<or> b = 0x1B then ctx\<lparr>ts_state := TS_GROUND\<rparr> else ctx, g))"

definition term_ctx_print :: "term_ctx \<times> gpu \<Rightarrow> u8 list \<Rightarrow> term_ctx \<times> gpu" where
  "term_ctx_print tg s = foldl term_ctx_putc tg s"

text \<open>The parser of the screen itself, set up at its first use.\<close>

record default_term =
  g_default_ctx :: term_ctx
  g_default_init :: bool

definition default_ctx :: "default_term \<Rightarrow> default_term" where
  "default_ctx d = (if \<not> g_default_init d then d\<lparr>g_default_ctx := term_ctx_init (g_default_ctx d), g_default_init := True\<rparr> else d)"

definition term_putc :: "default_term \<times> gpu \<Rightarrow> u8 \<Rightarrow> default_term \<times> gpu" where
  "term_putc dg c =
     (let d = default_ctx (fst dg) in
      case term_ctx_putc (g_default_ctx d, snd dg) c of (ctx, g) \<Rightarrow> (d\<lparr>g_default_ctx := ctx\<rparr>, g))"

definition term_print :: "default_term \<times> gpu \<Rightarrow> u8 list \<Rightarrow> default_term \<times> gpu" where
  "term_print dg s =
     (let d = default_ctx (fst dg) in
      case term_ctx_print (g_default_ctx d, snd dg) s of (ctx, g) \<Rightarrow> (d\<lparr>g_default_ctx := ctx\<rparr>, g))"

definition term_reset :: "default_term \<times> gpu \<Rightarrow> default_term \<times> gpu" where
  "term_reset dg =
     (let d = default_ctx (fst dg)
      in (d\<lparr>g_default_ctx := term_ctx_init (g_default_ctx d)\<rparr>, gpu_set_color (snd dg) 0x0F 0x00))"

section \<open>Safety\<close>

text \<open>The parser never has more parameters than its array.\<close>

definition ctx_ok :: "term_ctx \<Rightarrow> bool" where
  "ctx_ok ctx \<longleftrightarrow> length (params ctx) = 16 \<and> nparams ctx \<le> 16"

lemma ctx_ok_steps:
  "ctx_ok (params_reset ctx)" "ctx_ok ctx \<Longrightarrow> ctx_ok (param_digit ctx d)" "ctx_ok ctx \<Longrightarrow> ctx_ok (param_sep ctx)"
  "ctx_ok (ctx\<lparr>ts_state := s\<rparr>) = ctx_ok ctx"
  by (simp_all add: ctx_ok_def params_reset_def param_digit_def param_sep_def Let_def)

lemma sgr_ok: "ctx_ok ctx \<Longrightarrow> ctx_ok (foldl sgr_param ctx ps)"
proof (induction ps arbitrary: ctx)
  case (Cons p ps)
  have "ctx_ok (sgr_param ctx p)" using Cons.prems by (simp add: ctx_ok_def sgr_param_def)
  then show ?case using Cons.IH by simp
qed simp

lemma csi_dispatch_cases:
  obtains (cursor) r c where "csi_dispatch ctx g b = (ctx, gpu_set_cursor g r c)"
  | (erase_display) m where "csi_dispatch ctx g b = (ctx, gpu_erase_display g m)"
  | (erase_line) m where "csi_dispatch ctx g b = (ctx, gpu_erase_line g m)"
  | (sgr) "csi_dispatch ctx g b = apply_sgr ctx g"
  | (save) r c where "csi_dispatch ctx g b = (ctx\<lparr>saved_row := r, saved_col := c\<rparr>, g)"
  | (ignore) "csi_dispatch ctx g b = (ctx, g)"
proof (cases "b \<in> {65, 66, 67, 68, 72, 102, 117}")
  case True
  then have "\<exists>r c. csi_dispatch ctx g b = (ctx, gpu_set_cursor g r c)"
    by (elim insertE emptyE; simp only: csi_dispatch_def Let_def) auto
  then show thesis using cursor by blast
next
  case False
  consider "b = 74" | "b = 75" | "b = 109" | "b = 115" | "b \<notin> {74, 75, 109, 115}" by auto
  then show thesis
  proof cases
    case 1
    show thesis by (rule erase_display) (simp add: csi_dispatch_def Let_def 1)
  next
    case 2
    show thesis by (rule erase_line) (simp add: csi_dispatch_def Let_def 2)
  next
    case 3
    show thesis by (rule sgr) (simp add: csi_dispatch_def Let_def 3)
  next
    case 4
    show thesis by (rule save) (simp add: csi_dispatch_def Let_def 4)
  next
    case 5
    show thesis by (rule ignore) (use False 5 in \<open>simp add: csi_dispatch_def Let_def\<close>)
  qed
qed

lemma gpu_set_color_safe: "console_ok g \<Longrightarrow> con_step g (gpu_set_color g f k) \<and> console_ok (gpu_set_color g f k)"
proof -
  assume ok: "console_ok g"
  have "con_step g (gpu_set_color g f k)" by (simp add: gpu_set_color_def)
  moreover from con_ok_step [OF ok this] ok have "console_ok (gpu_set_color g f k)"
    by (simp add: gpu_set_color_def console_ok_def)
  ultimately show ?thesis by simp
qed

lemma csi_dispatch_safe:
  assumes "ctx_ok ctx" "console_ok g" "csi_dispatch ctx g b = (ctx', g')"
  shows "ctx_ok ctx' \<and> con_step g g' \<and> console_ok g'"
proof (cases rule: csi_dispatch_cases [of ctx g b])
  case (cursor r c)
  then show ?thesis using assms gpu_set_cursor_step [OF assms(2), of r c] by simp
next
  case (erase_display m)
  then show ?thesis using assms gpu_erase_still(2) [OF assms(2)] con_still_ok [OF assms(2)] by (auto simp: con_still_def)
next
  case (erase_line m)
  then show ?thesis using assms gpu_erase_still(1) [OF assms(2)] con_still_ok [OF assms(2)] by (auto simp: con_still_def)
next
  case sgr
  then show ?thesis using assms gpu_set_color_safe [OF assms(2)] sgr_ok by (auto simp: apply_sgr_def Let_def ctx_ok_def)
next
  case (save r c)
  then show ?thesis using assms by (auto simp: ctx_ok_def)
qed (use assms in simp)

lemma term_ctx_putc_safe:
  assumes "ctx_ok (fst tg)" "console_ok (snd tg)"
  shows "con_step (snd tg) (snd (term_ctx_putc tg b)) \<and> ctx_ok (fst (term_ctx_putc tg b)) \<and> console_ok (snd (term_ctx_putc tg b))"
proof -
  obtain ctx g where tg: "tg = (ctx, g)" by (cases tg)
  obtain ctx' g' where csi: "csi_dispatch ctx g b = (ctx', g')" by fastforce
  show ?thesis using assms gpu_putc_step [of g b] csi_dispatch_safe [OF _ _ csi] ctx_ok_steps unfolding tg
    by (cases "ts_state ctx") (simp_all add: csi)
qed

text \<open>The parser together with the display.\<close>

definition term_ok :: "term_ctx \<times> gpu \<Rightarrow> bool" where "term_ok tg \<longleftrightarrow> ctx_ok (fst tg) \<and> console_ok (snd tg)"
definition term_step :: "term_ctx \<times> gpu \<Rightarrow> term_ctx \<times> gpu \<Rightarrow> bool" where "term_step tg tg' \<longleftrightarrow> con_step (snd tg) (snd tg')"

interpretation terminal: safe_machine term_ok term_step term_ctx_putc
  by unfold_locales (auto simp: term_ok_def term_step_def intro: con_step_trans dest: term_ctx_putc_safe)

section \<open>Numbers in a sequence\<close>

text \<open>The decimal digits of a number, as bytes.\<close>

fun dec :: "nat \<Rightarrow> u8 list" where
  "dec n = (if n < 10 then [48 + of_nat n] else dec (n div 10) @ [48 + of_nat (n mod 10)])"

declare dec.simps [simp del]

lemma digit_byte:
  assumes "d < 10"
  shows "48 \<le> 48 + (of_nat d :: u8)" "48 + (of_nat d :: u8) \<le> 57" "uint (48 + of_nat d :: u8) - 48 = int d"
proof -
  have u: "unat (48 + of_nat d :: u8) = 48 + d" using assms by (simp add: unat_word_ariths unat_of_nat)
  then show "48 \<le> 48 + (of_nat d :: u8)" "48 + (of_nat d :: u8) \<le> 57" using assms by (simp_all add: word_le_nat_alt)
  have "uint (48 + of_nat d :: u8) = int (48 + d)" unfolding u [symmetric] by (rule uint_nat)
  then show "uint (48 + of_nat d :: u8) - 48 = int d" by simp
qed

text \<open>The digits of \<open>n\<close> set the current parameter to \<open>n\<close>.\<close>

definition with_param :: "term_ctx \<Rightarrow> nat \<Rightarrow> term_ctx" where
  "with_param ctx n =
     (let k = max 1 (nparams ctx) in ctx\<lparr>nparams := k, param_active := True, params := (params ctx)[k - 1 := int n]\<rparr>)"

lemma csi_digit:
  "ts_state ctx = TS_CSI \<Longrightarrow> d < 10 \<Longrightarrow> term_ctx_putc (ctx, g) (48 + of_nat d) = (param_digit ctx (int d), g)"
  using digit_byte [of d] by simp

lemma int32_nat: "n < 2 ^ 31 \<Longrightarrow> int32 (int n) = int n"
  by (rule int32_id) simp_all

lemma csi_number:
  assumes "ts_state ctx = TS_CSI" "ctx_ok ctx" "\<not> param_active ctx" "n < 2 ^ 31"
  shows "foldl term_ctx_putc (ctx, g) (dec n) = (with_param ctx n, g)"
  using assms(4)
proof (induction n rule: dec.induct)
  case (1 n)
  have i: "nparams ctx - Suc 0 < length (params ctx)" "0 < length (params ctx)" using assms(2) by (auto simp: ctx_ok_def)
  show ?case
  proof (cases "n < 10")
    case True
    then have "dec n = [48 + of_nat n]" by (simp add: dec.simps)
    then show ?thesis using True csi_digit [OF assms(1) True, of g] assms(2,3) i int32_nat [OF 1(2)]
      by (simp add: param_digit_def with_param_def Let_def ctx_ok_def max_def)
  next
    case False
    let ?c = "with_param ctx (n div 10)"
    have "foldl term_ctx_putc (ctx, g) (dec n) = term_ctx_putc (?c, g) (48 + of_nat (n mod 10))"
      using False 1 by (subst dec.simps) simp
    also have "\<dots> = (param_digit ?c (int (n mod 10)), g)"
      using assms(1) by (intro csi_digit) (simp_all add: with_param_def Let_def)
    also have "param_digit ?c (int (n mod 10)) = with_param ctx n"
    proof -
      have "int (n div 10) * 10 + int (n mod 10) = int n" by presburger
      then show ?thesis using assms(2) i int32_nat [OF 1(2)]
        by (simp add: param_digit_def with_param_def Let_def ctx_ok_def max_def)
    qed
    finally show ?thesis .
  qed
qed

section \<open>Properties\<close>

definition term_zero :: term_ctx where
  "term_zero = \<lparr>ts_state = TS_GROUND, params = replicate 16 0, nparams = 0, param_active = False, fg = 0x0F, bg = 0,
     saved_row = 0, saved_col = 0\<rparr>"

lemma term_zero_ok [simp]: "ctx_ok term_zero" "ts_state term_zero = TS_GROUND"
  by (simp_all add: term_zero_def ctx_ok_def)

text \<open>
  C27: whatever bytes a program writes to the terminal, complete sequences or not, the parser stays within its
  sixteen parameters, the cursor stays on the console, and nothing but screen memory is written.
\<close>

theorem term_safe:
  assumes "ctx_ok ctx" "console_ok g" "term_ctx_print (ctx, g) s = (ctx', g')"
  shows "ctx_ok ctx' \<and> console_ok g' \<and> con_step g g'"
  using terminal.run_safe [of "(ctx, g)" s] assms by (simp add: term_ctx_print_def term_ok_def term_step_def)

lemma term_safe_witness:
  "\<exists>ctx' g'. term_ctx_print (term_zero, text_mode) [27, 91, 57, 57, 66, 65] = (ctx', g') \<and> console_ok g'"
proof -
  obtain ctx' g' where r: "term_ctx_print (term_zero, text_mode) [27, 91, 57, 57, 66, 65] = (ctx', g')" by fastforce
  from term_safe [OF term_zero_ok(1) text_mode_ok(1) r] show ?thesis using r by simp
qed

lemma term_text:
  "ts_state ctx = TS_GROUND \<Longrightarrow> 27 \<notin> set s \<Longrightarrow> foldl term_ctx_putc (ctx, g) s = (ctx, gpu_print g s)"
  by (induction s arbitrary: g) (auto simp: gpu_print_def)

text \<open>
  Text without the escape character goes to the console unchanged, and the sequence \<open>ESC [ r ; c H\<close> moves the
  cursor to row \<open>r\<close> and column \<open>c\<close>, counted from 1 and clipped to the console, without drawing.
\<close>

theorem term_moves_cursor:
  assumes "ts_state ctx = TS_GROUND" "console_ok g" "27 \<notin> set s" "1 \<le> r" "r \<le> 65536" "1 \<le> c" "c \<le> 65536"
    "term_ctx_print (ctx, g) (s @ [27, 91] @ dec r @ [59] @ dec c @ [72]) = (ctx', g')"
  defines "h \<equiv> gpu_print g s"
  shows "g_row g' = min (of_nat (r - 1)) (con_rows g - 1) \<and> g_col g' = min (of_nat (c - 1)) (con_cols g - 1) \<and>
     vram g' = vram h \<and> ts_state ctx' = TS_GROUND"
proof -
  let ?c0 = "(params_reset (ctx\<lparr>ts_state := TS_ESCAPE\<rparr>))\<lparr>ts_state := TS_CSI\<rparr>"
  let ?c1 = "with_param ?c0 r" let ?c2 = "param_sep ?c1" let ?c3 = "with_param ?c2 c"
  have h: "console_ok h" "con_step g h" using console_print.run_safe [OF assms(2)] by (simp_all add: h_def gpu_print_def)
  have ok: "ctx_ok ?c0" "ctx_ok ?c2" by (simp_all add: ctx_ok_def params_reset_def with_param_def param_sep_def Let_def)
  have "foldl term_ctx_putc (ctx, g) s = (ctx, h)" unfolding h_def by (rule term_text [OF assms(1,3)])
  moreover have "foldl term_ctx_putc (ctx, h) [27, 91] = (?c0, h)" using assms(1) by simp
  moreover have "foldl term_ctx_putc (?c0, h) (dec r) = (?c1, h)"
    using assms(5) ok by (intro csi_number) (simp_all add: params_reset_def)
  moreover have "term_ctx_putc (?c1, h) 59 = (?c2, h)" by (simp add: with_param_def Let_def)
  moreover have "foldl term_ctx_putc (?c2, h) (dec c) = (?c3, h)"
    using assms(7) ok by (intro csi_number) (simp_all add: params_reset_def with_param_def param_sep_def Let_def)
  moreover have "term_ctx_putc (?c3, h) 72 =
      (?c3\<lparr>ts_state := TS_GROUND\<rparr>, gpu_set_cursor h (word_of_int (int r - 1)) (word_of_int (int c - 1)))"
    using assms(4,6) by (simp add: csi_dispatch_def params_reset_def with_param_def param_sep_def Let_def)
  ultimately have r: "ctx' = ?c3\<lparr>ts_state := TS_GROUND\<rparr>" "g' = gpu_set_cursor h (word_of_int (int r - 1)) (word_of_int (int c - 1))"
    using assms(8) by (simp_all add: term_ctx_print_def)
  have u: "ucast (word_of_int (int n - 1) :: u16) = (of_nat (n - 1) :: u64)" if n: "1 \<le> n" "n \<le> 65536" for n
  proof -
    obtain k where k: "n = Suc k" "k < 65536" using n by (cases n) auto
    then have "unat (ucast (of_nat k :: u16) :: u64) = unat (of_nat k :: u64)"
      by (simp add: unsigned_ucast_eq take_bit_eq_mod unat_of_nat)
    then show ?thesis by (simp add: word_unat_eq_iff k(1))
  qed
  have "vram g' = vram h" by (simp add: r gpu_set_cursor_def Let_def)
  then show ?thesis using gpu_set_cursor_step [OF h(1), of "word_of_int (int r - 1)" "word_of_int (int c - 1)"] r
      con_stepD(2,3) [OF h(2)] u [OF assms(4,5)] u [OF assms(6,7)] by simp
qed

lemma term_moves_cursor_witness:
  "\<exists>ctx' g'. term_ctx_print (term_zero, text_mode) ([65] @ [27, 91] @ dec 12 @ [59] @ dec 300 @ [72]) = (ctx', g') \<and>
     g_row g' = 11 \<and> g_col g' = 79"
proof -
  obtain ctx' g' where r: "term_ctx_print (term_zero, text_mode) ([65] @ [27, 91] @ dec 12 @ [59] @ dec 300 @ [72]) = (ctx', g')"
    by fastforce
  have "con_rows text_mode = 25" "con_cols text_mode = 80" by (simp_all add: con_rows_def con_cols_def VGA_ROWS_def VGA_COLS_def)
  then show ?thesis using term_moves_cursor [OF term_zero_ok(2) text_mode_ok(1) _ _ _ _ _ r] r by (simp add: min_def)
qed

lemma term_sgr:
  assumes "ts_state ctx = TS_GROUND" "n < 2 ^ 31"
  shows "fg (fst (term_ctx_print (ctx, g) ([27, 91] @ dec n @ [109]))) = fg (sgr_param ctx (int n))"
proof -
  let ?c0 = "(params_reset (ctx\<lparr>ts_state := TS_ESCAPE\<rparr>))\<lparr>ts_state := TS_CSI\<rparr>"
  have "foldl term_ctx_putc (ctx, g) [27, 91] = (?c0, g)" using assms(1) by simp
  moreover have "foldl term_ctx_putc (?c0, g) (dec n) = (with_param ?c0 n, g)"
    using assms(2) by (intro csi_number) (simp_all add: params_reset_def ctx_ok_def)
  ultimately show ?thesis
    by (simp add: term_ctx_print_def csi_dispatch_def apply_sgr_def with_param_def params_reset_def Let_def)
      (simp add: sgr_param_def)
qed

text \<open>
  The number of a colour in \<open>CSI m\<close> is used as a number of the VGA palette, in which red and blue are the
  other way round: \<open>ESC [ 31 m\<close>, red, writes in blue, and \<open>ESC [ 34 m\<close>, blue, writes in red.
\<close>

theorem term_red_is_blue:
  fixes g :: gpu
  assumes "ts_state ctx = TS_GROUND" "fg ctx AND 0x08 = 0"
  defines "colour_of \<equiv> \<lambda>n. rgb_for_color (fg (fst (term_ctx_print (ctx, g) ([27, 91] @ dec n @ [109]))))"
  shows "colour_of 31 = 0x0000AA \<and> colour_of 34 = 0xAA0000"
  using term_sgr [OF assms(1), of 31 g] term_sgr [OF assms(1), of 34 g] assms(2)
  by (simp add: colour_of_def sgr_param_def rgb_for_color_def g_palette_def)

lemma term_red_is_blue_witness:
  "rgb_for_color (fg (fst (term_ctx_print (term_zero\<lparr>fg := 7\<rparr>, text_mode) ([27, 91] @ dec 31 @ [109])))) = 0x0000AA"
  using term_red_is_blue [of "term_zero\<lparr>fg := 7\<rparr>" text_mode] by (simp add: term_zero_def)

end
