(* ===== verification/Input.thy ===== *)
theory Input
  imports Ports "HOL-Library.Sublist"
begin

text \<open>
  The input drivers: \<^verbatim>\<open>drivers/keyboard.c\<close> and \<^verbatim>\<open>drivers/mouse.c\<close>. The handlers of the two interrupts read the
  controller through the ports; scan codes become keys in a ring of 256 entries, of which one stays free,
  and three bytes become a movement of the mouse. The array indices \<open>g_head\<close> and \<open>g_tail\<close> are natural
  numbers; they are only ever reduced modulo the size of the ring.
\<close>

section \<open>The keyboard\<close>

definition KEYBUF_SIZE :: nat where "KEYBUF_SIZE = 256"
definition PS2_STATUS :: u16 where "PS2_STATUS = 0x64"
definition PS2_DATA :: u16 where "PS2_DATA = 0x60"
definition PS2_OUT_FULL :: u8 where "PS2_OUT_FULL = 0x01"
definition PS2_AUX_DATA :: u8 where "PS2_AUX_DATA = 0x20"

definition KEY_UP :: int where "KEY_UP = 256"
definition KEY_DOWN :: int where "KEY_DOWN = 257"
definition KEY_LEFT :: int where "KEY_LEFT = 258"
definition KEY_RIGHT :: int where "KEY_RIGHT = 259"
definition KEY_HOME :: int where "KEY_HOME = 260"
definition KEY_END :: int where "KEY_END = 261"
definition KEY_DEL :: int where "KEY_DEL = 262"
definition KEY_PGUP :: int where "KEY_PGUP = 263"
definition KEY_PGDN :: int where "KEY_PGDN = 264"
definition KEY_INS :: int where "KEY_INS = 265"

lemmas key_defs = KEY_UP_def KEY_DOWN_def KEY_LEFT_def KEY_RIGHT_def KEY_HOME_def KEY_END_def KEY_DEL_def
  KEY_PGUP_def KEY_PGDN_def KEY_INS_def

record kbd =
  g_buf :: "int list"
  g_head :: nat
  g_tail :: nat
  g_shift :: bool
  g_extended :: bool
  g_pressed :: "bool list"

definition kbd_zero :: kbd where
  "kbd_zero = \<lparr>g_buf = replicate 256 0, g_head = 0, g_tail = 0, g_shift = False, g_extended = False,
     g_pressed = replicate 128 False\<rparr>"

text \<open>Scan codes to characters, without and with shift; the rest of the 128 entries is 0.\<close>

definition chars :: "string \<Rightarrow> int list" where "chars s = map (\<lambda>c. of_char c) s"

definition g_map :: "int list" where
  "g_map = [0, 27] @ chars ''1234567890-='' @ [8, 9] @ chars ''qwertyuiop[]'' @ [10, 0] @
     chars ''asdfghjkl;'' @ [39, 96, 0, 92] @ chars ''zxcvbnm,./'' @ [0, 42, 0, 32] @ replicate 70 0"

definition g_map_shift :: "int list" where
  "g_map_shift = [0, 27] @ chars ''!@#$%^&*()_+'' @ [8, 9] @ chars ''QWERTYUIOP{}'' @ [10, 0] @
     chars ''ASDFGHJKL:'' @ [34, 126, 0, 124] @ chars ''ZXCVBNM<>?'' @ [0, 42, 0, 32] @ replicate 70 0"

definition g_ext_map :: "int list" where
  "g_ext_map = (replicate 128 0)[0x47 := KEY_HOME, 0x48 := KEY_UP, 0x49 := KEY_PGUP, 0x4B := KEY_LEFT,
     0x4D := KEY_RIGHT, 0x4F := KEY_END, 0x50 := KEY_DOWN, 0x51 := KEY_PGDN, 0x52 := KEY_INS, 0x53 := KEY_DEL]"

definition put_key :: "kbd \<Rightarrow> int \<Rightarrow> kbd" where
  "put_key k code =
     (let next = (g_tail k + 1) mod KEYBUF_SIZE
      in if next \<noteq> g_head k then k\<lparr>g_buf := (g_buf k)[g_tail k := code], g_tail := next\<rparr> else k)"

definition is_repeatable_scancode :: "u8 \<Rightarrow> bool" where
  "is_repeatable_scancode sc \<longleftrightarrow> sc = 0x0E"

definition is_repeatable_ext_scancode :: "u8 \<Rightarrow> bool" where
  "is_repeatable_ext_scancode sc \<longleftrightarrow> sc = 0x4B \<or> sc = 0x4D \<or> sc = 0x47 \<or> sc = 0x4F \<or> sc = 0x53"

text \<open>What \<open>keyboard_irq\<close> does with the scan code it has read.\<close>

definition keyboard_scancode :: "kbd \<Rightarrow> u8 \<Rightarrow> kbd" where
  "keyboard_scancode k sc =
     (let code_sc = unat (sc AND 0x7F) in
      if sc = 0xE0 then k\<lparr>g_extended := True\<rparr>
      else if g_extended k then
        let k = k\<lparr>g_extended := False\<rparr> in
        if sc AND 0x80 \<noteq> 0 then k\<lparr>g_pressed := (g_pressed k)[code_sc := False]\<rparr>
        else if g_pressed k ! code_sc \<and> \<not> is_repeatable_ext_scancode (sc AND 0x7F) then k
        else let k = k\<lparr>g_pressed := (g_pressed k)[code_sc := True]\<rparr>; code = g_ext_map ! code_sc
             in if code \<noteq> 0 then put_key k code else k
      else if sc = 0x2A \<or> sc = 0x36 then k\<lparr>g_shift := True\<rparr>
      else if sc = 0xAA \<or> sc = 0xB6 then k\<lparr>g_shift := False\<rparr>
      else if sc AND 0x80 \<noteq> 0 then k\<lparr>g_pressed := (g_pressed k)[code_sc := False]\<rparr>
      else if g_pressed k ! code_sc \<and> \<not> is_repeatable_scancode (sc AND 0x7F) then k
      else let k = k\<lparr>g_pressed := (g_pressed k)[code_sc := True]\<rparr>;
               c = (if g_shift k then g_map_shift ! code_sc else g_map ! code_sc)
           in if c \<noteq> 0 then put_key k c else k)"

definition keyboard_irq :: "'h ports \<Rightarrow> 'h \<Rightarrow> kbd \<Rightarrow> 'h \<times> kbd" where
  "keyboard_irq io h k =
     (case inb io h PS2_STATUS of (status, h) \<Rightarrow>
        if status AND PS2_OUT_FULL = 0 then (h, k)
        else case inb io h PS2_DATA of (sc, h) \<Rightarrow>
          if status AND PS2_AUX_DATA \<noteq> 0 then (h, k) else (h, keyboard_scancode k sc))"

definition keyboard_getc :: "kbd \<Rightarrow> int \<times> kbd" where
  "keyboard_getc k =
     (if g_head k = g_tail k then (0, k)
      else (g_buf k ! g_head k, k\<lparr>g_head := (g_head k + 1) mod KEYBUF_SIZE\<rparr>))"

section \<open>The mouse\<close>

record mouse =
  g_mouse_x :: int
  g_mouse_y :: int
  g_mouse_buttons :: u8
  g_mouse_available :: bool
  g_mouse_cycle :: u8
  g_mouse_packet :: "u8 \<times> u8 \<times> u8"

definition mouse_zero :: mouse where
  "mouse_zero = \<lparr>g_mouse_x = 0, g_mouse_y = 0, g_mouse_buttons = 0, g_mouse_available = False, g_mouse_cycle = 0,
     g_mouse_packet = (0, 0, 0)\<rparr>"

definition PS2_CMD :: u16 where "PS2_CMD = 0x64"
definition MOUSE_CMD_ENABLE :: u8 where "MOUSE_CMD_ENABLE = 0xF4"
definition MOUSE_CMD_SAMPLE :: u8 where "MOUSE_CMD_SAMPLE = 0xF3"
definition MOUSE_CMD_DEFAULTS :: u8 where "MOUSE_CMD_DEFAULTS = 0xF6"

text \<open>The two waiting loops with \<open>n\<close> rounds left; they return \<open>True\<close> for 0 and \<open>False\<close> for -1.\<close>

fun ps2_wait :: "(u8 \<Rightarrow> bool) \<Rightarrow> 'h ports \<Rightarrow> 'h \<Rightarrow> nat \<Rightarrow> bool \<times> 'h" where
  "ps2_wait ready io h 0 = (False, h)"
| "ps2_wait ready io h (Suc n) =
     (case inb io h PS2_CMD of (s, h) \<Rightarrow> if ready s then (True, h) else ps2_wait ready io h n)"

definition ps2_wait_write :: "'h ports \<Rightarrow> 'h \<Rightarrow> bool \<times> 'h" where
  "ps2_wait_write io h = ps2_wait (\<lambda>s. s AND 0x02 = 0) io h 10000"

definition ps2_wait_read :: "'h ports \<Rightarrow> 'h \<Rightarrow> bool \<times> 'h" where
  "ps2_wait_read io h = ps2_wait (\<lambda>s. s AND 0x01 \<noteq> 0) io h 10000"

definition mouse_send_cmd :: "'h ports \<Rightarrow> 'h \<Rightarrow> u8 \<Rightarrow> bool \<times> 'h" where
  "mouse_send_cmd io h cmd =
     (case ps2_wait_write io h of (ok, h) \<Rightarrow> if \<not> ok then (False, h) else
      case ps2_wait_write io (outb io h PS2_CMD 0xD4) of (ok, h) \<Rightarrow> if \<not> ok then (False, h) else
      case ps2_wait_read io (outb io h PS2_DATA cmd) of (ok, h) \<Rightarrow> if \<not> ok then (False, h) else
      case inb io h PS2_DATA of (ack, h) \<Rightarrow> (ack = 0xFA, h))"

definition mouse_init :: "'h ports \<Rightarrow> 'h \<Rightarrow> mouse \<Rightarrow> 'h \<times> mouse" where
  "mouse_init io h ms =
     (case ps2_wait_write io h of (ok, h) \<Rightarrow> if \<not> ok then (h, ms) else
      case ps2_wait_write io (outb io h PS2_CMD 0xA8) of (ok, h) \<Rightarrow> if \<not> ok then (h, ms) else
      case ps2_wait_read io (outb io h PS2_CMD 0x20) of (ok, h) \<Rightarrow> if \<not> ok then (h, ms) else
      case inb io h PS2_DATA of (cfg, h) \<Rightarrow>
      let cfg = (cfg OR 0x02) AND NOT 0x20 in
      case ps2_wait_write io h of (ok, h) \<Rightarrow> if \<not> ok then (h, ms) else
      case ps2_wait_write io (outb io h PS2_CMD 0x60) of (ok, h) \<Rightarrow> if \<not> ok then (h, ms) else
      let h = outb io h PS2_DATA cfg;
          h = snd (mouse_send_cmd io h MOUSE_CMD_DEFAULTS);
          h = snd (mouse_send_cmd io h MOUSE_CMD_SAMPLE);
          h = snd (mouse_send_cmd io h 100) in
      case mouse_send_cmd io h MOUSE_CMD_ENABLE of (ok, h) \<Rightarrow>
        (h, (if ok then ms\<lparr>g_mouse_available := True\<rparr> else ms)\<lparr>g_mouse_cycle := 0\<rparr>))"

text \<open>What \<open>mouse_irq\<close> does with the byte it has read; the sums of type \<open>int\<close> wrap around.\<close>

definition mouse_byte :: "mouse \<Rightarrow> u8 \<Rightarrow> mouse" where
  "mouse_byte ms byte =
     (case g_mouse_packet ms of (p0, p1, p2) \<Rightarrow>
        if g_mouse_cycle ms = 0 then
          if byte AND 0x08 = 0 then ms\<lparr>g_mouse_cycle := 0\<rparr>
          else ms\<lparr>g_mouse_packet := (byte, p1, p2), g_mouse_cycle := 1\<rparr>
        else if g_mouse_cycle ms = 1 then ms\<lparr>g_mouse_packet := (p0, byte, p2), g_mouse_cycle := 2\<rparr>
        else if g_mouse_cycle ms = 2 then
          let ms = ms\<lparr>g_mouse_packet := (p0, p1, byte), g_mouse_cycle := 0\<rparr> in
          if p0 AND 0xC0 \<noteq> 0 then ms
          else ms\<lparr>g_mouse_x := int32 (g_mouse_x ms + sint p1), g_mouse_y := int32 (g_mouse_y ms + sint byte),
                  g_mouse_buttons := p0 AND 0x07\<rparr>
        else ms)"

definition mouse_irq :: "'h ports \<Rightarrow> 'h \<Rightarrow> mouse \<Rightarrow> 'h \<times> mouse" where
  "mouse_irq io h ms =
     (case inb io h PS2_CMD of (status, h) \<Rightarrow>
        if status AND PS2_OUT_FULL = 0 \<or> status AND PS2_AUX_DATA = 0 then (h, ms)
        else case inb io h PS2_DATA of (byte, h) \<Rightarrow> (h, mouse_byte ms byte))"

definition mouse_get_state :: "mouse \<Rightarrow> int \<times> int \<times> u8" where
  "mouse_get_state ms = (g_mouse_x ms, g_mouse_y ms, g_mouse_buttons ms)"

definition mouse_is_available :: "mouse \<Rightarrow> bool" where
  "mouse_is_available ms \<longleftrightarrow> g_mouse_available ms"

section \<open>The ring of keys\<close>

definition kbd_inv :: "kbd \<Rightarrow> bool" where
  "kbd_inv k \<longleftrightarrow> length (g_buf k) = 256 \<and> g_head k < 256 \<and> g_tail k < 256 \<and> length (g_pressed k) = 128"

text \<open>The keys that wait, oldest first.\<close>

definition kbd_count :: "kbd \<Rightarrow> nat" where
  "kbd_count k = (g_tail k + 256 - g_head k) mod 256"

definition kbd_queue :: "kbd \<Rightarrow> int list" where
  "kbd_queue k = map (\<lambda>i. g_buf k ! ((g_head k + i) mod 256)) [0..<kbd_count k]"

lemma kbd_queue_cong [simp]:
  "kbd_queue (k\<lparr>g_shift := a\<rparr>) = kbd_queue k" "kbd_queue (k\<lparr>g_extended := a\<rparr>) = kbd_queue k"
  "kbd_queue (k\<lparr>g_pressed := p\<rparr>) = kbd_queue k"
  by (simp_all add: kbd_queue_def kbd_count_def)

lemma kbd_inv_cong [simp]:
  "kbd_inv (k\<lparr>g_shift := a\<rparr>) = kbd_inv k" "kbd_inv (k\<lparr>g_extended := a\<rparr>) = kbd_inv k"
  "kbd_inv (k\<lparr>g_pressed := (g_pressed k)[i := a]\<rparr>) = kbd_inv k"
  by (simp_all add: kbd_inv_def)

lemma kbd_count_less: "kbd_count k < 256"
  by (simp add: kbd_count_def)

lemma length_kbd_queue [simp]: "length (kbd_queue k) = kbd_count k"
  by (simp add: kbd_queue_def)

lemma wrap_mod: "i < 512 \<Longrightarrow> i mod 256 = (if i < 256 then i else i - (256 :: nat))"
  by (auto simp: mod_if)

lemma kbd_count_eq:
  "kbd_inv k \<Longrightarrow> kbd_count k = (if g_head k \<le> g_tail k then g_tail k - g_head k else g_tail k + 256 - g_head k)"
  by (auto simp: kbd_inv_def kbd_count_def wrap_mod)

lemma kbd_full_iff: "kbd_inv k \<Longrightarrow> (g_tail k + 1) mod 256 = g_head k \<longleftrightarrow> kbd_count k = 255"
  by (auto simp: kbd_count_eq) (auto simp: kbd_inv_def wrap_mod split: if_splits)

lemma put_key_spec:
  assumes "kbd_inv k"
  shows "kbd_inv (put_key k x)" "kbd_queue (put_key k x) = take 255 (kbd_queue k @ [x])"
proof -
  show inv: "kbd_inv (put_key k x)" using assms by (simp add: put_key_def kbd_inv_def KEYBUF_SIZE_def Let_def)
  show "kbd_queue (put_key k x) = take 255 (kbd_queue k @ [x])"
  proof (cases "kbd_count k = 255")
    case True
    with kbd_full_iff [OF assms] show ?thesis by (simp add: put_key_def KEYBUF_SIZE_def)
  next
    case False
    let ?k = "put_key k x"
    have k: "?k = k\<lparr>g_buf := (g_buf k)[g_tail k := x], g_tail := (g_tail k + 1) mod 256\<rparr>"
      using False kbd_full_iff [OF assms] by (simp add: put_key_def KEYBUF_SIZE_def)
    note b = assms [unfolded kbd_inv_def]
    have t: "g_head ?k = g_head k" "g_tail ?k = (g_tail k + 1) mod 256" by (simp_all add: k)
    have c: "kbd_count ?k = Suc (kbd_count k)"
      using b False kbd_count_eq [OF assms] unfolding kbd_count_eq [OF inv] t
      by (auto simp: wrap_mod split: if_splits)
    have last: "(g_head k + kbd_count k) mod 256 = g_tail k"
      using b by (simp add: kbd_count_eq [OF assms] wrap_mod)
    have ne: "(g_head k + i) mod 256 \<noteq> g_tail k" if "i < kbd_count k" for i
      using that b by (auto simp: kbd_count_eq [OF assms] wrap_mod split: if_splits)
    have "kbd_queue ?k = kbd_queue k @ [x]" using assms ne last
      unfolding kbd_queue_def c by (simp add: k kbd_inv_def nth_list_update_neq [OF not_sym])
    then show ?thesis using False kbd_count_less [of k] by simp
  qed
qed

lemma keyboard_getc_spec:
  assumes "kbd_inv k" "keyboard_getc k = (c, k')"
  shows "kbd_inv k'" "case kbd_queue k of [] \<Rightarrow> c = 0 \<and> k' = k | x # xs \<Rightarrow> c = x \<and> kbd_queue k' = xs"
proof -
  show inv: "kbd_inv k'" using assms by (auto simp: keyboard_getc_def kbd_inv_def KEYBUF_SIZE_def split: if_splits)
  show "case kbd_queue k of [] \<Rightarrow> c = 0 \<and> k' = k | x # xs \<Rightarrow> c = x \<and> kbd_queue k' = xs"
  proof (cases "g_head k = g_tail k")
    case True
    then have "kbd_queue k = []" by (simp add: kbd_queue_def kbd_count_def)
    then show ?thesis using assms(2) True by (simp add: keyboard_getc_def)
  next
    case False
    have k': "c = g_buf k ! g_head k" "k' = k\<lparr>g_head := (g_head k + 1) mod 256\<rparr>"
      using assms(2) False by (auto simp: keyboard_getc_def KEYBUF_SIZE_def)
    have "g_head k' = (g_head k + 1) mod 256" "g_tail k' = g_tail k" by (simp_all add: k')
    then have n: "kbd_count k = Suc (kbd_count k')" using assms(1) False
      unfolding kbd_count_eq [OF inv] kbd_count_eq [OF assms(1)] by (auto simp: wrap_mod kbd_inv_def split: if_splits)
    have pos: "Suc (g_head k + i) mod 256 = (g_head k' + i) mod 256" for i
      by (simp add: k' mod_simps)
    have b: "g_buf k' = g_buf k" by (simp add: k')
    have "kbd_queue k = c # kbd_queue k'" using assms(1) unfolding kbd_queue_def n b
      by (simp add: upt_conv_Cons map_Suc_upt [symmetric] pos k'(1) kbd_inv_def del: upt_Suc)
    then show ?thesis by simp
  qed
qed

section \<open>The decoder\<close>

text \<open>
  The key that a scan code stands for, 0 for none, and the shift state and keys held down after it. Only
  the press of a key that is not yet down counts, except for the keys that repeat.
\<close>

definition scan_key :: "kbd \<Rightarrow> u8 \<Rightarrow> int" where
  "scan_key k sc =
     (if sc AND 0x80 \<noteq> 0 then 0
      else if g_pressed k ! unat sc \<and> \<not> (if g_extended k then is_repeatable_ext_scancode sc else is_repeatable_scancode sc) then 0
      else if g_extended k then g_ext_map ! unat sc
      else if sc = 0x2A \<or> sc = 0x36 then 0
      else (if g_shift k then g_map_shift else g_map) ! unat sc)"

definition scan_state :: "kbd \<Rightarrow> u8 \<Rightarrow> kbd" where
  "scan_state k sc =
     (let shift = sc AND 0x7F \<in> {0x2A, 0x36} \<and> \<not> g_extended k; down = sc AND 0x80 = 0 in
      if sc = 0xE0 then k\<lparr>g_extended := True\<rparr>
      else k\<lparr>g_extended := False, g_shift := (if shift then down else g_shift k),
             g_pressed := (if shift then g_pressed k else (g_pressed k)[unat (sc AND 0x7F) := down])\<rparr>)"

lemma scan_code_split: "(sc AND 0x80) OR (sc AND 0x7F) = (sc :: u8)"
proof -
  have "(sc AND 0x80) OR (sc AND 0x7F) = sc AND (0x80 OR 0x7F)" by (simp only: bit.conj_disj_distrib)
  also have "(0x80 OR 0x7F :: u8) = - 1" by simp
  finally show ?thesis by simp
qed

lemma scan_code_low: "sc AND 0x80 = 0 \<Longrightarrow> sc AND 0x7F = (sc :: u8)"
  using scan_code_split [of sc] by simp

lemma scan_code_high: "sc AND 0x80 \<noteq> 0 \<Longrightarrow> sc = 0x80 OR (sc AND 0x7F :: u8)"
proof -
  assume "sc AND 0x80 \<noteq> 0"
  moreover have "sc AND 2 ^ 7 = (if bit sc 7 then 2 ^ 7 else 0)"
    by (rule bit_word_eqI) (auto simp: bit_and_iff bit_exp_iff simp del: power_numeral)
  ultimately show ?thesis using scan_code_split [of sc] by (simp split: if_splits)
qed

lemma scan_code_shift:
  "sc = 0xAA \<or> sc = 0xB6 \<longleftrightarrow> (sc AND 0x7F = 0x2A \<or> sc AND 0x7F = 0x36) \<and> sc AND 0x80 \<noteq> (0 :: u8)"
  "sc = 0x2A \<or> sc = 0x36 \<longleftrightarrow> (sc AND 0x7F = 0x2A \<or> sc AND 0x7F = 0x36) \<and> sc AND 0x80 = (0 :: u8)"
  using scan_code_low [of sc] scan_code_high [of sc] by auto

lemma update_held: "xs ! i \<Longrightarrow> xs[i := True] = xs"
  by (metis list_update_id)

lemma keyboard_scancode_eq:
  "keyboard_scancode k sc =
     (if scan_key k sc = 0 then scan_state k sc else put_key (scan_state k sc) (scan_key k sc))"
proof (cases "sc AND 0x80 = 0")
  case True
  note low = scan_code_low [OF True]
  have ne: "sc \<noteq> 0xE0" "sc \<noteq> 0xAA" "sc \<noteq> 0xB6" using True by auto
  show ?thesis
  proof (cases "g_extended k")
    case ext: True
    show ?thesis using True ne by (simp add: keyboard_scancode_def scan_key_def scan_state_def Let_def low ext update_held)
  next
    case ext: False
    then show ?thesis using True ne
      by (cases k) (simp add: keyboard_scancode_def scan_key_def scan_state_def Let_def low update_held)
  qed
next
  case False
  then have ne: "sc \<noteq> 0x2A" "sc \<noteq> 0x36" by auto
  have key: "scan_key k sc = 0" using False by (simp add: scan_key_def)
  show ?thesis unfolding keyboard_scancode_def scan_state_def key Let_def
    using False ne scan_code_shift(1) [of sc] by (cases k) simp
qed

section \<open>The buffer a reader of keys relies on\<close>

text \<open>
  Events of the keyboard and calls of its reader in any order. A run gives the keys the buffer accepted and
  the keys the reader got, a result of 0 standing for none.
\<close>

datatype 'e input = Feed 'e | Get

fun input_run ::
  "('s \<Rightarrow> int list) \<Rightarrow> nat \<Rightarrow> ('s \<Rightarrow> 'e \<Rightarrow> 's) \<Rightarrow> ('s \<Rightarrow> 'e \<Rightarrow> int) \<Rightarrow> ('s \<Rightarrow> int \<times> 's) \<Rightarrow> 's \<Rightarrow> 'e input list \<Rightarrow>
     int list \<times> int list \<times> 's" where
  "input_run q cap feed key get s [] = ([], [], s)"
| "input_run q cap feed key get s (Feed e # es) =
     (case input_run q cap feed key get (feed s e) es of (ins, outs, s') \<Rightarrow>
        ((if key s e \<noteq> 0 \<and> length (q s) < cap then [key s e] else []) @ ins, outs, s'))"
| "input_run q cap feed key get s (Get # es) =
     (case get s of (c, t) \<Rightarrow> case input_run q cap feed key get t es of (ins, outs, s') \<Rightarrow>
        (ins, (if c = 0 then [] else [c]) @ outs, s'))"

locale key_buffer =
  fixes inv :: "'s \<Rightarrow> bool" and contents :: "'s \<Rightarrow> int list" and capacity :: nat and valid :: "int set"
    and feed :: "'s \<Rightarrow> 'e \<Rightarrow> 's" and key :: "'s \<Rightarrow> 'e \<Rightarrow> int" and get :: "'s \<Rightarrow> int \<times> 's"
  assumes keys: "inv s \<Longrightarrow> length (contents s) \<le> capacity \<and> set (contents s) \<subseteq> valid" "0 \<notin> valid"
    and feed: "inv s \<Longrightarrow> inv (feed s e) \<and>
      contents (feed s e) = (if key s e = 0 then contents s else take capacity (contents s @ [key s e]))"
    and get: "inv s \<Longrightarrow> get s = (c, s') \<Longrightarrow> inv s' \<and>
      (case contents s of [] \<Rightarrow> c = 0 \<and> s' = s | x # xs \<Rightarrow> c = x \<and> contents s' = xs)"
begin

lemma run_order:
  "inv s \<Longrightarrow> input_run contents capacity feed key get s es = (ins, outs, s') \<Longrightarrow>
     inv s' \<and> contents s @ ins = outs @ contents s' \<and> set outs \<subseteq> valid"
proof (induction es arbitrary: s ins outs)
  case (Cons e es)
  show ?case
  proof (cases e)
    case (Feed x)
    obtain ins' where r: "input_run contents capacity feed key get (feed s x) es = (ins', outs, s')"
      "ins = (if key s x \<noteq> 0 \<and> length (contents s) < capacity then [key s x] else []) @ ins'"
      using Cons.prems(2) Feed by (auto split: prod.splits)
    then show ?thesis using Cons.IH [OF _ r(1)] feed [OF Cons.prems(1), of x] keys(1) [OF Cons.prems(1)]
      by (auto split: if_splits)
  next
    case Get
    obtain c t where g: "get s = (c, t)" by fastforce
    obtain outs' where r: "input_run contents capacity feed key get t es = (ins, outs', s')"
      "outs = (if c = 0 then [] else [c]) @ outs'"
      using Cons.prems(2) Get g by (auto split: prod.splits)
    then show ?thesis using Cons.IH [OF _ r(1)] get [OF Cons.prems(1) g] keys(1) [OF Cons.prems(1)] keys(2)
      by (cases "contents s") (auto split: if_splits)
  qed
qed (use keys in auto)

end

text \<open>The keys that exist: backspace, tab, enter, escape, the printable characters and the keys of \<^verbatim>\<open>keyboard.h\<close>.\<close>

definition key_codes :: "int set" where
  "key_codes = {8, 9, 10, 27} \<union> {32..126} \<union> {KEY_UP..KEY_INS}"

definition kbd_ok :: "kbd \<Rightarrow> bool" where
  "kbd_ok k \<longleftrightarrow> kbd_inv k \<and> set (kbd_queue k) \<subseteq> key_codes"

lemma map_codes: "set g_map \<subseteq> insert 0 key_codes" "set g_map_shift \<subseteq> insert 0 key_codes"
  "set g_ext_map \<subseteq> insert 0 key_codes" "length g_map = 128" "length g_map_shift = 128" "length g_ext_map = 128"
proof -
  show "set g_map \<subseteq> insert 0 key_codes" "set g_map_shift \<subseteq> insert 0 key_codes"
    by (auto simp: g_map_def g_map_shift_def chars_def key_codes_def key_defs)
  show "set g_ext_map \<subseteq> insert 0 key_codes" unfolding g_ext_map_def
    by (intro order_trans [OF set_update_subset_insert] insert_subsetI) (auto simp: key_codes_def key_defs)
  show "length g_map = 128" "length g_map_shift = 128" "length g_ext_map = 128"
    by (simp_all add: g_map_def g_map_shift_def g_ext_map_def chars_def)
qed

lemma scan_code_less: "sc AND 0x80 = 0 \<Longrightarrow> unat (sc :: u8) < 128"
proof -
  assume "sc AND 0x80 = 0"
  then have "sc = sc AND 0x7F" by (simp add: scan_code_low)
  moreover have "sc AND 0x7F \<le> 0x7F" by (rule word_and_le1)
  ultimately show ?thesis by (simp add: word_le_nat_alt)
qed

lemma scan_key_code: "scan_key k sc \<noteq> 0 \<Longrightarrow> scan_key k sc \<in> key_codes"
proof -
  assume key: "scan_key k sc \<noteq> 0"
  then have "sc AND 0x80 = 0" by (simp add: scan_key_def split: if_splits)
  then have "unat sc < 128" by (rule scan_code_less)
  with map_codes have "g_map ! unat sc \<in> insert 0 key_codes" "g_map_shift ! unat sc \<in> insert 0 key_codes"
    "g_ext_map ! unat sc \<in> insert 0 key_codes" by (metis nth_mem subsetD)+
  then have "scan_key k sc \<in> insert 0 key_codes" by (simp add: scan_key_def)
  with key show ?thesis by simp
qed

lemma scan_state_ring:
  "kbd_inv k \<Longrightarrow> kbd_inv (scan_state k sc)" "kbd_queue (scan_state k sc) = kbd_queue k"
  "kbd_count (scan_state k sc) = kbd_count k"
  by (simp_all add: scan_state_def Let_def kbd_inv_def kbd_queue_def kbd_count_def)

lemma keyboard_scancode_queue:
  assumes "kbd_inv k"
  shows "kbd_inv (keyboard_scancode k sc)"
    "kbd_queue (keyboard_scancode k sc) =
       (if scan_key k sc = 0 then kbd_queue k else take 255 (kbd_queue k @ [scan_key k sc]))"
  using put_key_spec [OF scan_state_ring(1) [OF assms]] scan_state_ring [of k sc] assms
  by (simp_all add: keyboard_scancode_eq)

interpretation keyboard: key_buffer kbd_ok kbd_queue 255 key_codes keyboard_scancode scan_key keyboard_getc
proof (unfold_locales, goal_cases)
  case (1 s)
  then show ?case using kbd_count_less [of s] by (auto simp: kbd_ok_def)
next
  case 2
  then show ?case by (simp add: key_codes_def key_defs)
next
  case (3 s e)
  then show ?case using keyboard_scancode_queue [of s e] scan_key_code [of s e]
    by (auto simp: kbd_ok_def dest: in_set_takeD)
next
  case (4 s c s')
  then show ?case using keyboard_getc_spec [of s c s'] by (auto simp: kbd_ok_def split: list.splits)
qed

section \<open>Properties\<close>

lemma kbd_zero_fields:
  "g_shift kbd_zero = False" "g_extended kbd_zero = False" "g_pressed kbd_zero = replicate 128 False"
  "kbd_count kbd_zero = 0" "kbd_count (kbd_zero\<lparr>g_shift := a\<rparr>) = 0"
  by (simp_all add: kbd_zero_def kbd_count_def)

lemma kbd_zero_ok [simp]: "kbd_ok kbd_zero" "kbd_queue kbd_zero = []"
  by (simp_all add: kbd_ok_def kbd_inv_def kbd_zero_def kbd_queue_def kbd_count_def)

text \<open>
  C24: over any interleaving of keyboard interrupts and readers, the keys waiting at first followed by the
  keys accepted are the keys handed out followed by the keys still waiting: every accepted key is delivered
  once and in order. A key is refused only while 255 keys wait. Every key handed out is a key code of
  the keyboard, so that 0 always means that no key waits, and no reader ever sees the control characters 3
  and 4.
\<close>

theorem keyboard_fifo:
  assumes "kbd_ok k" "input_run kbd_queue 255 keyboard_scancode scan_key keyboard_getc k es = (ins, outs, k')"
  shows "kbd_ok k' \<and> kbd_queue k @ ins = outs @ kbd_queue k' \<and> set outs \<subseteq> key_codes"
  using assms by (rule keyboard.run_order)

lemma keyboard_fifo_witness:
  "\<exists>ins outs k'. input_run kbd_queue 255 keyboard_scancode scan_key keyboard_getc kbd_zero [Feed 0x1E, Get, Feed 0x9E, Get] =
     (ins, outs, k') \<and> ins = outs @ kbd_queue k'"
proof -
  obtain ins outs k' where
    r: "input_run kbd_queue 255 keyboard_scancode scan_key keyboard_getc kbd_zero [Feed 0x1E, Get, Feed 0x9E, Get] = (ins, outs, k')"
    by (metis prod_cases3)
  from keyboard_fifo [OF kbd_zero_ok(1) r] show ?thesis using r by simp
qed

text \<open>Scan codes in a row.\<close>

definition scancodes :: "kbd \<Rightarrow> u8 list \<Rightarrow> kbd" where
  "scancodes k scs = foldl keyboard_scancode k scs"

lemma scancodes_simps [simp]:
  "scancodes k [] = k" "scancodes k (sc # scs) = scancodes (keyboard_scancode k sc) scs"
  "scancodes k (xs @ ys) = scancodes (scancodes k xs) ys"
  by (simp_all add: scancodes_def)

lemma scancodes_held:
  assumes "kbd_inv k" "\<not> g_extended k" "c AND 0x80 = 0" "c \<noteq> 0x2A" "c \<noteq> 0x36" "g_pressed k ! unat c"
    "key = (if g_shift k then g_map_shift else g_map) ! unat c" "key \<noteq> 0" "c = 0x0E \<Longrightarrow> kbd_count k + n \<le> 255"
  shows "\<exists>k'. scancodes k (replicate n c) = k' \<and> kbd_inv k' \<and> g_shift k' = g_shift k \<and> \<not> g_extended k' \<and>
     g_pressed k' = g_pressed k \<and> kbd_queue k' = kbd_queue k @ (if c = 0x0E then replicate n key else [])"
  using assms(1,2,6,7,9)
proof (induction n arbitrary: k)
  case (Suc n)
  let ?k = "keyboard_scancode k c"
  note low = scan_code_low [OF assms(3)]
  have key: "scan_key k c = (if c = 0x0E then key else 0)"
    using Suc.prems assms(3-5) by (simp add: scan_key_def is_repeatable_scancode_def)
  have st: "scan_state k c = k" using Suc.prems assms(3-5) low by (cases k) (auto simp: scan_state_def Let_def update_held)
  have k: "?k = (if c = 0x0E then put_key k key else k)" unfolding keyboard_scancode_eq st key using assms(8) by simp
  have flags: "g_shift ?k = g_shift k" "g_extended ?k = g_extended k" "g_pressed ?k = g_pressed k"
    by (simp_all add: k put_key_def Let_def)
  have q: "kbd_queue ?k = kbd_queue k @ (if c = 0x0E then [key] else [])"
    using keyboard_scancode_queue(2) [OF Suc.prems(1), of c] key assms(8) Suc.prems(5) by (auto simp: min_def)
  have "length (kbd_queue ?k) = kbd_count k + (if c = 0x0E then 1 else 0)" unfolding q by simp
  then have "c = 0x0E \<Longrightarrow> kbd_count ?k + n \<le> 255" using Suc.prems(5) by simp
  with Suc.IH [OF keyboard_scancode_queue(1) [OF Suc.prems(1), of c]] Suc.prems(2-4) flags
  have "\<exists>k'. scancodes ?k (replicate n c) = k' \<and> kbd_inv k' \<and> g_shift k' = g_shift k \<and> \<not> g_extended k' \<and>
     g_pressed k' = g_pressed k \<and> kbd_queue k' = kbd_queue ?k @ (if c = 0x0E then replicate n key else [])" by simp
  then show ?case unfolding q by (simp split: if_splits)
qed simp

text \<open>
  A key held down for any number of scan codes and then released gives its character once, backspace
  as often as its scan code came, with shift taken into account; the shift state is unchanged and the key
  counts as released again.
\<close>

theorem keyboard_typed:
  assumes "kbd_ok k" "\<not> g_extended k" "c AND 0x80 = 0" "c \<noteq> 0x2A" "c \<noteq> 0x36" "\<not> g_pressed k ! unat c"
    "key = (if g_shift k then g_map_shift else g_map) ! unat c" "key \<noteq> 0"
    "length (kbd_queue k) + Suc n \<le> 255"
  defines "k' \<equiv> scancodes k (replicate (Suc n) c @ [c OR 0x80])"
  shows "kbd_ok k' \<and> kbd_queue k' = kbd_queue k @ replicate (if c = 0x0E then Suc n else 1) key \<and>
     g_shift k' = g_shift k \<and> g_extended k' = g_extended k \<and> g_pressed k' = g_pressed k"
proof -
  note low = scan_code_low [OF assms(3)] and inv = assms(1) [unfolded kbd_ok_def, THEN conjunct1]
  have i: "unat c < length (g_pressed k)" using scan_code_less [OF assms(3)] inv by (simp add: kbd_inv_def)
  let ?k = "keyboard_scancode k c"
  have key: "scan_key k c = key" using assms(2-7) by (simp add: scan_key_def)
  have ne: "c \<noteq> 0xE0" using assms(3) by auto
  have k: "?k = put_key (k\<lparr>g_pressed := (g_pressed k)[unat c := True]\<rparr>) key"
    unfolding keyboard_scancode_eq key using assms(2-5,8) low ne by (cases k) (simp add: scan_state_def Let_def)
  have flags: "g_shift ?k = g_shift k" "\<not> g_extended ?k" "g_pressed ?k = (g_pressed k)[unat c := True]"
    using assms(2) by (simp_all add: k put_key_def Let_def)
  have q: "kbd_queue ?k = kbd_queue k @ [key]"
    using keyboard_scancode_queue(2) [OF inv, of c] key assms(8,9) by (auto simp: min_def)
  then have "kbd_count ?k = Suc (kbd_count k)" by (metis length_append_singleton length_kbd_queue)
  then have room: "kbd_count ?k + n \<le> 255" using assms(9) by simp
  have "g_pressed ?k ! unat c" "key = (if g_shift ?k then g_map_shift else g_map) ! unat c" using flags i assms(7) by simp_all
  from scancodes_held [OF keyboard_scancode_queue(1) [OF inv, of c] flags(2) assms(3-5) this assms(8) room] flags
  obtain h where h: "scancodes ?k (replicate n c) = h" "kbd_inv h" "g_shift h = g_shift k" "\<not> g_extended h"
    "g_pressed h = (g_pressed k)[unat c := True]" "kbd_queue h = kbd_queue ?k @ (if c = 0x0E then replicate n key else [])"
    by auto
  have rel: "(c OR 0x80) AND 0x80 \<noteq> 0" "(c OR 0x80) AND 0x7F = c" "c OR 0x80 \<noteq> 0xE0"
  proof -
    show r: "(c OR 0x80) AND 0x7F = c" using low by (simp add: bit.conj_disj_distrib2)
    have "((c OR 0x80) AND 0x80) = 0x80" using assms(3) by (simp add: bit.conj_disj_distrib2)
    then show "(c OR 0x80) AND 0x80 \<noteq> 0" by simp
    show "c OR 0x80 \<noteq> 0xE0"
    proof
      assume "c OR 0x80 = 0xE0"
      then have "c = 0x60" using r by simp
      then show False using assms(7,8) by (simp add: g_map_def g_map_shift_def chars_def split: if_splits)
    qed
  qed
  have "scan_key h (c OR 0x80) = 0" using rel(1) by (simp add: scan_key_def)
  then have k': "k' = h\<lparr>g_extended := False, g_pressed := (g_pressed h)[unat c := False]\<rparr>"
    using h(1) rel assms(4,5) by (simp add: k'_def keyboard_scancode_eq scan_state_def Let_def)
  have "(g_pressed k)[unat c := True, unat c := False] = g_pressed k" using assms(6) by (metis list_update_id list_update_overwrite)
  moreover have "key \<in> key_codes" using scan_key_code [of k c] key assms(8) by simp
  ultimately show ?thesis using h k' assms(1,2) q by (auto simp: kbd_ok_def kbd_inv_def kbd_queue_def kbd_count_def)
qed

lemma keyboard_typed_witness:
  "kbd_queue (scancodes kbd_zero (replicate 3 0x1E @ [0x9E])) = [97] \<and>
   kbd_queue (scancodes (kbd_zero\<lparr>g_shift := True\<rparr>) (replicate 1 0x1E @ [0x9E])) = [65] \<and>
   kbd_queue (scancodes kbd_zero [0x0E, 0x0E, 0x8E]) = [8, 8]"
proof -
  have 1: "kbd_ok (kbd_zero\<lparr>g_shift := True\<rparr>)" using kbd_zero_ok by (simp add: kbd_ok_def)
  have 2: "g_map ! 30 = 97" "g_map_shift ! 30 = 65" "g_map ! 14 = 8" by (simp_all add: g_map_def g_map_shift_def chars_def)
  from keyboard_typed [OF kbd_zero_ok(1), where c = "0x1E" and key = 97 and n = 2]
    keyboard_typed [OF 1, where c = "0x1E" and key = 65 and n = 0]
    keyboard_typed [OF kbd_zero_ok(1), where c = "0x0E" and key = 8 and n = 1] 2
  show ?thesis by (simp add: kbd_zero_fields)
qed

definition mouse_bytes :: "mouse \<Rightarrow> u8 list \<Rightarrow> mouse" where
  "mouse_bytes ms bs = foldl mouse_byte ms bs"

lemma sint_word_of_int_8:
  assumes "- 256 \<le> d" "d < 256"
  shows "sint (word_of_int d :: u8) = (if d < - 128 then d + 256 else if 128 \<le> d then d - 256 else d)"
proof -
  have "sint (word_of_int d :: u8) = signed_take_bit 7 d" by (simp add: sint_sbintrunc')
  also have "\<dots> = (d + 128) mod 256 - 128" by (simp add: signed_take_bit_eq_take_bit_shift take_bit_eq_mod)
  also have "\<dots> = (if d < - 128 then d + 256 else if 128 \<le> d then d - 256 else d)"
  proof (cases "d < - 128")
    case True
    then have "(d + 128 + 256) mod 256 = d + 128 + 256" using assms by (intro mod_pos_pos_trivial) auto
    then have "(d + 128) mod 256 = d + 128 + 256" unfolding mod_add_self2 .
    then show ?thesis using True by simp
  next
    case False
    have "(d - 128) mod 256 = (d + 128) mod 256" using mod_add_self2 [of "d - 128" 256] by (simp add: add.commute)
    then show ?thesis using False assms mod_pos_pos_trivial [of "d - 128" 256] mod_pos_pos_trivial [of "d + 128" 256]
      by (cases "128 \<le> d") auto
  qed
  finally show ?thesis .
qed

text \<open>
  Three bytes that report the movement \<open>dx\<close>, \<open>dy\<close> in the nine bit format of the mouse move the pointer.
  The movement is exact within -128 to 127; the driver does not use the sign bits of the first byte,
  so a faster movement is taken modulo 256 and moves the pointer in the opposite direction.
\<close>

theorem mouse_moves:
  assumes "g_mouse_cycle ms = 0" "flags AND 0x08 \<noteq> 0" "flags AND 0xC0 = 0"
    "- 256 \<le> dx" "dx < 256" "- 256 \<le> dy" "dy < 256"
  defines "ms' \<equiv> mouse_bytes ms [flags, word_of_int dx, word_of_int dy]"
    and "step \<equiv> \<lambda>d :: int. if d < - 128 then d + 256 else if 128 \<le> d then d - 256 else d"
  shows "g_mouse_x ms' = int32 (g_mouse_x ms + step dx) \<and> g_mouse_y ms' = int32 (g_mouse_y ms + step dy) \<and>
     g_mouse_buttons ms' = flags AND 0x07 \<and> g_mouse_cycle ms' = 0"
  using assms(1-3) sint_word_of_int_8 [OF assms(4,5)] sint_word_of_int_8 [OF assms(6,7)]
  by (cases "g_mouse_packet ms") (simp add: ms'_def step_def mouse_bytes_def mouse_byte_def Let_def)

lemma mouse_moves_witness:
  "g_mouse_x (mouse_bytes mouse_zero [0x09, word_of_int 200, word_of_int 5]) = - 56 \<and>
   g_mouse_y (mouse_bytes mouse_zero [0x09, word_of_int 200, word_of_int 5]) = 5"
  using mouse_moves [of mouse_zero "0x09" 200 5] by (simp add: mouse_zero_def int32_def)

end
