(* ===== verification/Devices.thy ===== *)
theory Devices
  imports Ports "HOL-Library.Monad_Syntax"
begin

text \<open>
  The small devices on I/O ports: the serial line (\<^verbatim>\<open>drivers/serial.c\<close>), the clock with its battery
  (\<^verbatim>\<open>drivers/rtc.c\<close>), the timer (\<^verbatim>\<open>kernel/pit.c\<close>) and the interrupt controllers
  (\<^verbatim>\<open>kernel/pic.c\<close>). The theorems run the drivers on emulated hardware: a UART that gets ready after a
  while and a CMOS memory behind an index port.
\<close>

section \<open>The serial line\<close>

definition COM1 :: u16 where "COM1 = 0x3F8"

definition serial_init :: "'h ports \<Rightarrow> 'h \<Rightarrow> 'h" where
  "serial_init io h =
     outbs io h [(COM1 + 1, 0x00), (COM1 + 3, 0x80), (COM1 + 0, 0x03), (COM1 + 1, 0x00), (COM1 + 3, 0x03), (COM1 + 2, 0xC7),
       (COM1 + 4, 0x0B)]"

definition serial_tx_ready :: "'h ports \<Rightarrow> 'h \<Rightarrow> bool \<times> 'h" where
  "serial_tx_ready io h = (case inb io h (COM1 + 5) of (v, h) \<Rightarrow> (v AND 0x20 \<noteq> 0, h))"

text \<open>The loop that waits for the transmitter; it ends only when the device gets ready.\<close>

partial_function (option) serial_wait :: "'h ports \<Rightarrow> 'h \<Rightarrow> 'h option" where
  "serial_wait io h = (case serial_tx_ready io h of (ready, h) \<Rightarrow> if ready then Some h else serial_wait io h)"

definition serial_send :: "'h ports \<Rightarrow> 'h \<Rightarrow> u8 \<Rightarrow> 'h option" where
  "serial_send io h c = do { h \<leftarrow> serial_wait io h; Some (outb io h COM1 c) }"

definition serial_putc :: "'h ports \<Rightarrow> 'h \<Rightarrow> u8 \<Rightarrow> 'h option" where
  "serial_putc io h c = do {
     h \<leftarrow> (if c = 10 then serial_send io h 13 else Some h);
     serial_send io h c }"

fun serial_print :: "'h ports \<Rightarrow> 'h \<Rightarrow> u8 list \<Rightarrow> 'h option" where
  "serial_print io h [] = Some h"
| "serial_print io h (c # s) = do { h \<leftarrow> serial_putc io h c; serial_print io h s }"

text \<open>\<open>i\<close> nibbles are left.\<close>

definition hex_chars :: "u8 list" where
  "hex_chars = [48, 49, 50, 51, 52, 53, 54, 55, 56, 57, 65, 66, 67, 68, 69, 70]"

fun hex_digits :: "u64 \<Rightarrow> nat \<Rightarrow> bool \<Rightarrow> u8 list" where
  "hex_digits v 0 started = []"
| "hex_digits v (Suc i) started =
     (let nibble = drop_bit (4 * i) v AND 0xF in
      if nibble \<noteq> 0 \<or> started \<or> i = 0 then hex_chars ! unat nibble # hex_digits v i True else hex_digits v i started)"

definition serial_hex_text :: "u64 \<Rightarrow> u8 list" where "serial_hex_text v = [48, 120] @ hex_digits v 16 False"

definition serial_print_hex :: "'h ports \<Rightarrow> 'h \<Rightarrow> u64 \<Rightarrow> 'h option" where
  "serial_print_hex io h v = serial_print io h (serial_hex_text v)"

function put_u64 :: "u64 \<Rightarrow> u8 list \<Rightarrow> u8 list" where
  "put_u64 v acc = (if v \<noteq> 0 then put_u64 (v div 10) ((48 + ucast (v mod 10)) # acc) else acc)"
  by pat_completeness auto
termination
  by (relation "measure (\<lambda>(v, acc). unat v)") (auto simp: unat_div unat_gt_0 intro!: div_less_dividend)

declare put_u64.simps [simp del]

definition dec_text :: "u64 \<Rightarrow> u8 list" where "dec_text v = put_u64 v (if v = 0 then [48] else [])"

definition serial_print_dec :: "'h ports \<Rightarrow> 'h \<Rightarrow> u64 \<Rightarrow> 'h option" where
  "serial_print_dec io h v = serial_print io h (dec_text v)"

section \<open>The clock\<close>

record rtc_time =
  seconds :: u8
  minutes :: u8
  hours :: u8
  day :: u8
  month :: u8
  year :: u16
  day_of_week :: u8

definition cmos_read :: "'h ports \<Rightarrow> 'h \<Rightarrow> u8 \<Rightarrow> u8 \<times> 'h" where
  "cmos_read io h reg = inb io (outb io h 0x70 reg) 0x71"

definition bcd_to_bin :: "u8 \<Rightarrow> u8" where
  "bcd_to_bin v = drop_bit 4 v * 10 + (v AND 0x0F)"

definition rtc_read_time :: "'h ports \<Rightarrow> 'h \<Rightarrow> rtc_time \<times> 'h" where
  "rtc_read_time io h =
     (let (reg_b, h) = cmos_read io h 0x0B;
          bcd = (reg_b AND 0x04 = 0);
          (sec, h) = cmos_read io h 0x00;
          (mins, h) = cmos_read io h 0x02;
          (hrs, h) = cmos_read io h 0x04;
          (wday, h) = cmos_read io h 0x06;
          (mday, h) = cmos_read io h 0x07;
          (mon, h) = cmos_read io h 0x08;
          (yr, h) = cmos_read io h 0x09;
          conv = (\<lambda>v. if bcd then bcd_to_bin v else v);
          hrs = conv hrs;
          hrs = (if reg_b AND 0x02 = 0 \<and> hrs AND 0x80 \<noteq> 0 then (hrs AND 0x7F) + 12 else hrs);
          hrs = hrs AND NOT 0x80;
          (century, h) = cmos_read io h 0x32;
          century = (if century \<noteq> 0 then conv century else 20)
      in (\<lparr>seconds = conv sec, minutes = conv mins, hours = hrs, day = conv mday, month = conv mon,
           year = ucast century * 100 + ucast (conv yr), day_of_week = conv wday\<rparr>, h))"

section \<open>The timer and the interrupt controllers\<close>

definition PIT_CH0 :: u16 where "PIT_CH0 = 0x40"
definition PIT_CMD :: u16 where "PIT_CMD = 0x43"
definition PIT_FREQ :: u32 where "PIT_FREQ = 1193182"

text \<open>A frequency of 0 is a division by zero.\<close>

definition pit_init :: "'h ports \<Rightarrow> 'h \<Rightarrow> u32 \<Rightarrow> 'h option" where
  "pit_init io h hz =
     (if hz = 0 then None
      else let divisor = PIT_FREQ div hz
           in Some (outbs io h [(PIT_CMD, 0x36), (PIT_CH0, ucast (divisor AND 0xFF)), (PIT_CH0, ucast (drop_bit 8 divisor AND 0xFF))]))"

definition PIC1_CMD :: u16 where "PIC1_CMD = 0x20"
definition PIC1_DATA :: u16 where "PIC1_DATA = 0x21"
definition PIC2_CMD :: u16 where "PIC2_CMD = 0xA0"
definition PIC2_DATA :: u16 where "PIC2_DATA = 0xA1"
definition PIC_EOI :: u8 where "PIC_EOI = 0x20"

definition pic_remap :: "'h ports \<Rightarrow> 'h \<Rightarrow> 'h" where
  "pic_remap io h =
     outbs io h [(PIC1_CMD, 0x11), (PIC2_CMD, 0x11), (PIC1_DATA, 0x20), (PIC2_DATA, 0x28), (PIC1_DATA, 0x04), (PIC2_DATA, 0x02),
       (PIC1_DATA, 0x01), (PIC2_DATA, 0x01), (PIC1_DATA, 0xF8), (PIC2_DATA, 0xEF)]"

definition pic_send_eoi :: "'h ports \<Rightarrow> 'h \<Rightarrow> int \<Rightarrow> 'h" where
  "pic_send_eoi io h irq =
     (let h = (if irq \<ge> 8 then outb io h PIC2_CMD PIC_EOI else h) in outb io h PIC1_CMD PIC_EOI)"

section \<open>A UART\<close>

text \<open>
  The transmitter is busy for \<open>uart_delay\<close> reads of the status register after every byte; \<open>uart_busy\<close> reads are left
  now. \<open>uart_line\<close> is what went out.
\<close>

record uart =
  uart_delay :: nat
  uart_busy :: nat
  uart_line :: "u8 list"

definition uart_ports :: "uart ports" where
  "uart_ports = \<lparr>inb = (\<lambda>h p. if p = COM1 + 5 then if uart_busy h = 0 then (0x60, h) else (0x40, h\<lparr>uart_busy := uart_busy h - 1\<rparr>) else (0, h)),
     outb = (\<lambda>h p v. if p = COM1 \<and> uart_busy h = 0 then h\<lparr>uart_line := uart_line h @ [v], uart_busy := uart_delay h\<rparr> else h),
     inw = (\<lambda>h p. (0, h)), outw = (\<lambda>h p v. h), inl = (\<lambda>h p. (0, h)), outl = (\<lambda>h p v. h)\<rparr>"

lemma uart_wait: "uart_busy h = n \<Longrightarrow> serial_wait uart_ports h = Some (h\<lparr>uart_busy := 0\<rparr>)"
proof (induction n arbitrary: h)
  case 0
  then show ?case by (subst serial_wait.simps) (simp add: serial_tx_ready_def uart_ports_def)
next
  case (Suc n)
  then show ?case
    using Suc.IH [of "h\<lparr>uart_busy := n\<rparr>"] by (subst serial_wait.simps) (simp add: serial_tx_ready_def uart_ports_def)
qed

lemma uart_send: "serial_send uart_ports h c = Some (h\<lparr>uart_line := uart_line h @ [c], uart_busy := uart_delay h\<rparr>)"
  using uart_wait [OF refl, of h] by (simp add: serial_send_def uart_ports_def)

text \<open>What arrives at the other end: a carriage return before every line feed.\<close>

fun crlf :: "u8 list \<Rightarrow> u8 list" where
  "crlf [] = []"
| "crlf (c # s) = (if c = 10 then [13, 10] else [c]) @ crlf s"

lemma uart_print: "s \<noteq> [] \<Longrightarrow> serial_print uart_ports h s = Some (h\<lparr>uart_line := uart_line h @ crlf s, uart_busy := uart_delay h\<rparr>)"
proof (induction s arbitrary: h)
  case (Cons c s)
  show ?case
    by (cases "s = []") (simp_all add: serial_putc_def uart_send Cons.IH)
qed simp

lemma uart_print_line: "\<exists>h'. serial_print uart_ports h s = Some h' \<and> uart_line h' = uart_line h @ crlf s"
  by (cases "s = []") (simp_all add: uart_print)

section \<open>Numbers as text\<close>

definition digits_value :: "nat \<Rightarrow> u8 list \<Rightarrow> nat" where
  "digits_value b s = foldl (\<lambda>n c. b * n + (unat c - (if c \<ge> 65 then 55 else 48))) 0 s"

lemma digits_value_simps:
  "digits_value b [] = 0" "digits_value b (s @ [c]) = b * digits_value b s + (unat c - (if c \<ge> 65 then 55 else 48))"
  by (simp_all add: digits_value_def)

lemma put_u64_append: "put_u64 v acc = put_u64 v [] @ acc"
proof (induction "unat v" arbitrary: v acc rule: less_induct)
  case less
  show ?case
  proof (cases "v = 0")
    case False
    let ?c = "48 + ucast (v mod 10) :: u8"
    have "unat (v div 10) < unat v" using False by (simp add: unat_div unat_gt_0)
    then have "put_u64 (v div 10) (?c # acc) = put_u64 (v div 10) [?c] @ acc"
      using less [of "v div 10" "?c # acc"] less [of "v div 10" "[?c]"] by simp
    then show ?thesis using False by (simp add: put_u64.simps [of v])
  qed (simp add: put_u64.simps)
qed

lemma dec_char: "unat (48 + ucast (v mod 10 :: u64) :: u8) = 48 + unat v mod 10"
proof -
  have "unat v mod 10 < 10" by simp
  moreover from this have "unat (ucast (v mod 10) :: u8) = unat v mod 10"
    by (simp add: unsigned_ucast_eq take_bit_eq_mod unat_mod)
  ultimately show ?thesis by (simp add: unat_word_ariths)
qed

text \<open>The decimal digits of a number that is not zero: its value, and its first digit.\<close>

lemma put_u64_digits:
  "v \<noteq> 0 \<Longrightarrow> put_u64 v [] \<noteq> [] \<and> digits_value 10 (put_u64 v []) = unat v \<and> hd (put_u64 v []) \<noteq> 48 \<and>
     (\<forall>c \<in> set (put_u64 v []). 48 \<le> unat c \<and> unat c \<le> 57)"
proof (induction "unat v" arbitrary: v rule: less_induct)
  case less
  let ?c = "48 + ucast (v mod 10) :: u8"
  have split: "put_u64 v [] = put_u64 (v div 10) [] @ [?c]"
    using less.prems put_u64_append [of "v div 10" "[?c]"] by (simp add: put_u64.simps [of v])
  have c: "unat ?c = 48 + unat v mod 10" by (rule dec_char)
  have range: "48 \<le> unat ?c \<and> unat ?c \<le> 57" using c by simp
  then have low: "\<not> ?c \<ge> 65" by (simp add: word_le_nat_alt)
  have val: "digits_value 10 (put_u64 v []) = 10 * digits_value 10 (put_u64 (v div 10) []) + unat v mod 10"
    unfolding split digits_value_simps using low c by simp
  show ?case
  proof (cases "v div 10 = 0")
    case True
    have "unat v div 10 = 0" using arg_cong [OF True, of unat] by (simp add: unat_div)
    then have v: "unat v mod 10 = unat v" by simp
    moreover have "unat v \<noteq> 0" using less.prems by (simp add: unat_eq_0)
    ultimately have "unat ?c \<noteq> 48" using c by simp
    then have "?c \<noteq> 48" by auto
    then show ?thesis using True val v range by (simp add: split put_u64.simps [of 0] digits_value_simps)
  next
    case False
    have "unat (v div 10) < unat v" using less.prems by (simp add: unat_div unat_gt_0)
    from less.hyps [OF this False]
    show ?thesis using val range by (auto simp: split unat_div)
  qed
qed

text \<open>The nibbles that are left below those already printed.\<close>

lemma hex_char: "n < 16 \<Longrightarrow> unat (hex_chars ! n) - (if hex_chars ! n \<ge> 65 then 55 else 48) = n"
proof -
  have "\<forall>n \<in> set [0..<16]. unat (hex_chars ! n) - (if hex_chars ! n \<ge> 65 then 55 else 48) = n"
    unfolding hex_chars_def by code_simp
  then show "n < 16 \<Longrightarrow> ?thesis" by simp
qed

lemma nibble_unat: "unat (drop_bit (4 * i) v AND 0xF :: u64) = unat v div 16 ^ i mod 16"
proof -
  have "drop_bit (4 * i) v AND 0xF = take_bit 4 (drop_bit (4 * i) v)"
    by (simp add: take_bit_eq_mask mask_numeral)
  moreover have "unat (take_bit 4 (drop_bit (4 * i) v)) = take_bit 4 (drop_bit (4 * i) (unat v))"
    by (simp only: unsigned_take_bit_eq unsigned_drop_bit_eq) (use unat_less_2p64 [of v] in \<open>simp add: take_bit_eq_mod\<close>)
  ultimately show ?thesis by (simp add: take_bit_eq_mod drop_bit_eq_div power_mult)
qed

lemma hex_digits_value:
  "started \<or> a = 0 \<Longrightarrow>
   foldl (\<lambda>n c. 16 * n + (unat c - (if c \<ge> 65 then 55 else 48))) a (hex_digits v n started) = a * 16 ^ n + unat v mod 16 ^ n"
proof (induction n arbitrary: a started)
  case (Suc n)
  let ?d = "unat v div 16 ^ n mod 16"
  have split: "unat v mod 16 ^ Suc n = ?d * 16 ^ n + unat v mod 16 ^ n"
    using mod_mult2_eq [of "unat v" "16 ^ n" 16] by (simp add: mult.commute)
  let ?nib = "drop_bit (4 * n) v AND 0xF :: u64"
  have nib: "unat ?nib = ?d" by (rule nibble_unat)
  show ?case
  proof (cases "?nib \<noteq> 0 \<or> started \<or> n = 0")
    case True
    have "hex_chars ! unat ?nib = hex_chars ! ?d" by (simp only: nib)
    moreover have "?d < 16" by simp
    ultimately have dig: "unat (hex_chars ! unat ?nib) - (if hex_chars ! unat ?nib \<ge> 65 then 55 else 48) = ?d" using hex_char by metis
    have "foldl (\<lambda>n c. 16 * n + (unat c - (if c \<ge> 65 then 55 else 48))) a (hex_digits v (Suc n) started) =
        foldl (\<lambda>n c. 16 * n + (unat c - (if c \<ge> 65 then 55 else 48))) (16 * a + ?d) (hex_digits v n True)"
      using True dig by (simp add: Let_def)
    also have "\<dots> = (16 * a + ?d) * 16 ^ n + unat v mod 16 ^ n" by (rule Suc.IH) simp
    finally show ?thesis unfolding split by (simp add: algebra_simps)
  next
    case False
    then have "?d = 0" using nib by (metis unat_0)
    then show ?thesis using False Suc.IH [of False a] Suc.prems unfolding split by (simp add: Let_def)
  qed
qed simp

lemma hex_digits_set: "10 \<notin> set (hex_digits v n started)"
proof (induction n arbitrary: started)
  case (Suc n)
  have "unat (drop_bit (4 * n) v AND 0xF) < 16" by (simp add: nibble_unat)
  moreover have "\<forall>k \<in> set [0..<16]. hex_chars ! k \<noteq> 10" unfolding hex_chars_def by code_simp
  ultimately have "hex_chars ! unat (drop_bit (4 * n) v AND 0xF) \<noteq> 10" by simp
  then show ?case using Suc by (simp add: Let_def)
qed simp

lemma no_newline: "10 \<notin> set s \<Longrightarrow> crlf s = s"
  by (induction s) auto

section \<open>A CMOS memory\<close>

record cmos =
  cidx :: u8
  cells :: "u8 \<Rightarrow> u8"

definition cmos_ports :: "cmos ports" where
  "cmos_ports = \<lparr>inb = (\<lambda>h p. if p = 0x71 then (cells h (cidx h), h) else (0, h)),
     outb = (\<lambda>h p v. if p = 0x70 then h\<lparr>cidx := v\<rparr> else h),
     inw = (\<lambda>h p. (0, h)), outw = (\<lambda>h p v. h), inl = (\<lambda>h p. (0, h)), outl = (\<lambda>h p v. h)\<rparr>"

lemma cmos_read_cell [simp]: "cmos_read cmos_ports h r = (cells h r, h\<lparr>cidx := r\<rparr>)"
  by (simp add: cmos_read_def cmos_ports_def)

text \<open>A number below 100 as the clock stores it.\<close>

definition stored :: "bool \<Rightarrow> nat \<Rightarrow> u8" where
  "stored bcd n = (if bcd then of_nat (16 * (n div 10) + n mod 10) else of_nat n)"

lemma bcd_stored: "n < 100 \<Longrightarrow> bcd_to_bin (stored True n) = of_nat n"
proof -
  have "\<forall>n \<in> set [0..<100]. bcd_to_bin (stored True n) = of_nat n" unfolding stored_def bcd_to_bin_def by code_simp
  then show "n < 100 \<Longrightarrow> ?thesis" by simp
qed

lemma low_hour: "n < 24 \<Longrightarrow> (of_nat n :: u8) AND NOT 0x80 = of_nat n"
proof -
  have "\<forall>n \<in> set [0..<24]. (of_nat n :: u8) AND NOT 0x80 = of_nat n" by code_simp
  then show "n < 24 \<Longrightarrow> ?thesis" by simp
qed

lemma bcd_pm: "0 < n \<Longrightarrow> n \<le> 12 \<Longrightarrow>
  bcd_to_bin (0x80 OR stored True n) AND 0x80 = 0 \<and> bcd_to_bin (0x80 OR stored True n) AND NOT 0x80 = of_nat (80 + n)"
proof -
  have "\<forall>n \<in> set [1..<13]. bcd_to_bin (0x80 OR stored True n) AND 0x80 = 0 \<and>
      bcd_to_bin (0x80 OR stored True n) AND NOT 0x80 = of_nat (80 + n)"
    unfolding stored_def bcd_to_bin_def by code_simp
  then show "0 < n \<Longrightarrow> n \<le> 12 \<Longrightarrow> ?thesis" by simp
qed

lemma stored_zero: "n < 100 \<Longrightarrow> stored b n = 0 \<longleftrightarrow> n = 0"
proof -
  have "\<forall>b \<in> {True, False}. \<forall>n \<in> set [0..<100]. stored b n = 0 \<longleftrightarrow> n = 0" unfolding stored_def by code_simp
  then show "n < 100 \<Longrightarrow> ?thesis" by (cases b) simp_all
qed

lemma stored_bin: "stored False n = of_nat n" by (simp add: stored_def)

section \<open>Properties\<close>

text \<open>
  Whatever time the UART takes for a byte, printing ends and sends exactly the text, with a carriage return
  before every line feed.
\<close>

theorem serial_prints: "\<exists>h'. serial_print uart_ports h s = Some h' \<and> uart_line h' = uart_line h @ crlf s"
  by (rule uart_print_line)

text \<open>
  Numbers are printed on the serial line so that they read back: in decimal without a leading zero, in
  hexadecimal behind 0x.
\<close>

theorem serial_prints_numbers:
  "(\<exists>h' ds. serial_print_dec uart_ports h v = Some h' \<and> uart_line h' = uart_line h @ ds \<and> ds \<noteq> [] \<and> digits_value 10 ds = unat v \<and>
      (hd ds = 48 \<longleftrightarrow> v = 0)) \<and>
   (\<exists>h' ds. serial_print_hex uart_ports h v = Some h' \<and> uart_line h' = uart_line h @ [48, 120] @ ds \<and> digits_value 16 ds = unat v)"
proof -
  have d: "\<exists>ds. dec_text v = ds \<and> ds \<noteq> [] \<and> digits_value 10 ds = unat v \<and> (hd ds = 48 \<longleftrightarrow> v = 0) \<and> 10 \<notin> set ds"
  proof (cases "v = 0")
    case False
    have "10 \<notin> set (put_u64 v [])" using put_u64_digits [OF False] by fastforce
    then show ?thesis using False put_u64_digits [OF False] by (simp add: dec_text_def)
  qed (simp add: dec_text_def put_u64.simps [of 0] digits_value_def)
  have x: "digits_value 16 (hex_digits v 16 False) = unat v"
    using hex_digits_value [of False 0 v 16] unat_less_2p64 [of v] by (simp add: digits_value_def)
  show ?thesis
    using d x hex_digits_set [of v 16 False] uart_print_line [of h "dec_text v"] uart_print_line [of h "serial_hex_text v"]
    by (auto simp: serial_print_dec_def serial_print_hex_def serial_hex_text_def no_newline simp del: serial_print.simps)
qed

text \<open>A clock in 24 hour mode is read correctly, in binary and in BCD, with the century of its register or 20.\<close>

theorem rtc_reads_time:
  fixes h :: cmos
  defines "bcd \<equiv> cells h 0x0B AND 0x04 = 0"
  assumes "cells h 0x0B AND 0x02 \<noteq> 0" "sec < 60" "mins < 60" "hrs < 24" "mday < 32" "mon < 13" "yr < 100" "century < 100" "wday < 8"
    and "cells h 0x00 = stored bcd sec" "cells h 0x02 = stored bcd mins" "cells h 0x04 = stored bcd hrs" "cells h 0x06 = stored bcd wday"
    "cells h 0x07 = stored bcd mday" "cells h 0x08 = stored bcd mon" "cells h 0x09 = stored bcd yr" "cells h 0x32 = stored bcd century"
  shows "fst (rtc_read_time cmos_ports h) =
    \<lparr>seconds = of_nat sec, minutes = of_nat mins, hours = of_nat hrs, day = of_nat mday, month = of_nat mon,
     year = of_nat ((if century = 0 then 20 else century) * 100 + yr), day_of_week = of_nat wday\<rparr>"
proof -
  have b: "(cells h 0x0B AND 0x04 = 0) = bcd" by (simp add: bcd_def)
  have c: "ucast (of_nat n :: u8) = (of_nat n :: u16)" if "n < 100" for n
    using that by (simp add: word_unat_eq_iff unsigned_ucast_eq take_bit_eq_mod unat_of_nat)
  show ?thesis
    using assms(2-) low_hour [of hrs]
    by (simp add: rtc_read_time_def Let_def b stored_zero bcd_stored stored_bin c)
qed

text \<open>
  In 12 hour mode with BCD digits the hours of the afternoon are wrong: the bit for PM is read as a digit,
  and one o'clock becomes 81.
\<close>

theorem rtc_afternoon:
  fixes h :: cmos
  assumes "cells h 0x0B AND 0x02 = 0" "cells h 0x0B AND 0x04 = 0" "0 < hour" "hour \<le> 12" "cells h 0x04 = 0x80 OR stored True hour"
  shows "hours (fst (rtc_read_time cmos_ports h)) = of_nat (80 + hour)"
  using assms bcd_pm [OF assms(3,4)] by (simp add: rtc_read_time_def Let_def)

text \<open>Two clocks: 23:59:58 on 31 December 1999 in BCD, and one o'clock in the afternoon in 12 hour mode.\<close>

definition clock99 :: cmos where
  "clock99 = \<lparr>cidx = 0, cells = (\<lambda>_. 0)(0x0B := 0x02, 0x00 := 0x58, 0x02 := 0x59, 0x04 := 0x23, 0x06 := 0x05, 0x07 := 0x31,
     0x08 := 0x12, 0x09 := 0x99, 0x32 := 0x19)\<rparr>"

lemma rtc_reads_time_witness: "year (fst (rtc_read_time cmos_ports clock99)) = 1999 \<and> hours (fst (rtc_read_time cmos_ports clock99)) = 23"
  using rtc_reads_time [of clock99 58 59 23 31 12 99 19 5] by (simp add: clock99_def stored_def)

lemma rtc_afternoon_witness:
  "hours (fst (rtc_read_time cmos_ports \<lparr>cidx = 0, cells = (\<lambda>_. 0)(0x04 := 0x81)\<rparr>)) = 81"
  using rtc_afternoon [of "\<lparr>cidx = 0, cells = (\<lambda>_. 0)(0x04 := 0x81)\<rparr>" 1] by (simp add: stored_def)

end
