(* ===== verification/Pci.thy ===== *)
theory Pci
  imports Devices Bytes
begin

text \<open>
  Finding the hardware: the PCI bus (\<^verbatim>\<open>drivers/pci.c\<close>) and the ACPI tables
  (\<^verbatim>\<open>drivers/acpi.c\<close>). The recursion of \<open>pci_check_bus\<close> over bridges follows what the hardware
  reports and need not end: its depth is an argument, and \<open>None\<close> is a stack that is too small. The
  messages on the serial line are left out, except \<open>pci_print_device\<close>, which is given as its text.
\<close>

section \<open>Configuration space\<close>

definition PCI_CONFIG_ADDR :: u16 where "PCI_CONFIG_ADDR = 0xCF8"
definition PCI_CONFIG_DATA :: u16 where "PCI_CONFIG_DATA = 0xCFC"
definition PCI_VENDOR_NONE :: u16 where "PCI_VENDOR_NONE = 0xFFFF"
definition PCI_CLASS_DISPLAY :: u8 where "PCI_CLASS_DISPLAY = 0x03"
definition PCI_VENDOR_INTEL :: u16 where "PCI_VENDOR_INTEL = 0x8086"
definition PCI_VENDOR_NVIDIA :: u16 where "PCI_VENDOR_NVIDIA = 0x10DE"
definition PCI_VENDOR_AMD :: u16 where "PCI_VENDOR_AMD = 0x1002"
definition MAX_DEVICES :: nat where "MAX_DEVICES = 256"

definition pci_make_addr :: "u8 \<Rightarrow> u8 \<Rightarrow> u8 \<Rightarrow> u8 \<Rightarrow> u32" where
  "pci_make_addr bus dev func off =
     0x80000000 OR push_bit 16 (ucast bus) OR push_bit 11 (ucast dev) OR push_bit 8 (ucast func) OR ucast (off AND 0xFC)"

definition pci_read_config :: "'h ports \<Rightarrow> u8 \<Rightarrow> u8 \<Rightarrow> u8 \<Rightarrow> u8 \<Rightarrow> 'h \<Rightarrow> u32 \<times> 'h" where
  "pci_read_config io bus dev func off h = inl io (outl io h PCI_CONFIG_ADDR (pci_make_addr bus dev func off)) PCI_CONFIG_DATA"

definition pci_write_config :: "'h ports \<Rightarrow> u8 \<Rightarrow> u8 \<Rightarrow> u8 \<Rightarrow> u8 \<Rightarrow> u32 \<Rightarrow> 'h \<Rightarrow> 'h" where
  "pci_write_config io bus dev func off v h =
     outl io (outl io h PCI_CONFIG_ADDR (pci_make_addr bus dev func off)) PCI_CONFIG_DATA v"

text \<open>The packed structure of 64 bytes, as it lies over the 16 double words.\<close>

record pci_header =
  vendor_id :: u16
  h_device_id :: u16
  command :: u16
  h_status :: u16
  revision_id :: u8
  h_prog_if :: u8
  h_subclass :: u8
  h_class_code :: u8
  cache_line_size :: u8
  latency_timer :: u8
  header_type :: u8
  bist :: u8
  bar :: "u32 list"
  cardbus_cis :: u32
  subsystem_vendor :: u16
  subsystem_id :: u16
  expansion_rom :: u32
  capabilities :: u8
  reserved :: "u8 list"
  interrupt_line :: u8
  interrupt_pin :: u8
  min_grant :: u8
  max_latency :: u8

definition header_bytes :: "u8 list \<Rightarrow> pci_header" where
  "header_bytes b = \<lparr>vendor_id = get_le 2 b 0, h_device_id = get_le 2 b 2, command = get_le 2 b 4, h_status = get_le 2 b 6,
     revision_id = b ! 8, h_prog_if = b ! 9, h_subclass = b ! 10, h_class_code = b ! 11, cache_line_size = b ! 12,
     latency_timer = b ! 13, header_type = b ! 14, bist = b ! 15, bar = map (\<lambda>i. get_le 4 b (16 + 4 * i)) [0..<6],
     cardbus_cis = get_le 4 b 40, subsystem_vendor = get_le 2 b 44, subsystem_id = get_le 2 b 46, expansion_rom = get_le 4 b 48,
     capabilities = b ! 52, reserved = take 7 (drop 53 b), interrupt_line = b ! 60, interrupt_pin = b ! 61, min_grant = b ! 62,
     max_latency = b ! 63\<rparr>"

fun read_dwords :: "'h ports \<Rightarrow> u8 \<Rightarrow> u8 \<Rightarrow> u8 \<Rightarrow> nat list \<Rightarrow> 'h \<Rightarrow> u8 list \<times> 'h" where
  "read_dwords io bus dev func [] h = ([], h)"
| "read_dwords io bus dev func (i # is) h =
     (let (v, h) = pci_read_config io bus dev func (of_nat (i * 4)) h; (bs, h) = read_dwords io bus dev func is h
      in (le_bytes 4 v @ bs, h))"

definition pci_read_header :: "'h ports \<Rightarrow> u8 \<Rightarrow> u8 \<Rightarrow> u8 \<Rightarrow> 'h \<Rightarrow> pci_header \<times> 'h" where
  "pci_read_header io bus dev func h = (case read_dwords io bus dev func [0..<16] h of (bs, h) \<Rightarrow> (header_bytes bs, h))"

section \<open>Enumeration\<close>

record pci_device =
  d_bus :: u8
  d_device :: u8
  d_func :: u8
  d_vendor :: u16
  d_device_id :: u16
  d_class_code :: u8
  d_subclass :: u8
  d_prog_if :: u8
  d_config :: pci_header

record gpu_info =
  gi_vendor :: u16
  gi_device_id :: u16
  gi_bar0 :: u32
  gi_irq :: u8
  is_intel :: bool
  is_nvidia :: bool
  is_amd :: bool

text \<open>\<open>g_pci_devices\<close> holds the first \<open>g_pci_count\<close> entries of the array.\<close>

record pci =
  g_pci_devices :: "pci_device list"
  g_gpu_info :: "gpu_info option"

definition pci_device_of :: "u8 \<Rightarrow> u8 \<Rightarrow> u8 \<Rightarrow> pci_header \<Rightarrow> pci_device" where
  "pci_device_of bus dev func hdr =
     \<lparr>d_bus = bus, d_device = dev, d_func = func, d_vendor = vendor_id hdr, d_device_id = h_device_id hdr,
      d_class_code = h_class_code hdr, d_subclass = h_subclass hdr, d_prog_if = h_prog_if hdr, d_config = hdr\<rparr>"

text \<open>\<open>check_bus\<close> is \<open>pci_check_bus\<close>, called for the bus behind a bridge.\<close>

definition pci_check_func ::
    "'h ports \<Rightarrow> (u8 \<Rightarrow> 'h \<times> pci \<Rightarrow> ('h \<times> pci) option) \<Rightarrow> u8 \<Rightarrow> u8 \<Rightarrow> u8 \<Rightarrow> 'h \<times> pci \<Rightarrow> ('h \<times> pci) option" where
  "pci_check_func io check_bus bus dev func s =
     (case s of (h, p) \<Rightarrow>
        let (hdr, h) = pci_read_header io bus dev func h in
        if vendor_id hdr = 0 \<or> vendor_id hdr = PCI_VENDOR_NONE then Some (h, p)
        else if length (g_pci_devices p) \<ge> MAX_DEVICES then Some (h, p)
        else
          let p = p\<lparr>g_pci_devices := g_pci_devices p @ [pci_device_of bus dev func hdr]\<rparr> in
          if h_class_code hdr = 0x06 \<and> h_subclass hdr = 0x04 then
            let (bus_reg, h) = pci_read_config io bus dev func 0x44 h; secondary_bus = ucast (drop_bit 8 bus_reg AND 0xFF)
            in if secondary_bus \<noteq> bus then check_bus secondary_bus (h, p) else Some (h, p)
          else Some (h, p))"

fun fold_opt :: "('a \<Rightarrow> 's \<Rightarrow> 's option) \<Rightarrow> 'a list \<Rightarrow> 's \<Rightarrow> 's option" where
  "fold_opt f [] s = Some s"
| "fold_opt f (x # xs) s = (case f x s of None \<Rightarrow> None | Some s \<Rightarrow> fold_opt f xs s)"

definition pci_check_device ::
    "'h ports \<Rightarrow> (u8 \<Rightarrow> 'h \<times> pci \<Rightarrow> ('h \<times> pci) option) \<Rightarrow> u8 \<Rightarrow> u8 \<Rightarrow> 'h \<times> pci \<Rightarrow> ('h \<times> pci) option" where
  "pci_check_device io check_bus bus dev s =
     (case s of (h, p) \<Rightarrow>
        let (hdr, h) = pci_read_header io bus dev 0 h in
        if vendor_id hdr = 0 \<or> vendor_id hdr = PCI_VENDOR_NONE then Some (h, p)
        else do {
          s \<leftarrow> pci_check_func io check_bus bus dev 0 (h, p);
          if header_type hdr AND 0x80 \<noteq> 0
          then fold_opt (\<lambda>func. pci_check_func io check_bus bus dev (of_nat func)) [1..<8] s
          else Some s })"

primrec pci_check_bus :: "'h ports \<Rightarrow> nat \<Rightarrow> u8 \<Rightarrow> 'h \<times> pci \<Rightarrow> ('h \<times> pci) option" where
  "pci_check_bus io 0 = (\<lambda>bus s. None)"
| "pci_check_bus io (Suc depth) =
     (\<lambda>bus. fold_opt (\<lambda>dev. pci_check_device io (pci_check_bus io depth) bus (of_nat dev)) [0..<32])"

definition pci_enumerate :: "'h ports \<Rightarrow> nat \<Rightarrow> 'h \<times> pci \<Rightarrow> ('h \<times> pci) option" where
  "pci_enumerate io depth s =
     (case s of (h, p) \<Rightarrow>
        let p = p\<lparr>g_pci_devices := []\<rparr>; (hdr, h) = pci_read_header io 0 0 0 h in
        if header_type hdr AND 0x80 \<noteq> 0 then
          fold_opt (\<lambda>func (h, p).
            let (v, h) = pci_read_config io 0 0 (of_nat func) 0 h; vendor = v AND 0xFFFF
            in if vendor \<noteq> ucast PCI_VENDOR_NONE then pci_check_bus io depth (of_nat func) (h, p) else Some (h, p)) [0..<8] (h, p)
        else pci_check_bus io depth 0 (h, p))"

definition pci_find_gpu :: "pci \<Rightarrow> gpu_info option \<times> pci" where
  "pci_find_gpu p =
     (case g_gpu_info p of Some gi \<Rightarrow> (Some gi, p)
      | None \<Rightarrow>
        (case find (\<lambda>d. d_class_code d = PCI_CLASS_DISPLAY) (g_pci_devices p) of
           None \<Rightarrow> (None, p)
         | Some d \<Rightarrow>
             let gi = \<lparr>gi_vendor = d_vendor d, gi_device_id = d_device_id d, gi_bar0 = bar (d_config d) ! 0 AND 0xFFFFFFF0,
                   gi_irq = interrupt_line (d_config d), is_intel = (d_vendor d = PCI_VENDOR_INTEL),
                   is_nvidia = (d_vendor d = PCI_VENDOR_NVIDIA), is_amd = (d_vendor d = PCI_VENDOR_AMD)\<rparr>
             in (Some gi, p\<lparr>g_gpu_info := Some gi\<rparr>)))"

definition pci_print_device :: "pci_device \<Rightarrow> u8 list" where
  "pci_print_device d =
     [32, 32] @ serial_hex_text (ucast (d_bus d)) @ [58] @ serial_hex_text (ucast (d_device d)) @ [58] @ serial_hex_text (ucast (d_func d)) @ [32, 32] @
     serial_hex_text (ucast (d_vendor d)) @ [58] @ serial_hex_text (ucast (d_device_id d)) @ [32, 32] @ serial_hex_text (ucast (d_class_code d)) @ [46] @
     serial_hex_text (ucast (d_subclass d)) @ [46] @ serial_hex_text (ucast (d_prog_if d)) @ [10]"

section \<open>ACPI\<close>

record acpi =
  pm1a_cnt :: u32
  pm1b_cnt :: u32

definition ACPI_RSDP_SIG :: "u8 list" where "ACPI_RSDP_SIG = map of_char ''RSD PTR ''"
definition ACPI_FADT_SIG :: "u8 list" where "ACPI_FADT_SIG = map of_char ''FACP''"

definition mem_bytes :: "mem \<Rightarrow> u64 \<Rightarrow> nat \<Rightarrow> u8 list" where
  "mem_bytes m a n = map (\<lambda>i. m (a + of_nat i)) [0..<n]"

definition acpi_checksum :: "mem \<Rightarrow> u64 \<Rightarrow> nat \<Rightarrow> u8" where
  "acpi_checksum m a n = foldl (+) 0 (mem_bytes m a n)"

text \<open>The addresses are tried in steps of 16 bytes.\<close>

definition is_rsdp :: "mem \<Rightarrow> u64 \<Rightarrow> bool" where
  "is_rsdp m a \<longleftrightarrow> mem_bytes m a 8 = ACPI_RSDP_SIG \<and> acpi_checksum m a 20 = 0"

definition find_rsdp_in_region :: "mem \<Rightarrow> u64 \<Rightarrow> nat \<Rightarrow> u32" where
  "find_rsdp_in_region m base n =
     (case find (\<lambda>i. is_rsdp m (base + of_nat (16 * i))) [0..<(n + 15) div 16] of
        None \<Rightarrow> 0 | Some i \<Rightarrow> ucast (base + of_nat (16 * i)))"

definition find_rsdp :: "mem \<Rightarrow> u32" where
  "find_rsdp m =
     (let ebda_seg = load_le 2 m 0x40E :: u16; ebda = push_bit 4 (ucast ebda_seg) :: u32;
          addr = (if ebda \<noteq> 0 \<and> ebda < 0xA0000 then find_rsdp_in_region m (ucast ebda) 0x400 else 0)
      in if addr \<noteq> 0 then addr else find_rsdp_in_region m 0xE0000 0x20000)"

text \<open>Element \<open>i\<close> of the array of 32 bit numbers at an address.\<close>

definition dword_at :: "mem \<Rightarrow> u32 \<Rightarrow> nat \<Rightarrow> u32" where
  "dword_at m a i = load_le 4 m (ucast a + of_nat (4 * i))"

definition find_fadt :: "mem \<Rightarrow> u32 \<Rightarrow> u32" where
  "find_fadt m rsdt_addr =
     (if rsdt_addr = 0 \<or> rsdt_addr \<ge> 0x100000 then 0
      else
        let len = dword_at m rsdt_addr 1 in
        if len < 36 \<or> len > 0x10000 then 0
        else
          let count = (len - 36) div 4; count = (if count > 128 then 128 else count) in
          case find (\<lambda>a. a \<noteq> 0 \<and> a < 0x100000 \<and> mem_bytes m (ucast a) 4 = ACPI_FADT_SIG)
              (map (\<lambda>i. dword_at m rsdt_addr (9 + i)) [0..<unat count]) of
            None \<Rightarrow> 0 | Some a \<Rightarrow> a)"

definition acpi_init :: "mem \<Rightarrow> acpi \<Rightarrow> acpi" where
  "acpi_init m a =
     (let rsdp_addr = find_rsdp m in
      if rsdp_addr = 0 then a
      else
        let rsdt_addr = load_le 4 m (ucast (rsdp_addr + 16)) in
        if rsdt_addr = 0 then a
        else
          let fadt_addr = find_fadt m rsdt_addr in
          if fadt_addr = 0 then a
          else a\<lparr>pm1a_cnt := dword_at m fadt_addr 13, pm1b_cnt := dword_at m fadt_addr 14\<rparr>)"

text \<open>Both halt the processor in the end: the value is the state of the hardware then.\<close>

definition acpi_shutdown :: "'h ports \<Rightarrow> acpi \<Rightarrow> 'h \<Rightarrow> 'h" where
  "acpi_shutdown io a h =
     (let h = (if pm1a_cnt a \<noteq> 0 then outw io h (ucast (pm1a_cnt a)) 0x2000 else h);
          h = (if pm1b_cnt a \<noteq> 0 then outw io h (ucast (pm1b_cnt a)) 0x2000 else h)
      in outw io h 0x604 0x2000)"

partial_function (option) reboot_wait :: "'h ports \<Rightarrow> u8 \<Rightarrow> 'h \<Rightarrow> 'h option" where
  "reboot_wait io good h =
     (if good AND 0x02 \<noteq> 0 then (case inb io h 0x64 of (good, h) \<Rightarrow> reboot_wait io good h) else Some h)"

definition acpi_reboot :: "'h ports \<Rightarrow> 'h \<Rightarrow> 'h option" where
  "acpi_reboot io h = do { h \<leftarrow> reboot_wait io 0x02 h; Some (outb io h 0x64 0xFE) }"

end
