(* ===== verification/KShell.thy ===== *)
theory KShell
  imports Terminal Input Elf Pci Net
begin

text \<open>
  The shell of the kernel, \<^verbatim>\<open>kernel/shell.c\<close>: the line editor and its history, numbers and addresses, the
  resolution of paths, and the commands on files. Strings are the lists of their bytes before the zero; the
  buffer that is being edited is the array of all of its bytes. Indices and counters of type \<open>int\<close> are natural numbers.
\<close>

section \<open>The line editor\<close>

definition SHELL_LINE_MAX :: nat where "SHELL_LINE_MAX = 256"
definition SHELL_TOKEN_MAX :: nat where "SHELL_TOKEN_MAX = 16"
definition HIST_MAX :: nat where "HIST_MAX = 8"

definition text_of :: "string \<Rightarrow> u8 list" where "text_of s = map of_char s"

record line_ed =
  lbuf :: "u8 list"
  lpos :: nat
  lcpos :: nat

text \<open>The loops that move the rest of the line by one character.\<close>

fun shift_right :: "u8 list \<Rightarrow> nat \<Rightarrow> nat \<Rightarrow> u8 list" where
  "shift_right xs 0 c = xs"
| "shift_right xs (Suc i) c = (if Suc i > c then shift_right (xs[Suc i := xs ! i]) i c else xs)"

definition shift_left :: "u8 list \<Rightarrow> nat \<Rightarrow> nat \<Rightarrow> u8 list" where
  "shift_left xs a b = fold (\<lambda>i xs. xs[i := xs ! (i + 1)]) [a..<b] xs"

definition shell_insert_char :: "line_ed \<Rightarrow> int \<Rightarrow> nat \<Rightarrow> line_ed" where
  "shell_insert_char e ch mx =
     (if lpos e + 1 \<ge> mx then e
      else let xs = (shift_right (lbuf e) (lpos e) (lcpos e))[lcpos e := word_of_int ch]; pos = lpos e + 1
           in \<lparr>lbuf = xs[pos := 0], lpos = pos, lcpos = lcpos e + 1\<rparr>)"

definition shell_backspace_char :: "line_ed \<Rightarrow> line_ed" where
  "shell_backspace_char e =
     (if lcpos e = 0 then e
      else let xs = shift_left (lbuf e) (lcpos e - 1) (lpos e - 1); pos = lpos e - 1
           in \<lparr>lbuf = xs[pos := 0], lpos = pos, lcpos = lcpos e - 1\<rparr>)"

definition shell_delete_char :: "line_ed \<Rightarrow> line_ed" where
  "shell_delete_char e =
     (if lcpos e \<ge> lpos e then e
      else let xs = shift_left (lbuf e) (lcpos e) (lpos e - 1); pos = lpos e - 1
           in \<lparr>lbuf = xs[pos := 0], lpos = pos, lcpos = lcpos e\<rparr>)"

section \<open>The display of the line\<close>

definition shell_print_prompt :: "gpu \<Rightarrow> gpu" where
  "shell_print_prompt g =
     (let g = gpu_print (gpu_set_color g 0x0A 0x00) (text_of ''epona@epona'');
          g = gpu_print (gpu_set_color g 0x0F 0x00) (text_of '':'');
          g = gpu_print (gpu_set_color g 0x0B 0x00) (text_of ''~'')
      in gpu_print (gpu_set_color g 0x0F 0x00) (text_of ''$ ''))"

definition shell_redraw_line :: "gpu \<Rightarrow> u8 list \<Rightarrow> nat \<Rightarrow> nat \<Rightarrow> gpu" where
  "shell_redraw_line g xs pos cpos =
     (let plen = length (takeWhile (\<lambda>c. c \<noteq> 0) xs); pcols = 15; cols = unat (gpu_console_cols g) - 1;
          g = shell_print_prompt (gpu_print g [13]);
          g = foldl gpu_putc g (take plen xs);
          g = foldl gpu_putc g (replicate (cols - (pcols + plen)) 32);
          g = shell_print_prompt (gpu_print g [13])
      in foldl gpu_putc g (take cpos xs))"

section \<open>The history\<close>

record hist =
  g_history :: "u8 list list"
  g_hist_count :: nat
  g_hist_idx :: nat

definition history_add :: "hist \<Rightarrow> u8 list \<Rightarrow> hist" where
  "history_add h line =
     (if line = [] then h
      else if g_hist_count h > 0 \<and> g_history h ! ((g_hist_count h - 1) mod HIST_MAX) = line then h
      else let i = g_hist_count h mod HIST_MAX
           in \<lparr>g_history = (g_history h)[i := take (SHELL_LINE_MAX - 1) line], g_hist_count = g_hist_count h + 1,
               g_hist_idx = g_hist_count h + 1\<rparr>)"

definition history_get :: "hist \<Rightarrow> nat \<Rightarrow> u8 list" where
  "history_get h i = (if i \<ge> g_hist_count h then [] else g_history h ! (i mod HIST_MAX))"

section \<open>Reading a line\<close>

record rl =
  ed :: line_ed
  rhist :: hist
  rgpu :: gpu

definition redraw :: "rl \<Rightarrow> rl" where
  "redraw s = s\<lparr>rgpu := shell_redraw_line (rgpu s) (lbuf (ed s)) (lpos (ed s)) (lcpos (ed s))\<rparr>"

text \<open>The line of the history that \<open>up\<close> or \<open>down\<close> has selected replaces the line.\<close>

definition load_line :: "line_ed \<Rightarrow> u8 list \<Rightarrow> nat \<Rightarrow> line_ed" where
  "load_line e h mx =
     (let hl = (if length h \<ge> mx then mx - 1 else length h)
      in \<lparr>lbuf = (take hl h @ drop hl (lbuf e))[hl := 0], lpos = hl, lcpos = hl\<rparr>)"

text \<open>What \<open>readline\<close> does with a key other than the end of the line.\<close>

definition readline_key :: "nat \<Rightarrow> rl \<Rightarrow> int \<Rightarrow> rl" where
  "readline_key mx s c =
     (let e = ed s in
      if c = 8 then if lcpos e > 0 then redraw (s\<lparr>ed := shell_backspace_char e\<rparr>) else s
      else if c = KEY_DEL then redraw (s\<lparr>ed := shell_delete_char e\<rparr>)
      else if c = 9 then s
      else if c = 3 then
        redraw (s\<lparr>rgpu := gpu_print (rgpu s) (text_of ''^C'' @ [10]), ed := \<lparr>lbuf = (lbuf e)[0 := 0], lpos = 0, lcpos = 0\<rparr>\<rparr>)
      else if c = KEY_LEFT then if lcpos e > 0 then redraw (s\<lparr>ed := e\<lparr>lcpos := lcpos e - 1\<rparr>\<rparr>) else s
      else if c = KEY_RIGHT then if lcpos e < lpos e then redraw (s\<lparr>ed := e\<lparr>lcpos := lcpos e + 1\<rparr>\<rparr>) else s
      else if c = KEY_HOME then redraw (s\<lparr>ed := e\<lparr>lcpos := 0\<rparr>\<rparr>)
      else if c = KEY_END then redraw (s\<lparr>ed := e\<lparr>lcpos := lpos e\<rparr>\<rparr>)
      else if c = KEY_UP \<or> c = KEY_DOWN then
        let h = rhist s in
        if c = KEY_UP \<and> g_hist_idx h > 0 then
          let h = h\<lparr>g_hist_idx := g_hist_idx h - 1\<rparr> in redraw (s\<lparr>rhist := h, ed := load_line e (history_get h (g_hist_idx h)) mx\<rparr>)
        else if c = KEY_DOWN \<and> g_hist_idx h < g_hist_count h then
          let h = h\<lparr>g_hist_idx := g_hist_idx h + 1\<rparr> in redraw (s\<lparr>rhist := h, ed := load_line e (history_get h (g_hist_idx h)) mx\<rparr>)
        else s
      else if 32 \<le> c \<and> c < 127 \<and> lpos e + 1 < mx then redraw (s\<lparr>ed := shell_insert_char e c mx\<rparr>)
      else s)"

text \<open>The keys come from \<open>keyboard_getc\<close>, 0 while none waits; \<open>None\<close> means that the line is not complete yet.\<close>

fun readline_loop :: "nat \<Rightarrow> rl \<Rightarrow> int list \<Rightarrow> (rl \<times> int list) option" where
  "readline_loop mx s [] = None"
| "readline_loop mx s (c # cs) =
     (if c = 0 then readline_loop mx s cs
      else if c = 10 then
        Some (s\<lparr>rgpu := gpu_putc (rgpu s) 10, ed := (ed s)\<lparr>lbuf := (lbuf (ed s))[lpos (ed s) := 0]\<rparr>\<rparr>, cs)
      else readline_loop mx (readline_key mx s c) cs)"

definition readline :: "nat \<Rightarrow> rl \<Rightarrow> int list \<Rightarrow> (rl \<times> int list) option" where
  "readline mx s cs = readline_loop mx (s\<lparr>ed := \<lparr>lbuf = (lbuf (ed s))[0 := 0], lpos = 0, lcpos = 0\<rparr>\<rparr>) cs"

section \<open>Numbers, addresses and words\<close>

definition ip_part :: "u8 \<Rightarrow> u8 list" where
  "ip_part n = (if n \<ge> 100 then [48 + n div 100] else []) @ (if n \<ge> 10 then [48 + (n div 10) mod 10] else []) @ [48 + n mod 10]"

definition print_ip :: "u32 \<Rightarrow> u8 list" where
  "print_ip ip =
     (let part = \<lambda>k. ip_part (ucast (drop_bit (8 * k) ip AND 0xFF))
      in part 0 @ [46] @ part 1 @ [46] @ part 2 @ [46] @ part 3)"

definition print_u64 :: "u64 \<Rightarrow> u8 list" where
  "print_u64 v = put_u64 v (if v = 0 then [48] else [])"

definition is_digit :: "u8 \<Rightarrow> bool" where "is_digit c \<longleftrightarrow> 48 \<le> c \<and> c \<le> 57"

fun ip_digits :: "int \<Rightarrow> u8 list \<Rightarrow> (int \<times> u8 list) option" where
  "ip_digits n [] = Some (n, [])"
| "ip_digits n (c # s) =
     (if is_digit c then let n = n * 10 + (uint c - 48) in if n > 255 then None else ip_digits n s
      else Some (n, c # s))"

text \<open>The parts from \<open>part\<close> on; \<open>k\<close> is the number of parts left.\<close>

fun ip_parts :: "nat \<Rightarrow> nat \<Rightarrow> u8 list \<Rightarrow> u32 \<Rightarrow> u32 option" where
  "ip_parts 0 part s ip = Some ip"
| "ip_parts (Suc k) part s ip =
     (if s = [] \<or> \<not> is_digit (hd s) then None
      else case ip_digits 0 s of None \<Rightarrow> None
      | Some (n, s) \<Rightarrow>
          if part < 3 \<and> (s = [] \<or> hd s \<noteq> 46) then None
          else ip_parts k (Suc part) (if part < 3 then tl s else s) (ip OR push_bit (8 * part) (word_of_int n)))"

definition parse_ip :: "u8 list \<Rightarrow> u32 option" where
  "parse_ip s = ip_parts 4 0 s 0"

definition is_blank :: "u8 \<Rightarrow> bool" where "is_blank c \<longleftrightarrow> c = 32 \<or> c = 9"

function tok_loop :: "nat \<Rightarrow> nat \<Rightarrow> u8 list \<Rightarrow> u8 list list" where
  "tok_loop mx n p =
     (let p = dropWhile is_blank p in
      if p = [] then [] else if n + 1 \<ge> mx then []
      else takeWhile (\<lambda>c. \<not> is_blank c) p # tok_loop mx (n + 1) (drop 1 (dropWhile (\<lambda>c. \<not> is_blank c) p)))"
  by pat_completeness auto
termination
proof (relation "measure (\<lambda>(mx, n, p). length p)", goal_cases)
  case (2 mx n p p')
  have "length p' \<le> length p" "0 < length p'" using 2(1,2) by (simp_all add: length_dropWhile_le)
  moreover have "length (dropWhile (\<lambda>c. \<not> is_blank c) p') \<le> length p'" by (rule length_dropWhile_le)
  ultimately have "length (dropWhile (\<lambda>c. \<not> is_blank c) p') - 1 < length p" by linarith
  then show ?case by simp
qed simp

declare tok_loop.simps [simp del]

definition tokenize :: "u8 list \<Rightarrow> nat \<Rightarrow> u8 list list" where "tokenize line mx = tok_loop mx 0 line"

section \<open>Paths\<close>

definition CWD_MAX :: nat where "CWD_MAX = 256"

lemma length_after_slash:
  "dropWhile (\<lambda>c. c = 47) p \<noteq> [] \<Longrightarrow> length (dropWhile (\<lambda>c. c \<noteq> 47) (dropWhile (\<lambda>c. c = 47) p)) < length (p :: u8 list)"
proof (induction p)
  case (Cons c p)
  then show ?case by (cases "c = 47") (auto simp: length_dropWhile_le le_imp_less_Suc)
qed simp

function norm_loop :: "u8 list \<Rightarrow> u8 list list \<Rightarrow> u8 list list option" where
  "norm_loop p segs =
     (let p = dropWhile (\<lambda>c. c = 47) p in
      if p = [] then Some segs
      else let sg = takeWhile (\<lambda>c. c \<noteq> 47) p; rest = dropWhile (\<lambda>c. c \<noteq> 47) p in
        if sg = [46] then norm_loop rest segs
        else if sg = [46, 46] then norm_loop rest (butlast segs)
        else if length segs \<ge> 32 then None else norm_loop rest (segs @ [sg]))"
  by pat_completeness auto
termination
proof (relation "measure (\<lambda>(p, segs). length p)", goal_cases)
  case (2 p segs p' sg rest)
  then show ?case using length_after_slash [of p] by simp
next
  case (3 p segs p' sg rest)
  then show ?case using length_after_slash [of p] by simp
next
  case (4 p segs p' sg rest)
  then show ?case using length_after_slash [of p] by simp
qed simp

declare norm_loop.simps [simp del]

text \<open>Writing the components behind \<open>out\<close>; \<open>first\<close> tells that no component is written yet.\<close>

fun norm_write :: "nat \<Rightarrow> bool \<Rightarrow> u8 list \<Rightarrow> u8 list list \<Rightarrow> u8 list option" where
  "norm_write mx first out [] = Some out"
| "norm_write mx first out (sg # segs) =
     (if \<not> first \<and> length out + 1 \<ge> mx then None
      else let out = (if first then out else out @ [47]) in
        if length out + length sg \<ge> mx then None else norm_write mx False (out @ sg) segs)"

definition normalize_path :: "u8 list \<Rightarrow> nat \<Rightarrow> u8 list option" where
  "normalize_path combined mx =
     (case norm_loop combined [] of None \<Rightarrow> None
      | Some segs \<Rightarrow> if 0 \<ge> mx then None else norm_write mx True [47] segs)"

definition resolve_path :: "u8 list \<Rightarrow> u8 list \<Rightarrow> nat \<Rightarrow> u8 list option" where
  "resolve_path g_cwd inp mx =
     (let size = CWD_MAX + SHELL_LINE_MAX in
      if inp = [] then normalize_path (take (size - 1) g_cwd) mx
      else if hd inp = 47 then normalize_path (take (size - 1) inp) mx
      else if length g_cwd + 1 + length inp \<ge> size then None
      else normalize_path (g_cwd @ [47] @ inp) mx)"

section \<open>Commands on files\<close>

text \<open>What the commands of the shell work on: its own variables and the parts of the kernel they call.\<close>

record 'd kshell =
  g_cwd :: "u8 list"
  g_shell_context_gui :: bool
  shist :: hist
  svfs :: "'d vfs"
  sgpu :: gpu
  snet :: net
  spci :: pci
  sacpi :: acpi

definition say :: "u8 list \<Rightarrow> 'd kshell \<Rightarrow> 'd kshell" where
  "say t = sgpu_update (\<lambda>g. gpu_print g t)"

definition paint :: "u8 \<Rightarrow> 'd kshell \<Rightarrow> 'd kshell" where
  "paint c = sgpu_update (\<lambda>g. gpu_set_color g c 0x00)"

definition newline :: "u8 list" where "newline = [10]"

text \<open>One line of \<open>ls\<close>, as its callback prints it.\<close>

definition ls_cb :: "'d kshell \<Rightarrow> u8 list \<times> u32 \<times> u8 \<Rightarrow> 'd kshell" where
  "ls_cb s ent =
     (case ent of (name, sz, flags) \<Rightarrow>
        let s = say (text_of ''  '') s;
            s = (if flags AND VFS_DIR \<noteq> 0 then paint 0x0B s else s);
            s = say name s;
            s = paint 0x0F s;
            s = (if flags AND VFS_DIR = 0 then say (text_of '' ('' @ print_u64 (ucast sz) @ text_of '' bytes)'') s else s)
        in say newline s)"

definition cmd_ls :: "'d drivers \<Rightarrow> 'd kshell \<Rightarrow> u8 list \<Rightarrow> 'd kshell option" where
  "cmd_ls drv s arg =
     (case resolve_path (g_cwd s) arg CWD_MAX of
        None \<Rightarrow> Some (say (text_of ''ls: caminho invalido'' @ newline) s)
      | Some resolved \<Rightarrow> do {
          (entries, v) \<leftarrow> vfs_readdir drv (svfs s) resolved;
          let s = say (resolved @ text_of '':'' @ newline) s;
          let es = (case entries of None \<Rightarrow> [] | Some es \<Rightarrow> es);
          let s = foldl ls_cb (s\<lparr>svfs := v\<rparr>) es;
          Some (if es = [] then say (text_of ''  (vazio)'' @ newline) s else s)
        })"

definition cmd_cd :: "'d drivers \<Rightarrow> 'd kshell \<Rightarrow> u8 list list \<Rightarrow> 'd kshell option" where
  "cmd_cd drv s args =
     (case resolve_path (g_cwd s) (if length args > 1 then args ! 1 else [47]) CWD_MAX of
        None \<Rightarrow> Some (say (text_of ''cd: caminho invalido'' @ newline) s)
      | Some resolved \<Rightarrow> do {
          (st, v) \<leftarrow> vfs_stat drv (svfs s) resolved;
          let s = s\<lparr>svfs := v\<rparr>;
          (case st of
             None \<Rightarrow> Some (say (text_of ''cd: nao encontrado: '' @ resolved @ newline) s)
           | Some (sz, flags) \<Rightarrow>
               if flags AND VFS_DIR = 0 then Some (say (text_of ''cd: nao e um diretorio: '' @ resolved @ newline) s)
               else Some (s\<lparr>g_cwd := take (CWD_MAX - 1) resolved\<rparr>))
        })"

definition cmd_mkdir :: "'d drivers \<Rightarrow> 'd kshell \<Rightarrow> u8 list list \<Rightarrow> 'd kshell option" where
  "cmd_mkdir drv s args =
     (if length args < 2 then Some (say (text_of ''Uso: mkdir <dir>'' @ newline) s)
      else case resolve_path (g_cwd s) (args ! 1) CWD_MAX of
        None \<Rightarrow> Some (say (text_of ''mkdir: caminho invalido'' @ newline) s)
      | Some resolved \<Rightarrow> do {
          (ret, v) \<leftarrow> vfs_mkdir drv (svfs s) resolved;
          let s = s\<lparr>svfs := v\<rparr>;
          Some (if ret < 0 then say (text_of ''mkdir: falha ao criar: '' @ resolved @ newline) s else s)
        })"

definition cmd_touch :: "'d drivers \<Rightarrow> 'd kshell \<Rightarrow> u8 list list \<Rightarrow> 'd kshell option" where
  "cmd_touch drv s args =
     (if length args < 2 then Some (say (text_of ''Uso: touch <arquivo>'' @ newline) s)
      else case resolve_path (g_cwd s) (args ! 1) CWD_MAX of
        None \<Rightarrow> Some (say (text_of ''touch: caminho invalido'' @ newline) s)
      | Some resolved \<Rightarrow> do {
          (f, v) \<leftarrow> vfs_create drv (svfs s) resolved;
          let s = s\<lparr>svfs := v\<rparr>;
          Some (if f = NULL then say (text_of ''touch: falha ao criar: '' @ resolved @ newline) s else s\<lparr>svfs := close_file f (svfs s)\<rparr>)
        })"

definition cmd_cat :: "'d drivers \<Rightarrow> 'd kshell \<Rightarrow> u8 list \<Rightarrow> 'd kshell option" where
  "cmd_cat drv s arg =
     (case resolve_path (g_cwd s) arg CWD_MAX of
        None \<Rightarrow> Some (say (text_of ''cat: caminho invalido'' @ newline) s)
      | Some resolved \<Rightarrow> do {
          (f, v) \<leftarrow> vfs_open drv (svfs s) resolved;
          let s = s\<lparr>svfs := v\<rparr>;
          if f = NULL then Some (say (text_of ''Arquivo nao encontrado: '' @ resolved @ newline) s)
          else do {
            (n, data, v) \<leftarrow> vfs_read drv (svfs s) f 255;
            let s = s\<lparr>svfs := v\<rparr>;
            let s = (if n > 0 then
                let s = say (takeWhile (\<lambda>c. c \<noteq> 0) (take (nat n) data)) s
                in if data ! (nat n - 1) \<noteq> 10 then say newline s else s
              else s);
            Some (s\<lparr>svfs := close_file f (svfs s)\<rparr>)
          }
        })"

fun echo_args :: "'d kshell \<Rightarrow> bool \<Rightarrow> u8 list list \<Rightarrow> 'd kshell" where
  "echo_args s first [] = s"
| "echo_args s first (a # as) = echo_args (say a (if first then s else say (text_of '' '') s)) False as"

definition cmd_echo :: "'d kshell \<Rightarrow> u8 list list \<Rightarrow> 'd kshell" where
  "cmd_echo s args = say newline (echo_args s True (drop 1 args))"

end
