(* ===== verification/KShellCmds.thy ===== *)
theory KShellCmds
  imports KShell
begin

text \<open>
  The other commands of \<^verbatim>\<open>kernel/shell.c\<close> and its dispatcher. What a command reads from the hardware
  is in the environment: the time of the clock, the ticks of the timer, the packet that arrives at the \<open>i\<close>-th poll of the
  command. The graphical interface and the switch to user mode are functions of the environment too; the first is the
  model of \<^verbatim>\<open>kernel/gui.c\<close> in theory \<open>Gui\<close>, the second is assembly code.
\<close>

record 'd shell_env =
  e_drivers :: "'d drivers"
  e_clock :: rtc_time
  e_ticks :: u64
  e_arrive :: "nat \<Rightarrow> ((nat \<Rightarrow> u8) \<times> int) option"
  e_gui :: "'d kshell \<Rightarrow> 'd kshell option"
  e_user :: "u64 \<Rightarrow> u64 \<Rightarrow> u64 \<Rightarrow> 'd kshell \<Rightarrow> 'd kshell option"

text \<open>A command returns, or it hands the machine over to \<open>acpi_shutdown\<close> or \<open>acpi_reboot\<close>, which halt.\<close>

datatype 'd cmd_end = Back "'d kshell" | Shutdown "'d kshell" | Reboot "'d kshell"

abbreviation say_num :: "u64 \<Rightarrow> 'd kshell \<Rightarrow> 'd kshell" where "say_num v s \<equiv> say (print_u64 v) s"

definition lines_text :: "string list \<Rightarrow> u8 list" where "lines_text ls = concat (map (\<lambda>l. text_of l @ newline) ls)"

definition ends_with :: "u8 list \<Rightarrow> u8 list \<Rightarrow> bool" where
  "ends_with s sul \<longleftrightarrow> length sul \<le> length s \<and> drop (length s - length sul) s = sul"

section \<open>Information\<close>

definition help_lines :: "string list" where
  "help_lines =
     [''Comandos:'',
      ''  help              ajuda'',
      ''  clear             limpa tela'',
      ''  gpuinfo           info do framebuffer'',
      ''  gui               interface grafica'',
      ''  neofetch          info do sistema'',
      ''  date              data e hora atual'',
      ''  uptime            tempo ligado'',
      ''  ls [dir]          lista arquivos'',
      ''  cd [dir]          muda diretorio'',
      ''  cat <arquivo>     le arquivo'',
      ''  mkdir <dir>       cria diretorio'',
      ''  touch <arquivo>   cria arquivo vazio'',
      ''  echo <texto>      ecoa texto'',
      ''  ping <ip>         ping ICMP'',
      ''  dns <host>        consulta DNS'',
      ''  fetch <host>      HTTP GET'',
      ''  run <elf>         executa ELF'',
      ''  ps                lista processos'',
      ''  kill <pid>        mata processo'',
      ''  shutdown          desligar (ACPI)'',
      ''  reboot            reiniciar'']"

definition cmd_help :: "'d kshell \<Rightarrow> 'd kshell" where "cmd_help s = say (lines_text help_lines) s"

definition two_digits :: "u8 \<Rightarrow> 'd kshell \<Rightarrow> 'd kshell" where
  "two_digits v s = say_num (ucast v) (if v < 10 then say (text_of ''0'') s else s)"

definition print_date :: "rtc_time \<Rightarrow> 'd kshell \<Rightarrow> 'd kshell" where
  "print_date t s = say_num (ucast (year t)) (say (text_of ''/'') (say_num (ucast (month t)) (say (text_of ''/'') (say_num (ucast (day t)) s))))"

definition cmd_date :: "rtc_time \<Rightarrow> 'd kshell \<Rightarrow> 'd kshell" where
  "cmd_date t s =
     (let s = print_date t (say (text_of ''Date: '') s);
          s = say_num (ucast (hours t)) (say (text_of ''  Time: '') s);
          s = two_digits (minutes t) (say (text_of '':'') s);
          s = two_digits (seconds t) (say (text_of '':'') s)
      in say newline s)"

definition cmd_clear :: "'d kshell \<Rightarrow> 'd kshell" where "cmd_clear s = s\<lparr>sgpu := gpu_clear (sgpu s) 0x0F 0x00\<rparr>"

definition cmd_gpuinfo :: "'d kshell \<Rightarrow> 'd kshell" where
  "cmd_gpuinfo s =
     (let g = sgpu s;
          s = say (text_of ''GPU: '') s;
          s = say (text_of (if g_fb_enabled g then ''framebuffer VBE'' else ''VGA text mode'') @ newline) s;
          s = say_num (ucast (gpu_width g)) (say (text_of ''Resolucao: '') s);
          s = say_num (ucast (gpu_height g)) (say (text_of ''x'') s);
          s = say_num (ucast (gpu_bpp g)) (say (text_of ''x'') s)
      in say newline s)"

function put_hex32 :: "u32 \<Rightarrow> u8 list \<Rightarrow> u8 list" where
  "put_hex32 v acc = (if v \<noteq> 0 then put_hex32 (drop_bit 4 v) (hex_chars ! unat (v AND 0xF) # acc) else acc)"
  by pat_completeness auto
termination
  by (relation "measure (\<lambda>(v, acc). unat v)") (auto simp: drop_bit_eq_div unat_div unat_gt_0 intro!: div_less_dividend)

declare put_hex32.simps [simp del]

definition logo_lines :: "string list" where
  "logo_lines = [''          //'', ''         //'', ''        //'', ''       //'', ''      //'', ''     //'', ''    //'', ''   //'', ''  //'', '' //'',
     ''////////////////////////////////////////////////////'']"

definition gpu_vendor_name :: "gpu_info \<Rightarrow> string" where
  "gpu_vendor_name gi = (if is_intel gi then ''Intel'' else if is_nvidia gi then ''NVIDIA'' else if is_amd gi then ''AMD/ATI'' else ''Unknown'')"

definition cmd_neofetch :: "rtc_time \<Rightarrow> 'd kshell \<Rightarrow> 'd kshell" where
  "cmd_neofetch t s =
     (let s = paint 0x0F (say (lines_text logo_lines) (paint 0x0B s));
          s = say (lines_text [''SO:         EponaOS x86_64'', ''Kernel:     Epona (C + ASM)'']) s;
          s = say (text_of ''  '') (print_date t (say (text_of ''Date:       '') s));
          s = say (text_of '':'') (say_num (ucast (hours t)) s);
          s = say newline (two_digits (minutes t) s);
          p = frames (vmach (svfs s));
          s = say_num (pmm_total_bytes p div (1024 * 1024)) (say (text_of ''RAM:        '') s);
          s = say_num (pmm_free_bytes p div (1024 * 1024)) (say (text_of '' MiB total, '') s);
          s = say (text_of '' MiB free'' @ newline) s;
          (gi, pc) = pci_find_gpu (spci s);
          s = s\<lparr>spci := pc\<rparr>;
          s = (case gi of
                 None \<Rightarrow> say (text_of ''GPU:        VBE framebuffer'' @ newline) s
               | Some gi \<Rightarrow>
                   let s = say (text_of '' (IRQ '') (say (text_of (gpu_vendor_name gi)) (say (text_of ''GPU:        '') s))
                   in say (text_of '')'' @ newline) (say_num (ucast (gi_irq gi)) s));
          s = say (text_of ''ACPI:       '') s;
          v = pm1a_cnt (sacpi s);
          s = (if v \<noteq> 0 then say (put_hex32 v []) (say (text_of ''PM1a=0x'') s) else say (text_of ''not found'') s);
          s = say newline s;
          s = (if net_is_configured (snet s)
               then paint 0x0F (say (print_ip (net_local_ip (snet s))) (say (text_of ''NET:        '') (paint 0x0A s)))
               else paint 0x0F (say (text_of ''NET:        offline'') (paint 0x0C s)))
      in say newline s)"

definition cmd_uptime :: "u64 \<Rightarrow> 'd kshell \<Rightarrow> 'd kshell" where
  "cmd_uptime tk s =
     (let t = ucast (ucast tk :: u32) :: u64; secs = t div 100; mins = secs div 60; hrs = mins div 60;
          s = say_num hrs (say (text_of ''Uptime: '') s);
          s = say_num (mins mod 60) (say (text_of ''h '') s);
          s = say_num (secs mod 60) (say (text_of ''m '') s)
      in say (text_of ''s'' @ newline) s)"

definition cmd_ps :: "'d kshell \<Rightarrow> 'd kshell" where
  "cmd_ps s = say (lines_text [''PID  STATE     CMD'', ''(use neofetch for system info)'']) s"

section \<open>Network\<close>

definition cmd_ip :: "'d kshell \<Rightarrow> 'd kshell" where
  "cmd_ip s =
     (let n = snet s in
      if \<not> net_is_configured n then say (text_of ''Rede nao configurada'' @ newline) s
      else
        let s = say newline (say (print_ip (net_local_ip n)) (say (text_of ''IP:         '') s)) in
        if net_dns_answer_ip n \<noteq> 0
        then say newline (say (print_ip (net_dns_answer_ip n)) (say (text_of ''DNS:        example.com = '') s)) else s)"

definition cmd_http :: "'d kshell \<Rightarrow> 'd kshell" where
  "cmd_http s =
     (let n = snet s;
          s = say (text_of ''HTTP: '') s;
          s = (if net_http_ok n then say (text_of ''OK'') (paint 0x0A s) else say (text_of ''sem resposta'') (paint 0x0C s));
          s = say newline (paint 0x0F s);
          len = net_http_body_len n
      in if len > 0 then
           let s = say_num (ucast len) (say (text_of ''Bytes:      '') s);
               s = say (net_http_body_preview n) (say (newline @ text_of ''Preview:    '') s)
           in say newline s
         else s)"

text \<open>Polling the network until \<open>stop\<close> holds: \<open>k\<close> rounds are left, \<open>i\<close> were done.\<close>

fun poll_until :: "(nat \<Rightarrow> ((nat \<Rightarrow> u8) \<times> int) option) \<Rightarrow> (net \<Rightarrow> bool) \<Rightarrow> nat \<Rightarrow> nat \<Rightarrow> net \<Rightarrow> bool \<times> net" where
  "poll_until arrive stop 0 i n = (False, n)"
| "poll_until arrive stop (Suc k) i n =
     (let n = net_poll (arrive i) n in if stop n then (True, n) else poll_until arrive stop k (Suc i) n)"

definition cmd_ping :: "'d shell_env \<Rightarrow> 'd kshell \<Rightarrow> u8 list list \<Rightarrow> 'd kshell" where
  "cmd_ping env s args =
     (if length args < 2 then say (text_of ''Uso: ping <ip>'' @ newline) s
      else if \<not> net_is_configured (snet s) then say (text_of ''Rede nao configurada'' @ newline) s
      else case parse_ip (args ! 1) of
        None \<Rightarrow> say (text_of ''IP invalido'' @ newline) s
      | Some ip \<Rightarrow>
          let s = say (text_of ''...'' @ newline) (say (print_ip ip) (say (text_of ''Pinging '') s));
              (ok, n) = poll_until (e_arrive env) net_ping_replied 2000000 0 (net_ping_send ip (snet s));
              s = s\<lparr>snet := n\<rparr>
          in if ok then paint 0x0F (say (text_of ''Resposta recebida!'' @ newline) (paint 0x0A s))
             else paint 0x0F (say (text_of ''Sem resposta (timeout)'' @ newline) (paint 0x0C s)))"

definition cmd_dns :: "'d shell_env \<Rightarrow> 'd kshell \<Rightarrow> u8 list list \<Rightarrow> 'd kshell" where
  "cmd_dns env s args =
     (if length args < 2 then say (text_of ''Uso: dns <host>'' @ newline) s
      else if \<not> net_is_configured (snet s) then say (text_of ''Rede nao configurada'' @ newline) s
      else
        let s = say newline (say (args ! 1) (say (text_of ''Resolvendo: '') s));
            (ok, n) = poll_until (e_arrive env) (\<lambda>n. net_dns_answer_ip n \<noteq> 0) 3000000 0 (dns_query (args ! 1) (snet s));
            s = s\<lparr>snet := n\<rparr>
        in if ok then say newline (say (print_ip (net_dns_answer_ip n)) (say (text_of ''Resposta: '') s))
           else paint 0x0F (say (text_of ''Timeout'' @ newline) (paint 0x0C s)))"

text \<open>The end of \<open>cmd_fetch\<close>: an answer, a failure or a time-out.\<close>

datatype fetched = FetchOk | FetchFail | FetchTimeout

fun fetch_loop :: "(nat \<Rightarrow> ((nat \<Rightarrow> u8) \<times> int) option) \<Rightarrow> nat \<Rightarrow> nat \<Rightarrow> net \<Rightarrow> fetched \<times> net" where
  "fetch_loop arrive 0 i n = (FetchTimeout, n)"
| "fetch_loop arrive (Suc k) i n =
     (let n = net_poll (arrive i) n in
      if net_tcp_busy n then fetch_loop arrive k (Suc i) n
      else if net_http_ok n then (FetchOk, n)
      else if \<not> net_tcp_busy n \<and> i > 100000 then (FetchFail, n)
      else fetch_loop arrive k (Suc i) n)"

definition cmd_fetch :: "'d shell_env \<Rightarrow> 'd kshell \<Rightarrow> u8 list list \<Rightarrow> 'd kshell" where
  "cmd_fetch env s args =
     (if length args < 2 then say (text_of ''Uso: fetch <host>'' @ newline) s
      else if \<not> net_is_configured (snet s) then say (text_of ''Rede nao configurada'' @ newline) s
      else
        let s = say newline (say (args ! 1) (say (text_of ''Buscando: '') s)); (r, n) = net_http_fetch (args ! 1) (snet s) in
        if r < 0 then say (text_of ''Erro'' @ newline) (s\<lparr>snet := n\<rparr>)
        else
          let (res, n) = fetch_loop (e_arrive env) 5000000 0 n; s = s\<lparr>snet := n\<rparr> in
          case res of
            FetchOk \<Rightarrow>
              let s = paint 0x0F (say (text_of ''HTTP 200 OK'' @ newline) (paint 0x0A s));
                  s = say newline (say_num (ucast (net_http_body_len n)) (say (text_of ''Bytes: '') s))
              in say newline (say (net_http_body_preview n) (say (text_of ''Preview: '') s))
          | FetchFail \<Rightarrow> paint 0x0F (say (text_of ''Falha'' @ newline) (paint 0x0C s))
          | FetchTimeout \<Rightarrow> paint 0x0F (say (text_of ''Timeout'' @ newline) (paint 0x0C s)))"

section \<open>Programs and the dispatcher\<close>

definition cmd_run :: "'d shell_env \<Rightarrow> 'd kshell \<Rightarrow> u8 list list \<Rightarrow> 'd kshell option" where
  "cmd_run env s args =
     (if g_shell_context_gui s then Some (say (text_of ''run: desabilitado no Terminal da GUI; use o console.'' @ newline) s)
      else if length args < 2 then Some (say (text_of ''Uso: run <elf>'' @ newline) s)
      else if ends_with (args ! 1) (text_of ''.epk'')
      then Some (say (text_of ''Pacotes .epk nao sao executaveis ELF. Use: run shell.elf'' @ newline) s)
      else case resolve_path (g_cwd s) (args ! 1) CWD_MAX of
        None \<Rightarrow> Some (say (text_of ''run: caminho invalido'' @ newline) s)
      | Some resolved \<Rightarrow> do {
          (r, v) \<leftarrow> elf_load (e_drivers env) (svfs s) resolved;
          let s = s\<lparr>svfs := v\<rparr>;
          (case r of
             None \<Rightarrow> Some (say newline (say resolved (say (text_of ''Falha ao carregar ELF: '') s)))
           | Some (ent, stack_top, pml4) \<Rightarrow> e_user env ent stack_top pml4 (say (text_of ''Executando ELF...'' @ newline) s))
        })"

definition cmd_name :: "string \<Rightarrow> u8 list" where "cmd_name n = text_of n"

definition shell_dispatch_line :: "'d shell_env \<Rightarrow> 'd kshell \<Rightarrow> u8 list \<Rightarrow> 'd cmd_end option" where
  "shell_dispatch_line env s ln =
     (let s = s\<lparr>shist := history_add (shist s) ln\<rparr>;
          tokens = tokenize ln SHELL_TOKEN_MAX; drv = e_drivers env;
          arg1 = (if length tokens > 1 then tokens ! 1 else [])
      in if tokens = [] then Some (Back s)
      else
        let cmd = hd tokens; cmd_is = (\<lambda>n. cmd = cmd_name n) in
        if cmd_is ''help'' then Some (Back (cmd_help s))
        else if cmd_is ''clear'' then Some (Back (cmd_clear s))
        else if cmd_is ''gpuinfo'' then Some (Back (cmd_gpuinfo s))
        else if cmd_is ''gui'' then map_option Back (e_gui env s)
        else if cmd_is ''neofetch'' then Some (Back (cmd_neofetch (e_clock env) s))
        else if cmd_is ''ip'' then Some (Back (cmd_ip s))
        else if cmd_is ''http'' then Some (Back (cmd_http s))
        else if cmd_is ''ls'' then map_option Back (cmd_ls drv s arg1)
        else if cmd_is ''cd'' then map_option Back (cmd_cd drv s tokens)
        else if cmd_is ''cat'' then map_option Back (cmd_cat drv s arg1)
        else if cmd_is ''mkdir'' then map_option Back (cmd_mkdir drv s tokens)
        else if cmd_is ''touch'' then map_option Back (cmd_touch drv s tokens)
        else if cmd_is ''echo'' then Some (Back (cmd_echo s tokens))
        else if cmd_is ''ping'' then Some (Back (cmd_ping env s tokens))
        else if cmd_is ''dns'' then Some (Back (cmd_dns env s tokens))
        else if cmd_is ''fetch'' then Some (Back (cmd_fetch env s tokens))
        else if cmd_is ''run'' then map_option Back (cmd_run env s tokens)
        else if cmd_is ''date'' then Some (Back (cmd_date (e_clock env) s))
        else if cmd_is ''uptime'' then Some (Back (cmd_uptime (e_ticks env) s))
        else if cmd_is ''ps'' then Some (Back (cmd_ps s))
        else if cmd_is ''shutdown'' then Some (Shutdown (say (text_of ''Desligando via ACPI...'' @ newline) s))
        else if cmd_is ''reboot'' then Some (Reboot (say (text_of ''Reiniciando...'' @ newline) s))
        else Some (Back (say newline (say cmd (paint 0x0F (say (text_of ''Comando nao encontrado: '') (paint 0x0C s)))))))"

definition shell_set_gui_context :: "bool \<Rightarrow> 'd kshell \<Rightarrow> 'd kshell" where
  "shell_set_gui_context enabled s = s\<lparr>g_shell_context_gui := enabled\<rparr>"

text \<open>
  One round of \<open>shell_run\<close> with the keys that come; \<open>None\<close> when they do not complete a line or the command does not
  return. The line is edited in an array of 256 bytes on the stack; that
  \<open>tokenize\<close> puts zeros between the words of it is left out, the next line starts empty.
\<close>

definition shell_round :: "'d shell_env \<Rightarrow> 'd kshell \<Rightarrow> u8 list \<Rightarrow> int list \<Rightarrow> ('d cmd_end \<times> u8 list \<times> int list) option" where
  "shell_round env s line ks = do {
     let g = shell_print_prompt (sgpu s);
     (r, ks) \<leftarrow> readline SHELL_LINE_MAX \<lparr>ed = \<lparr>lbuf = line, lpos = 0, lcpos = 0\<rparr>, rhist = shist s, rgpu = g\<rparr> ks;
     let s = s\<lparr>sgpu := rgpu r, shist := rhist r\<rparr>;
     let text = takeWhile (\<lambda>c. c \<noteq> 0) (lbuf (ed r));
     res \<leftarrow> (if lbuf (ed r) ! 0 = 0 then Some (Back s) else shell_dispatch_line env s text);
     Some (res, lbuf (ed r), ks) }"

fun shell_run :: "nat \<Rightarrow> 'd shell_env \<Rightarrow> 'd kshell \<Rightarrow> u8 list \<Rightarrow> int list \<Rightarrow> ('d cmd_end \<times> u8 list \<times> int list) option" where
  "shell_run 0 env s line ks = Some (Back s, line, ks)"
| "shell_run (Suc rounds) env s line ks =
     (case shell_round env s line ks of
        Some (Back s, line, ks) \<Rightarrow> shell_run rounds env s line ks
      | r \<Rightarrow> r)"

end
