(* ===== verification/KShellSpec.thy ===== *)
theory KShellSpec
  imports KShell
begin

text \<open>
  What the shell promises: the line editor is a line with a cursor, the history gives back the lines entered,
  addresses are read as they are printed, a line is cut into its words, and a path is brought into its
  normal form.
\<close>

section \<open>The line editor\<close>

lemma length_shift [simp]: "length (shift_right xs p c) = length xs" "length (shift_left xs a b) = length xs"
proof -
  show "length (shift_right xs p c) = length xs" by (induction xs p c rule: shift_right.induct) simp_all
  have "length (fold (\<lambda>i xs. xs[i := xs ! (i + 1)]) is xs) = length xs" for "is"
    by (induction "is" arbitrary: xs) simp_all
  then show "length (shift_left xs a b) = length xs" by (simp add: shift_left_def)
qed

lemma nth_shift_right:
  "p < length xs \<Longrightarrow> i < length xs \<Longrightarrow> shift_right xs p c ! i = (if c < i \<and> i \<le> p then xs ! (i - 1) else xs ! i)"
proof (induction p arbitrary: xs)
  case (Suc p)
  show ?case
  proof (cases "c < Suc p")
    case True
    then show ?thesis using Suc.IH [of "xs[Suc p := xs ! p]"] Suc.prems
      by (auto simp: nth_list_update le_Suc_eq)
  qed (use Suc.prems in auto)
qed simp

lemma nth_shift_left:
  "b < length xs \<Longrightarrow> i < length xs \<Longrightarrow> shift_left xs a b ! i = (if a \<le> i \<and> i < b then xs ! (i + 1) else xs ! i)"
proof (induction b arbitrary: i)
  case (Suc b)
  show ?case
  proof (cases "a \<le> b")
    case True
    then have "shift_left xs a (Suc b) = (shift_left xs a b)[b := shift_left xs a b ! (b + 1)]" by (simp add: shift_left_def)
    then show ?thesis using Suc.IH [of i] Suc.IH [of "b + 1"] Suc.prems True
      by (auto simp: nth_list_update less_Suc_eq)
  qed (use Suc.prems in \<open>auto simp: shift_left_def\<close>)
qed (simp add: shift_left_def)

text \<open>The text of the line, before and behind the cursor, and when the buffer is in order.\<close>

definition line_text :: "line_ed \<Rightarrow> u8 list" where "line_text e = take (lpos e) (lbuf e)"

definition line_parts :: "line_ed \<Rightarrow> u8 list \<times> u8 list" where
  "line_parts e = (take (lcpos e) (line_text e), drop (lcpos e) (line_text e))"

definition ed_ok :: "nat \<Rightarrow> line_ed \<Rightarrow> bool" where
  "ed_ok mx e \<longleftrightarrow> length (lbuf e) = mx \<and> lpos e < mx \<and> lcpos e \<le> lpos e \<and> lbuf e ! lpos e = 0 \<and> 0 \<notin> set (line_text e)"

lemma insert_text:
  assumes "ed_ok mx e" "lpos e + 1 < mx"
  shows "line_text (shell_insert_char e c mx) = take (lcpos e) (line_text e) @ [word_of_int c] @ drop (lcpos e) (line_text e)"
proof (rule nth_equalityI)
  show "length (line_text (shell_insert_char e c mx)) = length (take (lcpos e) (line_text e) @ [word_of_int c] @ drop (lcpos e) (line_text e))"
    using assms by (simp add: line_text_def shell_insert_char_def ed_ok_def Let_def)
  fix i assume "i < length (line_text (shell_insert_char e c mx))"
  then have i: "i \<le> lpos e" using assms by (simp add: line_text_def shell_insert_char_def ed_ok_def Let_def)
  have "line_text (shell_insert_char e c mx) ! i = ((shift_right (lbuf e) (lpos e) (lcpos e))[lcpos e := word_of_int c]) ! i"
    using assms i by (simp add: line_text_def shell_insert_char_def ed_ok_def Let_def)
  also have "\<dots> = (if i = lcpos e then word_of_int c else if lcpos e < i then lbuf e ! (i - 1) else lbuf e ! i)"
    using assms i by (auto simp: ed_ok_def nth_list_update nth_shift_right)
  also have "\<dots> = (take (lcpos e) (line_text e) @ [word_of_int c] @ drop (lcpos e) (line_text e)) ! i"
    using assms i by (auto simp: ed_ok_def line_text_def nth_append nth_Cons' min_def)
  finally show "line_text (shell_insert_char e c mx) ! i = (take (lcpos e) (line_text e) @ [word_of_int c] @ drop (lcpos e) (line_text e)) ! i" .
qed

lemma remove_text:
  assumes "length xs = mx" "p < mx" "k < p"
  shows "take (p - 1) ((shift_left xs k (p - 1))[p - 1 := 0]) = take k (take p xs) @ drop (k + 1) (take p xs)"
proof (rule nth_equalityI)
  fix i assume "i < length (take (p - 1) ((shift_left xs k (p - 1))[p - 1 := 0]))"
  then have i: "i < p - 1" using assms by simp
  then have "take (p - 1) ((shift_left xs k (p - 1))[p - 1 := 0]) ! i = (if k \<le> i then xs ! (i + 1) else xs ! i)"
    using assms by (simp add: nth_shift_left)
  also have "\<dots> = (take k (take p xs) @ drop (k + 1) (take p xs)) ! i" using assms i by (auto simp: nth_append min_def)
  finally show "take (p - 1) ((shift_left xs k (p - 1))[p - 1 := 0]) ! i = (take k (take p xs) @ drop (k + 1) (take p xs)) ! i" .
qed (use assms in auto)

lemma insert_parts:
  assumes "ed_ok mx e" "lpos e + 1 < mx" "(word_of_int c :: u8) \<noteq> 0" "line_parts e = (l, r)"
  shows "ed_ok mx (shell_insert_char e c mx)" "line_parts (shell_insert_char e c mx) = (l @ [word_of_int c], r)"
proof -
  note t = insert_text [OF assms(1,2), of c]
  have lr: "l = take (lcpos e) (line_text e)" "r = drop (lcpos e) (line_text e)" using assms(4) by (simp_all add: line_parts_def)
  have len: "lcpos e \<le> length (line_text e)" using assms(1) by (simp add: ed_ok_def line_text_def)
  have c: "lcpos (shell_insert_char e c mx) = length l + 1" using assms(2) len lr by (simp add: shell_insert_char_def Let_def)
  show "line_parts (shell_insert_char e c mx) = (l @ [word_of_int c], r)" using t c lr len by (simp add: line_parts_def min_def)
  have "0 \<notin> set (line_text (shell_insert_char e c mx))" unfolding t
    using assms(1,3) by (auto simp: ed_ok_def dest: in_set_takeD in_set_dropD)
  then show "ed_ok mx (shell_insert_char e c mx)" using assms(1,2)
    by (simp add: ed_ok_def) (simp add: shell_insert_char_def Let_def)
qed

lemma backspace_parts:
  assumes "ed_ok mx e" "lcpos e > 0" "line_parts e = (l, r)"
  shows "ed_ok mx (shell_backspace_char e)" "line_parts (shell_backspace_char e) = (butlast l, r)"
proof -
  have lr: "l = take (lcpos e) (line_text e)" "r = drop (lcpos e) (line_text e)" using assms(3) by (simp_all add: line_parts_def)
  have "lcpos e - 1 < lpos e" using assms(1,2) by (auto simp: ed_ok_def)
  then have t: "line_text (shell_backspace_char e) = take (lcpos e - 1) (line_text e) @ drop (lcpos e) (line_text e)"
    using remove_text [of "lbuf e" mx "lpos e" "lcpos e - 1"] assms(1,2)
    by (simp add: shell_backspace_char_def ed_ok_def line_text_def Let_def)
  have len: "length (line_text e) = lpos e" "lcpos e \<le> lpos e" using assms(1) by (simp_all add: ed_ok_def line_text_def)
  have c: "lcpos (shell_backspace_char e) = lcpos e - 1" using assms(2) by (simp add: shell_backspace_char_def Let_def)
  show "line_parts (shell_backspace_char e) = (butlast l, r)"
    using len assms(2) by (simp add: line_parts_def c t lr butlast_take min_def)
  have "0 \<notin> set (line_text (shell_backspace_char e))" unfolding t
    using assms(1) by (auto simp: ed_ok_def dest: in_set_takeD in_set_dropD)
  then show "ed_ok mx (shell_backspace_char e)" using assms(1,2)
    by (simp add: ed_ok_def) (auto simp: shell_backspace_char_def Let_def)
qed

lemma delete_parts:
  assumes "ed_ok mx e" "line_parts e = (l, r)"
  shows "ed_ok mx (shell_delete_char e)" "line_parts (shell_delete_char e) = (l, tl r)"
proof -
  have lr: "l = take (lcpos e) (line_text e)" "r = drop (lcpos e) (line_text e)" using assms(2) by (simp_all add: line_parts_def)
  have len: "length (line_text e) = lpos e" "lcpos e \<le> lpos e" using assms(1) by (simp_all add: ed_ok_def line_text_def)
  have "ed_ok mx (shell_delete_char e) \<and> line_parts (shell_delete_char e) = (l, tl r)"
  proof (cases "lcpos e < lpos e")
    case True
    have t: "line_text (shell_delete_char e) = take (lcpos e) (line_text e) @ drop (lcpos e + 1) (line_text e)"
      using remove_text [of "lbuf e" mx "lpos e" "lcpos e"] assms(1) True
      by (simp add: shell_delete_char_def ed_ok_def line_text_def Let_def)
    have c: "lcpos (shell_delete_char e) = lcpos e" using True by (simp add: shell_delete_char_def Let_def)
    have "line_parts (shell_delete_char e) = (l, tl r)" using len by (simp add: line_parts_def c t lr min_def tl_drop drop_Suc)
    moreover have "0 \<notin> set (line_text (shell_delete_char e))" unfolding t
      using assms(1) by (auto simp: ed_ok_def dest: in_set_takeD in_set_dropD)
    then have "ed_ok mx (shell_delete_char e)" using assms(1) True
      by (simp add: ed_ok_def) (auto simp: shell_delete_char_def Let_def)
    ultimately show ?thesis by simp
  next
    case False
    then show ?thesis using assms len lr by (simp add: shell_delete_char_def)
  qed
  then show "ed_ok mx (shell_delete_char e)" "line_parts (shell_delete_char e) = (l, tl r)" by simp_all
qed

section \<open>Reading a line\<close>

text \<open>What keys do to a line with a cursor, given by the text before and behind the cursor, and to the history.\<close>

fun zip_key :: "nat \<Rightarrow> hist \<times> u8 list \<times> u8 list \<Rightarrow> int \<Rightarrow> hist \<times> u8 list \<times> u8 list" where
  "zip_key mx (h, l, r) c =
     (if c = 8 then (h, butlast l, r)
      else if c = KEY_DEL then (h, l, tl r)
      else if c = 3 then (h, [], [])
      else if c = KEY_LEFT then if l = [] then (h, l, r) else (h, butlast l, last l # r)
      else if c = KEY_RIGHT then if r = [] then (h, l, r) else (h, l @ [hd r], tl r)
      else if c = KEY_HOME then (h, [], l @ r)
      else if c = KEY_END then (h, l @ r, [])
      else if c = KEY_UP \<and> g_hist_idx h > 0 then
        (h\<lparr>g_hist_idx := g_hist_idx h - 1\<rparr>, take (mx - 1) (history_get h (g_hist_idx h - 1)), [])
      else if c = KEY_DOWN \<and> g_hist_idx h < g_hist_count h then
        (h\<lparr>g_hist_idx := g_hist_idx h + 1\<rparr>, take (mx - 1) (history_get h (g_hist_idx h + 1)), [])
      else if 32 \<le> c \<and> c < 127 \<and> length l + length r + 1 < mx then (h, l @ [word_of_int c], r)
      else (h, l, r))"

definition hist_ok :: "hist \<Rightarrow> bool" where
  "hist_ok h \<longleftrightarrow> length (g_history h) = 8 \<and> (\<forall>t \<in> set (g_history h). 0 \<notin> set t)"

lemma history_get_ok: "hist_ok h \<Longrightarrow> 0 \<notin> set (history_get h i)"
  by (simp add: hist_ok_def history_get_def HIST_MAX_def)

lemma hist_idx [simp]: "history_get (h\<lparr>g_hist_idx := i\<rparr>) j = history_get h j" "hist_ok (h\<lparr>g_hist_idx := i\<rparr>) = hist_ok h"
  by (simp_all add: history_get_def hist_ok_def)

lemma load_line_parts:
  assumes "length (lbuf e) = mx" "0 < mx" "0 \<notin> set h"
  shows "ed_ok mx (load_line e h mx)" "line_parts (load_line e h mx) = (take (mx - 1) h, [])"
proof -
  have hl: "(if length h \<ge> mx then mx - 1 else length h) = min (mx - 1) (length h)" using assms(2) by (auto simp: min_def)
  have t: "line_text (load_line e h mx) = take (mx - 1) h"
    using assms(1,2) by (simp add: line_text_def load_line_def Let_def hl min_def)
  show "line_parts (load_line e h mx) = (take (mx - 1) h, [])"
    unfolding line_parts_def t using assms(2) by (simp add: load_line_def Let_def hl min_def)
  have "0 \<notin> set (line_text (load_line e h mx))" unfolding t using assms(3) by (auto dest: in_set_takeD)
  then show "ed_ok mx (load_line e h mx)" using assms(1,2)
    by (simp add: ed_ok_def) (auto simp: load_line_def Let_def hl min_def)
qed

text \<open>Everything that is drawn keeps the console in order.\<close>

lemma print_ok: "console_ok g \<Longrightarrow> console_ok (foldl gpu_putc g s)" "console_ok g \<Longrightarrow> console_ok (gpu_print g s)"
  using console_print.run_safe by (simp_all add: gpu_print_def)

lemma prompt_ok: "console_ok g \<Longrightarrow> console_ok (shell_print_prompt g)"
  by (simp add: shell_print_prompt_def Let_def print_ok gpu_set_color_safe)

lemma redraw_ok: "console_ok (rgpu s) \<Longrightarrow> console_ok (rgpu (redraw s))"
  by (simp add: redraw_def shell_redraw_line_def Let_def print_ok prompt_ok)

lemma redraw_fields [simp]: "ed (redraw s) = ed s" "rhist (redraw s) = rhist s"
  by (simp_all add: redraw_def)

text \<open>The state of \<open>readline\<close>, and the line with a cursor it stands for.\<close>

definition rl_ok :: "nat \<Rightarrow> rl \<Rightarrow> bool" where
  "rl_ok mx s \<longleftrightarrow> ed_ok mx (ed s) \<and> hist_ok (rhist s) \<and> console_ok (rgpu s)"

definition rl_abs :: "rl \<Rightarrow> hist \<times> u8 list \<times> u8 list" where "rl_abs s = (rhist s, line_parts (ed s))"

lemma parts_length:
  assumes "ed_ok mx e" "line_parts e = (l, r)"
  shows "length l = lcpos e" "length r = lpos e - lcpos e" "line_text e = l @ r" "lcpos e \<le> lpos e"
proof -
  show "line_text e = l @ r" using assms(2) by (auto simp: line_parts_def)
  show "length l = lcpos e" "length r = lpos e - lcpos e" "lcpos e \<le> lpos e"
    using assms by (auto simp: ed_ok_def line_parts_def line_text_def min_def)
qed

lemma cursor_parts:
  assumes "ed_ok mx e" "k \<le> lpos e"
  shows "ed_ok mx (e\<lparr>lcpos := k\<rparr>)" "line_parts (e\<lparr>lcpos := k\<rparr>) = (take k (line_text e), drop k (line_text e))"
  using assms by (simp_all add: ed_ok_def line_parts_def line_text_def)

lemma rl_update:
  assumes "hist_ok h" "console_ok g" "ed_ok mx e" "line_parts e = lr"
  shows "rl_ok mx (redraw \<lparr>ed = e, rhist = h, rgpu = g\<rparr>) \<and> rl_abs (redraw \<lparr>ed = e, rhist = h, rgpu = g\<rparr>) = (h, lr)"
  using assms redraw_ok [of "\<lparr>ed = e, rhist = h, rgpu = g\<rparr>"] by (simp add: rl_ok_def rl_abs_def)

lemma readline_key_refines:
  assumes "rl_ok mx s" "0 < mx"
  shows "rl_ok mx (readline_key mx s c) \<and> rl_abs (readline_key mx s c) = zip_key mx (rl_abs s) c"
proof -
  obtain e h g where s: "s = \<lparr>ed = e, rhist = h, rgpu = g\<rparr>" by (cases s)
  obtain l r where lr: "line_parts e = (l, r)" by fastforce
  have ok: "ed_ok mx e" "hist_ok h" "console_ok g" using assms(1) by (simp_all add: rl_ok_def s)
  have same: "rl_ok mx s \<and> rl_abs s = (h, l, r)" using assms(1) lr by (simp add: rl_abs_def s)
  have len: "length l = lcpos e" "length r = lpos e - lcpos e" "line_text e = l @ r" "lcpos e \<le> lpos e" "length (lbuf e) = mx"
    using parts_length [OF ok(1) lr] ok(1) by (simp_all add: ed_ok_def)
  note upd = rl_update [OF ok(2,3)]
  have cur: "rl_ok mx (redraw (s\<lparr>ed := e\<lparr>lcpos := k\<rparr>\<rparr>)) \<and> rl_abs (redraw (s\<lparr>ed := e\<lparr>lcpos := k\<rparr>\<rparr>)) = (h, take k (l @ r), drop k (l @ r))"
    if "k \<le> lpos e" for k using upd cursor_parts [OF ok(1) that] len(3) by (simp add: s)
  have hist: "rl_ok mx (redraw \<lparr>ed = load_line e (history_get h i) mx, rhist = h\<lparr>g_hist_idx := i\<rparr>, rgpu = g\<rparr>) \<and>
      rl_abs (redraw \<lparr>ed = load_line e (history_get h i) mx, rhist = h\<lparr>g_hist_idx := i\<rparr>, rgpu = g\<rparr>) =
        (h\<lparr>g_hist_idx := i\<rparr>, take (mx - 1) (history_get h i), [])" for i
    using rl_update [OF _ ok(3), of "h\<lparr>g_hist_idx := i\<rparr>"] load_line_parts [OF len(5) assms(2) history_get_ok [OF ok(2)], of i] ok(2) by simp
  show ?thesis
  proof (cases "c \<in> {8, 3, KEY_DEL, KEY_LEFT, KEY_RIGHT, KEY_HOME, KEY_END, KEY_UP, KEY_DOWN}")
    case False
    have "(word_of_int c :: u8) \<noteq> 0" if "32 \<le> c" "c < 127"
    proof -
      have "uint (word_of_int c :: u8) = c" using that by (simp add: uint_word_of_int)
      then show ?thesis using that by auto
    qed
    moreover have "length l + length r + 1 < mx \<longleftrightarrow> lpos e + 1 < mx" using len by simp
    ultimately show ?thesis using False insert_parts [OF ok(1) _ _ lr, of c] upd same
      by (simp add: readline_key_def s) (simp add: rl_abs_def lr)
  next
    case True
    note simps = readline_key_def rl_abs_def lr key_defs
    consider "c = 8" | "c = 3" | "c = KEY_DEL" | "c = KEY_LEFT" | "c = KEY_RIGHT" | "c = KEY_HOME" | "c = KEY_END"
      | "c = KEY_UP" | "c = KEY_DOWN" using True by blast
    then show ?thesis
    proof cases
      case 1
      then show ?thesis using upd backspace_parts [OF ok(1) _ lr] same len(1) by (cases "l = []") (auto simp: s simps)
    next
      case 2
      have "ed_ok mx \<lparr>lbuf = (lbuf e)[0 := 0], lpos = 0, lcpos = 0\<rparr>" "line_parts \<lparr>lbuf = (lbuf e)[0 := 0], lpos = 0, lcpos = 0\<rparr> = ([], [])"
        using len(5) assms(2) by (simp_all add: ed_ok_def line_parts_def line_text_def)
      with rl_update [OF ok(2) print_ok(2) [OF ok(3)] this] 2 show ?thesis by (simp add: s simps)
    next
      case 3
      then show ?thesis using upd [OF delete_parts [OF ok(1) lr]] by (simp add: s simps)
    next
      case 4
      then show ?thesis using cur [of "lcpos e - 1"] same len by (cases l rule: rev_cases) (auto simp: s simps)
    next
      case 5
      then show ?thesis using cur [of "lcpos e + 1"] same len by (cases r) (auto simp: s simps)
    next
      case 6
      then show ?thesis using cur [of 0] by (simp add: s simps)
    next
      case 7
      then show ?thesis using cur [of "lpos e"] len by (simp add: s simps)
    next
      case 8
      then show ?thesis using hist [of "g_hist_idx h - 1"] same by (simp add: s simps Let_def)
    next
      case 9
      then show ?thesis using hist [of "g_hist_idx h + 1"] same by (simp add: s simps Let_def)
    qed
  qed
qed

lemma readline_loop_refines:
  assumes "rl_ok mx s" "0 < mx" "10 \<notin> set ks"
  shows "\<exists>s'. readline_loop mx s (ks @ 10 # rest) = Some (s', rest) \<and> rl_ok mx s' \<and>
     rl_abs s' = foldl (zip_key mx) (rl_abs s) (filter (\<lambda>c. c \<noteq> 0) ks)"
  using assms(1,3)
proof (induction ks arbitrary: s)
  case Nil
  let ?e = "(ed s)\<lparr>lbuf := (lbuf (ed s))[lpos (ed s) := 0]\<rparr>"
  have "?e = ed s" using Nil(1) by (cases "ed s") (simp add: rl_ok_def ed_ok_def list_update_same_conv)
  then show ?case using Nil gpu_putc_step [of "rgpu s" 10] by (cases s) (simp add: rl_ok_def rl_abs_def)
next
  case (Cons c ks)
  then show ?case using readline_key_refines [OF Cons.prems(1) assms(2), of c] Cons.IH [of "readline_key mx s c"] by auto
qed

section \<open>The history\<close>

definition hist_empty :: hist where "hist_empty = \<lparr>g_history = replicate 8 [], g_hist_count = 0, g_hist_idx = 0\<rparr>"

text \<open>Lines that are stored as they are: not empty, short enough for the buffer, and different from the line before.\<close>

fun storable :: "u8 list list \<Rightarrow> bool" where
  "storable (a # b # ls) \<longleftrightarrow> a \<noteq> [] \<and> length a < 256 \<and> a \<noteq> b \<and> storable (b # ls)"
| "storable [a] \<longleftrightarrow> a \<noteq> [] \<and> length a < 256"
| "storable [] \<longleftrightarrow> True"

lemma storable_snoc: "storable (ls @ [a]) \<longleftrightarrow> storable ls \<and> a \<noteq> [] \<and> length a < 256 \<and> (ls = [] \<or> last ls \<noteq> a)"
  by (induction ls rule: storable.induct) auto

text \<open>Slot \<open>j\<close> of the history holds the last line whose number is \<open>j\<close> modulo 8.\<close>

definition slots_ok :: "hist \<Rightarrow> u8 list list \<Rightarrow> bool" where
  "slots_ok h ls \<longleftrightarrow> length (g_history h) = 8 \<and> g_hist_count h = length ls \<and> g_hist_idx h = length ls \<and>
     (\<forall>i < length ls. length ls \<le> i + 8 \<longrightarrow> g_history h ! (i mod 8) = ls ! i)"

lemma history_add_slots:
  assumes "slots_ok h ls" "storable (ls @ [a])"
  shows "slots_ok (history_add h a) (ls @ [a])"
proof -
  have a: "a \<noteq> []" "length a < 256" "ls = [] \<or> last ls \<noteq> a" using assms(2) by (simp_all add: storable_snoc)
  have new: "\<not> (g_hist_count h > 0 \<and> g_history h ! ((g_hist_count h - 1) mod HIST_MAX) = a)"
    using assms(1) a(3) by (auto simp: slots_ok_def last_conv_nth HIST_MAX_def)
  have h: "history_add h a = \<lparr>g_history = (g_history h)[length ls mod 8 := a], g_hist_count = Suc (length ls), g_hist_idx = Suc (length ls)\<rparr>"
    using a new assms(1) by (auto simp: history_add_def Let_def slots_ok_def HIST_MAX_def SHELL_LINE_MAX_def)
  have ne: "length ls mod 8 \<noteq> i mod 8" if "i < length ls" "length ls < i + 8" for i
  proof
    assume "length ls mod 8 = i mod 8"
    then have "8 dvd length ls - i" using that by (simp add: mod_eq_dvd_iff_nat)
    then have "8 \<le> length ls - i" using that by (intro dvd_imp_le) auto
    then show False using that by simp
  qed
  show ?thesis using assms(1) ne unfolding slots_ok_def h
    by (auto simp: nth_append nth_list_update less_Suc_eq)
qed

lemma history_slots: "storable ls \<Longrightarrow> slots_ok (foldl history_add hist_empty ls) ls"
proof (induction ls rule: rev_induct)
  case Nil
  then show ?case by (simp add: slots_ok_def hist_empty_def)
next
  case (snoc a ls)
  then show ?case using history_add_slots [of "foldl history_add hist_empty ls" ls a] by (simp add: storable_snoc)
qed

section \<open>Addresses\<close>

lemma digit_step:
  "d < 10 \<Longrightarrow> n * 10 + int d \<le> 255 \<Longrightarrow> ip_digits n ((48 + of_nat d) # s) = ip_digits (n * 10 + int d) s"
  "d < 10 \<Longrightarrow> is_digit (48 + of_nat d)"
  using digit_byte [of d] by (simp_all add: is_digit_def Let_def)

lemma ip_digits_end: "s = [] \<or> \<not> is_digit (hd s) \<Longrightarrow> ip_digits n s = Some (n, s)"
  by (cases s) auto

lemma unat_u8: "unat (n :: u8) < 256"
  using unsigned_less [of n] by simp

lemma ip_part_nat:
  "ip_part n = (let k = unat n in (if k \<ge> 100 then [48 + of_nat (k div 100)] else []) @
     (if k \<ge> 10 then [48 + of_nat (k div 10 mod 10)] else []) @ [48 + of_nat (k mod 10)])"
proof -
  have w: "n div 100 = of_nat (unat n div 100)" "n div 10 mod 10 = of_nat (unat n div 10 mod 10)" "n mod 10 = of_nat (unat n mod 10)"
    using unat_u8 [of n] by (simp_all add: word_unat_eq_iff unat_div unat_mod unat_of_nat)
  show ?thesis unfolding ip_part_def w by (simp add: Let_def word_le_nat_alt)
qed

lemma digits_2:
  assumes "s = [] \<or> \<not> is_digit (hd s)" "b < 10" "c < 10"
  shows "ip_digits 0 ((48 + of_nat b) # (48 + of_nat c) # s) = Some (int (b * 10 + c), s)"
  using assms digit_step(1) [of b 0] digit_step(1) [of c "int b"] ip_digits_end by (simp del: ip_digits.simps)

lemma digits_3:
  assumes "s = [] \<or> \<not> is_digit (hd s)" "a < 10" "b < 10" "c < 10" "a * 100 + b * 10 + c \<le> 255"
  shows "ip_digits 0 ((48 + of_nat a) # (48 + of_nat b) # (48 + of_nat c) # s) = Some (int (a * 100 + b * 10 + c), s)"
proof -
  have "int (a * 100 + b * 10 + c) \<le> 255" using assms(5) by simp
  then show ?thesis using assms(1-4) digit_step(1) [of a 0] digit_step(1) [of b "int a"] digit_step(1) [of c "int a * 10 + int b"]
      ip_digits_end by (simp del: ip_digits.simps)
qed

lemma ip_part_digits:
  assumes "s = [] \<or> \<not> is_digit (hd s)"
  shows "ip_digits 0 (ip_part n @ s) = Some (uint n, s)" "ip_part n \<noteq> []" "is_digit (hd (ip_part n))"
proof -
  let ?k = "unat n"
  have k: "?k < 256" by (rule unat_u8)
  have d: "?k div 100 < 10" "?k div 10 mod 10 < 10" "?k mod 10 < 10" using k by auto
  have h: "?k div 100 = ?k div 10 div 10" by (simp flip: div_mult2_eq)
  then have e: "(?k div 100) * 100 + (?k div 10 mod 10) * 10 + ?k mod 10 = ?k"
    using div_mult_mod_eq [of ?k 10] div_mult_mod_eq [of "?k div 10" 10] by linarith
  then have e2: "?k < 100 \<Longrightarrow> (?k div 10 mod 10) * 10 + ?k mod 10 = ?k" by simp
  show "ip_part n \<noteq> []" "is_digit (hd (ip_part n))" using d digit_step(2) digit_step(2) [of ?k] by (auto simp: ip_part_nat Let_def)
  consider "?k < 10" | "10 \<le> ?k" "?k < 100" | "100 \<le> ?k" by (meson not_le)
  then show "ip_digits 0 (ip_part n @ s) = Some (uint n, s)"
  proof cases
    case 1
    have "0 * 10 + int ?k \<le> 255" using k by linarith
    with 1 show ?thesis using digit_step(1) [of ?k 0 s] ip_digits_end [OF assms] by (simp add: ip_part_nat Let_def del: ip_digits.simps)
  next
    case 2
    from digits_2 [OF assms d(2,3)] show ?thesis using 2 e2 by (simp add: ip_part_nat Let_def del: ip_digits.simps)
  next
    case 3
    have "(?k div 100) * 100 + (?k div 10 mod 10) * 10 + ?k mod 10 \<le> 255" using e k by linarith
    from digits_3 [OF assms d this] show ?thesis using 3 unfolding e by (simp add: ip_part_nat Let_def del: ip_digits.simps)
  qed
qed

lemma ip_parts_step:
  assumes "s = [] \<or> \<not> is_digit (hd s)"
  shows "ip_parts (Suc k) part (ip_part n @ s) ip =
     (if part < 3 \<and> (s = [] \<or> hd s \<noteq> 46) then None
      else ip_parts k (Suc part) (if part < 3 then tl s else s) (ip OR push_bit (8 * part) (ucast n)))"
proof -
  have w: "(word_of_int (uint n) :: u32) = ucast n" by (rule ucast_eq [symmetric])
  have h: "\<not> (ip_part n @ s = [] \<or> \<not> is_digit (hd (ip_part n @ s)))" using ip_part_digits(2,3) [OF assms, of n] by simp
  show ?thesis unfolding ip_parts.simps(2) if_not_P [OF h] ip_part_digits(1) [OF assms] option.case prod.case w ..
qed

lemma byte_and: "(ucast (x AND 0xFF :: u32) :: u8) = ucast x"
proof -
  have "x AND 0xFF = take_bit 8 x" by (simp add: take_bit_eq_mask mask_numeral)
  then show ?thesis by (auto intro: bit_word_eqI simp: bit_ucast_iff bit_take_bit_iff)
qed

lemma ip_bytes:
  "push_bit (8 * 0) (ucast (ucast (drop_bit (8 * 0) ip) :: u8)) OR push_bit (8 * 1) (ucast (ucast (drop_bit (8 * 1) ip) :: u8)) OR
   push_bit (8 * 2) (ucast (ucast (drop_bit (8 * 2) ip) :: u8)) OR push_bit (8 * 3) (ucast (ucast (drop_bit (8 * 3) ip) :: u8)) = (ip :: u32)"
proof (rule bit_word_eqI)
  fix n assume n: "n < LENGTH(32)"
  have b: "bit (push_bit (8 * k) (ucast (ucast (drop_bit (8 * k) ip) :: u8)) :: u32) n \<longleftrightarrow> 8 * k \<le> n \<and> n < 8 * k + 8 \<and> bit ip n" for k
    using n by (auto simp: bit_push_bit_iff bit_ucast_iff bit_drop_bit_eq)
  have "n < 8 \<or> 8 \<le> n \<and> n < 16 \<or> 16 \<le> n \<and> n < 24 \<or> 24 \<le> n \<and> n < 32" using n by auto
  then show "bit (push_bit (8 * 0) (ucast (ucast (drop_bit (8 * 0) ip) :: u8)) OR push_bit (8 * 1) (ucast (ucast (drop_bit (8 * 1) ip) :: u8)) OR
   push_bit (8 * 2) (ucast (ucast (drop_bit (8 * 2) ip) :: u8)) OR push_bit (8 * 3) (ucast (ucast (drop_bit (8 * 3) ip) :: u8)) :: u32) n = bit ip n"
    using b [of 0] b [of 1] b [of 2] b [of 3] n by (simp add: bit_or_iff) blast
qed

lemma parse_print_ip: "parse_ip (print_ip ip) = Some ip"
proof -
  let ?n = "\<lambda>k. ucast (drop_bit (8 * k) ip) :: u8"
  have dot: "\<not> is_digit 46" by (simp add: is_digit_def)
  have p: "print_ip ip = ip_part (?n 0) @ 46 # ip_part (?n 1) @ 46 # ip_part (?n 2) @ 46 # ip_part (?n 3) @ []"
    by (simp only: print_ip_def byte_and Let_def append.simps append_Nil2)
  have four: "(4 :: nat) = Suc (Suc (Suc (Suc 0)))" by simp
  have "parse_ip (print_ip ip) = ip_parts 0 4 [] ((((0 OR push_bit (8 * 0) (ucast (?n 0))) OR push_bit (8 * 1) (ucast (?n 1))) OR
      push_bit (8 * 2) (ucast (?n 2))) OR push_bit (8 * 3) (ucast (?n 3)))"
    unfolding parse_ip_def p four
    by (simp add: ip_parts_step dot del: ip_parts.simps(2) append_Nil2)
  also have "\<dots> = Some ip" using ip_bytes [of ip] by (simp add: or.assoc)
  finally show ?thesis .
qed

section \<open>Words and paths\<close>

text \<open>A text cut at every byte of a kind, and the parts that are not empty.\<close>

fun split_at :: "(u8 \<Rightarrow> bool) \<Rightarrow> u8 list \<Rightarrow> u8 list list" where
  "split_at P [] = [[]]"
| "split_at P (c # s) = (if P c then [] # split_at P s else (c # hd (split_at P s)) # tl (split_at P s))"

definition pieces :: "(u8 \<Rightarrow> bool) \<Rightarrow> u8 list \<Rightarrow> u8 list list" where
  "pieces P s = filter (\<lambda>w. w \<noteq> []) (split_at P s)"

declare dropWhile_eq_Nil_conv [simp del]

lemma split_at_not_Nil [simp]: "split_at P s \<noteq> []"
  by (cases s) auto

lemma pieces_skip: "pieces P (dropWhile P s) = pieces P s"
  by (induction s) (auto simp: pieces_def)

lemma split_at_word: "split_at P (takeWhile (\<lambda>c. \<not> P c) s @ rest) = (takeWhile (\<lambda>c. \<not> P c) s @ hd (split_at P rest)) # tl (split_at P rest)"
  by (induction s) auto

lemma pieces_step:
  assumes "s \<noteq> []" "\<not> P (hd s)"
  shows "pieces P s = takeWhile (\<lambda>c. \<not> P c) s # pieces P (drop 1 (dropWhile (\<lambda>c. \<not> P c) s))"
    "pieces P (dropWhile (\<lambda>c. \<not> P c) s) = pieces P (drop 1 (dropWhile (\<lambda>c. \<not> P c) s))"
proof -
  let ?w = "takeWhile (\<lambda>c. \<not> P c) s" and ?r = "dropWhile (\<lambda>c. \<not> P c) s"
  have w: "?w \<noteq> []" using assms by (cases s) auto
  have s: "split_at P s = (?w @ hd (split_at P ?r)) # tl (split_at P ?r)" using split_at_word [of P s ?r] by simp
  have "?r = [] \<or> (\<exists>c r. ?r = c # r \<and> P c)" using hd_dropWhile [of "\<lambda>c. \<not> P c" s] by (cases ?r) auto
  then show "pieces P s = ?w # pieces P (drop 1 ?r)" "pieces P ?r = pieces P (drop 1 ?r)"
    using s w by (auto simp: pieces_def simp del: dropWhile_eq_Nil_conv)
qed

lemma pieces_blank: "dropWhile P s = [] \<Longrightarrow> pieces P s = []"
  using pieces_skip [of P s] by (simp add: pieces_def)

lemma dropWhile_end: "dropWhile P s = c # r \<Longrightarrow> \<not> P c"
  using hd_dropWhile [of P s] by simp

lemma tok_loop_pieces: "tok_loop mx n s = take (mx - 1 - n) (pieces is_blank s)"
proof (induction mx n s rule: tok_loop.induct)
  case (1 mx n s)
  let ?s = "dropWhile is_blank s"
  show ?case
  proof (cases "?s = [] \<or> n + 1 \<ge> mx")
    case True
    then show ?thesis using pieces_blank [of is_blank s] by (subst tok_loop.simps) (auto simp: Let_def)
  next
    case False
    then have "\<not> is_blank (hd ?s)" using hd_dropWhile by blast
    then have "pieces is_blank s = takeWhile (\<lambda>c. \<not> is_blank c) ?s # pieces is_blank (drop 1 (dropWhile (\<lambda>c. \<not> is_blank c) ?s))"
      using False pieces_step(1) [of ?s is_blank] pieces_skip [of is_blank s] by simp
    moreover have "mx - 1 - n = Suc (mx - 1 - (n + 1))" using False by auto
    ultimately show ?thesis using False 1 by (subst tok_loop.simps) (simp add: Let_def)
  qed
qed

abbreviation comps :: "u8 list \<Rightarrow> u8 list list" where "comps \<equiv> pieces (\<lambda>c. c = 47)"

text \<open>The components that remain, with the limit of 32 and without it.\<close>

fun norm_comps :: "u8 list list \<Rightarrow> u8 list list \<Rightarrow> u8 list list option" where
  "norm_comps [] st = Some st"
| "norm_comps (c # cs) st =
     (if c = [46] then norm_comps cs st else if c = [46, 46] then norm_comps cs (butlast st)
      else if length st \<ge> 32 then None else norm_comps cs (st @ [c]))"

definition resolve_comps :: "u8 list list \<Rightarrow> u8 list list" where
  "resolve_comps cs = foldl (\<lambda>st c. if c = [46] then st else if c = [46, 46] then butlast st else st @ [c]) [] cs"

definition path_text :: "u8 list list \<Rightarrow> u8 list" where
  "path_text st = (if st = [] then [47] else concat (map (\<lambda>c. 47 # c) st))"

lemma norm_loop_comps: "norm_loop p st = norm_comps (comps p) st"
proof (induction p st rule: norm_loop.induct)
  case (1 p st)
  let ?p = "dropWhile (\<lambda>c. c = 47) p"
  show ?case
  proof (cases "?p = []")
    case True
    then show ?thesis using pieces_blank [of "\<lambda>c. c = 47" p] by (subst norm_loop.simps) simp
  next
    case False
    then have "hd ?p \<noteq> 47" using hd_dropWhile by blast
    then have "comps p = takeWhile (\<lambda>c. c \<noteq> 47) ?p # comps (dropWhile (\<lambda>c. c \<noteq> 47) ?p)"
      using False pieces_step [of ?p "\<lambda>c. c = 47"] pieces_skip [of "\<lambda>c. c = 47" p] by simp
    then show ?thesis using False 1(1) [OF refl _ refl refl] 1(2) [OF refl _ refl refl] 1(3) [OF refl _ refl refl]
      by (subst norm_loop.simps) (simp add: Let_def)
  qed
qed

lemma norm_comps_resolve:
  "norm_comps cs st = Some st' \<Longrightarrow> length st \<le> 32 \<Longrightarrow>
     st' = foldl (\<lambda>st c. if c = [46] then st else if c = [46, 46] then butlast st else st @ [c]) st cs \<and> length st' \<le> 32"
  by (induction cs st rule: norm_comps.induct) (fastforce split: if_splits)+

lemma norm_write_more:
  "norm_write mx False out st =
     (if st = [] \<or> length (out @ concat (map (\<lambda>c. 47 # c) st)) < mx then Some (out @ concat (map (\<lambda>c. 47 # c) st)) else None)"
proof (induction st arbitrary: out)
  case (Cons c st)
  then show ?case by (cases "st = []") (auto simp: Let_def)
qed simp

lemma norm_write_text:
  "1 < mx \<Longrightarrow> norm_write mx True [47] st = (if length (path_text st) < mx then Some (path_text st) else None)"
  by (cases st) (auto simp: norm_write_more path_text_def)

text \<open>The path written back is cut into the same components.\<close>

lemma pieces_comp:
  assumes "c \<noteq> []" "47 \<notin> set c" "s = [] \<or> hd s = 47"
  shows "comps (47 # c @ s) = c # comps s"
proof -
  have tw: "takeWhile (\<lambda>x. x \<noteq> 47) (c @ s) = c" "dropWhile (\<lambda>x. x \<noteq> 47) (c @ s) = s"
    using assms(2,3) by (induction c) (cases s; auto)+
  have "comps (47 # c @ s) = comps (c @ s)" by (simp add: pieces_def)
  also have "\<dots> = c # comps s" using pieces_step [of "c @ s" "\<lambda>x. x = 47"] assms tw by (cases c) auto
  finally show ?thesis .
qed

lemma comps_path_text:
  "\<forall>c\<in>set st. c \<noteq> [] \<and> 47 \<notin> set c \<Longrightarrow> comps (concat (map (\<lambda>c. 47 # c) st)) = st"
proof (induction st)
  case (Cons c st)
  have "concat (map (\<lambda>c. 47 # c) st) = [] \<or> hd (concat (map (\<lambda>c. 47 # c) st)) = 47" by (cases st) auto
  with Cons pieces_comp [of c "concat (map (\<lambda>c. 47 # c) st)"] show ?case by simp
qed (simp add: pieces_def)

lemma pieces_parts: "c \<in> set (pieces P s) \<Longrightarrow> c \<noteq> [] \<and> (\<forall>x\<in>set c. \<not> P x)"
proof -
  have "c \<in> set (split_at P s) \<Longrightarrow> \<forall>x\<in>set c. \<not> P x"
  proof (induction s arbitrary: c)
    case (Cons a s)
    have h: "hd (split_at P s) \<in> set (split_at P s)" "set (tl (split_at P s)) \<subseteq> set (split_at P s)"
      by (simp, metis list.set_sel(2) split_at_not_Nil subsetI)
    show ?case using Cons.prems h(2) Cons.IH [OF h(1)] Cons.IH by (auto split: if_splits)
  qed simp
  then show "c \<in> set (pieces P s) \<Longrightarrow> c \<noteq> [] \<and> (\<forall>x\<in>set c. \<not> P x)" by (simp add: pieces_def)
qed

lemma resolve_comps_mem: "c \<in> set (resolve_comps cs) \<Longrightarrow> c \<in> set cs \<and> c \<noteq> [46] \<and> c \<noteq> [46, 46]"
proof (induction cs rule: rev_induct)
  case (snoc a cs)
  then show ?case by (auto simp: resolve_comps_def split: if_splits dest: in_set_butlastD)
qed (simp add: resolve_comps_def)

lemma norm_comps_plain:
  "\<forall>c\<in>set cs. c \<noteq> [46] \<and> c \<noteq> [46, 46] \<Longrightarrow> length st + length cs \<le> 32 \<Longrightarrow> norm_comps cs st = Some (st @ cs)"
  by (induction cs arbitrary: st) auto

lemma normalize_path_spec:
  assumes "1 < mx" "normalize_path p mx = Some out"
  shows "out = path_text (resolve_comps (comps p))" "length out < mx" "normalize_path out mx = Some out"
proof -
  obtain st where st: "norm_comps (comps p) [] = Some st" "norm_write mx True [47] st = Some out"
    using assms by (auto simp: normalize_path_def norm_loop_comps split: option.splits)
  have "length ([] :: u8 list list) \<le> 32" by simp
  from norm_comps_resolve [OF st(1) this] have r: "st = resolve_comps (comps p)" "length st \<le> 32"
    unfolding resolve_comps_def by blast+
  show o: "out = path_text (resolve_comps (comps p))" "length out < mx"
    using st(2) r norm_write_text [OF assms(1)] by (auto split: if_splits)
  have ok: "c \<noteq> [] \<and> 47 \<notin> set c" "c \<noteq> [46] \<and> c \<noteq> [46, 46]" if "c \<in> set st" for c
  proof -
    have "c \<in> set (resolve_comps (comps p))" using that unfolding r(1) .
    then have c: "c \<in> set (comps p)" "c \<noteq> [46] \<and> c \<noteq> [46, 46]" using resolve_comps_mem by blast+
    then show "c \<noteq> [] \<and> 47 \<notin> set c" "c \<noteq> [46] \<and> c \<noteq> [46, 46]" using pieces_parts [OF c(1)] by blast+
  qed
  have "comps (path_text st) = st"
  proof (cases "st = []")
    case False
    then show ?thesis using comps_path_text [of st] ok(1) by (simp add: path_text_def)
  qed (simp add: path_text_def pieces_def)
  then have "comps out = st" using o(1) r(1) by simp
  moreover have "norm_comps st [] = Some st" using norm_comps_plain [of st "[]"] ok(2) r(2) by simp
  moreover have "norm_write mx True [47] st = Some out" by (rule st(2))
  ultimately show "normalize_path out mx = Some out"
    using assms(1) by (simp add: normalize_path_def norm_loop_comps)
qed

section \<open>Properties\<close>

text \<open>A shell about to read a line.\<close>

definition rl_zero :: rl where
  "rl_zero = \<lparr>ed = \<lparr>lbuf = replicate 256 7, lpos = 3, lcpos = 9\<rparr>, rhist = hist_empty, rgpu = text_mode\<rparr>"

text \<open>
  C28: reading a line with cursor keys, deletions and the history gives the line that the same keys give in
  an editor on two lists, before and behind the cursor; the line always fits the buffer with its zero,
  and the keys after the end of the line are left for the next reader.
\<close>

theorem readline_refines:
  assumes "length (lbuf (ed s)) = mx" "0 < mx" "hist_ok (rhist s)" "console_ok (rgpu s)" "10 \<notin> set ks"
    "readline mx s (ks @ 10 # rest) = r"
    "foldl (zip_key mx) (rhist s, [], []) (filter (\<lambda>c. c \<noteq> 0) ks) = (h, before, behind)"
  shows "\<exists>s'. r = Some (s', rest) \<and> line_text (ed s') = before @ behind \<and> lcpos (ed s') = length before \<and>
     ed_ok mx (ed s') \<and> rhist s' = h \<and> console_ok (rgpu s')"
proof -
  let ?s = "s\<lparr>ed := \<lparr>lbuf = (lbuf (ed s))[0 := 0], lpos = 0, lcpos = 0\<rparr>\<rparr>"
  have "rl_ok mx ?s" "rl_abs ?s = (rhist s, [], [])"
    using assms(1-4) by (simp_all add: rl_ok_def ed_ok_def line_text_def rl_abs_def line_parts_def)
  with readline_loop_refines [OF _ assms(2,5), of ?s rest]
  obtain s' where s': "r = Some (s', rest)" "rl_ok mx s'" "rl_abs s' = (h, before, behind)"
    using assms(6,7) by (auto simp: readline_def)
  then have "line_parts (ed s') = (before, behind)" "rhist s' = h" "ed_ok mx (ed s')" "console_ok (rgpu s')"
    by (simp_all add: rl_abs_def rl_ok_def)
  with parts_length [OF this(3,1)] s'(1) show ?thesis by simp
qed

lemma readline_refines_witness:
  "\<exists>s'. readline 256 rl_zero ([97, 98, KEY_LEFT, 0, 99, KEY_DEL] @ 10 # [100]) = Some (s', [100]) \<and> line_text (ed s') = [97, 99]"
proof -
  have "hist_ok hist_empty" by (simp add: hist_ok_def hist_empty_def)
  then have ok: "length (lbuf (ed rl_zero)) = 256" "hist_ok (rhist rl_zero)" "console_ok (rgpu rl_zero)"
    by (simp_all add: rl_zero_def)
  have "foldl (zip_key 256) (rhist rl_zero, [], []) (filter (\<lambda>c. c \<noteq> 0) [97, 98, KEY_LEFT, 0, 99, KEY_DEL]) = (rhist rl_zero, [97, 99], [])"
    by (simp add: key_defs)
  from readline_refines [OF ok(1) _ ok(2,3) _ refl this, of "[100]"] show ?thesis by (simp add: key_defs) blast
qed

text \<open>
  After lines are entered, line number \<open>i\<close> of the history is the entered line of that number as long as
  it is one of the last eight; for an older number it is the newest line whose number is the same modulo eight,
  although going up in \<open>readline\<close> reaches every number down to 0.
\<close>

theorem history_recalls:
  assumes "storable ls" "i < length ls"
  shows "history_get (foldl history_add hist_empty ls) i = ls ! (i + 8 * ((length ls - 1 - i) div 8))"
proof -
  let ?j = "i + 8 * ((length ls - 1 - i) div 8)"
  have "8 * ((length ls - 1 - i) div 8) \<le> length ls - 1 - i" by simp
  moreover have "length ls - 1 - i < 8 * ((length ls - 1 - i) div 8) + 8"
    using div_mult_mod_eq [of "length ls - 1 - i" 8] mod_less_divisor [of 8 "length ls - 1 - i"] by linarith
  ultimately have "?j < length ls" "length ls \<le> ?j + 8" using assms(2) by linarith+
  then have "g_history (foldl history_add hist_empty ls) ! (?j mod 8) = ls ! ?j"
    using history_slots [OF assms(1)] unfolding slots_ok_def by blast
  then show ?thesis using history_slots [OF assms(1)] assms(2)
    by (simp add: history_get_def slots_ok_def HIST_MAX_def)
qed

lemma history_recalls_witness:
  "history_get (foldl history_add hist_empty [[1], [2], [3], [4], [5], [6], [7], [8], [9]]) 0 = [9] \<and>
   history_get (foldl history_add hist_empty [[1], [2], [3], [4], [5], [6], [7], [8], [9]]) 3 = [4]"
  using history_recalls [of "[[1], [2], [3], [4], [5], [6], [7], [8], [9]]" 0]
    history_recalls [of "[[1], [2], [3], [4], [5], [6], [7], [8], [9]]" 3] by simp

text \<open>
  Every IP address is read back from the text that \<open>print_ip\<close> writes for it.
\<close>

theorem ip_roundtrip: "parse_ip (print_ip ip) = Some ip"
  by (rule parse_print_ip)

text \<open>
  C29: a command line is cut into its words, the parts between blanks and tabs that are not empty, of which
  the first fifteen are kept.
\<close>

theorem tokenize_words: "tokenize line SHELL_TOKEN_MAX = take 15 (pieces is_blank line)"
  by (simp add: tokenize_def tok_loop_pieces SHELL_TOKEN_MAX_def)

text \<open>
  C30: resolving a path gives an absolute path that fits the buffer: the components of the current directory
  and the path in turn, without empty ones and single dots, every double dot taking away the component
  before it and none above the root; resolving the result again changes nothing.
\<close>

theorem resolve_path_normal:
  assumes "resolve_path cwd p CWD_MAX = Some out"
  shows "out = path_text (resolve_comps (comps (if p = [] then take 511 cwd else if hd p = 47 then take 511 p else cwd @ [47] @ p))) \<and>
     length out < CWD_MAX \<and> resolve_path cwd' out CWD_MAX = Some out"
proof -
  define q where "q = (if p = [] then take 511 cwd else if hd p = 47 then take 511 p else cwd @ [47] @ p)"
  have "normalize_path q CWD_MAX = Some out"
    using assms by (auto simp: resolve_path_def q_def CWD_MAX_def SHELL_LINE_MAX_def Let_def split: if_splits)
  with normalize_path_spec [of CWD_MAX q out]
  have o: "out = path_text (resolve_comps (comps q))" "length out < CWD_MAX" "normalize_path out CWD_MAX = Some out"
    by (simp_all add: CWD_MAX_def)
  have "out \<noteq> []" "hd out = 47" unfolding o(1) path_text_def by (cases "resolve_comps (comps q)"; simp)+
  moreover have "take 511 out = out" using o(2) by (simp add: CWD_MAX_def)
  ultimately have "resolve_path cwd' out CWD_MAX = Some out"
    using o(3) by (simp add: resolve_path_def Let_def CWD_MAX_def SHELL_LINE_MAX_def)
  then show ?thesis using o q_def by simp
qed

lemma resolve_path_normal_witness:
  "resolve_path [47, 97, 47, 98] [46, 46, 47, 99] CWD_MAX = Some [47, 97, 47, 99] \<and>
   resolve_path [47] [47, 97, 47, 99] CWD_MAX = Some [47, 97, 47, 99]"
proof -
  have "resolve_path [47, 97, 47, 98] [46, 46, 47, 99] CWD_MAX = Some [47, 97, 47, 99]"
    by (simp add: resolve_path_def CWD_MAX_def SHELL_LINE_MAX_def Let_def normalize_path_def norm_loop.simps)
  with resolve_path_normal [OF this, of "[47]"] show ?thesis by blast
qed

declare dropWhile_eq_Nil_conv [simp]

end
