(* ===== verification/KShellRun.thy ===== *)
theory KShellRun
  imports KShellCmds KShellSpec NetSpec
begin

text \<open>
  What every command line of the shell keeps: the current directory is an absolute path without empty, dot and dot dot
  components that fits its buffer, the cursor of the console lies in the viewport, and the history holds strings.
\<close>

section \<open>The invariant\<close>

definition cwd_ok :: "u8 list \<Rightarrow> bool" where
  "cwd_ok c \<longleftrightarrow> length c < CWD_MAX \<and> normalize_path c CWD_MAX = Some c"

definition shell_ok :: "'d kshell \<Rightarrow> bool" where
  "shell_ok s \<longleftrightarrow> cwd_ok (g_cwd s) \<and> console_ok (sgpu s) \<and> hist_ok (shist s)"

named_theorems shell_keeps

lemma cwd_resolved: "resolve_path c p CWD_MAX = Some out \<Longrightarrow> cwd_ok out"
proof -
  assume "resolve_path c p CWD_MAX = Some out"
  then obtain q where "normalize_path q CWD_MAX = Some out"
    by (auto simp: resolve_path_def Let_def split: if_splits)
  then show ?thesis using normalize_path_spec [of CWD_MAX q out] by (simp add: cwd_ok_def CWD_MAX_def)
qed

lemma say_ok [shell_keeps]: "shell_ok s \<Longrightarrow> shell_ok (say t s)"
  by (simp add: shell_ok_def say_def print_ok)

lemma paint_ok [shell_keeps]: "shell_ok s \<Longrightarrow> shell_ok (paint c s)"
  by (simp add: shell_ok_def paint_def gpu_set_color_safe)

lemma parts_ok [simp]:
  "shell_ok (s\<lparr>snet := n\<rparr>) = shell_ok s" "shell_ok (s\<lparr>spci := p\<rparr>) = shell_ok s" "shell_ok (s\<lparr>svfs := v\<rparr>) = shell_ok s"
  by (simp_all add: shell_ok_def)

lemma clear_ok: "console_ok g \<Longrightarrow> console_ok (gpu_clear g f k)"
  using gpu_clear_step [of g f k] con_ok_step [of g "gpu_clear g f k"]
  by (auto simp: console_ok_def intro: le_less_trans [OF word_zero_le])

lemma history_add_ok: "hist_ok h \<Longrightarrow> 0 \<notin> set l \<Longrightarrow> hist_ok (history_add h l)"
  by (auto simp: hist_ok_def history_add_def Let_def dest!: set_update_subset_insert [THEN subsetD] in_set_takeD)

section \<open>The commands\<close>

lemma info_ok [shell_keeps]:
  "shell_ok s \<Longrightarrow> shell_ok (cmd_help s)" "shell_ok s \<Longrightarrow> shell_ok (cmd_gpuinfo s)" "shell_ok s \<Longrightarrow> shell_ok (cmd_ps s)"
  "shell_ok s \<Longrightarrow> shell_ok (cmd_uptime tk s)" "shell_ok s \<Longrightarrow> shell_ok (two_digits v s)" "shell_ok s \<Longrightarrow> shell_ok (print_date t s)"
  by (simp_all add: cmd_help_def cmd_gpuinfo_def cmd_ps_def cmd_uptime_def two_digits_def print_date_def Let_def shell_keeps)

lemma clear_cmd_ok [shell_keeps]: "shell_ok s \<Longrightarrow> shell_ok (cmd_clear s)"
  by (simp add: cmd_clear_def shell_ok_def clear_ok)

lemma date_ok [shell_keeps]: "shell_ok s \<Longrightarrow> shell_ok (cmd_date t s)"
  by (simp add: cmd_date_def Let_def shell_keeps)

lemma neofetch_ok [shell_keeps]: "shell_ok s \<Longrightarrow> shell_ok (cmd_neofetch t s)"
  by (simp add: cmd_neofetch_def Let_def shell_keeps split: prod.splits option.splits)

lemma net_cmds_ok [shell_keeps]:
  "shell_ok s \<Longrightarrow> shell_ok (cmd_ip s)" "shell_ok s \<Longrightarrow> shell_ok (cmd_http s)" "shell_ok s \<Longrightarrow> shell_ok (cmd_ping env s args)"
  "shell_ok s \<Longrightarrow> shell_ok (cmd_dns env s args)" "shell_ok s \<Longrightarrow> shell_ok (cmd_fetch env s args)"
  by (simp_all add: cmd_ip_def cmd_http_def cmd_ping_def cmd_dns_def cmd_fetch_def Let_def shell_keeps
      split: prod.splits option.splits fetched.splits)

lemma ls_cb_ok [shell_keeps]: "shell_ok s \<Longrightarrow> shell_ok (ls_cb s ent)"
  by (simp add: ls_cb_def Let_def shell_keeps split: prod.splits)

lemma ls_entries_ok [shell_keeps]: "shell_ok s \<Longrightarrow> shell_ok (foldl ls_cb s es)"
  by (induction es arbitrary: s) (simp_all add: shell_keeps)

lemma echo_args_ok [shell_keeps]: "shell_ok s \<Longrightarrow> shell_ok (echo_args s f as)"
  by (induction s f as rule: echo_args.induct) (simp_all add: shell_keeps)

lemma echo_ok [shell_keeps]: "shell_ok s \<Longrightarrow> shell_ok (cmd_echo s args)"
  by (simp add: cmd_echo_def shell_keeps)

lemma ls_ok: "shell_ok s \<Longrightarrow> cmd_ls drv s arg = Some s' \<Longrightarrow> shell_ok s'"
  by (auto simp: cmd_ls_def Let_def shell_keeps split: option.splits bind_splits if_splits)

lemma cd_ok:
  assumes "shell_ok s" "cmd_cd drv s args = Some s'"
  shows "shell_ok s'"
proof (cases "resolve_path (g_cwd s) (if length args > 1 then args ! 1 else [47]) CWD_MAX")
  case None
  then show ?thesis using assms by (auto simp: cmd_cd_def shell_keeps)
next
  case (Some out)
  have "cwd_ok out" using Some by (rule cwd_resolved)
  moreover from this have "take (CWD_MAX - 1) out = out" by (simp add: cwd_ok_def CWD_MAX_def)
  ultimately have "shell_ok (s\<lparr>svfs := v, g_cwd := take (CWD_MAX - 1) out\<rparr>)" for v
    using assms(1) by (simp add: shell_ok_def)
  then show ?thesis
    using assms Some by (auto simp: cmd_cd_def Let_def shell_keeps split: option.splits bind_splits if_splits prod.splits)
qed

lemma file_cmds_ok:
  assumes "shell_ok s"
  shows "cmd_mkdir drv s args = Some s' \<Longrightarrow> shell_ok s'" "cmd_touch drv s args = Some s' \<Longrightarrow> shell_ok s'"
    "cmd_cat drv s arg = Some s' \<Longrightarrow> shell_ok s'"
  using assms
  by (auto simp: cmd_mkdir_def cmd_touch_def cmd_cat_def Let_def shell_keeps split: option.splits bind_splits if_splits prod.splits)

text \<open>The interface and the programs keep the invariant.\<close>

definition env_ok :: "'d shell_env \<Rightarrow> bool" where
  "env_ok env \<longleftrightarrow>
     (\<forall>s s'. shell_ok s \<longrightarrow> e_gui env s = Some s' \<longrightarrow> shell_ok s') \<and>
     (\<forall>a b c s s'. shell_ok s \<longrightarrow> e_user env a b c s = Some s' \<longrightarrow> shell_ok s')"

lemma run_ok:
  assumes "env_ok env" "shell_ok s" "cmd_run env s args = Some s'"
  shows "shell_ok s'"
proof -
  have user: "shell_ok s'" if "e_user env a b c t = Some s'" "shell_ok t" for a b c t
    using assms(1) that unfolding env_ok_def by blast
  consider (said) t where "s' = say t s" | (loaded) out r v where "resolve_path (g_cwd s) (args ! 1) CWD_MAX = Some out"
      "elf_load (e_drivers env) (svfs s) out = Some (r, v)" "\<not> g_shell_context_gui s" "\<not> length args < 2"
      "\<not> ends_with (args ! 1) (text_of ''.epk'')"
    using assms(3) unfolding cmd_run_def by (fastforce split: option.splits bind_splits if_splits)
  then show ?thesis
  proof cases
    case said
    then show ?thesis using assms(2) by (simp add: shell_keeps)
  next
    case loaded
    have t: "shell_ok (s\<lparr>svfs := v\<rparr>)" using assms(2) by simp
    show ?thesis
    proof (cases r)
      case None
      then show ?thesis using assms(3) loaded t by (auto simp: cmd_run_def Let_def shell_keeps simp del: parts_ok)
    next
      case (Some q)
      then show ?thesis using assms(3) loaded t user by (cases q) (auto simp: cmd_run_def Let_def shell_keeps simp del: parts_ok)
    qed
  qed
qed

lemma if_SomeE: "(if c then x else y) = Some r \<Longrightarrow> (c \<Longrightarrow> x = Some r \<Longrightarrow> P) \<Longrightarrow> (\<not> c \<Longrightarrow> y = Some r \<Longrightarrow> P) \<Longrightarrow> P"
  by (cases c) simp_all

fun end_state :: "'d cmd_end \<Rightarrow> 'd kshell" where
  "end_state (Back s) = s"
| "end_state (Shutdown s) = s"
| "end_state (Reboot s) = s"

lemma dispatch_ok:
  assumes "env_ok env" "shell_ok s" "0 \<notin> set ln" "shell_dispatch_line env s ln = Some r"
  shows "shell_ok (end_state r)"
proof -
  define t where "t = s\<lparr>shist := history_add (shist s) ln\<rparr>"
  have t: "shell_ok t" using assms(2,3) history_add_ok by (simp add: shell_ok_def t_def)
  have "\<And>s'. e_gui env t = Some s' \<Longrightarrow> shell_ok s'" using assms(1) t unfolding env_ok_def by blast
  note calls = this ls_ok [OF t] cd_ok [OF t] file_cmds_ok [OF t] run_ok [OF assms(1) t]
  note dispatch = assms(4) [unfolded shell_dispatch_line_def Let_def t_def [symmetric]]
  from dispatch show ?thesis
    by (elim if_SomeE) (use t in \<open>auto simp: shell_keeps dest: calls\<close>)
qed

section \<open>Sessions\<close>

lemma readline_loop_incomplete: "10 \<notin> set ks \<Longrightarrow> readline_loop mx s ks = None"
  by (induction ks arbitrary: s) auto

lemma readline_ok:
  assumes "length (lbuf (ed s)) = mx" "0 < mx" "hist_ok (rhist s)" "console_ok (rgpu s)" "readline mx s ks = Some (s', rest)"
  shows "rl_ok mx s'"
proof -
  let ?s = "s\<lparr>ed := \<lparr>lbuf = (lbuf (ed s))[0 := 0], lpos = 0, lcpos = 0\<rparr>\<rparr>"
  have s: "rl_ok mx ?s" using assms(1-4) by (simp add: rl_ok_def ed_ok_def line_text_def)
  have run: "readline_loop mx ?s ks = Some (s', rest)" using assms(5) by (simp add: readline_def)
  then have "10 \<in> set ks" using readline_loop_incomplete [of ks mx ?s] by auto
  then obtain xs ys where "ks = xs @ 10 # ys" "10 \<notin> set xs" using split_list_first by fastforce
  then show ?thesis using readline_loop_refines [OF s assms(2), of xs ys] run by auto
qed

lemma round_ok:
  assumes "env_ok env" "shell_ok s" "length ln = SHELL_LINE_MAX" "shell_round env s ln ks = Some (r, ln', ks')"
  shows "shell_ok (end_state r) \<and> length ln' = SHELL_LINE_MAX"
proof -
  let ?r = "\<lparr>ed = \<lparr>lbuf = ln, lpos = 0, lcpos = 0\<rparr>, rhist = shist s, rgpu = shell_print_prompt (sgpu s)\<rparr>"
  obtain q rest where q: "readline SHELL_LINE_MAX ?r ks = Some (q, rest)"
    using assms(4) by (auto simp: shell_round_def Let_def split: bind_splits)
  let ?s = "s\<lparr>sgpu := rgpu q, shist := rhist q\<rparr>" and ?t = "takeWhile (\<lambda>c. c \<noteq> 0) (lbuf (ed q))"
  have ok: "rl_ok SHELL_LINE_MAX q"
    by (rule readline_ok [OF _ _ _ _ q]) (use assms(2,3) in \<open>simp_all add: shell_ok_def prompt_ok SHELL_LINE_MAX_def\<close>)
  then have s: "shell_ok ?s" and l: "length (lbuf (ed q)) = SHELL_LINE_MAX"
    using assms(2) by (simp_all add: shell_ok_def rl_ok_def ed_ok_def)
  have "0 \<notin> set ?t" by (metis set_takeWhileD)
  note d = dispatch_ok [OF assms(1) s this]
  have "r = Back ?s \<or> shell_dispatch_line env ?s ?t = Some r" "ln' = lbuf (ed q)"
    using assms(4) q by (auto simp: shell_round_def Let_def split: bind_splits if_splits)
  then show ?thesis using d s l by auto
qed

lemma session_ok:
  assumes "env_ok env"
  shows "shell_ok s \<Longrightarrow> length ln = SHELL_LINE_MAX \<Longrightarrow> shell_run n env s ln ks = Some (r, ln', ks') \<Longrightarrow>
    shell_ok (end_state r) \<and> length ln' = SHELL_LINE_MAX"
proof (induction n arbitrary: s ln ks)
  case (Suc n)
  then obtain r1 l1 k1 where one: "shell_round env s ln ks = Some (r1, l1, k1)" by (cases "shell_round env s ln ks") auto
  note ok = round_ok [OF assms Suc.prems(1,2) one]
  show ?case
  proof (cases r1)
    case (Back s1)
    then show ?thesis using Suc.IH [of s1 l1 k1] Suc.prems(3) one ok by simp
  qed (use Suc.prems(3) one ok in auto)
qed auto

section \<open>Properties\<close>

text \<open>A shell after the boot, without files, and an environment in which the interface and the programs do nothing.\<close>

definition shell_zero :: "unit vfs \<Rightarrow> net \<Rightarrow> unit kshell" where
  "shell_zero v n = \<lparr>g_cwd = [47], g_shell_context_gui = False, shist = hist_empty, svfs = v, sgpu = text_mode, snet = n,
     spci = \<lparr>g_pci_devices = [], g_gpu_info = None\<rparr>, sacpi = \<lparr>pm1a_cnt = 0, pm1b_cnt = 0\<rparr>\<rparr>"

definition no_fs :: "unit fs_ops" where
  "no_fs = \<lparr>op_read = None, op_write = None, op_readdir = None, op_create = None, op_unlink = None\<rparr>"

definition env_zero :: "unit drivers \<Rightarrow> unit shell_env" where
  "env_zero drv = \<lparr>e_drivers = drv, e_clock = \<lparr>seconds = 0, minutes = 0, hours = 0, day = 1, month = 1, year = 2025, day_of_week = 1\<rparr>,
     e_ticks = 0, e_arrive = (\<lambda>_. None), e_gui = Some, e_user = (\<lambda>_ _ _. Some)\<rparr>"

lemma zero_ok: "shell_ok (shell_zero v n)" "env_ok (env_zero drv)"
proof -
  have "dropWhile (\<lambda>c. c = 47) [47 :: u8] = []" by simp
  then have "norm_loop [47] [] = Some []" by (subst norm_loop.simps) simp
  then have "cwd_ok [47]" by (simp add: cwd_ok_def normalize_path_def CWD_MAX_def)
  then show "shell_ok (shell_zero v n)" by (simp add: shell_ok_def shell_zero_def hist_ok_def hist_empty_def)
qed (simp add: env_ok_def env_zero_def)


text \<open>The line \<open>x\<close>, typed: no command.\<close>

lemma shell_round_x:
  "\<exists>r l. shell_run 1 (env_zero drv) (shell_zero v n) (replicate 256 0) [120, 10] = Some (r, l, [])"
proof -
  let ?g = "shell_print_prompt text_mode" and ?b = "(replicate 256 0 :: u8 list)[0 := 120]"
  have b: "?b[1 := 0] = ?b" by (simp add: list_eq_iff_nth_eq nth_list_update)
  have rl: "\<exists>q. readline SHELL_LINE_MAX \<lparr>ed = \<lparr>lbuf = replicate 256 0, lpos = 0, lcpos = 0\<rparr>, rhist = hist_empty, rgpu = ?g\<rparr> [120, 10] =
      Some (q, []) \<and> lbuf (ed q) = ?b"
    using b by (simp add: readline_def readline_key_def Let_def shell_insert_char_def SHELL_LINE_MAX_def redraw_def
      KEY_DEL_def KEY_LEFT_def KEY_RIGHT_def KEY_HOME_def KEY_END_def KEY_UP_def KEY_DOWN_def list_update_same_conv)
  have "replicate 256 (0 :: u8) = 0 # replicate 255 0" using replicate_Suc [of 255 "0 :: u8"] by simp
  then have c: "?b = 120 # replicate 255 0" by simp
  moreover have "takeWhile (\<lambda>c. c \<noteq> 0) (replicate 255 (0 :: u8)) = []" by (simp add: takeWhile_eq_Nil_iff)
  ultimately have t: "takeWhile (\<lambda>c. c \<noteq> 0) ?b = [120]" by simp
  have tok: "tokenize [120] SHELL_TOKEN_MAX = [[120]]" by (simp add: tokenize_def tok_loop.simps is_blank_def SHELL_TOKEN_MAX_def)
  have d: "\<exists>s'. shell_dispatch_line env s [120] = Some (Back s')" for env :: "unit shell_env" and s
    by (simp add: shell_dispatch_line_def tok) (simp add: cmd_name_def text_of_def Let_def)
  obtain q where q: "readline SHELL_LINE_MAX \<lparr>ed = \<lparr>lbuf = replicate 256 0, lpos = 0, lcpos = 0\<rparr>, rhist = hist_empty, rgpu = ?g\<rparr> [120, 10] =
      Some (q, [])" "lbuf (ed q) = ?b" using rl by blast
  obtain s' where "shell_dispatch_line (env_zero drv) ((shell_zero v n)\<lparr>sgpu := rgpu q, shist := rhist q\<rparr>) [120] = Some (Back s')"
    using d by blast
  then have "shell_round (env_zero drv) (shell_zero v n) (replicate 256 0) [120, 10] = Some (Back s', ?b, [])"
    using q t c by (simp add: shell_round_def Let_def shell_zero_def)
  then show ?thesis by simp
qed


text \<open>
  A line whose first word is no command leaves everything as it is but the history and the message; among such
  lines is the command kill that the help text promises.
\<close>

theorem dispatch_kill:
  "text_of ''  kill <pid>        mata processo'' \<in> set (map text_of help_lines) \<and>
   shell_dispatch_line env s (text_of ''kill 1'') =
     Some (Back (say newline (say (text_of ''kill'') (paint 0x0F (say (text_of ''Comando nao encontrado: '')
       (paint 0x0C (s\<lparr>shist := history_add (shist s) (text_of ''kill 1'')\<rparr>)))))))"
proof -
  have "tokenize (text_of ''kill 1'') SHELL_TOKEN_MAX = [text_of ''kill'', text_of ''1'']"
    by (simp add: tokenize_def text_of_def tok_loop.simps is_blank_def SHELL_TOKEN_MAX_def)
  then show ?thesis by (simp add: shell_dispatch_line_def cmd_name_def help_lines_def) (simp add: text_of_def Let_def)
qed

end
