(* ===== verification/Rtl8139.thy ===== *)
theory Rtl8139
  imports Pci Pmm CString NetSpec
begin

text \<open>
  The network card driver, \<^verbatim>\<open>drivers/rtl8139.c\<close>: the search for the card, the four transmit buffers and
  the receive ring, and the polling of \<^verbatim>\<open>net/net.c\<close> over it. The card is behind the ports; it writes received
  packets to memory by itself, so \<open>rtl8139_poll\<close> is given the memory as every round of its waiting loop sees it.
\<close>

section \<open>Registers\<close>

definition RTL8139_VENDOR :: u32 where "RTL8139_VENDOR = 0x10EC"
definition RTL8139_DEVICE :: u32 where "RTL8139_DEVICE = 0x8139"
definition RTL_MAC :: u16 where "RTL_MAC = 0x00"
definition RTL_TSD0 :: u16 where "RTL_TSD0 = 0x10"
definition RTL_TSAD0 :: u16 where "RTL_TSAD0 = 0x20"
definition RTL_RBSTART :: u16 where "RTL_RBSTART = 0x30"
definition RTL_CR :: u16 where "RTL_CR = 0x37"
definition RTL_CAPR :: u16 where "RTL_CAPR = 0x38"
definition RTL_IMR :: u16 where "RTL_IMR = 0x3C"
definition RTL_ISR :: u16 where "RTL_ISR = 0x3E"
definition RTL_RCR :: u16 where "RTL_RCR = 0x44"
definition RTL_CR_RST :: u8 where "RTL_CR_RST = 0x10"
definition RTL_CR_RE :: u8 where "RTL_CR_RE = 0x08"
definition RTL_CR_TE :: u8 where "RTL_CR_TE = 0x04"
definition RTL_RCR_AAP :: u32 where "RTL_RCR_AAP = 0x01"
definition RTL_RCR_APM :: u32 where "RTL_RCR_APM = 0x02"
definition RTL_RCR_AM :: u32 where "RTL_RCR_AM = 0x04"
definition RTL_RCR_AB :: u32 where "RTL_RCR_AB = 0x08"
definition RTL_RCR_WRAP :: u32 where "RTL_RCR_WRAP = 0x80"
definition RTL_ISR_ROK :: u16 where "RTL_ISR_ROK = 0x01"
definition RTL_ISR_TOK :: u16 where "RTL_ISR_TOK = 0x04"
definition RTL_TX_BUFS :: nat where "RTL_TX_BUFS = 4"
definition RTL_RX_BUF_SIZE :: u32 where "RTL_RX_BUF_SIZE = 8192 + 16"
definition ETH_ALEN :: nat where "ETH_ALEN = 6"

record nic =
  g_io_base :: u16
  nic_mac :: "u8 list"
  g_rx_buffer :: u64
  g_tx_buffer :: "u64 list"
  g_tx_cur :: nat
  g_rx_offset :: u32

definition rtl_reg :: "nic \<Rightarrow> u16 \<Rightarrow> u16" where "rtl_reg c r = g_io_base c + r"

section \<open>Initialisation\<close>

fun rtl_probe :: "'h ports \<Rightarrow> (nat \<times> nat) list \<Rightarrow> 'h \<Rightarrow> (nat \<times> nat) option \<times> 'h" where
  "rtl_probe io [] h = (None, h)"
| "rtl_probe io ((bus, dev) # ps) h =
     (let (vid, h) = pci_read_config io (of_nat bus) (of_nat dev) 0 0 h in
      if vid AND 0xFFFF = RTL8139_VENDOR \<and> drop_bit 16 vid AND 0xFFFF = RTL8139_DEVICE then (Some (bus, dev), h)
      else rtl_probe io ps h)"

fun rtl_reset_wait :: "'h ports \<Rightarrow> u16 \<Rightarrow> nat \<Rightarrow> 'h \<Rightarrow> 'h" where
  "rtl_reset_wait io r 0 h = h"
| "rtl_reset_wait io r (Suc k) h =
     (case inb io h r of (v, h) \<Rightarrow> if v AND RTL_CR_RST = 0 then h else rtl_reset_wait io r k h)"

fun rtl_read_mac :: "'h ports \<Rightarrow> u16 \<Rightarrow> nat list \<Rightarrow> 'h \<Rightarrow> u8 list \<times> 'h" where
  "rtl_read_mac io r [] h = ([], h)"
| "rtl_read_mac io r (i # is) h = (let (v, h) = inb io h (r + of_nat i); (vs, h) = rtl_read_mac io r is h in (v # vs, h))"

text \<open>The transmit buffers, until one cannot be allocated.\<close>

fun rtl_tx_alloc :: "nat list \<Rightarrow> nic \<Rightarrow> pmm \<Rightarrow> bool \<times> nic \<times> pmm" where
  "rtl_tx_alloc [] c p = (True, c, p)"
| "rtl_tx_alloc (i # is) c p =
     (let (f, p) = pmm_alloc p; c = c\<lparr>g_tx_buffer := (g_tx_buffer c)[i := f]\<rparr>
      in if f = NULL then (False, c, p) else rtl_tx_alloc is c p)"

definition rtl8139_init :: "'h ports \<Rightarrow> nic \<Rightarrow> mem \<Rightarrow> pmm \<Rightarrow> 'h \<Rightarrow> fault + (int \<times> nic \<times> mem \<times> pmm \<times> 'h)" where
  "rtl8139_init io c m p h =
     (case rtl_probe io (List.product [0..<256] [0..<32]) h of
        (None, h) \<Rightarrow> Inr (-1, c, m, p, h)
      | (Some (bus, dev), h) \<Rightarrow>
          let (bar0, h) = pci_read_config io (of_nat bus) (of_nat dev) 0 0x10 h;
              c = c\<lparr>g_io_base := ucast (bar0 AND 0xFFFC)\<rparr>;
              h = pci_write_config io (of_nat bus) (of_nat dev) 0 0x04 0x05 h;
              h = outb io h (rtl_reg c RTL_CR) RTL_CR_RST;
              h = rtl_reset_wait io (rtl_reg c RTL_CR) 10000 h;
              (mac, h) = rtl_read_mac io (rtl_reg c RTL_MAC) [0..<ETH_ALEN] h;
              c = c\<lparr>nic_mac := mac\<rparr>
          in case pmm_alloc_contiguous p 3 of
               Inl e \<Rightarrow> Inl e
             | Inr (rx, p) \<Rightarrow>
                 let c = c\<lparr>g_rx_buffer := rx\<rparr> in
                 if rx = NULL then Inr (-1, c, m, p, h)
                 else
                   let m = memset m rx 0 (3 * 4096);
                       c = c\<lparr>g_rx_offset := 0\<rparr>;
                       h = outl io h (rtl_reg c RTL_RBSTART) (ucast rx);
                       (ok, c, p) = rtl_tx_alloc [0..<RTL_TX_BUFS] c p
                   in if \<not> ok then Inr (-1, c, m, p, h)
                   else
                     let h = outb io h (rtl_reg c RTL_IMR) 0x00;
                         h = outl io h (rtl_reg c RTL_RCR) (RTL_RCR_AAP OR RTL_RCR_APM OR RTL_RCR_AM OR RTL_RCR_AB OR RTL_RCR_WRAP);
                         h = outb io h (rtl_reg c RTL_CR) (RTL_CR_TE OR RTL_CR_RE)
                     in Inr (0, c, m, p, h))"

section \<open>Sending\<close>

text \<open>Copying the frame byte by byte.\<close>

fun store_frame :: "mem \<Rightarrow> u64 \<Rightarrow> u8 list \<Rightarrow> mem" where
  "store_frame m a [] = m"
| "store_frame m a (b # bs) = store_frame (m(a := b)) (a + 1) bs"

definition rtl8139_send_frame :: "'h ports \<Rightarrow> u8 list \<Rightarrow> nic \<Rightarrow> mem \<Rightarrow> 'h \<Rightarrow> int \<times> nic \<times> mem \<times> 'h" where
  "rtl8139_send_frame io ds c m h =
     (if length ds < 14 \<or> length ds > 1792 then (-1, c, m, h)
      else
        let tx = g_tx_buffer c ! g_tx_cur c;
            m = store_frame m tx ds;
            h = outl io h (rtl_reg c (RTL_TSAD0 + of_nat (g_tx_cur c * 4))) (ucast tx);
            cmd = (of_nat (length ds) AND 0x1FFF) OR 0x10000;
            h = outl io h (rtl_reg c (RTL_TSD0 + of_nat (g_tx_cur c * 4))) cmd
        in (0, c\<lparr>g_tx_cur := (g_tx_cur c + 1) mod RTL_TX_BUFS\<rparr>, m, h))"

text \<open>The frames the stack sends while it handles a packet.\<close>

fun send_frames :: "'h ports \<Rightarrow> u8 list list \<Rightarrow> nic \<Rightarrow> mem \<Rightarrow> 'h \<Rightarrow> nic \<times> mem \<times> 'h" where
  "send_frames io [] c m h = (c, m, h)"
| "send_frames io (ds # rest) c m h = (case rtl8139_send_frame io ds c m h of (r, c, m, h) \<Rightarrow> send_frames io rest c m h)"

section \<open>Receiving\<close>

definition rx_header :: "mem \<Rightarrow> nic \<Rightarrow> u16 \<times> u16" where
  "rx_header m c = (load_le 2 m (g_rx_buffer c + ucast (g_rx_offset c)), load_le 2 m (g_rx_buffer c + ucast (g_rx_offset c) + 2))"

definition rx_next :: "u32 \<Rightarrow> u16 \<Rightarrow> u32" where
  "rx_next off len = (let x = (off + ucast len + 4 + 3) AND NOT 3 in if x \<ge> RTL_RX_BUF_SIZE then 0 else x)"

text \<open>
  The loop of \<open>rtl8139_poll\<close>, 1000 rounds at most: \<open>ms\<close> is the memory the rounds see. The result is the length of the packet and the
  memory in which it was found, or \<open>None\<close> when there is none.
\<close>

fun rx_spin :: "nic \<Rightarrow> mem list \<Rightarrow> (mem \<times> u16) option" where
  "rx_spin c [] = None"
| "rx_spin c (m # ms) =
     (case rx_header m c of (rx_status, rx_len) \<Rightarrow>
        if rx_status AND (0x8000 OR 0x0001) = 0 then rx_spin c ms
        else let rx_len = rx_len AND 0x3FFF in if rx_len = 0 \<or> rx_len = 0xFFF0 then None else Some (m, rx_len))"

definition packet_at :: "mem \<Rightarrow> u64 \<Rightarrow> nat \<Rightarrow> u8" where "packet_at m a = (\<lambda>i. m (a + of_nat i))"

definition rtl8139_poll :: "'h ports \<Rightarrow> mem list \<Rightarrow> mem \<Rightarrow> nic \<Rightarrow> net \<Rightarrow> 'h \<Rightarrow> int \<times> nic \<times> net \<times> mem \<times> 'h" where
  "rtl8139_poll io ms m c n h =
     (let (isr, h) = inw io h (rtl_reg c RTL_ISR) in
      if isr AND RTL_ISR_ROK \<noteq> 0 then
        let h = outw io h (rtl_reg c RTL_ISR) RTL_ISR_ROK in
        case rx_spin c (take 1000 ms) of
          None \<Rightarrow> (0, c, n, m, h)
        | Some (m, rx_len) \<Rightarrow>
            let n = net_handle_packet (packet_at m (g_rx_buffer c + ucast (g_rx_offset c) + 4)) (uint rx_len) (n\<lparr>sent := []\<rparr>);
                (c, m, h) = send_frames io (sent n) c m h;
                c = c\<lparr>g_rx_offset := rx_next (g_rx_offset c) rx_len\<rparr>;
                h = outw io h (rtl_reg c RTL_CAPR) (ucast (g_rx_offset c - 16))
            in (1, c, n, m, h)
      else (0, c, n, m, if isr AND RTL_ISR_TOK \<noteq> 0 then outw io h (rtl_reg c RTL_ISR) RTL_ISR_TOK else h))"

text \<open>\<open>net_poll\<close> on the card.\<close>

definition net_poll_card :: "'h ports \<Rightarrow> mem list \<Rightarrow> mem \<Rightarrow> nic \<Rightarrow> net \<Rightarrow> 'h \<Rightarrow> nic \<times> net \<times> mem \<times> 'h" where
  "net_poll_card io ms m c n h =
     (case rtl8139_poll io ms m c n h of (r, c, n, m, h) \<Rightarrow>
        let n = tcp_poll_retransmit (n\<lparr>sent := []\<rparr>); (c, m, h) = send_frames io (sent n) c m h in (c, n, m, h))"

definition rtl8139_get_mac :: "nic \<Rightarrow> u8 list" where "rtl8139_get_mac c = nic_mac c"
definition rtl8139_io_base :: "nic \<Rightarrow> u16" where "rtl8139_io_base c = g_io_base c"

definition rtl8139_read_reg32 :: "'h ports \<Rightarrow> u8 \<Rightarrow> nic \<Rightarrow> 'h \<Rightarrow> u32 \<times> 'h" where
  "rtl8139_read_reg32 io off c h = inl io h (rtl_reg c (ucast off))"

definition rtl8139_read_reg16 :: "'h ports \<Rightarrow> u8 \<Rightarrow> nic \<Rightarrow> 'h \<Rightarrow> u32 \<times> 'h" where
  "rtl8139_read_reg16 io off c h = (case inw io h (rtl_reg c (ucast off)) of (v, h) \<Rightarrow> (ucast v, h))"

section \<open>The text for a packet\<close>

definition print_hex_byte :: "u8 \<Rightarrow> u8 list" where
  "print_hex_byte v = [hex_chars ! unat (drop_bit 4 v AND 0x0F), hex_chars ! unat (v AND 0x0F)]"

fun mac_text :: "u8 list \<Rightarrow> u8 list" where
  "mac_text [] = []"
| "mac_text [b] = print_hex_byte b"
| "mac_text (b # bs) = print_hex_byte b @ [58] @ mac_text bs"

definition rtl8139_print_packet :: "(nat \<Rightarrow> u8) \<Rightarrow> int \<Rightarrow> u8 list" where
  "rtl8139_print_packet data len =
     (if len < 14 then []
      else
        map of_char ''  dst='' @ mac_text (map data [0..<6]) @ map of_char '' src='' @ mac_text (map data [6..<12]) @
        map of_char '' type=0x'' @ serial_hex_text (ucast (bswap16 (fld 2 data 12))) @ [10] @
        (if bswap16 (fld 2 data 12) = ETH_P_ARP \<and> len \<ge> 42 then
           map of_char ''  ARP op='' @ dec_text (ucast (bswap16 (fld 2 data 20))) @ map of_char '' spa='' @
           serial_hex_text (ucast (bswap16 (ucast (drop_bit 16 (fld 4 data 28 :: u32))))) @
           serial_hex_text (ucast (bswap16 (ucast (fld 4 data 28 AND 0xFFFF :: u32)))) @ [10]
         else []))"

section \<open>The receive ring\<close>

text \<open>
  The card puts a packet behind its header of four bytes and goes on at the next multiple of four; its ring has
  8192 bytes.
\<close>

definition card_next :: "nat \<Rightarrow> nat \<Rightarrow> nat" where
  "card_next off len = ((off + len + 4 + 3) div 4 * 4) mod 8192"

lemma rx_next_value:
  assumes "unat off < 8208" "unat len \<le> 16383"
  shows "unat (rx_next off len) = (let x = (unat off + unat len + 7) div 4 * 4 in if x \<ge> 8208 then 0 else x)"
proof -
  have m: "unat (y AND NOT 3) = unat y - unat y mod 4" for y :: u32
    using unat_and_not_mask [of y 2] by (simp add: mask_numeral)
  have "unat (off + ucast len + 4 + 3) = unat off + unat len + 7"
  proof -
    have "unat (ucast len :: u32) = unat len" using assms(2) by (simp add: unsigned_ucast_eq take_bit_eq_mod)
    then show ?thesis using assms by (simp add: unat_word_ariths)
  qed
  then have "unat ((off + ucast len + 4 + 3) AND NOT 3) = (unat off + unat len + 7) - (unat off + unat len + 7) mod 4"
    unfolding m by presburger
  also have "\<dots> = (unat off + unat len + 7) div 4 * 4" by (metis minus_mod_eq_div_mult)
  finally have x: "unat ((off + ucast len + 4 + 3) AND NOT 3) = (unat off + unat len + 7) div 4 * 4" .
  then show ?thesis unfolding rx_next_def Let_def by (simp add: RTL_RX_BUF_SIZE_def word_le_nat_alt)
qed

lemma rx_spin_len: "rx_spin c ms = Some (m, len) \<Longrightarrow> 0 < unat len \<and> unat len \<le> 16383 \<and> m \<in> set ms"
proof (induction ms)
  case (Cons m' ms)
  have "unat (x AND 0x3FFF :: u16) \<le> 16383" for x
    using word_and_le1 [of x "0x3FFF"] by (simp add: word_le_nat_alt)
  then show ?case using Cons
    by (auto simp: Let_def unat_gt_0 split: prod.splits if_splits)
qed simp

lemma send_frame_keeps:
  "rtl8139_send_frame io ds c m h = (r, c', m', h') \<Longrightarrow>
   g_rx_offset c' = g_rx_offset c \<and> g_rx_buffer c' = g_rx_buffer c \<and> g_tx_buffer c' = g_tx_buffer c"
  by (auto simp: rtl8139_send_frame_def Let_def split: if_splits)

lemma send_frames_keep:
  "send_frames io fs c m h = (c', m', h') \<Longrightarrow>
   g_rx_offset c' = g_rx_offset c \<and> g_rx_buffer c' = g_rx_buffer c \<and> g_tx_buffer c' = g_tx_buffer c"
proof (induction fs arbitrary: c m h)
  case (Cons ds fs)
  obtain r c1 m1 h1 where f: "rtl8139_send_frame io ds c m h = (r, c1, m1, h1)" by (cases "rtl8139_send_frame io ds c m h") auto
  then show ?case using Cons.IH [of c1 m1 h1] Cons.prems send_frame_keeps [OF f] by simp
qed simp

text \<open>What a poll does to the offset.\<close>

lemma poll_offset:
  assumes "rtl8139_poll io ms m c n h = (r, c', n', m', h')"
  shows "(r = 0 \<and> g_rx_offset c' = g_rx_offset c \<or>
      (\<exists>m len. rx_spin c (take 1000 ms) = Some (m, len) \<and> r = 1 \<and> g_rx_offset c' = rx_next (g_rx_offset c) len)) \<and>
    g_rx_buffer c' = g_rx_buffer c"
proof -
  obtain isr h0 where isr: "inw io h (rtl_reg c RTL_ISR) = (isr, h0)" by fastforce
  show ?thesis
  proof (cases "isr AND RTL_ISR_ROK \<noteq> 0")
    case False
    then show ?thesis using assms by (simp add: rtl8139_poll_def isr)
  next
    case True
    show ?thesis
    proof (cases "rx_spin c (take 1000 ms)")
      case None
      then show ?thesis using assms True by (simp add: rtl8139_poll_def isr Let_def)
    next
      case (Some q)
      obtain m1 len where q: "q = (m1, len)" by (cases q)
      let ?n = "net_handle_packet (packet_at m1 (g_rx_buffer c + ucast (g_rx_offset c) + 4)) (uint len) (n\<lparr>sent := []\<rparr>)"
      obtain c1 m2 h2 where f: "send_frames io (sent ?n) c m1 (outw io h0 (rtl_reg c RTL_ISR) RTL_ISR_ROK) = (c1, m2, h2)"
        by (cases "send_frames io (sent ?n) c m1 (outw io h0 (rtl_reg c RTL_ISR) RTL_ISR_ROK)") auto
      show ?thesis
        using assms True Some q f send_frames_keep [OF f] by (auto simp: rtl8139_poll_def isr Let_def)
    qed
  qed
qed

section \<open>The transmit buffers\<close>

lemma store_frame_outside: "length ds \<le> unat (x - a) \<Longrightarrow> store_frame m a ds x = m x"
proof (induction ds arbitrary: m a)
  case (Cons b ds)
  then have "x \<noteq> a" by auto
  moreover have "x - a \<noteq> 0" using Cons.prems by auto
  then have "unat (x - a - 1) = unat (x - a) - 1" by (rule unat_minus_one)
  then have "unat (x - (a + 1)) = unat (x - a) - 1" by (simp add: diff_diff_add)
  ultimately show ?case using Cons by simp
qed simp

lemma store_frame_at: "length ds < 2 ^ 64 \<Longrightarrow> i < length ds \<Longrightarrow> store_frame m a ds (a + of_nat i) = ds ! i"
proof (induction ds arbitrary: m a i)
  case (Cons b ds)
  show ?case
  proof (cases i)
    case 0
    have "unat (a - (a + 1)) = 2 ^ 64 - 1" by (simp add: unsigned_minus_1_eq_mask mask_eq_exp_minus_1)
    then have "store_frame (m(a := b)) (a + 1) ds a = b"
      using Cons.prems(1) store_frame_outside [of ds a "a + 1" "m(a := b)"] by simp
    then show ?thesis using 0 by simp
  next
    case (Suc k)
    have "store_frame (m(a := b)) (a + 1) ds ((a + 1) + of_nat k) = ds ! k"
      by (rule Cons.IH) (use Cons.prems Suc in auto)
    then show ?thesis using Suc by (simp add: add.assoc)
  qed
qed simp

lemma page_other:
  assumes "page_aligned s" "page_aligned t" "s \<noteq> t" "j < 4096"
  shows "4096 \<le> unat (s + of_nat j - t)"
proof -
  have al: "4096 dvd unat (s - t)" using assms(1,2) by (simp add: page_aligned_def unat_sub_if')
  moreover have "unat (s - t) \<noteq> 0" using assms(3) by (simp add: unat_eq_0)
  ultimately have "4096 \<le> unat (s - t)" by (simp add: dvd_imp_le)
  moreover have "unat (s - t) + j < 2 ^ 64" using dvd_less_add [OF al _ assms(4), of "2 ^ 64"] unat_less_2p64 [of "s - t"] by simp
  moreover have "unat (of_nat j :: u64) = j" using assms(4) by (simp add: unat_of_nat)
  ultimately have "4096 \<le> unat ((s - t) + of_nat j)" by (subst unat_add_lem [THEN iffD1]) simp_all
  then show ?thesis by (simp add: algebra_simps)
qed

text \<open>Four different pages.\<close>

definition tx_ok :: "nic \<Rightarrow> bool" where
  "tx_ok c \<longleftrightarrow> length (g_tx_buffer c) = 4 \<and> distinct (g_tx_buffer c) \<and> (\<forall>t \<in> set (g_tx_buffer c). page_aligned t) \<and> g_tx_cur c < 4"

definition frame_ok :: "u8 list \<Rightarrow> bool" where "frame_ok ds \<longleftrightarrow> 14 \<le> length ds \<and> length ds \<le> 1792"

definition tx_at :: "nic \<Rightarrow> nat \<Rightarrow> u64" where "tx_at c i = g_tx_buffer c ! ((g_tx_cur c + i) mod 4)"

lemma add_mod_cancel: "(a + i) mod 4 = (a + j) mod 4 \<longleftrightarrow> i mod 4 = j mod (4 :: nat)"
proof -
  have "int ((a + i) mod 4) = int ((a + j) mod 4) \<longleftrightarrow> int (i mod 4) = int (j mod 4)"
    by (simp only: of_nat_mod of_nat_add mod_eq_dvd_iff add_diff_cancel_left)
  then show ?thesis by simp
qed

lemma tx_at_props:
  assumes "tx_ok c"
  shows "page_aligned (tx_at c i)" "tx_at c i = tx_at c j \<longleftrightarrow> i mod 4 = j mod 4"
proof -
  have l: "(g_tx_cur c + i) mod 4 < length (g_tx_buffer c)" "(g_tx_cur c + j) mod 4 < length (g_tx_buffer c)"
    using assms by (simp_all add: tx_ok_def)
  then show "page_aligned (tx_at c i)" using assms by (simp add: tx_ok_def tx_at_def)
  have "tx_at c i = tx_at c j \<longleftrightarrow> (g_tx_cur c + i) mod 4 = (g_tx_cur c + j) mod 4"
    using l assms by (simp add: tx_at_def tx_ok_def nth_eq_iff_index_eq)
  also have "\<dots> \<longleftrightarrow> i mod 4 = j mod 4" by (rule add_mod_cancel)
  finally show "tx_at c i = tx_at c j \<longleftrightarrow> i mod 4 = j mod 4" .
qed

lemma send_frame_step:
  assumes "tx_ok c" "frame_ok ds" "rtl8139_send_frame io ds c m h = (r, c', m', h')"
  shows "r = 0 \<and> tx_ok c' \<and> (\<forall>i. tx_at c' i = tx_at c (Suc i)) \<and> m' = store_frame m (tx_at c 0) ds"
proof -
  have g: "c' = c\<lparr>g_tx_cur := (g_tx_cur c + 1) mod 4\<rparr>" "r = 0" "m' = store_frame m (tx_at c 0) ds"
    using assms by (auto simp: rtl8139_send_frame_def frame_ok_def tx_at_def tx_ok_def RTL_TX_BUFS_def Let_def)
  have "((g_tx_cur c + 1) mod 4 + i) mod 4 = (g_tx_cur c + Suc i) mod 4" for i by (simp add: mod_add_left_eq)
  then have "tx_at c' i = tx_at c (Suc i)" for i by (simp add: g(1) tx_at_def)
  moreover have "tx_ok c'" using assms(1) by (simp add: g(1) tx_ok_def)
  ultimately show ?thesis using g(2,3) by simp
qed

text \<open>At most three more frames leave a buffer alone that was just filled.\<close>

lemma send_frames_other:
  assumes "tx_ok c" "\<forall>ds \<in> set fs. frame_ok ds" "send_frames io fs c m h = (c', m', h')"
    "\<And>i. i < length fs \<Longrightarrow> 4096 \<le> unat (a - tx_at c i)"
  shows "m' a = m a"
  using assms
proof (induction fs arbitrary: c m h)
  case (Cons ds fs)
  obtain r c1 m1 h1 where f: "rtl8139_send_frame io ds c m h = (r, c1, m1, h1)" by (cases "rtl8139_send_frame io ds c m h") auto
  have ds: "frame_ok ds" using Cons.prems(2) by simp
  note st = send_frame_step [OF Cons.prems(1) ds f]
  have "m' a = m1 a" using Cons.IH [of c1 m1 h1] Cons.prems(2-4) st f by force
  also have "length ds \<le> unat (a - tx_at c 0)" using Cons.prems(4) [of 0] ds by (simp add: frame_ok_def)
  then have "m1 a = m a" using st store_frame_outside by metis
  finally show ?case .
qed simp

lemma send_frames_stored:
  assumes "tx_ok c" "\<forall>ds \<in> set fs. frame_ok ds" "length fs \<le> 4" "send_frames io fs c m h = (c', m', h')"
    "i < length fs" "j < length (fs ! i)"
  shows "m' (tx_at c i + of_nat j) = fs ! i ! j"
  using assms
proof (induction fs arbitrary: c m h i)
  case (Cons ds fs)
  obtain r c1 m1 h1 where f: "rtl8139_send_frame io ds c m h = (r, c1, m1, h1)" by (cases "rtl8139_send_frame io ds c m h") auto
  have ds: "frame_ok ds" using Cons.prems(2) by simp
  note st = send_frame_step [OF Cons.prems(1) ds f]
  show ?case
  proof (cases i)
    case (Suc k)
    then show ?thesis using Cons.IH [of c1 m1 h1 k] Cons.prems st f by simp
  next
    case 0
    have j: "j < length ds" "length ds < 2 ^ 64" "j < 4096" using Cons.prems(6) 0 ds by (auto simp: frame_ok_def)
    have "m' (tx_at c 0 + of_nat j) = m1 (tx_at c 0 + of_nat j)"
    proof (rule send_frames_other)
      show "4096 \<le> unat (tx_at c 0 + of_nat j - tx_at c1 k)" if "k < length fs" for k
      proof -
        have "tx_at c 0 \<noteq> tx_at c1 k" using st tx_at_props(2) [OF Cons.prems(1), of 0 "Suc k"] that Cons.prems(3) by simp
        then show ?thesis using page_other [OF _ _ _ j(3)] tx_at_props(1) [OF Cons.prems(1), of 0] st tx_at_props(1) [of c1 k] by blast
      qed
    qed (use Cons.prems st f in auto)
    then show ?thesis using st store_frame_at [OF j(2,1)] 0 by simp
  qed
qed simp

lemma poll_received:
  assumes "fst (inw io h (rtl_reg c RTL_ISR)) AND RTL_ISR_ROK \<noteq> 0" "rx_spin c (take 1000 ms) = Some (m1, len)"
  shows "\<exists>c' n' m' h'. rtl8139_poll io ms m c n h = (1, c', n', m', h')"
proof -
  obtain isr h0 where isr: "inw io h (rtl_reg c RTL_ISR) = (isr, h0)" by fastforce
  let ?n = "net_handle_packet (packet_at m1 (g_rx_buffer c + ucast (g_rx_offset c) + 4)) (uint len) (n\<lparr>sent := []\<rparr>)"
  obtain c1 m2 h2 where f: "send_frames io (sent ?n) c m1 (outw io h0 (rtl_reg c RTL_ISR) RTL_ISR_ROK) = (c1, m2, h2)"
    by (cases "send_frames io (sent ?n) c m1 (outw io h0 (rtl_reg c RTL_ISR) RTL_ISR_ROK)") auto
  show ?thesis using assms isr f by (auto simp: rtl8139_poll_def Let_def)
qed

text \<open>A card that always reports a packet, and a driver with the ring at 0x10000, near its end.\<close>

definition busy_card :: "unit ports" where
  "busy_card = \<lparr>inb = (\<lambda>h p. (0, h)), outb = (\<lambda>h p v. h), inw = (\<lambda>h p. (1, h)), outw = (\<lambda>h p v. h), inl = (\<lambda>h p. (0, h)),
     outl = (\<lambda>h p v. h)\<rparr>"

definition nic_end :: nic where
  "nic_end = \<lparr>g_io_base = 0xC000, nic_mac = [0x52, 0x54, 0, 0x12, 0x34, 0x56], g_rx_buffer = 0x10000,
     g_tx_buffer = [0x1000, 0x2000, 0x3000, 0x4000], g_tx_cur = 3, g_rx_offset = 8184\<rparr>"

definition ring_mem :: mem where "ring_mem = (\<lambda>_. 0)(0x11FF8 := 1, 0x11FFA := 64)"

lemma ring_packet: "rx_spin nic_end [ring_mem] = Some (ring_mem, 64)"
proof -
  have two: "(2 :: nat) = Suc (Suc 0)" by simp
  have "rx_header ring_mem nic_end = (1, 64)" unfolding rx_header_def two load_le.simps by (simp add: nic_end_def ring_mem_def)
  then show ?thesis by simp
qed

lemma nic_end_ok: "tx_ok nic_end" by (simp add: tx_ok_def nic_end_def page_aligned_def)

section \<open>Properties\<close>



text \<open>
  The offset in the receive ring stays a multiple of four below 8208, so the header that is read lies in the
  buffer of three frames, and so does a packet that is not longer than the card accepts.
\<close>

theorem rtl_poll_in_buffer:
  assumes "4 dvd unat (g_rx_offset c)" "unat (g_rx_offset c) < 8208" "rtl8139_poll io ms m c n h = (r, c', n', m', h')"
  shows "4 dvd unat (g_rx_offset c') \<and> unat (g_rx_offset c') < 8208 \<and> g_rx_buffer c' = g_rx_buffer c \<and>
    unat (g_rx_offset c) + 4 \<le> 12288 \<and>
    (\<forall>m len. rx_spin c (take 1000 ms) = Some (m, len) \<and> unat len \<le> 4080 \<longrightarrow> unat (g_rx_offset c) + 4 + unat len \<le> 12288)"
proof -
  have "4 dvd unat (rx_next (g_rx_offset c) len) \<and> unat (rx_next (g_rx_offset c) len) < 8208"
    if "rx_spin c (take 1000 ms) = Some (m1, len)" for m1 len
    using rx_next_value [OF assms(2), of len] rx_spin_len [OF that] by (auto simp: Let_def)
  moreover have "unat (g_rx_offset c) \<le> 8204" using assms(1,2) by presburger
  ultimately show ?thesis using poll_offset [OF assms(3)] assms(1,2) by force
qed

lemma rtl_poll_in_buffer_witness:
  "\<exists>r c' n' m' h'. rtl8139_poll busy_card [ring_mem] ring_mem nic_end demo_net () = (r, c', n', m', h') \<and> unat (g_rx_offset c') < 8208"
proof -
  obtain r c' n' m' h' where r: "rtl8139_poll busy_card [ring_mem] ring_mem nic_end demo_net () = (r, c', n', m', h')"
    by (cases "rtl8139_poll busy_card [ring_mem] ring_mem nic_end demo_net ()") auto
  from rtl_poll_in_buffer [OF _ _ r] show ?thesis using r by (simp add: nic_end_def)
qed

text \<open>
  The driver and the card lose each other where the ring ends: after a packet the driver reads on where the
  card writes on exactly as long as the packet with its header ends before the last word of the ring.
\<close>

theorem rtl_ring_lost:
  assumes "4 dvd unat (g_rx_offset c)" "unat (g_rx_offset c) < 8192" "rx_spin c (take 1000 ms) = Some (m1, len)" "unat len \<le> 1792"
    "rtl8139_poll io ms m c n h = (1, c', n', m', h')"
  shows "unat (g_rx_offset c') = card_next (unat (g_rx_offset c)) (unat len) \<longleftrightarrow> unat (g_rx_offset c) + 4 + unat len \<le> 8188"
proof -
  let ?o = "unat (g_rx_offset c)" and ?l = "unat len"
  let ?x = "(?o + ?l + 7) div 4 * 4"
  have n: "unat (g_rx_offset c') = (if ?x \<ge> 8208 then 0 else ?x)"
    using poll_offset [OF assms(5)] assms(2-4) rx_next_value [of "g_rx_offset c" len] by (simp add: Let_def)
  have c: "card_next ?o ?l = ?x mod 8192" by (simp add: card_next_def ac_simps)
  have iff: "?o + 4 + ?l \<le> 8188 \<longleftrightarrow> ?x < 8192" by presburger
  show ?thesis
  proof (cases "?x < 8192")
    case True
    then show ?thesis using n c iff by simp
  next
    case False
    have "?x < 2 * 8192" using assms(2,4) by presburger
    then have "?x mod 8192 = ?x - 8192" using False by (simp add: le_mod_geq)
    moreover have "?x \<noteq> ?x - 8192" "?x \<ge> 8208 \<longrightarrow> ?x - 8192 \<noteq> 0" using False by simp_all
    ultimately have "unat (g_rx_offset c') \<noteq> card_next ?o ?l" using n c by (simp split: if_splits)
    then show ?thesis using iff False by simp
  qed
qed

lemma rtl_ring_lost_witness:
  "\<exists>c' n' m' h'. rtl8139_poll busy_card [ring_mem] ring_mem nic_end demo_net () = (1, c', n', m', h') \<and>
     unat (g_rx_offset c') \<noteq> card_next 8184 64"
proof -
  have sp: "rx_spin nic_end (take 1000 [ring_mem]) = Some (ring_mem, 64)" using ring_packet by simp
  have "fst (inw busy_card () (rtl_reg nic_end RTL_ISR)) AND RTL_ISR_ROK \<noteq> 0" by (simp add: busy_card_def RTL_ISR_ROK_def)
  from poll_received [OF this sp]
  obtain c' n' m' h' where r: "rtl8139_poll busy_card [ring_mem] ring_mem nic_end demo_net () = (1, c', n', m', h')" by blast
  have o: "unat (g_rx_offset nic_end) = 8184" by (simp add: nic_end_def)
  from rtl_ring_lost [OF _ _ sp _ r] show ?thesis using r by (simp add: o)
qed

end
