(* ===== verification/PciSpec.thy ===== *)
theory PciSpec
  imports Pci
begin

text \<open>
  What the search for hardware finds: on an emulated configuration space the enumeration is the walk over the
  tree of buses in depth first order, cut off after 256 devices; the ACPI driver takes the field of the FADT it
  does not mean to take.
\<close>

section \<open>A configuration space\<close>

record pci_hw =
  latch :: u32
  conf :: "u32 \<Rightarrow> u32"

definition pci_ports :: "pci_hw ports" where
  "pci_ports = \<lparr>inb = (\<lambda>h p. (0, h)), outb = (\<lambda>h p v. h), inw = (\<lambda>h p. (0, h)), outw = (\<lambda>h p v. h),
     inl = (\<lambda>h p. if p = PCI_CONFIG_DATA then (conf h (latch h), h) else (0, h)),
     outl = (\<lambda>h p v. if p = PCI_CONFIG_ADDR then h\<lparr>latch := v\<rparr>
        else if p = PCI_CONFIG_DATA then h\<lparr>conf := (conf h)(latch h := v)\<rparr> else h)\<rparr>"

definition reg_at :: "(u32 \<Rightarrow> u32) \<Rightarrow> u8 \<Rightarrow> u8 \<Rightarrow> u8 \<Rightarrow> u8 \<Rightarrow> u32" where
  "reg_at c bus dev func off = c (pci_make_addr bus dev func off)"

definition header_at :: "(u32 \<Rightarrow> u32) \<Rightarrow> u8 \<Rightarrow> u8 \<Rightarrow> u8 \<Rightarrow> pci_header" where
  "header_at c bus dev func = header_bytes (concat (map (\<lambda>i. le_bytes 4 (reg_at c bus dev func (of_nat (i * 4)))) [0..<16]))"

text \<open>Reading changes only the address latch.\<close>

lemma read_config: "pci_read_config pci_ports bus dev func off h = (reg_at (conf h) bus dev func off, h\<lparr>latch := pci_make_addr bus dev func off\<rparr>)"
  by (simp add: pci_read_config_def pci_ports_def reg_at_def PCI_CONFIG_ADDR_def PCI_CONFIG_DATA_def)

lemma read_dwords_conf:
  "\<exists>a. read_dwords pci_ports bus dev func is h = (concat (map (\<lambda>i. le_bytes 4 (reg_at (conf h) bus dev func (of_nat (i * 4)))) is), h\<lparr>latch := a\<rparr>)"
proof (induction "is" arbitrary: h)
  case Nil
  have "h = h\<lparr>latch := latch h\<rparr>" by simp
  then show ?case by (metis concat.simps(1) list.simps(8) read_dwords.simps(1))
next
  case (Cons i "is")
  show ?case
    using Cons.IH [of "h\<lparr>latch := pci_make_addr bus dev func (of_nat (i * 4))\<rparr>"]
    by (auto simp: read_config simp del: of_nat_mult)
qed

lemma read_header: "\<exists>a. pci_read_header pci_ports bus dev func h = (header_at (conf h) bus dev func, h\<lparr>latch := a\<rparr>)"
  using read_dwords_conf [of bus dev func "[0..<16]" h] by (auto simp: pci_read_header_def header_at_def)

section \<open>The tree of buses\<close>

definition absent :: "pci_header \<Rightarrow> bool" where
  "absent hdr \<longleftrightarrow> vendor_id hdr = 0 \<or> vendor_id hdr = PCI_VENDOR_NONE"

definition is_bridge :: "pci_header \<Rightarrow> bool" where
  "is_bridge hdr \<longleftrightarrow> h_class_code hdr = 0x06 \<and> h_subclass hdr = 0x04"

definition bus_behind :: "(u32 \<Rightarrow> u32) \<Rightarrow> u8 \<Rightarrow> u8 \<Rightarrow> u8 \<Rightarrow> u8" where
  "bus_behind c bus dev func = ucast (drop_bit 8 (reg_at c bus dev func 0x44) AND 0xFF)"

definition func_tree :: "(u32 \<Rightarrow> u32) \<Rightarrow> (u8 \<Rightarrow> pci_device list) \<Rightarrow> u8 \<Rightarrow> u8 \<Rightarrow> u8 \<Rightarrow> pci_device list" where
  "func_tree c below bus dev func =
     (let hdr = header_at c bus dev func in
      if absent hdr then []
      else pci_device_of bus dev func hdr #
        (if is_bridge hdr \<and> bus_behind c bus dev func \<noteq> bus then below (bus_behind c bus dev func) else []))"

definition dev_tree :: "(u32 \<Rightarrow> u32) \<Rightarrow> (u8 \<Rightarrow> pci_device list) \<Rightarrow> u8 \<Rightarrow> u8 \<Rightarrow> pci_device list" where
  "dev_tree c below bus dev =
     (let hdr = header_at c bus dev 0 in
      if absent hdr then []
      else concat (map (\<lambda>func. func_tree c below bus dev (of_nat func)) (if header_type hdr AND 0x80 \<noteq> 0 then [0..<8] else [0])))"

primrec bus_tree :: "(u32 \<Rightarrow> u32) \<Rightarrow> nat \<Rightarrow> u8 \<Rightarrow> pci_device list" where
  "bus_tree c 0 = (\<lambda>bus. [])"
| "bus_tree c (Suc depth) = (\<lambda>bus. concat (map (\<lambda>dev. dev_tree c (bus_tree c depth) bus (of_nat dev)) [0..<32]))"

text \<open>Firmware numbers the buses so that the bus behind a bridge has a higher number than its own.\<close>

definition numbered :: "(u32 \<Rightarrow> u32) \<Rightarrow> bool" where
  "numbered c \<longleftrightarrow> (\<forall>bus dev func. is_bridge (header_at c bus dev func) \<longrightarrow> bus \<le> bus_behind c bus dev func)"

text \<open>A step adds the devices \<open>ds\<close> to the table, as far as there is room.\<close>

definition adds :: "pci_device list \<Rightarrow> pci_hw \<times> pci \<Rightarrow> (pci_hw \<times> pci) option \<Rightarrow> bool" where
  "adds ds s r \<longleftrightarrow>
     (\<exists>a. r = Some ((fst s)\<lparr>latch := a\<rparr>, (snd s)\<lparr>g_pci_devices := take MAX_DEVICES (g_pci_devices (snd s) @ ds)\<rparr>))"

definition room :: "pci_hw \<times> pci \<Rightarrow> bool" where
  "room s \<longleftrightarrow> length (g_pci_devices (snd s)) \<le> MAX_DEVICES"

lemma adds_nothing: "room (h, p) \<Longrightarrow> adds [] (h, p) (Some (h\<lparr>latch := a\<rparr>, p))"
  by (auto simp: adds_def room_def)

lemma adds_room: "adds ds s (Some s') \<Longrightarrow> room s' \<and> conf (fst s') = conf (fst s)"
  by (auto simp: adds_def room_def)

lemma adds_trans: "adds ds s (Some s') \<Longrightarrow> adds ds' s' r \<Longrightarrow> adds (ds @ ds') s r"
  by (auto simp: adds_def MAX_DEVICES_def take_append min_def)

lemma fold_adds:
  assumes "\<And>x s. x \<in> set xs \<Longrightarrow> room s \<Longrightarrow> conf (fst s) = c \<Longrightarrow> adds (g x) s (f x s)"
  shows "room s \<Longrightarrow> conf (fst s) = c \<Longrightarrow> adds (concat (map g xs)) s (fold_opt f xs s)"
  using assms
proof (induction xs arbitrary: s)
  case Nil
  then show ?case using adds_nothing [of "fst s" "snd s" "latch (fst s)"] by simp
next
  case (Cons x xs)
  have a: "adds (g x) s (f x s)" using Cons.prems by simp
  then obtain s' where s': "f x s = Some s'" by (auto simp: adds_def)
  with a have "room s'" "conf (fst s') = c" using adds_room Cons.prems(2) by (metis)+
  then have "adds (concat (map g xs)) s' (fold_opt f xs s')" using Cons.IH Cons.prems(3) by simp
  then show ?case using a s' adds_trans by fastforce
qed

section \<open>The enumeration walks over the tree\<close>

lemma check_func_adds:
  assumes "room s" "conf (fst s) = c"
    and below: "\<And>dev func s. is_bridge (header_at c bus dev func) \<Longrightarrow> bus_behind c bus dev func \<noteq> bus \<Longrightarrow> room s \<Longrightarrow> conf (fst s) = c \<Longrightarrow>
      adds (below (bus_behind c bus dev func)) s (check_bus (bus_behind c bus dev func) s)"
  shows "adds (func_tree c below bus dev func) s (pci_check_func pci_ports check_bus bus dev func s)"
proof -
  obtain h p where s: "s = (h, p)" by (cases s)
  let ?hdr = "header_at c bus dev func" and ?sec = "bus_behind c bus dev func"
  obtain a where rd: "pci_read_header pci_ports bus dev func h = (?hdr, h\<lparr>latch := a\<rparr>)"
    using read_header [of bus dev func h] assms(2) s by auto
  show ?thesis
  proof (cases "absent ?hdr \<or> length (g_pci_devices p) \<ge> MAX_DEVICES")
    case True
    then show ?thesis
      using assms(1) by (auto simp: s rd pci_check_func_def func_tree_def absent_def adds_def room_def)
  next
    case False
    let ?p = "p\<lparr>g_pci_devices := g_pci_devices p @ [pci_device_of bus dev func ?hdr]\<rparr>"
    have one: "adds [pci_device_of bus dev func ?hdr] s (Some (h\<lparr>latch := l\<rparr>, ?p))" for l
      using False by (auto simp: adds_def s)
    show ?thesis
    proof (cases "is_bridge ?hdr \<and> ?sec \<noteq> bus")
      case True
      let ?l = "pci_make_addr bus dev func 0x44"
      have r: "pci_check_func pci_ports check_bus bus dev func s = check_bus ?sec (h\<lparr>latch := ?l\<rparr>, ?p)"
        using False True assms(2) by (simp add: s rd pci_check_func_def absent_def is_bridge_def read_config bus_behind_def Let_def)
      have "adds (below ?sec) (h\<lparr>latch := ?l\<rparr>, ?p) (check_bus ?sec (h\<lparr>latch := ?l\<rparr>, ?p))"
        using below [of dev func] True adds_room [OF one] assms(2) s by simp
      with adds_trans [OF one this] show ?thesis using False True r by (simp add: func_tree_def Let_def)
    next
      case noB: False
      have "\<exists>l. pci_check_func pci_ports check_bus bus dev func s = Some (h\<lparr>latch := l\<rparr>, ?p)"
        using False noB assms(2)
        by (auto simp: s rd pci_check_func_def absent_def is_bridge_def read_config bus_behind_def Let_def)
      then obtain l where r: "pci_check_func pci_ports check_bus bus dev func s = Some (h\<lparr>latch := l\<rparr>, ?p)" ..
      have t: "func_tree c below bus dev func = [pci_device_of bus dev func ?hdr]" using False noB by (auto simp: func_tree_def Let_def)
      show ?thesis unfolding r t by (rule one)
    qed
  qed
qed

lemma check_device_adds:
  assumes "room s" "conf (fst s) = c"
    and below: "\<And>dev func s. is_bridge (header_at c bus dev func) \<Longrightarrow> bus_behind c bus dev func \<noteq> bus \<Longrightarrow> room s \<Longrightarrow> conf (fst s) = c \<Longrightarrow>
      adds (below (bus_behind c bus dev func)) s (check_bus (bus_behind c bus dev func) s)"
  shows "adds (dev_tree c below bus dev) s (pci_check_device pci_ports check_bus bus dev s)"
proof -
  obtain h p where s: "s = (h, p)" by (cases s)
  let ?hdr = "header_at c bus dev 0" and ?f = "\<lambda>func. pci_check_func pci_ports check_bus bus dev (of_nat func)"
  let ?t = "\<lambda>func :: nat. func_tree c below bus dev (of_nat func)"
  obtain a where rd: "pci_read_header pci_ports bus dev 0 h = (?hdr, h\<lparr>latch := a\<rparr>)"
    using read_header [of bus dev 0 h] assms(2) s by auto
  show ?thesis
  proof (cases "absent ?hdr")
    case True
    then show ?thesis
      using assms(1) by (auto simp: s rd pci_check_device_def dev_tree_def absent_def adds_def room_def)
  next
    case False
    let ?fs = "if header_type ?hdr AND 0x80 \<noteq> 0 then [1..<8] else [] :: nat list"
    have z: "adds [] s (Some (h\<lparr>latch := a\<rparr>, p))" using adds_nothing assms(1) s by simp
    have f: "adds (?t func) s (?f func s)" if "room s" "conf (fst s) = c" for func s
      using check_func_adds [OF that] below by blast
    have "adds (concat (map ?t (0 # ?fs))) (h\<lparr>latch := a\<rparr>, p) (fold_opt ?f (0 # ?fs) (h\<lparr>latch := a\<rparr>, p))"
      by (rule fold_adds) (use f adds_room [OF z] assms(2) s in auto)
    moreover have "pci_check_device pci_ports check_bus bus dev s = fold_opt ?f (0 # ?fs) (h\<lparr>latch := a\<rparr>, p)"
      using False by (auto simp: s rd pci_check_device_def absent_def Let_def split: option.splits)
    moreover have "(if header_type ?hdr AND 0x80 \<noteq> 0 then [0..<8] else [0]) = 0 # ?fs" by (simp add: upt_rec)
    then have "dev_tree c below bus dev = concat (map ?t (0 # ?fs))" using False unfolding dev_tree_def Let_def by presburger
    ultimately show ?thesis using adds_trans [OF z] by simp
  qed
qed

lemma check_level_adds:
  assumes "\<And>dev func s. is_bridge (header_at c bus dev func) \<Longrightarrow> bus_behind c bus dev func \<noteq> bus \<Longrightarrow> room s \<Longrightarrow> conf (fst s) = c \<Longrightarrow>
      adds (bus_tree c depth (bus_behind c bus dev func)) s (pci_check_bus pci_ports depth (bus_behind c bus dev func) s)"
    and "room s" "conf (fst s) = c"
  shows "adds (bus_tree c (Suc depth) bus) s (pci_check_bus pci_ports (Suc depth) bus s)"
proof -
  have "adds (dev_tree c (bus_tree c depth) bus dev) s (pci_check_device pci_ports (pci_check_bus pci_ports depth) bus dev s)"
    if "room s" "conf (fst s) = c" for dev s
    using check_device_adds [OF that] assms(1) by blast
  then show ?thesis unfolding bus_tree.simps pci_check_bus.simps by (intro fold_adds) (use assms(2,3) in auto)
qed

lemma check_bus_adds:
  assumes "numbered c"
  shows "256 \<le> unat bus + depth \<Longrightarrow> room s \<Longrightarrow> conf (fst s) = c \<Longrightarrow> adds (bus_tree c depth bus) s (pci_check_bus pci_ports depth bus s)"
proof (induction depth arbitrary: bus s)
  case 0
  then show ?case using unsigned_less [of bus, where ?'a = nat] by simp
next
  case (Suc depth)
  have "bus < bus_behind c bus dev func" if "is_bridge (header_at c bus dev func)" "bus_behind c bus dev func \<noteq> bus" for dev func
    using assms that by (metis numbered_def order_le_neq_trans)
  then show ?case
    using Suc.prems by (intro check_level_adds Suc.IH) (force simp: word_less_nat_alt)+
qed

text \<open>The roots: the functions of the host bridge stand for a bus each when there are several.\<close>

definition pci_tree :: "(u32 \<Rightarrow> u32) \<Rightarrow> pci_device list" where
  "pci_tree c =
     (if header_type (header_at c 0 0 0) AND 0x80 = 0 then bus_tree c 256 0
      else concat (map (\<lambda>func. if reg_at c 0 0 (of_nat func) 0 AND 0xFFFF \<noteq> 0xFFFF then bus_tree c 256 (of_nat func) else []) [0..<8]))"

lemma enumerate_single:
  assumes "header_type (header_at (conf h) 0 0 0) AND 0x80 = 0"
    and bus: "\<And>s. room s \<Longrightarrow> conf (fst s) = conf h \<Longrightarrow> adds (bus_tree (conf h) 256 0) s (pci_check_bus pci_ports 256 0 s)"
  shows "adds (bus_tree (conf h) 256 0) (h, p\<lparr>g_pci_devices := []\<rparr>) (pci_enumerate pci_ports 256 (h, p))"
proof -
  let ?c = "conf h" and ?p = "p\<lparr>g_pci_devices := []\<rparr>"
  obtain a where rd: "pci_read_header pci_ports 0 0 0 h = (header_at ?c 0 0 0, h\<lparr>latch := a\<rparr>)"
    using read_header [of 0 0 0 h] by auto
  have z: "adds [] (h, ?p) (Some (h\<lparr>latch := a\<rparr>, ?p))" by (rule adds_nothing) (simp add: room_def)
  have "adds (bus_tree ?c 256 0) (h\<lparr>latch := a\<rparr>, ?p) (pci_check_bus pci_ports 256 0 (h\<lparr>latch := a\<rparr>, ?p))"
    by (rule bus) (simp_all add: room_def)
  then show ?thesis
    using adds_trans [OF z] assms(1) by (simp add: pci_enumerate_def rd Let_def del: pci_check_bus.simps bus_tree.simps)
qed

lemma enumerate_adds:
  assumes "numbered (conf h)"
  shows "adds (pci_tree (conf h)) (h, p\<lparr>g_pci_devices := []\<rparr>) (pci_enumerate pci_ports 256 (h, p))"
proof -
  let ?c = "conf h" and ?p = "p\<lparr>g_pci_devices := []\<rparr>"
  obtain a where rd: "pci_read_header pci_ports 0 0 0 h = (header_at ?c 0 0 0, h\<lparr>latch := a\<rparr>)"
    using read_header [of 0 0 0 h] by auto
  have z: "adds [] (h, ?p) (Some (h\<lparr>latch := a\<rparr>, ?p))" by (rule adds_nothing) (simp add: room_def)
  have bus: "adds (bus_tree ?c 256 b) s (pci_check_bus pci_ports 256 b s)" if "room s" "conf (fst s) = ?c" for b s
    using check_bus_adds [OF assms _ that] by simp
  show ?thesis
  proof (cases "header_type (header_at ?c 0 0 0) AND 0x80 = 0")
    case True
    then show ?thesis using enumerate_single [OF True, of p] bus [of _ 0] by (simp add: pci_tree_def del: pci_check_bus.simps bus_tree.simps)
  next
    case False
    let ?f = "\<lambda>func (h, p). let (v, h) = pci_read_config pci_ports 0 0 (of_nat func) 0 h; vendor = v AND 0xFFFF
            in if vendor \<noteq> ucast PCI_VENDOR_NONE then pci_check_bus pci_ports 256 (of_nat func) (h, p) else Some (h, p)"
    let ?t = "\<lambda>func :: nat. if reg_at ?c 0 0 (of_nat func) 0 AND 0xFFFF \<noteq> 0xFFFF then bus_tree ?c 256 (of_nat func) else []"
    have f: "adds (?t func) s (?f func s)" if s: "room s" "conf (fst s) = ?c" for func s
    proof -
      obtain h1 p1 where s1: "s = (h1, p1)" by (cases s)
      let ?h = "h1\<lparr>latch := pci_make_addr 0 0 (of_nat func) 0\<rparr>"
      have z1: "adds [] s (Some (?h, p1))" using adds_nothing s(1) s1 by simp
      have "adds (bus_tree ?c 256 (of_nat func)) (?h, p1) (pci_check_bus pci_ports 256 (of_nat func) (?h, p1))"
        by (rule bus) (use s s1 in \<open>simp_all add: room_def\<close>)
      from adds_trans [OF z1 this] show ?thesis
        using z1 s(2) s1 by (simp add: read_config PCI_VENDOR_NONE_def Let_def del: pci_check_bus.simps bus_tree.simps)
    qed
    have "adds (concat (map ?t [0..<8])) (h\<lparr>latch := a\<rparr>, ?p) (fold_opt ?f [0..<8] (h\<lparr>latch := a\<rparr>, ?p))"
      by (rule fold_adds) (use f in \<open>auto simp: room_def\<close>)
    with adds_trans [OF z this] show ?thesis
      using False by (simp add: pci_enumerate_def rd pci_tree_def Let_def del: pci_check_bus.simps bus_tree.simps upt_Suc fold_opt.simps)
  qed
qed

section \<open>Properties\<close>


text \<open>A machine with a host bridge alone.\<close>

definition one_device :: pci_hw where
  "one_device = \<lparr>latch = 0, conf = (\<lambda>_. 0xFFFFFFFF)(0x80000000 := 0x12378086, 0x80000008 := 0x06000002, 0x8000000C := 0)\<rparr>"

lemma header_class: "h_class_code (header_at c bus dev func) = ucast (drop_bit 24 (reg_at c bus dev func 8))"
  by (simp add: header_at_def header_bytes_def le_bytes_def upt_rec)

lemma header_subclass: "h_subclass (header_at c bus dev func) = ucast (drop_bit 16 (reg_at c bus dev func 8))"
  by (simp add: header_at_def header_bytes_def le_bytes_def upt_rec)

lemma one_device_numbered: "numbered (conf one_device)"
proof -
  have "\<not> is_bridge (header_at (conf one_device) bus dev func)" for bus dev func
  proof -
    have "reg_at (conf one_device) bus dev func 8 \<in> {0xFFFFFFFF, 0x12378086, 0x06000002, 0}"
      by (auto simp: reg_at_def one_device_def)
    then show ?thesis by (auto simp: is_bridge_def header_class header_subclass)
  qed
  then show ?thesis by (auto simp: numbered_def)
qed


lemma dev_tree_bus:
  assumes "\<And>dev func. reg_at c bus dev func 0x44 = 0" "bus = 0"
  shows "\<forall>d \<in> set (dev_tree c below bus dev). d_bus d = bus"
  using assms by (auto simp: dev_tree_def func_tree_def Let_def bus_behind_def pci_device_of_def)

lemma root_tree_bus:
  assumes "\<And>dev func. reg_at c 0 dev func 0x44 = 0"
  shows "\<forall>d \<in> set (bus_tree c (Suc depth) 0). d_bus d = 0"
  using dev_tree_bus [of c 0] assms by auto

text \<open>
  The number of the bus behind a bridge is read from register 0x44, which bridges do not have there: when it
  is 0, no device behind a bridge is found, whatever the bridges are set to.
\<close>

theorem pci_root_bus_only:
  assumes "header_type (header_at (conf h) 0 0 0) AND 0x80 = 0" "\<And>dev func. reg_at (conf h) 0 dev func 0x44 = 0"
  shows "\<exists>h' p'. pci_enumerate pci_ports 256 (h, p) = Some (h', p') \<and> (\<forall>d \<in> set (g_pci_devices p'). d_bus d = 0)"
proof -
  have level: "adds (bus_tree (conf h) (Suc 255) 0) s (pci_check_bus pci_ports (Suc 255) 0 s)" if "room s" "conf (fst s) = conf h" for s
    by (rule check_level_adds) (use assms(2) that in \<open>simp_all add: bus_behind_def\<close>)
  have "adds (bus_tree (conf h) 256 0) (h, p\<lparr>g_pci_devices := []\<rparr>) (pci_enumerate pci_ports 256 (h, p))"
    by (rule enumerate_single [OF assms(1)]) (use level in simp)
  moreover have "\<forall>d \<in> set (take MAX_DEVICES (bus_tree (conf h) 256 0)). d_bus d = 0"
    using root_tree_bus [of "conf h" 255] assms(2) by (auto dest: in_set_takeD)
  ultimately show ?thesis by (auto simp: adds_def)
qed

text \<open>A machine with a host bridge and a PCI bridge, set to bus 1, behind which there is a device.\<close>

definition bridged :: pci_hw where
  "bridged = \<lparr>latch = 0, conf = (\<lambda>_. 0)(0x80000000 := 0x12378086, 0x80000008 := 0x06000002,
     0x80000800 := 0x00011B36, 0x80000808 := 0x06040000, 0x8000080C := 0x00010000, 0x80000818 := 0x00010100,
     0x80010000 := 0x100E8086, 0x80010008 := 0x02000003)\<rparr>"

lemma bridged_44: "reg_at (conf bridged) bus dev func 0x44 = 0"
proof -
  have "bit (pci_make_addr bus dev func 0x44) 6" by (simp add: pci_make_addr_def bit_or_iff bit_push_bit_iff bit_ucast_iff)
  moreover have "\<not> bit a 6" if "a \<in> {0x80000000, 0x80000008, 0x80000800, 0x80000808, 0x8000080C, 0x80000818, 0x80010000, 0x80010008}"
    for a :: u32 using that by auto
  ultimately have "pci_make_addr bus dev func 0x44 \<notin> {0x80000000, 0x80000008, 0x80000800, 0x80000808, 0x8000080C, 0x80000818, 0x80010000, 0x80010008}"
    by blast
  then show ?thesis by (simp add: reg_at_def bridged_def)
qed

lemma header_ids:
  "header_type (header_at c bus dev func) = ucast (drop_bit 16 (reg_at c bus dev func 12))"
  "vendor_id (header_at c bus dev func) = bytes_le [ucast (reg_at c bus dev func 0), ucast (drop_bit 8 (reg_at c bus dev func 0))]"
  by (simp_all add: header_at_def header_bytes_def le_bytes_def get_le_def upt_rec)

lemma pci_root_bus_only_witness:
  "\<not> absent (header_at (conf bridged) 1 0 0) \<and>
   (\<exists>h' p'. pci_enumerate pci_ports 256 (bridged, \<lparr>g_pci_devices = [], g_gpu_info = None\<rparr>) = Some (h', p') \<and>
      (\<forall>d \<in> set (g_pci_devices p'). d_bus d = 0))"
proof -
  have "header_type (header_at (conf bridged) 0 0 0) AND 0x80 = 0"
    by (simp add: header_ids reg_at_def bridged_def pci_make_addr_def)
  from pci_root_bus_only [OF this bridged_44] show ?thesis
    by (simp add: absent_def header_ids reg_at_def bridged_def pci_make_addr_def PCI_VENDOR_NONE_def)
qed

section \<open>ACPI\<close>

text \<open>The structure of the FADT as the header file declares it: the offset of every field behind the common header.\<close>

definition fadt_fields :: "(string \<times> nat) list" where
  "fadt_fields = [(''firmware_ctrl'', 4), (''dsdt'', 4), (''reserved'', 1), (''preferred_pm_profile'', 1), (''sci_int'', 2),
     (''smi_cmd'', 4), (''acpi_enable'', 1), (''acpi_disable'', 1), (''s4bios_req'', 1), (''pstate_cnt'', 1), (''pm1a_evt_blk'', 4),
     (''pm1b_evt_blk'', 4), (''pm1a_cnt_blk'', 4), (''pm1b_cnt_blk'', 4)]"

fun offset_of :: "nat \<Rightarrow> (string \<times> nat) list \<Rightarrow> string \<Rightarrow> nat option" where
  "offset_of off [] f = None"
| "offset_of off ((g, n) # fs) f = (if f = g then Some off else offset_of (off + n) fs f)"

text \<open>A machine that records the words written to its ports.\<close>

definition log_ports :: "(u16 \<times> u16) list ports" where
  "log_ports = \<lparr>inb = (\<lambda>h p. (0, h)), outb = (\<lambda>h p v. h), inw = (\<lambda>h p. (0, h)), outw = (\<lambda>h p v. h @ [(p, v)]),
     inl = (\<lambda>h p. (0, h)), outl = (\<lambda>h p v. h)\<rparr>"

lemma low_word: "ucast (load_le 4 m a :: u32) = (ucast (m a) OR push_bit 8 (ucast (m (a + 1))) :: u16)"
proof (rule bit_word_eqI)
  fix n assume n: "n < LENGTH(16)"
  have "\<not> bit (m a) n" if "8 \<le> n" using that bit_imp_le_length [of "m a" n] by auto
  moreover have "n div 8 = 1 \<and> n mod 8 = n - 8" if "8 \<le> n" using that n by (auto simp: le_div_geq le_mod_geq)
  ultimately show "bit (ucast (load_le 4 m a :: u32) :: u16) n = bit (ucast (m a) OR push_bit 8 (ucast (m (a + 1))) :: u16) n"
    using n by (cases "n < 8") (auto simp: bit_load_le bit_ucast_iff bit_or_iff bit_push_bit_iff)
qed

text \<open>
  The power is switched off at the wrong port: the driver takes the word at offset 52 of the FADT, where the
  structure has the bytes acpi_enable and acpi_disable, for the block pm1a_cnt_blk, which is at offset 64.
\<close>

theorem acpi_shutdown_port:
  assumes "find_rsdp m = rsdp" "rsdp \<noteq> 0" "load_le 4 m (ucast (rsdp + 16)) = rsdt" "rsdt \<noteq> 0"
    "find_fadt m rsdt = fadt" "fadt \<noteq> 0" "pm1a_cnt (acpi_init m a) \<noteq> 0"
  shows "offset_of 36 fadt_fields ''acpi_enable'' = Some 52 \<and> offset_of 36 fadt_fields ''acpi_disable'' = Some 53 \<and>
     offset_of 36 fadt_fields ''pm1a_cnt_blk'' = Some 64 \<and>
     (let port = ucast (m (ucast fadt + 52)) OR push_bit 8 (ucast (m (ucast fadt + 53)))
      in \<exists>rest. acpi_shutdown log_ports (acpi_init m a) [] = (port, 0x2000) # rest)"
proof -
  have "pm1a_cnt (acpi_init m a) = load_le 4 m (ucast fadt + 52)"
    using assms(1-6) by (simp add: acpi_init_def dword_at_def Let_def)
  moreover have "ucast fadt + 52 + 1 = (ucast fadt + 53 :: u64)" by simp
  ultimately have p: "ucast (pm1a_cnt (acpi_init m a)) = (ucast (m (ucast fadt + 52)) OR push_bit 8 (ucast (m (ucast fadt + 53))) :: u16)"
    using low_word [of m "ucast fadt + 52"] by metis
  then show ?thesis
    using assms(7) by (simp add: acpi_shutdown_def log_ports_def fadt_fields_def Let_def del: p)
qed

text \<open>Tables as the firmware leaves them: the RSDP at 0xE0000, the RSDT at 0xF0000 and a FADT at 0xF1000.\<close>

definition firmware :: mem where
  "firmware = (\<lambda>a.
     if a - 0xE0000 < 20 then ([82, 83, 68, 32, 80, 84, 82, 32, 0xD2, 0, 0, 0, 0, 0, 0, 0, 0, 0, 0x0F, 0] ! unat (a - 0xE0000))
     else if a - 0xF0000 < 40 then (replicate 4 0 @ [40] @ replicate 31 0 @ [0, 0x10, 0x0F, 0]) ! unat (a - 0xF0000)
     else if a - 0xF1000 < 72 then (map of_char ''FACP'' @ replicate 48 0 @ [0xF1, 0xF0] @ replicate 10 0 @ [4, 6] @ replicate 6 0) ! unat (a - 0xF1000)
     else 0)"

lemma firmware_tables:
  "find_rsdp firmware = 0xE0000" "load_le 4 firmware 0xE0010 = (0xF0000 :: u32)" "find_fadt firmware 0xF0000 = 0xF1000"
  "dword_at firmware 0xF1000 13 = 0x0000F0F1" "firmware (0xF1000 + 52) = 0xF1" "firmware (0xF1000 + 53) = 0xF0"
proof -
  have l: "load_le 4 m a = (ucast (m a) OR push_bit 8 (ucast (m (a + 1)) OR push_bit 8 (ucast (m (a + 2)) OR push_bit 8 (ucast (m (a + 3)))))  :: u32)"
    for m a
  proof -
    have four: "(4 :: nat) = Suc (Suc (Suc (Suc 0)))" by simp
    show ?thesis unfolding four load_le.simps by (simp add: add.assoc)
  qed
  have b: "load_le 2 firmware 0x40E = (0 :: u16)"
  proof -
    have two: "(2 :: nat) = Suc (Suc 0)" by simp
    show ?thesis unfolding two load_le.simps by (simp add: firmware_def)
  qed
  have r: "is_rsdp firmware 0xE0000"
    by (simp add: is_rsdp_def mem_bytes_def ACPI_RSDP_SIG_def acpi_checksum_def firmware_def upt_rec)
  have "find_rsdp_in_region firmware 0xE0000 0x20000 = 0xE0000"
  proof -
    have u: "[0..<(0x20000 + 15) div 16] = 0 # [Suc 0..<(0x20000 + 15) div 16]" by (rule upt_conv_Cons) simp
    show ?thesis unfolding find_rsdp_in_region_def u using r by simp
  qed
  then show "find_rsdp firmware = 0xE0000" by (simp add: find_rsdp_def b Let_def)
  show rs: "load_le 4 firmware 0xE0010 = (0xF0000 :: u32)" by (simp add: l firmware_def)
  have d: "dword_at firmware 0xF0000 1 = 40" "dword_at firmware 0xF0000 9 = 0xF1000" by (simp_all add: l dword_at_def firmware_def nth_append nth_Cons')
  have f: "mem_bytes firmware 0xF1000 4 = ACPI_FADT_SIG" by (simp add: mem_bytes_def ACPI_FADT_SIG_def firmware_def upt_rec)
  show "find_fadt firmware 0xF0000 = 0xF1000" using f d(1) [unfolded One_nat_def] d(2) by (simp add: find_fadt_def upt_rec Let_def)
  show "dword_at firmware 0xF1000 13 = 0x0000F0F1" by (simp add: l dword_at_def firmware_def nth_append)
  show "firmware (0xF1000 + 52) = 0xF1" "firmware (0xF1000 + 53) = 0xF0" by (simp_all add: firmware_def nth_append)
qed

lemma acpi_shutdown_port_witness:
  "\<exists>rest. acpi_shutdown log_ports (acpi_init firmware \<lparr>pm1a_cnt = 0, pm1b_cnt = 0\<rparr>) [] = (0xF0F1, 0x2000) # rest"
proof -
  have "pm1a_cnt (acpi_init firmware \<lparr>pm1a_cnt = 0, pm1b_cnt = 0\<rparr>) \<noteq> 0" by (simp add: acpi_init_def firmware_tables Let_def)
  from acpi_shutdown_port [OF firmware_tables(1) _ _ _ firmware_tables(3) _ this]
  have "\<exists>rest. acpi_shutdown log_ports (acpi_init firmware \<lparr>pm1a_cnt = 0, pm1b_cnt = 0\<rparr>) [] =
      (ucast (firmware (0xF1000 + 52)) OR push_bit 8 (ucast (firmware (0xF1000 + 53))), 0x2000) # rest"
    using firmware_tables(2,5,6) by (simp add: Let_def)
  then show ?thesis using firmware_tables(5,6) by simp
qed

end
