(* ===== verification/Gui.thy ===== *)
theory Gui
  imports KShellCmds
begin

text \<open>
  The desktop, \<^verbatim>\<open>kernel/gui.c\<close>: windows with their stacking order, what they show, the menu, the task bar,
  the pointer, and the loop over the frames. Coordinates of type \<open>int\<close> are integers; they are cut to 16 bits where the
  code casts them. The pixels of a window and those under the pointer are in the memory of the display.
  \<open>None\<close> is a heap that does not grow any more, or a driver of the file system that does not return.
\<close>

section \<open>State\<close>

definition MAX_WINDOWS :: nat where "MAX_WINDOWS = 8"
definition TITLEBAR_H :: int where "TITLEBAR_H = 22"
definition BORDER_W :: int where "BORDER_W = 1"
definition TASKBAR_H :: int where "TASKBAR_H = 26"
definition TASKBAR_BTN_W :: int where "TASKBAR_BTN_W = 110"
definition FRAME_TICKS :: u64 where "FRAME_TICKS = 1"
definition CLOCK_TICKS :: u64 where "CLOCK_TICKS = 100"

definition CLR_DESKTOP :: u32 where "CLR_DESKTOP = 0x0000AA"
definition CLR_BORDER :: u32 where "CLR_BORDER = 0xAAAAAA"
definition CLR_BORDER_FOCUS :: u32 where "CLR_BORDER_FOCUS = 0x0000AA"
definition CLR_TITLE_ACTIVE :: u32 where "CLR_TITLE_ACTIVE = 0x0000AA"
definition CLR_TITLE_INACT :: u32 where "CLR_TITLE_INACT = 0xAAAAAA"
definition CLR_TITLE_TEXT :: u32 where "CLR_TITLE_TEXT = 0xFFFFFF"
definition CLR_TITLE_TEXT_I :: u32 where "CLR_TITLE_TEXT_I = 0x444444"
definition CLR_WINDOWBG :: u32 where "CLR_WINDOWBG = 0xBBBBBB"
definition CLR_MENU_BG :: u32 where "CLR_MENU_BG = 0xBBBBBB"
definition CLR_TASKBAR :: u32 where "CLR_TASKBAR = 0xBBBBBB"
definition CLR_TASKBAR_TOP :: u32 where "CLR_TASKBAR_TOP = 0x888888"
definition CLR_TASKBTN :: u32 where "CLR_TASKBTN = 0xAAAAAA"
definition CLR_TASKBTN_ACT :: u32 where "CLR_TASKBTN_ACT = 0x0000AA"
definition CLR_MENUBTN :: u32 where "CLR_MENUBTN = 0x0000AA"
definition CLR_ICON_BG :: u32 where "CLR_ICON_BG = 0xCCCCCC"
definition CLR_ICON_BORDER :: u32 where "CLR_ICON_BORDER = 0x888888"

datatype win_kind = WIN_TERMINAL | WIN_ABOUT | WIN_FILEMAN

record window_t =
  w_used :: bool
  w_x :: int
  w_y :: int
  w_cw :: int
  w_ch :: int
  w_title :: "u8 list"
  w_kind :: win_kind
  w_buf :: u64
  w_term :: term_ctx
  w_cur_row :: u16
  w_cur_col :: u16
  w_line :: line_ed

text \<open>The variables of the file; \<open>gk\<close> is the part of the kernel that the desktop works on.\<close>

record 'd gui =
  g_win :: "window_t list"
  g_zorder :: "nat list"
  g_win_count :: nat
  g_drag_zpos :: int
  g_drag_dx :: int
  g_drag_dy :: int
  g_focus_zpos :: int
  g_menu_open :: bool
  g_cursor_bg :: u64
  g_cursor_saved :: bool
  g_cursor_x :: int
  g_cursor_y :: int
  gk :: "'d kshell"

text \<open>A \<open>uint16_t\<close> cast, a step of drawing, and a change of one window.\<close>

abbreviation w16 :: "int \<Rightarrow> u16" where "w16 \<equiv> word_of_int"

definition gdraw :: "(gpu \<Rightarrow> gpu) \<Rightarrow> 'd gui \<Rightarrow> 'd gui" where "gdraw f s = gk_update (sgpu_update f) s"

definition upd_win :: "nat \<Rightarrow> (window_t \<Rightarrow> window_t) \<Rightarrow> 'd gui \<Rightarrow> 'd gui" where
  "upd_win i f s = s\<lparr>g_win := (g_win s)[i := f (g_win s ! i)]\<rparr>"

definition win_total_w :: "window_t \<Rightarrow> int" where "win_total_w w = w_cw w + BORDER_W * 2"
definition win_total_h :: "window_t \<Rightarrow> int" where "win_total_h w = w_ch w + TITLEBAR_H + BORDER_W"
definition win_client_x :: "window_t \<Rightarrow> int" where "win_client_x w = w_x w + BORDER_W"
definition win_client_y :: "window_t \<Rightarrow> int" where "win_client_y w = w_y w + TITLEBAR_H"

definition point_in :: "int \<Rightarrow> int \<Rightarrow> int \<Rightarrow> int \<Rightarrow> int \<Rightarrow> int \<Rightarrow> bool" where
  "point_in px py x y w h \<longleftrightarrow> px \<ge> x \<and> px < x + w \<and> py \<ge> y \<and> py < y + h"

section \<open>Drawing\<close>

definition draw_flat_border :: "u16 \<Rightarrow> u16 \<Rightarrow> u16 \<Rightarrow> u16 \<Rightarrow> u32 \<Rightarrow> gpu \<Rightarrow> gpu" where
  "draw_flat_border x y w h color g =
     (let g = gpu_fill_rect g x y w 1 color;
          g = gpu_fill_rect g x (y + h - 1) w 1 color;
          g = gpu_fill_rect g x y 1 h color
      in gpu_fill_rect g (x + w - 1) y 1 h color)"

definition draw_close_button :: "u16 \<Rightarrow> u16 \<Rightarrow> gpu \<Rightarrow> gpu" where
  "draw_close_button x y g =
     (let sz = 14; g = gpu_fill_rect g x y sz sz 0xAA0000; g = draw_flat_border x y sz sz 0x880000 g; c = 0xFFFFFF;
          g = fold (\<lambda>i g. gpu_put_pixel (gpu_put_pixel g (x + of_nat i) (y + of_nat i) c) (x + 8 - of_nat i + 2) (y + of_nat i) c)
                [2..<9] g
      in fold (\<lambda>i g. gpu_put_pixel (gpu_put_pixel g (x + of_nat i + 1) (y + of_nat i) c) (x + 7 - of_nat i + 3) (y + of_nat i) c)
           [3..<8] g)"

definition draw_min_button :: "u16 \<Rightarrow> u16 \<Rightarrow> gpu \<Rightarrow> gpu" where
  "draw_min_button x y g =
     (let sz = 14; g = gpu_fill_rect g x y sz sz CLR_TASKBTN; g = draw_flat_border x y sz sz 0x888888 g
      in fold (\<lambda>i g. gpu_put_pixel g (x + of_nat i) (y + 10) 0x444444) [3..<11] g)"

definition draw_window_chrome :: "window_t \<Rightarrow> bool \<Rightarrow> gpu \<Rightarrow> gpu" where
  "draw_window_chrome w focused g =
     (let ow = win_total_w w; oh = win_total_h w;
          border_color = (if focused then CLR_BORDER_FOCUS else CLR_BORDER);
          g = draw_flat_border (w16 (w_x w)) (w16 (w_y w)) (w16 ow) (w16 oh) border_color g;
          title_bg = (if focused then CLR_TITLE_ACTIVE else CLR_TITLE_INACT);
          title_fg = (if focused then CLR_TITLE_TEXT else CLR_TITLE_TEXT_I);
          g = gpu_fill_rect g (w16 (w_x w + 1)) (w16 (w_y w + 1)) (w16 (ow - 2)) (w16 (TITLEBAR_H - 1)) title_bg;
          g = gpu_draw_text g (w16 (w_x w + 6)) (w16 (w_y w + 5)) (w_title w) title_fg title_bg;
          g = draw_close_button (w16 (w_x w + ow - 18)) (w16 (w_y w + 4)) g;
          g = draw_min_button (w16 (w_x w + ow - 34)) (w16 (w_y w + 4)) g
      in gpu_fill_rect g (w16 (w_x w + 1)) (w16 (w_y w + TITLEBAR_H)) (w16 (ow - 2)) (w16 (w_ch w)) CLR_WINDOWBG)"

text \<open>The array of pixels at an address, and storing into it.\<close>

definition pixels_at :: "gpu \<Rightarrow> u64 \<Rightarrow> nat \<Rightarrow> u32" where
  "pixels_at g p i = load_le 4 (vram g) (p + 4 * of_nat i)"

definition store_pixels :: "u64 \<Rightarrow> (nat \<Rightarrow> u32) \<Rightarrow> nat \<Rightarrow> gpu \<Rightarrow> gpu" where
  "store_pixels p f n g = vram_update (\<lambda>m. fold (\<lambda>i m. store_le 4 m (p + 4 * of_nat i) (f i)) [0..<n] m) g"

text \<open>The content of a window, copied into its client area.\<close>

definition blit_window :: "window_t \<Rightarrow> gpu \<Rightarrow> gpu" where
  "blit_window w g =
     gpu_blit_buffer g (pixels_at g (w_buf w)) (w16 (w_cw w)) (w16 (w_ch w)) (w16 (win_client_x w)) (w16 (win_client_y w))"

definition compose_windows :: "'d gui \<Rightarrow> 'd gui" where
  "compose_windows s =
     gdraw (fold (\<lambda>z g.
        let w = g_win s ! (g_zorder s ! z)
        in if \<not> w_used w then g else blit_window w (draw_window_chrome w (z + 1 = g_win_count s) g))
      [0..<g_win_count s]) s"

definition draw_desktop_icon :: "u16 \<Rightarrow> u16 \<Rightarrow> u8 list \<Rightarrow> u32 \<Rightarrow> gpu \<Rightarrow> gpu" where
  "draw_desktop_icon x y label color g =
     (let g = gpu_fill_rect g x y 40 40 CLR_ICON_BG;
          g = draw_flat_border x y 40 40 CLR_ICON_BORDER g;
          g = gpu_fill_rect g (x + 6) (y + 4) 28 22 color;
          lbl_x = uint x + 20 - int (length label) * 4;
          lbl_x = (if lbl_x < uint x then uint x else lbl_x)
      in gpu_draw_text g (w16 lbl_x) (y + 44) label 0xFFFFFF CLR_DESKTOP)"

definition desktop_icons :: "(u16 \<times> u16 \<times> string \<times> u32) list" where
  "desktop_icons =
     [(20, 20, ''Terminal'', 0x000000), (90, 20, ''File Manager'', 0x808000), (160, 20, ''About'', 0x008000),
      (230, 20, ''Network'', 0x000080), (300, 20, ''System'', 0x800080), (20, 90, ''Run...'', 0x808080),
      (90, 90, ''Help'', 0x008080), (160, 90, ''Console'', 0x444444), (230, 90, ''Settings'', 0x804000),
      (300, 90, ''Shutdown'', 0xAA0000)]"

definition draw_desktop_icons :: "gpu \<Rightarrow> gpu" where
  "draw_desktop_icons g = fold (\<lambda>(x, y, label, color). draw_desktop_icon x y (text_of label) color) desktop_icons g"

section \<open>The clock and the task bar\<close>

text \<open>Hours and minutes, as \<open>read_time\<close> writes them before the zero.\<close>

definition read_time :: "'h ports \<Rightarrow> 'h \<Rightarrow> u8 list \<times> 'h" where
  "read_time io h =
     (let (minute, h) = cmos_read io h 0x02; (hour, h) = cmos_read io h 0x04; (status_b, h) = cmos_read io h 0x0B;
          (minute, hour) = (if status_b AND 0x04 = 0 then (bcd_to_bin minute, bcd_to_bin (hour AND 0x7F)) else (minute, hour))
      in ([48 + (hour div 10) mod 10, 48 + hour mod 10, 58, 48 + (minute div 10) mod 10, 48 + minute mod 10], h))"

text \<open>The buttons of the windows from stacking position \<open>z\<close> on; \<open>k\<close> positions are left.\<close>

fun task_buttons :: "'d gui \<Rightarrow> u16 \<Rightarrow> int \<Rightarrow> nat \<Rightarrow> nat \<Rightarrow> int \<Rightarrow> gpu \<Rightarrow> gpu" where
  "task_buttons s w tb_y 0 z bx g = g"
| "task_buttons s w tb_y (Suc k) z bx g =
     (if bx \<ge> uint w - 80 then g
      else
        let win = g_win s ! (g_zorder s ! z) in
        if \<not> w_used win then task_buttons s w tb_y k (z + 1) bx g
        else
          let bw = TASKBAR_BTN_W; focused = (z + 1 = g_win_count s);
              btn_bg = (if focused then CLR_TASKBTN_ACT else CLR_TASKBTN); btn_fg = (if focused then 0xFFFFFF else 0x444444);
              g = gpu_fill_rect g (w16 bx) (w16 (tb_y + 3)) (w16 bw) 20 btn_bg;
              g = draw_flat_border (w16 bx) (w16 (tb_y + 3)) (w16 bw) 20 (if focused then 0x000066 else 0x888888) g;
              max_chars = nat ((bw - 10) div 8);
              g = gpu_draw_text g (w16 (bx + 5)) (w16 (tb_y + 7)) (take max_chars (w_title win)) btn_fg btn_bg
          in task_buttons s w tb_y k (z + 1) (bx + bw + 2) g)"

definition draw_taskbar :: "'d gui \<Rightarrow> u8 list \<Rightarrow> u16 \<Rightarrow> u16 \<Rightarrow> gpu \<Rightarrow> gpu" where
  "draw_taskbar s time w h g =
     (let tb_y = uint h - TASKBAR_H;
          g = gpu_fill_rect g 0 (w16 tb_y) w (w16 TASKBAR_H) CLR_TASKBAR;
          g = gpu_fill_rect g 0 (w16 tb_y) w 1 CLR_TASKBAR_TOP;
          mbx = 2; mby = tb_y + 3; mbw = 50; mbh = 20;
          g = gpu_fill_rect g (w16 mbx) (w16 mby) (w16 mbw) (w16 mbh) CLR_MENUBTN;
          g = draw_flat_border (w16 mbx) (w16 mby) (w16 mbw) (w16 mbh) 0x000066 g;
          g = gpu_draw_text g (w16 (mbx + 8)) (w16 (mby + 5)) (text_of ''Menu'') 0xFFFFFF CLR_MENUBTN;
          g = gpu_fill_rect g 54 (w16 (tb_y + 3)) 1 20 CLR_TASKBAR_TOP;
          g = task_buttons s w tb_y (g_win_count s) 0 58 g;
          clock_w = 60; clock_x = uint w - clock_w - 4; clock_y = tb_y + 3;
          g = gpu_fill_rect g (w16 clock_x) (w16 clock_y) (w16 clock_w) 20 CLR_TASKBAR;
          g = draw_flat_border (w16 clock_x) (w16 clock_y) (w16 clock_w) 20 0x888888 g
      in gpu_draw_text g (w16 (clock_x + 8)) (w16 (clock_y + 5)) time 0x444444 CLR_TASKBAR)"

definition draw_desktop :: "u8 list \<Rightarrow> u16 \<Rightarrow> u16 \<Rightarrow> 'd gui \<Rightarrow> 'd gui" where
  "draw_desktop time w h s =
     gdraw (\<lambda>g. draw_taskbar s time w h (draw_desktop_icons (gpu_fill_rect g 0 0 w h CLR_DESKTOP))) s"

definition menu_items :: "string list" where
  "menu_items = [''Terminal'', ''File Manager'', ''About'', ''Help'', ''Run...'', ''-------'', ''Shut Down'']"

fun draw_menu_items :: "int \<Rightarrow> int \<Rightarrow> int \<Rightarrow> string list \<Rightarrow> gpu \<Rightarrow> gpu" where
  "draw_menu_items mx mw iy [] g = g"
| "draw_menu_items mx mw iy (item # items) g =
     (if hd item = CHR ''-''
      then draw_menu_items mx mw (iy + 6) items (gpu_fill_rect g (w16 (mx + 4)) (w16 (iy + 2)) (w16 (mw - 8)) 1 0x888888)
      else
        let g = gpu_fill_rect g (w16 (mx + 2)) (w16 iy) (w16 (mw - 4)) 24 CLR_MENU_BG;
            g = gpu_draw_text g (w16 (mx + 12)) (w16 (iy + 6)) (text_of item) 0x000000 CLR_MENU_BG
        in draw_menu_items mx mw (iy + 24) items g)"

definition draw_menu_panel :: "u16 \<Rightarrow> gpu \<Rightarrow> gpu" where
  "draw_menu_panel screen_h g =
     (let mx = 2; my = uint screen_h - TASKBAR_H - 200; mw = 180; mh = 198;
          g = gpu_fill_rect g (w16 mx) (w16 my) (w16 mw) (w16 mh) CLR_MENU_BG;
          g = draw_flat_border (w16 mx) (w16 my) (w16 mw) (w16 mh) 0x888888 g;
          g = gpu_fill_rect g (w16 (mx + 1)) (w16 (my + 1)) (w16 (mw - 2)) 20 0x0000AA;
          g = gpu_draw_text g (w16 (mx + 8)) (w16 (my + 5)) (text_of ''EponaOS'') 0xFFFFFF 0x0000AA
      in draw_menu_items mx mw (my + 24) menu_items g)"

section \<open>The pointer\<close>

record gui_pointer =
  p_x :: int
  p_y :: int
  p_buttons :: u8

definition cursor_w :: int where "cursor_w = 12"
definition cursor_h :: int where "cursor_h = 16"

definition read_pointer :: "int \<times> int \<times> u8 \<Rightarrow> u16 \<Rightarrow> u16 \<Rightarrow> gui_pointer" where
  "read_pointer ms w h =
     (let (mx, my, buttons) = ms;
          x = int32 (uint (w div 2) + mx); y = int32 (uint (h div 2) - my);
          x = (if x < 0 then 0 else x); y = (if y < 0 then 0 else y);
          x = (if x > uint w - cursor_w then uint w - cursor_w else x);
          y = (if y > uint h - cursor_h then uint h - cursor_h else y)
      in \<lparr>p_x = x, p_y = y, p_buttons = buttons\<rparr>)"

text \<open>Taking memory from the heap of the kernel.\<close>

definition gui_alloc :: "u64 \<Rightarrow> 'd gui \<Rightarrow> (u64 \<times> 'd gui) option" where
  "gui_alloc n s = do {
     (p, hp) \<leftarrow> kmalloc (vheap (svfs (gk s))) n;
     Some (p, gk_update (svfs_update (vheap_update (\<lambda>_. hp))) s) }"

definition cursor_init :: "'d gui \<Rightarrow> 'd gui option" where
  "cursor_init s =
     (if g_cursor_bg s \<noteq> NULL then Some s
      else do { (p, s) \<leftarrow> gui_alloc (ucast (word_of_int (cursor_w * cursor_h * 4) :: u32)) s; Some (s\<lparr>g_cursor_bg := p\<rparr>) })"

definition save_cursor_bg :: "int \<Rightarrow> int \<Rightarrow> 'd gui \<Rightarrow> 'd gui" where
  "save_cursor_bg x y s =
     (let p = g_cursor_bg s;
          s = gdraw (\<lambda>g. store_pixels p (gpu_save_region g (pixels_at g p) (w16 x) (w16 y) (w16 cursor_w) (w16 cursor_h))
                (nat (cursor_w * cursor_h)) g) s
      in s\<lparr>g_cursor_x := x, g_cursor_y := y, g_cursor_saved := True\<rparr>)"

definition restore_cursor_bg :: "'d gui \<Rightarrow> 'd gui" where
  "restore_cursor_bg s =
     (if \<not> g_cursor_saved s then s
      else (gdraw (\<lambda>g. gpu_restore_region g (pixels_at g (g_cursor_bg s)) (w16 (g_cursor_x s)) (w16 (g_cursor_y s))
             (w16 cursor_w) (w16 cursor_h)) s)\<lparr>g_cursor_saved := False\<rparr>)"

definition cursor_rows :: "string list" where
  "cursor_rows =
     [''X...........'', ''XX..........'', ''XXX.........'', ''XXXX........'', ''XXXXX.......'', ''XXXXXX......'',
      ''XXXXXXX.....'', ''XXXXXXXX....'', ''XXXXXXXXX...'', ''XX..XXXXX...'', ''X...XXXX....'', ''....XXXX....'',
      ''...XXX......'', ''...XXX......'', ''..XX........'', ''..XX........'']"

definition draw_cursor_bitmap :: "int \<Rightarrow> int \<Rightarrow> gpu \<Rightarrow> gpu" where
  "draw_cursor_bitmap bx yb g =
     fold (\<lambda>yy. fold (\<lambda>xx g.
         if cursor_rows ! yy ! xx = CHR ''X'' then gpu_put_pixel g (w16 (bx + int xx)) (w16 (yb + int yy)) 0x000000 else g)
       [0..<12]) [0..<16] g"

definition draw_cursor_at :: "gui_pointer \<Rightarrow> 'd gui \<Rightarrow> 'd gui option" where
  "draw_cursor_at p s = do {
     s \<leftarrow> cursor_init s;
     Some (gdraw (draw_cursor_bitmap (p_x p) (p_y p)) (save_cursor_bg (p_x p) (p_y p) s)) }"

end
