(* ===== verification/Desktop.thy ===== *)
theory Desktop
  imports Gui
begin

text \<open>
  The windows of \<^verbatim>\<open>kernel/gui.c\<close> and its main loop. The outside world of a frame is a \<open>gui_input\<close>: the ticks
  of the timer, what the clock and the mouse say, the next key or 0. The wait for the next tick at the end of a frame
  changes nothing and is left out. The command \<open>gui\<close> in a terminal window runs the desktop once more inside itself.
\<close>

section \<open>Windows\<close>

text \<open>\<open>win_create\<close> takes the first free slot; -1 is \<open>None\<close>.\<close>

definition free_slot :: "'d gui \<Rightarrow> nat option" where
  "free_slot s = find (\<lambda>i. \<not> w_used (g_win s ! i)) [0..<MAX_WINDOWS]"

definition win_create :: "win_kind \<Rightarrow> u8 list \<Rightarrow> int \<Rightarrow> int \<Rightarrow> int \<Rightarrow> int \<Rightarrow> 'd gui \<Rightarrow> (nat option \<times> 'd gui) option" where
  "win_create kind title x y cw ch s =
     (case free_slot s of
        None \<Rightarrow> Some (None, s)
      | Some i \<Rightarrow> do {
          (p, s) \<leftarrow> gui_alloc (ucast (word_of_int (cw * ch * 4) :: u32)) s;
          let s = upd_win i (\<lambda>w. w\<lparr>w_used := True, w_x := x, w_y := y, w_cw := cw, w_ch := ch, w_title := take 31 title,
            w_kind := kind, w_buf := p, w_line := \<lparr>lbuf = (lbuf (w_line w))[0 := 0], lpos = 0, lcpos = 0\<rparr>\<rparr>) s;
          Some (Some i, s\<lparr>g_zorder := (g_zorder s)[g_win_count s := i], g_win_count := g_win_count s + 1\<rparr>)
        })"

text \<open>The loops that close the gap at position \<open>zpos\<close>.\<close>

definition z_shift :: "nat list \<Rightarrow> nat \<Rightarrow> nat \<Rightarrow> nat list" where
  "z_shift zs zpos n = fold (\<lambda>i zs. zs[i := zs ! (i + 1)]) [zpos..<n - 1] zs"

definition win_raise :: "nat \<Rightarrow> 'd gui \<Rightarrow> 'd gui" where
  "win_raise zpos s =
     (let n = g_win_count s in
      if zpos = n - 1 then s
      else s\<lparr>g_zorder := (z_shift (g_zorder s) zpos n)[n - 1 := g_zorder s ! zpos]\<rparr>)"

definition win_close :: "nat \<Rightarrow> 'd gui \<Rightarrow> 'd gui" where
  "win_close zpos s =
     (let i = g_zorder s ! zpos; p = w_buf (g_win s ! i);
          s = (if p \<noteq> NULL then gk_update (svfs_update (vheap_update (\<lambda>hp. kfree hp p))) s else s);
          s = upd_win i (\<lambda>w. w\<lparr>w_used := False\<rparr>) s
      in s\<lparr>g_zorder := z_shift (g_zorder s) zpos (g_win_count s), g_win_count := g_win_count s - 1\<rparr>)"

text \<open>From the top down, the first window that the point hits.\<close>

definition win_hit_test :: "int \<Rightarrow> int \<Rightarrow> 'd gui \<Rightarrow> nat option" where
  "win_hit_test px py s =
     find (\<lambda>z. let w = g_win s ! (g_zorder s ! z)
               in w_used w \<and> point_in px py (w_x w) (w_y w) (win_total_w w) (win_total_h w))
       (rev [0..<g_win_count s])"

section \<open>What windows show\<close>

definition fill_window :: "nat \<Rightarrow> u32 \<Rightarrow> 'd gui \<Rightarrow> 'd gui" where
  "fill_window i c s =
     (let w = g_win s ! i in gdraw (store_pixels (w_buf w) (\<lambda>_. c) (nat (w_cw w * w_ch w))) s)"

text \<open>Drawing into the buffer of a window, with a console of the size of the window, and back to the screen.\<close>

definition enter_target :: "window_t \<Rightarrow> gpu \<Rightarrow> gpu" where
  "enter_target w g =
     gpu_set_console_viewport (gpu_begin_target g (w_buf w) (w16 (w_cw w)) (w16 (w_ch w))) 0 0
       (w16 (w_cw w div 8)) (w16 (w_ch w div 16))"

definition leave_target :: "gpu \<Rightarrow> gpu" where
  "leave_target g = gpu_reset_console_viewport (gpu_end_target g)"

text \<open>The cursor of the console becomes the cursor of window \<open>i\<close>.\<close>

definition keep_cursor :: "nat \<Rightarrow> 'd gui \<Rightarrow> 'd gui" where
  "keep_cursor i s =
     (let (r, c) = gpu_get_cursor (sgpu (gk s)) in upd_win i (\<lambda>w. w\<lparr>w_cur_row := r, w_cur_col := c\<rparr>) s)"

text \<open>A step of the terminal of window \<open>i\<close>.\<close>

definition in_term :: "nat \<Rightarrow> (term_ctx \<times> gpu \<Rightarrow> term_ctx \<times> gpu) \<Rightarrow> 'd gui \<Rightarrow> 'd gui" where
  "in_term i f s =
     (let (ctx, g) = f (w_term (g_win s ! i), sgpu (gk s))
      in upd_win i (\<lambda>w. w\<lparr>w_term := ctx\<rparr>) (gdraw (\<lambda>_. g) s))"

definition win_render_terminal_init :: "nat \<Rightarrow> 'd gui \<Rightarrow> 'd gui" where
  "win_render_terminal_init i s =
     (let s = fill_window i 0x000000 s;
          s = upd_win i (\<lambda>w. w\<lparr>w_term := term_ctx_init (w_term w)\<rparr>) s;
          w = g_win s ! i;
          s = gdraw (\<lambda>g. gpu_set_cursor (gpu_set_color (enter_target w g) 0x0F 0x00) 0 0) s;
          s = in_term i (\<lambda>tg. term_ctx_print tg (text_of ''EponaOS Terminal'' @ [13, 10])) s;
          s = in_term i (\<lambda>tg. term_ctx_print tg (text_of ''Type '' @ [39] @ text_of ''help'' @ [39] @ text_of '' for commands.'' @
                [13, 10, 13, 10])) s;
          s = keep_cursor i s;
          s = gdraw shell_print_prompt s;
          s = keep_cursor i s
      in gdraw leave_target s)"

definition about_lines :: "string list" where
  "about_lines =
     [''  A hobby operating system written'', ''  from scratch in C and x86 ASM.'', '''', ''  Kernel: x86_64 long mode'',
      ''  Memory: PMM + paging 4-level'', ''  Filesystem: FAT32'', ''  Network: ARP, TCP, HTTP'', ''  GUI: KolibriOS-style'', '''',
      ''  (c) 2025 EponaOS Project'']"

definition win_render_about :: "nat \<Rightarrow> 'd gui \<Rightarrow> 'd gui" where
  "win_render_about i s =
     (let s = fill_window i CLR_WINDOWBG s; w = g_win s ! i
      in gdraw (\<lambda>g.
           let g = gpu_set_cursor (gpu_set_color (enter_target w g) 0x01 0x07) 0 0;
               g = gpu_print g (text_of ''         EponaOS'' @ [10, 10]);
               g = gpu_print (gpu_set_color g 0x00 0x07) (lines_text about_lines)
           in leave_target g) s)"

definition fm_readdir_cb :: "gpu \<Rightarrow> u8 list \<times> u32 \<times> u8 \<Rightarrow> gpu" where
  "fm_readdir_cb g ent =
     (case ent of (name, sz, flags) \<Rightarrow>
        let dir = (flags AND VFS_DIR \<noteq> 0);
            g = gpu_print g (text_of ''  '');
            g = (if dir then gpu_set_color g 0x01 0x07 else g);
            g = gpu_print g name;
            g = (if dir then gpu_print g (text_of ''/'') else g);
            g = gpu_set_color g 0x00 0x07;
            g = (if \<not> dir then gpu_print (gpu_print (gpu_print g (text_of ''  (''))  (dec_text (ucast sz))) (text_of '' bytes)'') else g)
        in gpu_print g newline)"

text \<open>The directory is read while the display draws into the window.\<close>

definition win_render_fileman :: "'d drivers \<Rightarrow> nat \<Rightarrow> 'd gui \<Rightarrow> 'd gui option" where
  "win_render_fileman drv i s =
     (let s = fill_window i CLR_WINDOWBG s; w = g_win s ! i;
          s = gdraw (\<lambda>g.
            let g = gpu_set_cursor (gpu_set_color (enter_target w g) 0x00 0x07) 0 0
            in gpu_print g (lines_text [''  EponaOS File Manager'', ''  --------------------'', '''', ''  /''])) s
      in do {
        (entries, v) \<leftarrow> vfs_readdir drv (svfs (gk s)) [47];
        let s = gk_update (svfs_update (\<lambda>_. v)) s;
        Some (gdraw (\<lambda>g. leave_target (foldl fm_readdir_cb g (case entries of None \<Rightarrow> [] | Some es \<Rightarrow> es))) s)
      })"

section \<open>Keys in a terminal window\<close>

text \<open>What a session of the desktop comes to: it goes on, it waits for input, Escape ended it, or the machine went down.\<close>

datatype 'd gui_end = Going "'d gui" | Waiting "'d gui" | Escaped "'d gui" | Off "'d gui" | Restart "'d gui"

fun gui_state :: "'d gui_end \<Rightarrow> 'd gui" where
  "gui_state (Going s) = s" | "gui_state (Waiting s) = s" | "gui_state (Escaped s) = s" | "gui_state (Off s) = s"
| "gui_state (Restart s) = s"

record gui_input =
  in_tick :: u64
  in_time :: "u8 list"
  in_mouse :: "int \<times> int \<times> u8"
  in_key :: int

definition line_target :: "nat \<Rightarrow> 'd gui \<Rightarrow> 'd gui" where
  "line_target i s =
     (let w = g_win s ! i
      in gdraw (\<lambda>g. gpu_set_cursor (gpu_set_color (enter_target w g) (fg (w_term w)) (bg (w_term w))) (w_cur_row w) (w_cur_col w)) s)"

definition gui_terminal_redraw_line :: "nat \<Rightarrow> 'd gui \<Rightarrow> 'd gui" where
  "gui_terminal_redraw_line i s =
     (let e = w_line (g_win s ! i);
          s = line_target i s;
          s = gdraw (\<lambda>g. shell_redraw_line g (lbuf e) (lpos e) (lcpos e)) s;
          s = keep_cursor i s
      in gdraw leave_target s)"

text \<open>
  The dispatcher of the shell; \<open>nested\<close> is the desktop that the command \<open>gui\<close> runs, on the inputs that are left.
\<close>

type_synonym 'd nested = "gui_input list \<Rightarrow> 'd gui \<Rightarrow> ('d gui_end \<times> gui_input list) option"

definition gui_dispatch_line :: "'d shell_env \<Rightarrow> 'd nested \<Rightarrow> gui_input list \<Rightarrow> u8 list \<Rightarrow> 'd gui \<Rightarrow>
    ('d gui_end \<times> gui_input list) option" where
  "gui_dispatch_line env nested ins ln s =
     (let tokens = tokenize ln SHELL_TOKEN_MAX in
      if tokens \<noteq> [] \<and> hd tokens = cmd_name ''gui''
      then do {
        (r, ins) \<leftarrow> nested ins (gk_update (shist_update (\<lambda>h. history_add h ln)) s);
        Some (case r of Escaped s \<Rightarrow> Going s | r \<Rightarrow> r, ins) }
      else do {
        r \<leftarrow> shell_dispatch_line env (gk s) ln;
        Some (case r of Back k \<Rightarrow> Going (s\<lparr>gk := k\<rparr>) | Shutdown k \<Rightarrow> Off (s\<lparr>gk := k\<rparr>) | Reboot k \<Rightarrow> Restart (s\<lparr>gk := k\<rparr>), ins) })"

definition gui_dispatch_command :: "'d shell_env \<Rightarrow> 'd nested \<Rightarrow> gui_input list \<Rightarrow> nat \<Rightarrow> 'd gui \<Rightarrow>
    ('d gui_end \<times> gui_input list) option" where
  "gui_dispatch_command env nested ins i s =
     (let s = gk_update (shell_set_gui_context True) (line_target i s);
          ln = takeWhile (\<lambda>c. c \<noteq> 0) (lbuf (w_line (g_win s ! i)))
      in do {
        (r, ins) \<leftarrow> gui_dispatch_line env nested ins ln s;
        Some (case r of
            Going s \<Rightarrow>
              (let s = gk_update (shell_set_gui_context False) s;
                   s = gdraw shell_print_prompt s;
                   s = keep_cursor i s;
                   s = gdraw leave_target s
               in Going (upd_win i (\<lambda>w. w\<lparr>w_line := \<lparr>lbuf = (lbuf (w_line w))[0 := 0], lpos = 0, lcpos = 0\<rparr>\<rparr>) s))
          | r \<Rightarrow> r, ins) })"

text \<open>A change of the line, shown at once.\<close>

definition edit_line :: "nat \<Rightarrow> (line_ed \<Rightarrow> line_ed) \<Rightarrow> 'd gui \<Rightarrow> 'd gui" where
  "edit_line i f s = gui_terminal_redraw_line i (upd_win i (\<lambda>w. w\<lparr>w_line := f (w_line w)\<rparr>) s)"

definition win_terminal_feed :: "'d shell_env \<Rightarrow> 'd nested \<Rightarrow> gui_input list \<Rightarrow> nat \<Rightarrow> int \<Rightarrow> 'd gui \<Rightarrow>
    ('d gui_end \<times> gui_input list) option" where
  "win_terminal_feed env nested ins i c s =
     (let e = w_line (g_win s ! i); going = (\<lambda>s. Some (Going s, ins)) in
      if c = 10 then
        let s = line_target i s;
            s = in_term i (\<lambda>tg. term_ctx_putc tg 13) s;
            s = in_term i (\<lambda>tg. term_ctx_putc tg 10) s;
            s = keep_cursor i s;
            s = gdraw leave_target s
        in gui_dispatch_command env nested ins i s
      else if c = 8 then going (if lcpos e > 0 then edit_line i shell_backspace_char s else s)
      else if c = KEY_DEL then going (edit_line i shell_delete_char s)
      else if c = 9 then going s
      else if c = KEY_LEFT then going (if lcpos e > 0 then edit_line i (\<lambda>e. e\<lparr>lcpos := lcpos e - 1\<rparr>) s else s)
      else if c = KEY_RIGHT then going (if lcpos e < lpos e then edit_line i (\<lambda>e. e\<lparr>lcpos := lcpos e + 1\<rparr>) s else s)
      else if c = KEY_HOME then going (edit_line i (\<lambda>e. e\<lparr>lcpos := 0\<rparr>) s)
      else if c = KEY_END then going (edit_line i (\<lambda>e. e\<lparr>lcpos := lpos e\<rparr>) s)
      else if 32 \<le> c \<and> c < 127 \<and> lpos e < SHELL_LINE_MAX - 1
      then going (edit_line i (\<lambda>e. shell_insert_char e c SHELL_LINE_MAX) s)
      else going s)"

section \<open>Clicks\<close>

text \<open>A new window of a kind; the window that is on top afterwards is drawn, whether it is the new one or not.\<close>

definition open_window :: "'d drivers \<Rightarrow> win_kind \<Rightarrow> int \<Rightarrow> int \<Rightarrow> 'd gui \<Rightarrow> 'd gui option" where
  "open_window drv kind x y s = do {
     (r, s) \<leftarrow> (case kind of
         WIN_TERMINAL \<Rightarrow> win_create WIN_TERMINAL (text_of ''Terminal'') x y 520 300 s
       | WIN_FILEMAN \<Rightarrow> win_create WIN_FILEMAN (text_of ''File Manager'') x y 480 320 s
       | WIN_ABOUT \<Rightarrow> win_create WIN_ABOUT (text_of ''About EponaOS'') x y 380 240 s);
     if g_win_count s = 0 then Some s
     else
       let i = g_zorder s ! (g_win_count s - 1) in
       (case kind of
         WIN_TERMINAL \<Rightarrow> Some (win_render_terminal_init i s)
       | WIN_FILEMAN \<Rightarrow> win_render_fileman drv i s
       | WIN_ABOUT \<Rightarrow> Some (win_render_about i s)) }"

definition safe_to_turn_off :: "u8 list \<Rightarrow> u16 \<Rightarrow> u16 \<Rightarrow> 'd gui \<Rightarrow> 'd gui" where
  "safe_to_turn_off time w h s =
     gdraw (\<lambda>g. gpu_flip (gpu_draw_text g (w div 2 - 100) (h div 2 - 10)
       (text_of ''It is now safe to turn off your computer.'') 0xFFFFFF CLR_DESKTOP)) (draw_desktop time w h s)"

text \<open>The entry of the menu under the point; the separator, entry 5, is six pixels high.\<close>

fun menu_scan :: "int \<Rightarrow> int \<Rightarrow> int \<Rightarrow> int \<Rightarrow> nat list \<Rightarrow> nat option" where
  "menu_scan px py menu_x iy [] = None"
| "menu_scan px py menu_x iy (i # is) =
     (if i = 5 then menu_scan px py menu_x (iy + 6) is
      else if point_in px py (menu_x + 2) iy 176 24 then Some i
      else menu_scan px py menu_x (iy + 24) is)"

definition menu_item_at :: "u16 \<Rightarrow> int \<Rightarrow> int \<Rightarrow> nat option" where
  "menu_item_at h px py = menu_scan px py 2 (uint h - TASKBAR_H - 200 + 24) [0..<7]"

definition icon_at :: "int \<Rightarrow> int \<Rightarrow> nat option" where
  "icon_at px py =
     find (\<lambda>i. point_in px py ([20, 90, 160, 230, 300, 20, 90, 160, 230, 300] ! i) ([20, 20, 20, 20, 20, 90, 90, 90, 90, 90] ! i) 40 60)
       [0..<10]"

text \<open>The effect of entry \<open>i\<close>; \<open>off\<close> is the entry that turns the machine off.\<close>

definition run_entry :: "'d drivers \<Rightarrow> u8 list \<Rightarrow> u16 \<Rightarrow> u16 \<Rightarrow> nat \<Rightarrow> nat \<Rightarrow> 'd gui \<Rightarrow> 'd gui_end option" where
  "run_entry drv time w h off i s =
     (if i = 0 then map_option Going (open_window drv WIN_TERMINAL 200 60 s)
      else if i = 1 then map_option Going (open_window drv WIN_FILEMAN 150 50 s)
      else if i = 2 then map_option Going (open_window drv WIN_ABOUT 350 100 s)
      else if i = off then Some (Off (safe_to_turn_off time w h s))
      else Some (Going s))"

definition focus_top :: "'d gui \<Rightarrow> 'd gui" where
  "focus_top s = s\<lparr>g_focus_zpos := (if g_win_count s > 0 then int (g_win_count s) - 1 else - 1)\<rparr>"

definition click_window :: "gui_pointer \<Rightarrow> nat \<Rightarrow> 'd gui \<Rightarrow> 'd gui" where
  "click_window p zpos s =
     (let i = g_zorder s ! zpos; hw = g_win s ! i; ow = win_total_w hw in
      if point_in (p_x p) (p_y p) (w_x hw + ow - 18) (w_y hw + 4) 14 14
      then focus_top (win_close zpos s)
      else
        let s = win_raise zpos s; s = s\<lparr>g_focus_zpos := int (g_win_count s) - 1\<rparr>
        in if point_in (p_x p) (p_y p) (w_x hw) (w_y hw) ow TITLEBAR_H
           then s\<lparr>g_drag_zpos := g_focus_zpos s, g_drag_dx := p_x p - w_x hw, g_drag_dy := p_y p - w_y hw\<rparr> else s)"

text \<open>
  A press of the button: the new state and whether everything is drawn again. \<open>full\<close> tells that everything
  will be drawn again anyway; then the icons do not react.
\<close>

definition gui_click :: "'d drivers \<Rightarrow> u8 list \<Rightarrow> u16 \<Rightarrow> u16 \<Rightarrow> bool \<Rightarrow> gui_pointer \<Rightarrow> 'd gui \<Rightarrow> ('d gui_end \<times> bool) option" where
  "gui_click drv time w h full p s =
     (if point_in (p_x p) (p_y p) 2 (uint h - TASKBAR_H + 3) 50 20 then Some (Going (s\<lparr>g_menu_open := \<not> g_menu_open s\<rparr>), True)
      else if g_menu_open s then
        let s = s\<lparr>g_menu_open := False\<rparr> in
        (case menu_item_at h (p_x p) (p_y p) of
           None \<Rightarrow> Some (Going s, True)
         | Some i \<Rightarrow> map_option (\<lambda>r. (r, True)) (run_entry drv time w h 6 i s))
      else case win_hit_test (p_x p) (p_y p) s of
        Some zpos \<Rightarrow> Some (Going (click_window p zpos s), True)
      | None \<Rightarrow>
          (case (if full then None else icon_at (p_x p) (p_y p)) of
             None \<Rightarrow> Some (Going s, full)
           | Some i \<Rightarrow> map_option (\<lambda>r. (r, True)) (run_entry drv time w h 9 i s)))"

text \<open>The button stays down: the window that is dragged follows the pointer, within the screen above the task bar.\<close>

definition gui_drag :: "u16 \<Rightarrow> u16 \<Rightarrow> gui_pointer \<Rightarrow> 'd gui \<Rightarrow> 'd gui \<times> bool" where
  "gui_drag w h p s =
     (let i = g_zorder s ! nat (g_drag_zpos s); dw = g_win s ! i;
          nx = p_x p - g_drag_dx s; ny = p_y p - g_drag_dy s;
          nx = (if nx < 0 then 0 else nx); ny = (if ny < 0 then 0 else ny);
          nx = (if nx > uint w - win_total_w dw then uint w - win_total_w dw else nx);
          ny = (if ny > uint h - win_total_h dw - TASKBAR_H then uint h - win_total_h dw - TASKBAR_H else ny)
      in if nx \<noteq> w_x dw \<or> ny \<noteq> w_y dw then (upd_win i (\<lambda>w. w\<lparr>w_x := nx, w_y := ny\<rparr>) s, True) else (s, False))"

section \<open>The main loop\<close>

text \<open>The local variables of \<open>gui_run_desktop\<close>.\<close>

record gui_local =
  l_now :: "u8 list"
  l_last_time :: "u8 list"
  l_last_buttons :: u8
  l_last_clock_tick :: u64

definition pressed :: "u8 \<Rightarrow> bool" where "pressed b \<longleftrightarrow> b AND 1 \<noteq> 0"

text \<open>Hours or minutes have changed.\<close>

definition time_differs :: "u8 list \<Rightarrow> u8 list \<Rightarrow> bool" where
  "time_differs now last_time \<longleftrightarrow>
     now ! 0 \<noteq> last_time ! 0 \<or> now ! 1 \<noteq> last_time ! 1 \<or> now ! 3 \<noteq> last_time ! 3 \<or> now ! 4 \<noteq> last_time ! 4"

text \<open>The mouse: a press, a release, a move with the button down.\<close>

definition gui_mouse :: "'d drivers \<Rightarrow> u8 list \<Rightarrow> u16 \<Rightarrow> u16 \<Rightarrow> bool \<Rightarrow> gui_pointer \<Rightarrow> bool \<Rightarrow> 'd gui \<Rightarrow> ('d gui_end \<times> bool) option" where
  "gui_mouse drv time w h full p before s =
     (let down = pressed (p_buttons p) in
      if down \<and> \<not> before then gui_click drv time w h full p s
      else if \<not> down \<and> before then Some (Going (s\<lparr>g_drag_zpos := - 1\<rparr>), full)
      else if down \<and> g_drag_zpos s \<ge> 0 then (case gui_drag w h p s of (s, moved) \<Rightarrow> Some (Going s, full \<or> moved))
      else Some (Going s, full))"

text \<open>Drawing everything, or the pointer only; \<open>old\<close> is where the pointer was drawn before.\<close>

definition redraw_all :: "u8 list \<Rightarrow> u16 \<Rightarrow> u16 \<Rightarrow> gui_pointer \<Rightarrow> 'd gui \<Rightarrow> 'd gui" where
  "redraw_all time w h p s =
     (let s = compose_windows (draw_desktop time w h s);
          s = (if g_menu_open s then gdraw (draw_menu_panel h) s else s);
          s = gdraw (draw_cursor_bitmap (p_x p) (p_y p)) s
      in gdraw gpu_flip s)"

definition redraw_pointer :: "(int \<times> int) option \<Rightarrow> gui_pointer \<Rightarrow> 'd gui \<Rightarrow> 'd gui option" where
  "redraw_pointer old p s = do {
     s \<leftarrow> draw_cursor_at p s;
     let (rx0, ry0, rx1, ry1) = (case old of
         None \<Rightarrow> (p_x p, p_y p, p_x p + cursor_w, p_y p + cursor_h)
       | Some (ox, oy) \<Rightarrow> (min ox (p_x p), min oy (p_y p), max ox (p_x p) + cursor_w, max oy (p_y p) + cursor_h));
     Some (gdraw (\<lambda>g. gpu_flip_rect g (w16 rx0) (w16 ry0) (w16 (rx1 - rx0)) (w16 (ry1 - ry0))) s) }"

text \<open>The key of the frame goes to the window with the focus.\<close>

definition gui_key :: "'d shell_env \<Rightarrow> 'd nested \<Rightarrow> gui_input list \<Rightarrow> int \<Rightarrow> 'd gui \<Rightarrow> ('d gui_end \<times> gui_input list) option" where
  "gui_key env nested ins c s =
     (if c = 27 then Some (Escaped s, ins)
      else if c \<noteq> 0 \<and> g_focus_zpos s \<ge> 0 then
        let i = g_zorder s ! nat (g_focus_zpos s) in
        if w_kind (g_win s ! i) \<noteq> WIN_TERMINAL then Some (Going s, ins)
        else do {
          (r, ins) \<leftarrow> win_terminal_feed env nested ins i c s;
          Some (case r of
              Going s \<Rightarrow>
                (let w = g_win s ! i; s = gdraw (blit_window w) s
                 in Going (gdraw (\<lambda>g. gpu_flip_rect g (w16 (win_client_x w)) (w16 (win_client_y w)) (w16 (w_cw w)) (w16 (w_ch w))) s))
            | r \<Rightarrow> r, ins) }
      else Some (Going s, ins))"

text \<open>The end of a frame: the screen, then the key.\<close>

definition frame_end :: "'d shell_env \<Rightarrow> 'd nested \<Rightarrow> u16 \<Rightarrow> u16 \<Rightarrow> gui_input \<Rightarrow> (int \<times> int) option \<Rightarrow> gui_pointer \<Rightarrow> bool \<Rightarrow>
    gui_input list \<Rightarrow> 'd gui \<Rightarrow> ('d gui_end \<times> gui_input list) option" where
  "frame_end env nested w h i old p again ins s = do {
     s \<leftarrow> (if again then Some (redraw_all (in_time i) w h p s) else redraw_pointer old p s);
     gui_key env nested ins (in_key i) s }"

definition gui_frame :: "'d shell_env \<Rightarrow> 'd nested \<Rightarrow> u16 \<Rightarrow> u16 \<Rightarrow> gui_local \<Rightarrow> gui_input \<Rightarrow> gui_input list \<Rightarrow> 'd gui \<Rightarrow>
    (gui_local \<times> 'd gui_end \<times> gui_input list) option" where
  "gui_frame env nested w h l i ins s =
     (let l = (if in_tick i - l_last_clock_tick l \<ge> CLOCK_TICKS then l\<lparr>l_now := in_time i, l_last_clock_tick := in_tick i\<rparr> else l);
          old = (if g_cursor_saved s then Some (g_cursor_x s, g_cursor_y s) else None);
          s = restore_cursor_bg s;
          full = time_differs (l_now l) (l_last_time l);
          l = (if full then l\<lparr>l_last_time := l_now l\<rparr> else l);
          p = read_pointer (in_mouse i) w h;
          before = pressed (l_last_buttons l);
          l = l\<lparr>l_last_buttons := p_buttons p\<rparr>
      in do {
        (r, again) \<leftarrow> gui_mouse (e_drivers env) (in_time i) w h full p before s;
        (r, ins) \<leftarrow> (case r of Going s \<Rightarrow> frame_end env nested w h i old p again ins s | r \<Rightarrow> Some (r, ins));
        Some (l, r, ins) })"

text \<open>The first windows; \<open>i\<close> is what the clock and the timer say then.\<close>

definition gui_empty :: "'d gui \<Rightarrow> 'd gui" where
  "gui_empty s =
     (gdraw (\<lambda>g. gpu_set_target_back g True) (s\<lparr>g_cursor_saved := False\<rparr>))
       \<lparr>g_win := map (w_used_update (\<lambda>_. False)) (g_win s), g_win_count := 0, g_drag_zpos := - 1\<rparr>"

definition gui_start :: "'d drivers \<Rightarrow> gui_input \<Rightarrow> 'd gui \<Rightarrow> (gui_local \<times> 'd gui) option" where
  "gui_start drv i s =
     (let w = gpu_width (sgpu (gk s)); h = gpu_height (sgpu (gk s))
      in do {
        (ti, s) \<leftarrow> win_create WIN_TERMINAL (text_of ''Terminal'') 200 60 520 300 (gui_empty s);
        (ai, s) \<leftarrow> win_create WIN_ABOUT (text_of ''About EponaOS'') 400 120 380 240 s;
        let s = (case ti of None \<Rightarrow> s | Some t \<Rightarrow> win_render_terminal_init t s);
        let s = (case ai of None \<Rightarrow> s | Some a \<Rightarrow> win_render_about a s);
        let s = gdraw gpu_flip (compose_windows (draw_desktop (in_time i) w h (focus_top s)));
        Some (\<lparr>l_now = in_time i, l_last_time = in_time i, l_last_buttons = 0, l_last_clock_tick = in_tick i\<rparr>, s) })"

definition gui_leave :: "'d gui \<Rightarrow> 'd gui" where
  "gui_leave s =
     gdraw (\<lambda>g. gpu_clear (gpu_set_target_back g False) 0x0F 0x00) (fold win_close (rev [0..<g_win_count s]) s)"

text \<open>
  The loop over the frames, and \<open>gui_run_desktop\<close> around it. At most \<open>n\<close> frames are run; every frame takes one input, the
  frames of desktops inside included, so \<open>n\<close> need not be more than the number of inputs.
\<close>

definition gui_around :: "'d shell_env \<Rightarrow> (u16 \<Rightarrow> u16 \<Rightarrow> gui_local \<Rightarrow> 'd nested) \<Rightarrow> 'd nested" where
  "gui_around env loop ins s =
     (if \<not> g_fb_enabled (sgpu (gk s))
      then Some (Escaped (gdraw (\<lambda>g. gpu_print g (text_of ''GUI requer framebuffer VBE.'' @ newline)) s), ins)
      else case ins of
        [] \<Rightarrow> Some (Waiting s, [])
      | i # ins \<Rightarrow> do {
          let w = gpu_width (sgpu (gk s)); let h = gpu_height (sgpu (gk s));
          (l, s) \<leftarrow> gui_start (e_drivers env) i s;
          (r, ins) \<leftarrow> loop w h l ins s;
          Some (case r of Escaped s \<Rightarrow> Escaped (gui_leave s) | r \<Rightarrow> r, ins) })"

fun gui_loop :: "nat \<Rightarrow> 'd shell_env \<Rightarrow> u16 \<Rightarrow> u16 \<Rightarrow> gui_local \<Rightarrow> 'd nested" where
  "gui_loop 0 env w h l ins s = Some (Waiting s, ins)"
| "gui_loop (Suc n) env w h l ins s =
     (case ins of
        [] \<Rightarrow> Some (Waiting s, [])
      | i # ins \<Rightarrow> do {
          (l, r, ins) \<leftarrow> gui_frame env (gui_around env (gui_loop n env)) w h l i ins s;
          (case r of Going s \<Rightarrow> gui_loop n env w h l ins s | r \<Rightarrow> Some (r, ins)) })"

definition gui_run_desktop :: "'d shell_env \<Rightarrow> 'd nested" where
  "gui_run_desktop env ins s = gui_around env (gui_loop (length ins) env) ins s"

end
