(* ===== verification/DesktopSpec.thy ===== *)
theory DesktopSpec
  imports Desktop KShellSpec KShellRun
begin

text \<open>
  What the desktop promises: the stacking order lists the windows in use, each once, the pointer and the windows
  that are dragged stay on the screen, a click brings a window to the top, and a session ends only by Escape, at the end
  of its input, or with the machine.
\<close>

section \<open>The stacking order\<close>

text \<open>The windows from the bottom to the top.\<close>

definition stack :: "'d gui \<Rightarrow> nat list" where "stack s = take (g_win_count s) (g_zorder s)"

definition without :: "nat \<Rightarrow> 'a list \<Rightarrow> 'a list" where "without z xs = take z xs @ drop (Suc z) xs"

definition lines_ok :: "'d gui \<Rightarrow> bool" where
  "lines_ok s \<longleftrightarrow> length (g_win s) = 8 \<and> (\<forall>w \<in> set (g_win s). ed_ok SHELL_LINE_MAX (w_line w))"

definition stack_ok :: "'d gui \<Rightarrow> bool" where
  "stack_ok s \<longleftrightarrow>
     length (g_zorder s) = 8 \<and> set (g_zorder s) \<subseteq> {..<8} \<and> g_win_count s \<le> 8 \<and> distinct (stack s) \<and>
     set (stack s) = {i. i < 8 \<and> w_used (g_win s ! i)}"

text \<open>Window slots, the array of the stacking order and the indices into it.\<close>

definition desk_ok :: "'d gui \<Rightarrow> bool" where
  "desk_ok s \<longleftrightarrow> lines_ok s \<and> stack_ok s \<and> g_focus_zpos s < 8 \<and> g_drag_zpos s < 8"

named_theorems desk_keeps

lemma gdraw_fields [simp]:
  "g_win (gdraw f s) = g_win s" "g_zorder (gdraw f s) = g_zorder s" "g_win_count (gdraw f s) = g_win_count s"
  "g_focus_zpos (gdraw f s) = g_focus_zpos s" "g_drag_zpos (gdraw f s) = g_drag_zpos s" "g_drag_dx (gdraw f s) = g_drag_dx s"
  "g_drag_dy (gdraw f s) = g_drag_dy s" "g_menu_open (gdraw f s) = g_menu_open s" "svfs (gk (gdraw f s)) = svfs (gk s)"
  by (simp_all add: gdraw_def)

lemma desk_cong:
  assumes "g_win s' = g_win s" "g_zorder s' = g_zorder s" "g_win_count s' = g_win_count s" "g_focus_zpos s' = g_focus_zpos s"
    "g_drag_zpos s' = g_drag_zpos s"
  shows "desk_ok s' = desk_ok s"
  using assms by (simp add: desk_ok_def lines_ok_def stack_ok_def stack_def)

lemma desk_same [simp]:
  "desk_ok (gdraw f s) = desk_ok s" "desk_ok (gk_update k s) = desk_ok s" "desk_ok (s\<lparr>g_menu_open := b\<rparr>) = desk_ok s"
  "desk_ok (s\<lparr>g_drag_dx := x\<rparr>) = desk_ok s" "desk_ok (s\<lparr>g_drag_dy := x\<rparr>) = desk_ok s"
  "desk_ok (s\<lparr>g_cursor_saved := b\<rparr>) = desk_ok s" "desk_ok (s\<lparr>g_cursor_x := x\<rparr>) = desk_ok s"
  "desk_ok (s\<lparr>g_cursor_y := x\<rparr>) = desk_ok s" "desk_ok (s\<lparr>g_cursor_bg := p\<rparr>) = desk_ok s"
  by (simp_all cong: desk_cong add: desk_ok_def lines_ok_def stack_ok_def stack_def)

lemma upd_win_fields [simp]:
  "g_zorder (upd_win i f s) = g_zorder s" "g_win_count (upd_win i f s) = g_win_count s" "length (g_win (upd_win i f s)) = length (g_win s)"
  "g_focus_zpos (upd_win i f s) = g_focus_zpos s" "g_drag_zpos (upd_win i f s) = g_drag_zpos s" "gk (upd_win i f s) = gk s"
  by (simp_all add: upd_win_def)

lemma upd_win_nth: "i < length (g_win s) \<Longrightarrow> g_win (upd_win i f s) ! j = (if i = j then f (g_win s ! i) else g_win s ! j)"
  by (simp add: upd_win_def nth_list_update)

lemma upd_win_lines:
  assumes "lines_ok s" "\<And>w. w = g_win s ! i \<Longrightarrow> ed_ok SHELL_LINE_MAX (w_line w) \<Longrightarrow> ed_ok SHELL_LINE_MAX (w_line (f w))"
  shows "lines_ok (upd_win i f s)"
proof (cases "i < 8")
  case True
  then have "g_win s ! i \<in> set (g_win s)" using assms(1) by (simp add: lines_ok_def)
  then show ?thesis using assms
    by (auto simp: lines_ok_def upd_win_def dest!: set_update_subset_insert [THEN subsetD])
qed (use assms(1) in \<open>simp add: lines_ok_def upd_win_def list_update_beyond\<close>)

lemma upd_win_desk:
  assumes "desk_ok s" "\<And>w. w = g_win s ! i \<Longrightarrow> ed_ok SHELL_LINE_MAX (w_line w) \<Longrightarrow> ed_ok SHELL_LINE_MAX (w_line (f w))"
    "\<And>w. w_used (f w) = w_used w"
  shows "desk_ok (upd_win i f s)"
proof -
  have "w_used (g_win (upd_win i f s) ! j) = w_used (g_win s ! j)" for j
    using assms(3) by (cases "i < length (g_win s)") (simp_all add: upd_win_def nth_list_update list_update_beyond)
  then show ?thesis using assms upd_win_lines [of s i f] by (simp add: desk_ok_def stack_ok_def stack_def)
qed

lemma length_z_shift [simp]: "length (z_shift zs z n) = length zs"
proof -
  have "length (fold (\<lambda>i zs. zs[i := zs ! (i + 1)]) is zs) = length zs" for "is"
    by (induction "is" arbitrary: zs) simp_all
  then show ?thesis by (simp add: z_shift_def)
qed

lemma nth_z_shift:
  assumes "n \<le> length zs" "i < length zs"
  shows "z_shift zs z n ! i = (if z \<le> i \<and> i < n - 1 then zs ! (i + 1) else zs ! i)"
  using assms
proof (induction n arbitrary: i)
  case 0
  then show ?case by (simp add: z_shift_def)
next
  case (Suc m)
  show ?case
  proof (cases "m = 0 \<or> m - 1 < z")
    case True
    then show ?thesis using Suc.prems by (auto simp: z_shift_def)
  next
    case False
    then obtain k where k: "m = Suc k" "z \<le> k" by (cases m) auto
    then have step: "z_shift zs z (Suc m) = (z_shift zs z m)[k := z_shift zs z m ! (k + 1)]" by (simp add: z_shift_def)
    have IH: "z_shift zs z m ! j = (if z \<le> j \<and> j < m - 1 then zs ! (j + 1) else zs ! j)"
      if "j < length zs" for j
      using Suc.IH [of j] Suc.prems(1) that by simp
    have "k + 1 < length zs" using Suc.prems(1) k by simp
    then show ?thesis unfolding step using IH [of i] IH [of "k + 1"] Suc.prems(2) k by (auto simp: nth_list_update)
  qed
qed

lemma z_shift_eq:
  assumes "n \<le> length zs" "z < n"
  shows "z_shift zs z n = take z zs @ drop (Suc z) (take n zs) @ drop (n - 1) zs"
proof (rule nth_equalityI)
  show "length (z_shift zs z n) = length (take z zs @ drop (Suc z) (take n zs) @ drop (n - 1) zs)"
    using assms by simp
  fix i assume "i < length (z_shift zs z n)"
  then have "i < length zs" by simp
  then show "z_shift zs z n ! i = (take z zs @ drop (Suc z) (take n zs) @ drop (n - 1) zs) ! i"
    using assms nth_z_shift [of n zs i z] by (auto simp: nth_append min_def)
qed

lemma set_without: "distinct xs \<Longrightarrow> z < length xs \<Longrightarrow> set (without z xs) = set xs - {xs ! z}"
proof -
  assume a: "distinct xs" "z < length xs"
  have e: "xs = take z xs @ xs ! z # drop (Suc z) xs" using a(2) by (rule id_take_nth_drop)
  then have "distinct (take z xs @ xs ! z # drop (Suc z) xs)" using a(1) by simp
  moreover have "set xs = set (take z xs @ xs ! z # drop (Suc z) xs)" using e by simp
  ultimately show "set (without z xs) = set xs - {xs ! z}" by (auto simp: without_def)
qed

lemma distinct_without: "distinct xs \<Longrightarrow> distinct (without z xs)"
  by (cases "z < length xs") (auto simp: without_def set_take_disj_set_drop_if_distinct)

lemma length_stack: "stack_ok s \<Longrightarrow> length (stack s) = g_win_count s"
  by (simp add: stack_ok_def stack_def)

lemma stack_nth: "z < g_win_count s \<Longrightarrow> stack s ! z = g_zorder s ! z"
  by (simp add: stack_def)

lemma z_shift_stack:
  assumes "stack_ok s" "z < g_win_count s"
  shows "take (g_win_count s - 1) (z_shift (g_zorder s) z (g_win_count s)) = without z (stack s)"
    "set (z_shift (g_zorder s) z (g_win_count s)) \<subseteq> {..<8}" "length (z_shift (g_zorder s) z (g_win_count s)) = 8"
proof -
  have l: "g_win_count s \<le> length (g_zorder s)" using assms(1) by (simp add: stack_ok_def)
  note e = z_shift_eq [OF l assms(2)]
  show "take (g_win_count s - 1) (z_shift (g_zorder s) z (g_win_count s)) = without z (stack s)"
    unfolding e using l assms(2) by (cases "z = g_win_count s - 1") (auto simp: without_def stack_def min_def)
  show "set (z_shift (g_zorder s) z (g_win_count s)) \<subseteq> {..<8}"
    using assms(1) by (auto simp: e stack_ok_def dest!: in_set_takeD in_set_dropD)
  show "length (z_shift (g_zorder s) z (g_win_count s)) = 8"
    using l assms by (simp add: e stack_ok_def)
qed

section \<open>Windows come and go\<close>

lemma raise_stack:
  assumes "stack_ok s" "z < g_win_count s"
  shows "stack (win_raise z s) = without z (stack s) @ [stack s ! z]"
    "stack_ok (win_raise z s)" "g_win (win_raise z s) = g_win s" "g_win_count (win_raise z s) = g_win_count s"
    "g_drag_zpos (win_raise z s) = g_drag_zpos s" "g_focus_zpos (win_raise z s) = g_focus_zpos s"
proof -
  let ?n = "g_win_count s"
  note zs = z_shift_stack [OF assms]
  have n: "?n \<le> 8" "length (g_zorder s) = 8" "distinct (stack s)" using assms(1) by (simp_all add: stack_ok_def)
  show f: "g_win (win_raise z s) = g_win s" "g_win_count (win_raise z s) = g_win_count s"
    "g_drag_zpos (win_raise z s) = g_drag_zpos s" "g_focus_zpos (win_raise z s) = g_focus_zpos s"
    by (simp_all add: win_raise_def Let_def)
  have e: "stack (win_raise z s) = without z (stack s) @ [stack s ! z]"
  proof (cases "z = ?n - 1")
    case True
    have "Suc z = length (stack s)" using True assms n by (simp add: length_stack)
    then have "stack s = take z (stack s) @ [stack s ! z]" using take_Suc_conv_app_nth [of z "stack s"] by simp
    moreover have "drop (Suc z) (stack s) = []" using \<open>Suc z = length (stack s)\<close> by simp
    ultimately show ?thesis using True by (simp add: win_raise_def without_def)
  next
    case False
    let ?zs = "z_shift (g_zorder s) z ?n"
    have "take ?n (?zs[?n - 1 := g_zorder s ! z]) = take (?n - 1) ?zs @ [g_zorder s ! z]"
      using assms(2) n zs(3) take_Suc_conv_app_nth [of "?n - 1" "?zs[?n - 1 := g_zorder s ! z]"] by simp
    then show ?thesis using False zs(1) stack_nth [OF assms(2)]
      by (simp add: win_raise_def Let_def stack_def)
  qed
  then show "stack (win_raise z s) = without z (stack s) @ [stack s ! z]" .
  have z: "stack s ! z \<in> set (stack s)" "z < length (stack s)" using assms by (simp_all add: length_stack)
  have "g_zorder s ! z < 8" using assms n unfolding stack_ok_def by (metis lessThan_iff less_le_trans nth_mem subsetD)
  then have "set (g_zorder (win_raise z s)) \<subseteq> {..<8} \<and> length (g_zorder (win_raise z s)) = 8"
    using zs n assms(1) by (auto simp: win_raise_def Let_def stack_ok_def dest!: set_update_subset_insert [THEN subsetD])
  moreover have "set (stack (win_raise z s)) = set (stack s)" using set_without [OF n(3) z(2)] z(1) by (auto simp: e)
  moreover have "distinct (stack (win_raise z s))"
    using set_without [OF n(3) z(2)] distinct_without [OF n(3), of z] by (simp add: e)
  ultimately show "stack_ok (win_raise z s)" using assms(1) by (simp add: stack_ok_def f)
qed

lemma close_stack:
  assumes "stack_ok s" "z < g_win_count s" "length (g_win s) = 8"
  shows "stack (win_close z s) = without z (stack s)" "stack_ok (win_close z s)"
    "g_win (win_close z s) = (g_win s)[stack s ! z := (g_win s ! (stack s ! z))\<lparr>w_used := False\<rparr>]"
    "g_win_count (win_close z s) = g_win_count s - 1" "g_drag_zpos (win_close z s) = g_drag_zpos s"
    "g_focus_zpos (win_close z s) = g_focus_zpos s"
proof -
  note zs = z_shift_stack [OF assms(1,2)]
  have n: "distinct (stack s)" using assms(1) by (simp add: stack_ok_def)
  have z: "stack s ! z \<in> set (stack s)" "z < length (stack s)" using assms by (simp_all add: length_stack)
  show e: "stack (win_close z s) = without z (stack s)"
    using zs(1) assms(2) by (simp add: win_close_def Let_def stack_def)
  show f: "g_win (win_close z s) = (g_win s)[stack s ! z := (g_win s ! (stack s ! z))\<lparr>w_used := False\<rparr>]"
    "g_win_count (win_close z s) = g_win_count s - 1" "g_drag_zpos (win_close z s) = g_drag_zpos s"
    "g_focus_zpos (win_close z s) = g_focus_zpos s"
    using assms(2) by (simp_all add: win_close_def Let_def upd_win_def stack_nth)
  have zo: "g_zorder (win_close z s) = z_shift (g_zorder s) z (g_win_count s)" by (simp add: win_close_def Let_def)
  have "stack s ! z < 8" using z(1) assms(1) by (auto simp: stack_ok_def)
  then have u: "w_used (g_win (win_close z s) ! i) \<longleftrightarrow> i \<noteq> stack s ! z \<and> w_used (g_win s ! i)" if "i < 8" for i
    using that assms(3) by (auto simp: f nth_list_update)
  have "set (stack (win_close z s)) = {i. i < 8 \<and> w_used (g_win (win_close z s) ! i)}"
    unfolding e set_without [OF n z(2)] using assms(1) u by (auto simp: stack_ok_def)
  moreover have "g_win_count s - 1 \<le> 8" using assms(1) by (auto simp: stack_ok_def)
  ultimately show "stack_ok (win_close z s)" using zs n unfolding stack_ok_def e zo f(2) by (simp add: distinct_without)
qed

lemma free_slot_Some:
  assumes "free_slot s = Some i"
  shows "i < 8" "\<not> w_used (g_win s ! i)"
  using assms unfolding free_slot_def find_Some_iff by (auto simp: MAX_WINDOWS_def)

lemma free_slot_None: "free_slot s = None \<longleftrightarrow> (\<forall>i < 8. w_used (g_win s ! i))"
  by (auto simp: free_slot_def find_None_iff MAX_WINDOWS_def)

lemma fewer_than_8: "stack_ok s \<Longrightarrow> i < 8 \<Longrightarrow> \<not> w_used (g_win s ! i) \<Longrightarrow> g_win_count s < 8"
proof -
  assume a: "stack_ok s" "i < 8" "\<not> w_used (g_win s ! i)"
  then have "set (stack s) \<subset> {..<8}" by (auto simp: stack_ok_def)
  then have "card (set (stack s)) < 8" using psubset_card_mono [of "{..<8}" "set (stack s)"] by simp
  then show ?thesis using a(1) length_stack [OF a(1)] distinct_card [of "stack s"] by (simp add: stack_ok_def)
qed

lemma gui_alloc_fields:
  assumes "gui_alloc n s = Some (p, s')"
  shows "g_win s' = g_win s" "g_zorder s' = g_zorder s" "g_win_count s' = g_win_count s" "g_focus_zpos s' = g_focus_zpos s"
    "g_drag_zpos s' = g_drag_zpos s" "g_menu_open s' = g_menu_open s"
  using assms by (auto simp: gui_alloc_def split: bind_splits)

lemma win_create_cases:
  assumes "win_create kind title x y cw ch s = Some (r, s')" "stack_ok s" "lines_ok s"
  obtains (full) "r = None" "s' = s" "g_win_count s = 8"
  | (new) i where "r = Some i" "i < 8" "\<not> w_used (g_win s ! i)" "stack s' = stack s @ [i]" "stack_ok s'" "lines_ok s'"
      "g_win_count s' = g_win_count s + 1" "g_focus_zpos s' = g_focus_zpos s" "g_drag_zpos s' = g_drag_zpos s"
      "w_kind (g_win s' ! i) = kind" "w_x (g_win s' ! i) = x" "w_y (g_win s' ! i) = y" "\<And>j. j \<noteq> i \<Longrightarrow> g_win s' ! j = g_win s ! j"
proof (cases "free_slot s")
  case None
  then have "set (stack s) = {..<8}" using assms(2) by (auto simp: free_slot_None stack_ok_def)
  then have "card (set (stack s)) = 8" by simp
  then have "g_win_count s = 8" using assms(2) distinct_card [of "stack s"] length_stack [OF assms(2)] by (simp add: stack_ok_def)
  then show ?thesis using None assms(1) by (intro full) (auto simp: win_create_def)
next
  case (Some i)
  note i = free_slot_Some [OF Some]
  have n: "g_win_count s < 8" using fewer_than_8 [OF assms(2) i] .
  from assms(1) Some obtain p t where t: "gui_alloc (ucast (word_of_int (cw * ch * 4) :: u32)) s = Some (p, t)" "r = Some i"
    "s' = (upd_win i (\<lambda>w. w\<lparr>w_used := True, w_x := x, w_y := y, w_cw := cw, w_ch := ch, w_title := take 31 title,
            w_kind := kind, w_buf := p, w_line := \<lparr>lbuf = (lbuf (w_line w))[0 := 0], lpos = 0, lcpos = 0\<rparr>\<rparr>) t)
         \<lparr>g_zorder := (g_zorder t)[g_win_count t := i], g_win_count := g_win_count t + 1\<rparr>"
    by (auto simp: win_create_def Let_def split: bind_splits)
  note f = gui_alloc_fields [OF t(1)]
  have len: "length (g_win s) = 8" "length (g_zorder s) = 8" using assms(2,3) by (simp_all add: stack_ok_def lines_ok_def)
  have st: "stack s' = stack s @ [i]" using n len by (simp add: t(3) stack_def f take_Suc_conv_app_nth)
  have w: "g_win s' ! j = (if j = i then g_win s' ! i else g_win s ! j)" for j
    using i(1) len by (simp add: t(3) f upd_win_def nth_list_update)
  have "w_used (g_win s' ! i)" using i(1) len by (simp add: t(3) f upd_win_def)
  then have u: "w_used (g_win s' ! j) \<longleftrightarrow> j = i \<or> w_used (g_win s ! j)" for j by (subst w) simp
  have ni: "i \<notin> set (stack s)" using i(2) assms(2) by (auto simp: stack_ok_def)
  have "set (g_zorder s') \<subseteq> {..<8}" using assms(2) i(1)
    by (auto simp: t(3) f stack_ok_def dest!: set_update_subset_insert [THEN subsetD])
  then have ok: "stack_ok s'" using assms(2) n ni i(1) len unfolding stack_ok_def st
    by (auto simp: u) (simp_all add: t(3) f)
  have "lines_ok t" using assms(3) by (simp add: lines_ok_def f)
  then have "lines_ok (upd_win i (\<lambda>w. w\<lparr>w_used := True, w_x := x, w_y := y, w_cw := cw, w_ch := ch, w_title := take 31 title,
            w_kind := kind, w_buf := p, w_line := \<lparr>lbuf = (lbuf (w_line w))[0 := 0], lpos = 0, lcpos = 0\<rparr>\<rparr>) t)"
    by (rule upd_win_lines) (simp add: ed_ok_def line_text_def SHELL_LINE_MAX_def)
  then have "lines_ok s'" by (simp add: t(3) lines_ok_def)
  then show ?thesis using new [OF t(2) i st ok] w i(1) len by (simp add: t(3) f upd_win_nth split: if_splits)
qed

section \<open>The invariant\<close>

lemma upd_parts_desk [desk_keeps]:
  "desk_ok s \<Longrightarrow> desk_ok (upd_win i (\<lambda>w. w\<lparr>w_term := h w\<rparr>) s)"
  "desk_ok s \<Longrightarrow> desk_ok (upd_win i (\<lambda>w. w\<lparr>w_cur_row := a, w_cur_col := b\<rparr>) s)"
  "desk_ok s \<Longrightarrow> desk_ok (upd_win i (\<lambda>w. w\<lparr>w_x := u, w_y := v\<rparr>) s)"
  "desk_ok s \<Longrightarrow> desk_ok (upd_win i (\<lambda>w. w\<lparr>w_line := \<lparr>lbuf = (lbuf (w_line w))[0 := 0], lpos = 0, lcpos = 0\<rparr>\<rparr>) s)"
  by (rule upd_win_desk; simp add: ed_ok_def line_text_def SHELL_LINE_MAX_def)+

lemma term_steps_desk [desk_keeps]:
  "desk_ok s \<Longrightarrow> desk_ok (fill_window i c s)" "desk_ok s \<Longrightarrow> desk_ok (keep_cursor i s)" "desk_ok s \<Longrightarrow> desk_ok (in_term i f s)"
  "desk_ok s \<Longrightarrow> desk_ok (line_target i s)"
  by (simp_all add: fill_window_def keep_cursor_def in_term_def line_target_def Let_def desk_keeps split: prod.splits)

lemma render_desk [desk_keeps]:
  "desk_ok s \<Longrightarrow> desk_ok (win_render_terminal_init i s)" "desk_ok s \<Longrightarrow> desk_ok (win_render_about i s)"
  "desk_ok s \<Longrightarrow> desk_ok (gui_terminal_redraw_line i s)"
  by (simp_all add: win_render_terminal_init_def win_render_about_def gui_terminal_redraw_line_def Let_def desk_keeps)

lemma render_fileman_desk: "desk_ok s \<Longrightarrow> win_render_fileman drv i s = Some s' \<Longrightarrow> desk_ok s'"
  by (auto simp: win_render_fileman_def Let_def desk_keeps split: bind_splits)

lemma edit_line_desk:
  "desk_ok s \<Longrightarrow> (ed_ok SHELL_LINE_MAX (w_line (g_win s ! i)) \<Longrightarrow> ed_ok SHELL_LINE_MAX (f (w_line (g_win s ! i)))) \<Longrightarrow>
   desk_ok (edit_line i f s)"
  unfolding edit_line_def by (rule render_desk(3), rule upd_win_desk) simp_all

lemma ed_ops_ok:
  "ed_ok mx e \<Longrightarrow> ed_ok mx (shell_backspace_char e)" "ed_ok mx e \<Longrightarrow> ed_ok mx (shell_delete_char e)"
  "ed_ok mx e \<Longrightarrow> 32 \<le> c \<Longrightarrow> c < 127 \<Longrightarrow> ed_ok mx (shell_insert_char e c mx)"
  "ed_ok mx e \<Longrightarrow> k \<le> lpos e \<Longrightarrow> ed_ok mx (e\<lparr>lcpos := k\<rparr>)"
proof -
  obtain l r where p: "line_parts e = (l, r)" by (cases "line_parts e")
  show "ed_ok mx e \<Longrightarrow> ed_ok mx (shell_backspace_char e)"
    using backspace_parts(1) [OF _ _ p, of mx] by (cases "lcpos e = 0") (simp_all add: shell_backspace_char_def)
  show "ed_ok mx e \<Longrightarrow> ed_ok mx (shell_delete_char e)"
    using delete_parts(1) [OF _ p, of mx] by simp
  show "ed_ok mx e \<Longrightarrow> 32 \<le> c \<Longrightarrow> c < 127 \<Longrightarrow> ed_ok mx (shell_insert_char e c mx)"
  proof (cases "lpos e + 1 < mx")
    case True
    assume a: "ed_ok mx e" "32 \<le> c" "c < 127"
    have "uint (word_of_int c :: u8) = c" using a by (simp add: uint_word_of_int_eq take_bit_eq_mod)
    then have "(word_of_int c :: u8) \<noteq> 0" using a(2) by auto
    then show ?thesis using insert_parts(1) [OF a(1) True _ p] by simp
  qed (simp add: shell_insert_char_def)
  show "ed_ok mx e \<Longrightarrow> k \<le> lpos e \<Longrightarrow> ed_ok mx (e\<lparr>lcpos := k\<rparr>)" by (simp add: ed_ok_def line_text_def)
qed

lemma desk_line: "desk_ok s \<Longrightarrow> i < 8 \<Longrightarrow> ed_ok SHELL_LINE_MAX (w_line (g_win s ! i))"
  by (simp add: desk_ok_def lines_ok_def)

text \<open>A desktop that is run inside a command, and what it leaves.\<close>

definition nested_ok :: "'d nested \<Rightarrow> bool" where
  "nested_ok f \<longleftrightarrow> (\<forall>ins s r ins'. desk_ok s \<longrightarrow> f ins s = Some (r, ins') \<longrightarrow> desk_ok (gui_state r))"

lemma dispatch_command_desk:
  assumes "nested_ok f" "desk_ok s" "gui_dispatch_command env f ins i s = Some (r, ins')"
  shows "desk_ok (gui_state r)"
proof -
  let ?s = "gk_update (shell_set_gui_context True) (line_target i s)"
  have s: "desk_ok ?s" using assms(2) by (simp add: desk_keeps)
  obtain q where q: "gui_dispatch_line env f ins (takeWhile (\<lambda>c. c \<noteq> 0) (lbuf (w_line (g_win ?s ! i)))) ?s = Some (q, ins')"
    "r = (case q of
            Going s \<Rightarrow>
              (let s = gk_update (shell_set_gui_context False) s;
                   s = gdraw shell_print_prompt s;
                   s = keep_cursor i s;
                   s = gdraw leave_target s
               in Going (upd_win i (\<lambda>w. w\<lparr>w_line := \<lparr>lbuf = (lbuf (w_line w))[0 := 0], lpos = 0, lcpos = 0\<rparr>\<rparr>) s))
          | q \<Rightarrow> q)"
    using assms(3) unfolding gui_dispatch_command_def Let_def by (auto split: bind_splits)
  have "desk_ok (gui_state q)"
  proof (cases "\<exists>p ins2 t. q = (case p of Escaped s \<Rightarrow> Going s | p \<Rightarrow> p) \<and> f ins2 (gk_update t ?s) = Some (p, ins')")
    case True
    then obtain p ins2 t where p: "q = (case p of Escaped s \<Rightarrow> Going s | p \<Rightarrow> p)" "f ins2 (gk_update t ?s) = Some (p, ins')" by blast
    have "desk_ok (gui_state p)" using assms(1) p(2) s unfolding nested_ok_def by (metis desk_same(2))
    then show ?thesis using p(1) by (cases p) simp_all
  next
    case False
    then obtain k where "gui_state q = ?s\<lparr>gk := k\<rparr>"
      using q(1) unfolding gui_dispatch_line_def Let_def by (fastforce split: bind_splits if_splits cmd_end.splits)
    then show ?thesis using s by simp
  qed
  then show ?thesis unfolding q(2) by (cases q) (simp_all add: Let_def desk_keeps)
qed

lemma feed_desk:
  assumes "nested_ok f" "desk_ok s" "i < 8" "win_terminal_feed env f ins i c s = Some (r, ins')"
  shows "desk_ok (gui_state r)"
proof (cases "c = 10")
  case True
  let ?t = "gdraw leave_target (keep_cursor i (in_term i (\<lambda>tg. term_ctx_putc tg 10) (in_term i (\<lambda>tg. term_ctx_putc tg 13) (line_target i s))))"
  have "gui_dispatch_command env f ins i ?t = Some (r, ins')" using True assms(4) by (simp add: win_terminal_feed_def Let_def)
  moreover have "desk_ok ?t" using assms(2) by (simp add: desk_keeps)
  ultimately show ?thesis by (intro dispatch_command_desk [OF assms(1)])
next
  case False
  note e = desk_line [OF assms(2,3)]
  have le: "lcpos (w_line (g_win s ! i)) \<le> lpos (w_line (g_win s ! i))" using e by (simp add: ed_ok_def)
  note step = edit_line_desk [OF assms(2), of i]
  have "desk_ok (edit_line i shell_backspace_char s)" "desk_ok (edit_line i shell_delete_char s)"
    "desk_ok (edit_line i (\<lambda>e. e\<lparr>lcpos := lcpos e - 1\<rparr>) s)" "desk_ok (edit_line i (\<lambda>e. e\<lparr>lcpos := 0\<rparr>) s)"
    "desk_ok (edit_line i (\<lambda>e. e\<lparr>lcpos := lpos e\<rparr>) s)"
    using e le by (auto intro!: step ed_ops_ok)
  moreover have "lcpos (w_line (g_win s ! i)) < lpos (w_line (g_win s ! i)) \<Longrightarrow> desk_ok (edit_line i (\<lambda>e. e\<lparr>lcpos := lcpos e + 1\<rparr>) s)"
    using e by (auto intro!: step ed_ops_ok)
  moreover have "32 \<le> c \<Longrightarrow> c < 127 \<Longrightarrow> desk_ok (edit_line i (\<lambda>e. shell_insert_char e c SHELL_LINE_MAX) s)"
    using e by (auto intro!: step ed_ops_ok)
  ultimately show ?thesis using False assms(2,4) unfolding win_terminal_feed_def Let_def
    by (auto split: if_splits)
qed

section \<open>The mouse\<close>

lemma hit_test_Some:
  assumes "win_hit_test px py s = Some z"
  shows "z < g_win_count s"
    "let w = g_win s ! (stack s ! z) in w_used w \<and> point_in px py (w_x w) (w_y w) (win_total_w w) (win_total_h w)"
    "\<And>y. z < y \<Longrightarrow> y < g_win_count s \<Longrightarrow>
       (let w = g_win s ! (stack s ! y) in \<not> (w_used w \<and> point_in px py (w_x w) (w_y w) (win_total_w w) (win_total_h w)))"
proof -
  let ?n = "g_win_count s"
  obtain k where k: "k < ?n" "z = rev [0..<?n] ! k"
    "let w = g_win s ! (g_zorder s ! z) in w_used w \<and> point_in px py (w_x w) (w_y w) (win_total_w w) (win_total_h w)"
    "\<And>j. j < k \<Longrightarrow> \<not> (let w = g_win s ! (g_zorder s ! (rev [0..<?n] ! j))
       in w_used w \<and> point_in px py (w_x w) (w_y w) (win_total_w w) (win_total_h w))"
    using assms unfolding win_hit_test_def find_Some_iff by auto
  have z: "z = ?n - 1 - k" using k(1,2) by (simp add: rev_nth)
  show zn: "z < ?n" using z k(1) by simp
  show "let w = g_win s ! (stack s ! z) in w_used w \<and> point_in px py (w_x w) (w_y w) (win_total_w w) (win_total_h w)"
    using k(3) zn by (simp add: stack_nth)
  fix y assume y: "z < y" "y < ?n"
  have "?n - 1 - y < k" "rev [0..<?n] ! (?n - 1 - y) = y" using y z k(1) by (simp_all add: rev_nth)
  then show "let w = g_win s ! (stack s ! y) in \<not> (w_used w \<and> point_in px py (w_x w) (w_y w) (win_total_w w) (win_total_h w))"
    using k(4) [of "?n - 1 - y"] y by (simp add: stack_nth Let_def)
qed

lemma win_create_desk:
  assumes "desk_ok s" "win_create kind title x y cw ch s = Some (r, s')"
  shows "desk_ok s'"
proof -
  have "stack_ok s" "lines_ok s" using assms(1) by (simp_all add: desk_ok_def)
  from assms(2) this show ?thesis by (cases rule: win_create_cases) (use assms(1) in \<open>simp_all add: desk_ok_def\<close>)
qed

lemma open_window_desk:
  assumes "desk_ok s" "open_window drv kind x y s = Some s'"
  shows "desk_ok s'"
  using assms win_create_desk [OF assms(1)] render_fileman_desk
  by (cases kind) (fastforce simp: open_window_def Let_def desk_keeps split: bind_splits if_splits)+

lemma run_entry_desk:
  assumes "desk_ok s" "run_entry drv time w h off i s = Some r"
  shows "desk_ok (gui_state r)"
  using assms open_window_desk [OF assms(1)]
  by (auto simp: run_entry_def safe_to_turn_off_def draw_desktop_def split: if_splits)

lemma focus_top_desk: "desk_ok s \<Longrightarrow> desk_ok (focus_top s)"
  by (auto simp: focus_top_def desk_ok_def lines_ok_def stack_ok_def stack_def)

lemma click_window_desk:
  assumes "desk_ok s" "z < g_win_count s"
  shows "desk_ok (click_window p z s)"
proof -
  have s: "stack_ok s" "length (g_win s) = 8" "g_win_count s \<le> 8" using assms(1) by (simp_all add: desk_ok_def lines_ok_def stack_ok_def)
  note rs = raise_stack [OF s(1) assms(2)] and cs = close_stack [OF s(1) assms(2) s(2)]
  have "lines_ok (win_close z s)" using assms(1) upd_win_lines [of s "stack s ! z" "w_used_update (\<lambda>_. False)"]
    by (simp add: desk_ok_def lines_ok_def cs(3) upd_win_def)
  then have "desk_ok (win_close z s)" "g_win_count (win_close z s) < 8"
    using assms s(3) cs by (auto simp: desk_ok_def)
  then have c: "desk_ok (focus_top (win_close z s))" by (simp add: focus_top_desk)
  have "desk_ok (win_raise z s)" using assms rs by (simp add: desk_ok_def lines_ok_def)
  then have "desk_ok ((win_raise z s)\<lparr>g_focus_zpos := int (g_win_count s) - 1\<rparr>)"
    "desk_ok ((win_raise z s)\<lparr>g_focus_zpos := int (g_win_count s) - 1, g_drag_zpos := int (g_win_count s) - 1, g_drag_dx := a, g_drag_dy := b\<rparr>)" for a b
    using s(3) by (auto simp: desk_ok_def lines_ok_def stack_ok_def stack_def)
  then show ?thesis using c by (simp add: click_window_def Let_def rs)
qed

lemma gui_mouse_desk:
  assumes "desk_ok s" "gui_mouse drv time w h full p before s = Some (r, again)"
  shows "desk_ok (gui_state r)"
proof -
  have m: "desk_ok (s\<lparr>g_menu_open := b\<rparr>)" for b using assms(1) by simp
  have click: "desk_ok (gui_state r)" if c: "gui_click drv time w h full p s = Some (r, again)"
  proof (cases "win_hit_test (p_x p) (p_y p) s")
    case None
    then show ?thesis using c assms(1) run_entry_desk [OF m] run_entry_desk [OF assms(1)]
      by (auto simp: gui_click_def Let_def split: if_splits option.splits)
  next
    case (Some z)
    then show ?thesis using c assms(1) run_entry_desk [OF m] click_window_desk [OF assms(1) hit_test_Some(1) [OF Some]]
      by (auto simp: gui_click_def Let_def split: if_splits option.splits)
  qed
  have drag: "desk_ok (fst (gui_drag w h p s))" using assms(1) by (simp add: gui_drag_def Let_def desk_keeps)
  have "desk_ok (s\<lparr>g_drag_zpos := - 1\<rparr>)" using assms(1) by (simp add: desk_ok_def lines_ok_def stack_ok_def stack_def)
  then show ?thesis using assms click drag by (auto simp: gui_mouse_def Let_def split: if_splits prod.splits)
qed

section \<open>Frames and sessions\<close>

lemma gui_alloc_desk: "desk_ok s \<Longrightarrow> gui_alloc n s = Some (p, s') \<Longrightarrow> desk_ok s'"
  using gui_alloc_fields [of n s p s'] desk_cong [of s' s] by simp

lemma redraw_desk [desk_keeps]:
  "desk_ok s \<Longrightarrow> desk_ok (restore_cursor_bg s)" "desk_ok s \<Longrightarrow> desk_ok (redraw_all time w h p s)"
  "desk_ok s \<Longrightarrow> desk_ok (save_cursor_bg x y s)"
  by (simp_all add: restore_cursor_bg_def redraw_all_def save_cursor_bg_def compose_windows_def draw_desktop_def Let_def)

lemma redraw_pointer_desk: "desk_ok s \<Longrightarrow> redraw_pointer old p s = Some s' \<Longrightarrow> desk_ok s'"
  by (auto simp: redraw_pointer_def draw_cursor_at_def cursor_init_def Let_def desk_keeps gui_alloc_desk
      split: bind_splits if_splits prod.splits option.splits)

lemma zorder_entry: "desk_ok s \<Longrightarrow> k < 8 \<Longrightarrow> g_zorder s ! k < 8"
  unfolding desk_ok_def stack_ok_def by (metis lessThan_iff nth_mem subsetD)

lemma gui_key_desk:
  assumes "nested_ok f" "desk_ok s" "gui_key env f ins c s = Some (r, ins')"
  shows "desk_ok (gui_state r)"
proof (cases "c \<noteq> 27 \<and> c \<noteq> 0 \<and> g_focus_zpos s \<ge> 0 \<and> w_kind (g_win s ! (g_zorder s ! nat (g_focus_zpos s))) = WIN_TERMINAL")
  case True
  let ?i = "g_zorder s ! nat (g_focus_zpos s)"
  have "nat (g_focus_zpos s) < 8" using assms(2) by (auto simp: desk_ok_def)
  then have i: "?i < 8" by (rule zorder_entry [OF assms(2)])
  obtain q where q: "win_terminal_feed env f ins ?i c s = Some (q, ins')" "desk_ok (gui_state r) = desk_ok (gui_state q)"
    using assms(3) True by (auto simp: gui_key_def Let_def split: bind_splits gui_end.splits)
  then show ?thesis using feed_desk [OF assms(1,2) i q(1)] by simp
qed (use assms(2,3) in \<open>auto simp: gui_key_def Let_def split: if_splits\<close>)

lemma frame_end_desk:
  assumes "nested_ok f" "desk_ok s" "frame_end env f w h i old p again ins s = Some (r, ins')"
  shows "desk_ok (gui_state r)"
proof -
  obtain v where v: "(if again then Some (redraw_all (in_time i) w h p s) else redraw_pointer old p s) = Some v"
    "gui_key env f ins (in_key i) v = Some (r, ins')"
    using assms(3) unfolding frame_end_def bind_eq_Some_conv by blast
  have "desk_ok v" using v(1) redraw_desk(2) [OF assms(2)] redraw_pointer_desk [OF assms(2)] by (auto split: if_splits)
  then show ?thesis using v(2) by (rule gui_key_desk [OF assms(1)])
qed

text \<open>The mouse first, then the screen and the key.\<close>

lemma bind_pairE:
  assumes "do { (q, a) \<leftarrow> m; (r, ins) \<leftarrow> F q a; Some (G a, r, ins) } = Some (l, r', ins')"
  obtains q a where "m = Some (q, a)" "F q a = Some (r', ins')"
  using assms by (auto split: bind_splits)

lemma gui_frame_parts:
  assumes "gui_frame env f w h l i ins s = Some (l', r, ins')"
  obtains q full p before again old where
    "gui_mouse (e_drivers env) (in_time i) w h full p before (restore_cursor_bg s) = Some (q, again)"
    "(case q of Going u \<Rightarrow> frame_end env f w h i old p again ins u | q \<Rightarrow> Some (q, ins)) = Some (r, ins')"
  using assms unfolding gui_frame_def Let_def by (rule bind_pairE) (rule that, assumption, assumption)

lemma gui_frame_desk:
  assumes "nested_ok f" "desk_ok s" "gui_frame env f w h l i ins s = Some (l', r, ins')"
  shows "desk_ok (gui_state r)"
proof -
  obtain q full p before again old where
    q: "gui_mouse (e_drivers env) (in_time i) w h full p before (restore_cursor_bg s) = Some (q, again)"
    "(case q of Going u \<Rightarrow> frame_end env f w h i old p again ins u | q \<Rightarrow> Some (q, ins)) = Some (r, ins')"
    using gui_frame_parts [OF assms(3)] .
  have "desk_ok (gui_state q)" using gui_mouse_desk [OF redraw_desk(1) [OF assms(2)] q(1)] .
  then show ?thesis using q(2) frame_end_desk [OF assms(1)] by (cases q) auto
qed

text \<open>The first windows, and the way out.\<close>

lemma gui_start_desk:
  assumes "desk_ok s" "gui_start drv i s = Some (l, s')"
  shows "desk_ok s'"
proof -
  have z: "desk_ok (gui_empty s)"
    using assms(1) by (auto simp: gui_empty_def desk_ok_def lines_ok_def stack_ok_def stack_def)
  have d: "desk_ok (compose_windows (draw_desktop time w h (focus_top (case ai of None \<Rightarrow> t | Some a \<Rightarrow> win_render_about a t))))"
    if "desk_ok t" for ai t time w h
    using that by (cases ai) (simp_all add: compose_windows_def draw_desktop_def focus_top_desk desk_keeps)
  have t: "desk_ok (case ti of None \<Rightarrow> t | Some i \<Rightarrow> win_render_terminal_init i t)" if "desk_ok t" for ti t
    using that by (cases ti) (simp_all add: desk_keeps)
  show ?thesis using assms(2) z d t unfolding gui_start_def Let_def
    by (auto split: bind_splits dest!: win_create_desk [rotated] intro!: d t)
qed

lemma gui_leave_desk: "desk_ok s \<Longrightarrow> desk_ok (gui_leave (s :: 'd gui))"
proof -
  assume s: "desk_ok s"
  have "n \<le> g_win_count t \<Longrightarrow> desk_ok t \<Longrightarrow> desk_ok (fold win_close (rev [0..<n]) t)" for n and t :: "'d gui"
  proof (induction n arbitrary: t)
    case (Suc n)
    have p: "stack_ok t" "n < g_win_count t" "length (g_win t) = 8"
      using Suc.prems by (simp_all add: desk_ok_def lines_ok_def)
    note cs = close_stack [OF p]
    have "lines_ok (win_close n t)" using Suc.prems(2) upd_win_lines [of t "stack t ! n" "w_used_update (\<lambda>_. False)"]
      by (simp add: desk_ok_def lines_ok_def cs(3) upd_win_def)
    then have "desk_ok (win_close n t)" using Suc.prems(2) cs by (simp add: desk_ok_def)
    then show ?case using Suc.IH [of "win_close n t"] p(2) cs(4) by simp
  qed simp
  then have "desk_ok (fold win_close (rev [0..<g_win_count s]) s)" using s by simp
  then show ?thesis by (simp add: gui_leave_def)
qed

lemma gui_around_desk:
  assumes "\<And>w h l. nested_ok (loop w h l)"
  shows "nested_ok (gui_around env loop)"
  unfolding nested_ok_def
proof (intro allI impI)
  fix ins s r ins' assume s: "desk_ok s" and g: "gui_around env loop ins s = Some (r, ins')"
  show "desk_ok (gui_state r)"
  proof (cases "g_fb_enabled (sgpu (gk s)) \<and> ins \<noteq> []")
    case True
    then obtain i js where i: "ins = i # js" by (cases ins) auto
    obtain l t q where q: "gui_start (e_drivers env) i s = Some (l, t)"
      "loop (gpu_width (sgpu (gk s))) (gpu_height (sgpu (gk s))) l js t = Some (q, ins')"
      "r = (case q of Escaped s \<Rightarrow> Escaped (gui_leave s) | q \<Rightarrow> q)"
      using g True unfolding i gui_around_def Let_def by (auto split: bind_splits)
    have "desk_ok (gui_state q)" using assms gui_start_desk [OF s q(1)] q(2) unfolding nested_ok_def by blast
    then show ?thesis by (cases q) (simp_all add: q(3) gui_leave_desk)
  qed (use g s in \<open>auto simp: gui_around_def split: list.splits if_splits\<close>)
qed

lemma gui_loop_desk: "nested_ok (gui_loop n env w h l)"
proof (induction n arbitrary: w h l)
  case 0
  then show ?case by (simp add: nested_ok_def)
next
  case (Suc n)
  note around = gui_around_desk [of "gui_loop n env" env, OF Suc.IH]
  show ?case unfolding nested_ok_def
  proof (intro allI impI)
    fix ins s r ins' assume s: "desk_ok s" and g: "gui_loop (Suc n) env w h l ins s = Some (r, ins')"
    show "desk_ok (gui_state r)"
    proof (cases ins)
      case Nil
      then show ?thesis using g s by auto
    next
      case (Cons i js)
      obtain l' q js' where q: "gui_frame env (gui_around env (gui_loop n env)) w h l i js s = Some (l', q, js')"
        "(case q of Going s \<Rightarrow> gui_loop n env w h l' js' s | q \<Rightarrow> Some (q, js')) = Some (r, ins')"
        using g unfolding Cons by (auto split: bind_splits)
      have "desk_ok (gui_state q)" using gui_frame_desk [OF around s q(1)] .
      then show ?thesis using q(2) Suc.IH [of w h l'] unfolding nested_ok_def by (cases q) auto
    qed
  qed
qed

lemma gui_run_desk: "nested_ok (gui_run_desktop env)"
  using gui_around_desk [of "gui_loop n env" env for n, OF gui_loop_desk] unfolding nested_ok_def gui_run_desktop_def by blast

section \<open>A session uses up its input\<close>

text \<open>On this input, the function takes no input back, and it waits only when nothing is left.\<close>

definition uses_input :: "gui_input list \<Rightarrow> gui_input list \<Rightarrow> 'd gui_end \<Rightarrow> bool" where
  "uses_input ins ins' r \<longleftrightarrow> length ins' \<le> length ins \<and> (\<forall>s. r = Waiting s \<longrightarrow> ins' = [])"

definition nested_uses :: "'d nested \<Rightarrow> gui_input list \<Rightarrow> bool" where
  "nested_uses f ins \<longleftrightarrow> (\<forall>s r ins'. f ins s = Some (r, ins') \<longrightarrow> uses_input ins ins' r)"

lemma dispatch_uses:
  assumes "nested_uses f ins" "gui_dispatch_command env f ins i s = Some (r, ins')"
  shows "uses_input ins ins' r"
proof -
  obtain ln t q where q: "gui_dispatch_line env f ins ln t = Some (q, ins')" "(\<exists>u. r = Going u) \<or> r = q"
    using assms(2) unfolding gui_dispatch_command_def Let_def by (auto split: bind_splits gui_end.splits)
  have "uses_input ins ins' q" using assms(1) q(1) unfolding nested_uses_def gui_dispatch_line_def Let_def uses_input_def
    by (fastforce split: bind_splits if_splits cmd_end.splits gui_end.splits)
  then show ?thesis using q(2) by (auto simp: uses_input_def)
qed

lemma key_uses:
  assumes "nested_uses f ins" "gui_key env f ins c s = Some (r, ins')"
  shows "uses_input ins ins' r"
proof -
  have going: "uses_input ins ins (Going t)" for t :: "'a gui" by (simp add: uses_input_def)
  have feed: "uses_input ins ins' q" if "win_terminal_feed env f ins i c s = Some (q, ins')" for i q
    using that dispatch_uses [OF assms(1)] going unfolding win_terminal_feed_def Let_def by (auto split: if_splits)
  show ?thesis using assms(2) feed unfolding gui_key_def Let_def
    by (fastforce simp: uses_input_def split: bind_splits if_splits gui_end.splits)
qed

lemma mouse_not_waiting: "gui_mouse drv time w h full p before s = Some (Waiting t, again) \<Longrightarrow> P"
  by (auto simp: gui_mouse_def gui_click_def run_entry_def Let_def split: if_splits prod.splits option.splits)

lemma frame_uses:
  assumes "nested_uses f ins" "gui_frame env f w h l i ins s = Some (l', r, ins')"
  shows "uses_input ins ins' r"
proof -
  obtain q full p before again old where
    q: "gui_mouse (e_drivers env) (in_time i) w h full p before (restore_cursor_bg s) = Some (q, again)"
    "(case q of Going u \<Rightarrow> frame_end env f w h i old p again ins u | q \<Rightarrow> Some (q, ins)) = Some (r, ins')"
    using gui_frame_parts [OF assms(2)] .
  have "uses_input ins ins' r" if e: "frame_end env f w h i old p again ins u = Some (r, ins')" for u
  proof -
    obtain v where "gui_key env f ins (in_key i) v = Some (r, ins')" using e unfolding frame_end_def bind_eq_Some_conv by blast
    then show ?thesis by (rule key_uses [OF assms(1)])
  qed
  then show ?thesis using q by (cases q) (auto simp: uses_input_def elim: mouse_not_waiting)
qed

lemma around_uses:
  assumes "\<And>w h l js. length js < length ins \<Longrightarrow> nested_uses (loop w h l) js"
  shows "nested_uses (gui_around env loop) ins"
proof (cases ins)
  case (Cons i js)
  have a: "uses_input js ins' q" if "loop w h l js t = Some (q, ins')" for w h l t q ins'
    using assms [of js] that unfolding Cons nested_uses_def by simp
  show ?thesis unfolding nested_uses_def Cons
  proof (intro allI impI)
    fix s r ins' assume g: "gui_around env loop (i # js) s = Some (r, ins')"
    then have "r = Waiting u \<or> length ins' \<le> length js \<or> ins' = i # js" for u
      using a by (fastforce simp: gui_around_def Let_def uses_input_def split: bind_splits if_splits)
    then show "uses_input (i # js) ins' r" using g a
      by (fastforce simp: gui_around_def Let_def uses_input_def split: bind_splits if_splits gui_end.splits)
  qed
qed (auto simp: nested_uses_def gui_around_def uses_input_def split: if_splits)

lemma loop_uses: "length ins \<le> n \<Longrightarrow> nested_uses (gui_loop n env w h l) ins"
proof (induction n arbitrary: w h l ins)
  case 0
  then show ?case by (simp add: nested_uses_def uses_input_def)
next
  case (Suc n)
  show ?case
  proof (cases ins)
    case Nil
    then show ?thesis by (simp add: nested_uses_def uses_input_def)
  next
    case (Cons i js)
    have "nested_uses (gui_around env (gui_loop n env)) js" using Suc.prems Cons by (intro around_uses Suc.IH) simp
    note frame = frame_uses [OF this]
    show ?thesis unfolding nested_uses_def Cons
    proof (intro allI impI)
      fix s r ins' assume "gui_loop (Suc n) env w h l (i # js) s = Some (r, ins')"
      then obtain l' q js' where q: "gui_frame env (gui_around env (gui_loop n env)) w h l i js s = Some (l', q, js')"
        "(case q of Going s \<Rightarrow> gui_loop n env w h l' js' s | q \<Rightarrow> Some (q, js')) = Some (r, ins')"
        by (auto split: bind_splits)
      have f: "uses_input js js' q" using frame q(1) by blast
      then have "length js' \<le> n" using Suc.prems Cons by (simp add: uses_input_def)
      note rest = Suc.IH [OF this, of w h l', unfolded nested_uses_def]
      show "uses_input (i # js) ins' r" using f q(2) rest by (cases q) (fastforce simp: uses_input_def)+
    qed
  qed
qed

section \<open>A desktop to run\<close>

text \<open>An empty desktop on a screen of 16 bit pixels with a fresh heap, and a frame without events.\<close>

definition line_zero :: line_ed where "line_zero = \<lparr>lbuf = replicate 256 0, lpos = 0, lcpos = 0\<rparr>"

definition window_zero :: window_t where
  "window_zero = \<lparr>w_used = False, w_x = 0, w_y = 0, w_cw = 0, w_ch = 0, w_title = [], w_kind = WIN_TERMINAL, w_buf = NULL,
     w_term = term_zero, w_cur_row = 0, w_cur_col = 0, w_line = line_zero\<rparr>"

definition gui_zero :: "unit kshell \<Rightarrow> unit gui" where
  "gui_zero k = \<lparr>g_win = replicate 8 window_zero, g_zorder = replicate 8 0, g_win_count = 0, g_drag_zpos = - 1, g_drag_dx = 0,
     g_drag_dy = 0, g_focus_zpos = - 1, g_menu_open = False, g_cursor_bg = NULL, g_cursor_saved = False, g_cursor_x = 0,
     g_cursor_y = 0, gk = k\<rparr>"

definition shell_screen :: "unit kshell" where
  "shell_screen = (shell_zero (demo_vfs\<lparr>vheap := heap_fresh vm_linked\<rparr>) demo_net)\<lparr>sgpu := screen16\<rparr>"

definition quiet :: gui_input where "quiet = \<lparr>in_tick = 0, in_time = [48, 48, 58, 48, 48], in_mouse = (0, 0, 0), in_key = 0\<rparr>"

lemma gui_zero_desk: "desk_ok (gui_zero k)"
  by (auto simp: desk_ok_def lines_ok_def stack_ok_def stack_def gui_zero_def window_zero_def line_zero_def ed_ok_def line_text_def
      SHELL_LINE_MAX_def)

lemma fresh_two:
  "\<exists>p q h1 h2. kmalloc (heap_fresh M) 624000 = Some (p, h1) \<and> kmalloc h1 364800 = Some (q, h2)"
proof -
  have t: "heap_total 624000 = 624025" "heap_total 364800 = 364825"
    by (simp_all add: heap_total_def HEAP_ALIGN_def HEADER_SIZE_def MIN_BLOCK_def)
  have 1: "heap_find (hdr (heap_fresh M)) 624025 (g_heap_start (heap_fresh M)) = Some HEAP_START"
    by (subst heap_find.simps) (simp add: heap_fresh_def HEAP_START_def)
  define H where "H = heap_take (hdr (heap_fresh M)) HEAP_START 624025"
  have "hfree (H HEAP_START) = False" "hnext (H HEAP_START) = HEAP_START + 624025" "hfree (H (HEAP_START + 624025))"
    "hsize (H (HEAP_START + 624025)) = 424551"
    by (simp_all add: H_def heap_take_def heap_fresh_def set_size_def set_free_def set_next_def set_prev_def MIN_BLOCK_def HEAP_START_def)
  then have 2: "heap_find H 364825 HEAP_START = Some (HEAP_START + 624025)"
    by (subst heap_find.simps, subst heap_find.simps) (simp add: HEAP_START_def)
  have n: "HEAP_START \<noteq> NULL" "HEAP_START + 624025 \<noteq> NULL" "g_heap_start (heap_fresh M) = HEAP_START"
    by (simp_all add: HEAP_START_def heap_fresh_def)
  show ?thesis using 1 2 n by (simp add: kmalloc_def t H_def)
qed

lemma gui_alloc_Some:
  "kmalloc (vheap (svfs (gk s))) n = Some (p, hp) \<Longrightarrow>
   gui_alloc n s = Some (p, gk_update (svfs_update (vheap_update (\<lambda>_. hp))) s)"
  by (simp add: gui_alloc_def)

lemma gui_zero_run: "\<exists>s. gui_run_desktop env [quiet] (gui_zero shell_screen) = Some (Waiting s, [])"
proof -
  let ?e = "gui_empty (gui_zero shell_screen)"
  obtain p q h1 h2 where h: "kmalloc (heap_fresh vm_linked) 624000 = Some (p, h1)" "kmalloc h1 364800 = Some (q, h2)"
    using fresh_two by blast
  have "free_slot ?e = Some 0" by (simp add: free_slot_def MAX_WINDOWS_def upt_conv_Cons gui_empty_def gui_zero_def window_zero_def)
  then obtain s1 where s1: "win_create WIN_TERMINAL (text_of ''Terminal'') 200 60 520 300 ?e = Some (Some 0, s1)"
    "vheap (svfs (gk s1)) = h1"
    using gui_alloc_Some [of ?e 624000 p h1] h(1) unfolding win_create_def
    by (simp add: Let_def gui_empty_def gui_zero_def shell_screen_def shell_zero_def)
  obtain ai s2 where "win_create WIN_ABOUT (text_of ''About EponaOS'') 400 120 380 240 s1 = Some (ai, s2)"
    using gui_alloc_Some [of s1 364800 q h2] h(2) s1(2) unfolding win_create_def by (cases "free_slot s1") auto
  then obtain l s3 where "gui_start (e_drivers env) quiet (gui_zero shell_screen) = Some (l, s3)"
    using s1(1) by (simp add: gui_start_def Let_def)
  moreover have "g_fb_enabled (sgpu (gk (gui_zero shell_screen)))" by (simp add: gui_zero_def shell_screen_def screen16_def)
  ultimately show ?thesis by (simp add: gui_run_desktop_def gui_around_def Let_def)
qed

text \<open>Two windows: a terminal below, the text about the system on top of it and in part over it.\<close>

definition gui_two :: "unit gui" where
  "gui_two = (gui_zero shell_screen)\<lparr>
     g_win := [window_zero\<lparr>w_used := True, w_x := 200, w_y := 60, w_cw := 520, w_ch := 300\<rparr>,
               window_zero\<lparr>w_used := True, w_x := 400, w_y := 120, w_cw := 380, w_ch := 240, w_kind := WIN_ABOUT\<rparr>] @ replicate 6 window_zero,
     g_zorder := [0, 1, 0, 0, 0, 0, 0, 0], g_win_count := 2, g_focus_zpos := 1\<rparr>"

lemma gui_two_desk: "desk_ok gui_two"
proof -
  have "{i. i < 8 \<and> w_used (g_win gui_two ! i)} = {0, 1}"
    by (auto simp: gui_two_def window_zero_def nth_Cons' nth_append split: if_splits)
  then show ?thesis
    by (auto simp: desk_ok_def lines_ok_def stack_ok_def stack_def gui_two_def gui_zero_def window_zero_def line_zero_def ed_ok_def
        line_text_def SHELL_LINE_MAX_def)
qed

section \<open>Properties\<close>

text \<open>
  C34: after any number of frames with any input, desktops inside the desktop included, the stacking order holds
  every window in use exactly once, all indices stay in the arrays, and the line in every terminal is a
  terminated string with its cursor inside.
\<close>

theorem gui_session_ok:
  assumes "desk_ok s" "gui_run_desktop env ins s = Some (r, ins')"
  shows "desk_ok (gui_state r)"
  using gui_run_desk [of env] assms unfolding nested_ok_def by blast

lemma gui_session_ok_witness:
  "\<exists>s. gui_run_desktop (env_zero (\<lambda>_. no_fs)) [quiet] (gui_zero shell_screen) = Some (Waiting s, []) \<and> desk_ok s"
proof -
  obtain s where s: "gui_run_desktop (env_zero (\<lambda>_. no_fs)) [quiet] (gui_zero shell_screen) = Some (Waiting s, [])"
    using gui_zero_run by blast
  from gui_session_ok [OF gui_zero_desk s] show ?thesis using s by simp
qed

text \<open>
  C35: A click picks the topmost window under the pointer. It comes to the top of the stack and gets the focus, the order
  of the others stays; on its close button it disappears and the focus goes to the window that is on top then.
\<close>

theorem gui_click_spec:
  assumes "desk_ok s" "win_hit_test (p_x p) (p_y p) s = Some z"
  shows "let i = stack s ! z; w = g_win s ! i; s' = click_window p z s;
           hit = (\<lambda>j. let w = g_win s ! j in point_in (p_x p) (p_y p) (w_x w) (w_y w) (win_total_w w) (win_total_h w));
           shut = point_in (p_x p) (p_y p) (w_x w + win_total_w w - 18) (w_y w + 4) 14 14
         in i \<in> set (stack s) \<and> hit i \<and> filter hit (drop (Suc z) (stack s)) = [] \<and>
            stack s' = without z (stack s) @ (if shut then [] else [i]) \<and>
            g_win s' = (g_win s)[i := w\<lparr>w_used := \<not> shut\<rparr>] \<and>
            g_focus_zpos s' = int (length (stack s')) - 1"
proof -
  note h = hit_test_Some [OF assms(2)]
  have s: "stack_ok s" "length (g_win s) = 8" using assms(1) by (simp_all add: desk_ok_def lines_ok_def)
  note rs = raise_stack [OF s(1) h(1)] and cs = close_stack [OF s(1) h(1) s(2)] and len = length_stack [OF s(1)]
  let ?i = "stack s ! z" and ?w = "g_win s ! (stack s ! z)"
  have i: "?i \<in> set (stack s)" using h(1) len by simp
  have u: "w_used (g_win s ! j)" if "j \<in> set (stack s)" for j using that s(1) by (auto simp: stack_ok_def)
  have top: "\<not> point_in (p_x p) (p_y p) (w_x w) (w_y w) (win_total_w w) (win_total_h w)"
    if j: "j \<in> set (drop (Suc z) (stack s))" and w: "w = g_win s ! j" for j w
  proof -
    obtain k where k: "k < length (drop (Suc z) (stack s))" "drop (Suc z) (stack s) ! k = j"
      using j by (auto simp: in_set_conv_nth)
    then show ?thesis using h(3) [of "Suc z + k"] u [of j] in_set_dropD [OF j] w len by (simp add: Let_def)
  qed
  have "?w\<lparr>w_used := True\<rparr> = ?w" using u [OF i] by simp
  then have same: "(g_win s)[?i := ?w\<lparr>w_used := True\<rparr>] = g_win s" by simp
  have fields: "stack (t\<lparr>g_focus_zpos := x\<rparr>) = stack t" "stack (t\<lparr>g_focus_zpos := x, g_drag_zpos := a, g_drag_dx := b, g_drag_dy := c\<rparr>) = stack t"
    for t :: "'a gui" and x a b c by (simp_all add: stack_def)
  have wl: "length (without z (stack s)) = g_win_count s - 1" using h(1) len by (simp add: without_def)
  have z: "g_zorder s ! z = ?i" using stack_nth [OF h(1)] by simp
  have n: "0 < g_win_count s" using h(1) by simp
  show ?thesis
  proof (cases "point_in (p_x p) (p_y p) (w_x ?w + win_total_w ?w - 18) (w_y ?w + 4) 14 14")
    case True
    then have e: "click_window p z s = focus_top (win_close z s)" by (simp add: click_window_def Let_def z)
    have "stack (focus_top (win_close z s)) = without z (stack s)" "g_win (focus_top (win_close z s)) = (g_win s)[?i := ?w\<lparr>w_used := False\<rparr>]"
      using cs by (simp_all add: focus_top_def fields)
    moreover have "g_focus_zpos (focus_top (win_close z s)) = int (g_win_count s - 1) - 1" using cs by (simp add: focus_top_def)
    ultimately show ?thesis using True i h(2) top wl by (simp add: e Let_def filter_empty_conv)
  next
    case False
    let ?t = "win_raise z s"
    have "stack (click_window p z s) = stack ?t" "g_win (click_window p z s) = g_win s"
      "g_focus_zpos (click_window p z s) = int (g_win_count s) - 1"
      using False rs by (simp_all add: click_window_def Let_def z fields)
    then show ?thesis using False i h(2) top wl rs(1) same n by (simp add: Let_def filter_empty_conv)
  qed
qed

lemma gui_click_spec_witness:
  "stack (click_window \<lparr>p_x = 250, p_y = 70, p_buttons = 1\<rparr> 0 gui_two) = [1, 0]"
proof -
  have h: "win_hit_test 250 70 gui_two = Some 0"
    by (simp add: win_hit_test_def gui_two_def upt_conv_Cons point_in_def win_total_w_def win_total_h_def BORDER_W_def TITLEBAR_H_def
        window_zero_def)
  have st: "stack gui_two = [0, 1]" by (simp add: stack_def gui_two_def)
  have w: "w_x (g_win gui_two ! 0) = 200" "w_y (g_win gui_two ! 0) = 60" "w_cw (g_win gui_two ! 0) = 520"
    by (simp_all add: gui_two_def)
  from gui_click_spec [OF gui_two_desk, of "\<lparr>p_x = 250, p_y = 70, p_buttons = 1\<rparr>" 0] h
  show ?thesis by (simp add: st without_def Let_def w point_in_def win_total_w_def BORDER_W_def)
qed

text \<open>
  The pointer stays on the screen whatever the mouse has counted; while the button is down, a window that fits on the screen
  stays on it, above the task bar, and no other window moves.
\<close>

theorem gui_drag_on_screen:
  assumes "desk_ok s" "0 \<le> g_drag_zpos s" "i = g_zorder s ! nat (g_drag_zpos s)" "dw = g_win s ! i"
    "win_total_w dw \<le> uint w" "win_total_h dw + TASKBAR_H \<le> uint h" "12 \<le> uint w" "p = read_pointer ms w h"
  shows "let s' = fst (gui_drag w h p s); dw' = g_win s' ! i
         in 0 \<le> p_x p \<and> p_x p + cursor_w \<le> uint w \<and> 0 \<le> w_x dw' \<and> w_x dw' + win_total_w dw' \<le> uint w \<and>
            0 \<le> w_y dw' \<and> w_y dw' + win_total_h dw' + TASKBAR_H \<le> uint h \<and>
            g_win s' = (g_win s)[i := dw\<lparr>w_x := w_x dw', w_y := w_y dw'\<rparr>] \<and> g_zorder s' = g_zorder s"
proof -
  have "nat (g_drag_zpos s) < 8" using assms(1,2) by (auto simp: desk_ok_def)
  then have "i < length (g_win s)" using zorder_entry [OF assms(1), of "nat (g_drag_zpos s)"] assms(1,3)
    by (simp add: desk_ok_def lines_ok_def)
  moreover have "0 \<le> p_x p \<and> p_x p + cursor_w \<le> uint w" using assms(7,8)
    by (simp add: read_pointer_def Let_def cursor_w_def split: prod.splits)
  ultimately show ?thesis using assms(3-6)
    by (simp add: gui_drag_def Let_def upd_win_def win_total_w_def win_total_h_def TASKBAR_H_def TITLEBAR_H_def)
qed

lemma gui_drag_on_screen_witness:
  "let s = gui_two\<lparr>g_drag_zpos := 1, g_drag_dx := 5, g_drag_dy := 5\<rparr>;
       s' = fst (gui_drag 1024 768 (read_pointer (5000, 5000, 1) 1024 768) s); dw' = g_win s' ! 1
   in 0 \<le> w_x dw' \<and> w_x dw' + win_total_w dw' \<le> 1024"
proof -
  have d: "desk_ok (gui_two\<lparr>g_drag_zpos := 1, g_drag_dx := 5, g_drag_dy := 5\<rparr>)"
    using gui_two_desk by (simp add: desk_ok_def lines_ok_def stack_ok_def stack_def)
  from gui_drag_on_screen [OF d _ refl refl, of 1024 768 "read_pointer (5000, 5000, 1) 1024 768" "(5000, 5000, 1)"]
  show ?thesis by (simp add: gui_two_def Let_def window_zero_def win_total_w_def win_total_h_def BORDER_W_def TITLEBAR_H_def TASKBAR_H_def)
qed

lemma render_keeps [simp]:
  "g_zorder (win_render_terminal_init i s) = g_zorder s" "g_win_count (win_render_terminal_init i s) = g_win_count s"
  "g_focus_zpos (win_render_terminal_init i s) = g_focus_zpos s"
  "g_zorder (win_render_about i s) = g_zorder s" "g_win_count (win_render_about i s) = g_win_count s"
  "g_focus_zpos (win_render_about i s) = g_focus_zpos s"
  by (simp_all add: win_render_terminal_init_def win_render_about_def fill_window_def in_term_def keep_cursor_def Let_def
      split: prod.splits)

lemma render_fileman_keeps:
  "win_render_fileman drv i s = Some s' \<Longrightarrow>
   g_zorder s' = g_zorder s \<and> g_win_count s' = g_win_count s \<and> g_focus_zpos s' = g_focus_zpos s"
  by (auto simp: win_render_fileman_def fill_window_def Let_def split: bind_splits)

text \<open>
  A window that is opened from the menu or by an icon comes to the top, but the focus stays where it was: the keys
  go on to the window that was on top before.
\<close>

theorem gui_open_without_focus:
  assumes "desk_ok s" "0 < g_win_count s" "g_win_count s < 8" "g_focus_zpos s = int (g_win_count s) - 1"
    "open_window drv kind x y s = Some s'"
  shows "\<exists>i. i \<notin> set (stack s) \<and> stack s' = stack s @ [i] \<and> stack s' ! nat (g_focus_zpos s') = last (stack s)"
proof -
  have s: "stack_ok s" "lines_ok s" using assms(1) by (simp_all add: desk_ok_def)
  obtain title cw ch r s1 where c: "win_create kind title x y cw ch s = Some (r, s1)"
    and k: "g_zorder s' = g_zorder s1" "g_win_count s' = g_win_count s1" "g_focus_zpos s' = g_focus_zpos s1"
    using assms(5) unfolding open_window_def Let_def
    by (cases kind) (fastforce split: bind_splits if_splits dest: render_fileman_keeps)+
  from c s show ?thesis
  proof (cases rule: win_create_cases)
    case (new i)
    have len: "length (stack s) = g_win_count s" by (rule length_stack [OF s(1)])
    have ne: "stack s \<noteq> []" using len assms(2) by auto
    have "i \<notin> set (stack s)" using new(3) s(1) by (auto simp: stack_ok_def)
    moreover have st: "stack s' = stack s @ [i]" using new k by (simp add: stack_def)
    moreover have "stack s' ! nat (g_focus_zpos s') = last (stack s)"
      using new(8) k(3) assms(2,4) len last_conv_nth [of "stack s", OF ne] by (auto simp: st nth_append nat_diff_distrib)
    ultimately show ?thesis by blast
  qed (use assms(3) in simp)
qed

lemma gui_open_without_focus_witness:
  "\<exists>s' i. open_window no_ops WIN_TERMINAL 200 60 gui_two = Some s' \<and> stack s' = [0, 1, i] \<and> stack s' ! nat (g_focus_zpos s') = 1"
proof -
  obtain p h1 where h: "kmalloc (heap_fresh vm_linked) 624000 = Some (p, h1)" using fresh_two by blast
  have "free_slot gui_two = Some 2"
    by (simp add: free_slot_def MAX_WINDOWS_def upt_conv_Cons gui_two_def window_zero_def)
  moreover have "g_win_count gui_two = 2" by (simp add: gui_two_def)
  ultimately obtain s' where s': "open_window no_ops WIN_TERMINAL 200 60 gui_two = Some s'"
    using gui_alloc_Some [of gui_two 624000 p h1] h unfolding open_window_def win_create_def
    by (simp add: Let_def gui_two_def gui_zero_def shell_screen_def shell_zero_def)
  have st: "stack gui_two = [0, 1]" by (simp add: stack_def gui_two_def)
  have f: "g_win_count gui_two = 2" "g_focus_zpos gui_two = 1" by (simp_all add: gui_two_def)
  from gui_open_without_focus [OF gui_two_desk _ _ _ s', unfolded f st] show ?thesis using s' by auto
qed

text \<open>With eight windows there is no ninth; the window on top is drawn over instead, whatever it is.\<close>

lemma gui_open_full:
  assumes "desk_ok s" "g_win_count s = 8"
  shows "open_window drv WIN_ABOUT x y s = Some (win_render_about (last (stack s)) s)"
proof -
  have s: "stack_ok s" using assms(1) by (simp add: desk_ok_def)
  then have "card {i. i < 8 \<and> w_used (g_win s ! i)} = 8"
    using distinct_card [of "stack s"] length_stack [OF s] assms(2) by (simp add: stack_ok_def)
  then have "{i. i < 8 \<and> w_used (g_win s ! i)} = {..<8}" by (intro card_subset_eq) auto
  then have "free_slot s = None" unfolding free_slot_None by blast
  moreover have "last (stack s) = g_zorder s ! 7"
    using assms(2) s length_stack [OF s] by (simp add: last_conv_nth stack_nth flip: length_greater_0_conv)
  ultimately show ?thesis using assms(2) by (simp add: open_window_def win_create_def)
qed

text \<open>
  The desktop ends by Escape or with the machine, or it has used up its input: it never stops for another
  reason, and its keys go nowhere else.
\<close>

theorem gui_session_uses_input:
  "gui_run_desktop env ins s = Some (r, ins') \<Longrightarrow> length ins' \<le> length ins \<and> (\<forall>t. r = Waiting t \<longrightarrow> ins' = [])"
  using around_uses [of ins "gui_loop (length ins) env" env, OF loop_uses]
  by (simp add: gui_run_desktop_def nested_uses_def uses_input_def)

lemma gui_session_uses_input_witness:
  "\<exists>r ins'. gui_run_desktop (env_zero (\<lambda>_. no_fs)) [quiet] (gui_zero shell_screen) = Some (r, ins') \<and> length ins' \<le> 1"
proof -
  obtain s where s: "gui_run_desktop (env_zero (\<lambda>_. no_fs)) [quiet] (gui_zero shell_screen) = Some (Waiting s, [])"
    using gui_zero_run by blast
  show ?thesis using s gui_session_uses_input [OF s] by simp
qed

end
