(* ===== verification/Edit.thy ===== *)
theory Edit
  imports Main Bytes "HOL-Library.Monad_Syntax"
begin

text \<open>
  The line editor for users, \<^verbatim>\<open>user/edit.c\<close>. The system calls are a record of functions on the state of the
  system; data goes in and out by value. Strings are the bytes before the zero, and \<open>g_lines\<close> holds the first
  \<open>g_num\<close> lines of the array. \<open>None\<close> is a program that does not get there: it waits for input for ever, or it leaves
  the array of the lines or the memory it has.
\<close>

section \<open>System calls\<close>

text \<open>A read gives the bytes it read, \<open>None\<close> for a negative result. \<open>c_mapped\<close> tells whether 0x60000000 is memory of the process.\<close>

record 'o calls =
  c_open :: "u8 list \<Rightarrow> 'o \<Rightarrow> int \<times> 'o"
  c_create :: "u8 list \<Rightarrow> 'o \<Rightarrow> int \<times> 'o"
  c_read :: "int \<Rightarrow> nat \<Rightarrow> 'o \<Rightarrow> u8 list option \<times> 'o"
  c_write :: "int \<Rightarrow> u8 list \<Rightarrow> 'o \<Rightarrow> 'o"
  c_close :: "int \<Rightarrow> 'o \<Rightarrow> 'o"
  c_mapped :: bool

definition MAX_LINES :: nat where "MAX_LINES = 512"
definition LINE_MAX :: nat where "LINE_MAX = 256"
definition BUF_SIZE :: nat where "BUF_SIZE = 65536"

definition ascii :: "string \<Rightarrow> u8 list" where "ascii s = map of_char s"

definition puts_e :: "'o calls \<Rightarrow> u8 list \<Rightarrow> 'o \<Rightarrow> 'o" where "puts_e k s o1 = c_write k 1 s o1"
definition putc :: "'o calls \<Rightarrow> u8 \<Rightarrow> 'o \<Rightarrow> 'o" where "putc k c o1 = c_write k 1 [c] o1"

partial_function (option) readline_from :: "'o calls \<Rightarrow> nat \<Rightarrow> u8 list \<Rightarrow> 'o \<Rightarrow> (u8 list \<times> 'o) option" where
  "readline_from k mx acc o1 =
     (case c_read k 0 1 o1 of (r, o1) \<Rightarrow>
        case r of None \<Rightarrow> readline_from k mx acc o1
        | Some ds \<Rightarrow>
            if length ds \<noteq> 1 then readline_from k mx acc o1
            else if hd ds = 10 then Some (takeWhile (\<lambda>c. c \<noteq> 0) acc, putc k 10 o1)
            else if hd ds = 8 then
              if acc \<noteq> [] then readline_from k mx (butlast acc) (putc k 8 o1) else readline_from k mx acc o1
            else if length acc < mx - 1 then readline_from k mx (acc @ [hd ds]) (putc k (hd ds) o1)
            else readline_from k mx acc o1)"

definition readline_u :: "'o calls \<Rightarrow> nat \<Rightarrow> 'o \<Rightarrow> (u8 list \<times> 'o) option" where "readline_u k mx o1 = readline_from k mx [] o1"

section \<open>Files\<close>

record editor =
  g_lines :: "u8 list list"
  g_dirty :: bool

definition g_num :: "editor \<Rightarrow> nat" where "g_num e = length (g_lines e)"

text \<open>The loop that fills the buffer.\<close>

function read_all :: "'o calls \<Rightarrow> int \<Rightarrow> u8 list \<Rightarrow> 'o \<Rightarrow> u8 list \<times> 'o" where
  "read_all k fd acc o1 =
     (if length acc < BUF_SIZE - 1 then
        case c_read k fd (BUF_SIZE - 1 - length acc) o1 of (r, o1) \<Rightarrow>
          (case r of None \<Rightarrow> (acc, o1)
           | Some ds \<Rightarrow> if ds = [] then (acc, o1) else read_all k fd (acc @ ds) o1)
      else (acc, o1))"
  by pat_completeness auto
termination
  by (relation "measure (\<lambda>(k, fd, acc, o1). BUF_SIZE - 1 - length acc)") (auto intro: diff_less_mono2 simp: length_greater_0_conv)

declare read_all.simps [simp del]

text \<open>The lines of the buffer that are complete, and what is left behind the last of them.\<close>

fun scan_lines :: "u8 list \<Rightarrow> u8 list list \<Rightarrow> u8 list \<Rightarrow> u8 list list \<times> u8 list" where
  "scan_lines [] ls cur = (ls, cur)"
| "scan_lines (c # cs) ls cur =
     (if c = 0 \<or> length ls \<ge> MAX_LINES then (ls, cur)
      else if c = 10 then scan_lines cs (ls @ [cur]) []
      else if length cur < LINE_MAX - 1 then scan_lines cs ls (cur @ [c])
      else scan_lines cs ls cur)"

definition parse_lines :: "u8 list \<Rightarrow> u8 list list option" where
  "parse_lines buf =
     (case scan_lines buf [] [] of (ls, cur) \<Rightarrow>
        if cur \<noteq> [] \<or> (buf \<noteq> [] \<and> last buf = 10) then
          if length ls \<ge> MAX_LINES then None
          else Some (if cur \<noteq> [] \<or> ls = [] then ls @ [cur] else ls)
        else Some ls)"

text \<open>-1 is \<open>Inl\<close>. The buffer is at a fixed address; that it is not mapped is an access violation.\<close>

definition read_file :: "'o calls \<Rightarrow> u8 list \<Rightarrow> 'o \<Rightarrow> ((unit + u8 list list) \<times> 'o) option" where
  "read_file k path o1 =
     (case c_open k path o1 of (fd, o1) \<Rightarrow>
        if fd < 0 then Some (Inl (), o1)
        else if \<not> c_mapped k then None
        else case read_all k fd [] o1 of (buf, o1) \<Rightarrow> do {
          ls \<leftarrow> parse_lines buf;
          Some (Inr ls, c_close k fd o1) })"

definition save_file :: "'o calls \<Rightarrow> u8 list \<Rightarrow> editor \<Rightarrow> 'o \<Rightarrow> int \<times> editor \<times> 'o" where
  "save_file k path e o1 =
     (case c_create k path o1 of (fd, o1) \<Rightarrow>
        if fd < 0 then (- 1, e, o1)
        else let o1 = foldl (\<lambda>o1 l. c_write k fd [10] (c_write k fd l o1)) o1 (g_lines e)
             in (0, e\<lparr>g_dirty := False\<rparr>, c_close k fd o1))"

section \<open>Lines\<close>

text \<open>The number of a line in a field of six characters.\<close>

fun put_num :: "nat \<Rightarrow> nat \<Rightarrow> u8 list \<Rightarrow> u8 list" where
  "put_num 0 n acc = acc"
| "put_num (Suc ni) n acc = (if n > 0 then put_num ni (n div 10) ((48 + of_nat (n mod 10)) # acc) else put_num ni 0 (32 # acc))"

definition print_line :: "'o calls \<Rightarrow> editor \<Rightarrow> nat \<Rightarrow> 'o \<Rightarrow> 'o" where
  "print_line k e i o1 = putc k 10 (puts_e k (g_lines e ! i) (puts_e k (ascii ''  '') (puts_e k (put_num 6 (i + 1) []) o1)))"

definition print_lines :: "'o calls \<Rightarrow> editor \<Rightarrow> 'o \<Rightarrow> 'o" where
  "print_lines k e o1 = fold (print_line k e) [0..<g_num e] o1"

definition list_range :: "'o calls \<Rightarrow> editor \<Rightarrow> int \<Rightarrow> int \<Rightarrow> 'o \<Rightarrow> 'o" where
  "list_range k e first_i last_i o1 =
     (let a = (if first_i < 0 then 0 else first_i);
          b = (if last_i \<ge> int (g_num e) then int (g_num e) - 1 else last_i)
      in fold (print_line k e) [nat a..<nat (b + 1)] o1)"

text \<open>The loops that make room for a line at \<open>a\<close>, and that close the gap at \<open>n\<close>.\<close>

fun lines_up :: "u8 list list \<Rightarrow> nat \<Rightarrow> nat \<Rightarrow> u8 list list" where
  "lines_up ls 0 a = ls"
| "lines_up ls (Suc i) a = (if Suc i > a then lines_up (ls[Suc i := ls ! i]) i a else ls)"

definition put_line :: "editor \<Rightarrow> nat \<Rightarrow> u8 list \<Rightarrow> editor" where
  "put_line e a ln = e\<lparr>g_lines := (lines_up (g_lines e @ [[]]) (g_num e) a)[a := ln]\<rparr>"

partial_function (option) insert_lines :: "'o calls \<Rightarrow> editor \<Rightarrow> nat \<Rightarrow> 'o \<Rightarrow> (editor \<times> 'o) option" where
  "insert_lines k e a o1 = do {
     (ln, o1) \<leftarrow> readline_u k LINE_MAX (puts_e k (ascii ''> '') o1);
     if ln = ascii ''.'' then Some (e\<lparr>g_dirty := True\<rparr>, o1)
     else if g_num e \<ge> MAX_LINES then Some (e\<lparr>g_dirty := True\<rparr>, puts_e k (ascii ''Buffer full'' @ [10]) o1)
     else insert_lines k (put_line e a ln) (a + 1) o1 }"

definition cmd_insert :: "'o calls \<Rightarrow> editor \<Rightarrow> nat \<Rightarrow> 'o \<Rightarrow> (editor \<times> 'o) option" where
  "cmd_insert k e a o1 = insert_lines k e a (puts_e k (ascii ''(enter lines, '' @ [39] @ ascii ''.'' @ [39] @ ascii '' alone to end)'' @ [10]) o1)"

definition drop_line :: "editor \<Rightarrow> nat \<Rightarrow> editor" where
  "drop_line e n = e\<lparr>g_lines := butlast (fold (\<lambda>i ls. ls[i := ls ! (i + 1)]) [n..<g_num e - 1] (g_lines e)), g_dirty := True\<rparr>"

definition delete_line :: "'o calls \<Rightarrow> editor \<Rightarrow> int \<Rightarrow> 'o \<Rightarrow> editor \<times> 'o" where
  "delete_line k e n o1 =
     (if n < 0 \<or> n \<ge> int (g_num e) then (e, puts_e k (ascii ''Invalid line'' @ [10]) o1) else (drop_line e (nat n), o1))"

section \<open>Commands\<close>

definition help_text :: "string list" where
  "help_text =
     [''Editor commands:'', ''  p        print all lines'', ''  n        print line n'', ''  i [n]    insert after line n (default: 0)'',
      ''  a [n]    append after line n (default: end)'', ''  d n      delete line n'', ''  w        save (write) file'',
      ''  q        quit (discards if unsaved)'', ''  Q        force quit without saving'', ''  h        this help'',
      ''  n,m p    print range n through m'']"

definition help_u :: "'o calls \<Rightarrow> 'o \<Rightarrow> 'o" where
  "help_u k o1 = foldl (\<lambda>o1 l. puts_e k (ascii l @ [10]) o1) o1 help_text"

definition digit_u :: "u8 \<Rightarrow> bool" where "digit_u c \<longleftrightarrow> 48 \<le> c \<and> c \<le> 57"

text \<open>The digits at the front of a text, as an \<open>int\<close>, and the rest.\<close>

fun take_num :: "int \<Rightarrow> u8 list \<Rightarrow> int \<times> u8 list" where
  "take_num v [] = (v, [])"
| "take_num v (c # s) = (if digit_u c then take_num (int32 (v * 10 + (uint c - 48))) s else (v, c # s))"

text \<open>The number behind \<open>i\<close> or \<open>a\<close>, less one.\<close>

definition line_arg :: "int \<Rightarrow> u8 list \<Rightarrow> int" where
  "line_arg dflt ln = (if length ln > 1 \<and> ln ! 1 = 32 then int32 (fst (take_num 0 (drop 2 ln)) - 1) else dflt)"

definition insert_at :: "editor \<Rightarrow> u8 list \<Rightarrow> nat" where
  "insert_at e ln =
     (let n = line_arg 0 ln; n = (if n < 0 then 0 else n); n = (if n > int (g_num e) then int (g_num e) else n) in nat n)"

definition append_at :: "editor \<Rightarrow> u8 list \<Rightarrow> nat" where
  "append_at e ln =
     (let n = line_arg (int (g_num e) - 1) ln; n = (if n < 0 then 0 else n);
          n = (if n \<ge> int (g_num e) then int (g_num e) - 1 else n) in nat (n + 1))"

text \<open>Ranges and single lines, \<open>n,m p\<close> and \<open>n\<close>.\<close>

definition cmd_range :: "'o calls \<Rightarrow> editor \<Rightarrow> u8 list \<Rightarrow> 'o \<Rightarrow> 'o" where
  "cmd_range k e ln o1 =
     (case take_num 0 ln of (n, rest) \<Rightarrow>
        if rest \<noteq> [] \<and> hd rest = 44 then
          case take_num 0 (tl rest) of (m, rest2) \<Rightarrow>
            let rest2 = dropWhile (\<lambda>c. c = 32) rest2 in
            if rest2 \<noteq> [] \<and> hd rest2 = 112 then
              if n < 1 \<or> m > int (g_num e) \<or> n > m then puts_e k (ascii ''Invalid range'' @ [10]) o1
              else list_range k e (n - 1) (m - 1) o1
            else puts_e k (ascii ''?'' @ [10]) o1
        else if rest = [] \<and> n \<ge> 1 \<and> n \<le> int (g_num e) then list_range k e (n - 1) (n - 1) o1
        else puts_e k (ascii ''?'' @ [10]) o1)"

text \<open>One command; \<open>None\<close> in the middle is the end of the program.\<close>

definition ed_command :: "'o calls \<Rightarrow> u8 list \<Rightarrow> editor \<Rightarrow> u8 list \<Rightarrow> 'o \<Rightarrow> (editor option \<times> 'o) option" where
  "ed_command k path e ln o1 =
     (let go = (\<lambda>o1. Some (Some e, o1)) in
      if ln = [] then go (print_lines k e o1)
      else if ln = ascii ''q'' then
        if g_dirty e then go (puts_e k (ascii ''Unsaved changes. Use Q to force quit.'' @ [10]) o1) else Some (None, o1)
      else if ln = ascii ''Q'' then Some (None, o1)
      else if ln = ascii ''w'' then
        case save_file k path e o1 of (r, e, o1) \<Rightarrow>
          Some (Some e, puts_e k (ascii (if r < 0 then ''Save failed'' else ''Saved.'') @ [10]) o1)
      else if ln = ascii ''p'' then go (print_lines k e o1)
      else if ln = ascii ''h'' then go (help_u k o1)
      else if hd ln = 105 then map_option (apfst Some) (cmd_insert k e (insert_at e ln) o1)
      else if hd ln = 97 then map_option (apfst Some) (cmd_insert k e (append_at e ln) o1)
      else if hd ln = 100 then
        let v = fst (take_num 0 (dropWhile (\<lambda>c. c = 32) (tl ln))) in
        if v < 1 \<or> v > int (g_num e) then go (puts_e k (ascii ''Invalid line'' @ [10]) o1)
        else (case delete_line k e (v - 1) o1 of (e, o1) \<Rightarrow> Some (Some e, o1))
      else go (cmd_range k e ln o1))"

text \<open>The loop of \<open>main\<close>, for \<open>n\<close> commands.\<close>

fun ed_loop :: "nat \<Rightarrow> 'o calls \<Rightarrow> u8 list \<Rightarrow> editor \<Rightarrow> 'o \<Rightarrow> (editor option \<times> 'o) option" where
  "ed_loop 0 k path e o1 = Some (Some e, o1)"
| "ed_loop (Suc n) k path e o1 = do {
     (ln, o1) \<leftarrow> readline_u k LINE_MAX (puts_e k (ascii ''edit> '') o1);
     (r, o1) \<leftarrow> ed_command k path e ln o1;
     (case r of None \<Rightarrow> Some (None, o1) | Some e \<Rightarrow> ed_loop n k path e o1) }"

text \<open>\<open>arg\<close> is the argument of the program, empty when there is none.\<close>

definition ed_main :: "nat \<Rightarrow> 'o calls \<Rightarrow> u8 list \<Rightarrow> 'o \<Rightarrow> (editor option \<times> 'o) option" where
  "ed_main n k arg o1 = do {
     (path, o1) \<leftarrow> (if arg = [] then readline_u k 64 (puts_e k (ascii ''File: '') o1) else Some (arg, o1));
     if path = [] then Some (None, o1)
     else do {
       (r, o1) \<leftarrow> read_file k path o1;
       (case r of
          Inl _ \<Rightarrow> ed_loop n k path \<lparr>g_lines = [], g_dirty = False\<rparr> (puts_e k (ascii ''(new file)'' @ [10]) o1)
        | Inr ls \<Rightarrow> ed_loop n k path \<lparr>g_lines = ls, g_dirty = False\<rparr>
            (puts_e k (ascii '' ---'' @ [10]) (puts_e k path (puts_e k (ascii ''--- '') o1)))) } }"

end
