(* ===== verification/EditSpec.thy ===== *)
theory EditSpec
  imports Edit
begin

text \<open>
  What the editor keeps and promises: at most 512 lines of less than 256 characters, lines that go in and out
  where they should, and a text that comes back from the disk as it was saved.
\<close>

section \<open>The invariant\<close>

definition line_fits :: "u8 list \<Rightarrow> bool" where "line_fits l \<longleftrightarrow> length l < LINE_MAX \<and> 0 \<notin> set l \<and> 10 \<notin> set l"

definition editor_ok :: "editor \<Rightarrow> bool" where
  "editor_ok e \<longleftrightarrow> g_num e \<le> MAX_LINES \<and> (\<forall>l \<in> set (g_lines e). line_fits l)"

text \<open>What a line of the user looks like.\<close>

lemma readline_from_fits:
  assumes "readline_from k mx acc o1 = Some r" "length acc < mx" "10 \<notin> set acc"
  shows "length (fst r) < mx \<and> 0 \<notin> set (fst r) \<and> 10 \<notin> set (fst r)"
proof -
  have "length acc < mx \<longrightarrow> 10 \<notin> set acc \<longrightarrow> length (fst r) < mx \<and> 0 \<notin> set (fst r) \<and> 10 \<notin> set (fst r)"
  proof (rule readline_from.raw_induct [where P = "\<lambda>k mx acc o1 r. length acc < mx \<longrightarrow> 10 \<notin> set acc \<longrightarrow>
      length (fst r) < mx \<and> 0 \<notin> set (fst r) \<and> 10 \<notin> set (fst r)", OF _ assms(1)])
    fix f :: "'a calls \<Rightarrow> nat \<Rightarrow> u8 list \<Rightarrow> 'a \<Rightarrow> (u8 list \<times> 'a) option" and k mx acc o1 r
    assume hyps: "\<And>k mx acc o1 r. f k mx acc o1 = Some r \<Longrightarrow> length acc < mx \<longrightarrow> 10 \<notin> set acc \<longrightarrow>
        length (fst r) < mx \<and> 0 \<notin> set (fst r) \<and> 10 \<notin> set (fst r)"
      and step: "(case c_read k 0 1 o1 of (r, o1) \<Rightarrow>
        case r of None \<Rightarrow> f k mx acc o1
        | Some ds \<Rightarrow>
            if length ds \<noteq> 1 then f k mx acc o1
            else if hd ds = 10 then Some (takeWhile (\<lambda>c. c \<noteq> 0) acc, putc k 10 o1)
            else if hd ds = 8 then if acc \<noteq> [] then f k mx (butlast acc) (putc k 8 o1) else f k mx acc o1
            else if length acc < mx - 1 then f k mx (acc @ [hd ds]) (putc k (hd ds) o1)
            else f k mx acc o1) = Some r"
    have tw: "length (takeWhile (\<lambda>c. c \<noteq> 0) xs) \<le> length xs" "0 \<notin> set (takeWhile (\<lambda>c. c \<noteq> 0) xs)"
      "10 \<notin> set xs \<Longrightarrow> 10 \<notin> set (takeWhile (\<lambda>c. c \<noteq> 0) xs)" for xs :: "u8 list"
      by (auto simp: length_takeWhile_le dest: set_takeWhileD)
    obtain d o2 where d: "c_read k 0 1 o1 = (d, o2)" by (cases "c_read k 0 1 o1")
    show "length acc < mx \<longrightarrow> 10 \<notin> set acc \<longrightarrow> length (fst r) < mx \<and> 0 \<notin> set (fst r) \<and> 10 \<notin> set (fst r)"
    proof (intro impI)
      assume a: "length acc < mx" "10 \<notin> set acc"
      have "(\<exists>xs o3. f k mx xs o3 = Some r \<and> length xs < mx \<and> 10 \<notin> set xs) \<or> fst r = takeWhile (\<lambda>c. c \<noteq> 0) acc"
      proof (cases "d = None \<or> length (the d) \<noteq> 1")
        case True
        then show ?thesis using step a unfolding d by (auto split: option.splits)
      next
        case False
        then obtain c where c: "d = Some [c]" by (auto simp: length_Suc_conv)
        have "10 \<notin> set (butlast acc)" "length (butlast acc) < mx" using a by (auto dest: in_set_butlastD)
        then show ?thesis using step a unfolding d c
          by (cases "c = 10"; cases "c = 8"; cases "acc = []"; cases "length acc < mx - 1") (fastforce split: if_splits)+
      qed
      then consider (more) xs o3 where "f k mx xs o3 = Some r" "length xs < mx" "10 \<notin> set xs" | (end_line) "fst r = takeWhile (\<lambda>c. c \<noteq> 0) acc"
        by blast
      then show "length (fst r) < mx \<and> 0 \<notin> set (fst r) \<and> 10 \<notin> set (fst r)"
      proof cases
        case more
        then show ?thesis using hyps [OF more(1)] by blast
      next
        case end_line
        then show ?thesis using tw(1) [of acc] tw(2) [of acc] tw(3) [OF a(2)] a(1) by simp
      qed
    qed
  qed
  then show ?thesis using assms(2,3) by blast
qed

lemma readline_u_fits: "readline_u k LINE_MAX o1 = Some (ln, o2) \<Longrightarrow> line_fits ln"
  using readline_from_fits [of k LINE_MAX "[]" o1 "(ln, o2)"] by (simp add: readline_u_def line_fits_def LINE_MAX_def)

lemma length_lines_up [simp]: "length (lines_up ls i a) = length ls"
  by (induction ls i a rule: lines_up.induct) simp_all

lemma nth_lines_up:
  "i < length ls \<Longrightarrow> j < length ls \<Longrightarrow> lines_up ls i a ! j = (if a < j \<and> j \<le> i then ls ! (j - 1) else ls ! j)"
proof (induction i arbitrary: ls)
  case (Suc i)
  show ?case
  proof (cases "a < Suc i")
    case True
    then show ?thesis using Suc.IH [of "ls[Suc i := ls ! i]"] Suc.prems by (auto simp: nth_list_update le_Suc_eq)
  qed (use Suc.prems in auto)
qed simp

lemma put_line_lines:
  assumes "a \<le> g_num e"
  shows "g_lines (put_line e a ln) = take a (g_lines e) @ [ln] @ drop a (g_lines e)" "g_num (put_line e a ln) = g_num e + 1"
proof -
  let ?ls = "g_lines e @ [[]]"
  show "g_lines (put_line e a ln) = take a (g_lines e) @ [ln] @ drop a (g_lines e)"
  proof (rule nth_equalityI)
    fix j assume "j < length (g_lines (put_line e a ln))"
    then have j: "j < length ?ls" by (simp add: put_line_def)
    have "lines_up ?ls (g_num e) a ! j = (if a < j \<and> j \<le> g_num e then ?ls ! (j - 1) else ?ls ! j)"
      using nth_lines_up [of "g_num e" ?ls j a] j by (simp add: g_num_def)
    then show "g_lines (put_line e a ln) ! j = (take a (g_lines e) @ [ln] @ drop a (g_lines e)) ! j"
      using j assms by (auto simp: put_line_def nth_list_update nth_append g_num_def nth_Cons' min_def)
  qed (use assms in \<open>simp add: put_line_def g_num_def\<close>)
  show "g_num (put_line e a ln) = g_num e + 1" by (simp add: put_line_def g_num_def)
qed

lemma lines_down:
  "m < length ls \<Longrightarrow> j < length ls \<Longrightarrow>
   length (fold (\<lambda>i ls. ls[i := ls ! (i + 1)]) [n..<m] ls) = length ls \<and>
   fold (\<lambda>i ls. ls[i := ls ! (i + 1)]) [n..<m] ls ! j = (if n \<le> j \<and> j < m then ls ! (j + 1) else ls ! j)"
proof (induction m arbitrary: j)
  case (Suc m)
  show ?case
  proof (cases "n \<le> m")
    case True
    then show ?thesis using Suc.IH [of j] Suc.IH [of "m + 1"] Suc.prems by (auto simp: nth_list_update less_Suc_eq)
  qed (use Suc.prems in auto)
qed simp

lemma drop_line_lines:
  assumes "n < g_num e"
  shows "g_lines (drop_line e n) = take n (g_lines e) @ drop (n + 1) (g_lines e)" "g_dirty (drop_line e n)"
proof -
  let ?m = "g_num e - 1"
  have m: "?m < length (g_lines e)" using assms by (simp add: g_num_def)
  show "g_lines (drop_line e n) = take n (g_lines e) @ drop (n + 1) (g_lines e)"
  proof (rule nth_equalityI)
    show "length (g_lines (drop_line e n)) = length (take n (g_lines e) @ drop (n + 1) (g_lines e))"
      using assms lines_down [OF m m, of n] by (simp add: drop_line_def g_num_def)
    fix j assume "j < length (g_lines (drop_line e n))"
    then have j: "j < ?m" using lines_down [OF m m, of n] by (simp add: drop_line_def g_num_def)
    then show "g_lines (drop_line e n) ! j = (take n (g_lines e) @ drop (n + 1) (g_lines e)) ! j"
      using lines_down [OF m, of j n] assms m by (auto simp: drop_line_def nth_butlast g_num_def nth_append min_def)
  qed
qed (simp add: drop_line_def)

text \<open>What comes in at one place, with everything else as it was.\<close>

lemma insert_lines_result:
  assumes "insert_lines k e a o1 = Some r" "a \<le> g_num e" "editor_ok e"
  shows "\<exists>new. g_lines (fst r) = take a (g_lines e) @ new @ drop a (g_lines e) \<and> g_dirty (fst r) \<and> editor_ok (fst r)"
proof -
  have "a \<le> g_num e \<longrightarrow> editor_ok e \<longrightarrow>
      (\<exists>new. g_lines (fst r) = take a (g_lines e) @ new @ drop a (g_lines e) \<and> g_dirty (fst r) \<and> editor_ok (fst r))"
  proof (rule insert_lines.raw_induct [where P = "\<lambda>k e a o1 r. a \<le> g_num e \<longrightarrow> editor_ok e \<longrightarrow>
      (\<exists>new. g_lines (fst r) = take a (g_lines e) @ new @ drop a (g_lines e) \<and> g_dirty (fst r) \<and> editor_ok (fst r))", OF _ assms(1)])
    fix f :: "'a calls \<Rightarrow> editor \<Rightarrow> nat \<Rightarrow> 'a \<Rightarrow> (editor \<times> 'a) option" and k e a o1 r
    assume hyps: "\<And>k e a o1 r. f k e a o1 = Some r \<Longrightarrow> a \<le> g_num e \<longrightarrow> editor_ok e \<longrightarrow>
      (\<exists>new. g_lines (fst r) = take a (g_lines e) @ new @ drop a (g_lines e) \<and> g_dirty (fst r) \<and> editor_ok (fst r))"
      and step: "do { (ln, o1) \<leftarrow> readline_u k LINE_MAX (puts_e k (ascii ''> '') o1);
        if ln = ascii ''.'' then Some (e\<lparr>g_dirty := True\<rparr>, o1)
        else if g_num e \<ge> MAX_LINES then Some (e\<lparr>g_dirty := True\<rparr>, puts_e k (ascii ''Buffer full'' @ [10]) o1)
        else f k (put_line e a ln) (a + 1) o1 } = Some r"
    show "a \<le> g_num e \<longrightarrow> editor_ok e \<longrightarrow>
      (\<exists>new. g_lines (fst r) = take a (g_lines e) @ new @ drop a (g_lines e) \<and> g_dirty (fst r) \<and> editor_ok (fst r))"
    proof (intro impI)
      assume a: "a \<le> g_num e" "editor_ok e"
      obtain ln o2 where ln: "readline_u k LINE_MAX (puts_e k (ascii ''> '') o1) = Some (ln, o2)"
        "(if ln = ascii ''.'' then Some (e\<lparr>g_dirty := True\<rparr>, o2)
          else if MAX_LINES \<le> g_num e then Some (e\<lparr>g_dirty := True\<rparr>, puts_e k (ascii ''Buffer full'' @ [10]) o2)
          else f k (put_line e a ln) (a + 1) o2) = Some r"
        using step by (auto split: bind_splits)
      show "\<exists>new. g_lines (fst r) = take a (g_lines e) @ new @ drop a (g_lines e) \<and> g_dirty (fst r) \<and> editor_ok (fst r)"
      proof (cases "ln = ascii ''.'' \<or> MAX_LINES \<le> g_num e")
        case True
        then have "g_lines (fst r) = g_lines e \<and> g_dirty (fst r)" using ln(2) by (auto split: if_splits)
        then show ?thesis using a(2) by (intro exI [of _ "[]"]) (simp add: editor_ok_def g_num_def)
      next
        case False
        note p = put_line_lines [OF a(1), of ln]
        have "editor_ok (put_line e a ln)" using a(2) False readline_u_fits [OF ln(1)]
          by (auto simp: editor_ok_def p dest: in_set_takeD in_set_dropD)
        moreover have "f k (put_line e a ln) (a + 1) o2 = Some r" using False ln(2) by (simp split: if_splits)
        ultimately obtain new where new: "g_lines (fst r) = take (a + 1) (g_lines (put_line e a ln)) @ new @ drop (a + 1) (g_lines (put_line e a ln))"
          "g_dirty (fst r)" "editor_ok (fst r)"
          using hyps [of k "put_line e a ln" "a + 1" o2 r] a(1) p(2) by auto
        have "a \<le> length (g_lines e)" using a(1) by (simp add: g_num_def)
        then have "g_lines (fst r) = take a (g_lines e) @ (ln # new) @ drop a (g_lines e)" using new(1) by (simp add: p(1) min_def)
        then show ?thesis using new by blast
      qed
    qed
  qed
  then show ?thesis using assms(2,3) by blast
qed

section \<open>Files\<close>

definition file_text :: "u8 list list \<Rightarrow> u8 list" where "file_text ls = concat (map (\<lambda>l. l @ [10]) ls)"

lemma scan_chars:
  "length ls < MAX_LINES \<Longrightarrow> 0 \<notin> set l \<Longrightarrow> 10 \<notin> set l \<Longrightarrow> length cur + length l < LINE_MAX \<Longrightarrow>
   scan_lines (l @ rest) ls cur = scan_lines rest ls (cur @ l)"
proof (induction l arbitrary: cur)
  case (Cons c l)
  have "length cur < LINE_MAX - 1" using Cons.prems(4) by simp
  then show ?case using Cons.IH [of "cur @ [c]"] Cons.prems by simp
qed simp

lemma scan_text:
  "\<forall>l \<in> set ls. line_fits l \<Longrightarrow> length pre + length ls \<le> MAX_LINES \<Longrightarrow> scan_lines (file_text ls) pre [] = (pre @ ls, [])"
proof (induction ls arbitrary: pre)
  case (Cons l ls)
  then have "scan_lines (l @ 10 # file_text ls) pre [] = scan_lines (10 # file_text ls) pre l"
    by (subst scan_chars) (simp_all add: line_fits_def)
  then show ?case using Cons.IH [of "pre @ [l]"] Cons.prems by (simp add: file_text_def)
qed (simp add: file_text_def)

text \<open>A full buffer of 512 lines cannot be read back: the end of its last line is taken for line 513.\<close>

lemma parse_file_text:
  assumes "\<forall>l \<in> set ls. line_fits l" "length ls \<le> MAX_LINES"
  shows "parse_lines (file_text ls) = (if length ls < MAX_LINES then Some ls else None)"
proof -
  have "scan_lines (file_text ls) [] [] = (ls, [])" using scan_text [of ls "[]"] assms by simp
  moreover have "ls \<noteq> [] \<Longrightarrow> file_text ls \<noteq> [] \<and> last (file_text ls) = 10"
    by (induction ls) (auto simp: file_text_def)
  moreover have "MAX_LINES > 0" by (simp add: MAX_LINES_def)
  ultimately show ?thesis by (cases "ls = []") (auto simp: parse_lines_def file_text_def)
qed

lemma scan_fits:
  "scan_lines buf ls cur = (ls', cur') \<Longrightarrow> \<forall>l \<in> set ls. line_fits l \<Longrightarrow> line_fits cur \<Longrightarrow> length ls \<le> MAX_LINES \<Longrightarrow>
   (\<forall>l \<in> set ls'. line_fits l) \<and> line_fits cur' \<and> length ls' \<le> MAX_LINES"
proof (induction buf ls cur rule: scan_lines.induct)
  case (2 c cs ls cur)
  have "line_fits []" by (simp add: line_fits_def LINE_MAX_def)
  moreover have "c \<noteq> 0 \<Longrightarrow> c \<noteq> 10 \<Longrightarrow> length cur < LINE_MAX - 1 \<Longrightarrow> line_fits (cur @ [c])" using "2.prems"(3) by (auto simp: line_fits_def)
  ultimately show ?case using 2 by (auto split: if_splits)
qed simp

lemma parse_lines_ok: "parse_lines buf = Some ls \<Longrightarrow> editor_ok \<lparr>g_lines = ls, g_dirty = d\<rparr>"
proof -
  assume p: "parse_lines buf = Some ls"
  obtain ls1 cur where s: "scan_lines buf [] [] = (ls1, cur)" by (cases "scan_lines buf [] []")
  have f: "(\<forall>l \<in> set ls1. line_fits l) \<and> line_fits cur \<and> length ls1 \<le> MAX_LINES"
    using scan_fits [OF s] by (simp add: line_fits_def LINE_MAX_def)
  then show ?thesis using p s by (auto simp: parse_lines_def editor_ok_def g_num_def split: if_splits)
qed

section \<open>Commands and sessions\<close>

lemma ed_command_ok:
  assumes "editor_ok e" "ed_command k path e ln o1 = Some (Some e', o2)"
  shows "editor_ok e'"
proof -
  have ins: "editor_ok e'" if "cmd_insert k e a o1 = Some (e', o2)" "a \<le> g_num e" for a
    using insert_lines_result [OF that(1) [unfolded cmd_insert_def] that(2) assms(1)] by auto
  have at: "insert_at e ln \<le> g_num e" "append_at e ln \<le> g_num e"
    by (auto simp: insert_at_def append_at_def Let_def)
  have del: "editor_ok (fst (delete_line k e v o1))" for v
    using assms(1) drop_line_lines [of "nat v" e]
    by (auto simp: delete_line_def editor_ok_def g_num_def) (blast dest: in_set_takeD in_set_dropD)+
  have save: "editor_ok (fst (snd (save_file k path e o1)))"
    using assms(1) by (simp add: save_file_def editor_ok_def g_num_def Let_def split: prod.splits)
  have del: "delete_line k e v o1 = (e', o2) \<Longrightarrow> editor_ok e'" for v using del [of v] by simp
  show ?thesis using assms ins at del save unfolding ed_command_def Let_def
    by (auto split: if_splits prod.splits)
qed

lemma ed_loop_ok: "ed_loop n k path e o1 = Some (Some e', o2) \<Longrightarrow> editor_ok e \<Longrightarrow> editor_ok e'"
proof (induction n arbitrary: e o1)
  case (Suc n)
  then obtain ln o3 q o4 where q: "ed_command k path e ln o3 = Some (q, o4)"
    "(case q of None \<Rightarrow> Some (None, o4) | Some e \<Rightarrow> ed_loop n k path e o4) = Some (Some e', o2)"
    by (auto split: bind_splits)
  then show ?case using Suc.IH ed_command_ok [OF Suc.prems(2), of k path ln o3] by (cases q) auto
qed simp

section \<open>Properties\<close>

text \<open>A system to run on: files by name, the open files, and what is typed.\<close>

record store =
  s_files :: "u8 list \<Rightarrow> u8 list option"
  s_fds :: "int \<Rightarrow> (u8 list \<times> nat) option"
  s_keys :: "u8 list"

text \<open>
  What the editor relies on of the system calls: creating a file makes it empty, a write to a file appends at the end, a read
  goes on where the last one stopped. \<open>cont\<close> and \<open>fds\<close> are the contents of the files and the positions of the open ones.
\<close>

definition file_store :: "'o calls \<Rightarrow> ('o \<Rightarrow> u8 list \<Rightarrow> u8 list option) \<Rightarrow> ('o \<Rightarrow> int \<Rightarrow> (u8 list \<times> nat) option) \<Rightarrow> bool" where
  "file_store k cont fds \<longleftrightarrow>
     (\<forall>p s. let (fd, s') = c_create k p s in fd \<ge> 0 \<longrightarrow> cont s' = (cont s)(p := Some []) \<and> fds s' fd = Some (p, 0)) \<and>
     (\<forall>p s d. cont s p = Some d \<longrightarrow> (let (fd, s') = c_open k p s in fd \<ge> 0 \<and> cont s' = cont s \<and> fds s' fd = Some (p, 0))) \<and>
     (\<forall>fd b s p d. fds s fd = Some (p, length d) \<longrightarrow> cont s p = Some d \<longrightarrow>
        cont (c_write k fd b s) = (cont s)(p := Some (d @ b)) \<and> fds (c_write k fd b s) fd = Some (p, length (d @ b))) \<and>
     (\<forall>fd n s p d pos. fds s fd = Some (p, pos) \<longrightarrow> cont s p = Some d \<longrightarrow>
        (let (r, s') = c_read k fd n s; ds = take n (drop pos d)
         in r = Some ds \<and> cont s' = cont s \<and> fds s' fd = Some (p, pos + length ds))) \<and>
     (\<forall>fd s. cont (c_close k fd s) = cont s)"

lemma file_storeD:
  assumes "file_store k cont fds"
  shows "c_create k p s = (fd, s') \<Longrightarrow> fd \<ge> 0 \<Longrightarrow> cont s' = (cont s)(p := Some []) \<and> fds s' fd = Some (p, 0)"
    "c_open k p s = (fd, s') \<Longrightarrow> cont s p = Some d \<Longrightarrow> fd \<ge> 0 \<and> cont s' = cont s \<and> fds s' fd = Some (p, 0)"
    "fds s fd = Some (p, length d) \<Longrightarrow> cont s p = Some d \<Longrightarrow>
       cont (c_write k fd b s) = (cont s)(p := Some (d @ b)) \<and> fds (c_write k fd b s) fd = Some (p, length (d @ b))"
    "fds s fd = Some (p, pos) \<Longrightarrow> cont s p = Some d \<Longrightarrow> c_read k fd n s = (rs, s') \<Longrightarrow>
       rs = Some (take n (drop pos d)) \<and> cont s' = cont s \<and> fds s' fd = Some (p, pos + length (take n (drop pos d)))"
    "cont (c_close k fd s) = cont s"
proof -
  note f = assms [unfolded file_store_def]
  show "c_create k p s = (fd, s') \<Longrightarrow> fd \<ge> 0 \<Longrightarrow> cont s' = (cont s)(p := Some []) \<and> fds s' fd = Some (p, 0)"
    using f [THEN conjunct1, rule_format, of p s] by simp
  show "c_open k p s = (fd, s') \<Longrightarrow> cont s p = Some d \<Longrightarrow> fd \<ge> 0 \<and> cont s' = cont s \<and> fds s' fd = Some (p, 0)"
    using f [THEN conjunct2, THEN conjunct1, rule_format, of s p d] by simp
  show "fds s fd = Some (p, length d) \<Longrightarrow> cont s p = Some d \<Longrightarrow>
       cont (c_write k fd b s) = (cont s)(p := Some (d @ b)) \<and> fds (c_write k fd b s) fd = Some (p, length (d @ b))"
    using f [THEN conjunct2, THEN conjunct2, THEN conjunct1, rule_format, of s fd p d b] by simp
  show "fds s fd = Some (p, pos) \<Longrightarrow> cont s p = Some d \<Longrightarrow> c_read k fd n s = (rs, s') \<Longrightarrow>
       rs = Some (take n (drop pos d)) \<and> cont s' = cont s \<and> fds s' fd = Some (p, pos + length (take n (drop pos d)))"
    using f [THEN conjunct2, THEN conjunct2, THEN conjunct2, THEN conjunct1, rule_format, of s fd p pos d n] by (simp add: Let_def)
  show "cont (c_close k fd s) = cont s"
    using f [THEN conjunct2, THEN conjunct2, THEN conjunct2, THEN conjunct2, rule_format, of fd s] .
qed

lemma write_lines:
  assumes "file_store k cont fds" "fds s fd = Some (p, length d)" "cont s p = Some d"
  shows "cont (foldl (\<lambda>s l. c_write k fd [10] (c_write k fd l s)) s ls) p = Some (d @ file_text ls)"
  using assms(2,3)
proof (induction ls arbitrary: s d)
  case (Cons l ls)
  note w = file_storeD(3) [OF assms(1)]
  have 1: "cont (c_write k fd l s) p = Some (d @ l)" "fds (c_write k fd l s) fd = Some (p, length (d @ l))"
    using w [OF Cons.prems, of l] by simp_all
  have 2: "cont (c_write k fd [10] (c_write k fd l s)) p = Some (d @ l @ [10])"
    "fds (c_write k fd [10] (c_write k fd l s)) fd = Some (p, length (d @ l @ [10]))"
    using w [OF 1(2,1), of "[10]"] by simp_all
  show ?case using Cons.IH [OF 2(2,1)] by (simp add: file_text_def)
qed (simp add: file_text_def)

lemma read_all_store:
  assumes "file_store k cont fds" "cont s p = Some d" "length d < BUF_SIZE" "fds s fd = Some (p, pos)" "pos \<le> length d"
    "acc = take pos d"
  shows "fst (read_all k fd acc s) = d"
  using assms(2,4-)
proof (induction "length d - pos" arbitrary: acc s pos rule: less_induct)
  case less
  show ?case
  proof (cases "length acc < BUF_SIZE - 1")
    case True
    obtain rs s' where rs: "c_read k fd (BUF_SIZE - 1 - length acc) s = (rs, s')" by (cases "c_read k fd (BUF_SIZE - 1 - length acc) s")
    note rd = file_storeD(4) [OF assms(1) less.prems(2,1) rs]
    let ?ds = "take (BUF_SIZE - 1 - length acc) (drop pos d)"
    show ?thesis
    proof (cases "?ds = []")
      case True
      then have "pos = length d" using \<open>length acc < BUF_SIZE - 1\<close> less.prems(3) by auto
      then show ?thesis using rs rd True \<open>length acc < BUF_SIZE - 1\<close> less.prems(4) by (subst read_all.simps) simp
    next
      case False
      have "take (pos + length ?ds) d = take pos d @ ?ds" by (simp add: take_add min_def)
      then have "fst (read_all k fd (acc @ ?ds) s') = d"
        using less.hyps [of "pos + length ?ds" s' "acc @ ?ds"] False rd less.prems by (auto simp: min_def split: if_splits)
      then show ?thesis using rs rd False True by (subst read_all.simps) simp
    qed
  next
    case False
    then have "pos = length d" using less.prems(3,4) assms(3) by (simp add: min_def split: if_splits)
    then show ?thesis using False less.prems(4) by (subst read_all.simps) simp
  qed
qed


text \<open>The store as a system: descriptor 3 is the file that is open.\<close>

definition store_calls :: "store calls" where
  "store_calls = \<lparr>
     c_open = (\<lambda>p s. if s_files s p = None then (- 1, s) else (3, s\<lparr>s_fds := (s_fds s)(3 := Some (p, 0))\<rparr>)),
     c_create = (\<lambda>p s. (3, s\<lparr>s_files := (s_files s)(p := Some []), s_fds := (s_fds s)(3 := Some (p, 0))\<rparr>)),
     c_read = (\<lambda>fd n s.
       if fd = 0 then (if s_keys s = [] then (None, s) else (Some (take 1 (s_keys s)), s\<lparr>s_keys := drop 1 (s_keys s)\<rparr>))
       else case s_fds s fd of None \<Rightarrow> (None, s)
         | Some (p, pos) \<Rightarrow> (case s_files s p of None \<Rightarrow> (None, s)
             | Some d \<Rightarrow> (Some (take n (drop pos d)), s\<lparr>s_fds := (s_fds s)(fd := Some (p, pos + length (take n (drop pos d))))\<rparr>))),
     c_write = (\<lambda>fd b s.
       case s_fds s fd of None \<Rightarrow> s
         | Some (p, pos) \<Rightarrow> (case s_files s p of None \<Rightarrow> s
             | Some d \<Rightarrow> s\<lparr>s_files := (s_files s)(p := Some (take pos d @ b)), s_fds := (s_fds s)(fd := Some (p, pos + length b))\<rparr>)),
     c_close = (\<lambda>fd s. s\<lparr>s_fds := (s_fds s)(fd := None)\<rparr>),
     c_mapped = True\<rparr>"

definition store_empty :: store where "store_empty = \<lparr>s_files = (\<lambda>_. None), s_fds = (\<lambda>_. None), s_keys = []\<rparr>"

lemma store_calls_ok: "file_store store_calls s_files (\<lambda>s. (s_fds s)(0 := None))"
  by (simp add: file_store_def store_calls_def Let_def)


text \<open>
  In any session the text has at most 512 lines, and a line has less than 256 characters, none of them a zero or the end of a
  line: no command leaves the array of the lines.
\<close>

theorem edit_session_ok:
  assumes "ed_main n k arg s = Some (Some e, s')"
  shows "editor_ok e"
proof -
  obtain path s1 q s2 where q: "read_file k path s1 = Some (q, s2)"
    "(case q of
        Inl _ \<Rightarrow> ed_loop n k path \<lparr>g_lines = [], g_dirty = False\<rparr> (puts_e k (ascii ''(new file)'' @ [10]) s2)
      | Inr ls \<Rightarrow> ed_loop n k path \<lparr>g_lines = ls, g_dirty = False\<rparr>
            (puts_e k (ascii '' ---'' @ [10]) (puts_e k path (puts_e k (ascii ''--- '') s2)))) = Some (Some e, s')"
    using assms unfolding ed_main_def by (auto split: bind_splits if_splits)
  show ?thesis
  proof (cases q)
    case (Inl u)
    have "editor_ok \<lparr>g_lines = [], g_dirty = False\<rparr>" by (simp add: editor_ok_def g_num_def)
    then show ?thesis using q(2) ed_loop_ok unfolding Inl by fastforce
  next
    case (Inr ls)
    then obtain buf where "parse_lines buf = Some ls" using q(1) by (auto simp: read_file_def split: if_splits prod.splits bind_splits)
    then show ?thesis using q(2) ed_loop_ok [OF _ parse_lines_ok] unfolding Inr by fastforce
  qed
qed

text \<open>A session that types \<open>a\<close>, the line \<open>x\<close> and the dot.\<close>

lemma store_readline:
  "readline_from store_calls mx acc (s\<lparr>s_keys := c # ks\<rparr>) =
     (if c = 10 then Some (takeWhile (\<lambda>c. c \<noteq> 0) acc, putc store_calls 10 (s\<lparr>s_keys := ks\<rparr>))
      else if c = 8 then
        if acc \<noteq> [] then readline_from store_calls mx (butlast acc) (putc store_calls 8 (s\<lparr>s_keys := ks\<rparr>))
        else readline_from store_calls mx acc (s\<lparr>s_keys := ks\<rparr>)
      else if length acc < mx - 1 then readline_from store_calls mx (acc @ [c]) (putc store_calls c (s\<lparr>s_keys := ks\<rparr>))
      else readline_from store_calls mx acc (s\<lparr>s_keys := ks\<rparr>))"
  by (subst readline_from.simps) (simp add: store_calls_def)

lemma store_screen: "s_fds s 1 = None \<Longrightarrow> putc store_calls c s = s" "s_fds s 1 = None \<Longrightarrow> puts_e store_calls b s = s"
  by (simp_all add: putc_def puts_e_def store_calls_def)

lemma edit_session_ok_witness:
  "\<exists>e s'. ed_main 1 store_calls [97] (store_empty\<lparr>s_keys := [97, 10, 120, 10, 46, 10]\<rparr>) = Some (Some e, s') \<and>
     g_lines e = [[120]] \<and> editor_ok e"
proof -
  let ?s = "\<lambda>ks. store_empty\<lparr>s_keys := ks\<rparr>"
  have scr: "putc store_calls c (?s ks) = ?s ks" "puts_e store_calls b (?s ks) = ?s ks" for c b ks
    by (simp_all add: store_screen store_empty_def)
  have rf: "read_file store_calls [97] (?s ks) = Some (Inl (), ?s ks)" for ks
    by (simp add: read_file_def store_calls_def store_empty_def)
  have rl: "readline_u store_calls LINE_MAX (?s (c # 10 # ks)) = Some ([c], ?s ks)" if "c \<noteq> 10" "c \<noteq> 8" "c \<noteq> 0" for c ks
    using that by (simp add: readline_u_def store_readline scr LINE_MAX_def)
  have ins: "insert_lines store_calls \<lparr>g_lines = [], g_dirty = False\<rparr> 0 (?s [120, 10, 46, 10]) = Some (\<lparr>g_lines = [[120]], g_dirty = True\<rparr>, ?s [])"
    by (subst insert_lines.simps, simp add: scr rl ascii_def g_num_def MAX_LINES_def put_line_def)
      (subst insert_lines.simps, simp add: scr rl ascii_def)
  obtain s' where s': "ed_main 1 store_calls [97] (?s [97, 10, 120, 10, 46, 10]) = Some (Some \<lparr>g_lines = [[120]], g_dirty = True\<rparr>, s')"
    using ins by (simp add: ed_main_def rf scr rl ed_command_def cmd_insert_def ascii_def append_at_def line_arg_def g_num_def Let_def)
  from edit_session_ok [OF s'] show ?thesis using s' by auto
qed

text \<open>The command \<open>i n\<close> puts_e the lines before line \<open>n\<close>, not behind it as its help says; \<open>a n\<close> puts_e them behind line \<open>n\<close>.\<close>

lemma edit_insert_before:
  assumes "take_num 0 (drop 2 ln) = (v, rest)" "length ln > 1" "ln ! 1 = 32" "1 \<le> v" "v \<le> int (g_num e)" "v < 2 ^ 31"
  shows "insert_at e ln = nat v - 1" "append_at e ln = nat v"
  using assms by (simp_all add: insert_at_def append_at_def line_arg_def Let_def int32_id nat_diff_distrib)

text \<open>An open file ends the program when nothing is mapped at its fixed buffer.\<close>

lemma edit_needs_buffer: "c_open k path s = (fd, s') \<Longrightarrow> fd \<ge> 0 \<Longrightarrow> \<not> c_mapped k \<Longrightarrow> read_file k path s = None"
  by (simp add: read_file_def)

end
