(* ===== verification/Interrupts.thy ===== *)
theory Interrupts
  imports Devices Sched Input Gpu
begin

text \<open>
  Segments, gates and interrupts: \<^verbatim>\<open>kernel/gdt.c\<close>, \<^verbatim>\<open>kernel/idt.c\<close> and \<^verbatim>\<open>kernel/isr.c\<close>. The addresses of the
  assembly stubs are parameters; what the processor reads out of a descriptor is defined next to the tables.
  The theorems run the interrupt handler with two emulated interrupt controllers.
\<close>

section \<open>Segments\<close>

record tss =
  rsp0 :: u64
  iomap_base :: u16

definition TSS_SIZE :: u32 where "TSS_SIZE = 104"

definition gdt_set_tss :: "u64 list \<Rightarrow> nat \<Rightarrow> u64 \<Rightarrow> u32 \<Rightarrow> u64 list" where
  "gdt_set_tss g i base limit =
     (let low = 0;
          low = low OR ucast (limit AND 0xFFFF);
          low = low OR push_bit 16 (base AND 0xFFFFFF);
          low = low OR push_bit 40 0x89;
          low = low OR push_bit 48 (ucast (drop_bit 16 limit AND 0xF));
          low = low OR push_bit 56 (drop_bit 24 base AND 0xFF)
      in g[i := low, i + 1 := drop_bit 32 base AND 0xFFFFFFFF])"

text \<open>The table of seven entries at \<open>gdt_at\<close>, the TSS at \<open>tss_at\<close>; \<open>stack_end\<close> is the end of the kernel's stack. The
  last component is what \<open>lgdt\<close> reads, limit and base.\<close>

definition gdt_init :: "u64 \<Rightarrow> u64 \<Rightarrow> u64 \<Rightarrow> u64 list \<times> tss \<times> u16 \<times> u64" where
  "gdt_init gdt_at tss_at stack_end =
     (let g = [0x0000000000000000, 0x00AF9A000000FFFF, 0x00AF92000000FFFF, 0x00AFFA000000FFFF, 0x00AFF2000000FFFF, 0, 0]
      in (gdt_set_tss g 5 tss_at (TSS_SIZE - 1), \<lparr>rsp0 = stack_end, iomap_base = ucast TSS_SIZE\<rparr>, 7 * 8 - 1, gdt_at))"

text \<open>What the processor takes out of a descriptor.\<close>

definition desc_limit :: "u64 \<Rightarrow> u64" where "desc_limit d = (d AND 0xFFFF) OR push_bit 16 (drop_bit 48 d AND 0xF)"
definition desc_base :: "u64 \<Rightarrow> u64 \<Rightarrow> u64" where
  "desc_base d d' = (drop_bit 16 d AND 0xFFFFFF) OR push_bit 24 (drop_bit 56 d AND 0xFF) OR push_bit 32 (d' AND 0xFFFFFFFF)"
definition desc_type :: "u64 \<Rightarrow> u64" where "desc_type d = drop_bit 40 d AND 0xFF"
definition desc_dpl :: "u64 \<Rightarrow> u64" where "desc_dpl d = drop_bit 45 d AND 3"
definition desc_long_code :: "u64 \<Rightarrow> bool" where "desc_long_code d \<longleftrightarrow> bit d 53 \<and> bit d 43 \<and> bit d 44"

section \<open>Gates\<close>

record idt_entry =
  offset_low :: u16
  selector :: u16
  ist :: u8
  type_attr :: u8
  offset_mid :: u16
  offset_high :: u32
  zero :: u32

definition idt_entry_zero :: idt_entry where
  "idt_entry_zero = \<lparr>offset_low = 0, selector = 0, ist = 0, type_attr = 0, offset_mid = 0, offset_high = 0, zero = 0\<rparr>"

definition idt_set :: "idt_entry list \<Rightarrow> nat \<Rightarrow> u64 \<Rightarrow> u8 \<Rightarrow> idt_entry list" where
  "idt_set g vec addr attr =
     g[vec := \<lparr>offset_low = ucast (addr AND 0xFFFF), selector = 0x08, ist = 0, type_attr = attr,
       offset_mid = ucast (drop_bit 16 addr AND 0xFFFF), offset_high = ucast (drop_bit 32 addr AND 0xFFFFFFFF), zero = 0\<rparr>]"

text \<open>\<open>isr_stub_table\<close>, \<open>irq_stub_table\<close> and \<open>int80_stub\<close> are addresses in the assembly code.\<close>

definition idt_init :: "(nat \<Rightarrow> u64) \<Rightarrow> (nat \<Rightarrow> u64) \<Rightarrow> u64 \<Rightarrow> idt_entry list \<Rightarrow> idt_entry list" where
  "idt_init isr_stub_table irq_stub_table int80_stub g =
     (let g = fold (\<lambda>i g. idt_set g i (isr_stub_table i) 0x8E) [0..<32] g;
          g = fold (\<lambda>i g. idt_set g (32 + i) (irq_stub_table i) 0x8E) [0..<16] g
      in idt_set g 128 int80_stub 0xEE)"

definition gate_address :: "idt_entry \<Rightarrow> u64" where
  "gate_address e = ucast (offset_low e) OR push_bit 16 (ucast (offset_mid e)) OR push_bit 32 (ucast (offset_high e))"
definition gate_present :: "idt_entry \<Rightarrow> bool" where "gate_present e \<longleftrightarrow> bit (type_attr e) 7"
definition gate_dpl :: "idt_entry \<Rightarrow> u8" where "gate_dpl e = drop_bit 5 (type_attr e) AND 3"

section \<open>Exceptions\<close>

record int_regs =
  r_r15 :: u64  r_r14 :: u64  r_r13 :: u64  r_r12 :: u64  r_r11 :: u64  r_r10 :: u64  r_r9 :: u64  r_r8 :: u64
  r_rbp :: u64  r_rdi :: u64  r_rsi :: u64  r_rdx :: u64  r_rcx :: u64  r_rbx :: u64  r_rax :: u64
  r_vector :: u64  r_error_code :: u64
  r_rip :: u64  r_cs :: u64  r_rflags :: u64  r_rsp :: u64  r_ss :: u64

definition g_exc_names :: "string list" where
  "g_exc_names =
     [''Divide-by-zero'', ''Debug'', ''NMI'', ''Breakpoint'', ''Overflow'', ''BOUND Range'', ''Invalid Opcode'', ''Device N/A'',
      ''Double Fault'', ''Coproc Overrun'', ''Invalid TSS'', ''Segment N/P'', ''Stack Fault'', ''General Protection'', ''Page Fault'',
      ''Reserved'', ''x87 FP'', ''Alignment Check'', ''Machine Check'', ''SIMD FP'', ''Virtualization'', ''Control Prot.'',
      ''Reserved'', ''Reserved'', ''Reserved'', ''Reserved'', ''Reserved'', ''Reserved'', ''Hypervisor'', ''VMM Comm'', ''Security'',
      ''Reserved'']"

definition exc_name :: "u64 \<Rightarrow> u8 list" where
  "exc_name v = (if v < 32 then map of_char (g_exc_names ! unat v) else [])"

text \<open>Sixteen hexadecimal digits.\<close>

definition hex16 :: "u64 \<Rightarrow> u8 list" where
  "hex16 v = fold (\<lambda>i acc. hex_chars ! unat (drop_bit (i * 4) v AND 0xF) # acc) [0..<16] []"

fun serial_all :: "'h ports \<Rightarrow> 'h \<Rightarrow> u8 list list \<Rightarrow> 'h option" where
  "serial_all io h [] = Some h"
| "serial_all io h (t # ts) = (case serial_print io h t of None \<Rightarrow> None | Some h \<Rightarrow> serial_all io h ts)"

definition exc_screen :: "int_regs \<Rightarrow> u64 \<Rightarrow> gpu \<Rightarrow> gpu" where
  "exc_screen r cr2 g =
     (let g = gpu_set_color g 0x0C 0x00;
          g = gpu_print g ([10] @ map of_char ''[EXCECAO] '');
          g = gpu_print g (exc_name (r_vector r));
          g = (if r_vector r = 14 then gpu_print (gpu_print g (map of_char '' addr='')) (hex16 cr2) else g);
          g = gpu_print g [10]
      in gpu_set_color g 0x0F 0x00)"

text \<open>The lines for the serial line; \<open>m\<close> is the memory at which the code of a page fault is read.\<close>

definition exc_serial :: "int_regs \<Rightarrow> u64 \<Rightarrow> mem \<Rightarrow> u8 list list" where
  "exc_serial r cr2 m =
     (let reg = (\<lambda>n v. [map of_char ('' '' @ n @ ''=''), serial_hex_text v]) in
      [map of_char ''[EXCECAO] '', exc_name (r_vector r)] @ reg ''err'' (r_error_code r) @ reg ''rip'' (r_rip r) @ reg ''rsp'' (r_rsp r) @
      reg ''rax'' (r_rax r) @ reg ''rbx'' (r_rbx r) @ reg ''rcx'' (r_rcx r) @ reg ''rbp'' (r_rbp r) @
      (if r_vector r = 14
       then reg ''cr2'' cr2 @ [map of_char '' code=''] @
         concat (map (\<lambda>i. [serial_hex_text (ucast (m (r_rip r + of_nat i))), [32]]) [0..<16])
       else []) @ [[10]])"

text \<open>The result tells whether the handler returns; every exception but a breakpoint stops the machine.\<close>

definition isr_handler :: "'h ports \<Rightarrow> u64 \<Rightarrow> mem \<Rightarrow> int_regs \<Rightarrow> gpu \<times> 'h \<Rightarrow> (bool \<times> gpu \<times> 'h) option" where
  "isr_handler io cr2 m r s =
     (case s of (g, h) \<Rightarrow>
        case serial_all io h (exc_serial r cr2 m) of
          None \<Rightarrow> None
        | Some h \<Rightarrow> Some (r_vector r = 3, exc_screen r cr2 g, h))"

section \<open>Hardware interrupts\<close>

text \<open>What the handlers work on; \<open>i_hw\<close> is the hardware behind the ports.\<close>

record 'h irq_state =
  i_sched :: sched
  i_kbd :: kbd
  i_mouse :: mouse
  i_hw :: 'h

text \<open>\<open>None\<close> is a loop over the tasks that does not end.\<close>

definition irq_handler :: "'h ports \<Rightarrow> u64 \<Rightarrow> 'h irq_state \<Rightarrow> 'h irq_state option" where
  "irq_handler io vec s =
     (let irq = int32 (sint (ucast vec :: u32) - 32) in
      if irq = 0 then
        let s = i_sched_update pit_tick s in
        (case scheduler_tick (i_sched s) of
           None \<Rightarrow> None
         | Some sc \<Rightarrow>
             let s = s\<lparr>i_sched := sc\<rparr>; s = s\<lparr>i_hw := pic_send_eoi io (i_hw s) irq\<rparr> in
             (case schedule (i_sched s) of None \<Rightarrow> None | Some sc \<Rightarrow> Some (s\<lparr>i_sched := sc\<rparr>)))
      else
        let s = (if irq = 1 then case keyboard_irq io (i_hw s) (i_kbd s) of (h, k) \<Rightarrow> s\<lparr>i_hw := h, i_kbd := k\<rparr>
                 else if irq = 12 then case mouse_irq io (i_hw s) (i_mouse s) of (h, ms) \<Rightarrow> s\<lparr>i_hw := h, i_mouse := ms\<rparr>
                 else s)
        in Some (s\<lparr>i_hw := pic_send_eoi io (i_hw s) irq\<rparr>))"

section \<open>The tables\<close>

lemma gate_address_set: "gate_address \<lparr>offset_low = ucast (addr AND 0xFFFF), selector = s, ist = i, type_attr = t,
    offset_mid = ucast (drop_bit 16 addr AND 0xFFFF), offset_high = ucast (drop_bit 32 addr AND 0xFFFFFFFF), zero = z\<rparr> = (addr :: u64)"
proof (rule bit_word_eqI)
  have m: "(0xFFFF :: u64) = mask 16" "(0xFFFFFFFF :: u64) = mask 32" by (simp_all add: mask_numeral)
  fix n assume "n < LENGTH(64)"
  then show "bit (gate_address \<lparr>offset_low = ucast (addr AND 0xFFFF), selector = s, ist = i, type_attr = t,
      offset_mid = ucast (drop_bit 16 addr AND 0xFFFF), offset_high = ucast (drop_bit 32 addr AND 0xFFFFFFFF), zero = z\<rparr>) n = bit addr n"
    unfolding m by (cases "n < 16"; cases "n < 32") (auto simp: gate_address_def bit_or_iff bit_push_bit_iff bit_ucast_iff bit_and_iff bit_mask_iff bit_drop_bit_eq)
qed

lemma idt_set_nth: "vec < length g \<Longrightarrow> v < length g \<Longrightarrow> v \<noteq> vec \<Longrightarrow> idt_set g vec a t ! v = g ! v"
  by (simp add: idt_set_def)

lemma idt_set_same:
  "v < length g \<Longrightarrow> gate_address (idt_set g v a t ! v) = a \<and> type_attr (idt_set g v a t ! v) = t \<and> selector (idt_set g v a t ! v) = 8"
  by (simp add: idt_set_def gate_address_set)

lemma length_idt_set [simp]: "length (idt_set g v a t) = length g" by (simp add: idt_set_def)

lemma fold_idt_set:
  assumes "off + n \<le> length g" "v < length g"
  shows "length (fold (\<lambda>i g. idt_set g (off + i) (f i) t) [0..<n] g) = length g \<and>
    (if off \<le> v \<and> v < off + n
     then gate_address (fold (\<lambda>i g. idt_set g (off + i) (f i) t) [0..<n] g ! v) = f (v - off) \<and>
       type_attr (fold (\<lambda>i g. idt_set g (off + i) (f i) t) [0..<n] g ! v) = t
     else fold (\<lambda>i g. idt_set g (off + i) (f i) t) [0..<n] g ! v = g ! v)"
  using assms(1)
proof (induction n)
  case (Suc n)
  let ?g = "fold (\<lambda>i g. idt_set g (off + i) (f i) t) [0..<n] g"
  have e: "fold (\<lambda>i g. idt_set g (off + i) (f i) t) [0..<Suc n] g = idt_set ?g (off + n) (f n) t" by simp
  have IH: "length ?g = length g" using Suc by simp
  show ?case
  proof (cases "v = off + n")
    case True
    then show ?thesis unfolding e using idt_set_same [of v ?g "f n" t] IH assms(2) by simp
  next
    case False
    then have "idt_set ?g (off + n) (f n) t ! v = ?g ! v" using idt_set_nth [of "off + n" ?g v] IH Suc.prems assms(2) by simp
    then show ?thesis unfolding e using Suc False IH by (auto simp: less_Suc_eq)
  qed
qed auto

text \<open>
  After \<open>idt_init\<close> the 32 exceptions, the 16 hardware interrupts and the system call have gates that lead to
  their stubs, no other gate is present, and the system call is the only one that user code may raise itself.
\<close>

theorem idt_gates:
  assumes "v < 256"
  shows "let e = idt_init isr irq int80 (replicate 256 idt_entry_zero) ! v
         in (gate_present e \<longleftrightarrow> v < 48 \<or> v = 128) \<and> (gate_dpl e = 3 \<longleftrightarrow> v = 128) \<and>
            gate_address e = (if v < 32 then isr v else if v < 48 then irq (v - 32) else if v = 128 then int80 else 0)"
proof -
  let ?z = "replicate 256 idt_entry_zero" and ?a = "fold (\<lambda>i g. idt_set g i (isr i) 0x8E) [0..<32] (replicate 256 idt_entry_zero)"
  let ?b = "fold (\<lambda>i g. idt_set g (32 + i) (irq i) 0x8E) [0..<16] ?a"
  have a: "length ?a = 256 \<and> (if v < 32 then gate_address (?a ! v) = isr v \<and> type_attr (?a ! v) = 0x8E else ?a ! v = idt_entry_zero)"
    using fold_idt_set [of 0 32 ?z v isr "0x8E", unfolded add_0_left] assms by (simp del: upt_rec_numeral)
  have b: "length ?b = 256 \<and> (if 32 \<le> v \<and> v < 48 then gate_address (?b ! v) = irq (v - 32) \<and> type_attr (?b ! v) = 0x8E else ?b ! v = ?a ! v)"
    using fold_idt_set [of 32 16 ?a v irq "0x8E"] a assms by (simp del: upt_rec_numeral)
  have i: "idt_init isr irq int80 ?z = idt_set ?b 128 int80 0xEE" by (simp add: idt_init_def Let_def del: upt_rec_numeral)
  have t: "bit (0x8E :: u8) 7" "bit (0xEE :: u8) 7" "drop_bit 5 (0x8E :: u8) AND 3 = 0" "drop_bit 5 (0xEE :: u8) AND 3 = 3"
    by (simp_all add: bit_numeral_rec)
  show ?thesis
  proof (cases "v = 128")
    case True
    then show ?thesis using idt_set_same [of 128 ?b int80 "0xEE"] b t unfolding i by (simp add: Let_def gate_present_def gate_dpl_def del: upt_rec_numeral)
  next
    case False
    then have "idt_set ?b 128 int80 0xEE ! v = ?b ! v" using idt_set_nth [of 128 ?b v] b assms by simp
    then show ?thesis unfolding i using a b t False
      by (auto simp: Let_def gate_present_def gate_dpl_def idt_entry_zero_def gate_address_def simp del: upt_rec_numeral split: if_splits)
  qed
qed

lemma idt_gates_witness:
  "gate_dpl (idt_init (\<lambda>i. of_nat i) (\<lambda>i. of_nat i) 7 (replicate 256 idt_entry_zero) ! 128) = 3"
  using idt_gates [of 128 "\<lambda>i. of_nat i" "\<lambda>i. of_nat i" 7] by (simp add: Let_def)

text \<open>The segments: kernel code and data for ring 0, user code and data for ring 3, and the TSS where it is.\<close>

lemma gdt_segments:
  "let (g, ts, lim, at) = gdt_init gdt_at tss_at stack_end
   in map desc_dpl (take 5 g) = [0, 0, 0, 3, 3] \<and> map desc_long_code (take 5 g) = [False, True, False, True, False] \<and>
      desc_base (g ! 5) (g ! 6) = tss_at \<and> desc_limit (g ! 5) = 103 \<and> desc_type (g ! 5) = 0x89"
proof -
  define low :: u64 where "low = 103 OR push_bit 16 (tss_at AND 0xFFFFFF) OR push_bit 40 0x89 OR push_bit 56 (drop_bit 24 tss_at AND 0xFF)"
  have g: "gdt_init gdt_at tss_at stack_end =
    ([0, 0x00AF9A000000FFFF, 0x00AF92000000FFFF, 0x00AFFA000000FFFF, 0x00AFF2000000FFFF, low, drop_bit 32 tss_at AND 0xFFFFFFFF],
     \<lparr>rsp0 = stack_end, iomap_base = 104\<rparr>, 55, gdt_at)"
    by (simp add: gdt_init_def gdt_set_tss_def TSS_SIZE_def low_def Let_def or.assoc)
  have m: "(0xFFFFFF :: u64) = mask 24" "(0xFF :: u64) = mask 8" "(0xFFFFFFFF :: u64) = mask 32" "(0xFFFF :: u64) = mask 16" "(0xF :: u64) = mask 4"
    by (simp_all add: mask_numeral)
  have "\<forall>n \<in> set [0..<64]. (bit (103 :: u64) n \<longrightarrow> n < 7) \<and> (bit (push_bit 24 0x89 :: u64) n \<longrightarrow> 23 < n \<and> n < 32)" by code_simp
  then have b1: "n < 64 \<Longrightarrow> bit (103 :: u64) n \<Longrightarrow> n < 7" "n < 64 \<Longrightarrow> bit (2298478592 :: u64) n \<Longrightarrow> 23 < n \<and> n < 32" for n
    by simp_all
  have "\<forall>n \<in> set [0..<64]. bit (0x89 :: u64) n \<longrightarrow> n < 8" by code_simp
  then have b2: "n < 64 \<Longrightarrow> bit (0x89 :: u64) n \<Longrightarrow> n < 8" for n by simp
  have "\<forall>n \<in> set [0..<64]. bit (150633093005312 :: u64) n \<longrightarrow> 39 < n" by code_simp
  then have b3: "n < 64 \<Longrightarrow> bit (150633093005312 :: u64) n \<Longrightarrow> 39 < n" for n by simp
  have base: "desc_base low (drop_bit 32 tss_at AND 0xFFFFFFFF) = tss_at"
  proof (rule bit_word_eqI)
    fix n assume "n < LENGTH(64)"
    then have "n < 64" by simp
    then show "bit (desc_base low (drop_bit 32 tss_at AND 0xFFFFFFFF)) n = bit tss_at n"
      using b1(1) [of "16 + n"] b1(1) [of "32 + n"] b1(2) [of n] unfolding desc_base_def low_def m
      by (cases "n < 24"; cases "n < 32") (auto simp: bit_or_iff bit_push_bit_iff bit_and_iff bit_mask_iff bit_drop_bit_eq)
  qed
  have limit: "desc_limit low = 103"
  proof (rule bit_word_eqI)
    fix n assume "n < LENGTH(64)"
    then have "n < 64" by simp
    then show "bit (desc_limit low) n = bit (103 :: u64) n"
      using b1(1) [of n] b1(1) [of "32 + n"] b1(2) [of n] b1(2) [of "8 + n"] b3 [of n] unfolding desc_limit_def low_def m
      by (cases "n < 16"; cases "n < 20") (auto simp: bit_or_iff bit_push_bit_iff bit_and_iff bit_mask_iff bit_drop_bit_eq)
  qed
  have type: "desc_type low = 0x89"
  proof (rule bit_word_eqI)
    fix n assume "n < LENGTH(64)"
    then have "n < 64" by simp
    then show "bit (desc_type low) n = bit (0x89 :: u64) n"
      using b1(1) [of "40 + n"] b2 [of n] unfolding desc_type_def low_def m
      by (auto simp: bit_or_iff bit_push_bit_iff bit_and_iff bit_mask_iff bit_drop_bit_eq)
  qed
  have "map desc_dpl [0, 0x00AF9A000000FFFF, 0x00AF92000000FFFF, 0x00AFFA000000FFFF, 0x00AFF2000000FFFF] = [0, 0, 0, 3, 3]"
    "map desc_long_code [0, 0x00AF9A000000FFFF, 0x00AF92000000FFFF, 0x00AFFA000000FFFF, 0x00AFF2000000FFFF] =
      [False, True, False, True, False]"
    by code_simp+
  then show ?thesis using base limit type by (simp add: g)
qed

section \<open>Two interrupt controllers\<close>

text \<open>
  The requests that are in service at the two controllers. A command 0x20 ends the one of highest priority; the second controller
  is on line 2 of the first.
\<close>

record pics =
  in_service1 :: "nat set"
  in_service2 :: "nat set"

definition end_first :: "nat set \<Rightarrow> nat set" where "end_first S = (if S = {} then {} else S - {Min S})"

definition pic_ports :: "(u16 \<Rightarrow> u8) \<Rightarrow> pics ports" where
  "pic_ports dev = \<lparr>inb = (\<lambda>h p. (dev p, h)),
     outb = (\<lambda>h p v. if v = 0x20 \<and> p = 0x20 then h\<lparr>in_service1 := end_first (in_service1 h)\<rparr>
       else if v = 0x20 \<and> p = 0xA0 then h\<lparr>in_service2 := end_first (in_service2 h)\<rparr> else h),
     inw = (\<lambda>h p. (0, h)), outw = (\<lambda>h p v. h), inl = (\<lambda>h p. (0, h)), outl = (\<lambda>h p v. h)\<rparr>"

definition pics_idle :: pics where "pics_idle = \<lparr>in_service1 = {}, in_service2 = {}\<rparr>"

definition pic_raise :: "nat \<Rightarrow> pics" where
  "pic_raise n = (if n < 8 then \<lparr>in_service1 = {n}, in_service2 = {}\<rparr> else \<lparr>in_service1 = {2}, in_service2 = {n - 8}\<rparr>)"

lemma eoi_idle: "n < 16 \<Longrightarrow> pic_send_eoi (pic_ports dev) (pic_raise n) (int n) = pics_idle"
  by (simp add: pic_send_eoi_def pic_ports_def pic_raise_def pics_idle_def end_first_def PIC1_CMD_def PIC2_CMD_def PIC_EOI_def Let_def)

lemma irq_reads:
  "keyboard_irq (pic_ports dev) h k = (h', k') \<Longrightarrow> h' = h" "mouse_irq (pic_ports dev) h ms = (h', ms') \<Longrightarrow> h' = h"
  by (auto simp: keyboard_irq_def mouse_irq_def pic_ports_def split: if_splits)

text \<open>
  Every hardware interrupt is acknowledged where it is in service, at both controllers for the lines of the second one,
  whatever the keyboard and the mouse say; all but the timer's return in any case.
\<close>

theorem irq_acknowledged:
  assumes "n < 16" "i_hw s = pic_raise n"
  shows "case irq_handler (pic_ports dev) (of_nat (32 + n)) s of None \<Rightarrow> n = 0 | Some s' \<Rightarrow> i_hw s' = pics_idle"
proof -
  have "\<forall>m \<in> set [0..<16]. int32 (sint (ucast (of_nat (32 + m) :: u64) :: u32) - 32) = int m" by code_simp
  then have irq: "int32 (sint (ucast (of_nat (32 + n) :: u64) :: u32) - 32) = int n"
    using assms(1) by simp
  note eoi = eoi_idle [OF assms(1)]
  show ?thesis
  proof (cases "n = 0")
    case True
    then show ?thesis using eoi assms(2) unfolding irq_handler_def irq Let_def
      by (auto split: option.splits)
  next
    case False
    then show ?thesis using eoi assms(2) unfolding irq_handler_def irq Let_def
      by (auto split: prod.splits dest!: irq_reads)
  qed
qed

lemma irq_acknowledged_witness:
  "\<forall>sc k ms. case irq_handler (pic_ports (\<lambda>_. 0x21)) 44 \<lparr>i_sched = sc, i_kbd = k, i_mouse = ms, i_hw = pic_raise 12\<rparr> of
     None \<Rightarrow> False | Some s' \<Rightarrow> i_hw s' = pics_idle"
proof (intro allI)
  fix sc k ms
  from irq_acknowledged [of 12 "\<lparr>i_sched = sc, i_kbd = k, i_mouse = ms, i_hw = pic_raise 12\<rparr>" "\<lambda>_. 0x21"]
  show "case irq_handler (pic_ports (\<lambda>_. 0x21)) 44 \<lparr>i_sched = sc, i_kbd = k, i_mouse = ms, i_hw = pic_raise 12\<rparr> of
     None \<Rightarrow> False | Some s' \<Rightarrow> i_hw s' = pics_idle" by (auto split: option.splits)
qed

end
