(* ===== verification/UserShell.thy ===== *)
theory UserShell
  imports Edit
begin

text \<open>
  The shell for users, \<^verbatim>\<open>user/shell.c\<close>: reading a line, cutting it into words, the package manager, the commands,
  redirection and pipes. System calls are a record of functions as for the editor; strings are the bytes before
  the zero. \<open>None\<close> is a program that does not get there: it waits for ever, uses a null pointer or writes behind an array.
\<close>

section \<open>System calls and state\<close>

record 'o sh_calls = "'o calls" +
  c_unlink :: "u8 list \<Rightarrow> 'o \<Rightarrow> int \<times> 'o"
  c_stat :: "u8 list \<Rightarrow> 'o \<Rightarrow> (u32 \<times> u8) option \<times> 'o"
  c_readdir :: "u8 list \<Rightarrow> nat \<Rightarrow> 'o \<Rightarrow> u8 list option \<times> 'o"
  c_exec :: "u8 list \<Rightarrow> 'o \<Rightarrow> int \<times> 'o"
  c_getpid :: "'o \<Rightarrow> int \<times> 'o"
  c_reboot :: "u64 \<Rightarrow> 'o \<Rightarrow> 'o"
  c_pipe :: "'o \<Rightarrow> (int \<times> int) option \<times> 'o"
  c_fork :: "'o \<Rightarrow> int \<times> 'o"
  c_dup2 :: "int \<Rightarrow> int \<Rightarrow> 'o \<Rightarrow> 'o"
  c_wait :: "'o \<Rightarrow> 'o"
  c_exit :: "int \<Rightarrow> 'o \<Rightarrow> 'o"
  c_signal :: "'o \<Rightarrow> 'o"
  c_sigint :: "'o \<Rightarrow> bool"

text \<open>\<open>c_signal\<close> installs the handler of the interrupt signal and \<open>c_sigint\<close> tells that it ran during the last read.\<close>

definition SH_LINE_MAX :: nat where "SH_LINE_MAX = 256"
definition TOKEN_MAX :: nat where "TOKEN_MAX = 32"
definition EPP_MAX_INSTALLED :: nat where "EPP_MAX_INSTALLED = 32"
definition REBOOT_CMD_SHUTDOWN :: u64 where "REBOOT_CMD_SHUTDOWN = 0x08"
definition REBOOT_CMD_REBOOT :: u64 where "REBOOT_CMD_REBOOT = 0x10"

record installed_pkg =
  pk_name :: "u8 list"
  pk_version :: "u8 list"
  pk_file :: "u8 list"
  pk_used :: bool

record 'o sh =
  g_installed :: "installed_pkg list"
  os :: 'o

definition osd :: "('o \<Rightarrow> 'o) \<Rightarrow> 'o sh \<Rightarrow> 'o sh" where "osd f s = os_update f s"

text \<open>Text on the standard output.\<close>

definition out :: "('o, 'z) sh_calls_scheme \<Rightarrow> u8 list \<Rightarrow> 'o sh \<Rightarrow> 'o sh" where "out k t s = osd (c_write k 1 t) s"

definition outl :: "('o, 'z) sh_calls_scheme \<Rightarrow> string \<Rightarrow> 'o sh \<Rightarrow> 'o sh" where "outl k t s = out k (ascii t @ [10]) s"

section \<open>Strings\<close>

definition sh_starts_with :: "u8 list \<Rightarrow> u8 list \<Rightarrow> bool" where
  "sh_starts_with s pre \<longleftrightarrow> take (length pre) s = pre"

definition sh_ends_with :: "u8 list \<Rightarrow> u8 list \<Rightarrow> bool" where
  "sh_ends_with s sul \<longleftrightarrow> length sul \<le> length s \<and> drop (length s - length sul) s = sul"

fun put_u32 :: "nat \<Rightarrow> u32 \<Rightarrow> u8 list \<Rightarrow> u8 list" where
  "put_u32 0 v acc = acc"
| "put_u32 (Suc i) v acc = (if v = 0 then acc else put_u32 i (v div 10) ((48 + ucast (v mod 10)) # acc))"

definition itoa_sh :: "u32 \<Rightarrow> u8 list" where "itoa_sh v = (if v = 0 then [48] else put_u32 10 v [])"

text \<open>A line of the user, an interruption or the end.\<close>

datatype 'o sh_read = Line "u8 list" 'o | Interrupted 'o | Bye 'o

partial_function (option) sh_readline_from :: "('o, 'z) sh_calls_scheme \<Rightarrow> nat \<Rightarrow> u8 list \<Rightarrow> 'o \<Rightarrow> 'o sh_read option" where
  "sh_readline_from k mx acc o1 =
     (case c_read k 0 1 o1 of (r, o1) \<Rightarrow>
        case r of None \<Rightarrow> sh_readline_from k mx acc o1
        | Some ds \<Rightarrow>
            if length ds \<noteq> 1 then sh_readline_from k mx acc o1
            else if c_sigint k o1 then Some (Interrupted (c_write k 1 (ascii ''^C'' @ [10]) o1))
            else if hd ds = 10 then Some (Line (takeWhile (\<lambda>c. c \<noteq> 0) acc) (c_write k 1 [10] o1))
            else if hd ds = 8 \<or> hd ds = 127 then
              if acc \<noteq> [] then sh_readline_from k mx (butlast acc) (c_write k 1 [8] o1) else sh_readline_from k mx acc o1
            else if hd ds = 3 then Some (Interrupted (c_write k 1 (ascii ''^C'' @ [10]) o1))
            else if hd ds = 4 then Some (Bye (c_exit k 0 (c_write k 1 ([10] @ ascii ''Goodbye!'' @ [10]) o1)))
            else if length acc < mx - 1 then sh_readline_from k mx (acc @ [hd ds]) (c_write k 1 [hd ds] o1)
            else sh_readline_from k mx acc o1)"

definition is_blank_c :: "u8 \<Rightarrow> bool" where "is_blank_c c \<longleftrightarrow> c = 32 \<or> c = 9"
definition is_stop :: "u8 \<Rightarrow> bool" where "is_stop c \<longleftrightarrow> is_blank_c c \<or> c = 124 \<or> c = 62 \<or> c = 60"

text \<open>The words from \<open>p\<close> on, \<open>n\<close> of which there are already; the character that ends a word is overwritten with the zero.\<close>

function sh_tok :: "nat \<Rightarrow> nat \<Rightarrow> u8 list \<Rightarrow> u8 list list" where
  "sh_tok mx n p =
     (let p = dropWhile is_blank_c p in
      if p = [] then [] else if n \<ge> mx - 1 then []
      else takeWhile (\<lambda>c. \<not> is_stop c) p # sh_tok mx (n + 1) (drop 1 (dropWhile (\<lambda>c. \<not> is_stop c) p)))"
  by pat_completeness auto
termination
proof (relation "measure (\<lambda>(mx, n, p). length p)", goal_cases)
  case (2 mx n p p')
  have "length p' \<le> length p" "0 < length p'" using 2(1,2) by (simp_all add: length_dropWhile_le)
  moreover have "length (dropWhile (\<lambda>c. \<not> is_stop c) p') \<le> length p'" by (rule length_dropWhile_le)
  ultimately have "length (dropWhile (\<lambda>c. \<not> is_stop c) p') - 1 < length p" by linarith
  then show ?case by simp
qed simp

declare sh_tok.simps [simp del]

definition sh_tokenize :: "u8 list \<Rightarrow> u8 list list" where "sh_tokenize line = sh_tok TOKEN_MAX 0 line"

definition has_pipe :: "u8 list \<Rightarrow> bool" where "has_pipe line \<longleftrightarrow> 124 \<in> set line"

definition is_redir :: "u8 list \<Rightarrow> bool" where "is_redir t \<longleftrightarrow> t = ascii ''>'' \<or> t = ascii ''>>''"

fun find_redir_out :: "u8 list list \<Rightarrow> u8 list option" where
  "find_redir_out [] = None"
| "find_redir_out (t # ts) = (if is_redir t \<and> ts \<noteq> [] then Some (hd ts) else find_redir_out ts)"

section \<open>Files and packages\<close>

function read_upto :: "('o, 'z) sh_calls_scheme \<Rightarrow> int \<Rightarrow> nat \<Rightarrow> u8 list \<Rightarrow> 'o \<Rightarrow> u8 list \<times> 'o" where
  "read_upto k fd cap acc o1 =
     (if length acc < cap - 1 then
        case c_read k fd (cap - 1 - length acc) o1 of (r, o1) \<Rightarrow>
          (case r of None \<Rightarrow> (acc, o1)
           | Some ds \<Rightarrow> if ds = [] then (acc, o1) else read_upto k fd cap (acc @ ds) o1)
      else (acc, o1))"
  by pat_completeness auto
termination
  by (relation "measure (\<lambda>(k, fd, cap, acc, o1). cap - 1 - length acc)") (auto intro: diff_less_mono2 simp: length_greater_0_conv)

declare read_upto.simps [simp del]

text \<open>The text of a file before its first zero; -1 is \<open>None\<close>.\<close>

definition sh_read_file :: "('o, 'z) sh_calls_scheme \<Rightarrow> u8 list \<Rightarrow> nat \<Rightarrow> 'o sh \<Rightarrow> u8 list option \<times> 'o sh" where
  "sh_read_file k path cap s =
     (case c_open k path (os s) of (fd, o1) \<Rightarrow>
        if fd < 0 then (None, s\<lparr>os := o1\<rparr>)
        else case read_upto k fd cap [] o1 of (d, o1) \<Rightarrow> (Some (takeWhile (\<lambda>c. c \<noteq> 0) d), s\<lparr>os := c_close k fd o1\<rparr>))"

definition not_eol :: "u8 \<Rightarrow> bool" where "not_eol c \<longleftrightarrow> c \<noteq> 10"

lemma length_next_line: "p \<noteq> [] \<Longrightarrow> length (drop 1 (dropWhile not_eol p)) < length p"
  by (cases p) (auto simp: length_dropWhile_le le_imp_less_Suc less_le_trans intro: le_less_trans [OF diff_le_self])

text \<open>The loop over the lines of a manifest: the text behind \<open>key=\<close> of the first line that begins with it.\<close>

function find_key :: "u8 list \<Rightarrow> u8 list \<Rightarrow> u8 list option" where
  "find_key p key =
     (if p = [] then None
      else if sh_starts_with p key \<and> length key < length p \<and> p ! length key = 61 then Some (drop (length key + 1) p)
      else find_key (drop 1 (dropWhile not_eol p)) key)"
  by pat_completeness auto
termination by (relation "measure (\<lambda>(p, key). length p)") (use length_next_line in auto)

declare find_key.simps [simp del]

definition print_value :: "('o, 'z) sh_calls_scheme \<Rightarrow> u8 list \<Rightarrow> string \<Rightarrow> 'o sh \<Rightarrow> 'o sh" where
  "print_value k manifest key s =
     (case find_key manifest (ascii key) of
        None \<Rightarrow> out k (ascii ''unknown'') s
      | Some v \<Rightarrow> fold (\<lambda>c. out k [c]) (takeWhile not_eol v) s)"

definition get_value :: "u8 list \<Rightarrow> string \<Rightarrow> nat \<Rightarrow> u8 list option" where
  "get_value manifest key cap = map_option (\<lambda>v. take (cap - 1) (takeWhile not_eol v)) (find_key manifest (ascii key))"

definition package_path :: "u8 list \<Rightarrow> u8 list" where
  "package_path name = (if sh_ends_with name (ascii ''.epk'') then name else name @ ascii ''.epk'')"

definition installed_find :: "installed_pkg list \<Rightarrow> u8 list \<Rightarrow> nat option" where
  "installed_find db name = find (\<lambda>i. pk_used (db ! i) \<and> pk_name (db ! i) = name) [0..<EPP_MAX_INSTALLED]"

definition installed_add :: "installed_pkg list \<Rightarrow> u8 list \<Rightarrow> u8 list \<Rightarrow> u8 list \<Rightarrow> installed_pkg list option" where
  "installed_add db name version file =
     (case (case installed_find db name of None \<Rightarrow> find (\<lambda>i. \<not> pk_used (db ! i)) [0..<EPP_MAX_INSTALLED] | r \<Rightarrow> r) of
        None \<Rightarrow> None
      | Some i \<Rightarrow> Some (db[i := \<lparr>pk_name = name, pk_version = version, pk_file = file, pk_used = True\<rparr>]))"

definition installed_remove :: "installed_pkg list \<Rightarrow> u8 list \<Rightarrow> installed_pkg list option" where
  "installed_remove db name = map_option (\<lambda>i. db[i := (db ! i)\<lparr>pk_used := False\<rparr>]) (installed_find db name)"

definition installed_list :: "('o, 'z) sh_calls_scheme \<Rightarrow> 'o sh \<Rightarrow> 'o sh" where
  "installed_list k s =
     (let us = filter pk_used (g_installed s) in
      if us = [] then outl k ''  (none)'' s
      else fold (\<lambda>p s. out k [10] (out k (pk_file p) (out k (ascii '' -> '') (out k (pk_version p) (out k [32]
             (out k (pk_name p) (out k (ascii ''  '') s))))))) us s)"

definition say_path :: "('o, 'z) sh_calls_scheme \<Rightarrow> string \<Rightarrow> u8 list \<Rightarrow> 'o sh \<Rightarrow> 'o sh" where
  "say_path k t p s = out k [10] (out k p (out k (ascii t) s))"

text \<open>Whether the file of the package can be opened.\<close>

definition payload_ok :: "('o, 'z) sh_calls_scheme \<Rightarrow> u8 list \<Rightarrow> 'o sh \<Rightarrow> bool \<times> 'o sh" where
  "payload_ok k file s =
     (case c_open k file (os s) of (fd, o1) \<Rightarrow> if fd < 0 then (False, s\<lparr>os := o1\<rparr>) else (True, s\<lparr>os := c_close k fd o1\<rparr>))"

definition epk_execute :: "('o, 'z) sh_calls_scheme \<Rightarrow> u8 list \<Rightarrow> 'o sh \<Rightarrow> 'o sh" where
  "epk_execute k path s =
     (case sh_read_file k path 512 s of (mf, s) \<Rightarrow>
        case mf of None \<Rightarrow> say_path k ''epp: cannot open: '' path s
        | Some mf \<Rightarrow>
            let s = out k [10] (print_value k mf ''name'' (out k (ascii ''Package: '') s));
                s = out k [10] (print_value k mf ''version'' (out k (ascii ''Version: '') s));
                s = out k [10] (print_value k mf ''description'' (out k (ascii ''About:   '') s))
            in (case get_value mf ''file'' 64 of
                  None \<Rightarrow> outl k ''epp: no file entry'' s
                | Some file \<Rightarrow>
                    (case payload_ok k file s of (ok, s) \<Rightarrow>
                       if \<not> ok then say_path k ''epp: payload missing: '' file s
                       else outl k '')'' (out k file (out k (ascii ''Status:  installed/ready (payload '') s)))))"

definition epk_install :: "('o, 'z) sh_calls_scheme \<Rightarrow> u8 list \<Rightarrow> 'o sh \<Rightarrow> int \<times> 'o sh" where
  "epk_install k path s =
     (case sh_read_file k path 512 s of (mf, s) \<Rightarrow>
        case mf of None \<Rightarrow> (- 1, say_path k ''epp: cannot open: '' path s)
        | Some mf \<Rightarrow>
            (case (get_value mf ''name'' 32, get_value mf ''version'' 16, get_value mf ''file'' 64) of
               (Some name, Some version, Some file) \<Rightarrow>
                 (case payload_ok k file s of (ok, s) \<Rightarrow>
                    if \<not> ok then (- 1, say_path k ''epp: payload missing: '' file s)
                    else case installed_add (g_installed s) name version file of
                      None \<Rightarrow> (- 1, outl k ''epp: db full'' s)
                    | Some db \<Rightarrow> (0, out k [10] (out k version (out k [32] (out k name (out k (ascii ''Installed '') (s\<lparr>g_installed := db\<rparr>)))))))
             | _ \<Rightarrow> (- 1, outl k ''epp: invalid manifest'' s)))"

section \<open>Commands\<close>

definition sh_help_lines :: "string list" where
  "sh_help_lines =
     [''Commands:'', ''  help              show this help'', ''  clear             clear screen'', ''  pwd               print working directory'',
      ''  ls [path]         list directory'', ''  cat <file>        print file contents'', ''  write <file> <t>  create/overwrite file'',
      ''  rm <file>         delete file'', ''  stat <file>       show file info'', ''  mkdir <dir>       create directory'',
      ''  run <elf>         execute ELF binary'', ''  echo <text>       print text'', ''  pid               show process ID'',
      ''  ps                show processes'', ''  kill <pid>        kill process'', ''  shutdown          power off'',
      ''  reboot            restart system'', ''  epp <cmd> [pkg]   Epona Package manager'', ''  edit [file]       text editor'',
      ''  <file>.epk        execute package manifest'', ''  pipe: cmd1 | cmd2  pipe output to command'',
      ''  redir: cmd > file  redirect output to file'']"

definition sh_help :: "('o, 'z) sh_calls_scheme \<Rightarrow> 'o sh \<Rightarrow> 'o sh" where "sh_help k s = fold (outl k) sh_help_lines s"

definition sh_ls :: "('o, 'z) sh_calls_scheme \<Rightarrow> u8 list list \<Rightarrow> 'o sh \<Rightarrow> 'o sh" where
  "sh_ls k args s =
     (case c_readdir k (if length args > 1 then args ! 1 else [47]) 2048 (os s) of (r, o1) \<Rightarrow>
        let s = s\<lparr>os := o1\<rparr> in
        case r of None \<Rightarrow> outl k ''ls: cannot read directory'' s
        | Some d \<Rightarrow> if d = [] then outl k ''(empty)'' s else out k (takeWhile (\<lambda>c. c \<noteq> 0) d) s)"

text \<open>The loop of \<open>cat\<close> ends only when a read gives nothing.\<close>

partial_function (option) cat_loop :: "('o, 'z) sh_calls_scheme \<Rightarrow> int \<Rightarrow> 'o \<Rightarrow> 'o option" where
  "cat_loop k fd o1 =
     (case c_read k fd 256 o1 of (r, o1) \<Rightarrow>
        case r of None \<Rightarrow> Some o1 | Some ds \<Rightarrow> if ds = [] then Some o1 else cat_loop k fd (c_write k 1 ds o1))"

definition sh_cat :: "('o, 'z) sh_calls_scheme \<Rightarrow> u8 list list \<Rightarrow> 'o sh \<Rightarrow> 'o sh option" where
  "sh_cat k args s =
     (if length args < 2 then Some (outl k ''usage: cat <file>'' s)
      else case c_open k (args ! 1) (os s) of (fd, o1) \<Rightarrow>
        if fd < 0 then Some (say_path k ''cat: cannot open '' (args ! 1) (s\<lparr>os := o1\<rparr>))
        else do { o1 \<leftarrow> cat_loop k fd o1; Some (s\<lparr>os := c_close k fd o1\<rparr>) })"

definition sh_write :: "('o, 'z) sh_calls_scheme \<Rightarrow> u8 list list \<Rightarrow> 'o sh \<Rightarrow> 'o sh" where
  "sh_write k args s =
     (if length args < 3 then outl k ''usage: write <file> <text>'' s
      else case c_create k (args ! 1) (os s) of (fd, o1) \<Rightarrow>
        if fd < 0 then say_path k ''write: cannot create '' (args ! 1) (s\<lparr>os := o1\<rparr>)
        else let o1 = fold (\<lambda>i o1. c_write k fd (args ! i) (if i > 2 then c_write k fd [32] o1 else o1)) [2..<length args] o1
             in s\<lparr>os := c_close k fd (c_write k fd [10] o1)\<rparr>)"

definition sh_rm :: "('o, 'z) sh_calls_scheme \<Rightarrow> u8 list list \<Rightarrow> 'o sh \<Rightarrow> 'o sh" where
  "sh_rm k args s =
     (if length args < 2 then outl k ''usage: rm <file>'' s
      else case c_unlink k (args ! 1) (os s) of (r, o1) \<Rightarrow>
        let s = s\<lparr>os := o1\<rparr> in if r < 0 then say_path k ''rm: cannot remove '' (args ! 1) s else s)"

definition sh_stat :: "('o, 'z) sh_calls_scheme \<Rightarrow> u8 list list \<Rightarrow> 'o sh \<Rightarrow> 'o sh" where
  "sh_stat k args s =
     (if length args < 2 then outl k ''usage: stat <file>'' s
      else case c_stat k (args ! 1) (os s) of (r, o1) \<Rightarrow>
        let s = s\<lparr>os := o1\<rparr> in
        case r of None \<Rightarrow> say_path k ''stat: cannot stat '' (args ! 1) s
        | Some (sz, flags) \<Rightarrow>
            let s = out k [10] (out k (ascii (if flags AND 2 \<noteq> 0 then '' (dir)'' else '' (file)'')) (out k (args ! 1) s))
            in outl k '' bytes'' (out k (itoa_sh sz) (out k (ascii ''  size: '') s)))"

definition sh_run :: "('o, 'z) sh_calls_scheme \<Rightarrow> u8 list list \<Rightarrow> 'o sh \<Rightarrow> 'o sh" where
  "sh_run k args s =
     (if length args < 2 then outl k ''usage: run <elf>'' s
      else if sh_ends_with (args ! 1) (ascii ''.epk'') then outl k ''run: .epk is a manifest, not ELF'' s
      else let s = outl k ''Executing...'' s in
        case c_exec k (args ! 1) (os s) of (r, o1) \<Rightarrow>
          let s = s\<lparr>os := o1\<rparr> in if r < 0 then say_path k ''run: cannot execute '' (args ! 1) s else s)"

definition sh_mkdir :: "('o, 'z) sh_calls_scheme \<Rightarrow> u8 list list \<Rightarrow> 'o sh \<Rightarrow> 'o sh" where
  "sh_mkdir k args s =
     (if length args < 2 then outl k ''usage: mkdir <dir>'' s
      else case c_create k (args ! 1) (os s) of (fd, o1) \<Rightarrow>
        if fd < 0 then outl k ''mkdir: failed'' (s\<lparr>os := o1\<rparr>)
        else say_path k ''created directory '' (args ! 1) (s\<lparr>os := c_close k fd o1\<rparr>))"

definition sh_pid :: "('o, 'z) sh_calls_scheme \<Rightarrow> 'o sh \<Rightarrow> 'o sh" where
  "sh_pid k s = (case c_getpid k (os s) of (p, o1) \<Rightarrow> say_path k ''PID: '' (itoa_sh (word_of_int p)) (s\<lparr>os := o1\<rparr>))"

text \<open>The lines of the repository that name a package.\<close>

function repo_packages :: "u8 list \<Rightarrow> u8 list list" where
  "repo_packages p =
     (if p = [] then []
      else (if sh_starts_with p (ascii ''package='') then [takeWhile not_eol (drop 8 p)] else []) @
           repo_packages (drop 1 (dropWhile not_eol p)))"
  by pat_completeness auto
termination by (relation "measure length") (use length_next_line in auto)

declare repo_packages.simps [simp del]

definition sh_epp_help :: "string list" where
  "sh_epp_help =
     [''Epona Package Manager (epp)'', ''  epp update          refresh repo index'', ''  epp list            list packages'',
      ''  epp installed       list installed'', ''  epp info <pkg>      package info'', ''  epp install <pkg>   install package'',
      ''  epp remove <pkg>    remove package'']"

text \<open>The path of the package is built in an array of 64 characters.\<close>

definition sh_epp :: "('o, 'z) sh_calls_scheme \<Rightarrow> u8 list list \<Rightarrow> 'o sh \<Rightarrow> 'o sh option" where
  "sh_epp k args s =
     (let sub = (\<lambda>n. args ! 1 = ascii n) in
      if length args < 2 \<or> sub ''help'' then Some (fold (outl k) sh_epp_help s)
      else if sub ''update'' then
        case sh_read_file k (ascii ''repo.epk'') 512 s of (r, s) \<Rightarrow>
          Some (if r = None then outl k ''epp: repo.epk not found'' s else outl k ''Repository updated.'' s)
      else if sub ''list'' then
        case sh_read_file k (ascii ''repo.epk'') 512 s of (r, s) \<Rightarrow>
          (case r of None \<Rightarrow> Some (outl k ''epp: run epp update first'' s)
           | Some p \<Rightarrow> Some (fold (\<lambda>n s. out k [10] (fold (\<lambda>c. out k [c]) n (out k (ascii ''  '') s))) (repo_packages p) s))
      else if sub ''installed'' then Some (installed_list k s)
      else if sub ''remove'' then
        if length args < 3 then Some (outl k ''usage: epp remove <pkg>'' s)
        else (case installed_remove (g_installed s) (args ! 2) of
                None \<Rightarrow> Some (say_path k ''epp: not installed: '' (args ! 2) s)
              | Some db \<Rightarrow> Some (say_path k ''Removed '' (args ! 2) (s\<lparr>g_installed := db\<rparr>)))
      else if sub ''info'' \<or> sub ''install'' then
        if length args < 3 then Some (outl k '' <pkg>'' (out k (args ! 1) (out k (ascii ''usage: epp '') s)))
        else let path = package_path (args ! 2) in
          if length path \<ge> 64 then None
          else if sub ''info'' then Some (epk_execute k path s)
          else (case epk_install k path s of (r, s) \<Rightarrow> Some (if r = 0 then outl k ''epp: installed'' s else s))
      else Some (say_path k ''epp: unknown: '' (args ! 1) s))"

section \<open>Redirection and pipes\<close>

fun sh_echo :: "('o, 'z) sh_calls_scheme \<Rightarrow> bool \<Rightarrow> u8 list list \<Rightarrow> 'o sh \<Rightarrow> 'o sh" where
  "sh_echo k first [] s = out k [10] s"
| "sh_echo k first (a # as) s = sh_echo k False as (out k a (if first then s else out k [32] s))"

definition sh_exec :: "('o, 'z) sh_calls_scheme \<Rightarrow> u8 list \<Rightarrow> 'o sh \<Rightarrow> int \<times> 'o sh" where
  "sh_exec k path s = (case c_exec k path (os s) of (r, o1) \<Rightarrow> (r, s\<lparr>os := o1\<rparr>))"

text \<open>The command itself; without words the first one is a null pointer.\<close>

definition run_builtin :: "('o, 'z) sh_calls_scheme \<Rightarrow> u8 list list \<Rightarrow> 'o sh \<Rightarrow> 'o sh option" where
  "run_builtin k args s =
     (if args = [] then None
      else let cmd_is = (\<lambda>n. hd args = ascii n) in
        if cmd_is ''help'' then Some (sh_help k s)
        else if cmd_is ''clear'' then Some (out k [12] s)
        else if cmd_is ''pwd'' then Some (outl k ''/'' s)
        else if cmd_is ''ls'' then Some (sh_ls k args s)
        else if cmd_is ''cat'' then sh_cat k args s
        else if cmd_is ''write'' then Some (sh_write k args s)
        else if cmd_is ''rm'' then Some (sh_rm k args s)
        else if cmd_is ''stat'' then Some (sh_stat k args s)
        else if cmd_is ''run'' then Some (sh_run k args s)
        else if cmd_is ''mkdir'' then Some (sh_mkdir k args s)
        else if cmd_is ''echo'' then Some (sh_echo k True (tl args) s)
        else if cmd_is ''pid'' then Some (sh_pid k s)
        else if cmd_is ''epp'' then sh_epp k args s
        else if cmd_is ''edit'' then Some (snd (sh_exec k (ascii ''EDIT.ELF'') s))
        else if cmd_is ''shutdown'' then Some (osd (c_reboot k REBOOT_CMD_SHUTDOWN) s)
        else if cmd_is ''reboot'' then Some (osd (c_reboot k REBOOT_CMD_REBOOT) s)
        else if sh_ends_with (hd args) (ascii ''.epk'') then Some (epk_execute k (hd args) s)
        else (case sh_exec k (hd args) s of (r, s) \<Rightarrow> Some (if r < 0 then say_path k ''Unknown command: '' (hd args) s else s)))"

text \<open>Both forms of redirection create the file.\<close>

definition exec_cmd :: "('o, 'z) sh_calls_scheme \<Rightarrow> u8 list list \<Rightarrow> 'o sh \<Rightarrow> 'o sh option" where
  "exec_cmd k tokens s =
     (if tokens = [] then Some s
      else case find_redir_out tokens of
        None \<Rightarrow> run_builtin k tokens s
      | Some file \<Rightarrow>
          (case c_create k file (os s) of (fd, o1) \<Rightarrow>
             let o1 = (if fd \<ge> 0 then c_dup2 k fd 1 o1 else o1) in do {
               s \<leftarrow> run_builtin k (takeWhile (\<lambda>t. \<not> is_redir t) tokens) (s\<lparr>os := o1\<rparr>);
               Some (if fd \<ge> 0 then osd (\<lambda>o1. c_close k fd (c_dup2 k 1 1 o1)) s else s) }))"

datatype 'o sh_end = Goes "'o sh" | Exits "'o sh"

definition exec_pipe :: "('o, 'z) sh_calls_scheme \<Rightarrow> u8 list \<Rightarrow> 'o sh \<Rightarrow> 'o sh_end option" where
  "exec_pipe k line s =
     (if 124 \<notin> set line then Some (Goes s)
      else
        let left = takeWhile (\<lambda>c. c \<noteq> 124) line; right = dropWhile (\<lambda>c. c = 32) (drop 1 (dropWhile (\<lambda>c. c \<noteq> 124) line)) in
        case c_pipe k (os s) of (r, o1) \<Rightarrow>
          let s = s\<lparr>os := o1\<rparr> in
          (case r of
             None \<Rightarrow> Some (Goes (outl k ''pipe: failed'' s))
           | Some (rd, wr) \<Rightarrow>
               (case c_fork k (os s) of (child, o1) \<Rightarrow>
                  let s = s\<lparr>os := o1\<rparr> in
                  if child = 0 then do {
                    let s = osd (\<lambda>o1. c_close k wr (c_close k rd (c_dup2 k wr 1 o1))) s;
                    s \<leftarrow> exec_cmd k (sh_tokenize left) s;
                    Some (Exits (osd (c_exit k 0) s)) }
                  else do {
                    let s = osd (\<lambda>o1. c_close k wr (c_close k rd (c_dup2 k rd 0 o1))) s;
                    s \<leftarrow> exec_cmd k (sh_tokenize right) s;
                    Some (Goes (osd (\<lambda>o1. c_dup2 k 0 0 (c_wait k o1)) s)) })))"

text \<open>One round of \<open>main\<close>.\<close>

definition sh_round :: "('o, 'z) sh_calls_scheme \<Rightarrow> 'o sh \<Rightarrow> 'o sh_end option" where
  "sh_round k s = do {
     let s = out k (ascii ''user@epona:~$ '') s;
     r \<leftarrow> sh_readline_from k SH_LINE_MAX [] (os s);
     (case r of
        Interrupted o1 \<Rightarrow> Some (Goes (s\<lparr>os := o1\<rparr>))
      | Bye o1 \<Rightarrow> Some (Exits (s\<lparr>os := o1\<rparr>))
      | Line line o1 \<Rightarrow>
          let s = s\<lparr>os := o1\<rparr> in
          if line = [] then Some (Goes s)
          else if sh_starts_with (dropWhile (\<lambda>c. c = 32) line) (ascii ''exit'') then Some (Exits (outl k ''Goodbye!'' s))
          else if has_pipe line then exec_pipe k line s
          else if sh_tokenize line \<noteq> [] then map_option Goes (exec_cmd k (sh_tokenize line) s) else Some (Goes s)) }"

text \<open>\<open>main\<close>: the rounds until one of them ends the program.\<close>

partial_function (option) sh_rounds :: "('o, 'z) sh_calls_scheme \<Rightarrow> 'o sh \<Rightarrow> 'o sh option" where
  "sh_rounds k s = Option.bind (sh_round k s) (\<lambda>r. case r of Goes s \<Rightarrow> sh_rounds k s | Exits s \<Rightarrow> Some s)"

definition sh_main :: "('o, 'z) sh_calls_scheme \<Rightarrow> 'o sh \<Rightarrow> 'o sh option" where
  "sh_main k s = sh_rounds k (osd (c_signal k) s)"

end
