(* ===== verification/UserShellSpec.thy ===== *)
theory UserShellSpec
  imports UserShell
begin

text \<open>
  What the shell for users does: no word of a line is a redirection, the table of installed packages is a map from
  names, and the loop over a manifest finds what was written in it.
\<close>

section \<open>Words\<close>

lemma sh_tok_words: "w \<in> set (sh_tok mx n p) \<Longrightarrow> c \<in> set w \<Longrightarrow> \<not> is_stop c"
proof (induction mx n p rule: sh_tok.induct)
  case (1 mx n p)
  show ?case using 1 by (subst (asm) (2) sh_tok.simps) (auto simp: Let_def split: if_splits dest: set_takeWhileD)
qed

lemma find_redir_none: "(\<And>t. t \<in> set ts \<Longrightarrow> \<not> is_redir t) \<Longrightarrow> find_redir_out ts = None"
  by (induction ts) auto


section \<open>Installed packages\<close>

definition db_ok :: "installed_pkg list \<Rightarrow> bool" where
  "db_ok db \<longleftrightarrow> length db = EPP_MAX_INSTALLED \<and> distinct (map pk_name (filter pk_used db))"

text \<open>The version and the file of the packages in use, by name.\<close>

definition pkg_map :: "installed_pkg list \<Rightarrow> u8 list \<rightharpoonup> u8 list \<times> u8 list" where
  "pkg_map db = map_of (map (\<lambda>p. (pk_name p, pk_version p, pk_file p)) (filter pk_used db))"

lemma find_upt_Some:
  "find P [0..<n] = Some i \<longleftrightarrow> i < n \<and> P i \<and> (\<forall>j < i. \<not> P j)"
  by (auto simp: find_Some_iff)

lemma find_upt_None: "find P [0..<n] = None \<longleftrightarrow> (\<forall>i < n. \<not> P i)"
  by (auto simp: find_None_iff)

lemma db_names: "distinct (map pk_name (filter pk_used db)) \<longleftrightarrow>
  (\<forall>i < length db. \<forall>j < length db. i < j \<longrightarrow> pk_used (db ! i) \<longrightarrow> pk_used (db ! j) \<longrightarrow> pk_name (db ! i) \<noteq> pk_name (db ! j))"
proof (induction db)
  case (Cons p db)
  have "(\<forall>j < length db. pk_used (db ! j) \<longrightarrow> pk_name p \<noteq> pk_name (db ! j)) \<longleftrightarrow> pk_name p \<notin> pk_name ` {x \<in> set db. pk_used x}"
    by (auto simp: in_set_conv_nth)
  with Cons show ?case by (auto simp: All_less_Suc2)
qed simp

lemma db_unique:
  "db_ok db \<Longrightarrow> i < EPP_MAX_INSTALLED \<Longrightarrow> j < EPP_MAX_INSTALLED \<Longrightarrow> pk_used (db ! i) \<Longrightarrow> pk_used (db ! j) \<Longrightarrow>
   pk_name (db ! i) = pk_name (db ! j) \<Longrightarrow> i = j"
  by (metis db_names db_ok_def nat_neq_iff)

lemma db_okI:
  assumes "length db = EPP_MAX_INSTALLED"
    and "\<And>i j. i < EPP_MAX_INSTALLED \<Longrightarrow> j < EPP_MAX_INSTALLED \<Longrightarrow> pk_used (db ! i) \<Longrightarrow> pk_used (db ! j) \<Longrightarrow>
           pk_name (db ! i) = pk_name (db ! j) \<Longrightarrow> i = j"
  shows "db_ok db"
  using assms by (auto simp: db_ok_def db_names)

lemma pkg_map_iff:
  assumes "db_ok db"
  shows "pkg_map db n = Some (v, f) \<longleftrightarrow>
    (\<exists>i < EPP_MAX_INSTALLED. pk_used (db ! i) \<and> pk_name (db ! i) = n \<and> pk_version (db ! i) = v \<and> pk_file (db ! i) = f)"
proof -
  let ?l = "map (\<lambda>p. (pk_name p, pk_version p, pk_file p)) (filter pk_used db)"
  have "distinct (map fst ?l)" using assms by (simp add: db_ok_def comp_def)
  then have "pkg_map db n = Some (v, f) \<longleftrightarrow> (n, v, f) \<in> set ?l" by (simp add: pkg_map_def)
  also have "\<dots> \<longleftrightarrow> (\<exists>p \<in> set db. pk_used p \<and> pk_name p = n \<and> pk_version p = v \<and> pk_file p = f)" by auto
  also have "\<dots> \<longleftrightarrow> (\<exists>i < length db. pk_used (db ! i) \<and> pk_name (db ! i) = n \<and> pk_version (db ! i) = v \<and> pk_file (db ! i) = f)"
    by (simp only: Bex_def in_set_conv_nth) blast
  finally show ?thesis using assms by (simp add: db_ok_def)
qed

lemma ex_upd_iff:
  "i < n \<Longrightarrow> n = length db \<Longrightarrow> (\<exists>j < n. P (db[i := x] ! j)) \<longleftrightarrow> P x \<or> (\<exists>j < n. j \<noteq> i \<and> P (db ! j))"
  by (intro iffI) (auto simp: nth_list_update split: if_splits intro: exI [of _ i])

lemma map_eqI: "(\<And>x a b. m x = Some (a, b) \<longleftrightarrow> m' x = Some (a, b)) \<Longrightarrow> m = m'"
  by (rule ext) (metis not_None_eq prod.exhaust)

lemma installed_find_cases:
  "installed_find db n = Some i \<Longrightarrow> i < EPP_MAX_INSTALLED \<and> pk_used (db ! i) \<and> pk_name (db ! i) = n"
  "installed_find db n = None \<Longrightarrow> i < EPP_MAX_INSTALLED \<Longrightarrow> pk_used (db ! i) \<Longrightarrow> pk_name (db ! i) \<noteq> n"
  by (auto simp: installed_find_def find_upt_Some find_upt_None)

lemma put_pkg:
  assumes "db_ok db" "i < EPP_MAX_INSTALLED"
    and "\<And>j. j < EPP_MAX_INSTALLED \<Longrightarrow> pk_used (db ! j) \<Longrightarrow> pk_name (db ! j) = n \<Longrightarrow> j = i"
    and "pk_used (db ! i) \<Longrightarrow> pk_name (db ! i) = n"
  shows "db_ok (db[i := \<lparr>pk_name = n, pk_version = v, pk_file = f, pk_used = True\<rparr>]) \<and>
         pkg_map (db[i := \<lparr>pk_name = n, pk_version = v, pk_file = f, pk_used = True\<rparr>]) = (pkg_map db)(n \<mapsto> (v, f))"
    (is "db_ok ?db \<and> _")
proof -
  have len: "length db = EPP_MAX_INSTALLED" using assms(1) by (simp add: db_ok_def)
  have nth: "?db ! j = (if j = i then \<lparr>pk_name = n, pk_version = v, pk_file = f, pk_used = True\<rparr> else db ! j)" for j
    using assms(2) len by (simp add: nth_list_update)
  have ok: "db_ok ?db"
  proof (rule db_okI)
    fix j j'
    assume "j < EPP_MAX_INSTALLED" "j' < EPP_MAX_INSTALLED" "pk_used (?db ! j)" "pk_used (?db ! j')"
      "pk_name (?db ! j) = pk_name (?db ! j')"
    note * = this
    consider "j = i" "j' = i" | "j = i" "j' \<noteq> i" | "j \<noteq> i" "j' = i" | "j \<noteq> i" "j' \<noteq> i" by blast
    then show "j = j'"
    proof cases
      case 2
      then have "pk_used (db ! j')" "pk_name (db ! j') = n" using * nth [of j] nth [of j'] by simp_all
      then show ?thesis using assms(3) [OF *(2)] 2 by blast
    next
      case 3
      then have "pk_used (db ! j)" "pk_name (db ! j) = n" using * nth [of j] nth [of j'] by simp_all
      then show ?thesis using assms(3) [OF *(1)] 3 by blast
    next
      case 4
      then show ?thesis using * nth [of j] nth [of j'] db_unique [OF assms(1) *(1,2)] by metis
    qed simp
  qed (simp add: len)
  moreover have "pkg_map ?db = (pkg_map db)(n \<mapsto> (v, f))"
  proof (rule map_eqI)
    fix x a b
    have look: "pkg_map ?db x = Some (a, b) \<longleftrightarrow> (n = x \<and> v = a \<and> f = b) \<or> (\<exists>j < EPP_MAX_INSTALLED. j \<noteq> i \<and>
        pk_used (db ! j) \<and> pk_name (db ! j) = x \<and> pk_version (db ! j) = a \<and> pk_file (db ! j) = b)"
      unfolding pkg_map_iff [OF ok] using ex_upd_iff [OF assms(2) len [symmetric],
        of "\<lambda>p. pk_used p \<and> pk_name p = x \<and> pk_version p = a \<and> pk_file p = b"] by simp
    show "pkg_map ?db x = Some (a, b) \<longleftrightarrow> ((pkg_map db)(n \<mapsto> (v, f))) x = Some (a, b)"
    proof (cases "x = n")
      case True
      then show ?thesis unfolding look using assms(3) by auto
    next
      case False
      then have "pkg_map ?db x = Some (a, b) \<longleftrightarrow> (\<exists>j < EPP_MAX_INSTALLED. j \<noteq> i \<and>
          pk_used (db ! j) \<and> pk_name (db ! j) = x \<and> pk_version (db ! j) = a \<and> pk_file (db ! j) = b)"
        by (auto simp: look)
      also have "\<dots> \<longleftrightarrow> pkg_map db x = Some (a, b)"
        using assms(4) False by (auto simp: pkg_map_iff [OF assms(1)])
      finally show ?thesis using False by simp
    qed
  qed
  ultimately show ?thesis by simp
qed

lemma drop_pkg:
  assumes "db_ok db" "i < EPP_MAX_INSTALLED" "pk_used (db ! i)" "pk_name (db ! i) = n"
  shows "db_ok (db[i := (db ! i)\<lparr>pk_used := False\<rparr>]) \<and>
         pkg_map (db[i := (db ! i)\<lparr>pk_used := False\<rparr>]) = (pkg_map db)(n := None)" (is "db_ok ?db \<and> _")
proof -
  have len: "length db = EPP_MAX_INSTALLED" using assms(1) by (simp add: db_ok_def)
  have nth: "?db ! j = (if j = i then (db ! i)\<lparr>pk_used := False\<rparr> else db ! j)" for j
    using assms(2) len by (simp add: nth_list_update)
  have fields: "pk_used (?db ! j) = (j \<noteq> i \<and> pk_used (db ! j))" "pk_name (?db ! j) = pk_name (db ! j)"
    "pk_version (?db ! j) = pk_version (db ! j)" "pk_file (?db ! j) = pk_file (db ! j)" for j
    by (simp_all add: nth)
  have ok: "db_ok ?db"
    by (rule db_okI) (use len db_unique [OF assms(1)] in \<open>auto simp: fields\<close>)
  moreover have "pkg_map ?db = (pkg_map db)(n := None)"
  proof (rule map_eqI)
    fix x a b
    show "pkg_map ?db x = Some (a, b) \<longleftrightarrow> ((pkg_map db)(n := None)) x = Some (a, b)"
      using db_unique [OF assms(1)] assms(2,3,4)
      by (cases "x = n") (auto simp: pkg_map_iff [OF ok] pkg_map_iff [OF assms(1)] fields)
  qed
  ultimately show ?thesis by simp
qed

text \<open>
  C38: The table of the package manager is a map from names. In a table whose names differ, adding a package is an
  update of that map (an installed package of the same name is replaced) and leaves a table whose names differ;
  it fails exactly when all thirty-two slots hold other packages. Removing a package takes its name out of the map
  and fails exactly for a name that is not there.
\<close>

theorem installed_db_refines_map:
  assumes "db_ok db"
  shows "(case installed_add db n v f of
            Some db' \<Rightarrow> db_ok db' \<and> pkg_map db' = (pkg_map db)(n \<mapsto> (v, f))
          | None \<Rightarrow> (\<forall>i < EPP_MAX_INSTALLED. pk_used (db ! i)) \<and> n \<notin> dom (pkg_map db)) \<and>
         (case installed_remove db n of
            Some db' \<Rightarrow> n \<in> dom (pkg_map db) \<and> db_ok db' \<and> pkg_map db' = (pkg_map db)(n := None)
          | None \<Rightarrow> n \<notin> dom (pkg_map db))"
proof (rule conjI)
  have absent: "n \<notin> dom (pkg_map db)" if "installed_find db n = None"
    using installed_find_cases(2) [OF that] pkg_map_iff [OF assms, of n] by (auto simp: dom_def)
  show "case installed_add db n v f of
            Some db' \<Rightarrow> db_ok db' \<and> pkg_map db' = (pkg_map db)(n \<mapsto> (v, f))
          | None \<Rightarrow> (\<forall>i < EPP_MAX_INSTALLED. pk_used (db ! i)) \<and> n \<notin> dom (pkg_map db)"
  proof (cases "installed_find db n")
    case None
    note notin = installed_find_cases(2) [OF None]
    show ?thesis
      using put_pkg [OF assms, of _ n v f] notin absent [OF None]
      by (auto simp: installed_add_def None find_upt_Some find_upt_None split: option.splits)
  next
    case (Some i)
    note at = installed_find_cases(1) [OF Some]
    show ?thesis using put_pkg [OF assms, of i n v f] at db_unique [OF assms]
      by (auto simp: installed_add_def Some)
  qed
  show "case installed_remove db n of
            Some db' \<Rightarrow> n \<in> dom (pkg_map db) \<and> db_ok db' \<and> pkg_map db' = (pkg_map db)(n := None)
          | None \<Rightarrow> n \<notin> dom (pkg_map db)"
  proof (cases "installed_find db n")
    case None
    then show ?thesis using absent by (simp add: installed_remove_def)
  next
    case (Some i)
    note at = installed_find_cases(1) [OF Some]
    then have "n \<in> dom (pkg_map db)" using pkg_map_iff [OF assms, of n] by (force simp: dom_def)
    then show ?thesis using drop_pkg [OF assms] at by (simp add: installed_remove_def Some)
  qed
qed

definition no_pkg :: installed_pkg where "no_pkg = \<lparr>pk_name = [], pk_version = [], pk_file = [], pk_used = False\<rparr>"

lemma empty_db_ok: "db_ok (replicate EPP_MAX_INSTALLED no_pkg)"
  by (simp add: db_ok_def no_pkg_def EPP_MAX_INSTALLED_def)

lemma installed_db_refines_map_witness:
  "\<exists>db'. installed_add (replicate EPP_MAX_INSTALLED no_pkg) [97] [49] [102] = Some db' \<and> pkg_map db' [97] = Some ([49], [102])"
  using installed_db_refines_map [OF empty_db_ok, of "[97]" "[49]" "[102]"]
  by (auto simp: EPP_MAX_INSTALLED_def no_pkg_def dest: spec [of _ 0] split: option.splits)

section \<open>Manifests\<close>

definition manifest_text :: "(u8 list \<times> u8 list) list \<Rightarrow> u8 list" where
  "manifest_text kvs = concat (map (\<lambda>(key, v). key @ [61] @ v @ [10]) kvs)"

lemma manifest_text_simps [simp]:
  "manifest_text [] = []"
  "manifest_text ((key, v) # kvs) = key @ 61 # v @ 10 # manifest_text kvs"
  by (simp_all add: manifest_text_def)

lemma key_in_line:
  assumes "61 \<notin> set key" "61 \<notin> set key'"
  shows "(sh_starts_with (key' @ 61 # r) key \<and> length key < length (key' @ 61 # r) \<and> (key' @ 61 # r) ! length key = 61) \<longleftrightarrow> key = key'"
proof
  assume l: "sh_starts_with (key' @ 61 # r) key \<and> length key < length (key' @ 61 # r) \<and> (key' @ 61 # r) ! length key = 61"
  then have t: "take (length key) (key' @ 61 # r) = key" by (simp add: sh_starts_with_def)
  consider "length key < length key'" | "length key = length key'" | "length key' < length key" by linarith
  then show "key = key'"
  proof cases
    case 1
    then show ?thesis using l assms(2) by (metis nth_append nth_mem)
  next
    case 2
    then show ?thesis using t by simp
  next
    case 3
    then have "key ! length key' = (key' @ 61 # r) ! length key'" using t by (metis nth_take)
    also have "\<dots> = 61" by simp
    finally have "key ! length key' = 61" .
    then show ?thesis using assms(1) 3 by (metis nth_mem)
  qed
qed (simp add: sh_starts_with_def)

lemma skip_line:
  "10 \<notin> set key \<Longrightarrow> 10 \<notin> set v \<Longrightarrow> drop 1 (dropWhile not_eol (key @ 61 # v @ 10 # r)) = r"
  by (induction key) (auto simp: not_eol_def dropWhile_append3 dropWhile_append)

lemma value_of_line: "10 \<notin> set v \<Longrightarrow> takeWhile not_eol (v @ 10 # r) = v"
  by (induction v) (auto simp: not_eol_def)

lemma find_key_hit:
  "sh_starts_with p key \<and> length key < length p \<and> p ! length key = 61 \<Longrightarrow> find_key p key = Some (drop (length key + 1) p)"
  by (subst find_key.simps) auto

lemma find_key_miss:
  "p \<noteq> [] \<Longrightarrow> \<not> (sh_starts_with p key \<and> length key < length p \<and> p ! length key = 61) \<Longrightarrow>
   find_key p key = find_key (drop 1 (dropWhile not_eol p)) key"
  by (subst find_key.simps) auto

lemma find_key_manifest:
  assumes "61 \<notin> set key" "\<And>k' v. (k', v) \<in> set kvs \<Longrightarrow> 61 \<notin> set k' \<and> 10 \<notin> set k' \<and> 10 \<notin> set v"
  shows "map_option (takeWhile not_eol) (find_key (manifest_text kvs) key) = map_of kvs key"
  using assms(2)
proof (induction kvs)
  case Nil
  show ?case by (simp add: find_key.simps)
next
  case (Cons kv kvs)
  obtain k' v where kv: "kv = (k', v)" by (cases kv)
  have c: "61 \<notin> set k'" "10 \<notin> set k'" "10 \<notin> set v" using Cons.prems [of k' v] kv by auto
  have IH: "map_option (takeWhile not_eol) (find_key (manifest_text kvs) key) = map_of kvs key"
    by (rule Cons.IH) (use Cons.prems in auto)
  let ?p = "k' @ 61 # v @ 10 # manifest_text kvs"
  have line: "manifest_text (kv # kvs) = ?p" by (simp add: kv)
  show ?case
  proof (cases "key = k'")
    case True
    then have "find_key ?p key = Some (drop (length key + 1) ?p)"
      using key_in_line [OF assms(1) c(1), of "v @ 10 # manifest_text kvs"]
      by (intro find_key_hit) blast
    then have "find_key ?p key = Some (v @ 10 # manifest_text kvs)" using True by simp
    then show ?thesis using True value_of_line [OF c(3)] unfolding line by (simp add: kv)
  next
    case False
    then have "find_key ?p key = find_key (drop 1 (dropWhile not_eol ?p)) key"
      using key_in_line [OF assms(1) c(1), of "v @ 10 # manifest_text kvs"]
      by (intro find_key_miss) auto
    then show ?thesis using False IH unfolding line skip_line [OF c(2,3)] by (simp add: kv)
  qed
qed

text \<open>
  What a manifest says is found again: in the text made of lines \<open>key=value\<close> (no equals sign in a key, no end of
  line in a key or a value) the value of a key is the value of the first line with that key, cut to the buffer, and
  a key of no line is reported as missing. A key that is the beginning of another does not match it.
\<close>

theorem manifest_value_found:
  assumes "61 \<notin> set (ascii key)"
    and "\<And>k' v. (k', v) \<in> set kvs \<Longrightarrow> 61 \<notin> set k' \<and> 10 \<notin> set k' \<and> 10 \<notin> set v"
  shows "get_value (manifest_text kvs) key cap = map_option (take (cap - 1)) (map_of kvs (ascii key))"
  by (simp add: get_value_def find_key_manifest [OF assms, symmetric] option.map_comp comp_def)

lemma manifest_value_found_witness:
  "get_value (manifest_text [(ascii ''filename'', [120]), (ascii ''file'', [97, 98, 99])]) ''file'' 3 = Some [97, 98]"
  by (subst manifest_value_found) (auto simp: ascii_def)

end
