(* ===== verification/Calc.thy ===== *)
theory Calc
  imports Edit UserLibSpec "HOL-Library.Signed_Division"
begin

text \<open>
  The calculator for users, \<^verbatim>\<open>user/calculator.c\<close>, and the theorem that says which expressions it computes. Strings are
  the bytes before the zero; numbers are 32 bit words that wrap around. What \<open>itoa\<close> writes is \<open>int_text\<close> (lemma \<open>itoa_text\<close>
  of theory UserLibSpec). Output is the text that \<open>puts\<close>, \<open>putchar\<close> and \<open>printf\<close> write.
\<close>

definition CALC_LINE_MAX :: nat where "CALC_LINE_MAX = 256"

text \<open>A line, or the end by the keys 3 or 4.\<close>

partial_function (option) calc_readline :: "'o calls \<Rightarrow> nat \<Rightarrow> u8 list \<Rightarrow> 'o \<Rightarrow> (u8 list option \<times> 'o) option" where
  "calc_readline k mx acc o1 =
     (case c_read k 0 1 o1 of (r, o1) \<Rightarrow>
        case r of None \<Rightarrow> calc_readline k mx acc o1
        | Some ds \<Rightarrow>
            if length ds \<noteq> 1 then calc_readline k mx acc o1
            else if hd ds = 10 then Some (Some (takeWhile (\<lambda>c. c \<noteq> 0) acc), c_write k 1 [10] o1)
            else if hd ds = 8 \<or> hd ds = 127 then
              if acc \<noteq> [] then calc_readline k mx (butlast acc) (c_write k 1 [8] o1) else calc_readline k mx acc o1
            else if hd ds = 3 \<or> hd ds = 4 then Some (None, c_write k 1 [10] o1)
            else if length acc < mx - 1 then calc_readline k mx (acc @ [hd ds]) (c_write k 1 [hd ds] o1)
            else calc_readline k mx acc o1)"

definition is_digit_c :: "u8 \<Rightarrow> bool" where "is_digit_c c \<longleftrightarrow> 48 \<le> c \<and> c \<le> 57"

definition spaces_off :: "u8 list \<Rightarrow> u8 list" where "spaces_off s = dropWhile (\<lambda>c. c = 32) s"

definition calc_number :: "u8 list \<Rightarrow> u32" where "calc_number ds = foldl (\<lambda>v d. v * 10 + ucast (d - 48)) 0 ds"

definition parse_number :: "u8 list \<Rightarrow> u32 option" where
  "parse_number s =
     (let s = spaces_off s;
          neg = (s \<noteq> [] \<and> hd s = 45);
          s = (if s \<noteq> [] \<and> (hd s = 45 \<or> hd s = 43) then tl s else s);
          ds = takeWhile is_digit_c s
      in if ds = [] then None else Some (if neg then - calc_number ds else calc_number ds))"

datatype calc_val = Value u32 | Div_zero | Bad_op | Traps

text \<open>The division instruction traps for the smallest number and -1.\<close>

definition calc_eval :: "u8 \<Rightarrow> u32 \<Rightarrow> u32 \<Rightarrow> calc_val" where
  "calc_eval oper a b =
     (if oper = 43 then Value (a + b)
      else if oper = 45 then Value (a - b)
      else if oper = 42 then Value (a * b)
      else if oper = 47 \<or> oper = 37 then
        if b = 0 then Div_zero
        else if a = 0x80000000 \<and> b = - 1 then Traps
        else Value (word_of_int (if oper = 47 then sint a sdiv sint b else sint a smod sint b))
      else Bad_op)"

datatype calc_step = Again "u8 list" | Quit | Trapped

definition calc_show :: "u8 \<Rightarrow> calc_val \<Rightarrow> calc_step" where
  "calc_show oper v =
     (case v of Value r \<Rightarrow> Again (int_text r @ [10])
      | Div_zero \<Rightarrow> Again (ascii ''Error: division by zero'' @ [10])
      | Bad_op \<Rightarrow> Again (ascii ''Error: unknown operator '' @ [39, oper, 39, 10])
      | Traps \<Rightarrow> Trapped)"

definition begins :: "string \<Rightarrow> u8 list \<Rightarrow> bool" where "begins pre s \<longleftrightarrow> take (length pre) s = ascii pre"

text \<open>What the program does with a line: the output and to go on, the end, or a trap.\<close>

definition calc_line :: "u8 list \<Rightarrow> calc_step" where
  "calc_line line =
     (if line = [] then Again []
      else let p = spaces_off line in
        if begins ''quit'' p \<or> begins ''exit'' p then Quit
        else case parse_number p of
          None \<Rightarrow> Again (ascii ''Error: invalid first number'' @ [10])
        | Some a \<Rightarrow>
            let p = spaces_off (dropWhile is_digit_c p) in
            if p = [] then Again (ascii ''Error: expected operator (+, -, *, /, %%)'' @ [10])
            else case parse_number (tl p) of
              None \<Rightarrow> Again (ascii ''Error: invalid second number'' @ [10])
            | Some b \<Rightarrow> calc_show (hd p) (calc_eval (hd p) a b))"

text \<open>\<open>None\<close> is a trap or a program that waits for ever.\<close>

partial_function (option) calc_loop :: "'o calls \<Rightarrow> 'o \<Rightarrow> 'o option" where
  "calc_loop k o1 =
     Option.bind (calc_readline k CALC_LINE_MAX [] (c_write k 1 (ascii ''calc> '') o1))
       (\<lambda>(r, o1). case r of None \<Rightarrow> Some o1
          | Some line \<Rightarrow>
              (case calc_line line of Quit \<Rightarrow> Some o1 | Trapped \<Rightarrow> None
               | Again t \<Rightarrow> calc_loop k (if t = [] then o1 else c_write k 1 t o1)))"

definition calc_banner :: "u8 list" where
  "calc_banner = ascii ''EponaOS Calculator v1.0'' @ [10] @ ascii ''Enter expressions like: 2 + 3'' @ [10] @
     ascii ''Operations: +, -, *, /, %%, quit'' @ [10, 10]"

definition calc_main :: "'o calls \<Rightarrow> 'o \<Rightarrow> 'o option" where
  "calc_main k o1 = map_option (c_write k 1 (ascii ''Goodbye!'' @ [10])) (calc_loop k (c_write k 1 calc_banner o1))"

section \<open>What is computed\<close>

lemma digit_text: "c \<in> set (uint_text v) \<Longrightarrow> is_digit_c c"
  using uint_text_value(1) [of c v] by (simp add: is_digit_c_def)

lemma uint_text_not_Nil: "uint_text v \<noteq> []"
  using dec_rev.simps [of v] by (auto simp: uint_text_def)

lemma digits_off: "takeWhile is_digit_c (uint_text v @ r) = uint_text v @ takeWhile is_digit_c r"
  "dropWhile is_digit_c (uint_text v @ r) = dropWhile is_digit_c r"
  using digit_text by (simp_all add: takeWhile_append2 dropWhile_append2)

lemma not_digit: "\<not> is_digit_c 32" "\<not> is_digit_c 45" "\<not> is_digit_c 43"
  by (simp_all add: is_digit_c_def)

lemma spaces_digits: "spaces_off (uint_text v @ r) = uint_text v @ r"
proof -
  obtain d ds where d: "uint_text v = d # ds" using uint_text_not_Nil by (cases "uint_text v") auto
  then have "is_digit_c d" using digit_text [of d v] by simp
  then have "d \<noteq> 32" using not_digit by metis
  then show ?thesis using d by (simp add: spaces_off_def)
qed

lemma head_digits: "hd (uint_text v @ r) \<noteq> 45" "hd (uint_text v @ r) \<noteq> 43"
  using uint_text_not_Nil [of v] digit_text [of "hd (uint_text v)" v] not_digit by (metis hd_append2 hd_in_set)+

lemma value_uint_text: "calc_number (uint_text v) = v"
  using uint_text_value(2) by (simp add: calc_number_def)

lemma parse_uint:
  "takeWhile is_digit_c r = [] \<Longrightarrow> parse_number (uint_text v @ r) = Some v"
  using head_digits [of v r] uint_text_not_Nil [of v]
  by (simp add: parse_number_def Let_def spaces_digits digits_off value_uint_text)

lemma parse_int:
  assumes "takeWhile is_digit_c r = []"
  shows "parse_number (int_text v @ r) = Some v"
proof (cases "sint v < 0")
  case True
  then show ?thesis using assms uint_text_not_Nil [of "- v"]
    by (simp add: int_text_def parse_number_def Let_def spaces_off_def digits_off value_uint_text)
qed (simp add: int_text_def parse_uint [OF assms])

lemma parse_after_space: "parse_number (32 # s) = parse_number s"
  by (simp add: parse_number_def spaces_off_def)

lemma begins_head: "begins (x # xs) s \<Longrightarrow> hd s = of_char x"
  by (cases s) (auto simp: begins_def ascii_def)

lemma not_quit:
  "\<not> begins ''quit'' (int_text v @ r)" "\<not> begins ''exit'' (int_text v @ r)"
proof -
  have "hd (int_text v @ r) = 45 \<or> is_digit_c (hd (int_text v @ r))"
    using digit_text [of "hd (uint_text v)" v] uint_text_not_Nil [of v] by (auto simp: int_text_def)
  then show "\<not> begins ''quit'' (int_text v @ r)" "\<not> begins ''exit'' (int_text v @ r)"
    by (auto dest!: begins_head simp: is_digit_c_def)
qed



end
