(* ===== verification/Cursor.thy ===== *)
theory Cursor
  imports Gpu Sched Vfs Bytes
begin

text \<open>
  Mouse pointers from files, \<^verbatim>\<open>drivers/cursor.c\<close>: the file with its header, directory entry and picture is read through
  the virtual file system, and the picture is drawn with its transparency. \<open>None\<close> is an access behind the picture in
  memory or behind the pixels, or a fault below.
\<close>

definition CURSOR_MAX_W :: u32 where "CURSOR_MAX_W = 64"
definition CURSOR_MAX_H :: u32 where "CURSOR_MAX_H = 64"

record cursor_t =
  cwidth :: u16
  cheight :: u16
  chotspot_x :: u16
  chotspot_y :: u16
  cpixels :: "u32 list"

text \<open>The bytes of a row and of the picture.\<close>

definition row_size :: "u32 \<Rightarrow> u16 \<Rightarrow> u32" where "row_size w depth = ((w * ucast depth + 31) div 32) * 4"

text \<open>The pixel of column \<open>x\<close> and row \<open>y\<close>; the rows are stored from the last to the first, four bytes to a pixel.\<close>

definition cursor_pixel :: "u8 list \<Rightarrow> u32 \<Rightarrow> u32 \<Rightarrow> u32 \<Rightarrow> u32 \<Rightarrow> u32 option" where
  "cursor_pixel xor_data rs h x y =
     (let src_y = h - 1 - y; at = unat (src_y * rs + x * 4)
      in if at + 3 < length xor_data then Some (get_le 4 xor_data at) else None)"

text \<open>The loops over the rows and columns.\<close>

fun all_some :: "'a option list \<Rightarrow> 'a list option" where
  "all_some [] = Some []"
| "all_some (x # xs) = (case x of None \<Rightarrow> None | Some a \<Rightarrow> map_option ((#) a) (all_some xs))"

definition cursor_pixels :: "u8 list \<Rightarrow> u16 \<Rightarrow> u32 \<Rightarrow> u32 \<Rightarrow> u32 list option" where
  "cursor_pixels xor_data depth w h =
     all_some (map (\<lambda>i. cursor_pixel xor_data (row_size w depth) h (of_nat (i mod unat w)) (of_nat (i div unat w))) [0..<unat w * unat h])"

definition cursor_put_pixels :: "u32 list \<Rightarrow> u32 list \<Rightarrow> u32 list" where "cursor_put_pixels old px = px @ drop (length px) old"

definition cursor_close_file :: "u64 \<Rightarrow> 'd vfs \<Rightarrow> 'd vfs" where "cursor_close_file f s = s\<lparr>vheap := vfs_close (vheap s) (FFile f)\<rparr>"

text \<open>
  What \<open>cursor_load\<close> does with the open file: the sizes in the header are read at their offsets in the bytes read, and
  \<open>-1\<close> leaves the cursor as far as it was filled.
\<close>

definition cursor_parse :: "'d drivers \<Rightarrow> u64 \<Rightarrow> cursor_t \<Rightarrow> 'd vfs \<Rightarrow> (int \<times> cursor_t \<times> 'd vfs) option" where
  "cursor_parse drv f cur s = do {
     (n, ico, s) \<leftarrow> vfs_read drv s f 6;
     if n < 6 \<or> (get_le 2 ico 2 :: u16) \<noteq> 2 \<or> (get_le 2 ico 4 :: u16) = 0 then Some (- 1, cur, s)
     else do {
       (n, entry1, s) \<leftarrow> vfs_read drv s f 16;
       if n < 16 then Some (- 1, cur, s)
       else do {
         let cur = cur\<lparr>chotspot_x := get_le 2 entry1 4, chotspot_y := get_le 2 entry1 6\<rparr>;
         let s = s\<lparr>files := (files s)(f := (files s f)\<lparr>foffset := ucast (get_le 4 entry1 12 :: u32)\<rparr>)\<rparr>;
         (n, bmp, s) \<leftarrow> vfs_read drv s f 40;
         let w = get_le 4 bmp 4;
         let h = get_le 4 bmp 8 div 2;
         let depth = get_le 2 bmp 14;
         if n < 40 \<or> w > CURSOR_MAX_W \<or> h > CURSOR_MAX_H \<or> w = 0 \<or> h = 0 then Some (- 1, cur, s)
         else do {
           let cur = cur\<lparr>cwidth := ucast w, cheight := ucast h\<rparr>;
           let xor_size = row_size w depth * h;
           (p, hp) \<leftarrow> kmalloc (vheap s) (ucast xor_size);
           let s = s\<lparr>vheap := hp\<rparr>;
           if p = NULL then Some (- 1, cur, s)
           else do {
             (n, xor_data, s) \<leftarrow> vfs_read drv s f (ucast xor_size);
             if n < uint xor_size then Some (- 1, cur, s\<lparr>vheap := kfree (vheap s) p\<rparr>)
             else do {
               px \<leftarrow> cursor_pixels (take (unat xor_size) xor_data) depth w h;
               Some (0, cur\<lparr>cpixels := cursor_put_pixels (cpixels cur) px\<rparr>, s\<lparr>vheap := kfree (vheap s) p\<rparr>)
             }
           }
         }
       }
     }
   }"

definition cursor_load :: "'d drivers \<Rightarrow> cstring \<Rightarrow> cursor_t option \<Rightarrow> 'd vfs \<Rightarrow> (int \<times> cursor_t option \<times> 'd vfs) option" where
  "cursor_load drv name dest s =
     (case dest of None \<Rightarrow> Some (- 1, None, s)
      | Some cur \<Rightarrow> do {
          (f, s) \<leftarrow> vfs_open drv s name;
          if f = NULL then Some (- 1, Some cur, s)
          else do {
            (r, cur, s) \<leftarrow> cursor_parse drv f cur s;
            Some (r, Some cur, cursor_close_file f s)
          }
        })"

section \<open>Drawing\<close>

text \<open>A component of the mixture of the pixel and what is behind it.\<close>

definition blend :: "u8 \<Rightarrow> u32 \<Rightarrow> u32 \<Rightarrow> u32" where "blend a back front = (back * (255 - ucast a) + front * ucast a) div 255"

definition cursor_dot :: "cursor_t \<Rightarrow> int \<Rightarrow> int \<Rightarrow> nat \<Rightarrow> nat \<Rightarrow> gpu \<Rightarrow> gpu" where
  "cursor_dot cur x y py px g =
     (let argb = cpixels cur ! (py * unat (cwidth cur) + px); a = ucast (drop_bit 24 argb) in
      if a < 200 then g
      else
        let at_x = word_of_int (x + int px); at_y = word_of_int (y + int py);
            back = gpu_get_pixel g at_x at_y;
            part = \<lambda>k. blend a (drop_bit k back AND 0xFF) (drop_bit k argb AND 0xFF)
        in gpu_put_pixel g at_x at_y (push_bit 16 (part 16) OR push_bit 8 (part 8) OR part 0))"

definition cursor_render :: "cursor_t \<Rightarrow> int \<Rightarrow> int \<Rightarrow> gpu \<Rightarrow> gpu option" where
  "cursor_render cur x y g =
     (if unat (cwidth cur) * unat (cheight cur) > length (cpixels cur) then None
      else Some (fold (\<lambda>py. fold (\<lambda>px. cursor_dot cur x y py px) [0..<unat (cwidth cur)]) [0..<unat (cheight cur)] g))"

section \<open>The depth of the picture\<close>

lemma all_some_iff: "all_some xs \<noteq> None \<longleftrightarrow> None \<notin> set xs"
  by (induction xs) (auto split: option.splits)

lemma all_some_map: "all_some (map f [0..<n]) \<noteq> None \<longleftrightarrow> (\<forall>i < n. f i \<noteq> None)"
proof -
  have "None \<notin> set (map f [0..<n]) \<longleftrightarrow> (\<forall>i \<in> {0..<n}. None \<noteq> f i)" unfolding set_map by (simp only: image_iff set_upt) blast
  then show ?thesis unfolding all_some_iff by (metis atLeastLessThan_iff le0)
qed

lemma row_size_nat:
  assumes "w \<le> 64"
  shows "unat (row_size w depth) = (unat w * unat depth + 31) div 32 * 4"
proof -
  have w: "unat w \<le> 64" using assms by (simp add: word_le_nat_alt)
  have d: "unat depth < 65536" using unsigned_less [of depth, where ?'a = nat] by simp
  have "unat w * unat depth \<le> 64 * 65535" using w d by (intro mult_le_mono) simp_all
  then have b: "unat w * unat depth + 31 < 2 ^ 32" by simp
  have "unat (w * ucast depth + 31) = unat w * unat depth + 31"
    using b d by (simp add: unat_word_ariths unsigned_ucast_eq take_bit_eq_mod)
  moreover have "(unat w * unat depth + 31) div 32 * 4 < 2 ^ 32" using b by linarith
  ultimately show ?thesis by (simp add: row_size_def unat_word_ariths unat_div)
qed

lemma sub_rows:
  fixes h :: u32
  assumes "h \<le> 64" "j < unat h"
  shows "unat (h - 1 - of_nat j) = unat h - 1 - j"
proof -
  have h: "unat h \<le> 64" using assms(1) by (simp add: word_le_nat_alt)
  then have o: "unat (of_nat j :: u32) = j" using assms(2) by (simp add: unat_of_nat take_bit_eq_mod)
  have one: "unat (h - 1) = unat h - 1" using assms(2) by (simp add: unat_sub word_le_nat_alt)
  then show ?thesis using o assms(2) by (simp add: unat_sub word_le_nat_alt)
qed

text \<open>The offset of a pixel, without wrap-around.\<close>

lemma pixel_offset:
  assumes "w \<le> 64" "h \<le> 64" "i < unat w" "j < unat h"
  shows "unat ((h - 1 - of_nat j) * row_size w depth + of_nat i * 4) = (unat h - 1 - j) * unat (row_size w depth) + i * 4"
proof -
  have i: "unat (of_nat i :: u32) = i" using assms(1,3) by (simp add: word_le_nat_alt unat_of_nat take_bit_eq_mod)
  have d: "unat depth < 65536" using unsigned_less [of depth, where ?'a = nat] by simp
  have "unat w * unat depth \<le> 64 * 65535" using assms(1) d by (intro mult_le_mono) (simp_all add: word_le_nat_alt)
  then have rs: "unat (row_size w depth) \<le> 600000" unfolding row_size_nat [OF assms(1)] by linarith
  have "unat h - 1 - j \<le> 63" using assms(2) by (simp add: word_le_nat_alt)
  then have "(unat h - 1 - j) * unat (row_size w depth) \<le> 63 * 600000" using rs by (intro mult_le_mono)
  moreover have "i * 4 < 256" using assms(1,3) by (simp add: word_le_nat_alt)
  ultimately have b: "(unat h - 1 - j) * unat (row_size w depth) + i * 4 < 2 ^ 32" by simp
  then show ?thesis using i sub_rows [OF assms(2,4)] by (simp add: unat_word_ariths)
qed

lemma pixel_in_picture:
  assumes "w \<le> 64" "h \<le> 64" "i < unat w" "j < unat h" "length xor_data = unat (row_size w depth) * unat h"
  shows "cursor_pixel xor_data (row_size w depth) h (of_nat i) (of_nat j) \<noteq> None \<longleftrightarrow>
    (unat h - 1 - j) * unat (row_size w depth) + i * 4 + 3 < unat (row_size w depth) * unat h"
  using assms(5) by (simp add: cursor_pixel_def Let_def pixel_offset [OF assms(1-4)])

text \<open>
  The depth of the picture is not checked. The rows have the size for that depth, but four bytes are read for every
  pixel: exactly when a row has at least four bytes for each of its pixels, all of them lie in the picture that was read.
\<close>

theorem cursor_depth:
  assumes "0 < w" "w \<le> 64" "0 < h" "h \<le> 64" "length xor_data = unat (row_size w depth) * unat h"
  shows "cursor_pixels xor_data depth w h \<noteq> None \<longleftrightarrow> 4 * unat w \<le> unat (row_size w depth)"
proof -
  let ?w = "unat w" and ?h = "unat h" and ?r = "unat (row_size w depth)"
  have pos: "0 < ?w" "0 < ?h" using assms(1,3) by (simp_all add: word_less_nat_alt)
  have "cursor_pixels xor_data depth w h \<noteq> None \<longleftrightarrow>
     (\<forall>i < ?w * ?h. cursor_pixel xor_data (row_size w depth) h (of_nat (i mod ?w)) (of_nat (i div ?w)) \<noteq> None)"
    unfolding cursor_pixels_def by (rule all_some_map)
  also have "\<dots> \<longleftrightarrow> (\<forall>i < ?w. \<forall>j < ?h. (?h - 1 - j) * ?r + i * 4 + 3 < ?r * ?h)"
  proof (intro iffI allI impI)
    fix i j
    assume all: "\<forall>i < ?w * ?h. cursor_pixel xor_data (row_size w depth) h (of_nat (i mod ?w)) (of_nat (i div ?w)) \<noteq> None"
      and ij: "i < ?w" "j < ?h"
    have "j * ?w + i < ?w * ?h" using ij by (metis add.commute mult.commute nat_mult_1 add_mult_distrib add_less_mono1 less_le_trans Suc_leI mult_le_mono2 mult_Suc)
    then have "cursor_pixel xor_data (row_size w depth) h (of_nat i) (of_nat j) \<noteq> None" using all ij by force
    then show "(?h - 1 - j) * ?r + i * 4 + 3 < ?r * ?h" using pixel_in_picture [OF assms(2,4) ij assms(5)] by blast
  next
    fix i
    assume all: "\<forall>i < ?w. \<forall>j < ?h. (?h - 1 - j) * ?r + i * 4 + 3 < ?r * ?h" and i: "i < ?w * ?h"
    have "i mod ?w < ?w" "i div ?w < ?h" using pos i by (simp_all add: less_mult_imp_div_less mult.commute)
    then show "cursor_pixel xor_data (row_size w depth) h (of_nat (i mod ?w)) (of_nat (i div ?w)) \<noteq> None"
      using all pixel_in_picture [OF assms(2,4) _ _ assms(5)] by blast
  qed
  also have "\<dots> \<longleftrightarrow> 4 * ?w \<le> ?r"
  proof
    assume "\<forall>i < ?w. \<forall>j < ?h. (?h - 1 - j) * ?r + i * 4 + 3 < ?r * ?h"
    then have "(?h - 1 - 0) * ?r + (?w - 1) * 4 + 3 < ?r * ?h" using pos by simp
    then have "(?h - 1) * ?r + (?w - 1) * 4 + 3 < ?r * ?h" by (simp only: diff_zero)
    moreover have "?r * ?h = (?h - 1) * ?r + ?r" using pos(2) by (cases ?h) simp_all
    ultimately show "4 * ?w \<le> ?r" using pos(1) by linarith
  next
    assume le: "4 * ?w \<le> ?r"
    show "\<forall>i < ?w. \<forall>j < ?h. (?h - 1 - j) * ?r + i * 4 + 3 < ?r * ?h"
    proof (intro allI impI)
      fix i j
      assume ij: "i < ?w" "j < ?h"
      have "(?h - 1 - j) * ?r \<le> (?h - 1) * ?r" by (intro mult_le_mono1) linarith
      moreover have "?r * ?h = (?h - 1) * ?r + ?r" using pos(2) by (cases ?h) simp_all
      ultimately show "(?h - 1 - j) * ?r + i * 4 + 3 < ?r * ?h" using ij le by linarith
    qed
  qed
  finally show ?thesis .
qed

lemma cursor_depth_witness: "cursor_pixels (replicate 96 0) 24 8 4 = None"
  using cursor_depth [of 8 4 "replicate 96 0" 24] by (simp add: row_size_def)

end
