(* ===== verification/Boot.thy ===== *)
theory Boot
  imports KShell Cursor Fat Interrupts
begin

text \<open>
  The start of the kernel, \<^verbatim>\<open>kernel/main.c\<close>: the order in which \<open>kernel_main\<close> initialises the components, composed of
  their models, the file systems it mounts, the screen with the state of the system, and the first tasks. Messages on the serial line are left out. \<open>None\<close> is a fault.
\<close>

section \<open>What the kernel starts with\<close>

text \<open>
  The hardware, the memory map of the boot loader and the value of CR3; how deep the stack lets \<open>pci_check_bus\<close> call
  itself; what the uninitialised buffer of \<open>fat_write\<close> holds; the address of the network card, the packets that arrive
  during the polls, the addresses of the task functions, and those of the tables, the stack and the assembly stubs.
\<close>

record 'h boot_env =
  e_io :: "'h ports"
  e_map :: "e820_entry list"
  e_cr3 :: u64
  e_depth :: nat
  e_junk :: "u8 list"
  e_nic :: "u8 list option"
  e_rx :: "nat \<Rightarrow> ((nat \<Rightarrow> u8) \<times> int) option"
  e_idle :: u64
  e_gdt :: "u64 \<times> u64 \<times> u64"
  e_stubs :: "(nat \<Rightarrow> u64) \<times> (nat \<Rightarrow> u64) \<times> u64"
  e_tasks :: "u64 list"

text \<open>The static variables of the components; the hardware is in the file system, memory in its heap.\<close>

record 'h system =
  y_fs :: "'h fatfs"
  y_gpu :: gpu
  y_mouse :: mouse
  y_pci :: pci
  y_acpi :: acpi
  y_net :: net
  y_sched :: sched
  y_gdt :: "u64 list \<times> tss \<times> u16 \<times> u64"
  y_idt :: "idt_entry list"

definition y_hw :: "'h system \<Rightarrow> 'h" where "y_hw y = hw (drive (y_fs y))"
definition put_hw :: "'h \<Rightarrow> 'h system \<Rightarrow> 'h system" where "put_hw h y = y\<lparr>y_fs := set_hw h (y_fs y)\<rparr>"
definition put_heap :: "heap \<Rightarrow> 'h system \<Rightarrow> 'h system" where "put_heap k y = y\<lparr>y_fs := (y_fs y)\<lparr>vheap := k\<rparr>\<rparr>"

section \<open>Initialisation\<close>

text \<open>From \<open>serial_init\<close> to \<open>heap_init\<close>.\<close>

definition boot_memory :: "'h boot_env \<Rightarrow> 'h system \<Rightarrow> 'h system option" where
  "boot_memory e y = do {
     let h = serial_init (e_io e) (y_hw y);
     let g = gpu_init (y_gpu y);
     let gdt = (case e_gdt e of (gdt_at, tss_at, stack_end) \<Rightarrow> gdt_init gdt_at tss_at stack_end);
     let idt = (case e_stubs e of (isrs, irqs, int80_stub) \<Rightarrow> idt_init isrs irqs int80_stub (y_idt y));
     h \<leftarrow> pit_init (e_io e) (pic_remap (e_io e) h) 100;
     let k = vheap (y_fs y);
     let k = k\<lparr>mach := paging_load_cr3 (e_cr3 e) ((mach k)\<lparr>frames := pmm_init (e_map e)\<rparr>)\<rparr>;
     (case heap_init k of
        Inl _ \<Rightarrow> None
      | Inr k \<Rightarrow> Some (put_heap k (put_hw h (y\<lparr>y_gpu := g, y_gdt := gdt, y_idt := idt\<rparr>)))) }"

text \<open>From \<open>gpu_init_framebuffer\<close> to the identification of the first drive.\<close>

definition boot_devices :: "'h boot_env \<Rightarrow> 'h system \<Rightarrow> 'h system option" where
  "boot_devices e y = do {
     (k, g) \<leftarrow> gpu_init_framebuffer (vheap (y_fs y)) (y_gpu y);
     (h, p) \<leftarrow> pci_enumerate (e_io e) (e_depth e) (y_hw y, y_pci y);
     let (h, ms) = mouse_init (e_io e) h (y_mouse y);
     let a = acpi_init (ram (mach k)) (y_acpi y);
     let (present, h) = ata_drive_present (e_io e) 0 h;
     let h = (if present then snd (snd (ata_identify (e_io e) 0 True h)) else h);
     Some (put_heap k (put_hw h (y\<lparr>y_gpu := g, y_pci := p, y_mouse := ms, y_acpi := a\<rparr>))) }"

text \<open>The first drive that has a FAT file system, the second drive of the bus before the first.\<close>

definition boot_mount :: "'h boot_env \<Rightarrow> 'h fatfs \<Rightarrow> 'h fatfs option" where
  "boot_mount e s = do {
     let s = vfs_init s;
     let drv = (\<lambda>_. fat_ops (e_io e) (e_junk e));
     (fs, s) \<leftarrow> fat_mount (e_io e) s 0 False;
     if fs \<noteq> NULL then do {
       let (_, s) = vfs_mount s (text_of ''/'') fs;
       (_, s) \<leftarrow> vfs_readdir drv s (text_of ''/'');
       (f, s) \<leftarrow> vfs_open drv s (text_of ''/hello.txt'');
       if f = NULL then Some s
       else do {
         (_, _, s) \<leftarrow> vfs_read drv s f 63;
         Some (cursor_close_file f s) }
     }
     else do {
       (fs, s) \<leftarrow> fat_mount (e_io e) s 0 True;
       Some (if fs \<noteq> NULL then snd (vfs_mount s (text_of ''/'') fs) else s) } }"

definition NET_POLLS :: nat where "NET_POLLS = 5000000"

definition boot_net :: "'h boot_env \<Rightarrow> net \<Rightarrow> net" where
  "boot_net e n = fold (\<lambda>i. net_poll (e_rx e i)) [0..<NET_POLLS] (net_init (e_nic e) n)"

section \<open>The screen\<close>

definition say_in :: "u8 \<Rightarrow> u8 list \<Rightarrow> gpu \<Rightarrow> gpu" where "say_in col t g = gpu_print (gpu_set_color g col 0x00) t"

text \<open>The register of the graphics card in hexadecimal.\<close>

fun bar_chars :: "nat \<Rightarrow> u32 \<Rightarrow> u8 list \<Rightarrow> u8 list" where
  "bar_chars 0 v acc = acc"
| "bar_chars (Suc i) v acc = (if v = 0 then acc else bar_chars i (drop_bit 4 v) (text_of ''0123456789ABCDEF'' ! unat (v AND 0xF) # acc))"

definition bar_text :: "u32 \<Rightarrow> u8 list" where "bar_text v = (if v = 0 then [48] else bar_chars 8 v [])"

definition say_gpu :: "gpu_info option \<Rightarrow> gpu \<Rightarrow> gpu" where
  "say_gpu gi g =
     (case gi of
        None \<Rightarrow> say_in 0x0E (text_of ''GPU: VBE framebuffer'' @ newline) g
      | Some i \<Rightarrow>
          let g = say_in 0x0A (text_of ''GPU: '') g;
              g = gpu_print g (text_of (if is_intel i then ''Intel'' else if is_nvidia i then ''NVIDIA'' else if is_amd i then ''AMD'' else ''Unknown''))
          in gpu_print (gpu_print (gpu_print g (text_of '' (BAR0='')) (bar_text (gi_bar0 i))) (text_of '')'' @ newline))"

definition boot_two_digits :: "u8 \<Rightarrow> u8 list" where "boot_two_digits v = (if v < 10 then [48] else []) @ print_u64 (ucast v)"

definition say_time :: "rtc_time \<Rightarrow> gpu \<Rightarrow> gpu" where
  "say_time t g =
     (let g = gpu_print (say_in 0x0F (text_of ''Date: '') g) (print_u64 (ucast (day t)) @ [47] @ print_u64 (ucast (month t)) @ [47] @ print_u64 (ucast (year t)));
          g = gpu_print (gpu_print g (text_of ''  Time: '')) (print_u64 (ucast (hours t)) @ [58])
      in gpu_print g (boot_two_digits (minutes t) @ [58] @ boot_two_digits (seconds t) @ newline))"

text \<open>\<open>print_preview\<close>: blanks for ends of lines and tabulators.\<close>

definition print_preview :: "u8 list \<Rightarrow> nat \<Rightarrow> gpu \<Rightarrow> gpu" where
  "print_preview s mx g = fold (\<lambda>c g. if c = 13 \<or> c = 10 \<or> c = 9 then gpu_print g [32] else gpu_putc g c) (take mx s) g"

definition say_net :: "net \<Rightarrow> gpu \<Rightarrow> gpu" where
  "say_net n g =
     (let g = (if net_is_configured n then gpu_print (gpu_print (say_in 0x0A (text_of ''NET: '') g) (print_ip (net_local_ip n))) newline
               else say_in 0x0C (text_of ''NET: offline'' @ newline) g);
          g = (if net_dns_answer_ip n \<noteq> 0
               then gpu_print (gpu_print (say_in 0x0A (text_of ''DNS: example.com = '') g) (print_ip (net_dns_answer_ip n))) newline else g);
          g = say_in (if net_http_ok n then 0x0A else 0x0C) (text_of (if net_http_ok n then ''HTTP: GET / OK'' else ''HTTP: sem resposta'') @ newline) g;
          g = (if net_http_body_len n \<noteq> 0
               then gpu_print (print_preview (net_http_body_preview n) 66 (say_in 0x0E (text_of ''HTML: '') g)) newline else g)
      in gpu_set_color g 0x0F 0x00)"

text \<open>The screen before the shell; looking for the graphics card and reading the clock change the state.\<close>

definition boot_status :: "'h boot_env \<Rightarrow> 'h system \<Rightarrow> 'h system" where
  "boot_status e y =
     (let g = say_in 0x0B (text_of ''=== EponaOS ==='' @ newline) (y_gpu y);
          g = gpu_print (say_in 0x0F (text_of ''Kernel x86_64 long mode'' @ newline) g) (text_of ''RAM: '');
          g = gpu_print (gpu_print g (print_u64 (pmm_total_bytes (frames (mach (vheap (y_fs y)))) div (1024 * 1024)))) (text_of '' MiB'' @ newline);
          (gi, p) = pci_find_gpu (y_pci y);
          g = say_gpu gi g;
          g = gpu_print (say_in 0x0A (text_of ''ACPI: '') g) (text_of (if pm1a_cnt (y_acpi y) \<noteq> 0 then ''OK'' else ''not found''));
          g = gpu_print g newline;
          (t, h) = rtc_read_time (e_io e) (y_hw y);
          g = say_net (y_net y) (say_time t g)
      in put_hw h (y\<lparr>y_gpu := g, y_pci := p\<rparr>))"

section \<open>The kernel\<close>

text \<open>The tasks take their frames from the memory that the heap uses as well.\<close>

definition with_sched :: "(sched \<Rightarrow> sched) \<Rightarrow> 'h system \<Rightarrow> 'h system" where
  "with_sched f y = (let s = f ((y_sched y)\<lparr>kheap := vheap (y_fs y)\<rparr>) in put_heap (kheap s) (y\<lparr>y_sched := s\<rparr>))"

definition boot_tasks :: "u64 list \<Rightarrow> sched \<Rightarrow> sched" where
  "boot_tasks ts s = fold (\<lambda>t s. snd (task_create s t)) ts s"

text \<open>\<open>kernel_main\<close> up to the call of \<open>shell_run\<close>.\<close>

definition kernel_main :: "'h boot_env \<Rightarrow> 'h system \<Rightarrow> 'h system option" where
  "kernel_main e y = do {
     y \<leftarrow> boot_memory e y;
     y \<leftarrow> boot_devices e y;
     s \<leftarrow> boot_mount e (y_fs y);
     let y = y\<lparr>y_fs := s, y_net := boot_net e (y_net y)\<rparr>;
     let y = with_sched (\<lambda>s. scheduler_init (s\<lparr>cpu_cr3 := e_cr3 e\<rparr>) (e_idle e)) y;
     let y = boot_status e y;
     let y = with_sched (boot_tasks (e_tasks e)) y;
     Some (y\<lparr>y_gpu := gpu_print (y_gpu y) (text_of ''Digite '' @ [39] @ text_of ''help'' @ [39] @ text_of '' para comandos.'' @ newline @ newline)\<rparr>) }"

section \<open>The first tasks\<close>

lemma same_entry: "same_task t t' \<Longrightarrow> entry t = entry t'"
  by (cases t; cases t'; simp add: same_task_def)

lemma same_task_trans: "same_task t t' \<Longrightarrow> same_task t' t'' \<Longrightarrow> same_task t t''"
  by (simp add: same_task_def)

text \<open>One task more, when two frames are left.\<close>

lemma create_step:
  assumes "ring (tasks s) (c # ts)" "g_current s = c" "frames_left (Suc (Suc n)) (sched_frames s)"
    and "set (c # ts) \<inter> pmm_avail (sched_frames s) = {}"
  shows "\<exists>t s'. task_create s ent = (g_next_pid s, s') \<and> ring (tasks s') (c # t # ts) \<and> g_current s' = c \<and>
    frames_left n (sched_frames s') \<and> set (c # t # ts) \<inter> pmm_avail (sched_frames s') = {} \<and>
    entry (tasks s' t) = ent \<and> tstate (tasks s' t) = TASK_READY \<and> (\<forall>b \<in> set (c # ts). same_task (tasks s' b) (tasks s b))"
proof -
  obtain t fr1 st fr2 where a: "pmm_alloc (sched_frames s) = (t, fr1)" "pmm_alloc fr1 = (st, fr2)" by (metis prod.exhaust)
  have inv: "pmm_inv (sched_frames s)" using assms(3) by (simp add: frames_left_def)
  note l1 = pmm_alloc_left [OF assms(3), unfolded a(1), simplified]
  note l2 = pmm_alloc_left [OF l1(2), unfolded a(2), simplified]
  have inv1: "pmm_inv fr1" using l1(2) by (simp add: frames_left_def)
  have t: "t \<in> pmm_avail (sched_frames s)" "pmm_avail fr1 = pmm_avail (sched_frames s) - {t}"
    using pmm_frames.alloc_some [OF inv a(1) l1(1)] by auto
  have av: "pmm_avail fr2 = pmm_avail fr1 - {st}" using pmm_frames.alloc_some [OF inv1 a(2) l2(1)] by simp
  obtain s' where s': "task_create s ent = (g_next_pid s, s')" "ring (tasks s') (c # t # ts)" "g_current s' = c"
      "t \<notin> set (c # ts)" "sched_frames s' = fr2" "\<forall>b. b \<noteq> t \<longrightarrow> same_task (tasks s' b) (tasks s b)"
      "tasks s' t = task_zero\<lparr>pid := g_next_pid s, ppid := pid (tasks s c), rsp := st + 0x3FC8, entry := ent,
         kernel_stack_base := st, tnext := tnext (tasks s c)\<rparr>"
    using task_create_result [OF assms(1,2) inv assms(4) a l2(1), of ent] by metis
  have "set (c # t # ts) \<inter> pmm_avail (sched_frames s') = {}" unfolding s'(5) using assms(4) t av by auto
  moreover have "\<forall>b \<in> set (c # ts). same_task (tasks s' b) (tasks s b)" using s'(4,6) by metis
  moreover have "entry (tasks s' t) = ent" "tstate (tasks s' t) = TASK_READY" by (simp_all add: s'(7), simp add: task_zero_def)
  moreover have "frames_left n (sched_frames s')" using l2(2) by (simp only: s'(5))
  ultimately show ?thesis using s'(1-3,5) by blast
qed

lemma boot_tasks_Cons: "boot_tasks (e # es) s = boot_tasks es (snd (task_create s e))"
  by (simp add: boot_tasks_def)

text \<open>
  With two frames for each of them, the tasks that the kernel creates at its start are all ready and stand behind the
  current task in the circular list of the scheduler, the last one first, each with its own entry point; the tasks that
  were there before only change in their links.
\<close>

theorem boot_tasks_ring:
  assumes "ring (tasks s) (c # ts)" "g_current s = c" "frames_left (2 * length es) (sched_frames s)"
    and "set (c # ts) \<inter> pmm_avail (sched_frames s) = {}"
  shows "\<exists>new. ring (tasks (boot_tasks es s)) (c # new @ ts) \<and> map (\<lambda>t. entry (tasks (boot_tasks es s) t)) new = rev es \<and>
    (\<forall>t \<in> set new. tstate (tasks (boot_tasks es s) t) = TASK_READY) \<and>
    (\<forall>b \<in> set (c # ts). same_task (tasks (boot_tasks es s) b) (tasks s b))"
  using assms
proof (induction es arbitrary: s ts)
  case Nil
  then show ?case by (intro exI [of _ "[]"]) (simp add: boot_tasks_def)
next
  case (Cons e es)
  obtain t s' where s': "task_create s e = (g_next_pid s, s')" "ring (tasks s') (c # t # ts)" "g_current s' = c"
    "frames_left (2 * length es) (sched_frames s')" "set (c # t # ts) \<inter> pmm_avail (sched_frames s') = {}"
    "entry (tasks s' t) = e" "tstate (tasks s' t) = TASK_READY" "\<forall>b \<in> set (c # ts). same_task (tasks s' b) (tasks s b)"
    using create_step [OF Cons.prems(1,2), of "2 * length es" e] Cons.prems(3,4) by auto
  let ?s = "boot_tasks es s'"
  obtain new where n: "ring (tasks ?s) (c # new @ t # ts)" "map (\<lambda>t. entry (tasks ?s t)) new = rev es"
    "\<forall>t \<in> set new. tstate (tasks ?s t) = TASK_READY" "\<forall>b \<in> set (c # t # ts). same_task (tasks ?s b) (tasks s' b)"
    using Cons.IH [OF s'(2-5)] by blast
  have t: "same_task (tasks ?s t) (tasks s' t)" using n(4) by simp
  have "same_task (tasks ?s b) (tasks s b)" if b: "b \<in> set (c # ts)" for b
  proof -
    have "b \<in> set (c # t # ts)" using b by auto
    then have "same_task (tasks ?s b) (tasks s' b)" using n(4) by (rule bspec [rotated])
    then show ?thesis using bspec [OF s'(8) b] by (rule same_task_trans)
  qed
  moreover have "boot_tasks (e # es) s = ?s" by (simp add: boot_tasks_Cons s'(1))
  ultimately show ?case using n(1,2,3) s'(6,7) same_entry [OF t] same_task_fields(1) [OF t]
    by (intro exI [of _ "new @ [t]"]) simp
qed

lemma boot_tasks_ring_witness:
  "\<exists>new. ring (tasks (boot_tasks [0x101, 0x102, 0x103] demo_one)) (0x1000 # new) \<and>
     map (\<lambda>t. entry (tasks (boot_tasks [0x101, 0x102, 0x103] demo_one) t)) new = [0x103, 0x102, 0x101]"
proof -
  have "frames_left (2 * length [0x101, 0x102, 0x103 :: u64]) (sched_frames demo_one)"
    using boot_low_left demo_one_facts(3) by (simp add: frames_left_def)
  from boot_tasks_ring [OF demo_one_facts(1,2) this demo_one_facts(4)] show ?thesis by auto
qed

end
