(* ===== verification/LibC.thy ===== *)
theory LibC
  imports SyscallSpec
begin

text \<open>
  The system calls as user programs see them, \<^verbatim>\<open>user/libc.h\<close>: every wrapper puts the number of the call and its arguments
  into registers, enters the kernel and gives back the register \<open>rax\<close>, as an \<open>int\<close> but for \<open>sys_brk\<close>. Registers without
  an argument keep what the compiler left in them. Integer arguments are extended with their sign.
\<close>

section \<open>Entering the kernel\<close>

text \<open>The instruction \<open>int 0x80\<close> with the registers set; the stub saves them for \<open>syscall_handler_c\<close> and loads them again.\<close>

definition int80 :: "'d env \<Rightarrow> regs \<Rightarrow> 'd kernel \<Rightarrow> 'd result" where "int80 env r k = syscall_handler_c env r k"

definition of_c_int :: "int \<Rightarrow> u64" where "of_c_int i = word_of_int i"

definition call0 :: "'d env \<Rightarrow> u64 \<Rightarrow> regs \<Rightarrow> 'd kernel \<Rightarrow> 'd result" where "call0 env n r k = int80 env (r\<lparr>r_rax := n\<rparr>) k"
definition call1 :: "'d env \<Rightarrow> u64 \<Rightarrow> u64 \<Rightarrow> regs \<Rightarrow> 'd kernel \<Rightarrow> 'd result" where
  "call1 env n a r k = int80 env (r\<lparr>r_rax := n, r_rdi := a\<rparr>) k"
definition call2 :: "'d env \<Rightarrow> u64 \<Rightarrow> u64 \<Rightarrow> u64 \<Rightarrow> regs \<Rightarrow> 'd kernel \<Rightarrow> 'd result" where
  "call2 env n a b r k = int80 env (r\<lparr>r_rax := n, r_rdi := a, r_rsi := b\<rparr>) k"
definition call3 :: "'d env \<Rightarrow> u64 \<Rightarrow> u64 \<Rightarrow> u64 \<Rightarrow> u64 \<Rightarrow> regs \<Rightarrow> 'd kernel \<Rightarrow> 'd result" where
  "call3 env n a b c r k = int80 env (r\<lparr>r_rax := n, r_rdi := a, r_rsi := b, r_rdx := c\<rparr>) k"

text \<open>\<open>return (int)rax;\<close>\<close>

type_synonym 'd ucall = "(int \<times> regs \<times> 'd kernel) option"

definition c_ret :: "'d result \<Rightarrow> 'd ucall" where "c_ret = map_option (\<lambda>(r, k). (sint (ucast (r_rax r) :: u32), r, k))"

section \<open>The wrappers\<close>

definition libc_exit :: "'d env \<Rightarrow> int \<Rightarrow> regs \<Rightarrow> 'd kernel \<Rightarrow> 'd result" where "libc_exit env code = call1 env 0 (of_c_int code)"

definition libc_write :: "'d env \<Rightarrow> int \<Rightarrow> u64 \<Rightarrow> u64 \<Rightarrow> regs \<Rightarrow> 'd kernel \<Rightarrow> 'd ucall" where
  "libc_write env fd1 b n r k = c_ret (call3 env 1 (of_c_int fd1) b n r k)"
definition libc_open :: "'d env \<Rightarrow> u64 \<Rightarrow> regs \<Rightarrow> 'd kernel \<Rightarrow> 'd ucall" where "libc_open env p r k = c_ret (call1 env 2 p r k)"
definition libc_read :: "'d env \<Rightarrow> int \<Rightarrow> u64 \<Rightarrow> u64 \<Rightarrow> regs \<Rightarrow> 'd kernel \<Rightarrow> 'd ucall" where
  "libc_read env fd1 b n r k = c_ret (call3 env 3 (of_c_int fd1) b n r k)"
definition libc_close :: "'d env \<Rightarrow> int \<Rightarrow> regs \<Rightarrow> 'd kernel \<Rightarrow> 'd ucall" where
  "libc_close env fd1 r k = c_ret (call1 env 4 (of_c_int fd1) r k)"
definition libc_readdir :: "'d env \<Rightarrow> u64 \<Rightarrow> u64 \<Rightarrow> u64 \<Rightarrow> regs \<Rightarrow> 'd kernel \<Rightarrow> 'd ucall" where
  "libc_readdir env p b n r k = c_ret (call3 env 5 p b n r k)"
definition libc_exec :: "'d env \<Rightarrow> u64 \<Rightarrow> regs \<Rightarrow> 'd kernel \<Rightarrow> 'd ucall" where "libc_exec env p r k = c_ret (call1 env 6 p r k)"
definition libc_create :: "'d env \<Rightarrow> u64 \<Rightarrow> regs \<Rightarrow> 'd kernel \<Rightarrow> 'd ucall" where "libc_create env p r k = c_ret (call1 env 7 p r k)"
definition libc_unlink :: "'d env \<Rightarrow> u64 \<Rightarrow> regs \<Rightarrow> 'd kernel \<Rightarrow> 'd ucall" where "libc_unlink env p r k = c_ret (call1 env 8 p r k)"
definition libc_stat :: "'d env \<Rightarrow> u64 \<Rightarrow> u64 \<Rightarrow> u64 \<Rightarrow> regs \<Rightarrow> 'd kernel \<Rightarrow> 'd ucall" where
  "libc_stat env p sz flags r k = c_ret (call3 env 9 p sz flags r k)"
definition libc_pipe :: "'d env \<Rightarrow> u64 \<Rightarrow> regs \<Rightarrow> 'd kernel \<Rightarrow> 'd ucall" where "libc_pipe env fds r k = c_ret (call1 env 10 fds r k)"
definition libc_fork :: "'d env \<Rightarrow> regs \<Rightarrow> 'd kernel \<Rightarrow> 'd ucall" where "libc_fork env r k = c_ret (call0 env 11 r k)"
definition libc_wait :: "'d env \<Rightarrow> u64 \<Rightarrow> regs \<Rightarrow> 'd kernel \<Rightarrow> 'd ucall" where "libc_wait env st r k = c_ret (call1 env 12 st r k)"
definition libc_getpid :: "'d env \<Rightarrow> regs \<Rightarrow> 'd kernel \<Rightarrow> 'd ucall" where "libc_getpid env r k = c_ret (call0 env 13 r k)"
definition libc_getppid :: "'d env \<Rightarrow> regs \<Rightarrow> 'd kernel \<Rightarrow> 'd ucall" where "libc_getppid env r k = c_ret (call0 env 14 r k)"
definition libc_kill :: "'d env \<Rightarrow> int \<Rightarrow> int \<Rightarrow> regs \<Rightarrow> 'd kernel \<Rightarrow> 'd ucall" where
  "libc_kill env p sig r k = c_ret (call2 env 15 (of_c_int p) (of_c_int sig) r k)"

text \<open>\<open>sys_signal\<close> gives back the new handler, whatever the kernel answers.\<close>

definition libc_signal :: "'d env \<Rightarrow> int \<Rightarrow> u64 \<Rightarrow> regs \<Rightarrow> 'd kernel \<Rightarrow> (u64 \<times> regs \<times> 'd kernel) option" where
  "libc_signal env sig h r k = map_option (Pair h) (call2 env 16 (of_c_int sig) h r k)"

definition libc_dup2 :: "'d env \<Rightarrow> int \<Rightarrow> int \<Rightarrow> regs \<Rightarrow> 'd kernel \<Rightarrow> 'd ucall" where
  "libc_dup2 env o1 n1 r k = c_ret (call2 env 18 (of_c_int o1) (of_c_int n1) r k)"
definition libc_chdir :: "'d env \<Rightarrow> u64 \<Rightarrow> regs \<Rightarrow> 'd kernel \<Rightarrow> 'd ucall" where "libc_chdir env p r k = c_ret (call1 env 19 p r k)"
definition libc_getcwd :: "'d env \<Rightarrow> u64 \<Rightarrow> u64 \<Rightarrow> regs \<Rightarrow> 'd kernel \<Rightarrow> 'd ucall" where
  "libc_getcwd env b n r k = c_ret (call2 env 20 b n r k)"
definition libc_reboot :: "'d env \<Rightarrow> u64 \<Rightarrow> regs \<Rightarrow> 'd kernel \<Rightarrow> 'd ucall" where "libc_reboot env c r k = c_ret (call1 env 21 c r k)"
definition libc_brk :: "'d env \<Rightarrow> u64 \<Rightarrow> regs \<Rightarrow> 'd kernel \<Rightarrow> (u64 \<times> regs \<times> 'd kernel) option" where
  "libc_brk env a r k = map_option (\<lambda>(r, k). (r_rax r, r, k)) (call1 env 17 a r k)"

section \<open>A pipe from end to end\<close>

lemma low_half: "(ucast (word_of_int i :: u64) :: u32) = word_of_int i"
  by (rule bit_word_eqI) (simp add: bit_simps)

lemma arg_of_c_int: "arg_int (of_c_int i) = int32 i"
  by (simp add: of_c_int_def int32_def low_half)

lemma ret_small: "0 \<le> n \<Longrightarrow> n \<le> 4096 \<Longrightarrow> c_ret (ret r n k) = Some (n, r\<lparr>r_rax := of_int n\<rparr>, k)"
  using int32_id [of n] by (simp add: c_ret_def ret_def low_half int32_def)

lemma uloads_bytes:
  "uloads k v n = Some bs \<Longrightarrow> length bs = n \<and> (\<forall>i < n. uload k (v + of_nat i) = Some (bs ! i))"
proof (induction n arbitrary: v bs)
  case (Suc n)
  then obtain b cs where b: "uload k v = Some b" "uloads k (v + 1) n = Some cs" "bs = b # cs"
    by (auto simp: bind_eq_Some_conv)
  show ?case
  proof (intro conjI allI impI)
    fix i assume "i < Suc n"
    then show "uload k (v + of_nat i) = Some (bs ! i)"
      using b Suc.IH [OF b(2)] by (cases i) (auto simp: add.assoc)
  qed (use b Suc.IH [OF b(2)] in simp)
qed simp

lemma valid_pipes: "validate_user_ptr (k\<lparr>g_pipes := ps\<rparr>) v n = validate_user_ptr k v n"
  by (simp add: validate_user_ptr_def)

text \<open>A descriptor above the standard ones that is an end of a pipe.\<close>

definition pipe_end :: "'d kernel \<Rightarrow> int \<Rightarrow> nat \<Rightarrow> int \<Rightarrow> bool" where
  "pipe_end k n p ty \<longleftrightarrow> 3 \<le> n \<and> n < 2 ^ 31 \<and> task_current (ks k) \<noteq> NULL \<and>
     task_fd_get (cur_task k) n = FPipe p \<and> ftype (fd (cur_task k) ! nat n) = ty"

lemma libc_write_pipe:
  assumes "pipe_end k w p FD_TYPE_PIPE_W" "p < length (g_pipes k)" "pipe_inv (g_pipes k ! p)" "pipe_queue (g_pipes k ! p) = []"
    and "readers (g_pipes k ! p) > 0" "validate_user_ptr k src n" "uloads k src (unat n) = Some bs" "unat n \<le> 4096"
  shows "\<exists>q r'. libc_write env w src n r k = Some (int (unat n), r', k\<lparr>g_pipes := (g_pipes k)[p := q]\<rparr>) \<and>
    pipe_inv q \<and> pipe_queue q = bs \<and> readers q = readers (g_pipes k ! p) \<and> writers q = writers (g_pipes k ! p)"
proof -
  let ?p = "g_pipes k ! p" and ?src = "\<lambda>i. case uload k (src + i) of Some b \<Rightarrow> b | None \<Rightarrow> 0"
  have cnt: "count ?p = 0" using assms(4) length_pipe_queue [of ?p] by (simp add: unat_eq_zero)
  have w: "wait_writable env k p = Some k" by (subst wait_writable.simps) (simp add: cnt PIPE_BUF_SIZE_def)
  have n: "min (unat n) (4096 - length (pipe_queue ?p)) = unat n" using assms(4,8) by simp
  obtain q where q: "pipe_write ?p n ?src = (int (unat n), q)" "pipe_inv q" "readers q = readers ?p" "writers q = writers ?p"
      "pipe_queue q = map (\<lambda>i. ?src (of_nat i)) [0..<unat n]"
    using pipe_write_result [OF assms(3) n [symmetric], of ?src] unfolding assms(4) append_Nil by blast
  note bs = uloads_bytes [OF assms(7)]
  have "pipe_queue q = bs" unfolding q(5) using bs by (intro nth_equalityI) auto
  moreover have "libc_write env w src n r k =
      c_ret (pipe_write_user (r\<lparr>r_rax := 1, r_rdi := of_c_int w, r_rsi := src, r_rdx := n\<rparr>) k p)"
    using assms(1,5,6) w
    by (simp add: libc_write_def call3_def int80_def syscall_handler_c_def sys_write_def pipe_end_def arg_of_c_int int32_id Let_def)
  moreover have "\<dots> = c_ret (ret (r\<lparr>r_rax := 1, r_rdi := of_c_int w, r_rsi := src, r_rdx := n\<rparr>) (int (unat n)) (k\<lparr>g_pipes := (g_pipes k)[p := q]\<rparr>))"
    using q(1) assms(7) by (simp add: pipe_write_user_def)
  moreover have "c_ret (ret r' (int (unat n)) k') = Some (int (unat n), r'\<lparr>r_rax := of_int (int (unat n))\<rparr>, k')" for r' k'
    using assms(8) by (intro ret_small) linarith+
  ultimately have "\<exists>r'. libc_write env w src n r k = Some (int (unat n), r', k\<lparr>g_pipes := (g_pipes k)[p := q]\<rparr>)" by metis
  then show ?thesis using q(2-4) \<open>pipe_queue q = bs\<close> by blast
qed

lemma libc_read_pipe:
  assumes "pipe_end k rd p FD_TYPE_PIPE_R" "p < length (g_pipes k)" "pipe_inv (g_pipes k ! p)" "pipe_queue (g_pipes k ! p) \<noteq> []"
    and "validate_user_ptr k dst m" "length (pipe_queue (g_pipes k ! p)) \<le> unat m"
  shows "\<exists>q r'. pipe_inv q \<and> pipe_queue q = [] \<and> libc_read env rd dst m r k =
    map_option (\<lambda>k'. (int (length (pipe_queue (g_pipes k ! p))), r', k'))
      (ustores (k\<lparr>g_pipes := (g_pipes k)[p := q]\<rparr>) dst (pipe_queue (g_pipes k ! p)))"
proof -
  let ?p = "g_pipes k ! p"
  let ?n = "length (pipe_queue ?p)"
  let ?r = "r\<lparr>r_rax := 3, r_rdi := of_c_int rd, r_rsi := dst, r_rdx := m\<rparr>"
  have cnt: "count ?p \<noteq> 0" using assms(4) length_pipe_queue [of ?p] by (auto simp del: length_pipe_queue)
  have w: "wait_readable env k p = Some k" by (subst wait_readable.simps) (simp add: cnt)
  have n: "min (unat m) ?n = ?n" using assms(6) by simp
  obtain d q where q: "pipe_read ?p m (\<lambda>_. 0) = (int ?n, d, q)" "pipe_inv q" "pipe_queue q = drop ?n (pipe_queue ?p)"
      "\<forall>i. d i = (if unat i < ?n then pipe_queue ?p ! unat i else 0)"
    using pipe_read_result [OF assms(3) n [symmetric], of "\<lambda>_. 0"] by blast
  have le: "?n \<le> 4096" using pipe_invD [OF assms(3)] by simp
  have d: "map (\<lambda>i. d (of_nat i)) [0..<?n] = pipe_queue ?p"
    using q(4) le by (intro nth_equalityI) (auto simp: unat_of_nat take_bit_eq_mod simp del: length_pipe_queue)
  have "libc_read env rd dst m r k = c_ret (pipe_read_user ?r k p)"
    using assms(1,5) w cnt
    by (simp add: libc_read_def call3_def int80_def syscall_handler_c_def sys_read_def pipe_end_def arg_of_c_int int32_id Let_def)
  also have "\<dots> = c_ret (Option.bind (ustores (k\<lparr>g_pipes := (g_pipes k)[p := q]\<rparr>) dst (pipe_queue ?p)) (ret ?r (int ?n)))"
    using d by (simp add: pipe_read_user_def q(1) del: length_pipe_queue)
  also have "\<dots> = map_option (\<lambda>k'. (int ?n, ?r\<lparr>r_rax := of_nat ?n\<rparr>, k')) (ustores (k\<lparr>g_pipes := (g_pipes k)[p := q]\<rparr>) dst (pipe_queue ?p))"
  proof (cases "ustores (k\<lparr>g_pipes := (g_pipes k)[p := q]\<rparr>) dst (pipe_queue ?p)")
    case (Some k')
    then show ?thesis using le ret_small [of "int ?n" ?r k'] by (simp only: bind.simps option.map of_int_of_nat_eq)
  qed (simp add: c_ret_def)
  finally show ?thesis using q(2,3) by (intro exI [of _ q] exI [of _ "?r\<lparr>r_rax := of_nat ?n\<rparr>"]) simp
qed

text \<open>
  C40: What a program writes into a pipe it reads back, through the system calls as the library makes them: with an empty
  pipe that has a reader, \<open>write\<close> of up to 4096 bytes returns their number without waiting, and the next \<open>read\<close> with a
  buffer that is large enough returns the same number, stores exactly the bytes written and leaves the pipe empty.
\<close>

theorem pipe_end_to_end:
  assumes "pipe_end k w p FD_TYPE_PIPE_W" "pipe_end k rd p FD_TYPE_PIPE_R"
    and "p < length (g_pipes k)" "pipe_inv (g_pipes k ! p)" "pipe_queue (g_pipes k ! p) = []" "readers (g_pipes k ! p) > 0"
    and "validate_user_ptr k src n" "uloads k src (unat n) = Some bs" "0 < n" "n \<le> 4096"
    and "validate_user_ptr k dst m" "n \<le> m"
  shows "\<exists>r1 k1 r2 q. libc_write env w src n r k = Some (int (unat n), r1, k1) \<and>
    libc_read env rd dst m r' k1 =
      map_option (\<lambda>k2. (int (unat n), r2, k2)) (ustores (k\<lparr>g_pipes := (g_pipes k)[p := q]\<rparr>) dst bs) \<and>
    pipe_inv q \<and> pipe_queue q = []"
proof -
  have le: "unat n \<le> 4096" "0 < unat n" "unat n \<le> unat m" using assms(9,10,12) by (simp_all add: word_le_nat_alt word_less_nat_alt)
  obtain q1 r1 where w: "libc_write env w src n r k = Some (int (unat n), r1, k\<lparr>g_pipes := (g_pipes k)[p := q1]\<rparr>)"
      "pipe_inv q1" "pipe_queue q1 = bs"
    using libc_write_pipe [OF assms(1,3-8) le(1)] by metis
  let ?k = "k\<lparr>g_pipes := (g_pipes k)[p := q1]\<rparr>"
  have len: "length bs = unat n" using uloads_bytes [OF assms(8)] by simp
  have at: "g_pipes ?k ! p = q1" using assms(3) by simp
  have "pipe_end ?k rd p FD_TYPE_PIPE_R" using assms(2) by (simp add: pipe_end_def)
  moreover have "validate_user_ptr ?k dst m" using assms(11) by (simp add: valid_pipes)
  moreover have "bs \<noteq> []" "length bs \<le> unat m" using len le by auto
  ultimately obtain q r2 where "pipe_inv q" "pipe_queue q = []" "libc_read env rd dst m r' ?k =
      map_option (\<lambda>k'. (int (unat n), r2, k')) (ustores (?k\<lparr>g_pipes := (g_pipes ?k)[p := q]\<rparr>) dst bs)"
    using libc_read_pipe [of ?k rd p dst m env r'] assms(3) w(2,3) len unfolding at by auto
  then show ?thesis using w(1) by auto
qed

definition pipe_kernel :: "unit kernel" where
  "pipe_kernel = ones_kernel\<lparr>
     ks := (ks ones_kernel)\<lparr>tasks := (\<lambda>_. file_task\<lparr>fd := (fd file_task)[3 := \<lparr>fptr = FPipe 0, ftype = FD_TYPE_PIPE_W, fused = True\<rparr>,
       4 := \<lparr>fptr = FPipe 0, ftype = FD_TYPE_PIPE_R, fused = True\<rparr>]\<rparr>)\<rparr>,
     g_pipes := map pipe_reset (g_pipes ones_kernel)\<rparr>"

lemma pipe_end_to_end_witness:
  "\<exists>r1 k1 r2 q. libc_write idle_env 3 0x400000 2 (call_regs 0 0 0 0) pipe_kernel = Some (2, r1, k1) \<and>
    libc_read idle_env 4 0x400000 8 (call_regs 0 0 0 0) k1 =
      map_option (\<lambda>k2. (2, r2, k2)) (ustores (pipe_kernel\<lparr>g_pipes := (g_pipes pipe_kernel)[0 := q]\<rparr>) 0x400000 [1, 1])"
proof -
  have one: "page_rounds 0x400000 0x401000 = Suc 0" by (simp add: page_rounds_def PAGE_SIZE_def)
  have phys: "paging_get_phys_on ones_machine t v \<noteq> 0" if "v = 0x400000 \<or> v = 0x400001" for t v
    using that by (auto simp: paging_get_phys_on_def ones_machine_def load64_ones PAGE_PRESENT_def PAGE_HUGE_def PAGE_ADDR_MASK_def Let_def)
  have M: "kmach pipe_kernel = ones_machine" by (simp add: pipe_kernel_def ones_kernel_def)
  have load: "uload pipe_kernel v = Some 1" if "v = 0x400000 \<or> v = 0x400001" for v
    using phys [OF that] by (simp add: uload_def M Let_def) (simp add: ones_machine_def)
  have v: "validate_user_ptr pipe_kernel 0x400000 2" "validate_user_ptr pipe_kernel 0x400000 8"
    using phys by (simp_all add: validate_user_ptr_def M one paging_get_phys_def)
  have bs: "uloads pipe_kernel 0x400000 (unat (2 :: u64)) = Some [1, 1]"
  proof -
    have "unat (2 :: u64) = Suc (Suc 0)" by simp
    then show ?thesis using load [of "0x400000"] load [of "0x400001"] by (simp only:) simp
  qed
  have ends: "pipe_end pipe_kernel 3 0 FD_TYPE_PIPE_W" "pipe_end pipe_kernel 4 0 FD_TYPE_PIPE_R"
    by (simp_all add: pipe_end_def pipe_kernel_def ones_kernel_def demo_sched_def task_current_def task_fd_get_def file_task_def
      task_zero_def TASK_MAX_FD_def)
  have p: "0 < length (g_pipes pipe_kernel)" "pipe_inv (g_pipes pipe_kernel ! 0)" "pipe_queue (g_pipes pipe_kernel ! 0) = []"
      "readers (g_pipes pipe_kernel ! 0) > 0"
    by (simp_all add: pipe_kernel_def ones_kernel_def pipe_reset_def pipe_inv_def pipe_queue_def PIPE_BUF_SIZE_def pipe_zero_def)
  from pipe_end_to_end [OF ends p v(1) bs _ _ v(2), of idle_env "call_regs 0 0 0 0" "call_regs 0 0 0 0"] show ?thesis by auto
qed

end
