(* ===== verification/Spec2Isabelle.thy ===== *)
theory Spec2Isabelle
  imports FatFile UserLibSpec NetSpec KShellRun Rtl8139 PciSpec DesktopSpec EditSpec Interrupts UserShellSpec Calc Cursor Boot LibC
begin

text \<open>
  A verification of eponaOS, a small operating system for x86-64 written in C: the kernel with its memory management,
  scheduler, file system, drivers, network stack, shell and desktop, and the programs for users that run on its system
  calls. Every definition is a translation of the C code in the order of its files; the theorems are about these
  definitions. The names of the definitions are the names of the C functions where these are free.

  The program and its parts. \<^verbatim>\<open>kernel_main\<close> initialises the components one after the other, mounts a FAT file system, asks
  the network for an address, creates the first tasks and runs the shell of the kernel. The shell starts programs, which
  enter the kernel by system calls, or the desktop, whose terminal windows run the shell again. Interrupts drive the
  scheduler, the keyboard and the mouse.

  Memory.
  \<^item> \<open>Pmm\<close>, \<^verbatim>\<open>mm/pmm.c\<close>: the bitmap of physical frames. After \<open>pmm_init\<close> exactly the usable frames are free; an allocation
    takes the lowest free frame. Other components use the
    locale \<open>frame_allocator\<close>, interpreted there.
  \<^item> \<open>Paging\<close>, \<^verbatim>\<open>mm/paging.c\<close>: the four levels of page tables in byte addressed physical memory, with the translation of
    the processor as a walk over them. Mapping and unmapping change exactly one translation; large pages are split.
  \<^item> \<open>Heap\<close>, \<^verbatim>\<open>mm/heap.c\<close>: block headers as a store from addresses, over the frames and page tables. Live data areas never
    meet and the blocks tile the heap (locale \<open>block_allocator\<close>).
  \<^item> \<open>CString\<close>, \<^verbatim>\<open>lib/string.c\<close>: copying, comparing and cutting strings on byte addressed memory.

  Tasks and system calls.
  \<^item> \<open>Sched\<close>, \<^verbatim>\<open>kernel/scheduler.c\<close>: the circular list of tasks as links in a store, round robin, sleeping, signals, file
    descriptors (locale \<open>descriptor_table\<close>).
  \<^item> \<open>Pipe\<close>, the ring buffers of \<^verbatim>\<open>kernel/syscall.c\<close>: a bounded first-in first-out queue (locale \<open>bounded_fifo\<close>).
  \<^item> \<open>Elf\<close>, \<^verbatim>\<open>kernel/elf.c\<close>: loading programs into fresh pages, with their arguments.
  \<^item> \<open>Syscall\<close> and \<open>SyscallSpec\<close>, \<^verbatim>\<open>kernel/syscall.c\<close>: the dispatcher and all calls on one state of the kernel; user memory is
    read and written through the current page tables. The shape of the state is kept by every call; accepted pointers
    are mapped; a reader of a pipe waits exactly until there is data or no writer.
  \<^item> \<open>Interrupts\<close>, \<^verbatim>\<open>kernel/gdt.c\<close>, \<^verbatim>\<open>kernel/idt.c\<close>, \<^verbatim>\<open>kernel/isr.c\<close>: descriptors, gates, exceptions and hardware interrupts.
  \<^item> \<open>Boot\<close>, \<^verbatim>\<open>kernel/main.c\<close>: the start, composed of the models of the components.

  Files.
  \<^item> \<open>Vfs\<close>, \<^verbatim>\<open>fs/vfs.c\<close>: mounts, paths and open files over a record of file system operations. Looking up a path is looking up
    its components in the tree of directories.
  \<^item> \<open>Ports\<close>, \<open>Ata\<close>, \<^verbatim>\<open>drivers/ata.c\<close>: the disk driver over port operations; with an emulated drive the sectors written are
    read back (locale \<open>block_device\<close>).
  \<^item> \<open>Bytes\<close>, \<open>Fat\<close>, \<open>FatTable\<close>, \<open>FatFile\<close>, \<^verbatim>\<open>fs/fat.c\<close>: chains of clusters, names, directories, reading and writing (locale
    \<open>fat_volume\<close>, an extension of \<open>block_device\<close>). Reading gives the bytes of the chain, with the limits the theorem states.

  Devices.
  \<^item> \<open>Devices\<close>: serial line, clock, timer and interrupt controllers (\<^verbatim>\<open>drivers/serial.c\<close>, \<^verbatim>\<open>drivers/rtc.c\<close>, \<^verbatim>\<open>kernel/pit.c\<close>,
    \<^verbatim>\<open>kernel/pic.c\<close>); \<open>Pci\<close>, \<open>PciSpec\<close>: \<^verbatim>\<open>drivers/pci.c\<close> and \<^verbatim>\<open>drivers/acpi.c\<close>.
  \<^item> \<open>Input\<close>, \<^verbatim>\<open>drivers/keyboard.c\<close>, \<^verbatim>\<open>drivers/mouse.c\<close>: the key buffer is a queue (locale \<open>key_buffer\<close>).
  \<^item> \<open>Gpu\<close>, \<open>GpuSpec\<close>, \<open>Console\<close>, \<^verbatim>\<open>drivers/gpu.c\<close>: pixels in a frame buffer and a text console, which refines a screen of
    characters; \<open>Terminal\<close>, \<^verbatim>\<open>kernel/term.c\<close>: escape sequences (both interpret the locale \<open>safe_machine\<close>); \<open>Cursor\<close>,
    \<^verbatim>\<open>drivers/cursor.c\<close>: pointers from files.
  \<^item> \<open>Rtl8139\<close>, \<^verbatim>\<open>drivers/rtl8139.c\<close>: the network card with its rings in memory; \<open>Net\<close>, \<open>NetSpec\<close>, \<^verbatim>\<open>net/net.c\<close>: ARP, IPv4,
    ICMP, UDP, DHCP, DNS and a TCP client.

  What the user sees.
  \<^item> \<open>KShell\<close>, \<open>KShellCmds\<close>, \<open>KShellSpec\<close>, \<open>KShellRun\<close>, \<^verbatim>\<open>kernel/shell.c\<close>: line editor, history, paths, commands.
  \<^item> \<open>Gui\<close>, \<open>Desktop\<close>, \<open>DesktopSpec\<close>, \<^verbatim>\<open>kernel/gui.c\<close>: windows, their stacking order, the pointer, and the loop over frames.
  \<^item> \<open>LibC\<close>, \<open>UserLib\<close>, \<open>UserLibSpec\<close>: \<^verbatim>\<open>user/libc.h\<close> and \<^verbatim>\<open>user/stdlib.c\<close>; \<open>Edit\<close>, \<open>EditSpec\<close>: \<^verbatim>\<open>user/edit.c\<close>; \<open>UserShell\<close>,
    \<open>UserShellSpec\<close>: \<^verbatim>\<open>user/shell.c\<close>; \<open>Calc\<close>: \<^verbatim>\<open>user/calculator.c\<close>.

  Conventions. Static variables of a file are a record; operations take it and return it. Machine integers are words of
  their width, so they wrap around as the processor does; values of type \<open>int\<close> are integers where no overflow can occur
  and are brought into range by \<open>int32\<close> where it can. Memory is a function from addresses to bytes. C strings handed
  around by value are the lists of their bytes before the zero. An error result of C is an error result of the model;
  \<open>None\<close> is what has no result: an access outside an array or mapped memory, a trap, or a loop that does not end.
  Such loops are \<open>partial_function\<close>s, or recursive functions where a measure decreases. Fuel occurs in two places: the depth of the recursion
  over the buses is an argument (256 levels are enough for a tree of buses, as their theorem shows), and the loop of the
  desktop runs over the list of its inputs, which it uses up. The limits of polling loops are those of the code.

  Outside the model, as parameters. Hardware is a record of port operations (\<open>ports\<close>) on a state of its own; the theorems
  about drivers use emulations of a drive, a UART, a clock, a configuration space and two interrupt controllers, which
  follow the data sheets as far as the drivers use them. What other tasks and interrupts do while a call waits is a
  function in \<open>env\<close>; keys, packets, ticks and the movements of the mouse are inputs. A received packet is a function
  of the offset, because the stack reads behind its end. For the programs the system calls are a record of functions.

  Properties. Each is numbered in the text before it and stands in the theory of its component; those that span
  components are in \<open>SyscallSpec\<close>, \<open>LibC\<close>, \<open>KShellRun\<close>, \<open>Elf\<close> and \<open>DesktopSpec\<close>. Where the code does not do what it is
  meant to do, the theorem says what it does.

  Not modelled. The assembly (boot sectors, the change to long mode, interrupt stubs, the context switch, entering user
  mode, the start of programs) has no C semantics; what it does to registers and stacks is in the definitions that call
  it. Messages on the serial line are left out, except where the text itself is the result. Caches and the translation buffer of the
  processor are not modelled, but every \<open>invlpg\<close> is recorded. Tasks interleave only where the code yields or waits.
  \<^verbatim>\<open>user/sysmon.c\<close>, \<^verbatim>\<open>user/spin.c\<close> and the test programs only print the results of system calls. Of the user library, \<open>exit\<close>,
  \<open>fork\<close> and \<open>wait\<close> only make a system call. The demonstration tasks of \<^verbatim>\<open>kernel/main.c\<close> count for ever.
\<close>

end
